(* ===== verification/Prelude.thy ===== *)
theory Prelude
  imports
    Complex_Main
    "HOL-Library.AList"
    "HOL-Library.Char_ord"
    "HOL-Library.List_Lexorder"
    "HOL-Library.Product_Lexorder"
begin

text \<open>
  Shared ground of the development: the type names of the model, fallible computations as
  sums, SQL tables as association lists in rowid order, 64-bit wrap-around, and the generic
  theory of ``keep the greatest element per key'' folds on which the last-writer-wins merge,
  the mirror and the log compaction rest.
\<close>

section \<open>Types and proof collections\<close>

type_synonym millis = int
type_synonym 'v table = "(string \<times> 'v) list"

named_theorems table_simps \<open>lookups and updates of SQL tables\<close>
named_theorems sum_simps \<open>fallible computations\<close>

section \<open>Fallible computations\<close>

text \<open>A Go function that returns an error next to its result is a sum: \<open>Inl\<close> is the error
  and the early return, \<open>Inr\<close> the result.\<close>

definition bind_sum :: "'e + 'a \<Rightarrow> ('a \<Rightarrow> 'e + 'b) \<Rightarrow> 'e + 'b" where
  "bind_sum m f = (case m of Inl e \<Rightarrow> Inl e | Inr x \<Rightarrow> f x)"

text \<open>A loop whose body may return early: the fold stops at the first error.\<close>

fun fold_sum :: "('x \<Rightarrow> 's \<Rightarrow> 'e + 's) \<Rightarrow> 'x list \<Rightarrow> 's \<Rightarrow> 'e + 's" where
  "fold_sum f [] s = Inr s"
| "fold_sum f (x # xs) s = bind_sum (f x s) (fold_sum f xs)"

lemma bind_sum_Inl [simp, sum_simps]: "bind_sum (Inl e) f = Inl e"
  by (simp add: bind_sum_def)

lemma bind_sum_Inr [simp, sum_simps]: "bind_sum (Inr x) f = f x"
  by (simp add: bind_sum_def)

lemma bind_sum_eq_Inr:
  "bind_sum m f = Inr y \<longleftrightarrow> (\<exists>x. m = Inr x \<and> f x = Inr y)"
  by (cases m) auto

lemma bind_sum_eq_Inl:
  "bind_sum m f = Inl e \<longleftrightarrow> m = Inl e \<or> (\<exists>x. m = Inr x \<and> f x = Inl e)"
  by (cases m) auto

lemma fold_sum_append:
  "fold_sum f (xs @ ys) s = bind_sum (fold_sum f xs s) (fold_sum f ys)"
proof (induction xs arbitrary: s)
  case Nil
  then show ?case by simp
next
  case (Cons x xs)
  then show ?case by (cases "f x s") simp_all
qed

text \<open>The two rules every loop proof uses: an invariant the body keeps survives the loop, and
  a body that never fails under the invariant gives a loop that never fails.\<close>

lemma fold_sum_invariant:
  assumes "fold_sum f xs s = Inr t"
    and "P s"
    and "\<And>x s t. x \<in> set xs \<Longrightarrow> P s \<Longrightarrow> f x s = Inr t \<Longrightarrow> P t"
  shows "P t"
  using assms
proof (induction xs arbitrary: s)
  case Nil
  then show ?case by simp
next
  case (Cons x xs)
  from Cons.prems(1) obtain u where u: "f x s = Inr u" "fold_sum f xs u = Inr t"
    by (auto simp: bind_sum_eq_Inr)
  have "P u" using Cons.prems(2) u(1) Cons.prems(3) [of x s u] by simp
  then show ?case
    by (rule Cons.IH [OF u(2)]) (rule Cons.prems(3), simp_all)
qed

lemma fold_sum_total:
  assumes "P s"
    and "\<And>x s. x \<in> set xs \<Longrightarrow> P s \<Longrightarrow> \<exists>t. f x s = Inr t \<and> P t"
  shows "\<exists>t. fold_sum f xs s = Inr t \<and> P t"
  using assms
proof (induction xs arbitrary: s)
  case Nil
  then show ?case by simp
next
  case (Cons x xs)
  then obtain u where "f x s = Inr u" "P u" by (metis list.set_intros(1))
  with Cons show ?case by simp
qed

text \<open>A relation between start and end that is reflexive, transitive and holds over every
  iteration holds over the whole loop.\<close>

lemma fold_sum_relation:
  assumes "fold_sum f xs s = Inr t"
    and "\<And>s. R s s"
    and "\<And>s t u. R s t \<Longrightarrow> R t u \<Longrightarrow> R s u"
    and "\<And>x s t. x \<in> set xs \<Longrightarrow> f x s = Inr t \<Longrightarrow> R s t"
  shows "R s t"
  using assms(1) fold_sum_invariant [of f xs s t "R s"] assms(2-4) by blast

section \<open>64-bit integers\<close>

text \<open>Go's \<open>int64\<close> addition wraps around; a value is kept as its signed reading.\<close>

definition wrap64 :: "int \<Rightarrow> int" where
  "wrap64 x = (x + 2 ^ 63) mod 2 ^ 64 - 2 ^ 63"

abbreviation max_int64 :: int where
  "max_int64 \<equiv> 2 ^ 63 - 1"

definition int64 :: "int \<Rightarrow> bool" where
  "int64 x \<longleftrightarrow> - (2 ^ 63) \<le> x \<and> x \<le> max_int64"

lemma wrap64_id: "int64 x \<Longrightarrow> wrap64 x = x"
  by (simp add: int64_def wrap64_def)

lemma int64_wrap64 [simp]: "int64 (wrap64 x)"
proof -
  have "0 \<le> (x + 2 ^ 63) mod 2 ^ 64" and "(x + 2 ^ 63) mod 2 ^ 64 < (2 :: int) ^ 64"
    by simp_all
  then show ?thesis by (auto simp: int64_def wrap64_def)
qed

section \<open>Tables\<close>

text \<open>
  An SQL table with a text primary key is the association list of its rows in rowid order:
  \<^const>\<open>map_of\<close> is the primary-key lookup and \<^const>\<open>AList.update\<close> the
  \<open>INSERT ... ON CONFLICT DO UPDATE\<close>, which keeps the position of an existing row and
  appends a new one. Its well-formedness is that the primary key is unique.
\<close>

abbreviation upsert :: "string \<Rightarrow> 'v \<Rightarrow> 'v table \<Rightarrow> 'v table" where
  "upsert \<equiv> AList.update"

abbreviation unique_keys :: "'v table \<Rightarrow> bool" where
  "unique_keys t \<equiv> distinct (map fst t)"

lemma map_of_upsert [simp, table_simps]: "map_of (upsert k v t) = (map_of t)(k \<mapsto> v)"
  by (rule update_conv')

lemma unique_keys_upsert [simp, table_simps]: "unique_keys t \<Longrightarrow> unique_keys (upsert k v t)"
  by (rule distinct_update)

lemma in_set_upsert:
  "unique_keys t \<Longrightarrow> (k', w) \<in> set (upsert k v t) \<longleftrightarrow>
     (if k' = k then w = v else (k', w) \<in> set t)"
  using map_of_eq_Some_iff [of "upsert k v t" k' w] map_of_eq_Some_iff [of t k' w] by auto

text \<open>The interface a client of a keyed table relies on, and the facts clients use: a lookup
  returns the last write, writes to different keys do not interfere, and the key set only
  grows.\<close>

locale keyed_table =
  fixes get :: "'t \<Rightarrow> 'k \<Rightarrow> 'v option"
    and put :: "'k \<Rightarrow> 'v \<Rightarrow> 't \<Rightarrow> 't"
    and wf :: "'t \<Rightarrow> bool"
  assumes get_put: "get (put k v t) k' = (if k' = k then Some v else get t k')"
    and wf_put: "wf t \<Longrightarrow> wf (put k v t)"
begin

lemma get_put_same: "get (put k v t) k = Some v"
  by (simp add: get_put)

lemma get_put_other: "k' \<noteq> k \<Longrightarrow> get (put k v t) k' = get t k'"
  by (simp add: get_put)

lemma put_put: "get (put k v (put k w t)) = get (put k v t)"
  by (rule ext) (simp add: get_put)

lemma put_commute: "k \<noteq> k' \<Longrightarrow> get (put k v (put k' w t)) = get (put k' w (put k v t))"
  by (rule ext) (simp add: get_put)

lemma dom_put: "dom (get (put k v t)) = insert k (dom (get t))"
  by (auto simp: get_put dom_def split: if_splits)

lemma wf_fold_put: "wf t \<Longrightarrow> wf (fold (\<lambda>(k, v). put k v) kvs t)"
  by (induction kvs arbitrary: t) (auto intro: wf_put)

end

interpretation sql: keyed_table "map_of :: 'v table \<Rightarrow> string \<Rightarrow> 'v option" upsert unique_keys
  by unfold_locales simp_all

section \<open>Keeping the greatest element per key\<close>

text \<open>One step of the fold: a new element replaces the kept one exactly when the kept one is
  strictly smaller.\<close>

definition keep_step :: "('a \<Rightarrow> 'a \<Rightarrow> bool) \<Rightarrow> ('a \<Rightarrow> 'k) \<Rightarrow> 'a \<Rightarrow> ('k \<rightharpoonup> 'a) \<Rightarrow> ('k \<rightharpoonup> 'a)" where
  "keep_step lt key x w =
     (case w (key x) of
        None \<Rightarrow> w(key x \<mapsto> x)
      | Some c \<Rightarrow> if lt c x then w(key x \<mapsto> x) else w)"

text \<open>\<open>is_winner\<close> is the specification: the element of \<open>X\<close> with key \<open>k\<close> and the
  greatest rank.\<close>

definition is_winner :: "('a \<Rightarrow> 'r::linorder) \<Rightarrow> ('a \<Rightarrow> 'k) \<Rightarrow> 'a set \<Rightarrow> 'k \<Rightarrow> 'a option \<Rightarrow> bool" where
  "is_winner rank key X k w \<longleftrightarrow>
     (case w of
        None \<Rightarrow> (\<forall>x \<in> X. key x \<noteq> k)
      | Some a \<Rightarrow> a \<in> X \<and> key a = k \<and> (\<forall>x \<in> X. key x = k \<longrightarrow> rank x \<le> rank a))"

locale last_writer_wins =
  fixes lt :: "'a \<Rightarrow> 'a \<Rightarrow> bool"
    and rank :: "'a \<Rightarrow> 'r::linorder"
    and key :: "'a \<Rightarrow> 'k"
  assumes lt_rank: "lt x y \<longleftrightarrow> rank x < rank y"
begin

lemma keep_step_winner:
  assumes "\<And>k. is_winner rank key X k (w k)"
  shows "is_winner rank key (insert x X) k (keep_step lt key x w k)"
  using assms [of k] assms [of "key x"]
  by (auto simp: is_winner_def keep_step_def lt_rank split: option.splits if_splits)
    (metis less_imp_le order.trans)

lemma fold_keep_winner:
  assumes "\<And>k. is_winner rank key X k (w k)"
  shows "is_winner rank key (X \<union> set xs) k (fold (keep_step lt key) xs w k)"
  using assms
proof (induction xs arbitrary: X w)
  case Nil
  then show ?case by simp
next
  case (Cons x xs)
  have "is_winner rank key (insert x X) k (keep_step lt key x w k)" for k
    using Cons.prems by (rule keep_step_winner)
  from Cons.IH [OF this] show ?case by simp
qed

lemma winners_spec: "is_winner rank key (set xs) k (fold (keep_step lt key) xs Map.empty k)"
  using fold_keep_winner [of "{}" Map.empty] by (simp add: is_winner_def)

lemma winner_unique:
  assumes "is_winner rank key X k v" and "is_winner rank key X k w" and "inj_on rank X"
  shows "v = w"
proof (cases v)
  case None
  with assms(1,2) show ?thesis by (auto simp: is_winner_def split: option.splits)
next
  case (Some a)
  with assms(1,2) obtain b where w: "w = Some b"
    by (auto simp: is_winner_def split: option.splits)
  have "rank a \<le> rank b" "rank b \<le> rank a" and "a \<in> X" "b \<in> X"
    using assms(1,2) Some w by (auto simp: is_winner_def)
  with assms(3) have "a = b" by (meson antisym inj_onD)
  with Some w show ?thesis by simp
qed

text \<open>Convergence: the result depends on the set of elements only, not on their order, their
  number or how they are split into batches.\<close>

lemma winners_converge:
  assumes "set xs = set ys" and "inj_on rank (set xs)"
  shows "fold (keep_step lt key) xs Map.empty = fold (keep_step lt key) ys Map.empty"
proof (rule ext)
  fix k
  show "fold (keep_step lt key) xs Map.empty k = fold (keep_step lt key) ys Map.empty k"
    using winners_spec [of xs k] winners_spec [of ys k] assms by (simp add: winner_unique)
qed

end

section \<open>Joined strings\<close>

text \<open>\<open>strings.Join\<close>.\<close>

fun join_with :: "string \<Rightarrow> string list \<Rightarrow> string" where
  "join_with sep [] = []"
| "join_with sep [x] = x"
| "join_with sep (x # xs) = x @ sep @ join_with sep xs"

end
