(* ===== verification/Registry.thy ===== *)
theory Registry
  imports Prelude
begin

text \<open>
  The declared shape of the synced data
  (\<^verbatim>\<open>third_party/rhizome-server-go/registry\<close>): the seven ForestNote tables, the known columns
  per table that validation and normalization use, the canonical schema string and the
  tombstone columns compaction uses.
\<close>

section \<open>Declarations\<close>

datatype ColumnType = TextT | IntT | RealT | BoolT | TimestampT | BlobT | ColorIntT

record Column =
  colName :: string
  colType :: ColumnType
  colNullable :: bool

record Table =
  tabName :: string
  tabPK :: string
  tabTombstone :: string
  tabColumns :: "Column list"
  tabServerAuthoredOnly :: bool

definition col :: "string \<Rightarrow> ColumnType \<Rightarrow> Column" where
  "col n t = \<lparr>colName = n, colType = t, colNullable = False\<rparr>"

definition nullable_col :: "string \<Rightarrow> ColumnType \<Rightarrow> Column" where
  "nullable_col n t = \<lparr>colName = n, colType = t, colNullable = True\<rparr>"

definition mk_table :: "string \<Rightarrow> bool \<Rightarrow> Column list \<Rightarrow> Table" where
  "mk_table n server cs =
     \<lparr>tabName = n, tabPK = ''id'', tabTombstone = ''deleted_at'', tabColumns = cs,
      tabServerAuthoredOnly = server\<rparr>"

definition ForestNote :: "Table list" where
  "ForestNote =
    [mk_table ''folder'' False
       [col ''name'' TextT, col ''sort_order'' IntT, col ''created_at'' TimestampT,
        nullable_col ''deleted_at'' TimestampT, nullable_col ''parent_folder_id'' TextT],
     mk_table ''notebook'' False
       [col ''name'' TextT, col ''sort_order'' IntT, col ''created_at'' TimestampT,
        nullable_col ''deleted_at'' TimestampT, nullable_col ''folder_id'' TextT,
        nullable_col ''aspect_long_axis'' IntT, nullable_col ''page_width'' IntT,
        nullable_col ''page_height'' IntT],
     mk_table ''page'' False
       [col ''notebook_id'' TextT, col ''sort_order'' IntT, col ''created_at'' TimestampT,
        nullable_col ''deleted_at'' TimestampT, nullable_col ''template'' TextT,
        nullable_col ''template_pitch_mm'' IntT],
     mk_table ''stroke'' False
       [col ''page_id'' TextT, col ''color'' ColorIntT, col ''pen_width_min'' IntT,
        col ''pen_width_max'' IntT, col ''points'' BlobT, col ''brush_kind'' TextT,
        col ''brush_version'' IntT, col ''brush_seed'' IntT, nullable_col ''point_dynamics'' BlobT,
        col ''z'' IntT, col ''created_at'' TimestampT, nullable_col ''deleted_at'' TimestampT],
     mk_table ''text_box'' False
       [col ''page_id'' TextT, col ''x'' IntT, col ''y'' IntT, col ''width'' IntT, col ''height'' IntT,
        col ''text'' TextT, col ''font_name'' TextT, col ''font_size'' IntT, col ''color'' ColorIntT,
        col ''weight'' IntT, col ''border_width'' IntT, col ''z'' IntT,
        col ''created_at'' TimestampT, nullable_col ''deleted_at'' TimestampT],
     mk_table ''page_text_from_server'' True
       [col ''text'' TextT, col ''ocr_at'' TimestampT, nullable_col ''model'' TextT,
        col ''created_at'' TimestampT, nullable_col ''deleted_at'' TimestampT],
     mk_table ''page_text_from_client'' False
       [col ''text'' TextT, col ''ocr_at'' TimestampT, nullable_col ''model'' TextT,
        col ''created_at'' TimestampT, nullable_col ''deleted_at'' TimestampT]]"

section \<open>What is derived from the declaration\<close>

definition sortedColNames :: "Table \<Rightarrow> string list" where
  "sortedColNames t = sort (map colName (tabColumns t))"

definition KnownCols :: "Table list \<Rightarrow> string \<rightharpoonup> string list" where
  "KnownCols ts = map_of (map (\<lambda>t. (tabName t, sortedColNames t)) (rev ts))"

definition Canonical :: "Table list \<Rightarrow> string" where
  "Canonical ts =
     join_with '';'' (map (\<lambda>t. tabName t @ '':'' @ join_with '','' (sortedColNames t))
       (sort_key tabName ts))"

definition fnTombstoneCols :: "string \<rightharpoonup> string" where
  "fnTombstoneCols =
     map_of (map (\<lambda>t. (tabName t, tabTombstone t))
       (filter (\<lambda>t. tabTombstone t \<noteq> []) (rev ForestNote)))"

definition knownCols :: "string \<rightharpoonup> string list" where
  "knownCols = KnownCols ForestNote"

section \<open>The known columns, computed\<close>

lemmas registry_defs = ForestNote_def mk_table_def col_def nullable_col_def

text \<open>The seven column lists, sorted; computed once here by the kernel.\<close>

lemma knownCols_folder:
  "knownCols ''folder'' =
     Some [''created_at'', ''deleted_at'', ''name'', ''parent_folder_id'', ''sort_order'']"
  by code_simp

lemma knownCols_notebook:
  "knownCols ''notebook'' =
     Some [''aspect_long_axis'', ''created_at'', ''deleted_at'', ''folder_id'', ''name'',
           ''page_height'', ''page_width'', ''sort_order'']"
  by code_simp

lemma knownCols_page:
  "knownCols ''page'' =
     Some [''created_at'', ''deleted_at'', ''notebook_id'', ''sort_order'', ''template'',
           ''template_pitch_mm'']"
  by code_simp

lemma knownCols_stroke:
  "knownCols ''stroke'' =
     Some [''brush_kind'', ''brush_seed'', ''brush_version'', ''color'', ''created_at'',
           ''deleted_at'', ''page_id'', ''pen_width_max'', ''pen_width_min'',
           ''point_dynamics'', ''points'', ''z'']"
  by code_simp

lemma knownCols_text_box:
  "knownCols ''text_box'' =
     Some [''border_width'', ''color'', ''created_at'', ''deleted_at'', ''font_name'',
           ''font_size'', ''height'', ''page_id'', ''text'', ''weight'', ''width'', ''x'',
           ''y'', ''z'']"
  by code_simp

lemma knownCols_page_text_from_server:
  "knownCols ''page_text_from_server'' =
     Some [''created_at'', ''deleted_at'', ''model'', ''ocr_at'', ''text'']"
  by code_simp

lemma knownCols_page_text_from_client:
  "knownCols ''page_text_from_client'' =
     Some [''created_at'', ''deleted_at'', ''model'', ''ocr_at'', ''text'']"
  by code_simp

lemma knownCols_domain:
  "knownCols t \<noteq> None \<longleftrightarrow> t \<in> {''folder'', ''notebook'', ''page'', ''stroke'', ''text_box'',
     ''page_text_from_server'', ''page_text_from_client''}"
  by (simp add: knownCols_def KnownCols_def registry_defs)

lemma known_table_cases:
  assumes "knownCols t \<noteq> None"
  obtains (folder) "t = ''folder''" | (notebook) "t = ''notebook''" | (page) "t = ''page''"
    | (stroke) "t = ''stroke''" | (text_box) "t = ''text_box''"
    | (server_text) "t = ''page_text_from_server''" | (client_text) "t = ''page_text_from_client''"
  using assms unfolding knownCols_domain insert_iff by (elim disjE emptyE) (erule that)+

lemmas knownCols_eqs = knownCols_folder knownCols_notebook knownCols_page knownCols_stroke
  knownCols_text_box knownCols_page_text_from_server knownCols_page_text_from_client

text \<open>Every table soft-deletes through \<open>deleted_at\<close>, which is one of its columns.\<close>

lemma fnTombstoneCols_eq:
  "fnTombstoneCols t = (if knownCols t = None then None else Some ''deleted_at'')"
  by (simp add: fnTombstoneCols_def knownCols_def KnownCols_def registry_defs)

end
