(* ===== verification/Sync_Op.thy ===== *)
theory Sync_Op
  imports Registry
begin

text \<open>
  The op model and the pure merge of the device sync
  (\<^verbatim>\<open>internal/syncstore/op.go\<close>, \<^verbatim>\<open>internal/syncstore/reconcile.go\<close> and the library rule
  they forward to): JSON column values, the full-row op, its wire payload, the v5 defaults,
  structural validation, normalization, the last-writer-wins order and \<open>Merge\<close>.
\<close>

section \<open>JSON column values\<close>

text \<open>The dynamic values a decoded \<open>map[string]any\<close> holds. \<open>encoding/json\<close> decodes every
  number to a \<open>float64\<close>; a finite one is the rational number it denotes.\<close>

datatype json =
  JNull
| JBool bool
| JNum rat
| JStr string
| JArr "json list"
| JObj "(string \<times> json) list"

type_synonym cols = "string \<rightharpoonup> json"

section \<open>Ops\<close>

record Op =
  opTable :: string
  opPK :: string
  opSiteID :: string
  opOpSeq :: int
  opWallTS :: int
  opCols :: cols

text \<open>The payload of a changelog row: the JSON object of an op. The ordering timestamp is under
  \<open>op_ts\<close>, or under \<open>wall_ts\<close> in rows written before the rename; the other members
  decode to their zero value when they are absent.\<close>

record payload =
  plTable :: string
  plPK :: string
  plSiteID :: string
  plOpSeq :: int
  plOpTs :: "int option"
  plWallTs :: "int option"
  plCols :: cols

definition marshalOp :: "Op \<Rightarrow> payload" where
  "marshalOp op =
     \<lparr>plTable = opTable op, plPK = opPK op, plSiteID = opSiteID op, plOpSeq = opOpSeq op,
      plOpTs = Some (opWallTS op), plWallTs = None, plCols = opCols op\<rparr>"

definition unmarshalOp :: "payload \<Rightarrow> Op" where
  "unmarshalOp p =
     (let ts = (case plOpTs p of None \<Rightarrow> 0 | Some t \<Rightarrow> t);
          ts' = (if ts = 0 then (case plWallTs p of None \<Rightarrow> ts | Some t \<Rightarrow> t) else ts)
      in \<lparr>opTable = plTable p, opPK = plPK p, opSiteID = plSiteID p, opOpSeq = plOpSeq p,
          opWallTS = ts', opCols = plCols p\<rparr>)"

section \<open>ULIDs\<close>

definition ulidAlphabet :: string where
  "ulidAlphabet = ''0123456789ABCDEFGHJKMNPQRSTVWXYZ''"

definition IsULID :: "string \<Rightarrow> bool" where
  "IsULID s \<longleftrightarrow> length s = 26 \<and> list_all (\<lambda>c. c \<in> set ulidAlphabet) s"

section \<open>Schema hash gate\<close>

text \<open>\<open>sha\<close> stands for the lowercase hex SHA-256 of the standard library.\<close>

definition SchemaHash :: "(string \<Rightarrow> string) \<Rightarrow> string" where
  "SchemaHash sha = sha (Canonical ForestNote)"

definition schemaHashV4 :: string where
  "schemaHashV4 = ''74e6b5d790c919290d0e1fca3462800a5dc4abb288042dda2b48d4eb0482bbf2''"

definition AcceptsSchemaHash :: "(string \<Rightarrow> string) \<Rightarrow> string \<Rightarrow> bool" where
  "AcceptsSchemaHash sha h \<longleftrightarrow> h = SchemaHash sha \<or> h = schemaHashV4"

section \<open>v5 defaults, validation, normalization\<close>

definition set_default :: "string \<Rightarrow> json \<Rightarrow> cols \<Rightarrow> cols" where
  "set_default k v m = (if m k = None then m(k \<mapsto> v) else m)"

definition withV5Defaults :: "Op \<Rightarrow> Op" where
  "withV5Defaults op =
     (let c0 = opCols op;
          c1 = (if opTable op = ''notebook''
                then set_default ''page_height'' JNull (set_default ''page_width'' JNull c0)
                else c0);
          c2 = (if opTable op = ''stroke''
                then set_default ''point_dynamics'' JNull
                       (set_default ''brush_seed'' (JNum 0)
                         (set_default ''brush_version'' (JNum 1)
                           (set_default ''brush_kind'' (JStr ''fountain'') c1)))
                else c1)
      in op\<lparr>opCols := c2\<rparr>)"

text \<open>\<open>validateOp\<close> returns the empty string or the reason of a permanent rejection.\<close>

definition validateOp :: "Op \<Rightarrow> string" where
  "validateOp op =
     (case knownCols (opTable op) of
        None \<Rightarrow> ''unknown table''
      | Some known \<Rightarrow>
          if \<not> IsULID (opPK op) then ''pk is not a ULID''
          else if \<not> IsULID (opSiteID op) then ''site_id is not a ULID''
          else if opOpSeq op \<le> 0 then ''op_seq must be > 0''
          else (case find (\<lambda>c. opCols op c = None) known of
                  Some c \<Rightarrow> ''missing column: '' @ c
                | None \<Rightarrow> []))"

definition Normalize :: "Op \<Rightarrow> Op" where
  "Normalize op =
     (let known = (case knownCols (opTable op) of None \<Rightarrow> [] | Some cs \<Rightarrow> cs)
      in op\<lparr>opCols := (\<lambda>c. if c \<in> set known then opCols op c else None)\<rparr>)"

section \<open>The last-writer-wins order and the merge\<close>

text \<open>The library rule compares \<open>(op_ts, op_seq, site_id)\<close>; the local \<open>Less\<close> forwards
  the three key fields to it.\<close>

type_synonym lww_key = "int \<times> int \<times> string"

definition rzLess :: "lww_key \<Rightarrow> lww_key \<Rightarrow> bool" where
  "rzLess a b =
     (case a of (ats, aseq, asite) \<Rightarrow> case b of (bts, bseq, bsite) \<Rightarrow>
        if ats \<noteq> bts then ats < bts
        else if aseq \<noteq> bseq then aseq < bseq
        else asite < bsite)"

definition opKey :: "Op \<Rightarrow> lww_key" where
  "opKey op = (opWallTS op, opOpSeq op, opSiteID op)"

definition Less :: "Op \<Rightarrow> Op \<Rightarrow> bool" where
  "Less a b = rzLess (opKey a) (opKey b)"

definition opTablePK :: "Op \<Rightarrow> string \<times> string" where
  "opTablePK op = (opTable op, opPK op)"

definition merge_step :: "Op \<Rightarrow> (string \<times> string \<rightharpoonup> Op) \<Rightarrow> (string \<times> string \<rightharpoonup> Op)" where
  "merge_step op winners =
     (let n = Normalize op; k = opTablePK n
      in case winners k of
           None \<Rightarrow> winners(k \<mapsto> n)
         | Some cur \<Rightarrow> if Less cur n then winners(k \<mapsto> n) else winners)"

definition Merge :: "Op list \<Rightarrow> (string \<times> string \<rightharpoonup> Op)" where
  "Merge ops = fold merge_step ops Map.empty"

section \<open>Facts about ops\<close>

lemma unmarshal_marshal [simp]: "unmarshalOp (marshalOp op) = op"
  by (simp add: unmarshalOp_def marshalOp_def Let_def)

lemma withV5Defaults_fields [simp]:
  "opTable (withV5Defaults op) = opTable op" "opPK (withV5Defaults op) = opPK op"
  "opSiteID (withV5Defaults op) = opSiteID op" "opOpSeq (withV5Defaults op) = opOpSeq op"
  "opWallTS (withV5Defaults op) = opWallTS op"
  by (simp_all add: withV5Defaults_def Let_def)

lemma set_default_keeps: "m k' = Some v \<Longrightarrow> set_default k d m k' = Some v"
  by (auto simp: set_default_def)

lemma set_default_idem: "m k \<noteq> None \<Longrightarrow> set_default k d m = m"
  by (auto simp: set_default_def)

lemma set_default_same [simp]: "set_default k d m k \<noteq> None"
  by (simp add: set_default_def)

lemma set_default_mono: "m k' \<noteq> None \<Longrightarrow> set_default k d m k' \<noteq> None"
  by (simp add: set_default_def)

lemma withV5Defaults_keeps:
  "opCols op c = Some v \<Longrightarrow> opCols (withV5Defaults op) c = Some v"
  by (simp add: withV5Defaults_def Let_def set_default_keeps)

lemma withV5Defaults_idem [simp]: "withV5Defaults (withV5Defaults op) = withV5Defaults op"
  by (simp add: withV5Defaults_def Let_def set_default_idem set_default_mono)

lemma Normalize_fields [simp]:
  "opTable (Normalize op) = opTable op" "opPK (Normalize op) = opPK op"
  "opSiteID (Normalize op) = opSiteID op" "opOpSeq (Normalize op) = opOpSeq op"
  "opWallTS (Normalize op) = opWallTS op"
  by (simp_all add: Normalize_def Let_def)

lemma opKey_Normalize [simp]: "opKey (Normalize op) = opKey op"
  by (simp add: opKey_def)

lemma opKey_withV5Defaults [simp]: "opKey (withV5Defaults op) = opKey op"
  by (simp add: opKey_def)

lemma opTablePK_Normalize [simp]: "opTablePK (Normalize op) = opTablePK op"
  by (simp add: opTablePK_def)

lemma Normalize_idem [simp]: "Normalize (Normalize op) = Normalize op"
  by (cases op) (simp add: Normalize_def Let_def cong: if_cong)

lemma Normalize_known:
  "knownCols (opTable op) = Some cs \<Longrightarrow> c \<in> set cs \<Longrightarrow> opCols (Normalize op) c = opCols op c"
  by (simp add: Normalize_def)

lemma validateOp_ok_iff:
  "validateOp op = [] \<longleftrightarrow>
     (\<exists>cs. knownCols (opTable op) = Some cs \<and> IsULID (opPK op) \<and> IsULID (opSiteID op) \<and>
        0 < opOpSeq op \<and> (\<forall>c \<in> set cs. opCols op c \<noteq> None))"
  by (auto simp: validateOp_def find_None_iff find_Some_iff not_le split: option.splits)

section \<open>The order is the lexicographic one\<close>

lemma rzLess_iff: "rzLess a b \<longleftrightarrow> a < b"
  by (cases a; cases b) (auto simp: rzLess_def less_prod_def)

lemma Less_iff: "Less a b \<longleftrightarrow> opKey a < opKey b"
  by (simp add: Less_def rzLess_iff)

interpretation op_lww: last_writer_wins Less opKey opTablePK
  by unfold_locales (rule Less_iff)

lemma merge_step_keep: "merge_step op = keep_step Less opTablePK (Normalize op)"
  by (rule ext) (simp add: merge_step_def keep_step_def Let_def)

lemma Merge_keep: "Merge ops = fold (keep_step Less opTablePK) (map Normalize ops) Map.empty"
proof -
  have "fold merge_step ops w = fold (keep_step Less opTablePK) (map Normalize ops) w" for w
    by (induction ops arbitrary: w) (simp_all add: merge_step_keep)
  then show ?thesis by (simp add: Merge_def)
qed

text \<open>The identity \<open>(site_id, op_seq)\<close> of an op is globally unique: a set of ops never holds
  two different ops with the same identity.\<close>

definition unique_identity :: "Op set \<Rightarrow> bool" where
  "unique_identity X \<longleftrightarrow>
     (\<forall>a \<in> X. \<forall>b \<in> X. opSiteID a = opSiteID b \<and> opOpSeq a = opOpSeq b \<longrightarrow> a = b)"

lemma unique_identity_inj: "unique_identity X \<Longrightarrow> inj_on opKey X"
  by (auto simp: unique_identity_def inj_on_def opKey_def)

lemma inj_on_opKey_Normalize:
  "inj_on opKey X \<Longrightarrow> inj_on opKey (Normalize ` X)"
  by (auto simp: inj_on_def)

end
