(* ===== verification/Base64.thy ===== *)
theory Base64
  imports Prelude
begin

text \<open>
  The standard base64 encoding (\<open>encoding/base64\<close>, \<open>StdEncoding\<close>) that blob columns
  travel in: padded quanta of four digits, line breaks ignored on input. A byte is a
  \<open>char\<close>. The round trip is what makes a re-emitted blob column decode to the stored bytes.
\<close>

section \<open>Encoding and decoding\<close>

definition b64_alphabet :: string where
  "b64_alphabet = ''ABCDEFGHIJKLMNOPQRSTUVWXYZabcdefghijklmnopqrstuvwxyz0123456789+/''"

definition b64_digit :: "nat \<Rightarrow> char" where
  "b64_digit n = b64_alphabet ! n"

text \<open>The decode map: \<open>None\<close> outside the alphabet.\<close>

definition b64_value :: "char \<Rightarrow> nat option" where
  "b64_value c = map_of (zip b64_alphabet [0..<64]) c"

definition byte_val :: "char \<Rightarrow> nat" where
  "byte_val c = of_char c"

fun EncodeToString :: "string \<Rightarrow> string" where
  "EncodeToString [] = []"
| "EncodeToString [x] =
     (let a = byte_val x in [b64_digit (a div 4), b64_digit (a mod 4 * 16), CHR ''='', CHR ''=''])"
| "EncodeToString [x, y] =
     (let a = byte_val x; b = byte_val y
      in [b64_digit (a div 4), b64_digit (a mod 4 * 16 + b div 16), b64_digit (b mod 16 * 4),
          CHR ''=''])"
| "EncodeToString (x # y # z # rest) =
     (let a = byte_val x; b = byte_val y; c = byte_val z
      in b64_digit (a div 4) # b64_digit (a mod 4 * 16 + b div 16)
         # b64_digit (b mod 16 * 4 + c div 64) # b64_digit (c mod 64) # EncodeToString rest)"

definition byte1 :: "nat \<Rightarrow> nat \<Rightarrow> char" where
  "byte1 p q = char_of (p * 4 + q div 16)"

definition byte2 :: "nat \<Rightarrow> nat \<Rightarrow> char" where
  "byte2 q r = char_of (q mod 16 * 16 + r div 4)"

definition byte3 :: "nat \<Rightarrow> nat \<Rightarrow> char" where
  "byte3 r s = char_of (r mod 4 * 64 + s)"

fun decode_quanta :: "string \<Rightarrow> string option" where
  "decode_quanta [] = Some []"
| "decode_quanta (a # b # c # d # rest) =
     (case (b64_value a, b64_value b) of
        (Some p, Some q) \<Rightarrow>
          if c = CHR ''='' then
            (if d = CHR ''='' \<and> rest = [] then Some [byte1 p q] else None)
          else (case b64_value c of
                  None \<Rightarrow> None
                | Some r \<Rightarrow>
                    if d = CHR ''='' then
                      (if rest = [] then Some [byte1 p q, byte2 q r] else None)
                    else (case b64_value d of
                            None \<Rightarrow> None
                          | Some s \<Rightarrow>
                              map_option (\<lambda>bs. byte1 p q # byte2 q r # byte3 r s # bs)
                                (decode_quanta rest)))
      | _ \<Rightarrow> None)"
| "decode_quanta _ = None"

definition DecodeString :: "string \<Rightarrow> string option" where
  "DecodeString s = decode_quanta (filter (\<lambda>c. c \<noteq> CHR 0x0A \<and> c \<noteq> CHR 0x0D) s)"

section \<open>Round trip\<close>

lemma byte_val_lt [simp]: "byte_val c < 256"
  by (simp add: byte_val_def)

lemma b64_value_digit: "n < 64 \<Longrightarrow> b64_value (b64_digit n) = Some n"
proof -
  have "\<forall>n \<in> set [0..<64]. b64_value (b64_digit n) = Some n"
    by code_simp
  then show "n < 64 \<Longrightarrow> ?thesis" by simp
qed

lemma b64_digit_plain:
  assumes "n < 64"
  shows "b64_digit n \<noteq> CHR ''=''" and "b64_digit n \<noteq> CHR 0x0A" and "b64_digit n \<noteq> CHR 0x0D"
proof -
  have "\<forall>n \<in> set [0..<64]. b64_digit n \<noteq> CHR ''='' \<and> b64_digit n \<noteq> CHR 0x0A \<and> b64_digit n \<noteq> CHR 0x0D"
    by code_simp
  with assms show "b64_digit n \<noteq> CHR ''=''" and "b64_digit n \<noteq> CHR 0x0A"
    and "b64_digit n \<noteq> CHR 0x0D" by auto
qed

lemmas b64_simps = b64_value_digit b64_digit_plain Let_def

lemma byte_parts:
  "byte1 (byte_val x div 4) (byte_val x mod 4 * 16 + byte_val y div 16) = x"
  "byte2 (byte_val x mod 4 * 16 + byte_val y div 16) (byte_val y mod 16 * 4 + byte_val z div 64) = y"
  "byte3 (byte_val y mod 16 * 4 + byte_val z div 64) (byte_val z mod 64) = z"
  "byte1 (byte_val x div 4) (byte_val x mod 4 * 16) = x"
  "byte2 (byte_val x mod 4 * 16 + byte_val y div 16) (byte_val y mod 16 * 4) = y"
proof -
  have lt: "byte_val x div 4 < 64" "byte_val y div 16 < 16" "byte_val z div 64 < 4"
    by (simp_all add: less_mult_imp_div_less)
  have "(byte_val x div 4) * 4 + (byte_val x mod 4 * 16 + byte_val y div 16) div 16 = byte_val x"
    using lt by simp
  then show "byte1 (byte_val x div 4) (byte_val x mod 4 * 16 + byte_val y div 16) = x"
    by (simp add: byte1_def byte_val_def)
  have "(byte_val x mod 4 * 16 + byte_val y div 16) mod 16 * 16
      + (byte_val y mod 16 * 4 + byte_val z div 64) div 4 = byte_val y"
    using lt by (simp add: mod_mult_self3)
  then show "byte2 (byte_val x mod 4 * 16 + byte_val y div 16)
      (byte_val y mod 16 * 4 + byte_val z div 64) = y"
    by (simp add: byte2_def byte_val_def)
  have "(byte_val y mod 16 * 4 + byte_val z div 64) mod 4 * 64 + byte_val z mod 64 = byte_val z"
    using lt by simp
  then show "byte3 (byte_val y mod 16 * 4 + byte_val z div 64) (byte_val z mod 64) = z"
    by (simp add: byte3_def byte_val_def)
  show "byte1 (byte_val x div 4) (byte_val x mod 4 * 16) = x"
    by (simp add: byte1_def byte_val_def)
  have "(byte_val x mod 4 * 16 + byte_val y div 16) mod 16 * 16 + byte_val y mod 16 * 4 div 4
      = byte_val y"
    using lt by simp
  then show "byte2 (byte_val x mod 4 * 16 + byte_val y div 16) (byte_val y mod 16 * 4) = y"
    by (simp add: byte2_def byte_val_def)
qed

lemma sextets:
  "byte_val x div 4 < 64" "byte_val x mod 4 * 16 < 64" "byte_val x mod 64 < 64"
  "byte_val x mod 16 * 4 < 64"
  "byte_val x mod 4 * 16 + byte_val y div 16 < 64" "byte_val x mod 16 * 4 + byte_val y div 64 < 64"
  using byte_val_lt [of x] byte_val_lt [of y] by linarith+

lemma encode_no_breaks:
  "filter (\<lambda>c. c \<noteq> CHR 0x0A \<and> c \<noteq> CHR 0x0D) (EncodeToString bs) = EncodeToString bs"
  by (induction bs rule: EncodeToString.induct) (simp_all add: b64_simps sextets)

lemma decode_encode [simp]: "DecodeString (EncodeToString bs) = Some bs"
proof -
  have "decode_quanta (EncodeToString bs) = Some bs"
    by (induction bs rule: EncodeToString.induct) (simp_all add: b64_simps sextets byte_parts)
  then show ?thesis by (simp add: DecodeString_def encode_no_breaks)
qed

end
