(* ===== verification/Sync_Mirror.thy ===== *)
theory Sync_Mirror
  imports Sync_Op Base64
begin

text \<open>
  The materialized mirror of \<^verbatim>\<open>internal/syncstore/store.go\<close> and
  \<^verbatim>\<open>internal/syncstore/schema.go\<close>: one table per synced entity with the provenance trio
  \<open>lww_wall_ts, lww_op_seq, lww_site_id\<close>, the column coercions, the upserts and the
  last-writer-wins row merge \<open>mergeRow\<close>.
\<close>

section \<open>Number conversions\<close>

text \<open>Go's \<open>int64(v)\<close> of a \<open>float64\<close> truncates towards zero; a value outside the range
  of \<open>int64\<close> converts to \<open>-2^63\<close> (the value the amd64 conversion instruction
  produces).\<close>

definition f64_to_i64 :: "rat \<Rightarrow> int" where
  "f64_to_i64 v =
     (let t = (if 0 \<le> v then \<lfloor>v\<rfloor> else \<lceil>v\<rceil>) in if int64 t then t else - (2 ^ 63))"

text \<open>\<open>float64(n)\<close> of an \<open>int64\<close> keeps 53 significant bits, rounding to nearest and
  ties to even.\<close>

definition round_even :: "int \<Rightarrow> int \<Rightarrow> int" where
  "round_even m u =
     (let q = m div u; r = m mod u
      in (if 2 * r > u \<or> (2 * r = u \<and> odd q) then q + 1 else q) * u)"

function f64_unit :: "int \<Rightarrow> int \<Rightarrow> int" where
  "f64_unit m u = (if 0 < u \<and> 2 ^ 53 * u \<le> m then f64_unit m (2 * u) else u)"
  by pat_completeness auto
termination
  by (relation "measure (\<lambda>(m, u). nat (m - u))") auto

declare f64_unit.simps [simp del]

definition i64_to_f64 :: "int \<Rightarrow> rat" where
  "i64_to_f64 n = of_int (sgn n * round_even \<bar>n\<bar> (f64_unit \<bar>n\<bar> 1))"

section \<open>Rows\<close>

text \<open>A nullable SQL column is an option; the columns declared \<open>NOT NULL\<close> are plain values.
  The \<open>_lww\<close> field is the provenance trio of the op that wrote the row.\<close>

record folder_row =
  fo_name :: "string option"
  fo_sort_order :: "int option"
  fo_created_at :: "int option"
  fo_deleted_at :: "int option"
  fo_parent_folder_id :: "string option"
  fo_lww :: lww_key

record notebook_row =
  nb_name :: "string option"
  nb_sort_order :: "int option"
  nb_created_at :: "int option"
  nb_deleted_at :: "int option"
  nb_folder_id :: "string option"
  nb_aspect_long_axis :: "int option"
  nb_page_width :: "int option"
  nb_page_height :: "int option"
  nb_lww :: lww_key

record page_row =
  pg_notebook_id :: "string option"
  pg_sort_order :: "int option"
  pg_created_at :: "int option"
  pg_deleted_at :: "int option"
  pg_template :: "string option"
  pg_template_pitch_mm :: "int option"
  pg_lww :: lww_key

record stroke_row =
  st_page_id :: "string option"
  st_color :: "int option"
  st_pen_width_min :: "int option"
  st_pen_width_max :: "int option"
  st_points :: "string option"
  st_brush_kind :: string
  st_brush_version :: int
  st_brush_seed :: int
  st_point_dynamics :: "string option"
  st_z :: "int option"
  st_created_at :: "int option"
  st_deleted_at :: "int option"
  st_lww :: lww_key

record text_box_row =
  tb_page_id :: "string option"
  tb_x :: "int option"
  tb_y :: "int option"
  tb_width :: "int option"
  tb_height :: "int option"
  tb_text :: "string option"
  tb_font_name :: "string option"
  tb_font_size :: "int option"
  tb_color :: "int option"
  tb_weight :: "int option"
  tb_border_width :: "int option"
  tb_z :: "int option"
  tb_created_at :: "int option"
  tb_deleted_at :: "int option"
  tb_lww :: lww_key

record page_text_row =
  pt_text :: "string option"
  pt_ocr_at :: "int option"
  pt_model :: "string option"
  pt_created_at :: "int option"
  pt_deleted_at :: "int option"
  pt_lww :: lww_key

text \<open>\<open>fn_page_text_from_server\<close> and \<open>fn_page_text_from_client\<close> have the same five
  columns.\<close>

record mirror =
  fn_folder :: "folder_row table"
  fn_notebook :: "notebook_row table"
  fn_page :: "page_row table"
  fn_stroke :: "stroke_row table"
  fn_text_box :: "text_box_row table"
  fn_page_text_from_server :: "page_text_row table"
  fn_page_text_from_client :: "page_text_row table"

definition empty_mirror :: mirror where
  "empty_mirror =
     \<lparr>fn_folder = [], fn_notebook = [], fn_page = [], fn_stroke = [], fn_text_box = [],
      fn_page_text_from_server = [], fn_page_text_from_client = []\<rparr>"

section \<open>Column coercion\<close>

text \<open>The permanent rejection a wrongly typed column causes, with the column's name.\<close>

datatype col_error =
  MustBeNumber string
| MustBeNumberOrNull string
| MustBeString string
| MustBeStringOrNull string
| MustBeBase64String string
| NotValidBase64 string
| NoSuchTable string

text \<open>A map read of a missing key gives Go's \<open>nil\<close>, as a JSON null does.\<close>

definition col_value :: "Op \<Rightarrow> string \<Rightarrow> json" where
  "col_value n k = (case opCols n k of None \<Rightarrow> JNull | Some v \<Rightarrow> v)"

definition colInt :: "Op \<Rightarrow> string \<Rightarrow> col_error + int" where
  "colInt n k = (case col_value n k of JNum v \<Rightarrow> Inr (f64_to_i64 v) | _ \<Rightarrow> Inl (MustBeNumber k))"

definition colNullInt :: "Op \<Rightarrow> string \<Rightarrow> col_error + int option" where
  "colNullInt n k =
     (case col_value n k of
        JNull \<Rightarrow> Inr None
      | JNum v \<Rightarrow> Inr (Some (f64_to_i64 v))
      | _ \<Rightarrow> Inl (MustBeNumberOrNull k))"

definition colString :: "Op \<Rightarrow> string \<Rightarrow> col_error + string" where
  "colString n k = (case col_value n k of JStr s \<Rightarrow> Inr s | _ \<Rightarrow> Inl (MustBeString k))"

definition colNullString :: "Op \<Rightarrow> string \<Rightarrow> col_error + string option" where
  "colNullString n k =
     (case col_value n k of
        JNull \<Rightarrow> Inr None
      | JStr s \<Rightarrow> Inr (Some s)
      | _ \<Rightarrow> Inl (MustBeStringOrNull k))"

definition colBytes :: "Op \<Rightarrow> string \<Rightarrow> col_error + string" where
  "colBytes n k =
     (case col_value n k of
        JStr s \<Rightarrow> (case DecodeString s of None \<Rightarrow> Inl (NotValidBase64 k) | Some b \<Rightarrow> Inr b)
      | _ \<Rightarrow> Inl (MustBeBase64String k))"

definition colNullBytes :: "Op \<Rightarrow> string \<Rightarrow> col_error + string option" where
  "colNullBytes n k =
     (if col_value n k = JNull then Inr None else bind_sum (colBytes n k) (\<lambda>b. Inr (Some b)))"

section \<open>From an op to its row\<close>

text \<open>The coercions of each upsert, in the order the code performs them: the first wrongly
  typed column is the reported one.\<close>

definition folder_of_op :: "Op \<Rightarrow> col_error + folder_row" where
  "folder_of_op n =
     bind_sum (colString n ''name'') (\<lambda>name'.
     bind_sum (colInt n ''sort_order'') (\<lambda>sort_order'.
     bind_sum (colInt n ''created_at'') (\<lambda>created_at'.
     bind_sum (colNullInt n ''deleted_at'') (\<lambda>deleted_at'.
     bind_sum (colNullString n ''parent_folder_id'') (\<lambda>parent_folder_id'.
     Inr \<lparr>fo_name = Some name', fo_sort_order = Some sort_order',
          fo_created_at = Some created_at', fo_deleted_at = deleted_at',
          fo_parent_folder_id = parent_folder_id', fo_lww = opKey n\<rparr>)))))"

definition notebook_of_op :: "Op \<Rightarrow> col_error + notebook_row" where
  "notebook_of_op n =
     bind_sum (colString n ''name'') (\<lambda>name'.
     bind_sum (colInt n ''sort_order'') (\<lambda>sort_order'.
     bind_sum (colInt n ''created_at'') (\<lambda>created_at'.
     bind_sum (colNullInt n ''deleted_at'') (\<lambda>deleted_at'.
     bind_sum (colNullString n ''folder_id'') (\<lambda>folder_id'.
     bind_sum (colNullInt n ''aspect_long_axis'') (\<lambda>aspect_long_axis'.
     bind_sum (colNullInt n ''page_width'') (\<lambda>page_width'.
     bind_sum (colNullInt n ''page_height'') (\<lambda>page_height'.
     Inr \<lparr>nb_name = Some name', nb_sort_order = Some sort_order',
          nb_created_at = Some created_at', nb_deleted_at = deleted_at',
          nb_folder_id = folder_id', nb_aspect_long_axis = aspect_long_axis',
          nb_page_width = page_width', nb_page_height = page_height', nb_lww = opKey n\<rparr>))))))))"

definition page_of_op :: "Op \<Rightarrow> col_error + page_row" where
  "page_of_op n =
     bind_sum (colString n ''notebook_id'') (\<lambda>notebook_id'.
     bind_sum (colInt n ''sort_order'') (\<lambda>sort_order'.
     bind_sum (colInt n ''created_at'') (\<lambda>created_at'.
     bind_sum (colNullInt n ''deleted_at'') (\<lambda>deleted_at'.
     bind_sum (colNullString n ''template'') (\<lambda>template'.
     bind_sum (colNullInt n ''template_pitch_mm'') (\<lambda>template_pitch_mm'.
     Inr \<lparr>pg_notebook_id = Some notebook_id', pg_sort_order = Some sort_order',
          pg_created_at = Some created_at', pg_deleted_at = deleted_at',
          pg_template = template', pg_template_pitch_mm = template_pitch_mm',
          pg_lww = opKey n\<rparr>))))))"

definition stroke_of_op :: "Op \<Rightarrow> col_error + stroke_row" where
  "stroke_of_op n =
     bind_sum (colString n ''page_id'') (\<lambda>page_id'.
     bind_sum (colInt n ''color'') (\<lambda>color'.
     bind_sum (colInt n ''pen_width_min'') (\<lambda>pen_width_min'.
     bind_sum (colInt n ''pen_width_max'') (\<lambda>pen_width_max'.
     bind_sum (colBytes n ''points'') (\<lambda>points'.
     bind_sum (colString n ''brush_kind'') (\<lambda>brush_kind'.
     bind_sum (colInt n ''brush_version'') (\<lambda>brush_version'.
     bind_sum (colInt n ''brush_seed'') (\<lambda>brush_seed'.
     bind_sum (colNullBytes n ''point_dynamics'') (\<lambda>point_dynamics'.
     bind_sum (colInt n ''z'') (\<lambda>z'.
     bind_sum (colInt n ''created_at'') (\<lambda>created_at'.
     bind_sum (colNullInt n ''deleted_at'') (\<lambda>deleted_at'.
     Inr \<lparr>st_page_id = Some page_id', st_color = Some color',
          st_pen_width_min = Some pen_width_min', st_pen_width_max = Some pen_width_max',
          st_points = Some points', st_brush_kind = brush_kind',
          st_brush_version = brush_version', st_brush_seed = brush_seed',
          st_point_dynamics = point_dynamics', st_z = Some z',
          st_created_at = Some created_at', st_deleted_at = deleted_at', st_lww = opKey n\<rparr>))))))))))))"

definition text_box_of_op :: "Op \<Rightarrow> col_error + text_box_row" where
  "text_box_of_op n =
     bind_sum (colString n ''page_id'') (\<lambda>page_id'.
     bind_sum (colInt n ''x'') (\<lambda>x'.
     bind_sum (colInt n ''y'') (\<lambda>y'.
     bind_sum (colInt n ''width'') (\<lambda>width'.
     bind_sum (colInt n ''height'') (\<lambda>height'.
     bind_sum (colString n ''text'') (\<lambda>text'.
     bind_sum (colString n ''font_name'') (\<lambda>font_name'.
     bind_sum (colInt n ''font_size'') (\<lambda>font_size'.
     bind_sum (colInt n ''color'') (\<lambda>color'.
     bind_sum (colInt n ''weight'') (\<lambda>weight'.
     bind_sum (colInt n ''border_width'') (\<lambda>border_width'.
     bind_sum (colInt n ''z'') (\<lambda>z'.
     bind_sum (colInt n ''created_at'') (\<lambda>created_at'.
     bind_sum (colNullInt n ''deleted_at'') (\<lambda>deleted_at'.
     Inr \<lparr>tb_page_id = Some page_id', tb_x = Some x', tb_y = Some y',
          tb_width = Some width', tb_height = Some height', tb_text = Some text',
          tb_font_name = Some font_name', tb_font_size = Some font_size',
          tb_color = Some color', tb_weight = Some weight',
          tb_border_width = Some border_width', tb_z = Some z',
          tb_created_at = Some created_at', tb_deleted_at = deleted_at', tb_lww = opKey n\<rparr>))))))))))))))"

definition page_text_of_op :: "Op \<Rightarrow> col_error + page_text_row" where
  "page_text_of_op n =
     bind_sum (colString n ''text'') (\<lambda>text'.
     bind_sum (colInt n ''ocr_at'') (\<lambda>ocr_at'.
     bind_sum (colNullString n ''model'') (\<lambda>model'.
     bind_sum (colInt n ''created_at'') (\<lambda>created_at'.
     bind_sum (colNullInt n ''deleted_at'') (\<lambda>deleted_at'.
     Inr \<lparr>pt_text = Some text', pt_ocr_at = Some ocr_at', pt_model = model',
          pt_created_at = Some created_at', pt_deleted_at = deleted_at', pt_lww = opKey n\<rparr>)))))"

section \<open>Upserts\<close>

definition upsertFolder :: "Op \<Rightarrow> mirror \<Rightarrow> col_error + mirror" where
  "upsertFolder n m =
     bind_sum (folder_of_op n) (\<lambda>r. Inr (m\<lparr>fn_folder := upsert (opPK n) r (fn_folder m)\<rparr>))"

definition upsertNotebook :: "Op \<Rightarrow> mirror \<Rightarrow> col_error + mirror" where
  "upsertNotebook n m =
     bind_sum (notebook_of_op n)
       (\<lambda>r. Inr (m\<lparr>fn_notebook := upsert (opPK n) r (fn_notebook m)\<rparr>))"

definition upsertPage :: "Op \<Rightarrow> mirror \<Rightarrow> col_error + mirror" where
  "upsertPage n m =
     bind_sum (page_of_op n) (\<lambda>r. Inr (m\<lparr>fn_page := upsert (opPK n) r (fn_page m)\<rparr>))"

text \<open>A stroke and a text box report the page they sit on.\<close>

definition the_text :: "string option \<Rightarrow> string" where
  "the_text s = (case s of None \<Rightarrow> [] | Some t \<Rightarrow> t)"

definition upsertStroke :: "Op \<Rightarrow> mirror \<Rightarrow> col_error + (string \<times> mirror)" where
  "upsertStroke n m =
     bind_sum (stroke_of_op n)
       (\<lambda>r. Inr (the_text (st_page_id r), m\<lparr>fn_stroke := upsert (opPK n) r (fn_stroke m)\<rparr>))"

definition upsertTextBox :: "Op \<Rightarrow> mirror \<Rightarrow> col_error + (string \<times> mirror)" where
  "upsertTextBox n m =
     bind_sum (text_box_of_op n)
       (\<lambda>r. Inr (the_text (tb_page_id r), m\<lparr>fn_text_box := upsert (opPK n) r (fn_text_box m)\<rparr>))"

definition upsertPageText :: "Op \<Rightarrow> mirror \<Rightarrow> col_error + mirror" where
  "upsertPageText n m =
     bind_sum (page_text_of_op n)
       (\<lambda>r. if opTable n = ''page_text_from_server''
            then Inr (m\<lparr>fn_page_text_from_server := upsert (opPK n) r (fn_page_text_from_server m)\<rparr>)
            else Inr (m\<lparr>fn_page_text_from_client := upsert (opPK n) r (fn_page_text_from_client m)\<rparr>))"

section \<open>The row merge\<close>

text \<open>\<open>SELECT lww_wall_ts, lww_op_seq, lww_site_id FROM fn_<table> WHERE id = ?\<close>: an
  unknown table is an SQL error, a missing row is \<open>None\<close>.\<close>

definition load_lww :: "mirror \<Rightarrow> string \<Rightarrow> string \<Rightarrow> col_error + lww_key option" where
  "load_lww m t pk =
     (if t = ''folder'' then Inr (map_option fo_lww (map_of (fn_folder m) pk))
      else if t = ''notebook'' then Inr (map_option nb_lww (map_of (fn_notebook m) pk))
      else if t = ''page'' then Inr (map_option pg_lww (map_of (fn_page m) pk))
      else if t = ''stroke'' then Inr (map_option st_lww (map_of (fn_stroke m) pk))
      else if t = ''text_box'' then Inr (map_option tb_lww (map_of (fn_text_box m) pk))
      else if t = ''page_text_from_server''
        then Inr (map_option pt_lww (map_of (fn_page_text_from_server m) pk))
      else if t = ''page_text_from_client''
        then Inr (map_option pt_lww (map_of (fn_page_text_from_client m) pk))
      else Inl (NoSuchTable t))"

definition upsert_row :: "Op \<Rightarrow> mirror \<Rightarrow> col_error + (string \<times> mirror)" where
  "upsert_row n m =
     (let t = opTable n; plain = (\<lambda>r. bind_sum r (\<lambda>m'. Inr ([], m')))
      in if t = ''folder'' then plain (upsertFolder n m)
         else if t = ''notebook'' then plain (upsertNotebook n m)
         else if t = ''page'' then bind_sum (upsertPage n m) (\<lambda>m'. Inr (opPK n, m'))
         else if t = ''stroke'' then upsertStroke n m
         else if t = ''text_box'' then upsertTextBox n m
         else if t = ''page_text_from_server'' then plain (upsertPageText n m)
         else if t = ''page_text_from_client''
           then bind_sum (upsertPageText n m) (\<lambda>m'. Inr (opPK n, m'))
         else Inr ([], m))"

text \<open>\<open>mergeRow\<close> returns whether the row was written, the affected page and the mirror.\<close>

definition mergeRow :: "Op \<Rightarrow> mirror \<Rightarrow> col_error + (bool \<times> string \<times> mirror)" where
  "mergeRow n m =
     bind_sum (load_lww m (opTable n) (opPK n))
       (\<lambda>stored.
          if (case stored of None \<Rightarrow> True | Some k \<Rightarrow> rzLess k (opKey n))
          then bind_sum (upsert_row n m) (\<lambda>(page, m'). Inr (True, page, m'))
          else Inr (False, [], m))"

section \<open>The mirror as one map\<close>

text \<open>The abstract view of the seven tables: a map from \<open>(table, pk)\<close> to a row of any of
  the six shapes, and the row an op materializes to.\<close>

datatype any_row =
  FolderRow folder_row
| NotebookRow notebook_row
| PageRow page_row
| StrokeRow stroke_row
| TextBoxRow text_box_row
| PageTextRow page_text_row

fun row_lww :: "any_row \<Rightarrow> lww_key" where
  "row_lww (FolderRow r) = fo_lww r"
| "row_lww (NotebookRow r) = nb_lww r"
| "row_lww (PageRow r) = pg_lww r"
| "row_lww (StrokeRow r) = st_lww r"
| "row_lww (TextBoxRow r) = tb_lww r"
| "row_lww (PageTextRow r) = pt_lww r"

definition mirror_row :: "mirror \<Rightarrow> string \<times> string \<Rightarrow> any_row option" where
  "mirror_row m = (\<lambda>(t, pk).
     if t = ''folder'' then map_option FolderRow (map_of (fn_folder m) pk)
     else if t = ''notebook'' then map_option NotebookRow (map_of (fn_notebook m) pk)
     else if t = ''page'' then map_option PageRow (map_of (fn_page m) pk)
     else if t = ''stroke'' then map_option StrokeRow (map_of (fn_stroke m) pk)
     else if t = ''text_box'' then map_option TextBoxRow (map_of (fn_text_box m) pk)
     else if t = ''page_text_from_server''
       then map_option PageTextRow (map_of (fn_page_text_from_server m) pk)
     else if t = ''page_text_from_client''
       then map_option PageTextRow (map_of (fn_page_text_from_client m) pk)
     else None)"

definition materialize :: "Op \<Rightarrow> col_error + any_row" where
  "materialize n =
     (let t = opTable n
      in if t = ''folder'' then bind_sum (folder_of_op n) (\<lambda>r. Inr (FolderRow r))
         else if t = ''notebook'' then bind_sum (notebook_of_op n) (\<lambda>r. Inr (NotebookRow r))
         else if t = ''page'' then bind_sum (page_of_op n) (\<lambda>r. Inr (PageRow r))
         else if t = ''stroke'' then bind_sum (stroke_of_op n) (\<lambda>r. Inr (StrokeRow r))
         else if t = ''text_box'' then bind_sum (text_box_of_op n) (\<lambda>r. Inr (TextBoxRow r))
         else if t = ''page_text_from_server'' \<or> t = ''page_text_from_client''
           then bind_sum (page_text_of_op n) (\<lambda>r. Inr (PageTextRow r))
         else Inl (NoSuchTable t))"

definition wf_mirror :: "mirror \<Rightarrow> bool" where
  "wf_mirror m \<longleftrightarrow>
     unique_keys (fn_folder m) \<and> unique_keys (fn_notebook m) \<and> unique_keys (fn_page m) \<and>
     unique_keys (fn_stroke m) \<and> unique_keys (fn_text_box m) \<and>
     unique_keys (fn_page_text_from_server m) \<and> unique_keys (fn_page_text_from_client m)"

lemma wf_empty_mirror [simp]: "wf_mirror empty_mirror"
  by (simp add: wf_mirror_def empty_mirror_def)

lemma mirror_row_empty [simp]: "mirror_row empty_mirror k = None"
  by (cases k) (simp add: mirror_row_def empty_mirror_def)

lemmas of_op_defs = folder_of_op_def notebook_of_op_def page_of_op_def stroke_of_op_def
  text_box_of_op_def page_text_of_op_def

lemmas upsert_defs = upsertFolder_def upsertNotebook_def upsertPage_def upsertStroke_def
  upsertTextBox_def upsertPageText_def

lemma of_op_lww:
  "folder_of_op n = Inr r1 \<Longrightarrow> fo_lww r1 = opKey n"
  "notebook_of_op n = Inr r2 \<Longrightarrow> nb_lww r2 = opKey n"
  "page_of_op n = Inr r3 \<Longrightarrow> pg_lww r3 = opKey n"
  "stroke_of_op n = Inr r4 \<Longrightarrow> st_lww r4 = opKey n"
  "text_box_of_op n = Inr r5 \<Longrightarrow> tb_lww r5 = opKey n"
  "page_text_of_op n = Inr r6 \<Longrightarrow> pt_lww r6 = opKey n"
  by (auto simp: of_op_defs bind_sum_eq_Inr)

lemma materialize_lww: "materialize n = Inr r \<Longrightarrow> row_lww r = opKey n"
  by (auto simp: materialize_def Let_def bind_sum_eq_Inr of_op_lww split: if_splits)

lemma load_lww_view:
  assumes "knownCols t \<noteq> None"
  shows "load_lww m t pk = Inr (map_option row_lww (mirror_row m (t, pk)))"
  by (cases rule: known_table_cases [OF assms])
    (simp_all add: load_lww_def mirror_row_def option.map_comp comp_def)

text \<open>The upsert of a known table writes exactly the materialized row, at exactly its key.\<close>

lemma upsert_row_ok:
  assumes "knownCols (opTable n) \<noteq> None" and "materialize n = Inr r"
  shows "\<exists>page m'. upsert_row n m = Inr (page, m') \<and>
           mirror_row m' = (mirror_row m)(opTablePK n \<mapsto> r) \<and> (wf_mirror m \<longrightarrow> wf_mirror m')"
  using assms(2)
  by (cases rule: known_table_cases [OF assms(1)])
    (auto simp: materialize_def upsert_row_def upsert_defs bind_sum_eq_Inr mirror_row_def
      opTablePK_def fun_eq_iff wf_mirror_def)

lemma upsert_row_error:
  assumes "knownCols (opTable n) \<noteq> None" and "materialize n = Inl e"
  shows "upsert_row n m = Inl e"
  using assms(2)
  by (cases rule: known_table_cases [OF assms(1)])
    (auto simp: materialize_def upsert_row_def upsert_defs bind_sum_eq_Inl)

section \<open>The row merge refines the pure merge\<close>

text \<open>What one op does to the abstract mirror: a wrongly typed op changes nothing, any other op
  replaces the row exactly when its key is greater.\<close>

definition mirror_step :: "Op \<Rightarrow> (string \<times> string \<rightharpoonup> any_row) \<Rightarrow> (string \<times> string \<rightharpoonup> any_row)" where
  "mirror_step n v =
     (case materialize n of
        Inl _ \<Rightarrow> v
      | Inr r \<Rightarrow>
          (case v (opTablePK n) of
             None \<Rightarrow> v(opTablePK n \<mapsto> r)
           | Some r0 \<Rightarrow> if row_lww r0 < opKey n then v(opTablePK n \<mapsto> r) else v))"

definition wins :: "Op \<Rightarrow> mirror \<Rightarrow> bool" where
  "wins n m \<longleftrightarrow>
     (case mirror_row m (opTablePK n) of None \<Rightarrow> True | Some r \<Rightarrow> row_lww r < opKey n)"

lemma mergeRow_wins:
  assumes "knownCols (opTable n) \<noteq> None"
  shows "mergeRow n m =
    (if wins n m then bind_sum (upsert_row n m) (\<lambda>(page, m'). Inr (True, page, m'))
     else Inr (False, [], m))"
  using assms
  by (simp add: mergeRow_def load_lww_view wins_def opTablePK_def rzLess_iff split: option.split)

lemma mergeRow_error:
  assumes "knownCols (opTable n) \<noteq> None" and "mergeRow n m = Inl e"
  shows "materialize n = Inl e" and "mirror_step n (mirror_row m) = mirror_row m"
proof -
  have "upsert_row n m = Inl e"
    using assms by (auto simp: mergeRow_wins bind_sum_eq_Inl split: if_splits prod.splits)
  then show "materialize n = Inl e"
  proof (cases "materialize n")
    case (Inl e')
    from upsert_row_error [OF assms(1) this, of m] Inl \<open>upsert_row n m = Inl e\<close>
    show ?thesis by simp
  next
    case (Inr r)
    from upsert_row_ok [OF assms(1) this, of m] \<open>upsert_row n m = Inl e\<close>
    show ?thesis by simp
  qed
  then show "mirror_step n (mirror_row m) = mirror_row m"
    by (simp add: mirror_step_def)
qed

lemma mergeRow_view:
  assumes "knownCols (opTable n) \<noteq> None" and "mergeRow n m = Inr (changed, page, m')"
  shows "mirror_row m' = mirror_step n (mirror_row m)"
    and "wf_mirror m \<Longrightarrow> wf_mirror m'"
    and "changed \<longleftrightarrow> wins n m"
    and "\<not> changed \<Longrightarrow> m' = m"
    and "changed \<Longrightarrow> \<exists>r. materialize n = Inr r"
proof -
  have "mirror_row m' = mirror_step n (mirror_row m) \<and> (wf_mirror m \<longrightarrow> wf_mirror m') \<and>
      (changed \<longleftrightarrow> wins n m) \<and> (\<not> changed \<longrightarrow> m' = m) \<and>
      (changed \<longrightarrow> (\<exists>r. materialize n = Inr r))"
  proof (cases "wins n m")
    case False
    with assms show ?thesis
      by (auto simp: mergeRow_wins wins_def mirror_step_def split: option.splits sum.splits)
  next
    case True
    with assms have up: "upsert_row n m = Inr (page, m')" and changed
      by (auto simp: mergeRow_wins bind_sum_eq_Inr)
    obtain r where r: "materialize n = Inr r"
      using up upsert_row_error [OF assms(1)] by (cases "materialize n") auto
    with up upsert_row_ok [OF assms(1) r, of m] have "mirror_row m' = (mirror_row m)(opTablePK n \<mapsto> r)"
      and "wf_mirror m \<longrightarrow> wf_mirror m'" by auto
    with True r \<open>changed\<close> show ?thesis
      by (auto simp: mirror_step_def wins_def split: option.splits)
  qed
  then show "mirror_row m' = mirror_step n (mirror_row m)" and "wf_mirror m \<Longrightarrow> wf_mirror m'"
    and "changed \<longleftrightarrow> wins n m" and "\<not> changed \<Longrightarrow> m' = m"
    and "changed \<Longrightarrow> \<exists>r. materialize n = Inr r" by blast+
qed

text \<open>A well-typed op that wins is always written: \<open>mergeRow\<close> does not fail on it.\<close>

lemma mergeRow_succeeds:
  assumes "knownCols (opTable n) \<noteq> None" and "materialize n = Inr r" and "wins n m"
  shows "\<exists>page m'. mergeRow n m = Inr (True, page, m') \<and>
           mirror_row m' = (mirror_row m)(opTablePK n \<mapsto> r)"
  using upsert_row_ok [OF assms(1,2), of m] assms by (auto simp: mergeRow_wins)

definition typed :: "Op \<Rightarrow> bool" where
  "typed n \<longleftrightarrow> \<not> isl (materialize n)"

definition op_row :: "Op \<Rightarrow> any_row" where
  "op_row n = projr (materialize n)"

lemma typed_row: "typed n \<Longrightarrow> materialize n = Inr (op_row n)"
  by (simp add: typed_def op_row_def)

lemma op_row_lww: "typed n \<Longrightarrow> row_lww (op_row n) = opKey n"
  using typed_row materialize_lww by blast

lemma mirror_step_keep:
  assumes "\<And>k a. w k = Some a \<Longrightarrow> typed a"
  shows "mirror_step n (\<lambda>k. map_option op_row (w k)) =
    (\<lambda>k. map_option op_row ((if typed n then keep_step Less opTablePK n w else w) k))"
proof (cases "typed n")
  case False
  then show ?thesis
    by (cases "materialize n") (auto simp: mirror_step_def typed_def)
next
  case True
  then have m: "materialize n = Inr (op_row n)" by (rule typed_row)
  show ?thesis
  proof (cases "w (opTablePK n)")
    case None
    with True m show ?thesis by (auto simp: mirror_step_def keep_step_def)
  next
    case (Some a)
    then have "row_lww (op_row a) = opKey a" using assms op_row_lww by blast
    with True m Some show ?thesis
      by (auto simp: mirror_step_def keep_step_def Less_iff)
  qed
qed

lemma keep_step_typed:
  "(\<And>k a. w k = Some a \<Longrightarrow> typed a) \<Longrightarrow> typed n \<Longrightarrow> keep_step Less opTablePK n w k = Some a \<Longrightarrow> typed a"
  by (auto simp: keep_step_def split: option.splits if_splits)

lemma mirror_fold_keep:
  assumes "\<And>k a. w k = Some a \<Longrightarrow> typed a"
  shows "fold mirror_step ns (\<lambda>k. map_option op_row (w k)) =
    (\<lambda>k. map_option op_row (fold (keep_step Less opTablePK) (filter typed ns) w k))"
  using assms
proof (induction ns arbitrary: w)
  case Nil
  then show ?case by simp
next
  case (Cons n ns)
  let ?w = "if typed n then keep_step Less opTablePK n w else w"
  have "typed a" if "?w k = Some a" for k a
    using Cons.prems keep_step_typed [of w n k a] that by (cases "typed n") auto
  note step = Cons.IH [OF this]
  show ?case using mirror_step_keep [of w n, OF Cons.prems] step by simp
qed

text \<open>The mirror reached from an empty store is the row of the greatest well-typed op per
  \<open>(table, pk)\<close>.\<close>

lemma mirror_fold_winners:
  "fold mirror_step ns Map.empty =
    (\<lambda>k. map_option op_row (fold (keep_step Less opTablePK) (filter typed ns) Map.empty k))"
  using mirror_fold_keep [of Map.empty ns] by simp

end
