(* ===== verification/Hlc.thy ===== *)
theory Hlc
  imports Prelude
begin

text \<open>
  The hybrid logical clock of \<^verbatim>\<open>third_party/rhizome-server-go/hlc/hlc.go\<close>: the durable
  \<open>last\<close> is advanced by every local and every received event. The additions are Go
  \<open>int64\<close> additions, so they wrap around at \<open>2 ^ 63\<close>.
\<close>

section \<open>The clock\<close>

text \<open>A \<open>Clock\<close> is its \<open>last\<close>; the wall clock it reads is the argument \<open>wall\<close>.\<close>

definition localEvent :: "int \<Rightarrow> int \<Rightarrow> int" where
  "localEvent wall lst = max wall (wrap64 (lst + 1))"

definition receiveEvent :: "int \<Rightarrow> int \<Rightarrow> int \<Rightarrow> int" where
  "receiveEvent wall remote lst = max (max wall (wrap64 (lst + 1))) (wrap64 (remote + 1))"

text \<open>Below the last representable value the additions do not wrap.\<close>

definition clock_ok :: "int \<Rightarrow> bool" where
  "clock_ok t \<longleftrightarrow> - (2 ^ 63) \<le> t \<and> t < max_int64"

lemma wrap64_succ: "clock_ok t \<Longrightarrow> wrap64 (t + 1) = t + 1"
  by (rule wrap64_id) (simp add: clock_ok_def int64_def)

lemma localEvent_eq: "clock_ok lst \<Longrightarrow> localEvent wall lst = max wall (lst + 1)"
  by (simp add: localEvent_def wrap64_succ)

lemma localEvent_gt: "clock_ok lst \<Longrightarrow> lst < localEvent wall lst"
  by (simp add: localEvent_eq)

lemma receiveEvent_gt:
  "clock_ok lst \<Longrightarrow> clock_ok remote \<Longrightarrow>
     lst < receiveEvent wall remote lst \<and> remote < receiveEvent wall remote lst"
  by (simp add: receiveEvent_def wrap64_succ less_max_iff_disj)

text \<open>The clock contract the sync store relies on: stamping and observing both move the clock
  strictly past what it has seen.\<close>

locale monotone_clock =
  fixes stamp :: "int \<Rightarrow> int \<Rightarrow> int"
    and observe :: "int \<Rightarrow> int \<Rightarrow> int \<Rightarrow> int"
    and ok :: "int \<Rightarrow> bool"
  assumes stamp_gt: "ok lst \<Longrightarrow> lst < stamp wall lst"
    and observe_gt: "ok lst \<Longrightarrow> ok remote \<Longrightarrow> lst < observe wall remote lst"
    and observe_remote: "ok lst \<Longrightarrow> ok remote \<Longrightarrow> remote < observe wall remote lst"
begin

text \<open>A stamp taken after an observation is past everything seen before it.\<close>

lemma stamp_after_observe:
  assumes "ok lst" "ok remote" "ok (observe wall remote lst)" and "t \<le> max lst remote"
  shows "t < stamp wall' (observe wall remote lst)"
  using assms stamp_gt [of "observe wall remote lst" wall']
    observe_gt [of lst remote wall] observe_remote [of lst remote wall] by linarith

end

interpretation hlc: monotone_clock localEvent receiveEvent clock_ok
  by unfold_locales (simp_all add: localEvent_gt receiveEvent_gt)

end
