(* ===== verification/Sync_Store.thy ===== *)
theory Sync_Store
  imports Sync_Mirror Hlc
begin

text \<open>
  The durable sync store of \<^verbatim>\<open>internal/syncstore/store.go\<close>: the changelog
  \<open>sync_ops\<close>, the global sequence counter \<open>sync_seq\<close>, the authoring site
  \<open>sync_site\<close>, the device registry \<open>sync_cursors\<close> and the mirror; ingest
  (\<open>ApplyBatch\<close>), server authoring (\<open>AuthorOps\<close>), relay (\<open>OpsSince\<close>) and cursor
  bookkeeping. The wall clock a call reads is its argument \<open>now\<close>. A transaction that
  returns an error leaves the store as it was.
\<close>

section \<open>State\<close>

record log_row =
  lr_seq :: int
  lr_site_id :: string
  lr_op_seq :: int
  lr_table_name :: string
  lr_pk :: string
  lr_wall_ts :: int
  lr_payload :: payload
  lr_applied_at :: millis

record cursor_row =
  cu_last_pull_seq :: int
  cu_acked_op_seq :: int
  cu_updated_at :: millis
  cu_device_name :: string
  cu_operator_label :: string

record sync_store =
  last_seq :: int
  site_id :: string
  last_op_seq :: int
  last_hlc :: int
  sync_ops :: "log_row list"
  sync_cursors :: "cursor_row table"
  mir :: mirror

text \<open>The constraint violations and authoring errors of the store; errors of the database
  driver itself are not modelled.\<close>

datatype sync_error =
  UniqueViolation
| AuthorInvalid string string string
| AuthorMerge string string col_error

section \<open>Migration\<close>

text \<open>A database without the sync tables is \<open>None\<close>. The authoring ULID is minted on every
  start, but only the first one is kept; the legacy highlighter strokes are relabelled and the
  clock is floored at the greatest recorded timestamp.\<close>

definition fresh_store :: "string \<Rightarrow> sync_store" where
  "fresh_store ulid =
     \<lparr>last_seq = 0, site_id = ulid, last_op_seq = 0, last_hlc = 0, sync_ops = [],
      sync_cursors = [], mir = empty_mirror\<rparr>"

definition backfill_highlighter :: "stroke_row \<Rightarrow> stroke_row" where
  "backfill_highlighter r =
     (if st_brush_kind r = ''fountain'' \<and> st_color r = Some (- 2302756)
      then r\<lparr>st_brush_kind := ''highlighter''\<rparr> else r)"

definition max_or_zero :: "int list \<Rightarrow> int" where
  "max_or_zero xs = (if xs = [] then 0 else Max (set xs))"

definition Migrate :: "string \<Rightarrow> sync_store option \<Rightarrow> sync_store" where
  "Migrate ulid db =
     (let s = (case db of None \<Rightarrow> fresh_store ulid | Some s \<Rightarrow> s);
          m = mir s
      in s\<lparr>mir := m\<lparr>fn_stroke := map (\<lambda>(k, r). (k, backfill_highlighter r)) (fn_stroke m)\<rparr>,
           last_hlc := max (last_hlc s) (max_or_zero (map lr_wall_ts (sync_ops s)))\<rparr>)"

section \<open>The changelog\<close>

text \<open>\<open>SELECT 1 FROM sync_ops WHERE site_id = ? AND op_seq = ?\<close>\<close>

definition has_op :: "log_row list \<Rightarrow> string \<Rightarrow> int \<Rightarrow> bool" where
  "has_op lg site n \<longleftrightarrow> list_ex (\<lambda>r. lr_site_id r = site \<and> lr_op_seq r = n) lg"

definition appendOp :: "Op \<Rightarrow> millis \<Rightarrow> sync_store \<Rightarrow> sync_error + sync_store" where
  "appendOp op now s =
     (let seq = last_seq s + 1;
          row = \<lparr>lr_seq = seq, lr_site_id = opSiteID op, lr_op_seq = opOpSeq op,
                 lr_table_name = opTable op, lr_pk = opPK op, lr_wall_ts = opWallTS op,
                 lr_payload = marshalOp op, lr_applied_at = now\<rparr>
      in if list_ex (\<lambda>r. lr_seq r = seq) (sync_ops s) \<or> has_op (sync_ops s) (opSiteID op) (opOpSeq op)
         then Inl UniqueViolation
         else Inr (s\<lparr>last_seq := seq, sync_ops := sync_ops s @ [row]\<rparr>))"

section \<open>accepted_through\<close>

text \<open>The walk of \<open>advanceAccepted\<close>: from the high-water, over every next sequence number
  that is rejected in this call or present in the changelog. It ends because both are finite.\<close>

function accepted_walk :: "int list \<Rightarrow> log_row list \<Rightarrow> string \<Rightarrow> int \<Rightarrow> int" where
  "accepted_walk rejectedSeqs lg site h =
     (let nxt = h + 1
      in if nxt \<in> set rejectedSeqs then accepted_walk rejectedSeqs lg site nxt
         else if has_op lg site nxt then accepted_walk rejectedSeqs lg site nxt
         else h)"
  by pat_completeness auto

definition settled_above :: "int list \<Rightarrow> log_row list \<Rightarrow> int \<Rightarrow> int set" where
  "settled_above rejectedSeqs lg h = {n \<in> set rejectedSeqs \<union> set (map lr_op_seq lg). h < n}"

lemma settled_above_less:
  assumes "h + 1 \<in> set rej \<or> has_op lg site (h + 1)"
  shows "card (settled_above rej lg (h + 1)) < card (settled_above rej lg h)"
proof (rule psubset_card_mono)
  have "h + 1 \<in> settled_above rej lg h" and "h + 1 \<notin> settled_above rej lg (h + 1)"
    using assms by (force simp: settled_above_def has_op_def list_ex_iff)+
  moreover have "settled_above rej lg (h + 1) \<subseteq> settled_above rej lg h"
    by (auto simp: settled_above_def)
  ultimately show "settled_above rej lg (h + 1) \<subset> settled_above rej lg h" by blast
qed (simp add: settled_above_def)

termination accepted_walk
  by (relation "measure (\<lambda>(rej, lg, site, h). card (settled_above rej lg h))")
    (auto intro: settled_above_less)

declare accepted_walk.simps [simp del]

definition advanceAccepted ::
    "string \<Rightarrow> int \<Rightarrow> int list \<Rightarrow> millis \<Rightarrow> sync_store \<Rightarrow> int \<times> sync_store" where
  "advanceAccepted siteID acked rejectedSeqs now s =
     (let h = accepted_walk rejectedSeqs (sync_ops s) siteID acked;
          row = (case map_of (sync_cursors s) siteID of
                   Some c \<Rightarrow> c\<lparr>cu_acked_op_seq := h, cu_updated_at := now\<rparr>
                 | None \<Rightarrow> \<lparr>cu_last_pull_seq = 0, cu_acked_op_seq = h, cu_updated_at = now,
                            cu_device_name = [], cu_operator_label = []\<rparr>)
      in (h, s\<lparr>sync_cursors := upsert siteID row (sync_cursors s)\<rparr>))"

section \<open>Ingest\<close>

datatype reject_reason = Structural string | ColumnError col_error

record RejectedOp =
  rjSiteID :: string
  rjOpSeq :: int
  rjReason :: reject_reason

record ApplyResult =
  AcceptedThrough :: int
  Rejected :: "RejectedOp list"
  ChangedPages :: "(string \<times> string) list"

text \<open>The variables of the ingest loop.\<close>

record apply_acc =
  aaStore :: sync_store
  aaRejected :: "RejectedOp list"
  aaRejectedSeqs :: "int list"
  aaChangedPages :: "(string \<times> string) list"
  aaMaxIncoming :: int

definition reject_op :: "string \<Rightarrow> Op \<Rightarrow> reject_reason \<Rightarrow> apply_acc \<Rightarrow> apply_acc" where
  "reject_op siteID op reason a =
     a\<lparr>aaRejected := aaRejected a @
          [\<lparr>rjSiteID = opSiteID op, rjOpSeq = opOpSeq op, rjReason = reason\<rparr>],
       aaRejectedSeqs := (if opSiteID op = siteID then opOpSeq op # aaRejectedSeqs a
                          else aaRejectedSeqs a)\<rparr>"

text \<open>The loop body of \<open>applyBatchTx\<close>.\<close>

definition apply_op :: "string \<Rightarrow> millis \<Rightarrow> Op \<Rightarrow> apply_acc \<Rightarrow> sync_error + apply_acc" where
  "apply_op siteID now incoming a0 =
     (let op = withV5Defaults incoming;
          a = a0\<lparr>aaMaxIncoming :=
                (if opWallTS op > aaMaxIncoming a0 then opWallTS op else aaMaxIncoming a0)\<rparr>;
          s = aaStore a;
          reason = validateOp op
      in if reason \<noteq> [] then Inr (reject_op siteID op (Structural reason) a)
         else if has_op (sync_ops s) (opSiteID op) (opOpSeq op) then Inr a
         else
           (case mergeRow (Normalize op) (mir s) of
              Inl e \<Rightarrow> Inr (reject_op siteID op (ColumnError e) a)
            | Inr (changed, pagePK, m') \<Rightarrow>
                bind_sum (appendOp op now (s\<lparr>mir := m'\<rparr>))
                  (\<lambda>s'. Inr (a\<lparr>aaStore := s',
                     aaChangedPages := (if changed \<and> pagePK \<noteq> []
                       then aaChangedPages a @ [(''page'', pagePK)] else aaChangedPages a)\<rparr>))))"

text \<open>The starting point of the walk, read before the batch: the persisted high-water, or the
  changelog maximum when the device has no cursor row.\<close>

definition read_acked :: "string \<Rightarrow> sync_store \<Rightarrow> int" where
  "read_acked siteID s =
     (case map_of (sync_cursors s) siteID of
        Some c \<Rightarrow> cu_acked_op_seq c
      | None \<Rightarrow> max_or_zero (map lr_op_seq (filter (\<lambda>r. lr_site_id r = siteID) (sync_ops s))))"

definition applyBatchTx ::
    "string \<Rightarrow> Op list \<Rightarrow> millis \<Rightarrow> sync_store \<Rightarrow> sync_error + (ApplyResult \<times> sync_store)" where
  "applyBatchTx siteID ops now s =
     (let lastHlc = last_hlc s;
          acked = read_acked siteID s
      in bind_sum
           (fold_sum (apply_op siteID now) ops
              \<lparr>aaStore = s, aaRejected = [], aaRejectedSeqs = [], aaChangedPages = [],
               aaMaxIncoming = 0\<rparr>)
           (\<lambda>a. case advanceAccepted siteID acked (aaRejectedSeqs a) now (aaStore a) of
                  (accepted, s') \<Rightarrow>
                    Inr (\<lparr>AcceptedThrough = accepted, Rejected = aaRejected a,
                          ChangedPages = aaChangedPages a\<rparr>,
                         s'\<lparr>last_hlc := receiveEvent now (aaMaxIncoming a) lastHlc\<rparr>)))"

text \<open>Commit or roll back.\<close>

definition commit :: "sync_error + ('r \<times> sync_store) \<Rightarrow> sync_store \<Rightarrow> (sync_error + 'r) \<times> sync_store" where
  "commit tx s = (case tx of Inl e \<Rightarrow> (Inl e, s) | Inr (r, s') \<Rightarrow> (Inr r, s'))"

definition ApplyBatch ::
    "string \<Rightarrow> Op list \<Rightarrow> millis \<Rightarrow> sync_store \<Rightarrow> (sync_error + ApplyResult) \<times> sync_store" where
  "ApplyBatch siteID ops now s = commit (applyBatchTx siteID ops now s) s"

section \<open>Server authoring\<close>

record author_acc =
  auStore :: sync_store
  auSeq :: int
  auClock :: int
  auChanged :: "(string \<times> string) list"

definition author_op :: "string \<Rightarrow> millis \<Rightarrow> Op \<Rightarrow> author_acc \<Rightarrow> sync_error + author_acc" where
  "author_op siteID now authored a =
     (let seq = auSeq a + 1;
          clock = localEvent now (auClock a);
          op = (withV5Defaults authored)\<lparr>opSiteID := siteID, opOpSeq := seq, opWallTS := clock\<rparr>;
          s = auStore a;
          reason = validateOp op
      in if reason \<noteq> [] then Inl (AuthorInvalid (opTable op) (opPK op) reason)
         else
           (case mergeRow (Normalize op) (mir s) of
              Inl e \<Rightarrow> Inl (AuthorMerge (opTable op) (opPK op) e)
            | Inr (changed, pagePK, m') \<Rightarrow>
                bind_sum (appendOp op now (s\<lparr>mir := m'\<rparr>))
                  (\<lambda>s'. Inr \<lparr>auStore = s', auSeq = seq, auClock = clock,
                     auChanged = (if changed \<and> pagePK \<noteq> []
                       then auChanged a @ [(''page'', pagePK)] else auChanged a)\<rparr>)))"

definition authorTx :: "Op list \<Rightarrow> millis \<Rightarrow> sync_store \<Rightarrow> sync_error + ((string \<times> string) list \<times> sync_store)" where
  "authorTx ops now s =
     bind_sum
       (fold_sum (author_op (site_id s) now) ops
          \<lparr>auStore = s, auSeq = last_op_seq s, auClock = last_hlc s, auChanged = []\<rparr>)
       (\<lambda>a. Inr (auChanged a, (auStore a)\<lparr>last_op_seq := auSeq a, last_hlc := auClock a\<rparr>))"

definition AuthorOps ::
    "Op list \<Rightarrow> millis \<Rightarrow> sync_store \<Rightarrow> (sync_error + (string \<times> string) list) \<times> sync_store" where
  "AuthorOps ops now s = (if ops = [] then (Inr [], s) else commit (authorTx ops now s) s)"

section \<open>Relay\<close>

text \<open>The row loop of \<open>OpsSince\<close>: the row beyond the limit only tells that there are
  more.\<close>

fun ops_loop :: "nat \<Rightarrow> log_row list \<Rightarrow> Op list \<Rightarrow> int \<Rightarrow> Op list \<times> int \<times> bool" where
  "ops_loop limit [] ops cursor = (ops, cursor, False)"
| "ops_loop limit (r # rs) ops cursor =
     (if length ops = limit then (ops, cursor, True)
      else ops_loop limit rs (ops @ [withV5Defaults (unmarshalOp (lr_payload r))]) (lr_seq r))"

definition relay_rows :: "int \<Rightarrow> string \<Rightarrow> log_row list \<Rightarrow> log_row list" where
  "relay_rows cursor excludeSite lg =
     sort_key lr_seq (filter (\<lambda>r. cursor < lr_seq r \<and> lr_site_id r \<noteq> excludeSite) lg)"

definition OpsSince :: "int \<Rightarrow> string \<Rightarrow> int \<Rightarrow> sync_store \<Rightarrow> Op list \<times> int \<times> bool" where
  "OpsSince cursor excludeSite limit s =
     (let lim = (if limit \<le> 0 then 500 else nat limit)
      in ops_loop lim (take (lim + 1) (relay_rows cursor excludeSite (sync_ops s))) [] cursor)"

definition LastSeq :: "sync_store \<Rightarrow> int" where
  "LastSeq s = last_seq s"

section \<open>Cursor bookkeeping\<close>

definition RecordCursor :: "string \<Rightarrow> int \<Rightarrow> string \<Rightarrow> millis \<Rightarrow> sync_store \<Rightarrow> sync_store" where
  "RecordCursor siteID lastPullSeq deviceName now s =
     s\<lparr>sync_cursors := upsert siteID
        (case map_of (sync_cursors s) siteID of
           None \<Rightarrow> \<lparr>cu_last_pull_seq = lastPullSeq, cu_acked_op_seq = 0, cu_updated_at = now,
                    cu_device_name = deviceName, cu_operator_label = []\<rparr>
         | Some c \<Rightarrow> c\<lparr>cu_last_pull_seq := lastPullSeq, cu_updated_at := now,
                       cu_device_name := (if deviceName \<noteq> [] then deviceName
                                          else cu_device_name c)\<rparr>)
        (sync_cursors s)\<rparr>"

definition DeleteDevice :: "string \<Rightarrow> sync_store \<Rightarrow> bool \<times> sync_store" where
  "DeleteDevice siteID s =
     (map_of (sync_cursors s) siteID \<noteq> None,
      s\<lparr>sync_cursors := filter (\<lambda>(k, _). k \<noteq> siteID) (sync_cursors s)\<rparr>)"

definition SetDeviceLabel :: "string \<Rightarrow> string \<Rightarrow> sync_store \<Rightarrow> bool \<times> sync_store" where
  "SetDeviceLabel siteID label s =
     (map_of (sync_cursors s) siteID \<noteq> None,
      s\<lparr>sync_cursors := map (\<lambda>(k, c). (k, if k = siteID then c\<lparr>cu_operator_label := label\<rparr> else c))
          (sync_cursors s)\<rparr>)"

end
