(* ===== verification/Sync_Inv.thy ===== *)
theory Sync_Inv
  imports Sync_Store
begin

text \<open>
  The invariants of the sync store and that every operation keeps them: the changelog is
  strictly ordered by its global sequence numbers and never holds an op identity twice, its
  indexed columns agree with the payload, the keys of every table are unique, and the durable
  clock dominates every timestamp the store holds. Under them ingest never fails, and authoring
  fails only on an op that is itself invalid.
\<close>

section \<open>The store invariant\<close>

definition row_ident :: "log_row \<Rightarrow> string \<times> int" where
  "row_ident r = (lr_site_id r, lr_op_seq r)"

definition row_agrees :: "log_row \<Rightarrow> bool" where
  "row_agrees r \<longleftrightarrow>
     (let op = unmarshalOp (lr_payload r)
      in lr_site_id r = opSiteID op \<and> lr_op_seq r = opOpSeq op \<and> lr_table_name r = opTable op \<and>
         lr_pk r = opPK op \<and> lr_wall_ts r = opWallTS op)"

definition store_inv :: "sync_store \<Rightarrow> bool" where
  "store_inv s \<longleftrightarrow>
     sorted_wrt (<) (map lr_seq (sync_ops s)) \<and>
     (\<forall>r \<in> set (sync_ops s). 0 < lr_seq r \<and> lr_seq r \<le> last_seq s \<and> row_agrees r) \<and>
     0 \<le> last_seq s \<and>
     distinct (map row_ident (sync_ops s)) \<and>
     unique_keys (sync_cursors s) \<and> wf_mirror (mir s)"

text \<open>The clock invariant: no timestamp of the changelog or of the mirror is beyond the
  durable clock.\<close>

definition hlc_inv :: "sync_store \<Rightarrow> bool" where
  "hlc_inv s \<longleftrightarrow>
     (\<forall>r \<in> set (sync_ops s). lr_wall_ts r \<le> last_hlc s) \<and>
     (\<forall>k r. mirror_row (mir s) k = Some r \<longrightarrow> fst (row_lww r) \<le> last_hlc s)"

text \<open>The authoring invariant: the store's own ops in the changelog are the ones it numbered.\<close>

definition own_inv :: "sync_store \<Rightarrow> bool" where
  "own_inv s \<longleftrightarrow>
     0 \<le> last_op_seq s \<and>
     (\<forall>r \<in> set (sync_ops s). lr_site_id r = site_id s \<longrightarrow> lr_op_seq r \<le> last_op_seq s)"

lemma has_op_iff: "has_op lg site n \<longleftrightarrow> (site, n) \<in> row_ident ` set lg"
  by (force simp: has_op_def list_ex_iff row_ident_def image_iff)

lemma store_inv_fresh [simp]: "store_inv (fresh_store u)"
  by (simp add: store_inv_def fresh_store_def)

lemma hlc_inv_fresh [simp]: "hlc_inv (fresh_store u)"
  by (simp add: hlc_inv_def fresh_store_def)

lemma own_inv_fresh [simp]: "own_inv (fresh_store u)"
  by (simp add: own_inv_def fresh_store_def)

section \<open>Appending\<close>

text \<open>The row an append writes.\<close>

definition new_row :: "Op \<Rightarrow> millis \<Rightarrow> sync_store \<Rightarrow> log_row" where
  "new_row op now s =
     \<lparr>lr_seq = last_seq s + 1, lr_site_id = opSiteID op, lr_op_seq = opOpSeq op,
      lr_table_name = opTable op, lr_pk = opPK op, lr_wall_ts = opWallTS op,
      lr_payload = marshalOp op, lr_applied_at = now\<rparr>"

lemma new_row_fields [simp]:
  "lr_seq (new_row op now s) = last_seq s + 1" "lr_wall_ts (new_row op now s) = opWallTS op"
  "lr_site_id (new_row op now s) = opSiteID op" "lr_op_seq (new_row op now s) = opOpSeq op"
  "unmarshalOp (lr_payload (new_row op now s)) = op"
  "row_ident (new_row op now s) = (opSiteID op, opOpSeq op)" "row_agrees (new_row op now s)"
  by (simp_all add: new_row_def row_ident_def row_agrees_def)

lemma appendOp_eq:
  "appendOp op now s =
     (if last_seq s + 1 \<in> lr_seq ` set (sync_ops s) \<or> has_op (sync_ops s) (opSiteID op) (opOpSeq op)
      then Inl UniqueViolation
      else Inr (s\<lparr>last_seq := last_seq s + 1, sync_ops := sync_ops s @ [new_row op now s]\<rparr>))"
  by (force simp: appendOp_def new_row_def list_ex_iff Let_def)

lemma appendOp_inv:
  assumes "store_inv s" and "\<not> has_op (sync_ops s) (opSiteID op) (opOpSeq op)"
  shows "appendOp op now s =
      Inr (s\<lparr>last_seq := last_seq s + 1, sync_ops := sync_ops s @ [new_row op now s]\<rparr>)"
    and "store_inv (s\<lparr>last_seq := last_seq s + 1, sync_ops := sync_ops s @ [new_row op now s]\<rparr>)"
proof -
  have "last_seq s + 1 \<notin> lr_seq ` set (sync_ops s)"
    using assms(1) by (force simp: store_inv_def)
  with assms(2) show "appendOp op now s =
      Inr (s\<lparr>last_seq := last_seq s + 1, sync_ops := sync_ops s @ [new_row op now s]\<rparr>)"
    by (simp add: appendOp_eq)
  show "store_inv (s\<lparr>last_seq := last_seq s + 1, sync_ops := sync_ops s @ [new_row op now s]\<rparr>)"
    using assms by (force simp: store_inv_def sorted_wrt_append has_op_iff)
qed

lemma store_inv_mir: "store_inv s \<Longrightarrow> wf_mirror m \<Longrightarrow> store_inv (s\<lparr>mir := m\<rparr>)"
  by (simp add: store_inv_def)

lemma store_inv_counters [simp]:
  "store_inv (s\<lparr>last_hlc := h\<rparr>) = store_inv s" "store_inv (s\<lparr>last_op_seq := n\<rparr>) = store_inv s"
  by (simp_all add: store_inv_def)

section \<open>Ingest, one op\<close>

text \<open>The four outcomes of the loop body, each with the resulting store; a structurally valid
  new op that is well typed is appended, everything else leaves the store alone.\<close>

lemma reject_op_store [simp]: "aaStore (reject_op siteID op r a) = aaStore a"
  by (simp add: reject_op_def)

lemma valid_known: "validateOp op = [] \<Longrightarrow> knownCols (opTable op) \<noteq> None"
  by (auto simp: validateOp_ok_iff)

definition ingest_ok :: "Op \<Rightarrow> sync_store \<Rightarrow> mirror \<Rightarrow> bool" where
  "ingest_ok op s m' \<longleftrightarrow>
     validateOp op = [] \<and> \<not> has_op (sync_ops s) (opSiteID op) (opOpSeq op) \<and>
     (\<exists>changed page. mergeRow (Normalize op) (mir s) = Inr (changed, page, m'))"

lemma apply_op_cases:
  assumes "store_inv (aaStore a)"
  obtains (kept) a' where "apply_op siteID now incoming a = Inr a'" "aaStore a' = aaStore a"
      "validateOp (withV5Defaults incoming) \<noteq> [] \<or>
       has_op (sync_ops (aaStore a)) (opSiteID incoming) (opOpSeq incoming) \<or>
       \<not> typed (Normalize (withV5Defaults incoming))"
  | (appended) a' m' where "apply_op siteID now incoming a = Inr a'"
      "ingest_ok (withV5Defaults incoming) (aaStore a) m'"
      "aaStore a' = (aaStore a)\<lparr>mir := m', last_seq := last_seq (aaStore a) + 1,
         sync_ops := sync_ops (aaStore a) @ [new_row (withV5Defaults incoming) now (aaStore a)]\<rparr>"
      "store_inv (aaStore a')"
proof -
  let ?op = "withV5Defaults incoming" and ?s = "aaStore a"
  consider (invalid) "validateOp ?op \<noteq> []"
    | (dup) "validateOp ?op = []" "has_op (sync_ops ?s) (opSiteID incoming) (opOpSeq incoming)"
    | (new) "validateOp ?op = []" "\<not> has_op (sync_ops ?s) (opSiteID incoming) (opOpSeq incoming)"
    by blast
  then show thesis
  proof cases
    case new
    have known: "knownCols (opTable (Normalize ?op)) \<noteq> None" using new(1) valid_known by force
    show ?thesis
    proof (cases "mergeRow (Normalize ?op) (mir ?s)")
      case (Inl e)
      with mergeRow_error(1) [OF known] have "\<not> typed (Normalize ?op)" by (simp add: typed_def)
      with kept new Inl show ?thesis by (simp add: apply_op_def Let_def)
    next
      case (Inr t)
      obtain changed page m' where t: "t = (changed, page, m')" by (cases t)
      have "store_inv (?s\<lparr>mir := m'\<rparr>)"
        using mergeRow_view(2) [OF known Inr [unfolded t]] assms by (simp add: store_inv_def)
      note app = appendOp_inv [OF this, of ?op now]
      have "\<exists>a'. apply_op siteID now incoming a = Inr a' \<and>
          aaStore a' = ?s\<lparr>mir := m', last_seq := last_seq ?s + 1,
            sync_ops := sync_ops ?s @ [new_row ?op now ?s]\<rparr>"
        using app(1) new Inr t by (auto simp: apply_op_def new_row_def Let_def)
      moreover have "ingest_ok ?op ?s m'"
        using new Inr t by (simp add: ingest_ok_def)
      ultimately show ?thesis
        using appended [of _ m'] app(2) new(2) by (auto simp: new_row_def)
    qed
  qed (use kept in \<open>simp_all add: apply_op_def Let_def\<close>)
qed


lemma apply_op_total:
  assumes "store_inv (aaStore a)"
  shows "\<exists>a'. apply_op siteID now incoming a = Inr a' \<and> store_inv (aaStore a')"
  using assms by (cases rule: apply_op_cases [OF assms, of siteID now incoming]) auto

text \<open>The frame of the ingest loop: identity, numbering and device registry are untouched.\<close>

lemma apply_op_frame:
  assumes "apply_op siteID now incoming a = Inr a'" and "store_inv (aaStore a)"
  shows "site_id (aaStore a') = site_id (aaStore a)"
    and "last_op_seq (aaStore a') = last_op_seq (aaStore a)"
    and "last_hlc (aaStore a') = last_hlc (aaStore a)"
    and "sync_cursors (aaStore a') = sync_cursors (aaStore a)"
  using assms(1) by (cases rule: apply_op_cases [OF assms(2), of siteID now incoming]; simp)+

section \<open>Ingest, a batch\<close>

definition init_acc :: "sync_store \<Rightarrow> apply_acc" where
  "init_acc s = \<lparr>aaStore = s, aaRejected = [], aaRejectedSeqs = [], aaChangedPages = [],
     aaMaxIncoming = 0\<rparr>"

lemma init_acc_store [simp]: "aaStore (init_acc s) = s"
  by (simp add: init_acc_def)

lemma apply_loop_total:
  assumes "store_inv (aaStore a)"
  shows "\<exists>a'. fold_sum (apply_op siteID now) ops a = Inr a' \<and> store_inv (aaStore a')"
  using fold_sum_total [of "\<lambda>a. store_inv (aaStore a)" a ops "apply_op siteID now"] assms
    apply_op_total by blast

lemma advanceAccepted_inv [simp]:
  "store_inv s \<Longrightarrow> store_inv (snd (advanceAccepted siteID acked rej now s))"
  by (simp add: advanceAccepted_def Let_def store_inv_def)

text \<open>\<open>ApplyBatch\<close> in terms of its loop: the accumulator it reaches and the store it
  commits.\<close>

lemma ApplyBatch_result:
  assumes "store_inv s"
  obtains a where "fold_sum (apply_op siteID now) ops (init_acc s) = Inr a"
    and "store_inv (aaStore a)"
    and "ApplyBatch siteID ops now s =
      (Inr \<lparr>AcceptedThrough =
             accepted_walk (aaRejectedSeqs a) (sync_ops (aaStore a)) siteID (read_acked siteID s),
            Rejected = aaRejected a, ChangedPages = aaChangedPages a\<rparr>,
       (snd (advanceAccepted siteID (read_acked siteID s) (aaRejectedSeqs a) now (aaStore a)))
         \<lparr>last_hlc := receiveEvent now (aaMaxIncoming a) (last_hlc s)\<rparr>)"
proof -
  obtain a where a: "fold_sum (apply_op siteID now) ops (init_acc s) = Inr a"
    "store_inv (aaStore a)"
    using apply_loop_total [of "init_acc s" siteID now ops] assms by auto
  then show thesis
    using that by (simp add: ApplyBatch_def commit_def applyBatchTx_def init_acc_def
        advanceAccepted_def Let_def)
qed

text \<open>The same, read off a call that returned: what it reports and what it leaves in the
  store.\<close>

lemma ApplyBatch_facts:
  assumes "store_inv s" and "ApplyBatch siteID ops now s = (Inr res, s')"
  obtains a where "fold_sum (apply_op siteID now) ops (init_acc s) = Inr a"
    and "store_inv (aaStore a)"
    and "AcceptedThrough res =
      accepted_walk (aaRejectedSeqs a) (sync_ops (aaStore a)) siteID (read_acked siteID s)"
    and "Rejected res = aaRejected a" and "ChangedPages res = aaChangedPages a"
    and "sync_ops s' = sync_ops (aaStore a)" and "mir s' = mir (aaStore a)"
    and "last_seq s' = last_seq (aaStore a)"
    and "site_id s' = site_id (aaStore a)" and "last_op_seq s' = last_op_seq (aaStore a)"
    and "last_hlc s' = receiveEvent now (aaMaxIncoming a) (last_hlc s)"
    and "read_acked siteID s' = AcceptedThrough res"
    and "\<exists>c. map_of (sync_cursors s') siteID = Some c \<and> cu_acked_op_seq c = AcceptedThrough res"
proof (rule ApplyBatch_result [OF assms(1), of siteID now ops])
  fix a :: apply_acc
  assume loop: "fold_sum (apply_op siteID now) ops (init_acc s) = Inr a" "store_inv (aaStore a)"
    and res: "ApplyBatch siteID ops now s =
      (Inr \<lparr>AcceptedThrough =
             accepted_walk (aaRejectedSeqs a) (sync_ops (aaStore a)) siteID (read_acked siteID s),
            Rejected = aaRejected a, ChangedPages = aaChangedPages a\<rparr>,
       (snd (advanceAccepted siteID (read_acked siteID s) (aaRejectedSeqs a) now (aaStore a)))
         \<lparr>last_hlc := receiveEvent now (aaMaxIncoming a) (last_hlc s)\<rparr>)"
  show thesis
    by (rule that [OF loop]; use res assms(2) in
        \<open>auto simp: advanceAccepted_def read_acked_def Let_def split: option.splits\<close>)
qed

text \<open>
  C4. Ingest is total and keeps the store invariant: for any batch, valid or not, from a
  well-formed store \<open>ApplyBatch\<close> never fails and commits a well-formed store. In
  particular the changelog stays strictly ordered by global sequence number and never holds an
  op identity twice.
\<close>

theorem ApplyBatch_total_inv:
  assumes "store_inv s"
  shows "\<exists>res s'. ApplyBatch siteID ops now s = (Inr res, s') \<and> store_inv s'"
  using assms by (rule ApplyBatch_result [where siteID = siteID and ops = ops and now = now]) simp

definition ex_folder :: "int \<Rightarrow> Op" where
  "ex_folder n =
     \<lparr>opTable = ''folder'', opPK = ''01ARZ3NDEKTSV4RRFFQ69G5FAV'', opSiteID = ''01ARZ3NDEKTSV4RRFFQ69G5FA0'',
      opOpSeq = n, opWallTS = 7,
      opCols = [''name'' \<mapsto> JStr ''a'', ''sort_order'' \<mapsto> JNum 1, ''created_at'' \<mapsto> JNum 2,
                ''deleted_at'' \<mapsto> JNull, ''parent_folder_id'' \<mapsto> JNull]\<rparr>"

text \<open>A batch with a good op, the same op again, an op on no known table and one that skips a number.\<close>

theorem ApplyBatch_total_inv_witness:
  "\<exists>res s'. ApplyBatch ''01ARZ3NDEKTSV4RRFFQ69G5FA0''
       [ex_folder 1, ex_folder 1, (ex_folder 2)\<lparr>opTable := ''nowhere''\<rparr>, ex_folder 4] 5 (fresh_store ''u'') = (Inr res, s') \<and>
     store_inv s'"
  by (rule ApplyBatch_total_inv) simp

end
