(* ===== verification/Sync_Converge.thy ===== *)
theory Sync_Converge
  imports Sync_Inv
begin

text \<open>
  The mirror refines the pure merge: whatever the order of the ops, their duplication and their
  split into batches, the mirror holds per \<open>(table, pk)\<close> the row of the greatest
  structurally valid, well-typed op the store has been handed.
\<close>

section \<open>What the store has been handed\<close>

definition ingestible :: "Op \<Rightarrow> bool" where
  "ingestible op \<longleftrightarrow>
     validateOp (withV5Defaults op) = [] \<and> typed (Normalize (withV5Defaults op))"

definition wire_op :: "Op \<Rightarrow> Op" where
  "wire_op op = Normalize (withV5Defaults op)"

definition handed :: "Op set \<Rightarrow> Op set" where
  "handed X = wire_op ` {op \<in> X. ingestible op}"

text \<open>The abstract mirror of a set of ops: per key the row of the winner.\<close>

definition mirror_of :: "Op set \<Rightarrow> (string \<times> string \<rightharpoonup> any_row) \<Rightarrow> bool" where
  "mirror_of X v \<longleftrightarrow>
     (\<exists>w. v = (\<lambda>k. map_option op_row (w k)) \<and>
          (\<forall>k. is_winner opKey opTablePK (handed X) k (w k)))"

definition ingested :: "Op set \<Rightarrow> sync_store \<Rightarrow> bool" where
  "ingested X s \<longleftrightarrow>
     mirror_of X (mirror_row (mir s)) \<and>
     (\<forall>r \<in> set (sync_ops s). \<exists>op \<in> X. row_ident r = (opSiteID op, opOpSeq op))"

lemma wire_op_fields [simp]:
  "opTable (wire_op op) = opTable op" "opPK (wire_op op) = opPK op"
  "opSiteID (wire_op op) = opSiteID op" "opOpSeq (wire_op op) = opOpSeq op"
  "opKey (wire_op op) = opKey op" "opTablePK (wire_op op) = opTablePK op"
  by (simp_all add: wire_op_def opTablePK_def)

lemma handed_insert:
  "handed (insert op X) = (if ingestible op then insert (wire_op op) (handed X) else handed X)"
  by (auto simp: handed_def)

lemma handed_typed: "n \<in> handed X \<Longrightarrow> typed n"
  by (auto simp: handed_def ingestible_def wire_op_def)

lemma inj_on_handed: "unique_identity X \<Longrightarrow> inj_on opKey (handed X)"
  using unique_identity_inj [of X] by (auto simp: handed_def inj_on_def)

lemma ingested_fresh [simp]: "ingested {} (fresh_store u)"
proof -
  have "mirror_of {} (mirror_row empty_mirror)"
    unfolding mirror_of_def
    by (rule exI [of _ Map.empty]) (simp add: handed_def is_winner_def fun_eq_iff)
  then show ?thesis by (simp add: ingested_def fresh_store_def)
qed

text \<open>One op: the abstract mirror step follows the set of ops handed over.\<close>

lemma mirror_of_step:
  assumes "mirror_of X v" and "validateOp (withV5Defaults op) = []"
  shows "mirror_of (insert op X) (mirror_step (wire_op op) v)"
proof -
  obtain w where v: "v = (\<lambda>k. map_option op_row (w k))"
    and w: "\<And>k. is_winner opKey opTablePK (handed X) k (w k)"
    using assms(1) by (auto simp: mirror_of_def)
  have ty: "typed a" if "w k = Some a" for k a
    using w [of k] that handed_typed by (auto simp: is_winner_def)
  note step = mirror_step_keep [of w "wire_op op", OF ty]
  show ?thesis
  proof (cases "typed (wire_op op)")
    case True
    then have "ingestible op" using assms(2) by (simp add: ingestible_def wire_op_def)
    then show ?thesis
      using step True op_lww.keep_step_winner [OF w, of "wire_op op"]
      by (auto simp: v mirror_of_def handed_insert)
  next
    case False
    then have "\<not> ingestible op" by (simp add: ingestible_def wire_op_def)
    then show ?thesis using step False w by (auto simp: v mirror_of_def handed_insert)
  qed
qed

lemma mirror_of_skip: "mirror_of X v \<Longrightarrow> \<not> ingestible op \<Longrightarrow> mirror_of (insert op X) v"
  by (simp add: mirror_of_def handed_insert)

lemma mirror_of_unique:
  assumes "mirror_of X v" and "mirror_of X v'" and "unique_identity X"
  shows "v = v'"
proof -
  obtain w w' where v: "v = (\<lambda>k. map_option op_row (w k))" "v' = (\<lambda>k. map_option op_row (w' k))"
    and w: "\<And>k. is_winner opKey opTablePK (handed X) k (w k)"
      "\<And>k. is_winner opKey opTablePK (handed X) k (w' k)"
    using assms(1,2) by (auto simp: mirror_of_def)
  have "w k = w' k" for k
    using op_lww.winner_unique [OF w [of k] inj_on_handed [OF assms(3)]] .
  with v show ?thesis by simp
qed

section \<open>Every write keeps the refinement\<close>

text \<open>A duplicate of a recorded identity is the recorded op itself.\<close>

lemma ingested_duplicate:
  assumes "ingested X s" and "unique_identity (insert op X)"
    and "has_op (sync_ops s) (opSiteID op) (opOpSeq op)"
  shows "op \<in> X"
proof -
  obtain op' where "op' \<in> X" "opSiteID op' = opSiteID op" "opOpSeq op' = opOpSeq op"
    using assms(1,3) by (force simp: ingested_def has_op_iff)
  with assms(2) show ?thesis by (auto simp: unique_identity_def)
qed

lemma ingested_apply_op:
  assumes "apply_op siteID now op a = Inr a'" and "store_inv (aaStore a)"
    and "ingested X (aaStore a)" and "unique_identity (insert op X)"
  shows "ingested (insert op X) (aaStore a')"
proof (cases rule: apply_op_cases [OF assms(2), of siteID now op])
  case (1 b)
  have store: "aaStore a' = aaStore a" using 1(1,2) assms(1) by simp
  show ?thesis
  proof (cases "has_op (sync_ops (aaStore a)) (opSiteID op) (opOpSeq op)")
    case True
    then have "insert op X = X" using ingested_duplicate [OF assms(3,4)] by blast
    then show ?thesis using assms(3) store by simp
  next
    case False
    then have "\<not> ingestible op" using 1(3) by (auto simp: ingestible_def)
    then show ?thesis using assms(3) store by (auto simp: ingested_def mirror_of_skip)
  qed
next
  case (2 b m')
  have v: "validateOp (withV5Defaults op) = []" using 2(2) by (simp add: ingest_ok_def)
  then have "knownCols (opTable (wire_op op)) \<noteq> None" using valid_known by force
  then have "mirror_row m' = mirror_step (wire_op op) (mirror_row (mir (aaStore a)))"
    using 2(2) mergeRow_view(1) by (auto simp: ingest_ok_def wire_op_def)
  then show ?thesis
    using mirror_of_step [OF _ v] assms(1,3) 2 by (auto simp: ingested_def)
qed

lemma ingested_apply_loop:
  assumes "fold_sum (apply_op siteID now) ops a = Inr a'" and "store_inv (aaStore a)"
    and "ingested X (aaStore a)" and "unique_identity (X \<union> set ops)"
  shows "ingested (X \<union> set ops) (aaStore a')"
  using assms
proof (induction ops arbitrary: a X)
  case Nil
  then show ?case by simp
next
  case (Cons op ops)
  then obtain b where b: "apply_op siteID now op a = Inr b"
    "fold_sum (apply_op siteID now) ops b = Inr a'"
    by (auto simp: bind_sum_eq_Inr)
  have "store_inv (aaStore b)" using apply_op_total [OF Cons.prems(2), of siteID now op] b(1) by simp
  moreover have "unique_identity (insert op X)"
    using Cons.prems(4) by (auto simp: unique_identity_def)
  then have "ingested (insert op X) (aaStore b)"
    using ingested_apply_op [OF b(1)] Cons.prems(2,3) by blast
  moreover have "unique_identity (insert op X \<union> set ops)" using Cons.prems(4) by simp
  ultimately show ?case using Cons.IH [OF b(2), of "insert op X"] by simp
qed

lemma ingested_frame:
  "sync_ops s' = sync_ops s \<Longrightarrow> mir s' = mir s \<Longrightarrow> ingested X s \<Longrightarrow> ingested X s'"
  by (simp add: ingested_def)

lemma ingested_ApplyBatch:
  assumes "store_inv s" and "ingested X s" and "unique_identity (X \<union> set ops)"
    and "ApplyBatch siteID ops now s = (Inr res, s')"
  shows "ingested (X \<union> set ops) s'"
proof (rule ApplyBatch_facts [OF assms(1,4)])
  fix a :: apply_acc
  assume loop: "fold_sum (apply_op siteID now) ops (init_acc s) = Inr a"
    and store: "sync_ops s' = sync_ops (aaStore a)" "mir s' = mir (aaStore a)"
  have "ingested (X \<union> set ops) (aaStore a)"
    using ingested_apply_loop [OF loop] assms by simp
  then show ?thesis using store by (rule ingested_frame [rotated 2])
qed

lemma ApplyBatch_Inr:
  assumes "store_inv s"
  obtains res s' where "ApplyBatch siteID ops now s = (Inr res, s')" "store_inv s'"
  using assms by (rule ApplyBatch_result [where siteID = siteID and ops = ops and now = now]) simp

section \<open>Sequences of batches\<close>

text \<open>A run of the store: batches from several devices, one after the other (the database has a
  single writer).\<close>

fun sync_run :: "(string \<times> Op list \<times> millis) list \<Rightarrow> sync_store \<Rightarrow> sync_store" where
  "sync_run [] s = s"
| "sync_run ((siteID, ops, now) # bs) s = sync_run bs (snd (ApplyBatch siteID ops now s))"

definition run_ops :: "(string \<times> Op list \<times> millis) list \<Rightarrow> Op list" where
  "run_ops bs = concat (map (\<lambda>(_, ops, _). ops) bs)"

lemma run_ops_simps [simp]:
  "run_ops [] = []" "run_ops ((siteID, ops, now) # bs) = ops @ run_ops bs"
  by (simp_all add: run_ops_def)

lemma ingested_sync_run:
  assumes "store_inv s" and "ingested X s" and "unique_identity (X \<union> set (run_ops bs))"
  shows "ingested (X \<union> set (run_ops bs)) (sync_run bs s) \<and> store_inv (sync_run bs s)"
  using assms
proof (induction bs arbitrary: s X)
  case Nil
  then show ?case by simp
next
  case (Cons b bs)
  obtain siteID ops now where b: "b = (siteID, ops, now)" by (cases b)
  have uniq: "unique_identity (X \<union> set ops)"
    using Cons.prems(3) by (auto simp: b unique_identity_def)
  obtain res s' where s': "ApplyBatch siteID ops now s = (Inr res, s')" "store_inv s'"
    using ApplyBatch_Inr [OF Cons.prems(1)] .
  from ingested_ApplyBatch [OF Cons.prems(1,2) uniq s'(1)] Cons.IH [OF s'(2), of "X \<union> set ops"]
    Cons.prems(3) s'(1)
  show ?case by (simp add: b Un_assoc)
qed

lemma mirror_of_sync_run:
  assumes "unique_identity (set (run_ops bs))"
  shows "mirror_of (set (run_ops bs)) (mirror_row (mir (sync_run bs (fresh_store u))))"
proof -
  have "ingested ({} \<union> set (run_ops bs)) (sync_run bs (fresh_store u))"
    using ingested_sync_run [OF store_inv_fresh ingested_fresh, of bs] assms by simp
  then show ?thesis by (simp add: ingested_def)
qed

lemma mirror_of_Merge:
  "mirror_of (set ops) (\<lambda>k. map_option op_row (Merge (map withV5Defaults (filter ingestible ops)) k))"
proof -
  have "map Normalize (map withV5Defaults (filter ingestible ops)) = map wire_op (filter ingestible ops)"
    by (simp add: wire_op_def)
  moreover have "set (map wire_op (filter ingestible ops)) = handed (set ops)"
    by (simp add: handed_def)
  ultimately show ?thesis
    using op_lww.winners_spec [of "map wire_op (filter ingestible ops)"]
    unfolding mirror_of_def Merge_keep by metis
qed

text \<open>
  C3. The mirror is the pure merge: after any sequence of batches from any devices into a fresh
  store, the mirror holds exactly the materialized winners of \<open>Merge\<close> over the
  structurally valid, well-typed ops, provided op identities are globally unique.
\<close>

theorem mirror_refines_Merge:
  assumes "unique_identity (set (run_ops bs))"
  shows "mirror_row (mir (sync_run bs (fresh_store u))) =
    (\<lambda>k. map_option op_row
       (Merge (map withV5Defaults (filter ingestible (run_ops bs))) k))"
  using mirror_of_sync_run [OF assms] mirror_of_Merge assms by (rule mirror_of_unique)

text \<open>
  Strong eventual consistency of the mirror: two stores that have been handed the same set
  of ops, in any order, with any duplication and split into batches in any way, hold the same
  mirror.
\<close>

lemma mirror_convergence:
  assumes "set (run_ops bs) = set (run_ops bs')" and "unique_identity (set (run_ops bs))"
  shows "mirror_row (mir (sync_run bs (fresh_store u))) =
         mirror_row (mir (sync_run bs' (fresh_store u')))"
  using mirror_of_sync_run [of bs u] mirror_of_sync_run [of bs' u'] assms mirror_of_unique by metis

text \<open>
  The pure merge converges: its result depends only on the set of ops, not on their order or
  multiplicity.
\<close>

theorem Merge_convergence:
  assumes "set ops = set ops'" and "unique_identity (set ops)"
  shows "Merge ops = Merge ops'"
  using assms op_lww.winners_converge [of "map Normalize ops" "map Normalize ops'"]
    inj_on_opKey_Normalize [OF unique_identity_inj [OF assms(2)]]
  by (simp add: Merge_keep)

section \<open>Witnesses\<close>

text \<open>Two edits of one folder by two devices.\<close>

definition ex_pk :: string where
  "ex_pk = ''01ARZ3NDEKTSV4RRFFQ69G5FAV''"

definition ex_site :: "nat \<Rightarrow> string" where
  "ex_site n = (if n = 0 then ''01ARZ3NDEKTSV4RRFFQ69G5FA0'' else ''01ARZ3NDEKTSV4RRFFQ69G5FA1'')"

definition ex_op :: "nat \<Rightarrow> int \<Rightarrow> Op" where
  "ex_op n ts =
     \<lparr>opTable = ''folder'', opPK = ex_pk, opSiteID = ex_site n, opOpSeq = 1, opWallTS = ts,
      opCols = [''name'' \<mapsto> JStr ''a'', ''sort_order'' \<mapsto> JNum 1, ''created_at'' \<mapsto> JNum 2,
                ''deleted_at'' \<mapsto> JNull, ''parent_folder_id'' \<mapsto> JNull]\<rparr>"

lemma ex_ops_unique: "unique_identity {ex_op 0 5, ex_op 1 7}"
  by (auto simp: unique_identity_def ex_op_def ex_site_def)

lemma ex_op_ingestible: "ingestible (ex_op n ts)"
  by (simp add: ingestible_def validateOp_def withV5Defaults_def ex_op_def knownCols_folder
      IsULID_def ex_pk_def ex_site_def ulidAlphabet_def typed_def materialize_def folder_of_op_def
      colString_def colInt_def colNullInt_def colNullString_def col_value_def Normalize_def Let_def)

theorem mirror_refines_Merge_witness:
  "mirror_row (mir (sync_run [(ex_site 1, [ex_op 1 7], 10), (ex_site 0, [ex_op 0 5], 11)]
       (fresh_store ''u''))) =
   (\<lambda>k. map_option op_row (Merge (map withV5Defaults [ex_op 1 7, ex_op 0 5]) k))"
  using mirror_refines_Merge [of "[(ex_site 1, [ex_op 1 7], 10), (ex_site 0, [ex_op 0 5], 11)]" "''u''"]
    ex_ops_unique by (simp add: ex_op_ingestible insert_commute)

theorem Merge_convergence_witness: "Merge [ex_op 0 5, ex_op 1 7] = Merge [ex_op 1 7, ex_op 0 5, ex_op 0 5]"
  by (rule Merge_convergence) (use ex_ops_unique in auto)

end
