(* ===== verification/Sync_Accept.thy ===== *)
theory Sync_Accept
  imports Sync_Converge
begin

text \<open>
  The acknowledgement a device gets: \<open>accepted_through\<close> is the greatest contiguous
  settled sequence number above the persisted high-water, a rejected op neither blocks it nor is
  lost, a pruned device is not wedged, and redelivery is harmless.
\<close>

section \<open>The walk\<close>

definition settled :: "int list \<Rightarrow> log_row list \<Rightarrow> string \<Rightarrow> int \<Rightarrow> bool" where
  "settled rej lg site n \<longleftrightarrow> n \<in> set rej \<or> has_op lg site n"

lemma accepted_walk_step:
  "accepted_walk rej lg site h =
     (if settled rej lg site (h + 1) then accepted_walk rej lg site (h + 1) else h)"
  by (subst accepted_walk.simps) (simp add: Let_def settled_def)

lemma accepted_walk_spec:
  "h \<le> accepted_walk rej lg site h \<and>
   (\<forall>n. h < n \<and> n \<le> accepted_walk rej lg site h \<longrightarrow> settled rej lg site n) \<and>
   \<not> settled rej lg site (accepted_walk rej lg site h + 1)"
proof (induction rej lg site h rule: accepted_walk.induct)
  case (1 rej lg site h)
  show ?case
  proof (cases "settled rej lg site (h + 1)")
    case True
    have IH: "h + 1 \<le> accepted_walk rej lg site (h + 1) \<and>
       (\<forall>n. h + 1 < n \<and> n \<le> accepted_walk rej lg site (h + 1) \<longrightarrow> settled rej lg site n) \<and>
       \<not> settled rej lg site (accepted_walk rej lg site (h + 1) + 1)"
      using "1.IH" True unfolding settled_def by blast
    have "settled rej lg site n" if "h < n" "n \<le> accepted_walk rej lg site (h + 1)" for n
      using IH True that by (cases "n = h + 1") auto
    with IH True accepted_walk_step [of rej lg site h] show ?thesis by auto
  next
    case False
    with accepted_walk_step [of rej lg site h] show ?thesis by auto
  qed
qed

lemma accepted_walk_fixed: "\<not> settled rej lg site (h + 1) \<Longrightarrow> accepted_walk rej lg site h = h"
  using accepted_walk_step by simp

section \<open>The rejected numbers of a call\<close>

lemma apply_op_rejected:
  assumes "apply_op siteID now op a = Inr a'"
    and "set (aaRejectedSeqs a) = rjOpSeq ` {r \<in> set (aaRejected a). rjSiteID r = siteID}"
  shows "set (aaRejectedSeqs a') = rjOpSeq ` {r \<in> set (aaRejected a'). rjSiteID r = siteID}"
proof -
  have rej: "set (aaRejectedSeqs (reject_op siteID op' why b)) =
      rjOpSeq ` {r \<in> set (aaRejected (reject_op siteID op' why b)). rjSiteID r = siteID}"
    if "set (aaRejectedSeqs b) = rjOpSeq ` {r \<in> set (aaRejected b). rjSiteID r = siteID}"
    for b op' why
    using that by (auto simp: reject_op_def conj_disj_distribR Collect_disj_eq image_Un)
  show ?thesis
    using assms rej
    by (auto simp: apply_op_def Let_def bind_sum_eq_Inr split: if_splits sum.splits prod.splits)
qed

lemma apply_loop_rejected:
  assumes "fold_sum (apply_op siteID now) ops (init_acc s) = Inr a"
  shows "set (aaRejectedSeqs a) = rjOpSeq ` {r \<in> set (aaRejected a). rjSiteID r = siteID}"
  using assms
  by (rule fold_sum_invariant) (simp add: init_acc_def, rule apply_op_rejected)

lemma apply_loop_cursors:
  assumes "fold_sum (apply_op siteID now) ops a = Inr a'" and "store_inv (aaStore a)"
  shows "sync_cursors (aaStore a') = sync_cursors (aaStore a)"
proof -
  have "store_inv (aaStore a') \<and> sync_cursors (aaStore a') = sync_cursors (aaStore a)"
    using assms(1)
  proof (rule fold_sum_invariant)
    fix x s t
    assume "store_inv (aaStore s) \<and> sync_cursors (aaStore s) = sync_cursors (aaStore a)"
      and "apply_op siteID now x s = Inr t"
    then show "store_inv (aaStore t) \<and> sync_cursors (aaStore t) = sync_cursors (aaStore a)"
      using apply_op_frame(4) [of siteID now x s t] apply_op_total [of s siteID now x] by auto
  qed (simp add: assms(2))
  then show ?thesis ..
qed

text \<open>A sequence number of the device is settled by a call when the call left it in the
  changelog or rejected it.\<close>

definition settled_by :: "string \<Rightarrow> ApplyResult \<Rightarrow> sync_store \<Rightarrow> int \<Rightarrow> bool" where
  "settled_by siteID res s n \<longleftrightarrow>
     has_op (sync_ops s) siteID n \<or>
     (\<exists>r \<in> set (Rejected res). rjSiteID r = siteID \<and> rjOpSeq r = n)"

text \<open>
  C5. \<open>accepted_through\<close> is exactly the greatest number \<open>N\<close> at or above the starting
  point such that every sequence number in between is settled by the call; the next one is not,
  so a gap caps the water, and a rejected op is passed. The device's cursor row persists
  \<open>N\<close>.
\<close>

theorem accepted_through_greatest_contiguous:
  assumes "store_inv s" and "ApplyBatch siteID ops now s = (Inr res, s')"
  shows "read_acked siteID s \<le> AcceptedThrough res \<and>
    (\<forall>n. read_acked siteID s < n \<and> n \<le> AcceptedThrough res \<longrightarrow> settled_by siteID res s' n) \<and>
    \<not> settled_by siteID res s' (AcceptedThrough res + 1) \<and>
    (\<exists>c. map_of (sync_cursors s') siteID = Some c \<and> cu_acked_op_seq c = AcceptedThrough res)"
proof (rule ApplyBatch_facts [OF assms])
  fix a :: apply_acc
  let ?h = "accepted_walk (aaRejectedSeqs a) (sync_ops (aaStore a)) siteID (read_acked siteID s)"
  assume loop: "fold_sum (apply_op siteID now) ops (init_acc s) = Inr a"
    and r: "AcceptedThrough res = ?h" "Rejected res = aaRejected a"
      "sync_ops s' = sync_ops (aaStore a)"
    and cur: "\<exists>c. map_of (sync_cursors s') siteID = Some c \<and> cu_acked_op_seq c = AcceptedThrough res"
  have "settled (aaRejectedSeqs a) (sync_ops (aaStore a)) siteID n = settled_by siteID res s' n" for n
    using apply_loop_rejected [OF loop] by (auto simp: settled_def settled_by_def r)
  then show ?thesis
    using accepted_walk_spec [of "read_acked siteID s" "aaRejectedSeqs a" "sync_ops (aaStore a)" siteID]
      cur by (simp add: r)
qed

theorem accepted_through_greatest_contiguous_witness:
  "\<exists>res s'. ApplyBatch (ex_site 0) [ex_op 0 5, ex_op 1 7] 5 (fresh_store ''u'') = (Inr res, s') \<and>
     0 \<le> AcceptedThrough res \<and>
     (\<forall>n. 0 < n \<and> n \<le> AcceptedThrough res \<longrightarrow> settled_by (ex_site 0) res s' n) \<and>
     \<not> settled_by (ex_site 0) res s' (AcceptedThrough res + 1)"
proof -
  obtain res s' where r:
    "ApplyBatch (ex_site 0) [ex_op 0 5, ex_op 1 7] 5 (fresh_store ''u'') = (Inr res, s')"
    using ApplyBatch_Inr [OF store_inv_fresh] .
  have "read_acked (ex_site 0) (fresh_store ''u'') = 0"
    by (simp add: read_acked_def fresh_store_def max_or_zero_def)
  with accepted_through_greatest_contiguous [OF store_inv_fresh r] r show ?thesis by auto
qed

section \<open>A pruned device is not wedged\<close>

lemma max_or_zero_ge: "x \<in> set xs \<Longrightarrow> x \<le> max_or_zero xs"
  by (auto simp: max_or_zero_def)

lemma read_acked_pruned:
  assumes "map_of (sync_cursors s) siteID = None" and "r \<in> set (sync_ops s)"
    and "lr_site_id r = siteID"
  shows "lr_op_seq r \<le> read_acked siteID s"
  using assms by (auto simp: read_acked_def intro!: max_or_zero_ge)

lemma DeleteDevice_inv: "store_inv s \<Longrightarrow> store_inv (snd (DeleteDevice siteID s))"
  by (auto simp: DeleteDevice_def store_inv_def distinct_map_filter)

lemma DeleteDevice_row: "map_of (sync_cursors (snd (DeleteDevice siteID s))) siteID = None"
  by (auto simp: DeleteDevice_def map_of_eq_None_iff)

text \<open>
  Pruning a device and letting it come back does not wedge it: whatever holes compaction and
  old rejections left in its sequence numbers, its first sync after \<open>DeleteDevice\<close>
  acknowledges at least everything the changelog holds from it.
\<close>

theorem pruned_device_not_wedged:
  assumes "store_inv s" and "ApplyBatch siteID ops now (snd (DeleteDevice siteID s)) = (Inr res, s')"
    and "r \<in> set (sync_ops s)" and "lr_site_id r = siteID"
  shows "lr_op_seq r \<le> AcceptedThrough res"
proof -
  let ?d = "snd (DeleteDevice siteID s)"
  have "lr_op_seq r \<le> read_acked siteID ?d"
    using read_acked_pruned [OF DeleteDevice_row] assms(3,4) by (simp add: DeleteDevice_def)
  also have "\<dots> \<le> AcceptedThrough res"
    using ApplyBatch_facts [OF DeleteDevice_inv [OF assms(1)] assms(2)] accepted_walk_spec by metis
  finally show ?thesis .
qed

text \<open>A store whose changelog holds the op with number 1 of a device.\<close>

definition ex_store :: sync_store where
  "ex_store = (fresh_store ''u'')\<lparr>last_seq := 1,
     sync_ops := [new_row (ex_op 0 5) 9 (fresh_store ''u'')]\<rparr>"

lemma ex_store_inv: "store_inv ex_store"
  by (simp add: ex_store_def store_inv_def fresh_store_def)

theorem pruned_device_not_wedged_witness:
  "\<exists>res s'. ApplyBatch (ex_site 0) [] 9 (snd (DeleteDevice (ex_site 0) ex_store)) = (Inr res, s') \<and>
     1 \<le> AcceptedThrough res"
proof -
  obtain res s' where r: "ApplyBatch (ex_site 0) [] 9 (snd (DeleteDevice (ex_site 0) ex_store)) = (Inr res, s')"
    using ApplyBatch_Inr [OF DeleteDevice_inv [OF ex_store_inv]] .
  have "lr_op_seq (new_row (ex_op 0 5) 9 (fresh_store ''u'')) \<le> AcceptedThrough res"
    by (rule pruned_device_not_wedged [OF ex_store_inv r])
      (simp_all add: ex_store_def ex_op_def)
  with r show ?thesis by (simp add: ex_op_def)
qed

section \<open>Redelivery\<close>

lemma apply_op_log_grows:
  assumes "apply_op siteID now op a = Inr a'" and "store_inv (aaStore a)"
  shows "set (sync_ops (aaStore a)) \<subseteq> set (sync_ops (aaStore a'))"
  using assms(1) by (cases rule: apply_op_cases [OF assms(2), of siteID now op]) auto

lemma apply_op_records:
  assumes "apply_op siteID now op a = Inr a'" and "store_inv (aaStore a)" and "ingestible op"
  shows "has_op (sync_ops (aaStore a')) (opSiteID op) (opOpSeq op)"
  using assms(1,3)
  by (cases rule: apply_op_cases [OF assms(2), of siteID now op])
    (auto simp: ingestible_def has_op_iff)

lemma apply_loop_records:
  assumes "fold_sum (apply_op siteID now) ops a = Inr a'" and "store_inv (aaStore a)"
  shows "set (sync_ops (aaStore a)) \<subseteq> set (sync_ops (aaStore a')) \<and>
    (\<forall>op \<in> set ops. ingestible op \<longrightarrow> has_op (sync_ops (aaStore a')) (opSiteID op) (opOpSeq op))"
  using assms
proof (induction ops arbitrary: a)
  case Nil
  then show ?case by simp
next
  case (Cons op ops)
  then obtain b where b: "apply_op siteID now op a = Inr b"
    "fold_sum (apply_op siteID now) ops b = Inr a'"
    by (auto simp: bind_sum_eq_Inr)
  have "store_inv (aaStore b)" using apply_op_total [OF Cons.prems(2), of siteID now op] b(1) by simp
  note IH = Cons.IH [OF b(2) this]
  have "ingestible op \<longrightarrow> has_op (sync_ops (aaStore a')) (opSiteID op) (opOpSeq op)"
    using apply_op_records [OF b(1) Cons.prems(2)] IH by (auto simp: has_op_iff)
  with IH apply_op_log_grows [OF b(1) Cons.prems(2)] show ?case by auto
qed

text \<open>A batch of recorded ops goes through the loop without touching anything but the observed
  timestamp.\<close>

lemma apply_loop_recorded:
  assumes "\<forall>op \<in> set ops. ingestible op \<and> has_op (sync_ops (aaStore a)) (opSiteID op) (opOpSeq op)"
  shows "\<exists>t. fold_sum (apply_op siteID now) ops a = Inr (a\<lparr>aaMaxIncoming := t\<rparr>)"
  using assms
proof (induction ops arbitrary: a)
  case Nil
  then show ?case by (auto intro: exI [of _ "aaMaxIncoming a"])
next
  case (Cons op ops)
  then obtain t where "apply_op siteID now op a = Inr (a\<lparr>aaMaxIncoming := t\<rparr>)"
    by (auto simp: apply_op_def ingestible_def Let_def)
  moreover obtain u where "fold_sum (apply_op siteID now) ops (a\<lparr>aaMaxIncoming := t\<rparr>) =
      Inr (a\<lparr>aaMaxIncoming := t\<rparr>\<lparr>aaMaxIncoming := u\<rparr>)"
    using Cons.IH [of "a\<lparr>aaMaxIncoming := t\<rparr>"] Cons.prems by auto
  ultimately show ?case by auto
qed

text \<open>
  C6. Redelivery is harmless: sending a batch of acceptable ops a second time changes neither the
  changelog nor the mirror nor the sequence counter, reports no rejection and no changed page,
  and acknowledges the same \<open>accepted_through\<close>.
\<close>

theorem redelivery_idempotent:
  assumes "store_inv s" and "\<forall>op \<in> set ops. ingestible op"
    and "ApplyBatch siteID ops now s = (Inr res, s1)"
    and "ApplyBatch siteID ops now' s1 = (Inr res2, s2)"
  shows "sync_ops s2 = sync_ops s1 \<and> mir s2 = mir s1 \<and> last_seq s2 = last_seq s1 \<and>
    Rejected res2 = [] \<and> ChangedPages res2 = [] \<and> AcceptedThrough res2 = AcceptedThrough res"
proof -
  obtain a where loop: "fold_sum (apply_op siteID now) ops (init_acc s) = Inr a"
    and acc1: "AcceptedThrough res =
      accepted_walk (aaRejectedSeqs a) (sync_ops (aaStore a)) siteID (read_acked siteID s)"
    and s1: "sync_ops s1 = sync_ops (aaStore a)" and ra: "read_acked siteID s1 = AcceptedThrough res"
    using ApplyBatch_facts [OF assms(1,3)] by metis
  have "\<forall>op \<in> set ops. ingestible op \<and> has_op (sync_ops s1) (opSiteID op) (opOpSeq op)"
    using apply_loop_records [OF loop] assms(1,2) s1 by simp
  then obtain t where "fold_sum (apply_op siteID now') ops (init_acc s1) =
      Inr ((init_acc s1)\<lparr>aaMaxIncoming := t\<rparr>)"
    using apply_loop_recorded [of ops "init_acc s1" siteID now'] by auto
  then have s2: "sync_ops s2 = sync_ops s1 \<and> mir s2 = mir s1 \<and> last_seq s2 = last_seq s1"
    and r2: "Rejected res2 = []" "ChangedPages res2 = []"
    and acc: "AcceptedThrough res2 = accepted_walk [] (sync_ops s1) siteID (read_acked siteID s1)"
    using assms(4) by (auto simp: ApplyBatch_def commit_def applyBatchTx_def init_acc_def
        advanceAccepted_def Let_def)
  have "\<not> settled [] (sync_ops s1) siteID (AcceptedThrough res + 1)"
    using accepted_walk_spec acc1 s1 by (fastforce simp: settled_def)
  then show ?thesis using s2 r2 acc ra accepted_walk_fixed by simp
qed

theorem redelivery_idempotent_witness:
  "\<exists>res s1 res2 s2. ApplyBatch (ex_site 0) [ex_op 0 5] 9 (fresh_store ''u'') = (Inr res, s1) \<and>
     ApplyBatch (ex_site 0) [ex_op 0 5] 11 s1 = (Inr res2, s2) \<and>
     sync_ops s2 = sync_ops s1 \<and> mir s2 = mir s1 \<and> Rejected res2 = []"
proof -
  obtain res s1 where r: "ApplyBatch (ex_site 0) [ex_op 0 5] 9 (fresh_store ''u'') = (Inr res, s1)"
    and "store_inv s1"
    using ApplyBatch_Inr [OF store_inv_fresh] .
  then obtain res2 s2 where r2: "ApplyBatch (ex_site 0) [ex_op 0 5] 11 s1 = (Inr res2, s2)"
    using ApplyBatch_Inr by blast
  have "\<forall>op \<in> set [ex_op 0 5]. ingestible op" by (simp add: ex_op_ingestible)
  from redelivery_idempotent [OF store_inv_fresh this r r2] r r2 show ?thesis by blast
qed

end
