(* ===== verification/Sync_Author.thy ===== *)
theory Sync_Author
  imports Sync_Accept
begin

text \<open>
  The server as an authoring site: the durable clock stays beyond everything the store has
  observed, so an authored op always wins the merge, and the ops of one call are numbered
  consecutively and written in order.
\<close>

section \<open>The clock bound\<close>

definition ts_bound :: "int \<Rightarrow> sync_store \<Rightarrow> bool" where
  "ts_bound t s \<longleftrightarrow>
     (\<forall>r \<in> set (sync_ops s). lr_wall_ts r \<le> t) \<and>
     (\<forall>k r. mirror_row (mir s) k = Some r \<longrightarrow> fst (row_lww r) \<le> t)"

lemma hlc_inv_bound: "hlc_inv s \<longleftrightarrow> ts_bound (last_hlc s) s"
  by (simp add: hlc_inv_def ts_bound_def)

lemma ts_bound_mono: "ts_bound t s \<Longrightarrow> t \<le> u \<Longrightarrow> ts_bound u s"
  by (fastforce simp: ts_bound_def)

lemma mirror_step_bound:
  assumes "mirror_step n v k = Some r" and "\<And>k r. v k = Some r \<Longrightarrow> fst (row_lww r) \<le> t"
    and "opWallTS n \<le> t"
  shows "fst (row_lww r) \<le> t"
  using assms
  by (auto simp: mirror_step_def opKey_def dest!: materialize_lww
      split: sum.splits option.splits if_splits)

lemma ts_bound_append:
  assumes "ts_bound t s" and "opWallTS op \<le> t" and "knownCols (opTable op) \<noteq> None"
    and "mergeRow (Normalize op) (mir s) = Inr (changed, page, m')"
  shows "ts_bound t (s\<lparr>mir := m', last_seq := q, sync_ops := sync_ops s @ [new_row op now s']\<rparr>)"
proof -
  have view: "mirror_row m' = mirror_step (Normalize op) (mirror_row (mir s))"
    using mergeRow_view(1) assms(3,4) by simp
  have "fst (row_lww r) \<le> t" if "mirror_row m' k = Some r" for k r
    by (rule mirror_step_bound [where n = "Normalize op" and v = "mirror_row (mir s)" and k = k])
      (use assms(1,2) that view in \<open>auto simp: ts_bound_def\<close>)
  then show ?thesis using assms(1,2) by (auto simp: ts_bound_def)
qed

section \<open>Ingest keeps the clock ahead\<close>

lemma apply_op_max:
  "apply_op siteID now op a = Inr a' \<Longrightarrow> aaMaxIncoming a' = max (aaMaxIncoming a) (opWallTS op)"
  by (auto simp: apply_op_def reject_op_def Let_def bind_sum_eq_Inr
      split: if_splits sum.splits prod.splits)

lemma apply_op_bound:
  assumes "apply_op siteID now op a = Inr a'" and "store_inv (aaStore a)"
    and "ts_bound (max h (aaMaxIncoming a)) (aaStore a)"
  shows "aaMaxIncoming a' = max (aaMaxIncoming a) (opWallTS op) \<and>
    ts_bound (max h (aaMaxIncoming a')) (aaStore a')"
proof -
  have mx: "aaMaxIncoming a' = max (aaMaxIncoming a) (opWallTS op)"
    using apply_op_max [OF assms(1)] .
  have b: "ts_bound (max h (aaMaxIncoming a')) (aaStore a)"
    by (rule ts_bound_mono [OF assms(3)]) (simp add: mx)
  show ?thesis
  proof (cases rule: apply_op_cases [OF assms(2), of siteID now op])
    case (1 b')
    then show ?thesis using b mx assms(1) by simp
  next
    case (2 b' m')
    then obtain changed page where
      m: "mergeRow (Normalize (withV5Defaults op)) (mir (aaStore a)) = Inr (changed, page, m')"
      and v: "validateOp (withV5Defaults op) = []"
      by (auto simp: ingest_ok_def)
    have "ts_bound (max h (aaMaxIncoming a')) (aaStore b')"
      unfolding 2(3) by (rule ts_bound_append [OF b _ valid_known [OF v] m]) (simp add: mx)
    then show ?thesis using 2(1) mx assms(1) by simp
  qed
qed

lemma apply_loop_bound:
  assumes "fold_sum (apply_op siteID now) ops (init_acc s) = Inr a"
    and "store_inv s" and "hlc_inv s" and "\<forall>op \<in> set ops. clock_ok (opWallTS op)"
  shows "ts_bound (max (last_hlc s) (aaMaxIncoming a)) (aaStore a) \<and> clock_ok (aaMaxIncoming a)"
proof -
  let ?P = "\<lambda>b. store_inv (aaStore b) \<and>
    ts_bound (max (last_hlc s) (aaMaxIncoming b)) (aaStore b) \<and> clock_ok (aaMaxIncoming b)"
  have "?P a"
    using assms(1)
  proof (rule fold_sum_invariant [where P = ?P])
    show "?P (init_acc s)"
      using assms(2,3) by (auto simp: init_acc_def hlc_inv_bound clock_ok_def intro: ts_bound_mono)
  next
    fix op b c
    assume "op \<in> set ops" and "?P b" and "apply_op siteID now op b = Inr c"
    then have "aaMaxIncoming c = max (aaMaxIncoming b) (opWallTS op)"
      "ts_bound (max (last_hlc s) (aaMaxIncoming c)) (aaStore c)" "store_inv (aaStore c)"
      "clock_ok (aaMaxIncoming b)" "clock_ok (opWallTS op)"
      using apply_op_bound [of siteID now op b c "last_hlc s"] assms(4)
        apply_op_total [of b siteID now op] by auto
    then show "?P c" by (simp add: max_def)
  qed
  then show ?thesis by blast
qed

lemma apply_loop_observed:
  assumes "fold_sum (apply_op siteID now) ops a = Inr a'"
  shows "aaMaxIncoming a \<le> aaMaxIncoming a' \<and> (\<forall>op \<in> set ops. opWallTS op \<le> aaMaxIncoming a')"
  using assms
proof (induction ops arbitrary: a)
  case (Cons op ops)
  then show ?case by (force simp: bind_sum_eq_Inr dest: apply_op_max)
qed simp

text \<open>
  Ingest moves the clock strictly past everything observed: as long as no timestamp is the
  last representable one, after a batch the durable clock is greater than before, greater than
  the timestamp of every op of the batch, rejected and duplicate ones included, and still bounds
  every timestamp in the changelog and the mirror.
\<close>

theorem ApplyBatch_clock:
  assumes "store_inv s" and "hlc_inv s" and "clock_ok (last_hlc s)"
    and "\<forall>op \<in> set ops. clock_ok (opWallTS op)"
    and "ApplyBatch siteID ops now s = (Inr res, s')"
  shows "hlc_inv s' \<and> last_hlc s < last_hlc s' \<and> (\<forall>op \<in> set ops. opWallTS op < last_hlc s')"
proof (rule ApplyBatch_facts [OF assms(1,5)])
  fix a :: apply_acc
  assume loop: "fold_sum (apply_op siteID now) ops (init_acc s) = Inr a"
    and st: "sync_ops s' = sync_ops (aaStore a)" "mir s' = mir (aaStore a)"
    and h: "last_hlc s' = receiveEvent now (aaMaxIncoming a) (last_hlc s)"
  note b = apply_loop_bound [OF loop assms(1,2,4)]
  then have gt: "last_hlc s < last_hlc s'" "aaMaxIncoming a < last_hlc s'"
    using receiveEvent_gt assms(3) h by auto
  have "\<forall>op \<in> set ops. opWallTS op \<le> aaMaxIncoming a"
    using apply_loop_observed [OF loop] by simp
  moreover have "ts_bound (last_hlc s') (aaStore a)"
    using b gt by (auto intro: ts_bound_mono)
  ultimately show ?thesis using gt st by (fastforce simp: hlc_inv_bound ts_bound_def)
qed

theorem ApplyBatch_clock_witness:
  "\<exists>res s'. ApplyBatch (ex_site 0) [ex_op 0 900, ex_op 1 7] 5 (fresh_store ''u'') = (Inr res, s') \<and>
     hlc_inv s' \<and> 900 < last_hlc s'"
proof -
  obtain res s' where r:
    "ApplyBatch (ex_site 0) [ex_op 0 900, ex_op 1 7] 5 (fresh_store ''u'') = (Inr res, s')"
    using ApplyBatch_Inr [OF store_inv_fresh] .
  have "\<forall>op \<in> set [ex_op 0 900, ex_op 1 7]. clock_ok (opWallTS op)"
    and "clock_ok (last_hlc (fresh_store ''u''))"
    by (simp_all add: ex_op_def clock_ok_def fresh_store_def)
  from ApplyBatch_clock [OF store_inv_fresh hlc_inv_fresh this(2,1) r] r
  show ?thesis by (simp add: ex_op_def)
qed

section \<open>Authored ops\<close>

text \<open>What a caller hands over: table, key and columns; \<open>stamped\<close> is the list of ops
  the call numbers and timestamps.\<close>

definition stamp_op :: "string \<Rightarrow> int \<Rightarrow> int \<Rightarrow> Op \<Rightarrow> Op" where
  "stamp_op site seq ts op =
     (withV5Defaults op)\<lparr>opSiteID := site, opOpSeq := seq, opWallTS := ts\<rparr>"

fun stamped :: "string \<Rightarrow> millis \<Rightarrow> int \<Rightarrow> int \<Rightarrow> Op list \<Rightarrow> Op list" where
  "stamped site now seq clock [] = []"
| "stamped site now seq clock (op # ops) =
     stamp_op site (seq + 1) (localEvent now clock) op #
     stamped site now (seq + 1) (localEvent now clock) ops"

definition authorable :: "Op \<Rightarrow> bool" where
  "authorable op \<longleftrightarrow>
     (\<exists>cs. knownCols (opTable op) = Some cs \<and> IsULID (opPK op) \<and>
        (\<forall>c \<in> set cs. opCols (withV5Defaults op) c \<noteq> None)) \<and>
     typed (Normalize (withV5Defaults op))"

lemma stamp_op_fields [simp]:
  "opTable (stamp_op site seq ts op) = opTable op" "opPK (stamp_op site seq ts op) = opPK op"
  "opSiteID (stamp_op site seq ts op) = site" "opOpSeq (stamp_op site seq ts op) = seq"
  "opWallTS (stamp_op site seq ts op) = ts"
  "opCols (stamp_op site seq ts op) = opCols (withV5Defaults op)"
  by (simp_all add: stamp_op_def)

lemma isl_bind_sum: "isl (bind_sum m f) \<longleftrightarrow> isl m \<or> isl (f (projr m))"
  by (cases m) simp_all

lemma typed_cong:
  assumes "opTable a = opTable b" and "opCols a = opCols b"
  shows "typed a \<longleftrightarrow> typed b"
proof -
  have "col_value a = col_value b" using assms(2) by (simp add: fun_eq_iff col_value_def)
  then have "colInt a = colInt b" "colNullInt a = colNullInt b" "colString a = colString b"
    "colNullString a = colNullString b" "colBytes a = colBytes b" "colNullBytes a = colNullBytes b"
    by (simp_all add: fun_eq_iff colInt_def colNullInt_def colString_def colNullString_def
        colBytes_def colNullBytes_def)
  then show ?thesis
    using assms(1) by (simp add: typed_def materialize_def of_op_defs isl_bind_sum
        Let_def if_distrib [of isl] cong: if_cong)
qed

lemma typed_stamp [simp]:
  "typed (Normalize (stamp_op site seq ts op)) \<longleftrightarrow> typed (Normalize (withV5Defaults op))"
  by (rule typed_cong) (simp_all add: Normalize_def cong: if_cong)

lemma validate_stamp:
  "authorable op \<Longrightarrow> IsULID site \<Longrightarrow> 0 < seq \<Longrightarrow> validateOp (stamp_op site seq ts op) = []"
  by (auto simp: authorable_def validateOp_ok_iff)

text \<open>One authored op: a timestamp beyond the bound wins whatever the mirror holds.\<close>

lemma bound_wins:
  assumes "ts_bound t s" and "t < opWallTS n"
  shows "wins n (mir s)"
proof (cases "mirror_row (mir s) (opTablePK n)")
  case None
  then show ?thesis by (simp add: wins_def)
next
  case (Some r)
  then have "fst (row_lww r) < opWallTS n" using assms unfolding ts_bound_def by fastforce
  then show ?thesis using Some by (simp add: wins_def opKey_def less_prod_def)
qed

definition author_inv :: "string \<Rightarrow> author_acc \<Rightarrow> bool" where
  "author_inv site a \<longleftrightarrow>
     store_inv (auStore a) \<and> ts_bound (auClock a) (auStore a) \<and> 0 \<le> auSeq a \<and>
     (\<forall>r \<in> set (sync_ops (auStore a)). lr_site_id r = site \<longrightarrow> lr_op_seq r \<le> auSeq a)"

lemma author_op_succeeds:
  fixes now :: millis
  assumes "author_inv site a" and "authorable op" and "IsULID site" and "clock_ok (auClock a)"
  defines "clock \<equiv> localEvent now (auClock a)"
  defines "n \<equiv> stamp_op site (auSeq a + 1) clock op"
  shows "\<exists>a'. author_op site now op a = Inr a' \<and> author_inv site a' \<and>
    auSeq a' = auSeq a + 1 \<and> auClock a' = clock \<and>
    site_id (auStore a') = site_id (auStore a) \<and>
    sync_cursors (auStore a') = sync_cursors (auStore a) \<and>
    map (\<lambda>r. unmarshalOp (lr_payload r)) (sync_ops (auStore a')) =
      map (\<lambda>r. unmarshalOp (lr_payload r)) (sync_ops (auStore a)) @ [n] \<and>
    mirror_row (mir (auStore a')) =
      (mirror_row (mir (auStore a)))(opTablePK n \<mapsto> op_row (Normalize n))"
proof -
  let ?s = "auStore a"
  have valid: "validateOp n = []"
    using assms by (auto simp: author_inv_def n_def intro: validate_stamp)
  have gt: "auClock a < clock" unfolding clock_def by (rule localEvent_gt [OF assms(4)])
  have "wins (Normalize n) (mir ?s)"
    by (rule bound_wins [of "auClock a"]) (use assms(1) gt in \<open>simp_all add: author_inv_def n_def\<close>)
  moreover have "typed (Normalize n)" using assms(2) by (simp add: n_def authorable_def)
  moreover have known: "knownCols (opTable n) \<noteq> None" using valid by (rule valid_known)
  ultimately obtain page m' where m: "mergeRow (Normalize n) (mir ?s) = Inr (True, page, m')"
    and row: "mirror_row m' = (mirror_row (mir ?s))(opTablePK n \<mapsto> op_row (Normalize n))"
    using mergeRow_succeeds [of "Normalize n" _ "mir ?s", OF _ typed_row] by auto
  have "store_inv (?s\<lparr>mir := m'\<rparr>)"
    using mergeRow_view(2) [OF _ m] known assms(1) by (simp add: author_inv_def store_inv_def)
  moreover have "\<not> has_op (sync_ops ?s) (opSiteID n) (opOpSeq n)"
    using assms(1) by (auto simp: has_op_iff row_ident_def author_inv_def n_def)
  ultimately have app: "appendOp n now (?s\<lparr>mir := m'\<rparr>) =
      Inr (?s\<lparr>mir := m', last_seq := last_seq ?s + 1,
        sync_ops := sync_ops ?s @ [new_row n now (?s\<lparr>mir := m'\<rparr>)]\<rparr>)"
    and inv: "store_inv (?s\<lparr>mir := m', last_seq := last_seq ?s + 1,
        sync_ops := sync_ops ?s @ [new_row n now (?s\<lparr>mir := m'\<rparr>)]\<rparr>)"
    using appendOp_inv [of "?s\<lparr>mir := m'\<rparr>" n now] by simp_all
  have bnd: "ts_bound clock (?s\<lparr>mir := m', last_seq := last_seq ?s + 1,
        sync_ops := sync_ops ?s @ [new_row n now (?s\<lparr>mir := m'\<rparr>)]\<rparr>)"
    by (rule ts_bound_append [OF _ _ known m])
      (use assms(1) gt in \<open>auto simp: author_inv_def n_def intro: ts_bound_mono\<close>)
  show ?thesis
    using valid m app inv bnd row assms(1)
    by (auto simp: author_op_def n_def clock_def stamp_op_def author_inv_def Let_def)
qed

lemma author_loop:
  assumes "author_inv site a" and "\<forall>op \<in> set ops. authorable op" and "IsULID site"
    and "int64 (auClock a)" and "int64 now"
    and "auClock a + int (length ops) \<le> max_int64" and "now + int (length ops) \<le> max_int64"
  shows "\<exists>a'. fold_sum (author_op site now) ops a = Inr a' \<and> author_inv site a' \<and>
    auSeq a' = auSeq a + int (length ops) \<and>
    site_id (auStore a') = site_id (auStore a) \<and>
    sync_cursors (auStore a') = sync_cursors (auStore a) \<and>
    (auClock a \<le> auClock a') \<and>
    map (\<lambda>r. unmarshalOp (lr_payload r)) (sync_ops (auStore a')) =
      map (\<lambda>r. unmarshalOp (lr_payload r)) (sync_ops (auStore a)) @
      stamped site now (auSeq a) (auClock a) ops \<and>
    mirror_row (mir (auStore a')) =
      fold (\<lambda>n v. v(opTablePK n \<mapsto> op_row (Normalize n)))
        (stamped site now (auSeq a) (auClock a) ops) (mirror_row (mir (auStore a)))"
  using assms
proof (induction ops arbitrary: a)
  case Nil
  then show ?case by simp
next
  case (Cons op ops)
  let ?clock = "localEvent now (auClock a)"
  have ok: "clock_ok (auClock a)" using Cons.prems(4,6) by (simp add: clock_ok_def int64_def)
  then have clock: "?clock = max now (auClock a + 1)" by (rule localEvent_eq)
  obtain b where b: "author_op site now op a = Inr b" "author_inv site b" "auSeq b = auSeq a + 1"
    "auClock b = ?clock" "site_id (auStore b) = site_id (auStore a)"
    "sync_cursors (auStore b) = sync_cursors (auStore a)"
    "map (\<lambda>r. unmarshalOp (lr_payload r)) (sync_ops (auStore b)) =
      map (\<lambda>r. unmarshalOp (lr_payload r)) (sync_ops (auStore a)) @
      [stamp_op site (auSeq a + 1) ?clock op]"
    "mirror_row (mir (auStore b)) = (mirror_row (mir (auStore a)))
      (opTablePK (stamp_op site (auSeq a + 1) ?clock op) \<mapsto>
        op_row (Normalize (stamp_op site (auSeq a + 1) ?clock op)))"
    using author_op_succeeds [OF Cons.prems(1) _ Cons.prems(3) ok, of op now] Cons.prems(2) by auto
  have "int64 (auClock b)" "auClock b + int (length ops) \<le> max_int64"
    using b(4) clock Cons.prems(4-7) by (auto simp: int64_def)
  from Cons.IH [OF b(2) _ Cons.prems(3) this(1) Cons.prems(5) this(2)] Cons.prems(2,7)
  show ?case using b clock by (auto simp: bind_sum_eq_Inr)
qed

text \<open>The store is ready to author \<open>k\<close> ops at wall time \<open>now\<close>: the invariants hold, its
  site id is a ULID, and the clock has room below the last representable value.\<close>

definition author_ready :: "nat \<Rightarrow> millis \<Rightarrow> sync_store \<Rightarrow> bool" where
  "author_ready k now s \<longleftrightarrow>
     store_inv s \<and> hlc_inv s \<and> own_inv s \<and> IsULID (site_id s) \<and> int64 (last_hlc s) \<and> int64 now \<and>
     last_hlc s + int k \<le> max_int64 \<and> now + int k \<le> max_int64"

definition stamped_ops :: "Op list \<Rightarrow> millis \<Rightarrow> sync_store \<Rightarrow> Op list" where
  "stamped_ops ops now s = stamped (site_id s) now (last_op_seq s) (last_hlc s) ops"

definition overwrite :: "Op list \<Rightarrow> (string \<times> string \<rightharpoonup> any_row) \<Rightarrow> (string \<times> string \<rightharpoonup> any_row)" where
  "overwrite ns v = fold (\<lambda>n v. v(opTablePK n \<mapsto> op_row (Normalize n))) ns v"

lemma stamped_increasing:
  assumes "int64 clock" and "int64 now"
    and "clock + int (length ops) \<le> max_int64" and "now + int (length ops) \<le> max_int64"
  shows "sorted_wrt (<) (clock # map opWallTS (stamped site now seq clock ops))"
  using assms
proof (induction ops arbitrary: seq clock)
  case Nil
  then show ?case by simp
next
  case (Cons op ops)
  let ?c = "localEvent now clock"
  have c: "?c = max now (clock + 1)"
    using Cons.prems by (intro localEvent_eq) (simp add: clock_ok_def int64_def)
  have "sorted_wrt (<) (?c # map opWallTS (stamped site now (seq + 1) ?c ops))"
    using Cons.prems by (intro Cons.IH) (auto simp: c int64_def)
  then show ?case using c by (auto simp: int64_def)
qed

lemma AuthorOps_effect:
  assumes "author_ready (length ops) now s" and "\<forall>op \<in> set ops. authorable op"
  obtains changed s' where "AuthorOps ops now s = (Inr changed, s')"
    and "store_inv s'" and "hlc_inv s'" and "own_inv s'" and "site_id s' = site_id s"
    and "sync_cursors s' = sync_cursors s"
    and "last_op_seq s' = last_op_seq s + int (length ops)"
    and "map (\<lambda>r. unmarshalOp (lr_payload r)) (sync_ops s') =
      map (\<lambda>r. unmarshalOp (lr_payload r)) (sync_ops s) @ stamped_ops ops now s"
    and "mirror_row (mir s') = overwrite (stamped_ops ops now s) (mirror_row (mir s))"
proof (cases "ops = []")
  case True
  with assms show ?thesis
    by (intro that [of "[]" s]) (simp_all add: AuthorOps_def author_ready_def stamped_ops_def overwrite_def)
next
  case False
  let ?a = "\<lparr>auStore = s, auSeq = last_op_seq s, auClock = last_hlc s, auChanged = []\<rparr>"
  have "author_inv (site_id s) ?a"
    using assms(1) by (auto simp: author_ready_def author_inv_def hlc_inv_bound own_inv_def)
  from author_loop [OF this assms(2), of now] assms(1)
  obtain a' where a': "fold_sum (author_op (site_id s) now) ops ?a = Inr a'"
    "author_inv (site_id s) a'" "auSeq a' = last_op_seq s + int (length ops)"
    "site_id (auStore a') = site_id s" "sync_cursors (auStore a') = sync_cursors s"
    "map (\<lambda>r. unmarshalOp (lr_payload r)) (sync_ops (auStore a')) =
      map (\<lambda>r. unmarshalOp (lr_payload r)) (sync_ops s) @ stamped_ops ops now s"
    "mirror_row (mir (auStore a')) = overwrite (stamped_ops ops now s) (mirror_row (mir s))"
    by (auto simp: author_ready_def stamped_ops_def overwrite_def)
  show ?thesis
    by (rule that [of "auChanged a'" "(auStore a')\<lparr>last_op_seq := auSeq a', last_hlc := auClock a'\<rparr>"])
      (use False a' in \<open>auto simp: AuthorOps_def authorTx_def commit_def author_inv_def own_inv_def
        hlc_inv_bound ts_bound_def\<close>)
qed

text \<open>
  C9. Server authoring: from a well-formed store whose clock is ahead and whose own ops are the
  ones it numbered, \<open>AuthorOps\<close> succeeds on every list of well-formed ops. It appends them
  in order under its own site id with the next consecutive sequence numbers and strictly
  increasing timestamps, each of them overwrites the mirror row of its key (so the last one per
  key stays), whatever the devices wrote before, and every invariant survives, so the next call
  succeeds too. The timestamps must leave room below the last representable one.
\<close>

theorem AuthorOps_wins:
  assumes "author_ready (length ops) now s" and "\<forall>op \<in> set ops. authorable op"
  shows "\<exists>changed s'. AuthorOps ops now s = (Inr changed, s') \<and>
    store_inv s' \<and> hlc_inv s' \<and> own_inv s' \<and> site_id s' = site_id s \<and>
    last_op_seq s' = last_op_seq s + int (length ops) \<and>
    map (\<lambda>r. unmarshalOp (lr_payload r)) (sync_ops s') =
      map (\<lambda>r. unmarshalOp (lr_payload r)) (sync_ops s) @ stamped_ops ops now s \<and>
    sorted_wrt (<) (last_hlc s # map opWallTS (stamped_ops ops now s)) \<and>
    mirror_row (mir s') = overwrite (stamped_ops ops now s) (mirror_row (mir s))"
proof -
  have "sorted_wrt (<) (last_hlc s # map opWallTS (stamped_ops ops now s))"
    unfolding stamped_ops_def using assms(1) by (intro stamped_increasing) (simp_all add: author_ready_def)
  then show ?thesis using AuthorOps_effect [OF assms] by metis
qed

lemma ex_op_authorable: "authorable (ex_op n ts)"
  using ex_op_ingestible [of n ts] by (auto simp: ingestible_def authorable_def validateOp_ok_iff)

lemma fresh_store_fields:
  "site_id (fresh_store u) = u" "last_hlc (fresh_store u) = 0" "last_op_seq (fresh_store u) = 0"
  by (simp_all add: fresh_store_def)

lemma ex_author_ready: "author_ready 1 50 (fresh_store ex_pk)"
  by (simp add: author_ready_def fresh_store_fields IsULID_def ex_pk_def ulidAlphabet_def int64_def)

theorem AuthorOps_wins_witness:
  "\<exists>changed s'. AuthorOps [ex_op 0 0] 50 (fresh_store ex_pk) = (Inr changed, s') \<and>
     store_inv s' \<and> last_op_seq s' = 1"
  using AuthorOps_wins [of "[ex_op 0 0]" 50 "fresh_store ex_pk"] ex_author_ready
    ex_op_authorable [of 0 0] by (auto simp: fresh_store_fields)

section \<open>A forged own op\<close>

text \<open>
  The limit of the authoring invariant: nothing in the ingest checks who may use the
  server's own site id, and once the changelog holds an op of that site with the next unissued
  sequence number, every further \<open>AuthorOps\<close> call with at least one op fails and leaves
  the store unchanged, so the counter never moves past the obstacle.
\<close>

theorem AuthorOps_forged_own_op:
  assumes "has_op (sync_ops s) (site_id s) (last_op_seq s + 1)" and "ops \<noteq> []"
  shows "\<exists>e. AuthorOps ops now s = (Inl e, s)"
proof -
  obtain op rest where ops: "ops = op # rest" using assms(2) by (cases ops) auto
  let ?a = "\<lparr>auStore = s, auSeq = last_op_seq s, auClock = last_hlc s, auChanged = []\<rparr>"
  have "\<exists>e. author_op (site_id s) now op ?a = Inl e"
    using assms(1) by (auto simp: author_op_def appendOp_eq Let_def split: sum.split)
  then obtain e where "fold_sum (author_op (site_id s) now) ops ?a = Inl e"
    by (auto simp: ops)
  then show ?thesis using assms(2) by (auto simp: AuthorOps_def authorTx_def commit_def)
qed

theorem AuthorOps_forged_own_op_witness:
  "\<exists>res s'. ApplyBatch (ex_site 1) [ex_op 0 5] 9 (fresh_store (ex_site 0)) = (Inr res, s') \<and>
     (\<exists>e. AuthorOps [ex_op 0 0] 50 s' = (Inl e, s'))"
proof -
  obtain res s' where r: "ApplyBatch (ex_site 1) [ex_op 0 5] 9 (fresh_store (ex_site 0)) = (Inr res, s')"
    using ApplyBatch_Inr [OF store_inv_fresh] .
  have "has_op (sync_ops s') (site_id s') (last_op_seq s' + 1)"
  proof (rule ApplyBatch_facts [OF store_inv_fresh r])
    fix a :: apply_acc
    assume loop: "fold_sum (apply_op (ex_site 1) 9) [ex_op 0 5] (init_acc (fresh_store (ex_site 0))) = Inr a"
      and eqs: "sync_ops s' = sync_ops (aaStore a)" "site_id s' = site_id (aaStore a)"
        "last_op_seq s' = last_op_seq (aaStore a)"
    have "has_op (sync_ops (aaStore a)) (ex_site 0) 1"
      using apply_loop_records [OF loop] ex_op_ingestible by (simp add: ex_op_def)
    moreover have "site_id (aaStore a) = ex_site 0" "last_op_seq (aaStore a) = 0"
      using loop apply_op_frame(1,2) [of "ex_site 1" 9 "ex_op 0 5" "init_acc (fresh_store (ex_site 0))" a]
      by (auto simp: bind_sum_eq_Inr fresh_store_fields)
    ultimately show ?thesis using eqs by simp
  qed
  with r AuthorOps_forged_own_op [of s' "[ex_op 0 0]" 50] show ?thesis by auto
qed

end
