(* ===== verification/Sync_Relay.thy ===== *)
theory Sync_Relay
  imports Sync_Author
begin

text \<open>
  The relay: one pull of \<open>OpsSince\<close> is exactly the window of the changelog between the
  cursor sent and the cursor returned, without the puller's own ops, and repeated pulls deliver
  every op once, in order.
\<close>

section \<open>The relayed window\<close>

abbreviation relayed_op :: "log_row \<Rightarrow> Op" where
  "relayed_op r \<equiv> withV5Defaults (unmarshalOp (lr_payload r))"

definition window :: "int \<Rightarrow> int \<Rightarrow> string \<Rightarrow> log_row list \<Rightarrow> log_row list" where
  "window lo hi site lg = filter (\<lambda>r. lo < lr_seq r \<and> lr_seq r \<le> hi \<and> lr_site_id r \<noteq> site) lg"

lemma ops_loop_eq:
  "length acc \<le> cap \<Longrightarrow>
   ops_loop cap rs acc c =
     (let t = take (cap - length acc) rs
      in (acc @ map relayed_op t, (if t = [] then c else lr_seq (last t)),
          cap < length acc + length rs))"
proof (induction rs arbitrary: acc c)
  case (Cons r rs)
  show ?case
  proof (cases "length acc = cap")
    case False
    then have "cap - length acc = Suc (cap - Suc (length acc))" "Suc (length acc) \<le> cap"
      using Cons.prems by simp_all
    then show ?thesis using Cons.IH [of "acc @ [relayed_op r]" "lr_seq r"] False
      by (auto simp: Let_def)
  qed (simp add: Let_def)
qed (simp add: Let_def)

lemma relay_rows_sorted:
  assumes "store_inv s"
  shows "relay_rows cursor site (sync_ops s) =
    filter (\<lambda>r. cursor < lr_seq r \<and> lr_site_id r \<noteq> site) (sync_ops s)"
    and "sorted_wrt (<) (map lr_seq (relay_rows cursor site (sync_ops s)))"
proof -
  let ?R = "filter (\<lambda>r. cursor < lr_seq r \<and> lr_site_id r \<noteq> site) (sync_ops s)"
  have srt: "sorted_wrt (<) (map lr_seq ?R)"
    using assms by (simp add: store_inv_def sorted_wrt_map sorted_wrt_filter)
  then have "sorted (map lr_seq ?R)" by (rule strict_sorted_imp_sorted)
  then show "relay_rows cursor site (sync_ops s) = ?R"
    by (simp add: relay_rows_def sort_key_id_if_sorted)
  with srt show "sorted_wrt (<) (map lr_seq (relay_rows cursor site (sync_ops s)))" by simp
qed

definition pull_limit :: "int \<Rightarrow> nat" where
  "pull_limit limit = (if limit \<le> 0 then 500 else nat limit)"

lemma pull_limit_pos [simp]: "0 < pull_limit limit" "pull_limit limit \<noteq> 0"
  by (simp_all add: pull_limit_def)

lemma OpsSince_eq:
  "OpsSince cursor site limit s =
     (let R = relay_rows cursor site (sync_ops s); t = take (pull_limit limit) R
      in (map relayed_op t, (if t = [] then cursor else lr_seq (last t)),
          pull_limit limit < length R))"
  by (simp add: OpsSince_def ops_loop_eq pull_limit_def Let_def min_def not_less)

text \<open>In a strictly sorted list the first entries are the ones up to the last of them.\<close>

lemma sorted_le_last:
  "sorted_wrt (\<lambda>x y. f x < f y) xs \<Longrightarrow> x \<in> set xs \<Longrightarrow> f x \<le> (f (last xs) :: 'b :: linorder)"
proof (induction xs)
  case (Cons y ys)
  then show ?case by (cases "ys = []") (auto intro: less_imp_le)
qed simp

lemma take_window:
  assumes "sorted_wrt (<) (map f xs)" and "take n xs \<noteq> []"
  shows "filter (\<lambda>x. f x \<le> (f (last (take n xs)) :: 'b :: linorder)) xs = take n xs"
proof -
  let ?l = "f (last (take n xs))"
  have sw: "sorted_wrt (\<lambda>x y. f x < f y) (take n xs @ drop n xs)"
    using assms(1) by (simp add: sorted_wrt_map)
  then have "sorted_wrt (\<lambda>x y. f x < f y) (take n xs)" by (simp only: sorted_wrt_append)
  then have "f x \<le> ?l" if "x \<in> set (take n xs)" for x
    using that by (rule sorted_le_last)
  moreover have "\<not> f x \<le> ?l" if "x \<in> set (drop n xs)" for x
    using sw that assms(2) by (meson last_in_set leD sorted_wrt_append)
  ultimately have "filter (\<lambda>x. f x \<le> ?l) (take n xs @ drop n xs) = take n xs"
    by (simp only: filter_append) (simp add: filter_id_conv filter_empty_conv)
  then show ?thesis by simp
qed

lemma drop_complement:
  assumes "take n xs = filter P xs"
  shows "drop n xs = filter (\<lambda>x. \<not> P x) xs"
proof -
  have xs: "xs = take n xs @ drop n xs" by simp
  have all: "\<forall>x \<in> set (take n xs). P x" using assms by simp
  have "filter P xs = take n xs @ filter P (drop n xs)"
    by (subst xs, simp only: filter_append filter_True [OF all])
  then have none: "filter P (drop n xs) = []" using assms by simp
  have "filter (\<lambda>x. \<not> P x) xs = filter (\<lambda>x. \<not> P x) (take n xs) @ filter (\<lambda>x. \<not> P x) (drop n xs)"
    by (subst xs, simp only: filter_append)
  moreover have "filter (\<lambda>x. \<not> P x) (take n xs) = []" using all by (simp add: filter_empty_conv)
  moreover have "filter (\<lambda>x. \<not> P x) (drop n xs) = drop n xs"
    using none by (simp add: filter_empty_conv)
  ultimately show ?thesis by simp
qed

text \<open>A prefix of the relayed rows is the window up to the sequence number of its last row, and
  the rest is what is relayed from there.\<close>

lemma relay_take_window:
  fixes cursor :: int and site :: string
  assumes "store_inv s"
  defines "R \<equiv> relay_rows cursor site (sync_ops s)"
  assumes "c' = (if take k R = [] then cursor else lr_seq (last (take k R)))"
  shows "cursor \<le> c'" and "take k R = window cursor c' site (sync_ops s)"
    and "drop k R = relay_rows c' site (sync_ops s)"
proof -
  let ?t = "take k R"
  have R: "R = filter (\<lambda>r. cursor < lr_seq r \<and> lr_site_id r \<noteq> site) (sync_ops s)"
    and srt: "sorted_wrt (<) (map lr_seq R)"
    using relay_rows_sorted [OF assms(1)] by (simp_all add: R_def)
  show le: "cursor \<le> c'"
  proof (cases "?t = []")
    case False
    have "last ?t \<in> set R" using last_in_set [OF False] by (rule in_set_takeD)
    then show ?thesis using False assms(3) by (simp add: R)
  qed (simp add: assms(3))
  have w: "window cursor c' site (sync_ops s) = filter (\<lambda>r. lr_seq r \<le> c') R"
    by (simp add: R window_def filter_filter conj_ac)
  show t: "?t = window cursor c' site (sync_ops s)"
  proof (cases "?t = []")
    case True
    then have "c' = cursor" using assms(3) by simp
    then have "window cursor c' site (sync_ops s) = []" by (auto simp: window_def filter_empty_conv)
    with True show ?thesis by simp
  next
    case False
    then show ?thesis using take_window [OF srt False] assms(3) w by simp
  qed
  then have "?t = filter (\<lambda>r. lr_seq r \<le> c') R" using w by simp
  then have "drop k R = filter (\<lambda>r. \<not> lr_seq r \<le> c') R"
    by (rule drop_complement)
  also have "\<dots> = relay_rows c' site (sync_ops s)"
    using le unfolding relay_rows_sorted(1) [OF assms(1)] R filter_filter
    by (intro filter_cong) auto
  finally show "drop k R = relay_rows c' site (sync_ops s)" .
qed

lemma OpsSince_window:
  assumes "store_inv s" and "OpsSince cursor site limit s = (ops, c', hasMore)"
  defines "R \<equiv> relay_rows cursor site (sync_ops s)"
  shows "cursor \<le> c'" and "take (pull_limit limit) R = window cursor c' site (sync_ops s)"
    and "ops = map relayed_op (window cursor c' site (sync_ops s))"
    and "drop (pull_limit limit) R = relay_rows c' site (sync_ops s)"
    and "hasMore \<longleftrightarrow> relay_rows c' site (sync_ops s) \<noteq> []"
proof -
  let ?t = "take (pull_limit limit) R"
  have "(ops, c', hasMore) =
      (map relayed_op ?t, (if ?t = [] then cursor else lr_seq (last ?t)), pull_limit limit < length R)"
    unfolding assms(2) [symmetric] OpsSince_eq Let_def R_def ..
  then have res: "ops = map relayed_op ?t" "c' = (if ?t = [] then cursor else lr_seq (last ?t))"
    "hasMore \<longleftrightarrow> pull_limit limit < length R"
    by (simp_all only: prod.inject)
  note w = relay_take_window [OF assms(1) res(2) [unfolded R_def], folded R_def]
  show "cursor \<le> c'" "?t = window cursor c' site (sync_ops s)"
    "drop (pull_limit limit) R = relay_rows c' site (sync_ops s)" using w .
  show "ops = map relayed_op (window cursor c' site (sync_ops s))" using res(1) w(2) by simp
  show "hasMore \<longleftrightarrow> relay_rows c' site (sync_ops s) \<noteq> []"
    unfolding res(3) w(3) [symmetric] by auto
qed

text \<open>
  One pull: \<open>OpsSince\<close> returns, in changelog order, exactly the ops of the other
  sites between the cursor sent (exclusive) and the cursor returned (inclusive), never one of
  the puller's own; the cursor never moves back; the page respects the limit (500 when the
  limit is not positive); \<open>has_more\<close> is set exactly when ops of others remain beyond the new
  cursor, and then the page is full, so every pull makes progress.
\<close>

theorem OpsSince_page:
  assumes "store_inv s" and "OpsSince cursor site limit s = (ops, c', hasMore)"
  shows "cursor \<le> c' \<and>
    ops = map relayed_op (window cursor c' site (sync_ops s)) \<and>
    length ops \<le> pull_limit limit \<and>
    (hasMore \<longleftrightarrow> (\<exists>r \<in> set (sync_ops s). c' < lr_seq r \<and> lr_site_id r \<noteq> site)) \<and>
    (hasMore \<longrightarrow> length ops = pull_limit limit)"
proof -
  note w = OpsSince_window [OF assms]
  have "length ops \<le> pull_limit limit" "hasMore \<longrightarrow> length ops = pull_limit limit"
    using assms(2) by (auto simp: OpsSince_eq Let_def)
  moreover have "hasMore \<longleftrightarrow> (\<exists>r \<in> set (sync_ops s). c' < lr_seq r \<and> lr_site_id r \<noteq> site)"
    using w(5) relay_rows_sorted(1) [OF assms(1), of c' site] by (auto simp: filter_empty_conv)
  ultimately show ?thesis using w(1,3) by blast
qed

theorem OpsSince_page_witness:
  "\<exists>ops c' hasMore. OpsSince 0 (ex_site 1) 10 ex_store = (ops, c', hasMore) \<and> 0 \<le> c' \<and>
     ops = map relayed_op (window 0 c' (ex_site 1) (sync_ops ex_store))"
proof -
  obtain ops c' hasMore where r: "OpsSince 0 (ex_site 1) 10 ex_store = (ops, c', hasMore)"
    by (cases "OpsSince 0 (ex_site 1) 10 ex_store")
  with OpsSince_page [OF ex_store_inv r] show ?thesis by blast
qed

section \<open>Draining the changelog\<close>

text \<open>A client that pulls until \<open>has_more\<close> is false; the number of requests is bounded by
  the fuel.\<close>

fun drain :: "nat \<Rightarrow> int \<Rightarrow> string \<Rightarrow> int \<Rightarrow> sync_store \<Rightarrow> (Op list \<times> int) option" where
  "drain 0 cursor site limit s = None"
| "drain (Suc fuel) cursor site limit s =
     (case OpsSince cursor site limit s of
        (ops, c', hasMore) \<Rightarrow>
          if hasMore then map_option (\<lambda>(rest, c''). (ops @ rest, c'')) (drain fuel c' site limit s)
          else Some (ops, c'))"

lemma drain_complete:
  assumes "store_inv s" and "length (relay_rows cursor site (sync_ops s)) < fuel"
  shows "\<exists>c'. drain fuel cursor site limit s =
      Some (map relayed_op (relay_rows cursor site (sync_ops s)), c') \<and>
    cursor \<le> c' \<and> relay_rows c' site (sync_ops s) = []"
  using assms(2)
proof (induction fuel arbitrary: cursor)
  case (Suc fuel)
  let ?R = "relay_rows cursor site (sync_ops s)"
  obtain ops c' hasMore where r: "OpsSince cursor site limit s = (ops, c', hasMore)"
    by (cases "OpsSince cursor site limit s")
  note w = OpsSince_window [OF assms(1) r]
  have split: "map relayed_op ?R = ops @ map relayed_op (relay_rows c' site (sync_ops s))"
    using w(2,3,4) by (metis append_take_drop_id map_append)
  show ?case
  proof (cases hasMore)
    case True
    have "length (relay_rows c' site (sync_ops s)) < length ?R"
      using w(4,5) True pull_limit_pos(1) [of limit]
      by (metis diff_less length_drop length_greater_0_conv drop_eq_Nil2 le_0_eq length_0_conv drop_Nil)
    then obtain c'' where "drain fuel c' site limit s =
        Some (map relayed_op (relay_rows c' site (sync_ops s)), c'')" "c' \<le> c''"
        "relay_rows c'' site (sync_ops s) = []"
      using Suc.IH [of c'] Suc.prems by auto
    then show ?thesis using r True split w(1) by auto
  next
    case False
    then show ?thesis using r split w(1,5) by auto
  qed
qed simp

text \<open>
  C10. Draining: a device that keeps pulling until \<open>has_more\<close> is false gets every op of the
  other sites beyond its cursor exactly once and in changelog order, whatever the page size, in
  at most one request more than there are ops; afterwards nothing is left for it.
\<close>

theorem drain_delivers_all:
  assumes "store_inv s" and "length (sync_ops s) < fuel"
  shows "\<exists>c'. drain fuel cursor site limit s =
      Some (map relayed_op
        (filter (\<lambda>r. cursor < lr_seq r \<and> lr_site_id r \<noteq> site) (sync_ops s)), c') \<and>
    (\<forall>r \<in> set (sync_ops s). lr_site_id r \<noteq> site \<longrightarrow> lr_seq r \<le> c')"
proof -
  have "length (relay_rows cursor site (sync_ops s)) < fuel"
    using assms relay_rows_sorted(1) [OF assms(1)] length_filter_le le_less_trans by metis
  from drain_complete [OF assms(1) this, of limit] obtain c' where
    "drain fuel cursor site limit s = Some (map relayed_op (relay_rows cursor site (sync_ops s)), c')"
    "relay_rows c' site (sync_ops s) = []" by blast
  then show ?thesis
    using relay_rows_sorted(1) [OF assms(1)] by (auto simp: filter_empty_conv not_less)
qed

theorem drain_delivers_all_witness:
  "\<exists>c'. drain 2 0 (ex_site 1) 1 ex_store = Some ([ex_op 0 5], c')"
proof -
  have "withV5Defaults (ex_op 0 5) = ex_op 0 5" by (simp add: withV5Defaults_def ex_op_def)
  moreover have "ex_site 0 \<noteq> ex_site 1" by (simp add: ex_site_def)
  ultimately show ?thesis
    using drain_delivers_all [OF ex_store_inv, of 2 0 "ex_site 1" 1]
    by (auto simp: ex_store_def fresh_store_def ex_op_def)
qed

end
