(* ===== verification/Compaction.thy ===== *)
theory Compaction
  imports Sync_Relay
begin

text \<open>
  Reclamation of the relay log: the library decision \<open>Sweep\<close> and \<open>Watermark\<close> of
  \<^verbatim>\<open>third_party/rhizome-server-go/compaction\<close>, and the durable \<open>Compact\<close>,
  \<open>ComputeWatermark\<close> and \<open>ListDevices\<close> of \<^verbatim>\<open>internal/syncstore\<close>.
\<close>

section \<open>Sweep\<close>

record Entry =
  enSeq :: int
  enOp :: Op

record Stats =
  CollapsedSuperseded :: nat
  PurgedTombstones :: nat

definition isTombstone :: "Op \<Rightarrow> (string \<rightharpoonup> string) \<Rightarrow> bool" where
  "isTombstone op tombstoneCols =
     (case tombstoneCols (opTable op) of
        None \<Rightarrow> False
      | Some c \<Rightarrow> (case opCols op c of None \<Rightarrow> False | Some raw \<Rightarrow> raw \<noteq> JNull))"

text \<open>The first loop: per key the index of the winning entry so far.\<close>

definition winner_step ::
    "Entry list \<Rightarrow> nat \<Rightarrow> (string \<times> string \<rightharpoonup> nat) \<Rightarrow> (string \<times> string \<rightharpoonup> nat)" where
  "winner_step entries i winnerIdx =
     (let e = entries ! i; k = opTablePK (enOp e)
      in case winnerIdx k of
           None \<Rightarrow> winnerIdx(k \<mapsto> i)
         | Some w \<Rightarrow> if Less (enOp (entries ! w)) (enOp e) then winnerIdx(k \<mapsto> i) else winnerIdx)"

definition winner_idx :: "Entry list \<Rightarrow> (string \<times> string \<rightharpoonup> nat)" where
  "winner_idx entries = fold (winner_step entries) [0..<length entries] Map.empty"

text \<open>The second loop.\<close>

fun sweep_loop ::
    "(nat \<Rightarrow> bool) \<Rightarrow> (string \<rightharpoonup> string) \<Rightarrow> int \<Rightarrow> (nat \<times> Entry) list \<Rightarrow> Entry list \<Rightarrow> Stats
       \<Rightarrow> Entry list \<times> Stats" where
  "sweep_loop winners tombstoneCols watermark [] kept stats = (kept, stats)"
| "sweep_loop winners tombstoneCols watermark ((i, e) # rest) kept stats =
     (if \<not> winners i
      then sweep_loop winners tombstoneCols watermark rest kept
             (stats\<lparr>CollapsedSuperseded := CollapsedSuperseded stats + 1\<rparr>)
      else if isTombstone (enOp e) tombstoneCols \<and> enSeq e \<le> watermark
      then sweep_loop winners tombstoneCols watermark rest kept
             (stats\<lparr>PurgedTombstones := PurgedTombstones stats + 1\<rparr>)
      else sweep_loop winners tombstoneCols watermark rest (kept @ [e]) stats)"

definition Sweep :: "Entry list \<Rightarrow> (string \<rightharpoonup> string) \<Rightarrow> int \<Rightarrow> Entry list \<times> Stats" where
  "Sweep entries tombstoneCols watermark =
     (let winnerIdx = winner_idx entries;
          winners = (\<lambda>i. list_ex (\<lambda>e. winnerIdx (opTablePK (enOp e)) = Some i) entries)
      in sweep_loop winners tombstoneCols watermark (enumerate 0 entries) []
           \<lparr>CollapsedSuperseded = 0, PurgedTombstones = 0\<rparr>)"

section \<open>What Sweep keeps\<close>

definition latest :: "Entry list \<Rightarrow> Entry \<Rightarrow> bool" where
  "latest entries e \<longleftrightarrow>
     (\<forall>e' \<in> set entries. opTablePK (enOp e') = opTablePK (enOp e) \<longrightarrow> opKey (enOp e') \<le> opKey (enOp e))"

definition reclaimable :: "(string \<rightharpoonup> string) \<Rightarrow> int \<Rightarrow> Entry \<Rightarrow> bool" where
  "reclaimable tombstoneCols watermark e \<longleftrightarrow>
     isTombstone (enOp e) tombstoneCols \<and> enSeq e \<le> watermark"

interpretation idx_lww: last_writer_wins
  "\<lambda>i j. Less (enOp (entries ! i)) (enOp (entries ! j))"
  "\<lambda>i. opKey (enOp (entries ! i))" "\<lambda>i. opTablePK (enOp (entries ! i))" for entries
  by unfold_locales (rule Less_iff)

lemma winner_idx_keep:
  "winner_idx entries =
     fold (keep_step (\<lambda>i j. Less (enOp (entries ! i)) (enOp (entries ! j)))
             (\<lambda>i. opTablePK (enOp (entries ! i)))) [0..<length entries] Map.empty"
proof -
  have "winner_step entries = keep_step (\<lambda>i j. Less (enOp (entries ! i)) (enOp (entries ! j)))
      (\<lambda>i. opTablePK (enOp (entries ! i)))"
    by (intro ext) (simp add: winner_step_def keep_step_def Let_def)
  then show ?thesis by (simp add: winner_idx_def)
qed

lemma winner_idx_spec:
  "is_winner (\<lambda>i. opKey (enOp (entries ! i))) (\<lambda>i. opTablePK (enOp (entries ! i)))
     {..<length entries} k (winner_idx entries k)"
  using idx_lww.winners_spec [of entries "[0..<length entries]" k]
  by (simp add: winner_idx_keep atLeast0LessThan)

lemma winner_idx_latest:
  assumes "distinct (map (\<lambda>e. opKey (enOp e)) entries)" and "i < length entries"
  shows "list_ex (\<lambda>e. winner_idx entries (opTablePK (enOp e)) = Some i) entries \<longleftrightarrow>
    latest entries (entries ! i)"
proof -
  let ?k = "opTablePK (enOp (entries ! i))"
  have inj: "inj_on (\<lambda>i. opKey (enOp (entries ! i))) {..<length entries}"
    using assms(1) by (auto simp: inj_on_def distinct_conv_nth)
  have "list_ex (\<lambda>e. winner_idx entries (opTablePK (enOp e)) = Some i) entries \<longleftrightarrow>
      winner_idx entries ?k = Some i"
  proof
    assume "list_ex (\<lambda>e. winner_idx entries (opTablePK (enOp e)) = Some i) entries"
    then obtain e :: Entry where e: "winner_idx entries (opTablePK (enOp e)) = Some i"
      unfolding list_ex_iff by blast
    with winner_idx_spec [of entries "opTablePK (enOp e)"] show "winner_idx entries ?k = Some i"
      by (simp add: is_winner_def)
  qed (use assms(2) in \<open>auto simp: list_ex_iff\<close>)
  also have "\<dots> \<longleftrightarrow> is_winner (\<lambda>i. opKey (enOp (entries ! i)))
      (\<lambda>i. opTablePK (enOp (entries ! i))) {..<length entries} ?k (Some i)"
    using winner_idx_spec [of entries ?k] idx_lww.winner_unique [OF _ _ inj] by metis
  also have "\<dots> \<longleftrightarrow> latest entries (entries ! i)"
    using assms(2) by (auto simp: is_winner_def latest_def all_set_conv_all_nth)
  finally show ?thesis .
qed

lemma sweep_loop_eq:
  "sweep_loop winners tc wm ies kept st =
     (kept @ map snd (filter (\<lambda>(i, e). winners i \<and> \<not> reclaimable tc wm e) ies),
      \<lparr>CollapsedSuperseded = CollapsedSuperseded st + length (filter (\<lambda>(i, e). \<not> winners i) ies),
       PurgedTombstones = PurgedTombstones st +
         length (filter (\<lambda>(i, e). winners i \<and> reclaimable tc wm e) ies)\<rparr>)"
  by (induction winners tc wm ies kept st rule: sweep_loop.induct)
    (auto simp: reclaimable_def)

lemma filter_enumerate:
  assumes "\<And>i. i < length xs \<Longrightarrow> W i \<longleftrightarrow> P (xs ! i)"
  shows "map snd (filter (\<lambda>(i, e). W i \<and> Q e) (enumerate 0 xs)) = filter (\<lambda>e. P e \<and> Q e) xs"
proof -
  have "filter (\<lambda>(i, e). W i \<and> Q e) (enumerate 0 xs) = filter ((\<lambda>e. P e \<and> Q e) \<circ> snd) (enumerate 0 xs)"
    using assms by (intro filter_cong) (auto simp: in_set_enumerate_eq)
  then show ?thesis by (simp add: filter_map [symmetric])
qed

lemma Sweep_eq:
  assumes "distinct (map (\<lambda>e. opKey (enOp e)) entries)"
  shows "Sweep entries tc wm =
    (filter (\<lambda>e. latest entries e \<and> \<not> reclaimable tc wm e) entries,
     \<lparr>CollapsedSuperseded = length (filter (\<lambda>e. \<not> latest entries e) entries),
      PurgedTombstones = length (filter (\<lambda>e. latest entries e \<and> reclaimable tc wm e) entries)\<rparr>)"
proof -
  let ?W = "\<lambda>i. list_ex (\<lambda>e. winner_idx entries (opTablePK (enOp e)) = Some i) entries"
  have W: "?W i \<longleftrightarrow> latest entries (entries ! i)" if "i < length entries" for i
    using winner_idx_latest [OF assms that] .
  have len: "length (filter (\<lambda>(i, e). V i \<and> Q e) (enumerate 0 entries)) =
      length (filter (\<lambda>e. P e \<and> Q e) entries)"
    if "\<And>i. i < length entries \<Longrightarrow> V i \<longleftrightarrow> P (entries ! i)" for V P Q
    using filter_enumerate [of entries V P Q, OF that] by (metis length_map)
  show ?thesis
    unfolding Sweep_def Let_def sweep_loop_eq
    using filter_enumerate [of entries ?W "latest entries", OF W]
      len [of ?W "latest entries" "reclaimable tc wm", OF W]
      len [of "\<lambda>i. \<not> ?W i" "\<lambda>e. \<not> latest entries e" "\<lambda>_. True"] W
    by simp
qed

section \<open>The durable log\<close>

text \<open>The columns are authoritative for the key fields, the payload only supplies the row.\<close>

definition row_entry :: "log_row \<Rightarrow> Entry" where
  "row_entry r =
     \<lparr>enSeq = lr_seq r,
      enOp = (unmarshalOp (lr_payload r))\<lparr>opTable := lr_table_name r, opPK := lr_pk r,
        opSiteID := lr_site_id r, opOpSeq := lr_op_seq r, opWallTS := lr_wall_ts r\<rparr>\<rparr>"

definition TombstoneCols :: "string \<rightharpoonup> string" where
  "TombstoneCols = fnTombstoneCols"

definition Compact :: "(string \<rightharpoonup> string) \<Rightarrow> int \<Rightarrow> sync_store \<Rightarrow> Stats \<times> sync_store" where
  "Compact tombstoneCols watermark s =
     (let entries = map row_entry (sort_key lr_seq (sync_ops s));
          (kept, st) = Sweep entries tombstoneCols watermark
      in if CollapsedSuperseded st = 0 \<and> PurgedTombstones st = 0 then (st, s)
         else
           (let keptSeqs = map enSeq kept;
                dropped = filter (\<lambda>q. q \<notin> set keptSeqs) (map enSeq entries)
            in (st, s\<lparr>sync_ops := filter (\<lambda>r. lr_seq r \<notin> set dropped) (sync_ops s)\<rparr>)))"

text \<open>A row survives when no row of the log supersedes it and it is not a purged tombstone.\<close>

definition row_op :: "log_row \<Rightarrow> Op" where
  "row_op r = unmarshalOp (lr_payload r)"

definition superseded :: "log_row list \<Rightarrow> log_row \<Rightarrow> bool" where
  "superseded lg r \<longleftrightarrow>
     (\<exists>r' \<in> set lg. opTablePK (row_op r') = opTablePK (row_op r) \<and> Less (row_op r) (row_op r'))"

definition purged :: "(string \<rightharpoonup> string) \<Rightarrow> int \<Rightarrow> log_row \<Rightarrow> bool" where
  "purged tc wm r \<longleftrightarrow> isTombstone (row_op r) tc \<and> lr_seq r \<le> wm"

lemma row_entry_agrees: "row_agrees r \<Longrightarrow> row_entry r = \<lparr>enSeq = lr_seq r, enOp = row_op r\<rparr>"
  by (simp add: row_entry_def row_agrees_def row_op_def Let_def)

lemma store_entries:
  assumes "store_inv s"
  shows "map row_entry (sort_key lr_seq (sync_ops s)) =
      map (\<lambda>r. \<lparr>enSeq = lr_seq r, enOp = row_op r\<rparr>) (sync_ops s)"
    and "distinct (map (\<lambda>r. opKey (row_op r)) (sync_ops s))"
proof -
  have "sorted (map lr_seq (sync_ops s))"
    using assms by (simp add: store_inv_def strict_sorted_imp_sorted)
  then show "map row_entry (sort_key lr_seq (sync_ops s)) =
      map (\<lambda>r. \<lparr>enSeq = lr_seq r, enOp = row_op r\<rparr>) (sync_ops s)"
    using assms by (simp add: sort_key_id_if_sorted store_inv_def row_entry_agrees)
  have eq: "map (\<lambda>r. (snd (snd (opKey (row_op r))), fst (snd (opKey (row_op r))))) (sync_ops s) =
      map row_ident (sync_ops s)"
    using assms by (auto simp: store_inv_def row_agrees_def row_op_def row_ident_def opKey_def Let_def)
  have "distinct (map (\<lambda>k. (snd (snd k), fst (snd k))) (map (\<lambda>r. opKey (row_op r)) (sync_ops s)))"
    using assms unfolding store_inv_def map_map comp_def eq by blast
  then show "distinct (map (\<lambda>r. opKey (row_op r)) (sync_ops s))"
    by (auto simp: distinct_map dest: inj_on_imageI2)
qed

lemma latest_rows:
  "latest (map (\<lambda>r. \<lparr>enSeq = lr_seq r, enOp = row_op r\<rparr>) lg) \<lparr>enSeq = q, enOp = row_op r\<rparr> \<longleftrightarrow>
     \<not> superseded lg r"
  by (auto simp: latest_def superseded_def Less_iff not_less)

lemma Compact_eq:
  assumes "store_inv s"
  shows "Compact tc wm s =
    (\<lparr>CollapsedSuperseded = length (filter (superseded (sync_ops s)) (sync_ops s)),
      PurgedTombstones =
        length (filter (\<lambda>r. \<not> superseded (sync_ops s) r \<and> purged tc wm r) (sync_ops s))\<rparr>,
     s\<lparr>sync_ops := filter (\<lambda>r. \<not> superseded (sync_ops s) r \<and> \<not> purged tc wm r) (sync_ops s)\<rparr>)"
proof -
  let ?lg = "sync_ops s" and ?e = "\<lambda>r. \<lparr>enSeq = lr_seq r, enOp = row_op r\<rparr>"
  let ?keep = "\<lambda>r. \<not> superseded ?lg r \<and> \<not> purged tc wm r"
  let ?st = "\<lparr>CollapsedSuperseded = length (filter (superseded ?lg) ?lg),
      PurgedTombstones = length (filter (\<lambda>r. \<not> superseded ?lg r \<and> purged tc wm r) ?lg)\<rparr>"
  have sweep: "Sweep (map ?e ?lg) tc wm = (map ?e (filter ?keep ?lg), ?st)"
    using store_entries(2) [OF assms]
    by (simp add: Sweep_eq comp_def filter_map latest_rows reclaimable_def purged_def)
  have inj: "inj_on lr_seq (set ?lg)"
    using assms by (metis distinct_map store_inv_def strict_sorted_iff)
  have "lr_seq r \<notin> set (filter (\<lambda>q. q \<notin> set (map enSeq (map ?e (filter ?keep ?lg))))
      (map enSeq (map ?e ?lg))) \<longleftrightarrow> ?keep r" if "r \<in> set ?lg" for r
    using that inj by (auto simp: inj_on_def)
  then have del: "filter (\<lambda>r. lr_seq r \<notin> set (filter (\<lambda>q. q \<notin> set (map enSeq (map ?e (filter ?keep ?lg))))
      (map enSeq (map ?e ?lg)))) ?lg = filter ?keep ?lg"
    by (intro filter_cong) auto
  have same: "filter ?keep ?lg = ?lg"
    if "CollapsedSuperseded ?st = 0 \<and> PurgedTombstones ?st = 0"
    using that by (auto simp: filter_empty_conv filter_id_conv)
  show ?thesis
    unfolding Compact_def store_entries(1) [OF assms] sweep Let_def prod.case
    using del same by (cases "CollapsedSuperseded ?st = 0 \<and> PurgedTombstones ?st = 0") simp_all
qed

lemma Compact_inv:
  assumes "store_inv s"
  shows "store_inv (snd (Compact tc wm s))"
  using assms
  by (auto simp: Compact_eq store_inv_def sorted_wrt_map sorted_wrt_filter distinct_map_filter)

text \<open>
  C12. Compaction is exact: it deletes precisely the rows superseded by a greater key of the same
  \<open>(table, pk)\<close> and the winning tombstones at or below the watermark; every other row keeps
  its place and its sequence number; the counter, the site, the clock, the device registry and
  the mirror are untouched; the statistics count exactly the deleted rows; and the store stays
  well formed.
\<close>

theorem Compact_exact:
  assumes "store_inv s" and "Compact tc wm s = (st, s')"
  shows "s' = s\<lparr>sync_ops :=
      filter (\<lambda>r. \<not> superseded (sync_ops s) r \<and> \<not> purged tc wm r) (sync_ops s)\<rparr> \<and>
    CollapsedSuperseded st = length (filter (superseded (sync_ops s)) (sync_ops s)) \<and>
    length (sync_ops s) = length (sync_ops s') + CollapsedSuperseded st + PurgedTombstones st \<and>
    store_inv s'"
proof -
  have "length xs = length (filter (\<lambda>x. \<not> P x \<and> \<not> Q x) xs) + length (filter P xs) +
      length (filter (\<lambda>x. \<not> P x \<and> Q x) xs)" for P Q and xs :: "log_row list"
    by (induction xs) auto
  then show ?thesis
    using assms(2) Compact_inv [OF assms(1), of tc wm] by (auto simp: Compact_eq [OF assms(1)])
qed

theorem Compact_exact_witness:
  "\<exists>st s'. Compact TombstoneCols 0 ex_store = (st, s') \<and> store_inv s' \<and>
     length (sync_ops ex_store) = length (sync_ops s') + CollapsedSuperseded st + PurgedTombstones st"
proof -
  obtain st s' where r: "Compact TombstoneCols 0 ex_store = (st, s')"
    by (cases "Compact TombstoneCols 0 ex_store")
  with Compact_exact [OF ex_store_inv r] show ?thesis by blast
qed

text \<open>A superseded row is superseded by a row that is itself not superseded.\<close>

lemma superseded_by_winner:
  assumes "superseded lg r"
  shows "\<exists>w \<in> set lg. opTablePK (row_op w) = opTablePK (row_op r) \<and> Less (row_op r) (row_op w) \<and>
    \<not> superseded lg w"
proof -
  let ?S = "{w \<in> set lg. opTablePK (row_op w) = opTablePK (row_op r)}"
  obtain r' where r': "r' \<in> ?S" "Less (row_op r) (row_op r')"
    using assms by (auto simp: superseded_def)
  let ?K = "(\<lambda>w. opKey (row_op w)) ` ?S"
  have fin: "finite ?K" by simp
  have "Max ?K \<in> ?K" using r'(1) by (intro Max_in fin) blast
  then obtain w where "w \<in> ?S" "opKey (row_op w) = Max ?K" by auto
  then have w: "w \<in> ?S" "\<And>x. x \<in> ?S \<Longrightarrow> opKey (row_op x) \<le> opKey (row_op w)"
    using Max_ge [OF fin] by auto
  have "Less (row_op r) (row_op w)"
    using r'(2) w(2) [OF r'(1)] by (meson Less_iff order.strict_trans2)
  moreover have "\<not> superseded lg w" using w by (force simp: superseded_def Less_iff)
  ultimately show ?thesis using w(1) by blast
qed

text \<open>
  Compaction is idempotent: a second pass with the same watermark reclaims nothing and
  leaves the store as it is.
\<close>

theorem Compact_idempotent:
  assumes "store_inv s"
  shows "Compact tc wm (snd (Compact tc wm s)) =
    (\<lparr>CollapsedSuperseded = 0, PurgedTombstones = 0\<rparr>, snd (Compact tc wm s))"
proof -
  let ?t = "snd (Compact tc wm s)"
  have ops: "sync_ops ?t = filter (\<lambda>r. \<not> superseded (sync_ops s) r \<and> \<not> purged tc wm r) (sync_ops s)"
    by (simp add: Compact_eq [OF assms])
  have none: "\<not> superseded (sync_ops ?t) r \<and> \<not> purged tc wm r" if "r \<in> set (sync_ops ?t)" for r
    using that unfolding ops superseded_def by auto
  have "filter (superseded (sync_ops ?t)) (sync_ops ?t) = []"
    "filter (\<lambda>r. \<not> superseded (sync_ops ?t) r \<and> purged tc wm r) (sync_ops ?t) = []"
    "filter (\<lambda>r. \<not> superseded (sync_ops ?t) r \<and> \<not> purged tc wm r) (sync_ops ?t) = sync_ops ?t"
    using none by (simp_all add: filter_empty_conv filter_id_conv)
  then show ?thesis
    by (simp add: Compact_eq [OF Compact_inv [OF assms, of tc wm]])
qed

theorem Compact_idempotent_witness:
  "Compact TombstoneCols 3 (snd (Compact TombstoneCols 3 ex_store)) =
    (\<lparr>CollapsedSuperseded = 0, PurgedTombstones = 0\<rparr>, snd (Compact TombstoneCols 3 ex_store))"
  by (rule Compact_idempotent) (rule ex_store_inv)

section \<open>What a fresh replica reconstructs\<close>

lemma Merge_rows_spec:
  "is_winner opKey opTablePK ((\<lambda>r. Normalize (row_op r)) ` set lg) k (Merge (map row_op lg) k)"
  using op_lww.winners_spec [of "map Normalize (map row_op lg)" k]
  by (simp add: Merge_keep image_image)

lemma Merge_rows_eq:
  assumes "distinct (map (\<lambda>r. opKey (row_op r)) lg)" and "r \<in> set lg" and "\<not> superseded lg r"
  shows "Merge (map row_op lg) (opTablePK (row_op r)) = Some (Normalize (row_op r))"
proof -
  let ?X = "(\<lambda>r. Normalize (row_op r)) ` set lg"
  have "inj_on opKey ?X" using assms(1) by (auto simp: distinct_map inj_on_def)
  moreover have "is_winner opKey opTablePK ?X (opTablePK (row_op r)) (Some (Normalize (row_op r)))"
    using assms(2,3) by (auto simp: is_winner_def superseded_def Less_iff not_less)
  ultimately show ?thesis using op_lww.winner_unique [OF Merge_rows_spec] by blast
qed

lemma Merge_rows_Some:
  assumes "Merge (map row_op lg) k = Some n"
  obtains r where "r \<in> set lg" "n = Normalize (row_op r)" "opTablePK (row_op r) = k" "\<not> superseded lg r"
  using Merge_rows_spec [of lg k] assms
  by (auto simp: is_winner_def superseded_def Less_iff not_less)

lemma Merge_rows_None:
  "Merge (map row_op lg) k = None \<longleftrightarrow> (\<forall>r \<in> set lg. opTablePK (row_op r) \<noteq> k)"
  using Merge_rows_spec [of lg k] by (auto simp: is_winner_def split: option.splits)

text \<open>
  C13. A full pull still reconstructs the state: over the compacted log the merge gives every key
  the winner it had over the full log, except the keys whose winner was a tombstone at or below
  the watermark, which give nothing. With watermark 0 nothing is lost at all.
\<close>

theorem Compact_preserves_winners:
  fixes tc :: "string \<rightharpoonup> string" and wm :: int
  assumes "store_inv s"
  defines "lg \<equiv> sync_ops s" and "lg' \<equiv> sync_ops (snd (Compact tc wm s))"
  shows "Merge (map row_op lg') k =
    (case Merge (map row_op lg) k of
       None \<Rightarrow> None
     | Some n \<Rightarrow>
         if \<exists>r \<in> set lg. Normalize (row_op r) = n \<and> \<not> superseded lg r \<and> purged tc wm r
         then None else Some n)"
proof -
  have lg': "lg' = filter (\<lambda>r. \<not> superseded lg r \<and> \<not> purged tc wm r) lg"
    by (simp add: lg'_def lg_def Compact_eq [OF assms(1)])
  have dist: "distinct (map (\<lambda>r. opKey (row_op r)) lg)"
    using store_entries(2) [OF assms(1)] by (simp add: lg_def)
  have key: "r' = r" if "r \<in> set lg" "r' \<in> set lg" "\<not> superseded lg r" "\<not> superseded lg r'"
      "opTablePK (row_op r') = opTablePK (row_op r)" for r r'
  proof -
    have "opKey (row_op r') = opKey (row_op r)"
      using that by (auto simp: superseded_def Less_iff not_less intro: antisym)
    with that dist show ?thesis by (auto simp: distinct_map inj_on_def)
  qed
  show ?thesis
  proof (cases "Merge (map row_op lg) k")
    case None
    then have "Merge (map row_op lg') k = None" unfolding Merge_rows_None by (simp add: lg')
    with None show ?thesis by simp
  next
    case (Some n)
    then obtain r where r: "r \<in> set lg" "n = Normalize (row_op r)" "opTablePK (row_op r) = k"
      "\<not> superseded lg r" by (rule Merge_rows_Some)
    have cond: "(\<exists>r' \<in> set lg. Normalize (row_op r') = n \<and> \<not> superseded lg r' \<and> purged tc wm r') \<longleftrightarrow>
        purged tc wm r"
    proof
      assume "\<exists>r' \<in> set lg. Normalize (row_op r') = n \<and> \<not> superseded lg r' \<and> purged tc wm r'"
      then obtain r' where r': "r' \<in> set lg" "Normalize (row_op r') = n" "\<not> superseded lg r'"
        "purged tc wm r'" by blast
      then have "opTablePK (row_op r') = opTablePK (row_op r)" using r(2) by (metis opTablePK_Normalize)
      with key [OF r(1) r'(1) r(4) r'(3)] r'(4) show "purged tc wm r" by simp
    qed (use r in auto)
    show ?thesis
    proof (cases "purged tc wm r")
      case True
      have "Merge (map row_op lg') k = None"
        unfolding Merge_rows_None using key [OF r(1) _ r(4)] r(3) True by (auto simp: lg')
      with True cond Some show ?thesis by simp
    next
      case False
      have "distinct (map (\<lambda>r. opKey (row_op r)) lg')" using dist by (simp add: lg' distinct_map_filter)
      moreover have "r \<in> set lg'" "\<not> superseded lg' r" using r False by (auto simp: lg' superseded_def)
      ultimately have "Merge (map row_op lg') k = Some n" using Merge_rows_eq r(2,3) by metis
      with False cond Some show ?thesis by simp
    qed
  qed
qed

theorem Compact_preserves_winners_witness:
  "Merge (map row_op (sync_ops (snd (Compact TombstoneCols 7 ex_store)))) (''folder'', ex_pk) =
    (case Merge (map row_op (sync_ops ex_store)) (''folder'', ex_pk) of
       None \<Rightarrow> None
     | Some n \<Rightarrow>
         if \<exists>r \<in> set (sync_ops ex_store). Normalize (row_op r) = n \<and>
              \<not> superseded (sync_ops ex_store) r \<and> purged TombstoneCols 7 r
         then None else Some n)"
  by (rule Compact_preserves_winners) (rule ex_store_inv)

end
