(* ===== verification/Ulid.thy ===== *)
theory Ulid
  imports Sync_Op
begin

text \<open>
  Minting and reading ULIDs (\<^verbatim>\<open>internal/syncstore/op.go\<close>): the bit slicing of
  \<open>encodeULID\<close> over sixteen bytes, \<open>newULID\<close> over a wall clock and ten random bytes,
  and \<open>ULIDTime\<close>. A byte is a natural number below 256.
\<close>

unbundle bit_operations_syntax

section \<open>Encoding\<close>

definition ulid_char :: "nat \<Rightarrow> char" where
  "ulid_char n = ulidAlphabet ! n"

definition encodeULID :: "nat list \<Rightarrow> string" where
  "encodeULID b =
     [ulid_char (drop_bit 5 (b ! 0 AND 224)),
      ulid_char (b ! 0 AND 31),
      ulid_char (drop_bit 3 (b ! 1 AND 248)),
      ulid_char (push_bit 2 (b ! 1 AND 7) OR drop_bit 6 (b ! 2 AND 192)),
      ulid_char (drop_bit 1 (b ! 2 AND 62)),
      ulid_char (push_bit 4 (b ! 2 AND 1) OR drop_bit 4 (b ! 3 AND 240)),
      ulid_char (push_bit 1 (b ! 3 AND 15) OR drop_bit 7 (b ! 4 AND 128)),
      ulid_char (drop_bit 2 (b ! 4 AND 124)),
      ulid_char (push_bit 3 (b ! 4 AND 3) OR drop_bit 5 (b ! 5 AND 224)),
      ulid_char (b ! 5 AND 31),
      ulid_char (drop_bit 3 (b ! 6 AND 248)),
      ulid_char (push_bit 2 (b ! 6 AND 7) OR drop_bit 6 (b ! 7 AND 192)),
      ulid_char (drop_bit 1 (b ! 7 AND 62)),
      ulid_char (push_bit 4 (b ! 7 AND 1) OR drop_bit 4 (b ! 8 AND 240)),
      ulid_char (push_bit 1 (b ! 8 AND 15) OR drop_bit 7 (b ! 9 AND 128)),
      ulid_char (drop_bit 2 (b ! 9 AND 124)),
      ulid_char (push_bit 3 (b ! 9 AND 3) OR drop_bit 5 (b ! 10 AND 224)),
      ulid_char (b ! 10 AND 31),
      ulid_char (drop_bit 3 (b ! 11 AND 248)),
      ulid_char (push_bit 2 (b ! 11 AND 7) OR drop_bit 6 (b ! 12 AND 192)),
      ulid_char (drop_bit 1 (b ! 12 AND 62)),
      ulid_char (push_bit 4 (b ! 12 AND 1) OR drop_bit 4 (b ! 13 AND 240)),
      ulid_char (push_bit 1 (b ! 13 AND 15) OR drop_bit 7 (b ! 14 AND 128)),
      ulid_char (drop_bit 2 (b ! 14 AND 124)),
      ulid_char (push_bit 3 (b ! 14 AND 3) OR drop_bit 5 (b ! 15 AND 224)),
      ulid_char (b ! 15 AND 31)]"

definition byte_of :: "nat \<Rightarrow> nat" where
  "byte_of n = n mod 256"

definition newULID :: "nat \<Rightarrow> nat list \<Rightarrow> string" where
  "newULID ms rnd =
     encodeULID ([byte_of (drop_bit 40 ms), byte_of (drop_bit 32 ms), byte_of (drop_bit 24 ms),
       byte_of (drop_bit 16 ms), byte_of (drop_bit 8 ms), byte_of ms] @ rnd)"

text \<open>\<open>strings.IndexByte\<close>; \<open>None\<close> is -1.\<close>

fun index_byte :: "string \<Rightarrow> char \<Rightarrow> nat option" where
  "index_byte [] c = None"
| "index_byte (d # ds) c = (if d = c then Some 0 else map_option Suc (index_byte ds c))"

definition ulid_digit :: "char \<Rightarrow> nat" where
  "ulid_digit c = (case index_byte ulidAlphabet c of Some n \<Rightarrow> n | None \<Rightarrow> 0)"

definition ULIDTime :: "string \<Rightarrow> nat option" where
  "ULIDTime s =
     (if \<not> IsULID s then None
      else Some (fold (\<lambda>c ms. push_bit 5 ms OR ulid_digit c) (take 10 s) 0))"

section \<open>Digits\<close>

lemma index_byte_nth: "distinct xs \<Longrightarrow> n < length xs \<Longrightarrow> index_byte xs (xs ! n) = Some n"
proof (induction xs arbitrary: n)
  case (Cons x xs)
  then show ?case by (cases n) auto
qed simp

lemma ulidAlphabet_facts: "distinct ulidAlphabet" "length ulidAlphabet = 32"
  by (simp_all add: ulidAlphabet_def)

lemma ulid_digit_char [simp]: "n < 32 \<Longrightarrow> ulid_digit (ulid_char n) = n"
  by (simp add: ulid_digit_def ulid_char_def index_byte_nth ulidAlphabet_facts)

lemma ulid_char_alphabet [simp]: "n < 32 \<Longrightarrow> ulid_char n \<in> set ulidAlphabet"
  unfolding ulid_char_def by (rule nth_mem) (simp add: ulidAlphabet_facts)

text \<open>Masks are remainders, shifts are divisions, and a disjoint \<open>or\<close> is a sum.\<close>

lemma and_mask_mod:
  "x AND 1 = x mod 2" "x AND 3 = x mod 4" "x AND 7 = x mod 8" "x AND 15 = x mod 16"
  "x AND 31 = x mod 32" for x :: nat
  using take_bit_eq_mask [of 1 x] take_bit_eq_mask [of 2 x] take_bit_eq_mask [of 3 x]
    take_bit_eq_mask [of 4 x] take_bit_eq_mask [of 5 x]
  by (simp_all add: take_bit_eq_mod mask_eq_exp_minus_1)

lemma drop_mask:
  "drop_bit 5 (x AND 224) = x div 32 mod 8" "drop_bit 3 (x AND 248) = x div 8 mod 32"
  "drop_bit 6 (x AND 192) = x div 64 mod 4" "drop_bit 1 (x AND 62) = x div 2 mod 32"
  "drop_bit 4 (x AND 240) = x div 16 mod 16" "drop_bit 7 (x AND 128) = x div 128 mod 2"
  "drop_bit 2 (x AND 124) = x div 4 mod 32" for x :: nat
proof -
  have m: "drop_bit 5 (224 :: nat) = 7" "drop_bit 3 (248 :: nat) = 31" "drop_bit 6 (192 :: nat) = 3"
    "drop_bit 1 (62 :: nat) = 31" "drop_bit 4 (240 :: nat) = 15" "drop_bit 7 (128 :: nat) = 1"
    "drop_bit 2 (124 :: nat) = 31"
    by (simp_all add: drop_bit_eq_div)
  show "drop_bit 5 (x AND 224) = x div 32 mod 8" "drop_bit 3 (x AND 248) = x div 8 mod 32"
    "drop_bit 6 (x AND 192) = x div 64 mod 4" "drop_bit 1 (x AND 62) = x div 2 mod 32"
    "drop_bit 4 (x AND 240) = x div 16 mod 16" "drop_bit 7 (x AND 128) = x div 128 mod 2"
    "drop_bit 2 (x AND 124) = x div 4 mod 32"
    unfolding drop_bit_and m and_mask_mod by (simp_all add: drop_bit_eq_div)
qed

lemma or_disjoint: "y < 2 ^ k \<Longrightarrow> push_bit k x OR y = x * 2 ^ k + y" for x y :: nat
proof -
  assume "y < 2 ^ k"
  then have "take_bit k y = y" by (simp add: take_bit_nat_eq_self)
  then have "\<not> bit y n" if "k \<le> n" for n
    using that by (metis bit_take_bit_iff not_less)
  then have "push_bit k x AND y = 0"
    by (intro bit_eqI) (auto simp: bit_simps)
  then have "push_bit k x OR y = push_bit k x + y"
    using disjunctive_add_eq_or by metis
  then show ?thesis by (simp add: push_bit_eq_mult)
qed

lemma slice_pairs:
  "push_bit 2 (x AND 7) OR drop_bit 6 (y AND 192) = x mod 8 * 4 + y div 64 mod 4"
  "push_bit 4 (x AND 1) OR drop_bit 4 (y AND 240) = x mod 2 * 16 + y div 16 mod 16"
  "push_bit 1 (x AND 15) OR drop_bit 7 (y AND 128) = x mod 16 * 2 + y div 128 mod 2"
  "push_bit 3 (x AND 3) OR drop_bit 5 (y AND 224) = x mod 4 * 8 + y div 32 mod 8" for x y :: nat
  unfolding drop_mask and_mask_mod
  using or_disjoint [of "y div 64 mod 4" 2 "x mod 8"] or_disjoint [of "y div 16 mod 16" 4 "x mod 2"]
    or_disjoint [of "y div 128 mod 2" 1 "x mod 16"] or_disjoint [of "y div 32 mod 8" 3 "x mod 4"]
  by simp_all

section \<open>Encoding and decoding\<close>

text \<open>The 26 digits as numbers to the base 32.\<close>

lemma encodeULID_digits:
  "encodeULID b = map ulid_char
      [b ! 0 div 32 mod 8, b ! 0 mod 32, b ! 1 div 8 mod 32,
       b ! 1 mod 8 * 4 + b ! 2 div 64 mod 4, b ! 2 div 2 mod 32, b ! 2 mod 2 * 16 + b ! 3 div 16 mod 16,
       b ! 3 mod 16 * 2 + b ! 4 div 128 mod 2, b ! 4 div 4 mod 32, b ! 4 mod 4 * 8 + b ! 5 div 32 mod 8,
       b ! 5 mod 32, b ! 6 div 8 mod 32, b ! 6 mod 8 * 4 + b ! 7 div 64 mod 4,
       b ! 7 div 2 mod 32, b ! 7 mod 2 * 16 + b ! 8 div 16 mod 16, b ! 8 mod 16 * 2 + b ! 9 div 128 mod 2,
       b ! 9 div 4 mod 32, b ! 9 mod 4 * 8 + b ! 10 div 32 mod 8, b ! 10 mod 32,
       b ! 11 div 8 mod 32, b ! 11 mod 8 * 4 + b ! 12 div 64 mod 4, b ! 12 div 2 mod 32,
       b ! 12 mod 2 * 16 + b ! 13 div 16 mod 16, b ! 13 mod 16 * 2 + b ! 14 div 128 mod 2, b ! 14 div 4 mod 32,
       b ! 14 mod 4 * 8 + b ! 15 div 32 mod 8, b ! 15 mod 32]"
  unfolding encodeULID_def slice_pairs unfolding drop_mask and_mask_mod by (simp only: list.map)

lemma sum_bound: "a < m \<Longrightarrow> c < k \<Longrightarrow> a * k + c < m * k" for a c m k :: nat
proof -
  assume "a < m" "c < k"
  then have "a * k + c < Suc a * k" by simp
  also have "\<dots> \<le> m * k" using \<open>a < m\<close> by (intro mult_le_mono1) simp
  finally show ?thesis .
qed

lemma digit_bounds:
  "x mod 8 * 4 + y div 64 mod 4 < 32" "x mod 2 * 16 + y div 16 mod 16 < 32"
  "x mod 16 * 2 + y div 128 mod 2 < 32" "x mod 4 * 8 + y div 32 mod 8 < 32"
  "x div 32 mod 8 < 32" "x mod 32 < 32" for x y :: nat
  using sum_bound [of "x mod 8" 8 "y div 64 mod 4" 4] sum_bound [of "x mod 2" 2 "y div 16 mod 16" 16]
    sum_bound [of "x mod 16" 16 "y div 128 mod 2" 2] sum_bound [of "x mod 4" 4 "y div 32 mod 8" 8]
    mod_less_divisor [of 8 "x div 32"] by (simp_all del: mod_less_divisor)

lemma encodeULID_IsULID [simp]: "IsULID (encodeULID b)"
  by (simp add: IsULID_def encodeULID_digits digit_bounds del: mod_mult_self1)

text \<open>Reading ten digits back is a Horner evaluation to the base 32, and regroups the six
  bytes.\<close>

lemma horner_step: "n < 32 \<Longrightarrow> push_bit 5 ms OR ulid_digit (ulid_char n) = ms * 32 + n"
  using or_disjoint [of n 5 ms] by simp

lemma horner:
  "\<forall>n \<in> set ns. n < 32 \<Longrightarrow>
   fold (\<lambda>c ms. push_bit 5 ms OR ulid_digit c) (map ulid_char ns) m = foldl (\<lambda>ms n. ms * 32 + n) m ns"
  by (induction ns arbitrary: m) (simp_all add: horner_step del: ulid_digit_char)

lemma mod_split: "x mod (k * m) = x div k mod m * k + x mod k" for x k m :: nat
  using mod_mult2_eq [of x k m] by (simp only: mult.commute)

lemma split_byte:
  fixes x :: nat
  assumes "x < 256"
  shows "x div 32 mod 8 * 32 + x mod 32 = x" "x div 8 mod 32 * 8 + x mod 8 = x"
    "x div 64 mod 4 * 64 + (x div 2 mod 32 * 2 + x mod 2) = x"
    "x div 16 mod 16 * 16 + x mod 16 = x"
    "x div 128 mod 2 * 128 + (x div 4 mod 32 * 4 + x mod 4) = x"
proof -
  have m: "x mod (32 * 8) = x" "x mod (8 * 32) = x" "x mod (16 * 16) = x" "x mod (64 * 4) = x"
    "x mod (128 * 2) = x" "(64 :: nat) = 2 * 32" "(128 :: nat) = 4 * 32"
    using assms by simp_all
  show "x div 32 mod 8 * 32 + x mod 32 = x" "x div 8 mod 32 * 8 + x mod 8 = x"
    "x div 16 mod 16 * 16 + x mod 16 = x"
    using m(1-3) by (simp_all only: mod_split)
  have "x div 2 mod 32 * 2 + x mod 2 = x mod 64" "x div 4 mod 32 * 4 + x mod 4 = x mod 128"
    unfolding m(6,7) by (simp_all only: mod_split)
  then show "x div 64 mod 4 * 64 + (x div 2 mod 32 * 2 + x mod 2) = x"
    "x div 128 mod 2 * 128 + (x div 4 mod 32 * 4 + x mod 4) = x"
    using m(4,5) by (simp_all only: mod_split)
qed

lemma regroup:
  fixes x0 y0 x1 y1 x2 y2 z2 x3 y3 x4 y4 z4 x5 y5 :: nat
  assumes "x0 * 32 + y0 = b0" "x1 * 8 + y1 = b1" "x2 * 64 + (y2 * 2 + z2) = b2"
    "x3 * 16 + y3 = b3" "x4 * 128 + (y4 * 4 + z4) = b4" "x5 * 32 + y5 = b5"
  shows "foldl (\<lambda>ms n. ms * 32 + n) 0
      [x0, y0, x1, y1 * 4 + x2, y2, z2 * 16 + x3, y3 * 2 + x4, y4, z4 * 8 + x5, y5] =
    b0 * 2 ^ 40 + b1 * 2 ^ 32 + b2 * 2 ^ 24 + b3 * 2 ^ 16 + b4 * 2 ^ 8 + b5"
  unfolding assms [symmetric] by (simp add: algebra_simps)

lemma ULIDTime_encode:
  assumes "b0 < 256" "b1 < 256" "b2 < 256" "b3 < 256" "b4 < 256" "b5 < 256"
  shows "ULIDTime (encodeULID (b0 # b1 # b2 # b3 # b4 # b5 # rnd)) =
    Some (b0 * 2 ^ 40 + b1 * 2 ^ 32 + b2 * 2 ^ 24 + b3 * 2 ^ 16 + b4 * 2 ^ 8 + b5)"
proof -
  let ?b = "b0 # b1 # b2 # b3 # b4 # b5 # rnd"
  let ?ns = "[b0 div 32 mod 8, b0 mod 32, b1 div 8 mod 32, b1 mod 8 * 4 + b2 div 64 mod 4,
    b2 div 2 mod 32, b2 mod 2 * 16 + b3 div 16 mod 16, b3 mod 16 * 2 + b4 div 128 mod 2,
    b4 div 4 mod 32, b4 mod 4 * 8 + b5 div 32 mod 8, b5 mod 32]"
  have "take 10 (encodeULID ?b) = map ulid_char ?ns"
    by (simp add: encodeULID_digits)
  moreover have "\<forall>n \<in> set ?ns. n < 32" by (simp add: digit_bounds)
  ultimately have "ULIDTime (encodeULID ?b) = Some (foldl (\<lambda>ms n. ms * 32 + n) 0 ?ns)"
    by (simp only: ULIDTime_def encodeULID_IsULID horner not_True_eq_False if_False)
  then show ?thesis
    using regroup [OF split_byte(1) [OF assms(1)] split_byte(2) [OF assms(2)]
        split_byte(3) [OF assms(3)] split_byte(4) [OF assms(4)] split_byte(5) [OF assms(5)]
        split_byte(1) [OF assms(6)]] by (simp only:)
qed

text \<open>
  ULIDs: whatever the clock and the random bytes, \<open>newULID\<close> mints a canonical ULID,
  and \<open>ULIDTime\<close> reads back exactly the millisecond clock of the minting, up to the 48 bits
  the layout has for it.
\<close>

theorem newULID_time:
  "IsULID (newULID ms rnd) \<and> ULIDTime (newULID ms rnd) = Some (ms mod 2 ^ 48)"
proof -
  have p: "(2 :: nat) ^ 40 * 256 = 2 ^ 48" "(2 :: nat) ^ 32 * 256 = 2 ^ 40"
    "(2 :: nat) ^ 24 * 256 = 2 ^ 32" "(2 :: nat) ^ 16 * 256 = 2 ^ 24" "(2 :: nat) ^ 8 * 256 = 2 ^ 16"
    "(2 :: nat) ^ 8 = 256"
    by simp_all
  have e: "ms mod 2 ^ 48 = ms div 2 ^ 40 mod 256 * 2 ^ 40 + ms mod 2 ^ 40"
    "ms mod 2 ^ 40 = ms div 2 ^ 32 mod 256 * 2 ^ 32 + ms mod 2 ^ 32"
    "ms mod 2 ^ 32 = ms div 2 ^ 24 mod 256 * 2 ^ 24 + ms mod 2 ^ 24"
    "ms mod 2 ^ 24 = ms div 2 ^ 16 mod 256 * 2 ^ 16 + ms mod 2 ^ 16"
    "ms mod 2 ^ 16 = ms div 2 ^ 8 mod 256 * 2 ^ 8 + ms mod 256"
    using mod_split [of ms "2 ^ 40" 256, unfolded p(1)] mod_split [of ms "2 ^ 32" 256, unfolded p(2)]
      mod_split [of ms "2 ^ 24" 256, unfolded p(3)] mod_split [of ms "2 ^ 16" 256, unfolded p(4)]
      mod_split [of ms "2 ^ 8" 256, unfolded p(5)] p(6) by metis+
  have "ms mod 2 ^ 48 = byte_of (drop_bit 40 ms) * 2 ^ 40 + byte_of (drop_bit 32 ms) * 2 ^ 32 +
      byte_of (drop_bit 24 ms) * 2 ^ 24 + byte_of (drop_bit 16 ms) * 2 ^ 16 +
      byte_of (drop_bit 8 ms) * 2 ^ 8 + byte_of ms"
    unfolding byte_of_def drop_bit_eq_div e by (simp only: add.assoc)
  then show ?thesis
    by (simp only: newULID_def append_Cons append_Nil) (simp add: ULIDTime_encode byte_of_def)
qed

end
