(* ===== verification/Devices.thy ===== *)
theory Devices
  imports Compaction Ulid
begin

text \<open>
  The device registry: the tombstone watermark over the active devices
  (\<^verbatim>\<open>compaction/watermark.go\<close>, \<open>ComputeWatermark\<close>), the health listing
  \<open>ListDevices\<close> of \<^verbatim>\<open>internal/syncstore/devices.go\<close>, and one full pass
  \<open>compactOnce\<close> of \<^verbatim>\<open>internal/source/forestnote/source.go\<close>.
\<close>

section \<open>Watermark\<close>

record Site =
  LastPullSeq :: int
  LastSeenUnixMs :: millis

definition stale :: "millis \<Rightarrow> int \<Rightarrow> millis \<Rightarrow> bool" where
  "stale nowMs staleHorizonMs lastSeen \<longleftrightarrow> staleHorizonMs < wrap64 (nowMs - lastSeen)"

text \<open>The loop over the sites: the watermark so far (if any active site was seen) and the
  evicted ids. The map's iteration order is the order of the list.\<close>

definition watermark_step ::
    "millis \<Rightarrow> int \<Rightarrow> string \<times> Site \<Rightarrow> int \<times> bool \<times> string list \<Rightarrow> int \<times> bool \<times> string list" where
  "watermark_step nowMs horizon = (\<lambda>(id, s) (watermark, haveActive, evicted).
     if stale nowMs horizon (LastSeenUnixMs s) then (watermark, haveActive, evicted @ [id])
     else if \<not> haveActive \<or> LastPullSeq s < watermark then (LastPullSeq s, True, evicted)
     else (watermark, haveActive, evicted))"

definition Watermark :: "(string \<times> Site) list \<Rightarrow> millis \<Rightarrow> int \<Rightarrow> int \<times> string list" where
  "Watermark sites nowMs horizon =
     (case fold (watermark_step nowMs horizon) sites (0, False, []) of
        (watermark, haveActive, evicted) \<Rightarrow>
          ((if haveActive then watermark else 0), sort evicted))"

definition cursor_site :: "cursor_row \<Rightarrow> Site" where
  "cursor_site c = \<lparr>LastPullSeq = cu_last_pull_seq c, LastSeenUnixMs = cu_updated_at c\<rparr>"

definition ComputeWatermark :: "millis \<Rightarrow> int \<Rightarrow> sync_store \<Rightarrow> int \<times> string list" where
  "ComputeWatermark nowMs horizon s =
     Watermark (map (\<lambda>(id, c). (id, cursor_site c)) (sync_cursors s)) nowMs horizon"

text \<open>The active sites, those seen within the horizon.\<close>

definition active_pulls :: "millis \<Rightarrow> int \<Rightarrow> (string \<times> Site) list \<Rightarrow> int list" where
  "active_pulls nowMs horizon sites =
     map (\<lambda>(_, s). LastPullSeq s)
       (filter (\<lambda>(_, s). \<not> stale nowMs horizon (LastSeenUnixMs s)) sites)"

lemma watermark_fold:
  "fold (watermark_step nowMs horizon) sites (w, h, ev) =
     (let a = active_pulls nowMs horizon sites
      in ((if h then fold min a w else if a = [] then w else fold min (tl a) (hd a)),
          h \<or> a \<noteq> [],
          ev @ map fst (filter (\<lambda>(_, s). stale nowMs horizon (LastSeenUnixMs s)) sites)))"
proof (induction sites arbitrary: w h ev)
  case Nil
  then show ?case by (simp add: active_pulls_def)
next
  case (Cons x xs)
  obtain id s where x: "x = (id, s)" by (cases x)
  show ?case
  proof (cases "stale nowMs horizon (LastSeenUnixMs s)")
    case True
    then show ?thesis
      using Cons.IH [of w h "ev @ [id]"] by (simp add: x watermark_step_def active_pulls_def Let_def)
  next
    case False
    have m: "min (LastPullSeq s) w = (if LastPullSeq s < w then LastPullSeq s else w)"
      by (simp add: min_def)
    show ?thesis
      using False Cons.IH [of "LastPullSeq s" True ev] Cons.IH [of w h ev]
      by (auto simp: x watermark_step_def active_pulls_def Let_def m)
  qed
qed

lemma fold_min_Min: "fold min xs (x :: int) = Min (insert x (set xs))"
  using Min.set_eq_fold [of x xs] by simp

lemma Watermark_eq:
  "Watermark sites nowMs horizon =
     (let a = active_pulls nowMs horizon sites
      in (if a = [] then 0 else Min (set a)),
      sort (map fst (filter (\<lambda>(_, s). stale nowMs horizon (LastSeenUnixMs s)) sites)))"
proof (cases "active_pulls nowMs horizon sites")
  case (Cons y ys)
  then show ?thesis by (simp add: Watermark_def watermark_fold Let_def fold_min_Min)
qed (simp add: Watermark_def watermark_fold Let_def)

lemma ComputeWatermark_eq:
  "ComputeWatermark nowMs horizon s =
     (let active = filter (\<lambda>(_, c). \<not> stale nowMs horizon (cu_updated_at c)) (sync_cursors s)
      in (if active = [] then 0 else Min (set (map (\<lambda>(_, c). cu_last_pull_seq c) active)),
          sort (map fst (filter (\<lambda>(_, c). stale nowMs horizon (cu_updated_at c)) (sync_cursors s)))))"
proof -
  have a: "active_pulls nowMs horizon (map (\<lambda>(id, c). (id, cursor_site c)) cs) =
      map (\<lambda>(_, c). cu_last_pull_seq c) (filter (\<lambda>(_, c). \<not> stale nowMs horizon (cu_updated_at c)) cs)"
    for cs by (induction cs) (auto simp: active_pulls_def cursor_site_def)
  have b: "map fst (filter (\<lambda>(_, s). stale nowMs horizon (LastSeenUnixMs s))
        (map (\<lambda>(id, c). (id, cursor_site c)) cs)) =
      map fst (filter (\<lambda>(_, c). stale nowMs horizon (cu_updated_at c)) cs)"
    for cs by (induction cs) (auto simp: cursor_site_def)
  show ?thesis by (simp add: ComputeWatermark_def Watermark_eq a b Let_def)
qed

text \<open>
  The watermark is the least pull cursor over exactly the devices seen within the horizon,
  and 0 when there is none; the evicted devices are exactly the stale ones, in order. So a
  tombstone a sweep purges has been pulled past by every active device.
\<close>

theorem ComputeWatermark_spec:
  "ComputeWatermark nowMs horizon s =
     (let active = filter (\<lambda>(_, c). \<not> stale nowMs horizon (cu_updated_at c)) (sync_cursors s)
      in (if active = [] then 0 else Min (set (map (\<lambda>(_, c). cu_last_pull_seq c) active)),
          sort (map fst (filter (\<lambda>(_, c). stale nowMs horizon (cu_updated_at c)) (sync_cursors s)))))"
  by (rule ComputeWatermark_eq)

section \<open>One compaction pass\<close>

record CompactOutcome =
  coWatermark :: int
  coEvicted :: "string list"
  coCollapsedSuperseded :: nat
  coPurgedTombstones :: nat

definition defaultStaleHorizonSec :: int where
  "defaultStaleHorizonSec = 30 * 24 * 60 * 60"

definition staleHorizonMs :: "int \<Rightarrow> int" where
  "staleHorizonMs horizonSec = (if horizonSec \<le> 0 then defaultStaleHorizonSec else horizonSec) * 1000"

definition compactOnce :: "int \<Rightarrow> millis \<Rightarrow> sync_store \<Rightarrow> CompactOutcome \<times> sync_store" where
  "compactOnce horizonSec nowMs s =
     (case ComputeWatermark nowMs (staleHorizonMs horizonSec) s of
        (watermark, evicted) \<Rightarrow>
          (case Compact TombstoneCols watermark s of
             (st, s') \<Rightarrow>
               (\<lparr>coWatermark = watermark, coEvicted = evicted,
                 coCollapsedSuperseded = CollapsedSuperseded st,
                 coPurgedTombstones = PurgedTombstones st\<rparr>, s')))"

text \<open>
  C14. A full pass is safe for every active device: a row it deletes is either superseded by a
  kept or purged newer version of the same key, or a tombstone that every device seen within the
  horizon has already pulled past.
\<close>

theorem compactOnce_safe:
  assumes "store_inv s" and "compactOnce horizonSec nowMs s = (outcome, s')"
    and "r \<in> set (sync_ops s)" and "r \<notin> set (sync_ops s')"
  shows "superseded (sync_ops s) r \<or>
    isTombstone (row_op r) TombstoneCols \<and>
    (\<forall>(id, c) \<in> set (sync_cursors s).
       \<not> stale nowMs (staleHorizonMs horizonSec) (cu_updated_at c) \<longrightarrow> lr_seq r \<le> cu_last_pull_seq c)"
proof -
  let ?w = "fst (ComputeWatermark nowMs (staleHorizonMs horizonSec) s)"
  have "s' = snd (Compact TombstoneCols ?w s)"
    using assms(2) by (auto simp: compactOnce_def split: prod.splits)
  then have del: "superseded (sync_ops s) r \<or> purged TombstoneCols ?w r"
    using assms(3,4) by (auto simp: Compact_eq [OF assms(1)])
  have "?w \<le> cu_last_pull_seq c"
    if "(id, c) \<in> set (sync_cursors s)" "\<not> stale nowMs (staleHorizonMs horizonSec) (cu_updated_at c)"
    for id c
  proof -
    let ?A = "filter (\<lambda>(_, c). \<not> stale nowMs (staleHorizonMs horizonSec) (cu_updated_at c))
        (sync_cursors s)"
    have "(id, c) \<in> set ?A" using that by simp
    then have "cu_last_pull_seq c \<in> set (map (\<lambda>(_, c). cu_last_pull_seq c) ?A)" "?A \<noteq> []" by force+
    then show ?thesis
      unfolding ComputeWatermark_eq Let_def fst_conv by (simp only: if_False) (rule Min_le, simp_all)
  qed
  with del show ?thesis by (fastforce simp: purged_def)
qed

section \<open>Device listing\<close>

record DeviceRow =
  dSiteID :: string
  dName :: string
  dLabel :: string
  dFirstSeenMs :: nat
  dLastSeenMs :: millis
  dLastPullSeq :: int
  dAckedOpSeq :: int
  dPendingOps :: nat
  dStale :: bool
  dPinsWatermark :: bool

definition pending_ops :: "string \<Rightarrow> cursor_row \<Rightarrow> log_row list \<Rightarrow> nat" where
  "pending_ops site c lg =
     length (filter (\<lambda>r. cu_last_pull_seq c < lr_seq r \<and> lr_site_id r \<noteq> site) lg)"

definition device_row :: "millis \<Rightarrow> int \<Rightarrow> log_row list \<Rightarrow> string \<times> cursor_row \<Rightarrow> DeviceRow" where
  "device_row nowMs horizon lg = (\<lambda>(site, c).
     \<lparr>dSiteID = site, dName = cu_device_name c, dLabel = cu_operator_label c,
      dFirstSeenMs = (case ULIDTime site of None \<Rightarrow> 0 | Some ms \<Rightarrow> ms),
      dLastSeenMs = cu_updated_at c, dLastPullSeq = cu_last_pull_seq c,
      dAckedOpSeq = cu_acked_op_seq c, dPendingOps = pending_ops site c lg,
      dStale = stale nowMs horizon (cu_updated_at c), dPinsWatermark = False\<rparr>)"

definition ListDevices :: "millis \<Rightarrow> int \<Rightarrow> sync_store \<Rightarrow> DeviceRow list" where
  "ListDevices nowMs horizon s =
     (let cursors = sort_key (\<lambda>(site, c). (- cu_updated_at c, site)) (sync_cursors s);
          out = map (device_row nowMs horizon (sync_ops s)) cursors;
          active = filter (\<lambda>d. \<not> dStale d) out;
          activeSites = length active;
          maxActivePull = fold (\<lambda>d m. if dLastPullSeq d > m then dLastPullSeq d else m) active 0;
          watermark = fst (Watermark (map (\<lambda>(site, c). (site, cursor_site c)) cursors) nowMs horizon)
      in map (\<lambda>d. d\<lparr>dPinsWatermark := \<not> dStale d \<and> 1 < activeSites \<and> dLastPullSeq d = watermark \<and>
                     dLastPullSeq d < maxActivePull\<rparr>) out)"

text \<open>The laggard of a registry: an active device that no active device is behind and some
  active device is strictly ahead of.\<close>

definition laggard :: "millis \<Rightarrow> int \<Rightarrow> cursor_row table \<Rightarrow> cursor_row \<Rightarrow> bool" where
  "laggard nowMs horizon t c \<longleftrightarrow>
     (let active = filter (\<lambda>c. \<not> stale nowMs horizon (cu_updated_at c)) (map snd t)
      in c \<in> set active \<and> (\<forall>c' \<in> set active. cu_last_pull_seq c \<le> cu_last_pull_seq c') \<and>
         (\<exists>c' \<in> set active. cu_last_pull_seq c < cu_last_pull_seq c'))"

lemma fold_max_pull:
  "fold (\<lambda>d m. if dLastPullSeq d > m then dLastPullSeq d else m) ds m0 =
     Max (insert m0 (dLastPullSeq ` set ds))"
proof (induction ds arbitrary: m0)
  case (Cons d ds)
  have "(if dLastPullSeq d > m0 then dLastPullSeq d else m0) = max m0 (dLastPullSeq d)" by simp
  moreover have "Max (insert (max m0 (dLastPullSeq d)) (dLastPullSeq ` set ds)) =
      Max (insert m0 (insert (dLastPullSeq d) (dLastPullSeq ` set ds)))"
    by (cases "ds = []") (simp_all add: max.assoc)
  ultimately show ?case using Cons.IH by simp
qed simp

lemma two_elems: "x \<in> set xs \<Longrightarrow> y \<in> set xs \<Longrightarrow> x \<noteq> y \<Longrightarrow> 1 < length xs"
  by (cases xs; cases "tl xs") auto

lemma pins_iff:
  assumes "c \<in> set xs" and "\<forall>x \<in> set xs. (0 :: int) \<le> f x"
  shows "1 < length xs \<and> f c = Min (f ` set xs) \<and> f c < Max (insert 0 (f ` set xs)) \<longleftrightarrow>
    (\<forall>x \<in> set xs. f c \<le> f x) \<and> (\<exists>x \<in> set xs. f c < f x)"
proof -
  have ne: "f ` set xs \<noteq> {}" and fin: "finite (f ` set xs)" using assms(1) by auto
  have "f c = Min (f ` set xs) \<longleftrightarrow> (\<forall>x \<in> set xs. f c \<le> f x)"
    using assms(1) Min_eq_iff [OF fin ne, of "f c"] by (metis (mono_tags, lifting) image_iff)
  moreover have "f c < Max (insert 0 (f ` set xs)) \<longleftrightarrow> (\<exists>x \<in> set xs. f c < f x)"
    using assms Max_gr_iff [of "insert 0 (f ` set xs)" "f c"] fin by force
  moreover have "1 < length xs" if "x \<in> set xs" "f c < f x" for x
    using two_elems [OF assms(1) that(1)] that(2) by auto
  ultimately show ?thesis by blast
qed

lemma active_devices:
  "dLastPullSeq ` set (filter (\<lambda>d. \<not> dStale d) (map (device_row nowMs horizon lg) t)) =
     cu_last_pull_seq ` set (filter (\<lambda>c. \<not> stale nowMs horizon (cu_updated_at c)) (map snd t))"
  by (force simp: device_row_def)

lemma active_length:
  "length (filter (\<lambda>d. \<not> dStale d) (map (device_row nowMs horizon lg) t)) =
     length (filter (\<lambda>c. \<not> stale nowMs horizon (cu_updated_at c)) (map snd t))"
  by (induction t) (auto simp: device_row_def)

lemma active_pulls_cursors:
  "active_pulls nowMs horizon (map (\<lambda>(site, c). (site, cursor_site c)) t) =
     map cu_last_pull_seq (filter (\<lambda>c. \<not> stale nowMs horizon (cu_updated_at c)) (map snd t))"
  by (induction t) (auto simp: active_pulls_def cursor_site_def)

text \<open>
  The device listing: it lists every registered device exactly once, most recently seen
  first, with the number of ops it has still to pull, marks as stale exactly the devices a
  compaction pass would evict, and marks as pinning exactly the laggards, for pull cursors that
  are not negative.
\<close>

theorem ListDevices_spec:
  assumes "\<forall>(_, c) \<in> set (sync_cursors s). 0 \<le> cu_last_pull_seq c"
  shows "ListDevices nowMs horizon s =
    map (\<lambda>(site, c). (device_row nowMs horizon (sync_ops s) (site, c))
           \<lparr>dPinsWatermark := laggard nowMs horizon (sync_cursors s) c\<rparr>)
      (sort_key (\<lambda>(site, c). (- cu_updated_at c, site)) (sync_cursors s))"
proof -
  let ?t = "sort_key (\<lambda>(site, c). (- cu_updated_at c, site)) (sync_cursors s)"
  let ?active = "filter (\<lambda>c. \<not> stale nowMs horizon (cu_updated_at c)) (map snd ?t)"
  let ?pulls = "cu_last_pull_seq ` set ?active"
  have set: "set ?active = set (filter (\<lambda>c. \<not> stale nowMs horizon (cu_updated_at c)) (map snd (sync_cursors s)))"
    by auto
  have nonneg: "\<forall>p \<in> ?pulls. 0 \<le> p" using assms by auto
  have pins: "(\<not> stale nowMs horizon (cu_updated_at c) \<and> 1 < length ?active \<and>
        cu_last_pull_seq c = (if ?active = [] then 0 else Min ?pulls) \<and>
        cu_last_pull_seq c < Max (insert 0 ?pulls)) =
      laggard nowMs horizon (sync_cursors s) c" if "c \<in> snd ` set ?t" for c
  proof (cases "stale nowMs horizon (cu_updated_at c)")
    case True
    then show ?thesis by (simp add: laggard_def)
  next
    case False
    then have c: "c \<in> set ?active" using that by auto
    then have "?active \<noteq> []" using length_pos_if_in_set [OF c] by (simp only: length_greater_0_conv not_False_eq_True)
    moreover have "\<forall>c' \<in> set ?active. 0 \<le> cu_last_pull_seq c'" using nonneg by blast
    ultimately show ?thesis
      using pins_iff [OF c, of cu_last_pull_seq] c False unfolding laggard_def Let_def set [symmetric]
      by (simp only: if_False simp_thms)
  qed
  show ?thesis
    unfolding ListDevices_def Let_def fold_max_pull active_devices active_length Watermark_eq
      active_pulls_cursors fst_conv map_map map_is_Nil_conv set_map
    by (rule map_cong [OF refl]) (use pins in \<open>force simp: device_row_def\<close>)
qed

theorem ListDevices_spec_witness:
  "ListDevices 100 50 (RecordCursor (ex_site 0) 0 ''tablet'' 90 ex_store) =
    map (\<lambda>(site, c). (device_row 100 50 (sync_ops ex_store) (site, c))
           \<lparr>dPinsWatermark := laggard 100 50
              (sync_cursors (RecordCursor (ex_site 0) 0 ''tablet'' 90 ex_store)) c\<rparr>)
      (sort_key (\<lambda>(site, c). (- cu_updated_at c, site))
        (sync_cursors (RecordCursor (ex_site 0) 0 ''tablet'' 90 ex_store)))"
proof -
  have o: "sync_ops (RecordCursor (ex_site 0) 0 ''tablet'' 90 ex_store) = sync_ops ex_store"
    and n: "\<forall>(_, c) \<in> set (sync_cursors (RecordCursor (ex_site 0) 0 ''tablet'' 90 ex_store)).
       0 \<le> cu_last_pull_seq c"
    by (simp_all add: RecordCursor_def ex_store_def fresh_store_def)
  from ListDevices_spec [OF n, of 100 50] show ?thesis unfolding o .
qed

section \<open>Redelivery after a purge\<close>

lemma apply_single_loser:
  assumes "store_inv s" and "ingestible op" and "\<not> has_op (sync_ops s) (opSiteID op) (opOpSeq op)"
    and "\<not> wins (wire_op op) (mir s)" and "ApplyBatch siteID [op] now s = (Inr res, s')"
  shows "mir s' = mir s \<and> sync_ops s' = sync_ops s @ [new_row (withV5Defaults op) now s]"
proof (rule ApplyBatch_facts [OF assms(1,5)])
  fix a :: apply_acc
  assume loop: "fold_sum (apply_op siteID now) [op] (init_acc s) = Inr a"
    and eqs: "sync_ops s' = sync_ops (aaStore a)" "mir s' = mir (aaStore a)"
  from loop have ap: "apply_op siteID now op (init_acc s) = Inr a"
    by (auto simp: bind_sum_eq_Inr)
  have v: "validateOp (withV5Defaults op) = []" using assms(2) by (simp add: ingestible_def)
  then have "mergeRow (wire_op op) (mir s) = Inr (False, [], mir s)"
    using assms(4) valid_known by (subst mergeRow_wins) (force, simp)
  with ap v assms(1,3) show ?thesis
    by (auto simp: eqs apply_op_def wire_op_def Let_def bind_sum_eq_Inr init_acc_def appendOp_inv(1))
qed

text \<open>
  A redelivery after a purge is not reclaimed: when compaction has removed every row of a
  key whose mirror row is a newer tombstone, and a device redelivers an old live version (its
  acknowledgement was lost), the mirror stays right, but the changelog now holds the live version
  as the only row of the key, so a fresh replica materializes it, and no later sweep, whatever its
  watermark, removes it.
\<close>

theorem redelivery_after_purge:
  assumes "store_inv s" and "ingestible op"
    and "\<not> isTombstone (withV5Defaults op) TombstoneCols"
    and "\<forall>r \<in> set (sync_ops s). opTablePK (row_op r) \<noteq> opTablePK op"
    and "\<not> has_op (sync_ops s) (opSiteID op) (opOpSeq op)"
    and "mirror_row (mir s) (opTablePK op) = Some dead" and "opKey op < row_lww dead"
    and "ApplyBatch siteID [op] now s = (Inr res, s')"
  shows "mirror_row (mir s') (opTablePK op) = Some dead \<and>
    Merge (map row_op (sync_ops (snd (Compact TombstoneCols wm s')))) (opTablePK op) = Some (wire_op op)"
proof -
  have "\<not> wins (wire_op op) (mir s)" using assms(6,7) by (simp add: wins_def)
  from apply_single_loser [OF assms(1,2,5) this assms(8)]
  have st: "mir s' = mir s" "sync_ops s' = sync_ops s @ [new_row (withV5Defaults op) now s]" by auto
  let ?r = "new_row (withV5Defaults op) now s"
  have r: "row_op ?r = withV5Defaults op" by (simp add: row_op_def)
  have inv: "store_inv s'" using ApplyBatch_Inr [OF assms(1), of siteID "[op]" now] assms(8) by force
  let ?lg = "sync_ops (snd (Compact TombstoneCols wm s'))"
  have ns: "\<not> superseded (sync_ops s') ?r"
    using assms(4) by (auto simp: superseded_def st r Less_iff opTablePK_def)
  moreover have "\<not> purged TombstoneCols wm ?r" using assms(3) by (simp add: purged_def r)
  ultimately have "?r \<in> set ?lg" "\<not> superseded ?lg ?r"
    by (auto simp: Compact_eq [OF inv] st superseded_def)
  then have "Merge (map row_op ?lg) (opTablePK (row_op ?r)) = Some (Normalize (row_op ?r))"
    by (rule Merge_rows_eq [OF store_entries(2) [OF Compact_inv [OF inv]]])
  then show ?thesis using assms(6) st(1) by (simp add: r wire_op_def opTablePK_def)
qed

section \<open>Witnesses\<close>

text \<open>A folder is deleted by one device; an older edit of it by another one arrives in the same
  sync; a pass with every device past both purges the key.\<close>

definition ex_del :: Op where
  "ex_del = (ex_op 1 9)\<lparr>opCols := (opCols (ex_op 1 9))(''deleted_at'' \<mapsto> JNum 9)\<rparr>"

definition ex_synced :: sync_store where
  "ex_synced = snd (ApplyBatch (ex_site 0) [ex_del, ex_op 0 5] 10 (fresh_store ''u''))"

definition ex_purge :: sync_store where
  "ex_purge = snd (Compact TombstoneCols 2 ex_synced)"

definition ex_dead :: any_row where
  "ex_dead = FolderRow \<lparr>fo_name = Some ''a'', fo_sort_order = Some 1, fo_created_at = Some 2,
     fo_deleted_at = Some 9, fo_parent_folder_id = None, fo_lww = (9, 1, ex_site 1)\<rparr>"

lemma ex_synced_inv: "store_inv ex_synced"
  unfolding ex_synced_def
  using ApplyBatch_Inr [OF store_inv_fresh, of "ex_site 0" "[ex_del, ex_op 0 5]" 10 "''u''"] by force

lemma ex_purge_facts:
  "sync_ops ex_purge = []" "mirror_row (mir ex_purge) (''folder'', ex_pk) = Some ex_dead"
  "\<not> isTombstone (withV5Defaults (ex_op 0 5)) TombstoneCols"
  "map lr_seq (sync_ops ex_synced) = [1, 2]"
  "map lr_seq (sync_ops (snd (compactOnce 0 20 ex_synced))) = [1]"
  by code_simp+

theorem redelivery_after_purge_witness:
  "\<exists>res s'. ApplyBatch (ex_site 0) [ex_op 0 5] 20 ex_purge = (Inr res, s') \<and>
    mirror_row (mir s') (''folder'', ex_pk) = Some ex_dead \<and>
    Merge (map row_op (sync_ops (snd (Compact TombstoneCols 99 s')))) (''folder'', ex_pk) =
      Some (wire_op (ex_op 0 5))"
proof -
  have inv: "store_inv ex_purge" unfolding ex_purge_def by (rule Compact_inv [OF ex_synced_inv])
  obtain res s' where r: "ApplyBatch (ex_site 0) [ex_op 0 5] 20 ex_purge = (Inr res, s')"
    using ApplyBatch_Inr [OF inv] .
  have k: "opTablePK (ex_op 0 5) = (''folder'', ex_pk)" by (simp add: opTablePK_def ex_op_def)
  have "opKey (ex_op 0 5) < row_lww ex_dead"
    by (simp add: opKey_def ex_op_def ex_dead_def less_prod_def)
  moreover have "\<forall>q \<in> set (sync_ops ex_purge). opTablePK (row_op q) \<noteq> opTablePK (ex_op 0 5)"
    and "\<not> has_op (sync_ops ex_purge) (opSiteID (ex_op 0 5)) (opOpSeq (ex_op 0 5))"
    by (simp_all add: ex_purge_facts(1) has_op_def)
  moreover have "mirror_row (mir ex_purge) (opTablePK (ex_op 0 5)) = Some ex_dead"
    unfolding k by (rule ex_purge_facts(2))
  ultimately show ?thesis
    using redelivery_after_purge [OF inv ex_op_ingestible ex_purge_facts(3) _ _ _ _ r, of ex_dead 99] r
    unfolding k by blast
qed

theorem compactOnce_safe_witness:
  "superseded (sync_ops ex_synced) (sync_ops ex_synced ! 1) \<or>
    isTombstone (row_op (sync_ops ex_synced ! 1)) TombstoneCols \<and>
    (\<forall>(id, c) \<in> set (sync_cursors ex_synced).
       \<not> stale 20 (staleHorizonMs 0) (cu_updated_at c) \<longrightarrow>
         lr_seq (sync_ops ex_synced ! 1) \<le> cu_last_pull_seq c)"
proof -
  have l: "length (sync_ops ex_synced) = 2" using arg_cong [OF ex_purge_facts(4), of length] by simp
  then have "lr_seq (sync_ops ex_synced ! 1) = 2"
    using nth_map [of 1 "sync_ops ex_synced" lr_seq] by (simp add: ex_purge_facts(4))
  moreover have "lr_seq ` set (sync_ops (snd (compactOnce 0 20 ex_synced))) = {1}"
    using arg_cong [OF ex_purge_facts(5), of set] by simp
  moreover have "(2 :: int) \<notin> {1}" by simp
  ultimately have "sync_ops ex_synced ! 1 \<notin> set (sync_ops (snd (compactOnce 0 20 ex_synced)))"
    by (metis imageI)
  then show ?thesis
    using compactOnce_safe [OF ex_synced_inv, of 0 20 "fst (compactOnce 0 20 ex_synced)"
        "snd (compactOnce 0 20 ex_synced)" "sync_ops ex_synced ! 1"] l by simp
qed

end
