(* ===== verification/Inventory.thy ===== *)
theory Inventory
  imports Sync_Author "HOL-Library.Option_ord"
begin

text \<open>
  The browsable inventory and the render reads of the mirror
  (\<^verbatim>\<open>internal/syncstore/inventory.go\<close>, \<^verbatim>\<open>internal/syncstore/reads.go\<close>). An
  SQL \<open>ORDER BY\<close> is a stable sort of the rows in rowid order; a null sorts first, a text by its
  bytes.
\<close>

section \<open>Rows\<close>

record FolderInfo =
  fiID :: string
  fiName :: string
  fiParentFolderID :: string
  fiSortOrder :: int
  fiCreatedAt :: int
  fiModifiedAt :: int

record NotebookInfo =
  niID :: string
  niName :: string
  niFolderID :: string
  niSortOrder :: int
  niPageCount :: nat
  niCreatedAt :: int
  niModifiedAt :: int
  niPageWidth :: int
  niPageHeight :: int

record PageRef =
  prID :: string
  prSortOrder :: int

record TextBoxRef =
  trID :: string
  trPageID :: string
  trText :: string
  trZ :: int

record StrokeData =
  sdColor :: int
  sdPenWidthMin :: int
  sdPenWidthMax :: int
  sdPoints :: "string option"
  sdBrushKind :: string
  sdBrushVersion :: int
  sdBrushSeed :: int
  sdPointDynamics :: "string option"
  sdZ :: int

record TextBoxData =
  tdX :: int
  tdY :: int
  tdWidth :: int
  tdHeight :: int
  tdText :: string
  tdFontName :: string
  tdFontSize :: int
  tdColor :: int
  tdWeight :: int
  tdBorderWidth :: int
  tdZ :: int

record PageTextData =
  ptdText :: string
  ptdModel :: string

section \<open>Inventory reads\<close>

definition coalesce :: "'a option \<Rightarrow> 'a \<Rightarrow> 'a" where
  "coalesce v d = (case v of None \<Rightarrow> d | Some x \<Rightarrow> x)"

definition folder_info :: "string \<times> folder_row \<Rightarrow> FolderInfo" where
  "folder_info = (\<lambda>(pk, r).
     \<lparr>fiID = pk, fiName = coalesce (fo_name r) [],
      fiParentFolderID = coalesce (fo_parent_folder_id r) [],
      fiSortOrder = coalesce (fo_sort_order r) 0, fiCreatedAt = coalesce (fo_created_at r) 0,
      fiModifiedAt = fst (fo_lww r)\<rparr>)"

definition live_folders :: "mirror \<Rightarrow> (string \<times> folder_row) list" where
  "live_folders m = filter (\<lambda>(_, r). fo_deleted_at r = None) (fn_folder m)"

definition ListFolders :: "mirror \<Rightarrow> FolderInfo list" where
  "ListFolders m =
     map folder_info (sort_key (\<lambda>(_, r). (fo_sort_order r, fo_name r)) (live_folders m))"

definition live_pages_of :: "mirror \<Rightarrow> string \<Rightarrow> (string \<times> page_row) list" where
  "live_pages_of m nb =
     filter (\<lambda>(_, p). pg_notebook_id p = Some nb \<and> pg_deleted_at p = None) (fn_page m)"

definition notebook_page_count :: "mirror \<Rightarrow> string \<Rightarrow> nat" where
  "notebook_page_count m nb = length (live_pages_of m nb)"

text \<open>The derived last activity: the greatest timestamp over the notebook row, its live pages
  and the live strokes of those pages.\<close>

definition live_strokes_of :: "mirror \<Rightarrow> string \<Rightarrow> (string \<times> stroke_row) list" where
  "live_strokes_of m nb =
     filter (\<lambda>(_, s). st_deleted_at s = None \<and>
        (case st_page_id s of None \<Rightarrow> False | Some pg \<Rightarrow> pg \<in> set (map fst (live_pages_of m nb))))
       (fn_stroke m)"

definition notebook_modified :: "mirror \<Rightarrow> string \<times> notebook_row \<Rightarrow> int" where
  "notebook_modified m = (\<lambda>(pk, n).
     max (fst (nb_lww n))
       (max (max_or_zero (map (\<lambda>(_, p). fst (pg_lww p)) (live_pages_of m pk)))
            (max_or_zero (map (\<lambda>(_, s). fst (st_lww s)) (live_strokes_of m pk)))))"

definition notebook_info :: "mirror \<Rightarrow> string \<times> notebook_row \<Rightarrow> NotebookInfo" where
  "notebook_info m = (\<lambda>(pk, n).
     \<lparr>niID = pk, niName = coalesce (nb_name n) [], niFolderID = coalesce (nb_folder_id n) [],
      niSortOrder = coalesce (nb_sort_order n) 0, niPageCount = notebook_page_count m pk,
      niCreatedAt = coalesce (nb_created_at n) 0, niModifiedAt = notebook_modified m (pk, n),
      niPageWidth = coalesce (nb_page_width n) 10000,
      niPageHeight = coalesce (nb_page_height n) (coalesce (nb_aspect_long_axis n) 13333)\<rparr>)"

definition live_notebooks :: "mirror \<Rightarrow> (string \<times> notebook_row) list" where
  "live_notebooks m = filter (\<lambda>(_, n). nb_deleted_at n = None) (fn_notebook m)"

definition ListNotebooks :: "mirror \<Rightarrow> NotebookInfo list" where
  "ListNotebooks m =
     map (notebook_info m) (sort_key (\<lambda>(_, n). (nb_sort_order n, nb_name n)) (live_notebooks m))"

definition ListFolderContents :: "string \<Rightarrow> mirror \<Rightarrow> FolderInfo list \<times> NotebookInfo list" where
  "ListFolderContents folderID m =
     (map folder_info
        (sort_key (\<lambda>(_, r). (fo_sort_order r, fo_name r))
          (filter (\<lambda>(_, r). coalesce (fo_parent_folder_id r) [] = folderID) (live_folders m))),
      map (notebook_info m)
        (sort_key (\<lambda>(_, n). (nb_sort_order n, nb_name n))
          (filter (\<lambda>(_, n). coalesce (nb_folder_id n) [] = folderID) (live_notebooks m))))"

text \<open>The ancestor walk of \<open>FolderPath\<close>, leaf first; the caller reverses it. The depth guard
  leaves the loop when the chain holds more than 64 folders.\<close>

definition find_live_folder :: "mirror \<Rightarrow> string \<Rightarrow> FolderInfo option" where
  "find_live_folder m fid =
     (case map_of (fn_folder m) fid of
        None \<Rightarrow> None
      | Some r \<Rightarrow> if fo_deleted_at r = None then Some (folder_info (fid, r)) else None)"

function folder_walk :: "mirror \<Rightarrow> string \<Rightarrow> string list \<Rightarrow> FolderInfo list \<Rightarrow> FolderInfo list" where
  "folder_walk m fid seen chain =
     (if fid = [] \<or> fid \<in> set seen then chain
      else if length chain > 64 then chain
      else (case find_live_folder m fid of
              None \<Rightarrow> chain
            | Some f \<Rightarrow> folder_walk m (fiParentFolderID f) (fid # seen) (chain @ [f])))"
  by pat_completeness auto
termination
  by (relation "measure (\<lambda>(m, fid, seen, chain). 65 - length chain)") auto

declare folder_walk.simps [simp del]

definition FolderPath :: "string \<Rightarrow> mirror \<Rightarrow> FolderInfo list" where
  "FolderPath folderID m = rev (folder_walk m folderID [] [])"

definition LiveNotebookPageIDs :: "string \<Rightarrow> mirror \<Rightarrow> string list" where
  "LiveNotebookPageIDs nb m =
     map fst (sort_key (\<lambda>(pk, p). (pg_sort_order p, pk)) (live_pages_of m nb))"

definition NotebookPages :: "string \<Rightarrow> mirror \<Rightarrow> PageRef list" where
  "NotebookPages nb m =
     map (\<lambda>(pk, p). \<lparr>prID = pk, prSortOrder = coalesce (pg_sort_order p) 0\<rparr>)
       (sort_key (\<lambda>(pk, p). (pg_sort_order p, pk)) (live_pages_of m nb))"

definition NotebookMeta :: "string \<Rightarrow> mirror \<Rightarrow> NotebookInfo option" where
  "NotebookMeta nb m =
     (case map_of (fn_notebook m) nb of
        None \<Rightarrow> None
      | Some n \<Rightarrow> if nb_deleted_at n = None then Some (notebook_info m (nb, n)) else None)"

text \<open>The join of \<open>ListNotebookTextBoxes\<close>: a box belongs to the live page with its
  \<open>page_id\<close>.\<close>

definition ListNotebookTextBoxes :: "string \<Rightarrow> mirror \<Rightarrow> TextBoxRef list" where
  "ListNotebookTextBoxes nb m =
     map (\<lambda>((tpk, t), (ppk, p)).
            \<lparr>trID = tpk, trPageID = ppk, trText = coalesce (tb_text t) [], trZ = coalesce (tb_z t) 0\<rparr>)
       (sort_key (\<lambda>((tpk, t), (ppk, p)). (pg_sort_order p, ppk, tb_z t, tpk))
          (filter (\<lambda>((tpk, t), (ppk, p)). tb_deleted_at t = None \<and> tb_page_id t = Some ppk)
             (List.product (fn_text_box m) (live_pages_of m nb))))"

section \<open>Render reads\<close>

definition LivePage :: "string \<Rightarrow> mirror \<Rightarrow> string \<times> bool" where
  "LivePage pk m =
     (case map_of (fn_page m) pk of
        None \<Rightarrow> ([], False)
      | Some p \<Rightarrow> (coalesce (pg_notebook_id p) [], pg_deleted_at p = None))"

text \<open>A null in a column that is scanned into a plain Go variable is a scan error,
  \<open>None\<close>.\<close>

definition scan_stroke :: "stroke_row \<Rightarrow> StrokeData option" where
  "scan_stroke s =
     (case (st_color s, st_pen_width_min s, st_pen_width_max s, st_z s) of
        (Some c, Some mn, Some mx, Some z) \<Rightarrow>
          Some \<lparr>sdColor = c, sdPenWidthMin = mn, sdPenWidthMax = mx, sdPoints = st_points s,
                sdBrushKind = st_brush_kind s, sdBrushVersion = st_brush_version s,
                sdBrushSeed = st_brush_seed s, sdPointDynamics = st_point_dynamics s, sdZ = z\<rparr>
      | _ \<Rightarrow> None)"

definition scan_text_box :: "text_box_row \<Rightarrow> TextBoxData option" where
  "scan_text_box t =
     (case (tb_x t, tb_y t, tb_width t, tb_height t, tb_text t, tb_font_name t, tb_font_size t,
            tb_color t, tb_weight t, tb_border_width t, tb_z t) of
        (Some x, Some y, Some w, Some h, Some tx, Some fname, Some fsize, Some c, Some wt, Some bw, Some z) \<Rightarrow>
          Some \<lparr>tdX = x, tdY = y, tdWidth = w, tdHeight = h, tdText = tx, tdFontName = fname,
                tdFontSize = fsize, tdColor = c, tdWeight = wt, tdBorderWidth = bw, tdZ = z\<rparr>
      | _ \<Rightarrow> None)"

fun scan_all :: "('a \<Rightarrow> 'b option) \<Rightarrow> 'a list \<Rightarrow> 'b list option" where
  "scan_all f [] = Some []"
| "scan_all f (x # xs) =
     (case f x of None \<Rightarrow> None | Some y \<Rightarrow> map_option ((#) y) (scan_all f xs))"

definition LivePageStrokes :: "string \<Rightarrow> mirror \<Rightarrow> StrokeData list option" where
  "LivePageStrokes pk m =
     scan_all scan_stroke
       (sort_key st_z
         (filter (\<lambda>s. st_page_id s = Some pk \<and> st_deleted_at s = None) (map snd (fn_stroke m))))"

definition LivePageTextBoxes :: "string \<Rightarrow> mirror \<Rightarrow> TextBoxData list option" where
  "LivePageTextBoxes pk m =
     scan_all scan_text_box
       (sort_key tb_z
         (filter (\<lambda>t. tb_page_id t = Some pk \<and> tb_deleted_at t = None) (map snd (fn_text_box m))))"

text \<open>\<open>None\<close> is the scan error, \<open>Some None\<close> no live row.\<close>

definition LivePageTextFromClient :: "string \<Rightarrow> mirror \<Rightarrow> PageTextData option option" where
  "LivePageTextFromClient pk m =
     (case map_of (fn_page_text_from_client m) pk of
        None \<Rightarrow> Some None
      | Some r \<Rightarrow>
          if pt_deleted_at r \<noteq> None then Some None
          else (case pt_text r of
                  None \<Rightarrow> None
                | Some tx \<Rightarrow> Some (Some \<lparr>ptdText = tx, ptdModel = coalesce (pt_model r) []\<rparr>)))"

definition CountIndexedPages :: "mirror \<Rightarrow> nat" where
  "CountIndexedPages m =
     length (filter (\<lambda>(pk, t).
        pt_deleted_at t = None \<and> coalesce (pt_text t) [] \<noteq> [] \<and>
        (case map_of (fn_page m) pk of
           None \<Rightarrow> False
         | Some p \<Rightarrow>
             pg_deleted_at p = None \<and>
             (case pg_notebook_id p of
                None \<Rightarrow> False
              | Some nb \<Rightarrow>
                  (case map_of (fn_notebook m) nb of
                     None \<Rightarrow> False
                   | Some n \<Rightarrow> nb_deleted_at n = None))))
       (fn_page_text_from_server m))"

section \<open>Breadcrumbs\<close>

text \<open>A chain of live folders, leaf first, each the parent of its predecessor.\<close>

definition linked :: "mirror \<Rightarrow> FolderInfo list \<Rightarrow> bool" where
  "linked m chain \<longleftrightarrow>
     distinct (map fiID chain) \<and> length chain \<le> 65 \<and>
     (\<forall>f \<in> set chain. find_live_folder m (fiID f) = Some f) \<and>
     (\<forall>i. Suc i < length chain \<longrightarrow> fiParentFolderID (chain ! i) = fiID (chain ! Suc i))"

lemma find_live_folder_id: "find_live_folder m fid = Some f \<Longrightarrow> fiID f = fid"
  by (auto simp: find_live_folder_def folder_info_def split: option.splits if_splits)

lemma linked_snoc:
  assumes "linked m chain" and "find_live_folder m fid = Some f" and "fid \<notin> set (map fiID chain)"
    and "length chain \<le> 64" and "chain \<noteq> [] \<Longrightarrow> fiParentFolderID (last chain) = fid"
  shows "linked m (chain @ [f])"
proof -
  have "fiParentFolderID ((chain @ [f]) ! i) = fiID ((chain @ [f]) ! Suc i)"
    if "Suc i < length (chain @ [f])" for i
  proof (cases "Suc i < length chain")
    case True
    then show ?thesis using assms(1) by (simp add: linked_def nth_append)
  next
    case False
    then have i: "Suc i = length chain" using that by simp
    then have "chain \<noteq> []" by auto
    moreover from i this have "last chain = chain ! i" by (metis diff_Suc_1 last_conv_nth)
    ultimately show ?thesis
      using i assms(5) find_live_folder_id [OF assms(2)] by (simp add: nth_append)
  qed
  then show ?thesis
    using assms find_live_folder_id [OF assms(2)] by (auto simp: linked_def)
qed

lemma folder_walk_linked:
  assumes "linked m chain" and "set seen = set (map fiID chain)"
    and "chain \<noteq> [] \<Longrightarrow> fiParentFolderID (last chain) = fid"
  shows "linked m (folder_walk m fid seen chain) \<and> (\<exists>more. folder_walk m fid seen chain = chain @ more)"
  using assms
proof (induction m fid seen chain rule: folder_walk.induct)
  case (1 m fid seen chain)
  show ?case
  proof (cases "fid = [] \<or> fid \<in> set seen \<or> length chain > 64 \<or> find_live_folder m fid = None")
    case True
    then show ?thesis using "1.prems"(1) by (auto simp: folder_walk.simps [of m fid seen chain])
  next
    case False
    then obtain f where f: "find_live_folder m fid = Some f" by auto
    have "linked m (chain @ [f])"
      using linked_snoc [OF "1.prems"(1) f] "1.prems"(2,3) False by auto
    moreover have "set (fid # seen) = set (map fiID (chain @ [f]))"
      using "1.prems"(2) find_live_folder_id [OF f] by auto
    ultimately have "linked m (folder_walk m (fiParentFolderID f) (fid # seen) (chain @ [f])) \<and>
        (\<exists>more. folder_walk m (fiParentFolderID f) (fid # seen) (chain @ [f]) = (chain @ [f]) @ more)"
      using "1.IH" False f by auto
    then show ?thesis using False f by (auto simp: folder_walk.simps [of m fid seen chain])
  qed
qed

text \<open>
  Breadcrumbs: for any mirror, even one with a cycle of parent links, \<open>FolderPath\<close>
  terminates with a chain of at most 65 live folders without repetition, each the parent of the
  next, and it ends in the requested folder whenever that folder is live.
\<close>

theorem FolderPath_chain:
  fixes fid :: string and m :: mirror
  defines "p \<equiv> FolderPath fid m"
  shows "distinct (map fiID p) \<and> length p \<le> 65 \<and>
    (\<forall>f \<in> set p. find_live_folder m (fiID f) = Some f) \<and>
    (\<forall>i. Suc i < length p \<longrightarrow> fiParentFolderID (p ! Suc i) = fiID (p ! i)) \<and>
    (\<forall>f. fid \<noteq> [] \<and> find_live_folder m fid = Some f \<longrightarrow> p \<noteq> [] \<and> last p = f)"
proof -
  let ?w = "folder_walk m fid [] []"
  have p: "p = rev ?w" by (simp add: p_def FolderPath_def)
  have l: "linked m ?w" using folder_walk_linked [of m "[]" "[]" fid] by (simp add: linked_def)
  have "fiParentFolderID (p ! Suc i) = fiID (p ! i)" if "Suc i < length p" for i
  proof -
    let ?j = "length ?w - Suc (Suc i)"
    have "p ! Suc i = ?w ! ?j" "p ! i = ?w ! Suc ?j"
      using that by (simp_all add: p rev_nth Suc_diff_Suc)
    then show ?thesis using l that by (simp add: linked_def p)
  qed
  moreover have "p \<noteq> [] \<and> last p = f" if "fid \<noteq> []" "find_live_folder m fid = Some f" for f
  proof -
    have "\<exists>more. ?w = [f] @ more"
      using that folder_walk_linked [of m "[f]" "[fid]" "fiParentFolderID f"]
        linked_snoc [of m "[]" fid f] find_live_folder_id [OF that(2)]
      by (simp add: folder_walk.simps [of m fid "[]" "[]"]) (simp add: linked_def)
    then show ?thesis by (auto simp: p last_rev)
  qed
  ultimately show ?thesis using l by (auto simp: p linked_def rev_map [symmetric])
qed

theorem FolderPath_chain_witness:
  "length (FolderPath ex_pk (mir ex_store)) \<le> 65 \<and>
   distinct (map fiID (FolderPath ex_pk (mir ex_store)))"
  using FolderPath_chain [of ex_pk "mir ex_store"] by simp

section \<open>Navigation\<close>

lemma map_sort_filter:
  assumes "\<And>x. P x \<longleftrightarrow> g (f x) = c"
  shows "y \<in> set (map f (sort_key k (filter P xs))) \<longleftrightarrow> y \<in> set (map f (sort_key k xs)) \<and> g y = c"
  using assms by auto

text \<open>
  One level at a time loses nothing: a folder or notebook of the full listing appears in the
  contents of exactly the folder it names as its parent (the empty id for the root), and the
  contents list nothing else.
\<close>

theorem ListFolderContents_partition:
  "(f \<in> set (fst (ListFolderContents fid m)) \<longleftrightarrow>
      f \<in> set (ListFolders m) \<and> fiParentFolderID f = fid) \<and>
   (n \<in> set (snd (ListFolderContents fid m)) \<longleftrightarrow> n \<in> set (ListNotebooks m) \<and> niFolderID n = fid)"
  unfolding ListFolderContents_def ListFolders_def ListNotebooks_def fst_conv snd_conv
  by (intro conjI map_sort_filter) (auto simp: folder_info_def notebook_info_def)

text \<open>
  The page listings agree: the ids the viewer lists are exactly the ids a reprocessing run
  enqueues, in the same order, every one is a page \<open>LivePage\<close> reports as live in that
  notebook, and their number is the page count shown with the notebook.
\<close>

theorem NotebookPages_agree:
  assumes "wf_mirror m"
  shows "map prID (NotebookPages nb m) = LiveNotebookPageIDs nb m \<and>
    length (NotebookPages nb m) = notebook_page_count m nb \<and>
    (\<forall>pk \<in> set (LiveNotebookPageIDs nb m). LivePage pk m = (nb, True))"
proof -
  have "LivePage pk m = (nb, True)" if "(pk, p) \<in> set (live_pages_of m nb)" for pk p
    using that assms by (auto simp: live_pages_of_def LivePage_def wf_mirror_def coalesce_def)
  then show ?thesis
    by (auto simp: NotebookPages_def LiveNotebookPageIDs_def notebook_page_count_def comp_def
        split_def)
qed

theorem NotebookPages_agree_witness:
  "map prID (NotebookPages ex_pk (mir ex_store)) = LiveNotebookPageIDs ex_pk (mir ex_store)"
  using NotebookPages_agree [of "mir ex_store" ex_pk] ex_store_inv by (simp add: store_inv_def)

end
