(* ===== verification/Sync_Edit.thy ===== *)
theory Sync_Edit
  imports Inventory
begin

text \<open>
  Server-side edits: the wire rendering of stored columns, the notebook delete, the text box
  edit and the recognized page text (\<^verbatim>\<open>internal/syncstore/inventory.go\<close>,
  \<^verbatim>\<open>internal/syncstore/pagetext.go\<close>). Each builds full-row ops from the mirror and hands
  them to \<open>AuthorOps\<close>.
\<close>

section \<open>Wire columns\<close>

definition wireNum :: "int option \<Rightarrow> json" where
  "wireNum n = (case n of Some i \<Rightarrow> JNum (i64_to_f64 i) | None \<Rightarrow> JNum 0)"

definition wireNullNum :: "int option \<Rightarrow> json" where
  "wireNullNum n = (case n of Some i \<Rightarrow> JNum (i64_to_f64 i) | None \<Rightarrow> JNull)"

definition wireNullStr :: "string option \<Rightarrow> json" where
  "wireNullStr s = (case s of Some t \<Rightarrow> JStr t | None \<Rightarrow> JNull)"

definition wireNullBlob :: "string option \<Rightarrow> json" where
  "wireNullBlob b = (case b of None \<Rightarrow> JNull | Some bs \<Rightarrow> JStr (EncodeToString bs))"

text \<open>An op as its author hands it over: the three key fields are filled in by
  \<open>AuthorOps\<close>.\<close>

definition row_upsert :: "string \<Rightarrow> string \<Rightarrow> cols \<Rightarrow> Op" where
  "row_upsert t pk cs =
     \<lparr>opTable = t, opPK = pk, opSiteID = [], opOpSeq = 0, opWallTS = 0, opCols = cs\<rparr>"

datatype edit_error =
  TextBoxNotFound string
| TextBoxDeleted string
| ReadTextBox
| PageNotULID string
| AuthorFailed sync_error

definition author_result ::
    "(sync_error + (string \<times> string) list) \<times> sync_store \<Rightarrow> 'r \<Rightarrow> (edit_error + 'r) \<times> sync_store" where
  "author_result res r = (case res of (Inl e, s) \<Rightarrow> (Inl (AuthorFailed e), s) | (Inr _, s) \<Rightarrow> (Inr r, s))"

section \<open>Recognized page text\<close>

definition pageTextCols :: "string \<Rightarrow> int \<Rightarrow> int \<Rightarrow> string \<Rightarrow> int option \<Rightarrow> cols" where
  "pageTextCols txt ocrAt createdAt model deletedAt =
     [''created_at'' \<mapsto> JNum (i64_to_f64 createdAt),
      ''deleted_at'' \<mapsto> wireNullNum deletedAt,
      ''model'' \<mapsto> (if model \<noteq> [] then JStr model else JNull),
      ''ocr_at'' \<mapsto> JNum (i64_to_f64 ocrAt),
      ''text'' \<mapsto> JStr txt]"

definition AuthorPageText ::
    "string \<Rightarrow> string \<Rightarrow> int \<Rightarrow> string \<Rightarrow> millis \<Rightarrow> sync_store \<Rightarrow> (edit_error + unit) \<times> sync_store" where
  "AuthorPageText pageID txt ocrAt model now s =
     (if \<not> IsULID pageID then (Inl (PageNotULID pageID), s)
      else author_result
        (AuthorOps [row_upsert ''page_text_from_server'' pageID
           (pageTextCols txt ocrAt ocrAt model None)] now s) ())"

text \<open>The first clock reading stamps the row, the second one is \<open>AuthorOps\<close>'s own.\<close>

definition AuthorPageTextTombstone ::
    "string \<Rightarrow> millis \<Rightarrow> millis \<Rightarrow> sync_store \<Rightarrow> (edit_error + unit) \<times> sync_store" where
  "AuthorPageTextTombstone pageID now now' s =
     (if \<not> IsULID pageID then (Inl (PageNotULID pageID), s)
      else author_result
        (AuthorOps [row_upsert ''page_text_from_server'' pageID
           (pageTextCols [] 0 now [] (Some now))] now' s) ())"

section \<open>Text box edit\<close>

definition text_box_cols :: "string \<Rightarrow> TextBoxData \<Rightarrow> int \<Rightarrow> cols" where
  "text_box_cols pid d created =
     [''page_id'' \<mapsto> JStr pid, ''x'' \<mapsto> JNum (i64_to_f64 (tdX d)), ''y'' \<mapsto> JNum (i64_to_f64 (tdY d)),
      ''width'' \<mapsto> JNum (i64_to_f64 (tdWidth d)), ''height'' \<mapsto> JNum (i64_to_f64 (tdHeight d)),
      ''text'' \<mapsto> JStr (tdText d), ''font_name'' \<mapsto> JStr (tdFontName d),
      ''font_size'' \<mapsto> JNum (i64_to_f64 (tdFontSize d)), ''color'' \<mapsto> JNum (i64_to_f64 (tdColor d)),
      ''weight'' \<mapsto> JNum (i64_to_f64 (tdWeight d)),
      ''border_width'' \<mapsto> JNum (i64_to_f64 (tdBorderWidth d)), ''z'' \<mapsto> JNum (i64_to_f64 (tdZ d)),
      ''created_at'' \<mapsto> JNum (i64_to_f64 created), ''deleted_at'' \<mapsto> JNull]"

definition EditTextBoxText ::
    "string \<Rightarrow> string \<Rightarrow> millis \<Rightarrow> sync_store \<Rightarrow> (edit_error + string) \<times> sync_store" where
  "EditTextBoxText boxID newText now s =
     (case map_of (fn_text_box (mir s)) boxID of
        None \<Rightarrow> (Inl (TextBoxNotFound boxID), s)
      | Some r \<Rightarrow>
          (case (tb_page_id r, scan_text_box r, tb_created_at r) of
             (Some pid, Some d, Some created) \<Rightarrow>
               if tb_deleted_at r \<noteq> None then (Inl (TextBoxDeleted boxID), s)
               else author_result
                 (AuthorOps [row_upsert ''text_box'' boxID
                    (text_box_cols pid (d\<lparr>tdText := newText\<rparr>) created)] now s) pid
           | _ \<Rightarrow> (Inl ReadTextBox, s)))"

section \<open>Notebook delete\<close>

definition notebook_tombstone :: "millis \<Rightarrow> string \<Rightarrow> notebook_row \<Rightarrow> Op" where
  "notebook_tombstone now pk n = row_upsert ''notebook'' pk
     [''name'' \<mapsto> JStr (the_text (nb_name n)), ''sort_order'' \<mapsto> wireNum (nb_sort_order n),
      ''created_at'' \<mapsto> wireNum (nb_created_at n), ''deleted_at'' \<mapsto> JNum (i64_to_f64 now),
      ''folder_id'' \<mapsto> wireNullStr (nb_folder_id n),
      ''aspect_long_axis'' \<mapsto> wireNullNum (nb_aspect_long_axis n),
      ''page_width'' \<mapsto> wireNullNum (nb_page_width n),
      ''page_height'' \<mapsto> wireNullNum (nb_page_height n)]"

definition page_tombstone :: "millis \<Rightarrow> string \<times> page_row \<Rightarrow> Op" where
  "page_tombstone now = (\<lambda>(pk, p). row_upsert ''page'' pk
     [''notebook_id'' \<mapsto> JStr (the_text (pg_notebook_id p)), ''sort_order'' \<mapsto> wireNum (pg_sort_order p),
      ''created_at'' \<mapsto> wireNum (pg_created_at p), ''deleted_at'' \<mapsto> JNum (i64_to_f64 now),
      ''template'' \<mapsto> wireNullStr (pg_template p),
      ''template_pitch_mm'' \<mapsto> wireNullNum (pg_template_pitch_mm p)])"

definition stroke_tombstone :: "millis \<Rightarrow> string \<times> stroke_row \<Rightarrow> Op" where
  "stroke_tombstone now = (\<lambda>(pk, s). row_upsert ''stroke'' pk
     [''page_id'' \<mapsto> JStr (the_text (st_page_id s)), ''color'' \<mapsto> wireNum (st_color s),
      ''pen_width_min'' \<mapsto> wireNum (st_pen_width_min s),
      ''pen_width_max'' \<mapsto> wireNum (st_pen_width_max s),
      ''points'' \<mapsto> JStr (EncodeToString (the_text (st_points s))),
      ''brush_kind'' \<mapsto> JStr (st_brush_kind s), ''brush_version'' \<mapsto> wireNum (Some (st_brush_version s)),
      ''brush_seed'' \<mapsto> wireNum (Some (st_brush_seed s)),
      ''point_dynamics'' \<mapsto> wireNullBlob (st_point_dynamics s), ''z'' \<mapsto> wireNum (st_z s),
      ''created_at'' \<mapsto> wireNum (st_created_at s), ''deleted_at'' \<mapsto> JNum (i64_to_f64 now)])"

definition page_text_tombstone :: "millis \<Rightarrow> string \<Rightarrow> Op" where
  "page_text_tombstone now pk =
     row_upsert ''page_text_from_server'' pk (pageTextCols [] 0 now [] (Some now))"

definition notebook_delete_ops :: "string \<Rightarrow> millis \<Rightarrow> notebook_row \<Rightarrow> mirror \<Rightarrow> Op list" where
  "notebook_delete_ops nb now n m =
     notebook_tombstone now nb n #
     map (page_tombstone now) (live_pages_of m nb) @
     map (stroke_tombstone now) (live_strokes_of m nb) @
     map (page_text_tombstone now) (map fst (live_pages_of m nb))"

definition SoftDeleteNotebook ::
    "string \<Rightarrow> millis \<Rightarrow> millis \<Rightarrow> sync_store \<Rightarrow> (edit_error + string list) \<times> sync_store" where
  "SoftDeleteNotebook nb now now' s =
     (case map_of (fn_notebook (mir s)) nb of
        None \<Rightarrow> (Inr [], s)
      | Some n \<Rightarrow>
          author_result (AuthorOps (notebook_delete_ops nb now n (mir s)) now' s)
            (map fst (live_pages_of (mir s) nb)))"

section \<open>Exactness of the wire numbers\<close>

text \<open>Integers below \<open>2 ^ 53\<close> survive the trip through \<open>float64\<close>.\<close>

definition exact :: "int \<Rightarrow> bool" where
  "exact n \<longleftrightarrow> \<bar>n\<bar> < 2 ^ 53"

lemma i64_to_f64_exact: "exact n \<Longrightarrow> i64_to_f64 n = of_int n"
  by (simp add: exact_def i64_to_f64_def f64_unit.simps [of _ 1] round_even_def sgn_mult_abs)

lemma f64_roundtrip: "exact n \<Longrightarrow> f64_to_i64 (i64_to_f64 n) = n"
  by (simp add: i64_to_f64_exact) (auto simp: exact_def f64_to_i64_def int64_def)

section \<open>The authored rows\<close>

lemmas col_defs = colInt_def colNullInt_def colString_def colNullString_def colBytes_def
  colNullBytes_def col_value_def

lemmas wire_defs = wireNum_def wireNullNum_def wireNullStr_def wireNullBlob_def

text \<open>A full row has exactly the columns of its table, so defaults and normalization leave it
  alone and the authored op is the row under the server's stamp.\<close>

definition full_row :: "string \<Rightarrow> cols \<Rightarrow> bool" where
  "full_row t cs \<longleftrightarrow> (\<exists>ks. knownCols t = Some ks \<and> dom cs = set ks)"

definition stamped_row :: "string \<Rightarrow> string \<Rightarrow> cols \<Rightarrow> lww_key \<Rightarrow> Op" where
  "stamped_row t pk cs k =
     \<lparr>opTable = t, opPK = pk, opSiteID = snd (snd k), opOpSeq = fst (snd k), opWallTS = fst k,
      opCols = cs\<rparr>"

lemma full_row_defaults:
  assumes "full_row t cs"
  shows "withV5Defaults (row_upsert t pk cs) = row_upsert t pk cs"
proof -
  have "cs c \<noteq> None" if "knownCols t = Some ks" "c \<in> set ks" for c ks
    using assms that by (auto simp: full_row_def)
  then show ?thesis
    by (auto simp: withV5Defaults_def row_upsert_def Let_def knownCols_notebook knownCols_stroke
        set_default_idem)
qed

lemma stamp_full_row:
  assumes "full_row t cs"
  shows "Normalize (stamp_op site seq ts (row_upsert t pk cs)) = stamped_row t pk cs (ts, seq, site)"
proof -
  obtain ks where ks: "knownCols t = Some ks" "dom cs = set ks"
    using assms by (auto simp: full_row_def)
  have "(\<lambda>c. if c \<in> set ks then cs c else None) = cs"
    by (rule ext) (metis ks(2) domIff)
  then show ?thesis
    using ks(1) unfolding stamp_op_def full_row_defaults [OF assms]
    by (simp add: Normalize_def row_upsert_def stamped_row_def cong: if_cong)
qed

lemma full_row_authorable:
  assumes "full_row t cs" and "IsULID pk" and "materialize (stamped_row t pk cs k) = Inr r"
  shows "authorable (row_upsert t pk cs)"
proof -
  have "typed (Normalize (stamp_op (snd (snd k)) (fst (snd k)) (fst k) (row_upsert t pk cs)))"
    using assms(3) by (simp add: stamp_full_row [OF assms(1)] typed_def)
  then have "typed (Normalize (withV5Defaults (row_upsert t pk cs)))" by simp
  moreover obtain ks where "knownCols t = Some ks" "dom cs = set ks"
    using assms(1) by (auto simp: full_row_def)
  ultimately show ?thesis
    using assms(2) unfolding authorable_def full_row_defaults [OF assms(1)]
    by (auto simp: row_upsert_def)
qed

lemma full_rows:
  "full_row ''page_text_from_server'' (pageTextCols txt oa ca md d)"
  "full_row ''text_box'' (text_box_cols pid td c)"
  by (auto simp: full_row_def knownCols_eqs pageTextCols_def text_box_cols_def)

lemma page_text_row:
  "materialize (stamped_row ''page_text_from_server'' pk (pageTextCols txt oa ca md d) k) =
    Inr (PageTextRow \<lparr>pt_text = Some txt, pt_ocr_at = Some (f64_to_i64 (i64_to_f64 oa)),
      pt_model = (if md = [] then None else Some md),
      pt_created_at = Some (f64_to_i64 (i64_to_f64 ca)),
      pt_deleted_at = map_option (\<lambda>n. f64_to_i64 (i64_to_f64 n)) d, pt_lww = k\<rparr>)"
  by (simp add: materialize_def page_text_of_op_def stamped_row_def pageTextCols_def col_defs
      wire_defs opKey_def Let_def split: option.split)

lemma text_box_row:
  "materialize (stamped_row ''text_box'' pk (text_box_cols pid d c) k) =
    Inr (TextBoxRow \<lparr>tb_page_id = Some pid, tb_x = Some (f64_to_i64 (i64_to_f64 (tdX d))),
      tb_y = Some (f64_to_i64 (i64_to_f64 (tdY d))), tb_width = Some (f64_to_i64 (i64_to_f64 (tdWidth d))),
      tb_height = Some (f64_to_i64 (i64_to_f64 (tdHeight d))), tb_text = Some (tdText d),
      tb_font_name = Some (tdFontName d), tb_font_size = Some (f64_to_i64 (i64_to_f64 (tdFontSize d))),
      tb_color = Some (f64_to_i64 (i64_to_f64 (tdColor d))),
      tb_weight = Some (f64_to_i64 (i64_to_f64 (tdWeight d))),
      tb_border_width = Some (f64_to_i64 (i64_to_f64 (tdBorderWidth d))),
      tb_z = Some (f64_to_i64 (i64_to_f64 (tdZ d))), tb_created_at = Some (f64_to_i64 (i64_to_f64 c)),
      tb_deleted_at = None, tb_lww = k\<rparr>)"
  by (simp add: materialize_def text_box_of_op_def stamped_row_def text_box_cols_def col_defs
      opKey_def Let_def)

text \<open>Authoring one full row writes exactly that row.\<close>

definition next_key :: "millis \<Rightarrow> sync_store \<Rightarrow> lww_key" where
  "next_key now s = (localEvent now (last_hlc s), last_op_seq s + 1, site_id s)"

lemma AuthorOps_full_row:
  assumes "author_ready 1 now s" and "full_row t cs" and "IsULID pk"
    and "materialize (stamped_row t pk cs (next_key now s)) = Inr r"
  obtains changed s' where "AuthorOps [row_upsert t pk cs] now s = (Inr changed, s')"
    and "store_inv s'" and "hlc_inv s'" and "own_inv s'"
    and "mirror_row (mir s') = (mirror_row (mir s))((t, pk) \<mapsto> r)"
proof -
  let ?op = "row_upsert t pk cs"
  have a: "authorable ?op" by (rule full_row_authorable [OF assms(2,3,4)])
  have key: "stamped_ops [?op] now s =
      [stamp_op (site_id s) (last_op_seq s + 1) (localEvent now (last_hlc s)) ?op]"
    by (simp add: stamped_ops_def)
  have "op_row (Normalize (stamp_op (site_id s) (last_op_seq s + 1) (localEvent now (last_hlc s)) ?op)) = r"
    unfolding stamp_full_row [OF assms(2)] op_row_def using assms(4) by (simp add: next_key_def)
  moreover have "opTablePK (stamp_op (site_id s) (last_op_seq s + 1) (localEvent now (last_hlc s)) ?op) = (t, pk)"
    by (simp add: opTablePK_def row_upsert_def)
  ultimately have ov: "overwrite (stamped_ops [?op] now s) v = v((t, pk) \<mapsto> r)" for v
    by (simp add: key overwrite_def)
  show ?thesis
    using AuthorOps_effect [of "[?op]" now s] assms(1) a that unfolding ov by auto
qed

section \<open>Page text\<close>

text \<open>
  Recognized text: for a canonical page id \<open>AuthorPageText\<close> always succeeds and leaves
  exactly one live row with the given text, stamps and model (the empty model as null), whatever
  devices or earlier runs wrote, and touches no other row; for any other id it reports the error
  and changes nothing.
\<close>

theorem AuthorPageText_effect:
  assumes "author_ready 1 now s" and "exact ocrAt"
  shows "if IsULID pk
    then \<exists>s'. AuthorPageText pk txt ocrAt model now s = (Inr (), s') \<and> store_inv s' \<and>
      mirror_row (mir s') = (mirror_row (mir s))((''page_text_from_server'', pk) \<mapsto>
        PageTextRow \<lparr>pt_text = Some txt, pt_ocr_at = Some ocrAt,
          pt_model = (if model = [] then None else Some model), pt_created_at = Some ocrAt,
          pt_deleted_at = None, pt_lww = next_key now s\<rparr>)
    else AuthorPageText pk txt ocrAt model now s = (Inl (PageNotULID pk), s)"
proof (cases "IsULID pk")
  case True
  obtain changed s' where
    "AuthorOps [row_upsert ''page_text_from_server'' pk (pageTextCols txt ocrAt ocrAt model None)] now s =
      (Inr changed, s')" and "store_inv s'" and
    "mirror_row (mir s') = (mirror_row (mir s))((''page_text_from_server'', pk) \<mapsto>
        PageTextRow \<lparr>pt_text = Some txt, pt_ocr_at = Some (f64_to_i64 (i64_to_f64 ocrAt)),
          pt_model = (if model = [] then None else Some model),
          pt_created_at = Some (f64_to_i64 (i64_to_f64 ocrAt)),
          pt_deleted_at = map_option (\<lambda>n. f64_to_i64 (i64_to_f64 n)) None, pt_lww = next_key now s\<rparr>)"
    by (rule AuthorOps_full_row [OF assms(1) full_rows(1) True page_text_row])
  then show ?thesis
    using True assms(2) by (simp add: AuthorPageText_def author_result_def f64_roundtrip)
qed (simp add: AuthorPageText_def)

theorem AuthorPageText_effect_witness:
  "\<exists>s'. AuthorPageText ex_pk ''hello'' 7 [] 50 (fresh_store ex_pk) = (Inr (), s') \<and> store_inv s'"
proof -
  have "IsULID ex_pk" by (simp add: IsULID_def ex_pk_def ulidAlphabet_def)
  then show ?thesis
    using AuthorPageText_effect [OF ex_author_ready, of 7 ex_pk "''hello''" "[]"] by (auto simp: exact_def)
qed

section \<open>Text boxes\<close>

definition exact_box :: "TextBoxData \<Rightarrow> int \<Rightarrow> bool" where
  "exact_box d created \<longleftrightarrow>
     exact (tdX d) \<and> exact (tdY d) \<and> exact (tdWidth d) \<and> exact (tdHeight d) \<and> exact (tdFontSize d) \<and>
     exact (tdColor d) \<and> exact (tdWeight d) \<and> exact (tdBorderWidth d) \<and> exact (tdZ d) \<and> exact created"

lemma scan_text_box_Some:
  assumes "scan_text_box r = Some d"
  shows "tb_x r = Some (tdX d)" "tb_y r = Some (tdY d)" "tb_width r = Some (tdWidth d)"
    "tb_height r = Some (tdHeight d)" "tb_text r = Some (tdText d)"
    "tb_font_name r = Some (tdFontName d)" "tb_font_size r = Some (tdFontSize d)"
    "tb_color r = Some (tdColor d)" "tb_weight r = Some (tdWeight d)"
    "tb_border_width r = Some (tdBorderWidth d)" "tb_z r = Some (tdZ d)"
  using assms by (auto simp: scan_text_box_def split: option.splits)

text \<open>
  A text box edit changes the text and nothing else: for a live box with exactly
  representable numbers \<open>EditTextBoxText\<close> succeeds, returns the page of the box, and the
  mirror differs only in that row, where only the text and the provenance are new; a missing
  or deleted box is reported and nothing changes.
\<close>

theorem EditTextBoxText_effect:
  assumes "author_ready 1 now s" and "IsULID boxID"
    and "map_of (fn_text_box (mir s)) boxID = Some r" and "scan_text_box r = Some d"
    and "tb_page_id r = Some pid" and "tb_created_at r = Some created" and "exact_box d created"
  shows "if tb_deleted_at r = None
    then \<exists>s'. EditTextBoxText boxID newText now s = (Inr pid, s') \<and> store_inv s' \<and>
      mirror_row (mir s') = (mirror_row (mir s))((''text_box'', boxID) \<mapsto>
        TextBoxRow (r\<lparr>tb_text := Some newText, tb_lww := next_key now s\<rparr>))
    else EditTextBoxText boxID newText now s = (Inl (TextBoxDeleted boxID), s)"
proof (cases "tb_deleted_at r = None")
  case True
  let ?d = "d\<lparr>tdText := newText\<rparr>"
  note sc = scan_text_box_Some [OF assms(4)]
  have "materialize (stamped_row ''text_box'' boxID (text_box_cols pid ?d created) (next_key now s)) =
      Inr (TextBoxRow (r\<lparr>tb_text := Some newText, tb_lww := next_key now s\<rparr>))"
    unfolding text_box_row using assms(5-7) True sc
    by (cases r) (simp add: exact_box_def f64_roundtrip)
  from AuthorOps_full_row [OF assms(1) full_rows(2) assms(2) this]
  obtain changed s' where
    "AuthorOps [row_upsert ''text_box'' boxID (text_box_cols pid ?d created)] now s = (Inr changed, s')"
    "store_inv s'"
    "mirror_row (mir s') = (mirror_row (mir s))((''text_box'', boxID) \<mapsto>
        TextBoxRow (r\<lparr>tb_text := Some newText, tb_lww := next_key now s\<rparr>))" .
  then show ?thesis
    using True assms(3-6) by (simp add: EditTextBoxText_def author_result_def)
next
  case False
  then show ?thesis using assms(3-6) by (auto simp: EditTextBoxText_def)
qed

definition ex_box :: text_box_row where
  "ex_box = \<lparr>tb_page_id = Some ex_pk, tb_x = Some 1, tb_y = Some 2, tb_width = Some 3,
     tb_height = Some 4, tb_text = Some ''old'', tb_font_name = Some ''mono'', tb_font_size = Some 5,
     tb_color = Some 6, tb_weight = Some 7, tb_border_width = Some 8, tb_z = Some 1,
     tb_created_at = Some 9, tb_deleted_at = None, tb_lww = (0, 1, ex_pk)\<rparr>"

definition ex_box_store :: sync_store where
  "ex_box_store = (fresh_store ex_pk)\<lparr>mir := empty_mirror\<lparr>fn_text_box := [(ex_pk, ex_box)]\<rparr>\<rparr>"

lemma ex_box_ready: "author_ready 1 50 ex_box_store"
proof -
  have "fst (row_lww r) \<le> 0" if "mirror_row (mir ex_box_store) k = Some r" for k r
    using that by (cases k) (auto simp: ex_box_store_def mirror_row_def empty_mirror_def ex_box_def
        split: if_splits)
  then have "hlc_inv ex_box_store" by (simp add: hlc_inv_def ex_box_store_def fresh_store_def)
  then show ?thesis
    using ex_author_ready
    by (simp add: author_ready_def ex_box_store_def own_inv_def store_inv_def wf_mirror_def
        empty_mirror_def fresh_store_def)
qed

theorem EditTextBoxText_effect_witness:
  "\<exists>s'. EditTextBoxText ex_pk ''new'' 50 ex_box_store = (Inr ex_pk, s') \<and>
     mirror_row (mir s') (''text_box'', ex_pk) =
       Some (TextBoxRow (ex_box\<lparr>tb_text := Some ''new'', tb_lww := next_key 50 ex_box_store\<rparr>))"
proof -
  have "IsULID ex_pk" by (simp add: IsULID_def ex_pk_def ulidAlphabet_def)
  moreover have "map_of (fn_text_box (mir ex_box_store)) ex_pk = Some ex_box"
    by (simp add: ex_box_store_def)
  moreover obtain d where "scan_text_box ex_box = Some d" "exact_box d 9"
    by (simp add: scan_text_box_def ex_box_def exact_box_def exact_def)
  moreover have "tb_page_id ex_box = Some ex_pk" "tb_created_at ex_box = Some 9" "tb_deleted_at ex_box = None"
    by (simp_all add: ex_box_def)
  ultimately show ?thesis
    using EditTextBoxText_effect [OF ex_box_ready, of ex_pk ex_box d ex_pk 9 "''new''"] by auto
qed

end
