(* ===== verification/Notebook_Delete.thy ===== *)
theory Notebook_Delete
  imports Sync_Edit
begin

text \<open>
  The notebook delete as a two-way push: the authored tombstones remove the notebook, its live
  pages, their live strokes and their server text from the mirror, whatever the devices wrote
  before.
\<close>

section \<open>Tombstones\<close>

fun dead_row :: "any_row \<Rightarrow> bool" where
  "dead_row (FolderRow r) \<longleftrightarrow> fo_deleted_at r \<noteq> None"
| "dead_row (NotebookRow r) \<longleftrightarrow> nb_deleted_at r \<noteq> None"
| "dead_row (PageRow r) \<longleftrightarrow> pg_deleted_at r \<noteq> None"
| "dead_row (StrokeRow r) \<longleftrightarrow> st_deleted_at r \<noteq> None"
| "dead_row (TextBoxRow r) \<longleftrightarrow> tb_deleted_at r \<noteq> None"
| "dead_row (PageTextRow r) \<longleftrightarrow> pt_deleted_at r \<noteq> None"

definition tombstone_op :: "Op \<Rightarrow> bool" where
  "tombstone_op op \<longleftrightarrow>
     (\<exists>t pk cs. op = row_upsert t pk cs \<and> full_row t cs \<and>
        (\<forall>k. \<exists>r. materialize (stamped_row t pk cs k) = Inr r \<and> dead_row r))"

lemma wireNum_int: "col_value n c = wireNum v \<Longrightarrow> \<exists>i. colInt n c = Inr i"
  by (cases v) (auto simp: colInt_def wireNum_def)

lemma notebook_tombstone_op: "tombstone_op (notebook_tombstone now pk n)"
  unfolding tombstone_op_def notebook_tombstone_def
  by (rule exI, rule exI, rule exI, rule conjI, rule refl)
    (auto simp: full_row_def knownCols_eqs materialize_def notebook_of_op_def stamped_row_def
      col_defs wire_defs opKey_def Let_def split: option.split)

lemma page_tombstone_op: "tombstone_op (page_tombstone now (pk, p))"
  unfolding tombstone_op_def page_tombstone_def prod.case
  by (rule exI, rule exI, rule exI, rule conjI, rule refl)
    (auto simp: full_row_def knownCols_eqs materialize_def page_of_op_def stamped_row_def
      col_defs wire_defs opKey_def Let_def split: option.split)

lemma stroke_tombstone_op: "tombstone_op (stroke_tombstone now (pk, p))"
  unfolding tombstone_op_def stroke_tombstone_def prod.case
  by (rule exI, rule exI, rule exI, rule conjI, rule refl)
    (auto simp: full_row_def knownCols_eqs materialize_def stroke_of_op_def stamped_row_def
      col_defs wire_defs opKey_def decode_encode Let_def split: option.split)

lemma page_text_tombstone_op: "tombstone_op (page_text_tombstone now pk)"
  unfolding tombstone_op_def page_text_tombstone_def
  by (rule exI, rule exI, rule exI, rule conjI, rule refl) (auto simp: full_rows page_text_row)

lemma tombstone_authorable: "tombstone_op op \<Longrightarrow> IsULID (opPK op) \<Longrightarrow> authorable op"
  unfolding tombstone_op_def by (metis Op.select_convs(2) full_row_authorable row_upsert_def)

lemma tombstone_dead:
  assumes "tombstone_op op"
  shows "dead_row (op_row (Normalize (stamp_op site seq ts op)))"
proof -
  obtain t pk cs where op: "op = row_upsert t pk cs" "full_row t cs"
    and r: "\<And>k. \<exists>r. materialize (stamped_row t pk cs k) = Inr r \<and> dead_row r"
    using assms by (auto simp: tombstone_op_def)
  from r [of "(ts, seq, site)"] show ?thesis
    by (auto simp: op(1) stamp_full_row [OF op(2)] op_row_def)
qed

section \<open>Overwriting\<close>

lemma overwrite_cases:
  "(overwrite ns v k = v k \<and> k \<notin> opTablePK ` set ns) \<or>
   (\<exists>n \<in> set ns. opTablePK n = k \<and> overwrite ns v k = Some (op_row (Normalize n)))"
  unfolding overwrite_def
proof (induction ns arbitrary: v)
  case (Cons n ns)
  from Cons.IH [of "v(opTablePK n \<mapsto> op_row (Normalize n))"] show ?case
    by (cases "opTablePK n = k") auto
qed simp

lemma stamped_elem:
  "n \<in> set (stamped site now seq clock ops) \<Longrightarrow>
     \<exists>op \<in> set ops. \<exists>q ts. n = stamp_op site q ts op"
  by (induction ops arbitrary: seq clock) auto

lemma stamped_keys: "opTablePK ` set (stamped site now seq clock ops) = opTablePK ` set ops"
  by (induction ops arbitrary: seq clock) (simp_all add: opTablePK_def)

text \<open>After authoring tombstones every key they name is dead and every other row is as
  before.\<close>

lemma author_tombstones:
  assumes "\<forall>op \<in> set ops. tombstone_op op"
    and "v' = overwrite (stamped_ops ops now s) v"
  shows "k \<in> opTablePK ` set ops \<Longrightarrow> \<exists>r. v' k = Some r \<and> dead_row r"
    and "k \<notin> opTablePK ` set ops \<Longrightarrow> v' k = v k"
proof -
  have keys: "opTablePK ` set (stamped_ops ops now s) = opTablePK ` set ops"
    by (simp add: stamped_ops_def stamped_keys)
  show "v' k = v k" if "k \<notin> opTablePK ` set ops"
    using overwrite_cases [of "stamped_ops ops now s" v k] that keys assms(2) by auto
  show "\<exists>r. v' k = Some r \<and> dead_row r" if key: "k \<in> opTablePK ` set ops"
  proof -
    obtain n where "n \<in> set (stamped_ops ops now s)" "v' k = Some (op_row (Normalize n))"
      using overwrite_cases [of "stamped_ops ops now s" v k] key keys assms(2) by auto
    moreover from this obtain op q ts where "op \<in> set ops" "n = stamp_op (site_id s) q ts op"
      unfolding stamped_ops_def using stamped_elem by blast
    ultimately show ?thesis using tombstone_dead assms(1) by auto
  qed
qed

section \<open>The delete\<close>

definition ulid_keys :: "sync_store \<Rightarrow> bool" where
  "ulid_keys s \<longleftrightarrow> (\<forall>k. mirror_row (mir s) k \<noteq> None \<longrightarrow> IsULID (snd k))"

lemma mirror_row_tables:
  "mirror_row m (''notebook'', pk) = map_option NotebookRow (map_of (fn_notebook m) pk)"
  "mirror_row m (''page'', pk) = map_option PageRow (map_of (fn_page m) pk)"
  "mirror_row m (''stroke'', pk) = map_option StrokeRow (map_of (fn_stroke m) pk)"
  "mirror_row m (''text_box'', pk) = map_option TextBoxRow (map_of (fn_text_box m) pk)"
  "mirror_row m (''page_text_from_server'', pk) =
     map_option PageTextRow (map_of (fn_page_text_from_server m) pk)"
  by (simp_all add: mirror_row_def)

lemma Some_map_option: "Some y = map_option f x \<longleftrightarrow> (\<exists>z. x = Some z \<and> f z = y)"
  by (cases x) auto

lemma map_option_inj:
  "map_option f x = map_option f y \<Longrightarrow> (\<And>a b. f a = f b \<Longrightarrow> a = b) \<Longrightarrow> x = y"
  by (cases x; cases y) auto

lemma delete_ops_tombstones: "\<forall>op \<in> set (notebook_delete_ops nb now n m). tombstone_op op"
  by (auto simp: notebook_delete_ops_def notebook_tombstone_op page_tombstone_op stroke_tombstone_op
      page_text_tombstone_op)

lemma tombstone_keys:
  "opTablePK (notebook_tombstone now pk n) = (''notebook'', pk)"
  "opTablePK (page_tombstone now p) = (''page'', fst p)"
  "opTablePK (stroke_tombstone now st) = (''stroke'', fst st)"
  "opTablePK (page_text_tombstone now pk) = (''page_text_from_server'', pk)"
  by (simp_all add: notebook_tombstone_def page_tombstone_def stroke_tombstone_def
      page_text_tombstone_def row_upsert_def opTablePK_def split_def)

lemma delete_ops_keys:
  "opTablePK ` set (notebook_delete_ops nb now n m) =
     insert (''notebook'', nb)
       ((\<lambda>p. (''page'', fst p)) ` set (live_pages_of m nb) \<union>
        ((\<lambda>p. (''stroke'', fst p)) ` set (live_strokes_of m nb) \<union>
         (\<lambda>p. (''page_text_from_server'', fst p)) ` set (live_pages_of m nb)))"
  by (simp add: notebook_delete_ops_def image_Un image_image tombstone_keys)

lemma live_pages_iff:
  "wf_mirror m \<Longrightarrow> (pk, p) \<in> set (live_pages_of m nb) \<longleftrightarrow>
     map_of (fn_page m) pk = Some p \<and> pg_notebook_id p = Some nb \<and> pg_deleted_at p = None"
  by (auto simp: live_pages_of_def wf_mirror_def)

lemma live_strokes_iff:
  "wf_mirror m \<Longrightarrow> (pk, st) \<in> set (live_strokes_of m nb) \<longleftrightarrow>
     map_of (fn_stroke m) pk = Some st \<and> st_deleted_at st = None \<and>
     (\<exists>pg p. st_page_id st = Some pg \<and> (pg, p) \<in> set (live_pages_of m nb))"
  by (auto simp: live_strokes_of_def wf_mirror_def image_iff split: option.splits) force+

lemma delete_ops_authorable:
  assumes "ulid_keys s" and "wf_mirror (mir s)" and "map_of (fn_notebook (mir s)) nb = Some n"
    and "op \<in> set (notebook_delete_ops nb now n (mir s))"
  shows "authorable op"
proof -
  have nb: "IsULID nb"
    using assms(1,3) unfolding ulid_keys_def by (metis mirror_row_tables(1) option.simps(3,9) snd_conv)
  have pg: "IsULID pk" if "(pk, p) \<in> set (live_pages_of (mir s) nb)" for pk p
    using assms(1,2) that unfolding ulid_keys_def
    by (metis live_pages_iff mirror_row_tables(2) option.simps(3,9) snd_conv)
  have st: "IsULID pk" if "(pk, p) \<in> set (live_strokes_of (mir s) nb)" for pk p
    using assms(1,2) that unfolding ulid_keys_def
    by (metis live_strokes_iff mirror_row_tables(3) option.simps(3,9) snd_conv)
  have "opPK op = snd (opTablePK op)" by (simp add: opTablePK_def)
  moreover have "IsULID (snd (opTablePK op))"
    using imageI [OF assms(4), of opTablePK] nb pg st unfolding delete_ops_keys by auto
  ultimately show ?thesis using tombstone_authorable delete_ops_tombstones assms(4) by metis
qed

text \<open>
  The notebook delete: from a store ready to author, \<open>SoftDeleteNotebook\<close> of a known
  notebook succeeds and returns the pages that were live. Afterwards the notebook is gone from
  the inventory, it has no live page, none of those pages has a live stroke, and their server
  text is tombstoned. The text boxes of the pages stay as they were.
\<close>

theorem SoftDeleteNotebook_effect:
  assumes "author_ready (length (notebook_delete_ops nb now n (mir s))) now' s" and "ulid_keys s"
    and "map_of (fn_notebook (mir s)) nb = Some n"
  shows "\<exists>s'. SoftDeleteNotebook nb now now' s = (Inr (map fst (live_pages_of (mir s) nb)), s') \<and>
    store_inv s' \<and> NotebookMeta nb (mir s') = None \<and> live_pages_of (mir s') nb = [] \<and>
    (\<forall>pk st. map_of (fn_stroke (mir s')) pk = Some st \<and> st_deleted_at st = None \<longrightarrow>
       st_page_id st \<notin> Some ` set (map fst (live_pages_of (mir s) nb))) \<and>
    (\<forall>pg \<in> set (map fst (live_pages_of (mir s) nb)). \<exists>r.
       map_of (fn_page_text_from_server (mir s')) pg = Some r \<and> pt_deleted_at r \<noteq> None) \<and>
    (\<forall>pk. map_of (fn_text_box (mir s')) pk = map_of (fn_text_box (mir s)) pk)"
proof -
  let ?ops = "notebook_delete_ops nb now n (mir s)" and ?m = "mir s"
  have wf: "wf_mirror ?m" using assms(1) by (simp add: author_ready_def store_inv_def)
  have "\<forall>op \<in> set ?ops. authorable op" using delete_ops_authorable [OF assms(2) wf assms(3)] by blast
  with assms(1) obtain changed s' where s': "AuthorOps ?ops now' s = (Inr changed, s')" "store_inv s'"
    and ov: "mirror_row (mir s') = overwrite (stamped_ops ?ops now' s) (mirror_row ?m)"
    by (rule AuthorOps_effect)
  note dead = author_tombstones(1) [OF delete_ops_tombstones ov, unfolded delete_ops_keys]
  note kept = author_tombstones(2) [OF delete_ops_tombstones ov, unfolded delete_ops_keys]
  have wf': "wf_mirror (mir s')" using s'(2) by (simp add: store_inv_def)
  have "NotebookMeta nb (mir s') = None"
    using dead [of "(''notebook'', nb)"] by (auto simp: NotebookMeta_def mirror_row_tables)
  moreover have "live_pages_of (mir s') nb = []"
  proof (rule ccontr)
    assume "live_pages_of (mir s') nb \<noteq> []"
    then obtain pk p where p: "(pk, p) \<in> set (live_pages_of (mir s') nb)"
      by (metis list.set_intros(1) neq_Nil_conv surj_pair)
    then have "(pk, p) \<in> set (live_pages_of ?m nb)"
      using dead [of "(''page'', pk)"] kept [of "(''page'', pk)"]
      by (auto simp: live_pages_iff [OF wf'] live_pages_iff [OF wf] mirror_row_tables image_iff
          Some_map_option)
    then have "(''page'', pk) \<in> (\<lambda>p. (''page'', fst p)) ` set (live_pages_of ?m nb)" by force
    then show False
      using dead [of "(''page'', pk)"] p by (auto simp: live_pages_iff [OF wf'] mirror_row_tables)
  qed
  moreover have "st_page_id st \<notin> Some ` set (map fst (live_pages_of ?m nb))"
    if st: "map_of (fn_stroke (mir s')) pk = Some st" "st_deleted_at st = None" for pk st
  proof
    assume "st_page_id st \<in> Some ` set (map fst (live_pages_of ?m nb))"
    then obtain pg p where pg: "st_page_id st = Some pg" "(pg, p) \<in> set (live_pages_of ?m nb)" by auto
    have "(''stroke'', pk) \<notin> (\<lambda>p. (''stroke'', fst p)) ` set (live_strokes_of ?m nb)"
      using dead [of "(''stroke'', pk)"] st by (auto simp: mirror_row_tables)
    moreover from this have "map_of (fn_stroke ?m) pk = Some st"
      using kept [of "(''stroke'', pk)"] st(1)
      by (auto simp: mirror_row_tables Some_map_option image_iff)
    then have "(pk, st) \<in> set (live_strokes_of ?m nb)"
      using st(2) pg by (auto simp: live_strokes_iff [OF wf])
    ultimately show False by force
  qed
  moreover have "\<exists>r. map_of (fn_page_text_from_server (mir s')) pg = Some r \<and> pt_deleted_at r \<noteq> None"
    if "pg \<in> set (map fst (live_pages_of ?m nb))" for pg
  proof -
    have "(''page_text_from_server'', pg) \<in>
        (\<lambda>p. (''page_text_from_server'', fst p)) ` set (live_pages_of ?m nb)"
      using that by (auto simp: image_iff)
    then show ?thesis using dead [of "(''page_text_from_server'', pg)"] by (auto simp: mirror_row_tables)
  qed
  moreover have "map_of (fn_text_box (mir s')) pk = map_of (fn_text_box ?m) pk" for pk
  proof -
    have "mirror_row (mir s') (''text_box'', pk) = mirror_row ?m (''text_box'', pk)"
      by (rule kept) (simp add: image_iff)
    then show ?thesis unfolding mirror_row_tables by (rule map_option_inj) simp
  qed
  moreover have "SoftDeleteNotebook nb now now' s = (Inr (map fst (live_pages_of ?m nb)), s')"
    using s'(1) assms(3) by (simp add: SoftDeleteNotebook_def author_result_def)
  ultimately show ?thesis using s'(2) by blast
qed

text \<open>A notebook row in an otherwise empty store.\<close>

definition ex_nb :: notebook_row where
  "ex_nb = \<lparr>nb_name = Some ''n'', nb_sort_order = Some 1, nb_created_at = Some 2, nb_deleted_at = None,
     nb_folder_id = None, nb_aspect_long_axis = None, nb_page_width = None, nb_page_height = None,
     nb_lww = (0, 1, ex_pk)\<rparr>"

definition ex_nb_store :: sync_store where
  "ex_nb_store = (fresh_store ex_pk)\<lparr>mir := empty_mirror\<lparr>fn_notebook := [(ex_pk, ex_nb)]\<rparr>\<rparr>"

lemma ex_nb_rows:
  "mirror_row (mir ex_nb_store) k = (if k = (''notebook'', ex_pk) then Some (NotebookRow ex_nb) else None)"
  by (cases k) (simp add: ex_nb_store_def mirror_row_def empty_mirror_def)

lemma ex_nb_ready: "author_ready 1 50 ex_nb_store" and ex_nb_ulid: "ulid_keys ex_nb_store"
proof -
  have "hlc_inv ex_nb_store"
    unfolding hlc_inv_def ex_nb_rows by (simp add: ex_nb_store_def fresh_store_def ex_nb_def)
  then show "author_ready 1 50 ex_nb_store"
    using ex_author_ready
    by (simp add: author_ready_def ex_nb_store_def own_inv_def store_inv_def wf_mirror_def
        empty_mirror_def fresh_store_def)
  show "ulid_keys ex_nb_store"
    by (simp add: ulid_keys_def ex_nb_rows IsULID_def ex_pk_def ulidAlphabet_def)
qed

theorem SoftDeleteNotebook_effect_witness:
  "\<exists>s'. SoftDeleteNotebook ex_pk 40 50 ex_nb_store = (Inr [], s') \<and> store_inv s' \<and>
     NotebookMeta ex_pk (mir s') = None"
proof -
  have none: "live_pages_of (mir ex_nb_store) ex_pk = []"
    by (simp add: live_pages_of_def ex_nb_store_def empty_mirror_def)
  then have "length (notebook_delete_ops ex_pk 40 ex_nb (mir ex_nb_store)) = 1"
    by (simp add: notebook_delete_ops_def live_strokes_of_def ex_nb_store_def empty_mirror_def)
  then have "author_ready (length (notebook_delete_ops ex_pk 40 ex_nb (mir ex_nb_store))) 50 ex_nb_store"
    using ex_nb_ready by simp
  moreover have "map_of (fn_notebook (mir ex_nb_store)) ex_pk = Some ex_nb"
    by (simp add: ex_nb_store_def)
  ultimately show ?thesis
    using SoftDeleteNotebook_effect [OF _ ex_nb_ulid, of ex_pk 40 ex_nb 50] none by auto
qed

end
