(* ===== verification/Sync_Service.thy ===== *)
theory Sync_Service
  imports Sync_Relay
begin

text \<open>
  The sync service (\<^verbatim>\<open>internal/syncsvc/service.go\<close>) and its HTTP transport
  (\<^verbatim>\<open>internal/synchttp/handler.go\<close>): envelope validation, ingest, relay pull, cursor
  bookkeeping, bridge notification, and the mapping of errors to status codes. The service works
  against the \<open>Store\<close> interface; the interface is the locale \<open>relay_store\<close>, and the
  sync store is its interpretation.
\<close>

section \<open>Envelope\<close>

text \<open>A device name is the sequence of its runes (code points) and is stored as their UTF-8
  bytes.\<close>

record Request =
  rqProtocolVersion :: int
  rqSchemaHash :: string
  rqSiteID :: string
  rqDeviceName :: "nat list"
  rqCursor :: int
  rqOps :: "Op list"

record Response =
  rsProtocolVersion :: int
  rsAcceptedThrough :: int
  rsRejected :: "RejectedOp list"
  rsOps :: "Op list"
  rsCursor :: int
  rsHasMore :: bool

datatype 'e svc_error =
  ErrBadRequest string
| ErrSchemaMismatch
| ErrUnsupportedVersion
| StoreFailed 'e

definition ProtocolVersion :: int where
  "ProtocolVersion = 1"

definition MaxDeviceNameLen :: nat where
  "MaxDeviceNameLen = 128"

text \<open>\<open>unicode.IsSpace\<close>\<close>

definition is_space_rune :: "nat \<Rightarrow> bool" where
  "is_space_rune r \<longleftrightarrow>
     r \<in> {9, 10, 11, 12, 13, 32, 133, 160, 5760, 8232, 8233, 8239, 8287, 12288} \<or>
     (8192 \<le> r \<and> r \<le> 8202)"

definition TrimSpaceRunes :: "nat list \<Rightarrow> nat list" where
  "TrimSpaceRunes name = rev (dropWhile is_space_rune (rev (dropWhile is_space_rune name)))"

definition normalizeDeviceName :: "nat list \<Rightarrow> nat list" where
  "normalizeDeviceName name =
     (let r = TrimSpaceRunes name
      in if length r > MaxDeviceNameLen then take MaxDeviceNameLen r else r)"

definition utf8_rune :: "nat \<Rightarrow> string" where
  "utf8_rune r =
     map char_of
       (if r < 128 then [r]
        else if r < 2048 then [192 + r div 64, 128 + r mod 64]
        else if r < 65536 then [224 + r div 4096, 128 + r div 64 mod 64, 128 + r mod 64]
        else [240 + r div 262144, 128 + r div 4096 mod 64, 128 + r div 64 mod 64, 128 + r mod 64])"

definition utf8 :: "nat list \<Rightarrow> string" where
  "utf8 rs = concat (map utf8_rune rs)"

section \<open>The service over its store interface\<close>

definition New_batchLimit :: "int \<Rightarrow> int" where
  "New_batchLimit n = (if n \<le> 0 then 500 else n)"

text \<open>\<open>Sync\<close> over the three operations of the \<open>Store\<close> interface. The result carries the
  pages handed to the bridge. The store reads the clock at \<open>now\<close> for the ingest and at
  \<open>now'\<close> for the cursor. \<open>accepts\<close> is the schema-hash gate.\<close>

definition sync_with ::
    "(string \<Rightarrow> Op list \<Rightarrow> millis \<Rightarrow> 's \<Rightarrow> ('e + ApplyResult) \<times> 's) \<Rightarrow>
     (int \<Rightarrow> string \<Rightarrow> int \<Rightarrow> 's \<Rightarrow> Op list \<times> int \<times> bool) \<Rightarrow>
     (string \<Rightarrow> int \<Rightarrow> string \<Rightarrow> millis \<Rightarrow> 's \<Rightarrow> 's) \<Rightarrow>
     (string \<Rightarrow> bool) \<Rightarrow> int \<Rightarrow> Request \<Rightarrow> millis \<Rightarrow> millis \<Rightarrow> 's \<Rightarrow>
     ('e svc_error + (Response \<times> (string \<times> string) list)) \<times> 's" where
  "sync_with applyB since recordC accepts batchLimit req now now' s =
     (if rqProtocolVersion req \<noteq> ProtocolVersion then (Inl ErrUnsupportedVersion, s)
      else if \<not> accepts (rqSchemaHash req) then (Inl ErrSchemaMismatch, s)
      else if \<not> IsULID (rqSiteID req) then (Inl (ErrBadRequest ''site_id is not a ULID''), s)
      else if rqCursor req < 0 then (Inl (ErrBadRequest ''cursor must be >= 0''), s)
      else
        (case applyB (rqSiteID req) (rqOps req) now s of
           (Inl e, s1) \<Rightarrow> (Inl (StoreFailed e), s1)
         | (Inr res, s1) \<Rightarrow>
             (case since (rqCursor req) (rqSiteID req) batchLimit s1 of
                (ops, newCursor, hasMore) \<Rightarrow>
                  (Inr (\<lparr>rsProtocolVersion = ProtocolVersion, rsAcceptedThrough = AcceptedThrough res,
                         rsRejected = Rejected res, rsOps = ops, rsCursor = newCursor,
                         rsHasMore = hasMore\<rparr>,
                        ChangedPages res),
                   recordC (rqSiteID req) newCursor (utf8 (normalizeDeviceName (rqDeviceName req)))
                     now' s1))))"

definition Sync ::
    "(string \<Rightarrow> string) \<Rightarrow> int \<Rightarrow> Request \<Rightarrow> millis \<Rightarrow> millis \<Rightarrow> sync_store \<Rightarrow>
     (sync_error svc_error + (Response \<times> (string \<times> string) list)) \<times> sync_store" where
  "Sync sha batchLimit =
     sync_with ApplyBatch OpsSince RecordCursor (AcceptsSchemaHash sha) (New_batchLimit batchLimit)"

text \<open>A request the service accepts.\<close>

definition valid_envelope :: "(string \<Rightarrow> bool) \<Rightarrow> Request \<Rightarrow> bool" where
  "valid_envelope accepts req \<longleftrightarrow>
     rqProtocolVersion req = ProtocolVersion \<and> accepts (rqSchemaHash req) \<and>
     IsULID (rqSiteID req) \<and> 0 \<le> rqCursor req"

section \<open>The store contract\<close>

locale relay_store =
  fixes applyB :: "string \<Rightarrow> Op list \<Rightarrow> millis \<Rightarrow> 's \<Rightarrow> ('e + ApplyResult) \<times> 's"
    and since :: "int \<Rightarrow> string \<Rightarrow> int \<Rightarrow> 's \<Rightarrow> Op list \<times> int \<times> bool"
    and recordC :: "string \<Rightarrow> int \<Rightarrow> string \<Rightarrow> millis \<Rightarrow> 's \<Rightarrow> 's"
    and inv :: "'s \<Rightarrow> bool"
  assumes apply_total: "inv s \<Longrightarrow> \<exists>res s'. applyB site ops now s = (Inr res, s') \<and> inv s'"
    and record_inv: "inv s \<Longrightarrow> inv (recordC site c name now s)"
    and since_forward: "inv s \<Longrightarrow> since c site limit s = (ops, c', hasMore) \<Longrightarrow> c \<le> c'"
begin

text \<open>A request with a bad envelope is refused without touching the store.\<close>

lemma sync_refused:
  "\<not> valid_envelope accepts req \<Longrightarrow>
   \<exists>e. sync_with applyB since recordC accepts limit req now now' s = (Inl e, s) \<and>
     (\<forall>e'. e \<noteq> StoreFailed e')"
  by (auto simp: sync_with_def valid_envelope_def)

text \<open>A request with a good envelope is always answered, and the cursor never moves back.\<close>

lemma sync_answered:
  assumes "inv s" and "valid_envelope accepts req"
  obtains res s1 ops c' hasMore resp where
    "applyB (rqSiteID req) (rqOps req) now s = (Inr res, s1)" "inv s1"
    "since (rqCursor req) (rqSiteID req) limit s1 = (ops, c', hasMore)"
    "rqCursor req \<le> c'"
    "resp = \<lparr>rsProtocolVersion = ProtocolVersion, rsAcceptedThrough = AcceptedThrough res,
       rsRejected = Rejected res, rsOps = ops, rsCursor = c', rsHasMore = hasMore\<rparr>"
    "sync_with applyB since recordC accepts limit req now now' s =
      (Inr (resp, ChangedPages res),
       recordC (rqSiteID req) c' (utf8 (normalizeDeviceName (rqDeviceName req))) now' s1)"
    "inv (recordC (rqSiteID req) c' (utf8 (normalizeDeviceName (rqDeviceName req))) now' s1)"
proof -
  obtain res s1 where a: "applyB (rqSiteID req) (rqOps req) now s = (Inr res, s1)" "inv s1"
    using apply_total [OF assms(1)] by blast
  obtain ops c' hasMore where o: "since (rqCursor req) (rqSiteID req) limit s1 = (ops, c', hasMore)"
    by (cases "since (rqCursor req) (rqSiteID req) limit s1")
  show thesis
    by (rule that [OF a o since_forward [OF a(2) o] refl])
      (use assms(2) a o record_inv in \<open>auto simp: sync_with_def valid_envelope_def\<close>)
qed

end

lemma RecordCursor_frame [simp]:
  "sync_ops (RecordCursor site c name now s) = sync_ops s" "mir (RecordCursor site c name now s) = mir s"
  "last_seq (RecordCursor site c name now s) = last_seq s"
  "last_hlc (RecordCursor site c name now s) = last_hlc s"
  "site_id (RecordCursor site c name now s) = site_id s"
  "last_op_seq (RecordCursor site c name now s) = last_op_seq s"
  by (simp_all add: RecordCursor_def)

lemma RecordCursor_inv: "store_inv s \<Longrightarrow> store_inv (RecordCursor site c name now s)"
  by (simp add: RecordCursor_def store_inv_def)

lemma OpsSince_forward:
  "store_inv s \<Longrightarrow> OpsSince c site limit s = (ops, c', hasMore) \<Longrightarrow> c \<le> c'"
  by (rule OpsSince_window(1))

interpretation ub: relay_store ApplyBatch OpsSince RecordCursor store_inv
proof unfold_locales
  fix s site ops now
  assume "store_inv s"
  then show "\<exists>res s'. ApplyBatch site ops now s = (Inr res, s') \<and> store_inv s'"
    using ApplyBatch_Inr by metis
qed (simp_all add: RecordCursor_inv OpsSince_forward)

text \<open>
  One sync request: with a valid envelope it is always answered. The response relays exactly
  the ops of the other sites between the cursor sent and the cursor returned, as they stand after
  the request's own ops were ingested; the device's registry row records the returned cursor and
  the acknowledged number; and the store stays well formed. With any other envelope the request
  is refused, never with a store failure, and the store is untouched.
\<close>

theorem Sync_round:
  assumes "store_inv s"
  shows "if valid_envelope (AcceptsSchemaHash sha) req
    then \<exists>resp pages s'. Sync sha limit req now now' s = (Inr (resp, pages), s') \<and> store_inv s' \<and>
      rqCursor req \<le> rsCursor resp \<and>
      rsOps resp = map relayed_op (window (rqCursor req) (rsCursor resp) (rqSiteID req) (sync_ops s')) \<and>
      (\<exists>c. map_of (sync_cursors s') (rqSiteID req) = Some c \<and>
         cu_last_pull_seq c = rsCursor resp \<and> cu_acked_op_seq c = rsAcceptedThrough resp)
    else \<exists>e. Sync sha limit req now now' s = (Inl e, s) \<and> (\<forall>e'. e \<noteq> StoreFailed e')"
proof (cases "valid_envelope (AcceptsSchemaHash sha) req")
  case True
  show ?thesis
  proof (rule ub.sync_answered [OF assms True, of now "New_batchLimit limit" now'])
    fix res s1 ops c' hasMore resp
    assume a: "ApplyBatch (rqSiteID req) (rqOps req) now s = (Inr res, s1)" "store_inv s1"
      and o: "OpsSince (rqCursor req) (rqSiteID req) (New_batchLimit limit) s1 = (ops, c', hasMore)"
        "rqCursor req \<le> c'"
      and resp: "resp = \<lparr>rsProtocolVersion = ProtocolVersion, rsAcceptedThrough = AcceptedThrough res,
        rsRejected = Rejected res, rsOps = ops, rsCursor = c', rsHasMore = hasMore\<rparr>"
      and sy: "sync_with ApplyBatch OpsSince RecordCursor (AcceptsSchemaHash sha) (New_batchLimit limit)
          req now now' s = (Inr (resp, ChangedPages res),
          RecordCursor (rqSiteID req) c' (utf8 (normalizeDeviceName (rqDeviceName req))) now' s1)"
      and inv: "store_inv (RecordCursor (rqSiteID req) c' (utf8 (normalizeDeviceName (rqDeviceName req))) now' s1)"
    obtain c where c: "map_of (sync_cursors s1) (rqSiteID req) = Some c"
      "cu_acked_op_seq c = AcceptedThrough res"
      using ApplyBatch_facts [OF assms a(1)] by metis
    have "\<exists>c'. map_of (sync_cursors (RecordCursor (rqSiteID req) (rsCursor resp) name now' s1))
        (rqSiteID req) = Some c' \<and> cu_last_pull_seq c' = rsCursor resp \<and>
        cu_acked_op_seq c' = rsAcceptedThrough resp" for name
      using c by (simp add: RecordCursor_def resp)
    then show ?thesis
      using True sy inv o OpsSince_window(3) [OF a(2) o(1)] by (auto simp: Sync_def resp)
  qed
next
  case False
  then show ?thesis
    using ub.sync_refused [OF False, of "New_batchLimit limit" now now' s] by (simp add: Sync_def)
qed

definition ex_request :: Request where
  "ex_request = \<lparr>rqProtocolVersion = 1, rqSchemaHash = schemaHashV4, rqSiteID = ex_site 1,
     rqDeviceName = [32, 65], rqCursor = 0, rqOps = [ex_op 1 7]\<rparr>"

lemma ex_request_valid: "valid_envelope (AcceptsSchemaHash sha) ex_request"
  by (simp add: valid_envelope_def ex_request_def ProtocolVersion_def AcceptsSchemaHash_def IsULID_def
      ex_site_def ulidAlphabet_def)

theorem Sync_round_witness:
  "\<exists>resp pages s'. Sync (\<lambda>_. ''h'') 10 ex_request 9 9 ex_store = (Inr (resp, pages), s') \<and> store_inv s'"
  using Sync_round [OF ex_store_inv, of "\<lambda>_. ''h''" ex_request 10 9 9] ex_request_valid by auto

section \<open>HTTP transport\<close>

text \<open>What reading and decoding the request body gives.\<close>

datatype body = BodyTooLarge | MalformedJSON | Parsed Request

definition status_of :: "'e svc_error \<Rightarrow> int" where
  "status_of e =
     (case e of
        ErrBadRequest _ \<Rightarrow> 400
      | ErrSchemaMismatch \<Rightarrow> 409
      | ErrUnsupportedVersion \<Rightarrow> 409
      | StoreFailed _ \<Rightarrow> 500)"

text \<open>A request without the bounded-rows header: the status, the response body of a success,
  the pages handed to the bridge, and the store.\<close>

definition ServeHTTP ::
    "(string \<Rightarrow> string) \<Rightarrow> int \<Rightarrow> string \<Rightarrow> body \<Rightarrow> millis \<Rightarrow> millis \<Rightarrow> sync_store \<Rightarrow>
     int \<times> Response option \<times> (string \<times> string) list \<times> sync_store" where
  "ServeHTTP sha limit meth bdy now now' s =
     (if meth \<noteq> ''POST'' then (405, None, [], s)
      else
        (case bdy of
           BodyTooLarge \<Rightarrow> (413, None, [], s)
         | MalformedJSON \<Rightarrow> (400, None, [], s)
         | Parsed req \<Rightarrow>
             (case Sync sha limit req now now' s of
                (Inl e, s') \<Rightarrow> (status_of e, None, [], s')
              | (Inr (resp, pages), s') \<Rightarrow> (200, Some resp, pages, s'))))"

text \<open>
  C37. The transport: against a well-formed store a request is never answered with an internal
  error; it succeeds exactly when it is a POST with a decodable, valid envelope, and any other
  answer (400, 405, 409, 413) leaves the store unchanged and notifies nobody.
\<close>

theorem ServeHTTP_status:
  assumes "store_inv s" and "ServeHTTP sha limit meth bdy now now' s = (status, resp, pages, s')"
  shows "status \<in> {200, 400, 405, 409, 413} \<and>
    (status = 200 \<longleftrightarrow> meth = ''POST'' \<and>
       (\<exists>req. bdy = Parsed req \<and> valid_envelope (AcceptsSchemaHash sha) req)) \<and>
    (status \<noteq> 200 \<longrightarrow> resp = None \<and> pages = [] \<and> s' = s) \<and> store_inv s'"
proof (cases "meth = ''POST'' \<and> (\<exists>req. bdy = Parsed req)")
  case False
  with assms show ?thesis by (auto simp: ServeHTTP_def split: if_splits body.splits)
next
  case True
  then obtain req where b: "bdy = Parsed req" "meth = ''POST''" by blast
  show ?thesis
  proof (cases "valid_envelope (AcceptsSchemaHash sha) req")
    case True
    from ub.sync_answered [OF assms(1) True] obtain r s1 where
      "Sync sha limit req now now' s = (Inr r, s1)" "store_inv s1"
      unfolding Sync_def by metis
    with assms(2) b True show ?thesis by (auto simp: ServeHTTP_def split: prod.splits)
  next
    case False
    from ub.sync_refused [OF False] obtain e where
      "Sync sha limit req now now' s = (Inl e, s)" "\<forall>e'. e \<noteq> StoreFailed e'"
      unfolding Sync_def by metis
    with assms b False show ?thesis
      by (cases e) (auto simp: ServeHTTP_def status_of_def)
  qed
qed

theorem ServeHTTP_status_witness:
  "\<exists>resp pages s'.
     ServeHTTP (\<lambda>_. ''h'') 10 ''POST'' (Parsed ex_request) 9 9 ex_store = (200, resp, pages, s')"
proof -
  obtain st resp pages s' where
    r: "ServeHTTP (\<lambda>_. ''h'') 10 ''POST'' (Parsed ex_request) 9 9 ex_store = (st, resp, pages, s')"
    by (metis surj_pair)
  with ServeHTTP_status [OF ex_store_inv r] ex_request_valid show ?thesis by auto
qed

end
