(* ===== verification/Decimal.thy ===== *)
theory Decimal
  imports Prelude
begin

text \<open>
  Base-10 integers as the program writes and reads them: \<open>strconv.FormatInt\<close> and
  \<open>strconv.ParseInt\<close> at 64 bits, with the round trip that lets a stored token be read back, and the
  functions of the package \<open>strings\<close> the program uses on byte strings.
\<close>

definition digit_char :: "nat \<Rightarrow> char" where
  "digit_char d = char_of (d + 48)"

definition digit_val :: "char \<Rightarrow> nat option" where
  "digit_val c = (let n = of_char c :: nat in if 48 \<le> n \<and> n \<le> 57 then Some (n - 48) else None)"

fun show_nat :: "nat \<Rightarrow> string" where
  "show_nat n = (if n < 10 then [digit_char n] else show_nat (n div 10) @ [digit_char (n mod 10)])"

definition FormatInt :: "int \<Rightarrow> string" where
  "FormatInt i = (if i < 0 then CHR ''-'' # show_nat (nat (- i)) else show_nat (nat i))"

fun read_nat :: "string \<Rightarrow> nat \<Rightarrow> nat option" where
  "read_nat [] acc = Some acc"
| "read_nat (c # cs) acc =
     (case digit_val c of None \<Rightarrow> None | Some d \<Rightarrow> read_nat cs (acc * 10 + d))"

text \<open>The unsigned part: no digit, a foreign character and a value out of range are errors.\<close>

definition in_range :: "int \<Rightarrow> int option" where
  "in_range i = (if int64 i then Some i else None)"

definition parse_unsigned :: "string \<Rightarrow> nat option" where
  "parse_unsigned s = (if s = [] then None else read_nat s 0)"

definition ParseInt :: "string \<Rightarrow> int option" where
  "ParseInt s =
     (case s of
        [] \<Rightarrow> None
      | c # cs \<Rightarrow>
          if c = CHR ''-'' then Option.bind (parse_unsigned cs) (\<lambda>n. in_range (- int n))
          else if c = CHR ''+'' then Option.bind (parse_unsigned cs) (\<lambda>n. in_range (int n))
          else Option.bind (parse_unsigned s) (\<lambda>n. in_range (int n)))"

declare show_nat.simps [simp del]

lemma digit_val_char [simp]: "d < 10 \<Longrightarrow> digit_val (digit_char d) = Some d"
  by (simp add: digit_val_def digit_char_def)

lemma digit_char_sign: "d < 10 \<Longrightarrow> digit_char d \<noteq> CHR ''-'' \<and> digit_char d \<noteq> CHR ''+''"
proof -
  have "digit_val (CHR ''-'') = None" "digit_val (CHR ''+'') = None" by code_simp+
  then show "d < 10 \<Longrightarrow> ?thesis" by (metis digit_val_char option.distinct(1))
qed

lemma read_nat_append:
  "read_nat (xs @ ys) acc = Option.bind (read_nat xs acc) (read_nat ys)"
  by (induction xs arbitrary: acc) (simp_all split: option.split)

lemma read_show_nat: "read_nat (show_nat n) 0 = Some n"
proof (induction n rule: show_nat.induct)
  case (1 n)
  then show ?case by (subst show_nat.simps) (simp add: read_nat_append)
qed

lemma show_nat_first: "\<exists>c cs. show_nat n = c # cs \<and> c \<noteq> CHR ''-'' \<and> c \<noteq> CHR ''+''"
proof (induction n rule: show_nat.induct)
  case (1 n)
  show ?case
  proof (cases "n < 10")
    case True
    then show ?thesis by (subst show_nat.simps) (simp add: digit_char_sign)
  next
    case False
    then obtain c cs where "show_nat (n div 10) = c # cs" "c \<noteq> CHR ''-''" "c \<noteq> CHR ''+''"
      using 1 by blast
    with False show ?thesis by (subst show_nat.simps) simp
  qed
qed

lemma parse_show_nat: "parse_unsigned (show_nat n) = Some n"
  using show_nat_first [of n] by (auto simp: parse_unsigned_def read_show_nat)

lemma ParseInt_FormatInt:
  assumes "int64 i"
  shows "ParseInt (FormatInt i) = Some i"
proof (cases "i < 0")
  case True
  then show ?thesis using assms by (simp add: FormatInt_def ParseInt_def parse_show_nat in_range_def)
next
  case False
  obtain c cs where "show_nat (nat i) = c # cs" "c \<noteq> CHR ''-''" "c \<noteq> CHR ''+''"
    using show_nat_first by blast
  with False assms parse_show_nat [of "nat i"] show ?thesis
    by (simp add: FormatInt_def ParseInt_def in_range_def)
qed

lemma ParseInt_int64: "ParseInt s = Some i \<Longrightarrow> int64 i"
  by (auto simp: ParseInt_def in_range_def bind_eq_Some_conv split: list.splits if_splits)

section \<open>Strings\<close>

definition HasPrefix :: "string \<Rightarrow> string \<Rightarrow> bool" where
  "HasPrefix s p \<longleftrightarrow> take (length p) s = p"

definition TrimPrefix :: "string \<Rightarrow> string \<Rightarrow> string" where
  "TrimPrefix s p = (if HasPrefix s p then drop (length p) s else s)"

definition HasSuffix :: "string \<Rightarrow> string \<Rightarrow> bool" where
  "HasSuffix s x \<longleftrightarrow> length x \<le> length s \<and> drop (length s - length x) s = x"

lemma HasSuffix_append [simp]: "HasSuffix (s @ x) x"
  by (simp add: HasSuffix_def)

definition TrimSuffix :: "string \<Rightarrow> string \<Rightarrow> string" where
  "TrimSuffix s x = (if HasSuffix s x then take (length s - length x) s else s)"

definition is_space :: "char \<Rightarrow> bool" where
  "is_space c \<longleftrightarrow> c \<in> set [CHR 0x09, CHR 0x0A, CHR 0x0B, CHR 0x0C, CHR 0x0D, CHR 0x20]"

definition TrimSpace :: "string \<Rightarrow> string" where
  "TrimSpace s = rev (dropWhile is_space (rev (dropWhile is_space s)))"

text \<open>Lower case of an ASCII character.\<close>

definition to_lower :: "char \<Rightarrow> char" where
  "to_lower c = (let n = of_char c :: nat in if 65 \<le> n \<and> n \<le> 90 then char_of (n + 32) else c)"

end
