(* ===== verification/Bounded.thy ===== *)
theory Bounded
  imports Sync_Service Decimal
begin

text \<open>
  The bounded-rows transport: limits, request validation and page construction of
  \<^verbatim>\<open>third_party/rhizome-server-go/bounded\<close>, and the atomic exchange
  \<^verbatim>\<open>internal/syncstore/bounded.go\<close>. The response envelope is encoded byte by byte; how
  \<open>encoding/json\<close> reads and writes a single op or the list of rejections is a parameter
  (\<open>codec\<close>), about which nothing is assumed.
\<close>

section \<open>Limits and errors\<close>

record Limits =
  MaxOps :: int
  TargetPageBytes :: int
  MaxRowBytes :: int
  MaxBodyBytes :: int

datatype bounded_error =
  Fail int string
| Oversized string int int
| BoundedStore sync_error

definition Defaults :: Limits where
  "Defaults = \<lparr>MaxOps = 500, TargetPageBytes = 4 * 2 ^ 20, MaxRowBytes = 8 * 2 ^ 20,
     MaxBodyBytes = 16 * 2 ^ 20\<rparr>"

definition Validate :: "Limits \<Rightarrow> bounded_error + unit" where
  "Validate l =
     (if MaxOps l < 1 \<or> MaxOps l > 500 \<or> MaxBodyBytes l < 256 \<or> MaxBodyBytes l > 16 * 2 ^ 20 \<or>
         TargetPageBytes l < 1 \<or> TargetPageBytes l > MaxBodyBytes l \<or>
         MaxRowBytes l < 1 \<or> MaxRowBytes l > 8 * 2 ^ 20
      then Inl (Fail 400 ''invalid_limits'') else Inr ())"

section \<open>Limit negotiation\<close>

text \<open>The digits of a header value as a number, \<open>strconv.ParseInt\<close>; \<open>None\<close> is its error
  (an empty string or a value beyond \<open>int64\<close>).\<close>

definition is_digit :: "char \<Rightarrow> bool" where
  "is_digit c \<longleftrightarrow> CHR ''0'' \<le> c \<and> c \<le> CHR ''9''"

definition parse_digits :: "string \<Rightarrow> int option" where
  "parse_digits v =
     (let n = fold (\<lambda>c a. a * 10 + int (of_char c - of_char CHR ''0'')) v 0
      in if v = [] \<or> n > max_int64 then None else Some n)"

definition header_limit :: "string list option \<Rightarrow> int \<Rightarrow> bounded_error + int" where
  "header_limit values target =
     (case values of
        None \<Rightarrow> Inr target
      | Some [v] \<Rightarrow>
          if \<not> list_all is_digit v then Inl (Fail 400 ''invalid_limits'')
          else (case parse_digits v of
                  None \<Rightarrow> Inl (Fail 400 ''invalid_limits'')
                | Some n \<Rightarrow>
                    if n \<le> 0 then Inl (Fail 400 ''invalid_limits'')
                    else Inr (if n < target then n else target))
      | Some _ \<Rightarrow> Inl (Fail 400 ''invalid_limits''))"

text \<open>The negotiation of \<open>ReadRequest\<close>, up to the reading of the body.\<close>

definition negotiate :: "Limits \<Rightarrow> string list option \<Rightarrow> string list option \<Rightarrow> bounded_error + Limits" where
  "negotiate defaults maxResponse maxRow =
     bind_sum (Validate defaults) (\<lambda>_.
     bind_sum (header_limit maxResponse (MaxBodyBytes defaults)) (\<lambda>bdy.
     bind_sum (header_limit maxRow (MaxRowBytes defaults)) (\<lambda>row.
       let l = defaults\<lparr>MaxBodyBytes := bdy, MaxRowBytes := row,
                 TargetPageBytes := (if TargetPageBytes defaults > bdy then bdy
                                     else TargetPageBytes defaults)\<rparr>
       in bind_sum (Validate l) (\<lambda>_. Inr l))))"

section \<open>Request rows\<close>

text \<open>What \<open>encoding/json\<close> does with single ops: decoding a request row, reading its identity
  for an error, the stored payload text, the relayed row and the list of rejections.\<close>

record codec =
  cdDecode :: "string \<Rightarrow> Op option"
  cdIdentity :: "string \<Rightarrow> string \<times> int"
  cdStored :: "payload \<Rightarrow> string"
  cdEncode :: "Op \<Rightarrow> string"
  cdRejected :: "RejectedOp list \<Rightarrow> string"

record BRequest =
  brProtocolVersion :: int
  brSchemaHash :: string
  brSiteID :: string
  brDeviceName :: "nat list"
  brCursor :: int
  brOps :: "string list"

definition ValidateRows :: "codec \<Rightarrow> BRequest \<Rightarrow> Limits \<Rightarrow> bounded_error + unit" where
  "ValidateRows cd r l =
     bind_sum (Validate l) (\<lambda>_.
       if int (length (brOps r)) > MaxOps l then Inl (Fail 413 ''too_many_ops'')
       else
         (case find (\<lambda>raw. int (length raw) > MaxRowBytes l) (brOps r) of
            Some raw \<Rightarrow>
              Inl (Oversized (fst (cdIdentity cd raw)) (snd (cdIdentity cd raw)) (int (length raw)))
          | None \<Rightarrow> Inr ()))"

fun decode_rows :: "codec \<Rightarrow> string list \<Rightarrow> bounded_error + Op list" where
  "decode_rows cd [] = Inr []"
| "decode_rows cd (raw # raws) =
     (case cdDecode cd raw of
        None \<Rightarrow> Inl (Fail 400 ''invalid_op'')
      | Some op \<Rightarrow> bind_sum (decode_rows cd raws) (\<lambda>ops. Inr (op # ops)))"

section \<open>The response page\<close>

record Page =
  pgAcceptedThrough :: int
  pgRejected :: string
  pgOps :: "string list"
  pgCursor :: int
  pgHasMore :: bool
  pgBytes :: int

definition json_key :: "string \<Rightarrow> string" where
  "json_key k = CHR 0x22 # k @ [CHR 0x22, CHR '':'']"

definition encode_response :: "Page \<Rightarrow> string" where
  "encode_response p =
     ''{'' @ json_key ''protocol_version'' @ ''1'' @
     '','' @ json_key ''accepted_through'' @ FormatInt (pgAcceptedThrough p) @
     '','' @ json_key ''rejected'' @ pgRejected p @
     '','' @ json_key ''ops'' @ ''['' @ join_with '','' (pgOps p) @ '']'' @
     '','' @ json_key ''cursor'' @ FormatInt (pgCursor p) @
     '','' @ json_key ''has_more'' @ (if pgHasMore p then ''true'' else ''false'') @ ''}''"

definition NewPage :: "int \<Rightarrow> int \<Rightarrow> string \<Rightarrow> Limits \<Rightarrow> bounded_error + Page" where
  "NewPage cursor ack rejected limits =
     bind_sum (Validate limits) (\<lambda>_.
       let p = \<lparr>pgAcceptedThrough = ack,
                pgRejected = (if rejected = ''null'' then ''[]'' else rejected),
                pgOps = [], pgCursor = cursor, pgHasMore = False, pgBytes = 0\<rparr>
       in if int (length (encode_response p)) > MaxBodyBytes limits
          then Inl (Fail 413 ''response_envelope_too_large'') else Inr p)"

definition CountFull :: "Limits \<Rightarrow> Page \<Rightarrow> bool" where
  "CountFull limits p \<longleftrightarrow> int (length (pgOps p)) \<ge> MaxOps limits"

definition Add ::
    "Limits \<Rightarrow> int \<Rightarrow> string \<Rightarrow> int \<Rightarrow> int \<Rightarrow> string option \<Rightarrow> Page \<Rightarrow> bounded_error + (bool \<times> Page)" where
  "Add limits seq site opSeq encodedBytes raw p =
     (if CountFull limits p then Inr (False, p\<lparr>pgHasMore := True\<rparr>)
      else
        (let envelope = int (length (encode_response (p\<lparr>pgOps := [], pgCursor := seq, pgHasMore := False\<rparr>)))
         in if encodedBytes > MaxRowBytes limits \<or> encodedBytes + envelope > MaxBodyBytes limits
            then (if pgOps p \<noteq> [] then Inr (False, p\<lparr>pgHasMore := True\<rparr>)
                  else Inl (Oversized site opSeq encodedBytes))
            else
              (case raw of
                 None \<Rightarrow> Inl (Fail 500 ''invalid_relay_payload'')
               | Some row \<Rightarrow>
                   if int (length row) \<noteq> encodedBytes then Inl (Fail 500 ''invalid_relay_payload'')
                   else
                     (let comma = (if pgOps p \<noteq> [] then 1 else 0);
                          nxt = envelope + pgBytes p + comma + int (length row)
                      in if pgOps p \<noteq> [] \<and> (nxt > TargetPageBytes limits \<or> nxt > MaxBodyBytes limits)
                         then Inr (False, p\<lparr>pgHasMore := True\<rparr>)
                         else Inr (True, p\<lparr>pgOps := pgOps p @ [row], pgCursor := seq,
                                           pgBytes := pgBytes p + comma + int (length row)\<rparr>)))))"

definition Encode :: "Limits \<Rightarrow> Page \<Rightarrow> bounded_error + string" where
  "Encode limits p =
     (let b = encode_response p
      in if int (length b) > MaxBodyBytes limits then Inl (Fail 413 ''response_body_too_large'')
         else Inr b)"

section \<open>The exchange\<close>

text \<open>The row loop of \<open>ExchangeBounded\<close>, over the rows beyond the cursor in sequence
  order.\<close>

fun fill_page :: "codec \<Rightarrow> Limits \<Rightarrow> log_row list \<Rightarrow> Page \<Rightarrow> bounded_error + Page" where
  "fill_page cd limits [] p = Inr p"
| "fill_page cd limits (r # rs) p =
     (if CountFull limits p then Inr (p\<lparr>pgHasMore := True\<rparr>)
      else
        (let stored = int (length (cdStored cd (lr_payload r)));
             raw = (if stored \<le> MaxRowBytes limits
                    then Some (cdEncode cd (withV5Defaults (unmarshalOp (lr_payload r)))) else None);
             sz = (case raw of Some row \<Rightarrow> int (length row) | None \<Rightarrow> stored)
         in case Add limits (lr_seq r) (lr_site_id r) (lr_op_seq r) sz raw p of
              Inl e \<Rightarrow> Inl e
            | Inr (added, p') \<Rightarrow> if added then fill_page cd limits rs p' else Inr p'))"

definition pull_cursor :: "string \<Rightarrow> int \<Rightarrow> string \<Rightarrow> millis \<Rightarrow> cursor_row table \<Rightarrow> cursor_row table" where
  "pull_cursor site c name now t =
     map (\<lambda>(k, row). (k, if k = site
            then row\<lparr>cu_last_pull_seq := c, cu_updated_at := now,
                     cu_device_name := (if name \<noteq> [] then name else cu_device_name row)\<rparr>
            else row)) t"

definition exchangeTx ::
    "codec \<Rightarrow> BRequest \<Rightarrow> Limits \<Rightarrow> millis \<Rightarrow> millis \<Rightarrow> sync_store \<Rightarrow>
     bounded_error + ((string \<times> (string \<times> string) list) \<times> Page \<times> sync_store)" where
  "exchangeTx cd req limits now now' s =
     bind_sum (ValidateRows cd req limits) (\<lambda>_.
     bind_sum (decode_rows cd (brOps req)) (\<lambda>ops.
       case applyBatchTx (brSiteID req) ops now s of
         Inl e \<Rightarrow> Inl (BoundedStore e)
       | Inr (res, s1) \<Rightarrow>
           bind_sum (NewPage (brCursor req) (AcceptedThrough res)
             (if Rejected res = [] then ''null'' else cdRejected cd (Rejected res)) limits) (\<lambda>page0.
           bind_sum (fill_page cd limits (relay_rows (brCursor req) (brSiteID req) (sync_ops s1)) page0)
             (\<lambda>page.
           bind_sum (Encode limits page) (\<lambda>bdy.
             Inr ((bdy, ChangedPages res), page,
                  s1\<lparr>sync_cursors := pull_cursor (brSiteID req) (pgCursor page) (utf8 (brDeviceName req)) now'
                        (sync_cursors s1)\<rparr>))))))"

definition ExchangeBounded ::
    "codec \<Rightarrow> BRequest \<Rightarrow> Limits \<Rightarrow> millis \<Rightarrow> millis \<Rightarrow> sync_store \<Rightarrow>
     (bounded_error + (string \<times> (string \<times> string) list)) \<times> sync_store" where
  "ExchangeBounded cd req limits now now' s =
     (case exchangeTx cd req limits now now' s of
        Inl e \<Rightarrow> (Inl e, s)
      | Inr (out, _, s') \<Rightarrow> (Inr out, s'))"

definition SyncBounded ::
    "(string \<Rightarrow> string) \<Rightarrow> codec \<Rightarrow> BRequest \<Rightarrow> Limits \<Rightarrow> millis \<Rightarrow> millis \<Rightarrow> sync_store \<Rightarrow>
     (bounded_error + (string \<times> (string \<times> string) list)) \<times> sync_store" where
  "SyncBounded sha cd req limits now now' s =
     (if brProtocolVersion req \<noteq> ProtocolVersion then (Inl (Fail 409 ''unsupported_protocol''), s)
      else if \<not> AcceptsSchemaHash sha (brSchemaHash req) then (Inl (Fail 409 ''schema_mismatch''), s)
      else if \<not> IsULID (brSiteID req) \<or> brCursor req < 0 then (Inl (Fail 400 ''bad_request''), s)
      else ExchangeBounded cd (req\<lparr>brDeviceName := normalizeDeviceName (brDeviceName req)\<rparr>) limits
             now now' s)"

section \<open>The page never exceeds its limits\<close>

lemma Validate_iff:
  "Validate l = Inr u \<longleftrightarrow>
     1 \<le> MaxOps l \<and> MaxOps l \<le> 500 \<and> 256 \<le> MaxBodyBytes l \<and> MaxBodyBytes l \<le> 16 * 2 ^ 20 \<and>
     1 \<le> TargetPageBytes l \<and> TargetPageBytes l \<le> MaxBodyBytes l \<and> 1 \<le> MaxRowBytes l \<and>
     MaxRowBytes l \<le> 8 * 2 ^ 20"
  by (auto simp: Validate_def)

lemma join_with_snoc:
  "join_with sep (xs @ [x]) = (if xs = [] then x else join_with sep xs @ sep @ x)"
  by (induction sep xs rule: join_with.induct) auto

lemma encode_length:
  "length (encode_response p) =
     length (encode_response (p\<lparr>pgOps := []\<rparr>)) + length (join_with '','' (pgOps p))"
  by (simp add: encode_response_def)

lemma encode_more: "length (encode_response (p\<lparr>pgHasMore := True\<rparr>)) \<le> length (encode_response p)"
  by (simp add: encode_response_def)

definition page_ok :: "Limits \<Rightarrow> Page \<Rightarrow> bool" where
  "page_ok l p \<longleftrightarrow>
     int (length (encode_response p)) \<le> MaxBodyBytes l \<and>
     pgBytes p = int (length (join_with '','' (pgOps p))) \<and> int (length (pgOps p)) \<le> MaxOps l"

lemma page_ok_more: "page_ok l p \<Longrightarrow> page_ok l (p\<lparr>pgHasMore := True\<rparr>)"
  using encode_more [of p] by (simp add: page_ok_def)

lemma NewPage_ok:
  assumes "NewPage c ack rej l = Inr p"
  shows "page_ok l p \<and> Validate l = Inr () \<and> pgOps p = [] \<and> pgCursor p = c \<and> \<not> pgHasMore p"
  using assms
  by (auto simp: NewPage_def bind_sum_eq_Inr page_ok_def Validate_iff Let_def split: if_splits)

lemma Add_cases:
  assumes "Add l seq site opSeq sz raw p = Inr (added, p')"
  obtains (full) "\<not> added" "p' = p\<lparr>pgHasMore := True\<rparr>" "CountFull l p \<or> pgOps p \<noteq> []"
  | (row) row where "added" "raw = Some row" "\<not> CountFull l p"
      "p' = p\<lparr>pgOps := pgOps p @ [row], pgCursor := seq,
        pgBytes := pgBytes p + (if pgOps p \<noteq> [] then 1 else 0) + int (length row)\<rparr>"
      "pgOps p = [] \<Longrightarrow> int (length row) +
         int (length (encode_response (p\<lparr>pgOps := [], pgCursor := seq, pgHasMore := False\<rparr>))) \<le> MaxBodyBytes l"
      "pgOps p \<noteq> [] \<Longrightarrow>
         int (length (encode_response (p\<lparr>pgOps := [], pgCursor := seq, pgHasMore := False\<rparr>))) +
         pgBytes p + 1 + int (length row) \<le> MaxBodyBytes l"
  using assms by (auto simp: Add_def Let_def split: if_splits option.splits)

lemma Add_ok:
  assumes "page_ok l p" and "\<not> pgHasMore p" and "Add l seq site opSeq sz raw p = Inr (added, p')"
  shows "page_ok l p'"
  using assms(3)
proof (cases rule: Add_cases)
  case full
  then show ?thesis using assms(1) page_ok_more by simp
next
  case (row r)
  let ?e = "encode_response (p\<lparr>pgOps := [], pgCursor := seq, pgHasMore := False\<rparr>)"
  have "p'\<lparr>pgOps := []\<rparr> = p\<lparr>pgOps := [], pgCursor := seq, pgHasMore := False, pgBytes := pgBytes p'\<rparr>"
    using row(4) assms(2) by (cases p) simp
  then have "length (encode_response (p'\<lparr>pgOps := []\<rparr>)) = length ?e"
    by (simp add: encode_response_def)
  then have len: "length (encode_response p') = length ?e + length (join_with '','' (pgOps p @ [r]))"
    using encode_length [of p'] row(4) by simp
  show ?thesis
    using row assms(1) unfolding page_ok_def len
    by (cases "pgOps p = []") (auto simp: join_with_snoc CountFull_def)
qed

lemma fill_page_Cons:
  assumes "fill_page cd l (r # rs) p = Inr p'" and "\<not> CountFull l p"
  shows "\<exists>sz raw added p1. Add l (lr_seq r) (lr_site_id r) (lr_op_seq r) sz raw p = Inr (added, p1) \<and>
    raw \<in> {None, Some (cdEncode cd (relayed_op r))} \<and>
    (added \<and> fill_page cd l rs p1 = Inr p' \<or> \<not> added \<and> p' = p1)"
proof -
  obtain sz raw where *: "raw \<in> {None, Some (cdEncode cd (relayed_op r))}"
    "fill_page cd l (r # rs) p =
      (case Add l (lr_seq r) (lr_site_id r) (lr_op_seq r) sz raw p of
         Inl e \<Rightarrow> Inl e
       | Inr (added, p') \<Rightarrow> if added then fill_page cd l rs p' else Inr p')"
    using assms(2) by (cases "int (length (cdStored cd (lr_payload r))) \<le> MaxRowBytes l") (auto simp: Let_def)
  obtain added p1 where "Add l (lr_seq r) (lr_site_id r) (lr_op_seq r) sz raw p = Inr (added, p1)"
    "added \<and> fill_page cd l rs p1 = Inr p' \<or> \<not> added \<and> p' = p1"
    using assms(1) *(2) by (auto split: sum.splits prod.splits if_splits)
  with *(1) show ?thesis by blast
qed

lemma fill_page_ok:
  assumes "fill_page cd l rs p = Inr p'" and "page_ok l p" and "\<not> pgHasMore p" and "1 \<le> MaxOps l"
  shows "page_ok l p' \<and> (\<exists>k. pgOps p' = pgOps p @ map (\<lambda>r. cdEncode cd (relayed_op r)) (take k rs) \<and>
    pgCursor p' = (if take k rs = [] then pgCursor p else lr_seq (last (take k rs))) \<and>
    (pgHasMore p' \<longleftrightarrow> drop k rs \<noteq> []) \<and> (drop k rs \<noteq> [] \<longrightarrow> pgOps p' \<noteq> []))"
  using assms(1-3)
proof (induction rs arbitrary: p)
  case Nil
  then show ?case by auto
next
  case (Cons r rs)
  show ?case
  proof (cases "CountFull l p")
    case True
    then have "p' = p\<lparr>pgHasMore := True\<rparr>" "pgOps p \<noteq> []"
      using Cons.prems(1) assms(4) by (auto simp: CountFull_def)
    then show ?thesis using page_ok_more [OF Cons.prems(2)] by (intro conjI exI [of _ 0]) auto
  next
    case False
    obtain sz raw added p1 where
      add: "Add l (lr_seq r) (lr_site_id r) (lr_op_seq r) sz raw p = Inr (added, p1)"
      and raw: "raw \<in> {None, Some (cdEncode cd (relayed_op r))}"
      and rest: "added \<and> fill_page cd l rs p1 = Inr p' \<or> \<not> added \<and> p' = p1"
      using fill_page_Cons [OF Cons.prems(1) False] by blast
    have ok: "page_ok l p1" by (rule Add_ok [OF Cons.prems(2,3) add])
    from add show ?thesis
    proof (cases rule: Add_cases)
      case full
      then show ?thesis using rest ok False by (intro conjI exI [of _ 0]) auto
    next
      case (row x)
      then have "fill_page cd l rs p1 = Inr p'" "\<not> pgHasMore p1" using rest Cons.prems(3) by auto
      from Cons.IH [OF this(1) ok this(2)] obtain k where k: "page_ok l p'"
        "pgOps p' = pgOps p1 @ map (\<lambda>r. cdEncode cd (relayed_op r)) (take k rs)"
        "pgCursor p' = (if take k rs = [] then pgCursor p1 else lr_seq (last (take k rs)))"
        "pgHasMore p' \<longleftrightarrow> drop k rs \<noteq> []" "drop k rs \<noteq> [] \<longrightarrow> pgOps p' \<noteq> []" by blast
      then show ?thesis
        using row raw by (intro conjI exI [of _ "Suc k"]) auto
    qed
  qed
qed

lemma Encode_ok: "page_ok l p \<Longrightarrow> Encode l p = Inr (encode_response p)"
  by (simp add: page_ok_def Encode_def)

lemma pull_cursor_keys: "map fst (pull_cursor site c name now t) = map fst t"
  by (induction t) (auto simp: pull_cursor_def)

lemma applyBatchTx_inv: "store_inv s \<Longrightarrow> applyBatchTx site ops now s = Inr (res, s1) \<Longrightarrow> store_inv s1"
  using ApplyBatch_Inr [of s site ops now] by (auto simp: ApplyBatch_def commit_def)

lemma exchangeTx_page:
  assumes "store_inv s" and "exchangeTx cd req l now now' s = Inr ((bdy, pages), page, s')"
  shows "bdy = encode_response page \<and> page_ok l page \<and> store_inv s' \<and>
    brCursor req \<le> pgCursor page \<and>
    pgOps page = map (\<lambda>r. cdEncode cd (relayed_op r))
      (window (brCursor req) (pgCursor page) (brSiteID req) (sync_ops s')) \<and>
    (pgHasMore page \<longleftrightarrow> relay_rows (pgCursor page) (brSiteID req) (sync_ops s') \<noteq> []) \<and>
    (pgHasMore page \<longrightarrow> pgOps page \<noteq> [])"
proof -
  from assms(2) obtain ops where d: "ValidateRows cd req l = Inr ()" "decode_rows cd (brOps req) = Inr ops"
    by (auto simp: exchangeTx_def bind_sum_eq_Inr)
  obtain res s1 where tx: "applyBatchTx (brSiteID req) ops now s = Inr (res, s1)"
    using assms(2) d by (cases "applyBatchTx (brSiteID req) ops now s") (auto simp: exchangeTx_def)
  from assms(2) obtain page0 where
    new: "NewPage (brCursor req) (AcceptedThrough res)
        (if Rejected res = [] then ''null'' else cdRejected cd (Rejected res)) l = Inr page0"
    and fill: "fill_page cd l (relay_rows (brCursor req) (brSiteID req) (sync_ops s1)) page0 = Inr page"
    and enc: "Encode l page = Inr bdy"
    and s': "s' = s1\<lparr>sync_cursors := pull_cursor (brSiteID req) (pgCursor page) (utf8 (brDeviceName req)) now'
        (sync_cursors s1)\<rparr>"
    using d tx by (auto simp: exchangeTx_def bind_sum_eq_Inr)
  have inv: "store_inv s1" by (rule applyBatchTx_inv [OF assms(1) tx])
  have p0: "page_ok l page0" "\<not> pgHasMore page0" "1 \<le> MaxOps l" and e: "pgOps page0 = []"
    "pgCursor page0 = brCursor req"
    using NewPage_ok [OF new] by (auto simp: Validate_iff)
  from fill_page_ok [OF fill p0, unfolded e append_Nil] obtain k where ok: "page_ok l page"
    and ops: "pgOps page = map (\<lambda>r. cdEncode cd (relayed_op r))
        (take k (relay_rows (brCursor req) (brSiteID req) (sync_ops s1)))"
    and cur: "pgCursor page = (if take k (relay_rows (brCursor req) (brSiteID req) (sync_ops s1)) = []
        then brCursor req else lr_seq (last (take k (relay_rows (brCursor req) (brSiteID req) (sync_ops s1)))))"
    and more: "pgHasMore page \<longleftrightarrow> drop k (relay_rows (brCursor req) (brSiteID req) (sync_ops s1)) \<noteq> []"
      "drop k (relay_rows (brCursor req) (brSiteID req) (sync_ops s1)) \<noteq> [] \<longrightarrow> pgOps page \<noteq> []"
    by blast
  note w = relay_take_window [OF inv cur]
  have "sync_ops s' = sync_ops s1" by (simp add: s')
  moreover have "store_inv s'" using inv by (simp add: s' store_inv_def pull_cursor_keys)
  moreover have "bdy = encode_response page" using enc Encode_ok [OF ok] by simp
  ultimately show ?thesis using ok ops more w by auto
qed

text \<open>
  C38. The bounded exchange: for any encoding of the rows, an error leaves the store exactly as it
  was (nothing is ingested unless the encoded response fits), and a success sends a body within
  the negotiated size and op count that holds exactly the rows between the cursor sent and the
  cursor returned; \<open>has_more\<close> is set exactly when rows remain, and then the page is not
  empty, so a client always makes progress.
\<close>

theorem ExchangeBounded_fits:
  assumes "store_inv s" and "ExchangeBounded cd req l now now' s = (out, s')"
  shows "case out of
      Inl e \<Rightarrow> s' = s
    | Inr (bdy, pages) \<Rightarrow>
        int (length bdy) \<le> MaxBodyBytes l \<and> store_inv s' \<and>
        (\<exists>page. bdy = encode_response page \<and> int (length (pgOps page)) \<le> MaxOps l \<and>
           brCursor req \<le> pgCursor page \<and>
           pgOps page = map (\<lambda>r. cdEncode cd (relayed_op r))
             (window (brCursor req) (pgCursor page) (brSiteID req) (sync_ops s')) \<and>
           (pgHasMore page \<longleftrightarrow> relay_rows (pgCursor page) (brSiteID req) (sync_ops s') \<noteq> []) \<and>
           (pgHasMore page \<longrightarrow> pgOps page \<noteq> []))"
proof (cases "exchangeTx cd req l now now' s")
  case (Inl e)
  with assms(2) show ?thesis by (auto simp: ExchangeBounded_def)
next
  case (Inr t)
  obtain bdy pages page s1 where t: "t = ((bdy, pages), page, s1)" by (metis surj_pair)
  with Inr assms(2) have out: "out = Inr (bdy, pages)" "s' = s1" by (auto simp: ExchangeBounded_def)
  show ?thesis
    using exchangeTx_page [OF assms(1) Inr [unfolded t]] by (auto simp: out page_ok_def)
qed

definition ex_codec :: codec where
  "ex_codec = \<lparr>cdDecode = (\<lambda>_. None), cdIdentity = (\<lambda>_. ([], 0)), cdStored = (\<lambda>_. ''row''),
     cdEncode = (\<lambda>_. ''row''), cdRejected = (\<lambda>_. ''[]'')\<rparr>"

definition ex_brequest :: BRequest where
  "ex_brequest = \<lparr>brProtocolVersion = 1, brSchemaHash = schemaHashV4, brSiteID = ex_site 1,
     brDeviceName = [], brCursor = 0, brOps = []\<rparr>"

text \<open>One device asks, with two ops on the relay of which one is its own, and room for one op per page.\<close>

definition ex_relay_store :: sync_store where
  "ex_relay_store = ex_store\<lparr>last_seq := 2,
     sync_ops := sync_ops ex_store @ [new_row (ex_op 1 7) 9 ((fresh_store ''u'')\<lparr>last_seq := 1\<rparr>)]\<rparr>"

lemma ex_relay_store_inv: "store_inv ex_relay_store"
  by (simp add: ex_relay_store_def ex_store_def store_inv_def fresh_store_def row_ident_def ex_op_def ex_site_def)

theorem ExchangeBounded_fits_witness:
  "\<exists>bdy pages s' page.
     ExchangeBounded ex_codec ex_brequest (Defaults\<lparr>MaxOps := 1\<rparr>) 9 9 ex_relay_store = (Inr (bdy, pages), s') \<and>
     bdy = encode_response page \<and> pgOps page \<noteq> [] \<and> int (length (pgOps page)) \<le> 1 \<and>
     int (length bdy) \<le> 16 * 2 ^ 20"
proof -
  let ?r = "ExchangeBounded ex_codec ex_brequest (Defaults\<lparr>MaxOps := 1\<rparr>) 9 9 ex_relay_store"
  have ok: "\<not> isl (fst ?r)" and rows: "relay_rows 0 (ex_site 1) (sync_ops (snd ?r)) \<noteq> []" by code_simp+
  obtain out s' where r: "?r = (out, s')"
    by (metis surj_pair)
  with ok obtain bdy pages where out: "out = Inr (bdy, pages)" by (cases out) auto
  note fits = ExchangeBounded_fits [OF ex_relay_store_inv r, unfolded out sum.case prod.case]
  have sel: "MaxOps (Defaults\<lparr>MaxOps := 1\<rparr>) = 1" "MaxBodyBytes (Defaults\<lparr>MaxOps := 1\<rparr>) = 16 * 2 ^ 20"
    "brCursor ex_brequest = 0" "brSiteID ex_brequest = ex_site 1"
    by (simp_all add: Defaults_def ex_brequest_def)
  from fits [unfolded sel] obtain page where
    p: "bdy = encode_response page" "int (length (pgOps page)) \<le> 1" "int (length bdy) \<le> 16 * 2 ^ 20"
    and ops: "pgOps page = map (\<lambda>r. cdEncode ex_codec (relayed_op r)) (window 0 (pgCursor page) (ex_site 1) (sync_ops s'))"
    and more: "pgHasMore page \<longleftrightarrow> relay_rows (pgCursor page) (ex_site 1) (sync_ops s') \<noteq> []"
      "pgHasMore page \<longrightarrow> pgOps page \<noteq> []"
    by blast
  have set_relay: "set (relay_rows c d lg) = {r \<in> set lg. c < lr_seq r \<and> lr_site_id r \<noteq> d}" for c d lg
    by (auto simp: relay_rows_def)
  have "pgOps page \<noteq> []"
  proof (cases "pgHasMore page")
    case False
    with more have none: "set (relay_rows (pgCursor page) (ex_site 1) (sync_ops s')) = {}" by simp
    from rows r obtain x where "x \<in> set (relay_rows 0 (ex_site 1) (sync_ops s'))"
      by (cases "relay_rows 0 (ex_site 1) (sync_ops s')") auto
    with none ops show ?thesis unfolding set_relay by (fastforce simp: window_def filter_empty_conv not_le)
  qed (use more in simp)
  with p r out show ?thesis by blast
qed

section \<open>Negotiation\<close>

lemma header_limit_le: "header_limit v t = Inr n \<Longrightarrow> n \<le> t"
  by (auto simp: header_limit_def split: option.splits list.splits if_splits)

text \<open>
  Negotiation: whatever limits a client asks for, the limits in force are valid and never
  beyond what the server offers, in any dimension.
\<close>

theorem negotiate_within_offer:
  assumes "negotiate defaults maxResponse maxRow = Inr l"
  shows "Validate l = Inr () \<and> MaxOps l = MaxOps defaults \<and> MaxBodyBytes l \<le> MaxBodyBytes defaults \<and>
    MaxRowBytes l \<le> MaxRowBytes defaults \<and> TargetPageBytes l \<le> TargetPageBytes defaults"
  using assms by (auto simp: negotiate_def bind_sum_eq_Inr Let_def dest!: header_limit_le)

theorem negotiate_within_offer_witness:
  "\<exists>l. negotiate Defaults (Some [''1000'']) None = Inr l \<and> MaxBodyBytes l \<le> 16 * 2 ^ 20"
proof -
  have "\<not> isl (negotiate Defaults (Some [''1000'']) None)" by code_simp
  then obtain l where l: "negotiate Defaults (Some [''1000'']) None = Inr l"
    by (cases "negotiate Defaults (Some [''1000'']) None") auto
  with negotiate_within_offer [OF l] show ?thesis by (auto simp: Defaults_def)
qed

end
