(* ===== verification/Sync_System.thy ===== *)
theory Sync_System
  imports Devices Notebook_Delete Bounded
begin

text \<open>
  The sync server as a state machine: every interleaving of ingest, server authoring, cursor
  bookkeeping, device pruning and labelling and log compaction. The ghost set \<open>X\<close> is what the
  store has been handed so far, by devices or by its own authoring. No assumption is made on
  the clocks.
\<close>

section \<open>Restart\<close>

text \<open>Stroke colours travel as unsigned packed ARGB.\<close>

definition unsigned_colors :: "sync_store \<Rightarrow> bool" where
  "unsigned_colors s \<longleftrightarrow>
     (\<forall>(_, r) \<in> set (fn_stroke (mir s)). case st_color r of None \<Rightarrow> True | Some c \<Rightarrow> 0 \<le> c)"

lemma Migrate_mir:
  assumes "unsigned_colors s"
  shows "mir (Migrate ulid (Some s)) = mir s"
proof -
  have "map (\<lambda>(k, r). (k, backfill_highlighter r)) (fn_stroke (mir s)) = fn_stroke (mir s)"
    using assms by (intro map_idI) (force simp: unsigned_colors_def backfill_highlighter_def)
  then show ?thesis by (simp add: Migrate_def Let_def)
qed

lemma Migrate_frame:
  "sync_ops (Migrate ulid (Some s)) = sync_ops s" "site_id (Migrate ulid (Some s)) = site_id s"
  "last_op_seq (Migrate ulid (Some s)) = last_op_seq s" "last_seq (Migrate ulid (Some s)) = last_seq s"
  "sync_cursors (Migrate ulid (Some s)) = sync_cursors s"
  "last_hlc s \<le> last_hlc (Migrate ulid (Some s))"
  by (simp_all add: Migrate_def Let_def)

lemma Migrate_inv: "store_inv s \<Longrightarrow> unsigned_colors s \<Longrightarrow> store_inv (Migrate ulid (Some s))"
  by (simp add: store_inv_def Migrate_frame Migrate_mir)

section \<open>The step relation\<close>

inductive reach :: "string \<Rightarrow> Op set \<Rightarrow> sync_store \<Rightarrow> bool" for u where
  start: "reach u {} (fresh_store u)"
| ingest: "reach u X s \<Longrightarrow> unique_identity (X \<union> set ops) \<Longrightarrow> \<forall>op \<in> set ops. opSiteID op \<noteq> u \<Longrightarrow>
    ApplyBatch siteID ops now s = (Inr res, s') \<Longrightarrow> reach u (X \<union> set ops) s'"
| author: "reach u X s \<Longrightarrow> AuthorOps ops now s = (Inr changed, s') \<Longrightarrow>
    reach u (X \<union> set (stamped_ops ops now s)) s'"
| cursor: "reach u X s \<Longrightarrow> reach u X (RecordCursor siteID c name now s)"
| prune: "reach u X s \<Longrightarrow> reach u X (snd (DeleteDevice siteID s))"
| label: "reach u X s \<Longrightarrow> reach u X (snd (SetDeviceLabel siteID l s))"
| restart: "reach u X s \<Longrightarrow> unsigned_colors s \<Longrightarrow> reach u X (Migrate ulid (Some s))"
| compact: "reach u X s \<Longrightarrow> reach u X (snd (compactOnce horizonSec nowMs s))"

section \<open>Authoring follows the ghost set\<close>

lemma withV5Defaults_stamp [simp]: "withV5Defaults (stamp_op site seq ts op) = stamp_op site seq ts op"
proof -
  have "withV5Defaults (withV5Defaults op) = withV5Defaults op" by simp
  then have "opCols (withV5Defaults (withV5Defaults op)) = opCols (withV5Defaults op)" by simp
  then show ?thesis by (simp add: withV5Defaults_def stamp_op_def Let_def)
qed

lemma wire_stamp: "wire_op (stamp_op site seq ts op) = Normalize (stamp_op site seq ts op)"
  by (simp add: wire_op_def)

definition own_bound :: "string \<Rightarrow> Op set \<Rightarrow> int \<Rightarrow> bool" where
  "own_bound u X n \<longleftrightarrow> 0 \<le> n \<and> (\<forall>op \<in> X. opSiteID op = u \<longrightarrow> opOpSeq op \<le> n)"

lemma author_op_ingested:
  assumes "author_op u now op a = Inr a'" and "store_inv (auStore a)" and "ingested X (auStore a)"
  defines "n \<equiv> stamp_op u (auSeq a + 1) (localEvent now (auClock a)) op"
  shows "store_inv (auStore a') \<and> ingested (insert n X) (auStore a') \<and> auSeq a' = auSeq a + 1 \<and>
    auClock a' = localEvent now (auClock a) \<and> site_id (auStore a') = site_id (auStore a) \<and>
    IsULID (opPK n)"
proof -
  let ?s = "auStore a"
  have nd: "(withV5Defaults op)\<lparr>opSiteID := u, opOpSeq := auSeq a + 1,
      opWallTS := localEvent now (auClock a)\<rparr> = n"
    by (simp add: n_def stamp_op_def)
  obtain changed page m' s1 where v: "validateOp n = []"
    and m: "mergeRow (Normalize n) (mir ?s) = Inr (changed, page, m')"
    and app: "appendOp n now (?s\<lparr>mir := m'\<rparr>) = Inr s1"
    and a': "a' = \<lparr>auStore = s1, auSeq = auSeq a + 1, auClock = localEvent now (auClock a),
       auChanged = (if changed \<and> page \<noteq> [] then auChanged a @ [(''page'', page)] else auChanged a)\<rparr>"
    using assms(1) unfolding author_op_def Let_def nd
    by (auto simp: bind_sum_eq_Inr split: if_splits sum.splits)
  have known: "knownCols (opTable (Normalize n)) \<noteq> None" using valid_known [OF v] by simp
  have inv: "store_inv (?s\<lparr>mir := m'\<rparr>)"
    using mergeRow_view(2) [OF known m] assms(2) by (simp add: store_inv_def)
  have nh: "\<not> has_op (sync_ops ?s) (opSiteID n) (opOpSeq n)"
    using app by (auto simp: appendOp_eq split: if_splits)
  then have s1: "s1 = ?s\<lparr>mir := m', last_seq := last_seq ?s + 1,
      sync_ops := sync_ops ?s @ [new_row n now (?s\<lparr>mir := m'\<rparr>)]\<rparr>" "store_inv s1"
    using appendOp_inv [OF inv, of n now] app by simp_all
  have "mirror_row m' = mirror_step (wire_op n) (mirror_row (mir ?s))"
    using mergeRow_view(1) [OF known m] by (simp add: n_def wire_stamp)
  moreover have "validateOp (withV5Defaults n) = []" using v by (simp add: n_def)
  ultimately have "ingested (insert n X) s1"
    using assms(3) mirror_of_step [of X "mirror_row (mir ?s)" n] by (auto simp: ingested_def s1)
  then show ?thesis using a' s1 v by (auto simp: validateOp_ok_iff)
qed

lemma author_loop_ingested:
  assumes "fold_sum (author_op u now) ops a = Inr a'" and "store_inv (auStore a)"
    and "ingested X (auStore a)"
  shows "store_inv (auStore a') \<and>
    ingested (X \<union> set (stamped u now (auSeq a) (auClock a) ops)) (auStore a') \<and>
    auSeq a' = auSeq a + int (length ops) \<and> site_id (auStore a') = site_id (auStore a) \<and>
    (\<forall>n \<in> set (stamped u now (auSeq a) (auClock a) ops). IsULID (opPK n))"
  using assms
proof (induction ops arbitrary: a X)
  case Nil
  then show ?case by simp
next
  case (Cons op ops)
  then obtain b where b: "author_op u now op a = Inr b" "fold_sum (author_op u now) ops b = Inr a'"
    by (auto simp: bind_sum_eq_Inr)
  note st = author_op_ingested [OF b(1) Cons.prems(2,3)]
  from st Cons.IH [OF b(2), of "insert (stamp_op u (auSeq a + 1) (localEvent now (auClock a)) op) X"]
  show ?case by simp
qed

lemma stamped_ids:
  "n \<in> set (stamped u now seq clock ops) \<Longrightarrow> opSiteID n = u \<and> seq < opOpSeq n \<and> opOpSeq n \<le> seq + int (length ops)"
  by (induction ops arbitrary: seq clock) force+

lemma stamped_unique: "unique_identity (set (stamped u now seq clock ops))"
proof (induction ops arbitrary: seq clock)
  case (Cons op ops)
  let ?rest = "stamped u now (seq + 1) (localEvent now clock) ops"
  have "seq + 1 < opOpSeq n" if "n \<in> set ?rest" for n using stamped_ids [OF that] by simp
  then show ?case using Cons.IH [of "seq + 1" "localEvent now clock"]
    by (fastforce simp: unique_identity_def)
qed (simp add: unique_identity_def)

lemma unique_identity_own:
  assumes "unique_identity X" and "own_bound u X seq"
  shows "unique_identity (X \<union> set (stamped u now seq clock ops))"
proof -
  have "opOpSeq x \<le> seq" if "x \<in> X" "opSiteID x = u" for x using assms(2) that by (auto simp: own_bound_def)
  then have "\<not> (opSiteID x = opSiteID n \<and> opOpSeq x = opOpSeq n)"
    if "x \<in> X" "n \<in> set (stamped u now seq clock ops)" for x n
    using stamped_ids [OF that(2)] that(1) by force
  then show ?thesis
    using assms(1) stamped_unique [of u now seq clock ops] unfolding unique_identity_def by (metis Un_iff)
qed

section \<open>The invariant\<close>

definition sys_inv :: "string \<Rightarrow> Op set \<Rightarrow> sync_store \<Rightarrow> bool" where
  "sys_inv u X s \<longleftrightarrow>
     store_inv s \<and> ingested X s \<and> unique_identity X \<and> own_bound u X (last_op_seq s) \<and> site_id s = u"

lemma sys_inv_frame:
  assumes "sys_inv u X s" and "store_inv s'" and "set (sync_ops s') \<subseteq> set (sync_ops s)" and "mir s' = mir s"
    and "last_op_seq s' = last_op_seq s" and "site_id s' = site_id s"
  shows "sys_inv u X s'"
  using assms by (auto simp: sys_inv_def ingested_def)

lemma sys_inv_ingest:
  assumes "sys_inv u X s" and "unique_identity (X \<union> set ops)" and "\<forall>op \<in> set ops. opSiteID op \<noteq> u"
    and "ApplyBatch siteID ops now s = (Inr res, s')"
  shows "sys_inv u (X \<union> set ops) s'"
proof -
  have inv: "store_inv s" using assms(1) by (simp add: sys_inv_def)
  have "store_inv s'" using ApplyBatch_Inr [OF inv, of siteID ops now] assms(4) by force
  moreover have "ingested (X \<union> set ops) s'"
    using ingested_ApplyBatch [OF inv _ assms(2,4)] assms(1) by (simp add: sys_inv_def)
  moreover have "site_id s' = site_id s \<and> last_op_seq s' = last_op_seq s"
  proof (rule ApplyBatch_facts [OF inv assms(4)])
    fix a :: apply_acc
    assume loop: "fold_sum (apply_op siteID now) ops (init_acc s) = Inr a"
      and eqs: "site_id s' = site_id (aaStore a)" "last_op_seq s' = last_op_seq (aaStore a)"
    have "store_inv (aaStore a) \<and> site_id (aaStore a) = site_id s \<and> last_op_seq (aaStore a) = last_op_seq s"
      using loop
    proof (rule fold_sum_invariant)
      fix x b c
      assume "store_inv (aaStore b) \<and> site_id (aaStore b) = site_id s \<and> last_op_seq (aaStore b) = last_op_seq s"
        and "apply_op siteID now x b = Inr c"
      then show "store_inv (aaStore c) \<and> site_id (aaStore c) = site_id s \<and> last_op_seq (aaStore c) = last_op_seq s"
        using apply_op_frame(1,2) [of siteID now x b c] apply_op_total [of b siteID now x] by auto
    qed (simp add: inv)
    then show ?thesis using eqs by simp
  qed
  ultimately show ?thesis using assms(1-3) by (auto simp: sys_inv_def own_bound_def)
qed

lemma sys_inv_author:
  assumes "sys_inv u X s" and "AuthorOps ops now s = (Inr changed, s')"
  shows "sys_inv u (X \<union> set (stamped_ops ops now s)) s'"
proof (cases "ops = []")
  case True
  then show ?thesis using assms by (simp add: AuthorOps_def stamped_ops_def)
next
  case False
  have u: "site_id s = u" using assms(1) by (simp add: sys_inv_def)
  let ?a = "\<lparr>auStore = s, auSeq = last_op_seq s, auClock = last_hlc s, auChanged = []\<rparr>"
  obtain a where loop: "fold_sum (author_op u now) ops ?a = Inr a"
    and s': "s' = (auStore a)\<lparr>last_op_seq := auSeq a, last_hlc := auClock a\<rparr>"
    using assms(2) False u
    by (auto simp: AuthorOps_def commit_def authorTx_def bind_sum_eq_Inr split: sum.splits)
  have "store_inv (auStore ?a)" "ingested X (auStore ?a)" using assms(1) by (simp_all add: sys_inv_def)
  note l = author_loop_ingested [OF loop this]
  have ub: "unique_identity (X \<union> set (stamped_ops ops now s))"
    using assms(1) unique_identity_own unfolding sys_inv_def stamped_ops_def by blast
  moreover have "own_bound u (X \<union> set (stamped_ops ops now s)) (last_op_seq s + int (length ops))"
    unfolding own_bound_def
  proof (intro conjI ballI impI)
    have "own_bound u X (last_op_seq s)" using assms(1) by (simp add: sys_inv_def)
    then have b: "0 \<le> last_op_seq s" "\<And>op. op \<in> X \<Longrightarrow> opSiteID op = u \<Longrightarrow> opOpSeq op \<le> last_op_seq s"
      by (auto simp: own_bound_def)
    then show "0 \<le> last_op_seq s + int (length ops)" by simp
    fix op
    assume "op \<in> X \<union> set (stamped_ops ops now s)" and "opSiteID op = u"
    then show "opOpSeq op \<le> last_op_seq s + int (length ops)"
      using b(2) [of op] stamped_ids [of op] by (fastforce simp: stamped_ops_def)
  qed
  moreover have "ingested (X \<union> set (stamped_ops ops now s)) s'"
    using l by (auto simp: s' stamped_ops_def u ingested_def)
  ultimately show ?thesis using l u by (simp add: sys_inv_def s')
qed

lemma SetDeviceLabel_frame:
  "store_inv s \<Longrightarrow> store_inv (snd (SetDeviceLabel siteID l s))"
  "sync_ops (snd (SetDeviceLabel siteID l s)) = sync_ops s" "mir (snd (SetDeviceLabel siteID l s)) = mir s"
  "last_op_seq (snd (SetDeviceLabel siteID l s)) = last_op_seq s"
  "site_id (snd (SetDeviceLabel siteID l s)) = site_id s"
  by (simp_all add: SetDeviceLabel_def store_inv_def comp_def split_def)

lemma DeleteDevice_frame:
  "sync_ops (snd (DeleteDevice siteID s)) = sync_ops s" "mir (snd (DeleteDevice siteID s)) = mir s"
  "last_op_seq (snd (DeleteDevice siteID s)) = last_op_seq s"
  "site_id (snd (DeleteDevice siteID s)) = site_id s"
  by (simp_all add: DeleteDevice_def)

lemma compactOnce_frame:
  assumes "store_inv s"
  shows "store_inv (snd (compactOnce h nowMs s))"
    and "set (sync_ops (snd (compactOnce h nowMs s))) \<subseteq> set (sync_ops s)"
    and "mir (snd (compactOnce h nowMs s)) = mir s"
    and "last_op_seq (snd (compactOnce h nowMs s)) = last_op_seq s"
    and "site_id (snd (compactOnce h nowMs s)) = site_id s"
proof -
  have "snd (compactOnce h nowMs s) =
      snd (Compact TombstoneCols (fst (ComputeWatermark nowMs (staleHorizonMs h) s)) s)"
    by (simp add: compactOnce_def split_def)
  then show "store_inv (snd (compactOnce h nowMs s))"
    and "set (sync_ops (snd (compactOnce h nowMs s))) \<subseteq> set (sync_ops s)"
    and "mir (snd (compactOnce h nowMs s)) = mir s"
    and "last_op_seq (snd (compactOnce h nowMs s)) = last_op_seq s"
    and "site_id (snd (compactOnce h nowMs s)) = site_id s"
    using Compact_inv [OF assms] by (auto simp: Compact_eq [OF assms])
qed

lemma reach_inv: "reach u X s \<Longrightarrow> sys_inv u X s"
proof (induction rule: reach.induct)
  case start
  then show ?case by (simp add: sys_inv_def unique_identity_def own_bound_def fresh_store_fields)
next
  case (ingest X s ops siteID now res s')
  then show ?case using sys_inv_ingest by blast
next
  case (author X s ops now changed s')
  then show ?case using sys_inv_author by blast
next
  case (cursor X s siteID c name now)
  show ?case
    by (rule sys_inv_frame [OF cursor.IH]) (use cursor.IH in \<open>simp_all add: sys_inv_def RecordCursor_inv\<close>)
next
  case (prune X s siteID)
  show ?case
    by (rule sys_inv_frame [OF prune.IH]) (use prune.IH in \<open>simp_all add: sys_inv_def DeleteDevice_inv DeleteDevice_frame\<close>)
next
  case (label X s siteID l)
  show ?case
    by (rule sys_inv_frame [OF label.IH]) (use label.IH in \<open>simp_all add: sys_inv_def SetDeviceLabel_frame\<close>)
next
  case (restart X s ulid)
  show ?case
    by (rule sys_inv_frame [OF restart.IH])
      (use restart.IH restart.hyps in \<open>simp_all add: sys_inv_def Migrate_inv Migrate_frame Migrate_mir\<close>)
next
  case (compact X s horizonSec nowMs)
  show ?case
    by (rule sys_inv_frame [OF compact.IH]) (use compact.IH in \<open>simp_all add: sys_inv_def compactOnce_frame\<close>)
qed

section \<open>What holds in every reachable state\<close>

lemma sys_inv_own: "sys_inv u X s \<Longrightarrow> own_inv s"
  by (fastforce simp: sys_inv_def own_inv_def own_bound_def ingested_def row_ident_def)

lemma mirror_of_winner:
  "mirror_of X v \<Longrightarrow> \<exists>w. is_winner opKey opTablePK (handed X) k w \<and> v k = map_option op_row w"
  unfolding mirror_of_def by blast

lemma sys_inv_ulid:
  assumes "sys_inv u X s"
  shows "ulid_keys s"
  unfolding ulid_keys_def
proof (intro allI impI)
  fix k
  assume "mirror_row (mir s) k \<noteq> None"
  moreover obtain w where "mirror_row (mir s) k = map_option op_row w"
    "is_winner opKey opTablePK (handed X) k w"
    using assms mirror_of_winner unfolding sys_inv_def ingested_def by blast
  ultimately obtain n where "n \<in> handed X" "opTablePK n = k" by (auto simp: is_winner_def)
  then show "IsULID (snd k)"
    by (auto simp: handed_def ingestible_def validateOp_ok_iff opTablePK_def)
qed

text \<open>
  C1. The whole sync server: in every state reachable by any interleaving of device batches,
  server authoring, cursor updates, device pruning and labelling, restarts and compaction passes
  (no device using the server's own site id, stroke colours unsigned at a restart), the store is well formed, the server's own numbering is
  unobstructed, every mirror row has a canonical key, and the mirror is exactly the last-writer-wins
  state of all ops the server was ever handed or authored: per key the row of the greatest
  structurally valid, well-typed op.
\<close>

theorem reachable_mirror:
  assumes "reach u X s"
  shows "store_inv s \<and> own_inv s \<and> ulid_keys s \<and>
    (\<forall>k. \<exists>w. is_winner opKey opTablePK (handed X) k w \<and> mirror_row (mir s) k = map_option op_row w)"
proof -
  note inv = reach_inv [OF assms]
  then have "mirror_of X (mirror_row (mir s))" "store_inv s" by (simp_all add: sys_inv_def ingested_def)
  then show ?thesis using sys_inv_own [OF inv] sys_inv_ulid [OF inv] mirror_of_winner by blast
qed

theorem reachable_mirror_witness:
  "\<exists>res s'. ApplyBatch (ex_site 1) [ex_op 1 7] 9 (fresh_store (ex_site 0)) = (Inr res, s') \<and> own_inv s'"
proof -
  obtain res s' where r: "ApplyBatch (ex_site 1) [ex_op 1 7] 9 (fresh_store (ex_site 0)) = (Inr res, s')"
    using ApplyBatch_Inr [OF store_inv_fresh] .
  have "unique_identity ({} \<union> set [ex_op 1 7])" by (simp add: unique_identity_def)
  moreover have "\<forall>op \<in> set [ex_op 1 7]. opSiteID op \<noteq> ex_site 0" by (simp add: ex_op_def ex_site_def)
  ultimately have "reach (ex_site 0) ({} \<union> set [ex_op 1 7]) s'" by (rule reach.ingest [OF reach.start _ _ r])
  from reachable_mirror [OF this] r show ?thesis by blast
qed

text \<open>
  C2. Convergence of whole servers: two servers that have been handed the same ops, in whatever
  order, duplication, batching and interleaving with authoring, pruning and compaction, hold the
  same mirror.
\<close>

theorem reachable_convergence:
  assumes "reach u X s" and "reach u' X s'"
  shows "mirror_row (mir s) = mirror_row (mir s')"
  using reach_inv [OF assms(1)] reach_inv [OF assms(2)] mirror_of_unique
  by (auto simp: sys_inv_def ingested_def)

text \<open>One server gets two competing ops in one batch, the other in two, the later op first and again.\<close>

theorem reachable_convergence_witness:
  "\<exists>r s r1 s1 r2 s2.
     ApplyBatch (ex_site 0) [ex_op 0 5, ex_op 1 7] 9 (fresh_store ''u'') = (Inr r, s) \<and>
     ApplyBatch (ex_site 1) [ex_op 1 7] 3 (fresh_store ''v'') = (Inr r1, s1) \<and>
     ApplyBatch (ex_site 0) [ex_op 0 5, ex_op 1 7] 4 s1 = (Inr r2, s2) \<and>
     mirror_row (mir s) = mirror_row (mir s2)"
proof -
  obtain r s where r: "ApplyBatch (ex_site 0) [ex_op 0 5, ex_op 1 7] 9 (fresh_store ''u'') = (Inr r, s)"
    using ApplyBatch_Inr [OF store_inv_fresh] .
  obtain r1 s1 where r1: "ApplyBatch (ex_site 1) [ex_op 1 7] 3 (fresh_store ''v'') = (Inr r1, s1)" and i: "store_inv s1"
    using ApplyBatch_Inr [OF store_inv_fresh] .
  obtain r2 s2 where r2: "ApplyBatch (ex_site 0) [ex_op 0 5, ex_op 1 7] 4 s1 = (Inr r2, s2)"
    using ApplyBatch_Inr [OF i] .
  have u: "unique_identity X" if "X \<subseteq> {ex_op 0 5, ex_op 1 7}" for X
    using that ex_ops_unique by (auto simp: unique_identity_def)
  have f: "opSiteID (ex_op n t) \<noteq> ''u'' \<and> opSiteID (ex_op n t) \<noteq> ''v''" for n t
    by (simp add: ex_op_def ex_site_def)
  have "reach ''u'' ({} \<union> set [ex_op 0 5, ex_op 1 7]) s"
    by (rule reach.ingest [OF reach.start u _ r]) (use f in auto)
  moreover have "reach ''v'' ({} \<union> set [ex_op 1 7]) s1"
    by (rule reach.ingest [OF reach.start u _ r1]) (use f in auto)
  then have "reach ''v'' ({} \<union> set [ex_op 1 7] \<union> set [ex_op 0 5, ex_op 1 7]) s2"
    by (rule reach.ingest [OF _ u _ r2]) (use f in auto)
  moreover have "{} \<union> set [ex_op 1 7] \<union> set [ex_op 0 5, ex_op 1 7] = {} \<union> set [ex_op 0 5, ex_op 1 7]" by auto
  ultimately have "mirror_row (mir s) = mirror_row (mir s2)"
    by (metis reachable_convergence)
  with r r1 r2 show ?thesis by blast
qed

text \<open>
  A restart: \<open>Migrate\<close> keeps the identity, the numbering, the changelog, the registry and,
  for stroke colours in the wire's unsigned representation, the whole mirror (so the highlighter
  backfill never applies to them), and leaves the clock at or beyond every recorded timestamp.
\<close>

theorem Migrate_restart:
  assumes "unsigned_colors s"
  shows "Migrate ulid (Some s) =
      s\<lparr>last_hlc := max (last_hlc s) (max_or_zero (map lr_wall_ts (sync_ops s)))\<rparr> \<and>
    (\<forall>r \<in> set (sync_ops s). lr_wall_ts r \<le> last_hlc (Migrate ulid (Some s)))"
proof -
  have h: "last_hlc (Migrate ulid (Some s)) = max (last_hlc s) (max_or_zero (map lr_wall_ts (sync_ops s)))"
    by (simp add: Migrate_def Let_def)
  have "Migrate ulid (Some s) = s\<lparr>last_hlc := last_hlc (Migrate ulid (Some s))\<rparr>"
    using Migrate_mir [OF assms, of ulid] by (cases s) (simp add: Migrate_def Let_def)
  moreover have "lr_wall_ts r \<le> max_or_zero (map lr_wall_ts (sync_ops s))" if "r \<in> set (sync_ops s)" for r
    using that by (intro max_or_zero_ge) simp
  ultimately show ?thesis unfolding h by (simp add: le_max_iff_disj)
qed

theorem Migrate_restart_witness:
  "last_hlc (Migrate ''v'' (Some ex_store)) = 5 \<and> site_id (Migrate ''v'' (Some ex_store)) = ''u''"
proof -
  have "unsigned_colors ex_store" by (simp add: unsigned_colors_def ex_store_def fresh_store_def empty_mirror_def)
  from Migrate_restart [OF this, of "''v''"] show ?thesis
    by (simp add: ex_store_def fresh_store_def ex_op_def max_or_zero_def)
qed

end
