(* ===== verification/Task_Db.thy ===== *)
theory Task_Db
  imports Decimal
begin

text \<open>
  The local task store (\<open>internal/taskdb/store.go\<close>) and the task model it shares with its
  clients (\<open>internal/taskstore/model.go\<close>, \<open>mapping.go\<close>). A \<open>sql.NullString\<close> or
  \<open>sql.NullInt64\<close> is an option. A delete is a soft delete that stamps the row; only
  \<open>HardDeleteOlderThan\<close> removes rows, and it raises the floor below which a change token can no
  longer be answered. The clock reading \<open>now\<close> of each operation is an argument, the MD5 digest
  (rendered in hex) a parameter.
\<close>

section \<open>The task model\<close>

record Task =
  TaskID :: string
  TaskListID :: "string option"
  UserID :: int
  Title :: "string option"
  Detail :: "string option"
  LastModified :: "millis option"
  Recurrence :: "string option"
  IsReminderOn :: string
  Status :: "string option"
  Importance :: "string option"
  DueTime :: millis
  CompletedTime :: "millis option"
  Links :: "string option"
  IsDeleted :: string
  ICalBlob :: "string option"
  CreatedAt :: millis
  UpdatedAt :: millis
  CompletedAt :: "millis option"
  ForestNoteNotebookID :: "string option"
  ForestNotePageID :: "string option"
  ForestNoteNotebookName :: "string option"
  ForestNoteSource :: "string option"

definition NullStr :: "string option \<Rightarrow> string" where
  "NullStr ns = (case ns of Some s \<Rightarrow> s | None \<Rightarrow> [])"

definition SqlStr :: "string \<Rightarrow> string option" where
  "SqlStr s = (if s \<noteq> [] then Some s else None)"

definition GenerateTaskID :: "(string \<Rightarrow> string) \<Rightarrow> string \<Rightarrow> millis \<Rightarrow> string" where
  "GenerateTaskID md5 title createdAtMs = md5 (title @ FormatInt createdAtMs)"

definition ComputeETag :: "(string \<Rightarrow> string) \<Rightarrow> Task \<Rightarrow> string" where
  "ComputeETag md5 t =
     md5 (TaskID t @ NullStr (Title t) @ NullStr (Status t) @ FormatInt (DueTime t) @ FormatInt (UpdatedAt t))"

definition CalDAVStatus :: "string \<Rightarrow> string" where
  "CalDAVStatus stored =
     (if stored = ''completed'' then ''COMPLETED''
      else if stored = ''inProcess'' then ''IN-PROCESS''
      else if stored = ''cancelled'' then ''CANCELLED''
      else ''NEEDS-ACTION'')"

definition FromCalDAVStatus :: "string \<Rightarrow> string" where
  "FromCalDAVStatus caldavStatus =
     (if caldavStatus = ''COMPLETED'' then ''completed''
      else if caldavStatus = ''IN-PROCESS'' then ''inProcess''
      else if caldavStatus = ''CANCELLED'' then ''cancelled''
      else ''needsAction'')"

text \<open>A \<open>time.Time\<close> is its millisecond instant; the zero time is \<open>None\<close>.\<close>

definition MsToTime :: "millis \<Rightarrow> millis option" where
  "MsToTime ms = (if ms = 0 then None else Some ms)"

definition TimeToMs :: "millis option \<Rightarrow> millis" where
  "TimeToMs t = (case t of None \<Rightarrow> 0 | Some ms \<Rightarrow> ms)"

definition CompletionTime :: "Task \<Rightarrow> millis option \<times> bool" where
  "CompletionTime t =
     (if NullStr (Status t) \<noteq> ''completed'' then (None, False)
      else case CompletedAt t of
             None \<Rightarrow> (None, False)
           | Some c \<Rightarrow> if c = 0 then (None, False) else (MsToTime c, True))"

section \<open>The store\<close>

datatype task_error = ErrNotFound | ErrConstraint

record task_db =
  tasks :: "Task table"
  sync_state :: "(string option \<times> millis) table"

text \<open>What a scan fills in: the two columns the table does not have keep their zero values.\<close>

definition scanned :: "Task \<Rightarrow> Task" where
  "scanned t = t\<lparr>TaskListID := None, UserID := 0\<rparr>"

definition ListIncludingDeleted :: "task_db \<Rightarrow> Task list" where
  "ListIncludingDeleted s = map snd (tasks s)"

definition live_task :: "Task \<Rightarrow> bool" where
  "live_task t \<longleftrightarrow> IsDeleted t = ''N''"

definition ListTasks :: "task_db \<Rightarrow> Task list" where
  "ListTasks s = filter live_task (map snd (tasks s))"

definition GetTask :: "string \<Rightarrow> task_db \<Rightarrow> task_error + Task" where
  "GetTask taskID s =
     (case map_of (tasks s) taskID of
        Some t \<Rightarrow> if live_task t then Inr t else Inl ErrNotFound
      | None \<Rightarrow> Inl ErrNotFound)"

text \<open>The defaults \<open>Create\<close> fills into the caller's task.\<close>

definition create_defaults :: "(string \<Rightarrow> string) \<Rightarrow> millis \<Rightarrow> Task \<Rightarrow> Task" where
  "create_defaults md5 now t =
     t\<lparr>TaskID := (if TaskID t = [] then GenerateTaskID md5 (NullStr (Title t)) now else TaskID t),
       CompletedTime := (case CompletedTime t of None \<Rightarrow> Some now | c \<Rightarrow> c),
       LastModified := (case LastModified t of None \<Rightarrow> Some now | l \<Rightarrow> l),
       IsDeleted := (if IsDeleted t = [] then ''N'' else IsDeleted t),
       IsReminderOn := (if IsReminderOn t = [] then ''N'' else IsReminderOn t),
       Status := (case Status t of None \<Rightarrow> Some ''needsAction'' | st \<Rightarrow> st)\<rparr>"

definition CreateTask ::
  "(string \<Rightarrow> string) \<Rightarrow> millis \<Rightarrow> Task \<Rightarrow> task_db \<Rightarrow> task_error + (Task \<times> task_db)" where
  "CreateTask md5 now t s =
     (let t' = create_defaults md5 now t
      in if map_of (tasks s) (TaskID t') \<noteq> None then Inl ErrConstraint
         else Inr (t', s\<lparr>tasks := tasks s @ [(TaskID t', scanned (t'\<lparr>CreatedAt := now, UpdatedAt := now\<rparr>))]\<rparr>))"

text \<open>
  The \<open>UPDATE\<close> statement: every column but the key, the creation time and \<open>is_deleted\<close>. It
  matches soft-deleted rows too. A \<open>NULL\<close> status or creation-time column violates its
  \<open>NOT NULL\<close> constraint.
\<close>

definition write_columns :: "Task \<Rightarrow> Task \<Rightarrow> Task" where
  "write_columns t r =
     r\<lparr>Title := Title t, Detail := Detail t, Status := Status t, Importance := Importance t,
       DueTime := DueTime t, CompletedTime := CompletedTime t, LastModified := LastModified t,
       Recurrence := Recurrence t, IsReminderOn := IsReminderOn t, Links := Links t,
       ICalBlob := ICalBlob t, UpdatedAt := UpdatedAt t, CompletedAt := CompletedAt t,
       ForestNoteNotebookID := ForestNoteNotebookID t, ForestNotePageID := ForestNotePageID t,
       ForestNoteNotebookName := ForestNoteNotebookName t, ForestNoteSource := ForestNoteSource t\<rparr>"

definition UpdateTask :: "millis \<Rightarrow> Task \<Rightarrow> task_db \<Rightarrow> task_error + (Task \<times> task_db)" where
  "UpdateTask now t s =
     (let t' = t\<lparr>LastModified := Some now, UpdatedAt := now\<rparr>
      in case map_of (tasks s) (TaskID t) of
           None \<Rightarrow> Inl ErrNotFound
         | Some r \<Rightarrow>
             if Status t' = None \<or> CompletedTime t' = None then Inl ErrConstraint
             else Inr (t', s\<lparr>tasks := upsert (TaskID t) (write_columns t' r) (tasks s)\<rparr>))"

definition soft_deleted :: "millis \<Rightarrow> Task \<Rightarrow> Task" where
  "soft_deleted now r = r\<lparr>IsDeleted := ''Y'', LastModified := Some now, UpdatedAt := now\<rparr>"

definition DeleteTask :: "millis \<Rightarrow> string \<Rightarrow> task_db \<Rightarrow> task_error + task_db" where
  "DeleteTask now taskID s =
     (case map_of (tasks s) taskID of
        None \<Rightarrow> Inl ErrNotFound
      | Some r \<Rightarrow> Inr (s\<lparr>tasks := upsert taskID (soft_deleted now r) (tasks s)\<rparr>))"

definition completed_live :: "Task \<Rightarrow> bool" where
  "completed_live t \<longleftrightarrow> IsDeleted t = ''N'' \<and> Status t = Some ''completed''"

definition DeleteCompleted :: "millis \<Rightarrow> task_db \<Rightarrow> nat \<times> task_db" where
  "DeleteCompleted now s =
     (length (filter (\<lambda>(_, t). completed_live t) (tasks s)),
      s\<lparr>tasks := map (\<lambda>(k, t). (k, if completed_live t then soft_deleted now t else t)) (tasks s)\<rparr>)"

definition syncFloorAdapterID :: string where
  "syncFloorAdapterID = ''caldav-sync-floor''"

definition SyncFloor :: "task_db \<Rightarrow> int" where
  "SyncFloor s =
     (case map_of (sync_state s) syncFloorAdapterID of
        Some (Some token, _) \<Rightarrow> (case ParseInt token of Some ms \<Rightarrow> ms | None \<Rightarrow> 0)
      | _ \<Rightarrow> 0)"

definition raiseSyncFloor :: "millis \<Rightarrow> int \<Rightarrow> task_db \<Rightarrow> task_db" where
  "raiseSyncFloor now cutoffMs s =
     (if cutoffMs \<le> SyncFloor s then s
      else s\<lparr>sync_state := upsert syncFloorAdapterID (Some (FormatInt cutoffMs), now) (sync_state s)\<rparr>)"

definition purgeable :: "int \<Rightarrow> Task \<Rightarrow> bool" where
  "purgeable cutoffMs t \<longleftrightarrow> IsDeleted t = ''Y'' \<and> UpdatedAt t < cutoffMs"

definition HardDeleteOlderThan :: "millis \<Rightarrow> int \<Rightarrow> task_db \<Rightarrow> nat \<times> nat \<times> task_db" where
  "HardDeleteOlderThan now cutoffMs s =
     (let skipped = length (filter (\<lambda>(_, t). IsDeleted t = ''Y'' \<and> cutoffMs \<le> UpdatedAt t) (tasks s));
          purged = length (filter (\<lambda>(_, t). purgeable cutoffMs t) (tasks s));
          s' = s\<lparr>tasks := filter (\<lambda>(_, t). \<not> purgeable cutoffMs t) (tasks s)\<rparr>
      in (purged, skipped, if purged > 0 then raiseSyncFloor now cutoffMs s' else s'))"

definition IsEmpty :: "task_db \<Rightarrow> bool" where
  "IsEmpty s \<longleftrightarrow> tasks s = []"

definition newest_or_zero :: "int list \<Rightarrow> int" where
  "newest_or_zero xs = (case xs of [] \<Rightarrow> 0 | x # ys \<Rightarrow> fold max ys x)"

definition MaxUpdatedAt :: "task_db \<Rightarrow> int" where
  "MaxUpdatedAt s = newest_or_zero (map UpdatedAt (ListTasks s))"

definition MaxUpdatedAtAll :: "task_db \<Rightarrow> int" where
  "MaxUpdatedAtAll s = newest_or_zero (map UpdatedAt (ListIncludingDeleted s))"

definition ListChangedSince :: "int \<Rightarrow> task_db \<Rightarrow> Task list" where
  "ListChangedSince sinceMs s =
     sort_key UpdatedAt (filter (\<lambda>t. sinceMs \<le> UpdatedAt t) (ListIncludingDeleted s))"

section \<open>Well-formed stores\<close>

text \<open>Unique keys, each row filed under its own id, the deletion flag a real flag, and the
  \<open>NOT NULL\<close> columns filled.\<close>

definition row_ok :: "string \<times> Task \<Rightarrow> bool" where
  "row_ok = (\<lambda>(k, t). TaskID t = k \<and> (IsDeleted t = ''N'' \<or> IsDeleted t = ''Y'') \<and>
     Status t \<noteq> None \<and> CompletedTime t \<noteq> None)"

definition db_inv :: "task_db \<Rightarrow> bool" where
  "db_inv s \<longleftrightarrow> unique_keys (tasks s) \<and> (\<forall>r \<in> set (tasks s). row_ok r)"

lemma db_inv_empty: "db_inv \<lparr>tasks = [], sync_state = st\<rparr>"
  by (simp add: db_inv_def)

lemma db_inv_row: "db_inv s \<Longrightarrow> map_of (tasks s) k = Some t \<Longrightarrow> row_ok (k, t)"
  by (auto simp: db_inv_def dest: map_of_SomeD)

lemma db_inv_put:
  assumes "db_inv s" and "row_ok (k, t)"
  shows "db_inv (s\<lparr>tasks := upsert k t (tasks s)\<rparr>)"
  using assms by (auto simp: db_inv_def in_set_upsert split: if_splits)

lemma db_inv_append:
  assumes "db_inv s" and "row_ok (k, t)" and "map_of (tasks s) k = None"
  shows "db_inv (s\<lparr>tasks := tasks s @ [(k, t)]\<rparr>)"
  using assms by (auto simp: db_inv_def map_of_eq_None_iff)

lemma db_inv_state [simp]: "db_inv (s\<lparr>sync_state := st\<rparr>) = db_inv s"
  by (simp add: db_inv_def)

lemma raiseSyncFloor_frame [simp]:
  "tasks (raiseSyncFloor now c s) = tasks s" "db_inv (raiseSyncFloor now c s) = db_inv s"
  by (simp_all add: raiseSyncFloor_def)

lemma fst_comp_snd_map [simp]: "fst \<circ> (\<lambda>(k, t). (k, f t)) = fst"
  by auto

lemma unique_keys_filter: "unique_keys xs \<Longrightarrow> unique_keys (filter P xs)"
  by (metis distinct_map_filter)

lemma map_of_map_snd: "map_of (map (\<lambda>(k, t). (k, f t)) xs) k = map_option f (map_of xs k)"
  by (induction xs) auto

lemma map_of_filter:
  "unique_keys xs \<Longrightarrow>
     map_of (filter (\<lambda>(_, t). P t) xs) k = (case map_of xs k of Some t \<Rightarrow> if P t then Some t else None | None \<Rightarrow> None)"
proof (induction xs)
  case (Cons x xs)
  obtain k' t where x: "x = (k', t)" by (cases x)
  show ?case
  proof (cases "k = k'")
    case True
    then have "map_of xs k = None" using Cons.prems x by (simp add: map_of_eq_None_iff)
    with True Cons x show ?thesis by simp
  next
    case False
    with Cons x show ?thesis by simp
  qed
qed simp

lemma DeleteCompleted_map:
  "map_of (tasks (snd (DeleteCompleted now s))) k =
     map_option (\<lambda>t. if completed_live t then soft_deleted now t else t) (map_of (tasks s) k)"
  by (simp add: DeleteCompleted_def map_of_map_snd)

lemma HardDelete_tasks:
  "tasks (snd (snd (HardDeleteOlderThan now c s))) = filter (\<lambda>(_, t). \<not> purgeable c t) (tasks s)"
  by (simp add: HardDeleteOlderThan_def Let_def)

section \<open>The store as a state machine\<close>

text \<open>One operation that changes the store, at clock reading \<open>now\<close>. A created task carries one of
  the two deletion flags, or none; updates and deletes may name any task.\<close>

inductive task_step :: "(string \<Rightarrow> string) \<Rightarrow> millis \<Rightarrow> task_db \<Rightarrow> task_db \<Rightarrow> bool" for md5 where
  create: "IsDeleted t \<in> {[], ''N'', ''Y''} \<Longrightarrow> CreateTask md5 now t s = Inr (t', s') \<Longrightarrow> task_step md5 now s s'"
| update: "UpdateTask now t s = Inr (t', s') \<Longrightarrow> task_step md5 now s s'"
| delete: "DeleteTask now taskID s = Inr s' \<Longrightarrow> task_step md5 now s s'"
| delete_completed: "DeleteCompleted now s = (n, s') \<Longrightarrow> task_step md5 now s s'"
| purge: "int64 cutoff \<Longrightarrow> HardDeleteOlderThan now cutoff s = (n, m, s') \<Longrightarrow> task_step md5 now s s'"

text \<open>Any number of operations, none of them at a clock reading below \<open>lo\<close>.\<close>

inductive task_run :: "(string \<Rightarrow> string) \<Rightarrow> millis \<Rightarrow> task_db \<Rightarrow> task_db \<Rightarrow> bool" for md5 lo s where
  start: "task_run md5 lo s s"
| step: "task_run md5 lo s t \<Longrightarrow> lo \<le> now \<Longrightarrow> task_step md5 now t u \<Longrightarrow> task_run md5 lo s u"

lemma create_defaults_ok:
  "IsDeleted t \<in> {[], ''N'', ''Y''} \<Longrightarrow>
     row_ok (TaskID (create_defaults md5 now t),
       scanned ((create_defaults md5 now t)\<lparr>CreatedAt := now, UpdatedAt := now\<rparr>))"
  by (auto simp: row_ok_def create_defaults_def scanned_def split: option.splits)

lemma soft_deleted_ok: "row_ok (k, t) \<Longrightarrow> row_ok (k, soft_deleted now t)"
  by (simp add: row_ok_def soft_deleted_def)

lemma write_columns_ok:
  "row_ok (k, r) \<Longrightarrow> Status t \<noteq> None \<Longrightarrow> CompletedTime t \<noteq> None \<Longrightarrow> row_ok (k, write_columns t r)"
  by (simp add: row_ok_def write_columns_def)

lemma task_step_inv: "task_step md5 now s s' \<Longrightarrow> db_inv s \<Longrightarrow> db_inv s'"
proof (induction rule: task_step.induct)
  case (create t now s t' s')
  then show ?case
    using create_defaults_ok [OF create(1), of md5 now]
    by (auto simp: CreateTask_def Let_def db_inv_append split: if_splits)
next
  case (update now t s t' s')
  then show ?case
    by (auto simp: UpdateTask_def Let_def split: option.splits if_splits
        intro!: db_inv_put write_columns_ok dest: db_inv_row)
next
  case (delete now taskID s s')
  then show ?case
    by (auto simp: DeleteTask_def split: option.splits intro!: db_inv_put soft_deleted_ok dest: db_inv_row)
next
  case (delete_completed now s n s')
  have "row_ok (k, t) \<Longrightarrow> row_ok (k, if completed_live t then soft_deleted now t else t)" for k t
    by (simp add: soft_deleted_ok)
  then show ?case using delete_completed by (auto simp: DeleteCompleted_def db_inv_def)
next
  case (purge cutoff now s n m s')
  then have "tasks s' = filter (\<lambda>(_, t). \<not> purgeable cutoff t) (tasks s)"
    using HardDelete_tasks [of now cutoff s] by simp
  then show ?case using purge by (auto simp: db_inv_def unique_keys_filter)
qed

lemma task_run_inv: "task_run md5 lo s s' \<Longrightarrow> db_inv s \<Longrightarrow> db_inv s'"
  by (induction rule: task_run.induct) (auto intro: task_step_inv)

section \<open>What a change token misses\<close>

lemma SyncFloor_raise: "int64 c \<Longrightarrow> SyncFloor (raiseSyncFloor now c s) = max c (SyncFloor s)"
  by (auto simp: raiseSyncFloor_def SyncFloor_def ParseInt_FormatInt)

lemma SyncFloor_tasks [simp]: "SyncFloor (s\<lparr>tasks := t\<rparr>) = SyncFloor s"
  by (simp add: SyncFloor_def)

lemma HardDelete_floor:
  assumes "int64 c"
  shows "SyncFloor (snd (snd (HardDeleteOlderThan now c s))) =
    (if \<exists>(_, t) \<in> set (tasks s). purgeable c t then max c (SyncFloor s) else SyncFloor s)"
  using SyncFloor_raise [OF assms]
  by (auto simp: HardDeleteOlderThan_def Let_def filter_empty_conv)

text \<open>The relation one operation establishes between the rows before and after it: a row that is
  new or different carries a stamp of at least \<open>lo\<close>; a row that is gone was a tombstone, and
  its stamp is below the new floor.\<close>

definition changes_from :: "millis \<Rightarrow> task_db \<Rightarrow> task_db \<Rightarrow> bool" where
  "changes_from lo s s' \<longleftrightarrow>
     SyncFloor s \<le> SyncFloor s' \<and>
     (\<forall>k t. map_of (tasks s') k = Some t \<longrightarrow> map_of (tasks s) k = Some t \<or> lo \<le> UpdatedAt t) \<and>
     (\<forall>k t. map_of (tasks s) k = Some t \<longrightarrow> map_of (tasks s') k = None \<longrightarrow>
        IsDeleted t = ''Y'' \<and> UpdatedAt t < SyncFloor s')"

lemma changes_from_put:
  assumes "lo \<le> UpdatedAt t"
  shows "changes_from lo s (s\<lparr>tasks := upsert k t (tasks s)\<rparr>)"
  using assms by (auto simp: changes_from_def)

lemma task_step_changes:
  "task_step md5 now s s' \<Longrightarrow> db_inv s \<Longrightarrow> lo \<le> now \<Longrightarrow> changes_from lo s s'"
proof (induction rule: task_step.induct)
  case (create t now s t' s')
  then have "s' = s\<lparr>tasks := tasks s @ [(TaskID t', scanned (t'\<lparr>CreatedAt := now, UpdatedAt := now\<rparr>))]\<rparr>"
    by (auto simp: CreateTask_def Let_def split: if_splits)
  then show ?case
    using create(4) by (auto simp: changes_from_def scanned_def map_add_Some_iff split: if_splits)
next
  case (update now t s t' s')
  then show ?case
    by (auto simp: UpdateTask_def Let_def write_columns_def split: option.splits if_splits
        intro!: changes_from_put)
next
  case (delete now taskID s s')
  then show ?case
    by (auto simp: DeleteTask_def soft_deleted_def split: option.splits intro!: changes_from_put)
next
  case (delete_completed now s n s')
  then have "map_of (tasks s') k =
      map_option (\<lambda>t. if completed_live t then soft_deleted now t else t) (map_of (tasks s) k)" for k
    using DeleteCompleted_map [of now s k] by simp
  moreover have "SyncFloor s' = SyncFloor s" using delete_completed by (auto simp: DeleteCompleted_def)
  ultimately show ?case using delete_completed by (auto simp: changes_from_def soft_deleted_def)
next
  case (purge cutoff now s n m s')
  then have s': "s' = snd (snd (HardDeleteOlderThan now cutoff s))" by simp
  have u: "unique_keys (tasks s)" using purge by (simp add: db_inv_def)
  have m: "map_of (tasks s') k = (case map_of (tasks s) k of
      Some t \<Rightarrow> if purgeable cutoff t then None else Some t | None \<Rightarrow> None)" for k
    using map_of_filter [OF u, of "\<lambda>t. \<not> purgeable cutoff t" k] by (simp add: s' HardDelete_tasks split: option.split)
  have f: "purgeable cutoff t \<Longrightarrow> map_of (tasks s) k = Some t \<Longrightarrow> cutoff \<le> SyncFloor s'" for k t
    using HardDelete_floor [OF purge(1), of now s] by (auto simp: s' dest!: map_of_SomeD)
  have "SyncFloor s \<le> SyncFloor s'" using HardDelete_floor [OF purge(1), of now s] by (auto simp: s')
  moreover have "IsDeleted t = ''Y'' \<and> UpdatedAt t < SyncFloor s'"
    if "map_of (tasks s) k = Some t" "map_of (tasks s') k = None" for k t
  proof -
    have "purgeable cutoff t" using that m [of k] by (simp split: if_splits)
    with f [OF this that(1)] show ?thesis by (simp add: purgeable_def)
  qed
  ultimately show ?case by (auto simp: changes_from_def m split: option.splits if_splits)
qed

lemma task_run_changes:
  assumes "task_run md5 lo s s'" and "db_inv s"
  shows "SyncFloor s \<le> SyncFloor s'"
    and "map_of (tasks s') k = Some t \<Longrightarrow> map_of (tasks s) k = Some t \<or> lo \<le> UpdatedAt t"
    and "map_of (tasks s) k = Some t \<Longrightarrow> map_of (tasks s') k = None \<Longrightarrow>
      IsDeleted t = ''Y'' \<or> lo < SyncFloor s'"
proof -
  have "SyncFloor s \<le> SyncFloor s' \<and>
    (\<forall>k t. map_of (tasks s') k = Some t \<longrightarrow> map_of (tasks s) k = Some t \<or> lo \<le> UpdatedAt t) \<and>
    (\<forall>k t. map_of (tasks s) k = Some t \<longrightarrow> map_of (tasks s') k = None \<longrightarrow>
      IsDeleted t = ''Y'' \<or> lo < SyncFloor s')"
    using assms(1)
  proof (induction rule: task_run.induct)
    case start
    then show ?case by simp
  next
    case (step m now u)
    have c: "changes_from lo m u"
      using task_step_changes [OF step(3) task_run_inv [OF step(1) assms(2)] step(2)] .
    have "IsDeleted t = ''Y'' \<or> lo < SyncFloor u"
      if "map_of (tasks s) k = Some t" "map_of (tasks u) k = None" for k t
    proof (cases "map_of (tasks m) k")
      case None
      then show ?thesis using that(1) step.IH c by (fastforce simp: changes_from_def)
    next
      case (Some r)
      then have "IsDeleted r = ''Y''" "UpdatedAt r < SyncFloor u"
        using that(2) c by (auto simp: changes_from_def)
      then show ?thesis using Some step.IH that(1) by fastforce
    qed
    then show ?case using step.IH c by (fastforce simp: changes_from_def)
  qed
  then show "SyncFloor s \<le> SyncFloor s'"
    and "map_of (tasks s') k = Some t \<Longrightarrow> map_of (tasks s) k = Some t \<or> lo \<le> UpdatedAt t"
    and "map_of (tasks s) k = Some t \<Longrightarrow> map_of (tasks s') k = None \<Longrightarrow>
      IsDeleted t = ''Y'' \<or> lo < SyncFloor s'" by blast+
qed

section \<open>Hard deletes\<close>

lemma length_split: "length (filter P xs) = length (filter (\<lambda>x. P x \<and> Q x) xs) + length (filter (\<lambda>x. P x \<and> \<not> Q x) xs)"
  by (induction xs) auto

lemma length_filter_not: "length (filter (\<lambda>x. \<not> P x) xs) + length (filter P xs) = length xs"
  by (induction xs) auto

text \<open>
  A hard delete removes exactly the soft-deleted rows stamped before the cutoff and no live
  task; the two counts it reports add up to the soft-deleted rows it found, the first is the
  number of rows gone; the token floor rises to the cutoff when a row was removed, never falls,
  and a purge with nothing to do changes nothing at all.
\<close>

theorem HardDeleteOlderThan_exact:
  assumes "HardDeleteOlderThan now cutoff s = (purged, skipped, s')" and "int64 cutoff"
  shows "tasks s' = filter (\<lambda>(_, t). \<not> (IsDeleted t = ''Y'' \<and> UpdatedAt t < cutoff)) (tasks s) \<and>
    purged + skipped = length (filter (\<lambda>t. IsDeleted t = ''Y'') (ListIncludingDeleted s)) \<and>
    purged + length (tasks s') = length (tasks s) \<and>
    ListTasks s' = ListTasks s \<and>
    SyncFloor s' = (if purged = 0 then SyncFloor s else max cutoff (SyncFloor s)) \<and>
    (purged = 0 \<longrightarrow> s' = s)"
proof -
  let ?P = "\<lambda>(_ :: string, t). purgeable cutoff t"
  have p: "purged = length (filter ?P (tasks s))"
    and k: "skipped = length (filter (\<lambda>(_, t). IsDeleted t = ''Y'' \<and> cutoff \<le> UpdatedAt t) (tasks s))"
    using assms(1) by (auto simp: HardDeleteOlderThan_def Let_def split: if_splits)
  have s': "s' = snd (snd (HardDeleteOlderThan now cutoff s))" using assms(1) by simp
  have t: "tasks s' = filter (\<lambda>x. \<not> ?P x) (tasks s)" by (simp add: s' HardDelete_tasks case_prod_unfold)
  have "length (filter (\<lambda>t. IsDeleted t = ''Y'') (map snd xs)) =
      length (filter ?P xs) + length (filter (\<lambda>(_, t). IsDeleted t = ''Y'' \<and> cutoff \<le> UpdatedAt t) xs)"
    for xs :: "(string \<times> Task) list"
    by (induction xs) (auto simp: purgeable_def)
  then have c: "purged + skipped = length (filter (\<lambda>t. IsDeleted t = ''Y'') (ListIncludingDeleted s))"
    by (simp add: p k ListIncludingDeleted_def)
  have "filter live_task (map snd (filter (\<lambda>x. \<not> ?P x) xs)) = filter live_task (map snd xs)"
    for xs :: "(string \<times> Task) list"
    by (induction xs) (auto simp: purgeable_def live_task_def)
  then have l: "ListTasks s' = ListTasks s" by (simp add: ListTasks_def t)
  have f: "SyncFloor s' = (if purged = 0 then SyncFloor s else max cutoff (SyncFloor s))"
    using HardDelete_floor [OF assms(2), of now s] by (auto simp: s' p filter_empty_conv)
  have "purged = 0 \<Longrightarrow> filter (\<lambda>x. \<not> ?P x) (tasks s) = tasks s"
    by (auto simp: p filter_empty_conv filter_id_conv)
  then have "purged = 0 \<Longrightarrow> s' = s"
    using assms(1) by (auto simp: HardDeleteOlderThan_def Let_def case_prod_unfold split: if_splits)
  moreover have "purged + length (tasks s') = length (tasks s)"
    using length_filter_not [of ?P "tasks s"] by (simp add: p t)
  ultimately show ?thesis using t c l f by (simp add: purgeable_def case_prod_unfold)
qed

section \<open>An example store\<close>

definition ex_new :: "string \<Rightarrow> Task" where
  "ex_new k = \<lparr>TaskID = k, TaskListID = None, UserID = 0, Title = Some k, Detail = None, LastModified = None,
     Recurrence = None, IsReminderOn = [], Status = None, Importance = None, DueTime = 0, CompletedTime = None,
     Links = None, IsDeleted = [], ICalBlob = None, CreatedAt = 0, UpdatedAt = 0, CompletedAt = None,
     ForestNoteNotebookID = None, ForestNotePageID = None, ForestNoteNotebookName = None, ForestNoteSource = None\<rparr>"

lemma ex_new_flag: "IsDeleted (ex_new k) = []"
  by (simp add: ex_new_def)

fun ok_or :: "'a \<Rightarrow> task_error + 'a \<Rightarrow> 'a" where
  "ok_or d (Inl e) = d"
| "ok_or d (Inr x) = x"

definition ex_create :: "millis \<Rightarrow> string \<Rightarrow> task_db \<Rightarrow> task_db" where
  "ex_create now k s = snd (ok_or (ex_new k, s) (CreateTask id now (ex_new k) s))"

definition ex_db :: task_db where
  "ex_db = ex_create 5 ''a'' \<lparr>tasks = [], sync_state = []\<rparr>"

definition ex_db1 :: task_db where
  "ex_db1 = ex_create 10 ''b'' ex_db"

definition ex_db2 :: task_db where
  "ex_db2 = ok_or ex_db1 (DeleteTask 11 ''a'' ex_db1)"

lemma ex_db_inv: "db_inv ex_db"
proof -
  have "CreateTask id 5 (ex_new ''a'') \<lparr>tasks = [], sync_state = []\<rparr> =
      Inr (create_defaults id 5 (ex_new ''a''), ex_db)" by code_simp
  then have "task_step id 5 \<lparr>tasks = [], sync_state = []\<rparr> ex_db"
    by (rule task_step.create [rotated]) (simp add: ex_new_def)
  then show ?thesis using task_step_inv db_inv_empty by blast
qed

lemma ex_db_run: "task_run id 5 ex_db ex_db2"
proof -
  have "CreateTask id 10 (ex_new ''b'') ex_db = Inr (create_defaults id 10 (ex_new ''b''), ex_db1)" by code_simp
  then have 1: "task_step id 10 ex_db ex_db1" by (rule task_step.create [rotated]) (simp add: ex_new_def)
  have "DeleteTask 11 ''a'' ex_db1 = Inr ex_db2" by code_simp
  then have 2: "task_step id 11 ex_db1 ex_db2" by (rule task_step.delete)
  show ?thesis by (rule task_run.step [OF task_run.step [OF task_run.start _ 1] _ 2]) simp_all
qed

theorem HardDeleteOlderThan_exact_witness:
  "\<exists>s'. HardDeleteOlderThan 50 20 ex_db2 = (1, 0, s') \<and> ListTasks s' = ListTasks ex_db2 \<and> SyncFloor s' = 20"
proof -
  obtain n m s' where h: "HardDeleteOlderThan 50 20 ex_db2 = (n, m, s')" by (rule prod_cases3)
  moreover have "fst (HardDeleteOlderThan 50 20 ex_db2) = 1" "fst (snd (HardDeleteOlderThan 50 20 ex_db2)) = 0"
    "SyncFloor ex_db2 = 0" by code_simp+
  ultimately show ?thesis using HardDeleteOlderThan_exact [OF h] by (simp add: int64_def)
qed

end
