(* ===== verification/Caldav_Sync.thy ===== *)
theory Caldav_Sync
  imports Task_Db "HOL-Library.Multiset"
begin

text \<open>
  The CalDAV \<open>sync-collection\<close> report over the task store
  (\<open>internal/caldav/synccollection.go\<close>): token parsing, the floor check, the \<open>DAV:limit\<close>
  truncation and the list of changed and removed resources, kept as values rather than as XML
  text. The handler makes three separate queries (floor, rows, collection token), so
  \<open>serveSyncCollection\<close> takes the store state each of them sees. The iCalendar rendering of a
  task is a parameter.
\<close>

section \<open>Tokens\<close>

definition syncTokenPrefix :: string where
  "syncTokenPrefix = ''urn:ultrabridge:sync:''"

definition parseSyncToken :: "string \<Rightarrow> int \<times> bool \<times> bool" where
  "parseSyncToken tok =
     (if tok = [] then (0, True, True)
      else if \<not> HasPrefix tok syncTokenPrefix then (0, False, False)
      else case ParseInt (TrimPrefix tok syncTokenPrefix) of
             None \<Rightarrow> (0, False, False)
           | Some ms \<Rightarrow> if ms < 0 then (0, False, False) else (ms, False, True))"

definition formatSyncToken :: "int \<Rightarrow> string" where
  "formatSyncToken ms = syncTokenPrefix @ FormatInt ms"

section \<open>Requests\<close>

record syncCollectionReq =
  token :: string
  nresults :: int
  wantETag :: bool
  wantCalData :: bool

text \<open>The decoded XML document: root name, sync token, limit and the requested property names,
  each with its namespace. \<open>None\<close> is a body that does not decode.\<close>

record xml_doc =
  rootSpace :: string
  rootLocal :: string
  docSyncToken :: string
  docNResults :: int
  docProps :: "(string \<times> string) list"

definition parseSyncCollection :: "xml_doc option \<Rightarrow> syncCollectionReq option" where
  "parseSyncCollection body =
     (case body of
        None \<Rightarrow> None
      | Some doc \<Rightarrow>
          if rootSpace doc \<noteq> ''DAV:'' \<or> rootLocal doc \<noteq> ''sync-collection'' then None
          else let etag = (''DAV:'', ''getetag'') \<in> set (docProps doc);
                   cal = (''urn:ietf:params:xml:ns:caldav'', ''calendar-data'') \<in> set (docProps doc)
               in Some \<lparr>token = TrimSpace (docSyncToken doc), nresults = docNResults doc,
                        wantETag = (if \<not> etag \<and> \<not> cal then True else etag), wantCalData = cal\<rparr>)"

section \<open>The report\<close>

datatype dav_response =
    Removed (href: string)
  | Changed (href: string) (etag: "string option") (calendar_data: "string option")

datatype sync_reply = InvalidSyncToken | MultiStatus "dav_response list" string

definition ObjectPath :: "string \<Rightarrow> string \<Rightarrow> string" where
  "ObjectPath pfx taskID = pfx @ ''/user/calendars/tasks/'' @ taskID @ ''.ics''"

definition task_response ::
  "(string \<Rightarrow> string) \<Rightarrow> (Task \<Rightarrow> string) \<Rightarrow> string \<Rightarrow> syncCollectionReq \<Rightarrow> Task \<Rightarrow> dav_response" where
  "task_response md5 render pfx req t =
     (if IsDeleted t = ''Y'' then Removed (ObjectPath pfx (TaskID t))
      else Changed (ObjectPath pfx (TaskID t))
             (if wantETag req then Some ([CHR 0x22] @ ComputeETag md5 t @ [CHR 0x22]) else None)
             (if wantCalData req then Some (render t) else None))"

definition writeSyncCollectionResponse ::
  "(string \<Rightarrow> string) \<Rightarrow> (Task \<Rightarrow> string) \<Rightarrow> string \<Rightarrow> syncCollectionReq \<Rightarrow> Task list \<Rightarrow> int \<Rightarrow> sync_reply" where
  "writeSyncCollectionResponse md5 render pfx req rows newToken =
     MultiStatus (map (task_response md5 render pfx req) rows) (formatSyncToken newToken)"

text \<open>The \<open>DAV:limit\<close> cut: the rows kept, and the token that resumes at the boundary.\<close>

definition limit_rows :: "int \<Rightarrow> Task list \<Rightarrow> int \<Rightarrow> Task list \<times> int" where
  "limit_rows n rows newToken =
     (if n > 0 \<and> int (length rows) > n then
        let cut = take (nat n) rows; l = last cut
        in (cut, if UpdatedAt l > 0 then UpdatedAt l else newToken)
      else (rows, newToken))"

definition serveSyncCollection ::
  "(string \<Rightarrow> string) \<Rightarrow> (Task \<Rightarrow> string) \<Rightarrow> string \<Rightarrow> syncCollectionReq \<Rightarrow>
   task_db \<Rightarrow> task_db \<Rightarrow> task_db \<Rightarrow> sync_reply" where
  "serveSyncCollection md5 render pfx req sFloor sRows sToken =
     (case parseSyncToken (token req) of
        (since, initial, ok) \<Rightarrow>
          if \<not> ok then InvalidSyncToken
          else if \<not> initial \<and> SyncFloor sFloor > 0 \<and> since < SyncFloor sFloor then InvalidSyncToken
          else let rows = (if initial then ListTasks sRows else ListChangedSince since sRows)
               in case limit_rows (nresults req) rows (MaxUpdatedAtAll sToken) of
                    (rows', newToken) \<Rightarrow> writeSyncCollectionResponse md5 render pfx req rows' newToken)"

text \<open>The interception of \<open>REPORT\<close>: everything that is not a sync-collection body goes to the
  library.\<close>

datatype stub_reply = PassThrough | BadRequest | Report sync_reply

definition SyncCollectionStub ::
  "(string \<Rightarrow> string) \<Rightarrow> (Task \<Rightarrow> string) \<Rightarrow> string \<Rightarrow> string \<Rightarrow> xml_doc option option \<Rightarrow> task_db option \<Rightarrow> stub_reply" where
  "SyncCollectionStub md5 render pfx method body store =
     (case store of
        None \<Rightarrow> PassThrough
      | Some s \<Rightarrow>
          if method \<noteq> ''REPORT'' then PassThrough
          else case body of
                 None \<Rightarrow> BadRequest
               | Some doc \<Rightarrow>
                   (case parseSyncCollection doc of
                      None \<Rightarrow> PassThrough
                    | Some req \<Rightarrow> Report (serveSyncCollection md5 render pfx req s s s)))"

section \<open>The client\<close>

text \<open>A client's copy of the collection: what it last heard of every resource it still holds.\<close>

type_synonym dav_copy = "string \<rightharpoonup> string option \<times> string option"

fun receive :: "dav_response \<Rightarrow> dav_copy \<Rightarrow> dav_copy" where
  "receive (Removed h) c = c(h := None)"
| "receive (Changed h e d) c = c(h \<mapsto> (e, d))"

text \<open>The copy that agrees with the store: the live tasks, each with its current tag and data.\<close>

definition collection_copy ::
  "(string \<Rightarrow> string) \<Rightarrow> (Task \<Rightarrow> string) \<Rightarrow> string \<Rightarrow> syncCollectionReq \<Rightarrow> task_db \<Rightarrow> dav_copy" where
  "collection_copy md5 render pfx req s = fold receive (map (task_response md5 render pfx req) (ListTasks s)) Map.empty"

text \<open>What a client holds of a task once it has been told about it.\<close>

definition shown ::
  "(string \<Rightarrow> string) \<Rightarrow> (Task \<Rightarrow> string) \<Rightarrow> syncCollectionReq \<Rightarrow> Task \<Rightarrow> (string option \<times> string option) option" where
  "shown md5 render req t =
     (if IsDeleted t = ''Y'' then None
      else Some (if wantETag req then Some ([CHR 0x22] @ ComputeETag md5 t @ [CHR 0x22]) else None,
                 if wantCalData req then Some (render t) else None))"

lemma ObjectPath_inj [simp]: "ObjectPath pfx a = ObjectPath pfx b \<longleftrightarrow> a = b"
  by (simp add: ObjectPath_def)

lemma receive_response:
  "receive (task_response md5 render pfx req t) c = c(ObjectPath pfx (TaskID t) := shown md5 render req t)"
  by (simp add: task_response_def shown_def)

abbreviation by_id :: "Task list \<Rightarrow> string \<rightharpoonup> Task" where
  "by_id rows \<equiv> map_of (map (\<lambda>t. (TaskID t, t)) rows)"

lemma receive_rows:
  assumes "distinct (map TaskID rows)"
  shows "fold receive (map (task_response md5 render pfx req) rows) c (ObjectPath pfx k) =
    (case by_id rows k of None \<Rightarrow> c (ObjectPath pfx k) | Some t \<Rightarrow> shown md5 render req t)"
  using assms
proof (induction rows arbitrary: c)
  case (Cons t rows)
  have "by_id rows (TaskID t) = None" using Cons.prems by (force simp: map_of_eq_None_iff)
  with Cons show ?case by (auto simp: receive_response split: option.split)
qed simp

lemma receive_other:
  assumes "\<And>k. h \<noteq> ObjectPath pfx k"
  shows "fold receive (map (task_response md5 render pfx req) rows) c h = c h"
  using assms by (induction rows arbitrary: c) (simp_all add: receive_response)

lemma by_id_filter:
  assumes "db_inv s"
  shows "by_id (filter P (ListIncludingDeleted s)) k =
    (case map_of (tasks s) k of Some t \<Rightarrow> if P t then Some t else None | None \<Rightarrow> None)"
proof -
  have "map (\<lambda>t. (TaskID t, t)) (filter P (map snd xs)) = filter (\<lambda>(_, t). P t) xs"
    if "\<forall>r \<in> set xs. row_ok r" for xs
    using that by (induction xs) (auto simp: row_ok_def)
  then show ?thesis
    using assms map_of_filter [of "tasks s" P k] by (simp add: db_inv_def ListIncludingDeleted_def)
qed

lemma ids_distinct:
  assumes "db_inv s"
  shows "distinct (map TaskID (filter P (ListIncludingDeleted s)))"
proof -
  have "map TaskID (map snd (tasks s)) = map fst (tasks s)"
    using assms by (auto simp: db_inv_def row_ok_def)
  then have "distinct (map TaskID (map snd (tasks s)))" using assms unfolding db_inv_def by metis
  then show ?thesis unfolding ListIncludingDeleted_def by (rule distinct_map_filter)
qed

lemma ids_sort: "distinct (map TaskID (sort_key f rows)) = distinct (map TaskID rows)"
  by (rule mset_eq_imp_distinct_iff) simp

lemma by_id_sort: 
  assumes "distinct (map TaskID rows)"
  shows "by_id (sort_key f rows) = by_id rows"
proof -
  have "distinct (map fst (map (\<lambda>t. (TaskID t, t)) xs)) = distinct (map TaskID xs)" for xs
    by (simp add: comp_def)
  then have "distinct (map fst (map (\<lambda>t. (TaskID t, t)) (sort_key f rows)))"
    and "distinct (map fst (map (\<lambda>t. (TaskID t, t)) rows))"
    using assms ids_sort [of f rows] by blast+
  then show ?thesis by (subst map_of_inject_set) simp_all
qed

lemma collection_copy_at:
  assumes "db_inv s"
  shows "collection_copy md5 render pfx req s (ObjectPath pfx k) = Option.bind (map_of (tasks s) k) (shown md5 render req)"
proof -
  have "map_of (tasks s) k = Some t \<Longrightarrow> IsDeleted t = ''N'' \<or> IsDeleted t = ''Y''" for t
    using db_inv_row [OF assms] by (simp add: row_ok_def)
  then show ?thesis
    using ids_distinct [OF assms, of live_task] by_id_filter [OF assms, of live_task k]
    by (auto simp: collection_copy_def ListTasks_def receive_rows live_task_def shown_def
        ListIncludingDeleted_def [symmetric] split: option.splits)
qed

lemma collection_copy_other: "(\<And>k. h \<noteq> ObjectPath pfx k) \<Longrightarrow> collection_copy md5 render pfx req s h = None"
  by (simp add: collection_copy_def receive_other)

lemma parse_format_token: "0 \<le> ms \<Longrightarrow> int64 ms \<Longrightarrow> parseSyncToken (formatSyncToken ms) = (ms, False, True)"
  by (simp add: parseSyncToken_def formatSyncToken_def HasPrefix_def TrimPrefix_def ParseInt_FormatInt)
    (simp add: syncTokenPrefix_def)


section \<open>Completeness of the report\<close>

lemma ListChangedSince_by_id:
  assumes "db_inv s"
  shows "distinct (map TaskID (ListChangedSince since s))"
    and "by_id (ListChangedSince since s) k =
      (case map_of (tasks s) k of Some t \<Rightarrow> if since \<le> UpdatedAt t then Some t else None | None \<Rightarrow> None)"
proof -
  note d = ids_distinct [OF assms, of "\<lambda>t. since \<le> UpdatedAt t"]
  show "distinct (map TaskID (ListChangedSince since s))"
    unfolding ListChangedSince_def ids_sort by (rule d)
  show "by_id (ListChangedSince since s) k =
      (case map_of (tasks s) k of Some t \<Rightarrow> if since \<le> UpdatedAt t then Some t else None | None \<Rightarrow> None)"
    unfolding ListChangedSince_def by_id_sort [OF d] by (rule by_id_filter [OF assms])
qed

lemma changed_rows_complete:
  assumes "db_inv s" and "task_run md5' lo s s'" and "SyncFloor s' \<le> lo"
  shows "fold receive (map (task_response md5 render pfx req) (ListChangedSince lo s'))
      (collection_copy md5 render pfx req s) = collection_copy md5 render pfx req s'" (is "?l = ?r")
proof (rule ext)
  fix h
  have i: "db_inv s'" using assms(2,1) by (rule task_run_inv)
  note run = task_run_changes [OF assms(2,1)]
  show "?l h = ?r h"
  proof (cases "\<exists>k. h = ObjectPath pfx k")
    case True
    then obtain k where h: "h = ObjectPath pfx k" ..
    show ?thesis
    proof (cases "map_of (tasks s') k")
      case None
      have "IsDeleted t = ''Y''" if "map_of (tasks s) k = Some t" for t
        using run(3) [OF that None] assms(3) by simp
      then show ?thesis
        using None by (cases "map_of (tasks s) k")
          (simp_all add: h receive_rows ListChangedSince_by_id [OF i] collection_copy_at assms(1) i shown_def)
    next
      case (Some t)
      then show ?thesis
        using run(2) [OF Some]
        by (auto simp: h receive_rows ListChangedSince_by_id [OF i] collection_copy_at assms(1) i)
    qed
  qed (simp add: receive_other collection_copy_other)
qed

text \<open>
  C11. A client that holds the collection as of some moment and a token not above any later clock
  reading is told everything it has missed: after any number of creates, updates, deletes and
  purges, an unlimited report either refuses the token, exactly when a purge has raised the floor
  above it, or lists changes that turn the client's copy into the current collection, removals
  included, and hands back the collection's current token.
\<close>

theorem sync_collection_complete:
  assumes "db_inv s" and "task_run md5' lo s s'" and "0 \<le> lo" and "int64 lo"
    and "token req = formatSyncToken lo" and "nresults req \<le> 0"
  shows "if lo < SyncFloor s' then serveSyncCollection md5 render pfx req s' s' s' = InvalidSyncToken
    else \<exists>rs. serveSyncCollection md5 render pfx req s' s' s' = MultiStatus rs (formatSyncToken (MaxUpdatedAtAll s')) \<and>
      fold receive rs (collection_copy md5 render pfx req s) = collection_copy md5 render pfx req s'"
proof (cases "lo < SyncFloor s'")
  case True
  then show ?thesis using assms(3-6) by (simp add: serveSyncCollection_def parse_format_token)
next
  case False
  then have "fold receive (map (task_response md5 render pfx req) (ListChangedSince lo s'))
      (collection_copy md5 render pfx req s) = collection_copy md5 render pfx req s'"
    using changed_rows_complete [OF assms(1,2)] by simp
  moreover have "serveSyncCollection md5 render pfx req s' s' s' =
      MultiStatus (map (task_response md5 render pfx req) (ListChangedSince lo s')) (formatSyncToken (MaxUpdatedAtAll s'))"
    using False assms(3-6)
    by (simp add: serveSyncCollection_def parse_format_token limit_rows_def writeSyncCollectionResponse_def)
  ultimately show ?thesis using False by simp
qed

text \<open>A client with no token starts from the live set.\<close>

lemma initial_sync:
  assumes "token req = []" and "nresults req \<le> 0"
  shows "serveSyncCollection md5 render pfx req s s s =
      MultiStatus (map (task_response md5 render pfx req) (ListTasks s)) (formatSyncToken (MaxUpdatedAtAll s))"
    and "fold receive (map (task_response md5 render pfx req) (ListTasks s)) Map.empty = collection_copy md5 render pfx req s"
  using assms
  by (simp_all add: serveSyncCollection_def parseSyncToken_def limit_rows_def writeSyncCollectionResponse_def
      collection_copy_def)

section \<open>An example client\<close>

definition ex_req :: "int \<Rightarrow> int \<Rightarrow> syncCollectionReq" where
  "ex_req lo n = \<lparr>token = formatSyncToken lo, nresults = n, wantETag = True, wantCalData = False\<rparr>"

theorem sync_collection_complete_witness:
  "\<exists>rs. serveSyncCollection id (\<lambda>_. []) [] (ex_req 5 0) ex_db2 ex_db2 ex_db2 = MultiStatus rs (formatSyncToken 11) \<and>
     fold receive rs (collection_copy id (\<lambda>_. []) [] (ex_req 5 0) ex_db) =
       collection_copy id (\<lambda>_. []) [] (ex_req 5 0) ex_db2"
proof -
  have "SyncFloor ex_db2 = 0" "MaxUpdatedAtAll ex_db2 = 11" by code_simp+
  then show ?thesis
    using sync_collection_complete [OF ex_db_inv ex_db_run, of "ex_req 5 0" id "\<lambda>_. []" "[]"]
    by (simp add: ex_req_def int64_def)
qed

section \<open>Limits of the report\<close>

lemma ListChangedSince_mem:
  "t \<in> set (ListChangedSince since s) \<longleftrightarrow> t \<in> set (ListIncludingDeleted s) \<and> since \<le> UpdatedAt t"
  by (auto simp: ListChangedSince_def)

lemma ListChangedSince_sorted: "sorted (map UpdatedAt (ListChangedSince since s))"
  by (simp add: ListChangedSince_def)

lemma ListChangedSince_raise:
  assumes "lo \<le> u" and "\<forall>t \<in> set (ListChangedSince lo s). u \<le> UpdatedAt t"
  shows "ListChangedSince u s = ListChangedSince lo s"
proof -
  have "filter (\<lambda>t. u \<le> UpdatedAt t) (ListIncludingDeleted s) = filter (\<lambda>t. lo \<le> UpdatedAt t) (ListIncludingDeleted s)"
    using assms by (auto simp: ListChangedSince_mem intro!: filter_cong)
  then show ?thesis by (simp add: ListChangedSince_def)
qed

text \<open>
  A limited report does not always make progress: when the first \<open>n\<close> changed rows carry the
  same stamp and more rows follow, the token handed back answers with the same \<open>n\<close> rows and the
  same token again, so the rows behind them are never reached. A limit of one is always stuck.
\<close>

theorem limited_report_stuck:
  assumes "nresults req = int n" and "0 < n" and "n < length (ListChangedSince lo s)"
    and "\<forall>t \<in> set (take n (ListChangedSince lo s)). UpdatedAt t = u"
    and "token req = formatSyncToken lo" and "0 \<le> lo" and "int64 lo" and "SyncFloor s \<le> lo"
    and "0 < u" and "int64 u"
  shows "\<exists>rs. length rs = n \<and>
    serveSyncCollection md5 render pfx req s s s = MultiStatus rs (formatSyncToken u) \<and>
    serveSyncCollection md5 render pfx (req\<lparr>token := formatSyncToken u\<rparr>) s s s = MultiStatus rs (formatSyncToken u)"
proof -
  let ?L = "ListChangedSince lo s"
  obtain x xs where L: "?L = x # xs" using assms(3) by (cases ?L) auto
  have x: "UpdatedAt x = u" using assms(2,4) L by (cases n) auto
  have min: "\<forall>t \<in> set ?L. u \<le> UpdatedAt t" using ListChangedSince_sorted [of lo s] x by (auto simp: L)
  have lo: "lo \<le> u" using ListChangedSince_mem [of x lo s] x by (simp add: L)
  have eq: "ListChangedSince u s = ?L" by (rule ListChangedSince_raise [OF lo min])
  have "take n ?L \<noteq> []" using assms(2) L by (cases n) auto
  then have "last (take n ?L) \<in> set (take n ?L)" by (rule last_in_set)
  then have lst: "UpdatedAt (last (take n ?L)) = u" using assms(4) by blast
  have cut: "limit_rows (int n) ?L m = (take n ?L, u)" for m
    using assms(2,3,9) lst by (simp add: limit_rows_def Let_def)
  have "serveSyncCollection md5 render pfx req s s s =
      MultiStatus (map (task_response md5 render pfx req) (take n ?L)) (formatSyncToken u)"
    using assms(1,5-8) cut
    by (simp add: serveSyncCollection_def parse_format_token writeSyncCollectionResponse_def)
  moreover have "serveSyncCollection md5 render pfx (req\<lparr>token := formatSyncToken u\<rparr>) s s s =
      MultiStatus (map (task_response md5 render pfx req) (take n ?L)) (formatSyncToken u)"
    using assms(1,8-10) lo cut
    by (simp add: serveSyncCollection_def parse_format_token writeSyncCollectionResponse_def eq
        task_response_def cong: map_cong)
  ultimately show ?thesis using assms(3) by auto
qed

theorem limited_report_stuck_witness:
  "\<exists>rs. length rs = 1 \<and>
    serveSyncCollection id (\<lambda>_. []) [] (ex_req 0 1) ex_db1 ex_db1 ex_db1 = MultiStatus rs (formatSyncToken 5) \<and>
    serveSyncCollection id (\<lambda>_. []) [] ((ex_req 0 1)\<lparr>token := formatSyncToken 5\<rparr>) ex_db1 ex_db1 ex_db1 =
      MultiStatus rs (formatSyncToken 5)"
proof (rule limited_report_stuck [where lo = 0])
  show "1 < length (ListChangedSince 0 ex_db1)" by code_simp
  show "\<forall>t \<in> set (take 1 (ListChangedSince 0 ex_db1)). UpdatedAt t = 5" by code_simp
  show "SyncFloor ex_db1 \<le> 0" by code_simp
qed (simp_all add: ex_req_def int64_def)

section \<open>Writes between the two queries\<close>

lemma newest_or_zero_snoc: "newest_or_zero (xs @ [x]) = (if xs = [] then x else max x (newest_or_zero xs))"
  by (cases xs) (simp_all add: newest_or_zero_def)

lemma CreateTask_rows:
  assumes "CreateTask md5 now t s = Inr (t', s')"
  shows "tasks s' = tasks s @ [(TaskID t', scanned (t'\<lparr>CreatedAt := now, UpdatedAt := now\<rparr>))]"
    and "sync_state s' = sync_state s" and "map_of (tasks s) (TaskID t') = None"
    and "t' = create_defaults md5 now t"
  using assms by (auto simp: CreateTask_def Let_def split: if_splits)

lemma CreateTask_max:
  assumes "CreateTask md5 now t s = Inr (t', s')" and "MaxUpdatedAtAll s \<le> now"
  shows "MaxUpdatedAtAll s' = now"
  using assms(2)
  by (simp add: MaxUpdatedAtAll_def ListIncludingDeleted_def CreateTask_rows(1) [OF assms(1)]
      newest_or_zero_snoc scanned_def)

lemma href_response: "href (task_response md5 render pfx req t) = ObjectPath pfx (TaskID t)"
  by (simp add: task_response_def)

lemma report_hrefs:
  assumes "token req = formatSyncToken lo" and "0 \<le> lo" and "int64 lo" and "SyncFloor s \<le> lo"
    and "nresults req \<le> 0"
  shows "serveSyncCollection md5 render pfx req s s' s'' =
      MultiStatus (map (task_response md5 render pfx req) (ListChangedSince lo s')) (formatSyncToken (MaxUpdatedAtAll s''))"
  using assms
  by (simp add: serveSyncCollection_def parse_format_token limit_rows_def writeSyncCollectionResponse_def)

lemma not_listed:
  assumes "db_inv s" and "\<And>t. map_of (tasks s) k = Some t \<Longrightarrow> UpdatedAt t < lo"
  shows "\<forall>r \<in> set (map (task_response md5 render pfx req) (ListChangedSince lo s)). href r \<noteq> ObjectPath pfx k"
proof -
  have "TaskID t \<noteq> k" if t: "t \<in> set (ListIncludingDeleted s)" "lo \<le> UpdatedAt t" for t
  proof
    assume "TaskID t = k"
    with t(1) assms(1) have "map_of (tasks s) k = Some t"
      by (force simp: ListIncludingDeleted_def db_inv_def row_ok_def)
    with assms(2) t(2) show False by force
  qed
  then show ?thesis by (auto simp: ListChangedSince_mem href_response)
qed

text \<open>
  The rows and the token of a report come from two queries. A task created between them is
  lost when another one follows it before the token is read: neither this report nor the next
  one, made with the token this report hands back, lists it, although it is live in the store.
\<close>

theorem report_race_loses_task:
  assumes "db_inv s" and "token req = formatSyncToken lo" and "0 \<le> lo" and "int64 lo" and "SyncFloor s \<le> lo"
    and "nresults req \<le> 0" and "MaxUpdatedAtAll s \<le> t1" and "lo \<le> t1" and "t1 < t2" and "int64 t2"
    and "IsDeleted tb = []" and "CreateTask md5 t1 tb s = Inr (b, s1)"
    and "IsDeleted tc = []" and "CreateTask md5 t2 tc s1 = Inr (c, s2)"
  shows "(\<exists>rs. serveSyncCollection md5 render pfx req s s s2 = MultiStatus rs (formatSyncToken t2) \<and>
      (\<forall>r \<in> set rs. href r \<noteq> ObjectPath pfx (TaskID b))) \<and>
    (\<exists>rs. serveSyncCollection md5 render pfx (req\<lparr>token := formatSyncToken t2\<rparr>) s2 s2 s2 =
        MultiStatus rs (formatSyncToken t2) \<and> (\<forall>r \<in> set rs. href r \<noteq> ObjectPath pfx (TaskID b))) \<and>
    (\<exists>t. GetTask (TaskID b) s2 = Inr t)"
proof -
  note r1 = CreateTask_rows [OF assms(12)] and r2 = CreateTask_rows [OF assms(14)]
  have m2: "MaxUpdatedAtAll s2 = t2"
    using CreateTask_max [OF assms(14)] CreateTask_max [OF assms(12,7)] assms(9) by simp
  have "task_step md5 t1 s s1" "task_step md5 t2 s1 s2"
    using assms(11-14) by (auto intro: task_step.create)
  then have i: "db_inv s2" using assms(1) by (blast intro: task_step_inv)
  have fl: "SyncFloor s2 \<le> t2" using assms(5,8,9) r1(2) r2(2) by (simp add: SyncFloor_def)
  have s2: "map_of (tasks s2) (TaskID b) = Some (scanned (b\<lparr>CreatedAt := t1, UpdatedAt := t1\<rparr>))"
    using r1(1,3) r2(1,3) by (simp add: map_add_def)
  have 1: "\<forall>r \<in> set (map (task_response md5 render pfx req) (ListChangedSince lo s)). href r \<noteq> ObjectPath pfx (TaskID b)"
    by (rule not_listed [OF assms(1)]) (simp add: r1(3))
  have 2: "\<forall>r \<in> set (map (task_response md5 render pfx (req\<lparr>token := formatSyncToken t2\<rparr>)) (ListChangedSince t2 s2)).
      href r \<noteq> ObjectPath pfx (TaskID b)"
    by (rule not_listed [OF i]) (use s2 assms(9) in \<open>simp add: scanned_def\<close>)
  have 3: "\<exists>t. GetTask (TaskID b) s2 = Inr t"
    using s2 assms(11) r1(4) by (simp add: GetTask_def live_task_def scanned_def create_defaults_def)
  have "serveSyncCollection md5 render pfx req s s s2 =
      MultiStatus (map (task_response md5 render pfx req) (ListChangedSince lo s)) (formatSyncToken t2)"
    using report_hrefs [OF assms(2-6)] m2 by simp
  moreover have "serveSyncCollection md5 render pfx (req\<lparr>token := formatSyncToken t2\<rparr>) s2 s2 s2 =
      MultiStatus (map (task_response md5 render pfx (req\<lparr>token := formatSyncToken t2\<rparr>)) (ListChangedSince t2 s2))
        (formatSyncToken t2)"
    using report_hrefs [of "req\<lparr>token := formatSyncToken t2\<rparr>" t2 s2 md5 render pfx s2 s2] assms(3,6,8-10) fl m2 by simp
  ultimately show ?thesis using 1 2 3 by blast
qed

theorem report_race_loses_task_witness:
  "(\<exists>rs. serveSyncCollection id (\<lambda>_. []) [] (ex_req 5 0) ex_db ex_db (ex_create 11 ''c'' ex_db1) =
        MultiStatus rs (formatSyncToken 11) \<and> (\<forall>r \<in> set rs. href r \<noteq> ObjectPath [] ''b'')) \<and>
    (\<exists>t. GetTask ''b'' (ex_create 11 ''c'' ex_db1) = Inr t)"
proof -
  have "CreateTask id 10 (ex_new ''b'') ex_db = Inr (create_defaults id 10 (ex_new ''b''), ex_db1)"
    and "CreateTask id 11 (ex_new ''c'') ex_db1 = Inr (create_defaults id 11 (ex_new ''c''), ex_create 11 ''c'' ex_db1)"
    and "TaskID (create_defaults id 10 (ex_new ''b'')) = ''b''" and "SyncFloor ex_db \<le> 5" and "MaxUpdatedAtAll ex_db \<le> 10"
    by code_simp+
  then show ?thesis
    using report_race_loses_task [OF ex_db_inv, of "ex_req 5 0" 5 10 11 "ex_new ''b''" id
        "create_defaults id 10 (ex_new ''b'')" ex_db1 "ex_new ''c''" "create_defaults id 11 (ex_new ''c'')" "ex_create 11 ''c'' ex_db1" "\<lambda>_. []" "[]"]
    by (simp add: ex_req_def int64_def ex_new_flag)
qed

text \<open>After a purge that leaves only rows older than its cutoff, the token of the collection is
  below the floor: the token a client has just been given is refused until the next write.\<close>

lemma fresh_token_refused:
  assumes "int64 cutoff" and "HardDeleteOlderThan now cutoff s = (purged, skipped, s')" and "purged \<noteq> 0"
    and "MaxUpdatedAtAll s' < cutoff" and "0 < cutoff" and "0 \<le> MaxUpdatedAtAll s'"
  shows "serveSyncCollection md5 render pfx \<lparr>token = formatSyncToken (MaxUpdatedAtAll s'), nresults = n,
      wantETag = e, wantCalData = d\<rparr> s' s' s' = InvalidSyncToken"
proof -
  have "SyncFloor s' = max cutoff (SyncFloor s)"
    using HardDelete_floor [OF assms(1), of now s] assms(2,3)
    by (auto simp: HardDeleteOlderThan_def Let_def filter_empty_conv split: if_splits)
  moreover have "int64 (MaxUpdatedAtAll s')" using assms(1,4,6) by (simp add: int64_def)
  ultimately show ?thesis
    using assms(4,5,6) by (simp add: serveSyncCollection_def parse_format_token less_max_iff_disj)
qed

end
