(* ===== verification/Vtodo.thy ===== *)
theory Vtodo
  imports Task_Db Base64
begin

text \<open>
  Tasks as iCalendar components (\<open>internal/caldav/vtodo.go\<close>): the conversion of a stored task
  to a VTODO, from its columns or by overlaying them on the client's stored calendar, the reading
  of a VTODO back into a task, and the patching of the metadata that only lives in the stored
  calendar. The go-ical package is not part of the repository: its value codecs, its type
  inference and its calendar encoder and decoder are the fields of the parameter \<open>ical\<close>; a
  property list is the map from a name to the properties of that name.
\<close>

section \<open>Calendars\<close>

record Prop =
  PName :: string
  Params :: "(string \<times> string) list"
  Value :: string

datatype Component = Component (CName: string) (Props: "(string \<times> Prop list) list") (Children: "Component list")

record ical =
  Text :: "Prop \<Rightarrow> string option"
  TextList :: "Prop \<Rightarrow> string list option"
  DateTime :: "Prop \<Rightarrow> millis option"
  ValueType :: "Prop \<Rightarrow> string"
  textProp :: "string \<Rightarrow> string \<Rightarrow> Prop"
  dateTimeProp :: "string \<Rightarrow> millis \<Rightarrow> Prop"
  dateProp :: "string \<Rightarrow> millis \<Rightarrow> Prop"
  Decode :: "string \<Rightarrow> Component option"
  Encode :: "Component \<Rightarrow> string option"

definition NewProp :: "string \<Rightarrow> Prop" where
  "NewProp name = \<lparr>PName = name, Params = [], Value = []\<rparr>"

definition props_values :: "string \<Rightarrow> Component \<Rightarrow> Prop list" where
  "props_values name c = (case map_of (Props c) name of None \<Rightarrow> [] | Some ps \<Rightarrow> ps)"

definition props_get :: "string \<Rightarrow> Component \<Rightarrow> Prop option" where
  "props_get name c = (case props_values name c of [] \<Rightarrow> None | p # _ \<Rightarrow> Some p)"

fun with_props :: "((string \<times> Prop list) list \<Rightarrow> (string \<times> Prop list) list) \<Rightarrow> Component \<Rightarrow> Component" where
  "with_props f (Component n ps cs) = Component n (f ps) cs"

definition props_set :: "string \<Rightarrow> Prop \<Rightarrow> Component \<Rightarrow> Component" where
  "props_set name p = with_props (AList.update name [p])"

definition props_del :: "string \<Rightarrow> Component \<Rightarrow> Component" where
  "props_del name = with_props (AList.delete name)"

definition set_text :: "ical \<Rightarrow> string \<Rightarrow> string \<Rightarrow> Component \<Rightarrow> Component" where
  "set_text ic name v = props_set name (textProp ic name v)"

definition set_datetime :: "ical \<Rightarrow> string \<Rightarrow> millis \<Rightarrow> Component \<Rightarrow> Component" where
  "set_datetime ic name ms = props_set name (dateTimeProp ic name ms)"

definition set_date :: "ical \<Rightarrow> string \<Rightarrow> millis \<Rightarrow> Component \<Rightarrow> Component" where
  "set_date ic name ms = props_set name (dateProp ic name ms)"

definition FindVTODO :: "Component \<Rightarrow> Component option" where
  "FindVTODO cal = find (\<lambda>c. CName c = ''VTODO'') (Children cal)"

definition HasVEvent :: "Component \<Rightarrow> bool" where
  "HasVEvent cal = list_ex (\<lambda>c. CName c = ''VEVENT'') (Children cal)"

text \<open>\<open>FindVTODO\<close> returns a pointer into the calendar: a change through it changes the first
  VTODO in place.\<close>

fun on_first :: "('a \<Rightarrow> bool) \<Rightarrow> ('a \<Rightarrow> 'a) \<Rightarrow> 'a list \<Rightarrow> 'a list" where
  "on_first P f [] = []"
| "on_first P f (x # xs) = (if P x then f x # xs else x # on_first P f xs)"

fun on_vtodo :: "(Component \<Rightarrow> Component) \<Rightarrow> Component \<Rightarrow> Component" where
  "on_vtodo f (Component n ps cs) = Component n ps (on_first (\<lambda>c. CName c = ''VTODO'') f cs)"

section \<open>Task to VTODO\<close>

definition ValueDate :: string where
  "ValueDate = ''DATE''"

definition setDueOnTodo :: "ical \<Rightarrow> millis \<Rightarrow> string \<Rightarrow> Component \<Rightarrow> Component" where
  "setDueOnTodo ic due dueTimeMode todo =
     (if dueTimeMode = ''date_only'' then set_date ic ''DUE'' due todo
      else if dueTimeMode = ''datetime'' then set_datetime ic ''DUE'' due todo
      else case props_get ''DUE'' todo of
             Some p \<Rightarrow> if ValueType ic p = ValueDate then set_date ic ''DUE'' due todo
                       else set_datetime ic ''DUE'' due todo
           | None \<Rightarrow> set_datetime ic ''DUE'' due todo)"

definition filled :: "string option \<Rightarrow> bool" where
  "filled ns \<longleftrightarrow> (case ns of Some s \<Rightarrow> s \<noteq> [] | None \<Rightarrow> False)"

definition completed_prop :: "ical \<Rightarrow> Task \<Rightarrow> Component \<Rightarrow> Component" where
  "completed_prop ic t todo =
     (case CompletionTime t of (Some ct, True) \<Rightarrow> set_datetime ic ''COMPLETED'' ct todo | _ \<Rightarrow> todo)"

definition upon :: "bool \<Rightarrow> ('a \<Rightarrow> 'a) \<Rightarrow> 'a \<Rightarrow> 'a" where
  "upon b f x = (if b then f x else x)"

definition vtodo_of_fields :: "ical \<Rightarrow> millis \<Rightarrow> Task \<Rightarrow> string \<Rightarrow> Component" where
  "vtodo_of_fields ic now t dueTimeMode =
     (let c0 = set_text ic ''UID'' (TaskID t) (Component ''VTODO'' [] []);
          c1 = set_datetime ic ''DTSTAMP'' (if UpdatedAt t > 0 then UpdatedAt t else now) c0;
          c2 = upon (filled (Title t)) (set_text ic ''SUMMARY'' (NullStr (Title t))) c1;
          c3 = set_text ic ''STATUS'' (CalDAVStatus (NullStr (Status t))) c2;
          c4 = upon (DueTime t \<noteq> 0) (setDueOnTodo ic (DueTime t) dueTimeMode) c3;
          c5 = upon (UpdatedAt t > 0) (set_datetime ic ''LAST-MODIFIED'' (UpdatedAt t)) c4;
          c6 = completed_prop ic t c5;
          c7 = upon (filled (Detail t)) (set_text ic ''DESCRIPTION'' (NullStr (Detail t))) c6;
          c8 = upon (filled (Importance t)) (set_text ic ''PRIORITY'' (NullStr (Importance t))) c7
      in upon (filled (Links t)) (set_text ic ''URL'' (NullStr (Links t))) c8)"

definition empty_calendar :: "ical \<Rightarrow> Component list \<Rightarrow> Component" where
  "empty_calendar ic children =
     set_text ic ''VERSION'' ''2.0'' (set_text ic ''PRODID'' ''-//UltraBridge//CalDAV//EN'' (Component ''VCALENDAR'' [] children))"

definition taskToVTODOFromFields :: "ical \<Rightarrow> millis \<Rightarrow> Task \<Rightarrow> string \<Rightarrow> Component" where
  "taskToVTODOFromFields ic now t dueTimeMode = empty_calendar ic [vtodo_of_fields ic now t dueTimeMode]"

definition overlay :: "ical \<Rightarrow> Task \<Rightarrow> string \<Rightarrow> Component \<Rightarrow> Component" where
  "overlay ic t dueTimeMode todo =
     (let c0 = set_text ic ''UID'' (TaskID t) todo;
          c1 = upon (filled (Title t)) (set_text ic ''SUMMARY'' (NullStr (Title t))) c0;
          c2 = set_text ic ''STATUS'' (CalDAVStatus (NullStr (Status t))) c1;
          c3 = (if DueTime t \<noteq> 0 then setDueOnTodo ic (DueTime t) dueTimeMode c2 else props_del ''DUE'' c2);
          c4 = upon (UpdatedAt t > 0)
                 (\<lambda>c. set_datetime ic ''LAST-MODIFIED'' (UpdatedAt t) (set_datetime ic ''DTSTAMP'' (UpdatedAt t) c)) c3;
          c5 = (if snd (CompletionTime t) then completed_prop ic t c4 else props_del ''COMPLETED'' c4);
          c6 = upon (filled (Detail t)) (set_text ic ''DESCRIPTION'' (NullStr (Detail t))) c5
      in upon (filled (Importance t)) (set_text ic ''PRIORITY'' (NullStr (Importance t))) c6)"

definition taskToVTODOFromBlob :: "ical \<Rightarrow> millis \<Rightarrow> Task \<Rightarrow> string \<Rightarrow> Component" where
  "taskToVTODOFromBlob ic now t dueTimeMode =
     (case Decode ic (NullStr (ICalBlob t)) of
        None \<Rightarrow> taskToVTODOFromFields ic now t dueTimeMode
      | Some cal \<Rightarrow>
          (case FindVTODO cal of
             None \<Rightarrow> taskToVTODOFromFields ic now t dueTimeMode
           | Some _ \<Rightarrow> on_vtodo (overlay ic t dueTimeMode) cal))"

definition TaskToVTODO :: "ical \<Rightarrow> millis \<Rightarrow> Task \<Rightarrow> string \<Rightarrow> Component" where
  "TaskToVTODO ic now t dueTimeMode =
     (if filled (ICalBlob t) then taskToVTODOFromBlob ic now t dueTimeMode
      else taskToVTODOFromFields ic now t dueTimeMode)"

section \<open>VTODO to task\<close>

definition zero_task :: Task where
  "zero_task = \<lparr>TaskID = [], TaskListID = None, UserID = 0, Title = None, Detail = None, LastModified = None,
     Recurrence = None, IsReminderOn = [], Status = None, Importance = None, DueTime = 0, CompletedTime = None,
     Links = None, IsDeleted = [], ICalBlob = None, CreatedAt = 0, UpdatedAt = 0, CompletedAt = None,
     ForestNoteNotebookID = None, ForestNotePageID = None, ForestNoteNotebookName = None, ForestNoteSource = None\<rparr>"

text \<open>\<open>p.Text()\<close>, or the raw value when it fails.\<close>

definition text_or_value :: "ical \<Rightarrow> Prop \<Rightarrow> string" where
  "text_or_value ic p = (case Text ic p of Some v \<Rightarrow> v | None \<Rightarrow> Value p)"

definition nullStringFromProp :: "ical \<Rightarrow> Component \<Rightarrow> string \<Rightarrow> string option" where
  "nullStringFromProp ic c name =
     (case props_get name c of
        None \<Rightarrow> None
      | Some p \<Rightarrow>
          (case Text ic p of
             Some (x # v) \<Rightarrow> Some (x # v)
           | _ \<Rightarrow> if Value p = [] then None else Some (Value p)))"

definition extractForestNoteMetadata :: "ical \<Rightarrow> Component \<Rightarrow> Task \<Rightarrow> Task" where
  "extractForestNoteMetadata ic todo t =
     t\<lparr>ForestNoteNotebookID := nullStringFromProp ic todo ''X-FORESTNOTE-NOTEBOOK-ID'',
       ForestNotePageID := nullStringFromProp ic todo ''X-FORESTNOTE-PAGE-ID'',
       ForestNoteNotebookName := nullStringFromProp ic todo ''X-FORESTNOTE-NOTEBOOK-NAME'',
       ForestNoteSource := nullStringFromProp ic todo ''X-FORESTNOTE-SOURCE''\<rparr>"

definition day_ms :: int where
  "day_ms = 86400000"

text \<open>The instant a date value denotes; Go's zero time is \<open>None\<close>.\<close>

definition time_of :: "millis \<Rightarrow> millis option" where
  "time_of d = (if d = - 62135596800000 then None else Some d)"

definition due_time :: "ical \<Rightarrow> string \<Rightarrow> Component \<Rightarrow> millis" where
  "due_time ic dueTimeMode todo =
     (case Option.bind (props_get ''DUE'' todo) (DateTime ic) of
        None \<Rightarrow> 0
      | Some d \<Rightarrow> TimeToMs (time_of (if dueTimeMode = ''date_only'' then d div day_ms * day_ms else d)))"

definition completed_at :: "ical \<Rightarrow> millis \<Rightarrow> Component \<Rightarrow> millis" where
  "completed_at ic now todo =
     (case Option.bind (props_get ''COMPLETED'' todo) (DateTime ic) of None \<Rightarrow> now | Some ct \<Rightarrow> TimeToMs (time_of ct))"

definition vtodo_fields :: "ical \<Rightarrow> millis \<Rightarrow> string \<Rightarrow> Component \<Rightarrow> Task" where
  "vtodo_fields ic now dueTimeMode todo =
     (let t0 = zero_task\<lparr>
            TaskID := (case props_get ''UID'' todo of Some p \<Rightarrow> Value p | None \<Rightarrow> []),
            Title := Option.bind (props_get ''SUMMARY'' todo) (\<lambda>p. SqlStr (text_or_value ic p)),
            Status := Option.bind (props_get ''STATUS'' todo) (\<lambda>p. SqlStr (FromCalDAVStatus (Value p))),
            DueTime := due_time ic dueTimeMode todo,
            Detail := Option.bind (props_get ''DESCRIPTION'' todo) (\<lambda>p. SqlStr (text_or_value ic p)),
            Importance := Option.bind (props_get ''PRIORITY'' todo) (\<lambda>p. SqlStr (Value p)),
            Links := Option.bind (props_get ''URL'' todo) (\<lambda>p. SqlStr (text_or_value ic p))\<rparr>;
          t1 = (if NullStr (Status t0) = ''completed'' then t0\<lparr>CompletedAt := Some (completed_at ic now todo)\<rparr> else t0)
      in extractForestNoteMetadata ic todo t1)"

definition VTODOToTask :: "ical \<Rightarrow> millis \<Rightarrow> Component \<Rightarrow> string \<Rightarrow> Task option" where
  "VTODOToTask ic now cal dueTimeMode =
     map_option (\<lambda>todo. (vtodo_fields ic now dueTimeMode todo)\<lparr>ICalBlob := Encode ic cal\<rparr>) (FindVTODO cal)"

section \<open>Property access\<close>

named_theorems prop_simps \<open>reading a property after a write\<close>

lemma props_values_set [prop_simps]:
  "props_values n (props_set m p c) = (if n = m then [p] else props_values n c)"
  by (cases c) (simp add: props_values_def props_set_def update_conv')

lemma props_values_del [prop_simps]:
  "props_values n (props_del m c) = (if n = m then [] else props_values n c)"
  by (cases c) (simp add: props_values_def props_del_def delete_conv')

lemma props_get_set [prop_simps]: "props_get n (props_set m p c) = (if n = m then Some p else props_get n c)"
  by (simp add: props_get_def props_values_set)

lemma props_get_del [prop_simps]: "props_get n (props_del m c) = (if n = m then None else props_get n c)"
  by (simp add: props_get_def props_values_del)

lemma props_get_empty [prop_simps]: "props_get n (Component k [] cs) = None"
  by (simp add: props_get_def props_values_def)

lemma CName_with_props [simp]: "CName (with_props f c) = CName c"
  by (cases c) simp

lemma CName_set [simp]: "CName (props_set n p c) = CName c" "CName (props_del n c) = CName c"
  by (simp_all add: props_set_def props_del_def)

lemmas set_defs = set_text_def set_datetime_def set_date_def

lemma CName_set_ops [simp]:
  "CName (set_text ic n v c) = CName c" "CName (set_datetime ic n d c) = CName c"
  "CName (setDueOnTodo ic d m c) = CName c" "CName (completed_prop ic t c) = CName c"
  by (simp_all add: set_defs setDueOnTodo_def completed_prop_def split: option.split prod.split bool.split)

lemma CName_upon [simp]: "(\<And>c. CName (f c) = CName c) \<Longrightarrow> CName (upon b f c) = CName c"
  by (simp add: upon_def)

lemma CName_overlay [simp]: "CName (overlay ic t m c) = CName c"
  by (simp add: overlay_def Let_def)

lemma CName_vtodo_of_fields [simp]: "CName (vtodo_of_fields ic now t m) = ''VTODO''"
  by (simp add: vtodo_of_fields_def Let_def)

lemma find_on_first:
  assumes "\<And>x. P (f x) = P x"
  shows "find P (on_first P f xs) = map_option f (find P xs)"
  using assms by (induction xs) auto

lemma FindVTODO_on_vtodo:
  assumes "\<And>c. CName (f c) = CName c"
  shows "FindVTODO (on_vtodo f cal) = map_option f (FindVTODO cal)"
  using assms by (cases cal) (simp add: FindVTODO_def find_on_first)

lemma FindVTODO_calendar [simp]: "CName c = ''VTODO'' \<Longrightarrow> FindVTODO (empty_calendar ic [c]) = Some c"
  by (simp add: FindVTODO_def empty_calendar_def set_text_def props_set_def)

section \<open>Round trip\<close>

text \<open>What the conversion relies on in go-ical: reading a text undoes the escaping of writing it,
  a text without special characters is written verbatim, and date-times are written to the
  second, dates to the day, both in UTC, for the years 1 to 9999 that the format can write.\<close>

definition four_digit_year :: "millis \<Rightarrow> bool" where
  "four_digit_year ms \<longleftrightarrow> - 62135596800000 \<le> ms \<and> ms < 253402300800000"

definition plain :: "string \<Rightarrow> bool" where
  "plain v \<longleftrightarrow> list_all (\<lambda>c. c \<notin> set [CHR 0x5C, CHR '','', CHR '';'', CHR 0x0A]) v"

definition ical_laws :: "ical \<Rightarrow> bool" where
  "ical_laws ic \<longleftrightarrow>
     (\<forall>n v. Text ic (textProp ic n v) = Some v) \<and>
     (\<forall>n v. plain v \<longrightarrow> Value (textProp ic n v) = v) \<and>
     (\<forall>n ms. four_digit_year ms \<longrightarrow> DateTime ic (dateTimeProp ic n ms) = Some (ms div 1000 * 1000)) \<and>
     (\<forall>n ms. four_digit_year ms \<longrightarrow> DateTime ic (dateProp ic n ms) = Some (ms div day_ms * day_ms))"

lemma ical_lawsD:
  assumes "ical_laws ic"
  shows "Text ic (textProp ic n v) = Some v"
    and "plain v \<Longrightarrow> Value (textProp ic n v) = v"
    and "four_digit_year ms \<Longrightarrow> DateTime ic (dateTimeProp ic n ms) = Some (ms div 1000 * 1000)"
    and "four_digit_year ms \<Longrightarrow> DateTime ic (dateProp ic n ms) = Some (ms div day_ms * day_ms)"
  using assms by (auto simp: ical_laws_def)

text \<open>The VTODO that is served for a task, and the facts that both of its constructions share.\<close>

definition served :: "ical \<Rightarrow> millis \<Rightarrow> Task \<Rightarrow> string \<Rightarrow> Component" where
  "served ic now t dueTimeMode =
     (if filled (ICalBlob t) then
        (case Option.bind (Decode ic (NullStr (ICalBlob t))) FindVTODO of
           Some todo \<Rightarrow> overlay ic t dueTimeMode todo
         | None \<Rightarrow> vtodo_of_fields ic now t dueTimeMode)
      else vtodo_of_fields ic now t dueTimeMode)"

lemma FindVTODO_served: "FindVTODO (TaskToVTODO ic now t m) = Some (served ic now t m)"
  by (auto simp: TaskToVTODO_def served_def taskToVTODOFromBlob_def taskToVTODOFromFields_def
      FindVTODO_on_vtodo split: option.split)

lemma setDue_get:
  "n \<noteq> ''DUE'' \<Longrightarrow> props_get n (setDueOnTodo ic d m c) = props_get n c"
  "props_get ''DUE'' (setDueOnTodo ic d m c) \<in> {Some (dateProp ic ''DUE'' d), Some (dateTimeProp ic ''DUE'' d)}"
  by (auto simp: setDueOnTodo_def set_defs prop_simps split: option.split)

lemma upon_get:
  "props_get n (upon b f c) = (if b then props_get n (f c) else props_get n c)"
  by (simp add: upon_def)

lemma completed_get:
  "n \<noteq> ''COMPLETED'' \<Longrightarrow> props_get n (completed_prop ic t c) = props_get n c"
  "snd (CompletionTime t) \<Longrightarrow> props_get ''COMPLETED'' (completed_prop ic t c) =
     Some (dateTimeProp ic ''COMPLETED'' (case CompletedAt t of Some x \<Rightarrow> x | None \<Rightarrow> 0))"
  by (auto simp: completed_prop_def set_defs prop_simps CompletionTime_def MsToTime_def
      split: option.splits if_splits prod.splits bool.splits)

lemmas get_simps = prop_simps set_defs upon_get completed_get setDue_get(1)

lemma overlay_get:
  "props_get ''UID'' (overlay ic t m c) = Some (textProp ic ''UID'' (TaskID t))"
  "props_get ''STATUS'' (overlay ic t m c) = Some (textProp ic ''STATUS'' (CalDAVStatus (NullStr (Status t))))"
  "props_get ''SUMMARY'' (overlay ic t m c) =
     (if filled (Title t) then Some (textProp ic ''SUMMARY'' (NullStr (Title t))) else props_get ''SUMMARY'' c)"
  "props_get ''DESCRIPTION'' (overlay ic t m c) =
     (if filled (Detail t) then Some (textProp ic ''DESCRIPTION'' (NullStr (Detail t))) else props_get ''DESCRIPTION'' c)"
  "props_get ''PRIORITY'' (overlay ic t m c) =
     (if filled (Importance t) then Some (textProp ic ''PRIORITY'' (NullStr (Importance t))) else props_get ''PRIORITY'' c)"
  "props_get ''URL'' (overlay ic t m c) = props_get ''URL'' c"
  by (simp_all add: overlay_def Let_def get_simps)

lemma fields_get:
  "props_get ''UID'' (vtodo_of_fields ic now t m) = Some (textProp ic ''UID'' (TaskID t))"
  "props_get ''STATUS'' (vtodo_of_fields ic now t m) = Some (textProp ic ''STATUS'' (CalDAVStatus (NullStr (Status t))))"
  "props_get ''SUMMARY'' (vtodo_of_fields ic now t m) =
     (if filled (Title t) then Some (textProp ic ''SUMMARY'' (NullStr (Title t))) else None)"
  "props_get ''DESCRIPTION'' (vtodo_of_fields ic now t m) =
     (if filled (Detail t) then Some (textProp ic ''DESCRIPTION'' (NullStr (Detail t))) else None)"
  "props_get ''PRIORITY'' (vtodo_of_fields ic now t m) =
     (if filled (Importance t) then Some (textProp ic ''PRIORITY'' (NullStr (Importance t))) else None)"
  "props_get ''URL'' (vtodo_of_fields ic now t m) =
     (if filled (Links t) then Some (textProp ic ''URL'' (NullStr (Links t))) else None)"
  by (simp_all add: vtodo_of_fields_def Let_def get_simps)

lemma due_get:
  "DueTime t \<noteq> 0 \<Longrightarrow> props_get ''DUE'' (overlay ic t m c) \<in> {Some (dateProp ic ''DUE'' (DueTime t)), Some (dateTimeProp ic ''DUE'' (DueTime t))}"
  "DueTime t \<noteq> 0 \<Longrightarrow> props_get ''DUE'' (vtodo_of_fields ic now t m) \<in> {Some (dateProp ic ''DUE'' (DueTime t)), Some (dateTimeProp ic ''DUE'' (DueTime t))}"
  "DueTime t = 0 \<Longrightarrow> props_get ''DUE'' (overlay ic t m c) = None"
  "DueTime t = 0 \<Longrightarrow> props_get ''DUE'' (vtodo_of_fields ic now t m) = None"
proof -
  show "DueTime t \<noteq> 0 \<Longrightarrow> props_get ''DUE'' (overlay ic t m c) \<in> {Some (dateProp ic ''DUE'' (DueTime t)), Some (dateTimeProp ic ''DUE'' (DueTime t))}"
    using setDue_get(2) [of ic "DueTime t" m] by (simp add: overlay_def Let_def get_simps)
  show "DueTime t \<noteq> 0 \<Longrightarrow> props_get ''DUE'' (vtodo_of_fields ic now t m) \<in> {Some (dateProp ic ''DUE'' (DueTime t)), Some (dateTimeProp ic ''DUE'' (DueTime t))}"
    using setDue_get(2) [of ic "DueTime t" m] by (simp add: vtodo_of_fields_def Let_def get_simps)
qed (simp_all add: overlay_def vtodo_of_fields_def Let_def get_simps)

lemma completed_served_get:
  "props_get ''COMPLETED'' (overlay ic t m c) = (if snd (CompletionTime t) then
     Some (dateTimeProp ic ''COMPLETED'' (case CompletedAt t of Some x \<Rightarrow> x | None \<Rightarrow> 0)) else None)"
  "snd (CompletionTime t) \<Longrightarrow> props_get ''COMPLETED'' (vtodo_of_fields ic now t m) =
     Some (dateTimeProp ic ''COMPLETED'' (case CompletedAt t of Some x \<Rightarrow> x | None \<Rightarrow> 0))"
  by (simp_all add: overlay_def vtodo_of_fields_def Let_def get_simps)

text \<open>Both constructions at once.\<close>

lemma served_cases:
  obtains (blob) todo where "served ic now t m = overlay ic t m todo"
    and "Option.bind (Decode ic (NullStr (ICalBlob t))) FindVTODO = Some todo" and "filled (ICalBlob t)"
  | (fields) "served ic now t m = vtodo_of_fields ic now t m"
proof (cases "filled (ICalBlob t)")
  case True
  then show thesis
    using blob fields
    by (cases "Option.bind (Decode ic (NullStr (ICalBlob t))) FindVTODO") (simp_all add: served_def)
qed (use fields in \<open>simp add: served_def\<close>)

lemma served_get:
  shows "props_get ''UID'' (served ic now t m) = Some (textProp ic ''UID'' (TaskID t))"
    and "props_get ''STATUS'' (served ic now t m) = Some (textProp ic ''STATUS'' (CalDAVStatus (NullStr (Status t))))"
    and "filled (Title t) \<Longrightarrow> props_get ''SUMMARY'' (served ic now t m) = Some (textProp ic ''SUMMARY'' (NullStr (Title t)))"
    and "filled (Detail t) \<Longrightarrow> props_get ''DESCRIPTION'' (served ic now t m) = Some (textProp ic ''DESCRIPTION'' (NullStr (Detail t)))"
    and "filled (Importance t) \<Longrightarrow> props_get ''PRIORITY'' (served ic now t m) = Some (textProp ic ''PRIORITY'' (NullStr (Importance t)))"
    and "DueTime t \<noteq> 0 \<Longrightarrow> props_get ''DUE'' (served ic now t m) = Some (dateProp ic ''DUE'' (DueTime t)) \<or>
      props_get ''DUE'' (served ic now t m) = Some (dateTimeProp ic ''DUE'' (DueTime t))"
    and "DueTime t = 0 \<Longrightarrow> props_get ''DUE'' (served ic now t m) = None"
    and "snd (CompletionTime t) \<Longrightarrow> props_get ''COMPLETED'' (served ic now t m) =
      Some (dateTimeProp ic ''COMPLETED'' (case CompletedAt t of Some x \<Rightarrow> x | None \<Rightarrow> 0))"
  using due_get(1) [of t ic m] due_get(3) [of t ic m] due_get(2) [of t ic now m] due_get(4) [of t ic now m]
  by (cases rule: served_cases [of ic now t m]; auto simp: overlay_get fields_get completed_served_get; fail)+

definition native_status :: "string \<Rightarrow> bool" where
  "native_status st \<longleftrightarrow> st \<in> set [''needsAction'', ''inProcess'', ''completed'', ''cancelled'']"

lemma status_roundtrip: "native_status st \<Longrightarrow> FromCalDAVStatus (CalDAVStatus st) = st"
  by (auto simp: native_status_def FromCalDAVStatus_def CalDAVStatus_def)

lemma plain_status: "plain (CalDAVStatus st)"
  by (simp add: CalDAVStatus_def plain_def)

lemma filled_Sql: "filled ns \<Longrightarrow> SqlStr (NullStr ns) = ns" "filled ns \<Longrightarrow> \<exists>v. ns = Some v \<and> v \<noteq> []"
  by (auto simp: filled_def SqlStr_def NullStr_def split: option.splits)

lemma time_nonneg: "0 \<le> d \<Longrightarrow> TimeToMs (time_of d) = d"
  by (simp add: time_of_def TimeToMs_def)

lemma due_round:
  fixes d :: int
  shows "d div day_ms * day_ms div day_ms * day_ms = d div day_ms * day_ms"
    and "d div 1000 * 1000 div day_ms * day_ms = d div day_ms * day_ms"
proof -
  have "d div 1000 * 1000 div day_ms = d div 1000 div 86400" by (simp add: day_ms_def)
  also have "\<dots> = d div day_ms" by (simp add: day_ms_def div_mult2_eq [symmetric] zdiv_zmult2_eq [symmetric])
  finally show "d div 1000 * 1000 div day_ms * day_ms = d div day_ms * day_ms" by simp
qed (simp add: day_ms_def)

lemma due_time_served:
  assumes "ical_laws ic" and "0 < DueTime t" and "four_digit_year (DueTime t)"
  shows "due_time ic m (served ic now t m) \<in> {DueTime t div 1000 * 1000, DueTime t div day_ms * day_ms}"
proof -
  let ?s = "DueTime t div 1000 * 1000" and ?d = "DueTime t div day_ms * day_ms"
  have n: "0 \<le> ?s" "0 \<le> ?d" using assms(2) by (simp_all add: day_ms_def)
  obtain x where x: "Option.bind (props_get ''DUE'' (served ic now t m)) (DateTime ic) = Some x" "x \<in> {?s, ?d}"
    using served_get(6) [of t ic now m] assms ical_lawsD(3,4) [OF assms(1)] by force
  have "(if m = ''date_only'' then x div day_ms * day_ms else x) \<in> {?s, ?d}"
    using x(2) due_round [of "DueTime t"] by (cases "m = ''date_only''") (simp_all only: if_True if_False, auto)
  then show ?thesis using time_nonneg n unfolding due_time_def x(1) option.case by force
qed

text \<open>
  C35. What comes back when a task in one of the four statuses is served as a VTODO and that is read back,
  whether the VTODO is built from the columns or laid over the client's stored calendar. The status, title
  and description return as they were, and so does the importance when it has no character that
  iCalendar escapes. The id returns as the library has written it, which is the id itself unless it has a comma,
  a semicolon, a backslash or a line break: the reading takes the raw value, so such an id comes back with
  its escapes and names another task. The links return when the VTODO is built from the columns; over a stored
  calendar they are what that calendar's URL says, whatever the column holds. An unset due date stays
  unset, one up to the year 9999 comes back to the second or, in a date-valued form, to the day, and a
  completed task keeps a completion instant of these years to the second. A column that is empty is not
  promised to come back empty (\<open>cleared_detail_served\<close>).
\<close>

theorem vtodo_roundtrip:
  assumes "ical_laws ic" and "Status t = Some st" and "native_status st"
  shows "\<exists>t'. VTODOToTask ic now' (TaskToVTODO ic now t m) m = Some t' \<and>
    TaskID t' = Value (textProp ic ''UID'' (TaskID t)) \<and> (plain (TaskID t) \<longrightarrow> TaskID t' = TaskID t) \<and>
    Status t' = Status t \<and>
    (filled (Title t) \<longrightarrow> Title t' = Title t) \<and> (filled (Detail t) \<longrightarrow> Detail t' = Detail t) \<and>
    (filled (Importance t) \<and> plain (NullStr (Importance t)) \<longrightarrow> Importance t' = Importance t) \<and>
    (case (if filled (ICalBlob t) then Option.bind (Decode ic (NullStr (ICalBlob t))) FindVTODO else None) of
       None \<Rightarrow> filled (Links t) \<longrightarrow> Links t' = Links t
     | Some todo \<Rightarrow> Links t' = Option.bind (props_get ''URL'' todo) (\<lambda>p. SqlStr (text_or_value ic p))) \<and>
    (DueTime t = 0 \<longrightarrow> DueTime t' = 0) \<and>
    (0 < DueTime t \<and> four_digit_year (DueTime t) \<longrightarrow> DueTime t' \<in> {DueTime t div 1000 * 1000, DueTime t div day_ms * day_ms}) \<and>
    (\<forall>c. 0 < c \<and> four_digit_year c \<longrightarrow> st = ''completed'' \<longrightarrow> CompletedAt t = Some c \<longrightarrow> CompletedAt t' = Some (c div 1000 * 1000))"
proof -
  note law = ical_lawsD [OF assms(1)]
  let ?v = "served ic now t m"
  have st: "NullStr (Status t) = st" "st \<noteq> []" using assms(2,3) by (auto simp: NullStr_def native_status_def)
  have status: "SqlStr (FromCalDAVStatus (CalDAVStatus st)) = Some st"
    using st(2) assms(3) by (simp add: status_roundtrip SqlStr_def)
  let ?t = "(vtodo_fields ic now' m ?v)\<lparr>ICalBlob := Encode ic (TaskToVTODO ic now t m)\<rparr>"
  have "VTODOToTask ic now' (TaskToVTODO ic now t m) m = Some ?t"
    by (simp add: VTODOToTask_def FindVTODO_served)
  moreover have "TaskID ?t = Value (textProp ic ''UID'' (TaskID t))" "plain (TaskID t) \<longrightarrow> TaskID ?t = TaskID t" "Status ?t = Status t"
    using assms(2) status st(1) law(2) [OF plain_status]
    by (simp_all add: vtodo_fields_def Let_def extractForestNoteMetadata_def served_get law(2) NullStr_def)
  moreover have "case (if filled (ICalBlob t) then Option.bind (Decode ic (NullStr (ICalBlob t))) FindVTODO else None) of
       None \<Rightarrow> filled (Links t) \<longrightarrow> Links ?t = Links t
     | Some todo \<Rightarrow> Links ?t = Option.bind (props_get ''URL'' todo) (\<lambda>p. SqlStr (text_or_value ic p))"
    by (auto simp: served_def vtodo_fields_def Let_def extractForestNoteMetadata_def overlay_get(6) fields_get(6) law(1) text_or_value_def
        filled_Sql(1) split: option.split)
  moreover have "filled (Title t) \<longrightarrow> Title ?t = Title t" "filled (Detail t) \<longrightarrow> Detail ?t = Detail t"
    "filled (Importance t) \<and> plain (NullStr (Importance t)) \<longrightarrow> Importance ?t = Importance t"
    by (auto simp: vtodo_fields_def Let_def extractForestNoteMetadata_def served_get law(1,2) text_or_value_def filled_Sql(1))
  moreover have "DueTime t = 0 \<longrightarrow> DueTime ?t = 0"
    "0 < DueTime t \<and> four_digit_year (DueTime t) \<longrightarrow> DueTime ?t \<in> {DueTime t div 1000 * 1000, DueTime t div day_ms * day_ms}"
    using due_time_served [OF assms(1), of t m now]
    by (simp_all add: vtodo_fields_def Let_def extractForestNoteMetadata_def)
      (simp add: due_time_def served_get(7))
  moreover have "CompletedAt ?t = Some (c div 1000 * 1000)"
    if c: "0 < c" "st = ''completed''" "CompletedAt t = Some c" "four_digit_year c" for c
  proof -
    have "snd (CompletionTime t)" using c st(1) by (simp add: CompletionTime_def)
    moreover have "c div 1000 * 1000 \<noteq> - 62135596800000" using c(1) by (simp add: pos_imp_zdiv_neg_iff)
    moreover have "NullStr (SqlStr (FromCalDAVStatus (CalDAVStatus st))) = ''completed''"
      using status c(2) by (simp add: NullStr_def)
    ultimately show ?thesis
      using c law(2) [OF plain_status]
      by (simp add: vtodo_fields_def Let_def extractForestNoteMetadata_def served_get completed_at_def law st
          time_of_def TimeToMs_def)
  qed
  ultimately show ?thesis by blast
qed

text \<open>An instance of the library with the documented behaviour on the texts and instants used here:
  values are kept verbatim, instants as decimal numbers.\<close>

definition read_int :: "string \<Rightarrow> int option" where
  "read_int s = (case s of c # cs \<Rightarrow> if c = CHR ''-'' then map_option (\<lambda>n. - int n) (parse_unsigned cs)
     else map_option int (parse_unsigned s) | [] \<Rightarrow> None)"

definition ex_ical :: ical where
  "ex_ical = \<lparr>Text = (\<lambda>p. Some (Value p)), TextList = (\<lambda>p. None), DateTime = (\<lambda>p. read_int (Value p)),
     ValueType = (\<lambda>p. ''TEXT''), textProp = (\<lambda>n v. \<lparr>PName = n, Params = [], Value = v\<rparr>),
     dateTimeProp = (\<lambda>n ms. \<lparr>PName = n, Params = [], Value = FormatInt (ms div 1000 * 1000)\<rparr>),
     dateProp = (\<lambda>n ms. \<lparr>PName = n, Params = [], Value = FormatInt (ms div day_ms * day_ms)\<rparr>),
     Decode = (\<lambda>_. None), Encode = (\<lambda>_. None)\<rparr>"

lemma read_int_FormatInt: "read_int (FormatInt i) = Some i"
proof (cases "i < 0")
  case False
  obtain c cs where "show_nat (nat i) = c # cs" "c \<noteq> CHR ''-''" using show_nat_first by blast
  with False parse_show_nat [of "nat i"] show ?thesis by (simp add: read_int_def FormatInt_def)
qed (simp add: read_int_def FormatInt_def parse_show_nat)

lemma ex_ical_laws: "ical_laws ex_ical"
  by (simp add: ical_laws_def ex_ical_def read_int_FormatInt)

theorem vtodo_roundtrip_witness:
  "\<exists>t'. VTODOToTask ex_ical 9 (TaskToVTODO ex_ical 8 (zero_task\<lparr>TaskID := ''a'', Status := Some ''completed'',
      Title := Some ''b'', DueTime := 172800000, CompletedAt := Some 5000, UpdatedAt := 7000\<rparr>) ''datetime'') ''datetime'' = Some t' \<and>
    Title t' = Some ''b'' \<and> DueTime t' = 172800000 \<and> CompletedAt t' = Some 5000"
  using vtodo_roundtrip [OF ex_ical_laws, of "zero_task\<lparr>TaskID := ''a'', Status := Some ''completed'',
      Title := Some ''b'', DueTime := 172800000, CompletedAt := Some 5000, UpdatedAt := 7000\<rparr>" "''completed''" 9 8 "''datetime''"]
  by (fastforce simp: plain_def native_status_def filled_def zero_task_def day_ms_def four_digit_year_def)

text \<open>A column that has been cleared does not remove the property of the stored calendar: the old
  description is served, and comes back into the column when the client writes the task again.\<close>

lemma cleared_detail_served:
  assumes "filled (ICalBlob t)" and "Decode ic (NullStr (ICalBlob t)) = Some cal" and "FindVTODO cal = Some todo"
    and "props_get ''DESCRIPTION'' todo = Some p" and "text_or_value ic p = d" and "d \<noteq> []" and "Detail t = None"
  shows "\<exists>t'. VTODOToTask ic now' (TaskToVTODO ic now t m) m = Some t' \<and> Detail t' = Some d"
proof -
  have "served ic now t m = overlay ic t m todo" using assms(1-3) by (simp add: served_def)
  then have "props_get ''DESCRIPTION'' (served ic now t m) = Some p"
    using assms(4,7) by (simp add: overlay_get filled_def)
  then show ?thesis
    using assms(5,6)
    by (simp add: VTODOToTask_def FindVTODO_served vtodo_fields_def Let_def extractForestNoteMetadata_def SqlStr_def)
qed

section \<open>Metadata in the stored calendar\<close>

record BlobAttachment =
  URI :: string
  FmtType :: string
  Filename :: string
  Size :: int
  Inline :: bool

record BlobMetadata =
  Categories :: "string list"
  NativeURL :: string
  Comment :: string
  Attachments :: "BlobAttachment list"

record BlobMetadataPatch =
  CategoriesPtr :: "string list option"
  CommentPtr :: "string option"
  ClearComment :: bool
  NativeURLPtr :: "string option"

definition params_get :: "string \<Rightarrow> Prop \<Rightarrow> string" where
  "params_get name p = (case map_of (Params p) name of Some v \<Rightarrow> v | None \<Rightarrow> [])"

definition ReplaceAll :: "char \<Rightarrow> string \<Rightarrow> string \<Rightarrow> string" where
  "ReplaceAll c r s = concat (map (\<lambda>x. if x = c then r else [x]) s)"

definition escapeICalText :: "string \<Rightarrow> string" where
  "escapeICalText s =
     ReplaceAll (CHR 0x0A) [CHR 0x5C, CHR ''n''] (ReplaceAll (CHR '';'') [CHR 0x5C, CHR '';'']
       (ReplaceAll (CHR '','') [CHR 0x5C, CHR '',''] (ReplaceAll (CHR 0x5C) [CHR 0x5C, CHR 0x5C] s)))"

fun join_comma :: "string list \<Rightarrow> string" where
  "join_comma [] = []"
| "join_comma [x] = x"
| "join_comma (x # xs) = x @ [CHR '',''] @ join_comma xs"

definition setCategoriesProp :: "string list \<Rightarrow> Component \<Rightarrow> Component" where
  "setCategoriesProp cats todo =
     (let parts = map escapeICalText (filter (\<lambda>c. c \<noteq> []) cats)
      in if parts = [] then todo
         else props_set ''CATEGORIES'' ((NewProp ''CATEGORIES'')\<lparr>Value := join_comma parts\<rparr>) todo)"

definition BuildBlobWithMetadata :: "ical \<Rightarrow> millis \<Rightarrow> string \<Rightarrow> BlobMetadata \<Rightarrow> string" where
  "BuildBlobWithMetadata ic now taskID meta =
     (if Categories meta = [] \<and> Comment meta = [] \<and> NativeURL meta = [] then []
      else let c0 = set_datetime ic ''DTSTAMP'' now (set_text ic ''UID'' taskID (Component ''VTODO'' [] []));
               c1 = upon (Categories meta \<noteq> []) (setCategoriesProp (Categories meta)) c0;
               c2 = upon (Comment meta \<noteq> []) (set_text ic ''COMMENT'' (Comment meta)) c1;
               c3 = upon (NativeURL meta \<noteq> []) (set_text ic ''X-FORESTNOTE-NATIVE-URL'' (NativeURL meta)) c2
           in case Encode ic (empty_calendar ic [c3]) of None \<Rightarrow> [] | Some b \<Rightarrow> b)"

definition patch_categories :: "BlobMetadataPatch \<Rightarrow> Component \<Rightarrow> Component" where
  "patch_categories patch todo =
     (case CategoriesPtr patch of
        None \<Rightarrow> todo
      | Some cats \<Rightarrow> upon (cats \<noteq> []) (setCategoriesProp cats) (props_del ''CATEGORIES'' todo))"

definition patch_comment :: "ical \<Rightarrow> BlobMetadataPatch \<Rightarrow> Component \<Rightarrow> Component" where
  "patch_comment ic patch todo =
     (if ClearComment patch then props_del ''COMMENT'' todo
      else case CommentPtr patch of
             None \<Rightarrow> todo
           | Some c \<Rightarrow> upon (c \<noteq> []) (set_text ic ''COMMENT'' c) (props_del ''COMMENT'' todo))"

definition patch_native :: "ical \<Rightarrow> BlobMetadataPatch \<Rightarrow> Component \<Rightarrow> Component" where
  "patch_native ic patch todo =
     (case NativeURLPtr patch of
        None \<Rightarrow> todo
      | Some u \<Rightarrow> upon (u \<noteq> []) (set_text ic ''X-FORESTNOTE-NATIVE-URL'' u) (props_del ''X-FORESTNOTE-NATIVE-URL'' todo))"

definition fresh_metadata :: "BlobMetadataPatch \<Rightarrow> BlobMetadata" where
  "fresh_metadata patch =
     \<lparr>Categories = (case CategoriesPtr patch of Some c \<Rightarrow> c | None \<Rightarrow> []),
      NativeURL = NullStr (NativeURLPtr patch),
      Comment = (if ClearComment patch then [] else NullStr (CommentPtr patch)),
      Attachments = []\<rparr>"

definition MergeBlobMetadataPatch :: "ical \<Rightarrow> millis \<Rightarrow> string \<Rightarrow> string \<Rightarrow> BlobMetadataPatch \<Rightarrow> string" where
  "MergeBlobMetadataPatch ic now taskID existingBlob patch =
     (let fresh = BuildBlobWithMetadata ic now taskID (fresh_metadata patch)
      in if existingBlob = [] then fresh
         else case Decode ic existingBlob of
                None \<Rightarrow> fresh
              | Some cal \<Rightarrow>
                  (case FindVTODO cal of
                     None \<Rightarrow> fresh
                   | Some _ \<Rightarrow>
                       (case Encode ic (on_vtodo (\<lambda>c. patch_native ic patch (patch_comment ic patch (patch_categories patch c))) cal) of
                          None \<Rightarrow> existingBlob
                        | Some b \<Rightarrow> b)))"

fun split_comma :: "string \<Rightarrow> string list" where
  "split_comma [] = [[]]"
| "split_comma (c # cs) =
     (if c = CHR '','' then [] # split_comma cs
      else case split_comma cs of w # ws \<Rightarrow> (c # w) # ws | [] \<Rightarrow> [[c]])"

definition categories_of :: "ical \<Rightarrow> Component \<Rightarrow> string list" where
  "categories_of ic todo =
     concat (map (\<lambda>p. filter (\<lambda>c. c \<noteq> []) (map TrimSpace
        (case TextList ic p of Some items \<Rightarrow> items | None \<Rightarrow> split_comma (Value p)))) (props_values ''CATEGORIES'' todo))"

definition native_url_of :: "ical \<Rightarrow> Component \<Rightarrow> string" where
  "native_url_of ic todo = NullStr (nullStringFromProp ic todo ''X-FORESTNOTE-NATIVE-URL'')"

definition comment_of :: "ical \<Rightarrow> Component \<Rightarrow> string" where
  "comment_of ic todo =
     fold (\<lambda>p out. let c = text_or_value ic p
             in if c = [] then out else (if out \<noteq> [] then out @ [CHR 0x0A, CHR 0x0A] else out) @ c)
       (props_values ''COMMENT'' todo) []"

definition upper :: "char \<Rightarrow> char" where
  "upper c = (let n = of_char c :: nat in if 97 \<le> n \<and> n \<le> 122 then char_of (n - 32) else c)"

definition isInlineBinaryAttach :: "ical \<Rightarrow> Prop \<Rightarrow> bool" where
  "isInlineBinaryAttach ic p \<longleftrightarrow> ValueType ic p = ''BINARY'' \<or> map upper (params_get ''ENCODING'' p) = ''BASE64''"

definition base64DecodedSize :: "string \<Rightarrow> int" where
  "base64DecodedSize raw =
     (let s = TrimSpace raw; n = length s
      in if n = 0 then 0
         else if n mod 4 \<noteq> 0 then (case DecodeString s of Some b \<Rightarrow> int (length b) | None \<Rightarrow> 0)
         else int (n div 4 * 3) - (if HasSuffix s ''=='' then 2 else if HasSuffix s ''='' then 1 else 0))"

definition attachFilename :: "Prop \<Rightarrow> string" where
  "attachFilename p = (if params_get ''FILENAME'' p \<noteq> [] then params_get ''FILENAME'' p else params_get ''X-FILENAME'' p)"

definition blob_attachment :: "ical \<Rightarrow> Prop \<Rightarrow> BlobAttachment" where
  "blob_attachment ic p =
     (let a = \<lparr>URI = [], FmtType = params_get ''FMTTYPE'' p, Filename = attachFilename p, Size = 0, Inline = False\<rparr>
      in if params_get ''X-UB-INLINE'' p = ''1'' then
           a\<lparr>Inline := True, URI := Value p,
             Size := (case ParseInt (params_get ''X-UB-SIZE'' p) of Some n \<Rightarrow> n | None \<Rightarrow> 0)\<rparr>
         else if isInlineBinaryAttach ic p then a\<lparr>Inline := True, Size := base64DecodedSize (Value p)\<rparr>
         else a\<lparr>URI := Value p\<rparr>)"

definition metadata_of :: "ical \<Rightarrow> Component \<Rightarrow> BlobMetadata" where
  "metadata_of ic todo =
     \<lparr>Categories = categories_of ic todo, NativeURL = native_url_of ic todo, Comment = comment_of ic todo,
      Attachments = map (blob_attachment ic) (props_values ''ATTACH'' todo)\<rparr>"

definition ParseBlobMetadata :: "ical \<Rightarrow> string \<Rightarrow> BlobMetadata" where
  "ParseBlobMetadata ic blob =
     (let none = \<lparr>Categories = [], NativeURL = [], Comment = [], Attachments = []\<rparr>
      in if blob = [] then none
         else case Option.bind (Decode ic blob) FindVTODO of None \<Rightarrow> none | Some todo \<Rightarrow> metadata_of ic todo)"

section \<open>Patching the stored metadata\<close>

text \<open>What the metadata patch relies on in go-ical: a calendar that has been encoded decodes to
  one whose VTODO has the same properties, and a list of texts is read back as it was
  joined.\<close>

definition codec_law :: "ical \<Rightarrow> bool" where
  "codec_law ic \<longleftrightarrow>
     (\<forall>cal b todo. Encode ic cal = Some b \<longrightarrow> FindVTODO cal = Some todo \<longrightarrow>
        (\<exists>todo'. Option.bind (Decode ic b) FindVTODO = Some todo' \<and>
           (\<forall>n. props_values n todo' = props_values n todo)))"

definition list_law :: "ical \<Rightarrow> string list \<Rightarrow> bool" where
  "list_law ic cats \<longleftrightarrow>
     TextList ic ((NewProp ''CATEGORIES'')\<lparr>Value := join_comma (map escapeICalText cats)\<rparr>) = Some cats"

definition patch_vtodo :: "ical \<Rightarrow> BlobMetadataPatch \<Rightarrow> Component \<Rightarrow> Component" where
  "patch_vtodo ic patch c = patch_native ic patch (patch_comment ic patch (patch_categories patch c))"

lemmas patch_defs = patch_native_def patch_comment_def patch_categories_def upon_def set_defs

lemma CName_patch: "CName (patch_vtodo ic patch c) = CName c"
  by (simp add: patch_vtodo_def patch_defs setCategoriesProp_def Let_def split: option.split)

lemma values_setCategories:
  "props_values n (setCategoriesProp cats c) =
     (if n = ''CATEGORIES'' \<and> filter (\<lambda>c. c \<noteq> []) cats \<noteq> []
      then [(NewProp ''CATEGORIES'')\<lparr>Value := join_comma (map escapeICalText (filter (\<lambda>c. c \<noteq> []) cats))\<rparr>]
      else props_values n c)"
  by (simp add: setCategoriesProp_def Let_def prop_simps)

lemma values_patch_other:
  "n \<notin> {''CATEGORIES'', ''COMMENT'', ''X-FORESTNOTE-NATIVE-URL''} \<Longrightarrow>
     props_values n (patch_vtodo ic patch c) = props_values n c"
  by (auto simp: patch_vtodo_def patch_defs values_setCategories prop_simps split: option.split)

lemma values_patch_comment:
  "props_values ''COMMENT'' (patch_vtodo ic patch c) =
     (if ClearComment patch then [] else case CommentPtr patch of
        None \<Rightarrow> props_values ''COMMENT'' c | Some x \<Rightarrow> if x = [] then [] else [textProp ic ''COMMENT'' x])"
  by (simp add: patch_vtodo_def patch_defs values_setCategories prop_simps split: option.split)

lemma values_patch_native:
  "props_values ''X-FORESTNOTE-NATIVE-URL'' (patch_vtodo ic patch c) =
     (case NativeURLPtr patch of None \<Rightarrow> props_values ''X-FORESTNOTE-NATIVE-URL'' c
      | Some x \<Rightarrow> if x = [] then [] else [textProp ic ''X-FORESTNOTE-NATIVE-URL'' x])"
  by (simp add: patch_vtodo_def patch_defs values_setCategories prop_simps split: option.split)

lemma values_patch_categories:
  "props_values ''CATEGORIES'' (patch_vtodo ic patch c) =
     (case CategoriesPtr patch of None \<Rightarrow> props_values ''CATEGORIES'' c
      | Some cats \<Rightarrow> if filter (\<lambda>c. c \<noteq> []) cats = [] then []
          else [(NewProp ''CATEGORIES'')\<lparr>Value := join_comma (map escapeICalText (filter (\<lambda>c. c \<noteq> []) cats))\<rparr>])"
  by (auto simp: patch_vtodo_def patch_defs values_setCategories prop_simps split: option.split)

lemmas metadata_defs = metadata_of_def categories_of_def native_url_of_def comment_of_def nullStringFromProp_def props_get_def

lemma metadata_cong:
  "(\<And>n. props_values n c = props_values n d) \<Longrightarrow> metadata_of ic c = metadata_of ic d"
  by (simp add: metadata_defs)

lemma metadata_patch:
  assumes "ical_laws ic" and "\<And>cats. CategoriesPtr patch = Some cats \<Longrightarrow>
      list_law ic cats \<and> (\<forall>c \<in> set cats. c \<noteq> [] \<and> TrimSpace c = c)"
  shows "metadata_of ic (patch_vtodo ic patch todo) = (metadata_of ic todo)\<lparr>
    Categories := (case CategoriesPtr patch of None \<Rightarrow> Categories (metadata_of ic todo) | Some cats \<Rightarrow> cats),
    NativeURL := (case NativeURLPtr patch of None \<Rightarrow> NativeURL (metadata_of ic todo) | Some u \<Rightarrow> u),
    Comment := (if ClearComment patch then [] else case CommentPtr patch of None \<Rightarrow> Comment (metadata_of ic todo) | Some c \<Rightarrow> c)\<rparr>"
proof -
  note law = ical_lawsD [OF assms(1)]
  have cat: "categories_of ic (patch_vtodo ic patch todo) =
      (case CategoriesPtr patch of None \<Rightarrow> categories_of ic todo | Some cats \<Rightarrow> cats)"
  proof (cases "CategoriesPtr patch")
    case (Some cats)
    have ok: "filter (\<lambda>c. c \<noteq> []) cats = cats" "map TrimSpace cats = cats"
      using assms(2) [OF Some] by (simp_all add: map_idI)
    show ?thesis using assms(2) [OF Some] Some ok
      by (simp add: categories_of_def values_patch_categories list_law_def)
  qed (simp add: categories_of_def values_patch_categories)
  have com: "comment_of ic (patch_vtodo ic patch todo) =
      (if ClearComment patch then [] else case CommentPtr patch of None \<Rightarrow> comment_of ic todo | Some c \<Rightarrow> c)"
    by (simp add: comment_of_def values_patch_comment text_or_value_def law split: option.split)
  have url: "native_url_of ic (patch_vtodo ic patch todo) =
      (case NativeURLPtr patch of None \<Rightarrow> native_url_of ic todo | Some u \<Rightarrow> u)"
    by (simp add: native_url_of_def nullStringFromProp_def props_get_def values_patch_native law NullStr_def
        split: option.split list.split)
  show ?thesis by (simp add: metadata_of_def cat com url values_patch_other cong: option.case_cong)
qed

text \<open>
  A metadata patch of the stored calendar changes what it names and nothing else: read back,
  the categories, the comment and the native link are the patched ones where the patch has them
  and the old ones where it does not, clearing the comment wins over setting it, and the
  attachments, like every other property, are those of the old calendar.
\<close>

theorem MergeBlobMetadataPatch_spec:
  assumes "ical_laws ic" and "codec_law ic"
    and "\<And>cats. CategoriesPtr patch = Some cats \<Longrightarrow>
      list_law ic cats \<and> (\<forall>c \<in> set cats. c \<noteq> [] \<and> TrimSpace c = c)"
    and "blob \<noteq> []" and "Decode ic blob = Some cal" and "FindVTODO cal = Some todo"
    and "Encode ic (on_vtodo (\<lambda>c. patch_native ic patch (patch_comment ic patch (patch_categories patch c))) cal) = Some b"
    and "b \<noteq> []"
  shows "ParseBlobMetadata ic (MergeBlobMetadataPatch ic now taskID blob patch) = (ParseBlobMetadata ic blob)\<lparr>
    Categories := (case CategoriesPtr patch of None \<Rightarrow> Categories (ParseBlobMetadata ic blob) | Some cats \<Rightarrow> cats),
    NativeURL := (case NativeURLPtr patch of None \<Rightarrow> NativeURL (ParseBlobMetadata ic blob) | Some u \<Rightarrow> u),
    Comment := (if ClearComment patch then [] else
      case CommentPtr patch of None \<Rightarrow> Comment (ParseBlobMetadata ic blob) | Some c \<Rightarrow> c)\<rparr>"
proof -
  have e: "Encode ic (on_vtodo (patch_vtodo ic patch) cal) = Some b"
    using assms(7) unfolding patch_vtodo_def .
  have "FindVTODO (on_vtodo (patch_vtodo ic patch) cal) = Some (patch_vtodo ic patch todo)"
    using assms(6) by (simp add: FindVTODO_on_vtodo CName_patch)
  then obtain todo' where t': "Option.bind (Decode ic b) FindVTODO = Some todo'"
    "\<And>n. props_values n todo' = props_values n (patch_vtodo ic patch todo)"
    using assms(2) e unfolding codec_law_def by blast
  have "MergeBlobMetadataPatch ic now taskID blob patch = b"
    using assms(4-7) by (simp add: MergeBlobMetadataPatch_def Let_def)
  then have "ParseBlobMetadata ic (MergeBlobMetadataPatch ic now taskID blob patch) = metadata_of ic (patch_vtodo ic patch todo)"
    using assms(8) t' metadata_cong [OF t'(2)] by (simp add: ParseBlobMetadata_def)
  moreover have "ParseBlobMetadata ic blob = metadata_of ic todo"
    using assms(4-6) by (simp add: ParseBlobMetadata_def)
  ultimately show ?thesis using metadata_patch [OF assms(1,3)] by (simp only:)
qed

definition ex_cal :: Component where
  "ex_cal = Component ''VCALENDAR'' [] [Component ''VTODO'' [(''COMMENT'', [textProp ex_ical ''COMMENT'' ''old''])] []]"

definition ex_patch :: BlobMetadataPatch where
  "ex_patch = \<lparr>CategoriesPtr = Some [''x'', ''y''], CommentPtr = None, ClearComment = False, NativeURLPtr = None\<rparr>"

definition ex_vtodo_codec :: ical where
  "ex_vtodo_codec =
     (let cal' = on_vtodo (patch_vtodo ex_ical ex_patch) ex_cal
      in ex_ical\<lparr>TextList := (\<lambda>p. Some (split_comma (Value p))),
           Decode := (\<lambda>b. if b = ''A'' then Some ex_cal else if b = ''B'' then Some cal' else None),
           Encode := (\<lambda>c. if c = cal' then Some ''B'' else None)\<rparr>)"

theorem MergeBlobMetadataPatch_spec_witness:
  "Categories (ParseBlobMetadata ex_vtodo_codec (MergeBlobMetadataPatch ex_vtodo_codec 3 ''a'' ''A'' ex_patch)) = [''x'', ''y''] \<and>
   Comment (ParseBlobMetadata ex_vtodo_codec (MergeBlobMetadataPatch ex_vtodo_codec 3 ''a'' ''A'' ex_patch)) =
     Comment (ParseBlobMetadata ex_vtodo_codec ''A'')"
proof -
  have p: "patch_native ex_vtodo_codec ex_patch (patch_comment ex_vtodo_codec ex_patch (patch_categories ex_patch c)) = patch_vtodo ex_ical ex_patch c" for c
    by (simp add: patch_vtodo_def patch_native_def patch_comment_def ex_patch_def)
  have l: "ical_laws ex_vtodo_codec" using ex_ical_laws by (simp add: ical_laws_def ex_vtodo_codec_def Let_def)
  have "FindVTODO (on_vtodo (patch_vtodo ex_ical ex_patch) ex_cal) \<noteq> None"
    by (simp add: FindVTODO_on_vtodo CName_patch FindVTODO_def ex_cal_def)
  then have c: "codec_law ex_vtodo_codec" by (auto simp: codec_law_def ex_vtodo_codec_def Let_def)
  have "list_law ex_vtodo_codec [''x'', ''y'']" by code_simp
  moreover have "\<forall>c \<in> set [''x'', ''y'']. c \<noteq> [] \<and> TrimSpace c = c" by code_simp
  ultimately have k: "CategoriesPtr ex_patch = Some cats \<Longrightarrow>
      list_law ex_vtodo_codec cats \<and> (\<forall>c \<in> set cats. c \<noteq> [] \<and> TrimSpace c = c)" for cats
    by (auto simp: ex_patch_def)
  have d: "Decode ex_vtodo_codec ''A'' = Some ex_cal" by (simp add: ex_vtodo_codec_def Let_def)
  have f: "FindVTODO ex_cal = Some (Component ''VTODO'' [(''COMMENT'', [textProp ex_ical ''COMMENT'' ''old''])] [])"
    by (simp add: FindVTODO_def ex_cal_def)
  have "Encode ex_vtodo_codec (on_vtodo (\<lambda>c. patch_native ex_vtodo_codec ex_patch (patch_comment ex_vtodo_codec ex_patch (patch_categories ex_patch c))) ex_cal) = Some ''B''"
    unfolding p by (simp add: ex_vtodo_codec_def Let_def)
  from MergeBlobMetadataPatch_spec [OF l c k _ d f this, of 3 "''a''"] show ?thesis
    by (simp add: ex_patch_def)
qed

end
