(* ===== verification/Caldav_Backend.thy ===== *)
theory Caldav_Backend
  imports Caldav_Sync Vtodo
begin

text \<open>
  The CalDAV backend over the task store (\<open>internal/caldav/backend.go\<close>): reading, listing,
  querying, writing and deleting calendar objects. The serve-time rendering of a task is a
  parameter that \<open>TaskToVTODO\<close> instantiates when no attachment store is wired; the rewriting of
  inline attachments on the way in is the parameter \<open>debloat\<close>, \<open>None\<close> when it is not wired.
  Notifications to the device are counted.
\<close>

section \<open>Objects\<close>

datatype dav_error = InvalidPath | OnlyVTODO | NoVTODO | StoreError task_error

record CalendarObject =
  coPath :: string
  coModTime :: "millis option"
  coETag :: string
  coData :: Component

record backend =
  bk_db :: task_db
  bk_notified :: nat

definition base_name :: "string \<Rightarrow> string" where
  "base_name p = rev (takeWhile (\<lambda>c. c \<noteq> CHR ''/'') (rev p))"

definition taskIDFromPath :: "string \<Rightarrow> string" where
  "taskIDFromPath urlPath =
     (if \<not> HasSuffix urlPath ''.ics'' then [] else TrimSuffix (base_name urlPath) ''.ics'')"

definition taskToCalendarObject ::
  "(string \<Rightarrow> string) \<Rightarrow> (Task \<Rightarrow> Component) \<Rightarrow> string \<Rightarrow> Task \<Rightarrow> CalendarObject" where
  "taskToCalendarObject md5 render pfx t =
     \<lparr>coPath = ObjectPath pfx (TaskID t),
      coModTime = MsToTime (case LastModified t of Some l \<Rightarrow> l | None \<Rightarrow> 0),
      coETag = ComputeETag md5 t, coData = render t\<rparr>"

section \<open>Reading\<close>

definition store_result :: "task_error + 'a \<Rightarrow> dav_error + 'a" where
  "store_result r = (case r of Inl e \<Rightarrow> Inl (StoreError e) | Inr x \<Rightarrow> Inr x)"

definition GetCalendarObject ::
  "(string \<Rightarrow> string) \<Rightarrow> (Task \<Rightarrow> Component) \<Rightarrow> string \<Rightarrow> string \<Rightarrow> backend \<Rightarrow> dav_error + CalendarObject" where
  "GetCalendarObject md5 render pfx urlPath b =
     (let taskID = taskIDFromPath urlPath
      in if taskID = [] then Inl InvalidPath
         else bind_sum (store_result (GetTask taskID (bk_db b))) (\<lambda>t. Inr (taskToCalendarObject md5 render pfx t)))"

definition ListCalendarObjects ::
  "(string \<Rightarrow> string) \<Rightarrow> (Task \<Rightarrow> Component) \<Rightarrow> string \<Rightarrow> backend \<Rightarrow> CalendarObject list" where
  "ListCalendarObjects md5 render pfx b = map (taskToCalendarObject md5 render pfx) (ListTasks (bk_db b))"

text \<open>The query's component filter; \<open>None\<close> is a missing query.\<close>

definition QueryCalendarObjects ::
  "(string \<Rightarrow> string) \<Rightarrow> (Task \<Rightarrow> Component) \<Rightarrow> string \<Rightarrow> string option \<Rightarrow> backend \<Rightarrow> CalendarObject list" where
  "QueryCalendarObjects md5 render pfx query b =
     filter (\<lambda>obj. case query of
         None \<Rightarrow> True
       | Some name \<Rightarrow>
           if name \<noteq> [] \<and> name \<noteq> ''VCALENDAR'' then list_ex (\<lambda>child. CName child = name) (Children (coData obj)) else True)
       (map (taskToCalendarObject md5 render pfx) (ListTasks (bk_db b)))"

section \<open>Writing\<close>

text \<open>The fields an update takes over from the stored row where the VTODO does not set them.\<close>

definition carry_over :: "Task \<Rightarrow> Task \<Rightarrow> Task" where
  "carry_over existing t =
     t\<lparr>TaskID := TaskID existing,
       CompletedTime := (case CompletedTime t of None \<Rightarrow> CompletedTime existing | c \<Rightarrow> c),
       IsReminderOn := (if IsReminderOn t = [] then IsReminderOn existing else IsReminderOn t),
       IsDeleted := (if IsDeleted t = [] then IsDeleted existing else IsDeleted t),
       Recurrence := (if Recurrence t = None \<and> Recurrence existing \<noteq> None then Recurrence existing else Recurrence t),
       Links := (if Links t = None \<and> Links existing \<noteq> None then Links existing else Links t)\<rparr>"

definition debloated :: "(string \<Rightarrow> string) option \<Rightarrow> Task \<Rightarrow> Task" where
  "debloated debloat t =
     (case debloat of
        None \<Rightarrow> t
      | Some f \<Rightarrow> if filled (ICalBlob t) then t\<lparr>ICalBlob := Some (f (NullStr (ICalBlob t)))\<rparr> else t)"

definition put_store ::
  "(string \<Rightarrow> string) \<Rightarrow> millis \<Rightarrow> string \<Rightarrow> Task \<Rightarrow> task_db \<Rightarrow> task_error + (Task \<times> task_db)" where
  "put_store md5 now taskID task s =
     (case GetTask taskID s of
        Inl e \<Rightarrow>
          if e \<noteq> ErrNotFound then Inl e
          else CreateTask md5 now (if TaskID task = [] then task\<lparr>TaskID := taskID\<rparr> else task) s
      | Inr existing \<Rightarrow> UpdateTask now (carry_over existing task) s)"

definition PutCalendarObject ::
  "(string \<Rightarrow> string) \<Rightarrow> ical \<Rightarrow> (Task \<Rightarrow> Component) \<Rightarrow> (string \<Rightarrow> string) option \<Rightarrow> string \<Rightarrow> string \<Rightarrow>
   millis \<Rightarrow> millis \<Rightarrow> string \<Rightarrow> Component \<Rightarrow> backend \<Rightarrow> dav_error + (CalendarObject \<times> backend)" where
  "PutCalendarObject md5 ic render debloat pfx dueTimeMode parsed now urlPath cal b =
     (if HasVEvent cal then Inl OnlyVTODO
      else case VTODOToTask ic parsed cal dueTimeMode of
             None \<Rightarrow> Inl NoVTODO
           | Some task \<Rightarrow>
               bind_sum (store_result (put_store md5 now (taskIDFromPath urlPath) (debloated debloat task) (bk_db b))) (\<lambda>(task', s').
               bind_sum (store_result (GetTask (TaskID task') s')) (\<lambda>updated.
                 Inr (taskToCalendarObject md5 render pfx updated,
                      b\<lparr>bk_db := s', bk_notified := Suc (bk_notified b)\<rparr>))))"

definition DeleteCalendarObject :: "millis \<Rightarrow> string \<Rightarrow> backend \<Rightarrow> dav_error + backend" where
  "DeleteCalendarObject now urlPath b =
     (let taskID = taskIDFromPath urlPath
      in if taskID = [] then Inl InvalidPath
         else bind_sum (store_result (DeleteTask now taskID (bk_db b)))
                (\<lambda>s'. Inr (b\<lparr>bk_db := s', bk_notified := Suc (bk_notified b)\<rparr>)))"

section \<open>Paths\<close>

lemma takeWhile_stop: "\<forall>c \<in> set xs. P c \<Longrightarrow> \<not> P y \<Longrightarrow> takeWhile P (xs @ y # ys) = xs"
  by (induction xs) auto

lemma taskIDFromPath_ObjectPath:
  assumes "CHR ''/'' \<notin> set taskID"
  shows "taskIDFromPath (ObjectPath pfx taskID) = taskID"
proof -
  let ?name = "taskID @ ''.ics''"
  have p: "ObjectPath pfx taskID = (pfx @ ''/user/calendars/tasks'') @ [CHR ''/''] @ ?name"
    by (simp add: ObjectPath_def)
  have "takeWhile (\<lambda>c. c \<noteq> CHR ''/'') (rev ?name @ CHR ''/'' # rev (pfx @ ''/user/calendars/tasks'')) = rev ?name"
    using assms by (intro takeWhile_stop) auto
  then have b: "base_name (ObjectPath pfx taskID) = ?name" unfolding base_name_def p by simp
  have "HasSuffix (ObjectPath pfx taskID) ''.ics''" using HasSuffix_append [of _ "''.ics''"] unfolding p by (metis append.assoc)
  then show ?thesis by (simp add: taskIDFromPath_def b TrimSuffix_def)
qed

section \<open>The outcome of a write\<close>

lemma VTODOToTask_flags:
  assumes "VTODOToTask ic now cal m = Some t"
  shows "IsDeleted t = []" and "CompletedTime t = None" and "IsReminderOn t = []"
proof -
  have "IsDeleted (vtodo_fields ic now m c) = [] \<and> CompletedTime (vtodo_fields ic now m c) = None \<and>
      IsReminderOn (vtodo_fields ic now m c) = []" for c
    by (simp add: vtodo_fields_def Let_def extractForestNoteMetadata_def zero_task_def)
  then show "IsDeleted t = []" and "CompletedTime t = None" and "IsReminderOn t = []"
    using assms by (auto simp: VTODOToTask_def)
qed

lemma debloated_frame [simp]:
  "TaskID (debloated d t) = TaskID t" "IsDeleted (debloated d t) = IsDeleted t" "Status (debloated d t) = Status t"
  "CompletedTime (debloated d t) = CompletedTime t"
  by (simp_all add: debloated_def split: option.split)

definition updated_row :: "millis \<Rightarrow> Task \<Rightarrow> Task \<Rightarrow> Task" where
  "updated_row now task r = write_columns ((carry_over r task)\<lparr>LastModified := Some now, UpdatedAt := now\<rparr>) r"

definition created_row :: "(string \<Rightarrow> string) \<Rightarrow> millis \<Rightarrow> Task \<Rightarrow> Task" where
  "created_row md5 now task = scanned ((create_defaults md5 now task)\<lparr>CreatedAt := now, UpdatedAt := now\<rparr>)"

lemma GetTask_row: "GetTask k s = Inr r \<longleftrightarrow> map_of (tasks s) k = Some r \<and> live_task r"
  by (auto simp: GetTask_def split: option.splits)

lemma GetTask_missing: "GetTask k s = Inl e \<Longrightarrow> e = ErrNotFound"
  by (auto simp: GetTask_def split: option.splits if_splits)

lemma put_store_update:
  assumes "db_inv s" and "GetTask k s = Inr r" and "CompletedTime task = None"
  shows "Status task = None \<Longrightarrow> put_store md5 now k task s = Inl ErrConstraint"
    and "Status task \<noteq> None \<Longrightarrow> \<exists>t'. TaskID t' = k \<and>
      put_store md5 now k task s = Inr (t', s\<lparr>tasks := upsert k (updated_row now task r) (tasks s)\<rparr>)"
proof -
  have r: "map_of (tasks s) k = Some r" "TaskID r = k" "CompletedTime r \<noteq> None"
    using assms(1,2) db_inv_row [OF assms(1)] by (auto simp: GetTask_row row_ok_def)
  then show "Status task = None \<Longrightarrow> put_store md5 now k task s = Inl ErrConstraint"
    using assms(2) by (simp add: put_store_def UpdateTask_def Let_def carry_over_def)
  show "\<exists>t'. TaskID t' = k \<and>
      put_store md5 now k task s = Inr (t', s\<lparr>tasks := upsert k (updated_row now task r) (tasks s)\<rparr>)"
    if "Status task \<noteq> None"
    using r assms(2,3) that
    by (simp add: put_store_def UpdateTask_def Let_def carry_over_def updated_row_def)
qed

lemma put_store_create:
  assumes "GetTask k s = Inl e" and "task' = (if TaskID task = [] then task\<lparr>TaskID := k\<rparr> else task)" and "TaskID task' \<noteq> []"
  shows "put_store md5 now k task s =
    (if map_of (tasks s) (TaskID task') \<noteq> None then Inl ErrConstraint
     else Inr (create_defaults md5 now task', s\<lparr>tasks := tasks s @ [(TaskID task', created_row md5 now task')]\<rparr>))"
  using assms GetTask_missing [OF assms(1)]
  by (simp add: put_store_def CreateTask_def Let_def created_row_def create_defaults_def)

lemma updated_row_live: "live_task r \<Longrightarrow> live_task (updated_row now task r)"
  by (simp add: live_task_def updated_row_def write_columns_def)

lemma created_row_live: "IsDeleted task = [] \<Longrightarrow> live_task (created_row md5 now task)"
  by (simp add: live_task_def created_row_def scanned_def create_defaults_def)

lemma PutCalendarObject_cases:
  assumes "db_inv (bk_db b)" and "\<not> HasVEvent cal" and "VTODOToTask ic parsed cal m = Some task"
    and "k = taskIDFromPath urlPath" and "u = (if TaskID task = [] then k else TaskID task)" and "u \<noteq> []"
  shows "PutCalendarObject md5 ic render debloat pfx m parsed now urlPath cal b =
    (case GetTask k (bk_db b) of
       Inr r \<Rightarrow>
         if Status task = None then Inl (StoreError ErrConstraint)
         else let row = updated_row now (debloated debloat task) r
              in Inr (taskToCalendarObject md5 render pfx row,
                   b\<lparr>bk_db := (bk_db b)\<lparr>tasks := upsert k row (tasks (bk_db b))\<rparr>, bk_notified := bk_notified b + 1\<rparr>)
     | Inl _ \<Rightarrow>
         if map_of (tasks (bk_db b)) u \<noteq> None then Inl (StoreError ErrConstraint)
         else let row = created_row md5 now ((debloated debloat task)\<lparr>TaskID := u\<rparr>)
              in Inr (taskToCalendarObject md5 render pfx row,
                   b\<lparr>bk_db := (bk_db b)\<lparr>tasks := tasks (bk_db b) @ [(u, row)]\<rparr>, bk_notified := bk_notified b + 1\<rparr>))"
proof -
  let ?t = "debloated debloat task" and ?s = "bk_db b"
  note flags = VTODOToTask_flags [OF assms(3)]
  have put: "PutCalendarObject md5 ic render debloat pfx m parsed now urlPath cal b =
    bind_sum (store_result (put_store md5 now k ?t ?s)) (\<lambda>(task', s').
      bind_sum (store_result (GetTask (TaskID task') s')) (\<lambda>updated.
        Inr (taskToCalendarObject md5 render pfx updated, b\<lparr>bk_db := s', bk_notified := Suc (bk_notified b)\<rparr>)))"
    using assms(2-4) by (simp add: PutCalendarObject_def)
  show ?thesis
  proof (cases "GetTask k ?s")
    case (Inr r)
    note upd = put_store_update [OF assms(1) Inr, of ?t md5 now]
    show ?thesis
    proof (cases "Status task = None")
      case True
      then show ?thesis using upd(1) flags Inr by (simp add: put store_result_def)
    next
      case False
      then obtain t' where t': "TaskID t' = k"
        "put_store md5 now k ?t ?s = Inr (t', ?s\<lparr>tasks := upsert k (updated_row now ?t r) (tasks ?s)\<rparr>)"
        using upd(2) flags by auto
      have "GetTask k (?s\<lparr>tasks := upsert k (updated_row now ?t r) (tasks ?s)\<rparr>) = Inr (updated_row now ?t r)"
        using Inr by (simp add: GetTask_row updated_row_live)
      then show ?thesis using t' Inr False by (simp add: put store_result_def Let_def)
    qed
  next
    case (Inl e)
    have t': "(if TaskID ?t = [] then ?t\<lparr>TaskID := k\<rparr> else ?t) = ?t\<lparr>TaskID := u\<rparr>"
      using assms(5) by simp
    have u: "TaskID (?t\<lparr>TaskID := u\<rparr>) \<noteq> []" using assms(6) by simp
    note cr = put_store_create [OF Inl t' [symmetric] u, of md5 now]
    have id: "TaskID (create_defaults md5 now (?t\<lparr>TaskID := u\<rparr>)) = u" using assms(6) by (simp add: create_defaults_def)
    have "GetTask u (?s\<lparr>tasks := tasks ?s @ [(u, created_row md5 now (?t\<lparr>TaskID := u\<rparr>))]\<rparr>) =
        Inr (created_row md5 now (?t\<lparr>TaskID := u\<rparr>))" if "map_of (tasks ?s) u = None"
      using that flags(1) by (simp add: GetTask_row created_row_live map_add_def)
    then show ?thesis using cr Inl by (simp add: put store_result_def Let_def id)
  qed
qed

text \<open>
  C34. The outcome of a PUT of a VTODO, on every branch. On a live task it rewrites the row's
  columns and nothing else, and fails, changing nothing, when the VTODO has no status; on a path
  that names no live task it inserts a row under the VTODO's own UID (or the path's name, when it
  has none), and fails when that id is taken, by a deleted task too. A successful PUT notifies
  the device once and returns the row as it is then stored.
\<close>

theorem PutCalendarObject_outcome:
  assumes "db_inv (bk_db b)" and "\<not> HasVEvent cal" and "VTODOToTask ic parsed cal m = Some task"
    and "k = taskIDFromPath urlPath" and "u = (if TaskID task = [] then k else TaskID task)" and "u \<noteq> []"
  shows "PutCalendarObject md5 ic render debloat pfx m parsed now urlPath cal b =
    (case GetTask k (bk_db b) of
       Inr r \<Rightarrow>
         if Status task = None then Inl (StoreError ErrConstraint)
         else let row = updated_row now (debloated debloat task) r
              in Inr (taskToCalendarObject md5 render pfx row,
                   b\<lparr>bk_db := (bk_db b)\<lparr>tasks := upsert k row (tasks (bk_db b))\<rparr>, bk_notified := bk_notified b + 1\<rparr>)
     | Inl _ \<Rightarrow>
         if map_of (tasks (bk_db b)) u \<noteq> None then Inl (StoreError ErrConstraint)
         else let row = created_row md5 now ((debloated debloat task)\<lparr>TaskID := u\<rparr>)
              in Inr (taskToCalendarObject md5 render pfx row,
                   b\<lparr>bk_db := (bk_db b)\<lparr>tasks := tasks (bk_db b) @ [(u, row)]\<rparr>, bk_notified := bk_notified b + 1\<rparr>))"
  using assms by (rule PutCalendarObject_cases)

definition ex_vtodo :: "string \<Rightarrow> Component" where
  "ex_vtodo uid = Component ''VCALENDAR'' []
     [set_text ex_ical ''STATUS'' ''COMPLETED'' (set_text ex_ical ''UID'' uid (Component ''VTODO'' [] []))]"

definition ex_backend :: backend where
  "ex_backend = \<lparr>bk_db = ex_db, bk_notified = 0\<rparr>"

theorem PutCalendarObject_outcome_witness:
  "\<exists>obj b'. PutCalendarObject id ex_ical (\<lambda>t. TaskToVTODO ex_ical 0 t []) None [] [] 6 7 (ObjectPath [] ''b'') (ex_vtodo ''b'') ex_backend =
     Inr (obj, b') \<and> bk_notified b' = 1"
proof -
  have v: "VTODOToTask ex_ical 6 (ex_vtodo ''b'') [] = Some (vtodo_fields ex_ical 6 [] (hd (Children (ex_vtodo ''b''))))"
    by code_simp
  have "\<not> HasVEvent (ex_vtodo ''b'')" by code_simp
  moreover have "taskIDFromPath (ObjectPath [] ''b'') = ''b''" by code_simp
  moreover have "GetTask ''b'' ex_db = Inl ErrNotFound" "map_of (tasks ex_db) ''b'' = None" by code_simp+
  moreover have "TaskID (vtodo_fields ex_ical 6 [] (hd (Children (ex_vtodo ''b'')))) = ''b''" by code_simp
  ultimately show ?thesis
    using PutCalendarObject_outcome [of ex_backend "ex_vtodo ''b''" ex_ical 6 "[]" _ "''b''" "ObjectPath [] ''b''" "''b''" id
        "\<lambda>t. TaskToVTODO ex_ical 0 t []" None "[]" 7, OF _ _ v] ex_db_inv
    by (simp add: ex_backend_def Let_def)
qed

text \<open>
  A resource whose name is not its UID is written once and then out of reach: after the PUT
  that creates it, the path it was put to does not resolve, and putting to it again fails.
\<close>

theorem put_foreign_path:
  assumes "db_inv (bk_db b)" and "\<not> HasVEvent cal" and "VTODOToTask ic parsed cal m = Some task"
    and "k = taskIDFromPath urlPath" and "k \<noteq> []" and "TaskID task \<noteq> []" and "TaskID task \<noteq> k"
    and "map_of (tasks (bk_db b)) k = None"
    and "PutCalendarObject md5 ic render debloat pfx m parsed now urlPath cal b = Inr (obj, b')"
  shows "GetCalendarObject md5 render pfx urlPath b' = Inl (StoreError ErrNotFound) \<and>
    PutCalendarObject md5 ic render debloat pfx m parsed now' urlPath cal b' = Inl (StoreError ErrConstraint)"
proof -
  let ?u = "TaskID task" and ?row = "created_row md5 now ((debloated debloat task)\<lparr>TaskID := TaskID task\<rparr>)"
  have g: "GetTask k (bk_db b) = Inl ErrNotFound" using assms(8) by (simp add: GetTask_def)
  note put = PutCalendarObject_cases [OF assms(1-4), of ?u md5 render debloat pfx now]
  have free: "map_of (tasks (bk_db b)) ?u = None"
    using assms(6,9) put g by (auto split: if_splits)
  have b': "bk_db b' = (bk_db b)\<lparr>tasks := tasks (bk_db b) @ [(?u, ?row)]\<rparr>"
    using assms(6,9) put g free by (auto simp: Let_def)
  have "row_ok (?u, ?row)"
    using create_defaults_ok [of "(debloated debloat task)\<lparr>TaskID := ?u\<rparr>" md5 now] VTODOToTask_flags [OF assms(3)] assms(6)
    by (simp add: created_row_def create_defaults_def)
  then have i: "db_inv (bk_db b')" using db_inv_append [OF assms(1) _ free] by (simp add: b')
  have g': "GetTask k (bk_db b') = Inl ErrNotFound" using assms(7,8) by (simp add: GetTask_def b' map_add_def)
  have taken: "map_of (tasks (bk_db b')) ?u \<noteq> None" using free by (simp add: b' map_add_def)
  show ?thesis
    using PutCalendarObject_cases [OF i assms(2-4), of ?u md5 render debloat pfx now'] g' taken assms(4-6)
    by (simp add: GetCalendarObject_def store_result_def)
qed

theorem put_foreign_path_witness:
  "\<exists>obj b'. PutCalendarObject id ex_ical (\<lambda>t. TaskToVTODO ex_ical 0 t []) None [] [] 6 7 (ObjectPath [] ''x'') (ex_vtodo ''b'') ex_backend =
     Inr (obj, b') \<and>
   PutCalendarObject id ex_ical (\<lambda>t. TaskToVTODO ex_ical 0 t []) None [] [] 6 9 (ObjectPath [] ''x'') (ex_vtodo ''b'') b' =
     Inl (StoreError ErrConstraint)"
proof -
  have v: "VTODOToTask ex_ical 6 (ex_vtodo ''b'') [] = Some (vtodo_fields ex_ical 6 [] (hd (Children (ex_vtodo ''b''))))"
    by code_simp
  have h: "\<not> HasVEvent (ex_vtodo ''b'')" and k: "''x'' = taskIDFromPath (ObjectPath [] ''x'')" by code_simp+
  have u: "TaskID (vtodo_fields ex_ical 6 [] (hd (Children (ex_vtodo ''b'')))) = ''b''" by code_simp
  have n: "map_of (tasks (bk_db ex_backend)) ''x'' = None" "map_of (tasks (bk_db ex_backend)) ''b'' = None" by code_simp+
  have i: "db_inv (bk_db ex_backend)" by (simp add: ex_backend_def ex_db_inv)
  obtain obj b' where p: "PutCalendarObject id ex_ical (\<lambda>t. TaskToVTODO ex_ical 0 t []) None [] [] 6 7
      (ObjectPath [] ''x'') (ex_vtodo ''b'') ex_backend = Inr (obj, b')"
    using PutCalendarObject_cases [OF i h v k, of "''b''" id "\<lambda>t. TaskToVTODO ex_ical 0 t []" None "[]" 7] n u
    by (simp add: GetTask_def Let_def)
  show ?thesis
    using put_foreign_path [OF i h v k _ _ _ n(1) p, of 9] p u by simp
qed

end
