(* ===== verification/Task_Service.thy ===== *)
theory Task_Service
  imports Vtodo
begin

text \<open>
  The task service behind the REST and MCP surfaces (\<open>internal/service/task.go\<close>): create, patch,
  complete, delete and purge, singly and in bulk, and the projection of a stored task to its
  public form. A failing operation keeps the state it had reached, so every operation returns
  its outcome next to the state. Each operation reads the clock itself (\<open>now\<close>) and the store
  reads it again (\<open>now'\<close>). Notifications to the device are counted.
\<close>

section \<open>Data\<close>

datatype service_error =
    NotAvailable | TitleRequired | TitleEmpty | BadDays | StoreFailed task_error

record TaskForestNote =
  fnNotebookID :: string
  fnPageID :: string
  fnNotebookName :: string
  fnSource :: string
  fnNativeURL :: string

record TaskView =
  vID :: string
  vTitle :: string
  vStatus :: string
  vCreatedAt :: millis
  vDueAt :: "millis option"
  vCompletedAt :: "millis option"
  vDetail :: "string option"
  vURL :: "string option"
  vPriority :: "string option"
  vDeleted :: bool
  vForestNote :: "TaskForestNote option"
  vCategories :: "string list"
  vComment :: string
  vAttachments :: "BlobAttachment list"

record TaskCreateInput =
  cTitle :: string
  cDueAt :: "millis option"
  cDetail :: string
  cURL :: string
  cPriority :: string
  cCategories :: "string list"
  cComment :: string

record TaskPatch =
  pTitle :: "string option"
  pDueAt :: "millis option"
  pClearDueAt :: bool
  pDetail :: "string option"
  pURL :: "string option"
  pClearURL :: bool
  pPriority :: "string option"
  pClearPriority :: bool
  pCategories :: "string list option"
  pComment :: "string option"
  pClearComment :: bool

record task_service =
  sv_store :: "task_db option"
  sv_notified :: nat

section \<open>The public form of a task\<close>

definition nonempty :: "string option \<Rightarrow> string option" where
  "nonempty ns = (if filled ns then ns else None)"

definition forest_note :: "Task \<Rightarrow> TaskForestNote option" where
  "forest_note it =
     (if ForestNoteNotebookID it \<noteq> None \<or> ForestNotePageID it \<noteq> None \<or>
         ForestNoteNotebookName it \<noteq> None \<or> ForestNoteSource it \<noteq> None
      then Some \<lparr>fnNotebookID = NullStr (ForestNoteNotebookID it), fnPageID = NullStr (ForestNotePageID it),
             fnNotebookName = NullStr (ForestNoteNotebookName it), fnSource = NullStr (ForestNoteSource it),
             fnNativeURL = []\<rparr>
      else None)"

definition mapInternalTask :: "ical \<Rightarrow> Task \<Rightarrow> TaskView" where
  "mapInternalTask ic it =
     (let v = \<lparr>vID = TaskID it, vTitle = NullStr (Title it), vStatus = NullStr (Status it), vCreatedAt = CreatedAt it,
              vDueAt = (if DueTime it > 0 then Some (DueTime it) else None),
              vCompletedAt = (case CompletionTime it of (ct, True) \<Rightarrow> ct | _ \<Rightarrow> None),
              vDetail = Detail it, vURL = nonempty (Links it), vPriority = nonempty (Importance it),
              vDeleted = (IsDeleted it = ''Y''), vForestNote = forest_note it,
              vCategories = [], vComment = [], vAttachments = []\<rparr>
      in if filled (ICalBlob it) then
           let meta = ParseBlobMetadata ic (NullStr (ICalBlob it))
           in v\<lparr>vCategories := Categories meta,
                vForestNote := (if NativeURL meta \<noteq> [] then map_option (\<lambda>f. f\<lparr>fnNativeURL := NativeURL meta\<rparr>) (vForestNote v)
                                else vForestNote v),
                vComment := Comment meta, vAttachments := Attachments meta\<rparr>
         else v)"

section \<open>Operations\<close>

definition notify :: "task_service \<Rightarrow> task_service" where
  "notify s = s\<lparr>sv_notified := Suc (sv_notified s)\<rparr>"

definition svcList :: "ical \<Rightarrow> task_service \<Rightarrow> TaskView list" where
  "svcList ic s = (case sv_store s of None \<Rightarrow> [] | Some db \<Rightarrow> map (mapInternalTask ic) (ListTasks db))"

definition svcListIncludingDeleted :: "ical \<Rightarrow> task_service \<Rightarrow> TaskView list" where
  "svcListIncludingDeleted ic s =
     (case sv_store s of None \<Rightarrow> [] | Some db \<Rightarrow> map (mapInternalTask ic) (ListIncludingDeleted db))"

definition svcGet :: "ical \<Rightarrow> string \<Rightarrow> task_service \<Rightarrow> service_error + TaskView" where
  "svcGet ic taskID s =
     (case sv_store s of
        None \<Rightarrow> Inl NotAvailable
      | Some db \<Rightarrow> (case GetTask taskID db of Inl e \<Rightarrow> Inl (StoreFailed e) | Inr t \<Rightarrow> Inr (mapInternalTask ic t)))"

definition new_task :: "(string \<Rightarrow> string) \<Rightarrow> ical \<Rightarrow> millis \<Rightarrow> TaskCreateInput \<Rightarrow> Task" where
  "new_task md5 ic now input =
     (let taskID = GenerateTaskID md5 (cTitle input) now;
          blob = BuildBlobWithMetadata ic now taskID
                   \<lparr>Categories = cCategories input, NativeURL = [], Comment = cComment input, Attachments = []\<rparr>
      in zero_task\<lparr>TaskID := taskID, Title := SqlStr (cTitle input), Status := SqlStr ''needsAction'', IsDeleted := ''N'',
           DueTime := (case cDueAt input of Some d \<Rightarrow> d | None \<Rightarrow> 0), Detail := SqlStr (cDetail input),
           Links := SqlStr (cURL input), Importance := SqlStr (cPriority input),
           ICalBlob := (if cCategories input \<noteq> [] \<or> cComment input \<noteq> [] then SqlStr blob else None)\<rparr>)"

definition svcCreate ::
  "(string \<Rightarrow> string) \<Rightarrow> ical \<Rightarrow> millis \<Rightarrow> millis \<Rightarrow> TaskCreateInput \<Rightarrow> task_service \<Rightarrow>
   (service_error + TaskView) \<times> task_service" where
  "svcCreate md5 ic now now' input s =
     (case sv_store s of
        None \<Rightarrow> (Inl NotAvailable, s)
      | Some db \<Rightarrow>
          if cTitle input = [] then (Inl TitleRequired, s)
          else case CreateTask md5 now' (new_task md5 ic now input) db of
                 Inl e \<Rightarrow> (Inl (StoreFailed e), s)
               | Inr (t, db') \<Rightarrow> (Inr (mapInternalTask ic t), notify (s\<lparr>sv_store := Some db'\<rparr>)))"

definition patched_task :: "ical \<Rightarrow> millis \<Rightarrow> TaskPatch \<Rightarrow> Task \<Rightarrow> Task" where
  "patched_task ic now patch t =
     (let merged = MergeBlobMetadataPatch ic now (TaskID t) (NullStr (ICalBlob t))
            \<lparr>CategoriesPtr = pCategories patch, CommentPtr = pComment patch, ClearComment = pClearComment patch, NativeURLPtr = None\<rparr>
      in t\<lparr>Title := (case pTitle patch of Some x \<Rightarrow> SqlStr x | None \<Rightarrow> Title t),
           DueTime := (if pClearDueAt patch then 0 else case pDueAt patch of Some d \<Rightarrow> d | None \<Rightarrow> DueTime t),
           Detail := (case pDetail patch of Some x \<Rightarrow> SqlStr x | None \<Rightarrow> Detail t),
           Links := (if pClearURL patch then SqlStr [] else case pURL patch of Some x \<Rightarrow> SqlStr x | None \<Rightarrow> Links t),
           Importance := (if pClearPriority patch then SqlStr [] else case pPriority patch of Some x \<Rightarrow> SqlStr x | None \<Rightarrow> Importance t),
           ICalBlob := (if pCategories patch \<noteq> None \<or> pComment patch \<noteq> None \<or> pClearComment patch
                        then SqlStr merged else ICalBlob t)\<rparr>)"

definition svcUpdate ::
  "ical \<Rightarrow> millis \<Rightarrow> millis \<Rightarrow> string \<Rightarrow> TaskPatch \<Rightarrow> task_service \<Rightarrow> (service_error + TaskView) \<times> task_service" where
  "svcUpdate ic now now' taskID patch s =
     (case sv_store s of
        None \<Rightarrow> (Inl NotAvailable, s)
      | Some db \<Rightarrow>
          (case GetTask taskID db of
             Inl e \<Rightarrow> (Inl (StoreFailed e), s)
           | Inr t \<Rightarrow>
               if pTitle patch = Some [] then (Inl TitleEmpty, s)
               else case UpdateTask now' (patched_task ic now patch t) db of
                      Inl e \<Rightarrow> (Inl (StoreFailed e), s)
                    | Inr (t', db') \<Rightarrow> (Inr (mapInternalTask ic t'), notify (s\<lparr>sv_store := Some db'\<rparr>))))"

definition completed_task :: "millis \<Rightarrow> Task \<Rightarrow> Task" where
  "completed_task now t =
     t\<lparr>Status := SqlStr ''completed'', CompletedAt := (case CompletedAt t of None \<Rightarrow> Some now | c \<Rightarrow> c)\<rparr>"

definition svcComplete ::
  "millis \<Rightarrow> millis \<Rightarrow> string \<Rightarrow> task_service \<Rightarrow> service_error option \<times> task_service" where
  "svcComplete now now' taskID s =
     (case sv_store s of
        None \<Rightarrow> (Some NotAvailable, s)
      | Some db \<Rightarrow>
          (case GetTask taskID db of
             Inl e \<Rightarrow> (Some (StoreFailed e), s)
           | Inr t \<Rightarrow>
               (case UpdateTask now' (completed_task now t) db of
                  Inl e \<Rightarrow> (Some (StoreFailed e), s)
                | Inr (_, db') \<Rightarrow> (None, notify (s\<lparr>sv_store := Some db'\<rparr>)))))"

definition svcDelete :: "millis \<Rightarrow> string \<Rightarrow> task_service \<Rightarrow> service_error option \<times> task_service" where
  "svcDelete now taskID s =
     (case sv_store s of
        None \<Rightarrow> (Some NotAvailable, s)
      | Some db \<Rightarrow>
          (case DeleteTask now taskID db of
             Inl e \<Rightarrow> (Some (StoreFailed e), s)
           | Inr db' \<Rightarrow> (None, notify (s\<lparr>sv_store := Some db'\<rparr>))))"

definition PurgeCompleted :: "millis \<Rightarrow> task_service \<Rightarrow> nat \<times> task_service" where
  "PurgeCompleted now s =
     (case sv_store s of
        None \<Rightarrow> (0, s)
      | Some db \<Rightarrow> (case DeleteCompleted now db of (n, db') \<Rightarrow> (n, notify (s\<lparr>sv_store := Some db'\<rparr>))))"

text \<open>The cutoff: \<open>-time.Duration(olderThanDays) * 24 * time.Hour\<close> is a product of 64-bit nanosecond
  counts, added to the clock reading \<open>nowNs\<close> in nanoseconds.\<close>

definition purge_cutoff :: "int \<Rightarrow> int \<Rightarrow> millis" where
  "purge_cutoff nowNs olderThanDays =
     (nowNs + wrap64 (wrap64 (- olderThanDays * 24) * 3600000000000)) div 1000000"

definition PurgeDeleted ::
  "int \<Rightarrow> millis \<Rightarrow> int \<Rightarrow> task_service \<Rightarrow> (service_error + nat \<times> nat) \<times> task_service" where
  "PurgeDeleted nowNs now' olderThanDays s =
     (case sv_store s of
        None \<Rightarrow> (Inr (0, 0), s)
      | Some db \<Rightarrow>
          if olderThanDays \<le> 0 then (Inl BadDays, s)
          else case HardDeleteOlderThan now' (purge_cutoff nowNs olderThanDays) db of
                 (purged, skipped, db') \<Rightarrow> (Inr (purged, skipped), s\<lparr>sv_store := Some db'\<rparr>))"

text \<open>The bulk operations stop at the first failure and report the id it happened at; what was
  done before it stays done. The clock readings of the successive calls are the list \<open>clock\<close>.\<close>

fun BulkComplete ::
  "(millis \<times> millis) list \<Rightarrow> string list \<Rightarrow> task_service \<Rightarrow> (string \<times> service_error) option \<times> task_service" where
  "BulkComplete ((now, now') # clock) (taskID # ids) s =
     (case svcComplete now now' taskID s of
        (Some e, s') \<Rightarrow> (Some (taskID, e), s')
      | (None, s') \<Rightarrow> BulkComplete clock ids s')"
| "BulkComplete _ _ s = (None, s)"

fun BulkDelete :: "millis list \<Rightarrow> string list \<Rightarrow> task_service \<Rightarrow> (string \<times> service_error) option \<times> task_service" where
  "BulkDelete (now # clock) (taskID # ids) s =
     (case svcDelete now taskID s of
        (Some e, s') \<Rightarrow> (Some (taskID, e), s')
      | (None, s') \<Rightarrow> BulkDelete clock ids s')"
| "BulkDelete _ _ s = (None, s)"

section \<open>Completing tasks\<close>

text \<open>The row of a completed task: the status, the stamps and, when it had none, the completion
  instant.\<close>

definition completed_row :: "millis \<Rightarrow> millis \<Rightarrow> Task \<Rightarrow> Task" where
  "completed_row now now' r =
     r\<lparr>Status := Some ''completed'', CompletedAt := (case CompletedAt r of None \<Rightarrow> Some now | c \<Rightarrow> c),
       LastModified := Some now', UpdatedAt := now'\<rparr>"

lemma svcComplete_ok:
  assumes "db_inv db" and "sv_store s = Some db" and "map_of (tasks db) k = Some r" and "live_task r"
  shows "svcComplete now now' k s =
    (None, s\<lparr>sv_store := Some (db\<lparr>tasks := upsert k (completed_row now now' r) (tasks db)\<rparr>), sv_notified := sv_notified s + 1\<rparr>)"
proof -
  have "TaskID r = k" "CompletedTime r \<noteq> None" using db_inv_row [OF assms(1,3)] by (auto simp: row_ok_def)
  moreover have "write_columns ((completed_task now r)\<lparr>LastModified := Some now', UpdatedAt := now'\<rparr>) r = completed_row now now' r"
    by (cases r) (simp add: write_columns_def completed_task_def completed_row_def SqlStr_def)
  ultimately show ?thesis
    using assms(2-4)
    by (simp add: svcComplete_def GetTask_def UpdateTask_def Let_def completed_task_def SqlStr_def notify_def)
qed

lemma svcComplete_missing:
  assumes "sv_store s = Some db" and "\<And>r. map_of (tasks db) k = Some r \<Longrightarrow> \<not> live_task r"
  shows "svcComplete now now' k s = (Some (StoreFailed ErrNotFound), s)"
  using assms by (simp add: svcComplete_def GetTask_def split: option.split)

definition live_id :: "task_db \<Rightarrow> string \<Rightarrow> bool" where
  "live_id db k = (case map_of (tasks db) k of Some r \<Rightarrow> live_task r | None \<Rightarrow> False)"

text \<open>What completing may do to a row: it changes nothing but the status, the two stamps and a
  missing completion instant.\<close>

definition completes_to :: "Task \<Rightarrow> Task \<Rightarrow> bool" where
  "completes_to r r' \<longleftrightarrow>
     r' = r\<lparr>Status := Some ''completed'', CompletedAt := CompletedAt r', LastModified := LastModified r', UpdatedAt := UpdatedAt r'\<rparr> \<and>
     CompletedAt r' \<noteq> None \<and> (CompletedAt r \<noteq> None \<longrightarrow> CompletedAt r' = CompletedAt r)"

lemma completes_to_row: "completes_to r (completed_row now now' r)"
  by (cases "CompletedAt r") (simp_all add: completes_to_def completed_row_def)

lemma completes_to_trans: "completes_to r r' \<Longrightarrow> completes_to r' r'' \<Longrightarrow> completes_to r r''"
  by (cases r; cases r'; cases r'') (auto simp: completes_to_def)

lemma completed_row_ok: "row_ok (k, r) \<Longrightarrow> row_ok (k, completed_row now now' r)"
  by (simp add: row_ok_def completed_row_def)

lemma live_id_complete:
  "live_id (db\<lparr>tasks := upsert k (completed_row now now' r) (tasks db)\<rparr>) = live_id db"
  if "map_of (tasks db) k = Some r"
  using that by (intro ext) (simp add: live_id_def completed_row_def live_task_def)

lemma BulkComplete_run:
  assumes "db_inv db" and "sv_store s = Some db" and "length clock = length ids"
  shows "\<exists>db'. BulkComplete clock ids s =
      (let ok = takeWhile (live_id db) ids
       in (if ok = ids then None else Some (ids ! length ok, StoreFailed ErrNotFound),
           s\<lparr>sv_store := Some db', sv_notified := sv_notified s + length ok\<rparr>)) \<and>
    (\<forall>k. if k \<in> set (takeWhile (live_id db) ids)
         then \<exists>r r'. map_of (tasks db) k = Some r \<and> map_of (tasks db') k = Some r' \<and> completes_to r r'
         else map_of (tasks db') k = map_of (tasks db) k)"
  using assms
proof (induction ids arbitrary: clock db s)
  case Nil
  then show ?case by (intro exI [of _ db]) (cases clock; simp)
next
  case (Cons k ids)
  then obtain now now' clk where c: "clock = (now, now') # clk" "length clk = length ids"
    by (cases clock) auto
  show ?case
  proof (cases "live_id db k")
    case False
    then have "svcComplete now now' k s = (Some (StoreFailed ErrNotFound), s)"
      using Cons.prems(2) by (intro svcComplete_missing) (auto simp: live_id_def)
    then show ?thesis using False c Cons.prems(2) by (intro exI [of _ db]) simp
  next
    case True
    then obtain r where r: "map_of (tasks db) k = Some r" "live_task r"
      by (auto simp: live_id_def split: option.splits)
    let ?db = "db\<lparr>tasks := upsert k (completed_row now now' r) (tasks db)\<rparr>"
    let ?s = "s\<lparr>sv_store := Some ?db, sv_notified := sv_notified s + 1\<rparr>"
    have i: "db_inv ?db" using Cons.prems(1) r(1) by (intro db_inv_put completed_row_ok db_inv_row) simp_all
    have l: "live_id ?db = live_id db" using r(1) by (rule live_id_complete)
    obtain db' where db': "BulkComplete clk ids ?s =
        (let ok = takeWhile (live_id db) ids
         in (if ok = ids then None else Some (ids ! length ok, StoreFailed ErrNotFound),
             ?s\<lparr>sv_store := Some db', sv_notified := sv_notified ?s + length ok\<rparr>))"
      and rows: "\<And>k'. if k' \<in> set (takeWhile (live_id db) ids)
         then \<exists>r r'. map_of (tasks ?db) k' = Some r \<and> map_of (tasks db') k' = Some r' \<and> completes_to r r'
         else map_of (tasks db') k' = map_of (tasks ?db) k'"
      using Cons.IH [OF i _ c(2), of ?s] unfolding l by auto
    have all: "if k' \<in> set (takeWhile (live_id db) (k # ids))
         then \<exists>r r'. map_of (tasks db) k' = Some r \<and> map_of (tasks db') k' = Some r' \<and> completes_to r r'
         else map_of (tasks db') k' = map_of (tasks db) k'" for k'
      using rows [of k'] r(1) True completes_to_row [of r now now']
        completes_to_trans [OF completes_to_row [of r now now']]
      by (cases "k' = k") (auto split: if_splits)
    have "BulkComplete clock (k # ids) s = BulkComplete clk ids ?s"
      using svcComplete_ok [OF Cons.prems(1,2) r, of now now'] by (simp add: c(1))
    then have "BulkComplete clock (k # ids) s =
        (let ok = takeWhile (live_id db) (k # ids)
         in (if ok = k # ids then None else Some ((k # ids) ! length ok, StoreFailed ErrNotFound),
             s\<lparr>sv_store := Some db', sv_notified := sv_notified s + length ok\<rparr>))"
      using True db' by (simp add: Let_def)
    with all show ?thesis by blast
  qed
qed

text \<open>
  Bulk completion completes exactly the ids before the first one that names no live task,
  reports that id, and notifies the device once per completed task. A completed row keeps every
  other column, and the completion instant of a task that was already complete is not moved; all
  other rows are untouched.
\<close>

theorem BulkComplete_effect:
  assumes "db_inv db" and "sv_store s = Some db" and "length clock = length ids"
  shows "\<exists>db'. BulkComplete clock ids s =
      (let ok = takeWhile (live_id db) ids
       in (if ok = ids then None else Some (ids ! length ok, StoreFailed ErrNotFound),
           s\<lparr>sv_store := Some db', sv_notified := sv_notified s + length ok\<rparr>)) \<and>
    (\<forall>k. if k \<in> set (takeWhile (live_id db) ids)
         then \<exists>r r'. map_of (tasks db) k = Some r \<and> map_of (tasks db') k = Some r' \<and> completes_to r r'
         else map_of (tasks db') k = map_of (tasks db) k)"
  using assms by (rule BulkComplete_run)

theorem BulkComplete_effect_witness:
  "\<exists>db'. BulkComplete [(20, 21), (22, 23), (24, 25)] [''b'', ''a'', ''b''] \<lparr>sv_store = Some ex_db2, sv_notified = 0\<rparr> =
     (Some (''a'', StoreFailed ErrNotFound), \<lparr>sv_store = Some db', sv_notified = 1\<rparr>)"
proof -
  have i: "db_inv ex_db2" using ex_db_run ex_db_inv by (rule task_run_inv)
  have "takeWhile (live_id ex_db2) [''b'', ''a'', ''b''] = [''b'']" by code_simp
  then show ?thesis
    using BulkComplete_effect [OF i, of "\<lparr>sv_store = Some ex_db2, sv_notified = 0\<rparr>" "[(20, 21), (22, 23), (24, 25)]" "[''b'', ''a'', ''b'']"]
    by auto
qed

section \<open>The purge window\<close>

lemma purge_cutoff_exact:
  assumes "0 < days" and "days \<le> 106751"
  shows "purge_cutoff nowNs days = (nowNs - days * 86400000000000) div 1000000"
proof -
  have "int64 (- days * 24)" "int64 (- days * 24 * 3600000000000)" using assms by (simp_all add: int64_def)
  then show ?thesis by (simp add: purge_cutoff_def wrap64_id algebra_simps)
qed

lemma PurgeDeleted_tasks:
  assumes "sv_store s = Some db" and "0 < days"
  shows "\<exists>purged skipped db'. PurgeDeleted nowNs now' days s = (Inr (purged, skipped), s\<lparr>sv_store := Some db'\<rparr>) \<and>
    tasks db' = filter (\<lambda>(_, t). \<not> purgeable (purge_cutoff nowNs days) t) (tasks db)"
proof -
  obtain n m db' where h: "HardDeleteOlderThan now' (purge_cutoff nowNs days) db = (n, m, db')" by (rule prod_cases3)
  then have "tasks db' = filter (\<lambda>(_, t). \<not> purgeable (purge_cutoff nowNs days) t) (tasks db)"
    using HardDelete_tasks [of now' "purge_cutoff nowNs days" db] by simp
  moreover have "PurgeDeleted nowNs now' days s = (Inr (n, m), s\<lparr>sv_store := Some db'\<rparr>)"
    using h assms by (simp add: PurgeDeleted_def)
  ultimately show ?thesis by blast
qed

text \<open>
  The purge of deleted tasks keeps its safety window up to 106751 days: exactly the tombstones
  stamped before the instant that many days back are removed, so no live task and nothing deleted
  within the window is lost. At 106752 days the 64-bit nanosecond count wraps around, the cutoff
  lies in the future, and every tombstone is removed at once.
\<close>

theorem PurgeDeleted_window:
  assumes "sv_store s = Some db" and "0 < days" and "days \<le> 106752"
    and "\<forall>(_, t) \<in> set (tasks db). UpdatedAt t * 1000000 \<le> nowNs"
  shows "\<exists>purged skipped db'. PurgeDeleted nowNs now' days s = (Inr (purged, skipped), s\<lparr>sv_store := Some db'\<rparr>) \<and>
    tasks db' = filter (\<lambda>(_, t). \<not> (IsDeleted t = ''Y'' \<and>
      (days \<le> 106751 \<longrightarrow> UpdatedAt t < (nowNs - days * 86400000000000) div 1000000))) (tasks db)"
proof -
  obtain purged skipped db' where p: "PurgeDeleted nowNs now' days s = (Inr (purged, skipped), s\<lparr>sv_store := Some db'\<rparr>)"
    "tasks db' = filter (\<lambda>(_, t). \<not> purgeable (purge_cutoff nowNs days) t) (tasks db)"
    using PurgeDeleted_tasks [OF assms(1,2)] by blast
  have "purgeable (purge_cutoff nowNs days) t \<longleftrightarrow> IsDeleted t = ''Y'' \<and>
      (days \<le> 106751 \<longrightarrow> UpdatedAt t < (nowNs - days * 86400000000000) div 1000000)"
    if "(k, t) \<in> set (tasks db)" for k t
  proof (cases "days \<le> 106751")
    case True
    then show ?thesis using purge_cutoff_exact [OF assms(2) True] by (simp add: purgeable_def)
  next
    case False
    then have "days = 106752" using assms(3) by simp
    then have "purge_cutoff nowNs days = (nowNs + 9223371273709551616) div 1000000"
      by (simp add: purge_cutoff_def wrap64_def)
    moreover have "UpdatedAt t * 1000000 \<le> nowNs" using assms(4) that by auto
    then have "UpdatedAt t < (nowNs + 9223371273709551616) div 1000000" by linarith
    ultimately show ?thesis using False by (simp add: purgeable_def)
  qed
  then have "filter (\<lambda>(_, t). \<not> purgeable (purge_cutoff nowNs days) t) (tasks db) =
      filter (\<lambda>(_, t). \<not> (IsDeleted t = ''Y'' \<and>
        (days \<le> 106751 \<longrightarrow> UpdatedAt t < (nowNs - days * 86400000000000) div 1000000))) (tasks db)"
    by (intro filter_cong) auto
  with p show ?thesis by auto
qed

theorem PurgeDeleted_window_witness:
  "\<exists>purged skipped db'. PurgeDeleted 20000000 20 106752 \<lparr>sv_store = Some ex_db2, sv_notified = 0\<rparr> =
      (Inr (purged, skipped), \<lparr>sv_store = Some db', sv_notified = 0\<rparr>) \<and> map fst (tasks db') = [''b'']"
proof -
  have "\<forall>(_, t) \<in> set (tasks ex_db2). UpdatedAt t * 1000000 \<le> 20000000" by code_simp
  moreover have "map fst (filter (\<lambda>(_, t). \<not> (IsDeleted t = ''Y'')) (tasks ex_db2)) = [''b'']" by code_simp
  ultimately show ?thesis
    using PurgeDeleted_window [of "\<lparr>sv_store = Some ex_db2, sv_notified = 0\<rparr>" ex_db2 106752 20000000 20] by auto
qed

text \<open>The view returned by a create does not carry the creation time the store has just given the
  row: it reports the epoch.\<close>

lemma svcCreate_created_at:
  assumes "svcCreate md5 ic now now' input s = (Inr v, s')"
  shows "vCreatedAt v = 0"
proof -
  have "CreatedAt (create_defaults md5 now' (new_task md5 ic now input)) = 0"
    by (simp add: create_defaults_def new_task_def Let_def zero_task_def)
  then show ?thesis
    using assms by (auto simp: svcCreate_def CreateTask_def mapInternalTask_def Let_def split: option.splits if_splits sum.splits)
qed

end
