(* ===== verification/Job_Queue.thy ===== *)
theory Job_Queue
  imports Prelude "HOL-Library.Multiset"
begin

text \<open>
  The background OCR job queue (\<open>internal/processor/processor.go\<close>, \<open>watchdog.go\<close> and the job
  bookkeeping of \<open>worker.go\<close>): one row per note, claimed by the worker in queue order, finished,
  requeued, skipped or reclaimed by the watchdog. Times are seconds. The jobs are listed in id
  order; \<open>known_notes\<close> are the known note paths the foreign key refers to.
\<close>

section \<open>Jobs\<close>

datatype job_status = StatusPending | StatusInProgress | StatusDone | StatusFailed | StatusSkipped

record Job =
  ID :: int
  NotePath :: string
  JStatus :: job_status
  SkipReason :: "string option"
  OCRSource :: "string option"
  APIModel :: "string option"
  Attempts :: nat
  LastError :: "string option"
  QueuedAt :: "int option"
  StartedAt :: "int option"
  FinishedAt :: "int option"
  RequeueAfter :: "int option"

record job_store =
  known_notes :: "string list"
  jobs :: "Job list"

datatype job_error = ForeignKey | NotInProgress

definition has_path :: "string \<Rightarrow> Job \<Rightarrow> bool" where
  "has_path path j \<longleftrightarrow> NotePath j = path"

definition find_job :: "string \<Rightarrow> Job list \<Rightarrow> Job option" where
  "find_job path js = find (has_path path) js"

definition new_job :: "string \<Rightarrow> job_status \<Rightarrow> string option \<Rightarrow> int \<Rightarrow> int option \<Rightarrow> Job list \<Rightarrow> Job" where
  "new_job path st reason now requeueAfter js =
     \<lparr>ID = fold max (map ID js) 0 + 1, NotePath = path, JStatus = st, SkipReason = reason,
      OCRSource = None, APIModel = None, Attempts = 0, LastError = None, QueuedAt = Some now, StartedAt = None,
      FinishedAt = None, RequeueAfter = requeueAfter\<rparr>"

text \<open>\<open>UPDATE jobs SET ... WHERE\<close>.\<close>

definition update_jobs :: "(Job \<Rightarrow> bool) \<Rightarrow> (Job \<Rightarrow> Job) \<Rightarrow> job_store \<Rightarrow> job_store" where
  "update_jobs P f s = s\<lparr>jobs := map (\<lambda>j. if P j then f j else j) (jobs s)\<rparr>"

section \<open>Operations\<close>

definition Enqueue :: "int \<Rightarrow> string \<Rightarrow> int option \<Rightarrow> job_store \<Rightarrow> job_error + job_store" where
  "Enqueue now path delay s =
     (let requeueAfter = map_option (\<lambda>d. now + d) delay
      in if find_job path (jobs s) = None then
           (if path \<notin> set (known_notes s) then Inl ForeignKey
            else Inr (s\<lparr>jobs := jobs s @ [new_job path StatusPending None now requeueAfter (jobs s)]\<rparr>))
         else Inr (update_jobs (\<lambda>j. has_path path j \<and> JStatus j \<in> {StatusDone, StatusFailed, StatusSkipped})
                (\<lambda>j. j\<lparr>JStatus := StatusPending, QueuedAt := Some now, RequeueAfter := requeueAfter\<rparr>) s))"

definition Skip :: "int \<Rightarrow> string \<Rightarrow> string \<Rightarrow> job_store \<Rightarrow> job_error + job_store" where
  "Skip now path reason s =
     (if find_job path (jobs s) = None then
        (if path \<notin> set (known_notes s) then Inl ForeignKey
         else Inr (s\<lparr>jobs := jobs s @ [new_job path StatusSkipped (Some reason) now None (jobs s)]\<rparr>))
      else Inr (update_jobs (has_path path) (\<lambda>j. j\<lparr>JStatus := StatusSkipped, SkipReason := Some reason\<rparr>) s))"

definition Unskip :: "string \<Rightarrow> job_store \<Rightarrow> job_store" where
  "Unskip path =
     update_jobs (\<lambda>j. has_path path j \<and> JStatus j = StatusSkipped) (\<lambda>j. j\<lparr>JStatus := StatusPending, SkipReason := None\<rparr>)"

definition GetJob :: "string \<Rightarrow> job_store \<Rightarrow> Job option" where
  "GetJob path s = find_job path (jobs s)"

definition eligible :: "int \<Rightarrow> Job \<Rightarrow> bool" where
  "eligible now j \<longleftrightarrow> JStatus j = StatusPending \<and> (case RequeueAfter j of None \<Rightarrow> True | Some r \<Rightarrow> r \<le> now)"

text \<open>\<open>ORDER BY queued_at ASC LIMIT 1\<close>: a missing time sorts first, ties by id.\<close>

definition queue_key :: "Job \<Rightarrow> int \<times> int" where
  "queue_key j = (case QueuedAt j of None \<Rightarrow> (0, 0) | Some q \<Rightarrow> (1, q))"

definition next_job :: "int \<Rightarrow> Job list \<Rightarrow> Job option" where
  "next_job now js = (case sort_key queue_key (filter (eligible now) js) of [] \<Rightarrow> None | j # _ \<Rightarrow> Some j)"

text \<open>\<open>ORDER BY started_at DESC LIMIT 1\<close>: a missing time sorts last.\<close>

definition start_key :: "Job \<Rightarrow> int \<times> int" where
  "start_key j = (case StartedAt j of None \<Rightarrow> (1, 0) | Some t \<Rightarrow> (0, - t))"

definition latest_started :: "Job list \<Rightarrow> Job option" where
  "latest_started js =
     (case sort_key start_key (filter (\<lambda>j. JStatus j = StatusInProgress) js) of [] \<Rightarrow> None | j # _ \<Rightarrow> Some j)"

definition claimNext :: "int \<Rightarrow> job_store \<Rightarrow> Job option \<times> job_store" where
  "claimNext now s =
     (case next_job now (jobs s) of
        None \<Rightarrow> (None, s)
      | Some n \<Rightarrow>
          let s' = update_jobs (\<lambda>j. ID j = ID n) (\<lambda>j. j\<lparr>JStatus := StatusInProgress, StartedAt := Some now\<rparr>) s
          in (latest_started (jobs s'), s'))"

definition markDone :: "int \<Rightarrow> int \<Rightarrow> string \<Rightarrow> job_store \<Rightarrow> job_store" where
  "markDone now jobID errMsg =
     update_jobs (\<lambda>j. ID j = jobID)
       (\<lambda>j. j\<lparr>JStatus := (if errMsg \<noteq> [] then StatusFailed else StatusDone), LastError := Some errMsg,
              FinishedAt := Some now, Attempts := Attempts j + 1\<rparr>)"

definition Requeue :: "int \<Rightarrow> int \<Rightarrow> int \<Rightarrow> job_store \<Rightarrow> job_error + job_store" where
  "Requeue now jobID delay s =
     (if \<exists>j \<in> set (jobs s). ID j = jobID \<and> JStatus j = StatusInProgress
      then Inr (update_jobs (\<lambda>j. ID j = jobID \<and> JStatus j = StatusInProgress)
             (\<lambda>j. j\<lparr>JStatus := StatusPending, RequeueAfter := Some (now + delay), Attempts := Attempts j + 1\<rparr>) s)
      else Inl NotInProgress)"

definition stuckJobTimeout :: int where
  "stuckJobTimeout = 600"

definition reclaimStuck :: "int \<Rightarrow> job_store \<Rightarrow> job_store" where
  "reclaimStuck now =
     update_jobs (\<lambda>j. JStatus j = StatusInProgress \<and> (case StartedAt j of Some t \<Rightarrow> t < now - stuckJobTimeout | None \<Rightarrow> False))
       (\<lambda>j. j\<lparr>JStatus := StatusPending, StartedAt := None, Attempts := Attempts j + 1\<rparr>)"

text \<open>The end of a job by its outcome: skipped with a reason, failed with a message, or done.\<close>

datatype job_outcome = Skipped string | Failed string | Succeeded

definition processJob :: "int \<Rightarrow> Job \<Rightarrow> job_outcome \<Rightarrow> job_store \<Rightarrow> job_store" where
  "processJob now job outcome s =
     (case outcome of
        Skipped reason \<Rightarrow> update_jobs (\<lambda>j. ID j = ID job) (\<lambda>j. j\<lparr>JStatus := StatusSkipped, SkipReason := Some reason\<rparr>) s
      | Failed msg \<Rightarrow> markDone now (ID job) msg s
      | Succeeded \<Rightarrow> markDone now (ID job) [] s)"

record ProcessorStatus =
  psPending :: nat
  psInFlight :: nat
  psDone :: nat
  psFailed :: nat

definition status_count :: "job_status \<Rightarrow> job_store \<Rightarrow> nat" where
  "status_count st s = length (filter (\<lambda>j. JStatus j = st) (jobs s))"

definition JobsStatus :: "job_store \<Rightarrow> ProcessorStatus" where
  "JobsStatus s = \<lparr>psPending = status_count StatusPending s, psInFlight = status_count StatusInProgress s,
     psDone = status_count StatusDone s, psFailed = status_count StatusFailed s\<rparr>"

text \<open>Which failures of a model call are worth a retry.\<close>

definition transientHTTPStatus :: "int \<Rightarrow> bool" where
  "transientHTTPStatus code \<longleftrightarrow> code \<ge> 500 \<or> code = 429 \<or> code = 408"

section \<open>The queue invariant\<close>

definition job_inv :: "job_store \<Rightarrow> bool" where
  "job_inv s \<longleftrightarrow> distinct (map ID (jobs s)) \<and> distinct (map NotePath (jobs s)) \<and>
     set (map NotePath (jobs s)) \<subseteq> set (known_notes s)"

lemma map_update_same: "(\<And>j. f (g j) = f j) \<Longrightarrow> map f (map (\<lambda>j. if P j then g j else j) js) = map f js"
  by simp

lemma update_jobs_inv:
  assumes "\<And>j. ID (f j) = ID j" and "\<And>j. NotePath (f j) = NotePath j"
  shows "job_inv (update_jobs P f s) = job_inv s"
proof -
  have "map ID (jobs (update_jobs P f s)) = map ID (jobs s)"
    and "map NotePath (jobs (update_jobs P f s)) = map NotePath (jobs s)"
    and "known_notes (update_jobs P f s) = known_notes s"
    using assms by (simp_all add: update_jobs_def)
  then show ?thesis by (simp only: job_inv_def)
qed

lemma fold_max_ge: "x \<in> set xs \<Longrightarrow> x \<le> fold max xs (a :: int)"
  and fold_max_init: "a \<le> fold max xs (a :: int)"
proof (induction xs arbitrary: a)
  case (Cons y ys)
  {
    case 1
    then show ?case using Cons(1) Cons(2) [of "max y a"] by (auto simp: max.coboundedI1 intro: order_trans [rotated])
  next
    case 2
    then show ?case using Cons(2) [of "max y a"] by simp
  }
qed simp_all

lemma new_job_fresh: "ID (new_job p st r now q js) \<notin> set (map ID js)"
proof
  assume "ID (new_job p st r now q js) \<in> set (map ID js)"
  then have "ID (new_job p st r now q js) \<le> fold max (map ID js) 0" by (rule fold_max_ge)
  then show False by (simp add: new_job_def)
qed

lemma find_job_None: "find_job p js = None \<longleftrightarrow> p \<notin> set (map NotePath js)"
  by (auto simp: find_job_def has_path_def find_None_iff)

lemma append_job_inv:
  assumes "job_inv s" and "find_job p (jobs s) = None" and "p \<in> set (known_notes s)"
  shows "job_inv (s\<lparr>jobs := jobs s @ [new_job p st r now q (jobs s)]\<rparr>)"
  using assms new_job_fresh [of p st r now q "jobs s"]
  by (auto simp: job_inv_def find_job_None new_job_def)

text \<open>One operation on the queue.\<close>

inductive job_step :: "job_store \<Rightarrow> job_store \<Rightarrow> bool" where
  enqueue: "Enqueue now path delay s = Inr s' \<Longrightarrow> job_step s s'"
| skip: "Skip now path reason s = Inr s' \<Longrightarrow> job_step s s'"
| unskip: "job_step s (Unskip path s)"
| claim: "claimNext now s = (j, s') \<Longrightarrow> job_step s s'"
| process: "job_step s (processJob now job outcome s)"
| requeue: "Requeue now jobID delay s = Inr s' \<Longrightarrow> job_step s s'"
| reclaim: "job_step s (reclaimStuck now s)"

lemma markDone_inv: "job_inv (markDone now i e s) = job_inv s"
  unfolding markDone_def by (rule update_jobs_inv) simp_all

lemma processJob_inv: "job_inv (processJob now job outcome s) = job_inv s"
  by (cases outcome) (auto simp: processJob_def markDone_inv intro!: update_jobs_inv)

lemma job_step_inv: "job_step s s' \<Longrightarrow> job_inv s \<Longrightarrow> job_inv s'"
proof (induction rule: job_step.induct)
  case (enqueue now path delay s s')
  then show ?case
    by (auto simp: Enqueue_def Let_def append_job_inv update_jobs_inv split: if_splits)
next
  case (skip now path reason s s')
  then show ?case by (auto simp: Skip_def append_job_inv update_jobs_inv split: if_splits)
next
  case (claim now s j s')
  then show ?case by (auto simp: claimNext_def Let_def update_jobs_inv split: option.splits)
next
  case (requeue now jobID delay s s')
  then show ?case by (auto simp: Requeue_def update_jobs_inv split: if_splits)
qed (simp_all add: Unskip_def processJob_inv reclaimStuck_def update_jobs_inv)

section \<open>Claiming\<close>

lemma hd_sort_key:
  assumes "x \<in> set xs" and "\<And>y. y \<in> set xs \<Longrightarrow> y \<noteq> x \<Longrightarrow> k x < (k y :: int \<times> int)"
  shows "\<exists>ys. sort_key k xs = x # ys"
proof -
  have "sort_key k xs \<noteq> []" using assms(1) by (metis empty_iff empty_set set_sort)
  then obtain y ys where y: "sort_key k xs = y # ys" by (cases "sort_key k xs") auto
  have "sorted (map k (sort_key k xs))" by simp
  then have "\<forall>z \<in> set xs. k y \<le> k z" using y set_sort [of k xs] by auto
  moreover have "y \<in> set xs" using y by (metis list.set_intros(1) set_sort)
  ultimately have "y = x" using assms by force
  with y show ?thesis by blast
qed

lemma next_job_Some:
  assumes "next_job now js = Some n"
  shows "n \<in> set js" and "eligible now n" and "\<And>j. j \<in> set js \<Longrightarrow> eligible now j \<Longrightarrow> queue_key n \<le> queue_key j"
proof -
  obtain rest where r: "sort_key queue_key (filter (eligible now) js) = n # rest"
    using assms by (auto simp: next_job_def split: list.splits)
  have "n \<in> set (sort_key queue_key (filter (eligible now) js))" by (simp only: r) simp
  then show "n \<in> set js" and "eligible now n" by simp_all
  have "sorted (map queue_key (sort_key queue_key (filter (eligible now) js)))" by simp
  moreover have "set (n # rest) = set (filter (eligible now) js)" by (metis r set_sort)
  ultimately show "queue_key n \<le> queue_key j" if "j \<in> set js" "eligible now j" for j
    using that by (auto simp: r)
qed

lemma next_job_None: "next_job now js = None \<longleftrightarrow> (\<forall>j \<in> set js. \<not> eligible now j)"
proof -
  have "sort_key queue_key (filter (eligible now) js) = [] \<longleftrightarrow> filter (eligible now) js = []"
    by (metis empty_iff empty_set last_in_set set_sort)
  then show ?thesis by (auto simp: next_job_def filter_empty_conv split: list.split)
qed

definition started :: "int \<Rightarrow> Job \<Rightarrow> Job" where
  "started now j = j\<lparr>JStatus := StatusInProgress, StartedAt := Some now\<rparr>"

lemma unique_ID: "job_inv s \<Longrightarrow> i \<in> set (jobs s) \<Longrightarrow> j \<in> set (jobs s) \<Longrightarrow> ID i = ID j \<Longrightarrow> i = j"
  by (auto simp: job_inv_def distinct_map dest: inj_onD)

lemma claimNext_claims:
  assumes "job_inv s" and "next_job now (jobs s) = Some n"
    and "\<And>j. j \<in> set (jobs s) \<Longrightarrow> JStatus j = StatusInProgress \<Longrightarrow> \<exists>t. StartedAt j = Some t \<and> t < now"
  shows "claimNext now s = (Some (started now n), update_jobs (\<lambda>j. ID j = ID n) (started now) s)"
proof -
  let ?js = "map (\<lambda>j. if ID j = ID n then started now j else j) (jobs s)"
  let ?run = "filter (\<lambda>j. JStatus j = StatusInProgress) ?js"
  have n: "n \<in> set (jobs s)" by (rule next_job_Some(1) [OF assms(2)])
  have "started now n \<in> set ?run" using n by (force simp: started_def)
  moreover have "start_key (started now n) < start_key y" if y: "y \<in> set ?run" "y \<noteq> started now n" for y
  proof -
    obtain j where j: "j \<in> set (jobs s)" "y = (if ID j = ID n then started now j else j)" "JStatus y = StatusInProgress"
      using y(1) unfolding set_filter set_map by blast
    have "ID j \<noteq> ID n" using j y(2) unique_ID [OF assms(1) j(1) n] by auto
    with j have eq: "y = j" and run: "JStatus j = StatusInProgress" by simp_all
    obtain t where "StartedAt j = Some t" "t < now" using assms(3) [OF j(1) run] by blast
    then show ?thesis unfolding eq by (simp add: start_key_def started_def)
  qed
  ultimately have "\<exists>ys. sort_key start_key ?run = started now n # ys" by (rule hd_sort_key)
  then obtain ys where "sort_key start_key ?run = started now n # ys" ..
  then have "latest_started ?js = Some (started now n)" by (simp add: latest_started_def)
  then show ?thesis by (simp add: claimNext_def assms(2) Let_def update_jobs_def started_def [symmetric])
qed

text \<open>
  The worker's claim is first come, first served: when no running job was started in the
  current second, a claim takes a pending job whose delay has passed and whose queue time is
  least among them, marks that one row as running and hands back exactly that row; it comes back
  empty handed only when no job is eligible, and then changes nothing.
\<close>

theorem claimNext_fifo:
  assumes "job_inv s"
    and "\<forall>j \<in> set (jobs s). JStatus j = StatusInProgress \<longrightarrow> (\<exists>t. StartedAt j = Some t \<and> t < now)"
  shows "if \<forall>j \<in> set (jobs s). \<not> eligible now j then claimNext now s = (None, s)
    else \<exists>n \<in> set (jobs s). eligible now n \<and> (\<forall>j \<in> set (jobs s). eligible now j \<longrightarrow> queue_key n \<le> queue_key j) \<and>
      claimNext now s = (Some (started now n), s\<lparr>jobs := map (\<lambda>j. if ID j = ID n then started now j else j) (jobs s)\<rparr>)"
proof (cases "next_job now (jobs s)")
  case None
  then show ?thesis using next_job_None [of now "jobs s"] by (simp add: claimNext_def)
next
  case (Some n)
  then have "\<not> (\<forall>j \<in> set (jobs s). \<not> eligible now j)" using next_job_None [of now "jobs s"] by auto
  moreover have "claimNext now s = (Some (started now n), s\<lparr>jobs := map (\<lambda>j. if ID j = ID n then started now j else j) (jobs s)\<rparr>)"
    using claimNext_claims [OF assms(1) Some] assms(2) by (simp add: update_jobs_def)
  ultimately show ?thesis using next_job_Some [OF Some] by auto
qed

section \<open>Draining\<close>

text \<open>The worker loop over a queue nobody else touches, every job succeeding: claim, process, until
  the claim is empty handed. The fuel bounds the number of claims.\<close>

fun drain_jobs :: "nat \<Rightarrow> int \<Rightarrow> job_store \<Rightarrow> Job list \<times> job_store" where
  "drain_jobs 0 now s = ([], s)"
| "drain_jobs (Suc fuel) now s =
     (case claimNext now s of
        (None, s') \<Rightarrow> ([], s')
      | (Some j, s') \<Rightarrow>
          (case drain_jobs fuel now (processJob now j Succeeded s') of (js, t) \<Rightarrow> (j # js, t)))"

definition finished :: "int \<Rightarrow> Job \<Rightarrow> Job" where
  "finished now j =
     j\<lparr>JStatus := StatusDone, StartedAt := Some now, LastError := Some [], FinishedAt := Some now, Attempts := Attempts j + 1\<rparr>"

definition after_job :: "int \<Rightarrow> Job \<Rightarrow> job_store \<Rightarrow> job_store" where
  "after_job now n s = update_jobs (\<lambda>j. ID j = ID n) (finished now) s"

lemma process_claimed:
  "processJob now (started now n) Succeeded (update_jobs (\<lambda>j. ID j = ID n) (started now) s) = after_job now n s"
  by (auto simp: processJob_def markDone_def update_jobs_def started_def finished_def after_job_def)

lemma after_job_inv: "job_inv (after_job now n s) = job_inv s"
  unfolding after_job_def by (rule update_jobs_inv) (simp_all add: finished_def)

lemma not_eligible_finished: "\<not> eligible now (finished now' j)"
  by (simp add: eligible_def finished_def)

lemma eligible_after_job:
  "filter (eligible now) (jobs (after_job now n s)) = filter (\<lambda>j. ID j \<noteq> ID n) (filter (eligible now) (jobs s))"
proof -
  have "filter (eligible now) (map (\<lambda>j. if ID j = ID n then finished now j else j) js) =
      filter (\<lambda>j. ID j \<noteq> ID n) (filter (eligible now) js)" for js
    by (induction js) (simp_all add: not_eligible_finished)
  then show ?thesis by (simp add: after_job_def update_jobs_def)
qed

lemma queue_after_job:
  assumes "job_inv s" and "sort_key queue_key (filter (eligible now) (jobs s)) = n # rest"
  shows "sort_key queue_key (filter (eligible now) (jobs (after_job now n s))) = rest"
proof -
  have "mset (map ID (sort_key queue_key (filter (eligible now) (jobs s)))) = mset (map ID (filter (eligible now) (jobs s)))"
    by simp
  then have "distinct (map ID (n # rest))"
    using assms by (metis distinct_map_filter job_inv_def mset_eq_imp_distinct_iff)
  then have "filter (\<lambda>j. ID j \<noteq> ID n) (n # rest) = rest"
    by (simp add: filter_id_conv) (metis image_eqI)
  then show ?thesis using assms(2) by (simp only: eligible_after_job filter_sort [symmetric])
qed

text \<open>
  C39. The worker empties the queue: starting with no running job, it processes every eligible job
  exactly once, in queue order, within as many claims as there are eligible jobs; each of them
  ends up done, and every other row is untouched.
\<close>

theorem queue_drains:
  assumes "job_inv s" and "\<forall>j \<in> set (jobs s). JStatus j \<noteq> StatusInProgress"
    and "length (filter (eligible now) (jobs s)) < fuel"
  shows "drain_jobs fuel now s =
    (map (started now) (sort_key queue_key (filter (eligible now) (jobs s))),
     s\<lparr>jobs := map (\<lambda>j. if eligible now j then finished now j else j) (jobs s)\<rparr>)"
  using assms
proof (induction fuel arbitrary: s)
  case 0
  then show ?case by simp
next
  case (Suc fuel)
  show ?case
  proof (cases "sort_key queue_key (filter (eligible now) (jobs s))")
    case Nil
    then have "next_job now (jobs s) = None" by (simp add: next_job_def)
    moreover from this have "map (\<lambda>j. if eligible now j then finished now j else j) (jobs s) = jobs s"
      by (auto simp: next_job_None intro: map_idI)
    ultimately show ?thesis using Nil by (simp add: claimNext_def)
  next
    case (Cons n rest)
    then have nx: "next_job now (jobs s) = Some n" by (simp add: next_job_def)
    note n = next_job_Some [OF nx]
    have c: "claimNext now s = (Some (started now n), update_jobs (\<lambda>j. ID j = ID n) (started now) s)"
      using Suc.prems(2) by (intro claimNext_claims [OF Suc.prems(1) nx]) auto
    let ?t = "after_job now n s"
    have len: "length (filter (eligible now) (jobs s)) = Suc (length rest)"
      using Cons by (metis length_Cons length_sort)
    have q: "sort_key queue_key (filter (eligible now) (jobs ?t)) = rest"
      by (rule queue_after_job [OF Suc.prems(1) Cons])
    then have "length (filter (eligible now) (jobs ?t)) = length rest" by (metis length_sort)
    moreover have "\<forall>j \<in> set (jobs ?t). JStatus j \<noteq> StatusInProgress"
      using Suc.prems(2) by (auto simp: after_job_def update_jobs_def finished_def)
    ultimately have ih: "drain_jobs fuel now ?t = (map (started now) rest,
        ?t\<lparr>jobs := map (\<lambda>j. if eligible now j then finished now j else j) (jobs ?t)\<rparr>)"
      using Suc.IH [of ?t] Suc.prems(1,3) len q by (simp add: after_job_inv)
    have same: "(if eligible now (if ID j = ID n then finished now j else j)
          then finished now (if ID j = ID n then finished now j else j) else (if ID j = ID n then finished now j else j)) =
        (if eligible now j then finished now j else j)" if "j \<in> set (jobs s)" for j
      using unique_ID [OF Suc.prems(1) that n(1)] n(2) by (auto simp: not_eligible_finished)
    have "?t\<lparr>jobs := map (\<lambda>j. if eligible now j then finished now j else j) (jobs ?t)\<rparr> =
        s\<lparr>jobs := map (\<lambda>j. if eligible now j then finished now j else j) (jobs s)\<rparr>"
      using same by (simp add: after_job_def update_jobs_def comp_def cong: map_cong)
    then show ?thesis by (simp add: c process_claimed ih Cons)
  qed
qed

section \<open>Examples\<close>

definition ex_job :: "int \<Rightarrow> string \<Rightarrow> job_status \<Rightarrow> int \<Rightarrow> int option \<Rightarrow> Job" where
  "ex_job i p st q started_at =
     \<lparr>ID = i, NotePath = p, JStatus = st, SkipReason = None, OCRSource = None, APIModel = None, Attempts = 0,
      LastError = None, QueuedAt = Some q, StartedAt = started_at, FinishedAt = None, RequeueAfter = None\<rparr>"

definition ex_queue :: job_store where
  "ex_queue = \<lparr>known_notes = [''a'', ''b'', ''c''],
     jobs = [ex_job 1 ''a'' StatusPending 20 None, ex_job 2 ''b'' StatusDone 5 (Some 6), ex_job 3 ''c'' StatusPending 10 None]\<rparr>"

theorem claimNext_fifo_witness:
  "\<exists>n \<in> set (jobs ex_queue). claimNext 30 ex_queue =
     (Some (started 30 n), ex_queue\<lparr>jobs := map (\<lambda>j. if ID j = ID n then started 30 j else j) (jobs ex_queue)\<rparr>)"
proof -
  have "job_inv ex_queue" by code_simp
  moreover have "\<forall>j \<in> set (jobs ex_queue). JStatus j = StatusInProgress \<longrightarrow> (\<exists>t. StartedAt j = Some t \<and> t < 30)"
    by (simp add: ex_queue_def ex_job_def)
  moreover have "\<not> (\<forall>j \<in> set (jobs ex_queue). \<not> eligible 30 j)" by code_simp
  ultimately show ?thesis using claimNext_fifo [of ex_queue 30] by (auto simp only: if_False)
qed

theorem queue_drains_witness:
  "map NotePath (fst (drain_jobs 3 30 ex_queue)) = [''c'', ''a'']"
proof -
  have "job_inv ex_queue" "\<forall>j \<in> set (jobs ex_queue). JStatus j \<noteq> StatusInProgress"
    "length (filter (eligible 30) (jobs ex_queue)) < 3" by code_simp+
  note d = queue_drains [OF this]
  have "map NotePath (map (started 30) (sort_key queue_key (filter (eligible 30) (jobs ex_queue)))) = [''c'', ''a'']"
    by code_simp
  then show ?thesis by (simp only: d fst_conv)
qed

text \<open>When a job left running by a crash was started in the same second, the claim marks one job
  and hands back the other: the marked one is not processed until the watchdog reclaims it.\<close>

lemma claimNext_same_second:
  "claimNext 30 \<lparr>known_notes = [''a'', ''b''],
      jobs = [ex_job 1 ''a'' StatusInProgress 20 (Some 30), ex_job 2 ''b'' StatusPending 25 None]\<rparr> =
   (Some (ex_job 1 ''a'' StatusInProgress 20 (Some 30)),
    \<lparr>known_notes = [''a'', ''b''],
      jobs = [ex_job 1 ''a'' StatusInProgress 20 (Some 30), ex_job 2 ''b'' StatusInProgress 25 (Some 30)]\<rparr>)"
  by code_simp

end
