(* ===== verification/Rag_Store.thy ===== *)
theory Rag_Store
  imports Decimal
begin

text \<open>
  Text chunking and the embedding store (\<open>internal/rag/chunk.go\<close>, \<open>store.go\<close>,
  \<open>embedder.go\<close>, \<open>backfill.go\<close>): a page's text is cut into bounded chunks, each chunk is embedded
  and the page's vectors are replaced, in the database table and in the in-memory cache the
  retriever reads. A vector is the list of the bit patterns of its 32-bit floats; the embedding
  model is a parameter that may fail on a chunk. Strings are byte strings.
\<close>

section \<open>Chunking\<close>

definition chunkMaxChars :: nat where
  "chunkMaxChars = 1500"

definition is_break :: "char \<Rightarrow> bool" where
  "is_break c \<longleftrightarrow> c \<in> set [CHR 0x20, CHR 0x09, CHR 0x0A, CHR 0x0D]"

text \<open>\<open>strings.LastIndexAny\<close>: the last position of a break, \<open>None\<close> for its \<open>-1\<close>.\<close>

definition LastIndexAny :: "string \<Rightarrow> nat option" where
  "LastIndexAny s = (case filter (\<lambda>i. is_break (s ! i)) (rev [0..<length s]) of [] \<Rightarrow> None | i # _ \<Rightarrow> Some i)"

definition chunk_cut :: "string \<Rightarrow> nat" where
  "chunk_cut rest =
     (case LastIndexAny (take (chunkMaxChars + 1) rest) of
        Some i \<Rightarrow> if i = 0 then chunkMaxChars else i
      | None \<Rightarrow> chunkMaxChars)"

definition TrimLeft :: "string \<Rightarrow> string" where
  "TrimLeft s = dropWhile is_break s"

definition keep_chunk :: "string \<Rightarrow> string list" where
  "keep_chunk s = (let c = TrimSpace s in if c \<noteq> [] then [c] else [])"

lemma chunk_cut_pos: "0 < chunk_cut rest"
  by (simp add: chunk_cut_def chunkMaxChars_def split: option.split)

lemma TrimLeft_length: "length (TrimLeft s) \<le> length s"
  by (simp add: TrimLeft_def length_dropWhile_le)

function chunk_loop :: "string \<Rightarrow> string list" where
  "chunk_loop rest =
     (if length rest > chunkMaxChars
      then keep_chunk (take (chunk_cut rest) rest) @ chunk_loop (TrimLeft (drop (chunk_cut rest) rest))
      else keep_chunk rest)"
  by pat_completeness auto
termination
proof (relation "measure length")
  fix rest :: string
  assume "length rest > chunkMaxChars"
  then have "length (drop (chunk_cut rest) rest) < length rest" using chunk_cut_pos [of rest] by simp
  with TrimLeft_length [of "drop (chunk_cut rest) rest"]
  show "(TrimLeft (drop (chunk_cut rest) rest), rest) \<in> measure length" by simp
qed simp

definition ChunkText :: "string \<Rightarrow> string list" where
  "ChunkText text =
     (let t = TrimSpace text
      in if t = [] then [] else if length t \<le> chunkMaxChars then [t] else chunk_loop t)"

declare chunk_loop.simps [simp del]

section \<open>Vectors\<close>

text \<open>\<open>binary.LittleEndian\<close> on the bit pattern of a float.\<close>

definition put_uint32 :: "nat \<Rightarrow> nat list" where
  "put_uint32 n = [n mod 256, n div 256 mod 256, n div 65536 mod 256, n div 16777216 mod 256]"

definition float32sToBytes :: "nat list \<Rightarrow> nat list" where
  "float32sToBytes fs = concat (map put_uint32 fs)"

fun bytesToFloat32s :: "nat list \<Rightarrow> nat list" where
  "bytesToFloat32s (a # b # c # d # bs) = (a + b * 256 + c * 65536 + d * 16777216) # bytesToFloat32s bs"
| "bytesToFloat32s _ = []"

lemma uint32_bytes:
  fixes n :: nat
  assumes "n < 2 ^ 32"
  shows "n mod 256 + n div 256 mod 256 * 256 + n div 65536 mod 256 * 65536 + n div 16777216 mod 256 * 16777216 = n"
proof -
  let ?a = "n div 256" let ?b = "?a div 256" let ?c = "?b div 256"
  have b: "n div 65536 = ?b" and c: "n div 16777216 = ?c" by (simp_all add: div_mult2_eq [symmetric])
  have "?c < 256" using assms by (simp add: div_less_iff_less_mult)
  then have "?c mod 256 = ?c" by simp
  moreover have "n = n mod 256 + ?a * 256" "?a = ?a mod 256 + ?b * 256" "?b = ?b mod 256 + ?c * 256" by simp_all
  ultimately show ?thesis unfolding b c by linarith
qed

lemma float32_roundtrip: "\<forall>f \<in> set fs. f < 2 ^ 32 \<Longrightarrow> bytesToFloat32s (float32sToBytes fs) = fs"
proof (induction fs)
  case (Cons f fs)
  then have "f < 2 ^ 32" by simp
  then have "bytesToFloat32s (put_uint32 f @ bs) = f # bytesToFloat32s bs" for bs
    using uint32_bytes [of f] by (simp only: put_uint32_def append.simps bytesToFloat32s.simps)
  with Cons show ?case by (simp add: float32sToBytes_def)
qed (simp add: float32sToBytes_def)

section \<open>The store\<close>

type_synonym embed_key = "string \<times> int \<times> nat"
type_synonym vector = "nat list"

record embed_row =
  er_embedding :: "nat list"
  er_model :: string
  er_created_at :: int

record rag_store =
  note_embeddings :: "(embed_key \<times> embed_row) list"
  cache :: "(embed_key \<times> vector) list"

definition SaveEmbedding :: "string \<Rightarrow> int \<Rightarrow> string \<Rightarrow> int \<Rightarrow> nat \<Rightarrow> vector \<Rightarrow> rag_store \<Rightarrow> rag_store" where
  "SaveEmbedding model now notePath page chunk embedding s =
     s\<lparr>note_embeddings := AList.update (notePath, page, chunk)
          \<lparr>er_embedding = float32sToBytes embedding, er_model = model, er_created_at = now\<rparr> (note_embeddings s),
       cache := AList.update (notePath, page, chunk) embedding (cache s)\<rparr>"

definition keep_keys :: "(embed_key \<Rightarrow> bool) \<Rightarrow> rag_store \<Rightarrow> rag_store" where
  "keep_keys P s = s\<lparr>note_embeddings := filter (P \<circ> fst) (note_embeddings s), cache := filter (P \<circ> fst) (cache s)\<rparr>"

definition DeletePage :: "string \<Rightarrow> int \<Rightarrow> rag_store \<Rightarrow> rag_store" where
  "DeletePage notePath page = keep_keys (\<lambda>(p, g, _). p \<noteq> notePath \<or> g \<noteq> page)"

definition DeleteNote :: "string \<Rightarrow> rag_store \<Rightarrow> rag_store" where
  "DeleteNote notePath = keep_keys (\<lambda>(p, _, _). p \<noteq> notePath)"

definition move_key :: "string \<Rightarrow> string \<Rightarrow> embed_key \<Rightarrow> embed_key" where
  "move_key oldPath newPath = (\<lambda>(p, g, c). (if p = oldPath then newPath else p, g, c))"

text \<open>A rename onto a path that already has a vector for the same page and chunk violates the unique
  key and changes nothing.\<close>

definition RenameNote :: "string \<Rightarrow> string \<Rightarrow> rag_store \<Rightarrow> rag_store option" where
  "RenameNote oldPath newPath s =
     (if distinct (map (move_key oldPath newPath \<circ> fst) (note_embeddings s))
      then Some (s\<lparr>note_embeddings := map (\<lambda>(k, r). (move_key oldPath newPath k, r)) (note_embeddings s),
                   cache := map (\<lambda>(k, v). (move_key oldPath newPath k, v)) (cache s)\<rparr>)
      else None)"

definition copies :: "string \<Rightarrow> string \<Rightarrow> (embed_key \<times> 'v) list \<Rightarrow> (embed_key \<times> 'v) list" where
  "copies srcPath dstPath rows =
     (let kept = filter ((\<lambda>k. fst k \<noteq> dstPath) \<circ> fst) rows
      in kept @ map (\<lambda>(k, v). ((dstPath, snd k), v)) (filter ((\<lambda>k. fst k = srcPath) \<circ> fst) kept))"

definition CopyNote :: "string \<Rightarrow> string \<Rightarrow> rag_store \<Rightarrow> rag_store" where
  "CopyNote srcPath dstPath s =
     s\<lparr>note_embeddings := copies srcPath dstPath (note_embeddings s), cache := copies srcPath dstPath (cache s)\<rparr>"

definition loaded :: "(embed_key \<times> embed_row) list \<Rightarrow> (embed_key \<times> vector) list" where
  "loaded rows = map (\<lambda>(k, r). (k, bytesToFloat32s (er_embedding r))) rows"

definition LoadAll :: "rag_store \<Rightarrow> nat \<times> rag_store" where
  "LoadAll s = (length (note_embeddings s), s\<lparr>cache := loaded (note_embeddings s)\<rparr>)"

definition AllEmbeddings :: "rag_store \<Rightarrow> (embed_key \<times> vector) list" where
  "AllEmbeddings s = cache s"

text \<open>The indexed pages, as (path, page, body), that have no vector.\<close>

definition UnembeddedPages :: "(string \<times> int \<times> string) list \<Rightarrow> rag_store \<Rightarrow> (string \<times> int \<times> string) list" where
  "UnembeddedPages content s =
     filter (\<lambda>(p, g, body). body \<noteq> [] \<and> (\<forall>((p', g', _), _) \<in> set (note_embeddings s). \<not> (p' = p \<and> g' = g))) content"

section \<open>Embedding a page\<close>

text \<open>Over any embedding store: \<open>save\<close> and \<open>delPage\<close> are its operations, \<open>embedder\<close> the model.\<close>

definition embedded_chunks :: "(string \<Rightarrow> 'v option) \<Rightarrow> string list \<Rightarrow> (nat \<times> 'v) list" where
  "embedded_chunks embedder chunks =
     List.map_filter (\<lambda>(i, c). map_option (Pair i) (embedder c)) (List.enumerate 0 chunks)"

definition EmbedAndStorePage ::
  "(string \<Rightarrow> 'v option) \<Rightarrow> (string \<Rightarrow> int \<Rightarrow> nat \<Rightarrow> 'v \<Rightarrow> 's \<Rightarrow> 's) \<Rightarrow> (string \<Rightarrow> int \<Rightarrow> 's \<Rightarrow> 's) \<Rightarrow>
   string \<Rightarrow> int \<Rightarrow> string \<Rightarrow> 's \<Rightarrow> nat \<times> 's" where
  "EmbedAndStorePage embedder save delPage notePath page text s =
     (let chunks = ChunkText text
      in if chunks = [] then (0, delPage notePath page s)
         else let ok = embedded_chunks embedder chunks
              in if ok = [] then (0, s)
                 else (length ok, fold (\<lambda>(i, v). save notePath page i v) ok (delPage notePath page s)))"

definition Backfill ::
  "(string \<Rightarrow> vector option) \<Rightarrow> string \<Rightarrow> int \<Rightarrow> (string \<times> int \<times> string) list \<Rightarrow> rag_store \<Rightarrow> nat \<times> rag_store" where
  "Backfill embedder model now content s =
     fold (\<lambda>(p, g, body) (n, s).
         case EmbedAndStorePage embedder (SaveEmbedding model now) DeletePage p g body s of
           (k, s') \<Rightarrow> (if k > 0 then n + 1 else n, s'))
       (UnembeddedPages content s) (0, s)"

section \<open>Chunks lose nothing\<close>

abbreviation ink :: "string \<Rightarrow> string" where
  "ink s \<equiv> filter (\<lambda>c. \<not> is_space c) s"

lemma is_break_space: "is_break c \<Longrightarrow> is_space c"
  by (auto simp: is_break_def is_space_def)

lemma ink_dropWhile: "(\<And>c. P c \<Longrightarrow> is_space c) \<Longrightarrow> ink (dropWhile P s) = ink s"
  by (induction s) auto

lemma ink_TrimSpace: "ink (TrimSpace s) = ink s"
proof -
  have "ink (TrimSpace s) = rev (ink (dropWhile is_space (rev (dropWhile is_space s))))"
    by (simp add: TrimSpace_def rev_filter)
  also have "\<dots> = ink s" by (simp add: ink_dropWhile rev_filter)
  finally show ?thesis .
qed

lemma TrimSpace_length: "length (TrimSpace s) \<le> length s"
proof -
  have "length (dropWhile is_space (rev (dropWhile is_space s))) \<le> length (dropWhile is_space s)"
    by (metis length_dropWhile_le length_rev)
  then show ?thesis unfolding TrimSpace_def by (metis le_trans length_dropWhile_le length_rev)
qed

lemma ink_keep_chunk: "ink (concat (keep_chunk s)) = ink s"
proof (cases "TrimSpace s")
  case Nil
  then have "ink s = []" using ink_TrimSpace [of s] by simp
  with Nil show ?thesis by (simp add: keep_chunk_def)
next
  case (Cons c cs)
  then show ?thesis using ink_TrimSpace [of s] by (simp add: keep_chunk_def)
qed

lemma chunk_cut_le: "chunk_cut rest \<le> chunkMaxChars"
proof (cases "LastIndexAny (take (chunkMaxChars + 1) rest)")
  case (Some i)
  let ?t = "take (chunkMaxChars + 1) rest"
  obtain js where "filter (\<lambda>i. is_break (?t ! i)) (rev [0..<length ?t]) = i # js"
    using Some unfolding LastIndexAny_def by (cases "filter (\<lambda>i. is_break (?t ! i)) (rev [0..<length ?t])") simp_all
  then have "i \<in> set (filter (\<lambda>i. is_break (?t ! i)) (rev [0..<length ?t]))" by (simp only: list.set_intros)
  then have "i \<le> chunkMaxChars" by auto
  then show ?thesis unfolding chunk_cut_def Some by simp
qed (simp add: chunk_cut_def)

lemma keep_chunk_bounds: "length s \<le> n \<Longrightarrow> c \<in> set (keep_chunk s) \<Longrightarrow> c \<noteq> [] \<and> length c \<le> n"
  using TrimSpace_length [of s] by (auto simp: keep_chunk_def Let_def split: if_splits)

lemma chunk_loop_spec:
  "ink (concat (chunk_loop rest)) = ink rest \<and> (\<forall>c \<in> set (chunk_loop rest). c \<noteq> [] \<and> length c \<le> chunkMaxChars)"
proof (induction rest rule: chunk_loop.induct)
  case (1 rest)
  show ?case
  proof (cases "length rest > chunkMaxChars")
    case True
    let ?n = "chunk_cut rest"
    have split: "ink rest = ink (take ?n rest) @ ink (drop ?n rest)"
      by (metis append_take_drop_id filter_append)
    have "ink (TrimLeft (drop ?n rest)) = ink (drop ?n rest)"
      unfolding TrimLeft_def by (rule ink_dropWhile) (rule is_break_space)
    moreover have "c \<noteq> [] \<and> length c \<le> chunkMaxChars" if "c \<in> set (keep_chunk (take ?n rest))" for c
      using that chunk_cut_le [of rest] by (intro keep_chunk_bounds) simp_all
    ultimately show ?thesis
      using 1 True split by (subst (1 2) chunk_loop.simps) (auto simp: ink_keep_chunk simp del: filter_concat)
  next
    case False
    then show ?thesis
      using keep_chunk_bounds [of rest chunkMaxChars] by (subst (1 2) chunk_loop.simps) (auto simp: ink_keep_chunk simp del: filter_concat)
  qed
qed

text \<open>
  C40. Chunking terminates on every text; each chunk is non-empty and at most 1500 bytes, blank text
  gives none, and no content is lost: up to white space the chunks, one after the other, are the
  text.
\<close>

theorem ChunkText_lossless:
  "(\<forall>c \<in> set (ChunkText body). c \<noteq> [] \<and> length c \<le> 1500) \<and> ink (concat (ChunkText body)) = ink body \<and>
   (ChunkText body = [] \<longleftrightarrow> ink body = [])"
proof -
  let ?t = "TrimSpace body"
  have a: "(\<forall>c \<in> set (ChunkText body). c \<noteq> [] \<and> length c \<le> chunkMaxChars) \<and> ink (concat (ChunkText body)) = ink body"
    using chunk_loop_spec [of ?t] ink_TrimSpace [of body] by (auto simp: ChunkText_def Let_def simp del: filter_concat)
  have b: "ink body = []" if "ChunkText body = []"
    using a that by simp
  have c: "ChunkText body = []" if e: "ink body = []"
  proof (rule ccontr)
    assume "ChunkText body \<noteq> []"
    then have "?t \<noteq> []" by (auto simp: ChunkText_def)
    then have "\<not> is_space (hd (rev ?t))" unfolding TrimSpace_def rev_rev_ident by (metis hd_dropWhile rev.simps(1) rev_rev_ident)
    moreover have "hd (rev ?t) \<in> set ?t" using \<open>?t \<noteq> []\<close> by (metis hd_in_set rev_is_Nil_conv set_rev)
    ultimately have "ink ?t \<noteq> []" by (auto simp: filter_empty_conv)
    with e show False by (simp add: ink_TrimSpace)
  qed
  from a b c show ?thesis unfolding chunkMaxChars_def by blast
qed

theorem ChunkText_lossless_witness:
  "ChunkText ''  ink on a page '' = [''ink on a page''] \<and> ink (concat (ChunkText ''  ink on a page '')) = ''inkonapage''"
proof -
  have "ink ''  ink on a page '' = ''inkonapage''" by code_simp
  with ChunkText_lossless [of "''  ink on a page ''"] show ?thesis
    by (auto simp: ChunkText_def TrimSpace_def is_space_def chunkMaxChars_def)
qed

text \<open>
  A run without white space is cut at exactly 1500 bytes, whatever byte stands there: a character
  of several bytes that straddles the cut is torn apart.
\<close>

lemma dropWhile_none: "\<forall>x \<in> set xs. \<not> P x \<Longrightarrow> dropWhile P xs = xs"
  by (cases xs) simp_all

lemma ChunkText_hard_split:
  assumes "\<forall>c \<in> set t. \<not> is_space c" and "length t > 1500"
  shows "ChunkText t = take 1500 t # chunk_loop (drop 1500 t)"
proof -
  have trim: "TrimSpace u = u" if "set u \<subseteq> set t" for u
  proof -
    have "dropWhile is_space u = u" "dropWhile is_space (rev u) = rev u"
      using that assms(1) by (auto intro!: dropWhile_none)
    then show ?thesis by (simp add: TrimSpace_def)
  qed
  have nb: "\<not> is_break c" if "c \<in> set t" for c
    using that assms(1) is_break_space by blast
  have cut: "chunk_cut t = 1500"
    using nb by (auto simp: chunk_cut_def LastIndexAny_def chunkMaxChars_def filter_empty_conv split: list.split option.split)
  have "TrimLeft (drop 1500 t) = drop 1500 t"
    unfolding TrimLeft_def using nb by (intro dropWhile_none) (auto dest: in_set_dropD)
  moreover have "keep_chunk (take 1500 t) = [take 1500 t]"
    using trim [OF set_take_subset] assms(2) by (auto simp: keep_chunk_def Let_def)
  ultimately show ?thesis
    using assms(2) trim [of t] cut by (auto simp: ChunkText_def Let_def chunkMaxChars_def chunk_loop.simps [of t])
qed

section \<open>What an embedding store promises\<close>

text \<open>The interface the embedding of a page relies on: a saved vector is found under its key, and
  deleting a page forgets that page's vectors and no others.\<close>

locale embed_store =
  fixes get :: "'s \<Rightarrow> string \<Rightarrow> int \<Rightarrow> nat \<Rightarrow> 'v option"
    and save :: "string \<Rightarrow> int \<Rightarrow> nat \<Rightarrow> 'v \<Rightarrow> 's \<Rightarrow> 's"
    and delPage :: "string \<Rightarrow> int \<Rightarrow> 's \<Rightarrow> 's"
  assumes get_save: "get (save p g i v s) p' g' i' = (if p' = p \<and> g' = g \<and> i' = i then Some v else get s p' g' i')"
    and get_delPage: "get (delPage p g s) p' g' i' = (if p' = p \<and> g' = g then None else get s p' g' i')"
begin

lemma get_fold_save:
  assumes "distinct (map fst ivs)"
  shows "get (fold (\<lambda>(i, v). save p g i v) ivs s) p' g' i' =
    (if p' = p \<and> g' = g then (case map_of ivs i' of Some v \<Rightarrow> Some v | None \<Rightarrow> get s p g i') else get s p' g' i')"
  using assms
proof (induction ivs arbitrary: s)
  case (Cons x ivs)
  obtain i v where x: "x = (i, v)" by (cases x)
  then have "map_of ivs i = None" using Cons.prems by (simp add: map_of_eq_None_iff)
  then show ?case using Cons x by (auto simp: get_save split: option.split)
qed simp

lemma map_of_embedded:
  "map_of (List.map_filter (\<lambda>(i, c). map_option (Pair i) (embedder c)) (List.enumerate n chunks)) i =
     (if n \<le> i \<and> i < n + length chunks then embedder (chunks ! (i - n)) else None)"
proof (induction chunks arbitrary: n)
  case (Cons c chunks)
  note ih = Cons [of "Suc n"]
  show ?case
  proof (cases "i = n")
    case True
    then show ?thesis using ih by (cases "embedder c") (simp_all add: map_filter_simps)
  next
    case False
    then have "i - n = Suc (i - Suc n)" if "n \<le> i" using that by simp
    then show ?thesis using ih False by (cases "embedder c") (auto simp: map_filter_simps)
  qed
qed (auto simp: map_filter_simps)

lemma fst_embedded:
  "fst ` set (List.map_filter (\<lambda>(i, c). map_option (Pair i) (embedder c)) (List.enumerate n chunks)) \<subseteq> {n..<n + length chunks}"
proof (induction chunks arbitrary: n)
  case (Cons c chunks)
  from Cons [of "Suc n"] show ?case by (cases "embedder c") (force simp: map_filter_simps)+
qed (simp add: map_filter_simps)

lemma distinct_embedded:
  "distinct (map fst (List.map_filter (\<lambda>(i, c). map_option (Pair i) (embedder c)) (List.enumerate n chunks)))"
proof (induction chunks arbitrary: n)
  case (Cons c chunks)
  have "n \<notin> fst ` set (List.map_filter (\<lambda>(i, c). map_option (Pair i) (embedder c)) (List.enumerate (Suc n) chunks))"
    using fst_embedded [of embedder "Suc n" chunks] by force
  with Cons [of "Suc n"] show ?case by (cases "embedder c") (simp_all add: map_filter_simps)
qed (simp add: map_filter_simps)

lemma embed_page:
  "get (snd (EmbedAndStorePage embedder save delPage p g body s)) p' g' i =
     (if p' = p \<and> g' = g \<and> \<not> (ChunkText body \<noteq> [] \<and> (\<forall>c \<in> set (ChunkText body). embedder c = None))
      then (if i < length (ChunkText body) then embedder (ChunkText body ! i) else None)
      else get s p' g' i)"
proof -
  let ?cs = "ChunkText body"
  let ?ok = "embedded_chunks embedder ?cs"
  have m: "map_of ?ok j = (if j < length ?cs then embedder (?cs ! j) else None)" for j
    using map_of_embedded [of embedder 0 ?cs j] by (simp add: embedded_chunks_def)
  have d: "distinct (map fst ?ok)" unfolding embedded_chunks_def by (rule distinct_embedded)
  have e: "?ok = [] \<longleftrightarrow> (\<forall>c \<in> set ?cs. embedder c = None)"
  proof
    assume "?ok = []"
    then have "\<forall>j < length ?cs. embedder (?cs ! j) = None" using m by (metis map_of.simps(1))
    then show "\<forall>c \<in> set ?cs. embedder c = None" by (metis in_set_conv_nth)
  next
    assume "\<forall>c \<in> set ?cs. embedder c = None"
    then have "map_of ?ok j = None" for j using m [of j] by simp
    then show "?ok = []" by (metis list.exhaust map_of_eq_None_iff list.set_intros(1) image_eqI)
  qed
  show ?thesis
    unfolding EmbedAndStorePage_def Let_def
    by (simp add: e get_delPage get_fold_save [OF d] m split: option.split)
qed

end

definition GetEmbedding :: "rag_store \<Rightarrow> string \<Rightarrow> int \<Rightarrow> nat \<Rightarrow> vector option" where
  "GetEmbedding s p g i = map_of (cache s) (p, g, i)"

lemma map_of_filter_key: "map_of (filter (P \<circ> fst) xs) k = (if P k then map_of xs k else None)"
  by (induction xs) auto

interpretation rag: embed_store GetEmbedding "SaveEmbedding model now" DeletePage
  by unfold_locales
    (auto simp: GetEmbedding_def SaveEmbedding_def DeletePage_def keep_keys_def update_conv' map_of_filter_key)

text \<open>
  Embedding a page replaces its vectors as a whole: afterwards chunk \<open>i\<close> of the page has the
  vector of the \<open>i\<close>-th chunk of the text, where the model gave one, and nothing else is stored for
  the page, so no stale chunk survives a shorter text and an emptied page has none; when the
  model fails on every chunk the old vectors stay; other pages are never touched.
\<close>

theorem EmbedAndStorePage_replaces:
  "GetEmbedding (snd (EmbedAndStorePage embedder (SaveEmbedding model now) DeletePage p g body s)) p' g' i =
     (if p' = p \<and> g' = g \<and> (ChunkText body = [] \<or> (\<exists>c \<in> set (ChunkText body). embedder c \<noteq> None))
      then (if i < length (ChunkText body) then embedder (ChunkText body ! i) else None)
      else GetEmbedding s p' g' i)"
  using rag.embed_page [of embedder model now p g body s p' g' i] by simp

section \<open>The cache\<close>

definition coherent :: "rag_store \<Rightarrow> bool" where
  "coherent s \<longleftrightarrow> cache s = loaded (note_embeddings s) \<and> distinct (map fst (note_embeddings s))"

definition valid_vector :: "vector \<Rightarrow> bool" where
  "valid_vector v \<longleftrightarrow> (\<forall>f \<in> set v. f < 2 ^ 32)"

lemma loaded_update:
  "loaded (AList.update k r rows) = AList.update k (bytesToFloat32s (er_embedding r)) (loaded rows)"
  by (induction rows) (auto simp: loaded_def)

lemma loaded_filter: "loaded (filter (P \<circ> fst) rows) = filter (P \<circ> fst) (loaded rows)"
  by (induction rows) (auto simp: loaded_def)

lemma loaded_keys: "map fst (loaded rows) = map fst rows"
  by (auto simp: loaded_def)

lemma loaded_move: "loaded (map (\<lambda>(k, r). (f k, r)) rows) = map (\<lambda>(k, v). (f k, v)) (loaded rows)"
  by (auto simp: loaded_def)

lemma loaded_append: "loaded (xs @ ys) = loaded xs @ loaded ys"
  by (simp add: loaded_def)

lemma loaded_copies: "loaded (copies a b rows) = copies a b (loaded rows)"
  by (simp add: copies_def Let_def loaded_append loaded_move loaded_filter del: filter_filter)

lemma coherent_Save: "coherent s \<Longrightarrow> valid_vector v \<Longrightarrow> coherent (SaveEmbedding model now p g i v s)"
  by (simp add: coherent_def SaveEmbedding_def loaded_update float32_roundtrip valid_vector_def distinct_update)

lemma coherent_keep: "coherent s \<Longrightarrow> coherent (keep_keys P s)"
  by (simp add: coherent_def keep_keys_def loaded_filter distinct_map_filter)

lemma coherent_Rename: "coherent s \<Longrightarrow> RenameNote a b s = Some s' \<Longrightarrow> coherent s'"
proof -
  assume "coherent s" and r: "RenameNote a b s = Some s'"
  moreover have "fst \<circ> (\<lambda>(k, r :: embed_row). (move_key a b k, r)) = move_key a b \<circ> fst" by auto
  ultimately show "coherent s'" unfolding coherent_def RenameNote_def by (auto simp: loaded_move split: if_splits)
qed

lemma copies_keys:
  assumes "distinct (map fst rows)"
  shows "distinct (map fst (copies a b rows))"
proof -
  let ?kept = "filter ((\<lambda>k. fst k \<noteq> b) \<circ> fst) rows"
  let ?src = "filter ((\<lambda>k. fst k = a) \<circ> fst) ?kept"
  have k: "distinct (map fst ?kept)" using assms by (rule distinct_map_filter)
  then have d: "distinct (map fst ?src)" by (rule distinct_map_filter)
  have "inj_on (\<lambda>k. (b, snd k)) (set (map fst ?src))" by (auto simp: inj_on_def)
  then have "distinct (map (\<lambda>k. (b, snd k)) (map fst ?src))" using d by (simp only: distinct_map)
  moreover have "map fst (map (\<lambda>(k, v). ((b, snd k), v)) ?src) = map (\<lambda>k. (b, snd k)) (map fst ?src)" by auto
  ultimately have "distinct (map fst (map (\<lambda>(k, v). ((b, snd k), v)) ?src))" by (simp only:)
  moreover have "set (map fst ?kept) \<inter> set (map fst (map (\<lambda>(k, v). ((b, snd k), v)) ?src)) = {}" by auto
  ultimately show ?thesis using k unfolding copies_def Let_def map_append distinct_append by blast
qed

lemma coherent_Copy: "coherent s \<Longrightarrow> coherent (CopyNote a b s)"
  by (simp add: coherent_def CopyNote_def loaded_copies copies_keys)

text \<open>Start-up loads the table; from then on any operations follow.\<close>

inductive rag_reach :: "rag_store \<Rightarrow> bool" where
  load: "distinct (map fst (note_embeddings s)) \<Longrightarrow> rag_reach (snd (LoadAll s))"
| save: "rag_reach s \<Longrightarrow> valid_vector v \<Longrightarrow> rag_reach (SaveEmbedding model now p g i v s)"
| delete_page: "rag_reach s \<Longrightarrow> rag_reach (DeletePage p g s)"
| delete: "rag_reach s \<Longrightarrow> rag_reach (DeleteNote p s)"
| rename: "rag_reach s \<Longrightarrow> RenameNote a b s = Some s' \<Longrightarrow> rag_reach s'"
| copy: "rag_reach s \<Longrightarrow> rag_reach (CopyNote a b s)"

text \<open>
  The in-memory cache never drifts from the table: after start-up and any sequence of saves,
  deletes, renames and copies, what the retriever reads is exactly what a fresh load of the table
  would give, bit for bit, with one vector per path, page and chunk.
\<close>

theorem rag_cache_coherent:
  assumes "rag_reach s"
  shows "AllEmbeddings s = AllEmbeddings (snd (LoadAll s)) \<and> distinct (map fst (AllEmbeddings s))"
proof -
  have "coherent s" using assms
  proof (induction rule: rag_reach.induct)
    case (load s)
    then show ?case by (simp add: LoadAll_def coherent_def)
  qed (simp_all add: coherent_Save coherent_keep DeletePage_def DeleteNote_def coherent_Rename coherent_Copy)
  then show ?thesis by (simp add: coherent_def AllEmbeddings_def LoadAll_def loaded_keys)
qed

theorem rag_cache_coherent_witness:
  "AllEmbeddings (SaveEmbedding ''m'' 1 ''p'' 0 0 [1065353216] (snd (LoadAll \<lparr>note_embeddings = [], cache = []\<rparr>))) =
     AllEmbeddings (snd (LoadAll (SaveEmbedding ''m'' 1 ''p'' 0 0 [1065353216] (snd (LoadAll \<lparr>note_embeddings = [], cache = []\<rparr>)))))"
proof -
  have "rag_reach (SaveEmbedding ''m'' 1 ''p'' 0 0 [1065353216] (snd (LoadAll \<lparr>note_embeddings = [], cache = []\<rparr>)))"
    by (intro rag_reach.save rag_reach.load) (simp_all add: valid_vector_def)
  then show ?thesis using rag_cache_coherent by blast
qed

end
