(* ===== verification/Search_Index.thy ===== *)
theory Search_Index
  imports Decimal
begin

text \<open>
  The search index (\<open>internal/search/index.go\<close>): the table of indexed pages behind full-text
  search, one document per note path and page, and the opaque paths that address synced pages
  (\<open>internal/fnpath\<close>). The full-text match itself is SQLite's.
\<close>

section \<open>Page paths\<close>

definition Scheme :: string where
  "Scheme = ''forestnote://''"

definition NotebookPath :: "string \<Rightarrow> string" where
  "NotebookPath notebookID = Scheme @ notebookID"

definition PagePath :: "string \<Rightarrow> string \<Rightarrow> string" where
  "PagePath notebookID pageID = Scheme @ notebookID @ ''/'' @ pageID"

definition IsFNPath :: "string \<Rightarrow> bool" where
  "IsFNPath path = HasPrefix path Scheme"

definition PageID :: "string \<Rightarrow> string" where
  "PageID path = rev (takeWhile (\<lambda>c. c \<noteq> CHR ''/'') (rev path))"

definition NotebookID :: "string \<Rightarrow> string" where
  "NotebookID path = (if \<not> IsFNPath path then [] else takeWhile (\<lambda>c. c \<noteq> CHR ''/'') (TrimPrefix path Scheme))"

section \<open>Documents\<close>

record NoteDocument =
  TitleText :: string
  BodyText :: string
  Keywords :: string
  Source :: string
  Model :: string
  IndexedAt :: int

type_synonym search_index = "((string \<times> int) \<times> NoteDocument) list"

definition IndexPage :: "int \<Rightarrow> string \<Rightarrow> int \<Rightarrow> string \<Rightarrow> string \<Rightarrow> string \<Rightarrow> string \<Rightarrow> search_index \<Rightarrow> search_index" where
  "IndexPage now path pageIdx source bodyText titleText keywords =
     AList.update (path, pageIdx)
       \<lparr>TitleText = titleText, BodyText = bodyText, Keywords = keywords, Source = source, Model = [], IndexedAt = now\<rparr>"

definition DeleteIndex :: "string \<Rightarrow> search_index \<Rightarrow> search_index" where
  "DeleteIndex path = filter (\<lambda>(k, _). fst k \<noteq> path)"

text \<open>A rename onto a path that already has a document for the same page violates the unique key.\<close>

definition RenameIndex :: "string \<Rightarrow> string \<Rightarrow> search_index \<Rightarrow> search_index option" where
  "RenameIndex oldPath newPath ix =
     (let move = (\<lambda>(p, g :: int). (if p = oldPath then newPath else p, g))
      in if distinct (map (move \<circ> fst) ix) then Some (map (\<lambda>(k, d). (move k, d)) ix) else None)"

definition CopyIndex :: "string \<Rightarrow> string \<Rightarrow> search_index \<Rightarrow> search_index" where
  "CopyIndex srcPath dstPath ix =
     (let kept = filter (\<lambda>(k, _). fst k \<noteq> dstPath) ix
      in kept @ map (\<lambda>(k, d). ((dstPath, snd k), d)) (filter (\<lambda>(k, _). fst k = srcPath) kept))"

lemma map_of_IndexPage:
  "map_of (IndexPage now p g src b t kw ix) = (map_of ix)((p, g) \<mapsto>
     \<lparr>TitleText = t, BodyText = b, Keywords = kw, Source = src, Model = [], IndexedAt = now\<rparr>)"
  by (simp add: IndexPage_def update_conv')

lemma map_of_DeleteIndex: "map_of (DeleteIndex p ix) k = (if fst k = p then None else map_of ix k)"
  by (induction ix) (auto simp: DeleteIndex_def)

lemma takeWhile_end: "\<forall>c \<in> set xs. P c \<Longrightarrow> \<not> P y \<Longrightarrow> takeWhile P (xs @ y # ys) = xs"
  by (induction xs) auto

lemma PageID_PagePath:
  assumes "CHR ''/'' \<notin> set pageID"
  shows "PageID (PagePath nb pageID) = pageID"
proof -
  have "takeWhile (\<lambda>c. c \<noteq> CHR ''/'') (rev pageID @ CHR ''/'' # rev (Scheme @ nb)) = rev pageID"
    using assms by (intro takeWhile_end) auto
  then show ?thesis by (simp add: PageID_def PagePath_def)
qed

lemma NotebookID_PagePath:
  assumes "CHR ''/'' \<notin> set nb"
  shows "NotebookID (PagePath nb pageID) = nb"
proof -
  have "takeWhile (\<lambda>c. c \<noteq> CHR ''/'') (nb @ CHR ''/'' # pageID) = nb"
    using assms by (intro takeWhile_end) auto
  then show ?thesis
    by (simp add: NotebookID_def IsFNPath_def HasPrefix_def TrimPrefix_def PagePath_def)
qed

end
