(* ===== verification/Sync_Bridge.thy ===== *)
theory Sync_Bridge
  imports Sync_Edit Rag_Store Search_Index
begin

text \<open>
  The bridge from synced pages to search (\<open>internal/syncbridge/bridge.go\<close>): changed pages wait in a
  bounded queue, and the worker renders each page, recognizes its ink, composes the searchable
  body, and updates the search index, the page's server text and its embeddings, or drops the
  page from all three. Rendering, recognition and embedding are parameters that may fail.
\<close>

section \<open>The queue\<close>

definition queueCapacity :: nat where
  "queueCapacity = 256"

record bridge =
  queue :: "string list"
  inFlight :: int
  processed :: int
  dropped :: int

record bridge_status =
  bsPending :: nat
  bsInFlight :: int
  bsProcessed :: int
  bsDropped :: int
  bsCapacity :: nat

definition BridgeStatus :: "bridge \<Rightarrow> bridge_status" where
  "BridgeStatus b = \<lparr>bsPending = length (queue b), bsInFlight = inFlight b, bsProcessed = processed b,
     bsDropped = dropped b, bsCapacity = queueCapacity\<rparr>"

definition offer :: "string \<Rightarrow> bridge \<Rightarrow> bridge" where
  "offer pk b =
     (if length (queue b) < queueCapacity then b\<lparr>queue := queue b @ [pk]\<rparr> else b\<lparr>dropped := dropped b + 1\<rparr>)"

fun pages_loop :: "(string \<times> string) list \<Rightarrow> string set \<Rightarrow> bridge \<Rightarrow> bridge" where
  "pages_loop [] seen b = b"
| "pages_loop ((tbl, pk) # pages) seen b =
     (if tbl \<noteq> ''page'' \<or> pk \<in> seen then pages_loop pages seen b
      else pages_loop pages (insert pk seen) (offer pk b))"

definition PagesChanged :: "(string \<times> string) list \<Rightarrow> bridge \<Rightarrow> bridge" where
  "PagesChanged pages = pages_loop pages {}"

section \<open>The work on one page\<close>

text \<open>The collaborators: any of them may be missing.\<close>

record 'img deps =
  hasIndexer :: bool
  OCR :: "('img \<Rightarrow> string \<Rightarrow> string option) option"
  Embedder :: "(string \<Rightarrow> vector option) option"
  hasEmbedStore :: bool
  EmbedModel :: string
  OCRPrompt :: string

record world =
  wStore :: sync_store
  wIndex :: search_index
  wRag :: rag_store

definition defaultOCRPrompt :: string where
  "defaultOCRPrompt = ''Transcribe all handwritten and printed text in this image. Output only the text.''"

fun join_lines :: "string list \<Rightarrow> string" where
  "join_lines [] = []"
| "join_lines [x] = x"
| "join_lines (x # xs) = x @ [CHR 0x0A] @ join_lines xs"

definition joinTextBoxes :: "TextBoxData list \<Rightarrow> string" where
  "joinTextBoxes boxes = join_lines (filter (\<lambda>t. t \<noteq> []) (map tdText boxes))"

definition append_line :: "string \<Rightarrow> string \<Rightarrow> string" where
  "append_line body t = (if t = [] then body else (if body \<noteq> [] then body @ [CHR 0x0A] else body) @ t)"

definition recognized :: "'img deps \<Rightarrow> 'img \<Rightarrow> string" where
  "recognized d img =
     (case OCR d of
        None \<Rightarrow> []
      | Some recognize \<Rightarrow>
          (case recognize img (if OCRPrompt d \<noteq> [] then OCRPrompt d else defaultOCRPrompt) of Some t \<Rightarrow> t | None \<Rightarrow> []))"

definition server_body :: "'img deps \<Rightarrow> 'img \<Rightarrow> TextBoxData list \<Rightarrow> string" where
  "server_body d img boxes = append_line (recognized d img) (joinTextBoxes boxes)"

definition index_body :: "string \<Rightarrow> PageTextData option \<Rightarrow> string" where
  "index_body body clientText =
     (case clientText of
        Some ct \<Rightarrow> if TrimSpace (ptdText ct) \<noteq> [] then append_line body (ptdText ct) else body
      | None \<Rightarrow> body)"

definition dropPage :: "'img deps \<Rightarrow> millis \<Rightarrow> millis \<Rightarrow> string \<Rightarrow> string \<Rightarrow> world \<Rightarrow> world" where
  "dropPage d now now' pagePK path w =
     w\<lparr>wIndex := (if hasIndexer d then DeleteIndex path (wIndex w) else wIndex w),
       wRag := (if hasEmbedStore d then DeleteNote path (wRag w) else wRag w),
       wStore := snd (AuthorPageTextTombstone pagePK now now' (wStore w))\<rparr>"

definition page_size :: "string \<Rightarrow> mirror \<Rightarrow> int \<times> int" where
  "page_size notebookID m =
     (case NotebookMeta notebookID m of Some n \<Rightarrow> (niPageWidth n, niPageHeight n) | None \<Rightarrow> (10000, 13333))"

definition storePage ::
  "'img deps \<Rightarrow> millis \<Rightarrow> millis \<Rightarrow> string \<Rightarrow> string \<Rightarrow> string \<Rightarrow> string \<Rightarrow> world \<Rightarrow> world" where
  "storePage d now now' pagePK path serverBody indexBody w =
     (let w1 = w\<lparr>wIndex := (if hasIndexer d then IndexPage (now div 1000) path 0 ''forestnote'' indexBody [] [] (wIndex w) else wIndex w)\<rparr>;
          w2 = w1\<lparr>wStore := (if serverBody \<noteq> [] then snd (AuthorPageText pagePK serverBody now [] now' (wStore w1))
                            else snd (AuthorPageTextTombstone pagePK now now' (wStore w1)))\<rparr>
      in case Embedder d of
           Some e \<Rightarrow>
             if indexBody \<noteq> [] \<and> hasEmbedStore d
             then w2\<lparr>wRag := snd (EmbedAndStorePage e (SaveEmbedding (EmbedModel d) (now div 1000)) DeletePage path 0 indexBody (wRag w2))\<rparr>
             else w2
         | None \<Rightarrow> w2)"

definition processPage ::
  "'img deps \<Rightarrow> (StrokeData list \<Rightarrow> int \<times> int \<Rightarrow> 'img option) \<Rightarrow> millis \<Rightarrow> millis \<Rightarrow> string \<Rightarrow> world \<Rightarrow> world" where
  "processPage d render now now' pagePK w =
     (let m = mir (wStore w); notebookID = fst (LivePage pagePK m); path = PagePath notebookID pagePK
      in if \<not> snd (LivePage pagePK m) then dropPage d now now' pagePK path w
         else case (LivePageStrokes pagePK m, LivePageTextBoxes pagePK m, LivePageTextFromClient pagePK m) of
                (Some strokes, Some boxes, Some clientText) \<Rightarrow>
                  if strokes = [] \<and> boxes = [] then dropPage d now now' pagePK path w
                  else (case render strokes (page_size notebookID m) of
                          None \<Rightarrow> w
                        | Some img \<Rightarrow>
                            let serverBody = server_body d img boxes
                            in storePage d now now' pagePK path serverBody (index_body serverBody clientText) w)
              | _ \<Rightarrow> w)"

text \<open>One turn of the worker: take the head of the queue and process it.\<close>

definition run_once ::
  "'img deps \<Rightarrow> (StrokeData list \<Rightarrow> int \<times> int \<Rightarrow> 'img option) \<Rightarrow> millis \<Rightarrow> millis \<Rightarrow> bridge \<times> world \<Rightarrow> bridge \<times> world" where
  "run_once d render now now' = (\<lambda>(b, w).
     case queue b of
       [] \<Rightarrow> (b, w)
     | pk # rest \<Rightarrow> (b\<lparr>queue := rest, processed := processed b + 1\<rparr>, processPage d render now now' pk w))"

section \<open>The queue is bounded and loses only what it counts\<close>

text \<open>The pages of a notification, each once, in the order of their first mention.\<close>

fun first_pages :: "(string \<times> string) list \<Rightarrow> string set \<Rightarrow> string list" where
  "first_pages [] seen = []"
| "first_pages ((tbl, pk) # pages) seen =
     (if tbl \<noteq> ''page'' \<or> pk \<in> seen then first_pages pages seen else pk # first_pages pages (insert pk seen))"

lemma first_pages_distinct: "distinct (first_pages pages seen) \<and> set (first_pages pages seen) = {pk. (''page'', pk) \<in> set pages} - seen"
proof (induction pages arbitrary: seen)
  case (Cons x pages)
  obtain tbl pk where "x = (tbl, pk)" by (cases x)
  then show ?case using Cons [of seen] Cons [of "insert pk seen"] by auto
qed simp

lemma fold_offer:
  "length (queue b) \<le> queueCapacity \<Longrightarrow>
   fold offer pks b = b\<lparr>queue := queue b @ take (queueCapacity - length (queue b)) pks,
     dropped := dropped b + int (length pks - (queueCapacity - length (queue b)))\<rparr>"
proof (induction pks arbitrary: b)
  case (Cons pk pks)
  show ?case
  proof (cases "length (queue b) < queueCapacity")
    case True
    then obtain n where n: "queueCapacity - length (queue b) = Suc n" by (metis Suc_diff_Suc)
    then have "queueCapacity - length (queue (offer pk b)) = n" using True by (simp add: offer_def)
    then show ?thesis using Cons.IH [of "offer pk b"] True n by (simp add: offer_def)
  next
    case False
    then show ?thesis using Cons.IH [of "offer pk b"] Cons.prems by (simp add: offer_def)
  qed
qed simp

lemma pages_loop_fold: "pages_loop pages seen b = fold offer (first_pages pages seen) b"
  by (induction pages seen b rule: pages_loop.induct) simp_all

text \<open>
  A notification enqueues each page it names once, in order, as far as the queue has room, and
  counts exactly the pages that did not fit; the queue never holds more than 256 pages, and what
  was waiting stays in place.
\<close>

theorem PagesChanged_bounded:
  assumes "length (queue b) \<le> queueCapacity"
  shows "\<exists>pks. distinct pks \<and> set pks = {pk. (''page'', pk) \<in> set pages} \<and>
    PagesChanged pages b = b\<lparr>queue := queue b @ take (queueCapacity - length (queue b)) pks,
      dropped := dropped b + int (length pks - (queueCapacity - length (queue b)))\<rparr> \<and>
    length (queue (PagesChanged pages b)) \<le> 256"
proof -
  have "PagesChanged pages b = b\<lparr>queue := queue b @ take (queueCapacity - length (queue b)) (first_pages pages {}),
      dropped := dropped b + int (length (first_pages pages {}) - (queueCapacity - length (queue b)))\<rparr>"
    by (simp add: PagesChanged_def pages_loop_fold fold_offer [OF assms])
  moreover from this have "length (queue (PagesChanged pages b)) \<le> 256"
    using assms by (simp add: queueCapacity_def)
  ultimately show ?thesis using first_pages_distinct [of pages "{}"] by blast
qed

theorem PagesChanged_bounded_witness:
  "length (queue (PagesChanged [(''page'', ''a''), (''stroke'', ''x''), (''page'', ''a'')] \<lparr>queue = [], inFlight = 0, processed = 0, dropped = 0\<rparr>)) \<le> 256"
  using PagesChanged_bounded [of "\<lparr>queue = [], inFlight = 0, processed = 0, dropped = 0\<rparr>"
      "[(''page'', ''a''), (''stroke'', ''x''), (''page'', ''a'')]"] by auto

section \<open>Search follows the mirror\<close>

lemma DeleteNote_get: "GetEmbedding (DeleteNote p s) q g i = (if q = p then None else GetEmbedding s q g i)"
proof -
  have "DeleteNote p s = keep_keys (\<lambda>k. fst k \<noteq> p) s" by (simp add: DeleteNote_def case_prod_unfold)
  then show ?thesis by (simp add: GetEmbedding_def keep_keys_def map_of_filter_key)
qed

text \<open>What the vectors of a page are once a text has been embedded: those of the text's chunks, where the
  model failed on some of them only; the old ones stay when the text is empty, when there is no
  model, or when it failed on every chunk.\<close>

definition page_vectors :: "(string \<Rightarrow> vector option) option \<Rightarrow> string \<Rightarrow> (nat \<Rightarrow> vector option) \<Rightarrow> nat \<Rightarrow> vector option" where
  "page_vectors embedder body old i =
     (case embedder of
        None \<Rightarrow> old i
      | Some e \<Rightarrow>
          if body = [] \<or> ChunkText body \<noteq> [] \<and> list_all (\<lambda>c. e c = None) (ChunkText body) then old i
          else if i < length (ChunkText body) then e (ChunkText body ! i) else None)"

lemma storePage_embeddings:
  assumes "hasEmbedStore d"
  shows "GetEmbedding (wRag (storePage d now now' pk p sb ib w)) q g i =
    (if q = p \<and> g = 0 then page_vectors (Embedder d) ib (GetEmbedding (wRag w) p 0) i else GetEmbedding (wRag w) q g i)"
  using assms by (auto simp: storePage_def Let_def page_vectors_def rag.embed_page list_all_iff split: option.split)

text \<open>
  C36. With an index and an embedding store in place, processing a page makes search follow the mirror.
  A deleted or blank page disappears from the index and from the embeddings. A page with readable ink or
  text boxes that renders is indexed, as page 0 of its path, under the recognized text, its text boxes and
  the device's own recognition, in that order; its embeddings become exactly the vectors of that
  text's chunks (those the model answers for), and its server text is authored from the recognized
  text and the boxes, or withdrawn when there is none. The embeddings do not follow in three cases: when the
  text has become empty, when there is no model, and when the model fails on every chunk the old ones stay.
  A page whose rows cannot be read or that does not render keeps everything it had, and so does
  every other page in the index and the embeddings.
\<close>

theorem processPage_index:
  assumes "hasIndexer d" and "hasEmbedStore d" and "LivePage pk (mir (wStore w)) = (nb, live)"
    and "w' = processPage d render now now' pk w"
  shows "(\<not> live \<or> LivePageStrokes pk (mir (wStore w)) = Some [] \<and> LivePageTextBoxes pk (mir (wStore w)) = Some [] \<and>
        LivePageTextFromClient pk (mir (wStore w)) \<noteq> None \<longrightarrow>
      (\<forall>g i. map_of (wIndex w') (PagePath nb pk, g) = None \<and> GetEmbedding (wRag w') (PagePath nb pk) g i = None)) \<and>
    (\<forall>strokes boxes ct img. live \<and> LivePageStrokes pk (mir (wStore w)) = Some strokes \<and>
        LivePageTextBoxes pk (mir (wStore w)) = Some boxes \<and> LivePageTextFromClient pk (mir (wStore w)) = Some ct \<and>
        (strokes \<noteq> [] \<or> boxes \<noteq> []) \<and> render strokes (page_size nb (mir (wStore w))) = Some img \<longrightarrow>
      map_option BodyText (map_of (wIndex w') (PagePath nb pk, 0)) = Some (index_body (server_body d img boxes) ct) \<and>
      (\<forall>i. GetEmbedding (wRag w') (PagePath nb pk) 0 i =
         page_vectors (Embedder d) (index_body (server_body d img boxes) ct) (GetEmbedding (wRag w) (PagePath nb pk) 0) i) \<and>
      wStore w' = snd (if server_body d img boxes \<noteq> [] then AuthorPageText pk (server_body d img boxes) now [] now' (wStore w)
                       else AuthorPageTextTombstone pk now now' (wStore w))) \<and>
    (live \<and> (LivePageStrokes pk (mir (wStore w)) = None \<or> LivePageTextBoxes pk (mir (wStore w)) = None \<or>
        LivePageTextFromClient pk (mir (wStore w)) = None \<or>
        (\<exists>strokes. LivePageStrokes pk (mir (wStore w)) = Some strokes \<and>
           (strokes \<noteq> [] \<or> LivePageTextBoxes pk (mir (wStore w)) \<noteq> Some []) \<and>
           render strokes (page_size nb (mir (wStore w))) = None)) \<longrightarrow> w' = w) \<and>
    (\<forall>q g i. q \<noteq> PagePath nb pk \<longrightarrow>
      map_of (wIndex w') (q, g) = map_of (wIndex w) (q, g) \<and> GetEmbedding (wRag w') q g i = GetEmbedding (wRag w) q g i)"
proof -
  let ?p = "PagePath nb pk" and ?m = "mir (wStore w)"
  have drop: "map_of (wIndex (dropPage d now now' pk ?p w)) (q, g) = (if q = ?p then None else map_of (wIndex w) (q, g))"
    "GetEmbedding (wRag (dropPage d now now' pk ?p w)) q g i = (if q = ?p then None else GetEmbedding (wRag w) q g i)" for q g i
    using assms(1,2) by (simp_all add: dropPage_def map_of_DeleteIndex DeleteNote_get)
  have store: "map_option BodyText (map_of (wIndex (storePage d now now' pk ?p sb ib w)) (?p, 0)) = Some ib"
    "q \<noteq> ?p \<Longrightarrow> map_of (wIndex (storePage d now now' pk ?p sb ib w)) (q, g) = map_of (wIndex w) (q, g)"
    "wStore (storePage d now now' pk ?p sb ib w) =
       snd (if sb \<noteq> [] then AuthorPageText pk sb now [] now' (wStore w) else AuthorPageTextTombstone pk now now' (wStore w))" for sb ib q g
    using assms(1,2) by (simp_all add: storePage_def Let_def map_of_IndexPage split: option.split)
  have w': "w' = (if \<not> live then dropPage d now now' pk ?p w
     else case (LivePageStrokes pk ?m, LivePageTextBoxes pk ?m, LivePageTextFromClient pk ?m) of
        (Some strokes, Some boxes, Some clientText) \<Rightarrow>
          if strokes = [] \<and> boxes = [] then dropPage d now now' pk ?p w
          else (case render strokes (page_size nb ?m) of None \<Rightarrow> w
                | Some img \<Rightarrow> storePage d now now' pk ?p (server_body d img boxes) (index_body (server_body d img boxes) clientText) w)
      | _ \<Rightarrow> w)"
    unfolding assms(4) processPage_def Let_def assms(3) fst_conv snd_conv by (rule refl)
  show ?thesis
    unfolding w' using drop store storePage_embeddings [OF assms(2)] by (auto split: option.splits)
qed

theorem processPage_index_witness:
  "let w = \<lparr>wStore = fresh_store ''u'',
             wIndex = [((PagePath [] ''p'', 0), \<lparr>TitleText = [], BodyText = ''old'', Keywords = [], Source = [], Model = [], IndexedAt = 0\<rparr>)],
             wRag = \<lparr>note_embeddings = [], cache = []\<rparr>\<rparr>;
       d = \<lparr>hasIndexer = True, OCR = None, Embedder = None, hasEmbedStore = True, EmbedModel = [], OCRPrompt = []\<rparr> :: string deps
   in map_of (wIndex w) (PagePath [] ''p'', 0) \<noteq> None \<and>
      map_of (wIndex (processPage d (\<lambda>_ _. None) 5 5 ''p'' w)) (PagePath [] ''p'', 0) = None"
proof -
  have live: "LivePage ''p'' (mir (fresh_store ''u'')) = ([], False)" by code_simp
  show ?thesis
    using processPage_index [of "\<lparr>hasIndexer = True, OCR = None, Embedder = None, hasEmbedStore = True, EmbedModel = [], OCRPrompt = []\<rparr> :: string deps"
        "''p''" "\<lparr>wStore = fresh_store ''u'', wIndex = [((PagePath [] ''p'', 0), \<lparr>TitleText = [], BodyText = ''old'', Keywords = [], Source = [], Model = [], IndexedAt = 0\<rparr>)], wRag = \<lparr>note_embeddings = [], cache = []\<rparr>\<rparr>"
        "[]" False _ "\<lambda>_ _. None" 5 5, OF _ _ _ refl] live
    by (simp add: Let_def)
qed

end
