(* ===== verification/Rm_Index.thy ===== *)
theory Rm_Index
  imports Decimal Base64 "HOL-Library.Word" "HOL-Library.Multiset"
begin

unbundle bit_operations_syntax

text \<open>
  The hash tree index files of the reMarkable cloud and their digests
  (\<open>internal/source/remarkable/tree.go\<close>, \<open>treewrite.go\<close>, \<open>crc.go\<close>): the line format of an index,
  its parser and serializer, the composite hash over the child hashes, and the CRC32C header the
  tablet checks on every download. SHA-256 is a parameter; a byte is a \<open>char\<close>.
\<close>

section \<open>Hexadecimal\<close>

definition hex_digit :: "nat \<Rightarrow> char" where
  "hex_digit n = (if n < 10 then char_of (48 + n) else char_of (87 + n))"

definition hex_val :: "char \<Rightarrow> nat option" where
  "hex_val c =
     (let n = of_char c :: nat in
      if 48 \<le> n \<and> n \<le> 57 then Some (n - 48)
      else if 97 \<le> n \<and> n \<le> 102 then Some (n - 87)
      else if 65 \<le> n \<and> n \<le> 70 then Some (n - 55) else None)"

definition hexEncode :: "string \<Rightarrow> string" where
  "hexEncode bs = concat (map (\<lambda>c. [hex_digit (of_char c div 16), hex_digit (of_char c mod 16)]) bs)"

fun hexDecode :: "string \<Rightarrow> string option" where
  "hexDecode [] = Some []"
| "hexDecode [_] = None"
| "hexDecode (a # b # cs) =
     (case (hex_val a, hex_val b, hexDecode cs) of
        (Some x, Some y, Some bs) \<Rightarrow> Some (char_of (16 * x + y) # bs)
      | _ \<Rightarrow> None)"

section \<open>Index files\<close>

record indexEntry =
  ieHash :: string
  ieType :: string
  ieName :: string
  ieSubfiles :: int
  ieSize :: int

datatype index_error = MissingSummary | UnknownSchema | FieldCount | BadSubfiles | BadSize | TooLong | BadHash

definition docIndexSchema :: string where
  "docIndexSchema = ''3''"

definition maxLine :: nat where
  "maxLine = 4 * 1024 * 1024"

text \<open>\<open>bufio.Scanner\<close> over lines: a final line needs no newline, a carriage return before the newline
  is dropped, and the scan stops with an error at a line that does not fit the buffer.\<close>

fun raw_lines :: "string \<Rightarrow> string \<Rightarrow> string list" where
  "raw_lines [] acc = (if acc = [] then [] else [rev acc])"
| "raw_lines (c # cs) acc = (if c = CHR 0x0A then rev acc # raw_lines cs [] else raw_lines cs (c # acc))"

definition drop_cr :: "string \<Rightarrow> string" where
  "drop_cr l = (if l \<noteq> [] \<and> last l = CHR 0x0D then butlast l else l)"

definition scan_lines :: "string \<Rightarrow> string list \<times> bool" where
  "scan_lines d =
     (let ls = raw_lines d []
      in (map drop_cr (takeWhile (\<lambda>l. length l < maxLine) ls), list_all (\<lambda>l. length l < maxLine) ls))"

fun split_colon :: "string \<Rightarrow> string \<Rightarrow> string list" where
  "split_colon [] acc = [rev acc]"
| "split_colon (c # cs) acc = (if c = CHR '':'' then rev acc # split_colon cs [] else split_colon cs (c # acc))"

definition parse_entry :: "string \<Rightarrow> index_error + indexEntry" where
  "parse_entry line =
     (case split_colon line [] of
        [h, t, n, sub, sz] \<Rightarrow>
          (case ParseInt sub of
             None \<Rightarrow> Inl BadSubfiles
           | Some k \<Rightarrow>
               (case ParseInt sz of
                  None \<Rightarrow> Inl BadSize
                | Some m \<Rightarrow> Inr \<lparr>ieHash = h, ieType = t, ieName = n, ieSubfiles = k, ieSize = m\<rparr>))
      | _ \<Rightarrow> Inl FieldCount)"

fun parse_entries :: "string list \<Rightarrow> index_error + indexEntry list" where
  "parse_entries [] = Inr []"
| "parse_entries (l # ls) =
     (let line = TrimSpace l in
      if line = [] then parse_entries ls
      else bind_sum (parse_entry line) (\<lambda>e. bind_sum (parse_entries ls) (\<lambda>es. Inr (e # es))))"

definition parseIndexWithSchema :: "string \<Rightarrow> index_error + (string \<times> indexEntry list)" where
  "parseIndexWithSchema d =
     (let (tokens, ok) = scan_lines d;
          finish = (\<lambda>schema ls. bind_sum (parse_entries ls) (\<lambda>es. if ok then Inr (schema, es) else Inl TooLong))
      in case tokens of
           [] \<Rightarrow> Inr (docIndexSchema, [])
         | l # ls \<Rightarrow>
             let schema = TrimSpace l in
             if schema = ''4'' then (case ls of [] \<Rightarrow> Inl MissingSummary | _ # rest \<Rightarrow> finish schema rest)
             else if schema = ''3'' then finish schema ls
             else Inl UnknownSchema)"

definition parseIndex :: "string \<Rightarrow> index_error + indexEntry list" where
  "parseIndex d = bind_sum (parseIndexWithSchema d) (\<lambda>(_, es). Inr es)"

definition sortedByName :: "indexEntry list \<Rightarrow> indexEntry list" where
  "sortedByName = sort_key ieName"

definition sumEntrySizes :: "indexEntry list \<Rightarrow> int" where
  "sumEntrySizes es = fold (\<lambda>e t. wrap64 (t + ieSize e)) es 0"

definition entry_line :: "indexEntry \<Rightarrow> string" where
  "entry_line e =
     ieHash e @ '':'' @ ieType e @ '':'' @ ieName e @ '':'' @ FormatInt (ieSubfiles e) @ '':'' @ FormatInt (ieSize e)"

definition summary_line :: "indexEntry list \<Rightarrow> string" where
  "summary_line es = ''0:.:'' @ FormatInt (int (length es)) @ '':'' @ FormatInt (sumEntrySizes es)"

definition serializeIndex :: "string \<Rightarrow> indexEntry list \<Rightarrow> string" where
  "serializeIndex schema es =
     (let sorted = sortedByName es
      in concat (map (\<lambda>l. l @ [CHR 0x0A])
           (schema # (if schema = ''4'' then [summary_line sorted] else []) @ map entry_line sorted)))"

fun decode_hashes :: "indexEntry list \<Rightarrow> index_error + string" where
  "decode_hashes [] = Inr []"
| "decode_hashes (e # es) =
     (case hexDecode (ieHash e) of
        None \<Rightarrow> Inl BadHash
      | Some raw \<Rightarrow> bind_sum (decode_hashes es) (\<lambda>rest. Inr (raw @ rest)))"

definition hashOfEntries :: "(string \<Rightarrow> string) \<Rightarrow> indexEntry list \<Rightarrow> index_error + string" where
  "hashOfEntries sha256 es = bind_sum (decode_hashes (sortedByName es)) (\<lambda>raw. Inr (hexEncode (sha256 raw)))"

definition blobHashHex :: "(string \<Rightarrow> string) \<Rightarrow> string \<Rightarrow> string" where
  "blobHashHex sha256 b = hexEncode (sha256 b)"

section \<open>The checksum header\<close>

definition crc_shift :: "32 word \<Rightarrow> 32 word" where
  "crc_shift c = (if bit c 0 then drop_bit 1 c XOR 0x82F63B78 else drop_bit 1 c)"

definition crc_byte :: "char \<Rightarrow> 32 word \<Rightarrow> 32 word" where
  "crc_byte b c = (crc_shift ^^ 8) (c XOR of_nat (of_char b))"

definition crc32c :: "string \<Rightarrow> 32 word" where
  "crc32c bs = NOT (fold crc_byte bs (NOT 0))"

definition be_bytes :: "32 word \<Rightarrow> string" where
  "be_bytes w = map (\<lambda>k. char_of (unat (drop_bit k w AND 0xFF))) [24, 16, 8, 0]"

text \<open>The column the store keeps next to a blob.\<close>

definition crcHex :: "string \<Rightarrow> string" where
  "crcHex b = hexEncode (be_bytes (crc32c b))"

definition crc32cHeaderValue :: "string \<Rightarrow> string" where
  "crc32cHeaderValue b = ''crc32c='' @ EncodeToString (be_bytes (crc32c b))"

definition crc32cHexToHeader :: "string \<Rightarrow> string option" where
  "crc32cHexToHeader hexCRC =
     (case hexDecode hexCRC of
        None \<Rightarrow> None
      | Some raw \<Rightarrow> if length raw \<noteq> 4 then None else Some (''crc32c='' @ EncodeToString raw))"

section \<open>Round trips\<close>

lemma hex_val_digit [simp]: "n < 16 \<Longrightarrow> hex_val (hex_digit n) = Some n"
  by (auto simp: hex_val_def hex_digit_def)

lemma hexDecode_hexEncode [simp]: "hexDecode (hexEncode bs) = Some bs"
proof (induction bs)
  case (Cons c bs)
  have "(of_char c :: nat) < 256" using byte_val_lt [of c] by (simp add: byte_val_def)
  moreover from this have "of_char c div 16 < (16 :: nat)" by (rule less_mult_imp_div_less [of _ 16 16, simplified])
  moreover have "16 * (of_char c div 16) + of_char c mod 16 = (of_char c :: nat)" by simp
  ultimately show ?case using Cons by (simp add: hexEncode_def)
qed (simp add: hexEncode_def)

lemma length_be_bytes [simp]: "length (be_bytes w) = 4"
  by (simp add: be_bytes_def)

text \<open>
  The checksum header of a download agrees with the checksum of the content: the column stored
  with a blob converts to exactly the header value computed from the bytes, which decodes to the
  four bytes the tablet requires; a column that is no hexadecimal string of four bytes gives no
  header.
\<close>

theorem crc_header_agrees:
  "crc32cHexToHeader (crcHex b) = Some (crc32cHeaderValue b) \<and>
   DecodeString (drop 7 (crc32cHeaderValue b)) = Some (be_bytes (crc32c b)) \<and> length (be_bytes (crc32c b)) = 4 \<and>
   (crc32cHexToHeader h = None \<longleftrightarrow> (\<nexists>raw. hexDecode h = Some raw \<and> length raw = 4))"
  by (auto simp: crc32cHexToHeader_def crcHex_def crc32cHeaderValue_def split: option.split)

subsection \<open>Lines and fields\<close>

lemma raw_lines_line: "CHR 0x0A \<notin> set l \<Longrightarrow> raw_lines (l @ CHR 0x0A # rest) acc = (rev acc @ l) # raw_lines rest []"
  by (induction l arbitrary: acc) auto

lemma raw_lines_concat:
  "\<forall>l \<in> set ls. CHR 0x0A \<notin> set l \<Longrightarrow> raw_lines (concat (map (\<lambda>l. l @ [CHR 0x0A]) ls)) [] = ls"
  by (induction ls) (auto simp: raw_lines_line)

lemma split_colon_field: "CHR '':'' \<notin> set f \<Longrightarrow> split_colon (f @ CHR '':'' # rest) acc = (rev acc @ f) # split_colon rest []"
  by (induction f arbitrary: acc) auto

lemma split_colon_last: "CHR '':'' \<notin> set f \<Longrightarrow> split_colon f acc = [rev acc @ f]"
  by (induction f arbitrary: acc) auto

text \<open>What a decimal number is made of.\<close>

definition number_chars :: "char set" where
  "number_chars = set ''-0123456789''"

lemma number_chars_plain: "c \<in> number_chars \<Longrightarrow> c \<noteq> CHR '':'' \<and> c \<noteq> CHR 0x0A \<and> c \<noteq> CHR 0x0D \<and> \<not> is_space c"
proof -
  have "\<forall>c \<in> number_chars. c \<noteq> CHR '':'' \<and> c \<noteq> CHR 0x0A \<and> c \<noteq> CHR 0x0D \<and> \<not> is_space c" by code_simp
  then show "c \<in> number_chars \<Longrightarrow> ?thesis" by blast
qed

lemma digit_char_number: "d < 10 \<Longrightarrow> digit_char d \<in> number_chars"
proof -
  have "\<forall>d \<in> set [0..<10]. digit_char d \<in> number_chars" by code_simp
  then show "d < 10 \<Longrightarrow> ?thesis" by simp
qed

lemma show_nat_chars: "set (show_nat n) \<subseteq> number_chars \<and> show_nat n \<noteq> []"
proof (induction n rule: show_nat.induct)
  case (1 n)
  then show ?case
    using digit_char_number [of n] digit_char_number [of "n mod 10"] by (subst (1 2) show_nat.simps) auto
qed

lemma FormatInt_chars: "set (FormatInt i) \<subseteq> number_chars"
proof -
  have "CHR ''-'' \<in> number_chars" by code_simp
  then show ?thesis using show_nat_chars by (simp add: FormatInt_def)
qed

lemma FormatInt_nonempty: "FormatInt i \<noteq> []"
  using show_nat_chars by (simp add: FormatInt_def)

lemma FormatInt_plain: "CHR '':'' \<notin> set (FormatInt i)" "CHR 0x0A \<notin> set (FormatInt i)"
  using FormatInt_chars [of i] number_chars_plain by blast+

lemma FormatInt_last: "\<not> is_space (last (FormatInt i))" "last (FormatInt i) \<noteq> CHR 0x0D"
proof -
  have "last (FormatInt i) \<in> number_chars"
    using FormatInt_chars [of i] FormatInt_nonempty [of i] last_in_set by blast
  then show "\<not> is_space (last (FormatInt i))" "last (FormatInt i) \<noteq> CHR 0x0D" using number_chars_plain by blast+
qed

lemma hexDecode_chars: "hexDecode h = Some raw \<Longrightarrow> c \<in> set h \<Longrightarrow> hex_val c \<noteq> None"
  by (induction h arbitrary: raw rule: hexDecode.induct) (auto split: option.splits)

lemma hex_plain:
  assumes "hex_val c \<noteq> None"
  shows "c \<noteq> CHR '':''" "c \<noteq> CHR 0x0A" "\<not> is_space c"
proof -
  have "\<forall>c \<in> set [CHR '':'', CHR 0x0A, CHR 0x09, CHR 0x0B, CHR 0x0C, CHR 0x0D, CHR 0x20]. hex_val c = None" by code_simp
  then show "c \<noteq> CHR '':''" "c \<noteq> CHR 0x0A" "\<not> is_space c"
    using assms by (auto simp: is_space_def)
qed

lemma TrimSpace_id:
  assumes "l \<noteq> []" "\<not> is_space (hd l)" "\<not> is_space (last l)"
  shows "TrimSpace l = l"
proof -
  have "dropWhile is_space l = l" "dropWhile is_space (rev l) = rev l"
    using assms by (auto simp: dropWhile_eq_self_iff hd_rev)
  then show ?thesis by (simp add: TrimSpace_def)
qed

subsection \<open>Serialize, then parse\<close>

definition entry_ok :: "indexEntry \<Rightarrow> bool" where
  "entry_ok e \<longleftrightarrow> hexDecode (ieHash e) \<noteq> None \<and> CHR '':'' \<notin> set (ieType e) \<and> CHR 0x0A \<notin> set (ieType e) \<and>
     CHR '':'' \<notin> set (ieName e) \<and> CHR 0x0A \<notin> set (ieName e) \<and> int64 (ieSubfiles e) \<and> int64 (ieSize e) \<and>
     length (entry_line e) < maxLine"

lemma entry_ok_hash: "entry_ok e \<Longrightarrow> c \<in> set (ieHash e) \<Longrightarrow> c \<noteq> CHR '':'' \<and> c \<noteq> CHR 0x0A \<and> \<not> is_space c"
  using hexDecode_chars hex_plain unfolding entry_ok_def by blast

lemma parse_entry_line:
  assumes "entry_ok e"
  shows "parse_entry (entry_line e) = Inr e"
proof -
  have "CHR '':'' \<notin> set (ieHash e)" using entry_ok_hash [OF assms] by blast
  then have "split_colon (entry_line e) [] = [ieHash e, ieType e, ieName e, FormatInt (ieSubfiles e), FormatInt (ieSize e)]"
    using assms by (simp add: entry_ok_def entry_line_def split_colon_field split_colon_last FormatInt_plain)
  then show ?thesis
    using assms by (simp add: parse_entry_def ParseInt_FormatInt entry_ok_def)
qed

lemma entry_line_shape:
  assumes "entry_ok e"
  shows "CHR 0x0A \<notin> set (entry_line e)" "TrimSpace (entry_line e) = entry_line e" "entry_line e \<noteq> []" "drop_cr (entry_line e) = entry_line e"
proof -
  show n: "CHR 0x0A \<notin> set (entry_line e)"
    using assms entry_ok_hash [OF assms] by (auto simp: entry_ok_def entry_line_def FormatInt_plain)
  show ne: "entry_line e \<noteq> []" by (simp add: entry_line_def)
  have l: "last (entry_line e) = last (FormatInt (ieSize e))"
    using FormatInt_nonempty by (simp add: entry_line_def)
  have "\<not> is_space (hd (entry_line e))"
    using entry_ok_hash [OF assms] by (cases "ieHash e") (auto simp: entry_line_def is_space_def)
  then show "TrimSpace (entry_line e) = entry_line e"
    using ne l FormatInt_last by (intro TrimSpace_id) simp_all
  show "drop_cr (entry_line e) = entry_line e" using l FormatInt_last by (simp add: drop_cr_def)
qed

lemma parse_entries_lines: "list_all entry_ok es \<Longrightarrow> parse_entries (map entry_line es) = Inr es"
  by (induction es) (simp_all add: entry_line_shape parse_entry_line)

lemma summary_line_shape:
  "CHR 0x0A \<notin> set (summary_line es)" "drop_cr (summary_line es) = summary_line es"
  using FormatInt_last FormatInt_nonempty by (auto simp: summary_line_def FormatInt_plain drop_cr_def)

definition clean_line :: "string \<Rightarrow> bool" where
  "clean_line l \<longleftrightarrow> CHR 0x0A \<notin> set l \<and> drop_cr l = l \<and> length l < maxLine"

lemma scan_clean:
  assumes "\<forall>l \<in> set ls. clean_line l"
  shows "scan_lines (concat (map (\<lambda>l. l @ [CHR 0x0A]) ls)) = (ls, True)"
proof -
  have t: "takeWhile (\<lambda>l. length l < maxLine) ls = ls" using assms by (simp add: takeWhile_eq_all_conv clean_line_def)
  have m: "map drop_cr ls = ls" using assms by (simp add: map_idI clean_line_def)
  have "raw_lines (concat (map (\<lambda>l. l @ [CHR 0x0A]) ls)) [] = ls"
    using assms by (intro raw_lines_concat) (simp add: clean_line_def)
  then show ?thesis using assms by (simp add: scan_lines_def t m list_all_iff clean_line_def)
qed

lemma index_roundtrip_eq:
  assumes "schema = ''3'' \<or> schema = ''4'' \<and> length (summary_line (sortedByName es)) < maxLine"
    and "list_all entry_ok es"
  shows "parseIndexWithSchema (serializeIndex schema es) = Inr (schema, sortedByName es)"
proof -
  let ?es = "sortedByName es"
  have ok: "list_all entry_ok ?es" using assms(2) by (simp add: list_all_iff sortedByName_def)
  have lines: "clean_line l" if "l \<in> set (map entry_line ?es)" for l
    using that ok entry_line_shape by (auto simp: list_all_iff entry_ok_def clean_line_def)
  have schemas: "TrimSpace ''3'' = ''3''" "TrimSpace ''4'' = ''4''" by code_simp+
  have short: "clean_line l" if "l = ''3'' \<or> l = ''4''" for l
    using that by (auto simp: clean_line_def drop_cr_def maxLine_def)
  show ?thesis
  proof (cases "schema = ''3''")
    case True
    then have "scan_lines (serializeIndex schema es) = (schema # map entry_line ?es, True)"
      unfolding serializeIndex_def Let_def using lines short by (subst scan_clean) auto
    then show ?thesis using True schemas parse_entries_lines [OF ok] by (simp add: parseIndexWithSchema_def)
  next
    case False
    then have four: "schema = ''4''" and sl: "length (summary_line ?es) < maxLine" using assms(1) by auto
    then have "clean_line (summary_line ?es)" using summary_line_shape [of ?es] by (simp add: clean_line_def)
    then have "scan_lines (serializeIndex schema es) = (schema # summary_line ?es # map entry_line ?es, True)"
      unfolding serializeIndex_def Let_def four using lines short by (subst scan_clean) auto
    then show ?thesis using four schemas parse_entries_lines [OF ok] by (simp add: parseIndexWithSchema_def)
  qed
qed

text \<open>
  C18. An index the server writes is read back entry for entry: for both schemas, parsing the
  serialized index gives the same schema and the entries in the order of their names, for any
  entries with hexadecimal hashes, names and types free of colons and newlines and int64 numbers, whose lines (and the summary line of
  schema 4) are within the scanner's line limit.
\<close>

theorem index_roundtrip:
  assumes "schema = ''3'' \<or> schema = ''4'' \<and> length (summary_line (sortedByName es)) < maxLine"
    and "list_all entry_ok es"
  shows "parseIndexWithSchema (serializeIndex schema es) = Inr (schema, sortedByName es)"
  using assms by (rule index_roundtrip_eq)

definition ex_entry :: "string \<Rightarrow> string \<Rightarrow> indexEntry" where
  "ex_entry h n = \<lparr>ieHash = h, ieType = ''80000000'', ieName = n, ieSubfiles = 2, ieSize = 17\<rparr>"

theorem index_roundtrip_witness:
  "parseIndexWithSchema (serializeIndex ''4'' [ex_entry ''ff01'' ''b'', ex_entry ''00aa'' ''a'']) =
     Inr (''4'', [ex_entry ''00aa'' ''a'', ex_entry ''ff01'' ''b''])"
proof -
  have sorted: "sortedByName [ex_entry ''ff01'' ''b'', ex_entry ''00aa'' ''a''] = [ex_entry ''00aa'' ''a'', ex_entry ''ff01'' ''b'']"
    and fields: "list_all (\<lambda>e. hexDecode (ieHash e) \<noteq> None \<and> CHR '':'' \<notin> set (ieType e) \<and> CHR 0x0A \<notin> set (ieType e) \<and>
      CHR '':'' \<notin> set (ieName e) \<and> CHR 0x0A \<notin> set (ieName e) \<and> int64 (ieSubfiles e) \<and> int64 (ieSize e) \<and>
      length (entry_line e) < 30) [ex_entry ''ff01'' ''b'', ex_entry ''00aa'' ''a'']"
    and summary: "length (summary_line [ex_entry ''00aa'' ''a'', ex_entry ''ff01'' ''b'']) < 30" by code_simp+
  have "list_all entry_ok [ex_entry ''ff01'' ''b'', ex_entry ''00aa'' ''a'']"
    using fields unfolding entry_ok_def maxLine_def list_all_iff by fastforce
  moreover have "length (summary_line (sortedByName [ex_entry ''ff01'' ''b'', ex_entry ''00aa'' ''a''])) < maxLine"
    unfolding sorted maxLine_def using summary by simp
  ultimately show ?thesis
    using index_roundtrip [of "''4''" "[ex_entry ''ff01'' ''b'', ex_entry ''00aa'' ''a'']"] sorted by simp
qed

subsection \<open>The composite hash\<close>

lemma sortedByName_perm:
  assumes "mset es = mset es'" and "distinct (map ieName es)"
  shows "sortedByName es = sortedByName es'"
proof -
  have "inj_on ieName (set es)" using assms(2) by (simp add: distinct_map)
  then show ?thesis
    unfolding sortedByName_def using assms(1) by (intro sort_key_inj_key_eq) simp_all
qed

text \<open>The composite hash is a function of the child hashes in name order and of nothing else: in
  particular not of the names. Two documents with the same files share one sub-index id.\<close>

lemma hashOfEntries_only_hashes:
  assumes "map ieHash (sortedByName es) = map ieHash (sortedByName es')"
  shows "hashOfEntries sha256 es = hashOfEntries sha256 es'"
proof -
  have "decode_hashes xs = decode_hashes ys" if "map ieHash xs = map ieHash ys" for xs ys
    using that
  proof (induction xs arbitrary: ys)
    case (Cons x xs)
    then obtain y zs where "ys = y # zs" "ieHash x = ieHash y" "map ieHash xs = map ieHash zs" by auto
    then show ?case using Cons.IH [of zs] by (simp split: option.split)
  qed simp
  from this [OF assms] show ?thesis by (simp add: hashOfEntries_def)
qed

end
