(* ===== verification/Rm_Blobs.thy ===== *)
theory Rm_Blobs
  imports Rm_Index
begin

text \<open>
  The blob store of the reMarkable cloud emulation (\<open>internal/source/remarkable/store.go\<close>): a table of
  generations and payload paths over files on disk. Ordinary writes reuse the path of their blob and
  bump the generation; a write against an expected generation goes to a file of its own, which is
  only linked once the generation check has passed. SHA-1 (the file names) is a parameter, random
  file names are tried in a given order, and input and output do not fail.
\<close>

section \<open>State and operations\<close>

record blob_row =
  bGen :: int
  bSize :: int
  bCRC :: string
  bPath :: string
  bUpdatedAt :: millis

record rm_blobs =
  remarkable_blobs :: "blob_row table"
  files :: "string table"

text \<open>What the environment provides: digests, names for temporary files, the clock.\<close>

record rm_env =
  sha1 :: "string \<Rightarrow> string"
  sha256 :: "string \<Rightarrow> string"
  tmpNames :: "string list"
  clock :: millis

datatype blob_error = BlobNotFound | GenerationMismatch | FileMissing | NoTempName

definition rootBlobID :: string where
  "rootBlobID = ''root''"

definition digestName :: "rm_env \<Rightarrow> string \<Rightarrow> string" where
  "digestName c s = hexEncode (sha1 c s) @ ''.bin''"

definition blob_path :: "rm_env \<Rightarrow> string \<Rightarrow> string" where
  "blob_path c blobID = ''blobs/'' @ digestName c blobID"

text \<open>\<open>os.CreateTemp\<close>: the first name of the given ones that is not taken.\<close>

definition CreateTemp :: "rm_env \<Rightarrow> string \<Rightarrow> rm_blobs \<Rightarrow> string option" where
  "CreateTemp c pattern s = List.find (\<lambda>p. map_of (files s) p = None) (map (\<lambda>r. pattern @ r) (tmpNames c))"

definition getBlob :: "string \<Rightarrow> rm_blobs \<Rightarrow> blob_error + blob_row" where
  "getBlob blobID s = (case map_of (remarkable_blobs s) blobID of None \<Rightarrow> Inl BlobNotFound | Some r \<Rightarrow> Inr r)"

definition osReadFile :: "string \<Rightarrow> rm_blobs \<Rightarrow> blob_error + string" where
  "osReadFile path s = (case map_of (files s) path of None \<Rightarrow> Inl FileMissing | Some d \<Rightarrow> Inr d)"

definition readBlob :: "string \<Rightarrow> rm_blobs \<Rightarrow> blob_error + string" where
  "readBlob blobID s = bind_sum (getBlob blobID s) (\<lambda>r. osReadFile (bPath r) s)"

definition new_blob_row :: "rm_env \<Rightarrow> int \<Rightarrow> string \<Rightarrow> string \<Rightarrow> blob_row" where
  "new_blob_row c g body path =
     \<lparr>bGen = g, bSize = int (length body), bCRC = crcHex body, bPath = path, bUpdatedAt = clock c\<rparr>"

definition putBlobCAS ::
  "rm_env \<Rightarrow> string \<Rightarrow> string \<Rightarrow> int \<Rightarrow> rm_blobs \<Rightarrow> (blob_error + int) \<times> rm_blobs" where
  "putBlobCAS c blobID body matchGeneration s =
     (case CreateTemp c (blob_path c blobID @ ''.cas-'') s of
        None \<Rightarrow> (Inl NoTempName, s)
      | Some path \<Rightarrow>
          let s1 = s\<lparr>files := upsert path body (files s)\<rparr>;
              lost = s1\<lparr>files := AList.delete path (files s1)\<rparr>
          in case map_of (remarkable_blobs s1) blobID of
               None \<Rightarrow> (Inl GenerationMismatch, lost)
             | Some r \<Rightarrow>
                 if bGen r \<noteq> matchGeneration then (Inl GenerationMismatch, lost)
                 else (let g = bGen r + 1;
                           s2 = s1\<lparr>remarkable_blobs := upsert blobID (new_blob_row c g body path) (remarkable_blobs s1)\<rparr>
                       in (Inr g, if bPath r \<noteq> [] \<and> bPath r \<noteq> path then s2\<lparr>files := AList.delete (bPath r) (files s2)\<rparr> else s2)))"

definition putBlob ::
  "rm_env \<Rightarrow> string \<Rightarrow> string \<Rightarrow> int \<Rightarrow> rm_blobs \<Rightarrow> (blob_error + int) \<times> rm_blobs" where
  "putBlob c blobID body matchGeneration s =
     (if matchGeneration \<noteq> 0 then putBlobCAS c blobID body matchGeneration s
      else (let path = blob_path c blobID;
                g = (case map_of (remarkable_blobs s) blobID of None \<Rightarrow> 1 | Some r \<Rightarrow> bGen r + 1)
            in (Inr g, s\<lparr>files := upsert path body (files s),
                        remarkable_blobs := upsert blobID (new_blob_row c g body path) (remarkable_blobs s)\<rparr>)))"

text \<open>The two ways a device reaches the root: the commit endpoint and the check for missing files.\<close>

definition handlePutRootV3 :: "rm_env \<Rightarrow> (int \<times> string) option \<Rightarrow> rm_blobs \<Rightarrow> (nat \<times> int option) \<times> rm_blobs" where
  "handlePutRootV3 c req s =
     (case req of
        None \<Rightarrow> ((400, None), s)
      | Some (generation, hash) \<Rightarrow>
          (case putBlob c rootBlobID hash generation s of
             (Inr g, s') \<Rightarrow> ((200, Some g), s')
           | (Inl e, s') \<Rightarrow> ((if e = GenerationMismatch then 412 else 500, None), s')))"

definition handleGetRootV3 :: "rm_blobs \<Rightarrow> nat \<times> (int \<times> string) option" where
  "handleGetRootV3 s =
     (case getBlob rootBlobID s of
        Inl _ \<Rightarrow> (404, None)
      | Inr r \<Rightarrow> (case osReadFile (bPath r) s of Inl _ \<Rightarrow> (500, None) | Inr d \<Rightarrow> (200, Some (bGen r, d))))"

definition handleCheckFiles :: "string list \<Rightarrow> rm_blobs \<Rightarrow> string list" where
  "handleCheckFiles ids s = filter (\<lambda>i. isl (getBlob i s)) ids"

section \<open>What clients see\<close>

definition view :: "rm_blobs \<Rightarrow> string \<Rightarrow> (int \<times> string) option" where
  "view s i =
     (case map_of (remarkable_blobs s) i of
        None \<Rightarrow> None
      | Some r \<Rightarrow> map_option (Pair (bGen r)) (map_of (files s) (bPath r)))"

text \<open>The file names, all of one length, do not collide on the ids in use.\<close>

definition no_collision :: "rm_env \<Rightarrow> string set \<Rightarrow> bool" where
  "no_collision c K \<longleftrightarrow> inj_on (sha1 c) K \<and> (\<forall>x \<in> K. \<forall>y \<in> K. length (sha1 c x) = length (sha1 c y))"

definition own_path :: "rm_env \<Rightarrow> string \<Rightarrow> string \<Rightarrow> bool" where
  "own_path c i p \<longleftrightarrow> (\<exists>x. p = blob_path c i @ x)"

definition blobs_inv :: "rm_env \<Rightarrow> string set \<Rightarrow> rm_blobs \<Rightarrow> bool" where
  "blobs_inv c K s \<longleftrightarrow> unique_keys (remarkable_blobs s) \<and> unique_keys (files s) \<and>
     (\<forall>i r. map_of (remarkable_blobs s) i = Some r \<longrightarrow> i \<in> K \<and> 1 \<le> bGen r \<and> own_path c i (bPath r) \<and>
        (\<exists>d. map_of (files s) (bPath r) = Some d \<and> bSize r = int (length d) \<and> bCRC r = crcHex d))"

lemma length_hexEncode [simp]: "length (hexEncode bs) = 2 * length bs"
  by (induction bs) (simp_all add: hexEncode_def)

lemma hexEncode_inj: "hexEncode a = hexEncode b \<longleftrightarrow> a = b"
  by (metis hexDecode_hexEncode option.inject)

lemma own_path_disjoint:
  assumes "no_collision c K" "i \<in> K" "j \<in> K" "own_path c i p" "own_path c j p"
  shows "i = j"
proof -
  obtain x y where "blob_path c i @ x = blob_path c j @ y" using assms(4,5) by (auto simp: own_path_def)
  then have "hexEncode (sha1 c i) @ ''.bin'' @ x = hexEncode (sha1 c j) @ ''.bin'' @ y"
    by (simp add: blob_path_def digestName_def)
  then have "hexEncode (sha1 c i) = hexEncode (sha1 c j)"
    using assms(1,2,3) unfolding no_collision_def by (metis append_eq_append_conv length_hexEncode)
  then show ?thesis using assms(1,2,3) by (auto simp: hexEncode_inj no_collision_def dest: inj_onD)
qed

lemma CreateTemp_fresh: "CreateTemp c pat s = Some p \<Longrightarrow> map_of (files s) p = None \<and> (\<exists>r. p = pat @ r)"
  by (auto simp: CreateTemp_def find_Some_iff)

lemma blobs_invD:
  assumes "blobs_inv c K s" "map_of (remarkable_blobs s) i = Some r"
  obtains d where "i \<in> K" "1 \<le> bGen r" "own_path c i (bPath r)" "map_of (files s) (bPath r) = Some d"
  using assms unfolding blobs_inv_def by blast

text \<open>One write of a row and its file, possibly dropping the file it replaces: every other blob keeps
  its content.\<close>

lemma link_file:
  assumes "no_collision c K" "blobs_inv c K s" "i \<in> K" "own_path c i p" "1 \<le> g"
    and "old = p \<or> map_of (remarkable_blobs s) i = None \<or> (\<exists>r. map_of (remarkable_blobs s) i = Some r \<and> bPath r = old)"
    and s': "s' = \<lparr>remarkable_blobs = upsert i (new_blob_row c g body p) (remarkable_blobs s),
      files = (if old \<noteq> p \<and> map_of (remarkable_blobs s) i \<noteq> None then AList.delete old (upsert p body (files s)) else upsert p body (files s))\<rparr>"
  shows "blobs_inv c K s'" "view s' = (view s)(i \<mapsto> (g, body))"
proof -
  have other: "map_of (files s') (bPath r) = map_of (files s) (bPath r)"
    if "map_of (remarkable_blobs s) j = Some r" "j \<noteq> i" for j r
  proof -
    have j: "j \<in> K" "own_path c j (bPath r)" using assms(2) that(1) by (auto simp: blobs_inv_def)
    then have "bPath r \<noteq> p" using own_path_disjoint [OF assms(1) j(1) assms(3) j(2)] assms(4) that(2) by blast
    moreover have "bPath r \<noteq> old" if d: "old \<noteq> p" "map_of (remarkable_blobs s) i \<noteq> None"
    proof -
      obtain q where "map_of (remarkable_blobs s) i = Some q" "bPath q = old" using assms(6) d by auto
      then have "own_path c i old" using assms(2) by (auto simp: blobs_inv_def)
      then show ?thesis using own_path_disjoint [OF assms(1) j(1) assms(3) j(2)] \<open>j \<noteq> i\<close> by blast
    qed
    ultimately show ?thesis by (auto simp: s' delete_conv')
  qed
  have own: "map_of (files s') p = Some body" by (auto simp: s' delete_conv')
  show "view s' = (view s)(i \<mapsto> (g, body))"
  proof
    fix j show "view s' j = ((view s)(i \<mapsto> (g, body))) j"
    proof (cases "j = i")
      case True
      have "map_of (remarkable_blobs s') i = Some (new_blob_row c g body p)" by (simp add: s')
      then show ?thesis using True own by (simp add: view_def new_blob_row_def)
    next
      case False
      then have "map_of (remarkable_blobs s') j = map_of (remarkable_blobs s) j" by (simp add: s')
      then show ?thesis using False by (simp add: view_def other split: option.split)
    qed
  qed
  have "unique_keys (files s')" "unique_keys (remarkable_blobs s')"
    using assms(2) by (auto simp: s' blobs_inv_def distinct_update distinct_delete)
  moreover have "j \<in> K \<and> 1 \<le> bGen r \<and> own_path c j (bPath r) \<and>
      (\<exists>d. map_of (files s') (bPath r) = Some d \<and> bSize r = int (length d) \<and> bCRC r = crcHex d)"
    if "map_of (remarkable_blobs s') j = Some r" for j r
  proof (cases "j = i")
    case True
    then show ?thesis using that own assms(3,4,5) by (auto simp: s' new_blob_row_def)
  next
    case False
    then have "map_of (remarkable_blobs s) j = Some r" using that by (simp add: s')
    then show ?thesis using other [of j r] False assms(2) by (auto simp: blobs_inv_def)
  qed
  ultimately show "blobs_inv c K s'" by (auto simp: blobs_inv_def)
qed

section \<open>Generations\<close>

text \<open>The contract of a store with generations: a write without an expectation always succeeds, a
  write against an expected generation succeeds only on that generation, a success installs the
  value under the next generation, and a failure leaves every value alone.\<close>

definition next_gen :: "(int \<times> 'v) option \<Rightarrow> int" where
  "next_gen v = (case v of None \<Rightarrow> 1 | Some (g, _) \<Rightarrow> g + 1)"

locale generation_store =
  fixes look :: "'s \<Rightarrow> 'k \<Rightarrow> (int \<times> 'v) option"
    and put :: "'k \<Rightarrow> 'v \<Rightarrow> int \<Rightarrow> 's \<Rightarrow> ('e + int) \<times> 's"
    and wf :: "'s \<Rightarrow> bool"
    and K :: "'k set"
  assumes put_wf: "wf s \<Longrightarrow> k \<in> K \<Longrightarrow> wf (snd (put k v g s))"
    and put_ok: "wf s \<Longrightarrow> k \<in> K \<Longrightarrow> put k v g s = (Inr n, t) \<Longrightarrow>
      n = next_gen (look s k) \<and> look t = (look s)(k \<mapsto> (n, v)) \<and> (g \<noteq> 0 \<longrightarrow> (\<exists>w. look s k = Some (g, w)))"
    and put_fail: "wf s \<Longrightarrow> k \<in> K \<Longrightarrow> put k v g s = (Inl e, t) \<Longrightarrow> look t = look s \<and> g \<noteq> 0"
begin

text \<open>A generation never goes back, and while it stands still so does the value.\<close>

lemma put_mono:
  assumes "wf s" "k \<in> K" "look s j = Some (n, v)"
  shows "\<exists>n' v'. look (snd (put k w g s)) j = Some (n', v') \<and> n \<le> n' \<and> (n' = n \<longrightarrow> v' = v)"
proof (cases "put k w g s")
  case (Pair res t)
  then show ?thesis
    using put_ok [OF assms(1,2), of w g] put_fail [OF assms(1,2), of w g] assms(3)
    by (cases res) (auto simp: next_gen_def split: option.splits)
qed

lemma puts_mono:
  assumes "wf s" "\<forall>(k, w, g) \<in> set reqs. k \<in> K" "look s j = Some (n, v)"
  shows "wf (fold (\<lambda>(k, w, g) s. snd (put k w g s)) reqs s) \<and>
    (\<exists>n' v'. look (fold (\<lambda>(k, w, g) s. snd (put k w g s)) reqs s) j = Some (n', v') \<and> n \<le> n' \<and> (n' = n \<longrightarrow> v' = v))"
  using assms
proof (induction reqs arbitrary: s n v)
  case (Cons x reqs)
  obtain k w g where x: "x = (k, w, g)" by (cases x)
  then have k: "k \<in> K" using Cons.prems(2) by simp
  obtain n1 v1 where 1: "look (snd (put k w g s)) j = Some (n1, v1)" "n \<le> n1" "n1 = n \<longrightarrow> v1 = v"
    using put_mono [OF Cons.prems(1) k Cons.prems(3)] by blast
  have "wf (snd (put k w g s))" "\<forall>(k, w, g) \<in> set reqs. k \<in> K"
    using put_wf [OF Cons.prems(1) k] Cons.prems(2) by auto
  from Cons.IH [OF this 1(1)] show ?case using 1 x by fastforce
qed simp

lemma puts_wf: "wf s \<Longrightarrow> \<forall>(k, w, g) \<in> set reqs. k \<in> K \<Longrightarrow> wf (fold (\<lambda>(k, w, g) s. snd (put k w g s)) reqs s)"
proof (induction reqs arbitrary: s)
  case (Cons x reqs)
  obtain k w g where "x = (k, w, g)" by (cases x)
  then show ?case using Cons.IH [of "snd (put k w g s)"] Cons.prems put_wf [of s k w g] by simp
qed simp

text \<open>Of two writers that expect the same generation, the second fails.\<close>

lemma one_winner:
  assumes "wf s" "k \<in> K" "put k v g s = (Inr n, t)" "g \<noteq> 0"
  shows "isl (fst (put k w g t))"
proof (cases "put k w g t")
  case (Pair res u)
  have "look t k = Some (g + 1, v)" using put_ok [OF assms(1-3)] assms(4) by (auto simp: next_gen_def)
  moreover have "wf t" using put_wf [OF assms(1,2), of v g] assms(3) by simp
  ultimately show ?thesis
    using put_ok [of t k w g _ u] assms(2,4) Pair by (cases res) auto
qed

end

lemma delete_fresh: "map_of fs p = None \<Longrightarrow> AList.delete p (upsert p d fs) = fs"
proof (induction fs)
  case (Cons x fs)
  then show ?case by (cases x) (auto simp: map_of_eq_None_iff split: if_splits)
qed simp

lemma putBlobCAS_cases:
  assumes "no_collision c K" "blobs_inv c K s" "i \<in> K"
  shows "(\<exists>e. putBlobCAS c i body g s = (Inl e, s)) \<or>
    (\<exists>w t. view s i = Some (g, w) \<and> putBlobCAS c i body g s = (Inr (g + 1), t) \<and> blobs_inv c K t \<and>
      view t = (view s)(i \<mapsto> (g + 1, body)))"
proof (cases "CreateTemp c (blob_path c i @ ''.cas-'') s")
  case None
  then show ?thesis by (simp add: putBlobCAS_def)
next
  case (Some p)
  have p: "map_of (files s) p = None" "own_path c i p"
    using CreateTemp_fresh [OF Some] by (auto simp: own_path_def)
  show ?thesis
  proof (cases "map_of (remarkable_blobs s) i")
    case None
    then show ?thesis using Some p(1) by (simp add: putBlobCAS_def Let_def delete_fresh)
  next
    case row: (Some r)
    obtain d where r: "1 \<le> bGen r" "own_path c i (bPath r)" "map_of (files s) (bPath r) = Some d"
      by (rule blobs_invD [OF assms(2) row])
    then have np: "bPath r \<noteq> p" "bPath r \<noteq> []" using p(1) by (auto simp: own_path_def blob_path_def)
    show ?thesis
    proof (cases "bGen r = g")
      case False
      then show ?thesis using Some p(1) row by (simp add: putBlobCAS_def Let_def delete_fresh)
    next
      case True
      let ?t = "\<lparr>remarkable_blobs = upsert i (new_blob_row c (g + 1) body p) (remarkable_blobs s),
        files = AList.delete (bPath r) (upsert p body (files s))\<rparr>"
      have "putBlobCAS c i body g s = (Inr (g + 1), ?t)"
        using Some row True np by (simp add: putBlobCAS_def Let_def)
      moreover have "blobs_inv c K ?t" "view ?t = (view s)(i \<mapsto> (g + 1, body))"
        using link_file [OF assms p(2), of "g + 1" "bPath r" ?t body] r(1) row True np(1) by simp_all
      moreover have "view s i = Some (g, d)" using row r(3) True by (simp add: view_def)
      ultimately show ?thesis by blast
    qed
  qed
qed

lemma putBlob_plain:
  assumes "no_collision c K" "blobs_inv c K s" "i \<in> K"
  shows "\<exists>t. putBlob c i body 0 s = (Inr (next_gen (view s i)), t) \<and> blobs_inv c K t \<and>
    view t = (view s)(i \<mapsto> (next_gen (view s i), body))"
proof -
  let ?p = "blob_path c i" and ?g = "case map_of (remarkable_blobs s) i of None \<Rightarrow> 1 | Some r \<Rightarrow> bGen r + 1"
  have g: "?g = next_gen (view s i) \<and> 1 \<le> ?g"
  proof (cases "map_of (remarkable_blobs s) i")
    case (Some r)
    obtain d where "1 \<le> bGen r" "map_of (files s) (bPath r) = Some d" by (rule blobs_invD [OF assms(2) Some])
    then show ?thesis using Some by (simp add: view_def next_gen_def)
  qed (simp add: view_def next_gen_def)
  let ?t = "\<lparr>remarkable_blobs = upsert i (new_blob_row c ?g body ?p) (remarkable_blobs s), files = upsert ?p body (files s)\<rparr>"
  have "own_path c i ?p" by (simp add: own_path_def)
  then have "blobs_inv c K ?t" "view ?t = (view s)(i \<mapsto> (?g, body))"
    using link_file [OF assms, of ?p ?g ?p ?t body] g by simp_all
  moreover have "putBlob c i body 0 s = (Inr ?g, ?t)" by (simp add: putBlob_def Let_def)
  ultimately show ?thesis using g by simp
qed

lemma putBlob_spec:
  assumes "no_collision c K" and "blobs_inv c K s" and "i \<in> K" and "putBlob c i body g s = (res, t)"
  shows "blobs_inv c K t \<and>
    (case res of
       Inr n \<Rightarrow> n = next_gen (view s i) \<and> view t = (view s)(i \<mapsto> (n, body)) \<and> (g \<noteq> 0 \<longrightarrow> (\<exists>w. view s i = Some (g, w)))
     | Inl e \<Rightarrow> t = s \<and> g \<noteq> 0 \<and> (e = NoTempName \<or> (e = GenerationMismatch \<and> (\<nexists>w. view s i = Some (g, w)))))"
proof (cases "g = 0")
  case True
  then show ?thesis using putBlob_plain [OF assms(1-3), of body] assms(4) by auto
next
  case False
  then have put: "putBlobCAS c i body g s = (res, t)" using assms(4) by (simp add: putBlob_def)
  show ?thesis
  proof (cases res)
    case (Inr n)
    then show ?thesis using putBlobCAS_cases [OF assms(1-3), of body g] put False by (auto simp: next_gen_def)
  next
    case (Inl e)
    then have "t = s" using putBlobCAS_cases [OF assms(1-3), of body g] put by auto
    moreover have "e = NoTempName \<or> (e = GenerationMismatch \<and> (\<nexists>w. view s i = Some (g, w)))"
      using put Inl by (auto simp: putBlobCAS_def Let_def view_def split: option.splits if_splits)
    ultimately show ?thesis using Inl False assms(2) by simp
  qed
qed

definition blobs_wf :: "rm_env \<Rightarrow> string set \<Rightarrow> rm_blobs \<Rightarrow> bool" where
  "blobs_wf c K s \<longleftrightarrow> no_collision c K \<and> blobs_inv c K s"

interpretation rm: generation_store view "putBlob c" "blobs_wf c K" K for c K
proof
  fix s k v g
  assume "blobs_wf c K s" "k \<in> K"
  then show "blobs_wf c K (snd (putBlob c k v g s))"
    using putBlob_spec [of c K s k v g] by (cases "putBlob c k v g s") (auto simp: blobs_wf_def)
next
  fix s t k v g n
  assume "blobs_wf c K s" "k \<in> K" "putBlob c k v g s = (Inr n, t)"
  then show "n = next_gen (view s k) \<and> view t = (view s)(k \<mapsto> (n, v)) \<and> (g \<noteq> 0 \<longrightarrow> (\<exists>w. view s k = Some (g, w)))"
    using putBlob_spec [of c K s k v g "Inr n" t] by (simp add: blobs_wf_def)
next
  fix s t k v g e
  assume "blobs_wf c K s" "k \<in> K" "putBlob c k v g s = (Inl e, t)"
  then show "view t = view s \<and> g \<noteq> 0"
    using putBlob_spec [of c K s k v g "Inl e" t] by (simp add: blobs_wf_def)
qed

text \<open>
  C8. The blob store implements a store of generations: as clients see it, a write without an
  expected generation always installs its content under the next generation; a write against an
  expected generation does so exactly when that generation is the current one (given an unused
  temporary name) and otherwise leaves every blob and every file as it was, so the loser of a race
  never damages the winner's content; no write touches another blob; and the stored size and
  checksum always describe the stored content.
\<close>

theorem putBlob_refines:
  assumes "no_collision c K" and "blobs_inv c K s" and "i \<in> K" and "putBlob c i body g s = (res, t)"
  shows "blobs_inv c K t \<and>
    (case res of
       Inr n \<Rightarrow> n = next_gen (view s i) \<and> view t = (view s)(i \<mapsto> (n, body)) \<and> (g \<noteq> 0 \<longrightarrow> (\<exists>w. view s i = Some (g, w)))
     | Inl e \<Rightarrow> t = s \<and> g \<noteq> 0 \<and> (e = NoTempName \<or> (e = GenerationMismatch \<and> (\<nexists>w. view s i = Some (g, w)))))"
  using assms by (rule putBlob_spec)

definition ex_env :: rm_env where
  "ex_env = \<lparr>sha1 = (\<lambda>x. take 64 (x @ replicate 64 (CHR ''.''))), sha256 = (\<lambda>x. take 32 (CHR ''#'' # x @ replicate 32 (CHR ''.''))),
     tmpNames = [''1'', ''2'', ''3''], clock = 1000\<rparr>"

definition ex_blobs :: rm_blobs where
  "ex_blobs = snd (putBlob ex_env rootBlobID ''h1'' 0 \<lparr>remarkable_blobs = [], files = []\<rparr>)"

lemma ex_blobs_wf: "blobs_wf ex_env {''root'', ''x''} ex_blobs" "view ex_blobs rootBlobID = Some (1, ''h1'')"
proof -
  have n: "no_collision ex_env {''root'', ''x''}"
    by (simp add: no_collision_def ex_env_def inj_on_def)
  have e: "blobs_inv ex_env {''root'', ''x''} \<lparr>remarkable_blobs = [], files = []\<rparr>"
    by (simp add: blobs_inv_def)
  have "view \<lparr>remarkable_blobs = [], files = []\<rparr> = Map.empty" by (rule ext) (simp add: view_def)
  then show "blobs_wf ex_env {''root'', ''x''} ex_blobs" "view ex_blobs rootBlobID = Some (1, ''h1'')"
    using putBlob_plain [OF n e, of "''root''" "''h1''"] n by (auto simp: blobs_wf_def ex_blobs_def rootBlobID_def next_gen_def)
qed

theorem putBlob_refines_witness:
  "isl (fst (putBlob ex_env ''root'' ''h2'' 7 ex_blobs)) \<and> snd (putBlob ex_env ''root'' ''h2'' 7 ex_blobs) = ex_blobs"
proof -
  obtain res t where p: "putBlob ex_env ''root'' ''h2'' 7 ex_blobs = (res, t)"
    by (cases "putBlob ex_env ''root'' ''h2'' 7 ex_blobs")
  have wf: "no_collision ex_env {''root'', ''x''}" "blobs_inv ex_env {''root'', ''x''} ex_blobs"
    using ex_blobs_wf(1) by (auto simp: blobs_wf_def)
  show ?thesis using putBlob_refines [OF wf _ p] p ex_blobs_wf(2) by (auto simp: rootBlobID_def split: sum.splits)
qed

section \<open>Commits of the root\<close>

text \<open>
  A commit of the root: against the current generation it installs the new tree (or reports 500
  when no temporary name is free), and a later read returns exactly it; against any other non-zero
  generation it is refused with 412 and nothing changes. A commit with generation 0 is not
  checked at all: it replaces whatever tree is there.
\<close>

theorem root_commit:
  assumes "blobs_wf c K s" and "rootBlobID \<in> K" and "handlePutRootV3 c (Some (g, h)) s = ((status, out), t)"
  shows "blobs_wf c K t \<and>
    (status = 200 \<longrightarrow> out = Some (next_gen (view s rootBlobID)) \<and>
       view t = (view s)(rootBlobID \<mapsto> (next_gen (view s rootBlobID), h)) \<and>
       handleGetRootV3 t = (200, Some (next_gen (view s rootBlobID), h))) \<and>
    (status \<noteq> 200 \<longrightarrow> t = s) \<and>
    (g = 0 \<longrightarrow> status = 200) \<and>
    (g \<noteq> 0 \<and> (\<nexists>w. view s rootBlobID = Some (g, w)) \<longrightarrow> status = 412 \<or> status = 500) \<and>
    ((\<exists>w. view s rootBlobID = Some (g, w)) \<longrightarrow> status \<noteq> 412)"
proof -
  obtain res t' where p: "putBlob c rootBlobID h g s = (res, t')" by (cases "putBlob c rootBlobID h g s")
  have wf: "no_collision c K" "blobs_inv c K s" using assms(1) by (auto simp: blobs_wf_def)
  note spec = putBlob_spec [OF wf assms(2) p]
  have read: "handleGetRootV3 t = (200, Some (n, h))" if "view t rootBlobID = Some (n, h)" for n
    using that by (auto simp: view_def handleGetRootV3_def getBlob_def osReadFile_def split: option.splits)
  show ?thesis
  proof (cases res)
    case (Inr n)
    then have "status = 200" "out = Some n" "t = t'" using assms(3) p by (auto simp: handlePutRootV3_def)
    then show ?thesis using spec Inr wf(1) read [of n] by (auto simp: blobs_wf_def)
  next
    case (Inl e)
    then have "status = (if e = GenerationMismatch then 412 else 500)" "t = t'"
      using assms(3) p by (auto simp: handlePutRootV3_def)
    then show ?thesis using spec Inl wf by (auto simp: blobs_wf_def)
  qed
qed

theorem root_commit_witness:
  "fst (handlePutRootV3 ex_env (Some (0, ''h2'')) ex_blobs) = (200, Some 2) \<and>
   handleGetRootV3 (snd (handlePutRootV3 ex_env (Some (0, ''h2'')) ex_blobs)) = (200, Some (2, ''h2''))"
proof -
  obtain status out t where p: "handlePutRootV3 ex_env (Some (0, ''h2'')) ex_blobs = ((status, out), t)"
    by (metis surj_pair)
  have g: "next_gen (view ex_blobs rootBlobID) = 2" by (simp add: next_gen_def ex_blobs_wf(2))
  have "rootBlobID \<in> {''root'', ''x''}" by (simp add: rootBlobID_def)
  from root_commit [OF ex_blobs_wf(1) this p] show ?thesis by (auto simp: p g)
qed

end
