(* ===== verification/Rm_Tree.thy ===== *)
theory Rm_Tree
  imports Rm_Blobs
begin

text \<open>
  The document tree of the reMarkable cloud emulation (\<open>internal/source/remarkable/treewrite.go\<close>,
  \<open>tree.go\<close>): the listing of the hash tree a tablet synced, and the mutations the server authors
  into it (new documents and folders, rename, move, trash), each staged as content-addressed blobs
  and committed against the root generation, with retries when a device commits in between. The
  JSON codec of metadata and content blobs is a parameter.
\<close>

section \<open>Data\<close>

datatype json_value = JString string | JNumber rat | JBool bool | JOther string

datatype decoded = Bad | Null | Obj "json_value table"

record rmMetadata =
  mdVisibleName :: string
  mdType :: string
  mdParent :: string
  mdDeleted :: bool

text \<open>An element of the older \<open>pages\<close> list: a bare string, an object with its \<open>id\<close> when that is a string,
  or anything else.\<close>

datatype rm_page = PageString string | PageObject "string option" | PageOther

record rmContent =
  ctFileType :: string
  ctPageCount :: int
  ctPages :: "rm_page list"
  ctCPages :: "string list"

record rmMetadataWrite =
  mwVisibleName :: string
  mwType :: string
  mwParent :: string
  mwCreatedTime :: string
  mwLastModified :: string
  mwVersion :: int
  mwSynced :: bool
  mwMetadataModified :: bool

record rm_codec =
  Marshal :: "json_value table \<Rightarrow> string"
  Unmarshal :: "string \<Rightarrow> decoded"
  MarshalNew :: "rmMetadataWrite \<Rightarrow> string"
  decodeMetadata :: "string \<Rightarrow> rmMetadata option"
  decodeContent :: "string \<Rightarrow> rmContent option"

record Document =
  dcID :: string
  dcName :: string
  dcType :: string
  dcParent :: string
  dcPageCount :: int
  dcFileType :: string

datatype tree_error =
    ErrNoHashTree | ErrNotFound | ErrParentNotFound | ErrNotAFolder | ErrTreeConflict | ErrFolderNotEmpty
  | AlreadyExists | OwnSubtree | NotSynced | ReadFailed | BadIndex index_error | StoreFailed blob_error | NilMap

definition entryTypeFile :: string where "entryTypeFile = ''0''"
definition entryTypeDoc :: string where "entryTypeDoc = ''80000000''"
definition trashParent :: string where "trashParent = ''trash''"

record treeState =
  tsSchema :: string
  tsEntries :: "indexEntry list"

definition nowMillisString :: "rm_env \<Rightarrow> string" where
  "nowMillisString e = FormatInt (clock e)"

definition find_entry :: "string \<Rightarrow> treeState \<Rightarrow> indexEntry option" where
  "find_entry docID t = List.find (\<lambda>e. ieName e = docID) (tsEntries t)"

definition replace_first :: "('a \<Rightarrow> bool) \<Rightarrow> 'a \<Rightarrow> 'a list \<Rightarrow> 'a list" where
  "replace_first P y xs = takeWhile (\<lambda>x. \<not> P x) xs @ (case dropWhile (\<lambda>x. \<not> P x) xs of [] \<Rightarrow> [] | _ # r \<Rightarrow> y # r)"

section \<open>Staging\<close>

definition stageBlobBytes :: "rm_env \<Rightarrow> string \<Rightarrow> rm_blobs \<Rightarrow> (string \<times> int) \<times> rm_blobs" where
  "stageBlobBytes e d s =
     (let hash = blobHashHex (sha256 e) d in ((hash, int (length d)), snd (putBlob e hash d 0 s)))"

definition stageDocEntry ::
  "rm_env \<Rightarrow> string \<Rightarrow> indexEntry list \<Rightarrow> rm_blobs \<Rightarrow> (tree_error + indexEntry) \<times> rm_blobs" where
  "stageDocEntry e docID fs s =
     (case hashOfEntries (sha256 e) fs of
        Inl x \<Rightarrow> (Inl (BadIndex x), s)
      | Inr h \<Rightarrow>
          (Inr \<lparr>ieHash = h, ieType = entryTypeDoc, ieName = docID, ieSubfiles = int (length fs), ieSize = sumEntrySizes fs\<rparr>,
           snd (putBlob e h (serializeIndex docIndexSchema fs) 0 s)))"

section \<open>Reading\<close>

definition metaString :: "json_value table \<Rightarrow> string \<Rightarrow> string" where
  "metaString m key = (case map_of m key of Some (JString v) \<Rightarrow> v | _ \<Rightarrow> [])"

definition metaBool :: "json_value table \<Rightarrow> string \<Rightarrow> bool" where
  "metaBool m key = (case map_of m key of Some (JBool v) \<Rightarrow> v | _ \<Rightarrow> False)"

definition metadataName :: "string \<Rightarrow> string" where
  "metadataName docID = docID @ ''.metadata''"

definition nodeMetaInTree :: "rm_codec \<Rightarrow> treeState \<Rightarrow> string \<Rightarrow> rm_blobs \<Rightarrow> tree_error + json_value table" where
  "nodeMetaInTree cd t docID s =
     (case find_entry docID t of
        None \<Rightarrow> Inl ErrNotFound
      | Some en \<Rightarrow>
          (case readBlob (ieHash en) s of
             Inl _ \<Rightarrow> Inl ErrNotFound
           | Inr d \<Rightarrow>
               (case parseIndexWithSchema d of
                  Inl x \<Rightarrow> Inl (BadIndex x)
                | Inr (_, fs) \<Rightarrow>
                    (case List.find (\<lambda>f. ieName f = metadataName docID) fs of
                       None \<Rightarrow> Inl ErrNotFound
                     | Some f \<Rightarrow>
                         (case readBlob (ieHash f) s of
                            Inl _ \<Rightarrow> Inl ErrNotFound
                          | Inr b \<Rightarrow> (case Unmarshal cd b of Bad \<Rightarrow> Inl ErrNotFound | Null \<Rightarrow> Inr [] | Obj m \<Rightarrow> Inr m))))))"

definition validateParent :: "rm_codec \<Rightarrow> treeState \<Rightarrow> string \<Rightarrow> rm_blobs \<Rightarrow> tree_error + unit" where
  "validateParent cd t parent s =
     (if parent = [] then Inr ()
      else if parent = trashParent then Inl ErrParentNotFound
      else case nodeMetaInTree cd t parent s of
             Inl x \<Rightarrow> Inl (if x = ErrNotFound then ErrParentNotFound else x)
           | Inr meta \<Rightarrow>
               if metaString meta ''type'' \<noteq> ''CollectionType'' then Inl ErrNotAFolder
               else if metaBool meta ''deleted'' \<or> metaString meta ''parent'' = trashParent then Inl ErrParentNotFound
               else Inr ())"

definition maxDepth :: nat where "maxDepth = 100"

fun cycle_walk :: "nat \<Rightarrow> rm_codec \<Rightarrow> treeState \<Rightarrow> string \<Rightarrow> string \<Rightarrow> rm_blobs \<Rightarrow> tree_error + unit" where
  "cycle_walk 0 cd t docID cur s = Inr ()"
| "cycle_walk (Suc depth) cd t docID cur s =
     (if cur = [] \<or> cur = trashParent then Inr ()
      else if cur = docID then Inl OwnSubtree
      else case nodeMetaInTree cd t cur s of
             Inl _ \<Rightarrow> Inr ()
           | Inr meta \<Rightarrow> cycle_walk depth cd t docID (metaString meta ''parent'') s)"

definition checkNoCycle :: "rm_codec \<Rightarrow> treeState \<Rightarrow> string \<Rightarrow> string \<Rightarrow> rm_blobs \<Rightarrow> tree_error + unit" where
  "checkNoCycle cd t docID newParent s = cycle_walk maxDepth cd t docID newParent s"

section \<open>Mutations\<close>

text \<open>A mutation turns the tree it is given into a new one, staging blobs on the way.\<close>

type_synonym mutation = "treeState \<Rightarrow> rm_blobs \<Rightarrow> (tree_error + treeState) \<times> rm_blobs"

definition truncate :: "rat \<Rightarrow> int" where
  "truncate r = (if r < 0 then - \<lfloor>- r\<rfloor> else \<lfloor>r\<rfloor>)"

definition stamp_metadata :: "rm_env \<Rightarrow> json_value table \<Rightarrow> json_value table" where
  "stamp_metadata e m =
     (let version = (case map_of m ''version'' of Some (JNumber v) \<Rightarrow> truncate v + 1 | _ \<Rightarrow> 1)
      in upsert ''synced'' (JBool True) (upsert ''metadatamodified'' (JBool True)
           (upsert ''lastModified'' (JString (nowMillisString e)) (upsert ''version'' (JNumber (of_int version)) m))))"

definition rewriteMetadataInTree ::
  "rm_env \<Rightarrow> rm_codec \<Rightarrow> string \<Rightarrow> (json_value table \<Rightarrow> json_value table) \<Rightarrow> mutation" where
  "rewriteMetadataInTree e cd docID patch t s =
     (case find_entry docID t of
        None \<Rightarrow> (Inl ErrNotFound, s)
      | Some en \<Rightarrow>
          (case readBlob (ieHash en) s of
             Inl _ \<Rightarrow> (Inl ReadFailed, s)
           | Inr d \<Rightarrow>
               (case parseIndexWithSchema d of
                  Inl x \<Rightarrow> (Inl (BadIndex x), s)
                | Inr (_, fs) \<Rightarrow>
                    (case List.find (\<lambda>f. ieName f = metadataName docID) fs of
                       None \<Rightarrow> (Inl ErrNotFound, s)
                     | Some f \<Rightarrow>
                         (case readBlob (ieHash f) s of
                            Inl _ \<Rightarrow> (Inl ReadFailed, s)
                          | Inr b \<Rightarrow>
                              (case Unmarshal cd b of
                                 Bad \<Rightarrow> (Inl ReadFailed, s)
                               | Null \<Rightarrow> (Inl NilMap, s)
                               | Obj m \<Rightarrow>
                                   let ((metaHash, metaSize), s1) = stageBlobBytes e (Marshal cd (stamp_metadata e (patch m))) s;
                                       fs' = replace_first (\<lambda>f. ieName f = metadataName docID)
                                               (f\<lparr>ieHash := metaHash, ieSize := metaSize\<rparr>) fs
                                   in (case stageDocEntry e docID fs' s1 of
                                         (Inl x, s2) \<Rightarrow> (Inl x, s2)
                                       | (Inr entry, s2) \<Rightarrow>
                                           (Inr (t\<lparr>tsEntries := replace_first (\<lambda>x. ieName x = docID) entry (tsEntries t)\<rparr>), s2))))))))"

definition renameNode :: "rm_env \<Rightarrow> rm_codec \<Rightarrow> string \<Rightarrow> string \<Rightarrow> mutation" where
  "renameNode e cd docID name = rewriteMetadataInTree e cd docID (upsert ''visibleName'' (JString name))"

definition moveNode :: "rm_env \<Rightarrow> rm_codec \<Rightarrow> string \<Rightarrow> string \<Rightarrow> mutation" where
  "moveNode e cd docID newParent t s =
     (case validateParent cd t newParent s of
        Inl x \<Rightarrow> (Inl x, s)
      | Inr _ \<Rightarrow>
          (case checkNoCycle cd t docID newParent s of
             Inl x \<Rightarrow> (Inl x, s)
           | Inr _ \<Rightarrow> rewriteMetadataInTree e cd docID (upsert ''parent'' (JString newParent)) t s))"

definition has_child :: "rm_codec \<Rightarrow> treeState \<Rightarrow> string \<Rightarrow> rm_blobs \<Rightarrow> bool" where
  "has_child cd t docID s \<longleftrightarrow>
     list_ex (\<lambda>en. ieName en \<noteq> docID \<and>
        (case nodeMetaInTree cd t (ieName en) s of
           Inl _ \<Rightarrow> False
         | Inr m \<Rightarrow> metaString m ''parent'' = docID \<and> \<not> metaBool m ''deleted'')) (tsEntries t)"

definition trashNode :: "rm_env \<Rightarrow> rm_codec \<Rightarrow> string \<Rightarrow> mutation" where
  "trashNode e cd docID t s =
     (case nodeMetaInTree cd t docID s of
        Inl x \<Rightarrow> (Inl x, s)
      | Inr meta \<Rightarrow>
          if metaString meta ''type'' = ''CollectionType'' \<and> has_child cd t docID s then (Inl ErrFolderNotEmpty, s)
          else rewriteMetadataInTree e cd docID (upsert ''parent'' (JString trashParent)) t s)"

definition new_metadata :: "rm_env \<Rightarrow> string \<Rightarrow> string \<Rightarrow> string \<Rightarrow> rmMetadataWrite" where
  "new_metadata e name type parent =
     \<lparr>mwVisibleName = name, mwType = type, mwParent = parent, mwCreatedTime = nowMillisString e,
      mwLastModified = nowMillisString e, mwVersion = 1, mwSynced = True, mwMetadataModified = True\<rparr>"

definition file_entry :: "string \<Rightarrow> string \<Rightarrow> int \<Rightarrow> indexEntry" where
  "file_entry name hash sz = \<lparr>ieHash = hash, ieType = entryTypeFile, ieName = name, ieSubfiles = 0, ieSize = sz\<rparr>"

definition append_doc :: "rm_env \<Rightarrow> string \<Rightarrow> indexEntry list \<Rightarrow> mutation" where
  "append_doc e docID fs t s =
     (case stageDocEntry e docID fs s of
        (Inl x, s') \<Rightarrow> (Inl x, s')
      | (Inr entry, s') \<Rightarrow> (Inr (t\<lparr>tsEntries := tsEntries t @ [entry]\<rparr>), s'))"

definition createFolder :: "rm_env \<Rightarrow> rm_codec \<Rightarrow> string \<Rightarrow> string \<Rightarrow> string \<Rightarrow> mutation" where
  "createFolder e cd docID name parent t s =
     (if find_entry docID t \<noteq> None then (Inl AlreadyExists, s)
      else case validateParent cd t parent s of
             Inl x \<Rightarrow> (Inl x, s)
           | Inr _ \<Rightarrow>
               let ((mh, ms), s1) = stageBlobBytes e (MarshalNew cd (new_metadata e name ''CollectionType'' parent)) s
               in append_doc e docID [file_entry (metadataName docID) mh ms] t s1)"

text \<open>The content blob of a fresh document, line by line with its indentation in tabs.\<close>

definition contentTemplate :: \<open>string \<Rightarrow> string\<close> where
  \<open>contentTemplate fileType =
     concat (map (\<lambda>(n, l). replicate n (CHR 0x09) @ l @ [CHR 0x0A])
       [(0, ''''),
        (0, ''{''),
        (1, ''"dummyDocument": false,''),
        (1, ''"extraMetadata": {''),
        (2, ''"LastPen": "Finelinerv2",''),
        (2, ''"LastTool": "Finelinerv2",''),
        (2, ''"ThicknessScale": "",''),
        (2, ''"LastFinelinerv2Size": "1"''),
        (1, ''},''),
        (1, ''"fileType": "'' @ fileType @ ''",''),
        (1, ''"fontName": "",''),
        (1, ''"lastOpenedPage": 0,''),
        (1, ''"lineHeight": -1,''),
        (1, ''"margins": 180,''),
        (1, ''"orientation": "portrait",''),
        (1, ''"pageCount": 0,''),
        (1, ''"pages": [],''),
        (1, ''"textScale": 1,''),
        (1, ''"transform": {''),
        (2, ''"m11": 1,''),
        (2, ''"m12": 0,''),
        (2, ''"m13": 0,''),
        (2, ''"m21": 0,''),
        (2, ''"m22": 1,''),
        (2, ''"m23": 0,''),
        (2, ''"m31": 0,''),
        (2, ''"m32": 0,''),
        (2, ''"m33": 1''),
        (1, ''}''),
        (0, ''}'')])\<close>

definition createDocument ::
  "rm_env \<Rightarrow> rm_codec \<Rightarrow> string \<Rightarrow> string \<Rightarrow> string \<Rightarrow> string \<Rightarrow> string \<Rightarrow> int \<Rightarrow> mutation" where
  "createDocument e cd docID visibleName parent fileType payloadHash payloadSize t s =
     (if find_entry docID t \<noteq> None then (Inl AlreadyExists, s)
      else case validateParent cd t parent s of
             Inl x \<Rightarrow> (Inl x, s)
           | Inr _ \<Rightarrow>
               let ((mh, ms), s1) = stageBlobBytes e (MarshalNew cd (new_metadata e visibleName ''DocumentType'' parent)) s;
                   ((ch, cs), s2) = stageBlobBytes e (contentTemplate fileType) s1
               in append_doc e docID
                    [file_entry (metadataName docID) mh ms, file_entry (docID @ ''.content'') ch cs,
                     file_entry (docID @ ''.'' @ fileType) payloadHash payloadSize] t s2)"

section \<open>Commit\<close>

definition read_tree :: "rm_blobs \<Rightarrow> tree_error + (int \<times> treeState)" where
  "read_tree s =
     (case getBlob rootBlobID s of
        Inl _ \<Rightarrow> Inl ErrNoHashTree
      | Inr r \<Rightarrow>
          (case osReadFile (bPath r) s of
             Inl _ \<Rightarrow> Inl ReadFailed
           | Inr raw \<Rightarrow>
               let topHash = TrimSpace raw in
               if topHash = [] then Inr (bGen r, \<lparr>tsSchema = docIndexSchema, tsEntries = []\<rparr>)
               else case readBlob topHash s of
                      Inl _ \<Rightarrow> Inl NotSynced
                    | Inr d \<Rightarrow>
                        (case parseIndexWithSchema d of
                           Inl x \<Rightarrow> Inl (BadIndex x)
                         | Inr (schema, es) \<Rightarrow> Inr (bGen r, \<lparr>tsSchema = schema, tsEntries = es\<rparr>))))"

text \<open>What devices write while the server works: blobs and root commits, each \<open>(id, content, expected
  generation)\<close>.\<close>

type_synonym device_write = "string \<times> string \<times> int"

definition device_writes :: "rm_env \<Rightarrow> device_write list \<Rightarrow> rm_blobs \<Rightarrow> rm_blobs" where
  "device_writes e ws s = fold (\<lambda>(k, w, g) s. snd (putBlob e k w g s)) ws s"

text \<open>The new top index is staged under its hash, then the root is moved to it against the generation
  that was read; \<open>ws\<close> is what devices write in between.\<close>

definition commit_tree ::
  "rm_env \<Rightarrow> int \<Rightarrow> treeState \<Rightarrow> device_write list \<Rightarrow> rm_blobs \<Rightarrow> (tree_error + unit) \<times> rm_blobs" where
  "commit_tree e gen t ws s =
     (case hashOfEntries (sha256 e) (tsEntries t) of
        Inl x \<Rightarrow> (Inl (BadIndex x), s)
      | Inr h \<Rightarrow>
          (let s1 = snd (putBlob e h (serializeIndex (tsSchema t) (tsEntries t)) 0 s)
           in case putBlob e rootBlobID h gen (device_writes e ws s1) of
                (Inr _, s') \<Rightarrow> (Inr (), s')
              | (Inl x, s') \<Rightarrow> (Inl (StoreFailed x), s')))"

definition maxAttempts :: nat where "maxAttempts = 5"

text \<open>Devices write at any of four moments of an attempt: before the tree is read, before it is
  edited, before the new index is staged and before the root is moved.\<close>

datatype moment = BeforeRead | BeforeEdit | BeforeStage | BeforeCommit

type_synonym activity = "moment \<Rightarrow> device_write list"

text \<open>One attempt; \<open>None\<close> is a commit lost to a device.\<close>

definition attempt :: "rm_env \<Rightarrow> mutation \<Rightarrow> activity \<Rightarrow> rm_blobs \<Rightarrow> (tree_error + unit) option \<times> rm_blobs" where
  "attempt e mutate d s =
     (let s0 = device_writes e (d BeforeRead) s
      in case read_tree s0 of
           Inl x \<Rightarrow> (Some (Inl x), s0)
         | Inr (gen, t) \<Rightarrow>
             (case mutate t (device_writes e (d BeforeEdit) s0) of
                (Inl x, s2) \<Rightarrow> (Some (Inl x), s2)
              | (Inr t', s2) \<Rightarrow>
                  (case commit_tree e gen t' (d BeforeCommit) (device_writes e (d BeforeStage) s2) of
                     (Inr _, s4) \<Rightarrow> (Some (Inr ()), s4)
                   | (Inl x, s4) \<Rightarrow> (if x = StoreFailed GenerationMismatch then None else Some (Inl x), s4))))"

fun attempts :: "nat \<Rightarrow> rm_env \<Rightarrow> mutation \<Rightarrow> (nat \<Rightarrow> activity) \<Rightarrow> rm_blobs \<Rightarrow> (tree_error + unit) \<times> rm_blobs" where
  "attempts 0 e mutate dev s = (Inl ErrTreeConflict, s)"
| "attempts (Suc n) e mutate dev s =
     (case attempt e mutate (dev 0) s of
        (Some r, s') \<Rightarrow> (r, s')
      | (None, s') \<Rightarrow> attempts n e mutate (\<lambda>i. dev (Suc i)) s')"

text \<open>\<open>dev\<close> gives the devices' activity during each attempt.\<close>

definition mutateTree :: "rm_env \<Rightarrow> mutation \<Rightarrow> (nat \<Rightarrow> activity) \<Rightarrow> rm_blobs \<Rightarrow> (tree_error + unit) \<times> rm_blobs" where
  "mutateTree e mutate dev s = attempts maxAttempts e mutate dev s"

definition quiet :: "nat \<Rightarrow> activity" where
  "quiet = (\<lambda>_ _. [])"

section \<open>Listing\<close>

definition mapEntryType :: "string \<Rightarrow> string" where
  "mapEntryType t = (if t = ''CollectionType'' then ''folder'' else ''document'')"

definition doc_key :: "Document \<Rightarrow> bool \<times> string \<times> string" where
  "doc_key d = (dcType d \<noteq> ''folder'', map to_lower (dcName d), dcID d)"

definition sortDocuments :: "Document list \<Rightarrow> Document list" where
  "sortDocuments = sort_key doc_key"

definition last_hash :: "(string \<Rightarrow> bool) \<Rightarrow> indexEntry list \<Rightarrow> string" where
  "last_hash P fs = fold (\<lambda>f h. if P (ieName f) then ieHash f else h) fs []"

definition is_metadata :: "string \<Rightarrow> bool" where "is_metadata n = HasSuffix n ''.metadata''"
definition is_content :: "string \<Rightarrow> bool" where "is_content n \<longleftrightarrow> \<not> HasSuffix n ''.metadata'' \<and> HasSuffix n ''.content''"

definition with_content :: "rm_codec \<Rightarrow> string \<Rightarrow> rm_blobs \<Rightarrow> Document \<Rightarrow> Document" where
  "with_content cd contentHash s doc =
     (if contentHash = [] then doc
      else case readBlob contentHash s of
             Inl _ \<Rightarrow> doc
           | Inr b \<Rightarrow>
               (case decodeContent cd b of
                  None \<Rightarrow> doc
                | Some c \<Rightarrow> doc\<lparr>dcFileType := ctFileType c,
                    dcPageCount := (if ctPageCount c = 0 then int (length (ctPages c)) else ctPageCount c)\<rparr>))"

definition documentFromSubtree :: "rm_codec \<Rightarrow> indexEntry \<Rightarrow> rm_blobs \<Rightarrow> tree_error + Document option" where
  "documentFromSubtree cd docEntry s =
     (case readBlob (ieHash docEntry) s of
        Inl _ \<Rightarrow> Inr None
      | Inr d \<Rightarrow>
          (case parseIndex d of
             Inl x \<Rightarrow> Inl (BadIndex x)
           | Inr fs \<Rightarrow>
               let metaHash = last_hash is_metadata fs; contentHash = last_hash is_content fs in
               if metaHash = [] then Inr None
               else case readBlob metaHash s of
                      Inl _ \<Rightarrow> Inr None
                    | Inr b \<Rightarrow>
                        (case decodeMetadata cd b of
                           None \<Rightarrow> Inr None
                         | Some meta \<Rightarrow>
                             if mdDeleted meta \<or> mdParent meta = trashParent then Inr None
                             else Inr (Some (with_content cd contentHash s
                                    \<lparr>dcID = ieName docEntry, dcName = mdVisibleName meta, dcType = mapEntryType (mdType meta),
                                     dcParent = mdParent meta, dcPageCount = 0, dcFileType = []\<rparr>)))))"

fun documents_of :: "rm_codec \<Rightarrow> indexEntry list \<Rightarrow> rm_blobs \<Rightarrow> tree_error + Document list" where
  "documents_of cd [] s = Inr []"
| "documents_of cd (en # es) s =
     bind_sum (documentFromSubtree cd en s) (\<lambda>od.
     bind_sum (documents_of cd es s) (\<lambda>ds. Inr (case od of None \<Rightarrow> ds | Some d \<Rightarrow> d # ds)))"

text \<open>The listing of the older document store, the fallback while there is no tree: one row per document
  \<open>(id, name, type, parent)\<close>.\<close>

definition legacyDocumentTree :: "(string \<times> string \<times> string \<times> string) list \<Rightarrow> Document list" where
  "legacyDocumentTree rows =
     sortDocuments (map (\<lambda>(i, name, type, parent).
       \<lparr>dcID = i, dcName = name, dcType = mapEntryType type, dcParent = parent, dcPageCount = 0, dcFileType = []\<rparr>) rows)"

definition listDocumentTree ::
  "rm_codec \<Rightarrow> (string \<times> string \<times> string \<times> string) list \<Rightarrow> rm_blobs \<Rightarrow> tree_error + Document list" where
  "listDocumentTree cd legacy s =
     (case getBlob rootBlobID s of
        Inl _ \<Rightarrow> Inr (legacyDocumentTree legacy)
      | Inr r \<Rightarrow>
          (case osReadFile (bPath r) s of
             Inl _ \<Rightarrow> Inl ReadFailed
           | Inr raw \<Rightarrow>
               let topHash = TrimSpace raw in
               if topHash = [] then Inr (legacyDocumentTree legacy)
               else case readBlob topHash s of
                      Inl _ \<Rightarrow> Inr (legacyDocumentTree legacy)
                    | Inr d \<Rightarrow>
                        (case parseIndex d of
                           Inl x \<Rightarrow> Inl (BadIndex x)
                         | Inr es \<Rightarrow> bind_sum (documents_of cd es s) (\<lambda>ds. Inr (sortDocuments ds)))))"

section \<open>The server's operations\<close>

datatype tree_op =
    Rename string string
  | Move string string
  | Trash string
  | NewFolder string string string
  | NewDocument string string string string string int

fun run_op :: "rm_env \<Rightarrow> rm_codec \<Rightarrow> tree_op \<Rightarrow> mutation" where
  "run_op e cd (Rename docID name) = renameNode e cd docID name"
| "run_op e cd (Move docID parent) = moveNode e cd docID parent"
| "run_op e cd (Trash docID) = trashNode e cd docID"
| "run_op e cd (NewFolder docID name parent) = createFolder e cd docID name parent"
| "run_op e cd (NewDocument docID name parent ftype ph ps) = createDocument e cd docID name parent ftype ph ps"

end
