(* ===== verification/Rm_Commit.thy ===== *)
theory Rm_Commit
  imports Rm_Tree
begin

text \<open>
  Server mutations of the reMarkable tree race with device commits: a mutation stages blobs without
  touching the root, and the commit goes through only when no device has committed since the tree
  was read. So a successful mutation is applied to exactly the tree it replaces.
\<close>

section \<open>Staging leaves the root alone\<close>

text \<open>The ids a store holds. Rows are never removed, so they only grow: what SHA-1 has to tell apart in a
  run are the finitely many ids of its last state.\<close>

definition blob_ids :: "rm_blobs \<Rightarrow> string set" where
  "blob_ids s = fst ` set (remarkable_blobs s)"

definition digests :: "rm_env \<Rightarrow> string set" where
  "digests e = range (\<lambda>x. hexEncode (sha256 e x))"

definition rm_ok :: "rm_env \<Rightarrow> string set \<Rightarrow> rm_blobs \<Rightarrow> bool" where
  "rm_ok e K s \<longleftrightarrow> blobs_wf e K s \<and> rootBlobID \<in> K"

lemma ids_put: "blob_ids s \<subseteq> blob_ids (snd (putBlob e i b g s))" "blob_ids (snd (putBlob e i b g s)) \<subseteq> insert i (blob_ids s)"
  by (auto simp: blob_ids_def putBlob_def putBlobCAS_def Let_def dom_update split: option.split)

lemma ids_put_plain: "blob_ids (snd (putBlob e i b 0 s)) = insert i (blob_ids s)"
  by (simp add: blob_ids_def putBlob_def Let_def dom_update)

lemma rm_ok_ids: "rm_ok e K s \<Longrightarrow> blob_ids s \<subseteq> K"
  by (auto simp: rm_ok_def blobs_wf_def blobs_inv_def blob_ids_def dest!: weak_map_of_SomeI)

text \<open>A write that leaves no row for its id was refused and changed nothing.\<close>

lemma put_refused:
  assumes "i \<notin> blob_ids (snd (putBlob e i b g s))"
  shows "snd (putBlob e i b g s) = s"
proof -
  have g: "g \<noteq> 0" using assms ids_put_plain [of e i b s] by auto
  have n: "map_of (remarkable_blobs s) i = None"
    using assms ids_put(1) [of s e i b g] by (auto simp: blob_ids_def map_of_eq_None_iff)
  show ?thesis
  proof (cases "CreateTemp e (blob_path e i @ ''.cas-'') s")
    case None
    then show ?thesis using g by (simp add: putBlob_def putBlobCAS_def)
  next
    case (Some p)
    then show ?thesis using g n CreateTemp_fresh [OF Some] by (simp add: putBlob_def putBlobCAS_def Let_def delete_fresh)
  qed
qed

lemma put_rm_ok:
  assumes "rm_ok e K s" "blob_ids (snd (putBlob e i b g s)) \<subseteq> K"
  shows "rm_ok e K (snd (putBlob e i b g s))"
proof (cases "i \<in> K")
  case True
  then show ?thesis using assms(1) rm.put_wf by (simp add: rm_ok_def)
next
  case False
  then have "i \<notin> blob_ids (snd (putBlob e i b g s))" using assms(2) by blast
  then show ?thesis using put_refused [of i e b g s] assms(1) by simp
qed

definition keeps_root :: "rm_env \<Rightarrow> string set \<Rightarrow> rm_blobs \<Rightarrow> rm_blobs \<Rightarrow> bool" where
  "keeps_root e K s s' \<longleftrightarrow> rm_ok e K s' \<and> view s' rootBlobID = view s rootBlobID"

lemma digest_not_root: "hexEncode x \<noteq> rootBlobID"
proof
  assume "hexEncode x = rootBlobID"
  then have "hexDecode rootBlobID = Some x" by (metis hexDecode_hexEncode)
  moreover have "hexDecode rootBlobID = None" by code_simp
  ultimately show False by simp
qed

lemma hashOfEntries_digest: "hashOfEntries (sha256 e) es = Inr h \<Longrightarrow> h \<in> digests e"
  by (auto simp: hashOfEntries_def bind_sum_eq_Inr digests_def)

lemma blobHashHex_digest: "blobHashHex (sha256 e) d \<in> digests e"
  by (simp add: blobHashHex_def digests_def)

lemma put_digest:
  assumes "rm_ok e K s" "h \<in> digests e" "h \<in> K"
  shows "keeps_root e K s (snd (putBlob e h d 0 s))" "view (snd (putBlob e h d 0 s)) = (view s)(h \<mapsto> (next_gen (view s h), d))"
proof -
  have wf: "no_collision e K" "blobs_inv e K s" using assms by (auto simp: rm_ok_def blobs_wf_def)
  obtain t where t: "putBlob e h d 0 s = (Inr (next_gen (view s h)), t)" "blobs_inv e K t"
    "view t = (view s)(h \<mapsto> (next_gen (view s h), d))"
    using putBlob_plain [OF wf assms(3), of d] by blast
  moreover have "h \<noteq> rootBlobID" using assms(2) digest_not_root by (auto simp: digests_def)
  ultimately show "keeps_root e K s (snd (putBlob e h d 0 s))" "view (snd (putBlob e h d 0 s)) = (view s)(h \<mapsto> (next_gen (view s h), d))"
    using assms(1) by (auto simp: keeps_root_def rm_ok_def blobs_wf_def)
qed

text \<open>Staging is a series of unconditional writes under digests.\<close>

inductive stages :: "rm_env \<Rightarrow> rm_blobs \<Rightarrow> rm_blobs \<Rightarrow> bool" for e where
  stages_refl: "stages e s s"
| stages_put: "stages e s s' \<Longrightarrow> h \<in> digests e \<Longrightarrow> stages e s (snd (putBlob e h d 0 s'))"

lemma stages_trans: "stages e s' s'' \<Longrightarrow> stages e s s' \<Longrightarrow> stages e s s''"
  by (induction rule: stages.induct) (auto intro: stages.intros)

lemma stages_ids: "stages e s s' \<Longrightarrow> blob_ids s \<subseteq> blob_ids s'" "stages e s s' \<Longrightarrow> blob_ids s' \<subseteq> blob_ids s \<union> digests e"
  by (induction rule: stages.induct) (auto simp: ids_put_plain)

lemma stages_keeps: "stages e s s' \<Longrightarrow> rm_ok e K s \<Longrightarrow> blob_ids s' \<subseteq> K \<Longrightarrow> keeps_root e K s s'"
proof (induction rule: stages.induct)
  case (stages_put s s' h d)
  then have k: "keeps_root e K s s'" "h \<in> K" by (auto simp: ids_put_plain)
  then show ?case using put_digest(1) [of e K s' h d] stages_put.hyps by (simp add: keeps_root_def)
qed (simp add: keeps_root_def)

lemma stageBlobBytes_stages: "stageBlobBytes e d s = (x, s') \<Longrightarrow> stages e s s'"
  by (auto simp: stageBlobBytes_def Let_def intro!: stages.intros blobHashHex_digest)

lemma stageDocEntry_stages: "stageDocEntry e docID fs s = (x, s') \<Longrightarrow> stages e s s'"
  by (auto simp: stageDocEntry_def intro!: stages.intros split: sum.splits dest: hashOfEntries_digest)

lemma append_doc_stages: "append_doc e docID fs t s = (x, s') \<Longrightarrow> stages e s s'"
  using stageDocEntry_stages by (auto simp: append_doc_def split: prod.splits sum.splits)

lemma rewrite_stages: "stages e s (snd (rewriteMetadataInTree e cd docID patch t s))"
proof (cases "rewriteMetadataInTree e cd docID patch t s")
  case (Pair x s')
  then have "s' = s \<or> (\<exists>d y s1 fs' z. stageBlobBytes e d s = (y, s1) \<and> stageDocEntry e docID fs' s1 = (z, s'))"
    by (auto simp: rewriteMetadataInTree_def split: option.splits sum.splits prod.splits decoded.splits)
  then show ?thesis
    using Pair stages_refl [of e s] stageBlobBytes_stages [of e] stageDocEntry_stages [of e] stages_trans [of e] by auto metis
qed

definition mutation_ok :: "rm_env \<Rightarrow> mutation \<Rightarrow> bool" where
  "mutation_ok e mutate \<longleftrightarrow> (\<forall>t s. stages e s (snd (mutate t s)))"

lemma create_stages:
  "createFolder e cd docID name parent t s = (x, s') \<Longrightarrow> stages e s s'"
  "createDocument e cd docID name parent ftype ph ps t s = (x, s') \<Longrightarrow> stages e s s'"
proof -
  assume "createFolder e cd docID name parent t s = (x, s')"
  then have "s' = s \<or> (\<exists>d y s1 fs. stageBlobBytes e d s = (y, s1) \<and> append_doc e docID fs t s1 = (x, s'))"
    by (auto simp: createFolder_def split: if_splits sum.splits prod.splits)
  then show "stages e s s'"
    using stages_refl stageBlobBytes_stages append_doc_stages stages_trans by metis
next
  assume "createDocument e cd docID name parent ftype ph ps t s = (x, s')"
  then have "s' = s \<or> (\<exists>d y s1 d' y' s2 fs. stageBlobBytes e d s = (y, s1) \<and> stageBlobBytes e d' s1 = (y', s2) \<and>
      append_doc e docID fs t s2 = (x, s'))"
    by (auto simp: createDocument_def split: if_splits sum.splits prod.splits)
  then show "stages e s s'"
    using stages_refl stageBlobBytes_stages append_doc_stages stages_trans by metis
qed

lemma run_op_ok: "mutation_ok e (run_op e cd op)"
  unfolding mutation_ok_def
proof (intro allI)
  fix t s
  show "stages e s (snd (run_op e cd op t s))"
  proof (cases op)
    case (Rename docID name)
    then show ?thesis using rewrite_stages by (simp add: renameNode_def)
  next
    case (Move docID p)
    then show ?thesis using rewrite_stages stages_refl by (simp add: moveNode_def split: sum.split)
  next
    case (Trash docID)
    then show ?thesis using rewrite_stages stages_refl by (simp add: trashNode_def split: sum.split)
  next
    case (NewFolder docID name p)
    then show ?thesis using create_stages(1) by (metis run_op.simps(4) surjective_pairing)
  next
    case (NewDocument docID name p ft ph ps)
    then show ?thesis using create_stages(2) by (metis run_op.simps(5) surjective_pairing)
  qed
qed

section \<open>Reading and committing\<close>

lemma view_read: "view s i = Some (g, d) \<longleftrightarrow> (\<exists>r. getBlob i s = Inr r \<and> bGen r = g \<and> osReadFile (bPath r) s = Inr d)"
  by (auto simp: view_def getBlob_def osReadFile_def split: option.splits)

lemma readBlob_view: "readBlob i s = Inr d \<longleftrightarrow> (\<exists>g. view s i = Some (g, d))"
  by (auto simp: view_read readBlob_def bind_sum_eq_Inr)

text \<open>The tree a root content names.\<close>

definition tree_at :: "string \<Rightarrow> rm_blobs \<Rightarrow> tree_error + treeState" where
  "tree_at w s =
     (if TrimSpace w = [] then Inr \<lparr>tsSchema = docIndexSchema, tsEntries = []\<rparr>
      else case readBlob (TrimSpace w) s of
             Inl _ \<Rightarrow> Inl NotSynced
           | Inr d \<Rightarrow>
               (case parseIndexWithSchema d of
                  Inl x \<Rightarrow> Inl (BadIndex x)
                | Inr (schema, es) \<Rightarrow> Inr \<lparr>tsSchema = schema, tsEntries = es\<rparr>))"

lemma read_tree_view: "read_tree s = Inr (g, t) \<longleftrightarrow> (\<exists>w. view s rootBlobID = Some (g, w) \<and> tree_at w s = Inr t)"
proof -
  have eq: "read_tree s = (case getBlob rootBlobID s of Inl _ \<Rightarrow> Inl ErrNoHashTree
      | Inr r \<Rightarrow> (case osReadFile (bPath r) s of Inl _ \<Rightarrow> Inl ReadFailed | Inr raw \<Rightarrow> bind_sum (tree_at raw s) (\<lambda>t. Inr (bGen r, t))))"
    by (simp add: read_tree_def tree_at_def Let_def split: sum.split prod.split)
  show ?thesis
  proof (cases "getBlob rootBlobID s")
    case (Inl x)
    then show ?thesis by (simp add: eq view_read)
  next
    case (Inr r)
    then show ?thesis by (cases "osReadFile (bPath r) s") (auto simp: eq view_read bind_sum_eq_Inr)
  qed
qed

lemma view_gen_pos:
  assumes "rm_ok e K s" "view s i = Some (g, w)"
  shows "1 \<le> g"
proof -
  obtain r where r: "map_of (remarkable_blobs s) i = Some r" "bGen r = g"
    using assms(2) by (auto simp: view_def split: option.splits)
  have "blobs_inv e K s" using assms(1) by (simp add: rm_ok_def blobs_wf_def)
  from blobs_invD [OF this r(1)] show ?thesis using r(2) by metis
qed

section \<open>The generation of the root\<close>

definition root_gen :: "rm_blobs \<Rightarrow> int" where
  "root_gen s = (case view s rootBlobID of None \<Rightarrow> 0 | Some (g, _) \<Rightarrow> g)"

text \<open>The root never goes back, and while its generation stands still so does its content.\<close>

definition root_le :: "rm_blobs \<Rightarrow> rm_blobs \<Rightarrow> bool" where
  "root_le s s' \<longleftrightarrow> root_gen s \<le> root_gen s' \<and> (root_gen s' = root_gen s \<longrightarrow> view s' rootBlobID = view s rootBlobID)"

lemma root_le_refl: "root_le s s"
  by (simp add: root_le_def)

lemma root_le_trans: "root_le s s' \<Longrightarrow> root_le s' s'' \<Longrightarrow> root_le s s''"
  by (auto simp: root_le_def)

lemma keeps_root_le: "keeps_root e K s s' \<Longrightarrow> root_le s s'"
  by (simp add: keeps_root_def root_le_def root_gen_def)

lemma root_gen_pos: "rm_ok e K s \<Longrightarrow> view s rootBlobID = Some (g, w) \<Longrightarrow> root_gen s = g \<and> 1 \<le> g"
  using view_gen_pos by (simp add: root_gen_def)

lemma root_gen_view: "root_gen s = g \<Longrightarrow> 1 \<le> g \<Longrightarrow> \<exists>w. view s rootBlobID = Some (g, w)"
  by (auto simp: root_gen_def split: option.splits)

lemma device_writes_ids: "blob_ids s \<subseteq> blob_ids (device_writes e ws s)"
  unfolding device_writes_def
proof (induction ws arbitrary: s)
  case (Cons x ws)
  obtain k w g where x: "x = (k, w, g)" by (cases x)
  have "blob_ids s \<subseteq> blob_ids (snd (putBlob e k w g s))" by (rule ids_put)
  also have "\<dots> \<subseteq> blob_ids (fold (\<lambda>(k, w, g) s. snd (putBlob e k w g s)) ws (snd (putBlob e k w g s)))" by (rule Cons.IH)
  finally show ?case by (simp add: x)
qed simp

text \<open>Only the writes to ids that end up in the store matter.\<close>

lemma device_writes_filter:
  "blob_ids (device_writes e ws s) \<subseteq> K \<Longrightarrow> device_writes e ws s = device_writes e (filter (\<lambda>(k, w, g). k \<in> K) ws) s"
proof (induction ws arbitrary: s)
  case (Cons x ws)
  obtain k w g where x: "x = (k, w, g)" by (cases x)
  let ?s = "snd (putBlob e k w g s)"
  have step: "device_writes e (x # ws) s = device_writes e ws ?s" by (simp add: x device_writes_def)
  then have K: "blob_ids (device_writes e ws ?s) \<subseteq> K" using Cons.prems by simp
  have "blob_ids ?s \<subseteq> K" using device_writes_ids [of ?s e ws] K by blast
  then have "?s = s" if "k \<notin> K" using that put_refused [of k e w g s] by blast
  then show ?case using Cons.IH [OF K] step by (cases "k \<in> K") (simp_all add: x device_writes_def)
qed (simp add: device_writes_def)

lemma device_writes_root:
  assumes "rm_ok e K s" "blob_ids (device_writes e ws s) \<subseteq> K"
  shows "rm_ok e K (device_writes e ws s) \<and> root_le s (device_writes e ws s)"
proof -
  let ?ws = "filter (\<lambda>(k, w, g). k \<in> K) ws" and ?s = "device_writes e ws s"
  have eq: "?s = fold (\<lambda>(k, w, g) s. snd (putBlob e k w g s)) ?ws s"
    using device_writes_filter [OF assms(2)] by (simp add: device_writes_def)
  have K: "\<forall>(k, w, g) \<in> set ?ws. k \<in> K" by auto
  have wf: "blobs_wf e K s" using assms(1) by (simp add: rm_ok_def)
  have "rm_ok e K ?s"
    using rm.puts_wf [OF wf K] assms(1) by (simp add: eq rm_ok_def)
  moreover have "root_le s ?s"
  proof (cases "view s rootBlobID")
    case None
    then show ?thesis using calculation root_gen_pos [of e K ?s]
      by (cases "view ?s rootBlobID") (auto simp: root_le_def root_gen_def)
  next
    case (Some v)
    obtain n v' where v: "v = (n, v')" by (cases v)
    from rm.puts_mono [OF wf K Some [unfolded v]] Some v show ?thesis
      by (fastforce simp: root_le_def root_gen_def simp flip: eq)
  qed
  ultimately show ?thesis by blast
qed

lemma commit_tree_ids: "blob_ids s \<subseteq> blob_ids (snd (commit_tree e g t ws s))"
proof (cases "hashOfEntries (sha256 e) (tsEntries t)")
  case (Inr h)
  let ?s1 = "snd (putBlob e h (serializeIndex (tsSchema t) (tsEntries t)) 0 s)"
  have "blob_ids s \<subseteq> blob_ids ?s1" by (rule ids_put)
  also have "\<dots> \<subseteq> blob_ids (device_writes e ws ?s1)" by (rule device_writes_ids)
  also have "\<dots> \<subseteq> blob_ids (snd (putBlob e rootBlobID h g (device_writes e ws ?s1)))" by (rule ids_put)
  finally show ?thesis using Inr by (auto simp: commit_tree_def Let_def split: prod.split sum.split)
qed (simp add: commit_tree_def)

text \<open>A commit either moves the root from the generation that was read to the next one, leaving all else
  as the staging and the devices left it, or finds another generation and leaves the root alone.\<close>

lemma commit_tree_spec:
  assumes "rm_ok e K s" "commit_tree e gen t ws s = (res, s')" "gen \<noteq> 0" "blob_ids s' \<subseteq> K"
  shows "rm_ok e K s' \<and>
    (case res of
       Inr _ \<Rightarrow> \<exists>h w. hashOfEntries (sha256 e) (tsEntries t) = Inr h \<and>
         (let s1 = device_writes e ws (snd (putBlob e h (serializeIndex (tsSchema t) (tsEntries t)) 0 s))
          in root_le s s1 \<and> view s1 rootBlobID = Some (gen, w) \<and> view s' = (view s1)(rootBlobID \<mapsto> (gen + 1, h)))
     | Inl x \<Rightarrow> root_le s s' \<and> (x = StoreFailed GenerationMismatch \<longrightarrow> root_gen s' \<noteq> gen) \<and> x \<noteq> ErrTreeConflict)"
proof (cases "hashOfEntries (sha256 e) (tsEntries t)")
  case (Inl x)
  then show ?thesis using assms by (auto simp: commit_tree_def root_le_refl)
next
  case (Inr h)
  let ?s0 = "snd (putBlob e h (serializeIndex (tsSchema t) (tsEntries t)) 0 s)"
  let ?s1 = "device_writes e ws ?s0"
  obtain r where p: "putBlob e rootBlobID h gen ?s1 = (r, s')" and r: "res = (case r of Inr _ \<Rightarrow> Inr () | Inl x \<Rightarrow> Inl (StoreFailed x))"
    using assms(2) Inr by (auto simp: commit_tree_def Let_def split: prod.splits sum.splits)
  have K1: "blob_ids ?s1 \<subseteq> K" using ids_put(1) [of ?s1 e rootBlobID h gen] p assms(4) by auto
  then have K0: "blob_ids ?s0 \<subseteq> K" using device_writes_ids [of ?s0 e ws] by blast
  have "h \<in> K" using K0 by (auto simp: ids_put_plain)
  then have k: "keeps_root e K s ?s0" using put_digest(1) [OF assms(1) hashOfEntries_digest [OF Inr]] by blast
  then have d: "rm_ok e K ?s1" "root_le ?s0 ?s1" using device_writes_root [of e K ?s0 ws] K1 by (auto simp: keeps_root_def)
  have le: "root_le s ?s1" using root_le_trans keeps_root_le [OF k] d(2) by blast
  have wf: "no_collision e K" "blobs_inv e K ?s1" "rootBlobID \<in> K" using d(1) by (auto simp: rm_ok_def blobs_wf_def)
  note spec = putBlob_spec [OF wf p]
  show ?thesis
  proof (cases r)
    case n: (Inr n)
    then obtain w where w: "view ?s1 rootBlobID = Some (gen, w)" using spec assms(3) by auto
    then have "view s' = (view ?s1)(rootBlobID \<mapsto> (gen + 1, h))" using spec n by (simp add: next_gen_def)
    then show ?thesis using spec n r Inr w le wf by (auto simp: rm_ok_def blobs_wf_def)
  next
    case x: (Inl x)
    then have s': "s' = ?s1" "x = GenerationMismatch \<longrightarrow> (\<nexists>w. view ?s1 rootBlobID = Some (gen, w))" using spec by auto
    have "root_gen ?s1 \<noteq> gen" if "x = GenerationMismatch"
      using s'(2) that assms(3) by (auto simp: root_gen_def split: option.splits)
    then show ?thesis using x r le d(1) by (auto simp: s'(1))
  qed
qed

section \<open>The race\<close>

text \<open>The state in which attempt \<open>k\<close> of a run begins.\<close>

fun before_attempt :: "rm_env \<Rightarrow> mutation \<Rightarrow> (nat \<Rightarrow> activity) \<Rightarrow> rm_blobs \<Rightarrow> nat \<Rightarrow> rm_blobs" where
  "before_attempt e mutate dev s 0 = s"
| "before_attempt e mutate dev s (Suc k) = snd (attempt e mutate (dev k) (before_attempt e mutate dev s k))"

text \<open>What it means that an attempt, begun in \<open>s\<close> with the devices doing \<open>d\<close>, went through and ended in
  \<open>s'\<close>: the tree that was edited is that of the root as it is when the commit writes it, and of what the
  store holds then, the commit changes the root alone, to the index of the edited tree.\<close>

definition serial_commit :: "rm_env \<Rightarrow> mutation \<Rightarrow> activity \<Rightarrow> rm_blobs \<Rightarrow> rm_blobs \<Rightarrow> bool" where
  "serial_commit e mutate d s s' \<longleftrightarrow>
     (\<exists>g w t t' h.
        let atRead = device_writes e (d BeforeRead) s;
            atEdit = device_writes e (d BeforeEdit) atRead;
            (res, edited) = mutate t atEdit;
            atStage = device_writes e (d BeforeStage) edited;
            index = serializeIndex (tsSchema t') (tsEntries t');
            atCommit = device_writes e (d BeforeCommit) (snd (putBlob e h index 0 atStage))
        in view atRead rootBlobID = Some (g, w) \<and> tree_at w atRead = Inr t \<and>
           res = Inr t' \<and> hashOfEntries (sha256 e) (tsEntries t') = Inr h \<and>
           view atCommit rootBlobID = Some (g, w) \<and>
           view s' = (view atCommit)(rootBlobID \<mapsto> (g + 1, h)) \<and>
           (h \<notin> fst ` set (d BeforeCommit) \<longrightarrow> readBlob h s' = Inr index))"

lemma device_writes_other:
  assumes "rm_ok e K s" "blob_ids (device_writes e ws s) \<subseteq> K" "i \<notin> fst ` set ws"
  shows "view (device_writes e ws s) i = view s i"
  using assms
proof (induction ws arbitrary: s)
  case (Cons x ws)
  obtain k w g where x: "x = (k, w, g)" by (cases x)
  let ?s = "snd (putBlob e k w g s)"
  have step: "device_writes e (x # ws) s = device_writes e ws ?s" by (simp add: x device_writes_def)
  have K: "blob_ids (device_writes e ws ?s) \<subseteq> K" using Cons.prems(2) step by simp
  have Ks: "blob_ids ?s \<subseteq> K" using device_writes_ids [of ?s e ws] K by blast
  have ok: "rm_ok e K ?s" using put_rm_ok [OF Cons.prems(1) Ks] .
  have "view ?s i = view s i"
  proof (cases "k \<in> K")
    case True
    obtain r t where p: "putBlob e k w g s = (r, t)" by (cases "putBlob e k w g s")
    have wf: "no_collision e K" "blobs_inv e K s" using Cons.prems(1) by (auto simp: rm_ok_def blobs_wf_def)
    from putBlob_spec [OF wf True p] show ?thesis using p x Cons.prems(3) by (cases r) auto
  next
    case False
    then have "k \<notin> blob_ids ?s" using Ks by blast
    then show ?thesis using put_refused [of k e w g s] by simp
  qed
  then show ?case using Cons.IH [OF ok K] Cons.prems(3) step by simp
qed (simp add: device_writes_def)

lemma attempt_ids:
  assumes "mutation_ok e mutate"
  shows "blob_ids s \<subseteq> blob_ids (snd (attempt e mutate d s))"
proof -
  let ?s0 = "device_writes e (d BeforeRead) s"
  show ?thesis
  proof (cases "read_tree ?s0")
    case (Inl x)
    then show ?thesis using device_writes_ids by (simp add: attempt_def Let_def)
  next
    case (Inr gt)
    obtain gen t where gt: "gt = (gen, t)" by (cases gt)
    let ?s1 = "device_writes e (d BeforeEdit) ?s0"
    obtain r s2 where m: "mutate t ?s1 = (r, s2)" by (cases "mutate t ?s1")
    have "stages e ?s1 s2" using assms m unfolding mutation_ok_def by (metis snd_conv)
    then have s2: "blob_ids s \<subseteq> blob_ids s2"
      using stages_ids(1) [of e ?s1 s2] device_writes_ids [of s e "d BeforeRead"] device_writes_ids [of ?s0 e "d BeforeEdit"] by blast
    show ?thesis
    proof (cases r)
      case (Inl x)
      then show ?thesis using Inr gt m s2 by (simp add: attempt_def Let_def)
    next
      case r: (Inr t')
      let ?s3 = "device_writes e (d BeforeStage) s2"
      have "snd (attempt e mutate d s) = snd (commit_tree e gen t' (d BeforeCommit) ?s3)"
        using Inr gt m r by (simp add: attempt_def Let_def split: prod.split sum.split)
      then show ?thesis
        using s2 device_writes_ids [of s2 e "d BeforeStage"] commit_tree_ids [of ?s3 e gen t' "d BeforeCommit"] by auto
    qed
  qed
qed

lemma attempts_ids: "mutation_ok e mutate \<Longrightarrow> blob_ids s \<subseteq> blob_ids (snd (attempts n e mutate dev s))"
proof (induction n arbitrary: dev s)
  case (Suc n)
  obtain r s1 where a: "attempt e mutate (dev 0) s = (r, s1)" by (cases "attempt e mutate (dev 0) s")
  have s1: "blob_ids s \<subseteq> blob_ids s1" using attempt_ids [OF Suc.prems, of s "dev 0"] a by simp
  show ?case using s1 Suc.IH [OF Suc.prems, of s1 "\<lambda>i. dev (Suc i)"] a by (auto split: option.split)
qed simp

lemma read_tree_no_conflict: "read_tree s \<noteq> Inl ErrTreeConflict"
  by (auto simp: read_tree_def Let_def split: sum.splits if_splits prod.splits)

lemma attempt_spec:
  assumes "mutation_ok e mutate" "rm_ok e K s" "attempt e mutate d s = (r, s')" "blob_ids s' \<subseteq> K"
  shows "rm_ok e K s' \<and> root_le s s' \<and> (r = Some (Inr ()) \<longrightarrow> serial_commit e mutate d s s') \<and>
    (r = None \<longrightarrow> root_gen s < root_gen s') \<and>
    ((\<forall>t s. fst (mutate t s) \<noteq> Inl ErrTreeConflict) \<longrightarrow> r \<noteq> Some (Inl ErrTreeConflict))"
proof -
  let ?s0 = "device_writes e (d BeforeRead) s"
  show ?thesis
  proof (cases "read_tree ?s0")
    case (Inl x)
    then have "r = Some (Inl x)" "s' = ?s0" using assms(3) by (simp_all add: attempt_def Let_def)
    then show ?thesis using device_writes_root [OF assms(2)] assms(4) Inl read_tree_no_conflict [of ?s0] by auto
  next
    case (Inr gt)
    obtain gen t where gt: "gt = (gen, t)" by (cases gt)
    let ?s1 = "device_writes e (d BeforeEdit) ?s0"
    obtain r2 s2 where m: "mutate t ?s1 = (r2, s2)" by (cases "mutate t ?s1")
    have st: "stages e ?s1 s2" using assms(1) m unfolding mutation_ok_def by (metis snd_conv)
    obtain w where w: "view ?s0 rootBlobID = Some (gen, w)" "tree_at w ?s0 = Inr t"
      using Inr gt read_tree_view by blast
    have upto: "rm_ok e K ?s0 \<and> root_le s ?s0 \<and> rm_ok e K s2 \<and> root_le ?s0 s2" if "blob_ids s2 \<subseteq> K"
    proof -
      have 1: "blob_ids ?s1 \<subseteq> K" using stages_ids(1) [OF st] that by blast
      then have "blob_ids ?s0 \<subseteq> K" using device_writes_ids by blast
      then have 0: "rm_ok e K ?s0" "root_le s ?s0" using device_writes_root [OF assms(2)] by auto
      have 2: "rm_ok e K ?s1" "root_le ?s0 ?s1" using device_writes_root [OF 0(1) 1] by auto
      have "keeps_root e K ?s1 s2" using stages_keeps [OF st 2(1) that] .
      then show ?thesis using 0 2(2) root_le_trans [OF 2(2) keeps_root_le] by (auto simp: keeps_root_def)
    qed
    show ?thesis
    proof (cases r2)
      case (Inl x)
      then have r: "r = Some (Inl x)" "s' = s2" using assms(3) Inr gt m by (simp_all add: attempt_def Let_def)
      have "r \<noteq> Some (Inl ErrTreeConflict)" if "\<forall>t s. fst (mutate t s) \<noteq> Inl ErrTreeConflict"
        using that [rule_format, of t ?s1] m Inl r(1) by simp
      then show ?thesis using r upto assms(4) root_le_trans [of s ?s0 s2] by auto
    next
      case r2: (Inr t')
      let ?s3 = "device_writes e (d BeforeStage) s2"
      obtain r3 s3 where c: "commit_tree e gen t' (d BeforeCommit) ?s3 = (r3, s3)"
        by (cases "commit_tree e gen t' (d BeforeCommit) ?s3")
      have r: "s' = s3" "r = (case r3 of Inr _ \<Rightarrow> Some (Inr ()) | Inl x \<Rightarrow> if x = StoreFailed GenerationMismatch then None else Some (Inl x))"
        using assms(3) Inr gt m r2 c by (auto simp: attempt_def Let_def split: sum.splits)
      have K3: "blob_ids ?s3 \<subseteq> K" using commit_tree_ids [of ?s3 e gen t' "d BeforeCommit"] c assms(4) r(1) by auto
      then have u: "rm_ok e K ?s0" "root_le s ?s0" "rm_ok e K s2" "root_le ?s0 s2" using upto device_writes_ids [of s2 e "d BeforeStage"] by blast+
      have d3: "rm_ok e K ?s3" "root_le s2 ?s3" using device_writes_root [OF u(3) K3] by auto
      have g: "root_gen ?s0 = gen" "1 \<le> gen" using root_gen_pos [OF u(1) w(1)] by auto
      have le: "root_le ?s0 ?s3" "root_le s ?s3" using root_le_trans u d3 by blast+
      have "gen \<noteq> 0" using g(2) by simp
      note cs = commit_tree_spec [OF d3(1) c this assms(4) [unfolded r(1)]]
      show ?thesis
      proof (cases r3)
        case x: (Inl x)
        have l3: "root_le s s3" "root_le ?s0 s3" using cs x le root_le_trans by auto
        have "root_gen s < root_gen s3" if "x = StoreFailed GenerationMismatch"
          using l3(2) u(2) g(1) cs x that by (auto simp: root_le_def)
        then show ?thesis using cs x r l3 by (auto split: if_splits)
      next
        case n: (Inr n)
        obtain h v where h: "hashOfEntries (sha256 e) (tsEntries t') = Inr h"
          and v: "root_le ?s3 (device_writes e (d BeforeCommit) (snd (putBlob e h (serializeIndex (tsSchema t') (tsEntries t')) 0 ?s3)))"
            "view (device_writes e (d BeforeCommit) (snd (putBlob e h (serializeIndex (tsSchema t') (tsEntries t')) 0 ?s3))) rootBlobID = Some (gen, v)"
            "view s3 = (view (device_writes e (d BeforeCommit) (snd (putBlob e h (serializeIndex (tsSchema t') (tsEntries t')) 0 ?s3))))(rootBlobID \<mapsto> (gen + 1, h))"
          using cs n by (auto simp: Let_def)
        define s4 where "s4 = snd (putBlob e h (serializeIndex (tsSchema t') (tsEntries t')) 0 ?s3)"
        define s5 where "s5 = device_writes e (d BeforeCommit) s4"
        note v = v [folded s4_def, folded s5_def]
        have le5: "root_le ?s0 s5" "root_le s s5" using le v(1) root_le_trans by blast+
        have "root_gen s5 = gen" using v(2) by (simp add: root_gen_def)
        then have vw: "v = w" using le5(1) g(1) v(2) w(1) by (simp add: root_le_def)
        have le': "root_le s s3" using le5(2) v(2,3) by (auto simp: root_le_def root_gen_def)
        have K5: "blob_ids s5 \<subseteq> K"
          using c h n assms(4) r(1) ids_put(1) [of s5 e rootBlobID h gen]
          by (auto simp: commit_tree_def Let_def s4_def [symmetric] s5_def [symmetric] split: prod.splits sum.splits)
        then have K4: "blob_ids s4 \<subseteq> K" using device_writes_ids [of s4 e "d BeforeCommit"] by (auto simp: s5_def)
        have hK: "h \<in> K" "h \<noteq> rootBlobID"
          using K4 hashOfEntries_digest [OF h] digest_not_root by (auto simp: s4_def ids_put_plain digests_def)
        note p4 = put_digest [OF d3(1) hashOfEntries_digest [OF h] hK(1)]
        have ok4: "rm_ok e K s4" using p4(1) by (simp add: keeps_root_def s4_def)
        have v4: "view s4 = (view ?s3)(h \<mapsto> (next_gen (view ?s3 h), serializeIndex (tsSchema t') (tsEntries t')))"
          unfolding s4_def by (rule p4(2))
        have rd: "readBlob h s3 = Inr (serializeIndex (tsSchema t') (tsEntries t'))" if "h \<notin> fst ` set (d BeforeCommit)"
          using device_writes_other [OF ok4 K5 [unfolded s5_def] that] v4 v(3) hK(2) by (simp add: readBlob_view s5_def)
        have "serial_commit e mutate d s s3"
          unfolding serial_commit_def Let_def
          using w m r2 h v vw rd by (intro exI [of _ gen] exI [of _ w] exI [of _ t] exI [of _ t'] exI [of _ h]) (simp add: s4_def s5_def)
        then show ?thesis using cs n r le' by simp
      qed
    qed
  qed
qed

lemma before_attempt_shift:
  "before_attempt e mutate (\<lambda>i. dev (Suc i)) (snd (attempt e mutate (dev 0) s)) k = before_attempt e mutate dev s (Suc k)"
  by (induction k) simp_all

lemma attempts_serial:
  assumes "mutation_ok e mutate" "rm_ok e K s" "attempts n e mutate dev s = (res, s')" "blob_ids s' \<subseteq> K"
  shows "rm_ok e K s' \<and> (res = Inr () \<longrightarrow> (\<exists>k < n. serial_commit e mutate (dev k) (before_attempt e mutate dev s k) s')) \<and>
    (res = Inl ErrTreeConflict \<and> (\<forall>t s. fst (mutate t s) \<noteq> Inl ErrTreeConflict) \<longrightarrow> root_gen s + int n \<le> root_gen s')"
  using assms(2-)
proof (induction n arbitrary: s dev)
  case (Suc n)
  obtain r s1 where a: "attempt e mutate (dev 0) s = (r, s1)" by (cases "attempt e mutate (dev 0) s")
  show ?case
  proof (cases r)
    case (Some x)
    then have x: "x = res" "s1 = s'" using Suc.prems(2) a by auto
    then have as: "attempt e mutate (dev 0) s = (Some res, s')" using a Some by simp
    from attempt_spec [OF assms(1) Suc.prems(1) as Suc.prems(3)]
    have "rm_ok e K s'" "res = Inr () \<longrightarrow> serial_commit e mutate (dev 0) (before_attempt e mutate dev s 0) s'"
      "(\<forall>t s. fst (mutate t s) \<noteq> Inl ErrTreeConflict) \<longrightarrow> res \<noteq> Inl ErrTreeConflict" by simp_all
    then show ?thesis by blast
  next
    case None
    then have again: "attempts n e mutate (\<lambda>i. dev (Suc i)) s1 = (res, s')" using Suc.prems(2) a by simp
    have K: "blob_ids s1 \<subseteq> K" using attempts_ids [OF assms(1), of s1 n "\<lambda>i. dev (Suc i)"] again Suc.prems(3) by auto
    have s1: "rm_ok e K s1" "root_gen s < root_gen s1" using attempt_spec [OF assms(1) Suc.prems(1) a K] None by auto
    have sh: "before_attempt e mutate (\<lambda>i. dev (Suc i)) s1 k = before_attempt e mutate dev s (Suc k)" for k
      using before_attempt_shift [of e mutate dev s k] a by simp
    note IH = Suc.IH [OF s1(1) again Suc.prems(3)]
    have "\<exists>k < Suc n. serial_commit e mutate (dev k) (before_attempt e mutate dev s k) s'" if "res = Inr ()"
      using IH that unfolding sh by (metis Suc_mono)
    then show ?thesis using IH s1(2) by auto
  qed
qed auto

lemma no_conflict:
  "nodeMetaInTree cd t docID s \<noteq> Inl ErrTreeConflict"
  "validateParent cd t p s \<noteq> Inl ErrTreeConflict"
  "cycle_walk n cd t docID p s \<noteq> Inl ErrTreeConflict"
  "fst (stageDocEntry e docID fs s) \<noteq> Inl ErrTreeConflict"
proof -
  show n: "nodeMetaInTree cd t docID s \<noteq> Inl ErrTreeConflict" for docID
    by (simp add: nodeMetaInTree_def split: option.split sum.split decoded.split)
  show "validateParent cd t p s \<noteq> Inl ErrTreeConflict"
    using n [of p] by (auto simp: validateParent_def split: sum.split)
  show "cycle_walk n cd t docID p s \<noteq> Inl ErrTreeConflict"
    by (induction n cd t docID p s rule: cycle_walk.induct) (simp_all split: sum.split)
  show "fst (stageDocEntry e docID fs s) \<noteq> Inl ErrTreeConflict"
    by (simp add: stageDocEntry_def split: sum.split)
qed

lemma append_doc_no_conflict: "fst (append_doc e docID fs t s) \<noteq> Inl ErrTreeConflict"
  using no_conflict(4) [of e docID fs s] by (auto simp: append_doc_def split: prod.split sum.split)

lemma rewrite_no_conflict: "fst (rewriteMetadataInTree e cd docID patch t s) \<noteq> Inl ErrTreeConflict"
proof
  assume "fst (rewriteMetadataInTree e cd docID patch t s) = Inl ErrTreeConflict"
  then obtain fs s1 where "fst (stageDocEntry e docID fs s1) = Inl ErrTreeConflict"
    by (auto simp: rewriteMetadataInTree_def split: option.splits sum.splits prod.splits decoded.splits) (metis fst_conv)
  then show False using no_conflict(4) by blast
qed

lemma run_op_no_conflict: "fst (run_op e cd op t s) \<noteq> Inl ErrTreeConflict"
proof (cases op)
  case (Rename docID name)
  then show ?thesis using rewrite_no_conflict by (simp add: renameNode_def)
next
  case (Move docID p)
  then show ?thesis using rewrite_no_conflict no_conflict by (auto simp: moveNode_def checkNoCycle_def split: sum.split)
next
  case (Trash docID)
  then show ?thesis using rewrite_no_conflict no_conflict by (auto simp: trashNode_def split: sum.split)
next
  case (NewFolder docID name p)
  then show ?thesis using append_doc_no_conflict no_conflict(2) by (auto simp: createFolder_def split: sum.split prod.split)
next
  case (NewDocument docID name p ft ph ps)
  then show ?thesis using append_doc_no_conflict no_conflict(2) by (auto simp: createDocument_def split: sum.split prod.split)
qed

text \<open>
  C7. A server edit of the tablet's tree never overwrites a device commit. Devices may upload and commit at
  any of four moments of each attempt (before the server reads the tree, before it edits it, before it
  stages the new index and before it moves the root). An edit that reports success did so in one of
  its five attempts, and there, over the very states of the run: the tree it edited is the tree of the
  root that is current when the commit writes it (same generation, same content), whatever the devices
  committed before; the commit sets the root to the index of the edited tree, one generation
  later, and changes nothing else; and that index is readable, unless a device has just uploaded
  something under the index's own id. An operation gives up with a conflict only after the generation of
  the root has grown by at least five. \<open>K\<close> is any set with the ids that the store holds in the end
  on which SHA-1 does not collide.
\<close>

theorem mutateTree_serializable:
  assumes "rm_ok e K s" and "mutateTree e (run_op e cd op) dev s = (res, s')" and "blob_ids s' \<subseteq> K"
  shows "rm_ok e K s' \<and>
    (res = Inr () \<longrightarrow> (\<exists>k < 5. serial_commit e (run_op e cd op) (dev k) (before_attempt e (run_op e cd op) dev s k) s')) \<and>
    (res = Inl ErrTreeConflict \<longrightarrow> root_gen s + 5 \<le> root_gen s')"
  using attempts_serial [OF run_op_ok assms(1) assms(2) [unfolded mutateTree_def] assms(3)] run_op_no_conflict
  by (simp add: maxAttempts_def)

section \<open>Examples\<close>

definition ex_ids :: "string set" where
  "ex_ids = insert rootBlobID (digests ex_env)"

definition ex_rm_codec :: rm_codec where
  "ex_rm_codec = \<lparr>Marshal = (\<lambda>m. metaString m ''visibleName''),
     Unmarshal = (\<lambda>b. Obj [(''visibleName'', JString b), (''type'', JString ''CollectionType'')]),
     MarshalNew = mwVisibleName,
     decodeMetadata = (\<lambda>b. Some \<lparr>mdVisibleName = b, mdType = ''CollectionType'', mdParent = [], mdDeleted = False\<rparr>),
     decodeContent = (\<lambda>_. None)\<rparr>"

definition ex_empty :: rm_blobs where
  "ex_empty = \<lparr>remarkable_blobs = [], files = []\<rparr>"

definition ex_root :: rm_blobs where
  "ex_root = snd (putBlob ex_env rootBlobID [] 0 ex_empty)"

lemma ex_digest: "x \<in> digests ex_env \<Longrightarrow> length x = 64"
  by (auto simp: digests_def ex_env_def)

lemma ex_no_collision: "no_collision ex_env ex_ids"
proof -
  have d: "sha1 ex_env x = x" if "x \<in> digests ex_env" for x
    using ex_digest [OF that] by (simp add: ex_env_def)
  have r: "sha1 ex_env rootBlobID \<notin> digests ex_env"
  proof
    assume "sha1 ex_env rootBlobID \<in> digests ex_env"
    then have "hexDecode (sha1 ex_env rootBlobID) \<noteq> None" by (auto simp: digests_def)
    moreover have "hexDecode (sha1 ex_env rootBlobID) = None" by code_simp
    ultimately show False by simp
  qed
  have l: "length (sha1 ex_env x) = 64" if "x \<in> ex_ids" for x
    using that by (simp add: ex_env_def)
  have "inj_on (sha1 ex_env) ex_ids"
    using d r by (auto simp: inj_on_def ex_ids_def)
  then show ?thesis using l by (simp add: no_collision_def)
qed

lemma ex_empty_ok: "rm_ok ex_env ex_ids ex_empty" "view ex_empty = Map.empty"
proof -
  show "rm_ok ex_env ex_ids ex_empty"
    using ex_no_collision by (simp add: rm_ok_def blobs_wf_def blobs_inv_def ex_empty_def ex_ids_def)
  show "view ex_empty = Map.empty" by (rule ext) (simp add: view_def ex_empty_def)
qed

lemma put_root:
  assumes "rm_ok e K s"
  shows "rm_ok e K (snd (putBlob e rootBlobID w 0 s))"
    "view (snd (putBlob e rootBlobID w 0 s)) = (view s)(rootBlobID \<mapsto> (next_gen (view s rootBlobID), w))"
proof -
  have wf: "no_collision e K" "blobs_inv e K s" "rootBlobID \<in> K"
    using assms by (auto simp: rm_ok_def blobs_wf_def)
  obtain t where "putBlob e rootBlobID w 0 s = (Inr (next_gen (view s rootBlobID)), t)" "blobs_inv e K t"
    "view t = (view s)(rootBlobID \<mapsto> (next_gen (view s rootBlobID), w))"
    using putBlob_plain [OF wf(1-3), of w] by blast
  then show "rm_ok e K (snd (putBlob e rootBlobID w 0 s))"
    "view (snd (putBlob e rootBlobID w 0 s)) = (view s)(rootBlobID \<mapsto> (next_gen (view s rootBlobID), w))"
    using wf by (simp_all add: rm_ok_def blobs_wf_def)
qed

lemma ex_root_ok: "rm_ok ex_env ex_ids ex_root" "view ex_root = [rootBlobID \<mapsto> (1, [])]"
  using put_root [OF ex_empty_ok(1), of "[]"] ex_empty_ok(2) by (simp_all add: ex_root_def next_gen_def)

lemma ex_ids_stages: "stages ex_env s s' \<Longrightarrow> blob_ids s \<subseteq> ex_ids \<Longrightarrow> blob_ids s' \<subseteq> ex_ids"
  using stages_ids(2) by (fastforce simp: ex_ids_def)

text \<open>A device commits an empty tree while the server is about to commit its first attempt; the second
  attempt goes through.\<close>

definition ex_dev :: "nat \<Rightarrow> activity" where
  "ex_dev = (\<lambda>k m. if k = 0 \<and> m = BeforeCommit then [(rootBlobID, [], 1)] else [])"

definition ex_run :: "(tree_error + unit) \<times> rm_blobs" where
  "ex_run = mutateTree ex_env (run_op ex_env ex_rm_codec (NewFolder ''f1'' ''Notes'' [])) ex_dev ex_root"


text \<open>A temporary name is free as long as no file name ends like it.\<close>

definition no_end :: "char \<Rightarrow> rm_blobs \<Rightarrow> bool" where
  "no_end c s \<longleftrightarrow> (\<forall>p \<in> fst ` set (files s). last p \<noteq> c)"

lemma no_end_plain: "no_end c s \<Longrightarrow> c \<noteq> CHR ''n'' \<Longrightarrow> no_end c (snd (putBlob e h d 0 s))"
  by (simp add: no_end_def putBlob_def Let_def dom_update blob_path_def digestName_def)

lemma no_end_stages: "stages e s s' \<Longrightarrow> no_end c s \<Longrightarrow> c \<noteq> CHR ''n'' \<Longrightarrow> no_end c s'"
  by (induction rule: stages.induct) (simp_all add: no_end_plain)

lemma no_end_fresh: "no_end c s \<Longrightarrow> map_of (files s) (pat @ [c]) = None"
  by (force simp: no_end_def map_of_eq_None_iff)

lemma ex_temp: "no_end (CHR ''2'') s \<Longrightarrow> CreateTemp ex_env pat s \<noteq> None"
  using no_end_fresh [of "CHR ''2''" s pat] by (auto simp: CreateTemp_def ex_env_def find_None_iff)

lemma ex_put_temp: "no_end (CHR ''2'') s \<Longrightarrow> fst (putBlob ex_env i d g s) \<noteq> Inl NoTempName"
  using ex_temp [of s "blob_path ex_env i @ ''.cas-''"]
  by (auto simp: putBlob_def putBlobCAS_def Let_def split: option.split)

lemma ex_put_end:
  assumes "no_end (CHR ''1'') s" "no_end (CHR ''2'') s"
  shows "no_end (CHR ''2'') (snd (putBlob ex_env i d g s))"
proof (cases "g = 0")
  case True
  then show ?thesis using no_end_plain [OF assms(2)] by simp
next
  case False
  obtain p where p: "p = blob_path ex_env i @ ''.cas-1''" by blast
  have t: "CreateTemp ex_env (blob_path ex_env i @ ''.cas-'') s = Some p"
    using no_end_fresh [OF assms(1), of "blob_path ex_env i @ ''.cas-''"] by (simp add: CreateTemp_def ex_env_def p)
  have "files (snd (putBlob ex_env i d g s)) = upsert p d (files s) \<or>
      (\<exists>q. files (snd (putBlob ex_env i d g s)) = AList.delete q (upsert p d (files s)))"
  proof (cases "map_of (remarkable_blobs s) i")
    case (Some r)
    then show ?thesis using False t by (cases "bGen r = g") (auto simp: putBlob_def putBlobCAS_def Let_def)
  qed (use False t in \<open>auto simp: putBlob_def putBlobCAS_def Let_def\<close>)
  then have "fst ` set (files (snd (putBlob ex_env i d g s))) \<subseteq> fst ` set (upsert p d (files s))"
    by (elim disjE exE) (simp_all add: dom_delete_subset)
  then have "fst ` set (files (snd (putBlob ex_env i d g s))) \<subseteq> insert p (fst ` set (files s))"
    by (simp add: dom_update)
  moreover have "last p \<noteq> CHR ''2''" by (simp add: p)
  ultimately show ?thesis using assms(2) unfolding no_end_def by blast
qed

lemma ex_folder:
  "\<exists>t' s' h. run_op ex_env ex_rm_codec (NewFolder ''f1'' ''Notes'' []) \<lparr>tsSchema = docIndexSchema, tsEntries = []\<rparr> s = (Inr t', s') \<and>
    hashOfEntries (sha256 ex_env) (tsEntries t') = Inr h"
  by (simp add: createFolder_def find_entry_def validateParent_def stageBlobBytes_def append_doc_def Let_def blobHashHex_def
      stageDocEntry_def hashOfEntries_def file_entry_def sortedByName_def)

lemma ex_attempt:
  assumes "rm_ok ex_env ex_ids s" "view s rootBlobID = Some (g, [])" "no_end (CHR ''2'') s"
    and d: "d BeforeRead = []" "d BeforeEdit = []" "d BeforeStage = []"
      "d BeforeCommit = [] \<or> d BeforeCommit = [(rootBlobID, [], 1)] \<and> no_end (CHR ''1'') s"
  shows "\<exists>s'. attempt ex_env (run_op ex_env ex_rm_codec (NewFolder ''f1'' ''Notes'' [])) d s = (Some (Inr ()), s') \<and> blob_ids s' \<subseteq> ex_ids \<or>
    attempt ex_env (run_op ex_env ex_rm_codec (NewFolder ''f1'' ''Notes'' [])) d s = (None, s') \<and> d BeforeCommit \<noteq> [] \<and>
      rm_ok ex_env ex_ids s' \<and> no_end (CHR ''2'') s' \<and> (\<exists>g. view s' rootBlobID = Some (g, []))"
proof -
  let ?op = "run_op ex_env ex_rm_codec (NewFolder ''f1'' ''Notes'' [])" and ?t = "\<lparr>tsSchema = docIndexSchema, tsEntries = []\<rparr>"
  let ?dw = "\<lambda>s. device_writes ex_env (d BeforeCommit) s"
  have dw: "device_writes ex_env [] u = u" for u by (simp add: device_writes_def)
  have rt: "read_tree s = Inr (g, ?t)" using assms(2) by (simp add: read_tree_view tree_at_def TrimSpace_def)
  obtain t' s2 h where m: "?op ?t s = (Inr t', s2)" "hashOfEntries (sha256 ex_env) (tsEntries t') = Inr h" using ex_folder by blast
  let ?s4 = "snd (putBlob ex_env h (serializeIndex (tsSchema t') (tsEntries t')) 0 s2)"
  obtain r s' where p: "putBlob ex_env rootBlobID h g (?dw ?s4) = (r, s')" by (cases "putBlob ex_env rootBlobID h g (?dw ?s4)")
  have a: "attempt ex_env ?op d s = (case r of Inr _ \<Rightarrow> (Some (Inr ()), s')
      | Inl x \<Rightarrow> (if x = GenerationMismatch then None else Some (Inl (StoreFailed x)), s'))"
    using rt m p d by (simp add: attempt_def dw commit_tree_def Let_def split: sum.split)
  have "stages ex_env s s2" using run_op_ok m(1) unfolding mutation_ok_def by (metis snd_conv)
  then have st: "stages ex_env s ?s4" using stages_put hashOfEntries_digest m(2) by blast
  have "blob_ids s \<subseteq> ex_ids" by (rule rm_ok_ids [OF assms(1)])
  then have K: "blob_ids ?s4 \<subseteq> ex_ids" by (rule ex_ids_stages [OF st])
  have k: "keeps_root ex_env ex_ids s ?s4" by (rule stages_keeps [OF st assms(1) K])
  have ne: "no_end (CHR ''2'') ?s4" "no_end (CHR ''1'') s \<Longrightarrow> no_end (CHR ''1'') ?s4" using no_end_stages [OF st] assms(3) by auto
  have dn: "no_end (CHR ''2'') (?dw ?s4) \<and> rm_ok ex_env ex_ids (?dw ?s4) \<and> (\<exists>g'. view (?dw ?s4) rootBlobID = Some (g', []) \<and> (d BeforeCommit = [] \<longrightarrow> g' = g))"
  proof (cases "d BeforeCommit = []")
    case True
    then show ?thesis using dw ne k assms(2) by (simp add: keeps_root_def)
  next
    case False
    then have b: "?dw ?s4 = snd (putBlob ex_env rootBlobID [] 1 ?s4)" "no_end (CHR ''1'') s" using d(4) by (auto simp: device_writes_def)
    have wf: "no_collision ex_env ex_ids" "blobs_inv ex_env ex_ids ?s4" "rootBlobID \<in> ex_ids" using k by (auto simp: keeps_root_def rm_ok_def blobs_wf_def)
    obtain x u where x: "putBlob ex_env rootBlobID [] 1 ?s4 = (x, u)" by (cases "putBlob ex_env rootBlobID [] 1 ?s4")
    have "rm_ok ex_env ex_ids u \<and> (\<exists>g'. view u rootBlobID = Some (g', []))"
      using putBlob_spec [OF wf x] wf k assms(2) by (cases x) (auto simp: rm_ok_def blobs_wf_def keeps_root_def)
    then show ?thesis using b x ex_put_end ne False by (metis snd_conv)
  qed
  have wf: "no_collision ex_env ex_ids" "blobs_inv ex_env ex_ids (?dw ?s4)" "rootBlobID \<in> ex_ids"
    using dn by (auto simp: rm_ok_def blobs_wf_def)
  show ?thesis
  proof (cases r)
    case (Inl x)
    then have "x \<noteq> NoTempName" using ex_put_temp [of "?dw ?s4" rootBlobID h g] dn p by auto
    then have "x = GenerationMismatch" "s' = ?dw ?s4" "d BeforeCommit \<noteq> []" using putBlob_spec [OF wf p] Inl dn by auto
    then show ?thesis using a Inl dn by auto
  next
    case (Inr n)
    have "blob_ids s' \<subseteq> insert rootBlobID (blob_ids (?dw ?s4))" using ids_put(2) [of ex_env rootBlobID h g "?dw ?s4"] p by simp
    then have "blob_ids s' \<subseteq> ex_ids" using rm_ok_ids [of ex_env ex_ids "?dw ?s4"] dn by (auto simp: ex_ids_def)
    then show ?thesis using a Inr by simp
  qed
qed

lemma ex_run_ok: "fst ex_run = Inr () \<and> blob_ids (snd ex_run) \<subseteq> ex_ids"
proof -
  let ?op = "run_op ex_env ex_rm_codec (NewFolder ''f1'' ''Notes'' [])"
  have fin: "no_end (CHR ''1'') ex_root" "no_end (CHR ''2'') ex_root"
    unfolding ex_root_def by (rule no_end_plain; simp add: no_end_def ex_empty_def)+
  have v: "view ex_root rootBlobID = Some (1, [])" using ex_root_ok(2) by simp
  have d: "ex_dev k BeforeRead = []" "ex_dev k BeforeEdit = []" "ex_dev k BeforeStage = []"
    "ex_dev 0 BeforeCommit = [(rootBlobID, [], 1)]" "ex_dev (Suc 0) BeforeCommit = []" for k
    by (simp_all add: ex_dev_def)
  obtain s1 where s1: "attempt ex_env ?op (ex_dev 0) ex_root = (Some (Inr ()), s1) \<and> blob_ids s1 \<subseteq> ex_ids \<or>
    attempt ex_env ?op (ex_dev 0) ex_root = (None, s1) \<and> rm_ok ex_env ex_ids s1 \<and> no_end (CHR ''2'') s1 \<and> (\<exists>g. view s1 rootBlobID = Some (g, []))"
    using ex_attempt [OF ex_root_ok(1) v fin(2), of "ex_dev 0"] fin(1) d by auto
  have two: "\<exists>s2. attempt ex_env ?op (ex_dev (Suc 0)) s1 = (Some (Inr ()), s2) \<and> blob_ids s2 \<subseteq> ex_ids" if "rm_ok ex_env ex_ids s1" "no_end (CHR ''2'') s1" "view s1 rootBlobID = Some (g, [])" for g
    using ex_attempt [OF that(1,3,2), of "ex_dev (Suc 0)"] d by auto
  show ?thesis
    using s1 two by (fastforce simp: ex_run_def mutateTree_def maxAttempts_def eval_nat_numeral simp del: run_op.simps)
qed

theorem mutateTree_serializable_witness:
  "fst ex_run = Inr () \<and> (\<exists>k < 5. serial_commit ex_env (run_op ex_env ex_rm_codec (NewFolder ''f1'' ''Notes'' [])) (ex_dev k)
     (before_attempt ex_env (run_op ex_env ex_rm_codec (NewFolder ''f1'' ''Notes'' [])) ex_dev ex_root k) (snd ex_run))"
proof -
  have m: "mutateTree ex_env (run_op ex_env ex_rm_codec (NewFolder ''f1'' ''Notes'' [])) ex_dev ex_root = (fst ex_run, snd ex_run)"
    by (simp add: ex_run_def)
  show ?thesis using mutateTree_serializable [OF ex_root_ok(1) m] ex_run_ok by simp
qed

end
