(* ===== verification/Rm_Listing.thy ===== *)
theory Rm_Listing
  imports Rm_Commit
begin

text \<open>
  What a server edit of the reMarkable tree does to the document listing: staged blobs only add to
  what can be read, the committed index reads back, and the listing after the edit is the listing
  before with exactly the edited document changed. An edit needs that none of the ids it stages is
  already taken by other content, which the composite hashes alone do not guarantee.
\<close>

section \<open>Blobs only grow\<close>

definition grows :: "rm_blobs \<Rightarrow> rm_blobs \<Rightarrow> bool" where
  "grows s s' \<longleftrightarrow> (\<forall>i d. i \<noteq> rootBlobID \<longrightarrow> readBlob i s = Inr d \<longrightarrow> readBlob i s' = Inr d)"

definition fits :: "string \<Rightarrow> string \<Rightarrow> rm_blobs \<Rightarrow> bool" where
  "fits h d s \<longleftrightarrow> (\<forall>x. readBlob h s = Inr x \<longrightarrow> x = d)"

lemma grows_refl [simp]: "grows s s"
  by (simp add: grows_def)

lemma grows_trans: "grows s s' \<Longrightarrow> grows s' s'' \<Longrightarrow> grows s s''"
  by (simp add: grows_def)

lemma grows_read: "grows s s' \<Longrightarrow> i \<noteq> rootBlobID \<Longrightarrow> readBlob i s = Inr d \<Longrightarrow> readBlob i s' = Inr d"
  by (simp add: grows_def)

lemma digest_neq_root: "h \<in> digests e \<Longrightarrow> h \<noteq> rootBlobID"
  using digest_not_root by (auto simp: digests_def)

lemma put_fits:
  assumes "rm_ok e K s" "h \<in> digests e" "h \<in> K" "fits h d s"
  shows "grows s (snd (putBlob e h d 0 s))" "readBlob h (snd (putBlob e h d 0 s)) = Inr d" "rm_ok e K (snd (putBlob e h d 0 s))"
    "view (snd (putBlob e h d 0 s)) rootBlobID = view s rootBlobID"
proof -
  note p = put_digest [OF assms(1-3), of d]
  show "rm_ok e K (snd (putBlob e h d 0 s))" "view (snd (putBlob e h d 0 s)) rootBlobID = view s rootBlobID"
    using p(1) by (simp_all add: keeps_root_def)
  show "readBlob h (snd (putBlob e h d 0 s)) = Inr d" using p(2) by (simp add: readBlob_view)
  show "grows s (snd (putBlob e h d 0 s))"
    unfolding grows_def
  proof (intro allI impI)
    fix i x
    assume "readBlob i s = Inr x"
    then show "readBlob i (snd (putBlob e h d 0 s)) = Inr x"
      using assms(4) p(2) by (cases "i = h") (auto simp: readBlob_view fits_def)
  qed
qed

section \<open>Documents of a synced tree\<close>

definition present :: "string \<Rightarrow> rm_blobs \<Rightarrow> bool" where
  "present i s \<longleftrightarrow> i \<noteq> rootBlobID \<and> \<not> isl (readBlob i s)"

definition doc_synced :: "rm_blobs \<Rightarrow> indexEntry \<Rightarrow> bool" where
  "doc_synced s en \<longleftrightarrow> ieHash en \<noteq> rootBlobID \<and>
     (\<exists>d fs. readBlob (ieHash en) s = Inr d \<and> parseIndex d = Inr fs \<and>
        (last_hash is_metadata fs = [] \<or> present (last_hash is_metadata fs) s) \<and>
        (last_hash is_content fs = [] \<or> present (last_hash is_content fs) s))"

definition doc :: "rm_codec \<Rightarrow> rm_blobs \<Rightarrow> indexEntry \<Rightarrow> Document option" where
  "doc cd s en = (case documentFromSubtree cd en s of Inl _ \<Rightarrow> None | Inr od \<Rightarrow> od)"

definition tree_docs :: "rm_codec \<Rightarrow> rm_blobs \<Rightarrow> indexEntry list \<Rightarrow> Document list" where
  "tree_docs cd s es = List.map_filter (doc cd s) es"

lemma present_read: "present i s \<Longrightarrow> grows s s' \<Longrightarrow> \<exists>d. readBlob i s = Inr d \<and> readBlob i s' = Inr d"
  unfolding present_def grows_def by (metis isl_def sum.collapse(2) sum.exhaust_sel)

lemma present_grows: "present i s \<Longrightarrow> grows s s' \<Longrightarrow> present i s'"
  using present_read unfolding present_def by (metis isl_def sum.disc(2))

lemma with_content_grows:
  "c = [] \<or> present c s \<Longrightarrow> grows s s' \<Longrightarrow> with_content cd c s' D = with_content cd c s D"
  using present_read [of c s s'] by (auto simp: with_content_def)

lemma doc_grows:
  assumes "doc_synced s en" "grows s s'"
  shows "documentFromSubtree cd en s' = documentFromSubtree cd en s" "doc_synced s' en" "\<exists>od. documentFromSubtree cd en s = Inr od"
proof -
  obtain d fs where d: "ieHash en \<noteq> rootBlobID" "readBlob (ieHash en) s = Inr d" "parseIndex d = Inr fs"
    and m: "last_hash is_metadata fs = [] \<or> present (last_hash is_metadata fs) s"
    and c: "last_hash is_content fs = [] \<or> present (last_hash is_content fs) s"
    using assms(1) by (auto simp: doc_synced_def)
  have d': "readBlob (ieHash en) s' = Inr d" using grows_read [OF assms(2) d(1,2)] .
  have mr: "last_hash is_metadata fs = [] \<or> (\<exists>b. readBlob (last_hash is_metadata fs) s = Inr b \<and> readBlob (last_hash is_metadata fs) s' = Inr b)"
    using m present_read [OF _ assms(2)] by blast
  show "documentFromSubtree cd en s' = documentFromSubtree cd en s"
    using d d' mr with_content_grows [OF c assms(2)] by (auto simp: documentFromSubtree_def Let_def split: option.split)
  show "doc_synced s' en"
    using d(1,3) d' m c present_grows [OF _ assms(2)] by (auto simp: doc_synced_def)
  show "\<exists>od. documentFromSubtree cd en s = Inr od"
    using d mr by (auto simp: documentFromSubtree_def Let_def split: option.split)
qed

lemma tree_docs_grows: "list_all (doc_synced s) es \<Longrightarrow> grows s s' \<Longrightarrow> tree_docs cd s' es = tree_docs cd s es"
proof (induction es)
  case (Cons en es)
  then have "doc cd s' en = doc cd s en" using doc_grows(1) [of s en s' cd] by (simp add: doc_def)
  then show ?case using Cons by (simp add: tree_docs_def List.map_filter_simps split: option.split)
qed (simp add: tree_docs_def List.map_filter_simps)

lemma documents_of_synced: "list_all (doc_synced s) es \<Longrightarrow> documents_of cd es s = Inr (tree_docs cd s es)"
proof (induction es)
  case (Cons en es)
  then obtain od where "documentFromSubtree cd en s = Inr od" using doc_grows(3) [of s en s cd] by auto
  then show ?case using Cons by (cases od) (simp_all add: tree_docs_def doc_def List.map_filter_simps)
qed (simp add: tree_docs_def List.map_filter_simps)

lemma doc_id: "doc cd s en = Some D \<Longrightarrow> dcID D = ieName en"
  by (auto simp: doc_def documentFromSubtree_def Let_def with_content_def split: sum.splits option.splits if_splits)

lemma tree_docs_sorted:
  assumes "distinct (map ieName es)" "mset es' = mset es"
  shows "sortDocuments (tree_docs cd s es') = sortDocuments (tree_docs cd s es)"
proof -
  have "mset (tree_docs cd s es') = mset (tree_docs cd s es)"
    using assms(2) by (simp add: tree_docs_def map_filter_def)
  moreover have "inj_on doc_key (set (tree_docs cd s es'))"
  proof (rule inj_onI)
    fix a b
    assume "a \<in> set (tree_docs cd s es')" "b \<in> set (tree_docs cd s es')" and k: "doc_key a = doc_key b"
    then obtain x y where xy: "x \<in> set es" "y \<in> set es" "doc cd s x = Some a" "doc cd s y = Some b"
      using mset_eq_setD [OF assms(2)] by (auto simp: tree_docs_def map_filter_def)
    then have "ieName x = ieName y" using k doc_id by (auto simp: doc_key_def)
    then have "x = y" using xy(1,2) assms(1) by (auto simp: distinct_map dest: inj_onD)
    then show "a = b" using xy(3,4) by simp
  qed
  ultimately show ?thesis unfolding sortDocuments_def by (intro sort_key_inj_key_eq) simp_all
qed

section \<open>The listing after a commit\<close>

definition index_ok :: "treeState \<Rightarrow> bool" where
  "index_ok t \<longleftrightarrow> (tsSchema t = ''3'' \<or> tsSchema t = ''4'' \<and> length (summary_line (sortedByName (tsEntries t))) < maxLine) \<and>
     list_all entry_ok (tsEntries t) \<and> distinct (map ieName (tsEntries t))"

lemma hex_trim:
  assumes "h \<in> digests e" "h \<noteq> []"
  shows "TrimSpace h = h"
proof -
  have "\<not> is_space c" if "c \<in> set h" for c
    using that assms(1) hexDecode_chars [of h] hex_plain(3) by (auto simp: digests_def)
  then show ?thesis using assms(2) by (intro TrimSpace_id) simp_all
qed

lemma listDocumentTree_at:
  assumes "view s rootBlobID = Some (g, w)" "TrimSpace w \<noteq> []" "readBlob (TrimSpace w) s = Inr d" "parseIndex d = Inr es"
    "list_all (doc_synced s) es"
  shows "listDocumentTree cd legacy s = Inr (sortDocuments (tree_docs cd s es))"
proof -
  obtain r where "getBlob rootBlobID s = Inr r" "osReadFile (bPath r) s = Inr w" using assms(1) by (auto simp: view_read)
  then show ?thesis using assms(2-) by (simp add: listDocumentTree_def documents_of_synced)
qed

text \<open>A commit with no device in the way.\<close>

lemma commit_quiet:
  assumes "rm_ok e K s" "commit_tree e g t [] s = (res, s')" "g \<noteq> 0"
    and h: "hashOfEntries (sha256 e) (tsEntries t) = Inr h" "h \<in> K"
  shows "case res of
      Inr _ \<Rightarrow> \<exists>w. view s rootBlobID = Some (g, w) \<and>
        view s' = (view s)(h \<mapsto> (next_gen (view s h), serializeIndex (tsSchema t) (tsEntries t)), rootBlobID \<mapsto> (g + 1, h))
    | Inl x \<Rightarrow> x = StoreFailed GenerationMismatch \<longrightarrow> (\<nexists>w. view s rootBlobID = Some (g, w))"
proof -
  let ?s1 = "snd (putBlob e h (serializeIndex (tsSchema t) (tsEntries t)) 0 s)"
  have dw: "device_writes e [] ?s1 = ?s1" by (simp add: device_writes_def)
  have "s' = snd (putBlob e rootBlobID h g ?s1)"
    using assms(2) h(1) by (auto simp: commit_tree_def dw Let_def split: prod.splits sum.splits)
  then have "blob_ids s' \<subseteq> K"
    using ids_put(2) [of e rootBlobID h g ?s1] rm_ok_ids [OF assms(1)] h(2) assms(1) by (auto simp: ids_put_plain rm_ok_def)
  note cs = commit_tree_spec [OF assms(1-3) this]
  have k: "keeps_root e K s ?s1" "view ?s1 = (view s)(h \<mapsto> (next_gen (view s h), serializeIndex (tsSchema t) (tsEntries t)))"
    using put_digest [OF assms(1) hashOfEntries_digest [OF h(1)] h(2)] by auto
  show ?thesis
  proof (cases res)
    case (Inl x)
    then have "root_gen s' \<noteq> g \<and> root_le s s'" if "x = StoreFailed GenerationMismatch" using cs that by simp
    moreover have "view s' rootBlobID = view s rootBlobID" if "x = StoreFailed GenerationMismatch"
    proof -
      have wf: "no_collision e K" "blobs_inv e K ?s1" "rootBlobID \<in> K" using k(1) by (auto simp: keeps_root_def rm_ok_def blobs_wf_def)
      have "putBlob e rootBlobID h g ?s1 = (Inl GenerationMismatch, s')"
        using assms(2) h(1) Inl that by (auto simp: commit_tree_def dw Let_def split: prod.splits sum.splits)
      from putBlob_spec [OF wf this] show ?thesis using k(1) by (simp add: keeps_root_def)
    qed
    ultimately show ?thesis using Inl by (auto simp: root_gen_def)
  next
    case (Inr n)
    then show ?thesis using cs h(1) k by (auto simp: Let_def dw keeps_root_def)
  qed
qed

lemma commit_listing:
  assumes "rm_ok e K s" "commit_tree e g t [] s = (Inr (), s')" "g \<noteq> 0" "index_ok t" "list_all (doc_synced s) (tsEntries t)"
    and h: "hashOfEntries (sha256 e) (tsEntries t) = Inr h" "h \<noteq> []" "h \<in> K" "fits h (serializeIndex (tsSchema t) (tsEntries t)) s"
  shows "listDocumentTree cd legacy s' = Inr (sortDocuments (tree_docs cd s (tsEntries t)))"
proof -
  let ?top = "serializeIndex (tsSchema t) (tsEntries t)" and ?es = "sortedByName (tsEntries t)"
  have dg: "h \<in> digests e" using hashOfEntries_digest [OF h(1)] .
  obtain w where w: "view s rootBlobID = Some (g, w)"
    and v: "view s' = (view s)(h \<mapsto> (next_gen (view s h), ?top), rootBlobID \<mapsto> (g + 1, h))"
    using commit_quiet [OF assms(1-3) h(1,3)] by auto
  have read: "readBlob h s' = Inr ?top" using v digest_neq_root [OF dg] by (simp add: readBlob_view)
  have gr: "grows s s'"
    using h(4) v by (auto simp: grows_def readBlob_view fits_def)
  have parse: "parseIndex ?top = Inr ?es"
    using index_roundtrip_eq [of "tsSchema t" "tsEntries t"] assms(4) by (simp add: parseIndex_def index_ok_def)
  have syn: "list_all (doc_synced s) ?es" using assms(5) by (simp add: list_all_iff sortedByName_def)
  then have "list_all (doc_synced s') ?es" using doc_grows(2) [OF _ gr] by (simp add: list_all_iff)
  then have "listDocumentTree cd legacy s' = Inr (sortDocuments (tree_docs cd s' ?es))"
    using listDocumentTree_at [of s' "g + 1" h] v read parse hex_trim [OF dg h(2)] h(2) by simp
  also have "tree_docs cd s' ?es = tree_docs cd s ?es" using tree_docs_grows [OF syn gr] .
  also have "sortDocuments (tree_docs cd s ?es) = sortDocuments (tree_docs cd s (tsEntries t))"
    using assms(4) by (intro tree_docs_sorted) (simp_all add: index_ok_def sortedByName_def)
  finally show ?thesis .
qed

text \<open>Without devices in the way, the first attempt commits, unless no temporary name is free.\<close>

lemma mutateTree_quiet:
  assumes "rm_ok e K s" "read_tree s = Inr (g, t)" "mutate t s = (Inr t', s2)" "rm_ok e K s2"
    "view s2 rootBlobID = view s rootBlobID" "hashOfEntries (sha256 e) (tsEntries t') = Inr h"
    and "mutateTree e mutate quiet s = (res, s')" and "h \<in> K"
  shows "res = Inl (StoreFailed NoTempName) \<or> res = Inr () \<and> commit_tree e g t' [] s2 = (Inr (), s')"
proof -
  obtain w where w: "view s2 rootBlobID = Some (g, w)" using assms(2,5) read_tree_view by metis
  obtain r s3 where c: "commit_tree e g t' [] s2 = (r, s3)" by (cases "commit_tree e g t' [] s2")
  have "g \<noteq> 0" using view_gen_pos [OF assms(4) w] by simp
  note cs = commit_quiet [OF assms(4) c this assms(6,8)]
  have at: "attempt e mutate (quiet 0) s = (case r of Inr _ \<Rightarrow> (Some (Inr ()), s3)
      | Inl x \<Rightarrow> (if x = StoreFailed GenerationMismatch then None else Some (Inl x), s3))"
    using assms(2,3) c by (simp add: attempt_def Let_def quiet_def device_writes_def split: sum.split)
  have a: "mutateTree e mutate quiet s = (case attempt e mutate (quiet 0) s of (Some r, s') \<Rightarrow> (r, s')
      | (None, s') \<Rightarrow> attempts 4 e mutate (\<lambda>i. quiet (Suc i)) s')"
  proof -
    have m: "maxAttempts = Suc 4" by (simp add: maxAttempts_def)
    show ?thesis by (simp only: mutateTree_def m attempts.simps)
  qed
  show ?thesis
  proof (cases r)
    case (Inr u)
    then show ?thesis using at a c assms(7) by auto
  next
    case (Inl x)
    then have x: "x \<noteq> StoreFailed GenerationMismatch" using cs w by auto
    have "x = StoreFailed NoTempName"
    proof -
      obtain y where "x = StoreFailed y" "\<exists>s. fst (putBlob e rootBlobID h g s) = Inl y"
        using c Inl assms(6) by (auto simp: commit_tree_def Let_def split: prod.splits sum.splits) (metis fst_conv)
      moreover have "y = NoTempName \<or> y = GenerationMismatch" if "fst (putBlob e rootBlobID h g s) = Inl y" for s y
        using that by (auto simp: putBlob_def putBlobCAS_def Let_def split: if_splits option.splits)
      ultimately show ?thesis using x by blast
    qed
    then show ?thesis using at a Inl x assms(7) by auto
  qed
qed

section \<open>The document an edit stages\<close>

lemma last_hash_filter:
  "last_hash P fs = (if filter (P \<circ> ieName) fs = [] then [] else ieHash (last (filter (P \<circ> ieName) fs)))"
  by (induction fs rule: rev_induct) (auto simp: last_hash_def comp_def)

lemma last_hash_sorted:
  assumes "length (filter (P \<circ> ieName) fs) \<le> 1"
  shows "last_hash P (sortedByName fs) = last_hash P fs"
proof -
  have "sort_key ieName (filter (P \<circ> ieName) fs) = filter (P \<circ> ieName) fs"
    using assms by (cases "filter (P \<circ> ieName) fs") (auto simp: Suc_le_eq)
  then show ?thesis by (simp add: last_hash_filter sortedByName_def filter_sort comp_def)
qed

text \<open>The files of an ordinary document: one metadata file, at most one content file, all of them synced.\<close>

definition plain_files :: "indexEntry list \<Rightarrow> indexEntry \<Rightarrow> rm_blobs \<Rightarrow> bool" where
  "plain_files fs f s \<longleftrightarrow> filter (is_metadata \<circ> ieName) fs = [f] \<and> length (filter (is_content \<circ> ieName) fs) \<le> 1 \<and>
     list_all entry_ok fs \<and> ieHash f \<noteq> [] \<and> present (ieHash f) s \<and>
     (last_hash is_content fs = [] \<or> present (last_hash is_content fs) s)"

definition listed :: "rm_codec \<Rightarrow> rm_blobs \<Rightarrow> string \<Rightarrow> rmMetadata \<Rightarrow> string \<Rightarrow> Document option" where
  "listed cd s docID md ch =
     (if mdDeleted md \<or> mdParent md = trashParent then None
      else Some (with_content cd ch s \<lparr>dcID = docID, dcName = mdVisibleName md, dcType = mapEntryType (mdType md),
        dcParent = mdParent md, dcPageCount = 0, dcFileType = []\<rparr>))"

lemma stageDocEntry_doc:
  assumes "rm_ok e K s" "hashOfEntries (sha256 e) fs = Inr h" "fits h (serializeIndex docIndexSchema fs) s"
    and "plain_files fs f s" "readBlob (ieHash f) s = Inr b" "decodeMetadata cd b = Some md" "h \<in> K"
  shows "\<exists>en s'. stageDocEntry e docID fs s = (Inr en, s') \<and> rm_ok e K s' \<and> grows s s' \<and>
    view s' rootBlobID = view s rootBlobID \<and> ieName en = docID \<and> ieHash en = h \<and>
    en = \<lparr>ieHash = h, ieType = entryTypeDoc, ieName = docID, ieSubfiles = int (length fs), ieSize = sumEntrySizes fs\<rparr> \<and>
    doc_synced s' en \<and> doc cd s' en = listed cd s docID md (last_hash is_content fs)"
proof -
  let ?sub = "serializeIndex docIndexSchema fs"
  let ?s' = "snd (putBlob e h ?sub 0 s)"
  let ?en = "\<lparr>ieHash = h, ieType = entryTypeDoc, ieName = docID, ieSubfiles = int (length fs), ieSize = sumEntrySizes fs\<rparr>"
  have dg: "h \<in> digests e" using hashOfEntries_digest [OF assms(2)] .
  note p = put_fits [OF assms(1) dg assms(7) assms(3)]
  have fs: "filter (is_metadata \<circ> ieName) fs = [f]" "length (filter (is_content \<circ> ieName) fs) \<le> 1" "list_all entry_ok fs"
    and pf: "ieHash f \<noteq> []" "present (ieHash f) s" "last_hash is_content fs = [] \<or> present (last_hash is_content fs) s"
    using assms(4) by (auto simp: plain_files_def)
  have parse: "parseIndex ?sub = Inr (sortedByName fs)"
    using index_roundtrip_eq [of docIndexSchema fs] fs(3) by (simp add: parseIndex_def docIndexSchema_def)
  have mh: "last_hash is_metadata (sortedByName fs) = ieHash f"
    using last_hash_sorted [of is_metadata fs] fs(1) last_hash_filter [of is_metadata fs] by simp
  have ch: "last_hash is_content (sortedByName fs) = last_hash is_content fs"
    using last_hash_sorted [OF fs(2)] .
  have rm: "readBlob (ieHash f) ?s' = Inr b" using grows_read [OF p(1) _ assms(5)] pf(2) by (simp add: present_def)
  have syn: "doc_synced ?s' ?en"
    using p(2) parse mh ch pf present_grows [OF _ p(1)] digest_neq_root [OF dg] by (auto simp: doc_synced_def)
  have "documentFromSubtree cd ?en ?s' = Inr (listed cd s docID md (last_hash is_content fs))"
    using p(2) parse mh ch pf(1) rm assms(6) with_content_grows [OF pf(3) p(1)]
    by (simp add: documentFromSubtree_def listed_def)
  moreover have "stageDocEntry e docID fs s = (Inr ?en, ?s')" using assms(2) by (simp add: stageDocEntry_def)
  ultimately show ?thesis using p syn by (simp add: doc_def)
qed

section \<open>New folders\<close>

lemma hash_single: "hashOfEntries (sha256 e) [f] = (case hexDecode (ieHash f) of None \<Rightarrow> Inl BadHash | Some raw \<Rightarrow> Inr (hexEncode (sha256 e raw)))"
  by (simp add: hashOfEntries_def sortedByName_def split: option.split)

text \<open>What a new folder needs of the tree: a fresh id, a well-formed index with all documents synced, and
  staged ids that are not taken by other content.\<close>

definition folder_file :: "rm_env \<Rightarrow> rm_codec \<Rightarrow> string \<Rightarrow> string \<Rightarrow> string \<Rightarrow> indexEntry" where
  "folder_file e cd docID name parent =
     (let d = MarshalNew cd (new_metadata e name ''CollectionType'' parent)
      in file_entry (metadataName docID) (blobHashHex (sha256 e) d) (int (length d)))"

definition folder_entry :: "rm_env \<Rightarrow> rm_codec \<Rightarrow> string \<Rightarrow> string \<Rightarrow> string \<Rightarrow> indexEntry" where
  "folder_entry e cd docID name parent =
     (let f = folder_file e cd docID name parent; d = MarshalNew cd (new_metadata e name ''CollectionType'' parent)
      in \<lparr>ieHash = hexEncode (sha256 e (sha256 e d)), ieType = entryTypeDoc, ieName = docID, ieSubfiles = 1, ieSize = sumEntrySizes [f]\<rparr>)"

definition folder_blobs :: "rm_env \<Rightarrow> rm_codec \<Rightarrow> string \<Rightarrow> string \<Rightarrow> string \<Rightarrow> treeState \<Rightarrow> (string \<times> string) list" where
  "folder_blobs e cd docID name parent t =
     (let d = MarshalNew cd (new_metadata e name ''CollectionType'' parent); es = tsEntries t @ [folder_entry e cd docID name parent]
      in [(blobHashHex (sha256 e) d, d),
          (hexEncode (sha256 e (sha256 e d)), serializeIndex docIndexSchema [folder_file e cd docID name parent]),
          (case hashOfEntries (sha256 e) es of Inr h \<Rightarrow> h | Inl _ \<Rightarrow> [], serializeIndex (tsSchema t) es)])"

definition unclaimed :: "(string \<times> string) list \<Rightarrow> rm_blobs \<Rightarrow> bool" where
  "unclaimed ws s \<longleftrightarrow> (\<forall>(h, d) \<in> set ws. h \<noteq> [] \<and> (\<forall>x. readBlob h s = Inr x \<longrightarrow> x = d)) \<and> distinct (map fst ws)"

lemma unclaimed_put:
  assumes "unclaimed ((h, d) # ws) s" "rm_ok e K s" "h \<in> digests e" "h \<in> K"
  shows "fits h d s" "unclaimed ws (snd (putBlob e h d 0 s))"
proof -
  show "fits h d s" using assms(1) by (auto simp: unclaimed_def fits_def)
  have other: "readBlob i (snd (putBlob e h d 0 s)) = Inr x \<longleftrightarrow> readBlob i s = Inr x" if "i \<noteq> h" for i x
    using that put_digest(2) [OF assms(2,3,4), of d] by (simp add: readBlob_view)
  have "i \<noteq> [] \<and> (\<forall>x. readBlob i (snd (putBlob e h d 0 s)) = Inr x \<longrightarrow> x = y)" if iy: "(i, y) \<in> set ws" for i y
  proof -
    have "i \<in> fst ` set ws" using iy by (rule image_eqI [rotated]) simp
    then have "i \<noteq> h" using assms(1) by (auto simp: unclaimed_def)
    moreover have "i \<noteq> []" "\<forall>x. readBlob i s = Inr x \<longrightarrow> x = y" using assms(1) iy by (auto simp: unclaimed_def)
    ultimately show ?thesis using other by simp
  qed
  moreover have "distinct (map fst ws)" using assms(1) by (simp add: unclaimed_def)
  ultimately show "unclaimed ws (snd (putBlob e h d 0 s))" unfolding unclaimed_def by blast
qed

lemma hash_total: "list_all entry_ok es \<Longrightarrow> \<exists>h. hashOfEntries (sha256 e) es = Inr h"
proof -
  have "list_all entry_ok xs \<Longrightarrow> \<exists>raw. decode_hashes xs = Inr raw" for xs
    by (induction xs) (auto simp: entry_ok_def)
  moreover assume "list_all entry_ok es"
  then have "list_all entry_ok (sortedByName es)" by (simp add: list_all_iff sortedByName_def)
  ultimately show ?thesis by (fastforce simp: hashOfEntries_def)
qed

lemma find_entry_None: "find_entry docID t = None \<longleftrightarrow> docID \<notin> ieName ` set (tsEntries t)"
  by (auto simp: find_entry_def find_None_iff)

text \<open>
  Creating a folder: when nothing else commits meanwhile, the operation succeeds (unless no
  temporary name is free), and the listing afterwards is the listing before plus exactly the new
  folder under its name and parent, in the order of the listing.
\<close>

theorem createFolder_listing:
  assumes "rm_ok e K s" and "read_tree s = Inr (g, t)" and "index_ok t" and "list_all (doc_synced s) (tsEntries t)"
    and "docID \<notin> ieName ` set (tsEntries t)" and "validateParent cd t parent s = Inr ()"
    and "decodeMetadata cd (MarshalNew cd (new_metadata e name ''CollectionType'' parent)) =
      Some \<lparr>mdVisibleName = name, mdType = ''CollectionType'', mdParent = parent, mdDeleted = False\<rparr>"
    and "index_ok (t\<lparr>tsEntries := tsEntries t @ [folder_entry e cd docID name parent]\<rparr>)"
    and "entry_ok (folder_file e cd docID name parent)" and "unclaimed (folder_blobs e cd docID name parent t) s"
    and "mutateTree e (createFolder e cd docID name parent) quiet s = (res, s')"
    and "fst ` set (folder_blobs e cd docID name parent t) \<subseteq> K"
  shows "res = Inl (StoreFailed NoTempName) \<or>
    res = Inr () \<and> listDocumentTree cd legacy s' = Inr (sortDocuments
      (\<lparr>dcID = docID, dcName = name, dcType = ''folder'', dcParent = parent, dcPageCount = 0, dcFileType = []\<rparr> # tree_docs cd s (tsEntries t)))"
proof -
  let ?d = "MarshalNew cd (new_metadata e name ''CollectionType'' parent)" and ?f = "folder_file e cd docID name parent"
  let ?h1 = "blobHashHex (sha256 e) ?d" and ?h2 = "hexEncode (sha256 e (sha256 e ?d))"
  let ?en = "folder_entry e cd docID name parent" and ?es = "tsEntries t @ [folder_entry e cd docID name parent]"
  let ?s1 = "snd (putBlob e ?h1 ?d 0 s)"
  let ?md = "\<lparr>mdVisibleName = name, mdType = ''CollectionType'', mdParent = parent, mdDeleted = False\<rparr>"
  obtain h3 where h3: "hashOfEntries (sha256 e) ?es = Inr h3" using hash_total [of ?es e] assms(8) by (auto simp: index_ok_def)
  have u: "unclaimed [(?h1, ?d), (?h2, serializeIndex docIndexSchema [?f]), (h3, serializeIndex (tsSchema t) ?es)] s"
    using assms(10) h3 by (simp add: folder_blobs_def Let_def)
  have hK: "?h1 \<in> K" "?h2 \<in> K" "h3 \<in> K" using assms(12) h3 by (simp_all add: folder_blobs_def Let_def)
  note p1 = put_fits [OF assms(1) blobHashHex_digest hK(1) unclaimed_put(1) [OF u assms(1) blobHashHex_digest hK(1)]]
  note u1 = unclaimed_put(2) [OF u assms(1) blobHashHex_digest hK(1)]
  have f: "ieHash ?f = ?h1" "ieName ?f = metadataName docID" by (simp_all add: folder_file_def file_entry_def Let_def)
  have hs: "hashOfEntries (sha256 e) [?f] = Inr ?h2" by (simp add: hash_single f blobHashHex_def)
  have h1: "?h1 \<noteq> []" "?h1 \<noteq> rootBlobID" using u digest_neq_root [OF blobHashHex_digest] by (auto simp: unclaimed_def)
  have m: "is_metadata (metadataName docID)" by (simp add: is_metadata_def metadataName_def HasSuffix_def)
  then have nc: "\<not> is_content (metadataName docID)" by (simp add: is_content_def is_metadata_def)
  have pf: "plain_files [?f] ?f ?s1"
    using m nc f h1 p1(2) assms(9) by (auto simp: plain_files_def present_def last_hash_def)
  have rd: "readBlob (ieHash ?f) ?s1 = Inr ?d" using p1(2) by (simp add: f)
  have fit2: "fits ?h2 (serializeIndex docIndexSchema [?f]) ?s1"
    using unclaimed_put(1) [OF u1 p1(3) hashOfEntries_digest [OF hs] hK(2)] .
  obtain en s2 where st: "stageDocEntry e docID [?f] ?s1 = (Inr en, s2)" and ok2: "rm_ok e K s2" "grows ?s1 s2"
      "view s2 rootBlobID = view ?s1 rootBlobID" and en: "en = ?en"
    and syn: "doc_synced s2 en" and dc: "doc cd s2 en = listed cd ?s1 docID ?md (last_hash is_content [?f])"
    using stageDocEntry_doc [OF p1(3) hs fit2 pf rd assms(7) hK(2), of docID] by (auto simp: folder_entry_def Let_def)
  have s2: "s2 = snd (putBlob e ?h2 (serializeIndex docIndexSchema [?f]) 0 ?s1)" using st hs by (simp add: stageDocEntry_def)
  have fit3: "fits h3 (serializeIndex (tsSchema t) ?es) s2"
    using unclaimed_put(2) [OF u1 p1(3) hashOfEntries_digest [OF hs] hK(2)] unfolding s2 by (auto simp: unclaimed_def fits_def)
  have f_eq: "file_entry (metadataName docID) ?h1 (int (length ?d)) = ?f" by (simp add: folder_file_def Let_def)
  have step: "createFolder e cd docID name parent t s = (Inr (t\<lparr>tsEntries := ?es\<rparr>), s2)"
    using assms(5,6) st by (simp add: createFolder_def find_entry_None stageBlobBytes_def Let_def f_eq append_doc_def en)
  have gr: "grows s s2" using grows_trans [OF p1(1) ok2(2)] .
  have "res = Inl (StoreFailed NoTempName) \<or> res = Inr () \<and> commit_tree e g (t\<lparr>tsEntries := ?es\<rparr>) [] s2 = (Inr (), s')"
    using mutateTree_quiet [OF assms(1,2) step ok2(1) _ _ assms(11) hK(3)] ok2(3) p1(4) h3 by simp
  moreover have "listDocumentTree cd legacy s' = Inr (sortDocuments (tree_docs cd s2 ?es))"
    if c: "commit_tree e g (t\<lparr>tsEntries := ?es\<rparr>) [] s2 = (Inr (), s')"
  proof -
    have "g \<noteq> 0" using assms(2) read_tree_view view_gen_pos [OF assms(1)] by fastforce
    moreover have "list_all (doc_synced s2) ?es"
      using assms(4) syn doc_grows(2) [OF _ gr] by (auto simp: list_all_iff en)
    moreover have "h3 \<noteq> []" using u by (simp add: unclaimed_def)
    ultimately show ?thesis
      using commit_listing [OF ok2(1) c _ assms(8)] h3 hK(3) fit3 by simp
  qed
  moreover have "sortDocuments (tree_docs cd s2 ?es) = sortDocuments
      (\<lparr>dcID = docID, dcName = name, dcType = ''folder'', dcParent = parent, dcPageCount = 0, dcFileType = []\<rparr> # tree_docs cd s (tsEntries t))"
  proof -
    have "parent \<noteq> trashParent" using assms(6) by (auto simp: validateParent_def trashParent_def)
    then have "doc cd s2 ?en = Some \<lparr>dcID = docID, dcName = name, dcType = ''folder'', dcParent = parent, dcPageCount = 0, dcFileType = []\<rparr>"
      using dc nc f by (simp add: en listed_def last_hash_def with_content_def mapEntryType_def)
    then have "tree_docs cd s2 (?en # tsEntries t) =
        \<lparr>dcID = docID, dcName = name, dcType = ''folder'', dcParent = parent, dcPageCount = 0, dcFileType = []\<rparr> # tree_docs cd s (tsEntries t)"
      using tree_docs_grows [OF assms(4) gr] by (simp add: tree_docs_def List.map_filter_simps)
    moreover have "sortDocuments (tree_docs cd s2 (?en # tsEntries t)) = sortDocuments (tree_docs cd s2 ?es)"
      using assms(8) by (intro tree_docs_sorted) (simp_all add: index_ok_def)
    ultimately show ?thesis by simp
  qed
  ultimately show ?thesis by auto
qed

section \<open>Edits of a document\<close>

fun op_doc :: "tree_op \<Rightarrow> string" where
  "op_doc (Rename docID _) = docID"
| "op_doc (Move docID _) = docID"
| "op_doc (Trash docID) = docID"
| "op_doc _ = []"

fun op_patch :: "tree_op \<Rightarrow> json_value table \<Rightarrow> json_value table" where
  "op_patch (Rename _ name) = upsert ''visibleName'' (JString name)"
| "op_patch (Move _ parent) = upsert ''parent'' (JString parent)"
| "op_patch (Trash _) = upsert ''parent'' (JString trashParent)"
| "op_patch _ = (\<lambda>m. m)"

text \<open>When an edit is let through: a move to a live folder outside the moved subtree, the trashing of
  anything but a folder with live children.\<close>

fun op_allowed :: "rm_codec \<Rightarrow> tree_op \<Rightarrow> treeState \<Rightarrow> rm_blobs \<Rightarrow> bool" where
  "op_allowed cd (Rename docID name) t s = True"
| "op_allowed cd (Move docID parent) t s = (validateParent cd t parent s = Inr () \<and> checkNoCycle cd t docID parent s = Inr ())"
| "op_allowed cd (Trash docID) t s =
     (case nodeMetaInTree cd t docID s of
        Inl _ \<Rightarrow> False
      | Inr m \<Rightarrow> \<not> (metaString m ''type'' = ''CollectionType'' \<and> has_child cd t docID s))"
| "op_allowed cd _ t s = False"

lemma run_op_allowed:
  "op_allowed cd op t s \<Longrightarrow> run_op e cd op t s = rewriteMetadataInTree e cd (op_doc op) (op_patch op) t s"
  by (cases op) (auto simp: renameNode_def moveNode_def trashNode_def split: sum.splits)

lemma replace_first_split: "\<forall>x \<in> set as. \<not> P x \<Longrightarrow> P z \<Longrightarrow> replace_first P y (as @ z # bs) = as @ y # bs"
  by (simp add: replace_first_def takeWhile_append2 dropWhile_append2)

lemma find_split: "\<forall>x \<in> set as. \<not> P x \<Longrightarrow> P z \<Longrightarrow> List.find P (as @ z # bs) = Some z"
  by (induction as) auto

text \<open>The document an edit works on, and what it writes.\<close>

definition edit_source ::
  "rm_codec \<Rightarrow> string \<Rightarrow> treeState \<Rightarrow> rm_blobs \<Rightarrow> indexEntry \<Rightarrow> indexEntry list \<Rightarrow> indexEntry \<Rightarrow> json_value table \<Rightarrow> bool" where
  "edit_source cd docID t s en fs f m \<longleftrightarrow> en \<in> set (tsEntries t) \<and> ieName en = docID \<and>
     (\<exists>d schema b. readBlob (ieHash en) s = Inr d \<and> parseIndexWithSchema d = Inr (schema, fs) \<and>
        readBlob (ieHash f) s = Inr b \<and> Unmarshal cd b = Obj m) \<and>
     plain_files fs f s \<and> ieName f = metadataName docID"

definition edit_file :: "rm_env \<Rightarrow> string \<Rightarrow> indexEntry \<Rightarrow> indexEntry" where
  "edit_file e d f = f\<lparr>ieHash := blobHashHex (sha256 e) d, ieSize := int (length d)\<rparr>"

definition edit_files :: "rm_env \<Rightarrow> string \<Rightarrow> indexEntry \<Rightarrow> indexEntry list \<Rightarrow> indexEntry list" where
  "edit_files e d f fs = replace_first (\<lambda>x. ieName x = ieName f) (edit_file e d f) fs"

definition edit_tree :: "rm_env \<Rightarrow> string \<Rightarrow> string \<Rightarrow> indexEntry list \<Rightarrow> treeState \<Rightarrow> treeState" where
  "edit_tree e docID h2 fs' t =
     t\<lparr>tsEntries := replace_first (\<lambda>x. ieName x = docID)
        \<lparr>ieHash = h2, ieType = entryTypeDoc, ieName = docID, ieSubfiles = int (length fs'), ieSize = sumEntrySizes fs'\<rparr> (tsEntries t)\<rparr>"

lemma rewrite_edit:
  assumes "rm_ok e K s" "edit_source cd docID t s en fs f m" "distinct (map ieName (tsEntries t))"
    and d: "d = Marshal cd (stamp_metadata e (patch m))" and fs': "fs' = edit_files e d f fs"
    and "decodeMetadata cd d = Some md" "entry_ok (edit_file e d f)"
    and "hashOfEntries (sha256 e) fs' = Inr h2"
    and u: "unclaimed ((blobHashHex (sha256 e) d, d) # (h2, serializeIndex docIndexSchema fs') # ws) s"
    and hK: "blobHashHex (sha256 e) d \<in> K" "h2 \<in> K"
  shows "\<exists>s2. rewriteMetadataInTree e cd docID patch t s = (Inr (edit_tree e docID h2 fs' t), s2) \<and> rm_ok e K s2 \<and> grows s s2 \<and>
    view s2 rootBlobID = view s rootBlobID \<and> unclaimed ws s2 \<and>
    (\<exists>en' as bs. tsEntries t = as @ en # bs \<and> tsEntries (edit_tree e docID h2 fs' t) = as @ en' # bs \<and> ieName en' = docID \<and>
       doc_synced s2 en' \<and> doc cd s2 en' = listed cd s docID md (last_hash is_content fs))"
proof -
  let ?h1 = "blobHashHex (sha256 e) d" and ?f' = "edit_file e d f"
  let ?s1 = "snd (putBlob e ?h1 d 0 s)"
  obtain x schema b where src: "en \<in> set (tsEntries t)" "ieName en = docID" "readBlob (ieHash en) s = Inr x"
      "parseIndexWithSchema x = Inr (schema, fs)" "readBlob (ieHash f) s = Inr b" "Unmarshal cd b = Obj m"
    and pf: "plain_files fs f s" "ieName f = metadataName docID"
    using assms(2) by (auto simp: edit_source_def)
  obtain as bs where es: "tsEntries t = as @ en # bs" using src(1) by (auto dest: split_list)
  have as: "\<forall>y \<in> set as. ieName y \<noteq> docID" using assms(3) es src(2) by (auto simp: image_iff)
  have fm: "filter (is_metadata \<circ> ieName) fs = [f]" using pf(1) by (simp add: plain_files_def)
  obtain fa fb where sp: "fs = fa @ f # fb" "\<forall>y \<in> set fa. \<not> is_metadata (ieName y)" "\<forall>y \<in> set fb. \<not> is_metadata (ieName y)"
  proof -
    obtain us vs where uv: "fs = us @ f # vs" "\<forall>u \<in> set us. \<not> (is_metadata \<circ> ieName) u" "[] = filter (is_metadata \<circ> ieName) vs"
      using fm unfolding filter_eq_Cons_iff by blast
    have "filter (is_metadata \<circ> ieName) vs = []" using uv(3) by (rule sym)
    then have "\<forall>y \<in> set vs. \<not> is_metadata (ieName y)" by (simp add: filter_empty_conv)
    then show thesis using that uv(1,2) by simp
  qed
  have m: "is_metadata (metadataName docID)" by (simp add: is_metadata_def metadataName_def HasSuffix_def)
  then have nc: "\<not> is_content (metadataName docID)" by (simp add: is_content_def is_metadata_def)
  have fa: "\<forall>y \<in> set fa. ieName y \<noteq> metadataName docID" using sp(2) m by auto
  have fs'_eq: "fs' = fa @ ?f' # fb" using fs' sp(1) fa pf(2) by (simp add: edit_files_def replace_first_split)
  have f'n: "ieName ?f' = metadataName docID" "ieHash ?f' = ?h1" using pf(2) by (simp_all add: edit_file_def)
  note p1 = put_fits [OF assms(1) blobHashHex_digest hK(1) unclaimed_put(1) [OF u assms(1) blobHashHex_digest hK(1)]]
  note u1 = unclaimed_put(2) [OF u assms(1) blobHashHex_digest hK(1)]
  note dg2 = hashOfEntries_digest [OF assms(8)]
  have h1: "?h1 \<noteq> []" "?h1 \<noteq> rootBlobID" using u digest_neq_root [OF blobHashHex_digest] by (auto simp: unclaimed_def)
  have lc: "last_hash is_content fs' = last_hash is_content fs"
    using nc pf(2) f'n(1) by (simp add: last_hash_filter fs'_eq sp(1) comp_def)
  have "plain_files fs' ?f' ?s1"
    using pf(1) sp m nc f'n h1 p1(2) lc assms(7) present_grows [OF _ p1(1)] pf(2)
    by (auto simp: plain_files_def fs'_eq present_def filter_empty_conv comp_def)
  moreover have "readBlob (ieHash ?f') ?s1 = Inr d" using p1(2) by (simp add: f'n)
  moreover have "fits h2 (serializeIndex docIndexSchema fs') ?s1" using unclaimed_put(1) [OF u1 p1(3) dg2 hK(2)] .
  ultimately obtain en' s2 where st: "stageDocEntry e docID fs' ?s1 = (Inr en', s2)"
    and ok2: "rm_ok e K s2" "grows ?s1 s2" "view s2 rootBlobID = view ?s1 rootBlobID" "ieName en' = docID"
    and en': "en' = \<lparr>ieHash = h2, ieType = entryTypeDoc, ieName = docID, ieSubfiles = int (length fs'), ieSize = sumEntrySizes fs'\<rparr>"
    and dc: "doc_synced s2 en'" "doc cd s2 en' = listed cd ?s1 docID md (last_hash is_content fs')"
    using stageDocEntry_doc [OF p1(3) assms(8) _ _ _ assms(6) hK(2), of ?f' docID] by blast
  have s2: "s2 = snd (putBlob e h2 (serializeIndex docIndexSchema fs') 0 ?s1)" using st assms(8) by (simp add: stageDocEntry_def)
  have "unclaimed ws s2" unfolding s2 using unclaimed_put(2) [OF u1 p1(3) dg2 hK(2)] .
  moreover have "rewriteMetadataInTree e cd docID patch t s = (Inr (edit_tree e docID h2 fs' t), s2)"
    using src sp(1) fa as pf(2) st
    by (simp add: rewriteMetadataInTree_def find_entry_def es find_split stageBlobBytes_def Let_def d [symmetric]
        replace_first_split fs'_eq edit_file_def edit_tree_def en')
  moreover have "tsEntries (edit_tree e docID h2 fs' t) = as @ en' # bs"
    using as src(2) by (simp add: edit_tree_def es en' replace_first_split)
  moreover have "listed cd ?s1 docID md (last_hash is_content fs') = listed cd s docID md (last_hash is_content fs)"
    using with_content_grows [OF _ p1(1)] pf(1) lc by (auto simp: listed_def plain_files_def)
  ultimately show ?thesis using ok2 dc p1(4) es grows_trans [OF p1(1) ok2(2)] by auto
qed

lemma tree_docs_others:
  assumes "\<forall>x \<in> set xs. ieName x \<noteq> docID"
  shows "filter (\<lambda>d. dcID d \<noteq> docID) (tree_docs cd s xs) = tree_docs cd s xs"
  using assms doc_id by (induction xs) (auto simp: tree_docs_def List.map_filter_simps split: option.split)

lemma tree_docs_append: "tree_docs cd s (xs @ ys) = tree_docs cd s xs @ tree_docs cd s ys"
  by (simp add: tree_docs_def map_filter_def)

text \<open>
  C16. Renaming, moving and trashing: when the edit is allowed and nothing else commits meanwhile, it
  succeeds (unless no temporary name is free), and the listing afterwards is the listing before with
  exactly the edited document replaced by what its new metadata says, its content fields as
  before, or gone when it went to the trash; no other document changes. The tree is well formed and
  wholly synced, the edited document has one metadata file, and the three ids the edit stages
  are not taken by other content. \<open>K\<close> is any set with the store's ids and these three on which SHA-1
  does not collide.
\<close>

theorem edit_listing:
  assumes "rm_ok e K s" and "read_tree s = Inr (g, t)" and "index_ok t" and "list_all (doc_synced s) (tsEntries t)"
    and "op_allowed cd op t s" and "edit_source cd (op_doc op) t s en fs f m"
    and d: "d = Marshal cd (stamp_metadata e (op_patch op m))" and fs': "fs' = edit_files e d f fs"
    and "decodeMetadata cd d = Some md" and "entry_ok (edit_file e d f)" and "hashOfEntries (sha256 e) fs' = Inr h2"
    and t': "t' = edit_tree e (op_doc op) h2 fs' t" and "index_ok t'" and "hashOfEntries (sha256 e) (tsEntries t') = Inr h3"
    and u: "unclaimed [(blobHashHex (sha256 e) d, d), (h2, serializeIndex docIndexSchema fs'), (h3, serializeIndex (tsSchema t') (tsEntries t'))] s"
    and "mutateTree e (run_op e cd op) quiet s = (res, s')"
    and K: "{blobHashHex (sha256 e) d, h2, h3} \<subseteq> K"
  shows "res = Inl (StoreFailed NoTempName) \<or>
    res = Inr () \<and> listDocumentTree cd legacy s' = Inr (sortDocuments
      ((case listed cd s (op_doc op) md (last_hash is_content fs) of None \<Rightarrow> [] | Some D \<Rightarrow> [D]) @
        filter (\<lambda>D. dcID D \<noteq> op_doc op) (tree_docs cd s (tsEntries t))))"
proof -
  let ?D = "listed cd s (op_doc op) md (last_hash is_content fs)"
  have dist: "distinct (map ieName (tsEntries t))" using assms(3) by (simp add: index_ok_def)
  obtain s2 en' as bs where rw: "rewriteMetadataInTree e cd (op_doc op) (op_patch op) t s = (Inr t', s2)"
    and s2: "rm_ok e K s2" "grows s s2" "view s2 rootBlobID = view s rootBlobID"
      "unclaimed [(h3, serializeIndex (tsSchema t') (tsEntries t'))] s2"
    and es: "tsEntries t = as @ en # bs" "tsEntries t' = as @ en' # bs" "ieName en' = op_doc op"
    and dc: "doc_synced s2 en'" "doc cd s2 en' = ?D"
    using rewrite_edit [where patch = "op_patch op", OF assms(1,6) dist d fs' assms(9,10,11) u] K unfolding t' by blast
  have step: "run_op e cd op t s = (Inr t', s2)" using rw run_op_allowed [OF assms(5)] by simp
  have "res = Inl (StoreFailed NoTempName) \<or> res = Inr () \<and> commit_tree e g t' [] s2 = (Inr (), s')"
    using mutateTree_quiet [OF assms(1,2) step s2(1,3) assms(14,16)] K by simp
  moreover have "listDocumentTree cd legacy s' = Inr (sortDocuments (tree_docs cd s2 (tsEntries t')))"
    if c: "commit_tree e g t' [] s2 = (Inr (), s')"
  proof -
    have "g \<noteq> 0" using assms(2) read_tree_view view_gen_pos [OF assms(1)] by fastforce
    moreover have "list_all (doc_synced s2) (tsEntries t')"
      using assms(4) dc(1) doc_grows(2) [OF _ s2(2)] es by (auto simp: list_all_iff)
    moreover have "h3 \<noteq> []" "fits h3 (serializeIndex (tsSchema t') (tsEntries t')) s2" using s2(4) by (auto simp: unclaimed_def fits_def)
    ultimately show ?thesis using commit_listing [OF s2(1) c _ assms(13)] assms(14) K by simp
  qed
  moreover have "sortDocuments (tree_docs cd s2 (tsEntries t')) =
      sortDocuments ((case ?D of None \<Rightarrow> [] | Some D \<Rightarrow> [D]) @ filter (\<lambda>D. dcID D \<noteq> op_doc op) (tree_docs cd s (tsEntries t)))"
  proof -
    have "ieName en = op_doc op" using assms(6) by (simp add: edit_source_def)
    then have others: "\<forall>x \<in> set (as @ bs). ieName x \<noteq> op_doc op" using dist es(1) by (auto simp: image_iff)
    have en: "filter (\<lambda>D. dcID D \<noteq> op_doc op) (tree_docs cd s [en]) = []"
      using doc_id \<open>ieName en = op_doc op\<close> by (auto simp: tree_docs_def List.map_filter_simps split: option.split)
    have "tree_docs cd s2 (as @ bs) = tree_docs cd s (as @ bs)"
      using assms(4) es(1) s2(2) by (intro tree_docs_grows) simp_all
    moreover have "filter (\<lambda>D. dcID D \<noteq> op_doc op) (tree_docs cd s (tsEntries t)) = tree_docs cd s (as @ bs)"
      using tree_docs_others [OF others, of cd s] en tree_docs_append [of cd s as "[en] @ bs"] tree_docs_append [of cd s "[en]" bs]
      by (simp add: es(1) tree_docs_append)
    ultimately have "tree_docs cd s2 (en' # as @ bs) =
        (case ?D of None \<Rightarrow> [] | Some D \<Rightarrow> [D]) @ filter (\<lambda>D. dcID D \<noteq> op_doc op) (tree_docs cd s (tsEntries t))"
      using dc(2) by (simp add: tree_docs_def List.map_filter_simps split: option.split)
    moreover have "sortDocuments (tree_docs cd s2 (tsEntries t')) = sortDocuments (tree_docs cd s2 (en' # as @ bs))"
      unfolding es(2) using assms(13) es(2) by (intro tree_docs_sorted) (auto simp: index_ok_def)
    ultimately show ?thesis by simp
  qed
  ultimately show ?thesis by auto
qed

section \<open>Examples of listings\<close>

lemma ex_rm_codec_simps:
  "decodeMetadata ex_rm_codec b = Some \<lparr>mdVisibleName = b, mdType = ''CollectionType'', mdParent = [], mdDeleted = False\<rparr>"
  "Unmarshal ex_rm_codec b = Obj [(''visibleName'', JString b), (''type'', JString ''CollectionType'')]"
  "Marshal ex_rm_codec m = metaString m ''visibleName''"
  by (simp_all add: ex_rm_codec_def)

lemma ex_digest_id: "h \<in> digests ex_env \<Longrightarrow> h \<in> ex_ids"
  by (simp add: ex_ids_def)

lemma ex_new_metadata: "MarshalNew ex_rm_codec (new_metadata ex_env name ty parent) = name"
  by (simp add: ex_rm_codec_def new_metadata_def)

lemma ex_sha256_length [simp]: "length (sha256 ex_env x) = 32"
  by (simp add: ex_env_def)

lemma ex_numbers: "FormatInt 0 = ''0''" "FormatInt 1 = ''1''" "FormatInt 3 = ''3''" "FormatInt 5 = ''5''"
  by code_simp+

lemma unclaimed_fresh:
  assumes "distinct (map fst ws)" "set (map fst ws) \<subseteq> digests ex_env" "\<And>h x. h \<in> digests ex_env \<Longrightarrow> h \<in> set (map fst ws) \<Longrightarrow> readBlob h s \<noteq> Inr x"
  shows "unclaimed ws s"
proof -
  have "h \<noteq> [] \<and> (\<forall>x. readBlob h s \<noteq> Inr x)" if "(h, d) \<in> set ws" for h d
  proof -
    have "h \<in> set (map fst ws)" using that by force
    then show ?thesis using assms(2,3) ex_digest [of h] by auto
  qed
  then show ?thesis using assms(1) unfolding unclaimed_def by blast
qed

theorem createFolder_listing_witness:
  "fst (mutateTree ex_env (createFolder ex_env ex_rm_codec ''f1'' ''Notes'' []) quiet ex_root) = Inl (StoreFailed NoTempName) \<or>
   listDocumentTree ex_rm_codec [] (snd (mutateTree ex_env (createFolder ex_env ex_rm_codec ''f1'' ''Notes'' []) quiet ex_root)) =
     Inr [\<lparr>dcID = ''f1'', dcName = ''Notes'', dcType = ''folder'', dcParent = [], dcPageCount = 0, dcFileType = []\<rparr>]"
proof -
  let ?t = "\<lparr>tsSchema = docIndexSchema, tsEntries = []\<rparr>" and ?f = "folder_file ex_env ex_rm_codec ''f1'' ''Notes'' []"
  let ?en = "folder_entry ex_env ex_rm_codec ''f1'' ''Notes'' []"
  obtain res s' where m: "mutateTree ex_env (createFolder ex_env ex_rm_codec ''f1'' ''Notes'' []) quiet ex_root = (res, s')"
    by (cases "mutateTree ex_env (createFolder ex_env ex_rm_codec ''f1'' ''Notes'' []) quiet ex_root")
  have rt: "read_tree ex_root = Inr (1, ?t)"
    by (simp add: read_tree_view ex_root_ok(2) tree_at_def TrimSpace_def)
  have nr: "readBlob h ex_root \<noteq> Inr x" if "h \<noteq> rootBlobID" for h x
    using that by (simp add: readBlob_view ex_root_ok(2))
  have ids: "map fst (folder_blobs ex_env ex_rm_codec ''f1'' ''Notes'' [] ?t) = map (\<lambda>h. hexEncode (sha256 ex_env h))
      [''Notes'', sha256 ex_env ''Notes'', sha256 ex_env (sha256 ex_env ''Notes'')]"
    by (simp add: folder_blobs_def Let_def hash_single folder_entry_def ex_new_metadata blobHashHex_def)
  have "distinct (map fst (folder_blobs ex_env ex_rm_codec ''f1'' ''Notes'' [] ?t))"
    unfolding ids by (simp add: hexEncode_inj ex_env_def)
  then have u: "unclaimed (folder_blobs ex_env ex_rm_codec ''f1'' ''Notes'' [] ?t) ex_root"
    by (rule unclaimed_fresh) (use nr digest_neq_root in \<open>simp_all add: ids digests_def\<close>)
  have ok: "entry_ok ?f" "entry_ok ?en"
    by (simp_all add: entry_ok_def entry_line_def folder_file_def folder_entry_def file_entry_def Let_def ex_new_metadata blobHashHex_def
        entryTypeFile_def entryTypeDoc_def metadataName_def maxLine_def int64_def sumEntrySizes_def wrap64_def ex_numbers)
  have "index_ok ?t" "index_ok (?t\<lparr>tsEntries := tsEntries ?t @ [?en]\<rparr>)"
    using ok(2) by (simp_all add: index_ok_def docIndexSchema_def)
  moreover have "fst ` set (folder_blobs ex_env ex_rm_codec ''f1'' ''Notes'' [] ?t) \<subseteq> ex_ids"
    unfolding set_map [symmetric] ids by (auto simp: ex_ids_def digests_def)
  ultimately have "res = Inl (StoreFailed NoTempName) \<or> res = Inr () \<and> listDocumentTree ex_rm_codec [] s' = Inr (sortDocuments
      (\<lparr>dcID = ''f1'', dcName = ''Notes'', dcType = ''folder'', dcParent = [], dcPageCount = 0, dcFileType = []\<rparr> # tree_docs ex_rm_codec ex_root (tsEntries ?t)))"
    by (intro createFolder_listing [OF ex_root_ok(1) rt _ _ _ _ _ _ ok(1) u m])
      (simp_all add: validateParent_def ex_new_metadata ex_rm_codec_simps)
  then show ?thesis
    by (auto simp: m tree_docs_def List.map_filter_simps sortDocuments_def)
qed

text \<open>A store with one folder, built from its four blobs.\<close>

definition ex_file :: "string \<Rightarrow> indexEntry" where
  "ex_file name = folder_file ex_env ex_rm_codec ''f1'' name []"

definition ex_folder :: "string \<Rightarrow> indexEntry" where
  "ex_folder name = folder_entry ex_env ex_rm_codec ''f1'' name []"

definition ex_h :: "nat \<Rightarrow> string \<Rightarrow> string" where
  "ex_h n name = hexEncode ((sha256 ex_env ^^ n) name)"

definition ex_tree_store :: rm_blobs where
  "ex_tree_store = (let put = (\<lambda>h d s. snd (putBlob ex_env h d 0 s)) in
     put rootBlobID (ex_h 3 ''Notes'') (put (ex_h 3 ''Notes'') (serializeIndex ''3'' [ex_folder ''Notes''])
       (put (ex_h 2 ''Notes'') (serializeIndex ''3'' [ex_file ''Notes'']) (put (ex_h 1 ''Notes'') ''Notes'' ex_empty))))"

lemma ex_h_digest: "0 < n \<Longrightarrow> ex_h n name \<in> digests ex_env"
  by (cases n) (auto simp: ex_h_def digests_def)

lemma ex_h_neq:
  "distinct [ex_h 1 ''Notes'', ex_h 2 ''Notes'', ex_h 3 ''Notes'', ex_h 1 ''New'', ex_h 2 ''New'', ex_h 3 ''New'']"
  by (simp add: ex_h_def hexEncode_inj ex_env_def numeral_eq_Suc)

lemma ex_tree_store_ok:
  "rm_ok ex_env ex_ids ex_tree_store"
  "view ex_tree_store = [ex_h 1 ''Notes'' \<mapsto> (1, ''Notes''), ex_h 2 ''Notes'' \<mapsto> (1, serializeIndex ''3'' [ex_file ''Notes'']),
     ex_h 3 ''Notes'' \<mapsto> (1, serializeIndex ''3'' [ex_folder ''Notes'']), rootBlobID \<mapsto> (1, ex_h 3 ''Notes'')]"
proof -
  let ?put = "\<lambda>h d s. snd (putBlob ex_env h d 0 s)"
  have d: "ex_h 1 ''Notes'' \<in> digests ex_env" "ex_h 2 ''Notes'' \<in> digests ex_env" "ex_h 3 ''Notes'' \<in> digests ex_env"
    by (simp_all add: ex_h_digest)
  have step: "rm_ok ex_env ex_ids (?put h x s) \<and> view (?put h x s) = (view s)(h \<mapsto> (1, x))"
    if "rm_ok ex_env ex_ids s" "h \<in> digests ex_env" "view s h = None" for h x s
    using put_digest [OF that(1,2) ex_digest_id [OF that(2)], of x] that(3) by (simp add: keeps_root_def next_gen_def)
  define s1 where "s1 = ?put (ex_h 1 ''Notes'') ''Notes'' ex_empty"
  define s2 where "s2 = ?put (ex_h 2 ''Notes'') (serializeIndex ''3'' [ex_file ''Notes'']) s1"
  define s3 where "s3 = ?put (ex_h 3 ''Notes'') (serializeIndex ''3'' [ex_folder ''Notes'']) s2"
  have 1: "rm_ok ex_env ex_ids s1" "view s1 = [ex_h 1 ''Notes'' \<mapsto> (1, ''Notes'')]"
    using step [OF ex_empty_ok(1) d(1), of "''Notes''"] ex_empty_ok(2) by (simp_all add: s1_def)
  have 2: "rm_ok ex_env ex_ids s2" "view s2 = (view s1)(ex_h 2 ''Notes'' \<mapsto> (1, serializeIndex ''3'' [ex_file ''Notes'']))"
    using step [OF 1(1) d(2)] 1(2) ex_h_neq by (auto simp: s2_def)
  have 3: "rm_ok ex_env ex_ids s3" "view s3 = (view s2)(ex_h 3 ''Notes'' \<mapsto> (1, serializeIndex ''3'' [ex_folder ''Notes'']))"
    using step [OF 2(1) d(3)] 1(2) 2(2) ex_h_neq by (auto simp: s3_def)
  have "view s3 rootBlobID = None"
    using 1(2) 2(2) 3(2) d digest_neq_root by (metis fun_upd_apply)
  then show "rm_ok ex_env ex_ids ex_tree_store"
    "view ex_tree_store = [ex_h 1 ''Notes'' \<mapsto> (1, ''Notes''), ex_h 2 ''Notes'' \<mapsto> (1, serializeIndex ''3'' [ex_file ''Notes'']),
     ex_h 3 ''Notes'' \<mapsto> (1, serializeIndex ''3'' [ex_folder ''Notes'']), rootBlobID \<mapsto> (1, ex_h 3 ''Notes'')]"
    using put_root [OF 3(1), of "ex_h 3 ''Notes''"] 1(2) 2(2) 3(2)
    by (simp_all add: ex_tree_store_def Let_def next_gen_def s1_def s2_def s3_def)
qed

lemma ex_entries:
  "ieHash (ex_file name) = ex_h 1 name" "ieName (ex_file name) = metadataName ''f1''"
  "ieHash (ex_folder name) = ex_h 2 name" "ieName (ex_folder name) = ''f1''"
  "hashOfEntries (sha256 ex_env) [ex_file name] = Inr (ex_h 2 name)"
  "hashOfEntries (sha256 ex_env) [ex_folder name] = Inr (ex_h 3 name)"
  "is_metadata (metadataName ''f1'')" "\<not> is_content (metadataName ''f1'')"
proof -
  show "ieHash (ex_file name) = ex_h 1 name" "ieName (ex_file name) = metadataName ''f1''"
    "ieHash (ex_folder name) = ex_h 2 name" "ieName (ex_folder name) = ''f1''"
    by (simp_all add: ex_file_def ex_folder_def folder_file_def folder_entry_def file_entry_def Let_def ex_new_metadata blobHashHex_def ex_h_def numeral_eq_Suc)
  then show "hashOfEntries (sha256 ex_env) [ex_file name] = Inr (ex_h 2 name)"
    "hashOfEntries (sha256 ex_env) [ex_folder name] = Inr (ex_h 3 name)"
    by (simp_all add: hash_single ex_h_def numeral_eq_Suc)
  show "is_metadata (metadataName ''f1'')" by code_simp
  show "\<not> is_content (metadataName ''f1'')" by code_simp
qed

lemma ex_entry_ok: "length name = 3 \<or> length name = 5 \<Longrightarrow> entry_ok (ex_file name)" "length name = 3 \<or> length name = 5 \<Longrightarrow> entry_ok (ex_folder name)"
  by (auto simp: ex_file_def ex_folder_def entry_ok_def entry_line_def folder_file_def folder_entry_def file_entry_def Let_def ex_new_metadata blobHashHex_def
      entryTypeFile_def entryTypeDoc_def metadataName_def maxLine_def int64_def sumEntrySizes_def wrap64_def ex_numbers)

lemma ex_tree_parse:
  assumes "entry_ok x"
  shows "parseIndexWithSchema (serializeIndex ''3'' [x]) = Inr (''3'', [x])"
  using index_roundtrip_eq [of "''3''" "[x]"] assms by (simp add: sortedByName_def)

lemma ex_read:
  "readBlob (ex_h 1 ''Notes'') ex_tree_store = Inr ''Notes''"
  "readBlob (ex_h 2 ''Notes'') ex_tree_store = Inr (serializeIndex ''3'' [ex_file ''Notes''])"
  "readBlob (ex_h 3 ''Notes'') ex_tree_store = Inr (serializeIndex ''3'' [ex_folder ''Notes''])"
  "view ex_tree_store rootBlobID = Some (1, ex_h 3 ''Notes'')"
  "readBlob (ex_h 1 ''New'') ex_tree_store \<noteq> Inr x" "readBlob (ex_h 2 ''New'') ex_tree_store \<noteq> Inr x" "readBlob (ex_h 3 ''New'') ex_tree_store \<noteq> Inr x"
  using ex_h_neq digest_neq_root [OF ex_h_digest] by (auto simp: readBlob_view ex_tree_store_ok(2))

theorem edit_listing_witness:
  "fst (mutateTree ex_env (run_op ex_env ex_rm_codec (Rename ''f1'' ''New'')) quiet ex_tree_store) = Inl (StoreFailed NoTempName) \<or>
   listDocumentTree ex_rm_codec [] (snd (mutateTree ex_env (run_op ex_env ex_rm_codec (Rename ''f1'' ''New'')) quiet ex_tree_store)) =
     Inr [\<lparr>dcID = ''f1'', dcName = ''New'', dcType = ''folder'', dcParent = [], dcPageCount = 0, dcFileType = []\<rparr>]"
proof -
  let ?op = "Rename ''f1'' ''New''" and ?t = "\<lparr>tsSchema = ''3'', tsEntries = [ex_folder ''Notes'']\<rparr>"
  let ?m = "[(''visibleName'', JString ''Notes''), (''type'', JString ''CollectionType'')]" and ?f = "ex_file ''Notes''"
  let ?md = "\<lparr>mdVisibleName = ''New'', mdType = ''CollectionType'', mdParent = [], mdDeleted = False\<rparr>"
  obtain res s' where mt: "mutateTree ex_env (run_op ex_env ex_rm_codec ?op) quiet ex_tree_store = (res, s')"
    by (cases "mutateTree ex_env (run_op ex_env ex_rm_codec ?op) quiet ex_tree_store")
  have nn: "ex_h n name \<noteq> []" "ex_h n name \<noteq> rootBlobID" if "0 < n" for n name
    using ex_h_digest [OF that, of name] ex_digest digest_neq_root by fastforce+
  have eo: "entry_ok (ex_file ''Notes'')" "entry_ok (ex_folder ''Notes'')" "entry_ok (ex_file ''New'')" "entry_ok (ex_folder ''New'')"
    by (simp_all add: ex_entry_ok)
  have "TrimSpace (ex_h 3 ''Notes'') = ex_h 3 ''Notes''"
    by (rule hex_trim [where e = ex_env]) (simp_all add: ex_h_digest nn)
  then have rt: "read_tree ex_tree_store = Inr (1, ?t)"
    using nn(1) [of 3]
    by (simp add: read_tree_view ex_read(3,4) tree_at_def ex_tree_parse eo)
  have lm: "last_hash is_metadata [ex_file n] = ex_h 1 n" "last_hash is_content [ex_file n] = []" for n
    by (simp_all add: last_hash_def ex_entries)
  have pr: "present (ex_h 1 ''Notes'') ex_tree_store" using nn(2) [of 1] ex_read(1) by (simp add: present_def)
  have syn: "list_all (doc_synced ex_tree_store) (tsEntries ?t)"
    using nn(2) [of 2] pr by (simp add: doc_synced_def ex_entries ex_read(2) parseIndex_def ex_tree_parse eo lm)
  have src: "edit_source ex_rm_codec (op_doc ?op) ?t ex_tree_store (ex_folder ''Notes'') [?f] ?f ?m"
    using nn(1) [of 1] pr by (simp add: edit_source_def ex_entries ex_read(1,2) ex_tree_parse eo ex_rm_codec_simps plain_files_def lm del: One_nat_def)
  have d: "''New'' = Marshal ex_rm_codec (stamp_metadata ex_env (op_patch ?op ?m))"
    by (simp add: ex_rm_codec_simps metaString_def stamp_metadata_def Let_def)
  have ef: "edit_file ex_env ''New'' ?f = ex_file ''New''"
    by (simp add: edit_file_def ex_file_def folder_file_def file_entry_def Let_def ex_new_metadata)
  then have fs: "[ex_file ''New''] = edit_files ex_env ''New'' ?f [?f]"
    by (simp add: edit_files_def replace_first_def)
  have t': "\<lparr>tsSchema = ''3'', tsEntries = [ex_folder ''New'']\<rparr> = edit_tree ex_env (op_doc ?op) (ex_h 2 ''New'') [ex_file ''New''] ?t"
    by (simp add: edit_tree_def replace_first_def ex_entries)
       (simp add: ex_folder_def folder_entry_def Let_def ex_new_metadata ex_file_def ex_h_def numeral_eq_Suc)
  have u: "unclaimed [(blobHashHex (sha256 ex_env) ''New'', ''New''), (ex_h 2 ''New'', serializeIndex docIndexSchema [ex_file ''New'']),
      (ex_h 3 ''New'', serializeIndex (tsSchema \<lparr>tsSchema = ''3'', tsEntries = [ex_folder ''New'']\<rparr>) (tsEntries \<lparr>tsSchema = ''3'', tsEntries = [ex_folder ''New'']\<rparr>))] ex_tree_store"
    using nn(1) [of 1] nn(1) [of 2] nn(1) [of 3] ex_h_neq ex_read(5-7) by (simp add: unclaimed_def blobHashHex_def ex_h_def)
  have ix: "index_ok ?t" "index_ok \<lparr>tsSchema = ''3'', tsEntries = [ex_folder ''New'']\<rparr>" using eo by (simp_all add: index_ok_def)
  have "res = Inl (StoreFailed NoTempName) \<or> res = Inr () \<and> listDocumentTree ex_rm_codec [] s' = Inr (sortDocuments
      ((case listed ex_rm_codec ex_tree_store (op_doc ?op) ?md (last_hash is_content [?f]) of None \<Rightarrow> [] | Some D \<Rightarrow> [D]) @
        filter (\<lambda>D. dcID D \<noteq> op_doc ?op) (tree_docs ex_rm_codec ex_tree_store (tsEntries ?t))))"
    by (rule edit_listing [OF ex_tree_store_ok(1) rt ix(1) syn _ src d fs _ _ _ t' ix(2) _ u mt])
      (simp_all add: ex_rm_codec_simps ef eo ex_entries ex_digest_id ex_h_digest blobHashHex_digest)
  moreover have "filter (\<lambda>D. dcID D \<noteq> ''f1'') (tree_docs ex_rm_codec ex_tree_store [ex_folder ''Notes'']) = []"
    using doc_id ex_entries(4) by (auto simp: tree_docs_def List.map_filter_simps split: option.split)
  ultimately show ?thesis
    unfolding mt fst_conv snd_conv by (auto simp: listed_def lm with_content_def mapEntryType_def trashParent_def sortDocuments_def)
qed

section \<open>Depth of the cycle check\<close>

text \<open>The ancestors a move looks at.\<close>

fun ancestors :: "nat \<Rightarrow> rm_codec \<Rightarrow> treeState \<Rightarrow> rm_blobs \<Rightarrow> string \<Rightarrow> string list" where
  "ancestors 0 cd t s cur = []"
| "ancestors (Suc n) cd t s cur =
     (if cur = [] \<or> cur = trashParent then []
      else cur # (case nodeMetaInTree cd t cur s of Inl _ \<Rightarrow> [] | Inr m \<Rightarrow> ancestors n cd t s (metaString m ''parent'')))"

text \<open>A move is refused exactly when the moved node is among the first hundred ancestors of its target:
  deeper down, a folder can be moved below itself.\<close>

lemma checkNoCycle_depth:
  assumes "docID \<noteq> []" "docID \<noteq> trashParent"
  shows "checkNoCycle cd t docID newParent s = Inl OwnSubtree \<longleftrightarrow> docID \<in> set (ancestors 100 cd t s newParent)"
    and "checkNoCycle cd t docID newParent s = Inr () \<longleftrightarrow> docID \<notin> set (ancestors 100 cd t s newParent)"
proof -
  have "cycle_walk n cd t docID cur s = (if docID \<in> set (ancestors n cd t s cur) then Inl OwnSubtree else Inr ())" for n cur
    using assms by (induction n arbitrary: cur) (auto split: sum.split)
  then show "checkNoCycle cd t docID newParent s = Inl OwnSubtree \<longleftrightarrow> docID \<in> set (ancestors 100 cd t s newParent)"
    "checkNoCycle cd t docID newParent s = Inr () \<longleftrightarrow> docID \<notin> set (ancestors 100 cd t s newParent)"
    by (simp_all add: checkNoCycle_def maxDepth_def)
qed

section \<open>Twin folders\<close>

text \<open>The id of a document's index does not depend on the document: a second folder with the same name
  and parent, created in the same millisecond, overwrites the index of the first, whose metadata can
  then no longer be found.\<close>

lemma twin_folder_lost:
  assumes "rm_ok e K s" "a \<noteq> b" "entry_ok (folder_file e cd b name parent)"
    and "find_entry a t = Some (folder_entry e cd a name parent)"
    and "stageDocEntry e b [folder_file e cd b name parent] s = (Inr en, s')" "blob_ids s' \<subseteq> K"
  shows "ieHash en = ieHash (folder_entry e cd a name parent) \<and> nodeMetaInTree cd' t a s' = Inl ErrNotFound"
proof -
  let ?f = "folder_file e cd b name parent" and ?d = "MarshalNew cd (new_metadata e name ''CollectionType'' parent)"
  let ?h = "hexEncode (sha256 e (sha256 e ?d))"
  have hs: "hashOfEntries (sha256 e) [?f] = Inr ?h"
    by (simp add: hash_single folder_file_def file_entry_def Let_def blobHashHex_def)
  then have en: "ieHash en = ?h" and s': "s' = snd (putBlob e ?h (serializeIndex docIndexSchema [?f]) 0 s)"
    using assms(5) by (auto simp: stageDocEntry_def)
  have hK: "?h \<in> K" using assms(6) by (simp add: s' ids_put_plain)
  have rd: "readBlob ?h s' = Inr (serializeIndex docIndexSchema [?f])"
    unfolding s' using put_digest(2) [OF assms(1) hashOfEntries_digest [OF hs] hK] by (simp add: readBlob_view)
  have "parseIndexWithSchema (serializeIndex docIndexSchema [?f]) = Inr (docIndexSchema, [?f])"
    using index_roundtrip_eq [of docIndexSchema "[?f]"] assms(3) by (simp add: sortedByName_def docIndexSchema_def)
  moreover have "ieName ?f \<noteq> metadataName a"
    using assms(2) by (simp add: folder_file_def file_entry_def Let_def metadataName_def)
  moreover have "ieHash (folder_entry e cd a name parent) = ?h" by (simp add: folder_entry_def Let_def)
  ultimately show ?thesis using rd en assms(4) by (simp add: nodeMetaInTree_def)
qed

end
