(* ===== verification/Rm_Auth.thy ===== *)
theory Rm_Auth
  imports Decimal
begin

text \<open>
  Pairing and bearer tokens of the reMarkable cloud emulation
  (\<open>internal/source/remarkable/store.go\<close>, \<open>protocol.go\<close>, \<open>token.go\<close>): the device, token and
  signed-URL tables, the pairing handshake, the minting of user tokens and the resolution of the
  bearer every user request goes through. The JWT library (parsing without verification, signing)
  and random tokens are parameters; the clock is read at millisecond resolution.
\<close>

section \<open>Tables\<close>

record rm_device =
  rdDesc :: string
  rdLabel :: string
  rdCreatedAt :: millis
  rdLastSeen :: millis

record rm_token =
  rtKind :: string
  rtDeviceID :: string
  rtDeviceDesc :: string
  rtScopes :: string
  rtExpiresAt :: millis
  rtCreatedAt :: millis

record presignedTarget =
  psKind :: string
  psScope :: string
  psDocumentID :: string
  psBlobID :: string

record rm_auth =
  remarkable_devices :: "rm_device table"
  remarkable_tokens :: "rm_token table"
  remarkable_presigned :: "(presignedTarget \<times> millis) table"

datatype rm_auth_error = TokenNotFound | TokenTaken

record tokenClaims =
  tcUserID :: string
  tcDeviceID :: string
  tcDeviceDesc :: string
  tcScopes :: string

record userTokenClaims =
  jwDeviceDesc :: string
  jwDeviceID :: string
  jwScopes :: string
  jwExpiresAt :: "millis option"
  jwNotBefore :: "millis option"
  jwID :: string

definition deviceTokenTTL :: millis where
  "deviceTokenTTL = 10 * 365 * 24 * 3600000"

definition userTokenTTL :: millis where
  "userTokenTTL = 12 * 3600000"

definition urlTokenTTL :: millis where
  "urlTokenTTL = 30 * 60000"

definition baseUserScopes :: string where
  "baseUserScopes = ''intgr screenshare docedit hws hwcmail:-1 hwc mail:-1 sync:tortoise''"

section \<open>Devices\<close>

definition touchDevice :: "millis \<Rightarrow> string \<Rightarrow> string \<Rightarrow> rm_auth \<Rightarrow> rm_auth" where
  "touchDevice now deviceID deviceDesc s =
     s\<lparr>remarkable_devices := upsert deviceID
         (case map_of (remarkable_devices s) deviceID of
            Some d \<Rightarrow> d\<lparr>rdDesc := deviceDesc, rdLastSeen := now\<rparr>
          | None \<Rightarrow> \<lparr>rdDesc = deviceDesc, rdLabel = [], rdCreatedAt = now, rdLastSeen = now\<rparr>)
         (remarkable_devices s)\<rparr>"

definition listDevices :: "rm_auth \<Rightarrow> (string \<times> rm_device) list" where
  "listDevices s = sort_key (\<lambda>(i, d). (- rdLastSeen d, i)) (remarkable_devices s)"

definition setDeviceLabel :: "string \<Rightarrow> string \<Rightarrow> rm_auth \<Rightarrow> bool \<times> rm_auth" where
  "setDeviceLabel deviceID label s =
     (case map_of (remarkable_devices s) deviceID of
        None \<Rightarrow> (False, s)
      | Some d \<Rightarrow> (True, s\<lparr>remarkable_devices := upsert deviceID (d\<lparr>rdLabel := label\<rparr>) (remarkable_devices s)\<rparr>))"

section \<open>Tokens\<close>

definition issueToken ::
  "string \<Rightarrow> millis \<Rightarrow> string \<Rightarrow> string \<Rightarrow> string \<Rightarrow> string \<Rightarrow> millis \<Rightarrow> rm_auth \<Rightarrow> rm_auth_error + (string \<times> rm_auth)" where
  "issueToken rnd now kind deviceID deviceDesc scopes ttl s =
     (if map_of (remarkable_tokens s) rnd \<noteq> None then Inl TokenTaken
      else Inr (rnd, s\<lparr>remarkable_tokens := upsert rnd
             \<lparr>rtKind = kind, rtDeviceID = deviceID, rtDeviceDesc = deviceDesc, rtScopes = scopes,
              rtExpiresAt = now + ttl, rtCreatedAt = now\<rparr> (remarkable_tokens s)\<rparr>))"

definition claims_of :: "rm_token \<Rightarrow> tokenClaims" where
  "claims_of t = \<lparr>tcUserID = ''remarkable'', tcDeviceID = rtDeviceID t, tcDeviceDesc = rtDeviceDesc t, tcScopes = rtScopes t\<rparr>"

definition loadToken :: "millis \<Rightarrow> string \<Rightarrow> string \<Rightarrow> rm_auth \<Rightarrow> rm_auth_error + tokenClaims" where
  "loadToken now token kind s =
     (case map_of (remarkable_tokens s) token of
        None \<Rightarrow> Inl TokenNotFound
      | Some t \<Rightarrow> if rtKind t \<noteq> kind \<or> rtExpiresAt t < now then Inl TokenNotFound else Inr (claims_of t))"

text \<open>The upsert both recoveries share: it keeps the creation time of an existing row.\<close>

definition save_user_token ::
  "string \<Rightarrow> string \<Rightarrow> string \<Rightarrow> string \<Rightarrow> millis \<Rightarrow> millis \<Rightarrow> rm_auth \<Rightarrow> tokenClaims \<times> rm_auth" where
  "save_user_token token deviceID deviceDesc scopes expires now s =
     (let created = (case map_of (remarkable_tokens s) token of Some t \<Rightarrow> rtCreatedAt t | None \<Rightarrow> now);
          row = \<lparr>rtKind = ''user'', rtDeviceID = deviceID, rtDeviceDesc = deviceDesc, rtScopes = scopes,
                 rtExpiresAt = expires, rtCreatedAt = created\<rparr>
      in (claims_of row, s\<lparr>remarkable_tokens := upsert token row (remarkable_tokens s)\<rparr>))"

definition recoverUserToken :: "millis \<Rightarrow> userTokenClaims \<Rightarrow> rm_auth \<Rightarrow> rm_auth_error + (tokenClaims \<times> rm_auth)" where
  "recoverUserToken now jwtClaims s =
     (let jti = TrimSpace (jwID jwtClaims); deviceID = TrimSpace (jwDeviceID jwtClaims) in
      case jwExpiresAt jwtClaims of
        None \<Rightarrow> Inl TokenNotFound
      | Some expires \<Rightarrow>
          if jti = [] \<or> deviceID = [] then Inl TokenNotFound
          else if \<not> expires > now then Inl TokenNotFound
          else if (case jwNotBefore jwtClaims of Some nb \<Rightarrow> nb > now + 60000 | None \<Rightarrow> False) then Inl TokenNotFound
          else case map_of (remarkable_devices s) deviceID of
                 None \<Rightarrow> Inl TokenNotFound
               | Some d \<Rightarrow>
                   let desc = TrimSpace (jwDeviceDesc jwtClaims);
                       scopes = TrimSpace (jwScopes jwtClaims)
                   in Inr (save_user_token jti deviceID (if desc \<noteq> [] then desc else rdDesc d)
                             (if scopes = [] then baseUserScopes else scopes) expires now s))"

definition latest_device :: "(string \<times> rm_device) list \<Rightarrow> (string \<times> rm_device) option" where
  "latest_device ds =
     (case sort_key (\<lambda>(_, d). (- rdLastSeen d, - rdCreatedAt d)) (filter (\<lambda>(_, d). rdDesc d \<noteq> ''sim'') ds) of
        [] \<Rightarrow> None | d # _ \<Rightarrow> Some d)"

definition recoverOpaqueUserToken :: "millis \<Rightarrow> string \<Rightarrow> rm_auth \<Rightarrow> rm_auth_error + (tokenClaims \<times> rm_auth)" where
  "recoverOpaqueUserToken now token0 s =
     (let token = TrimSpace token0 in
      if token = [] then Inl TokenNotFound
      else case latest_device (remarkable_devices s) of
             None \<Rightarrow> Inl TokenNotFound
           | Some (deviceID, d) \<Rightarrow>
               Inr (save_user_token token deviceID (rdDesc d) baseUserScopes (now + userTokenTTL) now s))"

definition issuePresigned :: "string \<Rightarrow> millis \<Rightarrow> presignedTarget \<Rightarrow> millis \<Rightarrow> rm_auth \<Rightarrow> rm_auth_error + (string \<times> rm_auth)" where
  "issuePresigned rnd now target ttl s =
     (if map_of (remarkable_presigned s) rnd \<noteq> None then Inl TokenTaken
      else Inr (rnd, s\<lparr>remarkable_presigned := upsert rnd (target, now + ttl) (remarkable_presigned s)\<rparr>))"

definition loadPresigned :: "millis \<Rightarrow> string \<Rightarrow> rm_auth \<Rightarrow> rm_auth_error + presignedTarget" where
  "loadPresigned now token s =
     (case map_of (remarkable_presigned s) token of
        None \<Rightarrow> Inl TokenNotFound
      | Some (t, expires) \<Rightarrow> if expires < now then Inl TokenNotFound else Inr t)"

section \<open>Requests\<close>

definition EqualFold :: "string \<Rightarrow> string \<Rightarrow> bool" where
  "EqualFold a b \<longleftrightarrow> map to_lower a = map to_lower b"

definition readBearerToken :: "string \<Rightarrow> string" where
  "readBearerToken header =
     (let h = TrimSpace header in
      if h = [] then [] else if \<not> HasPrefix (map to_lower h) ''bearer '' then [] else TrimSpace (drop 7 h))"

datatype 'a http = Reply 'a | Http nat

definition handleNewDevice ::
  "string \<Rightarrow> string \<Rightarrow> millis \<Rightarrow> (string \<times> string \<times> string) option \<Rightarrow> rm_auth \<Rightarrow> string http \<times> rm_auth" where
  "handleNewDevice pairingCode rnd now req s =
     (case req of
        None \<Rightarrow> (Http 400, s)
      | Some (code, deviceDesc, deviceID) \<Rightarrow>
          if TrimSpace code = [] \<or> TrimSpace deviceID = [] then (Http 400, s)
          else if pairingCode = [] \<or> \<not> EqualFold (TrimSpace code) (TrimSpace pairingCode) then (Http 400, s)
          else (let s1 = touchDevice now deviceID deviceDesc s
                in case issueToken rnd now ''device'' deviceID deviceDesc [] deviceTokenTTL s1 of
                     Inl e \<Rightarrow> (Http 500, s1)
                   | Inr (tok, s2) \<Rightarrow> (Reply tok, s2)))"

definition deviceClaims :: "millis \<Rightarrow> string \<Rightarrow> rm_auth \<Rightarrow> rm_auth_error + tokenClaims" where
  "deviceClaims now token s = loadToken now token ''device'' s"

definition newUserJWT :: "(userTokenClaims \<Rightarrow> string) \<Rightarrow> string \<Rightarrow> millis \<Rightarrow> tokenClaims \<Rightarrow> string \<Rightarrow> millis \<Rightarrow> string" where
  "newUserJWT sign jti now dc scopes ttl =
     sign \<lparr>jwDeviceDesc = tcDeviceDesc dc, jwDeviceID = tcDeviceID dc, jwScopes = scopes,
           jwExpiresAt = Some (now + ttl), jwNotBefore = Some now, jwID = jti\<rparr>"

definition handleNewUserToken ::
  "(userTokenClaims \<Rightarrow> string) \<Rightarrow> string \<Rightarrow> millis \<Rightarrow> string \<Rightarrow> rm_auth \<Rightarrow> string http \<times> rm_auth" where
  "handleNewUserToken sign rnd now header s =
     (case deviceClaims now (readBearerToken header) s of
        Inl _ \<Rightarrow> (Http 401, s)
      | Inr dc \<Rightarrow>
          let s1 = touchDevice now (tcDeviceID dc) (tcDeviceDesc dc) s
          in case issueToken rnd now ''user'' (tcDeviceID dc) (tcDeviceDesc dc) baseUserScopes userTokenTTL s1 of
               Inl _ \<Rightarrow> (Http 500, s1)
             | Inr (jti, s2) \<Rightarrow> (Reply (newUserJWT sign jti now dc baseUserScopes userTokenTTL), s2))"

definition handleDeleteDevice :: "millis \<Rightarrow> string \<Rightarrow> rm_auth \<Rightarrow> unit http \<times> rm_auth" where
  "handleDeleteDevice now header s =
     (case deviceClaims now (readBearerToken header) s of Inl _ \<Rightarrow> (Http 401, s) | Inr _ \<Rightarrow> (Http 204, s))"

text \<open>\<open>parseUserClaims\<close> over the unverified parser: a token without a JWT id does not count.\<close>

definition parseUserClaims :: "(string \<Rightarrow> userTokenClaims option) \<Rightarrow> string \<Rightarrow> userTokenClaims option" where
  "parseUserClaims parse token =
     (case parse token of None \<Rightarrow> None | Some c \<Rightarrow> if jwID c = [] then None else Some c)"

definition userClaims ::
  "(string \<Rightarrow> userTokenClaims option) \<Rightarrow> millis \<Rightarrow> string \<Rightarrow> rm_auth \<Rightarrow> rm_auth_error + (tokenClaims \<times> rm_auth)" where
  "userClaims parse now token s =
     (case parseUserClaims parse token of
        Some jwt \<Rightarrow>
          (case loadToken now (jwID jwt) ''user'' s of
             Inr c \<Rightarrow> Inr (c, s)
           | Inl e \<Rightarrow> if e = TokenNotFound then recoverUserToken now jwt s else Inl e)
      | None \<Rightarrow>
          (case loadToken now token ''user'' s of
             Inr c \<Rightarrow> Inr (c, s)
           | Inl e \<Rightarrow> if e = TokenNotFound then recoverOpaqueUserToken now token s else Inl e))"

text \<open>The guard of every user endpoint: 401 without claims, otherwise the device is marked seen.\<close>

definition withUserAuth ::
  "(string \<Rightarrow> userTokenClaims option) \<Rightarrow> millis \<Rightarrow> string \<Rightarrow> rm_auth \<Rightarrow> tokenClaims http \<times> rm_auth" where
  "withUserAuth parse now header s =
     (case userClaims parse now (readBearerToken header) s of
        Inl _ \<Rightarrow> (Http 401, s)
      | Inr (c, s') \<Rightarrow> (Reply c, touchDevice now (tcDeviceID c) (tcDeviceDesc c) s'))"

section \<open>Who gets in\<close>

definition live_token :: "millis \<Rightarrow> string \<Rightarrow> string \<Rightarrow> rm_auth \<Rightarrow> bool" where
  "live_token now token kind s \<longleftrightarrow>
     (case map_of (remarkable_tokens s) token of None \<Rightarrow> False | Some t \<Rightarrow> rtKind t = kind \<and> now \<le> rtExpiresAt t)"

lemma loadToken_live: "(\<exists>c. loadToken now token kind s = Inr c) \<longleftrightarrow> live_token now token kind s"
  by (auto simp: loadToken_def live_token_def split: option.splits)

lemma loadToken_errors: "loadToken now token kind s = Inl e \<Longrightarrow> e = TokenNotFound"
  by (auto simp: loadToken_def split: option.splits if_splits)

lemma latest_device_None: "latest_device ds = None \<longleftrightarrow> (\<forall>(i, d) \<in> set ds. rdDesc d = ''sim'')"
proof -
  have "latest_device ds = None \<longleftrightarrow> filter (\<lambda>(_, d). rdDesc d \<noteq> ''sim'') ds = []"
    unfolding latest_device_def by (metis (no_types, lifting) list.case_eq_if option.distinct(1) set_empty set_sort)
  then show ?thesis by (auto simp: filter_empty_conv)
qed

lemma save_user_token_live:
  assumes "save_user_token token dev desc scopes expires now s = (c, s')"
  shows "loadToken now' token ''user'' s' = (if expires < now' then Inl TokenNotFound else Inr c)"
    and "token' \<noteq> token \<Longrightarrow> loadToken now' token' kind s' = loadToken now' token' kind s"
    and "remarkable_devices s' = remarkable_devices s"
  using assms by (auto simp: save_user_token_def Let_def loadToken_def)

text \<open>
  Which opaque bearers a user endpoint accepts: a bearer that is no JWT is accepted exactly when
  it is a live user token or when any device other than a simulator has ever been paired. In the
  second case the bearer can be any string at all, expired tokens included: it is taken for the
  device seen last and is a valid user token for the next twelve hours.
\<close>

theorem opaque_bearer_accepted:
  assumes "parseUserClaims parse token = None" and "TrimSpace token = token" and "token \<noteq> []"
  shows "((\<exists>c s'. userClaims parse now token s = Inr (c, s')) \<longleftrightarrow>
      live_token now token ''user'' s \<or> (\<exists>(i, d) \<in> set (remarkable_devices s). rdDesc d \<noteq> ''sim'')) \<and>
    (\<not> live_token now token ''user'' s \<longrightarrow> (\<forall>c s'. userClaims parse now token s = Inr (c, s') \<longrightarrow>
      (\<exists>d. latest_device (remarkable_devices s) = Some (tcDeviceID c, d) \<and> tcDeviceDesc c = rdDesc d) \<and>
      (\<forall>now'. now' \<le> now + userTokenTTL \<longrightarrow> userClaims parse now' token s' = Inr (c, s'))))"
proof (cases "loadToken now token ''user'' s")
  case (Inr c)
  then show ?thesis using assms(1) loadToken_live [of now token "''user''" s] by (auto simp: userClaims_def)
next
  case (Inl e)
  then have e: "e = TokenNotFound" and dead: "\<not> live_token now token ''user'' s"
    using loadToken_errors loadToken_live [of now token "''user''" s] by auto
  have r: "userClaims parse now token s = recoverOpaqueUserToken now token s"
    using assms(1) Inl e by (simp add: userClaims_def)
  show ?thesis
  proof (cases "latest_device (remarkable_devices s)")
    case None
    then show ?thesis using dead r assms(2,3) latest_device_None [of "remarkable_devices s"]
      by (auto simp: recoverOpaqueUserToken_def)
  next
    case (Some x)
    obtain i d where x: "x = (i, d)" by (cases x)
    let ?save = "save_user_token token i (rdDesc d) baseUserScopes (now + userTokenTTL) now s"
    obtain c s' where sv: "?save = (c, s')" by (cases ?save)
    have u: "userClaims parse now token s = Inr (c, s')"
      using r Some x sv assms(2,3) by (simp add: recoverOpaqueUserToken_def)
    have "userClaims parse now' token s' = Inr (c, s')" if "now' \<le> now + userTokenTTL" for now'
      using that assms(1) save_user_token_live(1) [OF sv, of now'] by (simp add: userClaims_def)
    moreover have "tcDeviceID c = i" "tcDeviceDesc c = rdDesc d"
      using sv by (auto simp: save_user_token_def Let_def claims_of_def)
    moreover have "\<exists>(i, d) \<in> set (remarkable_devices s). rdDesc d \<noteq> ''sim''"
      using Some latest_device_None [of "remarkable_devices s"] by auto
    ultimately show ?thesis using u Some x dead by simp
  qed
qed

definition ex_paired :: rm_auth where
  "ex_paired = \<lparr>remarkable_devices = [(''dev'', \<lparr>rdDesc = ''rm2'', rdLabel = [], rdCreatedAt = 1, rdLastSeen = 5\<rparr>)],
     remarkable_tokens = [], remarkable_presigned = []\<rparr>"

theorem opaque_bearer_accepted_witness:
  "\<exists>c s'. userClaims (\<lambda>_. None) 9 ''anything'' ex_paired = Inr (c, s') \<and> tcDeviceID c = ''dev''"
proof -
  have h: "parseUserClaims (\<lambda>_. None) ''anything'' = None" "TrimSpace ''anything'' = ''anything''"
    "\<not> live_token 9 ''anything'' ''user'' ex_paired" by code_simp+
  note acc = opaque_bearer_accepted [OF h(1,2), of 9 ex_paired, simplified h(3) not_False_eq_True simp_thms]
  have "\<exists>(i, d) \<in> set (remarkable_devices ex_paired). rdDesc d \<noteq> ''sim''"
    by (simp add: ex_paired_def)
  then obtain c s' where u: "userClaims (\<lambda>_. None) 9 ''anything'' ex_paired = Inr (c, s')" using acc by blast
  then obtain d where "latest_device (remarkable_devices ex_paired) = Some (tcDeviceID c, d)" using acc by blast
  moreover have "map_option fst (latest_device (remarkable_devices ex_paired)) = Some ''dev''" by code_simp
  ultimately show ?thesis using u by auto
qed

text \<open>A device token presented at a user endpoint is turned into a user token: the device can no
  longer mint tokens with it.\<close>

lemma device_token_lost:
  assumes "parseUserClaims parse token = None" and "live_token now token ''device'' s"
    and "userClaims parse now token s = Inr (c, s')" and "TrimSpace token = token"
  shows "deviceClaims now' token s' = Inl TokenNotFound"
proof -
  have "loadToken now token ''user'' s = Inl TokenNotFound"
    using assms(2) by (auto simp: live_token_def loadToken_def split: option.splits)
  then have "recoverOpaqueUserToken now token s = Inr (c, s')"
    using assms(1,3) by (simp add: userClaims_def)
  then show ?thesis
    using assms(4)
    by (auto simp: recoverOpaqueUserToken_def Let_def save_user_token_def deviceClaims_def loadToken_def
        split: option.splits if_splits)
qed

section \<open>The pairing handshake\<close>

lemma touchDevice_tokens [simp]: "remarkable_tokens (touchDevice now i d s) = remarkable_tokens s"
  by (simp add: touchDevice_def)

lemma loadToken_touch [simp]: "loadToken now t k (touchDevice now' i d s) = loadToken now t k s"
  by (simp add: loadToken_def)

lemma issueToken_live:
  assumes "issueToken rnd now kind dev desc scopes ttl s = Inr (tok, s')"
  shows "tok = rnd"
    and "loadToken now' tok kind s' = (if now + ttl < now' then Inl TokenNotFound
      else Inr \<lparr>tcUserID = ''remarkable'', tcDeviceID = dev, tcDeviceDesc = desc, tcScopes = scopes\<rparr>)"
    and "t \<noteq> tok \<Longrightarrow> loadToken now' t k s' = loadToken now' t k s"
  using assms by (auto simp: issueToken_def loadToken_def claims_of_def split: if_splits)

text \<open>
  C21. The pairing handshake: a request with the right code (compared without case and surrounding
  blanks) and fresh random tokens pairs the device, the device token mints a user token for the
  next ten years, and for twelve hours from its minting that user token is accepted at every user
  endpoint as this device; a request with a wrong code, or against a server without a pairing
  code, changes nothing.
\<close>

theorem pairing_handshake:
  assumes "parse (sign \<lparr>jwDeviceDesc = desc, jwDeviceID = dev, jwScopes = baseUserScopes,
      jwExpiresAt = Some (now' + userTokenTTL), jwNotBefore = Some now', jwID = rnd'\<rparr>) =
      Some \<lparr>jwDeviceDesc = desc, jwDeviceID = dev, jwScopes = baseUserScopes,
        jwExpiresAt = Some (now' + userTokenTTL), jwNotBefore = Some now', jwID = rnd'\<rparr>"
    and "rnd' \<noteq> []" and "TrimSpace dev \<noteq> []"
    and "map_of (remarkable_tokens s) rnd = None" and "map_of (remarkable_tokens s) rnd' = None" and "rnd \<noteq> rnd'"
    and "handleNewDevice pairing rnd now (Some (code, desc, dev)) s = (reply, s1)"
    and "readBearerToken header = rnd" and "now' \<le> now + deviceTokenTTL"
  shows "if TrimSpace code \<noteq> [] \<and> pairing \<noteq> [] \<and> EqualFold (TrimSpace code) (TrimSpace pairing)
    then reply = Reply rnd \<and>
      (\<exists>jwt s2. handleNewUserToken sign rnd' now' header s1 = (Reply jwt, s2) \<and>
        (\<forall>now''. now'' \<le> now' + userTokenTTL \<longrightarrow>
          userClaims parse now'' jwt s2 =
            Inr (\<lparr>tcUserID = ''remarkable'', tcDeviceID = dev, tcDeviceDesc = desc, tcScopes = baseUserScopes\<rparr>, s2)))
    else reply = Http 400 \<and> s1 = s"
proof (cases "TrimSpace code \<noteq> [] \<and> pairing \<noteq> [] \<and> EqualFold (TrimSpace code) (TrimSpace pairing)")
  case True
  let ?t = "touchDevice now dev desc s"
  obtain s1' where i1: "issueToken rnd now ''device'' dev desc [] deviceTokenTTL ?t = Inr (rnd, s1')"
    using assms(4) by (simp add: issueToken_def)
  then have s1: "reply = Reply rnd" "s1 = s1'"
    using assms(3,7) True by (auto simp: handleNewDevice_def)
  have dc: "deviceClaims now' rnd s1 = Inr \<lparr>tcUserID = ''remarkable'', tcDeviceID = dev, tcDeviceDesc = desc, tcScopes = []\<rparr>"
    using issueToken_live(2) [OF i1, of now'] assms(9) s1 by (simp add: deviceClaims_def)
  let ?u = "touchDevice now' dev desc s1"
  have "map_of (remarkable_tokens ?u) rnd' = None"
    using i1 s1 assms(5,6) by (auto simp: issueToken_def split: if_splits)
  then obtain s2 where i2: "issueToken rnd' now' ''user'' dev desc baseUserScopes userTokenTTL ?u = Inr (rnd', s2)"
    by (simp add: issueToken_def)
  have jwt: "handleNewUserToken sign rnd' now' header s1 = (Reply (newUserJWT sign rnd' now'
      \<lparr>tcUserID = ''remarkable'', tcDeviceID = dev, tcDeviceDesc = desc, tcScopes = []\<rparr> baseUserScopes userTokenTTL), s2)"
    using dc i2 assms(8) by (simp add: handleNewUserToken_def)
  have "userClaims parse now'' (newUserJWT sign rnd' now' \<lparr>tcUserID = ''remarkable'', tcDeviceID = dev, tcDeviceDesc = desc, tcScopes = []\<rparr>
      baseUserScopes userTokenTTL) s2 = Inr (\<lparr>tcUserID = ''remarkable'', tcDeviceID = dev, tcDeviceDesc = desc, tcScopes = baseUserScopes\<rparr>, s2)"
    if "now'' \<le> now' + userTokenTTL" for now''
    using that issueToken_live(2) [OF i2, of now''] assms(1,2)
    by (simp add: userClaims_def parseUserClaims_def newUserJWT_def)
  with jwt s1 True show ?thesis by auto
next
  case False
  then show ?thesis using assms(3,7) by (auto simp: handleNewDevice_def split: if_splits)
qed

definition ex_sign :: "userTokenClaims \<Rightarrow> string" where
  "ex_sign c = ''jwt''"

definition ex_parse :: "string \<Rightarrow> userTokenClaims option" where
  "ex_parse t = (if t = ''jwt'' then Some \<lparr>jwDeviceDesc = ''rm2'', jwDeviceID = ''dev'', jwScopes = baseUserScopes,
      jwExpiresAt = Some (20 + userTokenTTL), jwNotBefore = Some 20, jwID = ''u1''\<rparr> else None)"

theorem pairing_handshake_witness:
  "let s = \<lparr>remarkable_devices = [], remarkable_tokens = [], remarkable_presigned = []\<rparr>;
       (reply, s1) = handleNewDevice ''ABC'' ''d1'' 10 (Some ('' abc'', ''rm2'', ''dev'')) s
   in reply = Reply ''d1'' \<and> (\<exists>jwt s2. handleNewUserToken ex_sign ''u1'' 20 ''Bearer d1'' s1 = (Reply jwt, s2))"
proof -
  let ?s = "\<lparr>remarkable_devices = [], remarkable_tokens = [], remarkable_presigned = []\<rparr>"
  obtain reply s1 where h: "handleNewDevice ''ABC'' ''d1'' 10 (Some ('' abc'', ''rm2'', ''dev'')) ?s = (reply, s1)"
    by (cases "handleNewDevice ''ABC'' ''d1'' 10 (Some ('' abc'', ''rm2'', ''dev'')) ?s")
  have c: "TrimSpace '' abc'' \<noteq> [] \<and> ''ABC'' \<noteq> [] \<and> EqualFold (TrimSpace '' abc'') (TrimSpace ''ABC'')"
    "TrimSpace ''dev'' \<noteq> []" "readBearerToken ''Bearer d1'' = ''d1''" "(20 :: int) \<le> 10 + deviceTokenTTL" by code_simp+
  have "ex_parse (ex_sign \<lparr>jwDeviceDesc = ''rm2'', jwDeviceID = ''dev'', jwScopes = baseUserScopes,
      jwExpiresAt = Some (20 + userTokenTTL), jwNotBefore = Some 20, jwID = ''u1''\<rparr>) = Some \<lparr>jwDeviceDesc = ''rm2'', jwDeviceID = ''dev'',
      jwScopes = baseUserScopes, jwExpiresAt = Some (20 + userTokenTTL), jwNotBefore = Some 20, jwID = ''u1''\<rparr>"
    by (simp add: ex_parse_def ex_sign_def)
  then have "reply = Reply ''d1'' \<and> (\<exists>jwt s2. handleNewUserToken ex_sign ''u1'' 20 ''Bearer d1'' s1 = (Reply jwt, s2))"
    using pairing_handshake [where parse = ex_parse and sign = ex_sign, OF _ _ c(2) _ _ _ h c(3,4), of "''u1''"] c(1) by auto
  then show ?thesis by (simp add: h)
qed

text \<open>Unpairing revokes nothing: the device token mints user tokens as before.\<close>

lemma handleDeleteDevice_keeps: "snd (handleDeleteDevice now header s) = s"
  by (simp add: handleDeleteDevice_def split: sum.split)

end
