(* ===== verification/Rm_Render.thy ===== *)
theory Rm_Render
  imports Rm_Tree
begin

text \<open>
  Resolving one reMarkable document into the files a page is rendered from (\<open>renderDocument\<close> of
  \<open>internal/source/remarkable/tree.go\<close>), and its agreement with the listing. Counting the pages of a PDF
  (\<open>pdfrender\<close>) is a parameter.
\<close>

section \<open>The bundle\<close>

record RenderBlob =
  rbHash :: string
  rbPath :: string

record RenderDocument =
  rdID :: string
  rdName :: string
  rdFileType :: string
  rdPageCount :: int
  rdRevision :: string
  rdPDFPath :: string
  rdEPUBPath :: string
  rdPageRM :: "RenderBlob table"
  rdPageAssets :: "RenderBlob list table"
  rdPageOrder :: "string list"
  rdRenderable :: bool

datatype render_error = DocumentNotFound | RootUnreadable | TopIndexBad index_error | SubtreeUnread | SubIndexBad index_error

fun page_id :: "rm_page \<Rightarrow> string option" where
  "page_id (PageString v) = (if v \<noteq> [] then Some v else None)"
| "page_id (PageObject (Some i)) = (if i \<noteq> [] then Some i else None)"
| "page_id _ = None"

definition renderPageOrder :: "rmContent \<Rightarrow> string list" where
  "renderPageOrder c =
     (let out = filter (\<lambda>p. p \<noteq> []) (ctCPages c)
      in if out \<noteq> [] then out else List.map_filter page_id (ctPages c))"

text \<open>The Go map of the sub-index: a later entry of a name replaces an earlier one.\<close>

definition filesByName :: "indexEntry list \<Rightarrow> string \<Rightarrow> indexEntry option" where
  "filesByName es = map_of (map (\<lambda>en. (ieName en, en)) (rev es))"

definition blob_path_of :: "indexEntry option \<Rightarrow> rm_blobs \<Rightarrow> string" where
  "blob_path_of oe s =
     (case oe of
        None \<Rightarrow> []
      | Some en \<Rightarrow> (case getBlob (ieHash en) s of Inl _ \<Rightarrow> [] | Inr r \<Rightarrow> bPath r))"

text \<open>The page a file of the bundle belongs to, and whether the file is the page's strokes.\<close>

definition page_file :: "string \<Rightarrow> string \<Rightarrow> (string \<times> bool) option" where
  "page_file docID name =
     (let prefix = docID @ ''/'' in
      if \<not> HasPrefix name prefix then None
      else let relp = TrimPrefix name prefix;
               found = CHR ''/'' \<in> set relp;
               pageID = (if found then takeWhile (\<lambda>c. c \<noteq> CHR ''/'') relp else TrimSuffix relp ''.rm'');
               suffix = (if found then drop 1 (dropWhile (\<lambda>c. c \<noteq> CHR ''/'') relp) else [])
           in if pageID = [] then None else Some (pageID, suffix = [] \<and> HasSuffix relp ''.rm''))"

definition add_page_file :: "rm_blobs \<Rightarrow> indexEntry \<Rightarrow> RenderDocument \<Rightarrow> RenderDocument" where
  "add_page_file s fe out =
     (case page_file (rdID out) (ieName fe) of
        None \<Rightarrow> out
      | Some (pageID, strokes) \<Rightarrow>
          (case getBlob (ieHash fe) s of
             Inl _ \<Rightarrow> out
           | Inr r \<Rightarrow>
               let blob = \<lparr>rbHash = ieHash fe, rbPath = bPath r\<rparr> in
               if strokes then out\<lparr>rdPageRM := AList.update pageID blob (rdPageRM out)\<rparr>
               else out\<lparr>rdPageAssets := AList.update pageID
                      ((case map_of (rdPageAssets out) pageID of None \<Rightarrow> [] | Some bs \<Rightarrow> bs) @ [blob]) (rdPageAssets out)\<rparr>))"

definition add_content :: "rm_codec \<Rightarrow> indexEntry option \<Rightarrow> rm_blobs \<Rightarrow> RenderDocument \<Rightarrow> RenderDocument" where
  "add_content cd oe s out =
     (case oe of
        None \<Rightarrow> out
      | Some en \<Rightarrow>
          (case readBlob (ieHash en) s of
             Inl _ \<Rightarrow> out
           | Inr b \<Rightarrow>
               (case decodeContent cd b of
                  None \<Rightarrow> out
                | Some c \<Rightarrow>
                    let order = renderPageOrder c in
                    out\<lparr>rdFileType := ctFileType c, rdPageOrder := order,
                        rdPageCount := (if ctPageCount c = 0 then int (length order) else ctPageCount c)\<rparr>)))"

definition finish_pages :: "(string \<Rightarrow> int option) \<Rightarrow> RenderDocument \<Rightarrow> RenderDocument" where
  "finish_pages pdfPages out =
     (let out1 = (if rdPageOrder out = [] then out\<lparr>rdPageOrder := sort (map fst (rdPageRM out))\<rparr> else out);
          out2 = (if rdPageCount out1 = 0 then out1\<lparr>rdPageCount := int (length (rdPageOrder out1))\<rparr> else out1);
          out3 = (if rdPageCount out2 = 0 \<and> rdPDFPath out2 \<noteq> []
                  then (case pdfPages (rdPDFPath out2) of None \<Rightarrow> out2 | Some n \<Rightarrow> out2\<lparr>rdPageCount := n\<rparr>)
                  else out2)
      in out3\<lparr>rdRenderable := rdPDFPath out3 \<noteq> [] \<or> rdPageRM out3 \<noteq> []\<rparr>)"

definition document_bundle ::
  "rm_codec \<Rightarrow> (string \<Rightarrow> int option) \<Rightarrow> string \<Rightarrow> indexEntry \<Rightarrow> indexEntry list \<Rightarrow> rm_blobs \<Rightarrow> render_error + RenderDocument" where
  "document_bundle cd pdfPages documentID docEntry fileEntries s =
     (case filesByName fileEntries (documentID @ ''.metadata'') of
        None \<Rightarrow> Inl DocumentNotFound
      | Some metaEntry \<Rightarrow>
          (case readBlob (ieHash metaEntry) s of
             Inl _ \<Rightarrow> Inl DocumentNotFound
           | Inr b \<Rightarrow>
               (case decodeMetadata cd b of
                  None \<Rightarrow> Inl DocumentNotFound
                | Some meta \<Rightarrow>
                    if mdDeleted meta \<or> mdParent meta = trashParent \<or> mapEntryType (mdType meta) \<noteq> ''document''
                    then Inl DocumentNotFound
                    else let out0 = \<lparr>rdID = documentID, rdName = mdVisibleName meta, rdFileType = [], rdPageCount = 0,
                               rdRevision = ieHash docEntry, rdPDFPath = [], rdEPUBPath = [], rdPageRM = [],
                               rdPageAssets = [], rdPageOrder = [], rdRenderable = False\<rparr>;
                             out1 = add_content cd (filesByName fileEntries (documentID @ ''.content'')) s out0;
                             out2 = out1\<lparr>rdPDFPath := blob_path_of (filesByName fileEntries (documentID @ ''.pdf'')) s,
                                        rdEPUBPath := blob_path_of (filesByName fileEntries (documentID @ ''.epub'')) s\<rparr>
                         in Inr (finish_pages pdfPages (fold (add_page_file s) fileEntries out2)))))"

definition renderDocument ::
  "rm_codec \<Rightarrow> (string \<Rightarrow> int option) \<Rightarrow> string \<Rightarrow> rm_blobs \<Rightarrow> render_error + RenderDocument" where
  "renderDocument cd pdfPages documentID s =
     (case getBlob rootBlobID s of
        Inl _ \<Rightarrow> Inl DocumentNotFound
      | Inr r \<Rightarrow>
          (case osReadFile (bPath r) s of
             Inl _ \<Rightarrow> Inl RootUnreadable
           | Inr raw \<Rightarrow>
               let topHash = TrimSpace raw in
               if topHash = [] then Inl DocumentNotFound
               else case readBlob topHash s of
                      Inl _ \<Rightarrow> Inl DocumentNotFound
                    | Inr d \<Rightarrow>
                        (case parseIndex d of
                           Inl x \<Rightarrow> Inl (TopIndexBad x)
                         | Inr es \<Rightarrow>
                             (case find (\<lambda>en. ieName en = documentID) es of
                                None \<Rightarrow> Inl DocumentNotFound
                              | Some docEntry \<Rightarrow>
                                  (case readBlob (ieHash docEntry) s of
                                     Inl _ \<Rightarrow> Inl SubtreeUnread
                                   | Inr sub \<Rightarrow>
                                       (case parseIndex sub of
                                          Inl x \<Rightarrow> Inl (SubIndexBad x)
                                        | Inr fs \<Rightarrow> document_bundle cd pdfPages documentID docEntry fs s))))))"

section \<open>Agreement with the listing\<close>

definition top_entries :: "rm_blobs \<Rightarrow> indexEntry list option" where
  "top_entries s =
     (case readBlob rootBlobID s of
        Inl _ \<Rightarrow> None
      | Inr raw \<Rightarrow>
          if TrimSpace raw = [] then None
          else case readBlob (TrimSpace raw) s of
                 Inl _ \<Rightarrow> None
               | Inr d \<Rightarrow> (case parseIndex d of Inl _ \<Rightarrow> None | Inr es \<Rightarrow> Some es))"

text \<open>The files of a document carry its identifier, as a tablet names them.\<close>

definition well_named :: "string \<Rightarrow> indexEntry list \<Rightarrow> bool" where
  "well_named i fs =
     list_all (\<lambda>f. ieHash f \<noteq> [] \<and> (is_metadata (ieName f) \<longrightarrow> ieName f = i @ ''.metadata'') \<and>
                   (is_content (ieName f) \<longrightarrow> ieName f = i @ ''.content'')) fs"

definition regular_doc :: "rm_blobs \<Rightarrow> indexEntry \<Rightarrow> bool" where
  "regular_doc s en =
     (case readBlob (ieHash en) s of
        Inl _ \<Rightarrow> True
      | Inr sub \<Rightarrow> (case parseIndex sub of Inl _ \<Rightarrow> True | Inr fs \<Rightarrow> well_named (ieName en) fs))"

definition regular_tree :: "rm_blobs \<Rightarrow> indexEntry list \<Rightarrow> bool" where
  "regular_tree s es \<longleftrightarrow> distinct (map ieName es) \<and> list_all (regular_doc s) es"

lemma filesByName_snoc: "filesByName (fs @ [f]) n = (if ieName f = n then Some f else filesByName fs n)"
  by (simp add: filesByName_def)

lemma last_hash_filesByName:
  assumes "\<forall>f \<in> set fs. P (ieName f) \<longleftrightarrow> ieName f = n"
  shows "last_hash P fs = (case filesByName fs n of None \<Rightarrow> [] | Some f \<Rightarrow> ieHash f)"
  using assms
proof (induction fs rule: rev_induct)
  case Nil
  show ?case by (simp add: last_hash_def filesByName_def)
next
  case (snoc f fs)
  then show ?case by (auto simp: filesByName_snoc last_hash_def)
qed

lemma filesByName_Some: "filesByName fs n = Some f \<Longrightarrow> f \<in> set fs \<and> ieName f = n"
  unfolding filesByName_def by (auto dest!: map_of_SomeD)

lemma not_metadata_content: "\<not> HasSuffix (s @ ''.content'') ''.metadata''"
proof
  assume a: "HasSuffix (s @ ''.content'') ''.metadata''"
  then have "\<exists>t. s @ ''.content'' = t @ ''.metadata''"
    by (intro exI [of _ "take (length (s @ ''.content'') - length ''.metadata'') (s @ ''.content'')"])
       (metis HasSuffix_def append_take_drop_id)
  then obtain t where "s @ ''.content'' = t @ ''.metadata''" ..
  then have "rev (s @ ''.content'') = rev (t @ ''.metadata'')" by simp
  then show False by simp
qed

lemma well_named_hashes:
  assumes "well_named i fs"
  shows "last_hash is_metadata fs = (case filesByName fs (i @ ''.metadata'') of None \<Rightarrow> [] | Some f \<Rightarrow> ieHash f)"
    and "last_hash is_content fs = (case filesByName fs (i @ ''.content'') of None \<Rightarrow> [] | Some f \<Rightarrow> ieHash f)"
  using assms not_metadata_content [of i]
  by (intro last_hash_filesByName; auto simp: well_named_def list_all_iff is_metadata_def is_content_def)+

lemma well_named_hash: "well_named i fs \<Longrightarrow> filesByName fs n = Some f \<Longrightarrow> ieHash f \<noteq> []"
  by (auto simp: well_named_def list_all_iff dest!: filesByName_Some)

lemma add_page_file_keeps [simp]:
  "rdID (add_page_file s f d) = rdID d" "rdName (add_page_file s f d) = rdName d"
  "rdFileType (add_page_file s f d) = rdFileType d" "rdRevision (add_page_file s f d) = rdRevision d"
  by (auto simp: add_page_file_def Let_def split: option.splits sum.splits prod.splits)

lemma fold_page_files_keeps [simp]:
  "rdID (fold (add_page_file s) fs d) = rdID d" "rdName (fold (add_page_file s) fs d) = rdName d"
  "rdFileType (fold (add_page_file s) fs d) = rdFileType d" "rdRevision (fold (add_page_file s) fs d) = rdRevision d"
  by (induction fs arbitrary: d) auto

lemma finish_pages_keeps [simp]:
  "rdID (finish_pages f d) = rdID d" "rdName (finish_pages f d) = rdName d"
  "rdFileType (finish_pages f d) = rdFileType d" "rdRevision (finish_pages f d) = rdRevision d"
  by (auto simp: finish_pages_def Let_def split: option.splits)

definition agrees :: "Document \<Rightarrow> string \<Rightarrow> RenderDocument \<Rightarrow> bool" where
  "agrees d revision rd \<longleftrightarrow>
     rdID rd = dcID d \<and> rdName rd = dcName d \<and> rdFileType rd = dcFileType d \<and> rdRevision rd = revision"

lemma document_bundle_documentFromSubtree:
  assumes sub: "readBlob (ieHash en) s = Inr sub" "parseIndex sub = Inr fs" and wn: "well_named (ieName en) fs"
  shows "(case document_bundle cd pdf (ieName en) en fs s of
            Inl _ \<Rightarrow> (\<forall>d. documentFromSubtree cd en s = Inr (Some d) \<longrightarrow> dcType d = ''folder'')
          | Inr rd \<Rightarrow> (\<exists>d. documentFromSubtree cd en s = Inr (Some d) \<and> dcType d = ''document'' \<and> agrees d (ieHash en) rd))"
proof (cases "filesByName fs (ieName en @ ''.metadata'')")
  case None
  then show ?thesis using sub well_named_hashes(1) [OF wn] by (simp add: document_bundle_def documentFromSubtree_def)
next
  case (Some m)
  note hash = well_named_hash [OF wn Some]
  show ?thesis
    using sub hash well_named_hashes [OF wn] well_named_hash [OF wn, of "ieName en @ ''.content''"] Some
    by (auto simp: document_bundle_def documentFromSubtree_def mapEntryType_def agrees_def with_content_def add_content_def
          Let_def split: sum.splits option.splits)
qed

text \<open>What the listing says of one entry of the tree.\<close>

lemma documents_of_Inr:
  "documents_of cd es s = Inr ds \<Longrightarrow>
   set ds = {d. \<exists>en \<in> set es. documentFromSubtree cd en s = Inr (Some d)} \<and> (\<forall>en \<in> set es. \<exists>x. documentFromSubtree cd en s = Inr x)"
  by (induction es arbitrary: ds) (auto simp: bind_sum_def split: sum.splits option.splits)

lemma documentFromSubtree_id: "documentFromSubtree cd en s = Inr (Some d) \<Longrightarrow> dcID d = ieName en"
  by (auto simp: documentFromSubtree_def Let_def with_content_def split: sum.splits option.splits if_splits)

lemma listDocumentTree_entries:
  assumes "top_entries s = Some es"
  shows "listDocumentTree cd legacy s = bind_sum (documents_of cd es s) (\<lambda>ds. Inr (sortDocuments ds))"
    and "renderDocument cd pdf i s =
      (case find (\<lambda>en. ieName en = i) es of
         None \<Rightarrow> Inl DocumentNotFound
       | Some en \<Rightarrow>
           (case readBlob (ieHash en) s of
              Inl _ \<Rightarrow> Inl SubtreeUnread
            | Inr sub \<Rightarrow> (case parseIndex sub of Inl x \<Rightarrow> Inl (SubIndexBad x) | Inr fs \<Rightarrow> document_bundle cd pdf i en fs s)))"
  using assms
  by (auto simp: top_entries_def listDocumentTree_def renderDocument_def readBlob_def bind_sum_def Let_def
      split: sum.splits if_splits)

text \<open>
  The resolver and the listing agree on a tree whose files are named after their documents: a document
  is resolved exactly when the listing shows it as a document, with the listed name and file type, and
  its revision is the hash of its entry in the tree.
\<close>

theorem render_agrees_listing:
  assumes top: "top_entries s = Some es" and reg: "regular_tree s es" and l: "listDocumentTree cd legacy s = Inr docs"
  shows "case renderDocument cd pdf i s of
      Inl _ \<Rightarrow> \<not> (\<exists>d \<in> set docs. dcID d = i \<and> dcType d = ''document'')
    | Inr rd \<Rightarrow> (\<exists>d \<in> set docs. \<exists>en \<in> set es. dcID d = i \<and> dcType d = ''document'' \<and> ieName en = i \<and> agrees d (ieHash en) rd)"
proof -
  obtain ds where ds: "documents_of cd es s = Inr ds" "docs = sortDocuments ds"
    using l unfolding listDocumentTree_entries(1) [OF top] by (auto simp: bind_sum_def split: sum.splits)
  have docs: "d \<in> set docs \<longleftrightarrow> (\<exists>en \<in> set es. documentFromSubtree cd en s = Inr (Some d))" for d
    using documents_of_Inr [OF ds(1)] ds(2) by (auto simp: sortDocuments_def)
  have none: "\<not> (\<exists>d \<in> set docs. dcID d = i \<and> dcType d = ''document'')"
    if "\<And>en d. en \<in> set es \<Longrightarrow> ieName en = i \<Longrightarrow> documentFromSubtree cd en s = Inr (Some d) \<Longrightarrow> dcType d = ''folder''"
    using that docs documentFromSubtree_id by fastforce
  show ?thesis
  proof (cases "find (\<lambda>en. ieName en = i) es")
    case None
    then have "\<forall>en \<in> set es. ieName en \<noteq> i" by (auto simp: find_None_iff)
    then show ?thesis using None none by (simp add: listDocumentTree_entries(2) [OF top])
  next
    case (Some en)
    then have en: "en \<in> set es" "ieName en = i" by (auto simp: find_Some_iff)
    have uniq: "x = en" if "x \<in> set es" "ieName x = i" for x
      using that en reg by (auto simp: regular_tree_def distinct_map dest: inj_onD)
    have rg: "regular_doc s en" using reg en(1) by (auto simp: regular_tree_def list_all_iff)
    show ?thesis
    proof (cases "\<exists>sub fs. readBlob (ieHash en) s = Inr sub \<and> parseIndex sub = Inr fs")
      case True
      then obtain sub fs where sf: "readBlob (ieHash en) s = Inr sub" "parseIndex sub = Inr fs" by auto
      then have "well_named (ieName en) fs" using rg by (simp add: regular_doc_def)
      note both = document_bundle_documentFromSubtree [OF sf this, of cd pdf]
      have r: "renderDocument cd pdf i s = document_bundle cd pdf i en fs s"
        using Some sf by (simp add: listDocumentTree_entries(2) [OF top])
      show ?thesis
      proof (cases "document_bundle cd pdf i en fs s")
        case (Inl x)
        then have "\<forall>d. documentFromSubtree cd en s = Inr (Some d) \<longrightarrow> dcType d = ''folder''" using both en(2) by simp
        then show ?thesis using none uniq by (simp add: r Inl)
      next
        case (Inr rd)
        then obtain d where "documentFromSubtree cd en s = Inr (Some d)" "dcType d = ''document''" "agrees d (ieHash en) rd"
          using both en(2) by auto
        moreover from this(1) have "d \<in> set docs" "dcID d = i" using docs en documentFromSubtree_id by auto
        ultimately show ?thesis using en by (auto simp: r Inr)
      qed
    next
      case False
      then have "documentFromSubtree cd en s \<noteq> Inr (Some d)" for d
        by (auto simp: documentFromSubtree_def split: sum.splits)
      then have "\<not> (\<exists>d \<in> set docs. dcID d = i \<and> dcType d = ''document'')" using none uniq by blast
      moreover have "\<exists>x. renderDocument cd pdf i s = Inl x"
        using Some False by (auto simp: listDocumentTree_entries(2) [OF top] split: sum.splits)
      ultimately show ?thesis by auto
    qed
  qed
qed

definition page_entry :: "string \<Rightarrow> string \<Rightarrow> indexEntry" where
  "page_entry h n = \<lparr>ieHash = h, ieType = ''0'', ieName = n, ieSubfiles = 0, ieSize = 1\<rparr>"

definition ex_note_files :: "indexEntry list" where
  "ex_note_files = [page_entry ''a1'' ''d.metadata'', page_entry ''a4'' ''d/p1.rm'']"

definition ex_note_codec :: rm_codec where
  "ex_note_codec = \<lparr>Marshal = (\<lambda>_. []), Unmarshal = (\<lambda>_. Bad), MarshalNew = mwVisibleName,
     decodeMetadata = (\<lambda>b. Some \<lparr>mdVisibleName = b, mdType = ''DocumentType'', mdParent = [], mdDeleted = False\<rparr>),
     decodeContent = (\<lambda>_. None)\<rparr>"

definition ex_note :: rm_blobs where
  "ex_note =
     (let row = (\<lambda>p. \<lparr>bGen = 1, bSize = 1, bCRC = [], bPath = p, bUpdatedAt = 0\<rparr>)
      in \<lparr>remarkable_blobs = [(rootBlobID, row ''p0''), (''a3'', row ''p3''), (''a2'', row ''p2''), (''a1'', row ''p1''), (''a4'', row ''p4'')],
         files = [(''p0'', ''a3''), (''p3'', serializeIndex ''3'' [page_entry ''a2'' ''d'']),
                  (''p2'', serializeIndex ''3'' ex_note_files), (''p1'', ''Diary''), (''p4'', ''ink'')]\<rparr>)"

lemma ex_note_ok: "entry_ok (page_entry ''a2'' ''d'')" "list_all entry_ok ex_note_files" "sortedByName ex_note_files = ex_note_files"
proof -
  have "FormatInt 0 = ''0''" "FormatInt 1 = ''1''" "hexDecode ''a1'' \<noteq> None" "hexDecode ''a2'' \<noteq> None" "hexDecode ''a4'' \<noteq> None"
    by code_simp+
  then show "entry_ok (page_entry ''a2'' ''d'')" "list_all entry_ok ex_note_files"
    by (simp_all add: entry_ok_def entry_line_def page_entry_def ex_note_files_def maxLine_def int64_def del: hexDecode.simps)
  show "sortedByName ex_note_files = ex_note_files" by code_simp
qed

lemma ex_note_parse:
  "parseIndex (serializeIndex ''3'' [page_entry ''a2'' ''d'']) = Inr [page_entry ''a2'' ''d'']"
  "parseIndex (serializeIndex ''3'' ex_note_files) = Inr ex_note_files"
  using index_roundtrip_eq [of "''3''" "[page_entry ''a2'' ''d'']"] index_roundtrip_eq [of "''3''" ex_note_files] ex_note_ok
  by (simp_all add: parseIndex_def sortedByName_def bind_sum_def)

lemma ex_note_read:
  "readBlob rootBlobID ex_note = Inr ''a3''" "readBlob ''a3'' ex_note = Inr (serializeIndex ''3'' [page_entry ''a2'' ''d''])"
  "readBlob ''a2'' ex_note = Inr (serializeIndex ''3'' ex_note_files)" "readBlob ''a1'' ex_note = Inr ''Diary''"
  "\<exists>r. getBlob ''a4'' ex_note = Inr r"
  by (simp_all add: readBlob_def bind_sum_def getBlob_def osReadFile_def ex_note_def Let_def rootBlobID_def)

lemma ex_note_top: "top_entries ex_note = Some [page_entry ''a2'' ''d'']"
  by (simp add: top_entries_def ex_note_read TrimSpace_def is_space_def ex_note_parse)

lemma ex_files:
  "fold f ex_note_files x = f (page_entry ''a4'' ''d/p1.rm'') (f (page_entry ''a1'' ''d.metadata'') x)"
  "rev ex_note_files = [page_entry ''a4'' ''d/p1.rm'', page_entry ''a1'' ''d.metadata'']"
  "list_all P ex_note_files \<longleftrightarrow> P (page_entry ''a1'' ''d.metadata'') \<and> P (page_entry ''a4'' ''d/p1.rm'')"
  by (simp_all add: ex_note_files_def)

lemma ex_note_bundle:
  "\<exists>rd. renderDocument ex_note_codec (\<lambda>_. None) ''d'' ex_note = Inr rd \<and> rdID rd = ''d'' \<and> rdRevision rd = ''a2'' \<and>
     rdRenderable rd \<and> rdPageCount rd = 1"
proof -
  obtain r where r: "getBlob ''a4'' ex_note = Inr r" using ex_note_read(5) by blast
  have pf: "page_file ''d'' ''d.metadata'' = None" "page_file ''d'' ''d/p1.rm'' = Some (''p1'', True)" by code_simp+
  show ?thesis
    using r pf by (simp add: listDocumentTree_entries(2) [OF ex_note_top] page_entry_def ex_note_read ex_note_parse(2)
        document_bundle_def filesByName_def ex_note_codec_def ex_files trashParent_def mapEntryType_def
        add_content_def blob_path_of_def add_page_file_def finish_pages_def Let_def)
qed

lemma ex_note_listed:
  "listDocumentTree ex_note_codec [] ex_note =
     Inr [\<lparr>dcID = ''d'', dcName = ''Diary'', dcType = ''document'', dcParent = [], dcPageCount = 0, dcFileType = []\<rparr>]"
proof -
  have "documentFromSubtree ex_note_codec (page_entry ''a2'' ''d'') ex_note =
      Inr (Some \<lparr>dcID = ''d'', dcName = ''Diary'', dcType = ''document'', dcParent = [], dcPageCount = 0, dcFileType = []\<rparr>)"
    by (simp add: documentFromSubtree_def page_entry_def ex_note_read ex_note_parse(2) last_hash_def ex_files
        is_metadata_def is_content_def HasSuffix_def ex_note_codec_def trashParent_def mapEntryType_def with_content_def)
  then show ?thesis by (simp add: listDocumentTree_entries(1) [OF ex_note_top] bind_sum_def sortDocuments_def)
qed

theorem render_agrees_listing_witness:
  "\<exists>rd. renderDocument ex_note_codec (\<lambda>_. None) ''d'' ex_note = Inr rd \<and> rdName rd = ''Diary'' \<and> rdRevision rd = ''a2''"
proof -
  let ?es = "[page_entry ''a2'' ''d'']"
  have reg: "regular_tree ex_note ?es"
    by (simp add: regular_tree_def regular_doc_def page_entry_def ex_note_read ex_note_parse(2) ex_files
        well_named_def is_metadata_def is_content_def HasSuffix_def)
  from render_agrees_listing [OF ex_note_top reg ex_note_listed, where pdf = "\<lambda>_. None" and i = "''d''"] show ?thesis
    by (cases "renderDocument ex_note_codec (\<lambda>_. None) ''d'' ex_note") (auto simp: agrees_def page_entry_def)
qed

end
