(* ===== verification/Rm_Ocr.thy ===== *)
theory Rm_Ocr
  imports Rm_Render Rag_Store Search_Index
begin

text \<open>
  The recognition queue of reMarkable pages (\<open>internal/source/remarkable/ocr.go\<close>): one row per document
  and page with the revision it was queued for, claims in queue order, the reclaim of jobs whose
  worker died, and the worker's handling of one job. Rendering a page and recognition are
  parameters that may fail; resolving a document is \<open>renderDocument\<close>.
\<close>

section \<open>The queue\<close>

datatype ocr_status = OcrPending | OcrInProgress | OcrDone | OcrFailed

record ocr_row =
  oID :: int
  oDoc :: string
  oPage :: int
  oRevision :: string
  oManual :: bool
  oStatus :: ocr_status
  oAttempts :: int
  oError :: string
  oQueuedAt :: millis
  oStartedAt :: millis
  oFinishedAt :: millis

record ocr_store =
  ocr_rows :: "ocr_row list"
  ocr_seq :: int

record ocrJob =
  ojID :: int
  ojDocumentID :: string
  ojPage :: int
  ojRevision :: string
  ojManual :: bool

record OCRQueueStatus =
  qsPending :: nat
  qsInProgress :: nat
  qsDone :: nat
  qsFailed :: nat

definition ocrStuckAfter :: millis where "ocrStuckAfter = 15 * 60000"
definition ocrMaxAttempts :: int where "ocrMaxAttempts = 5"

definition on_page :: "string \<Rightarrow> int \<Rightarrow> ocr_row \<Rightarrow> bool" where
  "on_page d p r \<longleftrightarrow> oDoc r = d \<and> oPage r = p"

definition reset_job :: "string \<Rightarrow> bool \<Rightarrow> millis \<Rightarrow> ocr_row \<Rightarrow> ocr_row" where
  "reset_job revision manual now r =
     r\<lparr>oRevision := revision, oManual := manual, oStatus := OcrPending, oAttempts := 0, oError := [],
       oQueuedAt := now, oStartedAt := 0, oFinishedAt := 0\<rparr>"

definition enqueueOCRPage ::
  "millis \<Rightarrow> string \<Rightarrow> int \<Rightarrow> string \<Rightarrow> bool \<Rightarrow> bool \<Rightarrow> ocr_store \<Rightarrow> ocr_store" where
  "enqueueOCRPage now documentID page revision force manual s =
     (if list_ex (on_page documentID page) (ocr_rows s)
      then s\<lparr>ocr_rows := map (\<lambda>r. if on_page documentID page r \<and> (force \<or> oRevision r \<noteq> revision)
             then reset_job revision manual now r else r) (ocr_rows s)\<rparr>
      else s\<lparr>ocr_seq := ocr_seq s + 1,
             ocr_rows := ocr_rows s @
               [\<lparr>oID = ocr_seq s + 1, oDoc = documentID, oPage = page, oRevision = revision, oManual = manual,
                 oStatus = OcrPending, oAttempts = 0, oError = [], oQueuedAt = now, oStartedAt = 0, oFinishedAt = 0\<rparr>]\<rparr>)"

definition next_pending :: "ocr_row list \<Rightarrow> ocr_row option" where
  "next_pending rs =
     (case sort_key (\<lambda>r. (oQueuedAt r, oID r)) (filter (\<lambda>r. oStatus r = OcrPending) rs) of [] \<Rightarrow> None | r # _ \<Rightarrow> Some r)"

definition update_id :: "int \<Rightarrow> (ocr_row \<Rightarrow> ocr_row) \<Rightarrow> ocr_store \<Rightarrow> ocr_store" where
  "update_id i f s = s\<lparr>ocr_rows := map (\<lambda>r. if oID r = i then f r else r) (ocr_rows s)\<rparr>"

definition claimNextOCRJob :: "millis \<Rightarrow> ocr_store \<Rightarrow> ocrJob option \<times> ocr_store" where
  "claimNextOCRJob now s =
     (case next_pending (ocr_rows s) of
        None \<Rightarrow> (None, s)
      | Some r \<Rightarrow>
          (Some \<lparr>ojID = oID r, ojDocumentID = oDoc r, ojPage = oPage r, ojRevision = oRevision r, ojManual = oManual r\<rparr>,
           update_id (oID r) (\<lambda>r. r\<lparr>oStatus := OcrInProgress, oAttempts := oAttempts r + 1, oStartedAt := now, oError := []\<rparr>) s))"

definition completeOCRJob :: "millis \<Rightarrow> int \<Rightarrow> ocr_store \<Rightarrow> ocr_store" where
  "completeOCRJob now i = update_id i (\<lambda>r. r\<lparr>oStatus := OcrDone, oFinishedAt := now, oError := []\<rparr>)"

definition failOCRJob :: "millis \<Rightarrow> int \<Rightarrow> string \<Rightarrow> ocr_store \<Rightarrow> ocr_store" where
  "failOCRJob now i msg = update_id i (\<lambda>r. r\<lparr>oStatus := OcrFailed, oFinishedAt := now, oError := take 1000 msg\<rparr>)"

definition deleteOCRJobs :: "string \<Rightarrow> ocr_store \<Rightarrow> ocr_store" where
  "deleteOCRJobs documentID s = s\<lparr>ocr_rows := filter (\<lambda>r. oDoc r \<noteq> documentID) (ocr_rows s)\<rparr>"

definition deleteAutomaticOCRJobs :: "string \<Rightarrow> ocr_store \<Rightarrow> ocr_store" where
  "deleteAutomaticOCRJobs documentID s =
     s\<lparr>ocr_rows := filter (\<lambda>r. \<not> (oDoc r = documentID \<and> \<not> oManual r)) (ocr_rows s)\<rparr>"

definition stuck :: "millis \<Rightarrow> millis \<Rightarrow> ocr_row \<Rightarrow> bool" where
  "stuck now olderThan r \<longleftrightarrow> oStatus r = OcrInProgress \<and> (olderThan > 0 \<longrightarrow> oStartedAt r < now - olderThan)"

definition abandoned :: string where
  "abandoned = ''abandoned in_progress after 5 attempts''"

definition exhausted :: "millis \<Rightarrow> millis \<Rightarrow> ocr_row \<Rightarrow> bool" where
  "exhausted now olderThan r \<longleftrightarrow> stuck now olderThan r \<and> oAttempts r \<ge> ocrMaxAttempts"

definition fail_exhausted :: "millis \<Rightarrow> millis \<Rightarrow> ocr_row \<Rightarrow> ocr_row" where
  "fail_exhausted now olderThan r =
     (if exhausted now olderThan r then r\<lparr>oStatus := OcrFailed, oFinishedAt := now, oError := abandoned\<rparr> else r)"

definition requeue_stuck :: "millis \<Rightarrow> millis \<Rightarrow> ocr_row \<Rightarrow> ocr_row" where
  "requeue_stuck now olderThan r = (if stuck now olderThan r then r\<lparr>oStatus := OcrPending, oStartedAt := 0\<rparr> else r)"

definition reclaimStuckOCRJobs :: "millis \<Rightarrow> millis \<Rightarrow> ocr_store \<Rightarrow> nat \<times> nat \<times> ocr_store" where
  "reclaimStuckOCRJobs now olderThan s =
     (let rs1 = map (fail_exhausted now olderThan) (ocr_rows s)
      in (length (filter (stuck now olderThan) rs1), length (filter (exhausted now olderThan) (ocr_rows s)),
          s\<lparr>ocr_rows := map (requeue_stuck now olderThan) rs1\<rparr>))"

definition ocrQueueStatus :: "ocr_store \<Rightarrow> OCRQueueStatus" where
  "ocrQueueStatus s =
     (let n = (\<lambda>st. length (filter (\<lambda>r. oStatus r = st) (ocr_rows s)))
      in \<lparr>qsPending = n OcrPending, qsInProgress = n OcrInProgress, qsDone = n OcrDone, qsFailed = n OcrFailed\<rparr>)"

section \<open>Documents\<close>

definition shouldAutoOCRDocument :: "RenderDocument \<Rightarrow> bool" where
  "shouldAutoOCRDocument doc =
     (let fileType = map to_lower (TrimSpace (rdFileType doc)) in
      if fileType = ''pdf'' \<or> fileType = ''epub'' \<or> rdPDFPath doc \<noteq> [] then False else rdPageRM doc \<noteq> [])"

definition ocr_pages :: "RenderDocument \<Rightarrow> int" where
  "ocr_pages doc =
     (let pages = (if rdPageCount doc = 0 then int (length (rdPageOrder doc)) else rdPageCount doc)
      in if pages = 0 \<and> rdPDFPath doc \<noteq> [] then 1 else pages)"

definition enqueueDocument :: "millis \<Rightarrow> RenderDocument \<Rightarrow> bool \<Rightarrow> bool \<Rightarrow> ocr_store \<Rightarrow> ocr_store" where
  "enqueueDocument now doc force manual s =
     fold (\<lambda>i. enqueueOCRPage now (rdID doc) (int i) (rdRevision doc) force manual) [0..<nat (ocr_pages doc)] s"

section \<open>The worker\<close>

text \<open>What the processor is built with: the codec and the page counter of \<open>renderDocument\<close>, the text of an
  error, the renderer, the recognizer, and the embedder with its model when one is configured.\<close>

record ocr_deps =
  odCodec :: rm_codec
  odPdfPages :: "string \<Rightarrow> int option"
  odErrText :: "render_error \<Rightarrow> string"
  odRenderPageJPEG :: "RenderDocument \<Rightarrow> int \<Rightarrow> string + string"
  odRecognize :: "string \<Rightarrow> string + string"
  odEmbedder :: "(string \<Rightarrow> vector option) option"
  odModel :: string

record ocr_world =
  owQueue :: ocr_store
  owIndex :: search_index
  owRag :: rag_store

datatype ocr_error = NoDocumentID | NotResolved render_error | NotRenderable | ListFailed tree_error

definition ReprocessDocument ::
  "ocr_deps \<Rightarrow> millis \<Rightarrow> string \<Rightarrow> rm_blobs \<Rightarrow> ocr_store \<Rightarrow> ocr_error + ocr_store" where
  "ReprocessDocument dp now documentID blobs s =
     (if TrimSpace documentID = [] then Inl NoDocumentID
      else case renderDocument (odCodec dp) (odPdfPages dp) documentID blobs of
             Inl x \<Rightarrow> Inl (NotResolved x)
           | Inr doc \<Rightarrow> if \<not> rdRenderable doc then Inl NotRenderable else Inr (enqueueDocument now doc True True s))"

definition enqueue_listed :: "ocr_deps \<Rightarrow> millis \<Rightarrow> rm_blobs \<Rightarrow> Document \<Rightarrow> ocr_store \<Rightarrow> ocr_store" where
  "enqueue_listed dp now blobs row s =
     (if dcType row = ''folder'' then s
      else case renderDocument (odCodec dp) (odPdfPages dp) (dcID row) blobs of
             Inl _ \<Rightarrow> s
           | Inr doc \<Rightarrow>
               if \<not> rdRenderable doc then s
               else if \<not> shouldAutoOCRDocument doc then deleteAutomaticOCRJobs (rdID doc) s
               else enqueueDocument now doc False False s)"

definition EnqueueMissingStale ::
  "ocr_deps \<Rightarrow> millis \<Rightarrow> (string \<times> string \<times> string \<times> string) list \<Rightarrow> rm_blobs \<Rightarrow> ocr_store \<Rightarrow> ocr_error + ocr_store" where
  "EnqueueMissingStale dp now legacy blobs s =
     (case listDocumentTree (odCodec dp) legacy blobs of
        Inl x \<Rightarrow> Inl (ListFailed x)
      | Inr docs \<Rightarrow> Inr (fold (enqueue_listed dp now blobs) docs s))"

definition remarkablePath :: "string \<Rightarrow> string" where
  "remarkablePath i = ''remarkable://'' @ i"

definition store_page :: "ocr_deps \<Rightarrow> millis \<Rightarrow> RenderDocument \<Rightarrow> int \<Rightarrow> string \<Rightarrow> ocr_world \<Rightarrow> ocr_world" where
  "store_page dp now doc page body w =
     (let path = remarkablePath (rdID doc);
          title = (if page = 0 then rdName doc else []);
          w1 = w\<lparr>owIndex := IndexPage (now div 1000) path page ''api'' body title [] (owIndex w)\<rparr>
      in case odEmbedder dp of
           None \<Rightarrow> w1
         | Some em \<Rightarrow> w1\<lparr>owRag := snd (EmbedAndStorePage em (SaveEmbedding (odModel dp) (now div 1000)) DeletePage path page body (owRag w1))\<rparr>)"

definition processOcrJob :: "ocr_deps \<Rightarrow> millis \<Rightarrow> rm_blobs \<Rightarrow> ocrJob \<Rightarrow> ocr_world \<Rightarrow> ocr_world" where
  "processOcrJob dp now blobs job w =
     (let failed = (\<lambda>msg. w\<lparr>owQueue := failOCRJob now (ojID job) msg (owQueue w)\<rparr>) in
      case renderDocument (odCodec dp) (odPdfPages dp) (ojDocumentID job) blobs of
        Inl x \<Rightarrow> failed (''resolve document: '' @ odErrText dp x)
      | Inr doc \<Rightarrow>
          if rdRevision doc \<noteq> [] \<and> ojRevision job \<noteq> [] \<and> rdRevision doc \<noteq> ojRevision job
          then w\<lparr>owQueue := completeOCRJob now (ojID job)
                   (enqueueOCRPage now (rdID doc) (ojPage job) (rdRevision doc) True (ojManual job) (owQueue w))\<rparr>
          else (case odRenderPageJPEG dp doc (ojPage job) of
                  Inl msg \<Rightarrow> failed (''render page: '' @ msg)
                | Inr jpeg \<Rightarrow>
                    (case odRecognize dp jpeg of
                       Inl msg \<Rightarrow> failed (''recognize page: '' @ msg)
                     | Inr body \<Rightarrow>
                         let w1 = store_page dp now doc (ojPage job) body w
                         in w1\<lparr>owQueue := completeOCRJob now (ojID job) (owQueue w1)\<rparr>)))"

section \<open>Invariant\<close>

definition ocr_inv :: "ocr_store \<Rightarrow> bool" where
  "ocr_inv s \<longleftrightarrow> distinct (map oID (ocr_rows s)) \<and> distinct (map (\<lambda>r. (oDoc r, oPage r)) (ocr_rows s)) \<and>
     (\<forall>r \<in> set (ocr_rows s). oID r \<le> ocr_seq s \<and> 0 \<le> oAttempts r \<and> oAttempts r \<le> 5 \<and>
        (oStatus r = OcrPending \<longrightarrow> oAttempts r < 5))"

text \<open>The calls the source, the worker and the watchdog make on the queue.\<close>

datatype ocr_call =
    EnqueuePage millis string int string bool bool
  | ClaimNext millis
  | CompleteJob millis int
  | FailJob millis int string
  | DeleteJobs string
  | DeleteAutomatic string
  | ReclaimStuck millis millis

primrec exec_call :: "ocr_call \<Rightarrow> ocr_store \<Rightarrow> ocr_store" where
  "exec_call (EnqueuePage now d p rvn force manual) s = enqueueOCRPage now d p rvn force manual s"
| "exec_call (ClaimNext now) s = snd (claimNextOCRJob now s)"
| "exec_call (CompleteJob now i) s = completeOCRJob now i s"
| "exec_call (FailJob now i msg) s = failOCRJob now i msg s"
| "exec_call (DeleteJobs d) s = deleteOCRJobs d s"
| "exec_call (DeleteAutomatic d) s = deleteAutomaticOCRJobs d s"
| "exec_call (ReclaimStuck now old) s = snd (snd (reclaimStuckOCRJobs now old s))"

lemma map_rows_inv:
  assumes "ocr_inv s" "\<And>r. oID (f r) = oID r \<and> oDoc (f r) = oDoc r \<and> oPage (f r) = oPage r"
    "\<And>r. r \<in> set (ocr_rows s) \<Longrightarrow> 0 \<le> oAttempts (f r) \<and> oAttempts (f r) \<le> 5 \<and> (oStatus (f r) = OcrPending \<longrightarrow> oAttempts (f r) < 5)"
  shows "ocr_inv (s\<lparr>ocr_rows := map f (ocr_rows s)\<rparr>)"
  using assms by (auto simp: ocr_inv_def comp_def)

lemma next_pending_Some: "next_pending rs = Some r \<Longrightarrow> r \<in> set rs \<and> oStatus r = OcrPending"
proof -
  assume "next_pending rs = Some r"
  then have "r \<in> set (sort_key (\<lambda>r. (oQueuedAt r, oID r)) (filter (\<lambda>r. oStatus r = OcrPending) rs))"
    unfolding next_pending_def by (auto simp del: set_sort split: list.splits)
  then show ?thesis by simp
qed

lemma filter_rows_inv: "ocr_inv s \<Longrightarrow> ocr_inv (s\<lparr>ocr_rows := filter P (ocr_rows s)\<rparr>)"
  by (auto simp: ocr_inv_def distinct_map_filter)

lemma ocr_inv_call: "ocr_inv s \<Longrightarrow> ocr_inv (exec_call c s)"
proof (induction c)
  case enqueue: (EnqueuePage now d p rvn force manual)
  show ?case
  proof (cases "list_ex (on_page d p) (ocr_rows s)")
    case True
    have "ocr_inv (s\<lparr>ocr_rows := map (\<lambda>r. if on_page d p r \<and> (force \<or> oRevision r \<noteq> rvn) then reset_job rvn manual now r else r) (ocr_rows s)\<rparr>)"
      by (rule map_rows_inv [OF enqueue]) (use enqueue in \<open>auto simp: reset_job_def ocr_inv_def\<close>)
    then show ?thesis using True by (simp add: enqueueOCRPage_def)
  next
    case False
    then have "(d, p) \<notin> (\<lambda>r. (oDoc r, oPage r)) ` set (ocr_rows s)" by (auto simp: list_ex_iff on_page_def)
    moreover have "ocr_seq s + 1 \<notin> oID ` set (ocr_rows s)" using enqueue by (auto simp: ocr_inv_def)
    ultimately show ?thesis using enqueue False by (auto simp: enqueueOCRPage_def ocr_inv_def)
  qed
next
  case claim: (ClaimNext now)
  show ?case
  proof (cases "next_pending (ocr_rows s)")
    case None
    then show ?thesis using claim by (simp add: claimNextOCRJob_def)
  next
    case (Some n)
    note n = next_pending_Some [OF Some]
    have "oAttempts r < 5" if "r \<in> set (ocr_rows s)" "oID r = oID n" for r
    proof -
      have "r = n" using that n claim by (auto simp: ocr_inv_def distinct_map dest: inj_onD)
      then show ?thesis using n claim by (auto simp: ocr_inv_def)
    qed
    then show ?thesis
      unfolding exec_call.simps claimNextOCRJob_def Some option.case snd_conv update_id_def
      by (intro map_rows_inv [OF claim]) (use claim in \<open>force simp: ocr_inv_def\<close>)+
  qed
next
  case (CompleteJob now i)
  then show ?case unfolding exec_call.simps completeOCRJob_def update_id_def by (intro map_rows_inv) (auto simp: ocr_inv_def)
next
  case (FailJob now i msg)
  then show ?case unfolding exec_call.simps failOCRJob_def update_id_def by (intro map_rows_inv) (auto simp: ocr_inv_def)
next
  case (DeleteJobs d)
  then show ?case unfolding exec_call.simps deleteOCRJobs_def by (rule filter_rows_inv)
next
  case (DeleteAutomatic d)
  then show ?case unfolding exec_call.simps deleteAutomaticOCRJobs_def by (rule filter_rows_inv)
next
  case (ReclaimStuck now old)
  then show ?case
    unfolding exec_call.simps reclaimStuckOCRJobs_def Let_def snd_conv map_map
    by (intro map_rows_inv) (auto simp: ocr_inv_def fail_exhausted_def requeue_stuck_def exhausted_def stuck_def ocrMaxAttempts_def)
qed

section \<open>Runs of the queue\<close>

definition empty_queue :: ocr_store where
  "empty_queue = \<lparr>ocr_rows = [], ocr_seq = 0\<rparr>"

text \<open>The calls an operation makes, read off its code.\<close>

definition document_calls :: "millis \<Rightarrow> RenderDocument \<Rightarrow> bool \<Rightarrow> bool \<Rightarrow> ocr_call list" where
  "document_calls now doc force manual =
     map (\<lambda>i. EnqueuePage now (rdID doc) (int i) (rdRevision doc) force manual) [0..<nat (ocr_pages doc)]"

definition listed_calls :: "ocr_deps \<Rightarrow> millis \<Rightarrow> rm_blobs \<Rightarrow> Document \<Rightarrow> ocr_call list" where
  "listed_calls dp now blobs row =
     (if dcType row = ''folder'' then []
      else case renderDocument (odCodec dp) (odPdfPages dp) (dcID row) blobs of
             Inl _ \<Rightarrow> []
           | Inr doc \<Rightarrow>
               if \<not> rdRenderable doc then []
               else if \<not> shouldAutoOCRDocument doc then [DeleteAutomatic (rdID doc)]
               else document_calls now doc False False)"

definition job_calls :: "ocr_deps \<Rightarrow> millis \<Rightarrow> rm_blobs \<Rightarrow> ocrJob \<Rightarrow> ocr_call list" where
  "job_calls dp now blobs job =
     (case renderDocument (odCodec dp) (odPdfPages dp) (ojDocumentID job) blobs of
        Inl x \<Rightarrow> [FailJob now (ojID job) (''resolve document: '' @ odErrText dp x)]
      | Inr doc \<Rightarrow>
          if rdRevision doc \<noteq> [] \<and> ojRevision job \<noteq> [] \<and> rdRevision doc \<noteq> ojRevision job
          then [EnqueuePage now (rdID doc) (ojPage job) (rdRevision doc) True (ojManual job), CompleteJob now (ojID job)]
          else (case odRenderPageJPEG dp doc (ojPage job) of
                  Inl msg \<Rightarrow> [FailJob now (ojID job) (''render page: '' @ msg)]
                | Inr jpeg \<Rightarrow>
                    (case odRecognize dp jpeg of
                       Inl msg \<Rightarrow> [FailJob now (ojID job) (''recognize page: '' @ msg)]
                     | Inr body \<Rightarrow> [CompleteJob now (ojID job)])))"

text \<open>One operation of the source, its worker or the watchdog, with the calls it makes on the queue.\<close>

inductive ocr_op :: "ocr_store \<Rightarrow> ocr_call list \<Rightarrow> ocr_store \<Rightarrow> bool" where
  start: "ocr_op s [ReclaimStuck now 0] (snd (snd (reclaimStuckOCRJobs now 0 s)))"
| watchdog: "ocr_op s [ReclaimStuck now ocrStuckAfter] (snd (snd (reclaimStuckOCRJobs now ocrStuckAfter s)))"
| claim: "ocr_op s [ClaimNext now] (snd (claimNextOCRJob now s))"
| job: "owQueue w = s \<Longrightarrow> ocr_op s (job_calls dp now blobs j) (owQueue (processOcrJob dp now blobs j w))"
| missing: "EnqueueMissingStale dp now legacy blobs s = Inr t \<Longrightarrow> listDocumentTree (odCodec dp) legacy blobs = Inr docs \<Longrightarrow>
    ocr_op s (concat (map (listed_calls dp now blobs) docs)) t"
| reprocess: "ReprocessDocument dp now d blobs s = Inr t \<Longrightarrow> renderDocument (odCodec dp) (odPdfPages dp) d blobs = Inr doc \<Longrightarrow>
    ocr_op s (document_calls now doc True True) t"
| delete: "ocr_op s [DeleteJobs d] (deleteOCRJobs d s)"

text \<open>Operations in any order, from the empty queue.\<close>

inductive ocr_run :: "ocr_call list \<Rightarrow> ocr_store \<Rightarrow> bool" where
  run_empty: "ocr_run [] empty_queue"
| run_op: "ocr_run cs s \<Longrightarrow> ocr_op s cs' t \<Longrightarrow> ocr_run (cs @ cs') t"

lemma document_calls_exec: "enqueueDocument now doc force manual s = fold exec_call (document_calls now doc force manual) s"
proof -
  have "exec_call (EnqueuePage now d p rvn force manual) = enqueueOCRPage now d p rvn force manual" for d p rvn by (rule ext) simp
  then show ?thesis by (simp add: enqueueDocument_def document_calls_def fold_map comp_def)
qed

lemma listed_calls_exec: "enqueue_listed dp now blobs row s = fold exec_call (listed_calls dp now blobs row) s"
  by (simp add: enqueue_listed_def listed_calls_def document_calls_exec split: sum.split)

lemma store_page_queue [simp]: "owQueue (store_page dp now doc page body w) = owQueue w"
  by (simp add: store_page_def Let_def split: option.split)

lemma job_calls_exec: "owQueue (processOcrJob dp now blobs j w) = fold exec_call (job_calls dp now blobs j) (owQueue w)"
  by (simp add: processOcrJob_def job_calls_def Let_def split: sum.split)

lemma fold_concat_calls: "fold (\<lambda>x. fold f (g x)) xs s = fold f (concat (map g xs)) s"
  by (induction xs arbitrary: s) simp_all

lemma ocr_op_exec: "ocr_op s cs t \<Longrightarrow> t = fold exec_call cs s"
proof (induction rule: ocr_op.induct)
  case (missing dp now legacy blobs s t docs)
  then have "t = fold (enqueue_listed dp now blobs) docs s" by (simp add: EnqueueMissingStale_def)
  moreover have "enqueue_listed dp now blobs = (\<lambda>row. fold exec_call (listed_calls dp now blobs row))"
    by (intro ext) (simp add: listed_calls_exec)
  ultimately show ?case by (simp add: fold_concat_calls)
next
  case (reprocess dp now d blobs s t doc)
  then show ?case by (auto simp: ReprocessDocument_def document_calls_exec split: if_splits)
qed (simp_all add: job_calls_exec)

lemma ocr_run_exec: "ocr_run cs s \<Longrightarrow> s = fold exec_call cs empty_queue"
  by (induction rule: ocr_run.induct) (auto dest: ocr_op_exec)

section \<open>Counting claims\<close>

text \<open>Whether an enqueue writes a fresh job for its page: a page without a row, a forced enqueue, or another
  revision than the one the row was queued for.\<close>

definition requeues :: "string \<Rightarrow> int \<Rightarrow> string \<Rightarrow> bool \<Rightarrow> ocr_store \<Rightarrow> bool" where
  "requeues d p revision force s \<longleftrightarrow>
     \<not> list_ex (on_page d p) (ocr_rows s) \<or> force \<or> list_ex (\<lambda>r. on_page d p r \<and> oRevision r \<noteq> revision) (ocr_rows s)"

text \<open>The number of times a page was handed to a worker since its job was last written by an enqueue,
  counted from the answers of the claims alone.\<close>

definition count_call :: "string \<Rightarrow> int \<Rightarrow> ocr_call \<Rightarrow> ocr_store \<Rightarrow> nat \<Rightarrow> nat" where
  "count_call d p c s n =
     (case c of
        ClaimNext now \<Rightarrow>
          (case fst (claimNextOCRJob now s) of
             None \<Rightarrow> n
           | Some j \<Rightarrow> if ojDocumentID j = d \<and> ojPage j = p then n + 1 else n)
      | EnqueuePage now d' p' rvn force manual \<Rightarrow> if d' = d \<and> p' = p \<and> requeues d p rvn force s then 0 else n
      | _ \<Rightarrow> n)"

fun claims_since_enqueue :: "string \<Rightarrow> int \<Rightarrow> ocr_call list \<Rightarrow> ocr_store \<Rightarrow> nat \<Rightarrow> nat" where
  "claims_since_enqueue d p [] s n = n"
| "claims_since_enqueue d p (c # cs) s n = claims_since_enqueue d p cs (exec_call c s) (count_call d p c s n)"

definition counted :: "string \<Rightarrow> int \<Rightarrow> ocr_store \<Rightarrow> nat \<Rightarrow> bool" where
  "counted d p s n \<longleftrightarrow> ocr_inv s \<and> n \<le> 5 \<and> (\<forall>r \<in> set (ocr_rows s). on_page d p r \<longrightarrow> oAttempts r = int n)"

lemma page_unique:
  assumes "ocr_inv s" "x \<in> set (ocr_rows s)" "y \<in> set (ocr_rows s)" "on_page d p x" "on_page d p y"
  shows "x = y"
  using assms by (auto simp: ocr_inv_def on_page_def distinct_map dest: inj_onD)

lemma id_unique:
  assumes "ocr_inv s" "x \<in> set (ocr_rows s)" "y \<in> set (ocr_rows s)" "oID x = oID y"
  shows "x = y"
  using assms by (auto simp: ocr_inv_def distinct_map dest: inj_onD)

lemma counted_call:
  assumes "counted d p s n"
  shows "counted d p (exec_call c s) (count_call d p c s n)"
proof -
  have inv: "ocr_inv s" and n: "n \<le> 5" "\<And>r. r \<in> set (ocr_rows s) \<Longrightarrow> on_page d p r \<Longrightarrow> oAttempts r = int n"
    using assms by (auto simp: counted_def)
  have "count_call d p c s n \<le> 5 \<and> (\<forall>r \<in> set (ocr_rows (exec_call c s)). on_page d p r \<longrightarrow> oAttempts r = int (count_call d p c s n))"
  proof (cases c)
    case (EnqueuePage now d' p' rvn force manual)
    show ?thesis
    proof (cases "list_ex (on_page d' p') (ocr_rows s)")
      case False
      then show ?thesis using n by (auto simp: EnqueuePage enqueueOCRPage_def count_call_def requeues_def on_page_def list_ex_iff)
    next
      case True
      define f where "f = (\<lambda>r. if on_page d' p' r \<and> (force \<or> oRevision r \<noteq> rvn) then reset_job rvn manual now r else r)"
      have rows: "ocr_rows (exec_call c s) = map f (ocr_rows s)" using True by (simp add: EnqueuePage enqueueOCRPage_def f_def)
      have page: "on_page d p (f r) \<longleftrightarrow> on_page d p r" for r by (simp add: f_def on_page_def reset_job_def)
      have "oAttempts (f r) = int (count_call d p c s n)" if r: "r \<in> set (ocr_rows s)" "on_page d p r" for r
      proof (cases "d' = d \<and> p' = p")
        case same: True
        have "requeues d p rvn force s \<longleftrightarrow> force \<or> oRevision r \<noteq> rvn"
        proof -
          have row: "x = r" if "x \<in> set (ocr_rows s)" "on_page d p x" for x by (rule page_unique [OF inv that(1) r(1) that(2) r(2)])
          have "list_ex (on_page d p) (ocr_rows s)" using True same by simp
          moreover have "list_ex (\<lambda>x. on_page d p x \<and> oRevision x \<noteq> rvn) (ocr_rows s) \<longleftrightarrow> oRevision r \<noteq> rvn"
            unfolding list_ex_iff using row r by metis
          ultimately show ?thesis by (simp add: requeues_def)
        qed
        then show ?thesis using same r n by (auto simp: EnqueuePage count_call_def reset_job_def f_def)
      next
        case False
        then have "\<not> on_page d' p' r" using r(2) by (auto simp: on_page_def)
        then show ?thesis using False r n by (auto simp: EnqueuePage count_call_def f_def)
      qed
      moreover have "count_call d p c s n \<le> 5" using n(1) by (simp add: EnqueuePage count_call_def)
      ultimately show ?thesis unfolding rows using page by auto
    qed
  next
    case (ClaimNext now)
    show ?thesis
    proof (cases "next_pending (ocr_rows s)")
      case None
      then show ?thesis using n by (auto simp: ClaimNext claimNextOCRJob_def count_call_def)
    next
      case (Some r)
      note r = next_pending_Some [OF Some]
      have lt: "oAttempts r < 5" using r inv by (auto simp: ocr_inv_def)
      have id: "x = r" if "x \<in> set (ocr_rows s)" "oID x = oID r" for x
        using id_unique [OF inv that(1) _ that(2)] r by blast
      show ?thesis
      proof (cases "on_page d p r")
        case True
        have pg: "x = r" if "x \<in> set (ocr_rows s)" "on_page d p x" for x using page_unique [OF inv that(1) _ that(2) True] r by blast
        have "n < 5" using n(2) [of r] r True lt by simp
        moreover have "oAttempts x = int n" "oID x = oID r" if "x \<in> set (ocr_rows s)" "oDoc x = d" "oPage x = p" for x
          using that n(2) [of x] pg [of x] by (simp_all add: on_page_def)
        ultimately show ?thesis using True Some
          by (auto simp: ClaimNext claimNextOCRJob_def count_call_def update_id_def on_page_def)
      next
        case False
        have "oID x \<noteq> oID r" if "x \<in> set (ocr_rows s)" "on_page d p x" for x
          using id [OF that(1)] that(2) False by auto
        moreover define g :: "ocr_row \<Rightarrow> ocr_row" where "g = (\<lambda>x. if oID x = oID r then x\<lparr>oStatus := OcrInProgress, oAttempts := oAttempts x + 1, oStartedAt := now, oError := []\<rparr> else x)"
        ultimately have "oAttempts (g x) = int n" if "x \<in> set (ocr_rows s)" "on_page d p (g x)" for x
          using that n(2) [of x] by (cases "oID x = oID r") (auto simp: g_def on_page_def)
        moreover have "ocr_rows (exec_call c s) = map g (ocr_rows s)"
          using Some by (simp add: ClaimNext claimNextOCRJob_def update_id_def g_def)
        moreover have "count_call d p c s n = n" using Some False by (auto simp: ClaimNext claimNextOCRJob_def count_call_def on_page_def)
        ultimately show ?thesis using n(1) by auto
      qed
    qed
  next
    case (CompleteJob now i)
    then show ?thesis using n by (auto simp: count_call_def completeOCRJob_def update_id_def on_page_def)
  next
    case (FailJob now i msg)
    then show ?thesis using n by (auto simp: count_call_def failOCRJob_def update_id_def on_page_def)
  next
    case (DeleteJobs x)
    then show ?thesis using n by (auto simp: count_call_def deleteOCRJobs_def on_page_def)
  next
    case (DeleteAutomatic x)
    then show ?thesis using n by (auto simp: count_call_def deleteAutomaticOCRJobs_def on_page_def)
  next
    case (ReclaimStuck now old)
    then show ?thesis using n
      by (auto simp: count_call_def reclaimStuckOCRJobs_def Let_def fail_exhausted_def requeue_stuck_def on_page_def)
  qed
  then show ?thesis using ocr_inv_call [OF inv] by (simp add: counted_def)
qed

lemma counted_calls: "counted d p s n \<Longrightarrow> counted d p (fold exec_call cs s) (claims_since_enqueue d p cs s n)"
  by (induction cs arbitrary: s n) (simp_all add: counted_call)

text \<open>
  C29. Whatever the source, the worker and the watchdog do and in whatever order, the queue keeps one row
  per page and its keys unique, and a page is handed to a worker at most five times from one enqueue
  that writes its job to the next: a page that always kills its worker is not tried for ever. The claims
  are counted from what the claims answer along the run; the row's counter of attempts is exactly this
  number. An enqueue that leaves the job alone (same revision, not forced) does not start the count
  again.
\<close>

theorem ocr_claims_bounded:
  assumes "ocr_run cs s"
  shows "s = fold exec_call cs empty_queue \<and> ocr_inv s \<and> claims_since_enqueue d p cs empty_queue 0 \<le> 5 \<and>
    (\<forall>r \<in> set (ocr_rows s). on_page d p r \<longrightarrow> oAttempts r = int (claims_since_enqueue d p cs empty_queue 0))"
proof -
  have "counted d p empty_queue 0" by (simp add: counted_def ocr_inv_def empty_queue_def)
  from counted_calls [OF this, of cs] show ?thesis using ocr_run_exec [OF assms] by (simp add: counted_def)
qed

section \<open>Reclaim\<close>

lemma stuck_fail_exhausted: "stuck now old (fail_exhausted now old r) \<longleftrightarrow> stuck now old r \<and> \<not> exhausted now old r"
  by (auto simp: fail_exhausted_def exhausted_def stuck_def)

lemma reclaimed_status:
  "oStatus (requeue_stuck now old (fail_exhausted now old r)) =
     (if exhausted now old r then OcrFailed else if stuck now old r then OcrPending else oStatus r)"
  by (simp add: requeue_stuck_def stuck_fail_exhausted) (simp add: fail_exhausted_def)

lemma stuck_status: "stuck now old r \<Longrightarrow> oStatus r = OcrInProgress" "exhausted now old r \<Longrightarrow> stuck now old r"
  by (simp_all add: stuck_def exhausted_def)

lemma reclaimed_not_stuck: "\<not> stuck now old (requeue_stuck now old r)"
  by (simp add: requeue_stuck_def stuck_def)

lemma reclaim_counts:
  "length (filter (stuck now old) (map (fail_exhausted now old) rs)) + length (filter (exhausted now old) rs) = length (filter (stuck now old) rs)"
  "length (filter (\<lambda>r. oStatus r = OcrPending) (map (requeue_stuck now old) (map (fail_exhausted now old) rs))) =
     length (filter (\<lambda>r. oStatus r = OcrPending) rs) + length (filter (stuck now old) (map (fail_exhausted now old) rs))"
  "length (filter (\<lambda>r. oStatus r = OcrFailed) (map (requeue_stuck now old) (map (fail_exhausted now old) rs))) =
     length (filter (\<lambda>r. oStatus r = OcrFailed) rs) + length (filter (exhausted now old) rs)"
  "length (filter (\<lambda>r. oStatus r = OcrDone) (map (requeue_stuck now old) (map (fail_exhausted now old) rs))) =
     length (filter (\<lambda>r. oStatus r = OcrDone) rs)"
  "length (filter (\<lambda>r. oStatus r = OcrInProgress) (map (requeue_stuck now old) (map (fail_exhausted now old) rs))) +
     length (filter (stuck now old) rs) = length (filter (\<lambda>r. oStatus r = OcrInProgress) rs)"
  "\<not> list_ex (stuck now old) (map (requeue_stuck now old) (map (fail_exhausted now old) rs))"
  by (induction rs; auto simp: stuck_fail_exhausted reclaimed_status reclaimed_not_stuck dest: stuck_status)+

text \<open>
  A reclaim accounts for every stuck job: those at the attempt limit move to failed and the others
  back to pending, by the numbers it returns; finished jobs and jobs still within the time bound
  stay, and no stuck job is left. At start-up (bound 0) no job at all is left in progress.
\<close>

theorem reclaimStuckOCRJobs_accounts:
  "case reclaimStuckOCRJobs now old s of (requeued, failed, t) \<Rightarrow>
     requeued + failed = length (filter (stuck now old) (ocr_rows s)) \<and>
     qsPending (ocrQueueStatus t) = qsPending (ocrQueueStatus s) + requeued \<and>
     qsFailed (ocrQueueStatus t) = qsFailed (ocrQueueStatus s) + failed \<and>
     qsDone (ocrQueueStatus t) = qsDone (ocrQueueStatus s) \<and>
     qsInProgress (ocrQueueStatus t) + requeued + failed = qsInProgress (ocrQueueStatus s) \<and>
     \<not> list_ex (stuck now old) (ocr_rows t) \<and> (old > 0 \<or> qsInProgress (ocrQueueStatus t) = 0)"
proof -
  have "old > 0 \<or> filter (\<lambda>r. oStatus r = OcrInProgress) rs = []" if "\<not> list_ex (stuck now old) rs" for rs
    using that by (auto simp: stuck_def list_ex_iff filter_empty_conv)
  then show ?thesis
    using reclaim_counts [of now old "ocr_rows s"]
    by (simp add: reclaimStuckOCRJobs_def ocrQueueStatus_def Let_def del: map_map)
qed

section \<open>A document that changes while its page is in work\<close>

lemma document_bundle_id: "document_bundle cd pdf i en fs s = Inr rd \<Longrightarrow> rdID rd = i"
  by (auto simp: document_bundle_def Let_def add_content_def split: option.splits sum.splits if_splits)

lemma renderDocument_id: "renderDocument cd pdf i s = Inr rd \<Longrightarrow> rdID rd = i"
  by (auto simp: renderDocument_def Let_def split: option.splits sum.splits if_splits dest: document_bundle_id)

lemma settled_row:
  assumes inv: "ocr_inv s" and r: "r \<in> set (ocr_rows s)" "oDoc r = d" "oPage r = p"
  shows "ocr_rows (completeOCRJob now (oID r) (enqueueOCRPage now d p rvn True manual s)) =
    map (\<lambda>x. if oID x = oID r then (reset_job rvn manual now x)\<lparr>oStatus := OcrDone, oFinishedAt := now, oError := []\<rparr> else x) (ocr_rows s)"
proof -
  have "on_page d p x \<longleftrightarrow> oID x = oID r" if "x \<in> set (ocr_rows s)" for x
    using that r inv by (auto simp: ocr_inv_def on_page_def distinct_map dest: inj_onD)
  moreover have "list_ex (on_page d p) (ocr_rows s)" using r by (auto simp: list_ex_iff on_page_def)
  ultimately show ?thesis by (auto simp: enqueueOCRPage_def completeOCRJob_def update_id_def reset_job_def)
qed

text \<open>
  A job whose document changed while it waited is not recognized, and the page is lost: the forced
  enqueue at the new revision and the completion of the job hit the same row, which ends as done with
  the new revision, so nothing is indexed and no later automatic enqueue at that revision
  queues the page again.
\<close>

theorem stale_revision_lost:
  assumes inv: "ocr_inv (owQueue w)"
    and r: "r \<in> set (ocr_rows (owQueue w))" "oID r = ojID job" "oDoc r = ojDocumentID job" "oPage r = ojPage job"
    and doc: "renderDocument (odCodec dp) (odPdfPages dp) (ojDocumentID job) blobs = Inr doc"
    and stale: "rdRevision doc \<noteq> []" "ojRevision job \<noteq> []" "rdRevision doc \<noteq> ojRevision job"
    and w': "w' = processOcrJob dp now blobs job w"
  shows "owIndex w' = owIndex w \<and> owRag w' = owRag w \<and>
    (\<exists>x \<in> set (ocr_rows (owQueue w')). oDoc x = ojDocumentID job \<and> oPage x = ojPage job \<and> oStatus x = OcrDone \<and> oRevision x = rdRevision doc) \<and>
    enqueueOCRPage later (ojDocumentID job) (ojPage job) (rdRevision doc) False manual (owQueue w') = owQueue w'"
proof -
  have eq: "w' = w\<lparr>owQueue := completeOCRJob now (ojID job)
      (enqueueOCRPage now (ojDocumentID job) (ojPage job) (rdRevision doc) True (ojManual job) (owQueue w))\<rparr>"
    using w' doc stale renderDocument_id [OF doc] by (simp add: processOcrJob_def Let_def)
  have rows: "ocr_rows (owQueue w') = map (\<lambda>x. if oID x = oID r then (reset_job (rdRevision doc) (ojManual job) now x)\<lparr>oStatus := OcrDone, oFinishedAt := now, oError := []\<rparr> else x)
      (ocr_rows (owQueue w))"
    using settled_row [OF inv r(1,3,4)] r(2) eq by simp
  have page: "oID x = oID r" if "x \<in> set (ocr_rows (owQueue w))" "oDoc x = oDoc r" "oPage x = oPage r" for x
    using that r(1) inv by (auto simp: ocr_inv_def distinct_map dest: inj_onD)
  let ?x = "(reset_job (rdRevision doc) (ojManual job) now r)\<lparr>oStatus := OcrDone, oFinishedAt := now, oError := []\<rparr>"
  have x: "?x \<in> set (ocr_rows (owQueue w'))" unfolding rows using r(1) by (auto intro!: image_eqI [of _ _ r])
  have "oRevision y = rdRevision doc" if "y \<in> set (ocr_rows (owQueue w'))" "on_page (ojDocumentID job) (ojPage job) y" for y
    using that page r(3,4) unfolding rows by (auto simp: on_page_def reset_job_def split: if_splits)
  then have "map (\<lambda>y. if on_page (ojDocumentID job) (ojPage job) y \<and> oRevision y \<noteq> rdRevision doc then reset_job (rdRevision doc) manual later y else y)
      (ocr_rows (owQueue w')) = ocr_rows (owQueue w')"
    by (intro map_idI) auto
  moreover have "list_ex (on_page (ojDocumentID job) (ojPage job)) (ocr_rows (owQueue w'))"
    using x r(3,4) by (auto simp: list_ex_iff on_page_def reset_job_def intro: bexI [of _ ?x])
  ultimately have "enqueueOCRPage later (ojDocumentID job) (ojPage job) (rdRevision doc) False manual (owQueue w') = owQueue w'"
    by (simp add: enqueueOCRPage_def)
  moreover have "\<exists>x \<in> set (ocr_rows (owQueue w')). oDoc x = ojDocumentID job \<and> oPage x = ojPage job \<and> oStatus x = OcrDone \<and> oRevision x = rdRevision doc"
    by (rule bexI [OF _ x]) (simp add: reset_job_def r)
  ultimately show ?thesis using eq by simp
qed

section \<open>Examples\<close>

definition ex_deps :: ocr_deps where
  "ex_deps = \<lparr>odCodec = ex_note_codec, odPdfPages = (\<lambda>_. None), odErrText = (\<lambda>_. []), odRenderPageJPEG = (\<lambda>_ _. Inr []),
     odRecognize = Inr, odEmbedder = None, odModel = []\<rparr>"

definition ex_ocr_job :: ocrJob where
  "ex_ocr_job = \<lparr>ojID = 1, ojDocumentID = ''d'', ojPage = 0, ojRevision = ''a0'', ojManual = False\<rparr>"

definition ex_ocr_queue :: ocr_store where
  "ex_ocr_queue = snd (claimNextOCRJob 20 (enqueueOCRPage 10 ''d'' 0 ''a0'' False False empty_queue))"

lemma ex_reprocess:
  "ReprocessDocument ex_deps 10 ''d'' ex_note empty_queue = Inr (enqueueOCRPage 10 ''d'' 0 ''a2'' True True empty_queue)"
proof -
  obtain rd where rd: "renderDocument ex_note_codec (\<lambda>_. None) ''d'' ex_note = Inr rd"
    "rdID rd = ''d''" "rdRevision rd = ''a2''" "rdRenderable rd" "rdPageCount rd = 1" using ex_note_bundle by blast
  then show ?thesis
    by (simp add: ReprocessDocument_def TrimSpace_def is_space_def ex_deps_def enqueueDocument_def ocr_pages_def)
qed

theorem ocr_claims_bounded_witness:
  "claims_since_enqueue ''d'' 0 [EnqueuePage 10 ''d'' 0 ''a2'' True True, ClaimNext 20, ReclaimStuck 30 0, ClaimNext 40] empty_queue 0 = 2 \<and>
   list_all (\<lambda>r. oAttempts r = 2)
     (ocr_rows (fold exec_call [EnqueuePage 10 ''d'' 0 ''a2'' True True, ClaimNext 20, ReclaimStuck 30 0, ClaimNext 40] empty_queue))"
proof -
  let ?cs = "[EnqueuePage 10 ''d'' 0 ''a2'' True True, ClaimNext 20, ReclaimStuck 30 0, ClaimNext 40]"
  obtain rd where rd: "renderDocument ex_note_codec (\<lambda>_. None) ''d'' ex_note = Inr rd"
    "rdID rd = ''d''" "rdRevision rd = ''a2''" "rdRenderable rd" "rdPageCount rd = 1" using ex_note_bundle by blast
  then have dc: "document_calls 10 rd True True = [EnqueuePage 10 ''d'' 0 ''a2'' True True]"
    by (simp add: document_calls_def ocr_pages_def)
  let ?s1 = "exec_call (EnqueuePage 10 ''d'' 0 ''a2'' True True) empty_queue"
  let ?s2 = "exec_call (ClaimNext 20) ?s1" and ?s3 = "exec_call (ReclaimStuck 30 0) (exec_call (ClaimNext 20) ?s1)"
  have "ocr_op empty_queue [EnqueuePage 10 ''d'' 0 ''a2'' True True] ?s1"
    using ocr_op.reprocess [OF ex_reprocess, of rd] rd(1) dc by (simp add: ex_deps_def)
  then have 1: "ocr_run [EnqueuePage 10 ''d'' 0 ''a2'' True True] ?s1" using run_op [OF run_empty] by simp
  then have 2: "ocr_run [EnqueuePage 10 ''d'' 0 ''a2'' True True, ClaimNext 20] ?s2" using run_op [OF 1 ocr_op.claim] by simp
  then have 3: "ocr_run [EnqueuePage 10 ''d'' 0 ''a2'' True True, ClaimNext 20, ReclaimStuck 30 0] ?s3"
    using run_op [OF 2 ocr_op.start] by simp
  then have run: "ocr_run ?cs (exec_call (ClaimNext 40) ?s3)" using run_op [OF 3 ocr_op.claim] by simp
  have n: "claims_since_enqueue ''d'' 0 ?cs empty_queue 0 = 2"
    by (simp add: count_call_def empty_queue_def enqueueOCRPage_def claimNextOCRJob_def next_pending_def update_id_def
        reclaimStuckOCRJobs_def fail_exhausted_def requeue_stuck_def exhausted_def stuck_def ocrMaxAttempts_def requeues_def Let_def)
  moreover have "list_all (on_page ''d'' 0) (ocr_rows (fold exec_call ?cs empty_queue))"
    by (simp add: empty_queue_def enqueueOCRPage_def claimNextOCRJob_def next_pending_def update_id_def on_page_def
        reclaimStuckOCRJobs_def fail_exhausted_def requeue_stuck_def exhausted_def stuck_def ocrMaxAttempts_def Let_def)
  ultimately show ?thesis using ocr_claims_bounded [OF run, of "''d''" 0] by (auto simp: list_all_iff)
qed

theorem stale_revision_lost_witness:
  "\<exists>x \<in> set (ocr_rows (owQueue (processOcrJob ex_deps 30 ex_note ex_ocr_job \<lparr>owQueue = ex_ocr_queue, owIndex = [], owRag = \<lparr>note_embeddings = [], cache = []\<rparr>\<rparr>))).
     oStatus x = OcrDone \<and> oRevision x = ''a2''"
proof -
  let ?w = "\<lparr>owQueue = ex_ocr_queue, owIndex = [], owRag = \<lparr>note_embeddings = [], cache = []\<rparr>\<rparr>"
  obtain rd where rd: "renderDocument ex_note_codec (\<lambda>_. None) ''d'' ex_note = Inr rd" "rdRevision rd = ''a2''"
    using ex_note_bundle by blast
  have q: "ex_ocr_queue = \<lparr>ocr_rows = [\<lparr>oID = 1, oDoc = ''d'', oPage = 0, oRevision = ''a0'', oManual = False, oStatus = OcrInProgress,
      oAttempts = 1, oError = [], oQueuedAt = 10, oStartedAt = 20, oFinishedAt = 0\<rparr>], ocr_seq = 1\<rparr>"
    by (simp add: ex_ocr_queue_def empty_queue_def enqueueOCRPage_def claimNextOCRJob_def next_pending_def update_id_def)
  have "ocr_inv ex_ocr_queue" by (simp add: q ocr_inv_def)
  then show ?thesis
    using stale_revision_lost [of ?w "hd (ocr_rows ex_ocr_queue)" ex_ocr_job ex_deps ex_note rd _ 30 0 False] rd
    by (auto simp: q ex_ocr_job_def ex_deps_def)
qed

end
