(* ===== verification/Rm_Indexer.thy ===== *)
theory Rm_Indexer
  imports Rm_Ocr
begin

text \<open>
  The metadata index of the reMarkable tree (\<open>internal/source/remarkable/index.go\<close>): one reserved row
  per listed document with its name and folder path, and the removal of rows whose document left the
  tree. The walk up the parents ends on any tree, cyclic ones included.
\<close>

section \<open>Folder paths\<close>

definition docs_by_id :: "Document list \<Rightarrow> Document table" where
  "docs_by_id docs = rev (map (\<lambda>d. (dcID d, d)) docs)"

function folder_names :: "Document table \<Rightarrow> string list \<Rightarrow> string \<Rightarrow> string list" where
  "folder_names byID seen parentID =
     (if parentID = [] \<or> parentID \<in> set seen then []
      else case map_of byID parentID of
             None \<Rightarrow> []
           | Some parent \<Rightarrow>
               folder_names byID (parentID # seen) (dcParent parent) @
               (if dcName parent \<noteq> [] then [dcName parent] else []))"
  by pat_completeness auto

termination
proof (relation "measure (\<lambda>(byID, seen, _). card (fst ` set byID - set seen))", goal_cases)
  case 1
  show ?case by simp
next
  case (2 byID seen parentID parent)
  then have "parentID \<in> fst ` set byID - set seen"
    by (auto dest!: map_of_SomeD intro!: image_eqI [of _ _ "(parentID, parent)"])
  then have "card (fst ` set byID - set (parentID # seen)) < card (fst ` set byID - set seen)"
    by (intro psubset_card_mono) auto
  then show ?case by simp
qed

declare folder_names.simps [simp del]

definition folderPath :: "string \<Rightarrow> Document table \<Rightarrow> string" where
  "folderPath parentID byID = join_with '' / '' (folder_names byID [] parentID)"

definition metadataBody :: "Document \<Rightarrow> Document table \<Rightarrow> string" where
  "metadataBody doc byID =
     (let folder = folderPath (dcParent doc) byID
      in join_with [CHR 0x0A]
           ([dcName doc] @ (if folder \<noteq> [] then [''Folder: '' @ folder] else []) @
            (if dcPageCount doc > 0 then [''Pages: '' @ FormatInt (dcPageCount doc)] else [])))"

definition metadataKeywords :: "Document \<Rightarrow> Document table \<Rightarrow> string" where
  "metadataKeywords doc byID =
     join_with '' '' ([dcName doc, folderPath (dcParent doc) byID] @
       (if dcPageCount doc > 0 then [FormatInt (dcPageCount doc) @ '' pages''] else []))"

section \<open>The indexer\<close>

definition metadataPage :: int where "metadataPage = - 1"

text \<open>\<open>LIKE\<close> with the pattern \<open>remarkable://%\<close> ignores the case of ASCII letters.\<close>

definition remarkable_path :: "string \<Rightarrow> bool" where
  "remarkable_path p = HasPrefix (map to_lower p) ''remarkable://''"

definition pruneStale :: "string list \<Rightarrow> search_index \<Rightarrow> search_index" where
  "pruneStale active ix =
     fold (\<lambda>path ix. if path \<in> set active then ix else DeleteIndex path ix)
       (filter remarkable_path (map (fst \<circ> fst) ix)) ix"

definition index_doc :: "int \<Rightarrow> Document table \<Rightarrow> Document \<Rightarrow> search_index \<Rightarrow> search_index" where
  "index_doc now byID doc =
     IndexPage now (remarkablePath (dcID doc)) metadataPage ''remarkable'' (metadataBody doc byID) (dcName doc) (metadataKeywords doc byID)"

definition indexAll ::
  "int \<Rightarrow> rm_codec \<Rightarrow> (string \<times> string \<times> string \<times> string) list \<Rightarrow> rm_blobs \<Rightarrow> search_index \<Rightarrow> tree_error + search_index" where
  "indexAll now cd legacy blobs ix =
     (case listDocumentTree cd legacy blobs of
        Inl x \<Rightarrow> Inl x
      | Inr docs \<Rightarrow>
          let byID = docs_by_id docs;
              listed = filter (\<lambda>d. dcType d \<noteq> ''folder'') docs
          in Inr (pruneStale (map (\<lambda>d. remarkablePath (dcID d)) listed) (fold (index_doc now byID) listed ix)))"

definition deleteDocument :: "string \<Rightarrow> search_index \<Rightarrow> search_index" where
  "deleteDocument i = DeleteIndex (remarkablePath i)"

section \<open>Properties\<close>

lemma folder_names_bound: "length (folder_names byID seen p) \<le> card (fst ` set byID - set seen)"
proof (induction byID seen p rule: folder_names.induct)
  case (1 byID seen p)
  show ?case
  proof (cases "p = [] \<or> p \<in> set seen \<or> map_of byID p = None")
    case True
    then show ?thesis by (auto simp: folder_names.simps)
  next
    case False
    then obtain d where d: "map_of byID p = Some d" by blast
    have "p \<in> fst ` set byID - set seen" using False d by (auto dest!: map_of_SomeD intro!: image_eqI [of _ _ "(p, d)"])
    then have "card (fst ` set byID - set (p # seen)) < card (fst ` set byID - set seen)"
      by (intro psubset_card_mono) auto
    moreover have "length (folder_names byID (p # seen) (dcParent d)) \<le> card (fst ` set byID - set (p # seen))"
      using 1 [OF _ d] False by blast
    ultimately show ?thesis using False d by (simp add: folder_names.simps [of byID seen p])
  qed
qed

lemma map_of_pruneStale:
  "map_of (pruneStale active ix) k =
     (if remarkable_path (fst k) \<and> fst k \<notin> set active then None else map_of ix k)"
proof -
  have del: "map_of (fold (\<lambda>path ix. if path \<in> set active then ix else DeleteIndex path ix) ps ix) k =
      (if fst k \<in> set ps - set active then None else map_of ix k)" for ps and ix :: search_index
    by (induction ps arbitrary: ix) (auto simp: map_of_DeleteIndex)
  have "map_of ix k = None" if "fst k \<notin> fst ` fst ` set ix"
    using that by (metis imageI map_of_SomeD option.exhaust fst_conv)
  then show ?thesis by (auto simp: pruneStale_def del image_comp)
qed

lemma map_of_index_docs:
  "map_of (fold (index_doc now byID) ds ix) k =
     (case find (\<lambda>d. k = (remarkablePath (dcID d), metadataPage)) (rev ds) of
        None \<Rightarrow> map_of ix k
      | Some d \<Rightarrow> Some \<lparr>TitleText = dcName d, BodyText = metadataBody d byID, Keywords = metadataKeywords d byID,
                       Source = ''remarkable'', Model = [], IndexedAt = now\<rparr>)"
  by (induction ds rule: rev_induct) (auto simp: index_doc_def map_of_IndexPage)

lemma find_unique: "x \<in> set xs \<Longrightarrow> P x \<Longrightarrow> (\<And>y. y \<in> set xs \<Longrightarrow> P y \<Longrightarrow> y = x) \<Longrightarrow> find P xs = Some x"
  using find_None_iff [of P xs] find_Some_iff [of P xs] by (cases "find P xs") (blast, metis nth_mem)

definition metadata_row :: "int \<Rightarrow> Document list \<Rightarrow> Document \<Rightarrow> NoteDocument" where
  "metadata_row now docs d =
     \<lparr>TitleText = dcName d, BodyText = metadataBody d (docs_by_id docs), Keywords = metadataKeywords d (docs_by_id docs),
      Source = ''remarkable'', Model = [], IndexedAt = now\<rparr>"

text \<open>After a run over the tree the search index holds, under the \<open>remarkable://\<close> paths, exactly the
  listed documents: each has its metadata row with its name as title, the rows of its recognized pages
  and every row of another source stay as they were, and a path that left the tree has no row.\<close>

lemma indexAll_rows:
  assumes l: "listDocumentTree cd legacy blobs = Inr docs" and dist: "distinct (map dcID docs)"
    and run: "indexAll now cd legacy blobs ix = Inr ix'"
  shows "map_of ix' (p, g) =
    (case find (\<lambda>d. dcType d \<noteq> ''folder'' \<and> remarkablePath (dcID d) = p) docs of
       None \<Rightarrow> if remarkable_path p then None else map_of ix (p, g)
     | Some d \<Rightarrow>
         if g = metadataPage
         then Some (metadata_row now docs d)
         else map_of ix (p, g))"
proof -
  let ?L = "filter (\<lambda>d. dcType d \<noteq> ''folder'') docs"
  have ix': "ix' = pruneStale (map (\<lambda>d. remarkablePath (dcID d)) ?L) (fold (index_doc now (docs_by_id docs)) ?L ix)"
    using l run by (simp add: indexAll_def Let_def)
  show ?thesis
  proof (cases "find (\<lambda>d. dcType d \<noteq> ''folder'' \<and> remarkablePath (dcID d) = p) docs")
    case None
    then have no: "\<forall>d \<in> set ?L. remarkablePath (dcID d) \<noteq> p" by (auto simp: find_None_iff)
    then have "find (\<lambda>d. (p, g) = (remarkablePath (dcID d), metadataPage)) (rev ?L) = None"
      by (auto simp: find_None_iff)
    then show ?thesis using no None by (auto simp: ix' map_of_pruneStale map_of_index_docs)
  next
    case (Some d)
    then have d: "d \<in> set ?L" "remarkablePath (dcID d) = p" by (auto simp: find_Some_iff)
    have only: "x = d" if "x \<in> set ?L" "remarkablePath (dcID x) = p" for x
      using that d dist by (auto simp: remarkablePath_def distinct_map dest: inj_onD)
    have "find (\<lambda>x. (p, g) = (remarkablePath (dcID x), metadataPage)) (rev ?L) = (if g = metadataPage then Some d else None)"
    proof (cases "g = metadataPage")
      case True
      have "find (\<lambda>x. (p, g) = (remarkablePath (dcID x), metadataPage)) (rev ?L) = Some d"
        by (rule find_unique [OF _ _ only]) (use d True in simp_all)
      then show ?thesis using True by simp
    qed (auto simp: find_None_iff)
    moreover have "p \<in> set (map (\<lambda>d. remarkablePath (dcID d)) ?L)"
      unfolding set_map using d by (intro image_eqI [of _ _ d]) simp_all
    ultimately show ?thesis
      unfolding Some ix' map_of_pruneStale map_of_index_docs option.case fst_conv by (simp add: metadata_row_def del: set_map)
  qed
qed

text \<open>
  The folder path of a document is computed on every tree, one whose parents form a cycle
  included: no folder is named twice on the way up, so it has at most as many names as there are documents.
\<close>

theorem folderPath_bounded:
  "\<exists>names. folderPath p (docs_by_id docs) = join_with '' / '' names \<and> length names \<le> length docs"
proof (intro exI conjI)
  show "folderPath p (docs_by_id docs) = join_with '' / '' (folder_names (docs_by_id docs) [] p)" by (simp add: folderPath_def)
  have "card (fst ` set (docs_by_id docs)) \<le> length (docs_by_id docs)" by (rule le_trans [OF card_image_le card_length]) simp
  then show "length (folder_names (docs_by_id docs) [] p) \<le> length docs"
    using folder_names_bound [of "docs_by_id docs" "[]" p] by (simp add: docs_by_id_def)
qed

end
