(* ===== verification/Rm_Server.thy ===== *)
theory Rm_Server
  imports Rm_Auth Rm_Indexer Rm_Commit
begin

text \<open>
  The HTTP protocol of the reMarkable cloud emulation (\<open>internal/source/remarkable/protocol.go\<close>) over its
  whole state: the tokens and signed URLs, the document store of the older protocol, the blob store,
  and the search index and recognition queue every commit refreshes. A handler is a function of the
  decoded request (\<open>None\<close> for a body that is no JSON) and the state. Pushing notifications to connected
  devices is not modelled, and the enqueueing a refresh starts in the background happens at once.
\<close>

section \<open>State\<close>

record rm_doc =
  rcVersion :: int
  rcModifiedClient :: string
  rcType :: string
  rcVisibleName :: string
  rcCurrentPage :: int
  rcBookmarked :: bool
  rcParent :: string
  rcPayloadPath :: string
  rcDeleted :: bool
  rcUpdatedAt :: millis

record documentMeta =
  dmID :: string
  dmVersion :: int
  dmModifiedClient :: string
  dmType :: string
  dmVisibleName :: string
  dmCurrentPage :: int
  dmBookmarked :: bool
  dmParent :: string

record rm_server =
  svAuth :: rm_auth
  svBlobs :: rm_blobs
  svDocs :: "rm_doc table"
  svDocFiles :: "string table"
  svIndex :: search_index
  svQueue :: ocr_store

text \<open>Indexer and recognizer are optional.\<close>

record rm_config =
  cfIndexing :: bool
  cfOcr :: "ocr_deps option"
  cfCodec :: rm_codec
  cfBaseURL :: string

section \<open>The older document store\<close>

definition putDocument :: "rm_env \<Rightarrow> string \<Rightarrow> string \<Rightarrow> rm_server \<Rightarrow> rm_server" where
  "putDocument e docID body s =
     (let path = ''documents/'' @ digestName e docID;
          row = (case map_of (svDocs s) docID of
                   Some r \<Rightarrow> r\<lparr>rcPayloadPath := path\<rparr>
                 | None \<Rightarrow> \<lparr>rcVersion = 1, rcModifiedClient = [], rcType = [], rcVisibleName = [], rcCurrentPage = 0,
                            rcBookmarked = False, rcParent = [], rcPayloadPath = path, rcDeleted = False, rcUpdatedAt = 0\<rparr>)
      in s\<lparr>svDocFiles := upsert path body (svDocFiles s),
           svDocs := upsert docID (row\<lparr>rcVersion := (if rcVersion row \<le> 0 then 1 else rcVersion row),
                       rcUpdatedAt := clock e, rcDeleted := False\<rparr>) (svDocs s)\<rparr>)"

definition getDocument :: "string \<Rightarrow> rm_server \<Rightarrow> string option" where
  "getDocument docID s =
     (case map_of (svDocs s) docID of
        None \<Rightarrow> None
      | Some r \<Rightarrow> if rcDeleted r then None else Some (rcPayloadPath r))"

definition upsertMetadata :: "millis \<Rightarrow> documentMeta \<Rightarrow> rm_server \<Rightarrow> rm_server" where
  "upsertMetadata now meta s =
     (let path = (case map_of (svDocs s) (dmID meta) of Some r \<Rightarrow> rcPayloadPath r | None \<Rightarrow> [])
      in s\<lparr>svDocs := upsert (dmID meta)
             \<lparr>rcVersion = (if dmVersion meta \<le> 0 then 1 else dmVersion meta), rcModifiedClient = dmModifiedClient meta,
              rcType = dmType meta, rcVisibleName = dmVisibleName meta, rcCurrentPage = dmCurrentPage meta,
              rcBookmarked = dmBookmarked meta, rcParent = dmParent meta, rcPayloadPath = path, rcDeleted = False,
              rcUpdatedAt = now\<rparr> (svDocs s)\<rparr>)"

definition meta_of :: "string \<times> rm_doc \<Rightarrow> documentMeta" where
  "meta_of = (\<lambda>(i, r). \<lparr>dmID = i, dmVersion = rcVersion r, dmModifiedClient = rcModifiedClient r, dmType = rcType r,
     dmVisibleName = rcVisibleName r, dmCurrentPage = rcCurrentPage r, dmBookmarked = rcBookmarked r, dmParent = rcParent r\<rparr>)"

definition listMetadata :: "string \<Rightarrow> rm_server \<Rightarrow> documentMeta list" where
  "listMetadata docID s =
     map meta_of (sort_key (\<lambda>(i, r). (- rcUpdatedAt r, i))
       (filter (\<lambda>(i, r). \<not> rcDeleted r \<and> (docID = [] \<or> i = docID)) (svDocs s)))"

definition deleteDocumentRow :: "millis \<Rightarrow> string \<Rightarrow> rm_server \<Rightarrow> rm_server" where
  "deleteDocumentRow now docID s =
     (case map_of (svDocs s) docID of
        None \<Rightarrow> s
      | Some r \<Rightarrow> s\<lparr>svDocs := upsert docID (r\<lparr>rcDeleted := True, rcUpdatedAt := now\<rparr>) (svDocs s)\<rparr>)"

text \<open>What the tree listing falls back to.\<close>

definition legacy_rows :: "rm_server \<Rightarrow> (string \<times> string \<times> string \<times> string) list" where
  "legacy_rows s = map (\<lambda>m. (dmID m, dmVisibleName m, dmType m, dmParent m)) (listMetadata [] s)"

section \<open>Refreshing what is derived\<close>

definition refreshMetadataIndex :: "rm_config \<Rightarrow> millis \<Rightarrow> rm_server \<Rightarrow> rm_server" where
  "refreshMetadataIndex cf now s =
     (let s1 = (if cfIndexing cf
                then (case indexAll (now div 1000) (cfCodec cf) (legacy_rows s) (svBlobs s) (svIndex s) of
                        Inl _ \<Rightarrow> s | Inr ix \<Rightarrow> s\<lparr>svIndex := ix\<rparr>)
                else s)
      in case cfOcr cf of
           None \<Rightarrow> s1
         | Some dp \<Rightarrow>
             (case EnqueueMissingStale dp now (legacy_rows s1) (svBlobs s1) (svQueue s1) of
                Inl _ \<Rightarrow> s1 | Inr q \<Rightarrow> s1\<lparr>svQueue := q\<rparr>))"

definition deleteMetadataIndex :: "rm_config \<Rightarrow> string \<Rightarrow> rm_server \<Rightarrow> rm_server" where
  "deleteMetadataIndex cf i s =
     (let s1 = (if cfIndexing cf then s\<lparr>svIndex := deleteDocument i (svIndex s)\<rparr> else s)
      in case cfOcr cf of None \<Rightarrow> s1 | Some _ \<Rightarrow> s1\<lparr>svQueue := deleteOCRJobs i (svQueue s1)\<rparr>)"

section \<open>Signed URLs\<close>

text \<open>One token per item, each from the random source, which may fail.\<close>

fun issue_each ::
  "('i \<Rightarrow> presignedTarget) \<Rightarrow> millis \<Rightarrow> string list \<Rightarrow> 'i list \<Rightarrow> rm_auth \<Rightarrow> string list option \<times> rm_auth" where
  "issue_each target now rnds [] a = (Some [], a)"
| "issue_each target now [] (_ # _) a = (None, a)"
| "issue_each target now (r # rnds) (x # xs) a =
     (case issuePresigned r now (target x) urlTokenTTL a of
        Inl _ \<Rightarrow> (None, a)
      | Inr (tok, a1) \<Rightarrow>
          (case issue_each target now rnds xs a1 of
             (None, a2) \<Rightarrow> (None, a2)
           | (Some toks, a2) \<Rightarrow> (Some (tok # toks), a2)))"

definition doc_target :: "string \<Rightarrow> string \<Rightarrow> presignedTarget" where
  "doc_target scope i = \<lparr>psKind = ''document'', psScope = scope, psDocumentID = i, psBlobID = []\<rparr>"

definition blob_target :: "string \<Rightarrow> string \<Rightarrow> presignedTarget" where
  "blob_target scope path = \<lparr>psKind = ''blob'', psScope = scope, psDocumentID = [], psBlobID = path\<rparr>"

record uploadResponse =
  urID :: string
  urVersion :: int
  urURL :: string
  urExpires :: millis

definition handleUploadRequest ::
  "rm_config \<Rightarrow> millis \<Rightarrow> string list \<Rightarrow> (string \<times> int) list option \<Rightarrow> rm_server \<Rightarrow> uploadResponse list http \<times> rm_server" where
  "handleUploadRequest cf now rnds req s =
     (case req of
        None \<Rightarrow> (Http 400, s)
      | Some items \<Rightarrow>
          (case issue_each (\<lambda>(i, _). doc_target ''write'' i) now rnds items (svAuth s) of
             (None, a) \<Rightarrow> (Http 500, s\<lparr>svAuth := a\<rparr>)
           | (Some toks, a) \<Rightarrow>
               (Reply (map (\<lambda>((i, v), tok). \<lparr>urID = i, urVersion = v, urURL = cfBaseURL cf @ ''/storage/'' @ tok,
                         urExpires = now + urlTokenTTL\<rparr>) (zip items toks)),
                s\<lparr>svAuth := a\<rparr>)))"

definition handleUpdateStatus ::
  "rm_config \<Rightarrow> millis \<Rightarrow> documentMeta list option \<Rightarrow> rm_server \<Rightarrow> (string \<times> int) list http \<times> rm_server" where
  "handleUpdateStatus cf now req s =
     (case req of
        None \<Rightarrow> (Http 400, s)
      | Some metas \<Rightarrow>
          (Reply (map (\<lambda>m. (dmID m, dmVersion m)) metas), refreshMetadataIndex cf now (fold (upsertMetadata now) metas s)))"

definition handleDelete ::
  "rm_config \<Rightarrow> millis \<Rightarrow> string list option \<Rightarrow> rm_server \<Rightarrow> string list http \<times> rm_server" where
  "handleDelete cf now req s =
     (case req of
        None \<Rightarrow> (Http 400, s)
      | Some ids \<Rightarrow> (Reply ids, fold (\<lambda>i s. deleteMetadataIndex cf i (deleteDocumentRow now i s)) ids s))"

definition handleListDocuments ::
  "rm_config \<Rightarrow> millis \<Rightarrow> string list \<Rightarrow> bool \<Rightarrow> string \<Rightarrow> rm_server \<Rightarrow> (documentMeta \<times> string) list http \<times> rm_server" where
  "handleListDocuments cf now rnds withBlob docID s =
     (let metas = listMetadata docID s in
      if \<not> withBlob then (Reply (map (\<lambda>m. (m, [])) metas), s)
      else case issue_each (\<lambda>m. doc_target ''read'' (dmID m)) now rnds metas (svAuth s) of
             (None, a) \<Rightarrow> (Http 500, s\<lparr>svAuth := a\<rparr>)
           | (Some toks, a) \<Rightarrow> (Reply (zip metas (map (\<lambda>tok. cfBaseURL cf @ ''/storage/'' @ tok) toks)), s\<lparr>svAuth := a\<rparr>))"

definition signed_blob ::
  "string \<Rightarrow> rm_config \<Rightarrow> millis \<Rightarrow> string list \<Rightarrow> string option \<Rightarrow> rm_server \<Rightarrow> string http \<times> rm_server" where
  "signed_blob scope cf now rnds req s =
     (case req of
        None \<Rightarrow> (Http 400, s)
      | Some path \<Rightarrow>
          (case issue_each (blob_target scope) now rnds [path] (svAuth s) of
             (Some [tok], a) \<Rightarrow> (Reply (cfBaseURL cf @ ''/blobstorage/'' @ tok), s\<lparr>svAuth := a\<rparr>)
           | (_, a) \<Rightarrow> (Http 500, s\<lparr>svAuth := a\<rparr>)))"

definition handleSignedBlobDownload ::
  "rm_config \<Rightarrow> millis \<Rightarrow> string list \<Rightarrow> string option \<Rightarrow> rm_server \<Rightarrow> string http \<times> rm_server" where
  "handleSignedBlobDownload = signed_blob ''read''"

definition handleSignedBlobUpload ::
  "rm_config \<Rightarrow> millis \<Rightarrow> string list \<Rightarrow> string option \<Rightarrow> rm_server \<Rightarrow> string http \<times> rm_server" where
  "handleSignedBlobUpload = signed_blob ''write''"

definition handleSyncComplete :: "rm_config \<Rightarrow> millis \<Rightarrow> tokenClaims \<Rightarrow> rm_server \<Rightarrow> string http \<times> rm_server" where
  "handleSyncComplete cf now claims s = (Reply (tcDeviceID claims), refreshMetadataIndex cf now s)"

section \<open>Serving\<close>

text \<open>\<open>http.ServeFile\<close>: the empty name is the current directory of the process, which is listed.\<close>

datatype served = Bytes string | DirectoryListing

definition ServeFile :: "string \<Rightarrow> string table \<Rightarrow> served http" where
  "ServeFile path fs =
     (if path = [] then Reply DirectoryListing
      else case map_of fs path of None \<Rightarrow> Http 404 | Some d \<Rightarrow> Reply (Bytes d))"

definition signed_target :: "millis \<Rightarrow> string \<Rightarrow> string \<Rightarrow> string \<Rightarrow> rm_server \<Rightarrow> presignedTarget option" where
  "signed_target now kind scope tok s =
     (case loadPresigned now tok (svAuth s) of
        Inl _ \<Rightarrow> None
      | Inr t \<Rightarrow> if psKind t \<noteq> kind \<or> psScope t \<noteq> scope then None else Some t)"

definition handleStorageGet :: "millis \<Rightarrow> string \<Rightarrow> rm_server \<Rightarrow> served http" where
  "handleStorageGet now tok s =
     (case signed_target now ''document'' ''read'' tok s of
        None \<Rightarrow> Http 403
      | Some t \<Rightarrow> (case getDocument (psDocumentID t) s of None \<Rightarrow> Http 404 | Some path \<Rightarrow> ServeFile path (svDocFiles s)))"

definition handleStoragePut :: "rm_env \<Rightarrow> string \<Rightarrow> string \<Rightarrow> rm_server \<Rightarrow> unit http \<times> rm_server" where
  "handleStoragePut e tok body s =
     (case signed_target (clock e) ''document'' ''write'' tok s of
        None \<Rightarrow> (Http 403, s)
      | Some t \<Rightarrow> (Reply (), putDocument e (psDocumentID t) body s))"

text \<open>A blob is served with its generation and, when it converts, the checksum header.\<close>

definition serveBlobByID :: "string \<Rightarrow> rm_server \<Rightarrow> (served \<times> int \<times> string option) http" where
  "serveBlobByID blobID s =
     (case getBlob blobID (svBlobs s) of
        Inl _ \<Rightarrow> Http 404
      | Inr r \<Rightarrow>
          (case ServeFile (bPath r) (files (svBlobs s)) of
             Http n \<Rightarrow> Http n
           | Reply d \<Rightarrow> Reply (d, bGen r, crc32cHexToHeader (bCRC r))))"

definition handleBlobGet :: "millis \<Rightarrow> string \<Rightarrow> rm_server \<Rightarrow> (served \<times> int \<times> string option) http" where
  "handleBlobGet now tok s =
     (case signed_target now ''blob'' ''read'' tok s of None \<Rightarrow> Http 403 | Some t \<Rightarrow> serveBlobByID (psBlobID t) s)"

definition put_blob_direct :: "rm_env \<Rightarrow> string \<Rightarrow> string \<Rightarrow> rm_server \<Rightarrow> int http \<times> rm_server" where
  "put_blob_direct e blobID body s =
     (case putBlob e blobID body 0 (svBlobs s) of
        (Inl _, b) \<Rightarrow> (Http 500, s\<lparr>svBlobs := b\<rparr>)
      | (Inr g, b) \<Rightarrow> (Reply g, s\<lparr>svBlobs := b\<rparr>))"

definition handleBlobPut :: "rm_env \<Rightarrow> string \<Rightarrow> string \<Rightarrow> rm_server \<Rightarrow> int http \<times> rm_server" where
  "handleBlobPut e tok body s =
     (case signed_target (clock e) ''blob'' ''write'' tok s of
        None \<Rightarrow> (Http 403, s)
      | Some t \<Rightarrow> put_blob_direct e (psBlobID t) body s)"

definition handleGetBlobDirect :: "string \<Rightarrow> rm_server \<Rightarrow> (served \<times> int \<times> string option) http" where
  "handleGetBlobDirect fileName s = serveBlobByID fileName s"

definition handlePutBlobDirect :: "rm_env \<Rightarrow> string \<Rightarrow> string \<Rightarrow> rm_server \<Rightarrow> unit http \<times> rm_server" where
  "handlePutBlobDirect e fileName body s =
     (case put_blob_direct e fileName body s of (Http n, t) \<Rightarrow> (Http n, t) | (Reply _, t) \<Rightarrow> (Reply (), t))"

section \<open>The root\<close>

definition putRoot :: "rm_env \<Rightarrow> rm_config \<Rightarrow> (int \<times> string) option \<Rightarrow> rm_server \<Rightarrow> (int \<times> string) http \<times> rm_server" where
  "putRoot e cf req s =
     (case handlePutRootV3 e req (svBlobs s) of
        ((_, Some g), b) \<Rightarrow>
          (Reply (g, case req of None \<Rightarrow> [] | Some (_, h) \<Rightarrow> h), refreshMetadataIndex cf (clock e) (s\<lparr>svBlobs := b\<rparr>))
      | ((n, None), b) \<Rightarrow> (Http n, s\<lparr>svBlobs := b\<rparr>))"

definition handleGetRootV4 :: "rm_server \<Rightarrow> (int \<times> string) http" where
  "handleGetRootV4 s =
     (case getBlob rootBlobID (svBlobs s) of
        Inl _ \<Rightarrow> Reply (0, [])
      | Inr r \<Rightarrow> (case osReadFile (bPath r) (svBlobs s) of Inl _ \<Rightarrow> Http 500 | Inr d \<Rightarrow> Reply (bGen r, d)))"

section \<open>User endpoints\<close>

definition user_endpoint ::
  "(string \<Rightarrow> userTokenClaims option) \<Rightarrow> millis \<Rightarrow> string \<Rightarrow> (tokenClaims \<Rightarrow> rm_server \<Rightarrow> 'a http \<times> rm_server) \<Rightarrow>
   rm_server \<Rightarrow> 'a http \<times> rm_server" where
  "user_endpoint parse now header next s =
     (case withUserAuth parse now header (svAuth s) of
        (Http n, a) \<Rightarrow> (Http n, s\<lparr>svAuth := a\<rparr>)
      | (Reply c, a) \<Rightarrow> next c (s\<lparr>svAuth := a\<rparr>))"

section \<open>Signed uploads\<close>

lemma crcHex_header: "crc32cHexToHeader (crcHex b) = Some (crc32cHeaderValue b)"
  by (auto simp: crc32cHexToHeader_def crcHex_def crc32cHeaderValue_def split: option.split)

lemma serve_view:
  assumes "blobs_inv e K b" "svBlobs s = b" "view b i = Some (g, d)"
  shows "serveBlobByID i s = Reply (Bytes d, g, Some (crc32cHeaderValue d))"
proof -
  obtain r where r: "map_of (remarkable_blobs b) i = Some r" "bGen r = g" "map_of (files b) (bPath r) = Some d"
    using assms(3) by (auto simp: view_def split: option.splits)
  have "own_path e i (bPath r)" "bCRC r = crcHex d"
    using assms(1) r unfolding blobs_inv_def by (metis, metis option.inject)
  then have "bPath r \<noteq> []" by (auto simp: own_path_def blob_path_def)
  then show ?thesis using r assms(2) \<open>bCRC r = crcHex d\<close>
    by (simp add: serveBlobByID_def getBlob_def ServeFile_def crcHex_header)
qed

text \<open>
  A signed blob URL grants exactly one thing: while it has not expired, a PUT with it stores the body
  under the blob it was signed for, and only there, with the next generation, and the blob is then
  served with that generation and the checksum of the body. With any other token (unknown, expired, for
  reading, for a document) the request is refused and nothing changes.
\<close>

theorem handleBlobPut_confined:
  assumes wf: "blobs_wf e K (svBlobs s)" and ids: "\<forall>i. signed_target (clock e) ''blob'' ''write'' tok s = Some i \<longrightarrow> psBlobID i \<in> K"
  shows "case signed_target (clock e) ''blob'' ''write'' tok s of
      None \<Rightarrow> handleBlobPut e tok body s = (Http 403, s)
    | Some t \<Rightarrow>
        (let g = next_gen (view (svBlobs s) (psBlobID t)); s' = snd (handleBlobPut e tok body s) in
         fst (handleBlobPut e tok body s) = Reply g \<and> s' = s\<lparr>svBlobs := svBlobs s'\<rparr> \<and>
         view (svBlobs s') = (view (svBlobs s))(psBlobID t \<mapsto> (g, body)) \<and>
         serveBlobByID (psBlobID t) s' = Reply (Bytes body, g, Some (crc32cHeaderValue body)))"
proof (cases "signed_target (clock e) ''blob'' ''write'' tok s")
  case None
  then show ?thesis by (simp add: handleBlobPut_def)
next
  case (Some t)
  have w: "no_collision e K" "blobs_inv e K (svBlobs s)" "psBlobID t \<in> K" using wf ids Some by (auto simp: blobs_wf_def)
  obtain b where b: "putBlob e (psBlobID t) body 0 (svBlobs s) = (Inr (next_gen (view (svBlobs s) (psBlobID t))), b)"
    "blobs_inv e K b" "view b = (view (svBlobs s))(psBlobID t \<mapsto> (next_gen (view (svBlobs s) (psBlobID t)), body))"
    using putBlob_plain [OF w, of body] by blast
  have "handleBlobPut e tok body s = (Reply (next_gen (view (svBlobs s) (psBlobID t))), s\<lparr>svBlobs := b\<rparr>)"
    using Some b(1) by (simp add: handleBlobPut_def put_blob_direct_def)
  moreover have "serveBlobByID (psBlobID t) (s\<lparr>svBlobs := b\<rparr>) =
      Reply (Bytes body, next_gen (view (svBlobs s) (psBlobID t)), Some (crc32cHeaderValue body))"
    using b(2,3) by (intro serve_view [where b = b]) simp_all
  ultimately show ?thesis using Some b(3) by (simp add: Let_def)
qed

section \<open>Documents\<close>

lemma issued_loads:
  assumes "map_of (remarkable_presigned a) r = None"
  shows "issue_each target now (r # rnds) [x] a =
      (Some [r], a\<lparr>remarkable_presigned := upsert r (target x, now + urlTokenTTL) (remarkable_presigned a)\<rparr>)"
  using assms by (simp add: issuePresigned_def)

lemma single_key:
  assumes "unique_keys xs" "map_of xs k = Some v" "P v"
  shows "filter (\<lambda>(i, r). P r \<and> i = k) xs = [(k, v)]"
  using assms
proof (induction xs)
  case (Cons x xs)
  then show ?case
    by (cases x) (auto simp: filter_empty_conv image_iff split: if_splits dest!: map_of_SomeD)
qed simp

text \<open>
  The older document protocol carries a document through: the URL answered to an upload request accepts
  the content for half an hour, the document is then listed with a download URL, and that URL answers
  with the bytes that were stored.
\<close>

theorem upload_download:
  assumes req: "handleUploadRequest cf t0 (r1 # rnds) (Some [(i, v)]) s = (Reply out, s1)" and fresh: "r1 \<noteq> r2"
    "map_of (remarkable_presigned (svAuth s)) r1 = None" "map_of (remarkable_presigned (svAuth s)) r2 = None"
    and i: "i \<noteq> []" and uniq: "unique_keys (svDocs s)" and put_time: "clock e \<le> t0 + urlTokenTTL"
    and put: "handleStoragePut e r1 body s1 = (ans, s2)"
    and list: "handleListDocuments cf t2 (r2 # rnds2) True i s2 = (Reply docs, s3)" and get_time: "t3 \<le> t2 + urlTokenTTL"
  shows "map urURL out = [cfBaseURL cf @ ''/storage/'' @ r1] \<and> ans = Reply () \<and>
    map (\<lambda>(m, u). (dmID m, u)) docs = [(i, cfBaseURL cf @ ''/storage/'' @ r2)] \<and>
    handleStorageGet t3 r2 s3 = Reply (Bytes body)"
proof -
  have s1: "s1 = s\<lparr>svAuth := (svAuth s)\<lparr>remarkable_presigned := upsert r1 (doc_target ''write'' i, t0 + urlTokenTTL) (remarkable_presigned (svAuth s))\<rparr>\<rparr>"
    "map urURL out = [cfBaseURL cf @ ''/storage/'' @ r1]"
    using req by (auto simp: handleUploadRequest_def issued_loads [OF fresh(2)] simp del: issue_each.simps)
  have tgt: "signed_target (clock e) ''document'' ''write'' r1 s1 = Some (doc_target ''write'' i)"
    using put_time by (simp add: s1 signed_target_def loadPresigned_def doc_target_def)
  then have s2: "ans = Reply ()" "s2 = putDocument e i body s1"
    using put by (simp_all add: handleStoragePut_def doc_target_def)
  let ?path = "''documents/'' @ digestName e i"
  obtain row where row: "map_of (svDocs s2) i = Some row" "rcPayloadPath row = ?path" "\<not> rcDeleted row"
    by (auto simp: s2 putDocument_def Let_def split: option.splits)
  have stored: "map_of (svDocFiles s2) ?path = Some body" by (simp add: s2 putDocument_def Let_def)
  have "unique_keys (svDocs s2)" using uniq by (simp add: s2 s1 putDocument_def Let_def distinct_update)
  then have "filter (\<lambda>(j, r). \<not> rcDeleted r \<and> (i = [] \<or> j = i)) (svDocs s2) = [(i, row)]"
    using single_key [OF _ row(1), of "\<lambda>r. \<not> rcDeleted r"] row(3) i by simp
  then have lm: "listMetadata i s2 = [meta_of (i, row)]" by (simp add: listMetadata_def)
  have "map_of (remarkable_presigned (svAuth s2)) r2 = None"
    using fresh by (simp add: s2 s1 putDocument_def Let_def)
  note tok = issued_loads [OF this]
  have s3: "s3 = s2\<lparr>svAuth := (svAuth s2)\<lparr>remarkable_presigned := upsert r2 (doc_target ''read'' i, t2 + urlTokenTTL) (remarkable_presigned (svAuth s2))\<rparr>\<rparr>"
    "docs = [(meta_of (i, row), cfBaseURL cf @ ''/storage/'' @ r2)]"
    using list by (simp_all add: handleListDocuments_def lm tok meta_of_def del: issue_each.simps)
  have "handleStorageGet t3 r2 s3 = Reply (Bytes body)"
    using get_time row stored
    by (simp add: handleStorageGet_def signed_target_def loadPresigned_def s3 doc_target_def getDocument_def ServeFile_def)
  then show ?thesis using s1(2) s2(1) s3(2) by (simp add: meta_of_def)
qed

text \<open>
  A document announced by its metadata alone has no content file: its download URL answers with the
  listing of the server's working directory instead of an error.
\<close>

theorem metadata_only_listing:
  assumes "dmID m \<noteq> []" and "map_of (svDocs s) (dmID m) = None"
    and "signed_target t ''document'' ''read'' tok (upsertMetadata now m s) = Some (doc_target ''read'' (dmID m))"
  shows "handleStorageGet t tok (upsertMetadata now m s) = Reply DirectoryListing"
  using assms by (simp add: handleStorageGet_def doc_target_def getDocument_def upsertMetadata_def Let_def ServeFile_def)

section \<open>Commits\<close>

lemma refresh_keeps:
  "svBlobs (refreshMetadataIndex cf now s) = svBlobs s" "svDocs (refreshMetadataIndex cf now s) = svDocs s"
  "svAuth (refreshMetadataIndex cf now s) = svAuth s"
  by (simp_all add: refreshMetadataIndex_def Let_def split: option.split sum.split)

lemma refresh_index:
  assumes "cfIndexing cf" "indexAll (now div 1000) (cfCodec cf) (legacy_rows s) (svBlobs s) (svIndex s) = Inr ix"
  shows "svIndex (refreshMetadataIndex cf now s) = ix"
  using assms by (simp add: refreshMetadataIndex_def Let_def split: option.split sum.split)

lemma root_view:
  assumes "view (svBlobs s) rootBlobID = Some (n, h)"
  shows "handleGetRootV4 s = Reply (n, h)"
  using assms by (auto simp: handleGetRootV4_def view_def getBlob_def osReadFile_def split: option.splits)

text \<open>
  C17. A committed root is what clients see next: a PUT of the root that is answered with a generation makes
  the root read back with that generation and hash, leaves every other blob alone, and
  refreshes the search index: under every \<open>remarkable://\<close> path it holds what the listing of the new tree
  says, with the rows of recognized pages of listed documents kept and every other path cleared. The index half is
  for a server with indexing on whose new tree lists without an error and names no document twice; SHA-1 must not
  collide on the blob ids of the store.
\<close>

theorem putRoot_visible:
  assumes wf: "blobs_wf e K (svBlobs s)" "rootBlobID \<in> K" and put: "putRoot e cf (Some (g, h)) s = (Reply (n, h'), s')"
    and ix: "cfIndexing cf" and docs: "listDocumentTree (cfCodec cf) (legacy_rows s') (svBlobs s') = Inr docs" "distinct (map dcID docs)"
  shows "h' = h \<and> n = next_gen (view (svBlobs s) rootBlobID) \<and> handleGetRootV4 s' = Reply (n, h) \<and>
    view (svBlobs s') = (view (svBlobs s))(rootBlobID \<mapsto> (n, h)) \<and>
    map_of (svIndex s') (p, pg) =
      (case find (\<lambda>d. dcType d \<noteq> ''folder'' \<and> remarkablePath (dcID d) = p) docs of
         None \<Rightarrow> if remarkable_path p then None else map_of (svIndex s) (p, pg)
       | Some d \<Rightarrow>
           if pg = metadataPage then Some (metadata_row (clock e div 1000) docs d) else map_of (svIndex s) (p, pg))"
proof -
  obtain res b where pb: "putBlob e rootBlobID h g (svBlobs s) = (res, b)" by (cases "putBlob e rootBlobID h g (svBlobs s)")
  have w: "no_collision e K" "blobs_inv e K (svBlobs s)" using wf(1) by (auto simp: blobs_wf_def)
  note spec = putBlob_spec [OF w wf(2) pb]
  have inr: "res = Inr n" "h' = h" "s' = refreshMetadataIndex cf (clock e) (s\<lparr>svBlobs := b\<rparr>)"
    using put pb by (auto simp: putRoot_def handlePutRootV3_def split: sum.splits)
  have b: "svBlobs s' = b" by (simp add: inr refresh_keeps)
  have lr: "legacy_rows s' = legacy_rows (s\<lparr>svBlobs := b\<rparr>)"
    by (simp add: inr legacy_rows_def listMetadata_def refresh_keeps)
  have v: "view b = (view (svBlobs s))(rootBlobID \<mapsto> (n, h))" "n = next_gen (view (svBlobs s) rootBlobID)"
    using spec inr(1) by auto
  have get: "handleGetRootV4 s' = Reply (n, h)"
    using fun_cong [OF v(1), of rootBlobID] b by (intro root_view) simp
  obtain ixx where run: "indexAll (clock e div 1000) (cfCodec cf) (legacy_rows (s\<lparr>svBlobs := b\<rparr>)) b (svIndex s) = Inr ixx"
    using docs(1) lr b by (simp add: indexAll_def Let_def)
  have "svIndex s' = ixx" using refresh_index [OF ix, of "clock e" "s\<lparr>svBlobs := b\<rparr>"] run by (simp add: inr)
  moreover have "listDocumentTree (cfCodec cf) (legacy_rows (s\<lparr>svBlobs := b\<rparr>)) b = Inr docs" using docs(1) lr b by simp
  ultimately show ?thesis using indexAll_rows [OF _ docs(2) run] get v b inr(2) by simp
qed

section \<open>Examples\<close>

definition ex_config :: rm_config where
  "ex_config = \<lparr>cfIndexing = True, cfOcr = None, cfCodec = ex_note_codec, cfBaseURL = ''u''\<rparr>"

definition ex_server :: rm_server where
  "ex_server = \<lparr>svAuth = \<lparr>remarkable_devices = [], remarkable_tokens = [],
       remarkable_presigned = [(''t'', (blob_target ''write'' ''x'', clock ex_env + 5))]\<rparr>,
     svBlobs = ex_blobs, svDocs = [], svDocFiles = [], svIndex = [], svQueue = empty_queue\<rparr>"

theorem handleBlobPut_confined_witness:
  "fst (handleBlobPut ex_env ''t'' ''hello'' ex_server) = Reply (next_gen (view ex_blobs ''x'')) \<and>
   serveBlobByID ''x'' (snd (handleBlobPut ex_env ''t'' ''hello'' ex_server)) =
     Reply (Bytes ''hello'', next_gen (view ex_blobs ''x''), Some (crc32cHeaderValue ''hello''))"
proof -
  have t: "signed_target (clock ex_env) ''blob'' ''write'' ''t'' ex_server = Some (blob_target ''write'' ''x'')"
    by (simp add: signed_target_def loadPresigned_def ex_server_def blob_target_def)
  have "blobs_wf ex_env {''root'', ''x''} (svBlobs ex_server)" by (simp add: ex_server_def ex_blobs_wf(1))
  from handleBlobPut_confined [OF this, of "''t''" "''hello''"] t show ?thesis
    by (simp add: Let_def blob_target_def ex_server_def)
qed

theorem upload_download_witness:
  "\<exists>s1 s2 s3 out docs. handleUploadRequest ex_config 1 [''a''] (Some [(''d'', 1)]) ex_server = (Reply out, s1) \<and>
     handleStoragePut ex_env ''a'' ''body'' s1 = (Reply (), s2) \<and>
     handleListDocuments ex_config 3 [''b''] True ''d'' s2 = (Reply docs, s3) \<and> handleStorageGet 4 ''b'' s3 = Reply (Bytes ''body'')"
proof -
  obtain out s1 where 1: "handleUploadRequest ex_config 1 [''a''] (Some [(''d'', 1)]) ex_server = (Reply out, s1)"
    by (simp add: handleUploadRequest_def issuePresigned_def ex_server_def)
  have p: "map_of (remarkable_presigned (svAuth s1)) ''b'' = None" "svDocs s1 = []"
    using 1 by (auto simp: handleUploadRequest_def issuePresigned_def ex_server_def)
  obtain ans s2 where 2: "handleStoragePut ex_env ''a'' ''body'' s1 = (ans, s2)" by (metis surj_pair)
  have q: "map_of (remarkable_presigned (svAuth s2)) ''b'' = None" "length (listMetadata ''d'' s2) \<le> 1"
    using 2 p by (auto simp: handleStoragePut_def putDocument_def Let_def listMetadata_def split: option.splits)
  obtain docs s3 where 3: "handleListDocuments ex_config 3 [''b''] True ''d'' s2 = (Reply docs, s3)"
    using q by (cases "listMetadata ''d'' s2") (auto simp: handleListDocuments_def issuePresigned_def)
  have "clock ex_env \<le> 1 + urlTokenTTL" "(4 :: int) \<le> 3 + urlTokenTTL" "unique_keys (svDocs ex_server)"
    "map_of (remarkable_presigned (svAuth ex_server)) ''a'' = None" "map_of (remarkable_presigned (svAuth ex_server)) ''b'' = None"
    by (simp_all add: ex_env_def urlTokenTTL_def ex_server_def)
  then show ?thesis using upload_download [OF 1 _ _ _ _ _ _ 2 3] 1 2 3 by auto
qed

definition ex_meta :: documentMeta where
  "ex_meta = \<lparr>dmID = ''d'', dmVersion = 1, dmModifiedClient = [], dmType = ''DocumentType'', dmVisibleName = ''N'',
     dmCurrentPage = 0, dmBookmarked = False, dmParent = []\<rparr>"

theorem metadata_only_listing_witness:
  "handleStorageGet 3 ''b'' (snd (handleListDocuments ex_config 2 [''b''] True ''d'' (upsertMetadata 1 ex_meta ex_server))) = Reply DirectoryListing"
proof -
  let ?a = "(svAuth ex_server)\<lparr>remarkable_presigned := upsert ''b'' (doc_target ''read'' ''d'', 2 + urlTokenTTL) (remarkable_presigned (svAuth ex_server))\<rparr>"
  have lm: "listMetadata ''d'' (upsertMetadata 1 ex_meta ex_server) = [ex_meta]"
    by (simp add: listMetadata_def upsertMetadata_def ex_meta_def ex_server_def meta_of_def)
  have "snd (handleListDocuments ex_config 2 [''b''] True ''d'' (upsertMetadata 1 ex_meta ex_server)) = upsertMetadata 1 ex_meta (ex_server\<lparr>svAuth := ?a\<rparr>)"
    unfolding handleListDocuments_def lm
    by (simp add: issuePresigned_def ex_meta_def upsertMetadata_def Let_def ex_server_def)
  moreover have "signed_target 3 ''document'' ''read'' ''b'' (upsertMetadata 1 ex_meta (ex_server\<lparr>svAuth := ?a\<rparr>)) = Some (doc_target ''read'' (dmID ex_meta))"
    by (simp add: signed_target_def loadPresigned_def upsertMetadata_def Let_def doc_target_def ex_meta_def urlTokenTTL_def)
  ultimately show ?thesis
    using metadata_only_listing [of ex_meta "ex_server\<lparr>svAuth := ?a\<rparr>" 3 "''b''" 1] by (simp add: ex_meta_def ex_server_def)
qed

theorem putRoot_visible_witness:
  "handleGetRootV4 (snd (putRoot ex_env ex_config (Some (0, [])) ex_server)) = Reply (2, [])"
proof -
  obtain ans s' where p: "putRoot ex_env ex_config (Some (0, [])) ex_server = (ans, s')" by (metis surj_pair)
  have w: "no_collision ex_env {''root'', ''x''}" "blobs_inv ex_env {''root'', ''x''} ex_blobs" "rootBlobID \<in> {''root'', ''x''}"
    using ex_blobs_wf(1) by (auto simp: blobs_wf_def rootBlobID_def)
  obtain b where b: "putBlob ex_env rootBlobID [] 0 ex_blobs = (Inr (next_gen (view ex_blobs rootBlobID)), b)"
    "view b = (view ex_blobs)(rootBlobID \<mapsto> (next_gen (view ex_blobs rootBlobID), []))"
    using putBlob_plain [OF w, of "[]"] by blast
  have s': "ans = Reply (2, [])" "s' = refreshMetadataIndex ex_config (clock ex_env) (ex_server\<lparr>svBlobs := b\<rparr>)"
    using p b(1) ex_blobs_wf(2) by (auto simp: putRoot_def handlePutRootV3_def ex_server_def next_gen_def)
  have bs: "svBlobs s' = b" "legacy_rows s' = []"
    by (simp_all add: s' refresh_keeps legacy_rows_def listMetadata_def ex_server_def)
  have "\<exists>r. getBlob rootBlobID b = Inr r \<and> osReadFile (bPath r) b = Inr []"
    using fun_cong [OF b(2), of rootBlobID] by (auto simp: view_def getBlob_def osReadFile_def split: option.splits)
  then have l: "listDocumentTree (cfCodec ex_config) (legacy_rows s') (svBlobs s') = Inr []"
    by (auto simp: bs listDocumentTree_def TrimSpace_def legacyDocumentTree_def sortDocuments_def)
  have "blobs_wf ex_env {''root'', ''x''} (svBlobs ex_server)" "cfIndexing ex_config"
    by (simp_all add: ex_server_def ex_blobs_wf(1) ex_config_def)
  from putRoot_visible [OF this(1) w(3) p [unfolded s'(1)] this(2) l] show ?thesis by (simp add: p)
qed

end
