(* ===== verification/Spc_Paths.thy ===== *)
theory Spc_Paths
  imports Decimal
begin

text \<open>
  Paths of the Supernote private cloud (\<open>internal/spcserver/mapping/file.go\<close>): the lexical functions of
  Go's \<open>path\<close> package it builds on, the resolution of a request path under the storage root, and the
  display form of a path. Every file operation of the emulated API goes through \<open>SafeResolve\<close>.
\<close>

section \<open>Splitting and cleaning\<close>

fun split_on :: "char \<Rightarrow> string \<Rightarrow> string list" where
  "split_on d [] = [[]]"
| "split_on d (c # cs) =
     (if c = d then [] # split_on d cs
      else case split_on d cs of [] \<Rightarrow> [[c]] | s # ss \<Rightarrow> (c # s) # ss)"

abbreviation segments :: "string \<Rightarrow> string list" where
  "segments \<equiv> split_on (CHR ''/'')"

text \<open>\<open>path.Clean\<close>: the segments kept so far are on a stack, last first.\<close>

fun clean_segs :: "bool \<Rightarrow> string list \<Rightarrow> string list \<Rightarrow> string list" where
  "clean_segs rooted st [] = rev st"
| "clean_segs rooted st (s # ss) =
     (if s = [] \<or> s = ''.'' then clean_segs rooted st ss
      else if s = ''..''
      then (case st of
              t # ts \<Rightarrow> if t \<noteq> ''..'' then clean_segs rooted ts ss else clean_segs rooted (s # st) ss
            | [] \<Rightarrow> if rooted then clean_segs rooted [] ss else clean_segs rooted [s] ss)
      else clean_segs rooted (s # st) ss)"

definition Clean :: "string \<Rightarrow> string" where
  "Clean p =
     (let rooted = HasPrefix p ''/'';
          out = (if rooted then ''/'' else []) @ join_with ''/'' (clean_segs rooted [] (segments p))
      in if out = [] then ''.'' else out)"

text \<open>\<open>path.Join\<close> of two elements: empty elements are left out.\<close>

definition Join :: "string \<Rightarrow> string \<Rightarrow> string" where
  "Join a b = (if a = [] \<and> b = [] then [] else if a = [] then Clean b else if b = [] then Clean a else Clean (a @ ''/'' @ b))"

text \<open>\<open>path.Dir\<close> and \<open>path.Base\<close>.\<close>

definition upto_slash :: "string \<Rightarrow> string" where
  "upto_slash p = rev (dropWhile (\<lambda>c. c \<noteq> CHR ''/'') (rev p))"

definition Dir :: "string \<Rightarrow> string" where
  "Dir p = Clean (upto_slash p)"

definition Base :: "string \<Rightarrow> string" where
  "Base p =
     (if p = [] then ''.''
      else let q = rev (dropWhile (\<lambda>c. c = CHR ''/'') (rev p));
               b = rev (takeWhile (\<lambda>c. c \<noteq> CHR ''/'') (rev q))
           in if b = [] then ''/'' else b)"

section \<open>Resolution\<close>

fun escapes :: "int \<Rightarrow> string list \<Rightarrow> bool" where
  "escapes depth [] = False"
| "escapes depth (s # ss) =
     (if s = [] \<or> s = ''.'' then escapes depth ss
      else if s = ''..'' then (if depth - 1 < 0 then True else escapes (depth - 1) ss)
      else escapes (depth + 1) ss)"

definition SafeResolve :: "string \<Rightarrow> string \<Rightarrow> string option" where
  "SafeResolve base reqPath =
     (let r = Clean base; q = TrimPrefix reqPath ''/'' in
      if escapes 0 (segments q) then None
      else let rl = TrimPrefix (Clean (''/'' @ q)) ''/'' in
           if rl = [] \<or> rl = ''.'' then Some r else Some (Join r rl))"

fun common_len :: "string list \<Rightarrow> string list \<Rightarrow> nat" where
  "common_len (x # xs) (y # ys) = (if x = y then Suc (common_len xs ys) else 0)"
| "common_len _ _ = 0"

text \<open>\<open>filepath.Rel\<close> of cleaned absolute paths, as its list of names (empty for \<open>.\<close>).\<close>

definition relNames :: "string \<Rightarrow> string \<Rightarrow> string list" where
  "relNames base target =
     (let a = filter (\<lambda>n. n \<noteq> []) (segments (Clean base)); b = filter (\<lambda>n. n \<noteq> []) (segments (Clean target)); c = common_len a b
      in replicate (length a - c) ''..'' @ drop c b)"

text \<open>The display form of a path below the root, the root being \<open>/\<close>.\<close>

definition displayPath :: "string \<Rightarrow> string \<Rightarrow> string" where
  "displayPath base absPath =
     (if HasPrefix (Clean base) ''/'' \<noteq> HasPrefix (Clean absPath) ''/'' then ''/''
      else ''/'' @ join_with ''/'' (relNames base absPath))"

definition parentDisplay :: "string \<Rightarrow> string" where
  "parentDisplay d = (if d = ''/'' then ''/'' else Dir d)"

definition nameFor :: "string \<Rightarrow> string \<Rightarrow> string" where
  "nameFor base absPath = (if Clean base = Clean absPath then [] else Base absPath)"

section \<open>Lemmas on segments\<close>

lemma split_on_nonempty [simp]: "split_on d s \<noteq> []"
  by (induction s) (auto split: list.splits)

lemma split_on_sep: "x \<in> set (split_on d s) \<Longrightarrow> d \<notin> set x"
  by (induction s arbitrary: x) (auto split: if_splits list.splits)

lemma split_on_plain: "d \<notin> set x \<Longrightarrow> split_on d x = [x]"
  by (induction x) auto

lemma split_on_append: "d \<notin> set x \<Longrightarrow> split_on d (x @ d # s) = x # split_on d s"
  by (induction x) auto

lemma split_join:
  "\<forall>x \<in> set xs. CHR ''/'' \<notin> set x \<Longrightarrow> xs \<noteq> [] \<Longrightarrow> segments (join_with ''/'' xs) = xs"
  by (induction "''/''" xs rule: join_with.induct) (auto simp: split_on_plain split_on_append)

text \<open>A name that may stand in a clean rooted path.\<close>

definition plain_name :: "string \<Rightarrow> bool" where
  "plain_name s \<longleftrightarrow> s \<noteq> [] \<and> s \<noteq> ''.'' \<and> s \<noteq> ''..'' \<and> CHR ''/'' \<notin> set s"

lemma clean_segs_plain:
  "list_all plain_name st \<Longrightarrow> \<forall>s \<in> set ss. CHR ''/'' \<notin> set s \<Longrightarrow> list_all plain_name (clean_segs True st ss)"
proof (induction ss arbitrary: st)
  case Nil
  then show ?case by (auto simp: list_all_iff)
next
  case (Cons s ss)
  then show ?case by (cases st) (auto simp: plain_name_def)
qed

lemma clean_segs_id: "list_all plain_name ss \<Longrightarrow> clean_segs rooted st ss = rev st @ ss"
  by (induction ss arbitrary: st) (auto simp: plain_name_def)

lemma clean_segs_append:
  "list_all plain_name (rev st) \<Longrightarrow> \<forall>s \<in> set xs. CHR ''/'' \<notin> set s \<Longrightarrow>
   clean_segs True st (xs @ ys) = clean_segs True (rev (clean_segs True st xs)) ys"
proof (induction xs arbitrary: st)
  case (Cons s xs)
  then show ?case by (cases st) (auto simp: plain_name_def list_all_iff)
qed simp

lemma join_plain: "list_all plain_name (x # xs) \<Longrightarrow> \<exists>c cs. join_with ''/'' (x # xs) = c # cs \<and> c \<noteq> CHR ''/''"
  by (cases x; cases xs) (auto simp: plain_name_def)

lemma join_with_append: "xs \<noteq> [] \<Longrightarrow> ys \<noteq> [] \<Longrightarrow> join_with d (xs @ ys) = join_with d xs @ d @ join_with d ys"
proof (induction d xs rule: join_with.induct)
  case (2 d x)
  then show ?case by (cases ys) auto
qed auto

text \<open>The absolute path of a list of names.\<close>

definition abs_path :: "string list \<Rightarrow> string" where
  "abs_path ns = ''/'' @ join_with ''/'' ns"

lemma segments_abs_path: "list_all plain_name ns \<Longrightarrow> ns \<noteq> [] \<Longrightarrow> segments (abs_path ns) = [] # ns"
  using split_join [of ns] by (auto simp: abs_path_def list_all_iff plain_name_def)

lemma Clean_rooted:
  assumes "HasPrefix p ''/''"
  obtains ns where "list_all plain_name ns" "Clean p = abs_path ns" "ns = clean_segs True [] (segments p)"
proof -
  have "list_all plain_name (clean_segs True [] (segments p))"
    by (rule clean_segs_plain) (auto dest: split_on_sep)
  moreover have "Clean p = abs_path (clean_segs True [] (segments p))"
    using assms by (simp add: Clean_def abs_path_def Let_def)
  ultimately show ?thesis using that by blast
qed

lemma Clean_abs_path: "list_all plain_name ns \<Longrightarrow> Clean (abs_path ns) = abs_path ns"
proof (cases "ns = []")
  case True
  then show ?thesis by (simp add: abs_path_def Clean_def HasPrefix_def)
next
  case False
  assume p: "list_all plain_name ns"
  have "HasPrefix (abs_path ns) ''/''" by (simp add: abs_path_def HasPrefix_def)
  then show ?thesis using clean_segs_id [OF p, of True "[]"] segments_abs_path [OF p False]
    by (simp add: Clean_def Let_def) (simp add: abs_path_def)
qed

lemma segments_slash: "segments (''/'' @ q) = [] # segments q"
  by simp

lemma Join_abs_path:
  assumes "list_all plain_name rs" "list_all plain_name ns" "ns \<noteq> []"
  shows "Join (abs_path rs) (join_with ''/'' ns) = abs_path (rs @ ns)"
proof -
  have ns: "join_with ''/'' ns \<noteq> []" using assms(2,3) join_plain by (cases ns) fastforce+
  have j: "segments (join_with ''/'' ns) = ns"
    using assms(2,3) by (intro split_join) (auto simp: list_all_iff plain_name_def)
  have "clean_segs True [] (segments (abs_path rs @ ''/'' @ join_with ''/'' ns)) = rs @ ns"
  proof (cases "rs = []")
    case True
    then show ?thesis using clean_segs_id [OF assms(2), of True "[]"] j by (simp add: abs_path_def)
  next
    case False
    have "abs_path rs @ ''/'' @ join_with ''/'' ns = abs_path (rs @ ns)"
      using join_with_append [OF False assms(3), of "''/''"] by (simp add: abs_path_def)
    then show ?thesis
      using segments_abs_path [of "rs @ ns"] clean_segs_id [of "rs @ ns" True "[]"] assms by simp
  qed
  then show ?thesis using ns by (simp add: Join_def Clean_def abs_path_def HasPrefix_def Let_def)
qed

section \<open>Containment\<close>

definition ups :: "string list \<Rightarrow> nat" where
  "ups ss = length (filter (\<lambda>s. s = ''..'') ss)"

definition downs :: "string list \<Rightarrow> nat" where
  "downs ss = length (filter (\<lambda>s. s \<noteq> [] \<and> s \<noteq> ''.'' \<and> s \<noteq> ''..'') ss)"

lemma ups_downs_Cons:
  "ups [] = 0" "downs [] = 0" "ups (s # t) = (if s = ''..'' then Suc (ups t) else ups t)"
  "downs (s # t) = (if s \<noteq> [] \<and> s \<noteq> ''.'' \<and> s \<noteq> ''..'' then Suc (downs t) else downs t)"
  by (simp_all add: ups_def downs_def)

lemma climb_Cons:
  fixes d :: int
  assumes "0 \<le> d"
  shows "(\<exists>n. d + int (downs (take n (s # ss))) < int (ups (take n (s # ss)))) \<longleftrightarrow>
    (\<exists>n. d + int (downs (s # take n ss)) < int (ups (s # take n ss)))"
proof
  assume "\<exists>n. d + int (downs (take n (s # ss))) < int (ups (take n (s # ss)))"
  then obtain n where n: "d + int (downs (take n (s # ss))) < int (ups (take n (s # ss)))" by blast
  then obtain m where "n = Suc m" using assms by (cases n) (simp_all add: ups_downs_Cons)
  then show "\<exists>n. d + int (downs (s # take n ss)) < int (ups (s # take n ss))" using n by auto
next
  assume "\<exists>n. d + int (downs (s # take n ss)) < int (ups (s # take n ss))"
  then show "\<exists>n. d + int (downs (take n (s # ss))) < int (ups (take n (s # ss)))" by (metis take_Suc_Cons)
qed

lemma escapes_spec: "0 \<le> d \<Longrightarrow> escapes d ss \<longleftrightarrow> (\<exists>n. d + int (downs (take n ss)) < int (ups (take n ss)))"
proof (induction ss arbitrary: d)
  case Nil
  then show ?case by (simp add: ups_downs_Cons)
next
  case (Cons s ss)
  consider "s = [] \<or> s = ''.''" | "s = ''..''" "d = 0" | "s = ''..''" "1 \<le> d" | "s \<noteq> []" "s \<noteq> ''.''" "s \<noteq> ''..''"
    using Cons.prems by fastforce
  then show ?case
  proof cases
    case 1
    then show ?thesis using Cons.IH [OF Cons.prems] by (auto simp: climb_Cons [OF Cons.prems] ups_downs_Cons)
  next
    case 2
    have "\<exists>n. d + int (downs (s # take n ss)) < int (ups (s # take n ss))"
      by (rule exI [of _ 0]) (use 2 in \<open>simp add: ups_downs_Cons\<close>)
    then show ?thesis unfolding climb_Cons [OF Cons.prems] using 2 by simp
  next
    case 3
    have "(d + x < 1 + y) = (d - 1 + x < y)" for x y :: int by auto
    then show ?thesis using 3 Cons.IH [of "d - 1"] by (simp add: climb_Cons [OF Cons.prems] ups_downs_Cons)
  next
    case 4
    have "(d + (1 + x) < y) = (d + 1 + x < y)" for x y :: int by auto
    then show ?thesis using 4 Cons.IH [of "d + 1"] Cons.prems by (simp add: climb_Cons [OF Cons.prems] ups_downs_Cons)
  qed
qed

lemma SafeResolve_eq:
  assumes "HasPrefix base ''/''"
  shows "\<exists>rs ns. list_all plain_name rs \<and> list_all plain_name ns \<and> Clean base = abs_path rs \<and>
    ns = clean_segs True [] (segments (TrimPrefix reqPath ''/'')) \<and>
    SafeResolve base reqPath = (if escapes 0 (segments (TrimPrefix reqPath ''/'')) then None else Some (abs_path (rs @ ns)))"
proof -
  obtain rs where rs: "list_all plain_name rs" "Clean base = abs_path rs" using Clean_rooted [OF assms] by blast
  let ?q = "TrimPrefix reqPath ''/''"
  obtain ns where ns: "list_all plain_name ns" "Clean (''/'' @ ?q) = abs_path ns" "ns = clean_segs True [] (segments (''/'' @ ?q))"
    using Clean_rooted [of "''/'' @ ?q"] by (auto simp: HasPrefix_def)
  have nq: "ns = clean_segs True [] (segments ?q)" using ns(3) by simp
  have tp: "TrimPrefix (abs_path ns) ''/'' = join_with ''/'' ns" by (simp add: abs_path_def TrimPrefix_def HasPrefix_def)
  have "join_with ''/'' ns = [] \<or> join_with ''/'' ns = ''.'' \<longleftrightarrow> ns = []"
  proof (cases ns)
    case (Cons x xs)
    have "segments (join_with ''/'' ns) = ns" using ns(1) Cons by (intro split_join) (auto simp: list_all_iff plain_name_def)
    moreover have "segments ''.'' = [''.'']" by simp
    ultimately have "join_with ''/'' ns \<noteq> ''.''" using ns(1) Cons by (auto simp: plain_name_def)
    moreover have "join_with ''/'' ns \<noteq> []" using join_plain [of x xs] ns(1) Cons by auto
    ultimately show ?thesis using Cons by simp
  qed simp
  then have "SafeResolve base reqPath = (if escapes 0 (segments ?q) then None else Some (abs_path (rs @ ns)))"
    unfolding SafeResolve_def Let_def rs(2) ns(2) tp using Join_abs_path [OF rs(1) ns(1)] by (cases "ns = []") simp_all
  then show ?thesis using rs ns(1) nq by blast
qed

lemma escapes_plain: "list_all plain_name ns \<Longrightarrow> 0 \<le> d \<Longrightarrow> \<not> escapes d ns"
  by (induction ns arbitrary: d) (auto simp: plain_name_def)

lemma abs_path_Nil:
  assumes "list_all plain_name ns"
  shows "abs_path ns = ''/'' \<longleftrightarrow> ns = []"
proof (cases ns)
  case (Cons x xs)
  then obtain c cs where "join_with ''/'' ns = c # cs" using join_plain [of x xs] assms by blast
  then show ?thesis using Cons by (simp add: abs_path_def)
qed (simp add: abs_path_def)

lemma abs_path_inj:
  assumes "list_all plain_name xs" "list_all plain_name ys" and eq: "abs_path xs = abs_path ys"
  shows "xs = ys"
proof (cases "abs_path xs = ''/''")
  case True
  moreover have "abs_path ys = ''/''" using True unfolding eq .
  ultimately show ?thesis unfolding abs_path_Nil [OF assms(1)] abs_path_Nil [OF assms(2)] by simp
next
  case False
  moreover have "abs_path ys \<noteq> ''/''" using False unfolding eq .
  ultimately have "xs \<noteq> []" "ys \<noteq> []" unfolding abs_path_Nil [OF assms(1)] abs_path_Nil [OF assms(2)] by simp_all
  then have "segments (abs_path xs) = [] # xs" "segments (abs_path ys) = [] # ys"
    using assms segments_abs_path by blast+
  then show ?thesis unfolding eq by simp
qed

lemma common_len_append: "common_len xs (xs @ ys) = length xs" "common_len (xs @ ys) xs = length xs"
  by (induction xs) auto

lemma displayPath_abs:
  assumes "list_all plain_name rs" "list_all plain_name ns" "Clean base = abs_path rs"
  shows "displayPath base (abs_path (rs @ ns)) = abs_path ns"
proof -
  have f: "filter (\<lambda>n. n \<noteq> []) (segments (abs_path xs)) = xs" if "list_all plain_name xs" for xs
  proof (cases "xs = []")
    case False
    then show ?thesis using segments_abs_path [OF that] that by (auto simp: list_all_iff plain_name_def filter_id_conv)
  qed (simp add: abs_path_def)
  have p: "list_all plain_name (rs @ ns)" using assms(1,2) by simp
  have "relNames base (abs_path (rs @ ns)) = ns"
    unfolding relNames_def Let_def assms(3) Clean_abs_path [OF p] f [OF assms(1)] f [OF p] by (simp add: common_len_append)
  moreover have "HasPrefix (abs_path xs) ''/''" for xs by (simp add: abs_path_def HasPrefix_def)
  ultimately show ?thesis using Clean_abs_path [OF p] assms(3) by (simp add: displayPath_def abs_path_def)
qed

lemma SafeResolve_display:
  assumes "HasPrefix base ''/''" "list_all plain_name rs" "Clean base = abs_path rs" "list_all plain_name ns"
  shows "SafeResolve base (displayPath base (abs_path (rs @ ns))) = Some (abs_path (rs @ ns))"
proof -
  have d: "displayPath base (abs_path (rs @ ns)) = abs_path ns" by (rule displayPath_abs [OF assms(2,4,3)])
  have q: "segments (TrimPrefix (abs_path ns) ''/'') = (if ns = [] then [[]] else ns)"
    using split_join [of ns] assms(4) by (auto simp: abs_path_def TrimPrefix_def HasPrefix_def list_all_iff plain_name_def)
  obtain rs' ms where r: "list_all plain_name rs'" "Clean base = abs_path rs'" "ms = clean_segs True [] (segments (TrimPrefix (abs_path ns) ''/''))"
    "SafeResolve base (abs_path ns) = (if escapes 0 (segments (TrimPrefix (abs_path ns) ''/'')) then None else Some (abs_path (rs' @ ms)))"
    using SafeResolve_eq [OF assms(1), of "abs_path ns"] by blast
  have "rs' = rs" using abs_path_inj [OF r(1) assms(2)] r(2) assms(3) by simp
  moreover have "ms = ns" using r(3) q clean_segs_id [OF assms(4), of True "[]"] by (cases "ns = []") simp_all
  moreover have "\<not> escapes 0 (segments (TrimPrefix (abs_path ns) ''/''))"
    using q escapes_plain [OF assms(4)] by (cases "ns = []") simp_all
  ultimately show ?thesis using r(4) d by simp
qed

text \<open>
  A request path never leaves the storage root: when it resolves, the result is the root itself or the
  root followed by plain names, none of them empty, \<open>.\<close> or \<open>..\<close>; and it is refused exactly when some prefix of
  it climbs above the root, that is, contains more \<open>..\<close> than names. The display form of a result resolves
  back to it.
\<close>

theorem SafeResolve_contained:
  assumes "HasPrefix base ''/''"
  shows "(case SafeResolve base reqPath of
      Some p \<Rightarrow> \<exists>rs ns. list_all plain_name (rs @ ns) \<and> Clean base = abs_path rs \<and> p = abs_path (rs @ ns) \<and> Clean p = p \<and>
        SafeResolve base (displayPath base p) = Some p
    | None \<Rightarrow> \<exists>n. downs (take n (segments (TrimPrefix reqPath ''/''))) < ups (take n (segments (TrimPrefix reqPath ''/'')))) \<and>
    (SafeResolve base reqPath = None \<longleftrightarrow>
      (\<exists>n. downs (take n (segments (TrimPrefix reqPath ''/''))) < ups (take n (segments (TrimPrefix reqPath ''/'')))))"
proof -
  obtain rs ns where r: "list_all plain_name rs" "list_all plain_name ns" "Clean base = abs_path rs"
    "SafeResolve base reqPath = (if escapes 0 (segments (TrimPrefix reqPath ''/'')) then None else Some (abs_path (rs @ ns)))"
    using SafeResolve_eq [OF assms, of reqPath] by blast
  have e: "escapes 0 (segments (TrimPrefix reqPath ''/'')) \<longleftrightarrow>
      (\<exists>n. downs (take n (segments (TrimPrefix reqPath ''/''))) < ups (take n (segments (TrimPrefix reqPath ''/''))))"
    using escapes_spec [of 0 "segments (TrimPrefix reqPath ''/'')"] by simp
  show ?thesis
  proof (cases "escapes 0 (segments (TrimPrefix reqPath ''/''))")
    case True
    then show ?thesis using e r(4) by simp
  next
    case False
    have "list_all plain_name (rs @ ns)" using r(1,2) by simp
    then show ?thesis
      using False e r Clean_abs_path [of "rs @ ns"] SafeResolve_display [OF assms r(1,3,2)] by auto
  qed
qed

theorem SafeResolve_contained_witness:
  "SafeResolve ''/data'' ''/a//./b/../c'' = Some ''/data/a/c'' \<and> SafeResolve ''/data'' ''/a/../../etc'' = None"
proof -
  have "HasPrefix ''/data'' ''/''" by (simp add: HasPrefix_def)
  then have "SafeResolve ''/data'' ''/a/../../etc'' = None"
    using SafeResolve_contained [of "''/data''" "''/a/../../etc''"]
    by (intro iffD2 [OF conjunct2 [OF SafeResolve_contained]] exI [of _ 3])
       (simp_all add: TrimPrefix_def HasPrefix_def ups_downs_Cons numeral_eq_Suc)
  moreover have "SafeResolve ''/data'' ''/a//./b/../c'' = Some ''/data/a/c''" by code_simp
  ultimately show ?thesis by blast
qed

end
