(* ===== verification/Spc_Fs.thy ===== *)
theory Spc_Fs
  imports Spc_Paths "HOL-Library.Sublist"
begin

text \<open>
  The file system the Supernote private cloud works on, as far as its handlers use it: files with
  content and modification time, directories, and the operations of Go's \<open>os\<close> package they call
  (\<open>MkdirAll\<close>, \<open>Create\<close>, \<open>Rename\<close>, \<open>Remove\<close>, \<open>RemoveAll\<close>, \<open>ReadDir\<close>), with their refusals as \<open>None\<close>. Paths are
  absolute and cleaned, as the handlers build them; the top directory of the machine is always there.
\<close>

section \<open>State\<close>

record node =
  ndContent :: string
  ndMtime :: millis

record fs =
  fsFiles :: "node table"
  fsDirs :: "string list"

definition below :: "string \<Rightarrow> string \<Rightarrow> bool" where
  "below q p \<longleftrightarrow> HasPrefix q (p @ ''/'')"

definition is_file :: "string \<Rightarrow> fs \<Rightarrow> bool" where
  "is_file p f \<longleftrightarrow> map_of (fsFiles f) p \<noteq> None"

definition is_dir :: "string \<Rightarrow> fs \<Rightarrow> bool" where
  "is_dir p f \<longleftrightarrow> p \<in> set (fsDirs f)"

definition exists_path :: "string \<Rightarrow> fs \<Rightarrow> bool" where
  "exists_path p f \<longleftrightarrow> is_file p f \<or> is_dir p f"

definition content_at :: "string \<Rightarrow> fs \<Rightarrow> string option" where
  "content_at p f = map_option ndContent (map_of (fsFiles f) p)"

section \<open>Operations\<close>

text \<open>A path with the directories above it, from the top.\<close>

definition upward :: "string \<Rightarrow> string list" where
  "upward p = map (\<lambda>k. join_with ''/'' (take k (segments p))) [2..<Suc (length (segments p))]"

definition MkdirAll :: "string \<Rightarrow> fs \<Rightarrow> fs option" where
  "MkdirAll p f =
     (if p = ''/'' then Some f
      else if list_ex (\<lambda>q. is_file q f) (upward p) then None
      else Some (f\<lparr>fsDirs := fsDirs f @ filter (\<lambda>q. \<not> is_dir q f) (upward p)\<rparr>))"

definition parent_ok :: "string \<Rightarrow> fs \<Rightarrow> bool" where
  "parent_ok p f \<longleftrightarrow> list_all (\<lambda>d. is_dir d f) (butlast (upward p))"

text \<open>\<open>os.Create\<close> and the write that follows it.\<close>

definition Create :: "string \<Rightarrow> node \<Rightarrow> fs \<Rightarrow> fs option" where
  "Create p n f = (if p = ''/'' \<or> is_dir p f \<or> \<not> parent_ok p f then None else Some (f\<lparr>fsFiles := upsert p n (fsFiles f)\<rparr>))"

definition RemoveFile :: "string \<Rightarrow> fs \<Rightarrow> fs" where
  "RemoveFile p f = f\<lparr>fsFiles := AList.delete p (fsFiles f)\<rparr>"

definition has_children :: "string \<Rightarrow> fs \<Rightarrow> bool" where
  "has_children p f \<longleftrightarrow> list_ex (\<lambda>(q, _). below q p) (fsFiles f) \<or> list_ex (\<lambda>q. below q p) (fsDirs f)"

text \<open>\<open>os.Remove\<close>: a file, or a directory with nothing in it.\<close>

definition Remove :: "string \<Rightarrow> fs \<Rightarrow> fs option" where
  "Remove p f =
     (if is_file p f then Some (RemoveFile p f)
      else if is_dir p f \<and> \<not> has_children p f then Some (f\<lparr>fsDirs := removeAll p (fsDirs f)\<rparr>)
      else None)"

definition RemoveAll :: "string \<Rightarrow> fs \<Rightarrow> fs" where
  "RemoveAll p f =
     \<lparr>fsFiles = filter (\<lambda>(q, _). q \<noteq> p \<and> \<not> below q p) (fsFiles f),
      fsDirs = filter (\<lambda>q. q \<noteq> p \<and> \<not> below q p) (fsDirs f)\<rparr>"

text \<open>\<open>os.Rename\<close>. Go refuses any target that is a directory; a directory cannot replace a file nor move into
  itself.\<close>

definition moved :: "string \<Rightarrow> string \<Rightarrow> string \<Rightarrow> string" where
  "moved src dst q = (if q = src \<or> below q src then dst @ drop (length src) q else q)"

definition Rename :: "string \<Rightarrow> string \<Rightarrow> fs \<Rightarrow> fs option" where
  "Rename src dst f =
     (if \<not> exists_path src f \<or> dst = ''/'' \<or> is_dir dst f \<or> \<not> parent_ok dst f \<or> below dst src then None
      else if is_dir src f \<and> is_file dst f then None
      else if src = dst then Some f
      else Some \<lparr>fsFiles = map (\<lambda>(q, n). (moved src dst q, n)) (AList.delete dst (fsFiles f)), fsDirs = map (moved src dst) (fsDirs f)\<rparr>)"

section \<open>Well-formedness\<close>

text \<open>Keys are unique, nothing is both a file and a directory, and everything lies in a directory.\<close>

definition fs_ok :: "fs \<Rightarrow> bool" where
  "fs_ok f \<longleftrightarrow> unique_keys (fsFiles f) \<and> distinct (fsDirs f) \<and> (\<forall>p. \<not> (is_file p f \<and> is_dir p f)) \<and>
     (\<forall>p. exists_path p f \<longrightarrow> HasPrefix p ''/'') \<and>
     (\<forall>p d. exists_path p f \<longrightarrow> below p d \<longrightarrow> d \<noteq> [] \<longrightarrow> is_dir d f)"

section \<open>Lemmas\<close>

lemma is_file_content: "is_file p f \<longleftrightarrow> content_at p f \<noteq> None"
  by (simp add: is_file_def content_at_def)

lemma segments_append: "segments (p @ ''/'' @ q) = segments p @ segments q"
  by (induction p) (auto split: list.splits)

lemma HasPrefix_prefix: "HasPrefix s p \<longleftrightarrow> prefix p s"
  unfolding HasPrefix_def prefix_def by (metis append_eq_conv_conj append_take_drop_id)

lemma below_prefix: "below q p \<longleftrightarrow> prefix (p @ ''/'') q"
  by (simp add: below_def HasPrefix_prefix)

lemma below_irrefl [simp]: "\<not> below p p"
  by (auto simp: below_prefix prefix_def)

lemma below_trans: "below r q \<Longrightarrow> below q p \<Longrightarrow> below r p"
  by (auto simp: below_prefix prefix_def)

lemma below_segments: "below q p \<Longrightarrow> \<exists>zs. zs \<noteq> [] \<and> segments q = segments p @ zs"
proof -
  assume "below q p"
  then obtain r where "q = p @ ''/'' @ r" by (auto simp: below_prefix prefix_def)
  then have "segments q = segments p @ segments r" using segments_append by simp
  then show ?thesis using split_on_nonempty by blast
qed

lemma below_inside: "below (p @ ''/'' @ r) p"
  by (simp add: below_prefix)

lemma join_segments: "join_with ''/'' (segments p) = p"
proof (induction p)
  case (Cons c p)
  obtain x xs where x: "segments p = x # xs" using split_on_nonempty [of "CHR ''/''" p] by (cases "segments p") auto
  then show ?case using Cons by (cases xs) auto
qed simp

lemma segments_sep: "x \<in> set (segments p) \<Longrightarrow> CHR ''/'' \<notin> set x"
  using split_on_sep by fast

lemma segments_inj: "segments p = segments q \<longleftrightarrow> p = q"
  by (metis join_segments)

lemma below_iff: "below q p \<longleftrightarrow> (\<exists>zs. zs \<noteq> [] \<and> segments q = segments p @ zs)"
proof
  assume "\<exists>zs. zs \<noteq> [] \<and> segments q = segments p @ zs"
  then obtain zs where z: "zs \<noteq> []" "segments q = segments p @ zs" by blast
  then have "q = p @ ''/'' @ join_with ''/'' zs"
    using join_with_append [of "segments p" zs "''/''"] join_segments [of q] join_segments [of p] by simp
  then show "below q p" using below_inside by simp
qed (rule below_segments)

lemma join_take:
  assumes "2 \<le> k"
  shows "d = join_with ''/'' (take k (segments p)) \<longleftrightarrow> segments d = take k (segments p)"
proof -
  have "\<forall>x \<in> set (take k (segments p)). CHR ''/'' \<notin> set x" by (auto dest!: in_set_takeD segments_sep)
  moreover have "take k (segments p) \<noteq> []" using assms split_on_nonempty [of "CHR ''/''" p] by simp
  ultimately have "segments (join_with ''/'' (take k (segments p))) = take k (segments p)" by (rule split_join)
  then show ?thesis by (metis join_segments)
qed

lemma in_upward:
  "d \<in> set (upward p) \<longleftrightarrow> (\<exists>k. 2 \<le> k \<and> k \<le> length (segments p) \<and> segments d = take k (segments p))"
proof -
  have "d \<in> set (upward p) \<longleftrightarrow> (\<exists>k. 2 \<le> k \<and> k \<le> length (segments p) \<and> d = join_with ''/'' (take k (segments p)))"
    unfolding upward_def by (simp only: set_map set_upt image_iff Bex_def atLeastLessThan_iff less_Suc_eq_le) blast
  then show ?thesis using join_take [of _ d p] by blast
qed

lemma rooted_segments: "HasPrefix p ''/'' \<Longrightarrow> 2 \<le> length (segments p)"
  by (cases p) (auto simp: HasPrefix_def Suc_le_eq)

lemma in_upward_rooted:
  assumes "HasPrefix d ''/''"
  shows "d \<in> set (upward p) \<longleftrightarrow> d = p \<or> below p d"
proof
  assume "d \<in> set (upward p)"
  then obtain k where k: "segments d = take k (segments p)" by (auto simp: in_upward)
  show "d = p \<or> below p d"
  proof (cases "drop k (segments p) = []")
    case True
    then show ?thesis using k append_take_drop_id [of k "segments p"] segments_inj [of d p] by simp
  next
    case False
    then show ?thesis using k append_take_drop_id [of k "segments p"] below_iff [of p d] by metis
  qed
next
  assume "d = p \<or> below p d"
  then obtain zs where "segments p = segments d @ zs" using below_iff by auto
  then show "d \<in> set (upward p)"
    using rooted_segments [OF assms] by (auto simp: in_upward intro!: exI [of _ "length (segments d)"])
qed

lemma upward_rooted: "HasPrefix p ''/'' \<Longrightarrow> d \<in> set (upward p) \<Longrightarrow> HasPrefix d ''/''"
proof -
  assume "HasPrefix p ''/''" "d \<in> set (upward p)"
  then obtain k where k: "2 \<le> k" "segments d = take k (segments p)" by (auto simp: in_upward)
  obtain r where r: "p = ''/'' @ r" using \<open>HasPrefix p ''/''\<close> by (auto simp: HasPrefix_prefix prefix_def)
  then have "segments p = [] # segments r" by simp
  then obtain x xs where "segments d = [] # x # xs" using k split_on_nonempty [of "CHR ''/''" r]
    by (cases k; cases "segments r"; cases "k - 1") auto
  then have "d = join_with ''/'' ([] # x # xs)" using join_segments [of d] by simp
  then show "HasPrefix d ''/''" by (simp add: HasPrefix_def)
qed

lemma butlast_upward: "butlast (upward p) = map (\<lambda>k. join_with ''/'' (take k (segments p))) [2..<length (segments p)]"
  by (simp add: upward_def map_butlast [symmetric])

lemma above_rooted: "HasPrefix p ''/'' \<Longrightarrow> below p d \<Longrightarrow> d \<noteq> [] \<Longrightarrow> HasPrefix d ''/''"
  by (cases d) (auto simp: below_prefix HasPrefix_prefix prefix_def)

lemma upward_snoc: "segments p = segments d @ [x] \<Longrightarrow> 2 \<le> length (segments d) \<Longrightarrow> upward p = upward d @ [p]"
proof -
  assume a: "segments p = segments d @ [x]" "2 \<le> length (segments d)"
  have "[2..<Suc (length (segments p))] = [2..<Suc (length (segments d))] @ [length (segments p)]"
    using a by simp
  moreover have "join_with ''/'' (take (length (segments p)) (segments p)) = p" using join_segments [of p] by simp
  ultimately show ?thesis unfolding upward_def using a by simp
qed

lemma in_butlast_upward: "HasPrefix d ''/'' \<Longrightarrow> d \<in> set (butlast (upward p)) \<longleftrightarrow> below p d"
proof -
  assume d: "HasPrefix d ''/''"
  have "d \<in> set (butlast (upward p)) \<longleftrightarrow> (\<exists>k. 2 \<le> k \<and> k < length (segments p) \<and> d = join_with ''/'' (take k (segments p)))"
    unfolding butlast_upward by (simp only: set_map set_upt image_iff Bex_def atLeastLessThan_iff) blast
  also have "\<dots> \<longleftrightarrow> (\<exists>k. 2 \<le> k \<and> k < length (segments p) \<and> segments d = take k (segments p))"
    using join_take [of _ d p] by blast
  also have "\<dots> \<longleftrightarrow> below p d"
  proof
    assume "\<exists>k. 2 \<le> k \<and> k < length (segments p) \<and> segments d = take k (segments p)"
    then show "below p d" unfolding below_iff using append_take_drop_id [of _ "segments p"] by (metis drop_eq_Nil not_less)
  next
    assume "below p d"
    then obtain zs where "zs \<noteq> []" "segments p = segments d @ zs" unfolding below_iff by blast
    then show "\<exists>k. 2 \<le> k \<and> k < length (segments p) \<and> segments d = take k (segments p)"
      using rooted_segments [OF d] by (intro exI [of _ "length (segments d)"]) auto
  qed
  finally show ?thesis .
qed

lemma parent_ok_iff: "HasPrefix p ''/'' \<Longrightarrow> parent_ok p f \<longleftrightarrow> (\<forall>d. below p d \<longrightarrow> d \<noteq> [] \<longrightarrow> is_dir d f)"
proof -
  assume p: "HasPrefix p ''/''"
  have "d \<in> set (butlast (upward p)) \<longleftrightarrow> below p d \<and> d \<noteq> []" for d
  proof (cases "HasPrefix d ''/''")
    case True
    moreover have "d \<noteq> []" using True by (auto simp: HasPrefix_def)
    ultimately show ?thesis using in_butlast_upward by simp
  next
    case False
    then show ?thesis using above_rooted [OF p] upward_rooted [OF p] by (meson in_set_butlastD)
  qed
  then show ?thesis by (auto simp: parent_ok_def list_all_iff)
qed

lemma map_of_delete: "map_of (AList.delete k t) q = (if q = k then None else map_of t q)"
  by (simp add: delete_conv')

lemma map_of_filter_keys: "map_of (filter (\<lambda>(q, _). P q) t) q = (if P q then map_of t q else None)"
  by (induction t) auto

lemma map_of_RemoveAll:
  "map_of (fsFiles (RemoveAll p f)) q = (if q = p \<or> below q p then None else map_of (fsFiles f) q)"
  unfolding RemoveAll_def using map_of_filter_keys [of "\<lambda>q. q \<noteq> p \<and> \<not> below q p" "fsFiles f" q] by simp

lemma is_dir_RemoveAll: "is_dir q (RemoveAll p f) \<longleftrightarrow> is_dir q f \<and> q \<noteq> p \<and> \<not> below q p"
  by (auto simp: is_dir_def RemoveAll_def)

lemma has_children_iff: "has_children p f \<longleftrightarrow> (\<exists>q. exists_path q f \<and> below q p)"
proof -
  have "is_file q f \<longleftrightarrow> q \<in> fst ` set (fsFiles f)" for q
    by (simp add: is_file_def dom_map_of_conv_image_fst [symmetric] domIff)
  then show ?thesis by (force simp: has_children_def exists_path_def is_dir_def list_ex_iff)
qed

lemma MkdirAll_files: "MkdirAll p f = Some f' \<Longrightarrow> fsFiles f' = fsFiles f"
  by (auto simp: MkdirAll_def split: if_splits)

lemma MkdirAll_dirs: "MkdirAll p f = Some f' \<Longrightarrow> p \<noteq> ''/'' \<Longrightarrow> set (fsDirs f') = set (fsDirs f) \<union> set (upward p)"
  by (auto simp: MkdirAll_def is_dir_def split: if_splits)

lemma MkdirAll_ok: "\<forall>q \<in> set (upward p). \<not> is_file q f \<Longrightarrow> \<exists>f'. MkdirAll p f = Some f'"
  by (auto simp: MkdirAll_def list_ex_iff)

lemma map_of_rename_key:
  assumes "dst \<notin> fst ` set t"
  shows "map_of (map (\<lambda>(q, n). (if q = src then dst else q, n)) t) p =
    (if p = dst then map_of t src else if p = src then None else map_of t p)"
  using assms
proof (induction t)
  case (Cons x t)
  obtain q n where x: "x = (q, n)" by (cases x)
  show ?case using Cons by (cases "q = src"; cases "p = q"; cases "p = dst") (simp_all add: x)
qed simp

lemma file_plain: "fs_ok f \<Longrightarrow> is_file p f \<Longrightarrow> \<not> is_dir p f \<and> (exists_path q f \<longrightarrow> \<not> below q p)"
proof -
  assume ok: "fs_ok f" and p: "is_file p f"
  then have nd: "\<not> is_dir p f" "HasPrefix p ''/''" by (auto simp: fs_ok_def exists_path_def)
  then have "p \<noteq> []" by (auto simp: HasPrefix_def)
  then show ?thesis using ok nd(1) unfolding fs_ok_def by blast
qed

lemma Rename_file:
  assumes "fs_ok f" "map_of (fsFiles f) src = Some n" "\<not> is_dir dst f" "parent_ok dst f" "HasPrefix dst ''/''" "dst \<noteq> ''/''"
  shows "\<exists>f'. Rename src dst f = Some f' \<and> map_of (fsFiles f') = (map_of (fsFiles f))(src := None, dst \<mapsto> n) \<and> fsDirs f' = fsDirs f"
proof (cases "src = dst")
  case True
  have "\<not> is_dir src f" using file_plain [OF assms(1), of src] assms(2) by (simp add: is_file_def)
  then show ?thesis using True assms by (auto simp: Rename_def exists_path_def is_file_def fun_eq_iff)
next
  case False
  have src: "is_file src f" using assms(2) by (simp add: is_file_def)
  have nb: "\<not> below q src" if "exists_path q f" for q using file_plain [OF assms(1) src, of q] that by simp
  have nd: "\<not> is_dir src f" using file_plain [OF assms(1) src] by blast
  have bd: "\<not> below dst src"
  proof
    assume b: "below dst src"
    have "HasPrefix src ''/''" using assms(1) src by (auto simp: fs_ok_def exists_path_def)
    moreover have "src \<noteq> dst" using False .
    ultimately have "src \<in> set (butlast (upward dst))" using in_butlast_upward b by blast
    then show False using assms(4) nd by (auto simp: parent_ok_def list_all_iff)
  qed
  define t where "t = AList.delete dst (fsFiles f)"
  have key: "(case x of (q, n) \<Rightarrow> (moved src dst q, n)) = (case x of (q, n) \<Rightarrow> (if q = src then dst else q, n))" if "x \<in> set t" for x
  proof -
    obtain q m where x: "x = (q, m)" by (cases x)
    have "x \<in> set (fsFiles f)" using that by (auto simp: t_def AList.delete_eq)
    then have "q \<in> fst ` set (fsFiles f)" unfolding x by force
    then have "map_of (fsFiles f) q \<noteq> None" by (simp add: dom_map_of_conv_image_fst [symmetric] domIff)
    then have "\<not> below q src" using nb [of q] by (simp add: exists_path_def is_file_def)
    then show ?thesis by (simp add: x moved_def)
  qed
  have files: "map (\<lambda>(q, n). (moved src dst q, n)) t = map (\<lambda>(q, n). (if q = src then dst else q, n)) t"
    using key by (intro map_cong refl) auto
  have dt: "dst \<notin> fst ` set t" unfolding t_def by (rule AList.delete_notin_dom)
  have "map_of t src = Some n" using False assms(2) by (simp add: t_def map_of_delete)
  then have eq: "map_of (map (\<lambda>(q, n). (moved src dst q, n)) t) = (map_of (fsFiles f))(src := None, dst \<mapsto> n)"
    unfolding files using map_of_rename_key [OF dt, of src] False by (auto simp: t_def map_of_delete fun_eq_iff)
  have dirs: "map (moved src dst) (fsDirs f) = fsDirs f"
  proof (rule map_idI)
    fix d assume "d \<in> set (fsDirs f)"
    then have "is_dir d f" by (simp add: is_dir_def)
    then show "moved src dst d = d" using nd nb [of d] by (auto simp: moved_def exists_path_def)
  qed
  show ?thesis unfolding Rename_def using False src nd assms(3,4,6) bd eq dirs
    by (auto simp: exists_path_def t_def)
qed

section \<open>Moving a tree\<close>

lemma map_of_mapk:
  assumes "inj_on g (fst ` set t)" "k \<in> fst ` set t"
  shows "map_of (map (\<lambda>(q, n). (g q, n)) t) (g k) = map_of t k"
  using assms
proof (induction t)
  case (Cons x t)
  obtain q n where x: "x = (q, n)" by (cases x)
  have "inj_on g (fst ` set t)" using Cons.prems(1) by (simp add: inj_on_insert)
  moreover have "g q = g k \<longleftrightarrow> q = k" using Cons.prems by (auto simp: x dest: inj_onD)
  ultimately show ?case using Cons.IH Cons.prems(2) by (auto simp: x)
qed simp

lemma map_of_mapk_None: "q \<notin> g ` fst ` set t \<Longrightarrow> map_of (map (\<lambda>(q, n). (g q, n)) t) q = None"
  by (induction t) auto

definition inside :: "string \<Rightarrow> string \<Rightarrow> bool" where
  "inside q p \<longleftrightarrow> q = p \<or> below q p"

lemma inside_append: "inside q p \<longleftrightarrow> q = p @ drop (length p) q \<and> (drop (length p) q = [] \<or> hd (drop (length p) q) = CHR ''/'')"
proof
  assume "inside q p"
  then show "q = p @ drop (length p) q \<and> (drop (length p) q = [] \<or> hd (drop (length p) q) = CHR ''/'')"
    by (auto simp: inside_def below_prefix prefix_def)
next
  assume a: "q = p @ drop (length p) q \<and> (drop (length p) q = [] \<or> hd (drop (length p) q) = CHR ''/'')"
  show "inside q p"
  proof (cases "drop (length p) q")
    case Nil
    then show ?thesis using a by (simp add: inside_def)
  next
    case (Cons c r)
    then have "q = p @ ''/'' @ r" using a by simp
    then show ?thesis using below_inside by (simp add: inside_def)
  qed
qed

lemma inside_replace: "inside q p \<Longrightarrow> inside (p' @ drop (length p) q) p'"
  unfolding inside_append [of q] by (subst inside_append) simp

lemma moved_inside: "moved src dst q = (if inside q src then dst @ drop (length src) q else q)"
  by (simp add: moved_def inside_def)

lemma moved_inj:
  assumes "\<not> inside k dst" "\<not> inside l dst" "moved src dst k = moved src dst l"
  shows "k = l"
proof -
  have k: "inside k src \<Longrightarrow> k = src @ drop (length src) k" and l: "inside l src \<Longrightarrow> l = src @ drop (length src) l"
    by (simp_all add: inside_append)
  show ?thesis
  proof (cases "inside k src"; cases "inside l src")
    assume w: "inside k src" "inside l src"
    then have "drop (length src) k = drop (length src) l" using assms(3) by (simp add: moved_inside)
    then show ?thesis using k [OF w(1)] l [OF w(2)] by metis
  next
    assume w: "inside k src" "\<not> inside l src"
    then have "l = dst @ drop (length src) k" using assms(3) by (simp add: moved_inside)
    then show ?thesis using inside_replace [OF w(1), of dst] assms(2) by simp
  next
    assume w: "\<not> inside k src" "inside l src"
    then have "k = dst @ drop (length src) l" using assms(3) by (simp add: moved_inside)
    then show ?thesis using inside_replace [OF w(2), of dst] assms(1) by simp
  qed (use assms(3) in \<open>simp add: moved_inside\<close>)
qed

text \<open>Where a renamed tree ends up: below the target is what was below the source, nothing is left there, and
  the rest is as before.\<close>

definition unmoved :: "string \<Rightarrow> string \<Rightarrow> string \<Rightarrow> string" where
  "unmoved src dst q = (if inside q dst then src @ drop (length dst) q else q)"

lemma moved_eq:
  assumes "\<not> inside k dst" "\<not> inside dst src"
  shows "moved src dst k = q \<longleftrightarrow> k = unmoved src dst q \<and> (inside q src \<longrightarrow> inside q dst)"
proof (cases "inside k src")
  case True
  have k: "k = src @ drop (length src) k" using True by (simp add: inside_append)
  show ?thesis
  proof
    assume "moved src dst k = q"
    then have q: "q = dst @ drop (length src) k" using True by (simp add: moved_inside)
    then have "inside q dst" using inside_replace [OF True] by simp
    then show "k = unmoved src dst q \<and> (inside q src \<longrightarrow> inside q dst)" using q k by (simp add: unmoved_def)
  next
    assume a: "k = unmoved src dst q \<and> (inside q src \<longrightarrow> inside q dst)"
    then have w: "inside q dst" using True by (auto simp: unmoved_def split: if_splits)
    then have "q = dst @ drop (length dst) q" by (simp add: inside_append)
    moreover have "k = src @ drop (length dst) q" using a w by (simp add: unmoved_def)
    ultimately show "moved src dst k = q" using True by (simp add: moved_inside)
  qed
next
  case False
  have "k = unmoved src dst q \<and> (inside q src \<longrightarrow> inside q dst) \<longleftrightarrow> k = q"
  proof
    assume a: "k = unmoved src dst q \<and> (inside q src \<longrightarrow> inside q dst)"
    have "\<not> inside q dst"
    proof
      assume "inside q dst"
      then have "inside k src" using a inside_replace [of q dst src] by (simp add: unmoved_def)
      then show False using False by simp
    qed
    then show "k = q" using a by (simp add: unmoved_def)
  next
    assume "k = q"
    then show "k = unmoved src dst q \<and> (inside q src \<longrightarrow> inside q dst)" using False assms(1) by (simp add: unmoved_def)
  qed
  then show ?thesis using False by (simp add: moved_inside)
qed

lemma exists_inside:
  assumes "fs_ok f" "exists_path k f" "inside k dst" "\<not> is_dir dst f" "HasPrefix dst ''/''"
  shows "k = dst"
proof (rule ccontr)
  assume "k \<noteq> dst"
  then have "below k dst" using assms(3) by (simp add: inside_def)
  moreover have "dst \<noteq> []" using assms(5) by (auto simp: HasPrefix_def)
  ultimately have "is_dir dst f" using assms(1,2) unfolding fs_ok_def by blast
  then show False using assms(4) by simp
qed

lemma Rename_moves:
  assumes ok: "fs_ok f" and r: "Rename src dst f = Some f'" and ne: "src \<noteq> dst" and dst: "HasPrefix dst ''/''"
  shows "map_of (fsFiles f') q = (if inside q src \<and> \<not> inside q dst then None else map_of (fsFiles f) (unmoved src dst q))"
    and "is_dir q f' \<longleftrightarrow> \<not> (inside q src \<and> \<not> inside q dst) \<and> is_dir (unmoved src dst q) f"
proof -
  define t where "t = AList.delete dst (fsFiles f)"
  have c: "exists_path src f" "\<not> is_dir dst f" "\<not> below dst src"
    and f': "fsFiles f' = map (\<lambda>(q, n). (moved src dst q, n)) t" "fsDirs f' = map (moved src dst) (fsDirs f)"
    using r ne by (auto simp: Rename_def t_def split: if_splits)
  have nw: "\<not> inside dst src" using c(3) ne by (auto simp: inside_def)
  have keys: "\<not> inside k dst" if "k \<in> fst ` set t" for k
  proof
    assume w: "inside k dst"
    have k: "k \<in> fst ` set (fsFiles f)" "k \<noteq> dst" using that by (auto simp: t_def AList.delete_eq)
    then have "is_file k f" by (auto simp: is_file_def dom_map_of_conv_image_fst [symmetric])
    then show False using exists_inside [OF ok _ w c(2) dst] k(2) by (simp add: exists_path_def)
  qed
  have dirs: "\<not> inside d dst" if "is_dir d f" for d
  proof
    assume "inside d dst"
    then have "d = dst" using exists_inside [OF ok _ _ c(2) dst] that by (simp add: exists_path_def)
    then show False using that c(2) by simp
  qed
  have inj: "inj_on (moved src dst) (fst ` set t)" using moved_inj keys by (meson inj_onI)
  have in_t: "k \<in> fst ` set t \<longleftrightarrow> map_of t k \<noteq> None" for k
    by (simp add: dom_map_of_conv_image_fst [symmetric] domIff)
  show "map_of (fsFiles f') q = (if inside q src \<and> \<not> inside q dst then None else map_of (fsFiles f) (unmoved src dst q))"
  proof (cases "\<exists>k \<in> fst ` set t. moved src dst k = q")
    case True
    then obtain k where k: "k \<in> fst ` set t" "moved src dst k = q" by blast
    then have "k = unmoved src dst q" "inside q src \<longrightarrow> inside q dst" using moved_eq [OF keys [OF k(1)] nw] by auto
    moreover have "map_of (fsFiles f') q = map_of t k" unfolding f'(1) k(2) [symmetric] by (rule map_of_mapk [OF inj k(1)])
    moreover have "k \<noteq> dst" using keys [OF k(1)] by (auto simp: inside_def)
    ultimately show ?thesis by (auto simp: t_def map_of_delete)
  next
    case False
    then have n: "map_of (fsFiles f') q = None" unfolding f'(1) by (intro map_of_mapk_None) auto
    have "map_of (fsFiles f) (unmoved src dst q) = None" if "\<not> (inside q src \<and> \<not> inside q dst)"
    proof (rule ccontr)
      assume s: "map_of (fsFiles f) (unmoved src dst q) \<noteq> None"
      have nd: "unmoved src dst q \<noteq> dst"
      proof
        assume e: "unmoved src dst q = dst"
        then have "\<not> inside q dst" using inside_replace [of q dst src] nw by (auto simp: unmoved_def)
        then show False using e by (simp add: unmoved_def inside_def)
      qed
      then have "unmoved src dst q \<in> fst ` set t" using s in_t by (simp add: t_def map_of_delete)
      moreover from this have "moved src dst (unmoved src dst q) = q" using moved_eq [OF keys nw] that by blast
      ultimately show False using False by blast
    qed
    then show ?thesis using n by auto
  qed
  show "is_dir q f' \<longleftrightarrow> \<not> (inside q src \<and> \<not> inside q dst) \<and> is_dir (unmoved src dst q) f"
  proof
    assume "is_dir q f'"
    then obtain d where d: "is_dir d f" "moved src dst d = q" by (auto simp: is_dir_def f'(2))
    then show "\<not> (inside q src \<and> \<not> inside q dst) \<and> is_dir (unmoved src dst q) f" using moved_eq [OF dirs [OF d(1)] nw] by auto
  next
    assume a: "\<not> (inside q src \<and> \<not> inside q dst) \<and> is_dir (unmoved src dst q) f"
    then have "moved src dst (unmoved src dst q) = q" using moved_eq [OF dirs nw] by blast
    then show "is_dir q f'" using a unfolding is_dir_def f'(2) by (metis imageI set_map)
  qed
qed

section \<open>Every operation keeps the file system well-formed\<close>

lemma inside_iff: "inside q p \<longleftrightarrow> (\<exists>zs. segments q = segments p @ zs)"
  unfolding inside_def below_iff using segments_inj by (metis append_Nil2)

lemma in_upward_inside: "HasPrefix d ''/'' \<Longrightarrow> d \<in> set (upward p) \<longleftrightarrow> inside p d"
  using in_upward_rooted [of d p] by (auto simp: inside_def)

lemma inside_trans: "inside r q \<Longrightarrow> inside q p \<Longrightarrow> inside r p"
  by (auto simp: inside_iff)

lemma below_inside_trans: "below r q \<Longrightarrow> inside q p \<Longrightarrow> below r p" "inside r q \<Longrightarrow> below q p \<Longrightarrow> below r p"
  by (auto simp: inside_iff below_iff)

lemma rooted_below: "HasPrefix d ''/'' \<Longrightarrow> segments p = segments d @ zs \<Longrightarrow> HasPrefix p ''/''"
proof -
  assume d: "HasPrefix d ''/''" and "segments p = segments d @ zs"
  then have "p = d \<or> below p d" unfolding inside_def [symmetric] inside_iff by blast
  then show ?thesis using d by (auto simp: below_prefix HasPrefix_prefix prefix_def)
qed

lemma not_top: "HasPrefix d ''/'' \<Longrightarrow> segments p = segments d @ [x] \<Longrightarrow> p \<noteq> ''/''"
proof
  assume "HasPrefix d ''/''" "segments p = segments d @ [x]" "p = ''/''"
  then have "length (segments ''/'') = length (segments d) + 1" "2 \<le> length (segments d)" using rooted_segments by simp_all
  then show False by simp
qed

lemma above_cases: "below q d \<Longrightarrow> inside q p \<Longrightarrow> inside d p \<or> below p d"
proof -
  assume "below q d" "inside q p"
  then obtain zs ys where "segments d @ zs = segments p @ ys" unfolding inside_iff below_iff by metis
  then consider us where "segments d @ us = segments p" | us where "segments d = segments p @ us"
    by (auto simp: append_eq_append_conv2)
  then show ?thesis
  proof cases
    case (1 us)
    then show ?thesis unfolding inside_iff below_iff by (cases "us = []") (metis append_Nil2, metis)
  next
    case (2 us)
    then show ?thesis unfolding inside_iff by blast
  qed
qed

lemma exists_above: "fs_ok f \<Longrightarrow> exists_path q f \<Longrightarrow> inside q p \<Longrightarrow> p \<noteq> [] \<Longrightarrow> exists_path p f"
  unfolding inside_def fs_ok_def exists_path_def by blast

lemma fs_okI:
  assumes "unique_keys (fsFiles f)" "distinct (fsDirs f)" "\<And>p. \<not> (is_file p f \<and> is_dir p f)"
    "\<And>p. exists_path p f \<Longrightarrow> HasPrefix p ''/''"
    "\<And>p d. exists_path p f \<Longrightarrow> below p d \<Longrightarrow> d \<noteq> [] \<Longrightarrow> is_dir d f"
  shows "fs_ok f"
  using assms unfolding fs_ok_def by blast

lemma MkdirAll_fs_ok:
  assumes ok: "fs_ok f" and m: "MkdirAll p f = Some f'" and p: "HasPrefix p ''/''"
  shows "fs_ok f'"
proof (cases "p = ''/''")
  case True
  then show ?thesis using m ok by (simp add: MkdirAll_def)
next
  case np: False
  show ?thesis
proof (rule fs_okI)
  have d: "is_dir q f' \<longleftrightarrow> is_dir q f \<or> q \<in> set (upward p)" for q
    using MkdirAll_dirs [OF m np] by (auto simp: is_dir_def)
  have fl: "is_file q f' = is_file q f" for q using MkdirAll_files [OF m] by (simp add: is_file_def)
  have nf: "q \<in> set (upward p) \<Longrightarrow> \<not> is_file q f" for q using m np by (auto simp: MkdirAll_def list_ex_iff split: if_splits)
  show "unique_keys (fsFiles f')" using ok MkdirAll_files [OF m] by (simp add: fs_ok_def)
  have "distinct (upward p)"
    unfolding upward_def
  proof (subst distinct_map, intro conjI inj_onI)
    fix x y assume x: "x \<in> set [2..<Suc (length (segments p))]" "y \<in> set [2..<Suc (length (segments p))]"
      and e: "join_with ''/'' (take x (segments p)) = join_with ''/'' (take y (segments p))"
    have "take x (segments p) = take y (segments p)" using join_take [of x _ p] join_take [of y _ p] e x by (metis atLeastLessThan_iff set_upt)
    then have "length (take x (segments p)) = length (take y (segments p))" by simp
    moreover have "x \<le> length (segments p)" "y \<le> length (segments p)" using x by auto
    ultimately show "x = y" by simp
  qed simp
  then show "distinct (fsDirs f')" using m ok np by (auto simp: MkdirAll_def fs_ok_def is_dir_def split: if_splits)
  show "\<not> (is_file q f' \<and> is_dir q f')" for q using ok nf unfolding d fl fs_ok_def by blast
  show "HasPrefix q ''/''" if "exists_path q f'" for q
    using that ok upward_rooted [OF p, of q] unfolding exists_path_def d fl fs_ok_def by blast
  show "is_dir e f'" if "exists_path q f'" "below q e" "e \<noteq> []" for q e
  proof (cases "q \<in> set (upward p)")
    case True
    have q: "HasPrefix q ''/''" by (rule upward_rooted [OF p True])
    have e: "HasPrefix e ''/''" by (rule above_rooted [OF q that(2,3)])
    have "inside p q" using True in_upward_rooted [OF q, of p] by (auto simp: inside_def)
    then have "below p e" using below_inside_trans(2) that(2) by blast
    then show ?thesis using in_upward_rooted [OF e] d by blast
  next
    case False
    then have "exists_path q f" using that(1) by (auto simp: exists_path_def d fl)
    then show ?thesis using ok that(2,3) unfolding d fs_ok_def by blast
  qed
qed
qed

lemma MkdirAll_parent: "MkdirAll p f = Some f' \<Longrightarrow> p \<noteq> ''/'' \<Longrightarrow> \<forall>d \<in> set (upward p). is_dir d f'"
  using MkdirAll_dirs by (auto simp: is_dir_def)

lemma Create_fs_ok:
  assumes ok: "fs_ok f" and c: "Create p n f = Some f'" and p: "HasPrefix p ''/''"
  shows "fs_ok f'"
proof (rule fs_okI)
  have f': "f' = f\<lparr>fsFiles := upsert p n (fsFiles f)\<rparr>" "\<not> is_dir p f" "parent_ok p f" using c by (auto simp: Create_def split: if_splits)
  have fl: "is_file q f' \<longleftrightarrow> q = p \<or> is_file q f" and d: "is_dir q f' = is_dir q f" for q by (auto simp: f'(1) is_file_def is_dir_def)
  show "unique_keys (fsFiles f')" "distinct (fsDirs f')" using ok by (simp_all add: f'(1) fs_ok_def)
  show "\<not> (is_file q f' \<and> is_dir q f')" for q using ok f'(2) unfolding d fl fs_ok_def by blast
  show "HasPrefix q ''/''" if "exists_path q f'" for q using that ok p unfolding exists_path_def d fl fs_ok_def by blast
  show "is_dir e f'" if "exists_path q f'" "below q e" "e \<noteq> []" for q e
    using that ok f'(3) parent_ok_iff [OF p] unfolding exists_path_def d fl fs_ok_def by blast
qed

lemma RemoveFile_fs_ok: "fs_ok f \<Longrightarrow> fs_ok (RemoveFile p f)"
proof (rule fs_okI)
  assume ok: "fs_ok f"
  have fl: "is_file q (RemoveFile p f) \<longleftrightarrow> q \<noteq> p \<and> is_file q f" and d: "is_dir q (RemoveFile p f) = is_dir q f" for q
    by (auto simp: RemoveFile_def is_file_def is_dir_def map_of_delete)
  show "unique_keys (fsFiles (RemoveFile p f))" "distinct (fsDirs (RemoveFile p f))"
    using ok by (simp_all add: RemoveFile_def fs_ok_def AList.distinct_delete)
  show "\<not> (is_file q (RemoveFile p f) \<and> is_dir q (RemoveFile p f))" for q using ok unfolding d fl fs_ok_def by blast
  show "HasPrefix q ''/''" if "exists_path q (RemoveFile p f)" for q using that ok unfolding exists_path_def d fl fs_ok_def by blast
  show "is_dir e (RemoveFile p f)" if "exists_path q (RemoveFile p f)" "below q e" "e \<noteq> []" for q e
    using that ok unfolding exists_path_def d fl fs_ok_def by blast
qed

lemma Remove_fs_ok:
  assumes ok: "fs_ok f" and r: "Remove p f = Some f'"
  shows "fs_ok f'"
proof (cases "is_file p f")
  case True
  then show ?thesis using r RemoveFile_fs_ok [OF ok] by (auto simp: Remove_def)
next
  case False
  then have f': "f' = f\<lparr>fsDirs := removeAll p (fsDirs f)\<rparr>" "\<not> has_children p f" using r by (auto simp: Remove_def split: if_splits)
  have fl: "is_file q f' = is_file q f" and d: "is_dir q f' \<longleftrightarrow> q \<noteq> p \<and> is_dir q f" for q by (auto simp: f'(1) is_file_def is_dir_def)
  show ?thesis
  proof (rule fs_okI)
    show "unique_keys (fsFiles f')" "distinct (fsDirs f')" using ok by (simp_all add: f'(1) fs_ok_def distinct_removeAll)
    show "\<not> (is_file q f' \<and> is_dir q f')" for q using ok unfolding d fl fs_ok_def by blast
    show "HasPrefix q ''/''" if "exists_path q f'" for q using that ok unfolding exists_path_def d fl fs_ok_def by blast
    show "is_dir e f'" if "exists_path q f'" "below q e" "e \<noteq> []" for q e
    proof -
      have q: "exists_path q f" using that(1) unfolding exists_path_def d fl by blast
      then have "is_dir e f" using ok that(2,3) unfolding fs_ok_def by blast
      moreover have "e \<noteq> p" using f'(2) q that(2) by (auto simp: has_children_iff)
      ultimately show ?thesis by (simp add: d)
    qed
  qed
qed

lemma RemoveAll_fs_ok: "fs_ok f \<Longrightarrow> fs_ok (RemoveAll p f)"
proof (rule fs_okI)
  assume ok: "fs_ok f"
  have fl: "is_file q (RemoveAll p f) \<longleftrightarrow> \<not> inside q p \<and> is_file q f" and d: "is_dir q (RemoveAll p f) \<longleftrightarrow> \<not> inside q p \<and> is_dir q f" for q
    by (auto simp: is_file_def map_of_RemoveAll is_dir_RemoveAll inside_def)
  show "unique_keys (fsFiles (RemoveAll p f))" "distinct (fsDirs (RemoveAll p f))"
    using ok by (simp_all add: RemoveAll_def fs_ok_def distinct_map_filter)
  show "\<not> (is_file q (RemoveAll p f) \<and> is_dir q (RemoveAll p f))" for q using ok unfolding d fl fs_ok_def by blast
  show "HasPrefix q ''/''" if "exists_path q (RemoveAll p f)" for q using that ok unfolding exists_path_def d fl fs_ok_def by blast
  show "is_dir e (RemoveAll p f)" if "exists_path q (RemoveAll p f)" "below q e" "e \<noteq> []" for q e
  proof -
    have q: "exists_path q f" "\<not> inside q p" using that(1) unfolding exists_path_def d fl by blast+
    then have "\<not> inside e p" using that(2) inside_trans [of q e p] by (auto simp: inside_def)
    moreover have "is_dir e f" using q(1) ok that(2,3) unfolding fs_ok_def by blast
    ultimately show ?thesis by (simp add: d)
  qed
qed

lemma Rename_fs_ok:
  assumes ok: "fs_ok f" and r: "Rename src dst f = Some f'" and dst: "HasPrefix dst ''/''"
  shows "fs_ok f'"
proof (cases "src = dst")
  case True
  then show ?thesis using r ok by (auto simp: Rename_def split: if_splits)
next
  case False
  have c: "exists_path src f" "\<not> is_dir dst f" "\<not> below dst src" "parent_ok dst f"
    and f': "fsFiles f' = map (\<lambda>(q, n). (moved src dst q, n)) (AList.delete dst (fsFiles f))" "fsDirs f' = map (moved src dst) (fsDirs f)"
    using r False by (auto simp: Rename_def split: if_splits)
  have nw: "\<not> inside dst src" using c(3) False by (auto simp: inside_def)
  have fl: "is_file q f' \<longleftrightarrow> \<not> (inside q src \<and> \<not> inside q dst) \<and> is_file (unmoved src dst q) f"
    and d: "is_dir q f' \<longleftrightarrow> \<not> (inside q src \<and> \<not> inside q dst) \<and> is_dir (unmoved src dst q) f" for q
    using Rename_moves [OF ok r False dst, of q] by (auto simp: is_file_def)
  have out: "exists_path k f \<Longrightarrow> k \<noteq> dst \<Longrightarrow> \<not> inside k dst" for k using exists_inside [OF ok _ _ c(2) dst] by blast
  show ?thesis
  proof (rule fs_okI)
    have "inj_on (moved src dst) {k. exists_path k f \<and> k \<noteq> dst}"
      by (rule inj_onI) (use moved_inj out in blast)
    then have inj: "inj_on (moved src dst) A" if "A \<subseteq> {k. exists_path k f \<and> k \<noteq> dst}" for A using that inj_on_subset by blast
    have ks: "k \<in> fst ` set (fsFiles f) \<longleftrightarrow> is_file k f" for k by (auto simp: is_file_def dom_map_of_conv_image_fst [symmetric])
    have "map fst (fsFiles f') = map (moved src dst) (map fst (AList.delete dst (fsFiles f)))" by (simp add: f'(1) case_prod_beta)
    moreover have "inj_on (moved src dst) (fst ` set (AList.delete dst (fsFiles f)))"
      by (rule inj) (auto simp: AList.delete_eq exists_path_def ks [symmetric])
    moreover have "distinct (map fst (AList.delete dst (fsFiles f)))" using ok by (intro AList.distinct_delete) (simp add: fs_ok_def)
    ultimately show "unique_keys (fsFiles f')" by (metis distinct_map set_map)
    have "inj_on (moved src dst) (set (fsDirs f))" by (rule inj) (use c(2) in \<open>auto simp: is_dir_def exists_path_def\<close>)
    then show "distinct (fsDirs f')" using ok by (simp add: f'(2) distinct_map fs_ok_def)
    show "\<not> (is_file q f' \<and> is_dir q f')" for q using ok unfolding fl d fs_ok_def by blast
    show rt: "HasPrefix q ''/''" if "exists_path q f'" for q
    proof (cases "inside q dst")
      case True
      then have "prefix dst q" by (auto simp: inside_def below_prefix prefix_def)
      then show ?thesis using dst prefix_order.trans by (auto simp: HasPrefix_prefix)
    next
      case False
      then have "exists_path q f" using that by (auto simp: exists_path_def fl d unmoved_def)
      then show ?thesis using ok unfolding fs_ok_def by blast
    qed
    show "is_dir e f'" if q: "exists_path q f'" and b: "below q e" "e \<noteq> []" for q e
    proof -
      have ex: "exists_path (unmoved src dst q) f" "\<not> (inside q src \<and> \<not> inside q dst)" using q by (auto simp: exists_path_def fl d)
      show ?thesis
      proof (cases "inside q dst")
        case False
        then have "exists_path q f" "\<not> inside q src" using ex by (auto simp: unmoved_def)
        then have "is_dir e f" using ok b unfolding fs_ok_def by blast
        moreover have "\<not> inside e dst" "\<not> inside e src"
          using False \<open>\<not> inside q src\<close> b(1) inside_trans [of q e] by (auto simp: inside_def)
        ultimately show ?thesis by (simp add: d unmoved_def)
      next
        case True
        show ?thesis
        proof (cases "inside e dst")
          case e: True
          have "below (src @ drop (length dst) q) (src @ drop (length dst) e)"
          proof -
            obtain r where "q = e @ ''/'' @ r" using b(1) by (auto simp: below_prefix prefix_def)
            moreover have "length dst \<le> length e" using e by (auto simp: inside_def below_prefix prefix_def)
            ultimately show ?thesis by (simp add: below_prefix)
          qed
          moreover have "exists_path (src @ drop (length dst) q) f" using ex(1) True by (simp add: unmoved_def)
          moreover have "src @ drop (length dst) e \<noteq> []" using c(1) ok by (auto simp: fs_ok_def HasPrefix_def)
          ultimately have "is_dir (src @ drop (length dst) e) f" using ok unfolding fs_ok_def by blast
          then show ?thesis using e by (simp add: d unmoved_def)
        next
          case e: False
          then have "below dst e" using above_cases [OF b(1) True] by blast
          then have "is_dir e f" using c(4) parent_ok_iff [OF dst] b(2) by blast
          moreover have "\<not> inside e src" using below_inside_trans(1) [OF \<open>below dst e\<close>] c(3) by blast
          ultimately show ?thesis using e by (simp add: d unmoved_def)
        qed
      qed
    qed
  qed
qed

lemmas fs_keeps = MkdirAll_fs_ok Create_fs_ok RemoveFile_fs_ok Remove_fs_ok RemoveAll_fs_ok Rename_fs_ok

lemma fs_ok_check [code]:
  "fs_ok f \<longleftrightarrow> unique_keys (fsFiles f) \<and> distinct (fsDirs f) \<and> list_all (\<lambda>p. \<not> is_dir p f) (map fst (fsFiles f)) \<and>
     list_all (\<lambda>p. HasPrefix p ''/'' \<and> parent_ok p f) (map fst (fsFiles f) @ fsDirs f)"
proof -
  have fl: "is_file p f \<longleftrightarrow> p \<in> set (map fst (fsFiles f))" for p
    by (auto simp: is_file_def dom_map_of_conv_image_fst [symmetric])
  have ex: "exists_path p f \<longleftrightarrow> p \<in> set (map fst (fsFiles f) @ fsDirs f)" for p
    using fl by (auto simp: exists_path_def is_dir_def)
  have "list_all (\<lambda>p. \<not> is_dir p f) (map fst (fsFiles f)) \<longleftrightarrow> (\<forall>p. \<not> (is_file p f \<and> is_dir p f))"
    unfolding list_all_iff Ball_def fl by blast
  moreover have "list_all (\<lambda>p. HasPrefix p ''/'' \<and> parent_ok p f) (map fst (fsFiles f) @ fsDirs f) \<longleftrightarrow>
      (\<forall>p. exists_path p f \<longrightarrow> HasPrefix p ''/'') \<and> (\<forall>p d. exists_path p f \<longrightarrow> below p d \<longrightarrow> d \<noteq> [] \<longrightarrow> is_dir d f)"
    unfolding list_all_iff Ball_def ex [symmetric] using parent_ok_iff by blast
  ultimately show ?thesis unfolding fs_ok_def by simp
qed

section \<open>Clean paths\<close>

text \<open>What the handlers create: rooted, and below the top only plain names. The top directory itself is left out.\<close>

definition clean_path :: "string \<Rightarrow> bool" where
  "clean_path p \<longleftrightarrow> HasPrefix p ''/'' \<and> list_all plain_name (tl (segments p))"

lemma clean_path_abs: "clean_path p \<longleftrightarrow> (\<exists>ns. ns \<noteq> [] \<and> list_all plain_name ns \<and> p = abs_path ns)"
proof
  assume p: "clean_path p"
  then have "2 \<le> length (segments p)" using rooted_segments by (simp add: clean_path_def)
  then obtain a ns where s: "segments p = a # ns" "ns \<noteq> []" by (cases "segments p") (auto simp: Suc_le_eq)
  have "a = []" using p s(1) by (cases p) (auto simp: clean_path_def HasPrefix_def)
  then have "p = abs_path ns" using join_segments [of p] s by (cases ns) (simp_all add: abs_path_def)
  then show "\<exists>ns. ns \<noteq> [] \<and> list_all plain_name ns \<and> p = abs_path ns" using p s by (auto simp: clean_path_def)
next
  assume "\<exists>ns. ns \<noteq> [] \<and> list_all plain_name ns \<and> p = abs_path ns"
  then obtain ns where ns: "ns \<noteq> []" "list_all plain_name ns" "p = abs_path ns" by blast
  then have "segments p = [] # ns" using segments_abs_path by blast
  then show "clean_path p" using ns by (simp add: clean_path_def abs_path_def HasPrefix_def)
qed

lemma clean_path_segments: "clean_path p \<longleftrightarrow> (\<exists>ns. ns \<noteq> [] \<and> list_all plain_name ns \<and> segments p = [] # ns)"
proof
  assume "clean_path p"
  then show "\<exists>ns. ns \<noteq> [] \<and> list_all plain_name ns \<and> segments p = [] # ns"
    unfolding clean_path_abs using segments_abs_path by blast
next
  assume "\<exists>ns. ns \<noteq> [] \<and> list_all plain_name ns \<and> segments p = [] # ns"
  then obtain ns where ns: "ns \<noteq> []" "list_all plain_name ns" "segments p = [] # ns" by blast
  then have "p = abs_path ns" using join_segments [of p] by (cases ns) (simp_all add: abs_path_def)
  then show "clean_path p" using ns clean_path_abs by blast
qed

lemma clean_pathD:
  assumes "clean_path p"
  shows "HasPrefix p ''/''" "p \<noteq> ''/''" "p \<noteq> []" "Clean p = p"
proof -
  obtain ns where ns: "ns \<noteq> []" "list_all plain_name ns" "p = abs_path ns" using assms clean_path_abs by blast
  show "HasPrefix p ''/''" using assms by (simp add: clean_path_def)
  then show "p \<noteq> []" by (auto simp: HasPrefix_def)
  show "p \<noteq> ''/''" using abs_path_Nil [OF ns(2)] ns by simp
  show "Clean p = p" using Clean_abs_path ns by simp
qed

lemma clean_path_append: "clean_path p \<Longrightarrow> segments q = segments p @ zs \<Longrightarrow> clean_path q \<longleftrightarrow> list_all plain_name zs"
proof -
  assume p: "clean_path p" and q: "segments q = segments p @ zs"
  obtain ns where ns: "ns \<noteq> []" "list_all plain_name ns" "segments p = [] # ns" using p clean_path_segments by blast
  show ?thesis
  proof
    assume "clean_path q"
    then show "list_all plain_name zs" using q ns by (auto simp: clean_path_def)
  next
    assume "list_all plain_name zs"
    then show "clean_path q" using q ns unfolding clean_path_segments by (intro exI [of _ "ns @ zs"]) simp
  qed
qed

lemma clean_path_above: "clean_path p \<Longrightarrow> inside p d \<Longrightarrow> d \<noteq> [] \<Longrightarrow> clean_path d"
proof -
  assume p: "clean_path p" and d: "inside p d" "d \<noteq> []"
  obtain ns where ns: "ns \<noteq> []" "list_all plain_name ns" "segments p = [] # ns" using p clean_path_segments by blast
  obtain zs where z: "[] # ns = segments d @ zs" using d(1) ns(3) by (auto simp: inside_iff)
  then obtain ms where m: "segments d = [] # ms" "ns = ms @ zs" using split_on_nonempty [of "CHR ''/''" d]
    by (cases "segments d") auto
  have "ms \<noteq> []" using m(1) d(2) join_segments [of d] by auto
  then show "clean_path d" using m ns(2) by (auto simp: clean_path_segments)
qed

definition fs_clean :: "fs \<Rightarrow> bool" where
  "fs_clean f \<longleftrightarrow> list_all clean_path (map fst (fsFiles f) @ fsDirs f)"

lemma fs_clean_iff: "fs_clean f \<longleftrightarrow> (\<forall>p. exists_path p f \<longrightarrow> clean_path p)"
proof -
  have "exists_path p f \<longleftrightarrow> p \<in> set (map fst (fsFiles f) @ fsDirs f)" for p
    by (auto simp: exists_path_def is_dir_def is_file_def dom_map_of_conv_image_fst [symmetric])
  then show ?thesis unfolding fs_clean_def list_all_iff by blast
qed

section \<open>Changes below one directory\<close>

text \<open>A well-formed file system with the directory \<open>r\<close>, and a change that stays inside it.\<close>

definition good_fs :: "string \<Rightarrow> fs \<Rightarrow> bool" where
  "good_fs r f \<longleftrightarrow> fs_ok f \<and> fs_clean f \<and> is_dir r f"

definition same_outside :: "string \<Rightarrow> fs \<Rightarrow> fs \<Rightarrow> bool" where
  "same_outside r f g \<longleftrightarrow> (\<forall>q. \<not> inside q r \<longrightarrow> map_of (fsFiles g) q = map_of (fsFiles f) q \<and> is_dir q g = is_dir q f)"

definition stays :: "string \<Rightarrow> fs \<Rightarrow> fs \<Rightarrow> bool" where
  "stays r f g \<longleftrightarrow> good_fs r g \<and> same_outside r f g"

lemma stays_refl: "good_fs r f \<Longrightarrow> stays r f f"
  by (simp add: stays_def same_outside_def)

lemma stays_trans: "stays r f g \<Longrightarrow> stays r g h \<Longrightarrow> stays r f h"
  by (simp add: stays_def same_outside_def)

lemma stays_good: "stays r f g \<Longrightarrow> good_fs r g"
  by (simp add: stays_def)

lemma good_fs_clean: "good_fs r f \<Longrightarrow> clean_path r"
  by (auto simp: good_fs_def fs_clean_iff exists_path_def)

lemma MkdirAll_stays:
  assumes good: "good_fs r f" and m: "MkdirAll p f = Some g" and p: "clean_path p" "inside p r"
  shows "stays r f g"
proof -
  have pd: "HasPrefix p ''/''" "p \<noteq> ''/''" using clean_pathD [OF p(1)] by simp_all
  have d: "is_dir q g \<longleftrightarrow> is_dir q f \<or> q \<in> set (upward p)" for q using MkdirAll_dirs [OF m pd(2)] by (auto simp: is_dir_def)
  have up: "clean_path q \<and> inside p q" if "q \<in> set (upward p)" for q
  proof -
    have "HasPrefix q ''/''" by (rule upward_rooted [OF pd(1) that])
    then have "inside p q" "q \<noteq> []" using in_upward_inside that by (auto simp: HasPrefix_def)
    then show ?thesis using clean_path_above [OF p(1)] by blast
  qed
  have fl: "fsFiles g = fsFiles f" by (rule MkdirAll_files [OF m])
  have "fs_ok g" using MkdirAll_fs_ok [OF _ m pd(1)] good by (simp add: good_fs_def)
  moreover have "fs_clean g" using good up d fl unfolding good_fs_def fs_clean_iff exists_path_def is_file_def by metis
  moreover have "is_dir q g = is_dir q f" if "\<not> inside q r" for q
  proof -
    have "is_dir q f" if "q \<in> set (upward p)"
    proof -
      have q: "inside p q" "clean_path q" using up [OF that] by simp_all
      obtain zs ys where "segments p = segments q @ zs" "segments p = segments r @ ys" using q(1) p(2) by (auto simp: inside_iff)
      then consider us where "segments q = segments r @ us" | us where "segments r = segments q @ us"
        by (metis append_eq_append_conv2)
      then have "inside r q" using \<open>\<not> inside q r\<close> by cases (auto simp: inside_iff)
      then show ?thesis using good clean_pathD(3) [OF q(2)] unfolding good_fs_def fs_ok_def inside_def exists_path_def by blast
    qed
    then show ?thesis using d by blast
  qed
  ultimately show ?thesis using good d fl by (simp add: stays_def good_fs_def same_outside_def)
qed

lemma Create_stays:
  assumes good: "good_fs r f" and c: "Create p n f = Some g" and p: "clean_path p" "inside p r"
  shows "stays r f g"
proof -
  have g: "g = f\<lparr>fsFiles := upsert p n (fsFiles f)\<rparr>" using c by (auto simp: Create_def split: if_splits)
  have "fs_ok g" using Create_fs_ok [OF _ c clean_pathD(1) [OF p(1)]] good by (simp add: good_fs_def)
  moreover have "fs_clean g" using good p(1) unfolding good_fs_def fs_clean_iff exists_path_def g by (auto simp: is_file_def is_dir_def split: if_splits)
  ultimately show ?thesis using good p(2) by (auto simp: stays_def good_fs_def same_outside_def g is_dir_def)
qed

lemma removed_stays:
  assumes good: "good_fs r f" and ok: "fs_ok g"
    and fl: "\<And>q. map_of (fsFiles g) q = map_of (fsFiles f) q \<or> (map_of (fsFiles g) q = None \<and> inside q p)"
    and d: "\<And>q. is_dir q g = is_dir q f \<or> (\<not> is_dir q g \<and> inside q p)"
    and p: "inside p r" "p \<noteq> r"
  shows "stays r f g"
proof -
  have nr: "\<not> inside r p"
  proof
    assume "inside r p"
    then have "below r r" using p below_inside_trans(2) [of r p r] by (auto simp: inside_def)
    then show False by simp
  qed
  have "fs_clean g" using good fl d unfolding good_fs_def fs_clean_iff exists_path_def is_file_def by metis
  moreover have "is_dir r g" using good d [of r] nr by (auto simp: good_fs_def)
  moreover have "same_outside r f g"
    unfolding same_outside_def using fl d inside_trans [OF _ p(1)] by metis
  ultimately show ?thesis using ok by (simp add: stays_def good_fs_def)
qed

lemma RemoveAll_stays: "good_fs r f \<Longrightarrow> inside p r \<Longrightarrow> p \<noteq> r \<Longrightarrow> stays r f (RemoveAll p f)"
  by (rule removed_stays [of r f "RemoveAll p f" p])
    (auto simp: good_fs_def RemoveAll_fs_ok map_of_RemoveAll is_dir_RemoveAll inside_def)

lemma Remove_stays:
  assumes "good_fs r f" "Remove p f = Some g" "inside p r" "p \<noteq> r"
  shows "stays r f g"
proof (rule removed_stays [OF assms(1) _ _ _ assms(3,4)])
  show "fs_ok g" using Remove_fs_ok assms(1,2) by (auto simp: good_fs_def)
  show "map_of (fsFiles g) q = map_of (fsFiles f) q \<or> (map_of (fsFiles g) q = None \<and> inside q p)" for q
    using assms(2) by (auto simp: Remove_def RemoveFile_def map_of_delete inside_def split: if_splits)
  show "is_dir q g = is_dir q f \<or> (\<not> is_dir q g \<and> inside q p)" for q
    using assms(2) by (auto simp: Remove_def RemoveFile_def is_dir_def inside_def split: if_splits)
qed

lemma inside_move:
  assumes "inside q src" "HasPrefix src ''/''"
  shows "\<exists>zs. segments q = segments src @ zs \<and> segments (dst @ drop (length src) q) = segments dst @ zs"
proof (cases "q = src")
  case False
  then have "below q src" using assms(1) by (simp add: inside_def)
  then obtain r where "q = src @ ''/'' @ r" by (auto simp: below_prefix prefix_def)
  then show ?thesis using segments_append by (intro exI [of _ "segments r"]) simp
qed simp

lemma Rename_stays:
  assumes good: "good_fs r f" and m: "Rename src dst f = Some g" and src: "inside src r" and dst: "clean_path dst" "inside dst r"
  shows "stays r f g"
proof (cases "src = dst")
  case True
  then show ?thesis using m good stays_refl by (auto simp: Rename_def split: if_splits)
next
  case False
  have rt: "HasPrefix dst ''/''" using clean_pathD(1) [OF dst(1)] .
  have ok: "fs_ok f" using good by (simp add: good_fs_def)
  have c: "\<not> is_dir dst f" "\<not> below dst src" "exists_path src f" using m by (auto simp: Rename_def split: if_splits)
  have "src \<noteq> r" using c(1,2) dst(2) good by (auto simp: inside_def good_fs_def)
  have dr: "dst \<noteq> r" using c(1) good by (auto simp: good_fs_def)
  have no: "\<not> inside r src" if "inside src r" "src \<noteq> r" for src
    using that below_inside_trans(2) [of r src r] by (auto simp: inside_def)
  have fl: "map_of (fsFiles g) q = (if inside q src \<and> \<not> inside q dst then None else map_of (fsFiles f) (unmoved src dst q))"
    and d: "is_dir q g \<longleftrightarrow> \<not> (inside q src \<and> \<not> inside q dst) \<and> is_dir (unmoved src dst q) f" for q
    using Rename_moves [OF ok m False rt] by auto
  have clean_src: "clean_path src" using good c(3) by (simp add: good_fs_def fs_clean_iff)
  have "fs_clean g"
    unfolding fs_clean_iff
  proof (intro allI impI)
    fix q assume "exists_path q g"
    then have "exists_path (unmoved src dst q) f" by (auto simp: exists_path_def is_file_def fl d split: if_splits)
    then have cl: "clean_path (unmoved src dst q)" using good by (simp add: good_fs_def fs_clean_iff)
    show "clean_path q"
    proof (cases "inside q dst")
      case True
      obtain zs where z: "segments q = segments dst @ zs" "segments (src @ drop (length dst) q) = segments src @ zs"
        using inside_move [OF True rt] by blast
      have "list_all plain_name zs" using cl True clean_path_append [OF clean_src z(2)] by (simp add: unmoved_def)
      then show ?thesis using clean_path_append [OF dst(1) z(1)] by simp
    qed (use cl in \<open>simp add: unmoved_def\<close>)
  qed
  moreover have "is_dir r g" using d [of r] good no [OF src \<open>src \<noteq> r\<close>] no [OF dst(2) dr] by (simp add: unmoved_def good_fs_def)
  moreover have "same_outside r f g"
  proof -
    have "\<not> inside q src" "\<not> inside q dst" if "\<not> inside q r" for q using that inside_trans src dst(2) by blast+
    then show ?thesis by (simp add: same_outside_def fl d unmoved_def)
  qed
  ultimately show ?thesis using Rename_fs_ok [OF ok m rt] by (simp add: stays_def good_fs_def)
qed

end
