(* ===== verification/Spc_Staging.thy ===== *)
theory Spc_Staging
  imports Spc_Fs Rm_Index
begin

text \<open>
  The upload staging of the Supernote private cloud (\<open>internal/spcserver/staging\<close>): uploaded bytes are held
  below \<open>.staging\<close> under a server-chosen name, whole or in numbered chunks, and promoted to their target
  once size and digest match; abandoned uploads are swept. A request body is its bytes and whether it was
  read to the end.
\<close>

section \<open>State\<close>

datatype upload_status = Applied | Finalized

record upload_row =
  upTarget :: string
  upFileName :: string
  upMD5 :: string
  upSize :: int
  upStatus :: upload_status
  upCreatedAt :: millis
  upExpiresAt :: millis

record staging =
  sgRoot :: string
  sgFs :: fs
  sgUploads :: "upload_row table"

record spc_env =
  envMD5 :: "string \<Rightarrow> string"
  envSHA256 :: "string \<Rightarrow> string"
  envNow :: millis

datatype staging_error =
  InvalidName | InvalidChunk | NameTaken | FsConflict | ReadError | NotStaged | SizeMismatch | MD5Mismatch | Escapes

definition maxUploadChunks :: int where
  "maxUploadChunks = 1024"

fun contains :: "string \<Rightarrow> string \<Rightarrow> bool" where
  "contains [] x = (x = [])"
| "contains (c # cs) x = (HasPrefix (c # cs) x \<or> contains cs x)"

definition stagingPath :: "string \<Rightarrow> string \<Rightarrow> string option" where
  "stagingPath base innerName =
     (if innerName = [] \<or> CHR ''/'' \<in> set innerName \<or> CHR 0x5C \<in> set innerName \<or> contains innerName ''..'' then None
      else Some (Clean (base @ ''/.staging/'' @ innerName)))"

definition partsPath :: "string \<Rightarrow> string \<Rightarrow> string" where
  "partsPath base innerName = Clean (base @ ''/.staging/.parts/'' @ innerName)"

text \<open>\<open>%08d\<close>.\<close>

definition chunk_name :: "int \<Rightarrow> string" where
  "chunk_name i = (let d = FormatInt i in replicate (8 - length d) (CHR ''0'') @ d)"

definition chunkDir :: "spc_env \<Rightarrow> string \<Rightarrow> string \<Rightarrow> string \<Rightarrow> int \<Rightarrow> string" where
  "chunkDir e base innerName uploadID totalChunks =
     partsPath base innerName @ ''/'' @ hexEncode (envSHA256 e uploadID) @ ''/'' @ FormatInt totalChunks"

definition chunkPath :: "spc_env \<Rightarrow> string \<Rightarrow> string \<Rightarrow> string \<Rightarrow> int \<Rightarrow> int \<Rightarrow> string" where
  "chunkPath e base innerName uploadID totalChunks i = chunkDir e base innerName uploadID totalChunks @ ''/'' @ chunk_name i"

section \<open>Operations\<close>

definition Record :: "spc_env \<Rightarrow> string \<Rightarrow> string \<Rightarrow> string \<Rightarrow> int \<Rightarrow> millis \<Rightarrow> staging \<Rightarrow> staging_error + staging" where
  "Record e innerName targetPath fileName claimedSize ttl s =
     (if map_of (sgUploads s) innerName \<noteq> None then Inl NameTaken
      else Inr (s\<lparr>sgUploads := upsert innerName
             \<lparr>upTarget = targetPath, upFileName = fileName, upMD5 = [], upSize = claimedSize, upStatus = Applied,
              upCreatedAt = envNow e, upExpiresAt = envNow e + ttl\<rparr> (sgUploads s)\<rparr>))"

definition Stage :: "spc_env \<Rightarrow> string \<Rightarrow> string \<times> bool \<Rightarrow> staging \<Rightarrow> (staging_error + int) \<times> staging" where
  "Stage e innerName body s =
     (case stagingPath (sgRoot s) innerName of
        None \<Rightarrow> (Inl InvalidName, s)
      | Some p \<Rightarrow>
          (case MkdirAll (Dir p) (sgFs s) of
             None \<Rightarrow> (Inl FsConflict, s)
           | Some f \<Rightarrow>
               (case Create p \<lparr>ndContent = fst body, ndMtime = envNow e\<rparr> f of
                  None \<Rightarrow> (Inl FsConflict, s\<lparr>sgFs := f\<rparr>)
                | Some g \<Rightarrow>
                    if \<not> snd body then (Inl ReadError, s\<lparr>sgFs := g\<rparr>)
                    else (Inr (int (length (fst body))), s\<lparr>sgFs := RemoveAll (partsPath (sgRoot s) innerName) g\<rparr>))))"

text \<open>The second half of \<open>StagePart\<close>: the chunks are copied to \<open>.merge\<close>, which then takes the staged name; a
  chunk that is a directory cannot be read.\<close>

definition merge_parts ::
  "spc_env \<Rightarrow> string \<Rightarrow> string \<Rightarrow> string list \<Rightarrow> int \<Rightarrow> staging \<Rightarrow> (staging_error + int \<times> bool) \<times> staging" where
  "merge_parts e innerName staged chunks n s =
     (case MkdirAll (Dir staged) (sgFs s) of
        None \<Rightarrow> (Inl FsConflict, s)
      | Some f \<Rightarrow>
          let merged = staged @ ''.merge'';
              content = concat (map (\<lambda>c. the (content_at c f)) chunks)
          in if list_ex (\<lambda>c. \<not> is_file c f) chunks \<and> Create merged \<lparr>ndContent = [], ndMtime = envNow e\<rparr> f \<noteq> None
             then (Inl FsConflict, s\<lparr>sgFs := RemoveFile merged f\<rparr>)
             else (case Create merged \<lparr>ndContent = content, ndMtime = envNow e\<rparr> f of
                     None \<Rightarrow> (Inl FsConflict, s\<lparr>sgFs := f\<rparr>)
                   | Some g \<Rightarrow>
                       (case Rename merged staged g of
                          None \<Rightarrow> (Inl FsConflict, s\<lparr>sgFs := RemoveFile merged g\<rparr>)
                        | Some h \<Rightarrow> (Inr (n, True), s\<lparr>sgFs := RemoveAll (partsPath (sgRoot s) innerName) h\<rparr>))))"

definition StagePart ::
  "spc_env \<Rightarrow> string \<Rightarrow> string \<Rightarrow> int \<Rightarrow> int \<Rightarrow> string \<times> bool \<Rightarrow> staging \<Rightarrow> (staging_error + int \<times> bool) \<times> staging" where
  "StagePart e innerName uploadID partNumber totalChunks body s =
     (if uploadID = [] then (Inl InvalidChunk, s)
      else if partNumber < 1 \<or> totalChunks < 1 \<or> totalChunks > maxUploadChunks \<or> partNumber > totalChunks
      then (Inl InvalidChunk, s)
      else case stagingPath (sgRoot s) innerName of
             None \<Rightarrow> (Inl InvalidName, s)
           | Some staged \<Rightarrow>
               if exists_path staged (sgFs s) then (Inr (0, True), s)
               else case MkdirAll (chunkDir e (sgRoot s) innerName uploadID totalChunks) (sgFs s) of
                      None \<Rightarrow> (Inl FsConflict, s)
                    | Some f \<Rightarrow>
                        let chunk = chunkPath e (sgRoot s) innerName uploadID totalChunks;
                            tmp = chunk partNumber @ ''.tmp'';
                            n = int (length (fst body))
                        in case Create tmp \<lparr>ndContent = fst body, ndMtime = envNow e\<rparr> f of
                             None \<Rightarrow> (Inl FsConflict, s\<lparr>sgFs := f\<rparr>)
                           | Some g \<Rightarrow>
                               if \<not> snd body then (Inl ReadError, s\<lparr>sgFs := RemoveFile tmp g\<rparr>)
                               else case Rename tmp (chunk partNumber) g of
                                      None \<Rightarrow> (Inl FsConflict, s\<lparr>sgFs := RemoveFile tmp g\<rparr>)
                                    | Some h \<Rightarrow>
                                        if list_ex (\<lambda>i. \<not> exists_path (chunk i) h) [1..totalChunks]
                                        then (Inr (n, False), s\<lparr>sgFs := h\<rparr>)
                                        else merge_parts e innerName staged (map chunk [1..totalChunks]) n (s\<lparr>sgFs := h\<rparr>))"

definition Finalize :: "spc_env \<Rightarrow> string \<Rightarrow> string \<Rightarrow> int \<Rightarrow> string \<Rightarrow> staging \<Rightarrow> (staging_error + string) \<times> staging" where
  "Finalize e innerName claimedMD5 claimedSize targetRelPath s =
     (case stagingPath (sgRoot s) innerName of
        None \<Rightarrow> (Inl InvalidName, s)
      | Some src \<Rightarrow>
          (case content_at src (sgFs s) of
             None \<Rightarrow> (Inl NotStaged, s)
           | Some content \<Rightarrow>
               let digest = hexEncode (envMD5 e content) in
               if 0 \<le> claimedSize \<and> int (length content) \<noteq> claimedSize then (Inl SizeMismatch, s)
               else if claimedMD5 \<noteq> [] \<and> map to_lower digest \<noteq> map to_lower claimedMD5 then (Inl MD5Mismatch, s)
               else case SafeResolve (sgRoot s) targetRelPath of
                      None \<Rightarrow> (Inl Escapes, s)
                    | Some dst \<Rightarrow>
                        (case MkdirAll (Dir dst) (sgFs s) of
                           None \<Rightarrow> (Inl FsConflict, s)
                         | Some f \<Rightarrow>
                             (case Rename src dst f of
                                None \<Rightarrow> (Inl FsConflict, s\<lparr>sgFs := f\<rparr>)
                              | Some g \<Rightarrow> (Inr dst, s\<lparr>sgFs := g, sgUploads := map (\<lambda>(i, r). (i,
                                    if i = innerName then r\<lparr>upStatus := Finalized, upMD5 := digest\<rparr> else r)) (sgUploads s)\<rparr>)))))"

definition sweep_one :: "string \<Rightarrow> staging \<Rightarrow> staging" where
  "sweep_one name s =
     (let f = (case stagingPath (sgRoot s) name of
                 None \<Rightarrow> sgFs s
               | Some p \<Rightarrow> (case Remove p (sgFs s) of None \<Rightarrow> sgFs s | Some f \<Rightarrow> f))
      in s\<lparr>sgFs := RemoveAll (partsPath (sgRoot s) name) f, sgUploads := AList.delete name (sgUploads s)\<rparr>)"

definition Sweep :: "spc_env \<Rightarrow> staging \<Rightarrow> staging" where
  "Sweep e s =
     fold sweep_one (map fst (filter (\<lambda>(_, r). upStatus r = Applied \<and> upExpiresAt r < envNow e) (sgUploads s))) s"

section \<open>Paths\<close>

lemma Clean_below:
  assumes "HasPrefix base ''/''" "list_all plain_name ns" "ns \<noteq> []"
  obtains rs where "list_all plain_name rs" "Clean base = abs_path rs" "Clean (base @ ''/'' @ join_with ''/'' ns) = abs_path (rs @ ns)"
proof -
  obtain rs where r: "list_all plain_name rs" "Clean base = abs_path rs" "rs = clean_segs True [] (segments base)"
    using Clean_rooted [OF assms(1)] .
  have sl: "\<forall>x \<in> set ns. CHR ''/'' \<notin> set x" using assms(2) by (auto simp: list_all_iff plain_name_def)
  have "HasPrefix (base @ ''/'' @ join_with ''/'' ns) ''/''" using assms(1) by (cases base) (auto simp: HasPrefix_def)
  then obtain xs where x: "Clean (base @ ''/'' @ join_with ''/'' ns) = abs_path xs"
    "xs = clean_segs True [] (segments (base @ ''/'' @ join_with ''/'' ns))"
    using Clean_rooted by blast
  have "\<forall>s \<in> set (segments base). CHR ''/'' \<notin> set s" using split_on_sep by fast
  then have "xs = clean_segs True (rev rs) ns"
    using x(2) r(3) clean_segs_append [of "[]" "segments base" ns] split_join [OF sl assms(3)] segments_append by simp
  then have "xs = rs @ ns" using clean_segs_id [OF assms(2)] by simp
  then show ?thesis using r x that by blast
qed

lemma upto_slash_append: "CHR ''/'' \<notin> set n \<Longrightarrow> upto_slash (p @ ''/'' @ n) = p @ ''/''"
proof -
  assume n: "CHR ''/'' \<notin> set n"
  have "dropWhile (\<lambda>c. c \<noteq> CHR ''/'') (rev n @ CHR ''/'' # rev p) = CHR ''/'' # rev p"
    using n by (subst dropWhile_append2) auto
  then show ?thesis by (simp add: upto_slash_def)
qed

lemma Dir_rooted: "HasPrefix p ''/'' \<Longrightarrow> HasPrefix (Dir p) ''/''"
proof -
  assume "HasPrefix p ''/''"
  then obtain r where r: "p = CHR ''/'' # r" by (cases p) (auto simp: HasPrefix_def)
  have "2 \<le> length (segments p)" using rooted_segments [OF \<open>HasPrefix p ''/''\<close>] .
  then obtain ss m where m: "segments p = ss @ [m]" "ss \<noteq> []" by (cases "segments p" rule: rev_cases) (auto simp: Suc_le_eq)
  then have "CHR ''/'' \<notin> set m" using segments_sep [of m p] by simp
  moreover have p: "p = join_with ''/'' ss @ ''/'' @ m"
    using join_with_append [of ss "[m]" "''/''"] m join_segments [of p] by simp
  ultimately have u: "upto_slash p = join_with ''/'' ss @ ''/''" by (subst (1) p) (rule upto_slash_append)
  have "join_with ''/'' ss @ ''/'' @ m = CHR ''/'' # r" by (rule trans [OF p [symmetric] r])
  then have "HasPrefix (join_with ''/'' ss @ ''/'') ''/''" by (cases "join_with ''/'' ss") (auto simp: HasPrefix_def)
  then have "HasPrefix (upto_slash p) ''/''" unfolding u .
  then obtain ns where "Clean (upto_slash p) = abs_path ns" using Clean_rooted by blast
  then show ?thesis by (simp add: Dir_def abs_path_def HasPrefix_def)
qed

lemma Dir_abs_path:
  assumes "list_all plain_name (ns @ [n])"
  shows "Dir (abs_path (ns @ [n])) = abs_path ns"
proof -
  have n: "CHR ''/'' \<notin> set n" using assms by (simp add: plain_name_def)
  show ?thesis
  proof (cases "ns = []")
    case True
    then have "upto_slash (abs_path (ns @ [n])) = ''/''" using upto_slash_append [OF n, of "[]"] by (simp add: abs_path_def)
    then show ?thesis using True by (simp add: Dir_def Clean_def abs_path_def HasPrefix_def)
  next
    case False
    have "abs_path (ns @ [n]) = abs_path ns @ ''/'' @ n" using False by (simp add: abs_path_def join_with_append)
    then have u: "upto_slash (abs_path (ns @ [n])) = abs_path ns @ ''/''" using upto_slash_append [OF n] by simp
    obtain xs where x: "Clean (abs_path ns @ ''/'') = abs_path xs" "xs = clean_segs True [] (segments (abs_path ns @ ''/''))"
      using Clean_rooted [of "abs_path ns @ ''/''"] by (auto simp: abs_path_def HasPrefix_def)
    have "segments (abs_path ns @ ''/'') = ([] # ns) @ [[]]"
      using segments_append [of "abs_path ns" "[]"] segments_abs_path [of ns] assms False by simp
    moreover have "clean_segs True [] ([] # (ns @ [[]])) = clean_segs True (rev (clean_segs True [] ns)) [[]]"
      using clean_segs_append [of "[]" ns "[[]]"] assms by (auto simp: list_all_iff plain_name_def)
    ultimately have "xs = ns" using x(2) clean_segs_id [of ns True "[]"] assms by simp
    then show ?thesis using u x(1) by (simp add: Dir_def)
  qed
qed

section \<open>Chunk names\<close>

lemma read_nat_zeros: "read_nat (replicate n (CHR ''0'') @ s) 0 = read_nat s 0"
proof (induction n)
  case (Suc n)
  have "digit_val (CHR ''0'') = Some 0" by code_simp
  then show ?case using Suc by simp
qed simp

lemma chunk_name_chars: "0 \<le> i \<Longrightarrow> set (chunk_name i) \<subseteq> number_chars"
  using show_nat_chars [of "nat i"] by (auto simp: chunk_name_def Let_def FormatInt_def number_chars_def)

lemma chunk_name_inj: "0 \<le> i \<Longrightarrow> 0 \<le> j \<Longrightarrow> chunk_name i = chunk_name j \<longleftrightarrow> i = j"
proof
  assume "0 \<le> i" "0 \<le> j" "chunk_name i = chunk_name j"
  moreover have "read_nat (chunk_name k) 0 = Some (nat k)" if "0 \<le> k" for k
    using that read_nat_zeros read_show_nat by (simp add: chunk_name_def Let_def FormatInt_def)
  ultimately have "Some (nat i) = Some (nat j)" by metis
  then show "i = j" using \<open>0 \<le> i\<close> \<open>0 \<le> j\<close> by simp
qed simp

lemma chunk_name_tmp: "0 \<le> i \<Longrightarrow> 0 \<le> j \<Longrightarrow> chunk_name i \<noteq> chunk_name j @ ''.tmp''"
proof
  assume "0 \<le> i" "0 \<le> j" and eq: "chunk_name i = chunk_name j @ ''.tmp''"
  have "CHR ''.'' \<in> set (chunk_name j @ ''.tmp'')" by simp
  then have "CHR ''.'' \<in> set (chunk_name i)" unfolding eq .
  then show False using chunk_name_chars [OF \<open>0 \<le> i\<close>] by (auto simp: number_chars_def)
qed

section \<open>The paths of one upload\<close>

text \<open>The segments of the paths a staged name owns. A name that starts a path below \<open>.staging\<close> and is not
  the parts directory itself is what the server hands out.\<close>

definition own_name :: "string \<Rightarrow> bool" where
  "own_name innerName \<longleftrightarrow> innerName \<notin> {''.'', ''.parts''}"

lemma hex_no_slash: "CHR ''/'' \<notin> set (hexEncode bs)"
proof
  assume "CHR ''/'' \<in> set (hexEncode bs)"
  then have "hex_val (CHR ''/'') \<noteq> None" using hexDecode_chars [OF hexDecode_hexEncode] by blast
  moreover have "hex_val (CHR ''/'') = None" by code_simp
  ultimately show False by simp
qed

lemma number_no_slash: "set s \<subseteq> number_chars \<Longrightarrow> CHR ''/'' \<notin> set s"
  by (auto simp: number_chars_def)

lemma staged_name:
  assumes "stagingPath base innerName = Some staged" "own_name innerName"
  shows "plain_name innerName" "staged = Clean (base @ ''/'' @ join_with ''/'' [''.staging'', innerName])"
proof -
  have "\<not> contains innerName ''..''" "innerName \<noteq> []" "CHR ''/'' \<notin> set innerName"
    using assms(1) by (auto simp: stagingPath_def split: if_splits)
  moreover have "contains ''..'' ''..''" by (simp add: HasPrefix_def)
  ultimately show "plain_name innerName" using assms(2) by (auto simp: plain_name_def own_name_def)
  show "staged = Clean (base @ ''/'' @ join_with ''/'' [''.staging'', innerName])"
    using assms(1) by (auto simp: stagingPath_def split: if_splits)
qed

lemma segments_rooted: "segments p = [] # x # xs \<Longrightarrow> HasPrefix p ''/''"
  using join_segments [of p] by (auto simp: HasPrefix_def)

lemma upload_paths:
  assumes base: "HasPrefix base ''/''" and st: "stagingPath base innerName = Some staged" "own_name innerName"
  obtains rs where "list_all plain_name rs" "Clean base = abs_path rs" "segments staged = [] # rs @ [''.staging'', innerName]"
    "segments (Dir staged) = [] # rs @ [''.staging'']"
    "segments (staged @ ''.merge'') = [] # rs @ [''.staging'', innerName @ ''.merge'']"
    "segments (partsPath base innerName) = [] # rs @ [''.staging'', ''.parts'', innerName]"
    "segments (chunkDir e base innerName uploadID n) =
       [] # rs @ [''.staging'', ''.parts'', innerName, hexEncode (envSHA256 e uploadID), FormatInt n]"
    "\<And>i. 0 \<le> i \<Longrightarrow> segments (chunkPath e base innerName uploadID n i) =
       [] # rs @ [''.staging'', ''.parts'', innerName, hexEncode (envSHA256 e uploadID), FormatInt n, chunk_name i]"
    "\<And>i. 0 \<le> i \<Longrightarrow> segments (chunkPath e base innerName uploadID n i @ ''.tmp'') =
       [] # rs @ [''.staging'', ''.parts'', innerName, hexEncode (envSHA256 e uploadID), FormatInt n, chunk_name i @ ''.tmp'']"
proof -
  have pl: "plain_name innerName" "plain_name ''.staging''" "plain_name ''.parts''" "CHR ''/'' \<notin> set innerName"
    using staged_name(1) [OF st] by (simp_all add: plain_name_def)
  obtain rs where r: "list_all plain_name rs" "Clean base = abs_path rs" "staged = abs_path (rs @ [''.staging'', innerName])"
    using Clean_below [OF base, of "[''.staging'', innerName]"] pl staged_name(2) [OF st] by auto
  obtain rs' where r': "list_all plain_name rs'" "Clean base = abs_path rs'"
    "partsPath base innerName = abs_path (rs' @ [''.staging'', ''.parts'', innerName])"
    using Clean_below [OF base, of "[''.staging'', ''.parts'', innerName]"] pl by (auto simp: partsPath_def)
  have rr: "rs' = rs" using abs_path_inj [OF r'(1) r(1)] r(2) r'(2) by simp
  have s1: "segments staged = [] # rs @ [''.staging'', innerName]"
    using segments_abs_path [of "rs @ [''.staging'', innerName]"] r(1,3) pl by simp
  have s3: "segments (partsPath base innerName) = [] # rs @ [''.staging'', ''.parts'', innerName]"
    using segments_abs_path [of "rs @ [''.staging'', ''.parts'', innerName]"] r(1) r'(3) rr pl by simp
  have s2: "segments (staged @ ''.merge'') = [] # rs @ [''.staging'', innerName @ ''.merge'']"
  proof -
    have "plain_name (innerName @ ''.merge'')" using pl(1) by (auto simp: plain_name_def Cons_eq_append_conv)
    moreover have "staged @ ''.merge'' = abs_path (rs @ [''.staging'', innerName @ ''.merge''])"
      
        unfolding r(3) abs_path_def by (cases "rs = []") (simp_all add: join_with_append)
    ultimately show ?thesis using segments_abs_path [of "rs @ [''.staging'', innerName @ ''.merge'']"] r(1) pl by simp
  qed
  have s4: "segments (chunkDir e base innerName uploadID n) =
       [] # rs @ [''.staging'', ''.parts'', innerName, hexEncode (envSHA256 e uploadID), FormatInt n]"
    unfolding chunkDir_def segments_append s3
    using hex_no_slash number_no_slash [OF FormatInt_chars] by (simp add: split_on_plain)
  have s5: "segments (chunkPath e base innerName uploadID n i @ x) =
       [] # rs @ [''.staging'', ''.parts'', innerName, hexEncode (envSHA256 e uploadID), FormatInt n, chunk_name i @ x]"
    if "0 \<le> i" "CHR ''/'' \<notin> set x" for i x
    unfolding chunkPath_def append_assoc segments_append s4
    using that number_no_slash [OF chunk_name_chars [OF that(1)]] by (simp add: split_on_plain)
  have s6: "segments (Dir staged) = [] # rs @ [''.staging'']"
    using Dir_abs_path [of "rs @ [''.staging'']" innerName] segments_abs_path [of "rs @ [''.staging'']"] r(1,3) pl by simp
  show ?thesis by (rule that [OF r(1,2) s1 s6 s2 s3 s4]) (use s5 [of _ "[]"] s5 [of _ "''.tmp''"] in auto)
qed

lemma upload_segs:
  assumes base: "HasPrefix base ''/''" and st: "stagingPath base innerName = Some staged" "own_name innerName"
  shows "segments staged = segments (Dir staged) @ [innerName]"
    "segments (staged @ ''.merge'') = segments (Dir staged) @ [innerName @ ''.merge'']"
    "segments (partsPath base innerName) = segments (Dir staged) @ [''.parts'', innerName]"
    "segments (chunkDir e base innerName uploadID n) =
       segments (partsPath base innerName) @ [hexEncode (envSHA256 e uploadID), FormatInt n]"
    "0 \<le> i \<Longrightarrow> segments (chunkPath e base innerName uploadID n i) = segments (chunkDir e base innerName uploadID n) @ [chunk_name i]"
    "0 \<le> i \<Longrightarrow> segments (chunkPath e base innerName uploadID n i @ ''.tmp'') =
       segments (chunkDir e base innerName uploadID n) @ [chunk_name i @ ''.tmp'']"
    "HasPrefix (Dir staged) ''/''" "Dir staged \<noteq> ''/''" "chunkDir e base innerName uploadID n \<noteq> ''/''"
proof -
  obtain rs where rs: "list_all plain_name rs" "Clean base = abs_path rs" and seg: "segments staged = [] # rs @ [''.staging'', innerName]" "segments (Dir staged) = [] # rs @ [''.staging'']"
    "segments (staged @ ''.merge'') = [] # rs @ [''.staging'', innerName @ ''.merge'']"
    "segments (partsPath base innerName) = [] # rs @ [''.staging'', ''.parts'', innerName]"
    "segments (chunkDir e base innerName uploadID n) =
       [] # rs @ [''.staging'', ''.parts'', innerName, hexEncode (envSHA256 e uploadID), FormatInt n]"
    "\<And>i. 0 \<le> i \<Longrightarrow> segments (chunkPath e base innerName uploadID n i) =
       [] # rs @ [''.staging'', ''.parts'', innerName, hexEncode (envSHA256 e uploadID), FormatInt n, chunk_name i]"
    "\<And>i. 0 \<le> i \<Longrightarrow> segments (chunkPath e base innerName uploadID n i @ ''.tmp'') =
       [] # rs @ [''.staging'', ''.parts'', innerName, hexEncode (envSHA256 e uploadID), FormatInt n, chunk_name i @ ''.tmp'']"
    by (rule upload_paths [OF base st, of e uploadID n]) (rule that; blast)
  show "segments staged = segments (Dir staged) @ [innerName]"
    "segments (staged @ ''.merge'') = segments (Dir staged) @ [innerName @ ''.merge'']"
    "segments (partsPath base innerName) = segments (Dir staged) @ [''.parts'', innerName]"
    "segments (chunkDir e base innerName uploadID n) =
       segments (partsPath base innerName) @ [hexEncode (envSHA256 e uploadID), FormatInt n]"
    "0 \<le> i \<Longrightarrow> segments (chunkPath e base innerName uploadID n i) = segments (chunkDir e base innerName uploadID n) @ [chunk_name i]"
    "0 \<le> i \<Longrightarrow> segments (chunkPath e base innerName uploadID n i @ ''.tmp'') =
       segments (chunkDir e base innerName uploadID n) @ [chunk_name i @ ''.tmp'']"
    unfolding seg(1-5) using seg(6,7) by simp_all
  show "HasPrefix (Dir staged) ''/''" using seg(2) segments_rooted by (cases rs) simp_all
  have top: "segments ''/'' = [[], []]" by simp
  show "Dir staged \<noteq> ''/''"
  proof
    assume "Dir staged = ''/''"
    then have "[] # rs @ [''.staging''] = [[], []]" using seg(2) top by metis
    then show False by (cases rs) auto
  qed
  show "chunkDir e base innerName uploadID n \<noteq> ''/''"
  proof
    assume "chunkDir e base innerName uploadID n = ''/''"
    then have "[] # rs @ [''.staging'', ''.parts'', innerName, hexEncode (envSHA256 e uploadID), FormatInt n] = [[], []]" using seg(5) top by metis
    then show False by (cases rs) auto
  qed
qed

text \<open>Nothing lies yet at the paths the upload owns, and the directories above them are not files.\<close>

definition fresh_upload :: "string \<Rightarrow> string \<Rightarrow> string \<Rightarrow> fs \<Rightarrow> bool" where
  "fresh_upload base innerName staged f \<longleftrightarrow>
     fs_ok f \<and> \<not> exists_path staged f \<and> \<not> exists_path (staged @ ''.merge'') f \<and>
     \<not> exists_path (partsPath base innerName) f \<and> list_all (\<lambda>q. \<not> is_file q f) (upward (partsPath base innerName))"

text \<open>The file system while the chunks \<open>acc\<close> have arrived.\<close>

definition holding :: "spc_env \<Rightarrow> string \<Rightarrow> string \<Rightarrow> string \<Rightarrow> int \<Rightarrow> fs \<Rightarrow> (int \<Rightarrow> string option) \<Rightarrow> fs \<Rightarrow> bool" where
  "holding e base innerName uploadID n f0 acc f \<longleftrightarrow> fs_ok f \<and>
     (\<forall>i \<in> {1..n}. content_at (chunkPath e base innerName uploadID n i) f = acc i) \<and>
     (\<forall>q. q \<notin> chunkPath e base innerName uploadID n ` {1..n} \<longrightarrow> map_of (fsFiles f) q = map_of (fsFiles f0) q) \<and>
     (\<forall>d. is_dir d f \<longrightarrow> is_dir d f0 \<or> d \<in> set (upward (chunkDir e base innerName uploadID n)))"

lemma holding_clear:
  assumes base: "HasPrefix base ''/''" and st: "stagingPath base innerName = Some staged" "own_name innerName"
    and fresh: "fresh_upload base innerName staged f0"
    and hold: "holding e base innerName uploadID n f0 acc f"
    and i: "0 \<le> i"
  shows "\<not> exists_path staged f" "\<not> exists_path (staged @ ''.merge'') f"
    "\<not> exists_path (chunkPath e base innerName uploadID n i @ ''.tmp'') f"
    "\<not> is_dir (chunkPath e base innerName uploadID n i) f"
    "\<forall>q \<in> set (upward (chunkDir e base innerName uploadID n)). \<not> is_file q f"
    "\<forall>q \<in> set (upward (Dir staged)). \<not> is_file q f"
proof -
  obtain rs where rs: "list_all plain_name rs" "Clean base = abs_path rs" and seg: "segments staged = [] # rs @ [''.staging'', innerName]"
    "segments (Dir staged) = [] # rs @ [''.staging'']"
    "segments (staged @ ''.merge'') = [] # rs @ [''.staging'', innerName @ ''.merge'']"
    "segments (partsPath base innerName) = [] # rs @ [''.staging'', ''.parts'', innerName]"
    "segments (chunkDir e base innerName uploadID n) =
       [] # rs @ [''.staging'', ''.parts'', innerName, hexEncode (envSHA256 e uploadID), FormatInt n]"
    "\<And>i. 0 \<le> i \<Longrightarrow> segments (chunkPath e base innerName uploadID n i) =
       [] # rs @ [''.staging'', ''.parts'', innerName, hexEncode (envSHA256 e uploadID), FormatInt n, chunk_name i]"
    "\<And>i. 0 \<le> i \<Longrightarrow> segments (chunkPath e base innerName uploadID n i @ ''.tmp'') =
       [] # rs @ [''.staging'', ''.parts'', innerName, hexEncode (envSHA256 e uploadID), FormatInt n, chunk_name i @ ''.tmp'']"
    by (rule upload_paths [OF base st, of e uploadID n]) (rule that; blast)
  have nm: "innerName \<noteq> ''.parts''" "innerName @ ''.merge'' \<noteq> ''.parts''"
    using st(2) by (auto simp: own_name_def Cons_eq_append_conv append_eq_Cons_conv)
  have ok0: "fs_ok f0" "\<not> exists_path (partsPath base innerName) f0" using fresh by (simp_all add: fresh_upload_def)
  have parts: "\<not> exists_path q f0" if "inside q (partsPath base innerName)" for q
  proof
    assume q: "exists_path q f0"
    have "partsPath base innerName \<noteq> []" using seg(4) by auto
    then have "exists_path (partsPath base innerName) f0"
      using q that ok0(1) unfolding inside_def fs_ok_def exists_path_def by blast
    then show False using ok0(2) by simp
  qed
  have fl: "is_file q f0 \<or> (\<exists>j. 1 \<le> j \<and> j \<le> n \<and> q = chunkPath e base innerName uploadID n j)" if "is_file q f" for q
  proof (cases "q \<in> chunkPath e base innerName uploadID n ` {1..n}")
    case False
    then have "map_of (fsFiles f) q = map_of (fsFiles f0) q" using hold unfolding holding_def by blast
    then show ?thesis using that by (simp add: is_file_def)
  qed auto
  have dir: "is_dir q f0 \<or> (\<exists>zs. segments (chunkDir e base innerName uploadID n) = segments q @ zs)"
    if "is_dir q f" "HasPrefix q ''/''" for q
    using hold that in_upward_inside [OF that(2)] unfolding holding_def inside_iff by blast
  have pfx: "HasPrefix staged ''/''" "HasPrefix (staged @ ''.merge'') ''/''" "HasPrefix (chunkPath e base innerName uploadID n i) ''/''"
    "HasPrefix (chunkPath e base innerName uploadID n i @ ''.tmp'') ''/''"
    using seg(1,3) seg(6,7) [OF i] segments_rooted by (cases rs; simp)+
  have in_parts: "inside (chunkPath e base innerName uploadID n i @ ''.tmp'') (partsPath base innerName)"
    "inside (chunkPath e base innerName uploadID n i) (partsPath base innerName)"
    using seg(4) seg(6,7) [OF i] by (auto simp: inside_iff)
  have longer: "0 \<le> j \<Longrightarrow> segments (chunkDir e base innerName uploadID n) \<noteq> segments (chunkPath e base innerName uploadID n j) @ zs"
    "segments (chunkDir e base innerName uploadID n) \<noteq> segments (chunkPath e base innerName uploadID n i @ ''.tmp'') @ zs"
    "0 \<le> j \<Longrightarrow> segments (Dir staged) \<noteq> segments (chunkPath e base innerName uploadID n j) @ zs" for j zs
    using seg(2,5) seg(6) [of j] seg(7) [OF i] by (auto dest: arg_cong [where f = length])
  show "\<not> exists_path staged f"
    using fresh fl [of staged] dir [OF _ pfx(1)] nm seg by (auto simp: fresh_upload_def exists_path_def)
  show "\<not> exists_path (staged @ ''.merge'') f"
    using fresh fl [of "staged @ ''.merge''"] dir [OF _ pfx(2)] nm seg by (auto simp: fresh_upload_def exists_path_def)
  show "\<not> exists_path (chunkPath e base innerName uploadID n i @ ''.tmp'') f"
  proof
    assume ex: "exists_path (chunkPath e base innerName uploadID n i @ ''.tmp'') f"
    have "chunkPath e base innerName uploadID n i @ ''.tmp'' \<noteq> chunkPath e base innerName uploadID n j" if "1 \<le> j" for j
    proof
      assume "chunkPath e base innerName uploadID n i @ ''.tmp'' = chunkPath e base innerName uploadID n j"
      then have "segments (chunkPath e base innerName uploadID n i @ ''.tmp'') = segments (chunkPath e base innerName uploadID n j)" by (rule arg_cong)
      then show False using seg(6) [of j] seg(7) [OF i] chunk_name_tmp [of j i] i that by simp
    qed
    then have "\<not> is_file (chunkPath e base innerName uploadID n i @ ''.tmp'') f"
      using fl parts [OF in_parts(1)] by (auto simp: exists_path_def)
    moreover have "\<not> is_dir (chunkPath e base innerName uploadID n i @ ''.tmp'') f"
      using dir [OF _ pfx(4)] parts [OF in_parts(1)] longer(2) unfolding exists_path_def by blast
    ultimately show False using ex by (simp add: exists_path_def)
  qed
  show "\<not> is_dir (chunkPath e base innerName uploadID n i) f"
    using parts [OF in_parts(2)] dir [OF _ pfx(3)] longer(1) [OF i] unfolding exists_path_def by blast
  have top: "\<not> is_file q f0" if "inside (partsPath base innerName) q" "HasPrefix q ''/''" for q
    using fresh that in_upward_inside [OF that(2)] unfolding fresh_upload_def list_all_iff by blast
  show "\<forall>q \<in> set (upward (chunkDir e base innerName uploadID n)). \<not> is_file q f"
  proof (intro ballI notI)
    fix q assume q: "q \<in> set (upward (chunkDir e base innerName uploadID n))" "is_file q f"
    then have r: "HasPrefix q ''/''" using hold by (auto simp: holding_def fs_ok_def exists_path_def)
    then obtain zs where z: "segments (chunkDir e base innerName uploadID n) = segments q @ zs"
      using q(1) in_upward_inside [OF r] unfolding inside_iff by blast
    have "q \<noteq> chunkPath e base innerName uploadID n j" if "1 \<le> j" for j
      using longer(1) [of j zs] z that by force
    then have f0: "is_file q f0" using fl [OF q(2)] by blast
    have "segments (partsPath base innerName) @ [hexEncode (envSHA256 e uploadID), FormatInt n] = segments q @ zs"
      unfolding z [symmetric] seg(4,5) by simp
    then have "inside q (partsPath base innerName) \<or> inside (partsPath base innerName) q"
      unfolding inside_iff append_eq_append_conv2 by metis
    then show False using parts top r f0 by (auto simp: exists_path_def)
  qed
  show "\<forall>q \<in> set (upward (Dir staged)). \<not> is_file q f"
  proof (intro ballI notI)
    fix q assume q: "q \<in> set (upward (Dir staged))" "is_file q f"
    then have r: "HasPrefix q ''/''" using hold by (auto simp: holding_def fs_ok_def exists_path_def)
    then obtain zs where z: "segments (Dir staged) = segments q @ zs"
      using q(1) in_upward_inside [OF r] unfolding inside_iff by blast
    have "q \<noteq> chunkPath e base innerName uploadID n j" if "1 \<le> j" for j
      using longer(3) [of j zs] z that by force
    then have f0: "is_file q f0" using fl [OF q(2)] by blast
    have "inside (partsPath base innerName) (Dir staged)" using seg(2,4) by (simp add: inside_iff)
    moreover have "inside (Dir staged) q" using z by (auto simp: inside_iff)
    ultimately have "inside (partsPath base innerName) q" by (rule inside_trans)
    then show False using top r f0 by blast
  qed
qed

lemma chunk_written:
  assumes base: "HasPrefix base ''/''" and st: "stagingPath base innerName = Some staged" "own_name innerName"
    and fresh: "fresh_upload base innerName staged f0"
    and hold: "holding e base innerName uploadID n f0 acc f" and k: "1 \<le> k" "k \<le> n"
  obtains f1 g h where "MkdirAll (chunkDir e base innerName uploadID n) f = Some f1"
    "Create (chunkPath e base innerName uploadID n k @ ''.tmp'') \<lparr>ndContent = b, ndMtime = t\<rparr> f1 = Some g"
    "Rename (chunkPath e base innerName uploadID n k @ ''.tmp'') (chunkPath e base innerName uploadID n k) g = Some h"
    "holding e base innerName uploadID n f0 (acc(k \<mapsto> b)) h"
proof -
  define c where "c = chunkPath e base innerName uploadID n"
  define d where "d = chunkDir e base innerName uploadID n"
  have k0: "0 \<le> k" using k by simp
  note seg = upload_segs(4-6) [OF base st, where e = e and uploadID = uploadID and n = n, folded c_def d_def]
  have "HasPrefix (partsPath base innerName) ''/''" using rooted_below [OF upload_segs(7) [OF base st] upload_segs(3) [OF base st]] .
  then have rt: "HasPrefix d ''/''" using rooted_below seg(1) by blast
  then have "HasPrefix (c k) ''/''" "HasPrefix (c k @ ''.tmp'') ''/''"
    using rooted_below seg(2,3) [OF k0] by blast+
  note rt = rt this
  have top: "d \<noteq> ''/''" unfolding d_def by (rule upload_segs(9) [OF base st])
  obtain f1 where f1: "MkdirAll d f = Some f1"
    using MkdirAll_ok [OF holding_clear(5) [OF base st fresh hold k0]] unfolding d_def by blast
  have ok: "fs_ok f" using hold by (simp add: holding_def)
  have h1: "holding e base innerName uploadID n f0 acc f1"
    using hold MkdirAll_fs_ok [OF ok f1 rt(1)] MkdirAll_files [OF f1] MkdirAll_dirs [OF f1 top]
    by (auto simp: holding_def content_at_def is_dir_def d_def)
  note cl = holding_clear [OF base st fresh h1 k0, folded c_def d_def]
  have up: "upward (c k @ ''.tmp'') = upward d @ [c k @ ''.tmp'']" "upward (c k) = upward d @ [c k]"
    using upward_snoc [OF seg(3) [OF k0]] upward_snoc [OF seg(2) [OF k0]] rooted_segments [OF rt(1)] by blast+
  have notop: "c k \<noteq> ''/''" "c k @ ''.tmp'' \<noteq> ''/''" using not_top [OF rt(1)] seg(2,3) [OF k0] by blast+
  have par: "parent_ok (c k @ ''.tmp'') f1" "parent_ok (c k) f1"
    using MkdirAll_parent [OF f1 top] by (auto simp: parent_ok_def up list_all_iff)
  define g where "g = f1\<lparr>fsFiles := upsert (c k @ ''.tmp'') \<lparr>ndContent = b, ndMtime = t\<rparr> (fsFiles f1)\<rparr>"
  have g: "Create (c k @ ''.tmp'') \<lparr>ndContent = b, ndMtime = t\<rparr> f1 = Some g"
    using cl(3) par(1) notop(2) by (simp add: Create_def exists_path_def g_def)
  have gd: "is_dir q g = is_dir q f1" for q by (simp add: is_dir_def g_def)
  have okg: "fs_ok g" using Create_fs_ok [OF _ g rt(3)] h1 by (simp add: holding_def)
  have "parent_ok (c k) g" using par(2) by (simp add: parent_ok_def gd)
  then obtain h where h: "Rename (c k @ ''.tmp'') (c k) g = Some h"
    "map_of (fsFiles h) = (map_of (fsFiles g))(c k @ ''.tmp'' := None, c k \<mapsto> \<lparr>ndContent = b, ndMtime = t\<rparr>)" "fsDirs h = fsDirs g"
    using Rename_file [OF okg, of "c k @ ''.tmp''" "\<lparr>ndContent = b, ndMtime = t\<rparr>" "c k"] cl(4) gd rt(2) notop by (auto simp: g_def)
  have files: "map_of (fsFiles h) = (map_of (fsFiles f1))(c k \<mapsto> \<lparr>ndContent = b, ndMtime = t\<rparr>)"
    using cl(3) h(2) by (auto simp: g_def fun_eq_iff exists_path_def is_file_def)
  have inj: "c i = c k \<longleftrightarrow> i = k" if "1 \<le> i" for i
    using chunk_name_inj [of i k] that k by (simp add: c_def chunkPath_def)
  have "holding e base innerName uploadID n f0 (acc(k \<mapsto> b)) h"
    unfolding holding_def
  proof (intro conjI)
    show "fs_ok h" by (rule Rename_fs_ok [OF okg h(1) rt(2)])
    show "\<forall>i \<in> {1..n}. content_at (chunkPath e base innerName uploadID n i) h = (acc(k \<mapsto> b)) i"
      using h1 inj by (auto simp: holding_def content_at_def files c_def [symmetric])
    show "\<forall>q. q \<notin> chunkPath e base innerName uploadID n ` {1..n} \<longrightarrow> map_of (fsFiles h) q = map_of (fsFiles f0) q"
      using h1 k by (auto simp: holding_def files c_def [symmetric])
    show "\<forall>q. is_dir q h \<longrightarrow> is_dir q f0 \<or> q \<in> set (upward (chunkDir e base innerName uploadID n))"
      using h1 h(3) by (simp add: holding_def is_dir_def g_def)
  qed
  then show ?thesis using that f1 g h(1) unfolding c_def d_def by blast
qed

lemma chunks_merged:
  assumes base: "HasPrefix (sgRoot s) ''/''" and st: "stagingPath (sgRoot s) innerName = Some staged" "own_name innerName"
    and fresh: "fresh_upload (sgRoot s) innerName staged f0"
    and hold: "holding e (sgRoot s) innerName uploadID n f0 acc f" and all: "None \<notin> set (map acc [1..n])"
  obtains h where "merge_parts e innerName staged (map (chunkPath e (sgRoot s) innerName uploadID n) [1..n]) m (s\<lparr>sgFs := f\<rparr>) =
      (Inr (m, True), s\<lparr>sgFs := h\<rparr>)" "fs_ok h"
    "map_of (fsFiles h) = (map_of (fsFiles f0))(staged \<mapsto> \<lparr>ndContent = concat (map the (map acc [1..n])), ndMtime = envNow e\<rparr>)"
proof -
  define c where "c = chunkPath e (sgRoot s) innerName uploadID n"
  define parts where "parts = partsPath (sgRoot s) innerName"
  define content where "content = concat (map the (map acc [1..n]))"
  define nd where "nd = \<lparr>ndContent = content, ndMtime = envNow e\<rparr>"
  note seg = upload_segs(1-3) [OF base st, folded parts_def]
    and segc = upload_segs(4,5) [OF base st, where e = e and uploadID = uploadID and n = n, folded parts_def c_def]
  have rt: "HasPrefix (Dir staged) ''/''" by (rule upload_segs(7) [OF base st])
  then have "HasPrefix staged ''/''" "HasPrefix (staged @ ''.merge'') ''/''" using rooted_below seg(1,2) by blast+
  note rt = rt this
  have ok: "fs_ok f" using hold by (simp add: holding_def)
  have top: "Dir staged \<noteq> ''/''" by (rule upload_segs(8) [OF base st])
  obtain f1 where f1: "MkdirAll (Dir staged) f = Some f1"
    using MkdirAll_ok [OF holding_clear(6) [OF base st fresh hold, of 0]] by auto
  have ok1: "fs_ok f1" by (rule MkdirAll_fs_ok [OF ok f1 rt(1)])
  have fl1: "fsFiles f1 = fsFiles f" by (rule MkdirAll_files [OF f1])
  have nm: "innerName @ ''.merge'' \<noteq> ''.parts''" by (auto simp: append_eq_Cons_conv)
  have up: "upward (staged @ ''.merge'') = upward (Dir staged) @ [staged @ ''.merge'']" "upward staged = upward (Dir staged) @ [staged]"
    using upward_snoc [OF seg(2)] upward_snoc [OF seg(1)] rooted_segments [OF rt(1)] by blast+
  have nd1: "\<not> is_dir q f1" if "\<not> exists_path q f" "q \<notin> set (upward (Dir staged))" for q
    using MkdirAll_dirs [OF f1 top] that by (auto simp: is_dir_def exists_path_def)
  have nin: "q \<notin> set (upward (Dir staged))" if "segments q = segments (Dir staged) @ [x]" "HasPrefix q ''/''" for q x
    using in_upward_inside [OF that(2)] that(1) by (auto simp: inside_iff)
  have nodir: "\<not> is_dir staged f1" "\<not> is_dir (staged @ ''.merge'') f1"
    using nd1 nin [OF seg(1) rt(2)] nin [OF seg(2) rt(3)] holding_clear(1,2) [OF base st fresh hold, of 0] by auto
  have acc: "acc i \<noteq> None" if "1 \<le> i" "i \<le> n" for i
  proof
    assume "acc i = None"
    then have "None \<in> set (map acc [1..n])" using that by (auto simp: image_iff intro!: bexI [of _ i])
    then show False using all by blast
  qed
  have ex1: "content_at (c i) f1 = acc i" "acc i \<noteq> None" if "1 \<le> i" "i \<le> n" for i
    using hold that acc by (auto simp: holding_def content_at_def fl1 c_def)
  have isf: "\<not> list_ex (\<lambda>x. \<not> is_file x f1) (map c [1..n])"
    using ex1 by (simp add: list_ex_iff is_file_content)
  have cont: "concat (map (\<lambda>x. the (content_at x f1)) (map c [1..n])) = content"
    unfolding content_def by (rule arg_cong [of _ _ concat]) (use ex1 in \<open>simp\<close>)
  have notop: "staged \<noteq> ''/''" "staged @ ''.merge'' \<noteq> ''/''"
    using not_top [OF rt(1)] seg(1,2) by blast+
  have par1: "parent_ok (staged @ ''.merge'') f1" "parent_ok staged f1"
    using MkdirAll_parent [OF f1 top] by (auto simp: parent_ok_def up list_all_iff)
  define g where "g = f1\<lparr>fsFiles := upsert (staged @ ''.merge'') nd (fsFiles f1)\<rparr>"
  have g: "Create (staged @ ''.merge'') nd f1 = Some g" using nodir(2) par1(1) notop(2) by (simp add: Create_def g_def)
  have gd: "is_dir q g = is_dir q f1" for q by (simp add: is_dir_def g_def)
  have okg: "fs_ok g" by (rule Create_fs_ok [OF ok1 g rt(3)])
  have "parent_ok staged g" using par1(2) by (simp add: parent_ok_def gd)
  then obtain h where h: "Rename (staged @ ''.merge'') staged g = Some h"
    "map_of (fsFiles h) = (map_of (fsFiles g))(staged @ ''.merge'' := None, staged \<mapsto> nd)"
    using Rename_file [OF okg, of "staged @ ''.merge''" nd staged] nodir(1) gd rt(2) notop by (auto simp: g_def)
  have okh: "fs_ok (RemoveAll parts h)" by (rule RemoveAll_fs_ok [OF Rename_fs_ok [OF okg h(1) rt(2)]])
  have run: "merge_parts e innerName staged (map c [1..n]) m (s\<lparr>sgFs := f\<rparr>) = (Inr (m, True), s\<lparr>sgFs := RemoveAll parts h\<rparr>)"
    unfolding merge_parts_def using f1 isf g h(1) by (simp add: Let_def cont parts_def nd_def [symmetric] del: map_map)
  have merge0: "\<not> is_file (staged @ ''.merge'') f0" using fresh by (simp add: fresh_upload_def exists_path_def)
  have chunk_in: "inside (c i) parts" if "0 \<le> i" for i using segc(2) [OF that] segc(1) by (auto simp: inside_iff)
  have notin: "\<not> inside staged parts"
  proof
    assume "inside staged parts"
    then have "length (segments staged) \<ge> length (segments parts)" by (auto simp: inside_iff)
    then show False unfolding seg(1,3) by simp
  qed
  have f0parts: "map_of (fsFiles f0) q = None" if "inside q parts" for q
  proof -
    have "fs_ok f0" "\<not> exists_path parts f0" using fresh by (simp_all add: fresh_upload_def parts_def)
    moreover have "parts \<noteq> []" using rooted_below [OF rt(1) seg(3)] by (auto simp: HasPrefix_def)
    ultimately have "\<not> exists_path q f0" using that unfolding inside_def fs_ok_def exists_path_def by blast
    then show ?thesis by (simp add: exists_path_def is_file_def)
  qed
  have "map_of (fsFiles (RemoveAll parts h)) q = ((map_of (fsFiles f0))(staged \<mapsto> nd)) q" for q
  proof -
    have old: "map_of (fsFiles f) q = map_of (fsFiles f0) q" if "\<not> inside q parts"
    proof -
      have "q \<notin> c ` {1..n}" using chunk_in that by auto
      then show ?thesis using hold unfolding holding_def c_def by blast
    qed
    have new: "map_of (fsFiles h) q = (if q = staged then Some nd else if q = staged @ ''.merge'' then None else map_of (fsFiles f) q)"
      by (simp add: h(2) g_def fl1)
    show ?thesis
    proof (cases "inside q parts")
      case True
      then have "q \<noteq> staged" using notin by blast
      then show ?thesis using True f0parts by (simp add: map_of_RemoveAll inside_def)
    next
      case False
      then have "map_of (fsFiles (RemoveAll parts h)) q = map_of (fsFiles h) q" by (simp add: map_of_RemoveAll inside_def)
      then show ?thesis using new old [OF False] merge0 by (auto simp: is_file_def)
    qed
  qed
  then have "map_of (fsFiles (RemoveAll parts h)) = (map_of (fsFiles f0))(staged \<mapsto> nd)" by (rule ext)
  then show ?thesis using that run okh unfolding c_def nd_def content_def by blast
qed

text \<open>What the chunks of one upload amount to: the latest body of every number, joined as soon as every number
  has arrived.\<close>

fun assembled :: "int \<Rightarrow> (int \<Rightarrow> string option) \<Rightarrow> (int \<times> string) list \<Rightarrow> string option" where
  "assembled n acc [] = None"
| "assembled n acc ((k, b) # ps) =
     (let acc' = acc(k \<mapsto> b); parts = map acc' [1..n]
      in if None \<in> set parts then assembled n acc' ps else Some (concat (map the parts)))"

definition stage_parts :: "spc_env \<Rightarrow> string \<Rightarrow> string \<Rightarrow> int \<Rightarrow> (int \<times> string) list \<Rightarrow> staging \<Rightarrow> staging" where
  "stage_parts e innerName uploadID n ps s = fold (\<lambda>(k, b) s. snd (StagePart e innerName uploadID k n (b, True) s)) ps s"

lemma StagePart_holding:
  assumes base: "HasPrefix (sgRoot s) ''/''" and st: "stagingPath (sgRoot s) innerName = Some staged" "own_name innerName"
    and fresh: "fresh_upload (sgRoot s) innerName staged f0" and u: "uploadID \<noteq> []"
    and hold: "holding e (sgRoot s) innerName uploadID n f0 acc (sgFs s)" and k: "1 \<le> k" "k \<le> n" "n \<le> maxUploadChunks"
  shows "\<exists>f. snd (StagePart e innerName uploadID k n (b, True) s) = s\<lparr>sgFs := f\<rparr> \<and>
    (if None \<in> set (map (acc(k \<mapsto> b)) [1..n])
     then holding e (sgRoot s) innerName uploadID n f0 (acc(k \<mapsto> b)) f
     else fs_ok f \<and> map_of (fsFiles f) =
       (map_of (fsFiles f0))(staged \<mapsto> \<lparr>ndContent = concat (map the (map (acc(k \<mapsto> b)) [1..n])), ndMtime = envNow e\<rparr>))"
proof -
  define c where "c = chunkPath e (sgRoot s) innerName uploadID n"
  define acc' where "acc' = acc(k \<mapsto> b)"
  obtain f1 g h where w: "MkdirAll (chunkDir e (sgRoot s) innerName uploadID n) (sgFs s) = Some f1"
    "Create (c k @ ''.tmp'') \<lparr>ndContent = b, ndMtime = envNow e\<rparr> f1 = Some g" "Rename (c k @ ''.tmp'') (c k) g = Some h"
    "holding e (sgRoot s) innerName uploadID n f0 acc' h"
    unfolding c_def acc'_def by (rule chunk_written [OF base st fresh hold k(1,2)])
  have ex: "exists_path (c i) h \<longleftrightarrow> acc' i \<noteq> None" if "1 \<le> i" "i \<le> n" for i
  proof -
    have "content_at (c i) h = acc' i" using w(4) that by (simp add: holding_def c_def)
    then show ?thesis
      using holding_clear(4) [OF base st fresh w(4), of i] that by (simp add: exists_path_def c_def is_file_content)
  qed
  have all: "list_ex (\<lambda>i. \<not> exists_path (c i) h) [1..n] \<longleftrightarrow> None \<in> set (map acc' [1..n])"
  proof -
    have "list_ex (\<lambda>i. \<not> exists_path (c i) h) [1..n] \<longleftrightarrow> (\<exists>i \<in> {1..n}. acc' i = None)" using ex by (auto simp: list_ex_iff)
    then show ?thesis by (metis (no_types, lifting) imageE imageI set_map set_upto)
  qed
  have now: "\<not> exists_path staged (sgFs s)" using holding_clear(1) [OF base st fresh hold, of k] k by simp
  have step: "snd (StagePart e innerName uploadID k n (b, True) s) =
      (if None \<in> set (map acc' [1..n]) then s\<lparr>sgFs := h\<rparr>
       else snd (merge_parts e innerName staged (map c [1..n]) (int (length b)) (s\<lparr>sgFs := h\<rparr>)))"
    using u k now st(1) all w unfolding StagePart_def Let_def c_def [symmetric] by simp
  show ?thesis
  proof (cases "None \<in> set (map acc' [1..n])")
    case True
    then show ?thesis using step w(4) unfolding acc'_def [symmetric] by auto
  next
    case False
    obtain h' where m: "merge_parts e innerName staged (map c [1..n]) (int (length b)) (s\<lparr>sgFs := h\<rparr>) = (Inr (int (length b), True), s\<lparr>sgFs := h'\<rparr>)"
      "fs_ok h'" "map_of (fsFiles h') = (map_of (fsFiles f0))(staged \<mapsto> \<lparr>ndContent = concat (map the (map acc' [1..n])), ndMtime = envNow e\<rparr>)"
      unfolding c_def by (rule chunks_merged [OF base st fresh w(4) False])
    then show ?thesis using step False unfolding acc'_def [symmetric] by (intro exI [of _ h']) simp
  qed
qed

lemma StagePart_staged:
  assumes "stagingPath (sgRoot s) innerName = Some staged" "is_file staged (sgFs s)"
    "uploadID \<noteq> []" "n \<le> maxUploadChunks" "1 \<le> k" "k \<le> n"
  shows "StagePart e innerName uploadID k n body s = (Inr (0, True), s)"
  using assms by (simp add: StagePart_def exists_path_def)

lemma stage_parts_staged:
  assumes "stagingPath (sgRoot s) innerName = Some staged" "is_file staged (sgFs s)"
    "uploadID \<noteq> []" "n \<le> maxUploadChunks" "\<forall>(k, b) \<in> set ps. 1 \<le> k \<and> k \<le> n"
  shows "stage_parts e innerName uploadID n ps s = s"
  using assms(5)
proof (induction ps)
  case (Cons p ps)
  then show ?case using StagePart_staged [OF assms(1-4)] by (cases p) (simp add: stage_parts_def)
qed (simp add: stage_parts_def)

lemma stage_parts_holding:
  assumes base: "HasPrefix (sgRoot s) ''/''" and st: "stagingPath (sgRoot s) innerName = Some staged" "own_name innerName"
    and fresh: "fresh_upload (sgRoot s) innerName staged f0" and u: "uploadID \<noteq> []" and n: "n \<le> maxUploadChunks"
    and hold: "holding e (sgRoot s) innerName uploadID n f0 acc (sgFs s)"
    and ps: "\<forall>(k, b) \<in> set ps. 1 \<le> k \<and> k \<le> n"
  shows "\<exists>fs. stage_parts e innerName uploadID n ps s = s\<lparr>sgFs := fs\<rparr> \<and>
    (case assembled n acc ps of
       None \<Rightarrow> holding e (sgRoot s) innerName uploadID n f0 (acc ++ map_of (rev ps)) fs
     | Some content \<Rightarrow> fs_ok fs \<and> map_of (fsFiles fs) = (map_of (fsFiles f0))(staged \<mapsto> \<lparr>ndContent = content, ndMtime = envNow e\<rparr>))"
  using assms
proof (induction ps arbitrary: s acc)
  case Nil
  then show ?case by (intro exI [of _ "sgFs s"]) (simp add: stage_parts_def)
next
  case (Cons p ps)
  obtain k b where p: "p = (k, b)" by (cases p)
  have k: "1 \<le> k" "k \<le> n" using Cons.prems(8) p by auto
  define s1 where "s1 = snd (StagePart e innerName uploadID k n (b, True) s)"
  obtain fs where fs: "s1 = s\<lparr>sgFs := fs\<rparr>"
    "if None \<in> set (map (acc(k \<mapsto> b)) [1..n]) then holding e (sgRoot s) innerName uploadID n f0 (acc(k \<mapsto> b)) fs
     else fs_ok fs \<and> map_of (fsFiles fs) = (map_of (fsFiles f0))(staged \<mapsto> \<lparr>ndContent = concat (map the (map (acc(k \<mapsto> b)) [1..n])), ndMtime = envNow e\<rparr>)"
    using StagePart_holding [OF Cons.prems(1-5,7) k Cons.prems(6), of b] unfolding s1_def by blast
  have unf: "stage_parts e innerName uploadID n (p # ps) s = stage_parts e innerName uploadID n ps s1"
    by (simp add: stage_parts_def p s1_def)
  show ?case
  proof (cases "None \<in> set (map (acc(k \<mapsto> b)) [1..n])")
    case True
    have h: "holding e (sgRoot s1) innerName uploadID n f0 (acc(k \<mapsto> b)) (sgFs s1)" using fs True by simp
    have m: "acc(k \<mapsto> b) ++ map_of (rev ps) = acc ++ map_of (rev (p # ps))"
      by (simp add: p map_add_assoc [symmetric])
    have r: "sgRoot s1 = sgRoot s" "s1\<lparr>sgFs := x\<rparr> = s\<lparr>sgFs := x\<rparr>" for x by (simp_all add: fs(1))
    have "\<exists>fs'. stage_parts e innerName uploadID n ps s1 = s1\<lparr>sgFs := fs'\<rparr> \<and>
      (case assembled n (acc(k \<mapsto> b)) ps of
         None \<Rightarrow> holding e (sgRoot s1) innerName uploadID n f0 (acc(k \<mapsto> b) ++ map_of (rev ps)) fs'
       | Some content \<Rightarrow> fs_ok fs' \<and> map_of (fsFiles fs') = (map_of (fsFiles f0))(staged \<mapsto> \<lparr>ndContent = content, ndMtime = envNow e\<rparr>))"
      by (rule Cons.IH) (use Cons.prems h in \<open>simp_all add: r del: fun_upd_apply\<close>)
    moreover have "assembled n acc (p # ps) = assembled n (acc(k \<mapsto> b)) ps" using True by (simp add: p)
    ultimately show ?thesis unfolding unf m r by simp
  next
    case False
    have "is_file staged (sgFs s1)" using fs False by (simp add: is_file_def)
    then have "stage_parts e innerName uploadID n ps s1 = s1"
      using stage_parts_staged Cons.prems(2,5,6,8) fs(1) by simp
    moreover have "assembled n acc (p # ps) = Some (concat (map the (map (acc(k \<mapsto> b)) [1..n])))"
      using False by (simp add: p Let_def del: set_map)
    ultimately show ?thesis unfolding unf using fs False by auto
  qed
qed

lemma assembled_None: "assembled n acc ps = None \<Longrightarrow> ps \<noteq> [] \<Longrightarrow> \<exists>i \<in> {1..n}. acc i = None \<and> i \<notin> fst ` set ps"
proof (induction ps arbitrary: acc)
  case (Cons p ps)
  obtain k b where p: "p = (k, b)" by (cases p)
  have n: "None \<in> set (map (acc(k \<mapsto> b)) [1..n])" "assembled n (acc(k \<mapsto> b)) ps = None"
    using Cons.prems(1) by (auto simp: p Let_def split: if_splits simp del: set_map)
  show ?case
  proof (cases "ps = []")
    case True
    obtain i where "i \<in> {1..n}" "(acc(k \<mapsto> b)) i = None" using n(1) by (metis imageE set_map set_upto)
    then show ?thesis using True p by (intro bexI [of _ i]) (auto split: if_splits)
  next
    case False
    then show ?thesis using Cons.IH [OF n(2)] p by (auto split: if_splits)
  qed
qed simp

lemma assembled_consistent:
  assumes "\<forall>(k, b) \<in> set ps. b = body k" "\<forall>i. acc i = None \<or> acc i = Some (body i)" "assembled n acc ps = Some content"
  shows "content = concat (map body [1..n])"
  using assms
proof (induction ps arbitrary: acc)
  case (Cons p ps)
  obtain k b where p: "p = (k, b)" by (cases p)
  have a: "\<forall>i. (acc(k \<mapsto> b)) i = None \<or> (acc(k \<mapsto> b)) i = Some (body i)" using Cons.prems(1,2) p by auto
  show ?case
  proof (cases "None \<in> set (map (acc(k \<mapsto> b)) [1..n])")
    case True
    then show ?thesis using Cons.IH [of "acc(k \<mapsto> b)"] Cons.prems a by (simp add: p Let_def del: set_map fun_upd_apply)
  next
    case False
    then have "content = concat (map the (map (acc(k \<mapsto> b)) [1..n]))"
      using Cons.prems(3) by (simp add: p Let_def del: set_map)
    moreover have "map the (map (acc(k \<mapsto> b)) [1..n]) = map body [1..n]"
      using False a by (auto simp del: fun_upd_apply) (metis image_eqI option.sel set_upto atLeastAtMost_iff)
    ultimately show ?thesis by (simp only:)
  qed
qed simp


lemma assembled_Some: "assembled n acc ps = Some content \<Longrightarrow> {1..n} \<subseteq> {i. acc i \<noteq> None} \<union> fst ` set ps"
proof (induction ps arbitrary: acc)
  case (Cons p ps)
  obtain k b where p: "p = (k, b)" by (cases p)
  show ?case
  proof (cases "None \<in> set (map (acc(k \<mapsto> b)) [1..n])")
    case True
    then have "assembled n (acc(k \<mapsto> b)) ps = Some content"
      using Cons.prems by (simp add: p Let_def del: set_map fun_upd_apply)
    then have "{1..n} \<subseteq> {i. (acc(k \<mapsto> b)) i \<noteq> None} \<union> fst ` set ps" by (rule Cons.IH)
    moreover have "{i. (acc(k \<mapsto> b)) i \<noteq> None} = insert k {i. acc i \<noteq> None}" by auto
    ultimately show ?thesis by (auto simp: p)
  next
    case False
    then have "\<forall>i \<in> {1..n}. (acc(k \<mapsto> b)) i \<noteq> None" by (metis image_eqI set_map set_upto)
    then show ?thesis by (auto simp: p split: if_splits)
  qed
qed simp

section \<open>Uploads\<close>

text \<open>
  C33. Chunked uploads: whatever order the chunks come in and however often they are retried, the staged file
  appears with the chunk that completes the set \<open>1..n\<close>, holds the latest body of every number in numeric
  order, and from then on is not changed by further chunks; no other file changes except those of the
  parts directory, which is removed. When no two bodies of a number differ, the content is theirs.
\<close>

theorem StagePart_assembles:
  assumes "HasPrefix (sgRoot s) ''/''" "stagingPath (sgRoot s) innerName = Some staged" "own_name innerName"
    and "fresh_upload (sgRoot s) innerName staged (sgFs s)" "uploadID \<noteq> []" "n \<le> maxUploadChunks"
    and "ps \<noteq> []" "\<forall>(k, b) \<in> set ps. 1 \<le> k \<and> k \<le> n"
  shows "\<exists>f. stage_parts e innerName uploadID n ps s = s\<lparr>sgFs := f\<rparr> \<and> fs_ok f \<and>
    (case assembled n (\<lambda>i. None) ps of
       None \<Rightarrow> \<not> {1..n} \<subseteq> fst ` set ps \<and> \<not> is_file staged f \<and>
         (\<forall>q. \<not> inside q (partsPath (sgRoot s) innerName) \<longrightarrow> map_of (fsFiles f) q = map_of (fsFiles (sgFs s)) q)
     | Some content \<Rightarrow> {1..n} \<subseteq> fst ` set ps \<and>
         map_of (fsFiles f) = (map_of (fsFiles (sgFs s)))(staged \<mapsto> \<lparr>ndContent = content, ndMtime = envNow e\<rparr>) \<and>
         (\<forall>body. (\<forall>(k, b) \<in> set ps. b = body k) \<longrightarrow> content = concat (map body [1..n])))"
proof -
  have seg: "inside (chunkPath e (sgRoot s) innerName uploadID n i) (partsPath (sgRoot s) innerName)" for i
    by (simp add: inside_def below_def chunkPath_def chunkDir_def HasPrefix_def)
  have "holding e (sgRoot s) innerName uploadID n (sgFs s) (\<lambda>i. None) (sgFs s)"
  proof -
    have "content_at (chunkPath e (sgRoot s) innerName uploadID n i) (sgFs s) = None" for i
    proof (rule ccontr)
      assume "content_at (chunkPath e (sgRoot s) innerName uploadID n i) (sgFs s) \<noteq> None"
      then have "exists_path (chunkPath e (sgRoot s) innerName uploadID n i) (sgFs s)" by (simp add: exists_path_def is_file_content)
      moreover have "partsPath (sgRoot s) innerName \<noteq> []"
        using rooted_below [OF upload_segs(7,3) [OF assms(1-3)]] by (auto simp: HasPrefix_def)
      ultimately show False
        using seg [of i] assms(4) exists_above [of "sgFs s" _ "partsPath (sgRoot s) innerName"] unfolding fresh_upload_def by blast
    qed
    then show ?thesis using assms(4) by (simp add: holding_def fresh_upload_def)
  qed
  then obtain f where f: "stage_parts e innerName uploadID n ps s = s\<lparr>sgFs := f\<rparr>"
    "case assembled n (\<lambda>i. None) ps of
       None \<Rightarrow> holding e (sgRoot s) innerName uploadID n (sgFs s) ((\<lambda>i. None) ++ map_of (rev ps)) f
     | Some content \<Rightarrow> fs_ok f \<and> map_of (fsFiles f) = (map_of (fsFiles (sgFs s)))(staged \<mapsto> \<lparr>ndContent = content, ndMtime = envNow e\<rparr>)"
    using stage_parts_holding [OF assms(1-6) _ assms(8)] by blast
  show ?thesis
  proof (cases "assembled n (\<lambda>i. None) ps")
    case None
    then have h: "holding e (sgRoot s) innerName uploadID n (sgFs s) ((\<lambda>i. None) ++ map_of (rev ps)) f" using f(2) by simp
    have "\<not> {1..n} \<subseteq> fst ` set ps" using assembled_None [OF None assms(7)] by blast
    moreover have "\<not> is_file staged f"
      using holding_clear(1) [OF assms(1-4) h, of 0] by (simp add: exists_path_def)
    moreover have "map_of (fsFiles f) q = map_of (fsFiles (sgFs s)) q" if "\<not> inside q (partsPath (sgRoot s) innerName)" for q
    proof -
      have "q \<notin> chunkPath e (sgRoot s) innerName uploadID n ` {1..n}" using seg that by blast
      then show ?thesis using h unfolding holding_def by blast
    qed
    moreover have "fs_ok f" using h by (simp add: holding_def)
    ultimately show ?thesis using None f(1) by auto
  next
    case (Some content)
    have "{1..n} \<subseteq> fst ` set ps" using assembled_Some [OF Some] by auto
    moreover have "content = concat (map body [1..n])" if "\<forall>(k, b) \<in> set ps. b = body k" for body
      using assembled_consistent [OF that _ Some] by simp
    ultimately show ?thesis using Some f by auto
  qed
qed

definition promotable :: "spc_env \<Rightarrow> string \<Rightarrow> string \<Rightarrow> int \<Rightarrow> string \<Rightarrow> staging \<Rightarrow> string \<Rightarrow> node \<Rightarrow> string \<Rightarrow> bool" where
  "promotable e innerName claimedMD5 claimedSize target s src nd dst \<longleftrightarrow>
     stagingPath (sgRoot s) innerName = Some src \<and> map_of (fsFiles (sgFs s)) src = Some nd \<and>
     (0 \<le> claimedSize \<longrightarrow> int (length (ndContent nd)) = claimedSize) \<and>
     (claimedMD5 \<noteq> [] \<longrightarrow> map to_lower (hexEncode (envMD5 e (ndContent nd))) = map to_lower claimedMD5) \<and>
     SafeResolve (sgRoot s) target = Some dst \<and> \<not> is_dir dst (sgFs s) \<and> (\<forall>q. is_file q (sgFs s) \<longrightarrow> \<not> below dst q)"

lemma promote_rename:
  assumes ok: "fs_ok f" and src: "map_of (fsFiles f) src = Some nd" and nd: "\<not> is_dir (abs_path (rs @ ns)) f"
    and nf: "\<forall>q. is_file q f \<longrightarrow> \<not> below (abs_path (rs @ ns)) q" and pl: "list_all plain_name (rs @ ns)"
    and ne: "rs \<noteq> []" "ns \<noteq> []"
  obtains f1 f2 where "MkdirAll (Dir (abs_path (rs @ ns))) f = Some f1" "Rename src (abs_path (rs @ ns)) f1 = Some f2" "fs_ok f2"
    "map_of (fsFiles f2) = (map_of (fsFiles f))(src := None, abs_path (rs @ ns) \<mapsto> nd)"
proof -
  define dst where "dst = abs_path (rs @ ns)"
  obtain ms m where ms: "rs @ ns = ms @ [m]" "ms \<noteq> []" using ne by (cases ns rule: rev_cases) auto
  have plm: "list_all plain_name (ms @ [m])" using pl unfolding ms .
  have d: "Dir dst = abs_path ms" unfolding dst_def ms by (rule Dir_abs_path [OF plm])
  have rt: "HasPrefix dst ''/''" "HasPrefix (Dir dst) ''/''" unfolding d unfolding dst_def abs_path_def by (simp_all add: HasPrefix_def)
  have seg: "segments dst = segments (Dir dst) @ [m]"
    using segments_abs_path [OF plm] segments_abs_path [of ms] plm ms(2) unfolding d unfolding dst_def ms by simp
  have top: "Dir dst \<noteq> ''/''" "dst \<noteq> ''/''"
    using abs_path_Nil [of ms] abs_path_Nil [OF plm] plm ms(2) unfolding d unfolding dst_def ms by auto
  have above: "below dst q" if "q \<in> set (upward (Dir dst))" "HasPrefix q ''/''" for q
  proof -
    have "below dst (Dir dst)" using seg by (auto simp: below_iff)
    moreover have "inside (Dir dst) q" using in_upward_inside [OF that(2)] that(1) by blast
    ultimately show ?thesis by (rule below_inside_trans(1))
  qed
  have upr: "q \<in> set (upward (Dir dst)) \<Longrightarrow> HasPrefix q ''/''" for q by (rule upward_rooted [OF rt(2)])
  have "\<forall>q \<in> set (upward (Dir dst)). \<not> is_file q f" using above upr nf unfolding dst_def by blast
  then obtain f1 where f1: "MkdirAll (Dir dst) f = Some f1" using MkdirAll_ok by blast
  have ok1: "fs_ok f1" by (rule MkdirAll_fs_ok [OF ok f1 rt(2)])
  have "dst \<notin> set (upward (Dir dst))" using above rt(1) below_irrefl by blast
  then have nd1: "\<not> is_dir dst f1" using MkdirAll_dirs [OF f1 top(1)] nd unfolding dst_def by (auto simp: is_dir_def)
  have "upward dst = upward (Dir dst) @ [dst]" by (rule upward_snoc [OF seg rooted_segments [OF rt(2)]])
  then have par: "parent_ok dst f1" using MkdirAll_parent [OF f1 top(1)] by (auto simp: parent_ok_def list_all_iff)
  have src1: "map_of (fsFiles f1) src = Some nd" using src MkdirAll_files [OF f1] by simp
  obtain f2 where f2: "Rename src dst f1 = Some f2" "map_of (fsFiles f2) = (map_of (fsFiles f1))(src := None, dst \<mapsto> nd)"
    using Rename_file [OF ok1 src1 nd1 par rt(1) top(2)] by blast
  have "fs_ok f2" by (rule Rename_fs_ok [OF ok1 f2(1) rt(1)])
  then show ?thesis using that f1 f2 MkdirAll_files [OF f1] unfolding dst_def by simp
qed

lemma Finalize_promotes:
  assumes base: "HasPrefix (sgRoot s) ''/''" "Clean (sgRoot s) \<noteq> ''/''" "fs_ok (sgFs s)" "is_dir (Clean (sgRoot s)) (sgFs s)"
    and pr: "promotable e innerName claimedMD5 claimedSize target s src nd dst"
  obtains f rs ns where "Finalize e innerName claimedMD5 claimedSize target s = (Inr dst, s\<lparr>sgFs := f,
        sgUploads := map (\<lambda>(i, r). (i, if i = innerName then r\<lparr>upStatus := Finalized, upMD5 := hexEncode (envMD5 e (ndContent nd))\<rparr> else r)) (sgUploads s)\<rparr>)"
    "list_all plain_name (rs @ ns)" "Clean (sgRoot s) = abs_path rs" "dst = abs_path (rs @ ns)" "fs_ok f"
    "map_of (fsFiles f) = (map_of (fsFiles (sgFs s)))(src := None, dst \<mapsto> nd)"
proof -
  have src: "stagingPath (sgRoot s) innerName = Some src" "map_of (fsFiles (sgFs s)) src = Some nd"
    "0 \<le> claimedSize \<Longrightarrow> int (length (ndContent nd)) = claimedSize"
    "claimedMD5 \<noteq> [] \<Longrightarrow> map to_lower (hexEncode (envMD5 e (ndContent nd))) = map to_lower claimedMD5"
    "SafeResolve (sgRoot s) target = Some dst" "\<not> is_dir dst (sgFs s)" "\<forall>q. is_file q (sgFs s) \<longrightarrow> \<not> below dst q"
    using pr by (auto simp: promotable_def)
  obtain rs ns where r: "list_all plain_name (rs @ ns)" "list_all plain_name rs" "Clean (sgRoot s) = abs_path rs" "dst = abs_path (rs @ ns)"
    using SafeResolve_eq [OF base(1), of target] src(5) by (auto split: if_splits)
  have ne: "rs \<noteq> []" "ns \<noteq> []"
    using base(2,4) src(6) r abs_path_Nil [OF r(2)] by auto
  obtain f1 f2 where f: "MkdirAll (Dir dst) (sgFs s) = Some f1" "Rename src dst f1 = Some f2" "fs_ok f2"
    "map_of (fsFiles f2) = (map_of (fsFiles (sgFs s)))(src := None, dst \<mapsto> nd)"
    unfolding r(4) by (rule promote_rename [OF base(3) src(2) _ _ r(1) ne]) (use src(6,7) r(4) in auto)
  have "Finalize e innerName claimedMD5 claimedSize target s = (Inr dst, s\<lparr>sgFs := f2,
      sgUploads := map (\<lambda>(i, r). (i, if i = innerName then r\<lparr>upStatus := Finalized, upMD5 := hexEncode (envMD5 e (ndContent nd))\<rparr> else r)) (sgUploads s)\<rparr>)"
    unfolding Finalize_def Let_def using src f by (auto simp: content_at_def)
  then show ?thesis using that r f by blast
qed

text \<open>
  C32. Promotion is all or nothing: it succeeds exactly when the staged bytes exist, have the claimed size and
  digest where these are claimed, and the target lies under the storage root, is no directory and is not
  below a file; then the target holds exactly the staged bytes, the staged name is gone, the row is marked
  finalized with the digest, and no other file or row changes. Every failure leaves all files and rows as
  they were.
\<close>

theorem Finalize_atomic:
  assumes "HasPrefix (sgRoot s) ''/''" "Clean (sgRoot s) \<noteq> ''/''" "fs_ok (sgFs s)" "is_dir (Clean (sgRoot s)) (sgFs s)"
  shows "case Finalize e innerName claimedMD5 claimedSize target s of
      (Inr dst, s') \<Rightarrow> \<exists>src nd rs ns.
        promotable e innerName claimedMD5 claimedSize target s src nd dst \<and>
        list_all plain_name (rs @ ns) \<and> Clean (sgRoot s) = abs_path rs \<and> dst = abs_path (rs @ ns) \<and> fs_ok (sgFs s') \<and>
        map_of (fsFiles (sgFs s')) = (map_of (fsFiles (sgFs s)))(src := None, dst \<mapsto> nd) \<and>
        map_of (sgUploads s') = (\<lambda>i. if i = innerName
          then map_option (\<lambda>r. r\<lparr>upStatus := Finalized, upMD5 := hexEncode (envMD5 e (ndContent nd))\<rparr>) (map_of (sgUploads s) i)
          else map_of (sgUploads s) i) \<and> sgRoot s' = sgRoot s
    | (Inl err, s') \<Rightarrow> fsFiles (sgFs s') = fsFiles (sgFs s) \<and> sgUploads s' = sgUploads s \<and> sgRoot s' = sgRoot s \<and>
        \<not> (\<exists>src nd dst. promotable e innerName claimedMD5 claimedSize target s src nd dst)"
proof -
  have rows: "map_of (map (\<lambda>(i, r). (i, if i = innerName then h r else r)) t) i =
      (if i = innerName then map_option h (map_of t i) else map_of t i)" for h and t :: "upload_row table" and i
    by (induction t) auto
  show ?thesis
  proof (cases "\<exists>src nd dst. promotable e innerName claimedMD5 claimedSize target s src nd dst")
    case True
    then obtain src nd dst where pr: "promotable e innerName claimedMD5 claimedSize target s src nd dst" by blast
    obtain f2 rs ns where eq: "Finalize e innerName claimedMD5 claimedSize target s = (Inr dst, s\<lparr>sgFs := f2,
        sgUploads := map (\<lambda>(i, r). (i, if i = innerName then r\<lparr>upStatus := Finalized, upMD5 := hexEncode (envMD5 e (ndContent nd))\<rparr> else r)) (sgUploads s)\<rparr>)"
      and r: "list_all plain_name (rs @ ns)" "Clean (sgRoot s) = abs_path rs" "dst = abs_path (rs @ ns)" "fs_ok f2"
        "map_of (fsFiles f2) = (map_of (fsFiles (sgFs s)))(src := None, dst \<mapsto> nd)"
      by (rule Finalize_promotes [OF assms pr])
    show ?thesis unfolding eq prod.case sum.case
      by (rule exI [of _ src], rule exI [of _ nd], rule exI [of _ rs], rule exI [of _ ns])
        (use pr r rows in \<open>simp add: fun_eq_iff\<close>)
  next
    case False
    have no: "\<exists>err. fst (Finalize e innerName claimedMD5 claimedSize target s) = Inl err"
    proof (rule ccontr)
      assume "\<nexists>err. fst (Finalize e innerName claimedMD5 claimedSize target s) = Inl err"
      then obtain dst where dst: "fst (Finalize e innerName claimedMD5 claimedSize target s) = Inr dst"
        by (cases "fst (Finalize e innerName claimedMD5 claimedSize target s)") auto
      then obtain src nd f1 f2 where x: "stagingPath (sgRoot s) innerName = Some src" "map_of (fsFiles (sgFs s)) src = Some nd"
        "0 \<le> claimedSize \<Longrightarrow> int (length (ndContent nd)) = claimedSize"
        "claimedMD5 \<noteq> [] \<Longrightarrow> map to_lower (hexEncode (envMD5 e (ndContent nd))) = map to_lower claimedMD5"
        "SafeResolve (sgRoot s) target = Some dst" "MkdirAll (Dir dst) (sgFs s) = Some f1" "Rename src dst f1 = Some f2"
        by (auto simp: Finalize_def Let_def content_at_def split: option.splits if_splits)
      obtain rs ns where r: "list_all plain_name (rs @ ns)" "dst = abs_path (rs @ ns)"
        using SafeResolve_eq [OF assms(1), of target] x(5) by (auto split: if_splits)
      have rt: "HasPrefix dst ''/''" unfolding r(2) abs_path_def by (simp add: HasPrefix_def)
      have "\<not> is_dir dst f1" "parent_ok dst f1" using x(7) by (auto simp: Rename_def split: if_splits)
      then have "\<not> is_dir dst (sgFs s)" "\<forall>q. is_file q (sgFs s) \<longrightarrow> \<not> below dst q"
      proof -
        show "\<not> is_dir dst (sgFs s)" using \<open>\<not> is_dir dst f1\<close> x(6) by (auto simp: MkdirAll_def is_dir_def split: if_splits)
        show "\<forall>q. is_file q (sgFs s) \<longrightarrow> \<not> below dst q"
        proof (intro allI impI notI)
          fix q assume q: "is_file q (sgFs s)" "below dst q"
          then have rq: "q \<noteq> []" "HasPrefix q ''/''" using assms(3) by (auto simp: fs_ok_def exists_path_def HasPrefix_def)
          then have "is_dir q f1" using \<open>parent_ok dst f1\<close> parent_ok_iff [OF rt] q(2) by blast
          moreover have "is_file q f1" using q(1) MkdirAll_files [OF x(6)] by (simp add: is_file_def)
          moreover have "fs_ok f1"
          proof (rule MkdirAll_fs_ok [OF assms(3) x(6)])
            show "HasPrefix (Dir dst) ''/''"
              using Dir_rooted [OF rt] .
          qed
          ultimately show False unfolding fs_ok_def by blast
        qed
      qed
      then show False using False x(1-5) by (auto simp: promotable_def)
    qed
    then show ?thesis using False
      by (auto simp: Finalize_def Let_def split: option.splits if_splits dest: MkdirAll_files)
  qed
qed

section \<open>Sweeping\<close>

definition stale_upload :: "spc_env \<Rightarrow> staging \<Rightarrow> string \<Rightarrow> bool" where
  "stale_upload e s i \<longleftrightarrow> (case map_of (sgUploads s) i of None \<Rightarrow> False | Some r \<Rightarrow> upStatus r = Applied \<and> upExpiresAt r < envNow e)"

definition swept_path :: "string \<Rightarrow> string \<Rightarrow> string \<Rightarrow> bool" where
  "swept_path base i q \<longleftrightarrow> stagingPath base i = Some q \<or> inside q (partsPath base i)"

lemma Remove_files: "map_of (fsFiles (case Remove p f of None \<Rightarrow> f | Some g \<Rightarrow> g)) q = (if q = p then None else map_of (fsFiles f) q)"
  by (auto simp: Remove_def RemoveFile_def map_of_delete is_file_def)

lemma sweep_fold:
  "sgRoot (fold sweep_one is s) = sgRoot s \<and>
   map_of (fsFiles (sgFs (fold sweep_one is s))) q = (if \<exists>i \<in> set is. swept_path (sgRoot s) i q then None else map_of (fsFiles (sgFs s)) q) \<and>
   map_of (sgUploads (fold sweep_one is s)) j = (if j \<in> set is then None else map_of (sgUploads s) j) \<and>
   (fs_ok (sgFs s) \<longrightarrow> fs_ok (sgFs (fold sweep_one is s)))"
proof (induction "is" arbitrary: s)
  case (Cons i "is")
  have one: "map_of (fsFiles (sgFs (sweep_one i s))) q = (if swept_path (sgRoot s) i q then None else map_of (fsFiles (sgFs s)) q)"
    by (cases "stagingPath (sgRoot s) i")
      (auto simp: sweep_one_def Let_def swept_path_def map_of_RemoveAll Remove_files inside_def)
  have "fs_ok (sgFs s) \<Longrightarrow> fs_ok (sgFs (sweep_one i s))"
    unfolding sweep_one_def Let_def by (auto intro!: RemoveAll_fs_ok intro: Remove_fs_ok split: option.splits)
  then show ?case using Cons [of "sweep_one i s"] one
    by (auto simp: sweep_one_def Let_def map_of_delete)
qed simp

lemma stale_names:
  assumes "unique_keys (sgUploads s)"
  shows "set (map fst (filter (\<lambda>(_, r). upStatus r = Applied \<and> upExpiresAt r < envNow e) (sgUploads s))) = {i. stale_upload e s i}"
proof -
  have "stale_upload e s i \<longleftrightarrow> (\<exists>r. (i, r) \<in> set (sgUploads s) \<and> upStatus r = Applied \<and> upExpiresAt r < envNow e)" for i
    unfolding stale_upload_def map_of_eq_Some_iff [OF assms, symmetric] by (cases "map_of (sgUploads s) i") auto
  then show ?thesis by (auto simp: image_iff)
qed

lemma swept_own:
  assumes base: "HasPrefix base ''/''" and i: "own_name i" "stagingPath base i = Some si"
    and j: "stagingPath base j = Some staged" "own_name j" and sw: "swept_path base i staged"
  shows "i = j"
proof -
  have pl: "plain_name i" "plain_name j" "plain_name ''.staging''"
    using staged_name(1) [OF i(2,1)] staged_name(1) [OF j] by (simp_all add: plain_name_def)
  obtain r1 where r1: "Clean base = abs_path r1" "list_all plain_name r1" "si = abs_path (r1 @ [''.staging'', i])"
    using Clean_below [OF base, of "[''.staging'', i]"] staged_name [OF i(2,1)] by (auto simp: plain_name_def)
  obtain r2 where r2: "Clean base = abs_path r2" "list_all plain_name r2" "staged = abs_path (r2 @ [''.staging'', j])"
    using Clean_below [OF base, of "[''.staging'', j]"] staged_name [OF j] by (auto simp: plain_name_def)
  have r12: "r1 = r2" using abs_path_inj [OF r1(2) r2(2)] r1(1) r2(1) by simp
  have seg: "segments si = [] # r1 @ [''.staging'', i]" "segments staged = [] # r1 @ [''.staging'', j]"
    using segments_abs_path [of "r1 @ [''.staging'', i]"] segments_abs_path [of "r2 @ [''.staging'', j]"] r1(2,3) r2(2,3) r12 pl by simp_all
  have "segments (Dir si) @ [i] = ([] # r1 @ [''.staging'']) @ [i]" using upload_segs(1) [OF base i(2,1)] seg(1) by simp
  then have "segments (Dir si) = [] # r1 @ [''.staging'']" by (simp only: append_same_eq)
  then have "segments (partsPath base i) = [] # r1 @ [''.staging'', ''.parts'', i]" using upload_segs(3) [OF base i(2,1)] by simp
  then have "\<not> inside staged (partsPath base i)" using seg(2) by (auto simp: inside_iff dest: arg_cong [where f = length])
  then have "si = staged" using sw i(2) by (auto simp: swept_path_def)
  then show ?thesis using seg by simp
qed

text \<open>
  The sweep removes exactly the abandoned uploads: the rows that are still applied and whose time is up,
  with their staged files and chunks; every other row stays, and the staged file of every other upload is
  not touched.
\<close>

theorem Sweep_exact:
  assumes "HasPrefix (sgRoot s) ''/''" "unique_keys (sgUploads s)"
    and "\<forall>i \<in> fst ` set (sgUploads s). own_name i \<and> stagingPath (sgRoot s) i \<noteq> None"
  shows "map_of (sgUploads (Sweep e s)) i = (if stale_upload e s i then None else map_of (sgUploads s) i) \<and>
    map_of (fsFiles (sgFs (Sweep e s))) q =
      (if \<exists>i. stale_upload e s i \<and> swept_path (sgRoot s) i q then None else map_of (fsFiles (sgFs s)) q) \<and>
    (i \<in> fst ` set (sgUploads s) \<and> \<not> stale_upload e s i \<and> stagingPath (sgRoot s) i = Some q \<longrightarrow>
      map_of (fsFiles (sgFs (Sweep e s))) q = map_of (fsFiles (sgFs s)) q)"
proof -
  have st: "set (map fst (filter (\<lambda>(_, r). upStatus r = Applied \<and> upExpiresAt r < envNow e) (sgUploads s))) = {i. stale_upload e s i}"
    by (rule stale_names [OF assms(2)])
  have u: "map_of (sgUploads (Sweep e s)) i = (if stale_upload e s i then None else map_of (sgUploads s) i)"
    and f: "map_of (fsFiles (sgFs (Sweep e s))) q =
      (if \<exists>i. stale_upload e s i \<and> swept_path (sgRoot s) i q then None else map_of (fsFiles (sgFs s)) q)"
    unfolding Sweep_def using sweep_fold st by auto
  have own: "own_name k \<and> stagingPath (sgRoot s) k \<noteq> None" if "stale_upload e s k" for k
  proof -
    have "k \<in> fst ` set (sgUploads s)" using that by (auto simp: stale_upload_def dom_map_of_conv_image_fst [symmetric] dom_def split: option.splits)
    then show ?thesis using assms(3) by blast
  qed
  have "\<not> (\<exists>k. stale_upload e s k \<and> swept_path (sgRoot s) k q)"
    if "i \<in> fst ` set (sgUploads s)" "\<not> stale_upload e s i" "stagingPath (sgRoot s) i = Some q"
  proof
    assume "\<exists>k. stale_upload e s k \<and> swept_path (sgRoot s) k q"
    then obtain k sk where k: "stale_upload e s k" "swept_path (sgRoot s) k q" "own_name k" "stagingPath (sgRoot s) k = Some sk"
      using own by blast
    then have "k = i" using swept_own [OF assms(1) k(3,4) that(3) _ k(2)] assms(3) that(1) by blast
    then show False using k(1) that(2) by simp
  qed
  then show ?thesis using u f by auto
qed

definition staging_demo :: staging where
  "staging_demo = \<lparr>sgRoot = ''/d'', sgFs = \<lparr>fsFiles = [(''/d/keep'', \<lparr>ndContent = ''k'', ndMtime = 0\<rparr>)], fsDirs = [''/d'']\<rparr>,
     sgUploads = [(''u'', \<lparr>upTarget = ''/n.note'', upFileName = ''n.note'', upMD5 = [], upSize = 2, upStatus = Applied,
       upCreatedAt = 0, upExpiresAt = 5\<rparr>)]\<rparr>"

definition spc_env_demo :: "millis \<Rightarrow> spc_env" where
  "spc_env_demo now = \<lparr>envMD5 = rev, envSHA256 = (\<lambda>x. x), envNow = now\<rparr>"

lemma staging_demo_ok:
  "HasPrefix (sgRoot staging_demo) ''/''" "stagingPath (sgRoot staging_demo) ''u'' = Some ''/d/.staging/u''"
  "own_name ''u''" "fresh_upload (sgRoot staging_demo) ''u'' ''/d/.staging/u'' (sgFs staging_demo)"
  by code_simp+

theorem StagePart_assembles_witness:
  "\<exists>f. stage_parts (spc_env_demo 7) ''u'' ''id'' 2 [(2, ''B''), (1, ''A''), (2, ''Z'')] staging_demo = staging_demo\<lparr>sgFs := f\<rparr> \<and>
     map_of (fsFiles f) = (map_of (fsFiles (sgFs staging_demo)))(''/d/.staging/u'' \<mapsto> \<lparr>ndContent = ''AB'', ndMtime = 7\<rparr>)"
proof -
  have "assembled 2 (\<lambda>i. None) [(2, ''B''), (1, ''A''), (2, ''Z'')] = Some ''AB''" by code_simp
  moreover have "envNow (spc_env_demo 7) = 7" by code_simp
  ultimately show ?thesis
    using StagePart_assembles [OF staging_demo_ok, of "''id''" 2 "[(2, ''B''), (1, ''A''), (2, ''Z'')]" "spc_env_demo 7"]
    by (auto simp: maxUploadChunks_def)
qed

theorem Finalize_atomic_witness:
  "\<exists>s'. Finalize (spc_env_demo 0) ''u'' ''4241'' 2 ''/n.note''
      (staging_demo\<lparr>sgFs := \<lparr>fsFiles = [(''/d/.staging/u'', \<lparr>ndContent = ''AB'', ndMtime = 3\<rparr>)], fsDirs = [''/d'', ''/d/.staging'']\<rparr>\<rparr>) =
      (Inr ''/d/n.note'', s') \<and> map_of (fsFiles (sgFs s')) ''/d/n.note'' = Some \<lparr>ndContent = ''AB'', ndMtime = 3\<rparr>"
proof -
  define s where "s = staging_demo\<lparr>sgFs := \<lparr>fsFiles = [(''/d/.staging/u'', \<lparr>ndContent = ''AB'', ndMtime = 3\<rparr>)], fsDirs = [''/d'', ''/d/.staging'']\<rparr>\<rparr>"
  have "fst (Finalize (spc_env_demo 0) ''u'' ''4241'' 2 ''/n.note'' s) = Inr ''/d/n.note''" unfolding s_def by code_simp
  then obtain s' where f: "Finalize (spc_env_demo 0) ''u'' ''4241'' 2 ''/n.note'' s = (Inr ''/d/n.note'', s')" by (metis prod.collapse)
  have "HasPrefix (sgRoot s) ''/''" "Clean (sgRoot s) \<noteq> ''/''" "fs_ok (sgFs s)" "is_dir (Clean (sgRoot s)) (sgFs s)" unfolding s_def by code_simp+
  from Finalize_atomic [OF this, of "spc_env_demo 0" "''u''" "''4241''" 2 "''/n.note''"]
  obtain src nd where "promotable (spc_env_demo 0) ''u'' ''4241'' 2 ''/n.note'' s src nd ''/d/n.note''"
    "map_of (fsFiles (sgFs s')) = (map_of (fsFiles (sgFs s)))(src := None, ''/d/n.note'' \<mapsto> nd)"
    unfolding f by auto
  moreover have "stagingPath (sgRoot s) ''u'' = Some ''/d/.staging/u''"
    "map_of (fsFiles (sgFs s)) ''/d/.staging/u'' = Some \<lparr>ndContent = ''AB'', ndMtime = 3\<rparr>"
    unfolding s_def by code_simp+
  ultimately show ?thesis using f unfolding s_def [symmetric] promotable_def by auto
qed

theorem Sweep_exact_witness:
  "map_of (sgUploads (Sweep (spc_env_demo 6) staging_demo)) ''u'' = None \<and>
   map_of (sgUploads (Sweep (spc_env_demo 5) staging_demo)) ''u'' \<noteq> None"
proof -
  have "stale_upload (spc_env_demo 6) staging_demo ''u''" "\<not> stale_upload (spc_env_demo 5) staging_demo ''u''"
    "map_of (sgUploads staging_demo) ''u'' \<noteq> None" "unique_keys (sgUploads staging_demo)"
    "\<forall>i \<in> fst ` set (sgUploads staging_demo). own_name i \<and> stagingPath (sgRoot staging_demo) i \<noteq> None"
    by code_simp+
  then show ?thesis
    using Sweep_exact [OF staging_demo_ok(1), where i = "''u''" and e = "spc_env_demo 6"]
      Sweep_exact [OF staging_demo_ok(1), where i = "''u''" and e = "spc_env_demo 5"] by auto
qed

end
