(* ===== verification/Spc_Ids.thy ===== *)
theory Spc_Ids
  imports Spc_Fs Rm_Index
begin

text \<open>
  The numeric ids of the private cloud (\<open>internal/spcserver/fileids\<close>): the table \<open>spc_file_ids\<close> with its
  \<open>AUTOINCREMENT\<close> key and \<open>UNIQUE\<close> path, and the digest cached in it by size and modification time.
\<close>

section \<open>State\<close>

record id_row =
  idPath :: string
  idMD5 :: string
  idSize :: int
  idMtime :: millis

record registry =
  rgRows :: "(int \<times> id_row) list"
  rgNext :: int

definition row_with_path :: "string \<Rightarrow> registry \<Rightarrow> (int \<times> id_row) option" where
  "row_with_path p r = find (\<lambda>(_, row). idPath row = p) (rgRows r)"

section \<open>Operations\<close>

definition IDFor :: "string \<Rightarrow> registry \<Rightarrow> int \<times> registry" where
  "IDFor absPath r =
     (let p = Clean absPath
      in case row_with_path p r of
           Some (i, _) \<Rightarrow> (i, r)
         | None \<Rightarrow> (rgNext r, r\<lparr>rgRows := rgRows r @ [(rgNext r, \<lparr>idPath = p, idMD5 = [], idSize = 0, idMtime = 0\<rparr>)],
                                 rgNext := rgNext r + 1\<rparr>))"

definition PathFor :: "int \<Rightarrow> registry \<Rightarrow> string option" where
  "PathFor i r = map_option idPath (map_of (rgRows r) i)"

definition set_row :: "int \<Rightarrow> (id_row \<Rightarrow> id_row) \<Rightarrow> registry \<Rightarrow> registry" where
  "set_row i g r = r\<lparr>rgRows := map (\<lambda>(j, row). (j, if j = i then g row else row)) (rgRows r)\<rparr>"

text \<open>\<open>UPDATE spc_file_ids SET path = ? WHERE id = ?\<close>: refused by the \<open>UNIQUE\<close> constraint when another row has the path.\<close>

definition UpdatePath :: "int \<Rightarrow> string \<Rightarrow> registry \<Rightarrow> registry option" where
  "UpdatePath i newAbsPath r =
     (let p = Clean newAbsPath
      in if list_ex (\<lambda>(j, _). j = i) (rgRows r) \<and> list_ex (\<lambda>(j, row). j \<noteq> i \<and> idPath row = p) (rgRows r) then None
         else Some (set_row i (idPath_update (\<lambda>_. p)) r))"

definition MD5For :: "(string \<Rightarrow> string) \<Rightarrow> fs \<Rightarrow> string \<Rightarrow> registry \<Rightarrow> string option \<times> registry" where
  "MD5For md5 f absPath r =
     (let (i, r1) = IDFor absPath r
      in case map_of (fsFiles f) absPath of
           None \<Rightarrow> (None, r1)
         | Some nd \<Rightarrow>
             let size = int (length (ndContent nd)); mtime = ndMtime nd
             in case map_of (rgRows r1) i of
                  None \<Rightarrow> (None, r1)
                | Some row \<Rightarrow>
                    if idMD5 row \<noteq> [] \<and> idSize row = size \<and> idMtime row = mtime then (Some (idMD5 row), r1)
                    else let digest = hexEncode (md5 (ndContent nd))
                         in (Some digest, set_row i (\<lambda>w. w\<lparr>idMD5 := digest, idSize := size, idMtime := mtime\<rparr>) r1))"

section \<open>The invariant\<close>

definition rg_ok :: "registry \<Rightarrow> bool" where
  "rg_ok r \<longleftrightarrow> distinct (map fst (rgRows r)) \<and> distinct (map (\<lambda>(_, row). idPath row) (rgRows r)) \<and>
     list_all (\<lambda>(i, row). 0 < i \<and> i < rgNext r \<and> HasPrefix (idPath row) ''/'') (rgRows r) \<and> 0 < rgNext r"

lemma row_with_path_Some: "row_with_path p r = Some (i, row) \<Longrightarrow> (i, row) \<in> set (rgRows r) \<and> idPath row = p"
  by (auto simp: row_with_path_def find_Some_iff in_set_conv_nth)

lemma row_with_path_None: "row_with_path p r = None \<Longrightarrow> (i, row) \<in> set (rgRows r) \<Longrightarrow> idPath row \<noteq> p"
  by (auto simp: row_with_path_def find_None_iff)

lemma rg_ok_row: "rg_ok r \<Longrightarrow> (i, row) \<in> set (rgRows r) \<longleftrightarrow> map_of (rgRows r) i = Some row"
  by (simp add: rg_ok_def)

lemma rg_ok_path:
  assumes "rg_ok r" "map_of (rgRows r) i = Some row" "map_of (rgRows r) j = Some row'" "idPath row = idPath row'"
  shows "i = j"
proof -
  have "(i, row) \<in> set (rgRows r)" "(j, row') \<in> set (rgRows r)" using assms map_of_SomeD by fast+
  moreover have "inj_on (\<lambda>(_, row). idPath row) (set (rgRows r))" using assms(1) by (simp add: rg_ok_def distinct_map)
  ultimately have "(i, row) = (j, row')" using assms(4) inj_onD [of "\<lambda>(_, row). idPath row" _ "(i, row)" "(j, row')"] by simp
  then show ?thesis by simp
qed

lemma PathFor_inj: "rg_ok r \<Longrightarrow> PathFor i r = Some p \<Longrightarrow> PathFor j r = Some p \<Longrightarrow> i = j"
  by (auto simp: PathFor_def intro: rg_ok_path)

lemma IDFor_rg_ok:
  assumes "rg_ok r" "HasPrefix (Clean p) ''/''"
  shows "rg_ok (snd (IDFor p r))"
proof (cases "row_with_path (Clean p) r")
  case None
  then have "Clean p \<notin> (\<lambda>(_, row). idPath row) ` set (rgRows r)" using row_with_path_None [OF None] by force
  moreover have "rgNext r \<notin> fst ` set (rgRows r)" using assms(1) by (fastforce simp: rg_ok_def list_all_iff)
  ultimately show ?thesis using assms None by (auto simp: IDFor_def Let_def rg_ok_def list_all_iff)
qed (use assms in \<open>auto simp: IDFor_def Let_def\<close>)

lemma IDFor_PathFor:
  assumes "rg_ok r"
  shows "PathFor (fst (IDFor p r)) (snd (IDFor p r)) = Some (Clean p)"
proof (cases "row_with_path (Clean p) r")
  case None
  have "map_of (rgRows r) (rgNext r) = None" using assms by (auto simp: rg_ok_def list_all_iff map_of_eq_None_iff)
  then show ?thesis using None by (simp add: IDFor_def Let_def PathFor_def map_add_def)
next
  case (Some a)
  obtain i row where a: "a = (i, row)" by (cases a)
  have "(i, row) \<in> set (rgRows r)" "idPath row = Clean p" using row_with_path_Some Some a by blast+
  then show ?thesis using Some a rg_ok_row [OF assms] by (simp add: IDFor_def Let_def PathFor_def)
qed

lemma IDFor_keeps: "PathFor i r = Some q \<Longrightarrow> PathFor i (snd (IDFor p r)) = Some q"
  by (auto simp: IDFor_def Let_def PathFor_def map_add_def split: option.splits prod.splits)

lemma IDFor_stable:
  assumes "rg_ok r" "PathFor i r = Some (Clean p)"
  shows "IDFor p r = (i, r)"
proof (cases "row_with_path (Clean p) r")
  case None
  obtain row where "map_of (rgRows r) i = Some row" "idPath row = Clean p" using assms(2) by (auto simp: PathFor_def)
  then show ?thesis using row_with_path_None [OF None] map_of_SomeD by fast
next
  case (Some a)
  obtain j row where a: "a = (j, row)" by (cases a)
  have "(j, row) \<in> set (rgRows r)" "idPath row = Clean p" using row_with_path_Some Some a by blast+
  then have "PathFor j r = Some (Clean p)" using rg_ok_row [OF assms(1)] by (simp add: PathFor_def)
  then have "j = i" using PathFor_inj [OF assms(1)] assms(2) by blast
  then show ?thesis using Some a by (simp add: IDFor_def Let_def)
qed

lemma map_of_set_row: "map_of (rgRows (set_row i g r)) j = (if j = i then map_option g (map_of (rgRows r) j) else map_of (rgRows r) j)"
proof -
  have "map_of (map (\<lambda>(j, row). (j, if j = i then g row else row)) t) j = (if j = i then map_option g (map_of t j) else map_of t j)" for t
    by (induction t) auto
  then show ?thesis by (simp add: set_row_def)
qed

lemma set_row_paths: "(\<And>w. idPath (g w) = idPath w) \<Longrightarrow> PathFor j (set_row i g r) = PathFor j r"
  by (simp add: PathFor_def map_of_set_row option.map_comp comp_def)

lemma set_row_rg_ok:
  assumes "rg_ok r" "\<And>w. idPath (g w) = idPath w"
  shows "rg_ok (set_row i g r)"
proof -
  have rows: "rgRows (set_row i g r) = map (\<lambda>(j, row). (j, if j = i then g row else row)) (rgRows r)" "rgNext (set_row i g r) = rgNext r"
    by (simp_all add: set_row_def)
  have "map fst (rgRows (set_row i g r)) = map fst (rgRows r)" unfolding rows(1) map_map by (rule map_cong) auto
  moreover have "map (\<lambda>(_, row). idPath row) (rgRows (set_row i g r)) = map (\<lambda>(_, row). idPath row) (rgRows r)"
    unfolding rows(1) map_map by (rule map_cong) (auto simp: assms(2))
  moreover have "list_all (\<lambda>(j, row). 0 < j \<and> j < rgNext r \<and> HasPrefix (idPath row) ''/'') (rgRows (set_row i g r))"
    using assms unfolding rows(1) by (auto simp: rg_ok_def list_all_iff)
  ultimately show ?thesis using assms(1) unfolding rg_ok_def rows(2) by simp
qed

lemma UpdatePath_rg_ok:
  assumes "rg_ok r" "UpdatePath i p r = Some r'" "HasPrefix (Clean p) ''/''"
  shows "rg_ok r'"
proof -
  have r': "r' = set_row i (idPath_update (\<lambda>_. Clean p)) r"
    and free: "(\<exists>row. (i, row) \<in> set (rgRows r)) \<Longrightarrow> \<forall>(j, row) \<in> set (rgRows r). j \<noteq> i \<longrightarrow> idPath row \<noteq> Clean p"
    using assms(2) by (auto simp: UpdatePath_def Let_def list_ex_iff split: if_splits)
  have fst: "map fst (rgRows r') = map fst (rgRows r)" by (simp add: r' set_row_def case_prod_beta comp_def)
  have "distinct (map (\<lambda>(_, row). idPath row) (rgRows r'))"
  proof (cases "i \<in> fst ` set (rgRows r)")
    case False
    then have "\<forall>x \<in> set (rgRows r). (case x of (j, row) \<Rightarrow> (j, if j = i then idPath_update (\<lambda>_. Clean p) row else row)) = x" by force
    then have "rgRows r' = rgRows r" by (simp add: r' set_row_def map_idI)
    then show ?thesis using assms(1) by (simp add: rg_ok_def)
  next
    case True
    let ?h = "\<lambda>(j, row). if j = i then Clean p else idPath row"
    have "map (\<lambda>(_, row). idPath row) (rgRows r') = map ?h (rgRows r)" by (auto simp: r' set_row_def)
    moreover have "inj_on ?h (set (rgRows r))"
    proof (rule inj_onI)
      fix x y assume xy: "x \<in> set (rgRows r)" "y \<in> set (rgRows r)" "?h x = ?h y"
      obtain j v where x: "x = (j, v)" by (cases x)
      obtain k w where y: "y = (k, w)" by (cases y)
      have f: "\<forall>(j, row) \<in> set (rgRows r). j \<noteq> i \<longrightarrow> idPath row \<noteq> Clean p" using free True by force
      have "j = k"
      proof (cases "j = i \<or> k = i")
        case True
        then show ?thesis using xy f by (auto simp: x y split: if_splits)
      next
        case False
        then have "idPath v = idPath w" using xy by (simp add: x y)
        then show ?thesis using rg_ok_path [OF assms(1)] xy(1,2) rg_ok_row [OF assms(1)] unfolding x y by blast
      qed
      then show "x = y" using xy(1,2) rg_ok_row [OF assms(1)] by (simp add: x y)
    qed
    moreover have "distinct (rgRows r)" using assms(1) by (auto simp: rg_ok_def distinct_map)
    ultimately show ?thesis by (simp add: distinct_map)
  qed
  moreover have "distinct (map fst (rgRows r'))" unfolding fst using assms(1) by (simp add: rg_ok_def)
  moreover have "rgNext r' = rgNext r" by (simp add: r' set_row_def)
  moreover have "list_all (\<lambda>(j, row). 0 < j \<and> j < rgNext r \<and> HasPrefix (idPath row) ''/'') (rgRows r')"
    using assms(1,3) by (auto simp: rg_ok_def list_all_iff r' set_row_def)
  ultimately show ?thesis using assms(1) by (simp add: rg_ok_def)
qed

lemma UpdatePath_PathFor:
  assumes "UpdatePath i p r = Some r'"
  shows "PathFor j r' = (if j = i then map_option (\<lambda>_. Clean p) (PathFor i r) else PathFor j r)"
proof -
  have "r' = set_row i (idPath_update (\<lambda>_. Clean p)) r" using assms by (auto simp: UpdatePath_def Let_def split: if_splits)
  then show ?thesis by (simp add: PathFor_def map_of_set_row option.map_comp comp_def)
qed

text \<open>When the constraint refuses: another id already stands for the path.\<close>

lemma UpdatePath_None_iff:
  assumes "rg_ok r" "PathFor i r \<noteq> None"
  shows "UpdatePath i p r = None \<longleftrightarrow> (\<exists>j. j \<noteq> i \<and> PathFor j r = Some (Clean p))"
proof -
  have "list_ex (\<lambda>(j, _). j = i) (rgRows r)" using assms(2) map_of_SomeD by (force simp: PathFor_def list_ex_iff)
  moreover have "list_ex (\<lambda>(j, row). j \<noteq> i \<and> idPath row = Clean p) (rgRows r) \<longleftrightarrow> (\<exists>j. j \<noteq> i \<and> PathFor j r = Some (Clean p))"
    using rg_ok_row [OF assms(1)] by (auto simp: list_ex_iff PathFor_def)
  ultimately show ?thesis by (simp add: UpdatePath_def Let_def)
qed

lemma MD5For_paths:
  assumes "rg_ok r" "HasPrefix (Clean p) ''/''"
  shows "rg_ok (snd (MD5For md5 f p r))" "PathFor i (snd (MD5For md5 f p r)) = PathFor i (snd (IDFor p r))"
proof -
  obtain j r1 where j: "IDFor p r = (j, r1)" by (cases "IDFor p r")
  have ok: "rg_ok r1" using IDFor_rg_ok [OF assms] j by simp
  show "rg_ok (snd (MD5For md5 f p r))"
    unfolding MD5For_def j Let_def using ok set_row_rg_ok [OF ok] by (auto split: option.splits)
  show "PathFor i (snd (MD5For md5 f p r)) = PathFor i (snd (IDFor p r))"
    unfolding MD5For_def j Let_def by (auto simp: set_row_paths split: option.splits)
qed

end
