(* ===== verification/Spc_Files.thy ===== *)
theory Spc_Files
  imports Spc_Staging Spc_Ids
begin

text \<open>
  The file service of the private cloud (\<open>internal/spcserver/handlers\<close>: \<open>files.go\<close>, \<open>mutation.go\<close>, \<open>webfile.go\<close>,
  \<open>webops.go\<close>, with \<open>mapping/file.go\<close>): listings and queries by id and path, folder creation, soft deletion to
  the recycle area, moves, copies and renames, the recycle operations, and the paging of the web listings.
  The storage root is not the top directory of the machine; the modification time an entry shows is left out.
  What the handlers tell other components (index, job queue, device) is a list of events.
\<close>

section \<open>State\<close>

datatype hook = Deindex string | ReindexMove string string | ReindexCopy string string | NotifyFile | EnqueueOCR string

record spc =
  spSt :: staging
  spReg :: registry
  spHooks :: "hook list"

abbreviation spRoot :: "spc \<Rightarrow> string" where
  "spRoot s \<equiv> sgRoot (spSt s)"

abbreviation spFs :: "spc \<Rightarrow> fs" where
  "spFs s \<equiv> sgFs (spSt s)"

definition with_fs :: "fs \<Rightarrow> spc \<Rightarrow> spc" where
  "with_fs f s = s\<lparr>spSt := (spSt s)\<lparr>sgFs := f\<rparr>\<rparr>"

definition with_reg :: "registry \<Rightarrow> spc \<Rightarrow> spc" where
  "with_reg r s = s\<lparr>spReg := r\<rparr>"

definition emit :: "hook \<Rightarrow> spc \<Rightarrow> spc" where
  "emit h s = s\<lparr>spHooks := spHooks s @ [h]\<rparr>"

text \<open>The error codes of the wire protocol.\<close>

datatype spc_error = E0308 | E0318 | E0320 | E0321 | E0322 | E0324

record entry =
  enFolder :: bool
  enID :: int
  enName :: string
  enPath :: string
  enParent :: string
  enSize :: int
  enDownloadable :: bool
  enHash :: string

section \<open>Entries\<close>

definition EntryFor :: "spc_env \<Rightarrow> string \<Rightarrow> spc \<Rightarrow> entry option \<times> spc" where
  "EntryFor e absPath s =
     (if \<not> exists_path absPath (spFs s) then (None, s)
      else let (i, r) = IDFor absPath (spReg s);
               display = displayPath (spRoot s) absPath;
               base = \<lparr>enFolder = True, enID = i, enName = nameFor (spRoot s) absPath, enPath = display,
                       enParent = parentDisplay display, enSize = 0, enDownloadable = False, enHash = []\<rparr>
           in case map_of (fsFiles (spFs s)) absPath of
                None \<Rightarrow> (Some base, with_reg r s)
              | Some nd \<Rightarrow>
                  let (h, r') = MD5For (envMD5 e) (spFs s) absPath r
                  in (Some (base\<lparr>enFolder := False, enSize := int (length (ndContent nd)), enDownloadable := True,
                            enHash := (case h of None \<Rightarrow> [] | Some d \<Rightarrow> d)\<rparr>), with_reg r' s))"

fun entries_for :: "spc_env \<Rightarrow> string list \<Rightarrow> spc \<Rightarrow> entry list \<times> spc" where
  "entries_for e [] s = ([], s)"
| "entries_for e (p # ps) s =
     (let (x, s1) = EntryFor e p s; (xs, s2) = entries_for e ps s1
      in ((case x of None \<Rightarrow> xs | Some y \<Rightarrow> y # xs), s2))"

definition isHidden :: "string \<Rightarrow> bool" where
  "isHidden name \<longleftrightarrow> HasPrefix name ''.''"

text \<open>The walk visits a directory's names in order, each before what lies below it; that is the order of the
  segment lists.\<close>

definition childPaths :: "string \<Rightarrow> bool \<Rightarrow> fs \<Rightarrow> string list" where
  "childPaths dir recursive f =
     (let d = Clean dir
      in sort_key segments (filter (\<lambda>p. below p d \<and>
           (let rel = drop (length (segments d)) (segments p)
            in (if recursive then True else length rel = 1) \<and> list_all (\<lambda>n. \<not> isHidden n) rel))
           (map fst (fsFiles f) @ fsDirs f)))"

definition sortEntries :: "entry list \<Rightarrow> entry list" where
  "sortEntries = sort_key (\<lambda>x. (\<not> enFolder x, enPath x))"

section \<open>Reading\<close>

definition resolveDir :: "int option \<Rightarrow> spc \<Rightarrow> string option" where
  "resolveDir i s =
     (if spRoot s = [] then None
      else case i of
             None \<Rightarrow> Some (Clean (spRoot s))
           | Some n \<Rightarrow> if n = 0 then Some (Clean (spRoot s)) else PathFor n (spReg s))"

definition ListFolder :: "spc_env \<Rightarrow> int option \<Rightarrow> bool \<Rightarrow> spc \<Rightarrow> entry list \<times> spc" where
  "ListFolder e i recursive s =
     (case resolveDir i s of
        None \<Rightarrow> ([], s)
      | Some dir \<Rightarrow> let (es, s') = entries_for e (childPaths dir recursive (spFs s)) s in (sortEntries es, s'))"

definition QueryByID :: "spc_env \<Rightarrow> string \<Rightarrow> spc \<Rightarrow> entry option \<times> spc" where
  "QueryByID e rawID s =
     (case ParseInt rawID of
        None \<Rightarrow> (None, s)
      | Some i \<Rightarrow>
          if spRoot s = [] then (None, s)
          else case PathFor i (spReg s) of None \<Rightarrow> (None, s) | Some p \<Rightarrow> EntryFor e p s)"

definition queryPathCandidates :: "string \<Rightarrow> string list" where
  "queryPathCandidates reqPath =
     (let rel = TrimPrefix reqPath ''/''
      in [reqPath] @ (if HasPrefix rel ''Note/'' then [''/NOTE/Note/'' @ drop 5 rel] else [])
         @ (if HasPrefix rel ''Document/'' then [''/DOCUMENT/Document/'' @ drop 9 rel] else []))"

definition resolveQueryPath :: "string \<Rightarrow> spc \<Rightarrow> string option" where
  "resolveQueryPath reqPath s =
     (case find (\<lambda>p. case SafeResolve (Clean (spRoot s)) p of None \<Rightarrow> False | Some a \<Rightarrow> exists_path a (spFs s)) (queryPathCandidates reqPath) of
        None \<Rightarrow> None
      | Some p \<Rightarrow> SafeResolve (Clean (spRoot s)) p)"

definition QueryByPath :: "spc_env \<Rightarrow> string \<Rightarrow> spc \<Rightarrow> entry option \<times> spc" where
  "QueryByPath e reqPath s =
     (if spRoot s = [] then (None, s)
      else case resolveQueryPath reqPath s of None \<Rightarrow> (None, s) | Some p \<Rightarrow> EntryFor e p s)"

text \<open>The first-synchronization signal: whether the root has a directory.\<close>

definition hasTopLevelFolders :: "spc \<Rightarrow> bool" where
  "hasTopLevelFolders s \<longleftrightarrow> spRoot s \<noteq> [] \<and>
     list_ex (\<lambda>d. below d (Clean (spRoot s)) \<and> length (segments d) = Suc (length (segments (Clean (spRoot s))))) (fsDirs (spFs s))"

text \<open>The metadata stub that answers a mutation is the entry itself; its extra fields are not sent.\<close>

definition CreateFolderV2 :: "spc_env \<Rightarrow> string \<Rightarrow> bool \<Rightarrow> spc \<Rightarrow> (spc_error + entry) \<times> spc" where
  "CreateFolderV2 e reqPath autorename s =
     (case SafeResolve (spRoot s) reqPath of
        None \<Rightarrow> (Inl E0322, s)
      | Some p \<Rightarrow>
          if exists_path p (spFs s) \<and> (\<not> is_dir p (spFs s) \<or> \<not> autorename) then (Inl E0322, s)
          else case MkdirAll p (spFs s) of
                 None \<Rightarrow> (Inl E0322, s)
               | Some f \<Rightarrow> (case EntryFor e p (with_fs f s) of
                     (None, s') \<Rightarrow> (Inl E0322, s')
                   | (Some x, s') \<Rightarrow> (Inr x, s')))"

section \<open>Relative paths\<close>

definition JoinAll :: "string list \<Rightarrow> string" where
  "JoinAll xs = (let ys = filter (\<lambda>x. x \<noteq> []) xs in if ys = [] then [] else Clean (join_with ''/'' ys))"

text \<open>\<open>filepath.Ext\<close>.\<close>

definition Ext :: "string \<Rightarrow> string" where
  "Ext p =
     (let r = rev p; suf = takeWhile (\<lambda>c. c \<noteq> CHR ''.'' \<and> c \<noteq> CHR ''/'') r
      in case drop (length suf) r of
           [] \<Rightarrow> []
         | c # _ \<Rightarrow> if c = CHR ''.'' then CHR ''.'' # rev suf else [])"

section \<open>Mutations\<close>

definition resolveSource :: "string \<Rightarrow> spc \<Rightarrow> (int \<times> string) option" where
  "resolveSource rawID s =
     (case ParseInt rawID of
        None \<Rightarrow> None
      | Some i \<Rightarrow>
          if spRoot s = [] then None
          else case PathFor i (spReg s) of
                 None \<Rightarrow> None
               | Some p \<Rightarrow> if exists_path p (spFs s) then Some (i, p) else None)"

text \<open>\<open>os.IsNotExist\<close> after \<open>Lstat\<close>: a path below a file gives another error.\<close>

definition not_exist :: "string \<Rightarrow> fs \<Rightarrow> bool" where
  "not_exist p f \<longleftrightarrow> p \<noteq> ''/'' \<and> \<not> exists_path p f \<and> \<not> list_ex (\<lambda>(q, _). below p q) (fsFiles f)"

definition numbered :: "string \<Rightarrow> string list" where
  "numbered dest =
     (let ext = Ext dest; base = TrimSuffix dest ext
      in map (\<lambda>n. base @ '' ('' @ FormatInt n @ '')'' @ ext) [1..999])"

definition targetPath :: "string \<Rightarrow> string \<Rightarrow> bool \<Rightarrow> fs \<Rightarrow> string option" where
  "targetPath base toPath autorename f =
     (case SafeResolve base toPath of
        None \<Rightarrow> None
      | Some dest \<Rightarrow>
          if not_exist dest f then Some dest
          else if \<not> autorename then None
          else find (\<lambda>c. not_exist c f) (numbered dest))"

definition autorenameAbs :: "string \<Rightarrow> fs \<Rightarrow> string" where
  "autorenameAbs dest f =
     (if not_exist dest f then dest
      else case find (\<lambda>c. not_exist c f) (numbered dest) of None \<Rightarrow> [] | Some c \<Rightarrow> c)"

text \<open>Removes the directories a departure left empty, up to the native buckets; the recursion is bounded by the
  number of segments.\<close>

fun prune :: "nat \<Rightarrow> string \<Rightarrow> string \<Rightarrow> fs \<Rightarrow> fs" where
  "prune 0 base dir f = f"
| "prune (Suc k) base dir f =
     (if length (relNames base dir) < 3 then f
      else case Remove dir f of None \<Rightarrow> f | Some g \<Rightarrow> prune k base (Dir dir) g)"

definition pruneEmptyParents :: "string \<Rightarrow> string \<Rightarrow> fs \<Rightarrow> fs" where
  "pruneEmptyParents base dir f = prune (length (segments dir)) base dir f"

definition recycleDest :: "spc_env \<Rightarrow> string \<Rightarrow> string \<Rightarrow> string" where
  "recycleDest e base pathDisplay = JoinAll [base, ''.recycle'', FormatInt (envNow e), TrimPrefix pathDisplay ''/'']"

definition recycle :: "spc_env \<Rightarrow> string \<Rightarrow> string \<Rightarrow> string \<Rightarrow> fs \<Rightarrow> bool \<times> fs" where
  "recycle e base pathDisplay absPath f =
     (let dest = recycleDest e base pathDisplay
      in case MkdirAll (Dir dest) f of
           None \<Rightarrow> (False, f)
         | Some g \<Rightarrow> (case Rename absPath dest g of None \<Rightarrow> (False, g) | Some h \<Rightarrow> (True, h)))"

definition DeleteFolder :: "spc_env \<Rightarrow> string \<Rightarrow> spc \<Rightarrow> (spc_error + entry) \<times> spc" where
  "DeleteFolder e rawID s =
     (case resolveSource rawID s of
        None \<Rightarrow> (Inl E0318, s)
      | Some (_, p) \<Rightarrow>
          (case EntryFor e p s of
             (None, s1) \<Rightarrow> (Inl E0318, s1)
           | (Some x, s1) \<Rightarrow>
               (case recycle e (spRoot s) (enPath x) p (spFs s1) of
                  (False, f) \<Rightarrow> (Inl E0318, with_fs f s1)
                | (True, f) \<Rightarrow> (Inr x, emit NotifyFile (with_fs (pruneEmptyParents (spRoot s) (Dir p) f) (emit (Deindex p) (with_fs f s1)))))))"

text \<open>\<open>respondEntry\<close>.\<close>

definition respondEntry :: "spc_env \<Rightarrow> string \<Rightarrow> spc_error \<Rightarrow> spc \<Rightarrow> (spc_error + entry) \<times> spc" where
  "respondEntry e dest err s =
     (case EntryFor e dest s of
        (None, s') \<Rightarrow> (Inl err, s')
      | (Some x, s') \<Rightarrow> (Inr x, emit NotifyFile s'))"

text \<open>Renames, repoints the id (a refusal by the table is only logged), tells the indexes and prunes.\<close>

definition move_to :: "int \<Rightarrow> string \<Rightarrow> string \<Rightarrow> bool \<Rightarrow> spc \<Rightarrow> spc option" where
  "move_to i src dest pruning s =
     (case (if dest = [] then None else Rename src dest (spFs s)) of
        None \<Rightarrow> None
      | Some f \<Rightarrow>
          let s1 = with_fs f s;
              s2 = (case UpdatePath i dest (spReg s) of None \<Rightarrow> s1 | Some r \<Rightarrow> with_reg r s1);
              s3 = emit (ReindexMove src dest) s2
          in Some (if pruning then with_fs (pruneEmptyParents (spRoot s) (Dir src) (spFs s3)) s3 else s3))"

definition Move :: "spc_env \<Rightarrow> string \<Rightarrow> string \<Rightarrow> bool \<Rightarrow> spc \<Rightarrow> (spc_error + entry) \<times> spc" where
  "Move e rawID toPath autorename s =
     (case resolveSource rawID s of
        None \<Rightarrow> (Inl E0320, s)
      | Some (i, src) \<Rightarrow>
          (case targetPath (spRoot s) toPath autorename (spFs s) of
             None \<Rightarrow> (Inl E0322, s)
           | Some dest \<Rightarrow>
               (case MkdirAll (Dir dest) (spFs s) of
                  None \<Rightarrow> (Inl E0320, s)
                | Some f \<Rightarrow>
                    (case move_to i src dest True (with_fs f s) of
                       None \<Rightarrow> (Inl E0320, with_fs f s)
                     | Some s1 \<Rightarrow> respondEntry e dest E0320 s1))))"

text \<open>\<open>copyFile\<close>: a directory opens, but cannot be read, after the target has been created.\<close>

definition copyFile :: "spc_env \<Rightarrow> string \<Rightarrow> string \<Rightarrow> fs \<Rightarrow> bool \<times> fs" where
  "copyFile e src dst f =
     (if dst = [] \<or> \<not> exists_path src f then (False, f)
      else case MkdirAll (Dir dst) f of
             None \<Rightarrow> (False, f)
           | Some g \<Rightarrow>
               (case map_of (fsFiles f) src of
                  None \<Rightarrow> (case Create dst \<lparr>ndContent = [], ndMtime = envNow e\<rparr> g of None \<Rightarrow> (False, g) | Some h \<Rightarrow> (False, h))
                | Some nd \<Rightarrow> (case Create dst \<lparr>ndContent = ndContent nd, ndMtime = envNow e\<rparr> g of
                       None \<Rightarrow> (False, g)
                     | Some h \<Rightarrow> (True, h))))"

definition Copy :: "spc_env \<Rightarrow> string \<Rightarrow> string \<Rightarrow> bool \<Rightarrow> spc \<Rightarrow> (spc_error + entry) \<times> spc" where
  "Copy e rawID toPath autorename s =
     (case resolveSource rawID s of
        None \<Rightarrow> (Inl E0308, s)
      | Some (_, src) \<Rightarrow>
          (case targetPath (spRoot s) toPath autorename (spFs s) of
             None \<Rightarrow> (Inl E0322, s)
           | Some dest \<Rightarrow>
               (case copyFile e src dest (spFs s) of
                  (False, f) \<Rightarrow> (Inl E0308, with_fs f s)
                | (True, f) \<Rightarrow> respondEntry e dest E0308 (emit (ReindexCopy src dest) (with_fs f s)))))"

section \<open>Web listings\<close>

record page_request =
  rqCurrentPage :: int
  rqPage :: int
  rqPageSize :: int
  rqLimit :: int

definition pageParams :: "page_request \<Rightarrow> int \<times> int" where
  "pageParams q =
     (let p = (if rqCurrentPage q = 0 then rqPage q else rqCurrentPage q);
          z = (if rqPageSize q = 0 then rqLimit q else rqPageSize q)
      in (if p < 1 then 1 else p, if z < 1 then 500 else z))"

text \<open>\<open>entries[start:end]\<close> panics on a negative or inverted bound: \<open>None\<close>.\<close>

definition web_page :: "'a list \<Rightarrow> int \<Rightarrow> int \<Rightarrow> 'a list option" where
  "web_page entries page n =
     (let total = int (length entries);
          s0 = wrap64 (wrap64 (page - 1) * n);
          start = (if s0 > total then total else s0);
          e0 = wrap64 (start + n);
          stop = (if e0 > total then total else e0)
      in if start < 0 \<or> stop < start then None
         else Some (take (nat (stop - start)) (drop (nat start) entries)))"

text \<open>The page and the total, as the answer carries them.\<close>

definition writeWebList :: "'a list \<Rightarrow> page_request \<Rightarrow> 'a list option \<times> int" where
  "writeWebList entries q = (let (pg, z) = pageParams q in (web_page entries pg z, int (length entries)))"

definition absFromID :: "string \<Rightarrow> spc \<Rightarrow> string option" where
  "absFromID rawID s =
     (case ParseInt rawID of
        None \<Rightarrow> None
      | Some i \<Rightarrow> (case PathFor i (spReg s) of None \<Rightarrow> None | Some p \<Rightarrow> if exists_path p (spFs s) then Some p else None))"

definition dirFromPath :: "string \<Rightarrow> spc \<Rightarrow> string option" where
  "dirFromPath reqPath s =
     (if spRoot s = [] then None
      else case SafeResolve (spRoot s) (if reqPath = [] then ''/'' else reqPath) of
             None \<Rightarrow> None
           | Some p \<Rightarrow> if is_dir p (spFs s) then Some p else None)"

definition dirFromDirectoryID :: "string \<Rightarrow> spc \<Rightarrow> string option" where
  "dirFromDirectoryID directoryID s =
     (if spRoot s = [] then None
      else if directoryID = [] \<or> directoryID = ''0'' then Some (spRoot s)
      else case absFromID directoryID s of None \<Rightarrow> None | Some p \<Rightarrow> if is_dir p (spFs s) then Some p else None)"

definition entriesUnder :: "spc_env \<Rightarrow> string \<Rightarrow> bool \<Rightarrow> spc \<Rightarrow> entry list \<times> spc" where
  "entriesUnder e dir recursive s =
     (let (es, s') = entries_for e (childPaths dir recursive (spFs s)) s in (sortEntries es, s'))"

text \<open>The four listings: none of the directories found is an empty list.\<close>

definition list_dir :: "spc_env \<Rightarrow> string option \<Rightarrow> bool \<Rightarrow> (entry \<Rightarrow> bool) \<Rightarrow> page_request \<Rightarrow> spc \<Rightarrow> (entry list option \<times> int) \<times> spc" where
  "list_dir e d recursive P q s =
     (case d of
        None \<Rightarrow> (writeWebList [] q, s)
      | Some dir \<Rightarrow> let (es, s') = entriesUnder e dir recursive s in (writeWebList (filter P es) q, s'))"

definition ListByPath :: "spc_env \<Rightarrow> string \<Rightarrow> bool \<Rightarrow> page_request \<Rightarrow> spc \<Rightarrow> (entry list option \<times> int) \<times> spc" where
  "ListByPath e reqPath recursive q s = list_dir e (dirFromPath reqPath s) recursive (\<lambda>_. True) q s"

definition ListQuery :: "spc_env \<Rightarrow> string \<Rightarrow> page_request \<Rightarrow> spc \<Rightarrow> (entry list option \<times> int) \<times> spc" where
  "ListQuery e directoryID q s = list_dir e (dirFromDirectoryID directoryID s) False (\<lambda>_. True) q s"

definition FolderListQuery :: "spc_env \<Rightarrow> string \<Rightarrow> page_request \<Rightarrow> spc \<Rightarrow> (entry list option \<times> int) \<times> spc" where
  "FolderListQuery e directoryID q s = list_dir e (dirFromDirectoryID directoryID s) True enFolder q s"

definition firstNonEmpty :: "string list \<Rightarrow> string" where
  "firstNonEmpty vals = (case find (\<lambda>v. TrimSpace v \<noteq> []) vals of None \<Rightarrow> [] | Some v \<Rightarrow> v)"

definition SearchFiles :: "spc_env \<Rightarrow> string \<Rightarrow> string list \<Rightarrow> page_request \<Rightarrow> spc \<Rightarrow> (entry list option \<times> int) \<times> spc" where
  "SearchFiles e directoryID names q s =
     (let needle = map to_lower (firstNonEmpty names)
      in list_dir e (dirFromDirectoryID directoryID s) True (\<lambda>x. needle = [] \<or> contains (map to_lower (enName x)) needle) q s)"

text \<open>The breadcrumb of a path climbs while the path has the root as a string prefix; the climb is bounded by the
  number of segments.\<close>

fun climb_crumbs :: "nat \<Rightarrow> spc_env \<Rightarrow> string \<Rightarrow> spc \<Rightarrow> entry list \<times> spc" where
  "climb_crumbs 0 e cur s = ([], s)"
| "climb_crumbs (Suc k) e cur s =
     (if \<not> HasPrefix cur (Clean (spRoot s)) then ([], s)
      else let (x, s1) = EntryFor e cur s;
               (xs, s2) = (if cur = Clean (spRoot s) then ([], s1) else climb_crumbs k e (Dir cur) s1)
           in ((case x of None \<Rightarrow> xs | Some y \<Rightarrow> y # xs), s2))"

definition crumbs :: "spc_env \<Rightarrow> string \<Rightarrow> spc \<Rightarrow> entry list \<times> spc" where
  "crumbs e absPath s =
     (if spRoot s = [] then ([], s)
      else let (xs, s') = climb_crumbs (length (segments (Clean absPath))) e (Clean absPath) s in (rev xs, s'))"

definition PathQuery :: "spc_env \<Rightarrow> string \<Rightarrow> string \<Rightarrow> spc \<Rightarrow> (string \<times> entry list) option \<times> spc" where
  "PathQuery e i directoryID s =
     (case absFromID (firstNonEmpty [i, directoryID]) s of
        None \<Rightarrow> (None, s)
      | Some p \<Rightarrow>
          (case EntryFor e p s of
             (None, s1) \<Rightarrow> (None, s1)
           | (Some x, s1) \<Rightarrow> let (cs, s2) = crumbs e p s1 in (Some (enPath x, cs), s2)))"

section \<open>The web controllers\<close>

definition dirByID :: "string \<Rightarrow> spc \<Rightarrow> string option" where
  "dirByID rawID s =
     (if rawID = [] \<or> rawID = ''0'' then Some (spRoot s)
      else case ParseInt rawID of
             None \<Rightarrow> None
           | Some i \<Rightarrow> (case PathFor i (spReg s) of None \<Rightarrow> None | Some p \<Rightarrow> if is_dir p (spFs s) then Some p else None))"

definition safeBaseName :: "string \<Rightarrow> string" where
  "safeBaseName name =
     (let n = TrimSpace name
      in if n = [] \<or> n = ''.'' \<or> n = ''..'' then []
         else let b = Base n in if b = ''.'' \<or> b = ''..'' then [] else b)"

definition FolderAdd :: "spc_env \<Rightarrow> string \<Rightarrow> string \<Rightarrow> spc \<Rightarrow> (spc_error + entry) \<times> spc" where
  "FolderAdd e directoryID fileName s =
     (case dirFromDirectoryID directoryID s of
        None \<Rightarrow> (Inl E0322, s)
      | Some parent \<Rightarrow>
          let name = safeBaseName fileName; p = JoinAll [parent, name]
          in if name = [] then (Inl E0322, s)
             else case MkdirAll p (spFs s) of
                    None \<Rightarrow> (Inl E0322, s)
                  | Some f \<Rightarrow> (case EntryFor e p (with_fs f s) of
                        (None, s') \<Rightarrow> (Inl E0322, s')
                      | (Some x, s') \<Rightarrow> (Inr x, s')))"

fun web_each :: "spc_env \<Rightarrow> bool \<Rightarrow> string \<Rightarrow> string list \<Rightarrow> spc \<Rightarrow> spc_error option \<times> spc" where
  "web_each e copyMode destDir [] s = (None, s)"
| "web_each e copyMode destDir (rawID # ids) s =
     (case resolveSource rawID s of
        None \<Rightarrow> (Some E0320, s)
      | Some (i, src) \<Rightarrow>
          let dest = autorenameAbs (JoinAll [destDir, Base src]) (spFs s)
          in if copyMode
             then (case copyFile e src dest (spFs s) of
                     (False, f) \<Rightarrow> (Some E0308, with_fs f s)
                   | (True, f) \<Rightarrow> web_each e copyMode destDir ids (emit (ReindexCopy src dest) (with_fs f s)))
             else (case move_to i src dest True s of
                     None \<Rightarrow> (Some E0320, s)
                   | Some s1 \<Rightarrow> web_each e copyMode destDir ids s1))"

definition webMoveCopy :: "spc_env \<Rightarrow> string \<Rightarrow> string list \<Rightarrow> bool \<Rightarrow> spc \<Rightarrow> spc_error option \<times> spc" where
  "webMoveCopy e goDirectoryID idList copyMode s =
     (case dirByID goDirectoryID s of
        None \<Rightarrow> (Some E0320, s)
      | Some destDir \<Rightarrow> (case web_each e copyMode destDir idList s of
            (Some err, s') \<Rightarrow> (Some err, s')
          | (None, s') \<Rightarrow> (None, emit NotifyFile s')))"

definition WebRename :: "string \<Rightarrow> string \<Rightarrow> spc \<Rightarrow> spc_error option \<times> spc" where
  "WebRename rawID newName s =
     (case resolveSource rawID s of
        None \<Rightarrow> (Some E0320, s)
      | Some (i, src) \<Rightarrow>
          let dest = JoinAll [Dir src, Base newName]
          in if dest = ''/'' \<or> exists_path dest (spFs s) then (Some E0322, s)
             else case move_to i src dest False s of
                    None \<Rightarrow> (Some E0320, s)
                  | Some s1 \<Rightarrow> (None, emit NotifyFile s1))"

definition web_delete_one :: "spc_env \<Rightarrow> string \<Rightarrow> spc \<Rightarrow> spc" where
  "web_delete_one e rawID s =
     (case resolveSource rawID s of
        None \<Rightarrow> s
      | Some (_, src) \<Rightarrow>
          (case EntryFor e src s of
             (None, s1) \<Rightarrow> s1
           | (Some x, s1) \<Rightarrow>
               let f = snd (recycle e (spRoot s) (enPath x) src (spFs s1))
               in with_fs (pruneEmptyParents (spRoot s) (Dir src) f) (emit (Deindex src) (with_fs f s1))))"

definition WebDelete :: "spc_env \<Rightarrow> string list \<Rightarrow> spc \<Rightarrow> spc" where
  "WebDelete e idList s = emit NotifyFile (fold (web_delete_one e) idList s)"

definition recycleBase :: "string \<Rightarrow> string" where
  "recycleBase base = JoinAll [base, ''.recycle'']"

definition RecycleList :: "spc_env \<Rightarrow> spc \<Rightarrow> (entry list option \<times> int) \<times> spc" where
  "RecycleList e s =
     (let (es, s') = entries_for e (sort_key segments (filter (\<lambda>p. below p (recycleBase (spRoot s))) (map fst (fsFiles (spFs s))))) s
      in (writeWebList (sortEntries es) \<lparr>rqCurrentPage = 0, rqPage = 0, rqPageSize = 0, rqLimit = 0\<rparr>, s'))"

definition recyclePathByID :: "string \<Rightarrow> spc \<Rightarrow> string option" where
  "recyclePathByID rawID s =
     (case ParseInt rawID of
        None \<Rightarrow> None
      | Some i \<Rightarrow>
          (case PathFor i (spReg s) of
             None \<Rightarrow> None
           | Some p \<Rightarrow>
               if HasPrefix (join_with ''/'' (relNames (recycleBase (spRoot s)) p)) ''..'' then None
               else if exists_path p (spFs s) then Some p else None))"

definition restoreDest :: "string \<Rightarrow> string \<Rightarrow> string" where
  "restoreDest base src =
     (let parts = relNames (recycleBase base) src
      in JoinAll [base, join_with ''/'' (if length parts > 1 then tl parts else parts)])"

definition revert_one :: "string \<Rightarrow> spc \<Rightarrow> spc" where
  "revert_one rawID s =
     (case recyclePathByID rawID s of
        None \<Rightarrow> s
      | Some src \<Rightarrow>
          let dest = autorenameAbs (restoreDest (spRoot s) src) (spFs s);
              f = (case MkdirAll (Dir dest) (spFs s) of None \<Rightarrow> spFs s | Some g \<Rightarrow> g)
          in case (if dest = [] then None else Rename src dest f) of
               None \<Rightarrow> with_fs f s
             | Some g \<Rightarrow>
                 let s1 = with_fs (pruneEmptyParents (spRoot s) (Dir src) g) s
                 in (case ParseInt rawID of
                       None \<Rightarrow> s1
                     | Some i \<Rightarrow> (case UpdatePath i dest (spReg s) of None \<Rightarrow> s1 | Some r \<Rightarrow> with_reg r s1)))"

definition idsFromRequest :: "string list \<Rightarrow> string \<Rightarrow> string list" where
  "idsFromRequest idList i = (if idList \<noteq> [] then idList else if i \<noteq> [] then [i] else [])"

definition RecycleRevert :: "string list \<Rightarrow> string \<Rightarrow> spc \<Rightarrow> spc" where
  "RecycleRevert idList i s = emit NotifyFile (fold revert_one (idsFromRequest idList i) s)"

definition recycle_delete_one :: "string \<Rightarrow> spc \<Rightarrow> spc" where
  "recycle_delete_one rawID s =
     (case recyclePathByID rawID s of
        None \<Rightarrow> s
      | Some src \<Rightarrow> with_fs (pruneEmptyParents (spRoot s) (Dir src) (RemoveAll src (spFs s))) s)"

definition RecycleDelete :: "string list \<Rightarrow> string \<Rightarrow> spc \<Rightarrow> spc" where
  "RecycleDelete idList i s = fold recycle_delete_one (idsFromRequest idList i) s"

definition RecycleClear :: "spc \<Rightarrow> spc" where
  "RecycleClear s = with_fs (RemoveAll (recycleBase (spRoot s)) (spFs s)) s"

end
