(* ===== verification/Spc_Files_Laws.thy ===== *)
theory Spc_Files_Laws
  imports Spc_Files
begin

text \<open>
  What the file service guarantees: its invariant (well-formed file system and id table, every registered path
  under the storage root) is kept by every request, nothing outside the storage root changes, listings are
  exact, ids stay with their files through moves, and a deleted file can be restored.
\<close>

section \<open>Relative names and destinations\<close>

lemma filter_names: "list_all plain_name ns \<Longrightarrow> filter (\<lambda>n. n \<noteq> []) ([] # ns) = ns"
  by (auto simp: list_all_iff plain_name_def filter_id_conv)

lemma names_clean: "clean_path p \<Longrightarrow> segments p = [] # ns \<Longrightarrow> filter (\<lambda>n. n \<noteq> []) (segments (Clean p)) = ns \<and> list_all plain_name ns"
  using clean_pathD(4) filter_names by (auto simp: clean_path_def)

lemma relNames_inside:
  assumes r: "clean_path r" and p: "clean_path p" "segments p = segments r @ zs"
  shows "relNames r p = zs"
proof -
  obtain rs where rs: "segments r = [] # rs" "list_all plain_name rs" using r clean_path_segments by blast
  have "filter (\<lambda>n. n \<noteq> []) (segments (Clean r)) = rs" using names_clean [OF r rs(1)] by simp
  moreover have "filter (\<lambda>n. n \<noteq> []) (segments (Clean p)) = rs @ zs" using names_clean [OF p(1), of "rs @ zs"] p(2) rs(1) by simp
  ultimately show ?thesis unfolding relNames_def Let_def by (simp add: common_len_append)
qed

lemma relNames_Clean: "clean_path (Clean b) \<Longrightarrow> relNames b p = relNames (Clean b) p"
  using clean_pathD(4) by (simp add: relNames_def)

lemma clean_split:
  assumes "clean_path p"
  obtains ms m where "p = abs_path (ms @ [m])" "list_all plain_name (ms @ [m])" "segments p = [] # ms @ [m]" "Dir p = abs_path ms"
proof -
  obtain ns where ns: "ns \<noteq> []" "list_all plain_name ns" "p = abs_path ns" using assms clean_path_abs by blast
  then obtain ms m where m: "ns = ms @ [m]" by (cases ns rule: rev_cases) auto
  have "segments p = [] # ms @ [m]" using segments_abs_path [OF ns(2,1)] ns(3) m by simp
  then show ?thesis using that [of ms m] ns m Dir_abs_path [of ms m] by simp
qed

lemma Dir_clean_inside:
  assumes "clean_path p" "segments p = segments r @ zs @ [z]" "clean_path r"
  shows "clean_path (Dir p)" "segments (Dir p) = segments r @ zs"
proof -
  obtain ms m where m: "p = abs_path (ms @ [m])" "list_all plain_name (ms @ [m])" "segments p = [] # ms @ [m]" "Dir p = abs_path ms"
    using assms(1) by (rule clean_split)
  obtain rs where rs: "segments r = [] # rs" "rs \<noteq> []" using assms(3) clean_path_segments by blast
  have ms: "ms = rs @ zs" using m(3) assms(2) rs(1) by simp
  then have "segments (Dir p) = [] # ms" using segments_abs_path [of ms] m(2,4) rs(2) by simp
  then show "segments (Dir p) = segments r @ zs" using ms rs by simp
  show "clean_path (Dir p)" unfolding clean_path_abs using m(2,4) ms rs(2) by (intro exI [of _ ms]) simp
qed

lemma inside_cases:
  assumes "inside p r" "p \<noteq> r"
  obtains zs z where "segments p = segments r @ zs @ [z]"
proof -
  obtain ys where ys: "segments p = segments r @ ys" using assms(1) by (auto simp: inside_iff)
  then have "ys \<noteq> []" using assms(2) segments_inj [of p r] by auto
  then obtain zs z where "ys = zs @ [z]" by (cases ys rule: rev_cases) auto
  then show ?thesis using that ys by simp
qed

lemma Dir_inside: "clean_path r \<Longrightarrow> clean_path p \<Longrightarrow> inside p r \<Longrightarrow> p \<noteq> r \<Longrightarrow> clean_path (Dir p) \<and> inside (Dir p) r"
  by (erule inside_cases, assumption) (auto simp: inside_iff dest: Dir_clean_inside)

lemma plain_numbered:
  assumes "plain_name (stem @ ext)" "CHR ''/'' \<notin> set ext"
  shows "plain_name (stem @ '' ('' @ FormatInt n @ '')'' @ ext)"
proof -
  have "CHR ''/'' \<notin> set (FormatInt n)" by (rule number_no_slash [OF FormatInt_chars])
  moreover have "CHR ''('' \<in> set (stem @ '' ('' @ FormatInt n @ '')'' @ ext)" by simp
  then have "stem @ '' ('' @ FormatInt n @ '')'' @ ext \<notin> {[], ''.'', ''..''}" by (auto simp del: append.append_Cons append_Cons)
  ultimately show ?thesis using assms by (auto simp: plain_name_def)
qed

lemma Ext_name:
  assumes "CHR ''/'' \<notin> set m"
  shows "\<exists>stem. m = stem @ Ext (d @ ''/'' @ m)"
proof -
  define suf where "suf = takeWhile (\<lambda>c. c \<noteq> CHR ''.'' \<and> c \<noteq> CHR ''/'') (rev m)"
  show ?thesis
  proof (cases "CHR ''.'' \<in> set m")
    case True
    have nt: "\<exists>c \<in> set (rev m). \<not> (c \<noteq> CHR ''.'' \<and> c \<noteq> CHR ''/'')" using True by auto
    then have tw: "takeWhile (\<lambda>c. c \<noteq> CHR ''.'' \<and> c \<noteq> CHR ''/'') (rev m @ CHR ''/'' # rev d) = suf"
      unfolding suf_def by (auto intro: takeWhile_append1)
    define rest where "rest = dropWhile (\<lambda>c. c \<noteq> CHR ''.'' \<and> c \<noteq> CHR ''/'') (rev m)"
    have m: "rev m = suf @ rest" by (simp add: suf_def rest_def)
    have "rest \<noteq> []" using nt by (auto simp: rest_def dropWhile_eq_Nil_conv)
    then obtain c r where r: "rest = c # r" by (cases rest) auto
    have "\<not> (c \<noteq> CHR ''.'' \<and> c \<noteq> CHR ''/'')" using r unfolding rest_def dropWhile_eq_Cons_conv by blast
    moreover have "c \<in> set (rev m)" unfolding m r by simp
    then have "c \<in> set m" by simp
    ultimately have c: "c = CHR ''.''" using assms by auto
    have rv: "rev (d @ ''/'' @ m) = rev m @ CHR ''/'' # rev d" by simp
    have dr: "drop (length suf) (rev m @ CHR ''/'' # rev d) = CHR ''.'' # r @ CHR ''/'' # rev d" unfolding m r c by simp
    have "Ext (d @ ''/'' @ m) = CHR ''.'' # rev suf"
      unfolding Ext_def Let_def rv tw dr by simp
    moreover have "rev (rev m) = rev r @ CHR ''.'' # rev suf" unfolding m r c by simp
    then have "m = rev r @ CHR ''.'' # rev suf" unfolding rev_rev_ident .
    ultimately show ?thesis by (intro exI [of _ "rev r"]) (simp only:)
  next
    case False
    have all: "\<forall>c \<in> set (rev m). c \<noteq> CHR ''.'' \<and> c \<noteq> CHR ''/''" using False assms by auto
    have "takeWhile (\<lambda>c. c \<noteq> CHR ''.'' \<and> c \<noteq> CHR ''/'') (rev m @ CHR ''/'' # rev d) = rev m"
      using all by (subst takeWhile_append2) auto
    then have "Ext (d @ ''/'' @ m) = []" unfolding Ext_def Let_def by simp
    then show ?thesis by simp
  qed
qed

lemma Clean_join:
  assumes "HasPrefix a ''/''" "list_all plain_name rs" "Clean a = abs_path rs"
  shows "Clean (a @ ''/'' @ x) = abs_path (clean_segs True (rev rs) (segments x))"
proof -
  obtain rs' where r: "list_all plain_name rs'" "Clean a = abs_path rs'" "rs' = clean_segs True [] (segments a)"
    using Clean_rooted [OF assms(1)] .
  have eq: "rs' = rs" using abs_path_inj [OF r(1) assms(2)] r(2) assms(3) by simp
  have "HasPrefix (a @ ''/'' @ x) ''/''" using assms(1) by (cases a) (auto simp: HasPrefix_def)
  then obtain xs where xs: "Clean (a @ ''/'' @ x) = abs_path xs" "xs = clean_segs True [] (segments (a @ ''/'' @ x))"
    using Clean_rooted by blast
  have "\<forall>s \<in> set (segments a). CHR ''/'' \<notin> set s" using split_on_sep by fast
  then have "xs = clean_segs True (rev rs') (segments x)"
    using xs(2) r(3) clean_segs_append [of "[]" "segments a" "segments x"] segments_append by simp
  then show ?thesis using xs(1) eq by simp
qed

lemma JoinAll_two: "HasPrefix a ''/'' \<Longrightarrow> x \<noteq> [] \<Longrightarrow> JoinAll [a, x] = Clean (a @ ''/'' @ x)"
  by (cases a) (simp_all add: JoinAll_def HasPrefix_def)

lemma JoinAll_plain:
  assumes "HasPrefix a ''/''" "list_all plain_name rs" "Clean a = abs_path rs" "plain_name x"
  shows "JoinAll [a, x] = abs_path (rs @ [x])"
  using JoinAll_two [OF assms(1)] Clean_join [OF assms(1-3), of x] assms(4) by (simp add: plain_name_def split_on_plain)

lemma SafeResolve_inside:
  assumes "HasPrefix b ''/''" "clean_path (Clean b)" "SafeResolve b p = Some d"
  shows "clean_path d" "inside d (Clean b)"
proof -
  obtain rs ns where r: "list_all plain_name rs" "list_all plain_name ns" "Clean b = abs_path rs" "d = abs_path (rs @ ns)"
    using SafeResolve_eq [OF assms(1), of p] assms(3) by (auto split: if_splits)
  have ne: "rs \<noteq> []" using clean_pathD(2) [OF assms(2)] r(3) by (auto simp: abs_path_def)
  then show "clean_path d" using r unfolding clean_path_abs by (intro exI [of _ "rs @ ns"]) simp
  show "inside d (Clean b)" unfolding inside_iff r(3,4)
    using segments_abs_path [of rs] segments_abs_path [of "rs @ ns"] r(1,2) ne by simp
qed

lemma clean_last:
  assumes "clean_path p" "segments p = segments d @ [m]"
  shows "p = d @ ''/'' @ m" "plain_name m"
proof -
  have "p = join_with ''/'' (segments d @ [m])" using assms(2) join_segments [of p] by simp
  then show "p = d @ ''/'' @ m" using join_with_append [of "segments d" "[m]" "''/''"] join_segments [of d] by simp
  obtain ns where ns: "ns \<noteq> []" "list_all plain_name ns" "segments p = [] # ns" using assms(1) clean_path_segments by blast
  have "m = last ns" using assms(2) ns(1,3) by (metis last.simps last_snoc)
  then show "plain_name m" using ns(1,2) by (simp add: list_all_iff)
qed

lemma numbered_inside:
  assumes r: "clean_path r" and d: "clean_path dest" "inside dest r" "dest \<noteq> r" and c: "c \<in> set (numbered dest)"
  shows "clean_path c \<and> inside c r \<and> c \<noteq> r"
proof -
  obtain zs m where m: "segments dest = segments r @ zs @ [m]" by (rule inside_cases [OF d(2,3)])
  have D: "clean_path (Dir dest)" "segments (Dir dest) = segments r @ zs" using Dir_clean_inside [OF d(1) m r] by auto
  have sm: "segments dest = segments (Dir dest) @ [m]" using m D(2) by simp
  have de: "dest = Dir dest @ ''/'' @ m" and pm: "plain_name m" using clean_last [OF d(1) sm] by auto
  have nm: "CHR ''/'' \<notin> set m" using pm by (simp add: plain_name_def)
  define x where "x = Ext dest"
  obtain stem where st: "m = stem @ x" using Ext_name [OF nm, of "Dir dest"] de unfolding x_def by metis
  have nx: "CHR ''/'' \<notin> set x" using nm unfolding st by simp
  have "TrimSuffix dest x = Dir dest @ ''/'' @ stem"
  proof -
    have "dest = (Dir dest @ ''/'' @ stem) @ x" using de st by simp
    then show ?thesis unfolding TrimSuffix_def by (metis HasSuffix_append add_diff_cancel_right' append_eq_conv_conj length_append)
  qed
  then obtain k where k: "c = Dir dest @ ''/'' @ (stem @ '' ('' @ FormatInt k @ '')'' @ x)"
    using c unfolding numbered_def Let_def x_def [symmetric] by auto
  have pl: "plain_name (stem @ '' ('' @ FormatInt k @ '')'' @ x)" using plain_numbered pm nx unfolding st by blast
  have "segments c = segments (Dir dest) @ [stem @ '' ('' @ FormatInt k @ '')'' @ x]"
    unfolding k segments_append using pl by (simp add: plain_name_def split_on_plain del: append.append_Cons append_Cons)
  then have sc: "segments c = segments (Dir dest) @ [stem @ '' ('' @ FormatInt k @ '')'' @ x]" .
  have "clean_path c" using clean_path_append [OF D(1) sc] pl by simp
  moreover have "segments c = segments r @ zs @ [stem @ '' ('' @ FormatInt k @ '')'' @ x]" using sc D(2) by simp
  then have "inside c r" "c \<noteq> r" unfolding inside_iff by (blast, metis append_is_Nil_conv append_self_conv not_Cons_self2 snoc_eq_iff_butlast)
  ultimately show ?thesis by blast
qed

lemma targetPath_inside:
  assumes b: "HasPrefix b ''/''" "clean_path (Clean b)" and t: "targetPath b toPath autorename f = Some dest" and ex: "is_dir (Clean b) f"
    and no: "\<not> (autorename \<and> SafeResolve b toPath = Some (Clean b))"
  shows "clean_path dest \<and> inside dest (Clean b) \<and> dest \<noteq> Clean b \<and> not_exist dest f"
proof -
  obtain d where d: "SafeResolve b toPath = Some d" using t by (auto simp: targetPath_def split: option.splits)
  note di = SafeResolve_inside [OF b d]
  show ?thesis
  proof (cases "not_exist d f")
    case True
    then have "dest = d" "d \<noteq> Clean b" using t d ex by (auto simp: targetPath_def not_exist_def exists_path_def)
    then show ?thesis using di True by blast
  next
    case False
    then have a: "autorename" "find (\<lambda>c. not_exist c f) (numbered d) = Some dest" using t d by (auto simp: targetPath_def split: if_splits)
    then have "d \<noteq> Clean b" using no d by auto
    moreover have "dest \<in> set (numbered d)" "not_exist dest f" using a(2) by (auto simp: find_Some_iff in_set_conv_nth)
    ultimately show ?thesis using numbered_inside [OF b(2) di] by blast
  qed
qed

lemma autorename_inside:
  assumes r: "clean_path r" and d: "clean_path dest" "inside dest r" "dest \<noteq> r"
  shows "autorenameAbs dest f = [] \<or>
    (clean_path (autorenameAbs dest f) \<and> inside (autorenameAbs dest f) r \<and> autorenameAbs dest f \<noteq> r \<and> not_exist (autorenameAbs dest f) f)"
proof (cases "not_exist dest f")
  case False
  show ?thesis
  proof (cases "find (\<lambda>c. not_exist c f) (numbered dest)")
    case (Some c)
    then have "c \<in> set (numbered dest)" "not_exist c f" by (auto simp: find_Some_iff in_set_conv_nth)
    then show ?thesis using numbered_inside [OF r d] False Some by (simp add: autorenameAbs_def)
  qed (simp add: autorenameAbs_def False)
qed (use d in \<open>simp add: autorenameAbs_def\<close>)

section \<open>The invariant\<close>

text \<open>The file system is well-formed with the storage root in it, ids and paths are unique, and every registered
  path lies under the storage root.\<close>

definition spc_ok :: "spc \<Rightarrow> bool" where
  "spc_ok s \<longleftrightarrow> HasPrefix (spRoot s) ''/'' \<and> good_fs (Clean (spRoot s)) (spFs s) \<and> rg_ok (spReg s) \<and>
     list_all (\<lambda>(_, row). clean_path (idPath row) \<and> inside (idPath row) (Clean (spRoot s))) (rgRows (spReg s))"

definition keeps :: "spc \<Rightarrow> spc \<Rightarrow> bool" where
  "keeps s t \<longleftrightarrow> spc_ok t \<and> spRoot t = spRoot s \<and> sgUploads (spSt t) = sgUploads (spSt s) \<and>
     same_outside (Clean (spRoot s)) (spFs s) (spFs t)"

lemma keeps_refl: "spc_ok s \<Longrightarrow> keeps s s"
  by (simp add: keeps_def same_outside_def)

lemma keeps_trans: "keeps s t \<Longrightarrow> keeps t u \<Longrightarrow> keeps s u"
  by (auto simp: keeps_def same_outside_def)

lemma keeps_ok: "keeps s t \<Longrightarrow> spc_ok t"
  by (simp add: keeps_def)

lemma spc_ok_root: "spc_ok s \<Longrightarrow> clean_path (Clean (spRoot s))" "spc_ok s \<Longrightarrow> is_dir (Clean (spRoot s)) (spFs s)"
  using good_fs_clean by (auto simp: spc_ok_def good_fs_def)

lemma spc_ok_path: "spc_ok s \<Longrightarrow> PathFor i (spReg s) = Some p \<Longrightarrow> clean_path p \<and> inside p (Clean (spRoot s))"
  using map_of_SomeD by (fastforce simp: spc_ok_def PathFor_def list_all_iff)

lemma spc_ok_rows: "list_all (\<lambda>(_, row). P (idPath row)) (rgRows r) \<longleftrightarrow> (\<forall>(i, row) \<in> set (rgRows r). P (idPath row))"
  by (auto simp: list_all_iff)

lemma resolveSource_path:
  "spc_ok s \<Longrightarrow> resolveSource rawID s = Some (i, p) \<Longrightarrow>
   clean_path p \<and> inside p (Clean (spRoot s)) \<and> exists_path p (spFs s) \<and> PathFor i (spReg s) = Some p"
  using spc_ok_path by (auto simp: resolveSource_def split: option.splits if_splits)

lemma with_fs_keeps: "spc_ok s \<Longrightarrow> stays (Clean (spRoot s)) (spFs s) f \<Longrightarrow> keeps s (with_fs f s)"
  by (simp add: keeps_def spc_ok_def with_fs_def stays_def)

lemma emit_keeps: "spc_ok s \<Longrightarrow> keeps s (emit h s)"
  by (simp add: keeps_def spc_ok_def emit_def same_outside_def)

lemma with_fs_simps [simp]: "spFs (with_fs f s) = f" "spRoot (with_fs f s) = spRoot s" "spReg (with_fs f s) = spReg s"
  "spFs (with_reg r s) = spFs s" "spRoot (with_reg r s) = spRoot s" "spReg (with_reg r s) = r"
  "spFs (emit h s) = spFs s" "spRoot (emit h s) = spRoot s" "spReg (emit h s) = spReg s"
  by (simp_all add: with_fs_def with_reg_def emit_def)

lemma with_reg_keeps:
  assumes "spc_ok s" "rg_ok r" "\<And>i p. PathFor i r = Some p \<Longrightarrow> clean_path p \<and> inside p (Clean (spRoot s))"
  shows "keeps s (with_reg r s)"
proof -
  have "list_all (\<lambda>(_, row). clean_path (idPath row) \<and> inside (idPath row) (Clean (spRoot s))) (rgRows r)"
    using assms(3) rg_ok_row [OF assms(2)] by (force simp: list_all_iff PathFor_def)
  then show ?thesis using assms(1,2) by (simp add: keeps_def spc_ok_def with_reg_def same_outside_def)
qed

lemma IDFor_paths:
  assumes "clean_path p" "PathFor i (snd (IDFor p r)) = Some q"
  shows "q = p \<or> PathFor i r = Some q"
  using assms clean_pathD(4) [OF assms(1)]
  by (auto simp: IDFor_def Let_def PathFor_def map_add_def split: option.splits prod.splits if_splits)

lemma EntryFor_reg:
  assumes "spc_ok s" "inside p (Clean (spRoot s))" "exists_path p (spFs s)"
  obtains r x where "EntryFor e p s = (Some x, with_reg r s)" "rg_ok r" "\<And>i. PathFor i r = PathFor i (snd (IDFor p (spReg s)))"
    "enID x = fst (IDFor p (spReg s))" "enPath x = displayPath (spRoot s) p" "enFolder x = is_dir p (spFs s)"
proof -
  have c: "clean_path p" using assms by (auto simp: spc_ok_def good_fs_def fs_clean_iff)
  have ok: "rg_ok (spReg s)" using assms(1) by (simp add: spc_ok_def)
  have rt: "HasPrefix (Clean p) ''/''" using clean_pathD(1,4) [OF c] by simp
  obtain i r where ir: "IDFor p (spReg s) = (i, r)" by (cases "IDFor p (spReg s)")
  have okr: "rg_ok r" using IDFor_rg_ok [OF ok rt] ir by simp
  show ?thesis
  proof (cases "map_of (fsFiles (spFs s)) p")
    case None
    then have "is_dir p (spFs s)" using assms(3) by (simp add: exists_path_def is_file_def)
    then show ?thesis using that None assms(3) okr by (simp add: EntryFor_def ir Let_def)
  next
    case (Some nd)
    obtain h r' where m: "MD5For (envMD5 e) (spFs s) p r = (h, r')" by (cases "MD5For (envMD5 e) (spFs s) p r")
    have "PathFor i r = Some (Clean p)" using IDFor_PathFor [OF ok, of p] ir by simp
    then have st: "IDFor p r = (i, r)" by (rule IDFor_stable [OF okr])
    have nd: "\<not> is_dir p (spFs s)"
      using Some assms(1) unfolding spc_ok_def good_fs_def fs_ok_def by (metis is_file_def option.distinct(1))
    have r': "r' = snd (MD5For (envMD5 e) (spFs s) p r)" using m by simp
    have "rg_ok r'" "PathFor j r' = PathFor j r" for j
      unfolding r' using MD5For_paths [OF okr rt] st by simp_all
    then show ?thesis using that Some assms(3) nd by (simp add: EntryFor_def ir Let_def m)
  qed
qed

lemma EntryFor_keeps:
  assumes "spc_ok s" "inside p (Clean (spRoot s))"
  shows "keeps s (snd (EntryFor e p s)) \<and> spFs (snd (EntryFor e p s)) = spFs s \<and> spSt (snd (EntryFor e p s)) = spSt s"
proof (cases "exists_path p (spFs s)")
  case True
  then have c: "clean_path p" using assms by (auto simp: spc_ok_def good_fs_def fs_clean_iff)
  obtain r x where r: "EntryFor e p s = (Some x, with_reg r s)" "rg_ok r" "\<And>i. PathFor i r = PathFor i (snd (IDFor p (spReg s)))"
    by (rule EntryFor_reg [OF assms True, of e]) blast
  have "keeps s (with_reg r s)"
    by (rule with_reg_keeps [OF assms(1) r(2)]) (use r(3) IDFor_paths [OF c] spc_ok_path [OF assms(1)] c assms(2) in metis)
  then show ?thesis using r(1) by (simp add: with_reg_def)
qed (simp add: EntryFor_def keeps_refl assms)

lemma entries_for_keeps:
  assumes "spc_ok s" "\<forall>p \<in> set ps. inside p (Clean (spRoot s))"
  shows "keeps s (snd (entries_for e ps s)) \<and> spFs (snd (entries_for e ps s)) = spFs s"
  using assms
proof (induction ps arbitrary: s)
  case (Cons p ps)
  have k: "keeps s (snd (EntryFor e p s))" "spFs (snd (EntryFor e p s)) = spFs s" using EntryFor_keeps [of s p e] Cons.prems by auto
  have "keeps (snd (EntryFor e p s)) (snd (entries_for e ps (snd (EntryFor e p s)))) \<and>
    spFs (snd (entries_for e ps (snd (EntryFor e p s)))) = spFs (snd (EntryFor e p s))"
    by (rule Cons.IH) (use k Cons.prems in \<open>auto simp: keeps_def\<close>)
  then show ?case using k keeps_trans by (auto simp: case_prod_beta Let_def)
qed (simp add: keeps_refl)

lemma prune_stays:
  assumes "good_fs (Clean b) f" "clean_path dir" "inside dir (Clean b)"
  shows "stays (Clean b) f (prune k b dir f)"
  using assms
proof (induction k arbitrary: dir f)
  case (Suc k)
  have cb: "clean_path (Clean b)" by (rule good_fs_clean [OF Suc.prems(1)])
  show ?case
  proof (cases "length (relNames b dir) < 3")
    case False
    obtain zs where zs: "segments dir = segments (Clean b) @ zs" using Suc.prems(3) by (auto simp: inside_iff)
    have "relNames b dir = zs" using relNames_inside [OF cb Suc.prems(2) zs] relNames_Clean [OF cb] by simp
    then have ne: "dir \<noteq> Clean b" using False zs by auto
    show ?thesis
    proof (cases "Remove dir f")
      case (Some g)
      have s: "stays (Clean b) f g" by (rule Remove_stays [OF Suc.prems(1) Some Suc.prems(3) ne])
      have D: "clean_path (Dir dir)" "inside (Dir dir) (Clean b)" using Dir_inside [OF cb Suc.prems(2,3) ne] by auto
      show ?thesis using False Some stays_trans [OF s Suc.IH [OF stays_good [OF s] D]] by simp
    qed (use False Suc.prems stays_refl in simp)
  qed (use Suc.prems stays_refl in simp)
qed (simp add: stays_refl)

lemma common_len_take: "common_len (xs @ ys) (xs @ zs) = length xs + common_len ys zs"
  by (induction xs) auto

lemma pruneEmptyParents_stays:
  assumes good: "good_fs (Clean b) f" and src: "clean_path src" "inside src (Clean b)"
  shows "stays (Clean b) f (pruneEmptyParents b (Dir src) f)"
proof (cases "src = Clean b")
  case False
  have "clean_path (Dir src)" "inside (Dir src) (Clean b)" using Dir_inside [OF good_fs_clean [OF good] src False] by auto
  then show ?thesis unfolding pruneEmptyParents_def by (rule prune_stays [OF good])
next
  case True
  have cb: "clean_path (Clean b)" by (rule good_fs_clean [OF good])
  obtain ms m where m: "Clean b = abs_path (ms @ [m])" "list_all plain_name (ms @ [m])" "segments (Clean b) = [] # ms @ [m]" "Dir (Clean b) = abs_path ms"
    by (rule clean_split [OF cb])
  have n: "filter (\<lambda>n. n \<noteq> []) (segments (Clean b)) = ms @ [m]" using filter_names [OF m(2)] m(3) by simp
  have "filter (\<lambda>n. n \<noteq> []) (segments (Clean (Dir (Clean b)))) = ms"
  proof (cases "ms = []")
    case True
    then have "Clean (Dir (Clean b)) = ''/''" using m(4) Clean_abs_path [of "[]"] by (simp add: abs_path_def)
    then show ?thesis using True by simp
  next
    case False
    have "Clean (Dir (Clean b)) = abs_path ms" using m(2,4) Clean_abs_path [of ms] by simp
    moreover have "segments (abs_path ms) = [] # ms" using segments_abs_path [of ms] m(2) False by simp
    ultimately show ?thesis using filter_names [of ms] m(2) by simp
  qed
  then have "relNames b (Dir (Clean b)) = [''..'']"
    unfolding relNames_def Let_def n using common_len_append [of ms "[m]"] by simp
  then have "prune k b (Dir src) f = f" for k using True by (cases k) simp_all
  then show ?thesis using stays_refl [OF good] by (simp add: pruneEmptyParents_def)
qed

section \<open>Every request keeps the invariant\<close>

lemma JoinAll_inside:
  assumes a: "HasPrefix a ''/''" "clean_path (Clean a)" "inside (Clean a) r" and x: "plain_name x"
  shows "clean_path (JoinAll [a, x]) \<and> inside (JoinAll [a, x]) r \<and> JoinAll [a, x] \<noteq> r \<and>
    segments (JoinAll [a, x]) = segments (Clean a) @ [x]"
proof -
  obtain rs where rs: "rs \<noteq> []" "list_all plain_name rs" "Clean a = abs_path rs" using a(2) clean_path_abs by blast
  have j: "JoinAll [a, x] = abs_path (rs @ [x])" by (rule JoinAll_plain [OF a(1) rs(2,3) x])
  have s: "segments (JoinAll [a, x]) = segments (Clean a) @ [x]"
    unfolding j rs(3) using segments_abs_path [of "rs @ [x]"] segments_abs_path [of rs] rs(1,2) x by simp
  have c: "clean_path (JoinAll [a, x])" using clean_path_append [OF a(2) s] x by simp
  have b: "below (JoinAll [a, x]) (Clean a)" using s by (auto simp: below_iff)
  have bl: "below (JoinAll [a, x]) r" by (rule below_inside_trans(1) [OF b a(3)])
  have ne: "JoinAll [a, x] \<noteq> r" using bl below_irrefl [of r] by metis
  have "inside (JoinAll [a, x]) r" using bl by (simp add: inside_def)
  then show ?thesis using c s ne by blast
qed

lemma Base_clean:
  assumes "clean_path p" "segments p = segments d @ [m]"
  shows "Base p = m"
proof -
  have p: "p = d @ ''/'' @ m" and m: "plain_name m" using clean_last [OF assms] by auto
  have ns: "CHR ''/'' \<notin> set m" "m \<noteq> []" using m by (auto simp: plain_name_def)
  obtain c cs where c: "rev m = c # cs" using ns(2) by (cases "rev m") auto
  have "c \<noteq> CHR ''/''" using ns(1) c by (metis list.set_intros(1) set_rev)
  then have d1: "dropWhile (\<lambda>c. c = CHR ''/'') (rev p) = rev p" by (simp add: p c)
  have t: "takeWhile (\<lambda>c. c \<noteq> CHR ''/'') (rev m @ CHR ''/'' # rev d) = rev m"
    using ns(1) by (subst takeWhile_append2) auto
  have "rev p = rev m @ CHR ''/'' # rev d" by (simp add: p)
  moreover have "p \<noteq> []" using p by simp
  ultimately show ?thesis unfolding Base_def Let_def d1 rev_rev_ident using t ns(2) by simp
qed

lemma clean_Base: "clean_path p \<Longrightarrow> plain_name (Base p)"
proof -
  assume p: "clean_path p"
  obtain ms m where m: "p = abs_path (ms @ [m])" "list_all plain_name (ms @ [m])" "segments p = [] # ms @ [m]" "Dir p = abs_path ms"
    by (rule clean_split [OF p])
  define d where "d = join_with ''/'' ([] # ms)"
  have "segments d = [] # ms" unfolding d_def by (rule split_join) (use m(2) in \<open>auto simp: list_all_iff plain_name_def\<close>)
  then have "segments p = segments d @ [m]" using m(3) by simp
  then show "plain_name (Base p)" using Base_clean [OF p] clean_last(2) [OF p] by metis
qed

lemma UpdatePath_keeps:
  assumes s: "spc_ok s" and u: "UpdatePath i dest (spReg s) = Some r" and d: "clean_path dest" "inside dest (Clean (spRoot s))"
  shows "keeps s (with_reg r s)"
proof (rule with_reg_keeps [OF s])
  show "rg_ok r" using UpdatePath_rg_ok [OF _ u] s clean_pathD [OF d(1)] by (simp add: spc_ok_def)
  show "clean_path p \<and> inside p (Clean (spRoot s))" if "PathFor j r = Some p" for j p
  proof (cases "j = i")
    case True
    then have "p = Clean dest" using UpdatePath_PathFor [OF u, of j] that by (cases "PathFor i (spReg s)") auto
    then show ?thesis using d clean_pathD(4) [OF d(1)] by simp
  next
    case False
    then show ?thesis using UpdatePath_PathFor [OF u, of j] that spc_ok_path [OF s] by simp
  qed
qed

lemma move_to_keeps:
  assumes s: "spc_ok s" and src: "clean_path src" "inside src (Clean (spRoot s))"
    and dest: "dest = [] \<or> (clean_path dest \<and> inside dest (Clean (spRoot s)))" and m: "move_to i src dest pr s = Some t"
  shows "keeps s t"
proof -
  obtain f where f: "dest \<noteq> []" "Rename src dest (spFs s) = Some f" using m by (auto simp: move_to_def split: option.splits if_splits)
  have d: "clean_path dest" "inside dest (Clean (spRoot s))" using dest f(1) by auto
  have good: "good_fs (Clean (spRoot s)) (spFs s)" using s by (simp add: spc_ok_def)
  have st: "stays (Clean (spRoot s)) (spFs s) f" by (rule Rename_stays [OF good f(2) src(2) d])
  define s1 where "s1 = with_fs f s"
  have k1: "keeps s s1" unfolding s1_def by (rule with_fs_keeps [OF s st])
  define s2 where "s2 = (case UpdatePath i dest (spReg s) of None \<Rightarrow> s1 | Some r \<Rightarrow> with_reg r s1)"
  have k2: "keeps s s2"
  proof (cases "UpdatePath i dest (spReg s)")
    case (Some r)
    have "UpdatePath i dest (spReg s1) = Some r" using Some by (simp add: s1_def)
    moreover have "inside dest (Clean (spRoot s1))" using d(2) by (simp add: s1_def)
    ultimately have "keeps s1 (with_reg r s1)" using UpdatePath_keeps [OF keeps_ok [OF k1] _ d(1)] by blast
    then show ?thesis using k1 keeps_trans Some by (auto simp: s2_def)
  qed (use k1 in \<open>simp add: s2_def\<close>)
  define s3 where "s3 = emit (ReindexMove src dest) s2"
  have k3: "keeps s s3" unfolding s3_def by (rule keeps_trans [OF k2 emit_keeps [OF keeps_ok [OF k2]]])
  have r3: "spRoot s3 = spRoot s" using k3 by (simp add: keeps_def)
  have "keeps s3 (with_fs (pruneEmptyParents (spRoot s) (Dir src) (spFs s3)) s3)"
  proof (rule with_fs_keeps [OF keeps_ok [OF k3]])
    have "good_fs (Clean (spRoot s)) (spFs s3)" using keeps_ok [OF k3] r3 by (simp add: spc_ok_def)
    then show "stays (Clean (spRoot s3)) (spFs s3) (pruneEmptyParents (spRoot s) (Dir src) (spFs s3))"
      unfolding r3 using src by (rule pruneEmptyParents_stays)
  qed
  then have "keeps s (with_fs (pruneEmptyParents (spRoot s) (Dir src) (spFs s3)) s3)" by (rule keeps_trans [OF k3])
  moreover have "t = (if pr then with_fs (pruneEmptyParents (spRoot s) (Dir src) (spFs s3)) s3 else s3)"
    using m f unfolding move_to_def s3_def s2_def s1_def by (simp add: Let_def)
  ultimately show ?thesis using k3 by simp
qed

lemma respondEntry_keeps:
  assumes "spc_ok s" "inside dest (Clean (spRoot s))"
  shows "keeps s (snd (respondEntry e dest err s))"
proof -
  obtain x t where x: "EntryFor e dest s = (x, t)" by (cases "EntryFor e dest s")
  have k: "keeps s t" using EntryFor_keeps [OF assms, of e] x by simp
  then show ?thesis using keeps_trans [OF k emit_keeps [OF keeps_ok [OF k]]] x by (auto simp: respondEntry_def split: option.splits)
qed

lemma Move_keeps:
  assumes s: "spc_ok s" and no: "\<not> (autorename \<and> SafeResolve (spRoot s) toPath = Some (Clean (spRoot s)))"
  shows "keeps s (snd (Move e rawID toPath autorename s))"
proof (cases "resolveSource rawID s")
  case (Some a)
  obtain i src where a: "a = (i, src)" by (cases a)
  have src: "clean_path src" "inside src (Clean (spRoot s))" using resolveSource_path [OF s] Some a by auto
  show ?thesis
  proof (cases "targetPath (spRoot s) toPath autorename (spFs s)")
    case t: (Some dest)
    have b: "HasPrefix (spRoot s) ''/''" using s by (simp add: spc_ok_def)
    have d: "clean_path dest" "inside dest (Clean (spRoot s))" "dest \<noteq> Clean (spRoot s)"
      using targetPath_inside [OF b spc_ok_root(1) [OF s] t spc_ok_root(2) [OF s] no] by auto
    have D: "clean_path (Dir dest)" "inside (Dir dest) (Clean (spRoot s))" using Dir_inside [OF spc_ok_root(1) [OF s] d] by auto
    show ?thesis
    proof (cases "MkdirAll (Dir dest) (spFs s)")
      case m: (Some f)
      have "stays (Clean (spRoot s)) (spFs s) f" by (rule MkdirAll_stays [OF _ m D]) (use s in \<open>simp add: spc_ok_def\<close>)
      then have k: "keeps s (with_fs f s)" by (rule with_fs_keeps [OF s])
      show ?thesis
      proof (cases "move_to i src dest True (with_fs f s)")
        case None
        then show ?thesis using Some a t m k by (simp add: Move_def)
      next
        case v: (Some t1)
        have "keeps (with_fs f s) t1"
          by (rule move_to_keeps [OF keeps_ok [OF k] src(1) _ _ v]) (use src d in simp_all)
        then have k1: "keeps s t1" by (rule keeps_trans [OF k])
        have "keeps t1 (snd (respondEntry e dest E0320 t1))"
          by (rule respondEntry_keeps [OF keeps_ok [OF k1]]) (use k1 d in \<open>simp add: keeps_def\<close>)
        then show ?thesis using keeps_trans [OF k1] Some a t m v by (simp add: Move_def)
      qed
    qed (use Some a t keeps_refl [OF s] in \<open>simp add: Move_def\<close>)
  qed (use Some a keeps_refl [OF s] in \<open>simp add: Move_def\<close>)
qed (use keeps_refl [OF s] in \<open>simp add: Move_def\<close>)

lemma copyFile_stays:
  assumes good: "good_fs r f" and d: "dst = [] \<or> (clean_path dst \<and> inside dst r \<and> dst \<noteq> r)"
  shows "stays r f (snd (copyFile e src dst f))"
proof (cases "dst = [] \<or> \<not> exists_path src f")
  case True
  then show ?thesis using stays_refl [OF good] by (auto simp: copyFile_def)
next
  case False
  then have d': "clean_path dst" "inside dst r" "dst \<noteq> r" using d by auto
  have D: "clean_path (Dir dst)" "inside (Dir dst) r" using Dir_inside [OF good_fs_clean [OF good] d'] by auto
  show ?thesis
  proof (cases "MkdirAll (Dir dst) f")
    case None
    then show ?thesis using False stays_refl [OF good] by (auto simp: copyFile_def)
  next
    case (Some g)
    have s: "stays r f g" by (rule MkdirAll_stays [OF good Some D])
    have c: "Create dst n g = Some h \<Longrightarrow> stays r f h" for n h
      by (rule stays_trans [OF s Create_stays [OF stays_good [OF s] _ d'(1,2)]])
    show ?thesis using False Some s c by (auto simp: copyFile_def split: option.splits)
  qed
qed

lemma Copy_keeps:
  assumes s: "spc_ok s" and no: "\<not> (autorename \<and> SafeResolve (spRoot s) toPath = Some (Clean (spRoot s)))"
  shows "keeps s (snd (Copy e rawID toPath autorename s))"
proof (cases "resolveSource rawID s")
  case (Some a)
  obtain i src where a: "a = (i, src)" by (cases a)
  show ?thesis
  proof (cases "targetPath (spRoot s) toPath autorename (spFs s)")
    case t: (Some dest)
    have b: "HasPrefix (spRoot s) ''/''" using s by (simp add: spc_ok_def)
    have d: "clean_path dest" "inside dest (Clean (spRoot s))" "dest \<noteq> Clean (spRoot s)"
      using targetPath_inside [OF b spc_ok_root(1) [OF s] t spc_ok_root(2) [OF s] no] by auto
    obtain ok f where c: "copyFile e src dest (spFs s) = (ok, f)" by (cases "copyFile e src dest (spFs s)")
    have good: "good_fs (Clean (spRoot s)) (spFs s)" using s by (simp add: spc_ok_def)
    have "stays (Clean (spRoot s)) (spFs s) f" using copyFile_stays [OF good, of dest e src] c d by simp
    then have k: "keeps s (with_fs f s)" by (rule with_fs_keeps [OF s])
    have k2: "keeps s (emit (ReindexCopy src dest) (with_fs f s))" by (rule keeps_trans [OF k emit_keeps [OF keeps_ok [OF k]]])
    have "keeps (emit (ReindexCopy src dest) (with_fs f s)) (snd (respondEntry e dest E0308 (emit (ReindexCopy src dest) (with_fs f s))))"
      by (rule respondEntry_keeps [OF keeps_ok [OF k2]]) (use d in simp)
    then show ?thesis using keeps_trans [OF k2] k Some a t c by (cases ok) (simp_all add: Copy_def)
  qed (use Some a keeps_refl [OF s] in \<open>simp add: Copy_def\<close>)
qed (use keeps_refl [OF s] in \<open>simp add: Copy_def\<close>)

lemma dirByID_inside:
  assumes "spc_ok s" "dirByID rawID s = Some d"
  shows "HasPrefix d ''/''" "clean_path (Clean d)" "inside (Clean d) (Clean (spRoot s))" "is_dir (Clean d) (spFs s)"
proof -
  have "d = spRoot s \<or> (clean_path d \<and> inside d (Clean (spRoot s)) \<and> is_dir d (spFs s))"
    using assms(2) spc_ok_path [OF assms(1)] by (auto simp: dirByID_def split: if_splits option.splits)
  then show "HasPrefix d ''/''" "clean_path (Clean d)" "inside (Clean d) (Clean (spRoot s))" "is_dir (Clean d) (spFs s)"
    using assms(1) spc_ok_root [OF assms(1)] clean_pathD(1,4) by (auto simp: spc_ok_def inside_def)
qed

lemma absFromID_inside: "spc_ok s \<Longrightarrow> absFromID rawID s = Some p \<Longrightarrow> clean_path p \<and> inside p (Clean (spRoot s)) \<and> exists_path p (spFs s)"
  using spc_ok_path by (auto simp: absFromID_def split: option.splits if_splits)

lemma dirFromDirectoryID_inside:
  assumes "spc_ok s" "dirFromDirectoryID rawID s = Some d"
  shows "HasPrefix d ''/''" "clean_path (Clean d)" "inside (Clean d) (Clean (spRoot s))" "is_dir (Clean d) (spFs s)"
proof -
  have "d = spRoot s \<or> (clean_path d \<and> inside d (Clean (spRoot s)) \<and> is_dir d (spFs s))"
    using assms(2) absFromID_inside [OF assms(1)] by (auto simp: dirFromDirectoryID_def split: if_splits option.splits)
  then show "HasPrefix d ''/''" "clean_path (Clean d)" "inside (Clean d) (Clean (spRoot s))" "is_dir (Clean d) (spFs s)"
    using assms(1) spc_ok_root [OF assms(1)] clean_pathD(1,4) by (auto simp: spc_ok_def inside_def)
qed

lemma web_each_keeps:
  assumes "spc_ok s" "HasPrefix d ''/''" "clean_path (Clean d)" "inside (Clean d) (Clean (spRoot s))"
  shows "keeps s (snd (web_each e cm d ids s))"
  using assms
proof (induction ids arbitrary: s)
  case (Cons rawID ids)
  note s = Cons.prems(1)
  show ?case
  proof (cases "resolveSource rawID s")
    case (Some a)
    obtain i src where a: "a = (i, src)" by (cases a)
    have src: "clean_path src" "inside src (Clean (spRoot s))" using resolveSource_path [OF s] Some a by auto
    define dest where "dest = autorenameAbs (JoinAll [d, Base src]) (spFs s)"
    have j: "clean_path (JoinAll [d, Base src])" "inside (JoinAll [d, Base src]) (Clean (spRoot s))" "JoinAll [d, Base src] \<noteq> Clean (spRoot s)"
      using JoinAll_inside [OF Cons.prems(2-4) clean_Base [OF src(1)]] by blast+
    have dest: "dest = [] \<or> (clean_path dest \<and> inside dest (Clean (spRoot s)) \<and> dest \<noteq> Clean (spRoot s))"
      unfolding dest_def using autorename_inside [OF spc_ok_root(1) [OF s] j] by blast
    show ?thesis
    proof (cases cm)
      case True
      obtain ok f where c: "copyFile e src dest (spFs s) = (ok, f)" by (cases "copyFile e src dest (spFs s)")
      have good: "good_fs (Clean (spRoot s)) (spFs s)" using s by (simp add: spc_ok_def)
      have "stays (Clean (spRoot s)) (spFs s) f" using copyFile_stays [OF good dest, of e src] c by simp
      then have k: "keeps s (with_fs f s)" by (rule with_fs_keeps [OF s])
      have k2: "keeps s (emit (ReindexCopy src dest) (with_fs f s))" by (rule keeps_trans [OF k emit_keeps [OF keeps_ok [OF k]]])
      have "keeps (emit (ReindexCopy src dest) (with_fs f s)) (snd (web_each e cm d ids (emit (ReindexCopy src dest) (with_fs f s))))"
        by (rule Cons.IH) (use keeps_ok [OF k2] Cons.prems in simp_all)
      then show ?thesis using keeps_trans [OF k2] k Some a c True by (cases ok) (simp_all add: dest_def [symmetric] Let_def)
    next
      case False
      show ?thesis
      proof (cases "move_to i src dest True s")
        case None
        then show ?thesis using Some a False keeps_refl [OF s] by (simp add: dest_def [symmetric] Let_def)
      next
        case m: (Some t)
        have k: "keeps s t" by (rule move_to_keeps [OF s src _ m]) (use dest in blast)
        have "keeps t (snd (web_each e cm d ids t))" by (rule Cons.IH) (use k keeps_ok [OF k] Cons.prems in \<open>simp_all add: keeps_def\<close>)
        then show ?thesis using keeps_trans [OF k] Some a False m by (simp add: dest_def [symmetric] Let_def)
      qed
    qed
  qed (use keeps_refl [OF s] in simp)
qed (simp add: keeps_refl)

lemma webMoveCopy_keeps:
  assumes s: "spc_ok s"
  shows "keeps s (snd (webMoveCopy e go ids cm s))"
proof (cases "dirByID go s")
  case (Some d)
  obtain err t where w: "web_each e cm d ids s = (err, t)" by (cases "web_each e cm d ids s")
  have k: "keeps s t" using web_each_keeps [OF s dirByID_inside(1-3) [OF s Some], of e cm ids] w by simp
  then show ?thesis using keeps_trans [OF k emit_keeps [OF keeps_ok [OF k]]] Some w by (auto simp: webMoveCopy_def split: option.splits)
qed (use keeps_refl [OF s] in \<open>simp add: webMoveCopy_def\<close>)

lemma Base_cases: "Base p = ''/'' \<or> (Base p \<noteq> [] \<and> CHR ''/'' \<notin> set (Base p))"
  by (auto simp: Base_def Let_def dest: set_takeWhileD)

lemma FolderAdd_keeps:
  assumes s: "spc_ok s"
  shows "keeps s (snd (FolderAdd e dID fileName s))"
proof (cases "dirFromDirectoryID dID s")
  case (Some parent)
  note d = dirFromDirectoryID_inside [OF s Some]
  define name where "name = safeBaseName fileName"
  define q where "q = JoinAll [parent, name]"
  show ?thesis
  proof (cases "name = []")
    case True
    then show ?thesis using Some keeps_refl [OF s] by (simp add: FolderAdd_def Let_def name_def)
  next
    case False
    have "name \<noteq> ''.''" "name \<noteq> ''..''" "name = ''/'' \<or> CHR ''/'' \<notin> set name"
      using False Base_cases [of "TrimSpace fileName"] by (auto simp: name_def safeBaseName_def Let_def split: if_splits)
    then consider "name = ''/''" | "plain_name name" using False by (auto simp: plain_name_def)
    then have q: "clean_path q \<and> inside q (Clean (spRoot s))"
    proof cases
      case 1
      obtain rs where rs: "rs \<noteq> []" "list_all plain_name rs" "Clean parent = abs_path rs" using d(2) clean_path_abs by blast
      have "q = Clean (parent @ ''/'' @ ''/'')" unfolding q_def 1 by (rule JoinAll_two [OF d(1)]) simp
      also have "\<dots> = Clean parent" using Clean_join [OF d(1) rs(2,3), of "''/''"] rs(3) by simp
      finally show ?thesis using d by simp
    next
      case 2
      show ?thesis unfolding q_def using JoinAll_inside [OF d(1-3) 2] by blast
    qed
    show ?thesis
    proof (cases "MkdirAll q (spFs s)")
      case None
      then show ?thesis using Some keeps_refl [OF s] False by (simp add: FolderAdd_def Let_def name_def [symmetric] q_def [symmetric])
    next
      case m: (Some f)
      have good: "good_fs (Clean (spRoot s)) (spFs s)" using s by (simp add: spc_ok_def)
      have "stays (Clean (spRoot s)) (spFs s) f" by (rule MkdirAll_stays [OF good m]) (use q in simp_all)
      then have k: "keeps s (with_fs f s)" by (rule with_fs_keeps [OF s])
      have k2: "keeps (with_fs f s) (snd (EntryFor e q (with_fs f s)))" using EntryFor_keeps [OF keeps_ok [OF k], of q e] q by simp
      have "snd (FolderAdd e dID fileName s) = snd (EntryFor e q (with_fs f s))"
        using Some False m by (simp add: FolderAdd_def Let_def name_def [symmetric] q_def [symmetric] case_prod_beta split: option.splits)
      then show ?thesis using keeps_trans [OF k k2] by simp
    qed
  qed
next
  case None
  then show ?thesis unfolding FolderAdd_def None by (simp add: keeps_refl [OF s])
qed

lemma CreateFolder_keeps:
  assumes s: "spc_ok s"
  shows "keeps s (snd (CreateFolderV2 e reqPath autorename s))"
proof (cases "SafeResolve (spRoot s) reqPath")
  case (Some p)
  have b: "HasPrefix (spRoot s) ''/''" using s by (simp add: spc_ok_def)
  note p = SafeResolve_inside [OF b spc_ok_root(1) [OF s] Some]
  show ?thesis
  proof (cases "exists_path p (spFs s) \<and> (\<not> is_dir p (spFs s) \<or> \<not> autorename)")
    case False
    show ?thesis
    proof (cases "MkdirAll p (spFs s)")
      case m: (Some f)
      have "stays (Clean (spRoot s)) (spFs s) f" by (rule MkdirAll_stays [OF _ m p]) (use s in \<open>simp add: spc_ok_def\<close>)
      then have k: "keeps s (with_fs f s)" by (rule with_fs_keeps [OF s])
      have k2: "keeps (with_fs f s) (snd (EntryFor e p (with_fs f s)))" using EntryFor_keeps [OF keeps_ok [OF k], of p e] p by simp
      have "snd (CreateFolderV2 e reqPath autorename s) = snd (EntryFor e p (with_fs f s))"
        unfolding CreateFolderV2_def using Some False m by (auto simp: case_prod_beta split: option.splits)
      then show ?thesis using keeps_trans [OF k k2] by simp
    qed (use Some False keeps_refl [OF s] in \<open>simp add: CreateFolderV2_def\<close>)
  qed (use Some keeps_refl [OF s] in \<open>simp add: CreateFolderV2_def\<close>)
qed (use keeps_refl [OF s] in \<open>simp add: CreateFolderV2_def\<close>)

lemma displayPath_inside:
  assumes "clean_path (Clean b)" "clean_path p" "segments p = segments (Clean b) @ ns"
  shows "displayPath b p = abs_path ns"
proof -
  obtain rs where rs: "rs \<noteq> []" "list_all plain_name rs" "Clean b = abs_path rs" using assms(1) clean_path_abs by blast
  obtain ms where ms: "ms \<noteq> []" "list_all plain_name ms" "p = abs_path ms" using assms(2) clean_path_abs by blast
  have "ms = rs @ ns" using assms(3) segments_abs_path rs ms by simp
  then show ?thesis using displayPath_abs [of rs ns b] rs(2,3) ms(2,3) by simp
qed

lemma FormatInt_name: "plain_name (FormatInt i)"
proof -
  have "CHR ''.'' \<notin> number_chars" by code_simp
  then have "CHR ''.'' \<notin> set (FormatInt i)" using FormatInt_chars by blast
  moreover have "CHR ''/'' \<notin> set (FormatInt i)" by (rule number_no_slash [OF FormatInt_chars])
  ultimately show ?thesis using FormatInt_nonempty by (auto simp: plain_name_def)
qed

lemma clean_names: "clean_path p \<Longrightarrow> segments p = segments r @ ns \<Longrightarrow> clean_path r \<Longrightarrow> list_all plain_name ns"
  using clean_path_append by blast

lemma abs_path_inside:
  assumes "clean_path r" "segments r = [] # rs" "list_all plain_name ns" "ns \<noteq> []"
  shows "clean_path (abs_path (rs @ ns)) \<and> segments (abs_path (rs @ ns)) = segments r @ ns \<and>
    inside (abs_path (rs @ ns)) r \<and> abs_path (rs @ ns) \<noteq> r"
proof -
  have pl: "list_all plain_name (rs @ ns)" using assms by (auto simp: clean_path_def)
  have s: "segments (abs_path (rs @ ns)) = segments r @ ns" using segments_abs_path [OF pl] assms(2,4) by simp
  have "clean_path (abs_path (rs @ ns))" unfolding clean_path_abs using pl assms(4) by blast
  moreover have "inside (abs_path (rs @ ns)) r" using s by (auto simp: inside_iff)
  moreover have "abs_path (rs @ ns) \<noteq> r"
  proof
    assume "abs_path (rs @ ns) = r"
    then have "segments r = segments r @ ns" using s by simp
    then show False using assms(4) by simp
  qed
  ultimately show ?thesis using s by blast
qed

lemma recycleDest_eq:
  assumes b: "HasPrefix b ''/''" "clean_path (Clean b)" "segments (Clean b) = [] # rs" and ns: "list_all plain_name ns"
  shows "recycleDest e b (abs_path ns) = abs_path (rs @ [''.recycle'', FormatInt (envNow e)] @ ns)"
proof -
  have tp: "TrimPrefix (abs_path ns) ''/'' = join_with ''/'' ns" by (simp add: abs_path_def TrimPrefix_def HasPrefix_def)
  have ne: "b \<noteq> []" "FormatInt (envNow e) \<noteq> []" using b(1) FormatInt_nonempty by (auto simp: HasPrefix_def)
  have pl: "list_all plain_name ([''.recycle'', FormatInt (envNow e)] @ ns)" using ns FormatInt_name by (simp add: plain_name_def)
  have "JoinAll [b, ''.recycle'', FormatInt (envNow e), join_with ''/'' ns] =
      Clean (b @ ''/'' @ join_with ''/'' ([''.recycle'', FormatInt (envNow e)] @ ns))"
  proof (cases ns)
    case (Cons x xs)
    then have "join_with ''/'' ns \<noteq> []" using join_plain [of x xs] ns by auto
    then show ?thesis using ne Cons by (simp add: JoinAll_def Let_def)
  qed (use ne in \<open>simp add: JoinAll_def Let_def\<close>)
  moreover obtain rs' where "list_all plain_name rs'" "Clean b = abs_path rs'"
    "Clean (b @ ''/'' @ join_with ''/'' ([''.recycle'', FormatInt (envNow e)] @ ns)) = abs_path (rs' @ ([''.recycle'', FormatInt (envNow e)] @ ns))"
    using Clean_below [OF b(1) pl] by blast
  moreover have "rs' = rs"
  proof -
    have "list_all plain_name rs" using b(2,3) by (auto simp: clean_path_def)
    moreover have "Clean b = abs_path rs" using join_segments [of "Clean b"] b(3) clean_pathD(2,3) [OF b(2)] by (cases rs) (auto simp: abs_path_def)
    ultimately show ?thesis using abs_path_inj [of rs' rs] \<open>list_all plain_name rs'\<close> \<open>Clean b = abs_path rs'\<close> by simp
  qed
  ultimately show ?thesis unfolding recycleDest_def tp by simp
qed

lemma recycle_stays:
  assumes good: "good_fs (Clean b) f" and b: "HasPrefix b ''/''" and p: "clean_path p" "inside p (Clean b)"
  shows "stays (Clean b) f (snd (recycle e b (displayPath b p) p f))"
proof -
  have cb: "clean_path (Clean b)" by (rule good_fs_clean [OF good])
  obtain rs where rs: "segments (Clean b) = [] # rs" using cb clean_path_segments by blast
  obtain ns where ns: "segments p = segments (Clean b) @ ns" using p(2) by (auto simp: inside_iff)
  have pl: "list_all plain_name ns" by (rule clean_names [OF p(1) ns cb])
  define dest where "dest = recycleDest e b (displayPath b p)"
  have dest: "dest = abs_path (rs @ [''.recycle'', FormatInt (envNow e)] @ ns)"
    unfolding dest_def displayPath_inside [OF cb p(1) ns] by (rule recycleDest_eq [OF b cb rs pl])
  have di: "clean_path dest \<and> inside dest (Clean b) \<and> dest \<noteq> Clean b"
    unfolding dest using abs_path_inside [OF cb rs, of "[''.recycle'', FormatInt (envNow e)] @ ns"] pl FormatInt_name by (simp add: plain_name_def)
  have D: "clean_path (Dir dest)" "inside (Dir dest) (Clean b)" using Dir_inside [OF cb] di by auto
  show ?thesis
  proof (cases "MkdirAll (Dir dest) f")
    case None
    then show ?thesis using stays_refl [OF good] by (simp add: recycle_def dest_def [symmetric])
  next
    case (Some g)
    have s: "stays (Clean b) f g" by (rule MkdirAll_stays [OF good Some D])
    have "Rename p dest g = Some h \<Longrightarrow> stays (Clean b) f h" for h
      by (rule stays_trans [OF s Rename_stays [OF stays_good [OF s] _ p(2)]]) (use di in auto)
    then show ?thesis using Some s by (auto simp: recycle_def dest_def [symmetric] split: option.splits)
  qed
qed

lemma delete_keeps:
  assumes s: "spc_ok s" and p: "clean_path p" "inside p (Clean (spRoot s))" and x: "EntryFor e p s = (Some x, s1)"
  shows "keeps s (with_fs (pruneEmptyParents (spRoot s) (Dir p) (snd (recycle e (spRoot s) (enPath x) p (spFs s1))))
      (emit (Deindex p) (with_fs (snd (recycle e (spRoot s) (enPath x) p (spFs s1))) s1)))"
    and "keeps s (with_fs (snd (recycle e (spRoot s) (enPath x) p (spFs s1))) s1)"
proof -
  define f where "f = snd (recycle e (spRoot s) (enPath x) p (spFs s1))"
  have ex: "exists_path p (spFs s)" using x by (auto simp: EntryFor_def split: if_splits)
  have k1: "keeps s s1" "spFs s1 = spFs s" using EntryFor_keeps [OF s p(2), of e] x by simp_all
  have r1: "spRoot s1 = spRoot s" using k1(1) by (simp add: keeps_def)
  have d: "enPath x = displayPath (spRoot s) p"
    by (rule EntryFor_reg [OF s p(2) ex, of e]) (use x in simp)
  have good: "good_fs (Clean (spRoot s)) (spFs s1)" using s k1(2) by (simp add: spc_ok_def)
  have st: "stays (Clean (spRoot s1)) (spFs s1) f"
    unfolding f_def d r1 by (rule recycle_stays [OF good _ p]) (use s in \<open>simp add: spc_ok_def\<close>)
  have k2: "keeps s (with_fs f s1)" by (rule keeps_trans [OF k1(1) with_fs_keeps [OF keeps_ok [OF k1(1)] st]])
  then show "keeps s (with_fs (snd (recycle e (spRoot s) (enPath x) p (spFs s1))) s1)" by (simp add: f_def)
  define s2 where "s2 = emit (Deindex p) (with_fs f s1)"
  have k3: "keeps s s2" unfolding s2_def by (rule keeps_trans [OF k2 emit_keeps [OF keeps_ok [OF k2]]])
  have fs2: "spFs s2 = f" "spRoot s2 = spRoot s" by (simp_all add: s2_def r1)
  have "keeps s2 (with_fs (pruneEmptyParents (spRoot s) (Dir p) f) s2)"
  proof (rule with_fs_keeps [OF keeps_ok [OF k3]])
    have "good_fs (Clean (spRoot s)) f" using stays_good [OF st] r1 by simp
    then show "stays (Clean (spRoot s2)) (spFs s2) (pruneEmptyParents (spRoot s) (Dir p) f)"
      unfolding fs2 using p by (rule pruneEmptyParents_stays)
  qed
  then have "keeps s (with_fs (pruneEmptyParents (spRoot s) (Dir p) f) s2)" by (rule keeps_trans [OF k3])
  then show "keeps s (with_fs (pruneEmptyParents (spRoot s) (Dir p) (snd (recycle e (spRoot s) (enPath x) p (spFs s1))))
      (emit (Deindex p) (with_fs (snd (recycle e (spRoot s) (enPath x) p (spFs s1))) s1)))"
    by (simp add: f_def s2_def)
qed

lemma DeleteFolder_keeps:
  assumes s: "spc_ok s"
  shows "keeps s (snd (DeleteFolder e rawID s))"
proof (cases "resolveSource rawID s")
  case (Some a)
  obtain i p where a: "a = (i, p)" by (cases a)
  have p: "clean_path p" "inside p (Clean (spRoot s))" using resolveSource_path [OF s] Some a by auto
  obtain x s1 where x: "EntryFor e p s = (x, s1)" by (cases "EntryFor e p s")
  show ?thesis
  proof (cases x)
    case None
    have "keeps s s1" using EntryFor_keeps [OF s p(2), of e] x by simp
    then show ?thesis using Some a x None by (simp add: DeleteFolder_def)
  next
    case y: (Some y)
    obtain ok f where r: "recycle e (spRoot s) (enPath y) p (spFs s1) = (ok, f)" by (cases "recycle e (spRoot s) (enPath y) p (spFs s1)")
    note k = delete_keeps [OF s p x [unfolded y], unfolded r snd_conv]
    show ?thesis using Some a x y r k keeps_trans [OF k(1) emit_keeps [OF keeps_ok [OF k(1)]]]
      by (cases ok) (simp_all add: DeleteFolder_def)
  qed
qed (use keeps_refl [OF s] in \<open>simp add: DeleteFolder_def\<close>)

lemma web_delete_one_keeps:
  assumes s: "spc_ok s"
  shows "keeps s (web_delete_one e rawID s)"
proof (cases "resolveSource rawID s")
  case (Some a)
  obtain i p where a: "a = (i, p)" by (cases a)
  have p: "clean_path p" "inside p (Clean (spRoot s))" using resolveSource_path [OF s] Some a by auto
  obtain x s1 where x: "EntryFor e p s = (x, s1)" by (cases "EntryFor e p s")
  show ?thesis
  proof (cases x)
    case None
    have "keeps s s1" using EntryFor_keeps [OF s p(2), of e] x by simp
    then show ?thesis using Some a x None by (simp add: web_delete_one_def)
  next
    case y: (Some y)
    show ?thesis using Some a x y delete_keeps(1) [OF s p x [unfolded y]] by (simp add: web_delete_one_def Let_def)
  qed
qed (use keeps_refl [OF s] in \<open>simp add: web_delete_one_def\<close>)

lemma fold_keeps:
  assumes "\<And>x s. x \<in> set xs \<Longrightarrow> spc_ok s \<Longrightarrow> keeps s (g x s)" "spc_ok s"
  shows "keeps s (fold g xs s)"
  using assms
proof (induction xs arbitrary: s)
  case (Cons x xs)
  have k: "keeps s (g x s)" using Cons.prems by simp
  have "keeps (g x s) (fold g xs (g x s))" by (rule Cons.IH) (use Cons.prems keeps_ok [OF k] in auto)
  then show ?case using keeps_trans [OF k] by simp
qed (simp add: keeps_refl)

lemma WebDelete_keeps: "spc_ok s \<Longrightarrow> keeps s (WebDelete e ids s)"
  unfolding WebDelete_def using fold_keeps [of ids "web_delete_one e" s] web_delete_one_keeps emit_keeps keeps_ok keeps_trans by blast

lemma WebRename_keeps:
  assumes s: "spc_ok s" and no: "\<And>i. resolveSource rawID s \<noteq> Some (i, Clean (spRoot s))"
  shows "keeps s (snd (WebRename rawID newName s))"
proof (cases "resolveSource rawID s")
  case (Some a)
  obtain i src where a: "a = (i, src)" by (cases a)
  have src: "clean_path src" "inside src (Clean (spRoot s))" "src \<noteq> Clean (spRoot s)" "exists_path src (spFs s)"
    using resolveSource_path [OF s] Some a no by auto
  have cb: "clean_path (Clean (spRoot s))" by (rule spc_ok_root(1) [OF s])
  have D: "clean_path (Dir src)" "inside (Dir src) (Clean (spRoot s))" using Dir_inside [OF cb src(1-3)] by auto
  define dest where "dest = JoinAll [Dir src, Base newName]"
  have ok: "fs_ok (spFs s)" using s by (simp add: spc_ok_def good_fs_def)
  obtain ms where ms: "ms \<noteq> []" "list_all plain_name ms" "Dir src = abs_path ms" using D(1) clean_path_abs by blast
  have sD: "segments (Dir src) = [] # ms" using segments_abs_path ms by simp
  have CD: "Clean (Dir src) = abs_path ms" using clean_pathD(4) [OF D(1)] ms(3) by simp
  have ne: "Base newName \<noteq> []" using Base_cases [of newName] by auto
  have dq: "dest = abs_path (clean_segs True (rev ms) (segments (Base newName)))"
    unfolding dest_def JoinAll_two [OF clean_pathD(1) [OF D(1)] ne] by (rule Clean_join [OF clean_pathD(1) [OF D(1)] ms(2) CD])
  have up: "exists_path (abs_path ks) (spFs s)" if "ms = ks @ zs" "ks \<noteq> []" for ks zs
  proof (rule exists_above [OF ok src(4)])
    have "segments (abs_path ks) = [] # ks" using segments_abs_path [of ks] ms(2) that by simp
    then have "inside (Dir src) (abs_path ks)" using sD that by (auto simp: inside_iff)
    moreover have "inside src (Dir src)"
    proof -
      obtain zs z where z: "segments src = segments (Clean (spRoot s)) @ zs @ [z]" by (rule inside_cases [OF src(2,3)])
      show ?thesis using Dir_clean_inside(2) [OF src(1) z cb] z by (auto simp: inside_iff)
    qed
    ultimately show "inside src (abs_path ks)" using inside_trans by blast
    show "abs_path ks \<noteq> []" by (simp add: abs_path_def)
  qed
  show ?thesis
  proof (cases "dest = ''/'' \<or> exists_path dest (spFs s)")
    case True
    then show ?thesis using Some a keeps_refl [OF s] by (simp add: WebRename_def dest_def Let_def)
  next
    case False
    have pl: "plain_name (Base newName)"
    proof (rule ccontr)
      assume "\<not> plain_name (Base newName)"
      then consider "Base newName = ''/''" | "Base newName = ''.''" | "Base newName = ''..''"
        using Base_cases [of newName] by (auto simp: plain_name_def)
      then have "dest = ''/'' \<or> (\<exists>ks zs. ms = ks @ zs \<and> ks \<noteq> [] \<and> dest = abs_path ks)"
      proof cases
        case 1
        then have "dest = abs_path ms" using dq by simp
        then show ?thesis using ms(1) by blast
      next
        case 2
        then have "dest = abs_path ms" using dq by simp
        then show ?thesis using ms(1) by blast
      next
        case 3
        obtain ks z where k: "ms = ks @ [z]" using ms(1) by (cases ms rule: rev_cases) auto
        have "z \<noteq> ''..''" using ms(2) k by (simp add: plain_name_def)
        then have "dest = abs_path ks" using dq 3 k by simp
        then show ?thesis using k by (cases "ks = []") (auto simp: abs_path_def)
      qed
      then show False using False up by blast
    qed
    have d: "clean_path dest" "inside dest (Clean (spRoot s))"
      unfolding dest_def using JoinAll_inside [OF clean_pathD(1) [OF D(1)] _ _ pl] D clean_pathD(4) [OF D(1)] by simp_all
    show ?thesis
    proof (cases "move_to i src dest False s")
      case None
      then show ?thesis using Some a False keeps_refl [OF s] by (simp add: WebRename_def dest_def [symmetric] Let_def)
    next
      case m: (Some t)
      have k: "keeps s t" by (rule move_to_keeps [OF s src(1,2) _ m]) (use d in blast)
      then show ?thesis using Some a False m keeps_trans [OF k emit_keeps [OF keeps_ok [OF k]]]
        by (simp add: WebRename_def dest_def [symmetric] Let_def)
    qed
  qed
qed (use keeps_refl [OF s] in \<open>simp add: WebRename_def\<close>)

lemma recycleBase_inside:
  assumes "HasPrefix b ''/''" "clean_path (Clean b)"
  shows "clean_path (recycleBase b) \<and> inside (recycleBase b) (Clean b) \<and> recycleBase b \<noteq> Clean b \<and>
    segments (recycleBase b) = segments (Clean b) @ [''.recycle'']"
  unfolding recycleBase_def by (rule JoinAll_inside [OF assms]) (simp_all add: inside_def plain_name_def)

text \<open>An id of the recycle area stands for a path in it.\<close>

lemma common_len_neq: "xs \<noteq> [] \<Longrightarrow> ys \<noteq> [] \<Longrightarrow> hd xs \<noteq> hd ys \<Longrightarrow> common_len xs ys = 0"
  by (cases xs; cases ys) auto

lemma recyclePath_inside:
  assumes s: "spc_ok s" and r: "recyclePathByID rawID s = Some p"
  shows "clean_path p \<and> inside p (recycleBase (spRoot s)) \<and> exists_path p (spFs s) \<and>
    (\<exists>i. ParseInt rawID = Some i \<and> PathFor i (spReg s) = Some p)"
proof -
  define b where "b = spRoot s"
  obtain i where i: "ParseInt rawID = Some i" "PathFor i (spReg s) = Some p"
    "\<not> HasPrefix (join_with ''/'' (relNames (recycleBase b) p)) ''..''" "exists_path p (spFs s)"
    using r by (auto simp: recyclePathByID_def b_def split: option.splits if_splits)
  have p: "clean_path p" "inside p (Clean b)" using spc_ok_path [OF s i(2)] by (simp_all add: b_def)
  have cb: "clean_path (Clean b)" "HasPrefix b ''/''" using spc_ok_root(1) [OF s] s by (simp_all add: b_def spc_ok_def)
  note rb = recycleBase_inside [OF cb(2,1)]
  obtain rs where rs: "segments (Clean b) = [] # rs" "list_all plain_name rs" using cb(1) clean_path_segments by blast
  obtain zs where zs: "segments p = segments (Clean b) @ zs" using p(2) by (auto simp: inside_iff)
  have na: "filter (\<lambda>n. n \<noteq> []) (segments (Clean (recycleBase b))) = rs @ [''.recycle'']"
    using names_clean [of "recycleBase b" "rs @ [''.recycle'']"] rb rs(1) by simp
  have nb: "filter (\<lambda>n. n \<noteq> []) (segments (Clean p)) = rs @ zs" using names_clean [OF p(1), of "rs @ zs"] zs rs(1) by simp
  have "zs \<noteq> [] \<and> hd zs = ''.recycle''"
  proof (rule ccontr)
    assume "\<not> (zs \<noteq> [] \<and> hd zs = ''.recycle'')"
    then have "common_len [''.recycle''] zs = 0" by (cases zs) auto
    then have "relNames (recycleBase b) p = ''..'' # zs"
      unfolding relNames_def Let_def na nb common_len_take by simp
    then show False using i(3) by (cases zs) (simp_all add: HasPrefix_def)
  qed
  then have "inside p (recycleBase b)" using zs rb by (cases zs) (auto simp: inside_iff)
  then show ?thesis using p i unfolding b_def by blast
qed

lemma restoreDest_inside:
  assumes s: "spc_ok s" and p: "clean_path p" "inside p (recycleBase (spRoot s))" "p \<noteq> recycleBase (spRoot s)"
  shows "clean_path (restoreDest (spRoot s) p) \<and> inside (restoreDest (spRoot s) p) (Clean (spRoot s)) \<and>
    restoreDest (spRoot s) p \<noteq> Clean (spRoot s) \<and>
    (\<exists>rs ys. segments (Clean (spRoot s)) = [] # rs \<and> segments p = segments (recycleBase (spRoot s)) @ ys \<and> ys \<noteq> [] \<and>
      restoreDest (spRoot s) p = abs_path (rs @ (if length ys > 1 then tl ys else ys)))"
proof -
  define b where "b = spRoot s"
  have cb: "clean_path (Clean b)" "HasPrefix b ''/''" using spc_ok_root(1) [OF s] s by (simp_all add: b_def spc_ok_def)
  note rb = recycleBase_inside [OF cb(2,1)]
  obtain rs where rs: "segments (Clean b) = [] # rs" "list_all plain_name rs" "rs \<noteq> []" using cb(1) clean_path_segments by blast
  obtain ys where ys: "segments p = segments (recycleBase b) @ ys" using p(2) by (auto simp: inside_iff b_def)
  have ne: "ys \<noteq> []" using ys p(3) segments_inj [of p "recycleBase b"] by (auto simp: b_def)
  have rel: "relNames (recycleBase b) p = ys" by (rule relNames_inside [OF _ p(1) ys]) (use rb in blast)
  have pl: "list_all plain_name ys" by (rule clean_names [OF p(1) ys]) (use rb in blast)
  define ks where "ks = (if length ys > 1 then tl ys else ys)"
  have ks: "list_all plain_name ks" "ks \<noteq> []"
    using pl ne unfolding ks_def by (cases ys; simp)+
  have Cb: "Clean b = abs_path rs" using join_segments [of "Clean b"] rs(1,3) by (cases rs) (auto simp: abs_path_def)
  have "join_with ''/'' ks \<noteq> []" using join_plain [of "hd ks" "tl ks"] ks by (cases ks) auto
  then have "restoreDest b p = Clean (b @ ''/'' @ join_with ''/'' ks)"
    unfolding restoreDest_def Let_def rel ks_def [symmetric] by (rule JoinAll_two [OF cb(2)])
  also have "\<dots> = abs_path (clean_segs True (rev rs) (segments (join_with ''/'' ks)))" by (rule Clean_join [OF cb(2) rs(2) Cb])
  also have "segments (join_with ''/'' ks) = ks" by (rule split_join) (use ks in \<open>auto simp: list_all_iff plain_name_def\<close>)
  also have "clean_segs True (rev rs) ks = rs @ ks" using clean_segs_id [OF ks(1)] by simp
  finally have e: "restoreDest b p = abs_path (rs @ ks)" .
  show ?thesis using abs_path_inside [OF cb(1) rs(1) ks] e rs(1) ys ne unfolding b_def [symmetric] ks_def by auto
qed

definition unregistered :: "string \<Rightarrow> spc \<Rightarrow> bool" where
  "unregistered p s \<longleftrightarrow> list_all (\<lambda>(_, row). idPath row \<noteq> p) (rgRows (spReg s))"

lemma unregistered_iff: "spc_ok s \<Longrightarrow> unregistered p s \<longleftrightarrow> (\<forall>i. PathFor i (spReg s) \<noteq> Some p)"
  using rg_ok_row [of "spReg s"] by (force simp: unregistered_def spc_ok_def PathFor_def list_all_iff)

lemma revert_one_keeps:
  assumes s: "spc_ok s" and un: "unregistered (recycleBase (spRoot s)) s"
  shows "keeps s (revert_one rawID s) \<and> unregistered (recycleBase (spRoot s)) (revert_one rawID s)"
proof (cases "recyclePathByID rawID s")
  case None
  then show ?thesis using keeps_refl [OF s] un by (simp add: revert_one_def)
next
  case (Some src)
  define b where "b = spRoot s"
  have cb: "clean_path (Clean b)" "HasPrefix b ''/''" using spc_ok_root(1) [OF s] s by (simp_all add: b_def spc_ok_def)
  note rb = recycleBase_inside [OF cb(2,1)]
  obtain i where src: "clean_path src" "inside src (recycleBase b)" "exists_path src (spFs s)"
    and i: "ParseInt rawID = Some i" "PathFor i (spReg s) = Some src"
    using recyclePath_inside [OF s Some] by (auto simp: b_def)
  have ne: "src \<noteq> recycleBase b" using un i(2) unregistered_iff [OF s] by (auto simp: b_def)
  have srcb: "inside src (Clean b)" using inside_trans [OF src(2)] rb by blast
  define dest where "dest = autorenameAbs (restoreDest b src) (spFs s)"
  have rd: "clean_path (restoreDest b src)" "inside (restoreDest b src) (Clean b)" "restoreDest b src \<noteq> Clean b"
    using restoreDest_inside [OF s src(1)] src(2) ne by (auto simp: b_def)
  have dest: "dest = [] \<or> (clean_path dest \<and> inside dest (Clean b) \<and> dest \<noteq> Clean b \<and> not_exist dest (spFs s))"
    unfolding dest_def by (rule autorename_inside [OF cb(1) rd])
  define f where "f = (case MkdirAll (Dir dest) (spFs s) of None \<Rightarrow> spFs s | Some g \<Rightarrow> g)"
  have good: "good_fs (Clean b) (spFs s)" using s by (simp add: spc_ok_def b_def)
  have stf: "stays (Clean b) (spFs s) f"
  proof (cases "dest = []")
    case True
    have D: "Dir [] = ''.''" by code_simp
    have "upward ''.'' = []" by code_simp
    then have "MkdirAll (Dir dest) (spFs s) = Some (spFs s)" unfolding True D by (simp add: MkdirAll_def)
    then show ?thesis using stays_refl [OF good] by (simp add: f_def)
  next
    case False
    then have "clean_path (Dir dest) \<and> inside (Dir dest) (Clean b)" using Dir_inside [OF cb(1)] dest by blast
    then show ?thesis using MkdirAll_stays [OF good] stays_refl [OF good] by (auto simp: f_def split: option.splits)
  qed
  have rv: "revert_one rawID s = (case (if dest = [] then None else Rename src dest f) of
      None \<Rightarrow> with_fs f s
    | Some g \<Rightarrow> (case UpdatePath i dest (spReg s) of
        None \<Rightarrow> with_fs (pruneEmptyParents b (Dir src) g) s
      | Some r \<Rightarrow> with_reg r (with_fs (pruneEmptyParents b (Dir src) g) s)))"
    unfolding revert_one_def dest_def f_def b_def by (simp only: Some i(1) option.case Let_def)
  show ?thesis
  proof (cases "if dest = [] then None else Rename src dest f")
    case None
    then have "revert_one rawID s = with_fs f s" unfolding rv by (simp only: option.case)
    moreover have "keeps s (with_fs f s)" by (rule with_fs_keeps [OF s]) (use stf in \<open>simp add: b_def\<close>)
    ultimately show ?thesis using un by (simp add: unregistered_def)
  next
    case r: (Some g)
    then have d: "dest \<noteq> []" "Rename src dest f = Some g" by (auto split: if_splits)
    have dd: "clean_path dest" "inside dest (Clean b)" "not_exist dest (spFs s)" using dest d(1) by auto
    have st: "stays (Clean b) (spFs s) g" by (rule stays_trans [OF stf Rename_stays [OF stays_good [OF stf] d(2) srcb dd(1,2)]])
    define h where "h = pruneEmptyParents b (Dir src) g"
    have "stays (Clean b) g h" unfolding h_def by (rule pruneEmptyParents_stays [OF stays_good [OF st] src(1) srcb])
    then have sth: "stays (Clean b) (spFs s) h" by (rule stays_trans [OF st])
    define s1 where "s1 = with_fs h s"
    have k1: "keeps s s1" unfolding s1_def by (rule with_fs_keeps [OF s]) (use sth in \<open>simp add: b_def\<close>)
    have eq: "revert_one rawID s = (case UpdatePath i dest (spReg s) of None \<Rightarrow> s1 | Some r \<Rightarrow> with_reg r s1)"
      unfolding rv r h_def s1_def by (simp only: option.case)
    have "recycleBase b \<noteq> dest"
    proof
      assume e: "recycleBase b = dest"
      have "exists_path (recycleBase b) (spFs s)"
        by (rule exists_above [OF _ src(3,2)]) (use good rb clean_pathD(3) in \<open>auto simp: good_fs_def\<close>)
      then show False using dd(3) e by (simp add: not_exist_def)
    qed
    then have un2: "unregistered (recycleBase b) (with_reg r s1)" if "UpdatePath i dest (spReg s) = Some r" for r
    proof -
      have k: "keeps s1 (with_reg r s1)"
        by (rule UpdatePath_keeps [OF keeps_ok [OF k1] _ dd(1)]) (use that dd(2) in \<open>simp_all add: s1_def b_def\<close>)
      have "PathFor j r \<noteq> Some (recycleBase b)" for j
      proof (cases "j = i")
        case True
        then show ?thesis using UpdatePath_PathFor [OF that, of j] \<open>recycleBase b \<noteq> dest\<close> clean_pathD(4) [OF dd(1)]
          by (cases "PathFor i (spReg s)") auto
      next
        case False
        then show ?thesis using UpdatePath_PathFor [OF that, of j] un unregistered_iff [OF s] by (simp add: b_def)
      qed
      then show ?thesis using unregistered_iff [OF keeps_ok [OF k]] by simp
    qed
    have k3: "keeps s (with_reg r s1)" if "UpdatePath i dest (spReg s) = Some r" for r
    proof (rule keeps_trans [OF k1 UpdatePath_keeps [OF keeps_ok [OF k1] _ dd(1)]])
      show "UpdatePath i dest (spReg s1) = Some r" using that by (simp add: s1_def)
      show "inside dest (Clean (spRoot s1))" using dd(2) by (simp add: s1_def b_def)
    qed
    have un1: "unregistered (recycleBase b) s1" using un by (simp add: unregistered_def s1_def b_def)
    show ?thesis
      unfolding eq using k1 k3 un1 un2 by (cases "UpdatePath i dest (spReg s)") (simp_all add: b_def)
  qed
qed

lemma RecycleRevert_keeps:
  assumes "spc_ok s" "unregistered (recycleBase (spRoot s)) s"
  shows "keeps s (RecycleRevert ids i s)"
proof -
  have "keeps s (fold revert_one xs s)" for xs
    using assms
  proof (induction xs arbitrary: s)
    case (Cons x xs)
    have k: "keeps s (revert_one x s)" "unregistered (recycleBase (spRoot s)) (revert_one x s)"
      using revert_one_keeps Cons.prems by blast+
    have "keeps (revert_one x s) (fold revert_one xs (revert_one x s))"
      by (rule Cons.IH) (use k keeps_ok [OF k(1)] in \<open>simp_all add: keeps_def\<close>)
    then show ?case using keeps_trans [OF k(1)] by simp
  qed (simp add: keeps_refl)
  then show ?thesis unfolding RecycleRevert_def using emit_keeps keeps_ok keeps_trans by blast
qed

lemma recycle_delete_keeps:
  assumes s: "spc_ok s"
  shows "keeps s (recycle_delete_one rawID s)"
proof (cases "recyclePathByID rawID s")
  case (Some src)
  define b where "b = spRoot s"
  have cb: "clean_path (Clean b)" "HasPrefix b ''/''" using spc_ok_root(1) [OF s] s by (simp_all add: b_def spc_ok_def)
  note rb = recycleBase_inside [OF cb(2,1)]
  have src: "clean_path src" "inside src (recycleBase b)" using recyclePath_inside [OF s Some] by (auto simp: b_def)
  have srcb: "inside src (Clean b)" using inside_trans [OF src(2)] rb by blast
  have ne: "src \<noteq> Clean b"
  proof
    assume "src = Clean b"
    then have "inside (Clean b) (recycleBase b)" using src(2) by simp
    then have "length (segments (recycleBase b)) \<le> length (segments (Clean b))" by (auto simp: inside_iff)
    then show False using rb by simp
  qed
  have good: "good_fs (Clean b) (spFs s)" using s by (simp add: spc_ok_def b_def)
  have st: "stays (Clean b) (spFs s) (RemoveAll src (spFs s))" by (rule RemoveAll_stays [OF good srcb ne])
  have "stays (Clean b) (spFs s) (pruneEmptyParents b (Dir src) (RemoveAll src (spFs s)))"
    by (rule stays_trans [OF st pruneEmptyParents_stays [OF stays_good [OF st] src(1) srcb]])
  then show ?thesis using Some with_fs_keeps [OF s] by (simp add: recycle_delete_one_def b_def)
qed (use keeps_refl [OF s] in \<open>simp add: recycle_delete_one_def\<close>)

lemma RecycleClear_keeps:
  assumes s: "spc_ok s"
  shows "keeps s (RecycleClear s)"
proof -
  have cb: "clean_path (Clean (spRoot s))" "HasPrefix (spRoot s) ''/''" using spc_ok_root(1) [OF s] s by (simp_all add: spc_ok_def)
  have good: "good_fs (Clean (spRoot s)) (spFs s)" using s by (simp add: spc_ok_def)
  show ?thesis unfolding RecycleClear_def
    by (rule with_fs_keeps [OF s RemoveAll_stays [OF good]]) (use recycleBase_inside [OF cb(2,1)] in auto)
qed

end
