(* ===== verification/Spc_Requests.thy ===== *)
theory Spc_Requests
  imports Spc_Files_Laws
begin

text \<open>
  The file service as a whole: the requests its routes accept, histories of requests as an inductive relation,
  and what holds of every history - the invariant is kept and nothing outside the storage root changes - up to
  the three requests that can break out, which are named. Then what a single request does: a move takes the
  whole tree along, a deleted file comes back byte for byte, a listing is exact.
\<close>

section \<open>Requests\<close>

datatype request =
    List_Folder "int option" bool
  | Query_By_ID string
  | Query_By_Path string
  | Create_Folder string bool
  | Delete_Entry string
  | Move_Entry string string bool
  | Copy_Entry string string bool
  | Folder_Add string string
  | Web_Move_Copy string "string list" bool
  | Web_Rename string string
  | Web_Delete "string list"
  | Recycle_List
  | Recycle_Revert "string list" string
  | Recycle_Delete "string list" string
  | Recycle_Clear
  | List_By_Path string bool page_request
  | List_Query string page_request
  | Folder_List_Query string page_request
  | Search_Files string "string list" page_request
  | Path_Query string string

primrec serve :: "spc_env \<Rightarrow> request \<Rightarrow> spc \<Rightarrow> spc" where
  "serve e (List_Folder i r) s = snd (ListFolder e i r s)"
| "serve e (Query_By_ID i) s = snd (QueryByID e i s)"
| "serve e (Query_By_Path p) s = snd (QueryByPath e p s)"
| "serve e (Create_Folder p a) s = snd (CreateFolderV2 e p a s)"
| "serve e (Delete_Entry i) s = snd (DeleteFolder e i s)"
| "serve e (Move_Entry i p a) s = snd (Move e i p a s)"
| "serve e (Copy_Entry i p a) s = snd (Copy e i p a s)"
| "serve e (Folder_Add d n) s = snd (FolderAdd e d n s)"
| "serve e (Web_Move_Copy d ids c) s = snd (webMoveCopy e d ids c s)"
| "serve e (Web_Rename i n) s = snd (WebRename i n s)"
| "serve e (Web_Delete ids) s = WebDelete e ids s"
| "serve e Recycle_List s = snd (RecycleList e s)"
| "serve e (Recycle_Revert ids i) s = RecycleRevert ids i s"
| "serve e (Recycle_Delete ids i) s = RecycleDelete ids i s"
| "serve e Recycle_Clear s = RecycleClear s"
| "serve e (List_By_Path p r q) s = snd (ListByPath e p r q s)"
| "serve e (List_Query d q) s = snd (ListQuery e d q s)"
| "serve e (Folder_List_Query d q) s = snd (FolderListQuery e d q s)"
| "serve e (Search_Files d ns q) s = snd (SearchFiles e d ns q s)"
| "serve e (Path_Query i d) s = snd (PathQuery e i d s)"

text \<open>The three requests that can leave the storage root: a move or copy whose target is the root itself, with
  autorename, a rename of the root's own id, a restore while the recycle directory itself has an id.\<close>

definition contained_request :: "request \<Rightarrow> spc \<Rightarrow> bool" where
  "contained_request rq s \<longleftrightarrow>
     (case rq of
        Move_Entry _ p a \<Rightarrow> \<not> (a \<and> SafeResolve (spRoot s) p = Some (Clean (spRoot s)))
      | Copy_Entry _ p a \<Rightarrow> \<not> (a \<and> SafeResolve (spRoot s) p = Some (Clean (spRoot s)))
      | Web_Rename i _ \<Rightarrow> map_option snd (resolveSource i s) \<noteq> Some (Clean (spRoot s))
      | Recycle_Revert _ _ \<Rightarrow> unregistered (recycleBase (spRoot s)) s
      | _ \<Rightarrow> True)"

text \<open>A history: each request is served at its own time, in the state the earlier ones left.\<close>

inductive history :: "spc \<Rightarrow> (spc_env \<times> request) list \<Rightarrow> spc \<Rightarrow> bool" where
  no_request: "history s [] s"
| next_request: "contained_request rq s \<Longrightarrow> history (serve e rq s) rqs t \<Longrightarrow> history s ((e, rq) # rqs) t"

code_pred (modes: i \<Rightarrow> i \<Rightarrow> o \<Rightarrow> bool) history .

inductive_simps history_simps: "history s [] t" "history s ((e, rq) # rqs) t"

section \<open>Every request keeps the invariant\<close>

lemma childPaths_below: "p \<in> set (childPaths dir r f) \<Longrightarrow> below p (Clean dir)"
  by (auto simp: childPaths_def Let_def)

lemma listing_keeps:
  assumes "spc_ok s" "\<forall>p \<in> set ps. inside p (Clean (spRoot s))"
  shows "keeps s (snd (entries_for e ps s))"
  using entries_for_keeps [OF assms] by blast

lemma childPaths_inside: "inside (Clean dir) r \<Longrightarrow> \<forall>p \<in> set (childPaths dir rc f). inside p r"
  using childPaths_below below_inside_trans(1) by (fastforce simp: inside_def [of _ r])

lemma resolveDir_inside: "spc_ok s \<Longrightarrow> resolveDir i s = Some dir \<Longrightarrow> clean_path dir \<and> inside dir (Clean (spRoot s))"
  using spc_ok_path spc_ok_root(1) by (auto simp: resolveDir_def inside_def [of "Clean _"] split: if_splits option.splits)

lemma ListFolder_keeps:
  assumes s: "spc_ok s"
  shows "keeps s (snd (ListFolder e i r s))"
proof (cases "resolveDir i s")
  case (Some dir)
  then have "inside (Clean dir) (Clean (spRoot s))" using resolveDir_inside [OF s] clean_pathD(4) by metis
  then show ?thesis using listing_keeps [OF s childPaths_inside] Some by (simp add: ListFolder_def case_prod_beta Let_def)
qed (use keeps_refl [OF s] in \<open>simp add: ListFolder_def\<close>)

lemma QueryByID_keeps: "spc_ok s \<Longrightarrow> keeps s (snd (QueryByID e i s))"
  using spc_ok_path EntryFor_keeps keeps_refl by (auto simp: QueryByID_def split: option.splits)

lemma QueryByPath_keeps:
  assumes s: "spc_ok s"
  shows "keeps s (snd (QueryByPath e p s))"
proof (cases "if spRoot s = [] then None else resolveQueryPath p s")
  case (Some q)
  have cb: "clean_path (Clean (spRoot s))" by (rule spc_ok_root(1) [OF s])
  obtain c where "SafeResolve (Clean (spRoot s)) c = Some q"
    using Some by (auto simp: resolveQueryPath_def split: option.splits if_splits)
  then have "inside q (Clean (spRoot s))"
    using SafeResolve_inside(2) [of "Clean (spRoot s)" c q] clean_pathD(1,4) [OF cb] cb by simp
  then show ?thesis using Some EntryFor_keeps [OF s] by (auto simp: QueryByPath_def split: if_splits)
qed (use keeps_refl [OF s] in \<open>auto simp: QueryByPath_def split: if_splits\<close>)

lemma RecycleList_keeps:
  assumes s: "spc_ok s"
  shows "keeps s (snd (RecycleList e s))"
proof -
  have rb: "inside (recycleBase (spRoot s)) (Clean (spRoot s))"
    using recycleBase_inside [OF _ spc_ok_root(1) [OF s]] s by (simp add: spc_ok_def)
  then have "inside p (Clean (spRoot s))" if "below p (recycleBase (spRoot s))" for p
    using below_inside_trans(1) [OF that] by (simp add: inside_def [of p])
  then show ?thesis unfolding RecycleList_def case_prod_beta Let_def snd_conv by (intro listing_keeps [OF s]) auto
qed

lemma list_dir_keeps:
  assumes s: "spc_ok s" and d: "\<And>dir. d = Some dir \<Longrightarrow> inside (Clean dir) (Clean (spRoot s))"
  shows "keeps s (snd (list_dir e d r P q s))"
proof (cases d)
  case (Some dir)
  then show ?thesis using listing_keeps [OF s childPaths_inside [OF d [OF Some]]]
    by (simp add: list_dir_def entriesUnder_def case_prod_beta Let_def)
qed (simp add: list_dir_def keeps_refl s)

lemma web_list_keeps:
  assumes s: "spc_ok s"
  shows "keeps s (snd (ListByPath e p r q s))" "keeps s (snd (ListQuery e d q s))" "keeps s (snd (FolderListQuery e d q s))"
    "keeps s (snd (SearchFiles e d ns q s))"
proof -
  note D = dirFromDirectoryID_inside(3) [OF s]
  show "keeps s (snd (ListQuery e d q s))" "keeps s (snd (FolderListQuery e d q s))" "keeps s (snd (SearchFiles e d ns q s))"
    unfolding ListQuery_def FolderListQuery_def SearchFiles_def Let_def by (rule list_dir_keeps [OF s]; rule D; assumption)+
  have rt: "HasPrefix (spRoot s) ''/''" "clean_path (Clean (spRoot s))" using s spc_ok_root(1) [OF s] by (simp_all add: spc_ok_def)
  show "keeps s (snd (ListByPath e p r q s))"
    unfolding ListByPath_def
  proof (rule list_dir_keeps [OF s])
    fix dir
    assume "dirFromPath p s = Some dir"
    then obtain x where "SafeResolve (spRoot s) x = Some dir" by (auto simp: dirFromPath_def split: if_splits option.splits)
    then show "inside (Clean dir) (Clean (spRoot s))" using SafeResolve_inside [OF rt] clean_pathD(4) by metis
  qed
qed

lemma climb_crumbs_keeps:
  "spc_ok s \<Longrightarrow> clean_path cur \<Longrightarrow> inside cur (Clean (spRoot s)) \<Longrightarrow> keeps s (snd (climb_crumbs k e cur s))"
proof (induction k arbitrary: s cur)
  case (Suc k)
  have k: "keeps s (snd (EntryFor e cur s))" using EntryFor_keeps [OF Suc.prems(1,3), of e] by blast
  show ?case
  proof (cases "cur = Clean (spRoot s) \<or> \<not> HasPrefix cur (Clean (spRoot s))")
    case True
    then show ?thesis using k keeps_refl [OF Suc.prems(1)] by (auto simp: case_prod_beta Let_def)
  next
    case False
    have D: "clean_path (Dir cur) \<and> inside (Dir cur) (Clean (spRoot s))"
      using Dir_inside [OF spc_ok_root(1) [OF Suc.prems(1)] Suc.prems(2,3)] False by blast
    have "keeps (snd (EntryFor e cur s)) (snd (climb_crumbs k e (Dir cur) (snd (EntryFor e cur s))))"
      by (rule Suc.IH) (use k D keeps_ok [OF k] in \<open>simp_all add: keeps_def\<close>)
    then show ?thesis using False keeps_trans [OF k] by (simp add: case_prod_beta Let_def)
  qed
qed (simp add: keeps_refl)

lemma PathQuery_keeps:
  assumes s: "spc_ok s"
  shows "keeps s (snd (PathQuery e i d s))"
proof (cases "absFromID (firstNonEmpty [i, d]) s")
  case (Some p)
  have p: "clean_path p" "inside p (Clean (spRoot s))" using absFromID_inside [OF s Some] by auto
  obtain x t where x: "EntryFor e p s = (x, t)" by (cases "EntryFor e p s")
  have k: "keeps s t" using EntryFor_keeps [OF s p(2), of e] x by simp
  have r: "spRoot t = spRoot s" "spc_ok t" using k by (simp_all add: keeps_def)
  have "keeps t (snd (crumbs e p t))"
    using climb_crumbs_keeps [OF r(2), of p] keeps_refl [OF r(2)] p r(1) clean_pathD(4) [OF p(1)]
    by (simp add: crumbs_def case_prod_beta Let_def)
  then show ?thesis using Some x k keeps_trans [OF k] by (auto simp: PathQuery_def case_prod_beta Let_def split: option.splits)
qed (simp add: PathQuery_def keeps_refl s)

lemma RecycleDelete_keeps: "spc_ok s \<Longrightarrow> keeps s (RecycleDelete ids i s)"
  unfolding RecycleDelete_def by (rule fold_keeps) (rule recycle_delete_keeps)

lemmas request_keeps = ListFolder_keeps QueryByID_keeps QueryByPath_keeps CreateFolder_keeps DeleteFolder_keeps Move_keeps
  Copy_keeps FolderAdd_keeps webMoveCopy_keeps WebDelete_keeps RecycleList_keeps RecycleRevert_keeps RecycleDelete_keeps
  RecycleClear_keeps web_list_keeps PathQuery_keeps

lemma serve_keeps:
  assumes "spc_ok s" "contained_request rq s"
  shows "keeps s (serve e rq s)"
proof (cases rq)
  case (Web_Rename i n)
  have "resolveSource i s \<noteq> Some (j, Clean (spRoot s))" for j
    using assms(2) Web_Rename by (auto simp: contained_request_def)
  then show ?thesis using WebRename_keeps [OF assms(1)] Web_Rename by simp
qed (use assms request_keeps in \<open>simp_all add: contained_request_def\<close>)

lemma history_keeps: "history s rqs t \<Longrightarrow> spc_ok s \<Longrightarrow> keeps s t"
  by (induction rule: history.induct) (auto intro: keeps_refl keeps_trans serve_keeps keeps_ok)


text \<open>
  The file service stays in its storage root: along any history of requests, with the three breaking requests
  left out, the file system stays well-formed with unique ids and registered paths under the root, the uploads
  waiting to be finished are untouched, and no file or directory outside the root appears, changes or
  disappears - whatever paths, names and ids the requests carry.
\<close>

theorem requests_contained:
  assumes "spc_ok s" "history s rqs t"
  shows "spc_ok t \<and> spRoot t = spRoot s \<and> sgUploads (spSt t) = sgUploads (spSt s) \<and>
    (\<forall>q. \<not> inside q (Clean (spRoot s)) \<longrightarrow> map_of (fsFiles (spFs t)) q = map_of (fsFiles (spFs s)) q \<and> is_dir q (spFs t) = is_dir q (spFs s))"
  using history_keeps [OF assms(2,1)] by (simp add: keeps_def same_outside_def)

definition spc_demo :: spc where
  "spc_demo = \<lparr>spSt = \<lparr>sgRoot = ''/f'',
      sgFs = \<lparr>fsFiles = [(''/f/N/A/x.note'', \<lparr>ndContent = ''hi'', ndMtime = 3\<rparr>), (''/etc'', \<lparr>ndContent = ''p'', ndMtime = 0\<rparr>)],
              fsDirs = [''/f'', ''/f/N'', ''/f/N/A'']\<rparr>, sgUploads = []\<rparr>,
    spReg = \<lparr>rgRows = [(1, \<lparr>idPath = ''/f/N/A/x.note'', idMD5 = [], idSize = 0, idMtime = 0\<rparr>)], rgNext = 2\<rparr>, spHooks = []\<rparr>"

lemma spc_demo_ok: "spc_ok spc_demo"
  by code_simp

theorem requests_contained_witness:
  "content_at ''/etc'' (spFs (serve (spc_env_demo 5) (Web_Delete [''1'']) (serve (spc_env_demo 4) (Move_Entry ''1'' ''/../etc'' True) spc_demo))) = Some ''p''"
proof -
  have "contained_request (Move_Entry ''1'' ''/../etc'' True) spc_demo"
    "contained_request (Web_Delete [''1'']) (serve (spc_env_demo 4) (Move_Entry ''1'' ''/../etc'' True) spc_demo)"
    by (code_simp, simp add: contained_request_def)
  then have h: "history spc_demo [(spc_env_demo 4, Move_Entry ''1'' ''/../etc'' True), (spc_env_demo 5, Web_Delete [''1''])]
      (serve (spc_env_demo 5) (Web_Delete [''1'']) (serve (spc_env_demo 4) (Move_Entry ''1'' ''/../etc'' True) spc_demo))"
    by (simp only: history_simps)
  have "\<not> inside ''/etc'' (Clean (spRoot spc_demo))" "content_at ''/etc'' (spFs spc_demo) = Some ''p''"
    by code_simp+
  then show ?thesis using requests_contained [OF spc_demo_ok h] by (simp add: content_at_def)
qed

text \<open>The three requests are real: with autorename, a move to the root itself writes its file next to the root.\<close>

lemma numbered_first: "P (TrimSuffix d (Ext d) @ '' (1)'' @ Ext d) \<Longrightarrow> find P (numbered d) = Some (TrimSuffix d (Ext d) @ '' (1)'' @ Ext d)"
proof -
  have f: "FormatInt 1 = ''1''" by code_simp
  have "numbered d = (TrimSuffix d (Ext d) @ '' ('' @ FormatInt 1 @ '')'' @ Ext d) #
      map (\<lambda>n. TrimSuffix d (Ext d) @ '' ('' @ FormatInt n @ '')'' @ Ext d) [2..999]"
    unfolding numbered_def Let_def by (subst upto_rec1) simp_all
  then show "P (TrimSuffix d (Ext d) @ '' (1)'' @ Ext d) \<Longrightarrow> ?thesis" by (simp add: f)
qed

lemma autorename_breakout:
  "content_at ''/f (1)'' (spFs (serve (spc_env_demo 4) (Move_Entry ''1'' ''/'' True) spc_demo)) = Some ''hi'' \<and>
   \<not> inside ''/f (1)'' (Clean (spRoot spc_demo))"
proof -
  have n: "TrimSuffix ''/f'' (Ext ''/f'') @ '' (1)'' @ Ext ''/f'' = ''/f (1)''" by code_simp
  have "not_exist ''/f (1)'' (spFs spc_demo)" by code_simp
  then have "find (\<lambda>c. not_exist c (spFs spc_demo)) (numbered ''/f'') = Some ''/f (1)''"
    using numbered_first [of "\<lambda>c. not_exist c (spFs spc_demo)" "''/f''"] unfolding n by blast
  moreover have "SafeResolve (spRoot spc_demo) ''/'' = Some ''/f''" "\<not> not_exist ''/f'' (spFs spc_demo)" by code_simp+
  ultimately have t: "targetPath (spRoot spc_demo) ''/'' True (spFs spc_demo) = Some ''/f (1)''"
    by (simp add: targetPath_def)
  have r: "resolveSource ''1'' spc_demo = Some (1, ''/f/N/A/x.note'')" by code_simp
  show ?thesis unfolding serve.simps Move_def t r option.case prod.case by code_simp
qed

end
