(* ===== verification/Spc_Effects.thy ===== *)
theory Spc_Effects
  imports Spc_Requests
begin

text \<open>
  What single requests of the file service do: a move takes the whole tree along and the id with it, a deleted
  file comes back byte for byte, a listing shows exactly the visible children, the pages of a web listing
  partition it. The shared step is a rename into a directory made on the way, followed by the pruning of the
  directories the departure left empty, which never removes a file.
\<close>

section \<open>Making the way and renaming\<close>

lemma snoc_below: "segments p = segments d @ [z] \<Longrightarrow> below p q \<longleftrightarrow> inside d q"
proof
  assume p: "segments p = segments d @ [z]" and "below p q"
  then obtain zs where zs: "zs \<noteq> []" "segments d @ [z] = segments q @ zs" by (auto simp: below_iff)
  then obtain ys y where "zs = ys @ [y]" by (cases zs rule: rev_cases) auto
  then have "segments d = segments q @ ys" using zs(2) by simp
  then show "inside d q" unfolding inside_iff by blast
qed (auto simp: inside_iff below_iff)

lemma clean_child:
  assumes "clean_path p" "inside p r" "p \<noteq> r" "clean_path r"
  obtains z where "segments p = segments (Dir p) @ [z]" "clean_path (Dir p)" "inside (Dir p) r"
proof -
  obtain zs z where z: "segments p = segments r @ zs @ [z]" by (rule inside_cases [OF assms(2,3)])
  note D = Dir_clean_inside [OF assms(1) z assms(4)]
  have "inside (Dir p) r" using D(2) by (auto simp: inside_iff)
  moreover have "segments p = segments (Dir p) @ [z]" using z D(2) by simp
  ultimately show ?thesis using that D(1) by blast
qed

lemma not_exist_iff: "not_exist p f \<longleftrightarrow> p \<noteq> ''/'' \<and> \<not> exists_path p f \<and> (\<forall>q. is_file q f \<longrightarrow> \<not> below p q)"
proof -
  have "is_file q f \<longleftrightarrow> q \<in> fst ` set (fsFiles f)" for q
    by (simp add: is_file_def dom_map_of_conv_image_fst [symmetric] domIff)
  then have "list_ex (\<lambda>(q, _). below p q) (fsFiles f) \<longleftrightarrow> (\<exists>q. is_file q f \<and> below p q)"
    by (force simp: list_ex_iff)
  then show ?thesis by (simp add: not_exist_def)
qed

lemma mkdir_rename:
  assumes good: "good_fs r f" and dest: "clean_path dest" "inside dest r" "dest \<noteq> r" "not_exist dest f"
    and src: "exists_path src f" "\<not> below dest src"
  obtains g h where "MkdirAll (Dir dest) f = Some g" "fsFiles g = fsFiles f" "Rename src dest g = Some h" "stays r f g"
    "\<And>q. map_of (fsFiles h) q = (if inside q dest then map_of (fsFiles f) (src @ drop (length dest) q)
                               else if inside q src then None else map_of (fsFiles f) q)"
    "\<And>q. is_dir q h \<longleftrightarrow> (if inside q dest then is_dir (src @ drop (length dest) q) f
                          else \<not> inside q src \<and> (is_dir q f \<or> q \<in> set (upward (Dir dest))))"
proof -
  have ok: "fs_ok f" and cr: "clean_path r" using good good_fs_clean by (auto simp: good_fs_def)
  obtain z where z: "segments dest = segments (Dir dest) @ [z]" "clean_path (Dir dest)" "inside (Dir dest) r"
    by (rule clean_child [OF dest(1-3) cr])
  have D: "HasPrefix (Dir dest) ''/''" "Dir dest \<noteq> ''/''" using clean_pathD [OF z(2)] by auto
  have ne: "\<not> exists_path dest f" "\<And>q. is_file q f \<Longrightarrow> \<not> below dest q" using dest(4) by (auto simp: not_exist_iff)
  have up: "q \<in> set (upward (Dir dest)) \<longleftrightarrow> HasPrefix q ''/'' \<and> below dest q" for q
    using upward_rooted [OF D(1)] in_upward_inside [of q "Dir dest"] snoc_below [OF z(1), of q] by blast
  obtain g where g: "MkdirAll (Dir dest) f = Some g" using MkdirAll_ok [of "Dir dest" f] up ne(2) by blast
  have fg: "fsFiles g = fsFiles f" by (rule MkdirAll_files [OF g])
  have dg: "is_dir q g \<longleftrightarrow> is_dir q f \<or> (HasPrefix q ''/'' \<and> below dest q)" for q
    using MkdirAll_dirs [OF g D(2)] up by (auto simp: is_dir_def)
  have st: "stays r f g" by (rule MkdirAll_stays [OF good g z(2,3)])
  then have okg: "fs_ok g" by (simp add: stays_def good_fs_def)
  have pd: "HasPrefix dest ''/''" "dest \<noteq> ''/''" using clean_pathD [OF dest(1)] by auto
  have "parent_ok dest g" unfolding parent_ok_iff [OF pd(1)] using dg above_rooted [OF pd(1)] by blast
  moreover have "\<not> is_dir dest g" "\<not> is_file dest g" using ne(1) dg fg by (auto simp: exists_path_def is_file_def)
  moreover have "exists_path src g" using src(1) fg dg by (auto simp: exists_path_def is_file_def)
  ultimately obtain h where h: "Rename src dest g = Some h" using src(2) pd(2)
    by (cases "src = dest") (simp_all add: Rename_def)
  have nsd: "src \<noteq> dest" using src(1) ne(1) by blast
  then have nin: "\<not> inside dest src" using src(2) by (auto simp: inside_def)
  have both: "\<not> inside q src" if w: "inside q dest" for q
  proof
    assume "inside q src"
    then obtain us where us: "segments q = segments src @ us" by (auto simp: inside_iff)
    obtain vs where vs: "segments q = segments dest @ vs" using w by (auto simp: inside_iff)
    have "segments src @ us = segments dest @ vs" by (rule trans [OF us [symmetric] vs])
    then have "(\<exists>zs. segments src = segments dest @ zs) \<or> (\<exists>zs. segments src @ zs = segments dest)"
      unfolding append_eq_append_conv2 by blast
    then have "inside src dest \<or> inside dest src" unfolding inside_iff by (rule disjE) (blast, metis)
    then have "inside src dest" using nin by blast
    moreover have "dest \<noteq> []" using pd(1) by (auto simp: HasPrefix_def)
    ultimately show False using exists_above [OF ok src(1)] ne(1) by blast
  qed
  have um: "unmoved src dest q = (if inside q dest then src @ drop (length dest) q else q)" for q
    by (simp add: unmoved_def)
  have nb: "\<not> below dest (src @ drop (length dest) q)" if "inside q dest" for q
  proof
    assume b: "below dest (src @ drop (length dest) q)"
    have "inside (src @ drop (length dest) q) src" by (rule inside_replace [OF that])
    then have "below dest src" by (rule below_inside_trans(1) [OF b])
    then show False using src(2) by blast
  qed
  note mv = Rename_moves [OF okg h nsd pd(1)]
  have "map_of (fsFiles h) q = (if inside q dest then map_of (fsFiles f) (src @ drop (length dest) q)
      else if inside q src then None else map_of (fsFiles f) q)" for q
    using mv(1) [of q] both [of q] um [of q] fg by simp
  moreover have "is_dir q h \<longleftrightarrow> (if inside q dest then is_dir (src @ drop (length dest) q) f
      else \<not> inside q src \<and> (is_dir q f \<or> q \<in> set (upward (Dir dest))))" for q
    using mv(2) [of q] both [of q] um [of q] nb [of q] dg up by auto
  ultimately show ?thesis using that [OF g fg h st] by blast
qed

text \<open>Pruning removes only directories at or above its start.\<close>

lemma Remove_dir:
  assumes "fs_ok f" "Remove d f = Some g" "is_dir d f"
  shows "fsFiles g = fsFiles f \<and> (\<forall>q. is_dir q g \<longleftrightarrow> is_dir q f \<and> q \<noteq> d)"
proof -
  have "\<not> is_file d f" using assms(1,3) by (auto simp: fs_ok_def)
  then have "g = f\<lparr>fsDirs := removeAll d (fsDirs f)\<rparr>" using assms(2) by (auto simp: Remove_def split: if_splits)
  then show ?thesis by (auto simp: is_dir_def)
qed

lemma prune_files:
  assumes "good_fs (Clean b) f" "clean_path dir" "inside dir (Clean b)" "is_dir dir f"
  shows "fsFiles (prune k b dir f) = fsFiles f \<and> (\<forall>q. is_dir q (prune k b dir f) \<longrightarrow> is_dir q f) \<and>
    (\<forall>q. is_dir q f \<longrightarrow> \<not> inside dir q \<longrightarrow> is_dir q (prune k b dir f))"
  using assms
proof (induction k arbitrary: dir f)
  case (Suc k)
  have cb: "clean_path (Clean b)" by (rule good_fs_clean [OF Suc.prems(1)])
  have ok: "fs_ok f" using Suc.prems(1) by (simp add: good_fs_def)
  show ?case
  proof (cases "length (relNames b dir) < 3 \<or> Remove dir f = None")
    case True
    then show ?thesis by auto
  next
    case False
    then obtain g where g: "Remove dir f = Some g" by auto
    obtain zs where zs: "segments dir = segments (Clean b) @ zs" using Suc.prems(3) by (auto simp: inside_iff)
    have rel: "relNames b dir = zs" using relNames_inside [OF cb Suc.prems(2) zs] relNames_Clean [OF cb] by simp
    then have ne: "dir \<noteq> Clean b" using False zs by auto
    obtain z where D: "segments dir = segments (Dir dir) @ [z]" "clean_path (Dir dir)" "inside (Dir dir) (Clean b)"
      by (rule clean_child [OF Suc.prems(2,3) ne cb])
    have bl: "below dir (Dir dir)" using snoc_below [OF D(1), of "Dir dir"] by (simp add: inside_def)
    have gr: "fsFiles g = fsFiles f" "\<And>q. is_dir q g \<longleftrightarrow> is_dir q f \<and> q \<noteq> dir" using Remove_dir [OF ok g Suc.prems(4)] by auto
    have "is_dir (Dir dir) f" using ok bl Suc.prems(4) clean_pathD(3) [OF D(2)] unfolding fs_ok_def exists_path_def by blast
    then have dd: "is_dir (Dir dir) g" using gr(2) bl below_irrefl by metis
    have "good_fs (Clean b) g" by (rule stays_good [OF Remove_stays [OF Suc.prems(1) g Suc.prems(3) ne]])
    note IH = Suc.IH [OF this D(2,3) dd]
    have "inside dir q" if "inside (Dir dir) q" for q using snoc_below [OF D(1)] that by (auto simp: inside_def)
    moreover have "inside dir dir" by (simp add: inside_def)
    moreover have "prune (Suc k) b dir f = prune k b (Dir dir) g" using False g by simp
    ultimately show ?thesis using IH gr(1) gr(2) by metis
  qed
qed simp

lemma pruneEmptyParents_files:
  assumes "good_fs (Clean b) f" "clean_path p" "inside p (Clean b)" "p \<noteq> Clean b" "is_dir (Dir p) f"
  shows "fsFiles (pruneEmptyParents b (Dir p) f) = fsFiles f"
    and "exists_path q f \<Longrightarrow> \<not> inside p q \<Longrightarrow> exists_path q (pruneEmptyParents b (Dir p) f)"
    and "is_file q f \<longleftrightarrow> is_file q (pruneEmptyParents b (Dir p) f)"
    and "is_dir q (pruneEmptyParents b (Dir p) f) \<Longrightarrow> is_dir q f"
proof -
  have cb: "clean_path (Clean b)" by (rule good_fs_clean [OF assms(1)])
  obtain z where D: "segments p = segments (Dir p) @ [z]" "clean_path (Dir p)" "inside (Dir p) (Clean b)"
    by (rule clean_child [OF assms(2-4) cb])
  note pr = prune_files [OF assms(1) D(2,3) assms(5), of "length (segments (Dir p))", folded pruneEmptyParents_def]
  show f: "fsFiles (pruneEmptyParents b (Dir p) f) = fsFiles f" by (rule conjunct1 [OF pr])
  then show "is_file q f \<longleftrightarrow> is_file q (pruneEmptyParents b (Dir p) f)" by (simp add: is_file_def)
  show "is_dir q (pruneEmptyParents b (Dir p) f) \<Longrightarrow> is_dir q f" using pr by blast
  have "inside p q" if "inside (Dir p) q" using snoc_below [OF D(1), of q] that by (simp add: inside_def)
  then have "is_dir q f \<Longrightarrow> \<not> inside p q \<Longrightarrow> is_dir q (pruneEmptyParents b (Dir p) f)" using pr by blast
  then show "exists_path q f \<Longrightarrow> \<not> inside p q \<Longrightarrow> exists_path q (pruneEmptyParents b (Dir p) f)"
    using f by (auto simp: exists_path_def is_file_def)
qed


text \<open>Making the way, renaming and pruning, as moves, deletions and restores do it.\<close>

definition relocated :: "string \<Rightarrow> string \<Rightarrow> (string \<Rightarrow> string option) \<Rightarrow> string \<Rightarrow> string option" where
  "relocated src dest c q =
     (if inside q dest then c (src @ drop (length dest) q) else if inside q src then None else c q)"

lemma relocate:
  assumes good: "good_fs (Clean b) f" and dest: "clean_path dest" "inside dest (Clean b)" "dest \<noteq> Clean b" "not_exist dest f"
    and src: "clean_path src" "inside src (Clean b)" "exists_path src f" "\<not> below dest src"
  obtains g h where "MkdirAll (Dir dest) f = Some g" "Rename src dest g = Some h" "stays (Clean b) f g" "stays (Clean b) f h"
    "stays (Clean b) f (pruneEmptyParents b (Dir src) h)"
    "\<And>q. content_at q (pruneEmptyParents b (Dir src) h) = relocated src dest (\<lambda>q. content_at q f) q"
    "exists_path dest (pruneEmptyParents b (Dir src) h)" "\<not> exists_path src (pruneEmptyParents b (Dir src) h)"
proof -
  have ok: "fs_ok f" and cb: "clean_path (Clean b)" using good good_fs_clean by (auto simp: good_fs_def)
  obtain g h where g: "MkdirAll (Dir dest) f = Some g" "fsFiles g = fsFiles f" "Rename src dest g = Some h" "stays (Clean b) f g"
    and fl: "\<And>q. map_of (fsFiles h) q = (if inside q dest then map_of (fsFiles f) (src @ drop (length dest) q)
                               else if inside q src then None else map_of (fsFiles f) q)"
    and dr: "\<And>q. is_dir q h \<longleftrightarrow> (if inside q dest then is_dir (src @ drop (length dest) q) f
                          else \<not> inside q src \<and> (is_dir q f \<or> q \<in> set (upward (Dir dest))))"
    by (rule mkdir_rename [OF good dest src(3,4)]) (rule that; (assumption | simp only:))
  have st: "stays (Clean b) f h" by (rule stays_trans [OF g(4) Rename_stays [OF stays_good [OF g(4)] g(3) src(2) dest(1,2)]])
  have ne: "src \<noteq> Clean b" using src(4) dest(2,3) by (auto simp: inside_def)
  have nid: "\<not> inside src dest"
  proof
    assume "inside src dest"
    then have "exists_path dest f" by (rule exists_above [OF ok src(3)]) (rule clean_pathD(3) [OF dest(1)])
    then show False using dest(4) by (simp add: not_exist_iff)
  qed
  obtain z where D: "segments src = segments (Dir src) @ [z]" "clean_path (Dir src)" "inside (Dir src) (Clean b)"
    by (rule clean_child [OF src(1,2) ne cb])
  note bl = snoc_below [OF D(1)]
  have "below src (Dir src)" using bl by (simp add: inside_def)
  then have "is_dir (Dir src) f" using ok src(3) clean_pathD(3) [OF D(2)] unfolding fs_ok_def by blast
  moreover have "\<not> inside (Dir src) dest" using nid bl [of dest] by (auto simp: inside_def)
  moreover have "\<not> inside (Dir src) src" using bl [of src] by simp
  ultimately have dd: "is_dir (Dir src) h" using dr [of "Dir src"] by simp
  note pf = pruneEmptyParents_files [OF stays_good [OF st] src(1,2) ne dd]
  have "exists_path dest h" using fl [of dest] dr [of dest] src(3)
    by (auto simp: exists_path_def is_file_def inside_def)
  then have ex: "exists_path dest (pruneEmptyParents b (Dir src) h)" using pf(2) nid by blast
  have "\<not> exists_path src h" using fl [of src] dr [of src] nid by (simp add: exists_path_def is_file_def inside_def)
  then have gone: "\<not> exists_path src (pruneEmptyParents b (Dir src) h)" using pf(1) pf(4) by (auto simp: exists_path_def is_file_def)
  have "content_at q (pruneEmptyParents b (Dir src) h) = relocated src dest (\<lambda>q. content_at q f) q" for q
    using fl [of q] pf(1) by (simp add: content_at_def relocated_def)
  moreover have "stays (Clean b) f (pruneEmptyParents b (Dir src) h)"
    by (rule stays_trans [OF st pruneEmptyParents_stays [OF stays_good [OF st] src(1,2)]])
  ultimately show ?thesis using that [OF g(1,3,4) st] ex gone by blast
qed

section \<open>Moving\<close>

text \<open>The id follows the file unless the new path is registered already.\<close>

lemma EntryFor_id:
  assumes "spc_ok s" "inside p (Clean (spRoot s))" "exists_path p (spFs s)"
  obtains x r where "EntryFor e p s = (Some x, with_reg r s)" "enPath x = displayPath (spRoot s) p" "enFolder x = is_dir p (spFs s)"
    "PathFor (enID x) r = Some p" "\<And>i q. PathFor i (spReg s) = Some q \<Longrightarrow> PathFor i r = Some q"
    "\<And>i. PathFor i (spReg s) = Some p \<Longrightarrow> enID x = i" "rg_ok r"
proof -
  have c: "clean_path p" using assms by (auto simp: spc_ok_def good_fs_def fs_clean_iff)
  have ok: "rg_ok (spReg s)" using assms(1) by (simp add: spc_ok_def)
  obtain r x where x: "EntryFor e p s = (Some x, with_reg r s)" "rg_ok r" "\<And>i. PathFor i r = PathFor i (snd (IDFor p (spReg s)))"
    "enID x = fst (IDFor p (spReg s))" "enPath x = displayPath (spRoot s) p" "enFolder x = is_dir p (spFs s)"
    by (rule EntryFor_reg [OF assms, of e]) (rule that; (assumption | simp only:))
  have "PathFor (enID x) r = Some p" unfolding x(3,4) using IDFor_PathFor [OF ok, of p] clean_pathD(4) [OF c] by simp
  moreover have "enID x = i" if "PathFor i (spReg s) = Some p" for i
    unfolding x(4) using IDFor_stable [OF ok, of i p] that clean_pathD(4) [OF c] by simp
  ultimately show ?thesis using that [OF x(1,5,6) _ _ _ x(2)] IDFor_keeps x(3) by metis
qed

lemma UpdatePath_cases:
  assumes s: "spc_ok s" and i: "PathFor i (spReg s) = Some src" and d: "clean_path dest" "dest \<noteq> src"
  shows "(\<exists>j. PathFor j (spReg s) = Some dest) \<and> UpdatePath i dest (spReg s) = None \<or>
    (\<forall>j. PathFor j (spReg s) \<noteq> Some dest) \<and> (\<exists>r. UpdatePath i dest (spReg s) = Some r \<and> PathFor i r = Some dest)"
proof -
  have iff: "UpdatePath i dest (spReg s) = None \<longleftrightarrow> (\<exists>j. j \<noteq> i \<and> PathFor j (spReg s) = Some dest)"
    using UpdatePath_None_iff [of "spReg s" i dest] s i clean_pathD(4) [OF d(1)] by (simp add: spc_ok_def)
  show ?thesis
  proof (cases "UpdatePath i dest (spReg s)")
    case (Some r)
    then have "PathFor i r = Some dest" using UpdatePath_PathFor [OF Some, of i] i clean_pathD(4) [OF d(1)] by simp
    moreover have "PathFor j (spReg s) \<noteq> Some dest" for j using Some iff i d(2) by (cases "j = i") auto
    ultimately show ?thesis using Some by blast
  qed (use iff in blast)
qed


lemma EntryFor_fs: "spSt (snd (EntryFor e p s)) = spSt s"
  by (simp add: EntryFor_def with_reg_def Let_def case_prod_beta split: option.splits)

text \<open>
  C30. Moving takes the whole tree along: afterwards the target holds what the source held, path by path, the source
  holds nothing and every other file is as before, although directories left empty may have been pruned. The id
  follows to the new path exactly when no other id is registered there; otherwise the answer carries that other
  id and the moved one is left pointing at the path it came from.
\<close>

theorem Move_effect:
  assumes s: "spc_ok s" and src: "resolveSource rawID s = Some (i, src)"
    and t: "targetPath (spRoot s) toPath autorename (spFs s) = Some dest"
    and no: "\<not> (autorename \<and> SafeResolve (spRoot s) toPath = Some (Clean (spRoot s)))" "\<not> below dest src"
  shows "\<exists>x t. Move e rawID toPath autorename s = (Inr x, t) \<and> enPath x = displayPath (spRoot s) dest \<and>
    (\<forall>q. content_at q (spFs t) = relocated src dest (\<lambda>q. content_at q (spFs s)) q) \<and>
    PathFor (enID x) (spReg t) = Some dest \<and> (PathFor i (spReg t) = Some dest \<longleftrightarrow> enID x = i) \<and>
    (enID x = i \<longleftrightarrow> (\<forall>j. PathFor j (spReg s) \<noteq> Some dest)) \<and> (enID x \<noteq> i \<longrightarrow> PathFor i (spReg t) = Some src)"
proof -
  define b where "b = spRoot s"
  have b: "HasPrefix b ''/''" "clean_path (Clean b)" "is_dir (Clean b) (spFs s)" "good_fs (Clean b) (spFs s)"
    using s spc_ok_root [OF s] by (simp_all add: b_def spc_ok_def)
  have d: "clean_path dest" "inside dest (Clean b)" "dest \<noteq> Clean b" "not_exist dest (spFs s)"
    using targetPath_inside [OF b(1,2) _ b(3)] t no(1) by (simp_all add: b_def)
  have r: "clean_path src" "inside src (Clean b)" "exists_path src (spFs s)" "PathFor i (spReg s) = Some src"
    using resolveSource_path [OF s src] by (simp_all add: b_def)
  have ne: "dest \<noteq> src" "dest \<noteq> []" using d(4) r(3) clean_pathD(3) [OF d(1)] by (auto simp: not_exist_iff)
  obtain g h where g: "MkdirAll (Dir dest) (spFs s) = Some g" "Rename src dest g = Some h" "stays (Clean b) (spFs s) g"
    and c: "\<And>q. content_at q (pruneEmptyParents b (Dir src) h) = relocated src dest (\<lambda>q. content_at q (spFs s)) q"
    and ex: "exists_path dest (pruneEmptyParents b (Dir src) h)"
    by (rule relocate [OF b(4) d r(1-3) no(2)]) (rule that; (assumption | simp only:))
  define f where "f = pruneEmptyParents b (Dir src) h"
  define u where "u = (case UpdatePath i dest (spReg s) of None \<Rightarrow> spReg s | Some r \<Rightarrow> r)"
  define s1 where "s1 = with_fs f (emit (ReindexMove src dest) (with_reg u (with_fs h s)))"
  have idem: "with_fs x (with_fs y s) = with_fs x s" "with_reg (spReg s) (with_fs x s) = with_fs x s" for x y
    by (simp_all add: with_fs_def with_reg_def)
  have mv: "move_to i src dest True (with_fs g s) = Some s1"
    unfolding move_to_def using g(2) ne(2)
    by (auto simp: s1_def u_def f_def b_def Let_def idem split: option.splits)
  have kg: "keeps s (with_fs g s)" by (rule with_fs_keeps [OF s]) (use g(3) in \<open>simp add: b_def\<close>)
  have k: "keeps s s1"
    by (rule keeps_trans [OF kg move_to_keeps [OF keeps_ok [OF kg] r(1) _ _ mv]]) (use r(2) d in \<open>simp_all add: b_def\<close>)
  have s1: "spFs s1 = f" "spReg s1 = u" "spRoot s1 = b" by (simp_all add: s1_def b_def)
  obtain x r' where x: "EntryFor e dest s1 = (Some x, with_reg r' s1)" "enPath x = displayPath (spRoot s1) dest"
    "PathFor (enID x) r' = Some dest" "\<And>i q. PathFor i (spReg s1) = Some q \<Longrightarrow> PathFor i r' = Some q"
    "\<And>i. PathFor i (spReg s1) = Some dest \<Longrightarrow> enID x = i" "rg_ok r'"
    by (rule EntryFor_id [OF keeps_ok [OF k], of dest e]) (use d(2) ex s1 in \<open>simp_all add: f_def\<close>)
  have m: "Move e rawID toPath autorename s = (Inr x, emit NotifyFile (with_reg r' s1))"
    using src t g(1) mv x(1) by (simp add: Move_def respondEntry_def)
  consider j where "PathFor j (spReg s) = Some dest" "UpdatePath i dest (spReg s) = None"
    | r where "\<forall>j. PathFor j (spReg s) \<noteq> Some dest" "UpdatePath i dest (spReg s) = Some r" "PathFor i r = Some dest"
    using UpdatePath_cases [OF s r(4) d(1) ne(1)] by blast
  then have reg: "(PathFor i r' = Some dest \<longleftrightarrow> enID x = i) \<and> (enID x = i \<longleftrightarrow> (\<forall>j. PathFor j (spReg s) \<noteq> Some dest)) \<and>
    (enID x \<noteq> i \<longrightarrow> PathFor i r' = Some src)"
  proof cases
    case (1 j)
    then have u: "u = spReg s" by (simp add: u_def)
    have "enID x = j" "PathFor i r' = Some src" using x(4,5) 1(1) r(4) by (simp_all add: s1 u)
    moreover have "j \<noteq> i" using 1(1) r(4) ne(1) by auto
    ultimately show ?thesis using 1(1) ne(1) by auto
  next
    case (2 w)
    then have u: "u = w" by (simp add: u_def)
    have "enID x = i" "PathFor i r' = Some dest" using x(4,5) 2(3) by (simp_all add: s1 u)
    then show ?thesis using 2(1) by simp
  qed
  have "enPath x = displayPath (spRoot s) dest" using x(2) s1(3) by (simp add: b_def)
  then show ?thesis
    unfolding m using reg x(3) c by (intro exI [of _ x] exI [of _ "emit NotifyFile (with_reg r' s1)"]) (simp add: s1(1) f_def)
qed


section \<open>Listings\<close>

definition shows_path :: "spc \<Rightarrow> string \<Rightarrow> entry \<Rightarrow> bool" where
  "shows_path s p x \<longleftrightarrow> enPath x = displayPath (spRoot s) p \<and> enFolder x = is_dir p (spFs s) \<and> PathFor (enID x) (spReg s) = Some p"

lemma entries_for_exact:
  assumes "spc_ok s" "\<forall>p \<in> set ps. inside p (Clean (spRoot s)) \<and> exists_path p (spFs s)" "entries_for e ps s = (es, t)"
  shows "list_all2 (shows_path t) ps es \<and> spSt t = spSt s \<and> spc_ok t \<and> (\<forall>i q. PathFor i (spReg s) = Some q \<longrightarrow> PathFor i (spReg t) = Some q)"
  using assms
proof (induction ps arbitrary: s es)
  case (Cons p ps)
  have p: "inside p (Clean (spRoot s))" "exists_path p (spFs s)" using Cons.prems(2) by simp_all
  obtain x r where x: "EntryFor e p s = (Some x, with_reg r s)" "enPath x = displayPath (spRoot s) p" "enFolder x = is_dir p (spFs s)"
    "PathFor (enID x) r = Some p" "\<And>i q. PathFor i (spReg s) = Some q \<Longrightarrow> PathFor i r = Some q"
    by (rule EntryFor_id [OF Cons.prems(1) p, of e]) (rule that; (assumption | simp only:))
  have k: "keeps s (with_reg r s)" using EntryFor_keeps [OF Cons.prems(1) p(1), of e] x(1) by simp
  obtain xs where xs: "entries_for e ps (with_reg r s) = (xs, t)" "es = x # xs"
    using Cons.prems(3) x(1) by (cases "entries_for e ps (with_reg r s)") (auto simp: Let_def)
  have st: "spSt (with_reg r s) = spSt s" by (simp add: with_reg_def)
  have IH: "list_all2 (shows_path t) ps xs \<and> spSt t = spSt (with_reg r s) \<and> spc_ok t \<and>
      (\<forall>i q. PathFor i (spReg (with_reg r s)) = Some q \<longrightarrow> PathFor i (spReg t) = Some q)"
    by (rule Cons.IH [OF keeps_ok [OF k] _ xs(1)]) (use Cons.prems(2) st in simp)
  then have "shows_path t p x" using x(2-4) st by (simp add: shows_path_def)
  then show ?case using IH x(5) xs(2) st by simp
qed simp

definition listed_child :: "string \<Rightarrow> bool \<Rightarrow> fs \<Rightarrow> string \<Rightarrow> bool" where
  "listed_child dir recursive f p \<longleftrightarrow> exists_path p f \<and>
     (\<exists>rel. rel \<noteq> [] \<and> segments p = segments (Clean dir) @ rel \<and> (recursive \<or> length rel = 1) \<and> list_all (\<lambda>n. \<not> HasPrefix n ''.'') rel)"

lemma childPaths_listed: "p \<in> set (childPaths dir r f) \<longleftrightarrow> listed_child dir r f p"
proof -
  have "p \<in> set (map fst (fsFiles f)) \<longleftrightarrow> is_file p f"
    by (simp add: is_file_def dom_map_of_conv_image_fst [symmetric] domIff)
  then have ex: "p \<in> set (map fst (fsFiles f) @ fsDirs f) \<longleftrightarrow> exists_path p f" by (simp add: exists_path_def is_dir_def)
  have "below p (Clean dir) \<and> Q (drop (length (segments (Clean dir))) (segments p)) \<longleftrightarrow>
      (\<exists>rel. rel \<noteq> [] \<and> segments p = segments (Clean dir) @ rel \<and> Q rel)" for Q
    by (auto simp: below_iff)
  note this [of "\<lambda>rel. (if r then True else length rel = 1) \<and> list_all (\<lambda>n. \<not> isHidden n) rel"]
  then show ?thesis using ex unfolding listed_child_def isHidden_def [symmetric] childPaths_def Let_def set_sort set_filter mem_Collect_eq by auto
qed

lemma childPaths_distinct: "fs_ok f \<Longrightarrow> distinct (childPaths dir r f)"
proof -
  assume ok: "fs_ok f"
  have "is_file q f" if "q \<in> set (map fst (fsFiles f))" for q
    using that by (simp add: is_file_def dom_map_of_conv_image_fst [symmetric] domIff)
  then have "set (map fst (fsFiles f)) \<inter> set (fsDirs f) = {}"
    using ok unfolding fs_ok_def is_dir_def by blast
  then have "distinct (map fst (fsFiles f) @ fsDirs f)" using ok by (simp add: fs_ok_def)
  then show ?thesis unfolding childPaths_def Let_def distinct_sort by (rule distinct_filter)
qed

lemma ListFolder_entries:
  assumes s: "spc_ok s" and d: "resolveDir i s = Some dir" and l: "ListFolder e i r s = (es, t)"
  shows "\<exists>xs. list_all2 (shows_path t) (childPaths dir r (spFs s)) xs \<and> es = sortEntries xs \<and> spSt t = spSt s \<and> spc_ok t \<and>
    (\<forall>i q. PathFor i (spReg s) = Some q \<longrightarrow> PathFor i (spReg t) = Some q)"
proof -
  obtain xs where x: "entries_for e (childPaths dir r (spFs s)) s = (xs, t)" "es = sortEntries xs"
    using l d by (cases "entries_for e (childPaths dir r (spFs s)) s") (auto simp: ListFolder_def Let_def)
  have "inside (Clean dir) (Clean (spRoot s))" using resolveDir_inside [OF s d] clean_pathD(4) by metis
  then have "\<forall>p \<in> set (childPaths dir r (spFs s)). inside p (Clean (spRoot s)) \<and> exists_path p (spFs s)"
    using childPaths_inside by (auto simp: childPaths_listed listed_child_def)
  then show ?thesis using entries_for_exact [OF s _ x(1)] x(2) by blast
qed


lemma shows_distinct:
  assumes "list_all2 (shows_path t) ps xs" "distinct ps"
  shows "distinct (map enID xs)"
proof -
  have "map (\<lambda>x. PathFor (enID x) (spReg t)) xs = map Some ps"
    using assms(1) by (induction rule: list_all2_induct) (simp_all add: shows_path_def)
  then have "distinct (map (\<lambda>i. PathFor i (spReg t)) (map enID xs))" using assms(2) by (simp add: comp_def distinct_map)
  then show ?thesis by (auto simp: distinct_map intro: inj_on_imageI2)
qed

lemma list_all2_members:
  "list_all2 P xs ys \<Longrightarrow> (\<forall>y \<in> set ys. \<exists>x \<in> set xs. P x y) \<and> (\<forall>x \<in> set xs. \<exists>y \<in> set ys. P x y)"
  by (induction rule: list_all2_induct) auto

lemma sortEntries_facts: "set (sortEntries xs) = set xs" "distinct (map enID (sortEntries xs)) \<longleftrightarrow> distinct (map enID xs)"
  "sorted_wrt (\<lambda>x y. (\<not> enFolder x, enPath x) \<le> (\<not> enFolder y, enPath y)) (sortEntries xs)"
proof -
  show "set (sortEntries xs) = set xs" by (simp add: sortEntries_def)
  show "distinct (map enID (sortEntries xs)) \<longleftrightarrow> distinct (map enID xs)"
    by (rule mset_eq_imp_distinct_iff) (simp add: sortEntries_def)
  show "sorted_wrt (\<lambda>x y. (\<not> enFolder x, enPath x) \<le> (\<not> enFolder y, enPath y)) (sortEntries xs)"
    using sorted_sort_key [of "\<lambda>x. (\<not> enFolder x, enPath x)" xs] by (simp only: sorted_map sortEntries_def)
qed

text \<open>
  A folder listing is exact: it shows precisely the children of the folder (all descendants, when asked
  recursively) with no dotted name below the folder, each once, folders before files and each kind in path
  order; every id it shows resolves to the path it stands for, and the files are not touched.
\<close>

theorem ListFolder_exact:
  assumes "spc_ok s" "resolveDir i s = Some dir" "ListFolder e i r s = (es, t)"
  shows "(\<forall>x \<in> set es. \<exists>p. listed_child dir r (spFs s) p \<and> shows_path t p x) \<and>
    (\<forall>p. listed_child dir r (spFs s) p \<longrightarrow> (\<exists>x \<in> set es. shows_path t p x)) \<and> distinct (map enID es) \<and>
    sorted_wrt (\<lambda>x y. (\<not> enFolder x, enPath x) \<le> (\<not> enFolder y, enPath y)) es \<and> spFs t = spFs s"
proof -
  obtain xs where x: "list_all2 (shows_path t) (childPaths dir r (spFs s)) xs" "es = sortEntries xs" "spSt t = spSt s"
    using ListFolder_entries [OF assms] by blast
  have "distinct (map enID xs)"
    using shows_distinct [OF x(1) childPaths_distinct] assms(1) by (simp add: spc_ok_def good_fs_def)
  moreover have "\<exists>p. listed_child dir r (spFs s) p \<and> shows_path t p y" if y: "y \<in> set xs" for y
    using list_all2_members [OF x(1)] y childPaths_listed by blast
  moreover have "\<exists>y \<in> set xs. shows_path t p y" if "listed_child dir r (spFs s) p" for p
    using list_all2_members [OF x(1)] that childPaths_listed by blast
  ultimately show ?thesis unfolding x(2) using x(3) sortEntries_facts [of xs] by simp
qed

section \<open>Paging\<close>

lemma web_page_nth:
  assumes "1 \<le> n" "int (length xs) + n \<le> max_int64" "1 \<le> k" "k * n \<le> max_int64"
  shows "web_page xs k n = Some (take (nat n) (drop (nat ((k - 1) * n)) xs))"
proof -
  have le: "0 \<le> (k - 1) * n" "k * n = (k - 1) * n + n" "k - 1 \<le> (k - 1) * n"
    using assms(1,3) mult_left_mono [of 1 n "k - 1"] by (simp_all add: algebra_simps)
  have w1: "wrap64 (k - 1) = k - 1" by (rule wrap64_id) (use le assms in \<open>simp add: int64_def\<close>)
  have w2: "wrap64 ((k - 1) * n) = (k - 1) * n" by (rule wrap64_id) (use le assms in \<open>simp add: int64_def\<close>)
  show ?thesis
  proof (cases "(k - 1) * n > int (length xs)")
    case True
    have "wrap64 (int (length xs) + n) = int (length xs) + n" by (rule wrap64_id) (use assms in \<open>simp add: int64_def\<close>)
    then show ?thesis using True assms(1) by (simp add: web_page_def Let_def w1 w2)
  next
    case False
    have w3: "wrap64 ((k - 1) * n + n) = (k - 1) * n + n" by (rule wrap64_id) (use le assms False in \<open>simp add: int64_def\<close>)
    define m where "m = nat ((k - 1) * n)"
    have m: "(k - 1) * n = int m" "m \<le> length xs" using le(1) False by (simp_all add: m_def)
    have "take (min (nat n) (length xs - m)) (drop m xs) = take (nat n) (drop m xs)" by (simp add: min_def)
    have "web_page xs k n = Some (take (nat ((if int m + n > int (length xs) then int (length xs) else int m + n) - int m)) (drop m xs))"
      using False assms(1) m(2) w3 unfolding web_page_def Let_def w1 w2 unfolding m(1) by auto
    moreover have "nat ((if int m + n > int (length xs) then int (length xs) else int m + n) - int m) = min (nat n) (length xs - m)"
      using assms(1) by (auto simp: min_def nat_diff_distrib')
    ultimately show ?thesis using \<open>take _ _ = take _ _\<close> m(1) by simp
  qed
qed

text \<open>
  The pages of a web listing partition it: requesting the pages 1, 2, ..., m of any size in turn never panics and
  yields the first \<open>m * n\<close> entries in order, none twice and none missing, as long as the product stays within 64
  bits. (Past that the start of the slice wraps around and the handler panics.)
\<close>

theorem web_page_partition:
  assumes "1 \<le> n" "int (length xs) + n \<le> max_int64" "int m * n \<le> max_int64"
  shows "list_all (\<lambda>k. web_page xs k n \<noteq> None) [1..int m] \<and>
    concat (map (\<lambda>k. the (web_page xs k n)) [1..int m]) = take (nat (int m * n)) xs"
  using assms(3)
proof (induction m)
  case (Suc m)
  have le: "int m * n \<le> int (Suc m) * n" using assms(1) by (intro mult_right_mono) simp_all
  have pg: "web_page xs (int (Suc m)) n = Some (take (nat n) (drop (nat (int m * n)) xs))"
    using web_page_nth [OF assms(1,2), of "int (Suc m)"] Suc.prems by simp
  have up: "[1..int (Suc m)] = [1..int m] @ [int (Suc m)]" using upto_rec2 [of 1 "int (Suc m)"] by simp
  have "nat (int (Suc m) * n) = nat (int m * n) + nat n" using assms(1) by (simp add: algebra_simps nat_add_distrib)
  then have "take (nat (int m * n)) xs @ take (nat n) (drop (nat (int m * n)) xs) = take (nat (int (Suc m) * n)) xs"
    by (simp add: take_add)
  then show ?case unfolding up using Suc.IH le Suc.prems pg by simp
qed simp


section \<open>Examples\<close>

theorem Move_effect_witness:
  "\<exists>x t. Move (spc_env_demo 4) ''1'' ''/N/B/y.note'' False spc_demo = (Inr x, t) \<and>
     content_at ''/f/N/B/y.note'' (spFs t) = Some ''hi'' \<and> content_at ''/f/N/A/x.note'' (spFs t) = None \<and>
     PathFor 1 (spReg t) = Some ''/f/N/B/y.note''"
proof -
  have "resolveSource ''1'' spc_demo = Some (1, ''/f/N/A/x.note'')"
    "targetPath (spRoot spc_demo) ''/N/B/y.note'' False (spFs spc_demo) = Some ''/f/N/B/y.note''"
    "\<not> (False \<and> SafeResolve (spRoot spc_demo) ''/N/B/y.note'' = Some (Clean (spRoot spc_demo)))"
    "\<not> below ''/f/N/B/y.note'' ''/f/N/A/x.note''" by code_simp+
  from Move_effect [OF spc_demo_ok this, of "spc_env_demo 4"]
  obtain x t where m: "Move (spc_env_demo 4) ''1'' ''/N/B/y.note'' False spc_demo = (Inr x, t)"
    "\<And>q. content_at q (spFs t) = relocated ''/f/N/A/x.note'' ''/f/N/B/y.note'' (\<lambda>q. content_at q (spFs spc_demo)) q"
    "PathFor 1 (spReg t) = Some ''/f/N/B/y.note'' \<longleftrightarrow> (\<forall>j. PathFor j (spReg spc_demo) \<noteq> Some ''/f/N/B/y.note'')"
    by metis
  have "relocated ''/f/N/A/x.note'' ''/f/N/B/y.note'' (\<lambda>q. content_at q (spFs spc_demo)) ''/f/N/B/y.note'' = Some ''hi''"
    "relocated ''/f/N/A/x.note'' ''/f/N/B/y.note'' (\<lambda>q. content_at q (spFs spc_demo)) ''/f/N/A/x.note'' = None" by code_simp+
  moreover have "\<forall>j. PathFor j (spReg spc_demo) \<noteq> Some ''/f/N/B/y.note''" by (simp add: spc_demo_def PathFor_def)
  ultimately show ?thesis using m by auto
qed

theorem ListFolder_exact_witness:
  "\<exists>es t. ListFolder (spc_env_demo 4) (Some 0) True spc_demo = (es, t) \<and> distinct (map enID es) \<and>
     (\<exists>x \<in> set es. PathFor (enID x) (spReg t) = Some ''/f/N/A/x.note'' \<and> \<not> enFolder x)"
proof -
  obtain es t where l: "ListFolder (spc_env_demo 4) (Some 0) True spc_demo = (es, t)" by fastforce
  have d: "resolveDir (Some 0) spc_demo = Some ''/f''" by code_simp
  have "''/f/N/A/x.note'' \<in> set (childPaths ''/f'' True (spFs spc_demo))" by code_simp
  then have "listed_child ''/f'' True (spFs spc_demo) ''/f/N/A/x.note''" by (simp add: childPaths_listed)
  moreover have "\<not> is_dir ''/f/N/A/x.note'' (spFs spc_demo)" by code_simp
  ultimately show ?thesis using ListFolder_exact [OF spc_demo_ok d l] l by (fastforce simp: shows_path_def)
qed

theorem web_page_partition_witness:
  "the (web_page [10, 20, 30 :: int] 1 2) @ the (web_page [10, 20, 30] 2 2) = [10, 20, 30] \<and>
   web_page [10, 20, 30 :: int] (2 ^ 62 + 1) 2 = None"
proof -
  have "[1..int 2] = [1, 2]" by code_simp
  moreover have "web_page [10, 20, 30 :: int] (2 ^ 62 + 1) 2 = None" by code_simp
  ultimately show ?thesis using web_page_partition [of 2 "[10, 20, 30 :: int]" 2] by simp
qed

end
