(* ===== verification/Spc_Recycle.thy ===== *)
theory Spc_Recycle
  imports Spc_Effects
begin

text \<open>
  The recycle area: a deletion moves the tree to a place named by the time of the request, the recycle listing
  gives it an id, and the restore by that id puts every byte back where it was.
\<close>

lemma recycleDest_inside:
  assumes b: "HasPrefix b ''/''" "clean_path (Clean b)" and p: "clean_path p" "segments p = segments (Clean b) @ ns"
  shows "clean_path (recycleDest e b (displayPath b p)) \<and> inside (recycleDest e b (displayPath b p)) (Clean b) \<and>
    recycleDest e b (displayPath b p) \<noteq> Clean b \<and>
    segments (recycleDest e b (displayPath b p)) = segments (recycleBase b) @ [FormatInt (envNow e)] @ ns"
proof -
  obtain rs where rs: "segments (Clean b) = [] # rs" using b(2) clean_path_segments by blast
  have pl: "list_all plain_name ns" by (rule clean_names [OF p b(2)])
  have d: "recycleDest e b (displayPath b p) = abs_path (rs @ [''.recycle'', FormatInt (envNow e)] @ ns)"
    unfolding displayPath_inside [OF b(2) p] by (rule recycleDest_eq [OF b rs pl])
  have "list_all plain_name ([''.recycle'', FormatInt (envNow e)] @ ns)" using pl FormatInt_name by (simp add: plain_name_def)
  from abs_path_inside [OF b(2) rs this] recycleBase_inside [OF b] show ?thesis unfolding d by simp
qed

lemma DeleteFolder_relocates:
  assumes s: "spc_ok s" and src: "resolveSource rawID s = Some (i, p)"
    and d: "d = recycleDest e (spRoot s) (displayPath (spRoot s) p)" "not_exist d (spFs s)" "\<not> below d p"
  obtains x t where "DeleteFolder e rawID s = (Inr x, t)" "keeps s t"
    "\<And>q. content_at q (spFs t) = relocated p d (\<lambda>q. content_at q (spFs s)) q"
    "exists_path d (spFs t)" "\<not> exists_path p (spFs t)" "PathFor i (spReg t) = Some p" "spHooks t = spHooks s @ [Deindex p, NotifyFile]"
proof -
  define b where "b = spRoot s"
  have b: "HasPrefix b ''/''" "clean_path (Clean b)" "good_fs (Clean b) (spFs s)"
    using s spc_ok_root [OF s] by (simp_all add: b_def spc_ok_def)
  have r: "clean_path p" "inside p (Clean b)" "exists_path p (spFs s)" "PathFor i (spReg s) = Some p"
    using resolveSource_path [OF s src] by (simp_all add: b_def)
  obtain ns where ns: "segments p = segments (Clean b) @ ns" using r(2) by (auto simp: inside_iff)
  have di: "clean_path d" "inside d (Clean b)" "d \<noteq> Clean b"
    using recycleDest_inside [OF b(1,2) r(1) ns, of e] by (simp_all add: d(1) b_def)
  obtain g h where g: "MkdirAll (Dir d) (spFs s) = Some g" "Rename p d g = Some h"
    and c: "\<And>q. content_at q (pruneEmptyParents b (Dir p) h) = relocated p d (\<lambda>q. content_at q (spFs s)) q"
    and ex: "exists_path d (pruneEmptyParents b (Dir p) h)" "\<not> exists_path p (pruneEmptyParents b (Dir p) h)"
    by (rule relocate [OF b(3) di d(2) r(1-3) d(3)]) (rule that; (assumption | simp only:))
  obtain x rg where x: "EntryFor e p s = (Some x, with_reg rg s)" "enPath x = displayPath (spRoot s) p"
    "\<And>i q. PathFor i (spReg s) = Some q \<Longrightarrow> PathFor i rg = Some q"
    by (rule EntryFor_id [OF s r(2) [unfolded b_def] r(3), of e]) (rule that; (assumption | simp only:))
  have "recycle e (spRoot s) (enPath x) p (spFs (with_reg rg s)) = (True, h)"
    unfolding recycle_def x(2) d(1) [symmetric] Let_def using g by simp
  then have D: "DeleteFolder e rawID s = (Inr x, emit NotifyFile (with_fs (pruneEmptyParents (spRoot s) (Dir p) h) (emit (Deindex p) (with_fs h (with_reg rg s)))))"
    using src x(1) by (simp add: DeleteFolder_def)
  have k: "keeps s (emit NotifyFile (with_fs (pruneEmptyParents (spRoot s) (Dir p) h) (emit (Deindex p) (with_fs h (with_reg rg s)))))"
    using DeleteFolder_keeps [OF s, of e rawID] D by simp
  show ?thesis by (rule that [OF D k]) (use c ex x(3) r(4) in \<open>simp_all add: b_def emit_def with_fs_def with_reg_def\<close>)
qed

lemma relocated_back:
  assumes "fs_ok f" "not_exist d f" "d \<noteq> []" "\<not> inside d p"
  shows "relocated d p (relocated p d (\<lambda>q. content_at q f)) q = content_at q f"
proof -
  have none: "content_at q f = None" if "inside q d" for q
  proof (rule ccontr)
    assume "content_at q f \<noteq> None"
    then have "exists_path q f" by (simp add: exists_path_def is_file_content)
    then have "exists_path d f" by (rule exists_above [OF assms(1) _ that assms(3)])
    then show False using assms(2) by (simp add: not_exist_iff)
  qed
  show ?thesis
  proof (cases "inside q p")
    case True
    then have "p @ drop (length p) q = q" by (simp add: inside_append)
    moreover have "inside (d @ drop (length p) q) d" by (rule inside_replace [OF True])
    ultimately show ?thesis using True by (simp add: relocated_def)
  next
    case False
    then show ?thesis using none [of q] by (simp add: relocated_def)
  qed
qed

text \<open>The restore by an id of the recycled tree.\<close>

lemma revert_relocates:
  assumes u: "spc_ok u" and raw: "recyclePathByID raw u = Some d"
    and p: "restoreDest (spRoot u) d = p" "clean_path p" "inside p (Clean (spRoot u))" "p \<noteq> Clean (spRoot u)" "not_exist p (spFs u)"
    and nb: "\<not> below p d" and i: "PathFor i (spReg u) = Some p"
  shows "content_at q (spFs (RecycleRevert [raw] [] u)) = relocated d p (\<lambda>q. content_at q (spFs u)) q \<and>
    PathFor i (spReg (RecycleRevert [raw] [] u)) = Some p"
proof -
  define b where "b = spRoot u"
  have b: "HasPrefix b ''/''" "clean_path (Clean b)" "good_fs (Clean b) (spFs u)"
    using u spc_ok_root [OF u] by (simp_all add: b_def spc_ok_def)
  obtain j where d: "clean_path d" "inside d (Clean b)" "exists_path d (spFs u)" "ParseInt raw = Some j" "PathFor j (spReg u) = Some d"
    using recyclePath_inside [OF u raw] recycleBase_inside [OF b(1,2)] inside_trans by (auto simp: b_def)
  obtain g h where g: "MkdirAll (Dir p) (spFs u) = Some g" "Rename d p g = Some h"
    and c: "\<And>q. content_at q (pruneEmptyParents b (Dir d) h) = relocated d p (\<lambda>q. content_at q (spFs u)) q"
    by (rule relocate [OF b(3) p(2) p(3,4) [folded b_def] p(5) d(1-3) nb]) (rule that; (assumption | simp only:))
  have ne: "p \<noteq> []" by (rule clean_pathD(3) [OF p(2)])
  have a: "autorenameAbs (restoreDest (spRoot u) d) (spFs u) = p" using p(1,5) by (simp add: autorenameAbs_def)
  have pd: "p \<noteq> d" using p(5) d(3) by (auto simp: not_exist_iff)
  have "j \<noteq> i" using d(5) i pd by auto
  then have up: "UpdatePath j p (spReg u) = None"
    using UpdatePath_None_iff [of "spReg u" j p] u d(5) i clean_pathD(4) [OF p(2)] by (auto simp: spc_ok_def)
  have "revert_one raw u = with_fs (pruneEmptyParents b (Dir d) h) u"
    unfolding revert_one_def raw option.case a Let_def using g ne d(4) up by (simp add: b_def)
  then have "RecycleRevert [raw] [] u = emit NotifyFile (with_fs (pruneEmptyParents b (Dir d) h) u)"
    by (simp add: RecycleRevert_def idsFromRequest_def)
  then show ?thesis using c i by simp
qed

text \<open>What the recycle listing shows.\<close>

lemma RecycleList_shows:
  assumes t: "spc_ok t" and d: "is_file d (spFs t)" "below d (recycleBase (spRoot t))" and l: "RecycleList e t = ((pg, n), u)"
    and few: "length (filter (\<lambda>q. below q (recycleBase (spRoot t))) (map fst (fsFiles (spFs t)))) \<le> 500"
  shows "\<exists>es. pg = Some es \<and> (\<exists>y \<in> set es. shows_path u d y \<and> spSt u = spSt t \<and> spc_ok u \<and> (\<forall>i q. PathFor i (spReg t) = Some q \<longrightarrow> PathFor i (spReg u) = Some q))"
proof -
  define ps where "ps = sort_key segments (filter (\<lambda>p. below p (recycleBase (spRoot t))) (map fst (fsFiles (spFs t))))"
  obtain xs where x: "entries_for e ps t = (xs, u)" and pg: "pg = web_page (sortEntries xs) 1 500"
    using l by (cases "entries_for e ps t") (auto simp: RecycleList_def ps_def [symmetric] Let_def writeWebList_def pageParams_def)
  have fl: "q \<in> set (map fst (fsFiles (spFs t))) \<longleftrightarrow> is_file q (spFs t)" for q
    by (simp add: is_file_def dom_map_of_conv_image_fst [symmetric] domIff)
  have rb: "inside (recycleBase (spRoot t)) (Clean (spRoot t))"
    using recycleBase_inside [OF _ spc_ok_root(1) [OF t]] t by (simp add: spc_ok_def)
  have "inside p (Clean (spRoot t)) \<and> exists_path p (spFs t)" if "p \<in> set ps" for p
  proof -
    have "below p (recycleBase (spRoot t))" "is_file p (spFs t)" using that fl [of p] by (simp_all add: ps_def)
    then show ?thesis using below_inside_trans(1) [OF _ rb] by (simp add: inside_def [of p] exists_path_def)
  qed
  then have a: "list_all2 (shows_path u) ps xs \<and> spSt u = spSt t \<and> spc_ok u \<and> (\<forall>i q. PathFor i (spReg t) = Some q \<longrightarrow> PathFor i (spReg u) = Some q)"
    using entries_for_exact [OF t _ x] by blast
  have "length xs = length ps" using a list_all2_lengthD by fastforce
  then have "length xs \<le> 500" using few by (simp add: ps_def)
  then have all: "pg = Some (sortEntries xs)"
    using pg web_page_nth [of 500 "sortEntries xs" 1] by (simp add: sortEntries_def)
  have "d \<in> set ps" using d fl [of d] by (simp add: ps_def)
  then obtain y where "y \<in> set xs" "shows_path u d y" using a list_all2_members by blast
  then show ?thesis using a all by (auto simp: sortEntries_facts)
qed


lemma no_file_above:
  assumes ok: "fs_ok f" and p: "exists_path p f" and d: "not_exist d f" "d \<noteq> []" and c: "\<And>q. content_at q g = relocated p d (\<lambda>q. content_at q f) q"
    and q: "is_file q g"
  shows "\<not> below p q"
proof
  assume b: "below p q"
  have ne: "\<not> exists_path d f" using d(1) by (simp add: not_exist_iff)
  have "\<not> inside q d"
  proof
    assume "inside q d"
    then have "inside p d" using below_inside_trans(1) [OF b] by (simp add: inside_def)
    then show False using exists_above [OF ok p _ d(2)] ne by blast
  qed
  moreover have "\<not> inside q p" using below_inside_trans(1) [OF b, of p] by auto
  ultimately have "is_file q f" using q c [of q] by (simp add: is_file_content relocated_def)
  then show False using file_plain [OF ok] p b by blast
qed

lemma join_not_up:
  assumes "x \<noteq> []" "CHR ''.'' \<notin> set x"
  shows "\<not> HasPrefix (join_with ''/'' (x # xs)) ''..''"
proof -
  obtain c cs where c: "x = c # cs" "c \<noteq> CHR ''.''" using assms by (cases x) auto
  then show ?thesis by (cases xs) (auto simp: HasPrefix_def)
qed

lemma FormatInt_no_dot: "CHR ''.'' \<notin> set (FormatInt i)"
proof -
  have "CHR ''.'' \<notin> number_chars" by code_simp
  then show ?thesis using FormatInt_chars by blast
qed

lemma recycled_id:
  assumes u: "spc_ok u" and d: "clean_path d" "segments d = segments (recycleBase (spRoot u)) @ FormatInt n # ns" "exists_path d (spFs u)"
    and j: "PathFor j (spReg u) = Some d" "int64 j"
  shows "recyclePathByID (FormatInt j) u = Some d"
proof -
  have "clean_path (recycleBase (spRoot u))" using recycleBase_inside [OF _ spc_ok_root(1) [OF u]] u by (simp add: spc_ok_def)
  from relNames_inside [OF this d(1,2)] have "\<not> HasPrefix (join_with ''/'' (relNames (recycleBase (spRoot u)) d)) ''..''"
    using join_not_up [OF FormatInt_nonempty FormatInt_no_dot] by simp
  then show ?thesis using d(3) j by (simp add: recyclePathByID_def ParseInt_FormatInt)
qed

lemma restoreDest_back:
  assumes u: "spc_ok u" and p: "clean_path p" "segments p = segments (Clean (spRoot u)) @ ns" "ns \<noteq> []"
    and d: "clean_path d" "segments d = segments (recycleBase (spRoot u)) @ FormatInt n # ns"
  shows "restoreDest (spRoot u) d = p"
proof -
  have "inside d (recycleBase (spRoot u))" "d \<noteq> recycleBase (spRoot u)" using d(2) by (auto simp: inside_iff)
  from restoreDest_inside [OF u d(1) this] obtain rs ys where r: "segments (Clean (spRoot u)) = [] # rs"
    "segments d = segments (recycleBase (spRoot u)) @ ys" "restoreDest (spRoot u) d = abs_path (rs @ (if length ys > 1 then tl ys else ys))"
    by blast
  have "ys = FormatInt n # ns" using r(2) d(2) by simp
  then have e: "restoreDest (spRoot u) d = abs_path (rs @ ns)" using r(3) p(3) by simp
  obtain ms where m: "ms \<noteq> []" "list_all plain_name ms" "p = abs_path ms" using p(1) clean_path_abs by blast
  have "segments p = [] # ms" using segments_abs_path [OF m(2,1)] m(3) by simp
  then show ?thesis using e m(3) p(2) r(1) by simp
qed

text \<open>
  C31. Deletion is soft: a deleted file leaves its place and lies, byte for byte, in the recycle area; the recycle
  listing that follows (as long as its one page of 500 holds all recycled files) shows it with an id, and the restore by that id puts the content of every file of the
  machine back to what it was before the deletion, with the file's old id standing for its path again.
\<close>

theorem delete_restore:
  assumes s: "spc_ok s" and src: "resolveSource rawID s = Some (i, p)" and f: "is_file p (spFs s)"
    and d: "d = recycleDest e (spRoot s) (displayPath (spRoot s) p)" "not_exist d (spFs s)"
    and D: "DeleteFolder e rawID s = (res, t)" and L: "RecycleList e' t = ((pg, n), u)"
    and few: "length (filter (\<lambda>q. below q (recycleBase (spRoot t))) (map fst (fsFiles (spFs t)))) \<le> 500"
  shows "content_at p (spFs t) = None \<and> content_at d (spFs t) = content_at p (spFs s) \<and>
    (\<exists>y \<in> set (the pg). pg \<noteq> None \<and> shows_path u d y \<and>
      (int64 (enID y) \<longrightarrow>
        (\<forall>q. content_at q (spFs (RecycleRevert [FormatInt (enID y)] [] u)) = content_at q (spFs s)) \<and>
        PathFor i (spReg (RecycleRevert [FormatInt (enID y)] [] u)) = Some p))"
proof -
  have ok: "fs_ok (spFs s)" using s by (simp add: spc_ok_def good_fs_def)
  have r: "clean_path p" "inside p (Clean (spRoot s))" "exists_path p (spFs s)"
    using resolveSource_path [OF s src] by simp_all
  have rt: "HasPrefix (spRoot s) ''/''" "clean_path (Clean (spRoot s))" using s spc_ok_root(1) [OF s] by (simp_all add: spc_ok_def)
  have pne: "p \<noteq> Clean (spRoot s)" using f spc_ok_root(2) [OF s] ok by (auto simp: fs_ok_def)
  obtain ns where ns: "segments p = segments (Clean (spRoot s)) @ ns" using r(2) by (auto simp: inside_iff)
  have nn: "ns \<noteq> []" using ns pne segments_inj by auto
  have di: "clean_path d" "segments d = segments (recycleBase (spRoot s)) @ FormatInt (envNow e) # ns"
    using recycleDest_inside [OF rt r(1) ns, of e] d(1) by simp_all
  have dn: "d \<noteq> []" "\<not> exists_path d (spFs s)" using clean_pathD(3) [OF di(1)] d(2) by (simp_all add: not_exist_iff)
  have npd: "\<not> inside p d" using exists_above [OF ok r(3) _ dn(1)] dn(2) by blast
  have pd: "p \<noteq> d" using npd by (auto simp: inside_def)
  have nb: "\<not> below d p" using d(2) f by (simp add: not_exist_iff)
  have nin: "\<not> inside d p" using nb pd by (auto simp: inside_def)
  obtain x t' where t': "DeleteFolder e rawID s = (Inr x, t')" "keeps s t'"
    "\<And>q. content_at q (spFs t') = relocated p d (\<lambda>q. content_at q (spFs s)) q"
    "exists_path d (spFs t')" "\<not> exists_path p (spFs t')" "PathFor i (spReg t') = Some p"
    by (rule DeleteFolder_relocates [OF s src d nb]) (rule that; (assumption | simp only:))
  then have t: "keeps s t" "\<And>q. content_at q (spFs t) = relocated p d (\<lambda>q. content_at q (spFs s)) q" "\<not> exists_path p (spFs t)"
    "PathFor i (spReg t) = Some p" using D by simp_all
  have rr: "spRoot t = spRoot s" "spc_ok t" using t(1) by (simp_all add: keeps_def)
  have cd: "content_at d (spFs t) = content_at p (spFs s)" using t(2) [of d] by (simp add: relocated_def inside_def)
  have df: "is_file d (spFs t)" using cd f by (simp add: is_file_content)
  have "below d (recycleBase (spRoot t))" using di(2) rr(1) by (auto simp: below_iff)
  from RecycleList_shows [OF rr(2) df this L few] obtain y where y: "pg \<noteq> None \<and> y \<in> set (the pg)" "shows_path u d y" "spSt u = spSt t" "spc_ok u"
    "PathFor i (spReg u) = Some p" using t(4) by auto
  have ur: "spRoot u = spRoot s" "spFs u = spFs t" using y(3) rr(1) by simp_all
  have np: "not_exist p (spFs u)"
    using no_file_above [OF ok r(3) d(2) dn(1) t(2)] t(3) clean_pathD(2) [OF r(1)] by (simp add: not_exist_iff ur(2))
  have "(\<forall>q. content_at q (spFs (RecycleRevert [FormatInt (enID y)] [] u)) = content_at q (spFs s)) \<and>
        PathFor i (spReg (RecycleRevert [FormatInt (enID y)] [] u)) = Some p" if j: "int64 (enID y)"
  proof -
    have raw: "recyclePathByID (FormatInt (enID y)) u = Some d"
      by (rule recycled_id [OF y(4) di(1) _ _ _ j]) (use di(2) ur df y(2) in \<open>simp_all add: exists_path_def shows_path_def\<close>)
    have bk: "restoreDest (spRoot u) d = p"
      by (rule restoreDest_back [OF y(4) r(1) _ nn di(1)]) (use ns di(2) ur(1) in simp_all)
    have "\<not> below p d" using npd by (simp add: inside_def)
    from revert_relocates [OF y(4) raw bk r(1) _ _ np this y(5)] r(2) pne ur
    have v: "content_at q (spFs (RecycleRevert [FormatInt (enID y)] [] u)) = relocated d p (\<lambda>q. content_at q (spFs t)) q"
      "PathFor i (spReg (RecycleRevert [FormatInt (enID y)] [] u)) = Some p" for q by simp_all
    have "relocated d p (\<lambda>q. content_at q (spFs t)) q = content_at q (spFs s)" for q
      unfolding t(2) by (rule relocated_back [OF ok d(2) dn(1) nin])
    then show ?thesis using v by simp
  qed
  moreover have "content_at p (spFs t) = None" using t(3) by (simp add: exists_path_def is_file_content)
  ultimately show ?thesis using cd y(1,2) by (intro conjI bexI [of _ y]) simp_all
qed


theorem delete_restore_witness:
  "\<exists>res t pg n u. DeleteFolder (spc_env_demo 4) ''1'' spc_demo = (res, t) \<and> RecycleList (spc_env_demo 5) t = ((pg, n), u) \<and>
     content_at ''/f/N/A/x.note'' (spFs t) = None \<and> content_at ''/f/.recycle/4/N/A/x.note'' (spFs t) = Some ''hi'' \<and> pg \<noteq> None"
proof -
  obtain res t where D: "DeleteFolder (spc_env_demo 4) ''1'' spc_demo = (res, t)" by fastforce
  obtain pg n u where L: "RecycleList (spc_env_demo 5) t = ((pg, n), u)" by (metis prod.exhaust)
  have "length (filter (\<lambda>q. below q (recycleBase (spRoot (snd (DeleteFolder (spc_env_demo 4) ''1'' spc_demo)))))
      (map fst (fsFiles (spFs (snd (DeleteFolder (spc_env_demo 4) ''1'' spc_demo)))))) \<le> 500" by code_simp
  then have few: "length (filter (\<lambda>q. below q (recycleBase (spRoot t))) (map fst (fsFiles (spFs t)))) \<le> 500" by (simp only: D snd_conv)
  have "resolveSource ''1'' spc_demo = Some (1, ''/f/N/A/x.note'')" "is_file ''/f/N/A/x.note'' (spFs spc_demo)"
    "''/f/.recycle/4/N/A/x.note'' = recycleDest (spc_env_demo 4) (spRoot spc_demo) (displayPath (spRoot spc_demo) ''/f/N/A/x.note'')"
    "not_exist ''/f/.recycle/4/N/A/x.note'' (spFs spc_demo)"
    by code_simp+
  note r = delete_restore [OF spc_demo_ok this D L few]
  have "content_at ''/f/N/A/x.note'' (spFs spc_demo) = Some ''hi''" by code_simp
  then show ?thesis using r D L by auto
qed

end
