(* ===== verification/Spc_Oss.thy ===== *)
theory Spc_Oss
  imports Base64 Spc_Files
begin

text \<open>
  The presigned URLs of the private cloud (\<open>internal/spcserver/oss\<close>): a path travels as unpadded URL-safe
  base64, the digest of path, time stamp, nonce and secret is its only proof, and a window from the time
  stamp its only freshness. With them the query string of \<open>net/url\<close> that carries them, and the nonces. Times
  of the signer are nanoseconds since the epoch; durations saturate as Go's do.
\<close>

section \<open>Paths in URLs\<close>

definition url_digit :: "nat \<Rightarrow> char" where
  "url_digit n = (if n = 62 then CHR ''-'' else if n = 63 then CHR ''_'' else b64_digit n)"

definition url_value :: "char \<Rightarrow> nat option" where
  "url_value c =
     (if c = CHR ''-'' then Some 62 else if c = CHR ''_'' then Some 63
      else if c = CHR ''+'' \<or> c = CHR ''/'' then None else b64_value c)"

text \<open>\<open>base64.RawURLEncoding\<close>: the last quantum is cut instead of padded, line breaks are skipped on input.\<close>

fun EncryptPath :: "string \<Rightarrow> string" where
  "EncryptPath [] = []"
| "EncryptPath [x] = (let a = byte_val x in [url_digit (a div 4), url_digit (a mod 4 * 16)])"
| "EncryptPath [x, y] =
     (let a = byte_val x; b = byte_val y
      in [url_digit (a div 4), url_digit (a mod 4 * 16 + b div 16), url_digit (b mod 16 * 4)])"
| "EncryptPath (x # y # z # rest) =
     (let a = byte_val x; b = byte_val y; c = byte_val z
      in url_digit (a div 4) # url_digit (a mod 4 * 16 + b div 16)
         # url_digit (b mod 16 * 4 + c div 64) # url_digit (c mod 64) # EncryptPath rest)"

fun raw_quanta :: "string \<Rightarrow> string option" where
  "raw_quanta [] = Some []"
| "raw_quanta [a] = None"
| "raw_quanta [a, b] =
     (case (url_value a, url_value b) of (Some p, Some q) \<Rightarrow> Some [byte1 p q] | _ \<Rightarrow> None)"
| "raw_quanta [a, b, c] =
     (case (url_value a, url_value b, url_value c) of
        (Some p, Some q, Some r) \<Rightarrow> Some [byte1 p q, byte2 q r]
      | _ \<Rightarrow> None)"
| "raw_quanta (a # b # c # d # rest) =
     (case (url_value a, url_value b, url_value c, url_value d) of
        (Some p, Some q, Some r, Some s) \<Rightarrow>
          map_option (\<lambda>bs. byte1 p q # byte2 q r # byte3 r s # bs) (raw_quanta rest)
      | _ \<Rightarrow> None)"

definition DecryptPath :: "string \<Rightarrow> string option" where
  "DecryptPath enc = raw_quanta (filter (\<lambda>c. c \<noteq> CHR 0x0A \<and> c \<noteq> CHR 0x0D) enc)"

section \<open>The signer\<close>

record signer =
  snSecret :: string
  snSHA256 :: "string \<Rightarrow> string"
  snNow :: int

definition sha256Hex :: "signer \<Rightarrow> string \<Rightarrow> string" where
  "sha256Hex g x = hexEncode (snSHA256 g x)"

definition DownloadSignature :: "signer \<Rightarrow> string \<Rightarrow> int \<Rightarrow> string \<Rightarrow> string" where
  "DownloadSignature g encPath tsMillis nonce = sha256Hex g (encPath @ FormatInt tsMillis @ nonce @ snSecret g)"

definition UploadSignature :: "signer \<Rightarrow> string \<Rightarrow> int \<Rightarrow> string \<Rightarrow> int \<Rightarrow> string" where
  "UploadSignature g encPath tsMillis nonce fileSize =
     sha256Hex g (encPath @ FormatInt tsMillis @ nonce @ FormatInt fileSize @ snSecret g)"

definition time_unit :: int where
  "time_unit = 1000000"

definition downloadTTL :: int where
  "downloadTTL = 24 * 60 * 60 * 1000 * time_unit"

definition uploadTTL :: int where
  "uploadTTL = 30 * 60 * 1000 * time_unit"

text \<open>\<open>Time.Sub\<close>.\<close>

definition time_sub :: "int \<Rightarrow> int \<Rightarrow> int" where
  "time_sub a b = max (- (2 ^ 63)) (min (2 ^ 63 - 1) (a - b))"

definition withinWindow :: "signer \<Rightarrow> int \<Rightarrow> int \<Rightarrow> bool" where
  "withinWindow g tsMillis ttl \<longleftrightarrow> time_sub (snNow g) (tsMillis * time_unit) \<le> ttl"

definition ValidateDownload :: "signer \<Rightarrow> string \<Rightarrow> int \<Rightarrow> string \<Rightarrow> string \<Rightarrow> bool" where
  "ValidateDownload g sig tsMillis nonce encPath \<longleftrightarrow>
     withinWindow g tsMillis downloadTTL \<and> sig = DownloadSignature g encPath tsMillis nonce"

definition ValidateUpload :: "signer \<Rightarrow> string \<Rightarrow> int \<Rightarrow> string \<Rightarrow> string \<Rightarrow> int \<Rightarrow> bool" where
  "ValidateUpload g sig tsMillis nonce encPath fileSize \<longleftrightarrow>
     withinWindow g tsMillis uploadTTL \<and> sig = UploadSignature g encPath tsMillis nonce fileSize"

definition nowMillis :: "signer \<Rightarrow> int" where
  "nowMillis g = snNow g div time_unit"

text \<open>A random UUID from sixteen random bytes.\<close>

definition newNonce :: "string \<Rightarrow> string" where
  "newNonce bs =
     (let b = bs[6 := char_of (byte_val (bs ! 6) mod 16 + 64), 8 := char_of (byte_val (bs ! 8) mod 64 + 128)];
          part = (\<lambda>i n. hexEncode (take n (drop i b)))
      in join_with ''-'' [part 0 4, part 4 2, part 6 2, part 8 2, part 10 6])"

section \<open>Query strings\<close>

text \<open>\<open>url.QueryUnescape\<close>.\<close>

fun unescape :: "string \<Rightarrow> string option" where
  "unescape [] = Some []"
| "unescape (c # cs) =
     (if c = CHR ''%''
      then (case cs of
              x # y # rest \<Rightarrow>
                (case (hex_val x, hex_val y) of
                   (Some h, Some l) \<Rightarrow> map_option ((#) (char_of (16 * h + l))) (unescape rest)
                 | _ \<Rightarrow> None)
            | _ \<Rightarrow> None)
      else map_option ((#) (if c = CHR ''+'' then CHR '' '' else c)) (unescape cs))"

text \<open>\<open>strings.Cut\<close>.\<close>

definition cut_at :: "char \<Rightarrow> string \<Rightarrow> string \<times> string" where
  "cut_at d s = (takeWhile (\<lambda>c. c \<noteq> d) s, tl (dropWhile (\<lambda>c. c \<noteq> d) s))"

definition query_pair :: "string \<Rightarrow> (string \<times> string) list" where
  "query_pair part =
     (if CHR '';'' \<in> set part \<or> part = [] then []
      else let (k, v) = cut_at (CHR ''='') part
           in (case (unescape k, unescape v) of (Some k', Some v') \<Rightarrow> [(k', v')] | _ \<Rightarrow> []))"

text \<open>\<open>URL.Query().Get\<close>: the first value of a key, the empty string when there is none.\<close>

definition query_get :: "string \<Rightarrow> string \<Rightarrow> string" where
  "query_get key rawQuery =
     (case map_of (concat (map query_pair (split_on (CHR ''&'') rawQuery))) key of None \<Rightarrow> [] | Some v \<Rightarrow> v)"

section \<open>What is minted can be read back\<close>

lemma url_value_digit: "n < 64 \<Longrightarrow> url_value (url_digit n) = Some n"
proof -
  have "\<forall>n \<in> set [0..<64]. url_value (url_digit n) = Some n" by code_simp
  then show "n < 64 \<Longrightarrow> ?thesis" by simp
qed

text \<open>Characters that mean nothing to a query string.\<close>

definition url_plain :: "char \<Rightarrow> bool" where
  "url_plain c \<longleftrightarrow> c \<notin> set [CHR ''&'', CHR '';'', CHR ''='', CHR ''%'', CHR ''+'', CHR 0x0A, CHR 0x0D, CHR ''/'', CHR 0x5C, CHR ''.'']"

lemma url_digit_plain: "n < 64 \<Longrightarrow> url_plain (url_digit n)"
proof -
  have "\<forall>n \<in> set [0..<64]. url_plain (url_digit n)" by code_simp
  then show "n < 64 \<Longrightarrow> ?thesis" by simp
qed

lemma EncryptPath_plain: "list_all url_plain (EncryptPath bs)"
  by (induction bs rule: EncryptPath.induct) (simp_all add: url_digit_plain sextets Let_def)

lemma DecryptPath_EncryptPath [simp]: "DecryptPath (EncryptPath bs) = Some bs"
proof -
  have "raw_quanta (EncryptPath bs) = Some bs"
    by (induction bs rule: EncryptPath.induct) (simp_all add: url_value_digit sextets byte_parts Let_def)
  moreover have "filter (\<lambda>c. c \<noteq> CHR 0x0A \<and> c \<noteq> CHR 0x0D) (EncryptPath bs) = EncryptPath bs"
    using EncryptPath_plain [of bs] by (auto simp: list_all_iff url_plain_def filter_id_conv)
  ultimately show ?thesis by (simp add: DecryptPath_def)
qed

lemma hex_digit_plain: "n < 16 \<Longrightarrow> url_plain (hex_digit n) \<and> hex_digit n \<noteq> CHR ''-''"
proof -
  have "\<forall>n \<in> set [0..<16]. url_plain (hex_digit n) \<and> hex_digit n \<noteq> CHR ''-''" by code_simp
  then show "n < 16 \<Longrightarrow> ?thesis" by simp
qed

lemma hexEncode_plain: "list_all url_plain (hexEncode bs)"
  by (induction bs) (simp_all add: hexEncode_def hex_digit_plain less_mult_imp_div_less)

lemma newNonce_plain: "list_all url_plain (newNonce bs)"
proof -
  have "url_plain (CHR ''-'')" by code_simp
  then show ?thesis using hexEncode_plain by (simp add: newNonce_def Let_def)
qed

lemma FormatInt_url: "list_all url_plain (FormatInt i)"
proof -
  have "\<forall>c \<in> number_chars. url_plain c" by code_simp
  then show ?thesis using FormatInt_chars [of i] by (auto simp: list_all_iff)
qed

lemma unescape_plain: "list_all url_plain s \<Longrightarrow> unescape s = Some s"
  by (induction s) (auto simp: url_plain_def)

lemma query_pair_plain:
  assumes "list_all url_plain k" "list_all url_plain v"
  shows "query_pair (k @ ''='' @ v) = [(k, v)]"
proof -
  have "takeWhile (\<lambda>c. c \<noteq> CHR ''='') (k @ CHR ''='' # v) = k" "dropWhile (\<lambda>c. c \<noteq> CHR ''='') (k @ CHR ''='' # v) = CHR ''='' # v"
    using assms(1) by (auto simp: list_all_iff url_plain_def takeWhile_append dropWhile_append)
  then show ?thesis using assms by (auto simp: query_pair_def cut_at_def unescape_plain list_all_iff url_plain_def)
qed

lemma query_get_first:
  assumes "list_all url_plain k" "list_all url_plain v"
  shows "query_get key (k @ ''='' @ v @ ''&'' @ rest) = (if key = k then v else query_get key rest)"
    "query_get key (k @ ''='' @ v) = (if key = k then v else [])"
proof -
  have n: "CHR ''&'' \<notin> set (k @ ''='' @ v)" using assms by (auto simp: list_all_iff url_plain_def)
  have "split_on (CHR ''&'') ((k @ ''='' @ v) @ CHR ''&'' # rest) = (k @ ''='' @ v) # split_on (CHR ''&'') rest"
    by (rule split_on_append [OF n])
  then show "query_get key (k @ ''='' @ v @ ''&'' @ rest) = (if key = k then v else query_get key rest)"
    using query_pair_plain [OF assms] by (simp add: query_get_def)
  show "query_get key (k @ ''='' @ v) = (if key = k then v else [])"
    using query_pair_plain [OF assms] split_on_plain [OF n] by (simp add: query_get_def)
qed

end
