(* ===== verification/Spc_Transfer.thy ===== *)
theory Spc_Transfer
  imports Spc_Oss Spc_Requests
begin

text \<open>
  The transfers of the private cloud (\<open>internal/spcserver/handlers\<close>: \<open>upload.go\<close>, \<open>download.go\<close> and the upload and
  download part of \<open>webops.go\<close>): URLs are minted for a file or an upload slot, the byte streams accept them, and
  finishing an upload promotes the staged bytes. A request body is its file part, when it has one, and whether it
  was read to the end.
\<close>

section \<open>Environment\<close>

text \<open>What a handler reads from outside: hash functions and time, the random bytes of its two nonces, the address
  it was reached at, and the job queue it may tell of uploads, with the directory this is limited to.\<close>

record transfer_env =
  teEnv :: spc_env
  teSigner :: signer
  teInner :: string
  teNonce :: string
  teBase :: string
  teEnqueuer :: "string option"

datatype oss_failure = SignatureFailed | TransferFailed

definition requestBaseURL :: "string \<Rightarrow> string \<Rightarrow> string" where
  "requestBaseURL proto host = (if proto = [] then ''https'' else proto) @ ''://'' @ host"

section \<open>Downloads\<close>

text \<open>The part of the URL after the question mark.\<close>

definition download_query :: "string \<Rightarrow> string \<Rightarrow> int \<Rightarrow> string \<Rightarrow> string \<Rightarrow> string" where
  "download_query encPath sig ts nonce pathID =
     ''path='' @ encPath @ ''&signature='' @ sig @ ''&timestamp='' @ FormatInt ts @ ''&nonce='' @ nonce @ ''&pathId='' @ pathID"

definition downloadURL :: "transfer_env \<Rightarrow> string \<Rightarrow> string \<Rightarrow> int \<Rightarrow> string \<Rightarrow> string \<Rightarrow> string" where
  "downloadURL e encPath sig ts nonce pathID = teBase e @ ''/api/oss/download?'' @ download_query encPath sig ts nonce pathID"

text \<open>The query of a freshly signed URL for a display path.\<close>

definition signed_query :: "transfer_env \<Rightarrow> string \<Rightarrow> string \<Rightarrow> string" where
  "signed_query e display pathID =
     (let enc = EncryptPath display; ts = nowMillis (teSigner e); nonce = newNonce (teNonce e)
      in download_query enc (DownloadSignature (teSigner e) enc ts nonce) ts nonce pathID)"

definition signedDownloadURL :: "transfer_env \<Rightarrow> string \<Rightarrow> string \<Rightarrow> string" where
  "signedDownloadURL e display pathID = teBase e @ ''/api/oss/download?'' @ signed_query e display pathID"

text \<open>\<open>DownloadV3\<close> answers the entry and its URL, or that the file does not exist.\<close>

definition DownloadV3 :: "transfer_env \<Rightarrow> string \<Rightarrow> spc \<Rightarrow> (spc_error + entry \<times> string) \<times> spc" where
  "DownloadV3 e rawID s =
     (case ParseInt rawID of
        None \<Rightarrow> (Inl E0321, s)
      | Some i \<Rightarrow>
          if spRoot s = [] then (Inl E0321, s)
          else case PathFor i (spReg s) of
                 None \<Rightarrow> (Inl E0321, s)
               | Some p \<Rightarrow>
                   if \<not> exists_path p (spFs s) then (Inl E0321, s)
                   else (case EntryFor (teEnv e) p s of
                           (None, s1) \<Rightarrow> (Inl E0321, s1)
                         | (Some x, s1) \<Rightarrow> (Inr (x, signedDownloadURL e (enPath x) (FormatInt (enID x))), s1)))"

definition WebDownloadURL :: "transfer_env \<Rightarrow> string \<Rightarrow> spc \<Rightarrow> (spc_error + string \<times> string) \<times> spc" where
  "WebDownloadURL e rawID s =
     (case ParseInt rawID of
        None \<Rightarrow> (Inl E0321, s)
      | Some i \<Rightarrow>
          if spRoot s = [] then (Inl E0321, s)
          else case PathFor i (spReg s) of
                 None \<Rightarrow> (Inl E0321, s)
               | Some p \<Rightarrow>
                   (case EntryFor (teEnv e) p s of
                      (None, s1) \<Rightarrow> (Inl E0321, s1)
                    | (Some x, s1) \<Rightarrow> (Inr (signedDownloadURL e (enPath x) (FormatInt (enID x)), enHash x), s1)))"

record download_apply =
  daURL :: string
  daSignature :: string
  daTimestamp :: int
  daNonce :: string
  daPathID :: string

definition GenerateDownloadURL :: "transfer_env \<Rightarrow> string \<Rightarrow> string \<Rightarrow> string \<Rightarrow> download_apply" where
  "GenerateDownloadURL e filePath fileName pathID =
     (let enc = EncryptPath (Join filePath fileName); ts = nowMillis (teSigner e); nonce = newNonce (teNonce e);
          sig = DownloadSignature (teSigner e) enc ts nonce
      in \<lparr>daURL = downloadURL e enc sig ts nonce pathID, daSignature = sig, daTimestamp = ts, daNonce = nonce, daPathID = pathID\<rparr>)"

text \<open>The stream: its file name and bytes. The whole file is served; ranges are left to \<open>net/http\<close>.\<close>

definition DownloadStream :: "signer \<Rightarrow> string \<Rightarrow> spc \<Rightarrow> oss_failure + string \<times> string" where
  "DownloadStream g q s =
     (case ParseInt (query_get ''timestamp'' q) of
        None \<Rightarrow> Inl SignatureFailed
      | Some ts \<Rightarrow>
          if \<not> ValidateDownload g (query_get ''signature'' q) ts (query_get ''nonce'' q) (query_get ''path'' q)
          then Inl SignatureFailed
          else case DecryptPath (query_get ''path'' q) of
                 None \<Rightarrow> Inl SignatureFailed
               | Some display \<Rightarrow>
                   (case SafeResolve (spRoot s) display of
                      None \<Rightarrow> Inl TransferFailed
                    | Some p \<Rightarrow>
                        (case content_at p (spFs s) of None \<Rightarrow> Inl TransferFailed | Some c \<Rightarrow> Inr (Base p, c))))"

section \<open>Uploads\<close>

definition uploadApplyTTL :: millis where
  "uploadApplyTTL = 30 * 60 * 1000"

text \<open>\<open>strconv.ParseInt\<close> with its error ignored: no number is 0, a number out of range is the nearest bound. The
  digits after the overflow are not looked at.\<close>

fun scan_uint :: "string \<Rightarrow> int \<Rightarrow> int option" where
  "scan_uint [] n = Some n"
| "scan_uint (c # cs) n =
     (case digit_val c of
        None \<Rightarrow> None
      | Some d \<Rightarrow> if n * 10 + int d \<ge> 2 ^ 64 then Some (2 ^ 64 - 1) else scan_uint cs (n * 10 + int d))"

definition parse_lenient :: "string \<Rightarrow> int" where
  "parse_lenient s =
     (case s of
        [] \<Rightarrow> 0
      | c # cs \<Rightarrow>
          (let ds = (if c = CHR ''-'' \<or> c = CHR ''+'' then cs else s)
           in case (if ds = [] then None else scan_uint ds 0) of
                None \<Rightarrow> 0
              | Some n \<Rightarrow> if c = CHR ''-'' then max (- (2 ^ 63)) (- n) else min (2 ^ 63 - 1) n))"

definition upload_sig :: "transfer_env \<Rightarrow> string \<Rightarrow> string" where
  "upload_sig e innerName =
     UploadSignature (teSigner e) (EncryptPath innerName) (nowMillis (teSigner e)) (newNonce (teNonce e)) 0"

definition upload_query :: "transfer_env \<Rightarrow> string \<Rightarrow> string" where
  "upload_query e innerName =
     ''signature='' @ upload_sig e innerName @ ''&timestamp='' @ FormatInt (nowMillis (teSigner e)) @
     ''&nonce='' @ newNonce (teNonce e) @ ''&path='' @ EncryptPath innerName"

record upload_slot =
  usInnerName :: string
  usFull :: string
  usPart :: string
  usSignature :: string
  usTimestamp :: int

definition signedUploadURLs :: "transfer_env \<Rightarrow> string \<Rightarrow> upload_slot" where
  "signedUploadURLs e innerName =
     \<lparr>usInnerName = innerName, usFull = teBase e @ ''/api/oss/upload'' @ ''?'' @ upload_query e innerName,
      usPart = teBase e @ ''/api/oss/upload'' @ ''/part'' @ ''?'' @ upload_query e innerName,
      usSignature = upload_sig e innerName, usTimestamp = nowMillis (teSigner e)\<rparr>"

text \<open>The slot is recorded when there is a storage root; a failure is only logged.\<close>

definition record_slot :: "transfer_env \<Rightarrow> string \<Rightarrow> string \<Rightarrow> string \<Rightarrow> int \<Rightarrow> spc \<Rightarrow> spc" where
  "record_slot e innerName target fileName n s =
     (if spRoot s = [] then s
      else case Record (teEnv e) innerName target fileName n uploadApplyTTL (spSt s) of Inl _ \<Rightarrow> s | Inr st \<Rightarrow> s\<lparr>spSt := st\<rparr>)"

definition Apply :: "transfer_env \<Rightarrow> string \<Rightarrow> string \<Rightarrow> string \<Rightarrow> spc \<Rightarrow> upload_slot \<times> spc" where
  "Apply e reqPath fileName reqSize s =
     (let inner = newNonce (teInner e)
      in (signedUploadURLs e inner, record_slot e inner reqPath fileName (parse_lenient reqSize) s))"

text \<open>The inner name a signed upload query carries.\<close>

definition upload_target :: "signer \<Rightarrow> string \<Rightarrow> string option" where
  "upload_target g q =
     (case ParseInt (query_get ''timestamp'' q) of
        None \<Rightarrow> None
      | Some ts \<Rightarrow>
          if ValidateUpload g (query_get ''signature'' q) ts (query_get ''nonce'' q) (query_get ''path'' q) 0
          then DecryptPath (query_get ''path'' q) else None)"

definition UploadStream :: "transfer_env \<Rightarrow> string \<Rightarrow> (string \<times> bool) option \<Rightarrow> spc \<Rightarrow> (oss_failure + unit) \<times> spc" where
  "UploadStream e q part s =
     (case upload_target (teSigner e) q of
        None \<Rightarrow> (Inl SignatureFailed, s)
      | Some innerName \<Rightarrow>
          (case part of
             None \<Rightarrow> (Inl TransferFailed, s)
           | Some body \<Rightarrow>
               if spRoot s = [] then (Inl TransferFailed, s)
               else (case Stage (teEnv e) innerName body (spSt s) of
                       (Inl _, st) \<Rightarrow> (Inl TransferFailed, s\<lparr>spSt := st\<rparr>)
                     | (Inr _, st) \<Rightarrow> (Inr (), s\<lparr>spSt := st\<rparr>))))"

text \<open>A chunk answers the digest of its whole body, also when a retry finds the upload assembled.\<close>

definition UploadPart :: "transfer_env \<Rightarrow> string \<Rightarrow> (string \<times> bool) option \<Rightarrow> spc \<Rightarrow> (oss_failure + string) \<times> spc" where
  "UploadPart e q part s =
     (case upload_target (teSigner e) q of
        None \<Rightarrow> (Inl SignatureFailed, s)
      | Some innerName \<Rightarrow>
          (case (ParseInt (query_get ''partNumber'' q), ParseInt (query_get ''totalChunks'' q), part) of
             (Some partNumber, Some totalChunks, Some body) \<Rightarrow>
               if query_get ''uploadId'' q = [] \<or> spRoot s = [] then (Inl TransferFailed, s)
               else (case StagePart (teEnv e) innerName (query_get ''uploadId'' q) partNumber totalChunks body (spSt s) of
                       (Inl _, st) \<Rightarrow> (Inl TransferFailed, s\<lparr>spSt := st\<rparr>)
                     | (Inr _, st) \<Rightarrow>
                         (if snd body then Inr (hexEncode (envMD5 (teEnv e) (fst body))) else Inl TransferFailed, s\<lparr>spSt := st\<rparr>))
           | _ \<Rightarrow> (Inl TransferFailed, s)))"

definition underDir :: "string \<Rightarrow> string \<Rightarrow> bool" where
  "underDir dir p \<longleftrightarrow> HasPrefix (Clean dir) ''/'' = HasPrefix (Clean p) ''/'' \<and>
     (case relNames dir p of [] \<Rightarrow> True | n # _ \<Rightarrow> n \<noteq> ''..'')"

definition maybeEnqueueOCR :: "transfer_env \<Rightarrow> string \<Rightarrow> spc \<Rightarrow> spc" where
  "maybeEnqueueOCR e p s =
     (case teEnqueuer e of
        None \<Rightarrow> s
      | Some dir \<Rightarrow>
          if map to_lower (Ext p) \<in> set [''.note'', ''.pdf''] \<and> (dir = [] \<or> underDir dir p) then emit (EnqueueOCR p) s else s)"

definition finishTarget :: "transfer_env \<Rightarrow> string \<Rightarrow> string \<Rightarrow> int \<Rightarrow> string \<Rightarrow> spc \<Rightarrow> (spc_error + entry) \<times> spc" where
  "finishTarget e innerName contentHash n target s =
     (if spRoot s = [] then (Inl E0324, s)
      else case Finalize (teEnv e) innerName contentHash n target (spSt s) of
             (Inl _, st) \<Rightarrow> (Inl E0324, s\<lparr>spSt := st\<rparr>)
           | (Inr p, st) \<Rightarrow>
               (case EntryFor (teEnv e) p (s\<lparr>spSt := st\<rparr>) of
                  (None, s1) \<Rightarrow> (Inl E0324, s1)
                | (Some x, s1) \<Rightarrow> (Inr x, emit NotifyFile (maybeEnqueueOCR e p s1))))"

record finish_request =
  frPath :: string
  frSize :: string
  frFileName :: string
  frContentHash :: string
  frInnerName :: string

definition Finish :: "transfer_env \<Rightarrow> finish_request \<Rightarrow> spc \<Rightarrow> (spc_error + entry) \<times> spc" where
  "Finish e rq s =
     finishTarget e (frInnerName rq) (frContentHash rq) (parse_lenient (frSize rq)) (Join (frPath rq) (frFileName rq)) s"

section \<open>The web controllers\<close>

text \<open>A JSON value where a size is expected: an integral number, a string, or anything else; absent is \<open>None\<close>.\<close>

datatype json_size = Num_Size int | Str_Size string | Other_Size

primrec int64FromAny :: "json_size option \<Rightarrow> int" where
  "int64FromAny None = 0"
| "int64FromAny (Some v) = (case v of Num_Size i \<Rightarrow> i | Str_Size x \<Rightarrow> parse_lenient x | Other_Size \<Rightarrow> 0)"

definition firstAny :: "'a option list \<Rightarrow> 'a option" where
  "firstAny vals = (case find (\<lambda>v. v \<noteq> None) vals of None \<Rightarrow> None | Some v \<Rightarrow> v)"

definition displayForID :: "spc_env \<Rightarrow> string \<Rightarrow> spc \<Rightarrow> string \<times> spc" where
  "displayForID e rawID s =
     (if rawID = [] \<or> rawID = ''0'' then (''/'', s)
      else case ParseInt rawID of
             None \<Rightarrow> (''/'', s)
           | Some i \<Rightarrow>
               (case PathFor i (spReg s) of
                  None \<Rightarrow> (''/'', s)
                | Some p \<Rightarrow> (case EntryFor e p s of (None, s1) \<Rightarrow> (''/'', s1) | (Some x, s1) \<Rightarrow> (enPath x, s1))))"

record web_upload =
  wuDirectoryID :: string
  wuFileName :: string
  wuSize :: "json_size option"
  wuFileSize :: "json_size option"
  wuInnerName :: string
  wuMD5 :: string
  wuContentHash :: string

definition WebApply :: "transfer_env \<Rightarrow> web_upload \<Rightarrow> spc \<Rightarrow> (spc_error + upload_slot) \<times> spc" where
  "WebApply e rq s =
     (let (parent, s1) = displayForID (teEnv e) (wuDirectoryID rq) s; fileName = safeBaseName (wuFileName rq)
      in if fileName = [] then (Inl E0324, s1)
         else let inner = newNonce (teInner e)
              in (Inr (signedUploadURLs e inner),
                  record_slot e inner parent fileName (int64FromAny (firstAny [wuSize rq, wuFileSize rq])) s1))"

text \<open>The web answer says only that the upload is finished.\<close>

definition WebFinish :: "transfer_env \<Rightarrow> web_upload \<Rightarrow> spc \<Rightarrow> (spc_error + unit) \<times> spc" where
  "WebFinish e rq s =
     (let (parent, s1) = displayForID (teEnv e) (wuDirectoryID rq) s; fileName = safeBaseName (wuFileName rq)
      in if fileName = [] then (Inl E0324, s1)
         else apfst (map_sum id (\<lambda>_. ())) (finishTarget e (wuInnerName rq) (firstNonEmpty [wuContentHash rq, wuMD5 rq])
                (int64FromAny (firstAny [wuFileSize rq, wuSize rq])) (Join parent fileName) s1))"

end
