(* ===== verification/Spc_Transfer_Laws.thy ===== *)
theory Spc_Transfer_Laws
  imports Spc_Transfer
begin

text \<open>
  The file service and its transfers together: sessions in which requests, transfers and the sweeper interleave,
  and the proof that all of them keep the invariant and stay in the storage root.
\<close>

section \<open>Staged names lie below the root\<close>

lemma clean_segs_no_up: "''..'' \<notin> set xs \<Longrightarrow> clean_segs True st xs = rev st @ filter (\<lambda>x. x \<notin> {[], ''.''}) xs"
  by (induction xs arbitrary: st) auto

definition child_name :: "string \<Rightarrow> bool" where
  "child_name x \<longleftrightarrow> CHR ''/'' \<notin> set x \<and> x \<noteq> ''..''"

lemma Clean_names:
  assumes b: "HasPrefix b ''/''" "clean_path (Clean b)" and xs: "xs \<noteq> []" "list_all child_name xs"
  defines "ns \<equiv> filter (\<lambda>x. x \<notin> {[], ''.''}) xs"
  shows "clean_path (Clean (b @ ''/'' @ join_with ''/'' xs))" "segments (Clean (b @ ''/'' @ join_with ''/'' xs)) = segments (Clean b) @ ns"
proof -
  obtain rs where rs: "rs \<noteq> []" "list_all plain_name rs" "Clean b = abs_path rs" using b(2) clean_path_abs by blast
  have sl: "\<forall>x \<in> set xs. CHR ''/'' \<notin> set x" and up: "''..'' \<notin> set xs" using xs(2) by (auto simp: list_all_iff child_name_def)
  have sg: "segments (join_with ''/'' xs) = xs" by (rule split_join [OF sl xs(1)])
  have c: "Clean (b @ ''/'' @ join_with ''/'' xs) = abs_path (rs @ ns)"
    using Clean_join [OF b(1) rs(2,3), of "join_with ''/'' xs"] clean_segs_no_up [OF up, of "rev rs"] unfolding sg by (simp add: ns_def)
  have pl: "list_all plain_name (rs @ ns)" using rs(2) sl up by (auto simp: ns_def list_all_iff plain_name_def)
  show "clean_path (Clean (b @ ''/'' @ join_with ''/'' xs))" unfolding c clean_path_abs using pl rs(1) by (intro exI [of _ "rs @ ns"]) simp
  show "segments (Clean (b @ ''/'' @ join_with ''/'' xs)) = segments (Clean b) @ ns"
    unfolding c rs(3) using segments_abs_path [OF pl] segments_abs_path [OF rs(2)] rs(1) by simp
qed

lemma staged_child: "stagingPath b n = Some p \<Longrightarrow> child_name n \<and> p = Clean (b @ ''/'' @ join_with ''/'' [''.staging'', n])"
proof -
  assume p: "stagingPath b n = Some p"
  have "contains ''..'' ''..''" by code_simp
  then show ?thesis using p by (auto simp: stagingPath_def child_name_def split: if_splits)
qed

definition within_root :: "string \<Rightarrow> string \<Rightarrow> bool" where
  "within_root b p \<longleftrightarrow> clean_path p \<and> inside p (Clean b) \<and> p \<noteq> Clean b"

lemma within_rootI:
  assumes "clean_path p" "segments p = segments (Clean b) @ zs" "zs \<noteq> []"
  shows "within_root b p"
  using assms segments_inj [of p "Clean b"] by (auto simp: within_root_def inside_iff)

lemma staging_within:
  assumes b: "HasPrefix b ''/''" "clean_path (Clean b)" and p: "stagingPath b n = Some p"
  shows "within_root b p" "within_root b (partsPath b n)" "within_root b (p @ ''.merge'')"
proof -
  have n: "child_name n" "p = Clean (b @ ''/'' @ join_with ''/'' [''.staging'', n])" using staged_child [OF p] by auto
  have c: "child_name ''.staging''" "child_name ''.parts''" by code_simp+
  define ns where "ns = filter (\<lambda>x. x \<notin> {[], ''.''}) [''.staging'', n]"
  have sp: "clean_path p" "segments p = segments (Clean b) @ ns"
    unfolding n(2) ns_def using Clean_names [OF b, of "[''.staging'', n]"] n(1) c by simp_all
  show "within_root b p" using within_rootI [OF sp] by (simp add: ns_def)
  have pp: "partsPath b n = Clean (b @ ''/'' @ join_with ''/'' [''.staging'', ''.parts'', n])" by (simp add: partsPath_def)
  show "within_root b (partsPath b n)"
    unfolding pp using within_rootI [OF Clean_names [OF b, of "[''.staging'', ''.parts'', n]"]] n(1) c by simp
  obtain ys y where y: "ns = ys @ [y]" by (cases ns rule: rev_cases) (auto simp: ns_def)
  have "plain_name y" using clean_path_append [OF b(2) sp(2)] sp(1) y by simp
  then have py: "plain_name (y @ ''.merge'')" by (auto simp: plain_name_def Cons_eq_append_conv)
  have "segments (p @ ''.merge'') = (segments (Clean b) @ ys) @ [y @ ''.merge'']"
  proof -
    have "p = join_with ''/'' ((segments (Clean b) @ ys) @ [y])" using join_segments [of p] sp(2) y by simp
    then have "p @ ''.merge'' = join_with ''/'' ((segments (Clean b) @ ys) @ [y @ ''.merge''])"
      using join_with_append [of "segments (Clean b) @ ys" "[y]" "''/''"] join_with_append [of "segments (Clean b) @ ys" "[y @ ''.merge'']" "''/''"]
      by simp
    moreover have "\<forall>x \<in> set ((segments (Clean b) @ ys) @ [y @ ''.merge'']). CHR ''/'' \<notin> set x"
      using segments_sep [of _ p] py unfolding sp(2) y by (auto simp: plain_name_def dest: segments_sep)
    ultimately show ?thesis using split_join by simp
  qed
  moreover from this have "clean_path (p @ ''.merge'')"
    using clean_path_append [OF b(2), of "p @ ''.merge''" "ys @ [y @ ''.merge'']"] clean_path_append [OF b(2) sp(2)] sp(1) y py by simp
  ultimately show "within_root b (p @ ''.merge'')" using within_rootI [of "p @ ''.merge''" b "ys @ [y @ ''.merge'']"] by simp
qed

lemma hexEncode_name: "bs \<noteq> [] \<Longrightarrow> plain_name (hexEncode bs)"
proof -
  assume "bs \<noteq> []"
  then have "hexEncode bs \<noteq> []" by (cases bs) (simp_all add: hexEncode_def)
  moreover have "CHR ''.'' \<notin> set (hexEncode bs)" "CHR ''/'' \<notin> set (hexEncode bs)"
    using hexEncode_plain [of bs] by (auto simp: list_all_iff url_plain_def)
  ultimately show ?thesis by (auto simp: plain_name_def)
qed

lemma chunk_plain: "0 \<le> i \<Longrightarrow> plain_name (chunk_name i)" "0 \<le> i \<Longrightarrow> plain_name (chunk_name i @ ''.tmp'')"
proof -
  assume i: "0 \<le> i"
  have "CHR ''.'' \<notin> number_chars" by code_simp
  then have "CHR ''.'' \<notin> set (chunk_name i)" using chunk_name_chars [OF i] by blast
  moreover have s: "CHR ''/'' \<notin> set (chunk_name i)" by (rule number_no_slash [OF chunk_name_chars [OF i]])
  moreover have "chunk_name i \<noteq> []" using FormatInt_nonempty by (simp add: chunk_name_def Let_def)
  ultimately show "plain_name (chunk_name i)" by (auto simp: plain_name_def)
  show "plain_name (chunk_name i @ ''.tmp'')" using s by (auto simp: plain_name_def append_eq_Cons_conv)
qed

lemma within_append:
  assumes "HasPrefix b ''/''" "clean_path (Clean b)" "within_root b p" "list_all plain_name ns" "ns \<noteq> []"
  shows "within_root b (p @ ''/'' @ join_with ''/'' ns)" "segments (p @ ''/'' @ join_with ''/'' ns) = segments p @ ns"
proof -
  have p: "clean_path p" "inside p (Clean b)" using assms(3) by (simp_all add: within_root_def)
  have "\<forall>x \<in> set ns. CHR ''/'' \<notin> set x" using assms(4) by (auto simp: list_all_iff plain_name_def)
  then show s: "segments (p @ ''/'' @ join_with ''/'' ns) = segments p @ ns" using split_join [of ns] assms(5) segments_append [of p "join_with ''/'' ns"] by metis
  have "clean_path (p @ ''/'' @ join_with ''/'' ns)" using clean_path_append [OF p(1) s] assms(4) by simp
  moreover obtain zs where "segments p = segments (Clean b) @ zs" using p(2) by (auto simp: inside_iff)
  ultimately show "within_root b (p @ ''/'' @ join_with ''/'' ns)" using within_rootI [of "p @ ''/'' @ join_with ''/'' ns" b "zs @ ns"] s assms(5) by simp
qed

lemma chunks_within:
  assumes b: "HasPrefix b ''/''" "clean_path (Clean b)" and p: "stagingPath b n = Some p" and h: "envSHA256 e u \<noteq> []"
  shows "within_root b (chunkDir e b n u m)" "0 \<le> i \<Longrightarrow> within_root b (chunkPath e b n u m i)"
    "0 \<le> i \<Longrightarrow> within_root b (chunkPath e b n u m i @ ''.tmp'')"
proof -
  have x: "list_all plain_name [hexEncode (envSHA256 e u), FormatInt m]" using hexEncode_name [OF h] FormatInt_name by simp
  show d: "within_root b (chunkDir e b n u m)"
    using within_append(1) [OF b staging_within(2) [OF b p] x] by (simp add: chunkDir_def)
  show "0 \<le> i \<Longrightarrow> within_root b (chunkPath e b n u m i)" "0 \<le> i \<Longrightarrow> within_root b (chunkPath e b n u m i @ ''.tmp'')"
    using within_append(1) [OF b d, of "[chunk_name i]"] within_append(1) [OF b d, of "[chunk_name i @ ''.tmp'']"] chunk_plain [of i]
    by (simp_all add: chunkPath_def)
qed

section \<open>Staging stays below the root\<close>

lemma MkdirAll_Dir_stays:
  assumes good: "good_fs (Clean b) f" and m: "MkdirAll (Dir p) f = Some g" and p: "within_root b p"
  shows "stays (Clean b) f g"
proof -
  have "clean_path (Dir p)" "inside (Dir p) (Clean b)"
    using Dir_inside [OF good_fs_clean [OF good]] p by (auto simp: within_root_def)
  then show ?thesis by (rule MkdirAll_stays [OF good m])
qed

lemma RemoveFile_stays: "good_fs r f \<Longrightarrow> inside p r \<Longrightarrow> p \<noteq> r \<Longrightarrow> stays r f (RemoveFile p f)"
  by (rule removed_stays [of r f "RemoveFile p f" p])
    (auto simp: good_fs_def intro!: RemoveFile_fs_ok, auto simp: RemoveFile_def map_of_delete is_dir_def inside_def split: if_splits)

definition slot_names :: "upload_row table \<Rightarrow> string set" where
  "slot_names t = fst ` set t"

definition st_stays :: "staging \<Rightarrow> staging \<Rightarrow> bool" where
  "st_stays s t \<longleftrightarrow> sgRoot t = sgRoot s \<and> stays (Clean (sgRoot s)) (sgFs s) (sgFs t) \<and> slot_names (sgUploads t) \<subseteq> slot_names (sgUploads s)"

lemma st_stays_refl: "good_fs (Clean (sgRoot s)) (sgFs s) \<Longrightarrow> st_stays s s"
  by (simp add: st_stays_def stays_refl)

lemma st_stays_fs: "stays (Clean (sgRoot s)) (sgFs s) f \<Longrightarrow> st_stays s (s\<lparr>sgFs := f\<rparr>)"
  by (simp add: st_stays_def)

lemma st_stays_trans: "st_stays s t \<Longrightarrow> st_stays t u \<Longrightarrow> st_stays s u"
  unfolding st_stays_def by (auto elim: stays_trans)

lemma Stage_stays:
  assumes b: "HasPrefix (sgRoot s) ''/''" and good: "good_fs (Clean (sgRoot s)) (sgFs s)"
  shows "st_stays s (snd (Stage e n body s))"
proof (cases "stagingPath (sgRoot s) n")
  case (Some p)
  have w: "within_root (sgRoot s) p" "within_root (sgRoot s) (partsPath (sgRoot s) n)"
    using staging_within [OF b good_fs_clean [OF good] Some] by auto
  show ?thesis
  proof (cases "MkdirAll (Dir p) (sgFs s)")
    case f: (Some f)
    have sf: "stays (Clean (sgRoot s)) (sgFs s) f" by (rule MkdirAll_Dir_stays [OF good f w(1)])
    show ?thesis
    proof (cases "Create p \<lparr>ndContent = fst body, ndMtime = envNow e\<rparr> f")
      case g: (Some g)
      have sg: "stays (Clean (sgRoot s)) (sgFs s) g"
        by (rule stays_trans [OF sf Create_stays [OF stays_good [OF sf] g]]) (use w in \<open>auto simp: within_root_def\<close>)
      have "stays (Clean (sgRoot s)) (sgFs s) (RemoveAll (partsPath (sgRoot s) n) g)"
        by (rule stays_trans [OF sg RemoveAll_stays [OF stays_good [OF sg]]]) (use w in \<open>auto simp: within_root_def\<close>)
      then show ?thesis using Some f g sg by (simp add: Stage_def st_stays_fs)
    qed (use Some f sf in \<open>simp add: Stage_def st_stays_fs\<close>)
  qed (use Some good in \<open>simp add: Stage_def st_stays_refl\<close>)
qed (use good in \<open>simp add: Stage_def st_stays_refl\<close>)

lemma merge_parts_stays:
  assumes b: "HasPrefix (sgRoot s) ''/''" and good: "good_fs (Clean (sgRoot s)) (sgFs s)" and p: "stagingPath (sgRoot s) n = Some p"
  shows "st_stays s (snd (merge_parts e n p cs k s))"
proof -
  have w: "within_root (sgRoot s) p" "within_root (sgRoot s) (partsPath (sgRoot s) n)" "within_root (sgRoot s) (p @ ''.merge'')"
    using staging_within [OF b good_fs_clean [OF good] p] by auto
  note W = w [unfolded within_root_def]
  show ?thesis
  proof (cases "MkdirAll (Dir p) (sgFs s)")
    case f: (Some f)
    have sf: "stays (Clean (sgRoot s)) (sgFs s) f" by (rule MkdirAll_Dir_stays [OF good f w(1)])
    have rm: "stays (Clean (sgRoot s)) (sgFs s) g \<Longrightarrow> stays (Clean (sgRoot s)) (sgFs s) (RemoveFile (p @ ''.merge'') g)" for g
      using stays_trans [of _ "sgFs s" g] RemoveFile_stays [OF stays_good, of _ "sgFs s" g "p @ ''.merge''"] W by blast
    show ?thesis
    proof (cases "list_ex (\<lambda>c. \<not> is_file c f) cs \<and> Create (p @ ''.merge'') \<lparr>ndContent = [], ndMtime = envNow e\<rparr> f \<noteq> None")
      case True
      then show ?thesis using f rm [OF sf] by (simp add: merge_parts_def Let_def st_stays_fs)
    next
      case False
      show ?thesis
      proof (cases "Create (p @ ''.merge'') \<lparr>ndContent = concat (map (\<lambda>c. the (content_at c f)) cs), ndMtime = envNow e\<rparr> f")
        case g: (Some g)
        have sg: "stays (Clean (sgRoot s)) (sgFs s) g"
          by (rule stays_trans [OF sf Create_stays [OF stays_good [OF sf] g]]) (use W in auto)
        show ?thesis
        proof (cases "Rename (p @ ''.merge'') p g")
          case h: (Some h)
          have sh: "stays (Clean (sgRoot s)) (sgFs s) h"
            by (rule stays_trans [OF sg Rename_stays [OF stays_good [OF sg] h]]) (use W in auto)
          have "stays (Clean (sgRoot s)) (sgFs s) (RemoveAll (partsPath (sgRoot s) n) h)"
            by (rule stays_trans [OF sh RemoveAll_stays [OF stays_good [OF sh]]]) (use W in auto)
          then show ?thesis using f g h False by (auto simp: merge_parts_def Let_def st_stays_fs)
        qed (use f g False rm [OF sg] in \<open>auto simp: merge_parts_def Let_def st_stays_fs\<close>)
      qed (use f False sf in \<open>auto simp: merge_parts_def Let_def st_stays_fs\<close>)
    qed
  qed (use good in \<open>simp add: merge_parts_def st_stays_refl\<close>)
qed

lemma StagePart_stays:
  assumes b: "HasPrefix (sgRoot s) ''/''" and good: "good_fs (Clean (sgRoot s)) (sgFs s)" and h: "envSHA256 e u \<noteq> []"
  shows "st_stays s (snd (StagePart e n u k m body s))"
proof (cases "u = [] \<or> k < 1 \<or> m < 1 \<or> m > maxUploadChunks \<or> k > m \<or> stagingPath (sgRoot s) n = None")
  case False
  then obtain p where p: "stagingPath (sgRoot s) n = Some p" and c: "u \<noteq> []" "1 \<le> k" "1 \<le> m" "m \<le> maxUploadChunks" "k \<le> m" by auto
  define chunk where "chunk = chunkPath e (sgRoot s) n u m"
  have w: "within_root (sgRoot s) (chunkDir e (sgRoot s) n u m)" "within_root (sgRoot s) (chunk k)" "within_root (sgRoot s) (chunk k @ ''.tmp'')"
    using chunks_within [OF b good_fs_clean [OF good] p h] c by (auto simp: chunk_def)
  note W = w [unfolded within_root_def]
  have rm: "stays (Clean (sgRoot s)) (sgFs s) g \<Longrightarrow> stays (Clean (sgRoot s)) (sgFs s) (RemoveFile (chunk k @ ''.tmp'') g)" for g
    using stays_trans [of _ "sgFs s" g] RemoveFile_stays [OF stays_good, of _ "sgFs s" g "chunk k @ ''.tmp''"] W by blast
  have unf: "StagePart e n u k m body s = (if exists_path p (sgFs s) then (Inr (0, True), s)
       else case MkdirAll (chunkDir e (sgRoot s) n u m) (sgFs s) of
              None \<Rightarrow> (Inl FsConflict, s)
            | Some f \<Rightarrow>
                case Create (chunk k @ ''.tmp'') \<lparr>ndContent = fst body, ndMtime = envNow e\<rparr> f of
                  None \<Rightarrow> (Inl FsConflict, s\<lparr>sgFs := f\<rparr>)
                | Some g \<Rightarrow>
                    if \<not> snd body then (Inl ReadError, s\<lparr>sgFs := RemoveFile (chunk k @ ''.tmp'') g\<rparr>)
                    else case Rename (chunk k @ ''.tmp'') (chunk k) g of
                           None \<Rightarrow> (Inl FsConflict, s\<lparr>sgFs := RemoveFile (chunk k @ ''.tmp'') g\<rparr>)
                         | Some h \<Rightarrow>
                             if list_ex (\<lambda>i. \<not> exists_path (chunk i) h) [1..m] then (Inr (int (length (fst body)), False), s\<lparr>sgFs := h\<rparr>)
                             else merge_parts e n p (map chunk [1..m]) (int (length (fst body))) (s\<lparr>sgFs := h\<rparr>))"
    using p c unfolding StagePart_def Let_def chunk_def by simp
  show ?thesis
  proof (cases "MkdirAll (chunkDir e (sgRoot s) n u m) (sgFs s)")
    case f: (Some f)
    have sf: "stays (Clean (sgRoot s)) (sgFs s) f" by (rule MkdirAll_stays [OF good f]) (use W in auto)
    show ?thesis
    proof (cases "Create (chunk k @ ''.tmp'') \<lparr>ndContent = fst body, ndMtime = envNow e\<rparr> f")
      case g: (Some g)
      have sg: "stays (Clean (sgRoot s)) (sgFs s) g"
        by (rule stays_trans [OF sf Create_stays [OF stays_good [OF sf] g]]) (use W in auto)
      show ?thesis
      proof (cases "Rename (chunk k @ ''.tmp'') (chunk k) g")
        case r: (Some r)
        have sr: "stays (Clean (sgRoot s)) (sgFs s) r"
          by (rule stays_trans [OF sg Rename_stays [OF stays_good [OF sg] r]]) (use W in auto)
        have "st_stays (s\<lparr>sgFs := r\<rparr>) (snd (merge_parts e n p (map chunk [1..m]) (int (length (fst body))) (s\<lparr>sgFs := r\<rparr>)))"
          by (rule merge_parts_stays) (use b p stays_good [OF sr] in simp_all)
        from st_stays_trans [OF st_stays_fs [OF sr] this]
        show ?thesis unfolding unf f g r option.case using good sr rm [OF sg] by (simp add: st_stays_refl st_stays_fs)
      qed (use unf f g good rm [OF sg] in \<open>simp add: st_stays_refl st_stays_fs\<close>)
    qed (use unf f good sf in \<open>simp add: st_stays_refl st_stays_fs\<close>)
  qed (use unf good in \<open>simp add: st_stays_refl\<close>)
qed (use good in \<open>auto simp: StagePart_def st_stays_refl\<close>)

lemma MkdirAll_Dir_root:
  assumes "good_fs r f" "MkdirAll (Dir r) f = Some g"
  shows "g = f"
proof (cases "Dir r = ''/''")
  case False
  have rr: "clean_path r" by (rule good_fs_clean [OF assms(1)])
  have rt: "HasPrefix r ''/''" by (rule clean_pathD(1) [OF rr])
  have "is_dir q f" if q: "q \<in> set (upward (Dir r))" for q
  proof -
    obtain ms m where m: "r = abs_path (ms @ [m])" "list_all plain_name (ms @ [m])" "segments r = [] # ms @ [m]" "Dir r = abs_path ms"
      by (rule clean_split [OF rr])
    have q': "HasPrefix q ''/''" by (rule upward_rooted [OF Dir_rooted [OF rt] q])
    then have i: "inside (Dir r) q" using in_upward_inside q by blast
    have "ms \<noteq> []"
    proof
      assume "ms = []"
      then show False using m(4) False by (simp add: abs_path_def)
    qed
    then have "segments (Dir r) = [] # ms" using segments_abs_path [of ms] m(2,4) by simp
    then have "below r (Dir r)" using m(3) by (auto simp: below_iff)
    then have "below r q" by (rule below_inside_trans(1) [OF _ i])
    moreover have "q \<noteq> []" using q' by (auto simp: HasPrefix_def)
    ultimately show ?thesis using assms(1) unfolding good_fs_def fs_ok_def exists_path_def by blast
  qed
  then have "filter (\<lambda>q. \<not> is_dir q f) (upward (Dir r)) = []" by (simp add: filter_empty_conv)
  then show ?thesis using assms(2) by (auto simp: MkdirAll_def split: if_splits)
qed (use assms(2) in \<open>simp add: MkdirAll_def\<close>)

lemma Finalize_stays:
  assumes b: "HasPrefix (sgRoot s) ''/''" and good: "good_fs (Clean (sgRoot s)) (sgFs s)"
  shows "st_stays s (snd (Finalize e n h k target s)) \<and>
    (\<forall>dst. fst (Finalize e n h k target s) = Inr dst \<longrightarrow> clean_path dst \<and> inside dst (Clean (sgRoot s)))"
proof (cases "(stagingPath (sgRoot s) n, SafeResolve (sgRoot s) target)")
  case (Pair x y)
  show ?thesis
  proof (cases "x = None \<or> y = None")
    case False
    then obtain src dst where p: "stagingPath (sgRoot s) n = Some src" and d: "SafeResolve (sgRoot s) target = Some dst" using Pair by auto
    have w: "within_root (sgRoot s) src" using staging_within [OF b good_fs_clean [OF good] p] by simp
    have dst: "clean_path dst" "inside dst (Clean (sgRoot s))" using SafeResolve_inside [OF b good_fs_clean [OF good] d] by auto
    have up: "stays (Clean (sgRoot s)) (sgFs s) g" if "MkdirAll (Dir dst) (sgFs s) = Some f" "Rename src dst f = Some g" for f g
    proof -
      have "stays (Clean (sgRoot s)) (sgFs s) f"
      proof (cases "dst = Clean (sgRoot s)")
        case True
        then show ?thesis using MkdirAll_Dir_root [OF good] that(1) stays_refl [OF good] by simp
      qed (use MkdirAll_Dir_stays [OF good that(1)] dst in \<open>simp add: within_root_def\<close>)
      then show ?thesis using stays_trans Rename_stays [OF stays_good that(2) _ dst] w by (auto simp: within_root_def)
    qed
    have mk: "stays (Clean (sgRoot s)) (sgFs s) f" if "MkdirAll (Dir dst) (sgFs s) = Some f" for f
    proof (cases "dst = Clean (sgRoot s)")
      case True
      then show ?thesis using MkdirAll_Dir_root [OF good] that(1) stays_refl [OF good] by simp
    qed (use MkdirAll_Dir_stays [OF good that(1)] dst in \<open>simp add: within_root_def\<close>)
    have rows: "slot_names (map (\<lambda>(i, r). (i, if i = n then g r else r)) t) \<subseteq> slot_names t" for g t
      by (force simp: slot_names_def)
    show ?thesis
      using p d dst up mk good rows st_stays_refl [OF good]
      by (auto simp: Finalize_def Let_def st_stays_fs st_stays_def split: option.splits)
  qed (use Pair good in \<open>auto simp: Finalize_def Let_def st_stays_refl split: option.splits\<close>)
qed

definition slots_ok :: "staging \<Rightarrow> bool" where
  "slots_ok s \<longleftrightarrow> list_all (\<lambda>(n, _). stagingPath (sgRoot s) n \<noteq> None) (sgUploads s)"

lemma slots_ok_iff: "slots_ok s \<longleftrightarrow> (\<forall>n \<in> slot_names (sgUploads s). stagingPath (sgRoot s) n \<noteq> None)"
  by (auto simp: slots_ok_def slot_names_def list_all_iff)

lemma st_stays_slots: "st_stays s t \<Longrightarrow> slots_ok s \<Longrightarrow> slots_ok t"
  unfolding st_stays_def slots_ok_iff by auto

lemma sweep_one_stays:
  assumes b: "HasPrefix (sgRoot s) ''/''" and good: "good_fs (Clean (sgRoot s)) (sgFs s)" and p: "stagingPath (sgRoot s) n = Some p"
  shows "st_stays s (sweep_one n s)"
proof -
  have w: "within_root (sgRoot s) p" "within_root (sgRoot s) (partsPath (sgRoot s) n)"
    using staging_within [OF b good_fs_clean [OF good] p] by auto
  define f where "f = (case Remove p (sgFs s) of None \<Rightarrow> sgFs s | Some f \<Rightarrow> f)"
  have sf: "stays (Clean (sgRoot s)) (sgFs s) f"
    using Remove_stays [OF good] w(1) stays_refl [OF good] by (auto simp: f_def within_root_def split: option.splits)
  have "stays (Clean (sgRoot s)) (sgFs s) (RemoveAll (partsPath (sgRoot s) n) f)"
    by (rule stays_trans [OF sf RemoveAll_stays [OF stays_good [OF sf]]]) (use w in \<open>auto simp: within_root_def\<close>)
  moreover have "sweep_one n s = s\<lparr>sgFs := RemoveAll (partsPath (sgRoot s) n) f, sgUploads := AList.delete n (sgUploads s)\<rparr>"
    by (simp add: sweep_one_def Let_def f_def p split: option.split)
  moreover have "slot_names (AList.delete n (sgUploads s)) \<subseteq> slot_names (sgUploads s)"
    unfolding slot_names_def by (rule dom_delete_subset)
  ultimately show ?thesis by (simp add: st_stays_def)
qed

lemma Sweep_stays:
  assumes b: "HasPrefix (sgRoot s) ''/''" and good: "good_fs (Clean (sgRoot s)) (sgFs s)" and sl: "slots_ok s"
  shows "st_stays s (Spc_Staging.Sweep e s)"
proof -
  have step: "st_stays s (fold sweep_one ns u)" if "st_stays s u" "\<forall>n \<in> set ns. stagingPath (sgRoot s) n \<noteq> None" for ns u
    using that
  proof (induction ns arbitrary: u)
    case (Cons n ns)
    have u: "sgRoot u = sgRoot s" "stays (Clean (sgRoot s)) (sgFs s) (sgFs u)" using Cons.prems(1) by (simp_all add: st_stays_def)
    obtain p where "stagingPath (sgRoot u) n = Some p" using Cons.prems(2) u(1) by auto
    then have "st_stays u (sweep_one n u)" by (intro sweep_one_stays) (use b u stays_good [OF u(2)] in simp_all)
    then show ?case using Cons.IH [OF st_stays_trans [OF Cons.prems(1)]] Cons.prems(2) by simp
  qed simp
  show ?thesis unfolding Spc_Staging.Sweep_def
    by (rule step [OF st_stays_refl [OF good]]) (use sl in \<open>auto simp: slots_ok_def list_all_iff\<close>)
qed

section \<open>Sessions\<close>

datatype transfer =
    Download_V3 string
  | Web_Download string
  | Upload_Apply string string string
  | Upload_Stream string "(string \<times> bool) option"
  | Upload_Part string "(string \<times> bool) option"
  | Upload_Finish finish_request
  | Web_Upload_Apply web_upload
  | Web_Upload_Finish web_upload
  | Sweep_Uploads

primrec serve_transfer :: "transfer_env \<Rightarrow> transfer \<Rightarrow> spc \<Rightarrow> spc" where
  "serve_transfer e (Download_V3 i) s = snd (DownloadV3 e i s)"
| "serve_transfer e (Web_Download i) s = snd (WebDownloadURL e i s)"
| "serve_transfer e (Upload_Apply p n z) s = snd (Apply e p n z s)"
| "serve_transfer e (Upload_Stream q b) s = snd (UploadStream e q b s)"
| "serve_transfer e (Upload_Part q b) s = snd (UploadPart e q b s)"
| "serve_transfer e (Upload_Finish rq) s = snd (Finish e rq s)"
| "serve_transfer e (Web_Upload_Apply rq) s = snd (WebApply e rq s)"
| "serve_transfer e (Web_Upload_Finish rq) s = snd (WebFinish e rq s)"
| "serve_transfer e Sweep_Uploads s = s\<lparr>spSt := Spc_Staging.Sweep (teEnv e) (spSt s)\<rparr>"

datatype event = Served spc_env request | Transferred transfer_env transfer

inductive session :: "spc \<Rightarrow> event list \<Rightarrow> spc \<Rightarrow> bool" where
  no_event: "session s [] s"
| request_event: "contained_request rq s \<Longrightarrow> session (serve e rq s) evs t \<Longrightarrow> session s (Served e rq # evs) t"
| transfer_event: "session (serve_transfer e tr s) evs t \<Longrightarrow> session s (Transferred e tr # evs) t"

code_pred (modes: i \<Rightarrow> i \<Rightarrow> o \<Rightarrow> bool) session .

inductive_simps session_simps: "session s [] t" "session s (Served e rq # evs) t" "session s (Transferred e tr # evs) t"

text \<open>The digest of the chunk directories is never empty.\<close>

definition hashing :: "event \<Rightarrow> bool" where
  "hashing ev \<longleftrightarrow> (case ev of Served _ _ \<Rightarrow> True | Transferred e _ \<Rightarrow> \<forall>u. envSHA256 (teEnv e) u \<noteq> [])"

definition confined :: "spc \<Rightarrow> spc \<Rightarrow> bool" where
  "confined s t \<longleftrightarrow> spc_ok t \<and> slots_ok (spSt t) \<and> spRoot t = spRoot s \<and> same_outside (Clean (spRoot s)) (spFs s) (spFs t)"

lemma confined_trans: "confined s t \<Longrightarrow> confined t u \<Longrightarrow> confined s u"
  by (auto simp: confined_def same_outside_def)

lemma keeps_confined: "keeps s t \<Longrightarrow> slots_ok (spSt s) \<Longrightarrow> confined s t"
  by (auto simp: keeps_def confined_def slots_ok_def)

lemma st_confined:
  assumes "spc_ok s" "slots_ok (spSt s)" "st_stays (spSt s) st"
  shows "confined s (s\<lparr>spSt := st\<rparr>)"
  using assms st_stays_slots [OF assms(3,2)] by (simp add: confined_def spc_ok_def st_stays_def stays_def)

lemma newNonce_slot: "stagingPath b (newNonce bs) \<noteq> None"
proof -
  have "CHR ''/'' \<notin> set (newNonce bs)" "CHR 0x5C \<notin> set (newNonce bs)" "CHR ''.'' \<notin> set (newNonce bs)"
    using newNonce_plain [of bs] by (auto simp: list_all_iff url_plain_def)
  moreover have "newNonce bs \<noteq> []" by (simp add: newNonce_def Let_def)
  moreover have "CHR ''.'' \<in> set x" if "contains x ''..''" for x
    using that by (induction x) (auto simp: HasPrefix_def)
  ultimately show ?thesis by (auto simp: stagingPath_def)
qed

lemma confined_refl: "spc_ok s \<Longrightarrow> slots_ok (spSt s) \<Longrightarrow> confined s s"
  by (simp add: confined_def same_outside_def)

lemma spc_fs: "spc_ok s \<Longrightarrow> HasPrefix (spRoot s) ''/'' \<and> good_fs (Clean (spRoot s)) (spFs s)"
  by (simp add: spc_ok_def)

lemma registered_keeps: "spc_ok s \<Longrightarrow> PathFor i (spReg s) = Some p \<Longrightarrow> keeps s (snd (EntryFor e p s))"
  using EntryFor_keeps spc_ok_path by blast

lemma mint_keeps: "spc_ok s \<Longrightarrow> keeps s (snd (DownloadV3 e i s))" "spc_ok s \<Longrightarrow> keeps s (snd (WebDownloadURL e i s))"
proof -
  assume s: "spc_ok s"
  have k: "keeps s t" if "PathFor j (spReg s) = Some p" "EntryFor (teEnv e) p s = (x, t)" for j p x t
    using registered_keeps [OF s that(1), of "teEnv e"] that(2) by simp
  show "keeps s (snd (DownloadV3 e i s))" "keeps s (snd (WebDownloadURL e i s))"
    using k keeps_refl [OF s] by (auto simp: DownloadV3_def WebDownloadURL_def split: option.split prod.split)
qed

lemma displayForID_keeps: "spc_ok s \<Longrightarrow> keeps s (snd (displayForID e i s))"
proof -
  assume s: "spc_ok s"
  have k: "keeps s t" if "PathFor j (spReg s) = Some p" "EntryFor e p s = (x, t)" for j p x t
    using registered_keeps [OF s that(1), of e] that(2) by simp
  show ?thesis using k keeps_refl [OF s] by (auto simp: displayForID_def split: option.split prod.split)
qed

lemma record_slot_confined:
  assumes "spc_ok s" "slots_ok (spSt s)"
  shows "confined s (record_slot e (newNonce bs) tgt n k s)"
proof -
  have "set (upsert n r t) \<subseteq> insert (n, r) (set t)" for n r and t :: "upload_row table"
    by (induction t) auto
  then have "slots_ok (spSt (record_slot e (newNonce bs) tgt n k s))"
    using assms(2) newNonce_slot unfolding record_slot_def Record_def slots_ok_def list_all_iff by (auto split: if_splits) blast+
  moreover have "spRoot (record_slot e (newNonce bs) tgt n k s) = spRoot s" "spFs (record_slot e (newNonce bs) tgt n k s) = spFs s"
    "spReg (record_slot e (newNonce bs) tgt n k s) = spReg s"
    by (auto simp: record_slot_def Record_def)
  ultimately show ?thesis using assms(1) by (simp add: confined_def spc_ok_def same_outside_def)
qed

lemma upload_confined:
  assumes s: "spc_ok s" "slots_ok (spSt s)"
  shows "confined s (snd (UploadStream e q b s))" "(\<And>u. envSHA256 (teEnv e) u \<noteq> []) \<Longrightarrow> confined s (snd (UploadPart e q b s))"
proof -
  have rt: "HasPrefix (sgRoot (spSt s)) ''/''" "good_fs (Clean (sgRoot (spSt s))) (sgFs (spSt s))" using spc_fs [OF s(1)] by auto
  have st: "confined s (s\<lparr>spSt := st\<rparr>)" if "Stage (teEnv e) n body (spSt s) = (x, st)" for n body x st
    using st_confined [OF s Stage_stays [OF rt, of "teEnv e" n body]] that by simp
  show "confined s (snd (UploadStream e q b s))"
    using st confined_refl [OF s] by (auto simp: UploadStream_def split: option.split prod.split sum.split)
  assume h: "\<And>u. envSHA256 (teEnv e) u \<noteq> []"
  have sp: "confined s (s\<lparr>spSt := st\<rparr>)" if "StagePart (teEnv e) n u k m body (spSt s) = (x, st)" for n u k m body x st
    using st_confined [OF s StagePart_stays [OF rt h, of n u k m body]] that by simp
  show "confined s (snd (UploadPart e q b s))"
    using sp confined_refl [OF s] by (auto simp: UploadPart_def split: option.split prod.split sum.split)
qed

lemma maybeEnqueueOCR_keeps: "spc_ok s \<Longrightarrow> keeps s (maybeEnqueueOCR e p s)"
  by (auto simp: maybeEnqueueOCR_def keeps_refl emit_keeps split: option.split)

lemma finishTarget_confined:
  assumes s: "spc_ok s" "slots_ok (spSt s)"
  shows "confined s (snd (finishTarget e n h k tgt s))"
proof -
  have rt: "HasPrefix (sgRoot (spSt s)) ''/''" "good_fs (Clean (sgRoot (spSt s))) (sgFs (spSt s))" using spc_fs [OF s(1)] by auto
  obtain x st where x: "Finalize (teEnv e) n h k tgt (spSt s) = (x, st)" by (cases "Finalize (teEnv e) n h k tgt (spSt s)")
  note F = Finalize_stays [OF rt, of "teEnv e" n h k tgt, unfolded x fst_conv snd_conv]
  have c: "confined s (s\<lparr>spSt := st\<rparr>)" using st_confined [OF s] F by simp
  show ?thesis
  proof (cases x)
    case (Inr p)
    have c': "spc_ok (s\<lparr>spSt := st\<rparr>)" "slots_ok (spSt (s\<lparr>spSt := st\<rparr>))" using c by (simp_all add: confined_def)
    have ins: "inside p (Clean (spRoot (s\<lparr>spSt := st\<rparr>)))" using F Inr by (auto simp: st_stays_def)
    obtain y t where y: "EntryFor (teEnv e) p (s\<lparr>spSt := st\<rparr>) = (y, t)" by (cases "EntryFor (teEnv e) p (s\<lparr>spSt := st\<rparr>)")
    have k: "keeps (s\<lparr>spSt := st\<rparr>) t" using EntryFor_keeps [OF c'(1) ins, of "teEnv e"] y by simp
    have k2: "keeps t (emit NotifyFile (maybeEnqueueOCR e p t))"
      using keeps_trans [OF maybeEnqueueOCR_keeps [OF keeps_ok [OF k]] emit_keeps [OF keeps_ok [OF maybeEnqueueOCR_keeps [OF keeps_ok [OF k]]]]] .
    have "confined s t" "confined s (emit NotifyFile (maybeEnqueueOCR e p t))"
      using confined_trans [OF c keeps_confined [OF k c'(2)]] confined_trans [OF c keeps_confined [OF keeps_trans [OF k k2] c'(2)]] by auto
    then show ?thesis using x Inr y confined_refl [OF s] by (auto simp: finishTarget_def split: option.split)
  qed (use x c confined_refl [OF s] in \<open>simp add: finishTarget_def\<close>)
qed

lemma web_upload_confined:
  assumes s: "spc_ok s" "slots_ok (spSt s)"
  shows "confined s (snd (WebApply e rq s))" "confined s (snd (WebFinish e rq s))"
proof -
  obtain d t where d: "displayForID (teEnv e) (wuDirectoryID rq) s = (d, t)" by (cases "displayForID (teEnv e) (wuDirectoryID rq) s")
  have c: "confined s t" using keeps_confined [OF displayForID_keeps [OF s(1), of "teEnv e" "wuDirectoryID rq"] s(2)] d by simp
  have t: "spc_ok t" "slots_ok (spSt t)" using c by (simp_all add: confined_def)
  show "confined s (snd (WebApply e rq s))"
    using c confined_trans [OF c record_slot_confined [OF t]] by (simp add: WebApply_def d Let_def)
  show "confined s (snd (WebFinish e rq s))"
    using c confined_trans [OF c finishTarget_confined [OF t]] by (simp add: WebFinish_def d Let_def apfst_def)
qed

lemma serve_transfer_confined:
  assumes s: "spc_ok s" "slots_ok (spSt s)" and h: "\<And>u. envSHA256 (teEnv e) u \<noteq> []"
  shows "confined s (serve_transfer e tr s)"
proof (cases tr)
  case (Upload_Finish rq)
  then show ?thesis using finishTarget_confined [OF s] by (simp add: Finish_def)
next
  case (Upload_Apply p n z)
  then show ?thesis using record_slot_confined [OF s] by (simp add: Apply_def Let_def)
next
  case Sweep_Uploads
  have "st_stays (spSt s) (Spc_Staging.Sweep (teEnv e) (spSt s))" by (rule Sweep_stays) (use spc_fs [OF s(1)] s(2) in auto)
  then show ?thesis using st_confined [OF s] Sweep_Uploads by simp
qed (use keeps_confined [OF mint_keeps(1) [OF s(1)] s(2)] keeps_confined [OF mint_keeps(2) [OF s(1)] s(2)]
  upload_confined [OF s] h web_upload_confined [OF s] in \<open>simp_all\<close>)

lemma session_confined: "session s evs t \<Longrightarrow> spc_ok s \<Longrightarrow> slots_ok (spSt s) \<Longrightarrow> list_all hashing evs \<Longrightarrow> confined s t"
proof (induction rule: session.induct)
  case (request_event rq s e evs t)
  have c: "confined s (serve e rq s)" by (rule keeps_confined [OF serve_keeps]) (use request_event in auto)
  then show ?case using confined_trans [OF c] request_event.IH request_event.prems by (simp add: confined_def)
next
  case (transfer_event e tr s evs t)
  have c: "confined s (serve_transfer e tr s)" by (rule serve_transfer_confined) (use transfer_event in \<open>auto simp: hashing_def\<close>)
  then show ?case using confined_trans [OF c] transfer_event.IH transfer_event.prems by (simp add: confined_def)
qed (rule confined_refl)

end
