(* ===== verification/Spc_Upload.thy ===== *)
theory Spc_Upload
  imports Spc_Transfer_Laws Spc_Effects
begin

text \<open>
  What transfers do: no session of requests, transfers and sweeps leaves the storage root; a minted download URL
  serves the named file exactly within its window, unless its time stamp is moved; and what is uploaded through a
  minted URL and finished is what a later download serves, with nothing else changed.
\<close>

section \<open>Sessions\<close>

text \<open>
  C15. The file service stays in its storage root: along any session of requests, transfers and sweeps, with the
  three breaking requests left out (an autorenamed move or copy onto the root itself, a rename of the root's own id, a
  restore while the recycle directory has an id), the file system stays well-formed with unique ids and registered paths under
  the root, every upload slot stays a name below the staging area, and no file or directory outside the root
  appears, changes or disappears - whatever paths, names, ids, queries and bodies the clients send.
\<close>

theorem session_contained:
  assumes "spc_ok s" "slots_ok (spSt s)" "session s evs t" "list_all hashing evs"
  shows "spc_ok t \<and> slots_ok (spSt t) \<and> spRoot t = spRoot s \<and>
    (\<forall>q. \<not> inside q (Clean (spRoot s)) \<longrightarrow> map_of (fsFiles (spFs t)) q = map_of (fsFiles (spFs s)) q \<and> is_dir q (spFs t) = is_dir q (spFs s))"
  using session_confined [OF assms(3,1,2,4)] by (simp add: confined_def same_outside_def)

section \<open>Reading a minted query\<close>

definition same_key :: "signer \<Rightarrow> signer \<Rightarrow> bool" where
  "same_key g h \<longleftrightarrow> snSecret g = snSecret h \<and> snSHA256 g = snSHA256 h"

lemma same_key_signatures:
  "same_key g h \<Longrightarrow> DownloadSignature g = DownloadSignature h" "same_key g h \<Longrightarrow> UploadSignature g = UploadSignature h"
  by (simp_all add: same_key_def DownloadSignature_def UploadSignature_def sha256Hex_def fun_eq_iff)

lemma plain_keys: "list_all url_plain ''path''" "list_all url_plain ''signature''" "list_all url_plain ''timestamp''"
  "list_all url_plain ''nonce''"
  by code_simp+

lemma signature_plain: "list_all url_plain (DownloadSignature g enc ts n)" "list_all url_plain (UploadSignature g enc ts n z)"
  by (simp_all add: DownloadSignature_def UploadSignature_def sha256Hex_def hexEncode_plain)

lemma download_lookup:
  assumes p: "list_all url_plain enc" "list_all url_plain sig" "list_all url_plain nonce"
  shows "query_get ''path'' (download_query enc sig ts nonce pid) = enc"
    "query_get ''signature'' (download_query enc sig ts nonce pid) = sig"
    "query_get ''timestamp'' (download_query enc sig ts nonce pid) = FormatInt ts"
    "query_get ''nonce'' (download_query enc sig ts nonce pid) = nonce"
proof -
  define q3 where "q3 = ''nonce'' @ ''='' @ nonce @ ''&'' @ ''pathId='' @ pid"
  define q2 where "q2 = ''timestamp'' @ ''='' @ FormatInt ts @ ''&'' @ q3"
  define q1 where "q1 = ''signature'' @ ''='' @ sig @ ''&'' @ q2"
  have q: "download_query enc sig ts nonce pid = ''path'' @ ''='' @ enc @ ''&'' @ q1"
    by (simp add: download_query_def q1_def q2_def q3_def)
  note G = query_get_first(1) [OF plain_keys(1) p(1)] query_get_first(1) [OF plain_keys(2) p(2)]
    query_get_first(1) [OF plain_keys(3) FormatInt_url] query_get_first(1) [OF plain_keys(4) p(3)]
  have k: "query_get key q1 = (if key = ''signature'' then sig else query_get key q2)"
    "query_get key q2 = (if key = ''timestamp'' then FormatInt ts else query_get key q3)"
    "query_get ''nonce'' q3 = nonce" for key
    unfolding q1_def q2_def q3_def G by simp_all
  show "query_get ''path'' (download_query enc sig ts nonce pid) = enc"
    "query_get ''signature'' (download_query enc sig ts nonce pid) = sig"
    "query_get ''timestamp'' (download_query enc sig ts nonce pid) = FormatInt ts"
    "query_get ''nonce'' (download_query enc sig ts nonce pid) = nonce"
    unfolding q G(1) by (simp_all add: k)
qed

lemma upload_lookup:
  fixes n :: string and e :: transfer_env
  defines "enc \<equiv> EncryptPath n" and "ts \<equiv> nowMillis (teSigner e)" and "nonce \<equiv> newNonce (teNonce e)"
  shows "query_get ''path'' (upload_query e n) = enc" "query_get ''signature'' (upload_query e n) = upload_sig e n"
    "query_get ''timestamp'' (upload_query e n) = FormatInt ts" "query_get ''nonce'' (upload_query e n) = nonce"
proof -
  have p: "list_all url_plain enc" "list_all url_plain (upload_sig e n)" "list_all url_plain nonce"
    by (simp_all add: enc_def nonce_def EncryptPath_plain newNonce_plain upload_sig_def signature_plain)
  define q3 where "q3 = ''path'' @ ''='' @ enc"
  define q2 where "q2 = ''nonce'' @ ''='' @ nonce @ ''&'' @ q3"
  define q1 where "q1 = ''timestamp'' @ ''='' @ FormatInt ts @ ''&'' @ q2"
  have q: "upload_query e n = ''signature'' @ ''='' @ upload_sig e n @ ''&'' @ q1"
    by (simp add: upload_query_def q1_def q2_def q3_def enc_def ts_def nonce_def)
  note G = query_get_first(1) [OF plain_keys(2) p(2)] query_get_first(1) [OF plain_keys(3) FormatInt_url]
    query_get_first(1) [OF plain_keys(4) p(3)] query_get_first(2) [OF plain_keys(1) p(1)]
  have k: "query_get key q1 = (if key = ''timestamp'' then FormatInt ts else query_get key q2)"
    "query_get key q2 = (if key = ''nonce'' then nonce else query_get key q3)" "query_get ''path'' q3 = enc" for key
    unfolding q1_def q2_def q3_def G by simp_all
  show "query_get ''path'' (upload_query e n) = enc" "query_get ''signature'' (upload_query e n) = upload_sig e n"
    "query_get ''timestamp'' (upload_query e n) = FormatInt ts" "query_get ''nonce'' (upload_query e n) = nonce"
    unfolding q G(1) by (simp_all add: k)
qed

text \<open>What a stream serves of a path, once the signature is accepted.\<close>

definition served :: "string \<Rightarrow> spc \<Rightarrow> oss_failure + string \<times> string" where
  "served display s =
     (case SafeResolve (spRoot s) display of
        None \<Rightarrow> Inl TransferFailed
      | Some p \<Rightarrow> (case content_at p (spFs s) of None \<Rightarrow> Inl TransferFailed | Some c \<Rightarrow> Inr (Base p, c)))"

lemma stream_query:
  assumes "list_all url_plain sig" "list_all url_plain nonce" "int64 ts"
  shows "DownloadStream g (download_query (EncryptPath d) sig ts nonce pid) s =
    (if ValidateDownload g sig ts nonce (EncryptPath d) then served d s else Inl SignatureFailed)"
  using download_lookup [OF EncryptPath_plain assms(1,2)] ParseInt_FormatInt [OF assms(3)]
  by (simp add: DownloadStream_def served_def)

lemma served_display:
  assumes "spc_ok s" "clean_path p" "inside p (Clean (spRoot s))"
  shows "served (displayPath (spRoot s) p) s = (case content_at p (spFs s) of None \<Rightarrow> Inl TransferFailed | Some c \<Rightarrow> Inr (Base p, c))"
proof -
  have b: "HasPrefix (spRoot s) ''/''" "clean_path (Clean (spRoot s))" using assms(1) spc_ok_root(1) by (auto simp: spc_ok_def)
  obtain rs where rs: "rs \<noteq> []" "list_all plain_name rs" "Clean (spRoot s) = abs_path rs" using b(2) clean_path_abs by blast
  obtain zs where z: "segments p = segments (Clean (spRoot s)) @ zs" using assms(3) by (auto simp: inside_iff)
  have pl: "list_all plain_name zs" using clean_path_append [OF b(2) z] assms(2) by simp
  have "segments p = segments (abs_path (rs @ zs))"
    unfolding z rs(3) using segments_abs_path [of rs] segments_abs_path [of "rs @ zs"] rs(1,2) pl by simp
  then have pe: "p = abs_path (rs @ zs)" using segments_inj by blast
  show ?thesis unfolding served_def pe SafeResolve_display [OF b(1) rs(2,3) pl] by simp
qed

section \<open>Downloads\<close>

lemma minted_download:
  assumes "spc_ok s" "ParseInt rawID = Some i" "PathFor i (spReg s) = Some p" "exists_path p (spFs s)"
    "int64 (nowMillis (teSigner e))" "same_key g (teSigner e)" "spc_ok t" "spRoot t = spRoot s"
  shows "\<exists>x q. fst (DownloadV3 e rawID s) = Inr (x, teBase e @ ''/api/oss/download?'' @ q) \<and> enID x = i \<and>
    enPath x = displayPath (spRoot s) p \<and>
    DownloadStream g q t =
      (if snNow g \<le> nowMillis (teSigner e) * time_unit + downloadTTL
       then (case content_at p (spFs t) of None \<Rightarrow> Inl TransferFailed | Some c \<Rightarrow> Inr (Base p, c))
       else Inl SignatureFailed)"
proof -
  have c: "clean_path p" "inside p (Clean (spRoot s))" using spc_ok_path [OF assms(1,3)] by auto
  obtain x r where x: "EntryFor (teEnv e) p s = (Some x, with_reg r s)" "enPath x = displayPath (spRoot s) p"
    "\<And>i. PathFor i (spReg s) = Some p \<Longrightarrow> enID x = i"
    by (rule EntryFor_id [OF assms(1) c(2) assms(4)]) (rule that; (assumption | simp only:))
  have ne: "spRoot s \<noteq> []" using assms(1) by (auto simp: spc_ok_def HasPrefix_def)
  define ts where "ts = nowMillis (teSigner e)"
  define q where "q = signed_query e (enPath x) (FormatInt (enID x))"
  have v3: "fst (DownloadV3 e rawID s) = Inr (x, teBase e @ ''/api/oss/download?'' @ q)"
    using assms(2,3,4) x(1) ne by (simp add: DownloadV3_def signedDownloadURL_def q_def)
  have w: "withinWindow g ts downloadTTL \<longleftrightarrow> snNow g \<le> ts * time_unit + downloadTTL"
    by (auto simp: withinWindow_def time_sub_def downloadTTL_def time_unit_def)
  have "DownloadStream g q t = (if snNow g \<le> ts * time_unit + downloadTTL then served (displayPath (spRoot s) p) t else Inl SignatureFailed)"
    unfolding q_def signed_query_def Let_def x(2) ts_def [symmetric]
      stream_query [OF signature_plain(1) newNonce_plain assms(5) [folded ts_def]]
    using same_key_signatures(1) [OF assms(6)] w by (simp add: ValidateDownload_def)
  also have "served (displayPath (spRoot s) p) t = (case content_at p (spFs t) of None \<Rightarrow> Inl TransferFailed | Some c \<Rightarrow> Inr (Base p, c))"
    using served_display [of t p] assms(7,8) c by simp
  finally show ?thesis
    by (intro exI [of _ x] exI [of _ q] conjI) (use v3 x(2) x(3) [OF assms(3)] in \<open>simp_all add: ts_def\<close>)
qed

text \<open>
  C20. A minted download URL serves exactly the file it was minted for, exactly while it is fresh: the URL that
  \<open>DownloadV3\<close> answers for a registered path is accepted until 24 hours after its time stamp, and then the stream
  answers the bytes the file has at that moment, or a failure when there is no file; after that it is refused.
\<close>

theorem download_url_exact:
  assumes "spc_ok s" "ParseInt rawID = Some i" "PathFor i (spReg s) = Some p" "exists_path p (spFs s)"
    "int64 (nowMillis (teSigner e))" "same_key g (teSigner e)" "spc_ok t" "spRoot t = spRoot s"
  shows "\<exists>x q. fst (DownloadV3 e rawID s) = Inr (x, teBase e @ ''/api/oss/download?'' @ q) \<and> enID x = i \<and>
    enPath x = displayPath (spRoot s) p \<and>
    DownloadStream g q t =
      (if snNow g \<le> nowMillis (teSigner e) * time_unit + downloadTTL
       then (case content_at p (spFs t) of None \<Rightarrow> Inl TransferFailed | Some c \<Rightarrow> Inr (Base p, c))
       else Inl SignatureFailed)"
  by (rule minted_download [OF assms])

lemma FormatInt_snoc: "0 < i \<Longrightarrow> d < 10 \<Longrightarrow> FormatInt (10 * i + int d) = FormatInt i @ [digit_char d]"
proof -
  assume a: "0 < i" "d < 10"
  define n where "n = nat i"
  have n: "nat (10 * i + int d) = 10 * n + d" "\<not> 10 * n + d < 10" "(10 * n + d) div 10 = n" "(10 * n + d) mod 10 = d"
    using a by (auto simp: n_def nat_add_distrib nat_mult_distrib)
  have "show_nat (10 * n + d) = show_nat n @ [digit_char d]" using n(2-4) by (subst show_nat.simps) simp
  then show ?thesis using a n(1) by (simp add: FormatInt_def n_def)
qed

lemma newNonce_first: "bs \<noteq> [] \<Longrightarrow> \<exists>rest. newNonce bs = hex_digit (byte_val (hd bs) div 16) # rest"
proof -
  assume "bs \<noteq> []"
  then obtain x xs where x: "bs = x # xs" by (cases bs) auto
  then show ?thesis by (cases "(x # xs)[6 := char_of (byte_val ((x # xs) ! 6) mod 16 + 64), 8 := char_of (byte_val ((x # xs) ! 8) mod 64 + 128)]")
    (simp_all add: newNonce_def Let_def hexEncode_def byte_val_def)
qed

text \<open>
  C22. The window of a download URL can be stretched by whoever holds it: the digest is taken over path, time
  stamp and nonce without separators, so when the first character of the random nonce is a digit, moving that
  digit to the end of the time stamp leaves the signature valid while the time stamp grows tenfold - the same
  file is then served until ten times the epoch has passed, and not for 24 hours.
\<close>

theorem download_url_stretched:
  assumes "0 < nowMillis (teSigner e)" "int64 (10 * nowMillis (teSigner e) + int d)" "teNonce e \<noteq> []"
    "d = byte_val (hd (teNonce e)) div 16" "d < 10" "same_key g (teSigner e)"
    "snNow g \<le> (10 * nowMillis (teSigner e) + int d) * time_unit"
  shows "let q = signed_query e display pid
    in DownloadStream g (download_query (query_get ''path'' q) (query_get ''signature'' q)
         (10 * nowMillis (teSigner e) + int d) (tl (query_get ''nonce'' q)) pid) s = served display s"
proof -
  define ts where "ts = nowMillis (teSigner e)"
  define enc where "enc = EncryptPath display"
  define nonce where "nonce = newNonce (teNonce e)"
  define sig where "sig = DownloadSignature (teSigner e) enc ts nonce"
  have pl: "list_all url_plain enc" "list_all url_plain sig" "list_all url_plain nonce"
    by (simp_all add: enc_def sig_def nonce_def EncryptPath_plain signature_plain newNonce_plain)
  have q: "signed_query e display pid = download_query enc sig ts nonce pid"
    by (simp add: signed_query_def Let_def enc_def ts_def nonce_def sig_def)
  obtain rest where rest: "nonce = hex_digit d # rest" using newNonce_first [OF assms(3)] assms(4) by (auto simp: nonce_def)
  have hd: "hex_digit d = digit_char d" using assms(5) by (simp add: hex_digit_def digit_char_def add.commute)
  have sg: "DownloadSignature (teSigner e) enc (10 * ts + int d) rest = sig"
    using FormatInt_snoc [of ts d] assms(1,5) by (simp add: sig_def DownloadSignature_def ts_def rest hd)
  have w: "withinWindow g (10 * ts + int d) downloadTTL"
    using assms(7) by (simp add: withinWindow_def time_sub_def downloadTTL_def time_unit_def ts_def)
  have v: "ValidateDownload g sig (10 * ts + int d) rest enc"
    unfolding ValidateDownload_def same_key_signatures(1) [OF assms(6)] using w sg by simp
  have "list_all url_plain rest" using pl(3) by (simp add: rest)
  then have "DownloadStream g (download_query enc sig (10 * ts + int d) rest pid) s = served display s"
    unfolding enc_def by (subst stream_query) (use pl(2) assms(2) v in \<open>simp_all add: ts_def enc_def\<close>)
  then show ?thesis unfolding Let_def q download_lookup [OF pl] by (simp add: rest ts_def)
qed

section \<open>Uploads\<close>

lemma upload_accepted:
  assumes "int64 (nowMillis (teSigner e0))" "same_key g (teSigner e0)" "snNow g \<le> nowMillis (teSigner e0) * time_unit + uploadTTL"
  shows "upload_target g (upload_query e0 n) = Some n"
proof -
  have "withinWindow g (nowMillis (teSigner e0)) uploadTTL"
    using assms(3) by (simp add: withinWindow_def time_sub_def uploadTTL_def time_unit_def)
  then show ?thesis
    using same_key_signatures(2) [OF assms(2)] ParseInt_FormatInt [OF assms(1)]
    by (simp add: upload_target_def upload_lookup ValidateUpload_def upload_sig_def)
qed

lemma Stage_effect:
  assumes base: "HasPrefix (sgRoot s) ''/''" and good: "good_fs (Clean (sgRoot s)) (sgFs s)"
    and st: "stagingPath (sgRoot s) n = Some p" "own_name n"
    and free: "\<not> is_file (Dir p) (sgFs s)" "\<not> is_dir p (sgFs s)"
  obtains g where "Stage e n (bytes, True) s = (Inr (int (length bytes)), s\<lparr>sgFs := g\<rparr>)"
    "map_of (fsFiles g) p = Some \<lparr>ndContent = bytes, ndMtime = envNow e\<rparr>"
    "\<And>q. \<not> inside q (Dir p) \<Longrightarrow> map_of (fsFiles g) q = map_of (fsFiles (sgFs s)) q \<and> is_dir q g = is_dir q (sgFs s)"
    "\<And>q. is_file q g \<Longrightarrow> is_file q (sgFs s) \<or> inside q (Dir p)"
proof -
  have cb: "clean_path (Clean (sgRoot s))" by (rule good_fs_clean [OF good])
  have w: "clean_path p" "inside p (Clean (sgRoot s))" "p \<noteq> Clean (sgRoot s)" "within_root (sgRoot s) p"
    using staging_within(1) [OF base cb st(1)] by (simp_all add: within_root_def)
  have seg: "segments p = segments (Dir p) @ [n]" "segments (partsPath (sgRoot s) n) = segments (Dir p) @ [''.parts'', n]"
    by (rule upload_segs(1) [OF base st], rule upload_segs(3) [OF base st])
  have rt: "HasPrefix (Dir p) ''/''" "Dir p \<noteq> ''/''" by (rule upload_segs(7) [OF base st], rule upload_segs(8) [OF base st])
  have D: "segments (Dir p) = segments (Clean (sgRoot s)) @ [''.staging'']"
  proof -
    obtain rs where rs: "list_all plain_name rs" "Clean (sgRoot s) = abs_path rs" "segments (Dir p) = [] # rs @ [''.staging'']"
      by (rule upload_paths [OF base st, of e "[]" 0]) (rule that; assumption)
    have "rs \<noteq> []" using clean_pathD(2) [OF cb] rs(2) by (auto simp: abs_path_def)
    then show ?thesis using rs segments_abs_path [of rs] by simp
  qed
  have above: "is_dir q (sgFs s)" if q: "q \<in> set (upward (Dir p))" "q \<noteq> Dir p" for q
  proof -
    have qr: "HasPrefix q ''/''" by (rule upward_rooted [OF rt(1) q(1)])
    have "below (Dir p) q" using in_upward_inside [OF qr, of "Dir p"] q by (auto simp: inside_def)
    then obtain zs where z: "segments (Clean (sgRoot s)) @ [''.staging''] = segments q @ zs" "zs \<noteq> []" using D by (auto simp: below_iff)
    obtain us u where "zs = us @ [u]" using z(2) by (cases zs rule: rev_cases) auto
    then have "inside (Clean (sgRoot s)) q" using z(1) by (auto simp: inside_iff)
    moreover have "q \<noteq> []" using qr by (auto simp: HasPrefix_def)
    ultimately show ?thesis using good unfolding good_fs_def fs_ok_def inside_def exists_path_def by blast
  qed
  have nf: "\<not> is_file q (sgFs s)" if q: "q \<in> set (upward (Dir p))" for q
  proof (cases "q = Dir p")
    case False
    then show ?thesis using above [OF q] good unfolding good_fs_def fs_ok_def by blast
  qed (use free(1) in simp)
  then obtain f where f: "MkdirAll (Dir p) (sgFs s) = Some f" using MkdirAll_ok by blast
  have fd: "is_dir q f \<longleftrightarrow> is_dir q (sgFs s) \<or> q \<in> set (upward (Dir p))" for q
    using MkdirAll_dirs [OF f rt(2)] by (auto simp: is_dir_def)
  have upin: "inside (Dir p) q" if "q \<in> set (upward (Dir p))" for q
    using in_upward_inside [OF upward_rooted [OF rt(1) that]] that by blast
  have bp: "below p (Dir p)" using seg(1) by (auto simp: below_iff)
  have "p \<notin> set (upward (Dir p))" using upin below_inside_trans(1) [OF bp] below_irrefl by blast
  then have ndp: "\<not> is_dir p f" using fd free(2) by simp
  have "upward p = upward (Dir p) @ [p]" by (rule upward_snoc [OF seg(1) rooted_segments [OF rt(1)]])
  then have par: "parent_ok p f" using MkdirAll_parent [OF f rt(2)] by (auto simp: parent_ok_def list_all_iff)
  have np: "p \<noteq> ''/''" by (rule clean_pathD(2) [OF w(1)])
  define nd where "nd = \<lparr>ndContent = bytes, ndMtime = envNow e\<rparr>"
  define h where "h = f\<lparr>fsFiles := upsert p nd (fsFiles f)\<rparr>"
  have h: "Create p nd f = Some h" using ndp par np by (simp add: Create_def h_def)
  define g where "g = RemoveAll (partsPath (sgRoot s) n) h"
  have eq: "Stage e n (bytes, True) s = (Inr (int (length bytes)), s\<lparr>sgFs := g\<rparr>)"
    using st(1) f h by (simp add: Stage_def nd_def g_def)
  have pin: "inside (partsPath (sgRoot s) n) (Dir p)" using seg(2) by (auto simp: inside_iff)
  have pnot: "\<not> inside p (partsPath (sgRoot s) n)" using seg by (auto simp: inside_iff)
  have files: "map_of (fsFiles g) q = (if inside q (partsPath (sgRoot s) n) then None else if q = p then Some nd else map_of (fsFiles (sgFs s)) q)" for q
    using MkdirAll_files [OF f] by (auto simp: g_def h_def map_of_RemoveAll inside_def)
  have dirs: "is_dir q g \<longleftrightarrow> (is_dir q (sgFs s) \<or> q \<in> set (upward (Dir p))) \<and> \<not> inside q (partsPath (sgRoot s) n)" for q
  proof -
    have "is_dir q h = is_dir q f" by (simp add: h_def is_dir_def)
    then show ?thesis unfolding g_def is_dir_RemoveAll fd by (auto simp: inside_def)
  qed
  show ?thesis
  proof (rule that [OF eq])
    show "map_of (fsFiles g) p = Some \<lparr>ndContent = bytes, ndMtime = envNow e\<rparr>" using files pnot by (simp add: nd_def)
    fix q assume q: "\<not> inside q (Dir p)"
    have nq: "\<not> inside q (partsPath (sgRoot s) n)" using q inside_trans pin by blast
    have "q \<noteq> p" "q \<noteq> Dir p" using q bp by (auto simp: inside_def)
    then show "map_of (fsFiles g) q = map_of (fsFiles (sgFs s)) q \<and> is_dir q g = is_dir q (sgFs s)"
      using files dirs nq above by auto
  next
    fix q assume "is_file q g"
    then show "is_file q (sgFs s) \<or> inside q (Dir p)" using files [of q] bp by (auto simp: is_file_def inside_def split: if_splits)
  qed
qed

lemma record_slot_simps: "spFs (record_slot e n tgt f k s) = spFs s" "spRoot (record_slot e n tgt f k s) = spRoot s"
  "spReg (record_slot e n tgt f k s) = spReg s"
  by (auto simp: record_slot_def Record_def)

lemma spc_ok_cong: "spc_ok s \<Longrightarrow> spRoot t = spRoot s \<Longrightarrow> spFs t = spFs s \<Longrightarrow> spReg t = spReg s \<Longrightarrow> spc_ok t"
  by (simp add: spc_ok_def)

lemma newNonce_own: "own_name (newNonce bs)"
proof -
  have "CHR ''.'' \<notin> set (newNonce bs)" using newNonce_plain [of bs] by (auto simp: list_all_iff url_plain_def)
  then show ?thesis by (auto simp: own_name_def)
qed

lemma maybeEnqueueOCR_simps: "spSt (maybeEnqueueOCR e p s) = spSt s" "spReg (maybeEnqueueOCR e p s) = spReg s"
  by (auto simp: maybeEnqueueOCR_def emit_def split: option.split)

text \<open>The two halves of an upload, on the state the first leaves.\<close>

lemma stream_effect:
  assumes s: "spc_ok s" and key: "int64 (nowMillis (teSigner e0))" "same_key (teSigner e1) (teSigner e0)"
      "snNow (teSigner e1) \<le> nowMillis (teSigner e0) * time_unit + uploadTTL"
    and staged: "stagingPath (spRoot s) n = Some p" "own_name n" "\<not> is_file (Dir p) (spFs s)" "\<not> is_dir p (spFs s)"
  obtains t where "UploadStream e1 (upload_query e0 n) (Some (bytes, True)) s = (Inr (), t)" "spc_ok t" "spRoot t = spRoot s" "spReg t = spReg s"
    "map_of (fsFiles (spFs t)) p = Some \<lparr>ndContent = bytes, ndMtime = envNow (teEnv e1)\<rparr>"
    "\<And>q. \<not> inside q (Dir p) \<Longrightarrow> map_of (fsFiles (spFs t)) q = map_of (fsFiles (spFs s)) q \<and> is_dir q (spFs t) = is_dir q (spFs s)"
    "\<And>q. is_file q (spFs t) \<Longrightarrow> is_file q (spFs s) \<or> inside q (Dir p)"
proof -
  have rt: "HasPrefix (spRoot s) ''/''" "good_fs (Clean (spRoot s)) (spFs s)" using spc_fs [OF s] by auto
  obtain g where g: "Stage (teEnv e1) n (bytes, True) (spSt s) = (Inr (int (length bytes)), (spSt s)\<lparr>sgFs := g\<rparr>)"
    "map_of (fsFiles g) p = Some \<lparr>ndContent = bytes, ndMtime = envNow (teEnv e1)\<rparr>"
    "\<And>q. \<not> inside q (Dir p) \<Longrightarrow> map_of (fsFiles g) q = map_of (fsFiles (spFs s)) q \<and> is_dir q g = is_dir q (spFs s)"
    "\<And>q. is_file q g \<Longrightarrow> is_file q (spFs s) \<or> inside q (Dir p)"
    by (rule Stage_effect [OF rt staged, of "teEnv e1" bytes]) (rule that; assumption)
  have ne: "spRoot s \<noteq> []" using rt(1) by (auto simp: HasPrefix_def)
  have eq: "UploadStream e1 (upload_query e0 n) (Some (bytes, True)) s = (Inr (), s\<lparr>spSt := (spSt s)\<lparr>sgFs := g\<rparr>\<rparr>)"
    using upload_accepted [OF key] g(1) ne by (simp add: UploadStream_def)
  have "st_stays (spSt s) ((spSt s)\<lparr>sgFs := g\<rparr>)" using Stage_stays [OF rt, of "teEnv e1" n "(bytes, True)"] g(1) by simp
  then have "spc_ok (s\<lparr>spSt := (spSt s)\<lparr>sgFs := g\<rparr>\<rparr>)" using s by (simp add: spc_ok_def st_stays_def stays_def)
  then show ?thesis by (rule that [OF eq]) (use g in simp_all)
qed

lemma finish_effect:
  assumes s: "spc_ok s" and staged: "stagingPath (spRoot s) (frInnerName rq) = Some p" "map_of (fsFiles (spFs s)) p = Some nd"
    and claims: "parse_lenient (frSize rq) = int (length (ndContent nd))" "frContentHash rq = hexEncode (envMD5 (teEnv e) (ndContent nd))"
    and dst: "SafeResolve (spRoot s) (Join (frPath rq) (frFileName rq)) = Some dst" "\<not> is_dir dst (spFs s)" "\<forall>q. is_file q (spFs s) \<longrightarrow> \<not> below dst q"
  obtains x t where "Finish e rq s = (Inr x, t)" "enPath x = displayPath (spRoot s) dst" "\<not> enFolder x" "PathFor (enID x) (spReg t) = Some dst"
    "spc_ok t" "spRoot t = spRoot s" "map_of (fsFiles (spFs t)) = (map_of (fsFiles (spFs s)))(p := None, dst \<mapsto> nd)"
proof -
  have rt: "HasPrefix (sgRoot (spSt s)) ''/''" "good_fs (Clean (sgRoot (spSt s))) (sgFs (spSt s))" using spc_fs [OF s] by auto
  have top: "Clean (spRoot s) \<noteq> ''/''" "fs_ok (spFs s)" "is_dir (Clean (spRoot s)) (spFs s)"
    using clean_pathD(2) [OF spc_ok_root(1) [OF s]] rt(2) by (auto simp: good_fs_def)
  have pr: "promotable (teEnv e) (frInnerName rq) (frContentHash rq) (parse_lenient (frSize rq)) (Join (frPath rq) (frFileName rq)) (spSt s) p nd dst"
    using staged claims dst by (simp add: promotable_def)
  obtain f ups where f: "Finalize (teEnv e) (frInnerName rq) (frContentHash rq) (parse_lenient (frSize rq)) (Join (frPath rq) (frFileName rq)) (spSt s)
      = (Inr dst, (spSt s)\<lparr>sgFs := f, sgUploads := ups\<rparr>)" "map_of (fsFiles f) = (map_of (fsFiles (spFs s)))(p := None, dst \<mapsto> nd)" "fs_ok f"
    by (rule Finalize_promotes [OF rt(1) top pr]) (rule that; assumption)
  define u where "u = s\<lparr>spSt := (spSt s)\<lparr>sgFs := f, sgUploads := ups\<rparr>\<rparr>"
  have st: "st_stays (spSt s) (spSt u)" "inside dst (Clean (spRoot s))"
    using Finalize_stays [OF rt, of "teEnv e" "frInnerName rq" "frContentHash rq" "parse_lenient (frSize rq)" "Join (frPath rq) (frFileName rq)"] f(1)
    by (simp_all add: u_def)
  then have u: "spc_ok u" "spRoot u = spRoot s" "spFs u = f"
    using s by (simp_all add: spc_ok_def st_stays_def stays_def u_def)
  have fl: "is_file dst (spFs u)" using f(2) u(3) by (simp add: is_file_def)
  then have ex: "exists_path dst (spFs u)" and nd: "\<not> is_dir dst (spFs u)"
    using f(3) u(3) by (auto simp: exists_path_def fs_ok_def)
  have ins: "inside dst (Clean (spRoot u))" using st(2) u(2) by simp
  obtain x r where x: "EntryFor (teEnv e) dst u = (Some x, with_reg r u)" "enPath x = displayPath (spRoot u) dst" "enFolder x = is_dir dst (spFs u)"
    "PathFor (enID x) r = Some dst"
    by (rule EntryFor_id [OF u(1) ins ex, of "teEnv e"]) (rule that; (assumption | simp only:))
  have ne: "spRoot s \<noteq> []" using rt(1) by (auto simp: HasPrefix_def)
  define t where "t = emit NotifyFile (maybeEnqueueOCR e dst (with_reg r u))"
  have k: "keeps u (with_reg r u)" using EntryFor_keeps [OF u(1), of dst "teEnv e"] st(2) u(2) x(1) by simp
  then have ok: "spc_ok t" using emit_keeps [OF keeps_ok [OF maybeEnqueueOCR_keeps [OF keeps_ok [OF k]]]] by (simp add: t_def keeps_def)
  have tt: "spSt t = spSt u" "spReg t = r" by (simp_all add: t_def emit_def maybeEnqueueOCR_simps with_reg_def)
  have "Finish e rq s = (Inr x, t)"
    using ne f(1) x(1) by (simp add: Finish_def finishTarget_def t_def u_def)
  then show ?thesis by (rule that) (use x ok tt u f(2) nd in simp_all)
qed

text \<open>
  C19. What is uploaded is what is downloaded: a slot is applied for, the bytes are sent to the minted URL within
  its 30 minutes, and the upload is finished with their size and digest, for a target under the root that is no
  directory, not below a file and not in the staging area. Then all three succeed, the target holds exactly those
  bytes under the id that is answered, no file outside the staging area other than the target changes, and the
  download URL of that id serves those bytes.
\<close>

theorem upload_then_download:
  assumes s: "spc_ok s" and key: "int64 (nowMillis (teSigner e0))" "same_key (teSigner e1) (teSigner e0)"
      "snNow (teSigner e1) \<le> nowMillis (teSigner e0) * time_unit + uploadTTL"
    and staged: "stagingPath (spRoot s) (newNonce (teInner e0)) = Some p" "\<not> is_file (Dir p) (spFs s)" "\<not> is_dir p (spFs s)"
    and rq: "frInnerName rq = newNonce (teInner e0)" "parse_lenient (frSize rq) = int (length bytes)"
      "frContentHash rq = hexEncode (envMD5 (teEnv e2) bytes)"
    and dst: "SafeResolve (spRoot s) (Join (frPath rq) (frFileName rq)) = Some dst" "\<not> is_dir dst (spFs s)"
      "\<forall>q. is_file q (spFs s) \<longrightarrow> \<not> below dst q" "\<not> inside dst (Dir p)"
    and dl: "int64 (nowMillis (teSigner e3))" "same_key g (teSigner e3)" "snNow g \<le> nowMillis (teSigner e3) * time_unit + downloadTTL"
  shows "\<exists>q s1 s2 s3 x. Apply e0 reqPath fileName reqSize s = (signedUploadURLs e0 (newNonce (teInner e0)), s1) \<and>
      usFull (signedUploadURLs e0 (newNonce (teInner e0))) = teBase e0 @ ''/api/oss/upload'' @ ''?'' @ q \<and>
      UploadStream e1 q (Some (bytes, True)) s1 = (Inr (), s2) \<and> Finish e2 rq s2 = (Inr x, s3) \<and>
      enPath x = displayPath (spRoot s) dst \<and> PathFor (enID x) (spReg s3) = Some dst \<and> content_at dst (spFs s3) = Some bytes \<and>
      (\<forall>q. q \<noteq> dst \<and> \<not> inside q (Dir p) \<longrightarrow> map_of (fsFiles (spFs s3)) q = map_of (fsFiles (spFs s)) q) \<and>
      (\<forall>rawID. ParseInt rawID = Some (enID x) \<longrightarrow>
         (\<exists>y d. fst (DownloadV3 e3 rawID s3) = Inr (y, teBase e3 @ ''/api/oss/download?'' @ d) \<and>
                DownloadStream g d s3 = Inr (Base dst, bytes)))"
proof -
  define n where "n = newNonce (teInner e0)"
  define s1 where "s1 = snd (Apply e0 reqPath fileName reqSize s)"
  have a: "Apply e0 reqPath fileName reqSize s = (signedUploadURLs e0 n, s1)" by (simp add: Apply_def Let_def s1_def n_def)
  have s1: "spFs s1 = spFs s" "spRoot s1 = spRoot s" "spReg s1 = spReg s" "spc_ok s1"
    using spc_ok_cong [OF s, of s1] by (simp_all add: s1_def Apply_def Let_def record_slot_simps)
  have st1: "stagingPath (spRoot s1) n = Some p" "own_name n" "\<not> is_file (Dir p) (spFs s1)" "\<not> is_dir p (spFs s1)"
    using staged s1 newNonce_own by (simp_all add: n_def)
  obtain s2 where s2: "UploadStream e1 (upload_query e0 n) (Some (bytes, True)) s1 = (Inr (), s2)" "spc_ok s2" "spRoot s2 = spRoot s1"
    "map_of (fsFiles (spFs s2)) p = Some \<lparr>ndContent = bytes, ndMtime = envNow (teEnv e1)\<rparr>"
    "\<And>q. \<not> inside q (Dir p) \<Longrightarrow> map_of (fsFiles (spFs s2)) q = map_of (fsFiles (spFs s1)) q \<and> is_dir q (spFs s2) = is_dir q (spFs s1)"
    "\<And>q. is_file q (spFs s2) \<Longrightarrow> is_file q (spFs s1) \<or> inside q (Dir p)"
    by (rule stream_effect [OF s1(4) key st1, of bytes]) (rule that; assumption)
  have pn: "inside p (Dir p)"
    using upload_segs(1) [OF _ st1(1,2)] s1(4) by (auto simp: spc_ok_def inside_iff)
  have st2: "stagingPath (spRoot s2) (frInnerName rq) = Some p" using st1(1) rq(1) s2(3) by (simp add: n_def)
  have nb: "\<forall>q. is_file q (spFs s2) \<longrightarrow> \<not> below dst q"
  proof (intro allI impI notI)
    fix q assume q: "is_file q (spFs s2)" "below dst q"
    then have "inside q (Dir p)" using s2(6) [OF q(1)] dst(3) s1(1) by auto
    then show False using dst(4) below_inside_trans(1) [OF q(2)] by (simp add: inside_def)
  qed
  have c2: "parse_lenient (frSize rq) = int (length (ndContent \<lparr>ndContent = bytes, ndMtime = envNow (teEnv e1)\<rparr>))"
    "frContentHash rq = hexEncode (envMD5 (teEnv e2) (ndContent \<lparr>ndContent = bytes, ndMtime = envNow (teEnv e1)\<rparr>))"
    using rq by simp_all
  have d2: "SafeResolve (spRoot s2) (Join (frPath rq) (frFileName rq)) = Some dst" "\<not> is_dir dst (spFs s2)"
    using dst(1,2) s2(3) s1(1,2) s2(5) [OF dst(4)] by simp_all
  obtain x s3 where s3: "Finish e2 rq s2 = (Inr x, s3)" "enPath x = displayPath (spRoot s2) dst" "PathFor (enID x) (spReg s3) = Some dst"
    "spc_ok s3" "spRoot s3 = spRoot s2"
    "map_of (fsFiles (spFs s3)) = (map_of (fsFiles (spFs s2)))(p := None, dst \<mapsto> \<lparr>ndContent = bytes, ndMtime = envNow (teEnv e1)\<rparr>)"
    by (rule finish_effect [OF s2(2) st2 s2(4) c2 d2 nb]) (rule that; assumption)
  have c: "content_at dst (spFs s3) = Some bytes" using s3(6) by (simp add: content_at_def)
  have same: "map_of (fsFiles (spFs s3)) q = map_of (fsFiles (spFs s)) q" if "q \<noteq> dst" "\<not> inside q (Dir p)" for q
    using s3(6) s2(5) [OF that(2)] that pn s1(1) by auto
  have "exists_path dst (spFs s3)" using c by (auto simp: exists_path_def is_file_content)
  then have d: "\<exists>y d. fst (DownloadV3 e3 rawID s3) = Inr (y, teBase e3 @ ''/api/oss/download?'' @ d) \<and> DownloadStream g d s3 = Inr (Base dst, bytes)"
    if "ParseInt rawID = Some (enID x)" for rawID
    using minted_download [OF s3(4) that s3(3) _ dl(1,2) s3(4) refl] dl(3) c by auto
  have u: "usFull (signedUploadURLs e0 n) = teBase e0 @ ''/api/oss/upload'' @ ''?'' @ upload_query e0 n" by (simp add: signedUploadURLs_def)
  have e: "enPath x = displayPath (spRoot s) dst" using s3(2) s2(3) s1(2) by simp
  have sm: "\<forall>q. q \<noteq> dst \<and> \<not> inside q (Dir p) \<longrightarrow> map_of (fsFiles (spFs s3)) q = map_of (fsFiles (spFs s)) q" using same by blast
  show ?thesis unfolding n_def [symmetric]
    using a u s2(1) s3(1) e s3(3) c sm d by blast
qed

section \<open>Witnesses\<close>

text \<open>A server whose digests are the last two bytes of their input and a zero byte, at the given millisecond.\<close>

definition signer_demo :: "int \<Rightarrow> signer" where
  "signer_demo ms = \<lparr>snSecret = ''key'', snSHA256 = (\<lambda>x. CHR 0x00 # drop (length x - 2) x), snNow = ms * time_unit\<rparr>"

definition transfer_demo :: "int \<Rightarrow> transfer_env" where
  "transfer_demo ms =
     \<lparr>teEnv = \<lparr>envMD5 = (\<lambda>x. take 2 x), envSHA256 = (\<lambda>x. CHR 0x00 # take 2 x), envNow = ms\<rparr>, teSigner = signer_demo ms,
      teInner = ''abcdefghijklmnop'', teNonce = ''ABCDEFGHIJKLMNOP'', teBase = ''https://h'', teEnqueuer = Some []\<rparr>"

definition finish_demo :: finish_request where
  "finish_demo = \<lparr>frPath = ''/N/B'', frSize = ''3'', frFileName = ''new.note'', frContentHash = ''6279'', frInnerName = newNonce ''abcdefghijklmnop''\<rparr>"

lemma demo_slots: "slots_ok (spSt spc_demo)"
  by code_simp

lemma demo_nonce: "newNonce ''abcdefghijklmnop'' = ''61626364-6566-4768-a96a-6b6c6d6e6f70''"
  by code_simp

lemma demo_now: "teSigner (transfer_demo ms) = signer_demo ms" "nowMillis (signer_demo ms) = ms" "snNow (signer_demo ms) = ms * time_unit" "same_key (signer_demo ms) (signer_demo ms')"
  by (simp_all add: nowMillis_def transfer_demo_def signer_demo_def time_unit_def same_key_def)

theorem session_contained_witness:
  "content_at ''/etc'' (spFs (serve_transfer (transfer_demo 9) (Upload_Finish (finish_demo\<lparr>frPath := ''/../../etc''\<rparr>))
     (serve (spc_env_demo 4) (Move_Entry ''1'' ''/../etc'' True) spc_demo))) = Some ''p''"
proof -
  have "contained_request (Move_Entry ''1'' ''/../etc'' True) spc_demo" by code_simp
  then have h: "session spc_demo [Served (spc_env_demo 4) (Move_Entry ''1'' ''/../etc'' True),
      Transferred (transfer_demo 9) (Upload_Finish (finish_demo\<lparr>frPath := ''/../../etc''\<rparr>))]
      (serve_transfer (transfer_demo 9) (Upload_Finish (finish_demo\<lparr>frPath := ''/../../etc''\<rparr>)) (serve (spc_env_demo 4) (Move_Entry ''1'' ''/../etc'' True) spc_demo))"
    by (simp only: session_simps)
  have hs: "list_all hashing [Served (spc_env_demo 4) (Move_Entry ''1'' ''/../etc'' True),
      Transferred (transfer_demo 9) (Upload_Finish (finish_demo\<lparr>frPath := ''/../../etc''\<rparr>))]"
    by (simp add: hashing_def transfer_demo_def)
  have "\<not> inside ''/etc'' (Clean (spRoot spc_demo))" "content_at ''/etc'' (spFs spc_demo) = Some ''p''"
    by code_simp+
  then show ?thesis using session_contained [OF spc_demo_ok demo_slots h hs] by (simp add: content_at_def)
qed

theorem download_url_exact_witness:
  "(\<exists>x q. fst (DownloadV3 (transfer_demo 1000) ''1'' spc_demo) = Inr (x, teBase (transfer_demo 1000) @ ''/api/oss/download?'' @ q) \<and>
     DownloadStream (signer_demo 86401000) q spc_demo = Inr (''x.note'', ''hi'')) \<and>
   (\<exists>x q. fst (DownloadV3 (transfer_demo 1000) ''1'' spc_demo) = Inr (x, teBase (transfer_demo 1000) @ ''/api/oss/download?'' @ q) \<and>
     DownloadStream (signer_demo 86401001) q spc_demo = Inl SignatureFailed)"
proof -
  have h: "ParseInt ''1'' = Some 1" "PathFor 1 (spReg spc_demo) = Some ''/f/N/A/x.note''" "exists_path ''/f/N/A/x.note'' (spFs spc_demo)"
    by code_simp+
  have i: "int64 (nowMillis (teSigner (transfer_demo 1000)))" by (simp add: demo_now int64_def)
  have c: "content_at ''/f/N/A/x.note'' (spFs spc_demo) = Some ''hi''" "Base ''/f/N/A/x.note'' = ''x.note''" by code_simp+
  have k: "same_key (signer_demo ms) (teSigner (transfer_demo 1000))" for ms by (simp add: demo_now)
  note D = download_url_exact [OF spc_demo_ok h i k spc_demo_ok refl]
  have w: "snNow (signer_demo 86401000) \<le> nowMillis (teSigner (transfer_demo 1000)) * time_unit + downloadTTL"
    "\<not> snNow (signer_demo 86401001) \<le> nowMillis (teSigner (transfer_demo 1000)) * time_unit + downloadTTL"
    by (simp_all add: demo_now downloadTTL_def time_unit_def)
  show ?thesis using D [of 86401000] D [of 86401001] unfolding c if_P [OF w(1)] if_not_P [OF w(2)] option.case by blast
qed

theorem download_url_stretched_witness:
  "let q = signed_query (transfer_demo 1000) ''/N/A/x.note'' ''1''
   in DownloadStream (signer_demo 10004) (download_query (query_get ''path'' q) (query_get ''signature'' q) 10004
        (tl (query_get ''nonce'' q)) ''1'') spc_demo = Inr (''x.note'', ''hi'')"
proof -
  have e: "teNonce (transfer_demo 1000) = ''ABCDEFGHIJKLMNOP''" by (simp add: transfer_demo_def)
  have d: "(4::nat) = byte_val (hd (teNonce (transfer_demo 1000))) div 16" unfolding e by code_simp
  have s: "served ''/N/A/x.note'' spc_demo = Inr (''x.note'', ''hi'')" by code_simp
  show ?thesis
    using download_url_stretched [of "transfer_demo 1000" 4 "signer_demo 10004" "''/N/A/x.note''" "''1''" spc_demo] d s
    by (simp add: demo_now int64_def e)
qed

theorem upload_then_download_witness:
  "\<exists>s3. content_at ''/f/N/B/new.note'' (spFs s3) = Some ''bye'' \<and> content_at ''/f/N/A/x.note'' (spFs s3) = Some ''hi'' \<and>
     s3 = snd (Finish (transfer_demo 3) finish_demo (snd (UploadStream (transfer_demo 2) (upload_query (transfer_demo 1) (newNonce ''abcdefghijklmnop''))
       (Some (''bye'', True)) (snd (Apply (transfer_demo 1) ''/N/B/new.note'' ''new.note'' ''3'' spc_demo)))))"
proof -
  have inner: "teInner (transfer_demo 1) = ''abcdefghijklmnop''" by (simp add: transfer_demo_def)
  define p where "p = ''/f/.staging/61626364-6566-4768-a96a-6b6c6d6e6f70''"
  have st: "stagingPath (spRoot spc_demo) (newNonce (teInner (transfer_demo 1))) = Some p" "\<not> is_file (Dir p) (spFs spc_demo)" "\<not> is_dir p (spFs spc_demo)"
    unfolding inner demo_nonce p_def by code_simp+
  have rq: "frInnerName finish_demo = newNonce (teInner (transfer_demo 1))" "parse_lenient (frSize finish_demo) = int (length ''bye'')"
    "frContentHash finish_demo = hexEncode (envMD5 (teEnv (transfer_demo 3)) ''bye'')"
    unfolding inner by (simp add: finish_demo_def, code_simp, simp add: finish_demo_def transfer_demo_def, code_simp)
  have dst: "SafeResolve (spRoot spc_demo) (Join (frPath finish_demo) (frFileName finish_demo)) = Some ''/f/N/B/new.note''"
    "\<not> is_dir ''/f/N/B/new.note'' (spFs spc_demo)" "\<not> inside ''/f/N/B/new.note'' (Dir p)"
    unfolding p_def by code_simp+
  have nb: "\<forall>q. is_file q (spFs spc_demo) \<longrightarrow> \<not> below ''/f/N/B/new.note'' q"
  proof -
    have "list_all (\<lambda>(q, _). \<not> below ''/f/N/B/new.note'' q) (fsFiles (spFs spc_demo))" by code_simp
    then show ?thesis by (auto simp: is_file_def list_all_iff dest!: map_of_SomeD)
  qed
  have n: "''/f/N/A/x.note'' \<noteq> ''/f/N/B/new.note''" "\<not> inside ''/f/N/A/x.note'' (Dir p)" "content_at ''/f/N/A/x.note'' (spFs spc_demo) = Some ''hi''"
    unfolding p_def by (simp, code_simp+)
  have t: "int64 (nowMillis (teSigner (transfer_demo 1)))" "same_key (teSigner (transfer_demo 2)) (teSigner (transfer_demo 1))"
    "snNow (teSigner (transfer_demo 2)) \<le> nowMillis (teSigner (transfer_demo 1)) * time_unit + uploadTTL"
    "int64 (nowMillis (teSigner (transfer_demo 4)))" "same_key (teSigner (transfer_demo 5)) (teSigner (transfer_demo 4))"
    "snNow (teSigner (transfer_demo 5)) \<le> nowMillis (teSigner (transfer_demo 4)) * time_unit + downloadTTL"
    by (simp_all add: demo_now int64_def uploadTTL_def downloadTTL_def time_unit_def)
  obtain q s1 s2 s3 x where z: "Apply (transfer_demo 1) ''/N/B/new.note'' ''new.note'' ''3'' spc_demo = (signedUploadURLs (transfer_demo 1) (newNonce ''abcdefghijklmnop''), s1)"
    "usFull (signedUploadURLs (transfer_demo 1) (newNonce ''abcdefghijklmnop'')) = teBase (transfer_demo 1) @ ''/api/oss/upload'' @ ''?'' @ q"
    "UploadStream (transfer_demo 2) q (Some (''bye'', True)) s1 = (Inr (), s2)" "Finish (transfer_demo 3) finish_demo s2 = (Inr x, s3)"
    "content_at ''/f/N/B/new.note'' (spFs s3) = Some ''bye''"
    "\<forall>q. q \<noteq> ''/f/N/B/new.note'' \<and> \<not> inside q (Dir p) \<longrightarrow> map_of (fsFiles (spFs s3)) q = map_of (fsFiles (spFs spc_demo)) q"
    using upload_then_download [OF spc_demo_ok t(1-3) st rq dst(1,2) nb dst(3) t(4-6), of "''/N/B/new.note''" "''new.note''" "''3''"]
    unfolding inner by (elim exE conjE) (rule that; assumption)
  have q: "q = upload_query (transfer_demo 1) (newNonce ''abcdefghijklmnop'')" using z(2) by (simp add: signedUploadURLs_def)
  show ?thesis
    by (intro exI [of _ s3]) (use z n in \<open>simp add: q content_at_def\<close>)
qed

end
