(* ===== verification/Digest_Store.thy ===== *)
theory Digest_Store
  imports Decimal
begin

text \<open>
  The digest store (\<open>internal/digeststore\<close>): excerpts a user saves on the tablet ("summary" on the wire), their
  groups and their tags. One table holds items and groups; a deletion is soft and leaves the row behind its flag.
  Ids are handed out by the table and never reused. The clock reading of a write is an argument.
\<close>

section \<open>State\<close>

record digest =
  dgID :: int
  dgFileID :: int
  dgUserID :: int
  dgName :: string
  dgUID :: string
  dgParent :: string
  dgContent :: string
  dgSourcePath :: string
  dgDataSource :: string
  dgSourceType :: int
  dgGroup :: bool
  dgDescription :: string
  dgTags :: string
  dgMD5 :: string
  dgMetadata :: string
  dgComment :: string
  dgHandName :: string
  dgHandInner :: string
  dgHandMD5 :: string
  dgCreation :: int
  dgModified :: int
  dgAuthor :: string
  dgDeleted :: bool
  dgCreatedAt :: int
  dgUpdatedAt :: int

definition empty_digest :: digest where
  "empty_digest =
     \<lparr>dgID = 0, dgFileID = 0, dgUserID = 0, dgName = [], dgUID = [], dgParent = [], dgContent = [], dgSourcePath = [],
      dgDataSource = [], dgSourceType = 0, dgGroup = False, dgDescription = [], dgTags = [], dgMD5 = [], dgMetadata = [],
      dgComment = [], dgHandName = [], dgHandInner = [], dgHandMD5 = [], dgCreation = 0, dgModified = 0, dgAuthor = [],
      dgDeleted = False, dgCreatedAt = 0, dgUpdatedAt = 0\<rparr>"

record digest_tag =
  tgID :: int
  tgUserID :: int
  tgName :: string
  tgCreatedAt :: int

text \<open>The rows in rowid order, with the next id of each table.\<close>

record digest_db =
  dsRows :: "digest list"
  dsNext :: int
  dsTags :: "digest_tag list"
  dsNextTag :: int

datatype digest_error = Not_Found | Unique_Tag

section \<open>Digests\<close>

definition dsCreate :: "int \<Rightarrow> digest \<Rightarrow> digest_db \<Rightarrow> digest \<times> digest_db" where
  "dsCreate now d db =
     (let d' = d\<lparr>dgID := dsNext db, dgCreatedAt := (if dgCreatedAt d = 0 then now else dgCreatedAt d),
                 dgUpdatedAt := (if dgUpdatedAt d = 0 then now else dgUpdatedAt d)\<rparr>
      in (d', db\<lparr>dsRows := dsRows db @ [d'], dsNext := dsNext db + 1\<rparr>))"

definition live_row :: "int \<Rightarrow> int \<Rightarrow> digest \<Rightarrow> bool" where
  "live_row userID i x \<longleftrightarrow> dgID x = i \<and> dgUserID x = userID \<and> \<not> dgDeleted x"

text \<open>The columns an update writes; the file id and the creation time are not among them.\<close>

definition digest_columns :: "int \<Rightarrow> digest \<Rightarrow> digest \<Rightarrow> digest" where
  "digest_columns now d x = x\<lparr>dgName := dgName d, dgUID := dgUID d, dgParent := dgParent d, dgContent := dgContent d,
     dgSourcePath := dgSourcePath d, dgDataSource := dgDataSource d, dgSourceType := dgSourceType d, dgGroup := dgGroup d,
     dgDescription := dgDescription d, dgTags := dgTags d, dgMD5 := dgMD5 d, dgMetadata := dgMetadata d,
     dgComment := dgComment d, dgHandName := dgHandName d, dgHandInner := dgHandInner d, dgHandMD5 := dgHandMD5 d,
     dgModified := dgModified d, dgAuthor := dgAuthor d, dgUpdatedAt := now\<rparr>"

text \<open>\<open>UPDATE ... WHERE\<close>, with the number of rows it changed.\<close>

definition update_where :: "(digest \<Rightarrow> bool) \<Rightarrow> (digest \<Rightarrow> digest) \<Rightarrow> digest_db \<Rightarrow> nat \<times> digest_db" where
  "update_where P f db = (length (filter P (dsRows db)), db\<lparr>dsRows := map (\<lambda>x. if P x then f x else x) (dsRows db)\<rparr>)"

definition dsUpdate :: "int \<Rightarrow> digest \<Rightarrow> digest_db \<Rightarrow> digest_db option" where
  "dsUpdate now d db =
     (let (n, db') = update_where (live_row (dgUserID d) (dgID d)) (digest_columns now d) db in if n = 0 then None else Some db')"

definition deleted_at :: "int \<Rightarrow> digest \<Rightarrow> digest" where
  "deleted_at now x = x\<lparr>dgDeleted := True, dgUpdatedAt := now\<rparr>"

definition dsSoftDelete :: "int \<Rightarrow> int \<Rightarrow> int \<Rightarrow> digest_db \<Rightarrow> digest_db option" where
  "dsSoftDelete now userID i db =
     (let (n, db') = update_where (live_row userID i) (deleted_at now) db in if n = 0 then None else Some db')"

definition dsSoftDeleteByParent :: "int \<Rightarrow> int \<Rightarrow> string \<Rightarrow> digest_db \<Rightarrow> nat \<times> digest_db" where
  "dsSoftDeleteByParent now userID parentUID =
     update_where (\<lambda>x. dgUserID x = userID \<and> dgParent x = parentUID \<and> \<not> dgDeleted x) (deleted_at now)"

definition dsGetByID :: "int \<Rightarrow> int \<Rightarrow> digest_db \<Rightarrow> digest option" where
  "dsGetByID userID i db = find (live_row userID i) (dsRows db)"

definition dsGetByUID :: "int \<Rightarrow> string \<Rightarrow> digest_db \<Rightarrow> digest option" where
  "dsGetByUID userID uid db = find (\<lambda>x. dgUID x = uid \<and> dgUserID x = userID \<and> \<not> dgDeleted x) (dsRows db)"

section \<open>Listings\<close>

text \<open>\<open>ORDER BY last_modified_time DESC, id DESC\<close>.\<close>

definition newest_first :: "digest list \<Rightarrow> digest list" where
  "newest_first = sort_key (\<lambda>d. (- dgModified d, - dgID d))"

text \<open>\<open>LIMIT size OFFSET (page-1)*size\<close>: the offset is a 64-bit product, and SQLite takes a negative one for 0.\<close>

definition page_of :: "int \<Rightarrow> int \<Rightarrow> 'a list \<Rightarrow> 'a list" where
  "page_of page n rows =
     (if n > 0
      then let p = (if page < 1 then 1 else page) in take (nat n) (drop (nat (max 0 (wrap64 (wrap64 (p - 1) * n)))) rows)
      else rows)"

definition dsList :: "int \<Rightarrow> bool \<Rightarrow> string \<Rightarrow> int \<Rightarrow> int \<Rightarrow> digest_db \<Rightarrow> digest list \<times> int" where
  "dsList userID isGroup parentUID page n db =
     (let rows = filter (\<lambda>x. dgUserID x = userID \<and> \<not> dgDeleted x \<and> dgGroup x = isGroup \<and> (parentUID = [] \<or> dgParent x = parentUID)) (dsRows db)
      in (page_of page n (newest_first rows), int (length rows)))"

definition dsListByIDs :: "int \<Rightarrow> int list \<Rightarrow> digest_db \<Rightarrow> digest list" where
  "dsListByIDs userID ids db = filter (\<lambda>x. dgUserID x = userID \<and> \<not> dgDeleted x \<and> dgID x \<in> set ids) (dsRows db)"

definition dsListAllItemsForIndex :: "digest_db \<Rightarrow> digest list" where
  "dsListAllItemsForIndex db = filter (\<lambda>x. \<not> dgDeleted x \<and> \<not> dgGroup x) (dsRows db)"

text \<open>SQL \<open>LIKE\<close> on ASCII: \<open>%\<close> is any run, \<open>_\<close> any character, letters match in either case.\<close>

fun sql_like :: "string \<Rightarrow> string \<Rightarrow> bool" where
  "sql_like [] s = (s = [])"
| "sql_like (p # ps) s =
     (if p = CHR ''%'' then sql_like ps s \<or> (case s of [] \<Rightarrow> False | _ # cs \<Rightarrow> sql_like (p # ps) cs)
      else case s of [] \<Rightarrow> False | c # cs \<Rightarrow> (p = CHR ''_'' \<or> to_lower p = to_lower c) \<and> sql_like ps cs)"

text \<open>\<open>REPLACE(tags, ', ', ',')\<close>.\<close>

fun tight_commas :: "string \<Rightarrow> string" where
  "tight_commas (c # d # cs) = (if c = CHR '','' \<and> d = CHR '' '' then c # tight_commas cs else c # tight_commas (d # cs))"
| "tight_commas s = s"

definition tag_matches :: "string \<Rightarrow> string \<Rightarrow> bool" where
  "tag_matches tag tags \<longleftrightarrow> sql_like (''%,'' @ tag @ '',%'') ('','' @ tight_commas tags @ '','')"

definition dsListItems :: "string \<Rightarrow> string \<Rightarrow> int \<Rightarrow> int \<Rightarrow> digest_db \<Rightarrow> digest list \<times> int" where
  "dsListItems parentUID tag page n db =
     (let rows = filter (\<lambda>x. \<not> dgDeleted x \<and> \<not> dgGroup x \<and> (parentUID = [] \<or> dgParent x = parentUID) \<and> (tag = [] \<or> tag_matches tag (dgTags x))) (dsRows db)
      in (page_of page n (newest_first rows), int (length rows)))"

definition dsListGroups :: "digest_db \<Rightarrow> digest list" where
  "dsListGroups db = newest_first (filter (\<lambda>x. \<not> dgDeleted x \<and> dgGroup x) (dsRows db))"

definition dsGetItem :: "int \<Rightarrow> digest_db \<Rightarrow> digest option" where
  "dsGetItem i db = find (\<lambda>x. dgID x = i \<and> \<not> dgDeleted x) (dsRows db)"

section \<open>Tags\<close>

definition dsCreateTag :: "int \<Rightarrow> int \<Rightarrow> string \<Rightarrow> digest_db \<Rightarrow> digest_error + int \<times> digest_db" where
  "dsCreateTag now userID name db =
     (if list_ex (\<lambda>t. tgUserID t = userID \<and> tgName t = name) (dsTags db) then Inl Unique_Tag
      else Inr (dsNextTag db, db\<lparr>dsTags := dsTags db @ [\<lparr>tgID = dsNextTag db, tgUserID = userID, tgName = name, tgCreatedAt = now\<rparr>],
             dsNextTag := dsNextTag db + 1\<rparr>))"

definition dsUpdateTag :: "int \<Rightarrow> int \<Rightarrow> string \<Rightarrow> digest_db \<Rightarrow> digest_error + digest_db" where
  "dsUpdateTag userID i name db =
     (if \<not> list_ex (\<lambda>t. tgID t = i \<and> tgUserID t = userID) (dsTags db) then Inl Not_Found
      else if list_ex (\<lambda>t. tgUserID t = userID \<and> tgName t = name \<and> tgID t \<noteq> i) (dsTags db) then Inl Unique_Tag
      else Inr (db\<lparr>dsTags := map (\<lambda>t. if tgID t = i \<and> tgUserID t = userID then t\<lparr>tgName := name\<rparr> else t) (dsTags db)\<rparr>))"

definition dsDeleteTag :: "int \<Rightarrow> int \<Rightarrow> digest_db \<Rightarrow> digest_error + digest_db" where
  "dsDeleteTag userID i db =
     (if \<not> list_ex (\<lambda>t. tgID t = i \<and> tgUserID t = userID) (dsTags db) then Inl Not_Found
      else Inr (db\<lparr>dsTags := filter (\<lambda>t. \<not> (tgID t = i \<and> tgUserID t = userID)) (dsTags db)\<rparr>))"

definition dsListTags :: "int \<Rightarrow> digest_db \<Rightarrow> digest_tag list" where
  "dsListTags userID db = sort_key tgID (filter (\<lambda>t. tgUserID t = userID) (dsTags db))"

section \<open>Well-formedness\<close>

definition db_ok :: "digest_db \<Rightarrow> bool" where
  "db_ok db \<longleftrightarrow> distinct (map dgID (dsRows db)) \<and> list_all (\<lambda>x. 0 < dgID x \<and> dgID x < dsNext db) (dsRows db) \<and>
     distinct (map tgID (dsTags db)) \<and> list_all (\<lambda>t. tgID t < dsNextTag db) (dsTags db) \<and>
     distinct (map (\<lambda>t. (tgUserID t, tgName t)) (dsTags db)) \<and> 0 < dsNext db"

lemma update_where_ids: "(\<And>x. dgID (f x) = dgID x) \<Longrightarrow> map dgID (dsRows (snd (update_where P f db))) = map dgID (dsRows db)"
  by (simp add: update_where_def comp_def)

lemma update_where_ok:
  assumes "\<And>x. dgID (f x) = dgID x" "db_ok db"
  shows "db_ok (snd (update_where P f db))"
proof -
  have "list_all (\<lambda>x. 0 < dgID x \<and> dgID x < dsNext db) (dsRows (snd (update_where P f db)))"
    using assms by (auto simp: db_ok_def list_all_iff update_where_def)
  moreover have "distinct (map dgID (dsRows (snd (update_where P f db))))"
    using assms(2) by (simp only: update_where_ids [OF assms(1)] db_ok_def)
  ultimately show ?thesis using assms(2) by (simp add: db_ok_def) (simp add: update_where_def)
qed

lemma digest_columns_keeps [simp]: "dgID (digest_columns now d x) = dgID x" "dgUserID (digest_columns now d x) = dgUserID x"
  "dgDeleted (digest_columns now d x) = dgDeleted x" "dgFileID (digest_columns now d x) = dgFileID x" "dgCreation (digest_columns now d x) = dgCreation x"
  by (simp_all add: digest_columns_def)

lemma deleted_at_keeps [simp]: "dgID (deleted_at now x) = dgID x" "dgUserID (deleted_at now x) = dgUserID x" "dgDeleted (deleted_at now x)"
  by (simp_all add: deleted_at_def)

lemma dsCreate_rows:
  "dsCreate now d db = (d', db') \<Longrightarrow>
     dsRows db' = dsRows db @ [d'] \<and> dsNext db' = dsNext db + 1 \<and> dsTags db' = dsTags db \<and> dsNextTag db' = dsNextTag db \<and> dgID d' = dsNext db"
  by (auto simp: dsCreate_def Let_def)

lemma dsCreate_ok:
  assumes "db_ok db" "dsCreate now d db = (d', db')"
  shows "db_ok db'"
proof -
  have lt: "\<And>x. x \<in> set (dsRows db) \<Longrightarrow> 0 < dgID x \<and> dgID x < dsNext db" using assms(1) by (auto simp: db_ok_def list_all_iff)
  then have "dsNext db \<notin> dgID ` set (dsRows db)" by force
  then show ?thesis using assms(1) dsCreate_rows [OF assms(2)] lt by (simp add: db_ok_def list_all_iff less_imp_le)
qed

lemma dsUpdate_ok: "db_ok db \<Longrightarrow> dsUpdate now d db = Some db' \<Longrightarrow> db_ok db'"
  using update_where_ok [of "digest_columns now d" db "live_row (dgUserID d) (dgID d)"]
  by (auto simp: dsUpdate_def case_prod_beta split: if_splits)

lemma dsSoftDelete_ok: "db_ok db \<Longrightarrow> dsSoftDelete now u i db = Some db' \<Longrightarrow> db_ok db'"
  using update_where_ok [of "deleted_at now" db "live_row u i"]
  by (auto simp: dsSoftDelete_def case_prod_beta split: if_splits)

lemma dsSoftDeleteByParent_ok: "db_ok db \<Longrightarrow> db_ok (snd (dsSoftDeleteByParent now u p db))"
  unfolding dsSoftDeleteByParent_def by (rule update_where_ok) simp_all

lemma dsCreateTag_ok: "db_ok db \<Longrightarrow> dsCreateTag now u name db = Inr (i, db') \<Longrightarrow> db_ok db'"
  by (auto simp: db_ok_def dsCreateTag_def list_all_iff list_ex_iff split: if_splits) (metis less_irrefl, metis less_imp_le)

lemma dsDeleteTag_ok: "db_ok db \<Longrightarrow> dsDeleteTag u j db = Inr db' \<Longrightarrow> db_ok db'"
  by (auto simp: db_ok_def dsDeleteTag_def list_all_iff list_ex_iff split: if_splits intro: distinct_map_filter)

lemma dsUpdateTag_ok:
  assumes "db_ok db" "dsUpdateTag u j name db = Inr db'"
  shows "db_ok db'"
proof -
  let ?g = "\<lambda>t. if tgID t = j \<and> tgUserID t = u then t\<lparr>tgName := name\<rparr> else t"
  have tags: "dsTags db' = map ?g (dsTags db)" "dsRows db' = dsRows db" "dsNext db' = dsNext db" "dsNextTag db' = dsNextTag db"
    and fresh: "\<And>t. t \<in> set (dsTags db) \<Longrightarrow> tgUserID t = u \<Longrightarrow> tgName t = name \<Longrightarrow> tgID t = j"
    using assms(2) by (auto simp: dsUpdateTag_def list_ex_iff split: if_splits)
  have ids: "map tgID (dsTags db') = map tgID (dsTags db)" by (simp add: tags comp_def)
  have inj: "inj_on tgID (set (dsTags db))" "inj_on (\<lambda>t. (tgUserID t, tgName t)) (set (dsTags db))"
    using assms(1) by (simp_all add: db_ok_def distinct_map)
  have "inj_on ((\<lambda>t. (tgUserID t, tgName t)) \<circ> ?g) (set (dsTags db))"
  proof (rule inj_onI)
    fix s t assume st: "s \<in> set (dsTags db)" "t \<in> set (dsTags db)" "((\<lambda>t. (tgUserID t, tgName t)) \<circ> ?g) s = ((\<lambda>t. (tgUserID t, tgName t)) \<circ> ?g) t"
    show "s = t"
    proof (rule ccontr)
      assume ne: "s \<noteq> t"
      then have "tgID s \<noteq> tgID t" "(tgUserID s, tgName s) \<noteq> (tgUserID t, tgName t)" using inj st(1,2) by (auto dest: inj_onD)
      then show False using st(3) fresh [OF st(1)] fresh [OF st(2)] by (simp split: if_splits)
    qed
  qed
  then have "distinct (map (\<lambda>t. (tgUserID t, tgName t)) (dsTags db'))"
    using assms(1) by (simp add: tags distinct_map db_ok_def)
  then show ?thesis using assms(1) ids by (simp add: db_ok_def tags(2-4)) (auto simp: tags list_all_iff)
qed

text \<open>Ids are unique, so a lookup by id is decided by any row with that id.\<close>

lemma find_by_key: "distinct (map f xs) \<Longrightarrow> x \<in> set xs \<Longrightarrow> P x \<Longrightarrow> (\<And>y. P y \<Longrightarrow> f y = f x) \<Longrightarrow> find P xs = Some x"
proof (induction xs)
  case (Cons y ys)
  show ?case
  proof (cases "x = y")
    case False
    then have "x \<in> set ys" "f y \<noteq> f x" using Cons.prems(1,2) by (auto simp: image_iff)
    then have "\<not> P y" using Cons.prems(4) by blast
    moreover have "find P ys = Some x" using Cons.prems(1) \<open>x \<in> set ys\<close> by (intro Cons.IH [OF _ _ Cons.prems(3,4)]) simp_all
    ultimately show ?thesis by simp
  qed (use Cons.prems(3) in simp)
qed simp

lemma find_SomeD: "find P xs = Some x \<Longrightarrow> x \<in> set xs \<and> P x"
  by (induction xs) (auto split: if_splits)

lemma dsGetByID_Some: "dsGetByID u i db = Some x \<Longrightarrow> x \<in> set (dsRows db) \<and> live_row u i x"
  unfolding dsGetByID_def by (rule find_SomeD)

lemma live_row_id: "live_row u i x \<Longrightarrow> dgID x = i"
  by (simp add: live_row_def)

lemma db_ok_ids: "db_ok db \<Longrightarrow> distinct (map dgID (dsRows db))"
  by (simp add: db_ok_def)

lemma dsGetByID_row: "db_ok db \<Longrightarrow> x \<in> set (dsRows db) \<Longrightarrow> live_row u i x \<Longrightarrow> dsGetByID u i db = Some x"
  unfolding dsGetByID_def by (rule find_by_key [OF db_ok_ids]) (auto dest: live_row_id)

end
