(* ===== verification/Digest_Index.thy ===== *)
theory Digest_Index
  imports Search_Index Rag_Store
begin

text \<open>
  The digest bridge (\<open>internal/digestindex/bridge.go\<close>): digests are indexed for search and embedded under a path of
  their own, by a worker behind a queue of 256 tasks. The embedding model is a parameter; a deployment may have no
  embedder.
\<close>

section \<open>Tasks\<close>

datatype digest_task = Index_Digest string string string string string | Deindex_Digest string

primrec task_uid :: "digest_task \<Rightarrow> string" where
  "task_uid (Index_Digest uid name content comment tags) = uid"
| "task_uid (Deindex_Digest uid) = uid"

definition digestPath :: "string \<Rightarrow> string" where
  "digestPath uid = ''digest://'' @ uid"

definition bridgeQueue :: nat where
  "bridgeQueue = 256"

section \<open>Processing\<close>

definition nonEmpty :: "string list \<Rightarrow> string list" where
  "nonEmpty = filter (\<lambda>s. TrimSpace s \<noteq> [])"

definition digest_body :: "string \<Rightarrow> string \<Rightarrow> string" where
  "digest_body content comment = TrimSpace (join_with [CHR 0x0A] (nonEmpty [content, comment]))"

definition searchable :: "string \<Rightarrow> string \<Rightarrow> string \<Rightarrow> bool" where
  "searchable name content comment \<longleftrightarrow> digest_body content comment \<noteq> [] \<or> TrimSpace name \<noteq> []"

record digest_deps =
  ddEmbedder :: "(string \<Rightarrow> vector option) option"
  ddModel :: string
  ddNow :: int

definition dropDigest :: "string \<Rightarrow> search_index \<times> rag_store \<Rightarrow> search_index \<times> rag_store" where
  "dropDigest p s = (DeleteIndex p (fst s), DeleteNote p (snd s))"

primrec processTask :: "digest_deps \<Rightarrow> digest_task \<Rightarrow> search_index \<times> rag_store \<Rightarrow> search_index \<times> rag_store" where
  "processTask e (Deindex_Digest uid) s = dropDigest (digestPath uid) s"
| "processTask e (Index_Digest uid name content comment tags) s =
     (let p = digestPath uid; body = digest_body content comment
      in if \<not> searchable name content comment then dropDigest p s
         else (let ix = IndexPage (ddNow e) p 0 ''digest'' body name tags (fst s);
                   embedText = TrimSpace (join_with [CHR 0x0A] (nonEmpty [name, body]))
               in (ix, case ddEmbedder e of
                         None \<Rightarrow> snd s
                       | Some f \<Rightarrow> if embedText = [] then snd s
                                   else snd (EmbedAndStorePage f (SaveEmbedding (ddModel e) (ddNow e)) DeletePage p 0 embedText (snd s)))))"

lemma digestPath_inj [simp]: "digestPath a = digestPath b \<longleftrightarrow> a = b"
  by (simp add: digestPath_def)

text \<open>What the index holds under the path of an identity after one task.\<close>

definition digest_doc :: "int \<Rightarrow> string \<Rightarrow> string \<Rightarrow> string \<Rightarrow> string \<Rightarrow> NoteDocument option" where
  "digest_doc now name content comment tags =
     (if searchable name content comment
      then Some \<lparr>TitleText = name, BodyText = digest_body content comment, Keywords = tags, Source = ''digest'', Model = [], IndexedAt = now\<rparr>
      else None)"

lemma processTask_index:
  "map_of (fst (processTask e (Deindex_Digest uid) s)) (digestPath u, 0) = (if u = uid then None else map_of (fst s) (digestPath u, 0))"
  "map_of (fst (processTask e (Index_Digest uid name content comment tags) s)) (digestPath u, 0) =
     (if u = uid then digest_doc (ddNow e) name content comment tags else map_of (fst s) (digestPath u, 0))"
  by (simp_all add: dropDigest_def map_of_DeleteIndex map_of_IndexPage digest_doc_def Let_def)

end
