(* ===== verification/Spc_Summary.thy ===== *)
theory Spc_Summary
  imports Spc_Transfer_Laws Digest_Store Digest_Index
begin

text \<open>
  The summary handlers of the private cloud (\<open>internal/spcserver/handlers/summary.go\<close>) and the deletion from the web
  (\<open>DeleteDigest\<close> of \<open>internal/service/digest.go\<close>): items, groups and tags of the digest store, the handwriting blobs that
  travel through the upload staging, and the tasks for the search index. The JSON decoder that reads the metadata text
  is a parameter. The wire record of a digest has the fields of the stored one. The web's listing of the digests, from
  \<open>internal/service/digest.go\<close>, comes last.
\<close>

section \<open>State\<close>

text \<open>The queue of the index worker is \<open>smTasks\<close>; \<open>smDropped\<close> is what did not fit it (a warning in the log).\<close>

record summary =
  smSpc :: spc
  smDb :: digest_db
  smTasks :: "digest_task list"
  smDropped :: "digest_task list"

text \<open>A value of the metadata object as the decoder gives it; a number keeps its literal, an array or object is marshalled again.\<close>

datatype meta_value = Meta_String string | Meta_Number string | Meta_Null | Meta_Bool bool | Meta_Other string

text \<open>The handlers' environment: the transfer environment and the reading of metadata.\<close>

record summary_env =
  seTransfer :: transfer_env
  seDecode :: "string \<Rightarrow> (string \<times> meta_value) list option"

abbreviation seNow :: "summary_env \<Rightarrow> int" where
  "seNow e \<equiv> envNow (teEnv (seTransfer e))"

datatype summary_error = Internal_Error | File_Not_Exist

definition with_db :: "digest_db \<Rightarrow> summary \<Rightarrow> summary" where
  "with_db db s = s\<lparr>smDb := db\<rparr>"

definition markDir :: string where
  "markDir = ''.digests''"

definition add_task :: "digest_task \<Rightarrow> summary \<Rightarrow> summary" where
  "add_task t s =
     (if task_uid t = [] then s
      else if length (smTasks s) < bridgeQueue then s\<lparr>smTasks := smTasks s @ [t]\<rparr>
      else s\<lparr>smDropped := smDropped s @ [t]\<rparr>)"

definition index :: "digest \<Rightarrow> summary \<Rightarrow> summary" where
  "index d s = (if dgGroup d then s else add_task (Index_Digest (dgUID d) (dgName d) (dgContent d) (dgComment d) (dgTags d)) s)"

definition deindex :: "string \<Rightarrow> summary \<Rightarrow> summary" where
  "deindex uid s = add_task (Deindex_Digest uid) s"

primrec meta_text :: "meta_value \<Rightarrow> string" where
  "meta_text (Meta_String t) = t"
| "meta_text (Meta_Number t) = t"
| "meta_text Meta_Null = []"
| "meta_text (Meta_Bool b) = (if b then ''true'' else ''false'')"
| "meta_text (Meta_Other t) = t"

definition parseMetadataMap :: "summary_env \<Rightarrow> string \<Rightarrow> (string \<times> string) list" where
  "parseMetadataMap e m =
     (if m = [] then [] else case seDecode e m of None \<Rightarrow> [] | Some kvs \<Rightarrow> map (\<lambda>(k, v). (k, meta_text v)) kvs)"

definition metadataUID :: "summary_env \<Rightarrow> string \<Rightarrow> string" where
  "metadataUID e m = (case map_of (parseMetadataMap e m) ''unique_identifier'' of None \<Rightarrow> [] | Some v \<Rightarrow> v)"

text \<open>Promotes a staged blob; a failure is only logged. The size is not checked.\<close>

definition promoteMark :: "summary_env \<Rightarrow> string \<Rightarrow> string \<Rightarrow> summary \<Rightarrow> summary" where
  "promoteMark e innerName md5 s =
     (if innerName = [] \<or> spRoot (smSpc s) = [] then s
      else let st = snd (Finalize (teEnv (seTransfer e)) innerName md5 (- 1) (Join markDir innerName) (spSt (smSpc s)))
           in s\<lparr>smSpc := (smSpc s)\<lparr>spSt := st\<rparr>\<rparr>)"

section \<open>Items\<close>

record add_summary =
  asUID :: string
  asFileID :: int
  asParent :: string
  asContent :: string
  asDataSource :: string
  asSourcePath :: string
  asSourceType :: int
  asTags :: string
  asMD5 :: string
  asMetadata :: string
  asComment :: string
  asHandName :: string
  asHandInner :: string
  asHandMD5 :: string
  asCreation :: int
  asModified :: int
  asAuthor :: string

definition applyAddToDigest :: "add_summary \<Rightarrow> string \<Rightarrow> digest \<Rightarrow> digest" where
  "applyAddToDigest rq effectiveUID d = d\<lparr>dgGroup := False, dgUID := effectiveUID, dgFileID := asFileID rq, dgParent := asParent rq,
     dgContent := asContent rq, dgDataSource := asDataSource rq, dgSourcePath := asSourcePath rq, dgSourceType := asSourceType rq,
     dgTags := asTags rq, dgMD5 := asMD5 rq, dgMetadata := asMetadata rq, dgComment := asComment rq, dgHandName := asHandName rq,
     dgHandInner := asHandInner rq, dgHandMD5 := asHandMD5 rq,
     dgCreation := (if asCreation rq \<noteq> 0 then asCreation rq else dgCreation d), dgModified := asModified rq, dgAuthor := asAuthor rq\<rparr>"

definition effective_uid :: "summary_env \<Rightarrow> add_summary \<Rightarrow> string" where
  "effective_uid e rq = (if asUID rq = [] then metadataUID e (asMetadata rq) else asUID rq)"

definition AddSummary :: "summary_env \<Rightarrow> int \<Rightarrow> add_summary \<Rightarrow> summary \<Rightarrow> (summary_error + int) \<times> summary" where
  "AddSummary e uid rq s =
     (let s1 = promoteMark e (asHandInner rq) (asHandMD5 rq) s; eff = effective_uid e rq
      in case (if eff = [] then None else dsGetByUID uid eff (smDb s1)) of
           Some x \<Rightarrow>
             let y = applyAddToDigest rq eff x
             in (case dsUpdate (seNow e) y (smDb s1) of
                   None \<Rightarrow> (Inl Internal_Error, s1)
                 | Some db \<Rightarrow> (Inr (dgID y), index y (with_db db s1)))
         | None \<Rightarrow>
             let (d, db) = dsCreate (seNow e) (applyAddToDigest rq eff (empty_digest\<lparr>dgUserID := uid\<rparr>)) (smDb s1)
             in (Inr (dgID d), index d (with_db db s1)))"

record update_summary =
  upID :: int
  usParent :: string
  usContent :: string
  usSourcePath :: string
  usDataSource :: string
  usSourceType :: int
  usTags :: string
  usMD5 :: string
  usMetadata :: string
  usComment :: string
  usHandName :: string
  usHandInner :: string
  usHandMD5 :: string
  usModified :: int
  usAuthor :: string

definition apply_update :: "update_summary \<Rightarrow> digest \<Rightarrow> digest" where
  "apply_update rq d = d\<lparr>dgParent := usParent rq, dgContent := usContent rq, dgSourcePath := usSourcePath rq,
     dgDataSource := usDataSource rq, dgSourceType := usSourceType rq, dgTags := usTags rq, dgMD5 := usMD5 rq,
     dgMetadata := usMetadata rq, dgComment := usComment rq, dgHandName := usHandName rq, dgHandInner := usHandInner rq,
     dgHandMD5 := usHandMD5 rq, dgModified := usModified rq, dgAuthor := usAuthor rq\<rparr>"

text \<open>An unknown id is accepted and changes nothing.\<close>

definition UpdateSummary :: "summary_env \<Rightarrow> int \<Rightarrow> update_summary \<Rightarrow> summary \<Rightarrow> (summary_error + unit) \<times> summary" where
  "UpdateSummary e uid rq s =
     (let s1 = promoteMark e (usHandInner rq) (usHandMD5 rq) s
      in case dsGetByID uid (upID rq) (smDb s1) of
           None \<Rightarrow> (Inr (), s1)
         | Some x \<Rightarrow>
             let y = apply_update rq x
             in (case dsUpdate (seNow e) y (smDb s1) of
                   None \<Rightarrow> (Inl Internal_Error, s1)
                 | Some db \<Rightarrow> (Inr (), index y (with_db db s1))))"

definition or_same :: "digest_db option \<Rightarrow> digest_db \<Rightarrow> digest_db" where
  "or_same r db = (case r of None \<Rightarrow> db | Some db' \<Rightarrow> db')"

definition DeleteSummary :: "summary_env \<Rightarrow> int \<Rightarrow> int \<Rightarrow> summary \<Rightarrow> summary" where
  "DeleteSummary e uid i s =
     (let digestUID = (case dsGetByID uid i (smDb s) of None \<Rightarrow> [] | Some d \<Rightarrow> dgUID d)
      in deindex digestUID (with_db (or_same (dsSoftDelete (seNow e) uid i (smDb s)) (smDb s)) s))"

section \<open>Groups\<close>

record add_group =
  agUID :: string
  agName :: string
  agDescription :: string
  agMD5 :: string
  agCreation :: int
  agModified :: int

definition AddSummaryGroup :: "summary_env \<Rightarrow> int \<Rightarrow> add_group \<Rightarrow> summary \<Rightarrow> (summary_error + int) \<times> summary" where
  "AddSummaryGroup e uid rq s =
     (case (if agUID rq = [] then None else dsGetByUID uid (agUID rq) (smDb s)) of
        Some x \<Rightarrow>
          let y = x\<lparr>dgName := agName rq, dgDescription := agDescription rq, dgMD5 := agMD5 rq, dgModified := agModified rq\<rparr>
          in (case dsUpdate (seNow e) y (smDb s) of
                None \<Rightarrow> (Inl Internal_Error, s)
              | Some db \<Rightarrow> (Inr (dgID y), with_db db s))
      | None \<Rightarrow>
          let (d, db) = dsCreate (seNow e) (empty_digest\<lparr>dgUserID := uid, dgGroup := True, dgUID := agUID rq, dgName := agName rq,
                dgDescription := agDescription rq, dgMD5 := agMD5 rq, dgCreation := agCreation rq, dgModified := agModified rq\<rparr>) (smDb s)
          in (Inr (dgID d), with_db db s))"

record update_group =
  ugID :: int
  ugUID :: string
  ugName :: string
  ugDescription :: string
  ugMetadata :: string
  ugComment :: string
  ugHandName :: string
  ugHandInner :: string
  ugMD5 :: string
  ugModified :: int

definition UpdateSummaryGroup :: "summary_env \<Rightarrow> int \<Rightarrow> update_group \<Rightarrow> summary \<Rightarrow> (summary_error + unit) \<times> summary" where
  "UpdateSummaryGroup e uid rq s =
     (let s1 = promoteMark e (ugHandInner rq) [] s
      in case dsGetByID uid (ugID rq) (smDb s1) of
           None \<Rightarrow> (Inr (), s1)
         | Some x \<Rightarrow>
             let y = x\<lparr>dgUID := (if ugUID rq \<noteq> [] then ugUID rq else dgUID x), dgName := ugName rq, dgDescription := ugDescription rq,
                   dgMetadata := ugMetadata rq, dgComment := ugComment rq, dgHandName := ugHandName rq, dgHandInner := ugHandInner rq,
                   dgMD5 := ugMD5 rq, dgModified := ugModified rq\<rparr>
             in (case dsUpdate (seNow e) y (smDb s1) of None \<Rightarrow> (Inl Internal_Error, s1) | Some db \<Rightarrow> (Inr (), with_db db s1)))"

text \<open>The members leave the index, then the table, then the group goes.\<close>

definition DeleteSummaryGroup :: "summary_env \<Rightarrow> int \<Rightarrow> int \<Rightarrow> summary \<Rightarrow> summary" where
  "DeleteSummaryGroup e uid i s =
     (let s1 = (case dsGetByID uid i (smDb s) of
                  None \<Rightarrow> s
                | Some g \<Rightarrow>
                    if dgUID g = [] then s
                    else let members = fst (dsList uid False (dgUID g) 0 0 (smDb s));
                             t = fold (\<lambda>d. deindex (dgUID d)) members s
                         in with_db (snd (dsSoftDeleteByParent (seNow e) uid (dgUID g) (smDb t))) t)
      in with_db (or_same (dsSoftDelete (seNow e) uid i (smDb s1)) (smDb s1)) s1)"

section \<open>Queries\<close>

record page_answer =
  paTotal :: int
  paPages :: int
  paPage :: int
  paSize :: int

text \<open>Go's division truncates towards zero.\<close>

definition totalPages :: "int \<Rightarrow> int \<Rightarrow> int" where
  "totalPages tot n = (if n \<le> 0 then 1 else let x = wrap64 (wrap64 (tot + n) - 1) in if x < 0 then - ((- x) div n) else x div n)"

definition pageOrOne :: "int \<Rightarrow> int" where
  "pageOrOne p = (if p < 1 then 1 else p)"

definition answer_page :: "int \<Rightarrow> int \<Rightarrow> int \<Rightarrow> page_answer" where
  "answer_page tot page n = \<lparr>paTotal = tot, paPages = totalPages tot n, paPage = pageOrOne page, paSize = n\<rparr>"

definition QuerySummary :: "int \<Rightarrow> string \<Rightarrow> int \<Rightarrow> int \<Rightarrow> summary \<Rightarrow> digest list \<times> page_answer" where
  "QuerySummary uid parent page n s =
     (let (rows, tot) = dsList uid False parent page n (smDb s) in (rows, answer_page tot page n))"

definition QuerySummaryGroup :: "int \<Rightarrow> int \<Rightarrow> int \<Rightarrow> summary \<Rightarrow> digest list \<times> page_answer" where
  "QuerySummaryGroup uid page n s =
     (let (rows, tot) = dsList uid True [] page n (smDb s) in (rows, answer_page tot page n))"

record summary_info =
  siID :: int
  siUserID :: int
  siMD5 :: string
  siHandMD5 :: string
  siHandName :: string
  siModified :: int
  siMetadata :: "(string \<times> string) list"

definition QuerySummaryHash :: "summary_env \<Rightarrow> int \<Rightarrow> string \<Rightarrow> int \<Rightarrow> int \<Rightarrow> summary \<Rightarrow> summary_info list \<times> page_answer" where
  "QuerySummaryHash e uid parent page n s =
     (let (rows, tot) = dsList uid False parent page n (smDb s)
      in (map (\<lambda>d. \<lparr>siID = dgID d, siUserID = dgUserID d, siMD5 = dgMD5 d, siHandMD5 = dgHandMD5 d, siHandName = dgHandName d,
             siModified = dgModified d, siMetadata = parseMetadataMap e (dgMetadata d)\<rparr>) rows, answer_page tot page n))"

definition QuerySummaryByID :: "int \<Rightarrow> int list \<Rightarrow> summary \<Rightarrow> digest list" where
  "QuerySummaryByID uid ids s = (if ids = [] then [] else dsListByIDs uid ids (smDb s))"

section \<open>Tags\<close>

definition AddSummaryTag :: "summary_env \<Rightarrow> int \<Rightarrow> string \<Rightarrow> summary \<Rightarrow> (summary_error + int) \<times> summary" where
  "AddSummaryTag e uid name s =
     (case find (\<lambda>t. tgName t = name) (dsListTags uid (smDb s)) of
        Some t \<Rightarrow> (Inr (tgID t), s)
      | None \<Rightarrow> (case dsCreateTag (seNow e) uid name (smDb s) of
            Inl _ \<Rightarrow> (Inl Internal_Error, s)
          | Inr (i, db) \<Rightarrow> (Inr i, with_db db s)))"

text \<open>A missing tag is no error.\<close>

definition tag_result :: "digest_error + digest_db \<Rightarrow> summary \<Rightarrow> (summary_error + unit) \<times> summary" where
  "tag_result r s = (case r of Inl Not_Found \<Rightarrow> (Inr (), s) | Inl _ \<Rightarrow> (Inl Internal_Error, s) | Inr db \<Rightarrow> (Inr (), with_db db s))"

definition UpdateSummaryTag :: "int \<Rightarrow> int \<Rightarrow> string \<Rightarrow> summary \<Rightarrow> (summary_error + unit) \<times> summary" where
  "UpdateSummaryTag uid i name s = tag_result (dsUpdateTag uid i name (smDb s)) s"

definition DeleteSummaryTag :: "int \<Rightarrow> int \<Rightarrow> summary \<Rightarrow> (summary_error + unit) \<times> summary" where
  "DeleteSummaryTag uid i s = tag_result (dsDeleteTag uid i (smDb s)) s"

definition QuerySummaryTag :: "int \<Rightarrow> summary \<Rightarrow> digest_tag list" where
  "QuerySummaryTag uid s = dsListTags uid (smDb s)"

section \<open>Handwriting\<close>

definition UploadApplySummary :: "summary_env \<Rightarrow> string \<Rightarrow> summary \<Rightarrow> (string \<times> string) \<times> summary" where
  "UploadApplySummary e fileName s =
     (let t = seTransfer e; inner = newNonce (teInner t) @ ''.mark''
      in ((inner, teBase t @ ''/api/oss/upload?'' @ upload_query t inner),
          s\<lparr>smSpc := record_slot t inner markDir fileName 0 (smSpc s)\<rparr>))"

definition DownloadSummary :: "summary_env \<Rightarrow> int \<Rightarrow> int \<Rightarrow> summary \<Rightarrow> summary_error + string" where
  "DownloadSummary e uid i s =
     (case dsGetByID uid i (smDb s) of
        None \<Rightarrow> Inl File_Not_Exist
      | Some d \<Rightarrow>
          if dgHandInner d = [] then Inl File_Not_Exist
          else Inr (signedDownloadURL (seTransfer e) (Join markDir (dgHandInner d)) []))"

section \<open>The web\<close>

text \<open>\<open>DeleteDigest\<close>: the row, the index, and a notice for the device (its user, id and source type); \<open>None\<close> when there is no such digest.\<close>

definition DeleteDigest :: "summary_env \<Rightarrow> int \<Rightarrow> summary \<Rightarrow> ((int \<times> int \<times> string) \<times> summary) option" where
  "DeleteDigest e i s =
     (case dsGetItem i (smDb s) of
        None \<Rightarrow> None
      | Some d \<Rightarrow>
          (case dsSoftDelete (seNow e) (dgUserID d) i (smDb s) of
             None \<Rightarrow> None
           | Some db \<Rightarrow> Some ((dgUserID d, i, FormatInt (dgSourceType d)), deindex (dgUID d) (with_db db s))))"

record digest_view =
  dvID :: int
  dvName :: string
  dvExcerpt :: string
  dvComment :: string
  dvTags :: "string list"
  dvGroup :: string
  dvSourceLabel :: string
  dvHasHandwriting :: bool
  dvCreatedAt :: int
  dvModifiedAt :: int
  dvSourcePath :: string
  dvSourceType :: int
  dvHandwriteInner :: string
  dvNotePage :: int

definition sourceTypeLabel :: "int \<Rightarrow> string" where
  "sourceTypeLabel t = (if t = 1 then ''PDF'' else if t = 2 then ''Note'' else [])"

definition splitTags :: "string \<Rightarrow> string list" where
  "splitTags s = (if TrimSpace s = [] then [] else filter (\<lambda>t. t \<noteq> []) (map TrimSpace (split_on CHR '','' s)))"

text \<open>The page of the source note in the metadata: a string, or a number (already truncated by the decoder's caller).\<close>

datatype page_value = Page_String string | Page_Number int | Page_Other

definition parseNotePage :: "(string \<Rightarrow> page_value option) \<Rightarrow> string \<Rightarrow> int" where
  "parseNotePage decode m =
     (if m = [] then 0
      else case decode m of
             Some (Page_String v) \<Rightarrow> parse_lenient (TrimSpace v)
           | Some (Page_Number n) \<Rightarrow> n
           | _ \<Rightarrow> 0)"

definition group_names :: "digest_db \<Rightarrow> string \<rightharpoonup> string" where
  "group_names db = fold (\<lambda>g m. m(dgUID g \<mapsto> dgName g)) (dsListGroups db) Map.empty"

definition group_label :: "(string \<rightharpoonup> string) \<Rightarrow> string \<Rightarrow> string" where
  "group_label names parent =
     (if parent = [] then [] else case names parent of Some n \<Rightarrow> if n \<noteq> [] then n else parent | None \<Rightarrow> parent)"

definition toDigestView :: "(string \<Rightarrow> page_value option) \<Rightarrow> (string \<rightharpoonup> string) \<Rightarrow> digest \<Rightarrow> digest_view" where
  "toDigestView decode names d =
     \<lparr>dvID = dgID d, dvName = dgName d, dvExcerpt = dgContent d, dvComment = dgComment d, dvTags = splitTags (dgTags d),
      dvGroup = group_label names (dgParent d), dvSourceLabel = sourceTypeLabel (dgSourceType d),
      dvHasHandwriting = (dgHandInner d \<noteq> []), dvCreatedAt = dgCreation d, dvModifiedAt = dgModified d,
      dvSourcePath = dgSourcePath d, dvSourceType = dgSourceType d, dvHandwriteInner = dgHandInner d,
      dvNotePage = parseNotePage decode (dgMetadata d)\<rparr>"

definition ListDigests :: "(string \<Rightarrow> page_value option) \<Rightarrow> string \<Rightarrow> string \<Rightarrow> int \<Rightarrow> int \<Rightarrow> digest_db \<Rightarrow> digest_view list \<times> int" where
  "ListDigests decode parent tag page perPage db =
     (let (rows, tot) = dsListItems parent tag page perPage db in (map (toDigestView decode (group_names db)) rows, tot))"

definition ListDigestGroups :: "digest_db \<Rightarrow> (string \<times> string) list" where
  "ListDigestGroups db = map (\<lambda>g. (dgUID g, dgName g)) (dsListGroups db)"

definition GetDigest :: "(string \<Rightarrow> page_value option) \<Rightarrow> int \<Rightarrow> digest_db \<Rightarrow> digest_view option" where
  "GetDigest decode i db = map_option (toDigestView decode (group_names db)) (dsGetItem i db)"

end
