(* ===== verification/Digest_Session.thy ===== *)
theory Digest_Session
  imports Spc_Summary
begin

text \<open>
  Sessions of one account with the digests: the requests of the device, deletions from the web and the work of the index
  worker, in any order. The invariant says what the search index holds once the worker has caught up: the text of
  every live item under its identity, and nothing else.
\<close>

section \<open>Events\<close>

datatype digest_event =
    Add_Item add_summary
  | Update_Item update_summary
  | Delete_Item int
  | Add_Group add_group
  | Update_Group update_group
  | Delete_Group int
  | Web_Delete int
  | Add_Tag string
  | Update_Tag int string
  | Delete_Tag int
  | Apply_Mark string
  | Index_Work digest_deps

type_synonym digest_system = "summary \<times> (search_index \<times> rag_store)"

definition index_work :: "digest_deps \<Rightarrow> digest_system \<Rightarrow> digest_system" where
  "index_work d S = (case smTasks (fst S) of [] \<Rightarrow> S | t # q \<Rightarrow> ((fst S)\<lparr>smTasks := q\<rparr>, processTask d t (snd S)))"

primrec digest_request :: "int \<Rightarrow> summary_env \<Rightarrow> digest_event \<Rightarrow> summary \<Rightarrow> summary" where
  "digest_request uid e (Add_Item rq) s = snd (AddSummary e uid rq s)"
| "digest_request uid e (Update_Item rq) s = snd (UpdateSummary e uid rq s)"
| "digest_request uid e (Delete_Item i) s = DeleteSummary e uid i s"
| "digest_request uid e (Add_Group rq) s = snd (AddSummaryGroup e uid rq s)"
| "digest_request uid e (Update_Group rq) s = snd (UpdateSummaryGroup e uid rq s)"
| "digest_request uid e (Delete_Group i) s = DeleteSummaryGroup e uid i s"
| "digest_request uid e (Web_Delete i) s = (case DeleteDigest e i s of None \<Rightarrow> s | Some (_, s') \<Rightarrow> s')"
| "digest_request uid e (Add_Tag name) s = snd (AddSummaryTag e uid name s)"
| "digest_request uid e (Update_Tag i name) s = snd (UpdateSummaryTag uid i name s)"
| "digest_request uid e (Delete_Tag i) s = snd (DeleteSummaryTag uid i s)"
| "digest_request uid e (Apply_Mark name) s = snd (UploadApplySummary e name s)"
| "digest_request uid e (Index_Work d) s = s"

definition digest_step :: "int \<Rightarrow> summary_env \<Rightarrow> digest_event \<Rightarrow> digest_system \<Rightarrow> digest_system" where
  "digest_step uid e ev S = (case ev of Index_Work d \<Rightarrow> index_work d S | _ \<Rightarrow> (digest_request uid e ev (fst S), snd S))"

text \<open>
  The requests on groups do not touch the index, so they are taken to name groups: a group's identity is no item's, the
  ids of a group request belong to groups, and a group takes no identity that is in use.
\<close>

definition in_use :: "string \<Rightarrow> digest \<Rightarrow> bool" where
  "in_use u x \<longleftrightarrow> \<not> dgDeleted x \<and> dgUID x = u \<and> u \<noteq> []"

definition names_group :: "digest_event \<Rightarrow> digest_db \<Rightarrow> bool" where
  "names_group ev db =
     (case ev of
        Add_Group rq \<Rightarrow> list_all (\<lambda>x. in_use (agUID rq) x \<longrightarrow> dgGroup x) (dsRows db)
      | Update_Group rq \<Rightarrow>
          list_all (\<lambda>x. dgID x = ugID rq \<and> \<not> dgDeleted x \<longrightarrow>
             dgGroup x \<and> (ugUID rq = dgUID x \<or> list_all (\<lambda>y. \<not> in_use (ugUID rq) y) (dsRows db))) (dsRows db)
      | Delete_Group i \<Rightarrow> list_all (\<lambda>x. dgID x = i \<and> \<not> dgDeleted x \<longrightarrow> dgGroup x) (dsRows db)
      | _ \<Rightarrow> True)"

definition empty_digests :: digest_db where
  "empty_digests = \<lparr>dsRows = [], dsNext = 1, dsTags = [], dsNextTag = 1\<rparr>"

definition no_digests_indexed :: "search_index \<Rightarrow> bool" where
  "no_digests_indexed ix \<longleftrightarrow> list_all (\<lambda>(k, _). \<not> prefix ''digest://'' (fst k)) ix"

inductive digest_session :: "int \<Rightarrow> digest_system \<Rightarrow> bool" for uid :: int where
  start: "no_digests_indexed (fst ix) \<Longrightarrow> digest_session uid (\<lparr>smSpc = sp, smDb = empty_digests, smTasks = [], smDropped = []\<rparr>, ix)"
| next_event: "digest_session uid S \<Longrightarrow> names_group ev (smDb (fst S)) \<Longrightarrow> digest_session uid (digest_step uid e ev S)"

text \<open>Any requests at all, one after the other, and the condition that the group requests among them name groups.\<close>

fun run_digests :: "int \<Rightarrow> (summary_env \<times> digest_event) list \<Rightarrow> digest_system \<Rightarrow> digest_system" where
  "run_digests uid [] S = S"
| "run_digests uid ((e, ev) # evs) S = run_digests uid evs (digest_step uid e ev S)"

fun group_requests_named :: "int \<Rightarrow> (summary_env \<times> digest_event) list \<Rightarrow> digest_system \<Rightarrow> bool" where
  "group_requests_named uid [] S = True"
| "group_requests_named uid ((e, ev) # evs) S \<longleftrightarrow>
     names_group ev (smDb (fst S)) \<and> group_requests_named uid evs (digest_step uid e ev S)"

definition no_digests_yet :: "digest_system \<Rightarrow> bool" where
  "no_digests_yet S \<longleftrightarrow> smDb (fst S) = empty_digests \<and> smTasks (fst S) = [] \<and> smDropped (fst S) = [] \<and> no_digests_indexed (fst (snd S))"

lemma run_digests_session:
  "digest_session uid S \<Longrightarrow> group_requests_named uid evs S \<Longrightarrow> digest_session uid (run_digests uid evs S)"
  by (induction uid evs S rule: run_digests.induct) (auto intro: digest_session.next_event)

lemma no_digests_yet_session: "no_digests_yet S \<Longrightarrow> digest_session uid S"
proof -
  assume S: "no_digests_yet S"
  obtain s ix where s: "S = (s, ix)" by (cases S)
  have "s = \<lparr>smSpc = smSpc s, smDb = empty_digests, smTasks = [], smDropped = []\<rparr>"
    using S by (simp add: s no_digests_yet_def)
  then show ?thesis using digest_session.start [of ix uid "smSpc s"] S by (simp add: s no_digests_yet_def)
qed

section \<open>What the index should hold\<close>

type_synonym doc_view = "(string \<times> string \<times> string \<times> string) option"

definition indexed :: "search_index \<Rightarrow> string \<Rightarrow> doc_view" where
  "indexed ix u = map_option (\<lambda>d. (TitleText d, BodyText d, Keywords d, Source d)) (map_of ix (digestPath u, 0))"

definition shown_text :: "string \<Rightarrow> string \<Rightarrow> string \<Rightarrow> string \<Rightarrow> doc_view" where
  "shown_text name content comment tags =
     (if searchable name content comment then Some (name, digest_body content comment, tags, ''digest'') else None)"

definition item_view :: "digest \<Rightarrow> doc_view" where
  "item_view d = shown_text (dgName d) (dgContent d) (dgComment d) (dgTags d)"

primrec task_view :: "digest_task \<Rightarrow> (string \<Rightarrow> doc_view) \<Rightarrow> string \<Rightarrow> doc_view" where
  "task_view (Index_Digest uid name content comment tags) m = m(uid := shown_text name content comment tags)"
| "task_view (Deindex_Digest uid) m = m(uid := None)"

definition pending :: "summary \<Rightarrow> (string \<Rightarrow> doc_view) \<Rightarrow> string \<Rightarrow> doc_view" where
  "pending s m = fold task_view (smTasks s) m"

definition live_item :: "string \<Rightarrow> digest \<Rightarrow> bool" where
  "live_item u x \<longleftrightarrow> \<not> dgDeleted x \<and> \<not> dgGroup x \<and> dgUID x = u"

definition tracks :: "digest set \<Rightarrow> (string \<Rightarrow> doc_view) \<Rightarrow> bool" where
  "tracks R m \<longleftrightarrow> (\<forall>u. u \<noteq> [] \<longrightarrow> (\<forall>x \<in> R. live_item u x \<longrightarrow> m u = item_view x) \<and> ((\<forall>x \<in> R. \<not> live_item u x) \<longrightarrow> m u = None))"

definition unique_uids :: "digest set \<Rightarrow> bool" where
  "unique_uids R \<longleftrightarrow> (\<forall>x \<in> R. \<forall>y \<in> R. \<forall>u. in_use u x \<longrightarrow> in_use u y \<longrightarrow> x = y)"

lemma processTask_view: "indexed (fst (processTask d t ix)) = task_view t (indexed (fst ix))"
  by (rule ext, cases t) (simp_all del: processTask.simps add: indexed_def processTask_index digest_doc_def shown_text_def)

section \<open>Tracking, row by row\<close>

lemmas track_defs = tracks_def unique_uids_def live_item_def in_use_def

lemma tracks_task_nil: "tracks R m \<Longrightarrow> task_uid t = [] \<Longrightarrow> tracks R (task_view t m)"
  by (cases t) (auto simp: tracks_def)

lemma tracks_task_drop: "tracks R (task_view t m) \<Longrightarrow> task_uid t = [] \<Longrightarrow> tracks R m"
  by (cases t) (auto simp: tracks_def)

lemma tracks_new_item:
  "tracks R m \<Longrightarrow> \<forall>x \<in> R. \<not> in_use (dgUID d) x \<Longrightarrow> \<not> dgGroup d \<Longrightarrow> \<not> dgDeleted d \<Longrightarrow>
     tracks (insert d R) (m(dgUID d := item_view d))"
  by (auto simp: track_defs)

lemma tracks_new_group: "tracks R m \<Longrightarrow> dgGroup d \<Longrightarrow> tracks (insert d R) m"
  by (auto simp: track_defs)

lemma tracks_replace_item:
  "tracks R m \<Longrightarrow> unique_uids R \<Longrightarrow> x \<in> R \<Longrightarrow> \<not> dgDeleted x \<Longrightarrow> dgUID z = dgUID x \<Longrightarrow> \<not> dgGroup z \<Longrightarrow> \<not> dgDeleted z \<Longrightarrow>
     tracks (insert z (R - {x})) (m(dgUID z := item_view z))"
  unfolding track_defs by (auto; metis)

lemma tracks_replace_group:
  "tracks R m \<Longrightarrow> x \<in> R \<Longrightarrow> dgGroup x \<Longrightarrow> dgGroup z \<or> dgDeleted z \<Longrightarrow> tracks (insert z (R - {x})) m"
  unfolding track_defs by (auto; metis)

lemma tracks_delete:
  "tracks R m \<Longrightarrow> unique_uids R \<Longrightarrow> x \<in> R \<Longrightarrow> \<not> dgDeleted x \<Longrightarrow> dgDeleted z \<Longrightarrow> tracks (insert z (R - {x})) (m(dgUID x := None))"
  unfolding track_defs by (auto; metis)

lemma unique_insert: "unique_uids R \<Longrightarrow> \<forall>x \<in> R. \<not> in_use (dgUID d) x \<Longrightarrow> unique_uids (insert d R)"
  by (auto simp: track_defs)

lemma unique_replace: "unique_uids R \<Longrightarrow> x \<in> R \<Longrightarrow> \<not> dgDeleted x \<Longrightarrow> dgUID z = dgUID x \<or> (\<forall>y \<in> R. \<not> in_use (dgUID z) y) \<or> dgDeleted z \<Longrightarrow>
    unique_uids (insert z (R - {x}))"
  unfolding track_defs by (auto; metis)

lemma unique_subset: "unique_uids R \<Longrightarrow> (\<And>y. y \<in> Q \<Longrightarrow> \<not> dgDeleted y \<Longrightarrow> y \<in> R) \<Longrightarrow> unique_uids Q"
  unfolding track_defs by metis

section \<open>The table under an update\<close>

definition account :: "int \<Rightarrow> digest_db \<Rightarrow> bool" where
  "account uid db \<longleftrightarrow> db_ok db \<and> list_all (\<lambda>x. dgUserID x = uid) (dsRows db) \<and> unique_uids (set (dsRows db))"

lemma live_row_only: "db_ok db \<Longrightarrow> x \<in> set (dsRows db) \<Longrightarrow> live_row u i x \<Longrightarrow> z \<in> set (dsRows db) \<Longrightarrow> live_row u i z \<longleftrightarrow> z = x"
  using db_ok_ids [of db] by (auto simp: distinct_map live_row_def dest: inj_onD)

lemma set_map_one: "x \<in> R \<Longrightarrow> (\<And>z. z \<in> R \<Longrightarrow> P z \<longleftrightarrow> z = x) \<Longrightarrow> (\<lambda>z. if P z then f z else z) ` R = insert (f x) (R - {x})"
  by (auto simp: image_iff)

lemma update_row:
  assumes "db_ok db" "x \<in> set (dsRows db)" "live_row u i x"
  shows "set (dsRows (snd (update_where (live_row u i) f db))) = insert (f x) (set (dsRows db) - {x})"
    and "fst (update_where (live_row u i) f db) \<noteq> 0"
  using set_map_one [OF assms(2) live_row_only [OF assms], of f] assms(2,3)
  by (simp_all add: update_where_def filter_empty_conv) auto

lemma dsUpdate_row:
  assumes "db_ok db" "x \<in> set (dsRows db)" "live_row (dgUserID y) (dgID y) x"
  obtains db' where "dsUpdate now y db = Some db'" "db_ok db'" "set (dsRows db') = insert (digest_columns now y x) (set (dsRows db) - {x})"
  using update_row [OF assms, of "digest_columns now y"] update_where_ok [OF _ assms(1), of "digest_columns now y" "live_row (dgUserID y) (dgID y)"]
  by (auto simp: dsUpdate_def case_prod_beta)

lemma dsSoftDelete_row:
  assumes "db_ok db" "x \<in> set (dsRows db)" "live_row u i x"
  obtains db' where "dsSoftDelete now u i db = Some db'" "db_ok db'" "set (dsRows db') = insert (deleted_at now x) (set (dsRows db) - {x})"
  using update_row [OF assms, of "deleted_at now"] update_where_ok [OF _ assms(1), of "deleted_at now" "live_row u i"]
  by (auto simp: dsSoftDelete_def case_prod_beta)

lemma dsSoftDelete_none: "dsGetByID u i db = None \<Longrightarrow> dsSoftDelete now u i db = None"
  by (auto simp: dsGetByID_def dsSoftDelete_def update_where_def find_None_iff filter_empty_conv)

text \<open>The account and the index, before and after a request: what is queued is counted as done.\<close>

definition follows :: "int \<Rightarrow> (string \<Rightarrow> doc_view) \<Rightarrow> summary \<Rightarrow> bool" where
  "follows uid m s \<longleftrightarrow> account uid (smDb s) \<and> (smDropped s = [] \<longrightarrow> tracks (set (dsRows (smDb s))) (pending s m))"

lemma add_task_fields [simp]: "smDb (add_task t s) = smDb s" "smSpc (add_task t s) = smSpc s"
  by (simp_all add: add_task_def)

lemma add_task_kept: "smDropped (add_task t s) = [] \<Longrightarrow> smDropped s = []"
  by (simp add: add_task_def split: if_splits)

lemma add_task_tracks:
  assumes "smDropped (add_task t s) = []" "tracks R (task_view t (pending s m))"
  shows "tracks R (pending (add_task t s) m)"
  using assms tracks_task_drop [of R t "pending s m"] by (auto simp: add_task_def pending_def split: if_splits)

lemma pending_with_db [simp]: "pending (with_db db s) = pending s" "smDb (with_db db s) = db" "smDropped (with_db db s) = smDropped s"
  by (simp_all add: with_db_def pending_def fun_eq_iff)

lemma follows_task:
  assumes "account uid db" "smDropped s = [] \<Longrightarrow> tracks (set (dsRows db)) (task_view t (pending s m))"
  shows "follows uid m (add_task t (with_db db s))"
proof -
  have "smDropped (add_task t (with_db db s)) = [] \<Longrightarrow> tracks (set (dsRows db)) (pending (add_task t (with_db db s)) m)"
    using assms(2) add_task_kept [of t "with_db db s"] by (intro add_task_tracks) simp_all
  then show ?thesis using assms(1) by (simp add: follows_def)
qed

lemma follows_db:
  assumes "account uid db" "smDropped s = [] \<Longrightarrow> tracks (set (dsRows db)) (pending s m)"
  shows "follows uid m (with_db db s)"
  using assms by (simp add: follows_def)

end
