(* ===== verification/Digest_Follow.thy ===== *)
theory Digest_Follow
  imports Digest_Session
begin

text \<open>
  Every request of a session keeps the account in order and the index on the track of its items: one lemma per handler,
  and the rule induction that puts them together.
\<close>

section \<open>Rows\<close>

lemma promote_fields [simp]:
  "smDb (promoteMark e n h s) = smDb s" "smTasks (promoteMark e n h s) = smTasks s" "smDropped (promoteMark e n h s) = smDropped s"
  "pending (promoteMark e n h s) = pending s"
  by (simp_all add: promoteMark_def Let_def pending_def fun_eq_iff)

lemma account_replace:
  assumes "account uid db" "x \<in> set (dsRows db)" "\<not> dgDeleted x" "db_ok db'"
    "set (dsRows db') = insert z (set (dsRows db) - {x})" "dgUserID z = uid"
    "dgUID z = dgUID x \<or> (\<forall>y \<in> set (dsRows db). \<not> in_use (dgUID z) y) \<or> dgDeleted z"
  shows "account uid db'"
  using assms unique_replace [of "set (dsRows db)" x z] by (auto simp: account_def list_all_iff)

lemma account_create:
  assumes "account uid db" "dsCreate now d db = (d', db')" "dgUserID d = uid" "\<forall>x \<in> set (dsRows db). \<not> in_use (dgUID d) x"
  shows "account uid db'" "set (dsRows db') = insert d' (set (dsRows db))"
    "dgUID d' = dgUID d" "dgGroup d' = dgGroup d" "dgDeleted d' = dgDeleted d" "item_view d' = item_view d"
proof -
  show f: "dgUID d' = dgUID d" "dgGroup d' = dgGroup d" "dgDeleted d' = dgDeleted d" "item_view d' = item_view d"
    and rows: "set (dsRows db') = insert d' (set (dsRows db))"
    using assms(2) by (auto simp: dsCreate_def Let_def item_view_def)
  have "dgUserID d' = uid" using assms(2,3) by (auto simp: dsCreate_def Let_def)
  then show "account uid db'"
    using assms f rows dsCreate_ok [OF _ assms(2)] unique_insert [of "set (dsRows db)" d'] by (simp add: account_def list_all_iff)
qed

lemma accountD: "account uid db \<Longrightarrow> db_ok db" "account uid db \<Longrightarrow> x \<in> set (dsRows db) \<Longrightarrow> dgUserID x = uid"
  "account uid db \<Longrightarrow> unique_uids (set (dsRows db))"
  by (auto simp: account_def list_all_iff)

lemma dsGetByUID_None: "account uid db \<Longrightarrow> dsGetByUID uid u db = None \<Longrightarrow> \<forall>x \<in> set (dsRows db). \<not> in_use u x"
  by (auto simp: dsGetByUID_def find_None_iff in_use_def account_def list_all_iff)

lemma dsGetByUID_Some: "dsGetByUID uid u db = Some x \<Longrightarrow> x \<in> set (dsRows db) \<and> dgUID x = u \<and> dgUserID x = uid \<and> \<not> dgDeleted x"
  unfolding dsGetByUID_def by (drule find_SomeD) auto

lemma digest_columns_view [simp]: "dgUID (digest_columns now y x) = dgUID y" "dgGroup (digest_columns now y x) = dgGroup y"
  "item_view (digest_columns now y x) = item_view y"
  by (simp_all add: digest_columns_def item_view_def)

lemma follows_account: "follows uid m s \<Longrightarrow> account uid (smDb s)"
  by (simp add: follows_def)

lemma follows_tracks: "follows uid m s \<Longrightarrow> smDropped s = [] \<Longrightarrow> tracks (set (dsRows (smDb s))) (pending s m)"
  by (simp add: follows_def)

lemma follows_promote: "follows uid m (promoteMark e n h s) \<longleftrightarrow> follows uid m s"
  by (simp add: follows_def)

text \<open>The three ways a request writes: a new row, a row overwritten, a row deleted.\<close>

lemma follows_create:
  assumes "follows uid m s" "dsCreate now d (smDb s) = (d', db')" "dgUserID d = uid" "\<not> dgDeleted d"
    "\<forall>x \<in> set (dsRows (smDb s)). \<not> in_use (dgUID d) x"
  shows "follows uid m (index d' (with_db db' s))"
proof -
  note c = account_create [OF follows_account [OF assms(1)] assms(2,3,5)]
  show ?thesis
  proof (cases "dgGroup d")
    case True
    then have "smDropped s = [] \<Longrightarrow> tracks (set (dsRows db')) (pending s m)"
      using tracks_new_group [OF follows_tracks [OF assms(1)], of d'] c by simp
    then show ?thesis using c(1) True c(4) by (simp add: index_def follows_db)
  next
    case False
    then have "smDropped s = [] \<Longrightarrow> tracks (set (dsRows db')) ((pending s m)(dgUID d' := item_view d'))"
      using tracks_new_item [OF follows_tracks [OF assms(1)], of d'] c assms(4,5) by simp
    then show ?thesis using c(1) False c(4) by (simp add: index_def) (rule follows_task, simp_all add: item_view_def)
  qed
qed

lemma follows_update:
  assumes "follows uid m s" "x \<in> set (dsRows (smDb s))" "\<not> dgDeleted x" "dgID y = dgID x" "dgUserID y = uid"
    "dgUID y = dgUID x \<or> (dgGroup y \<and> (\<forall>z \<in> set (dsRows (smDb s)). \<not> in_use (dgUID y) z))" "dgGroup y \<longrightarrow> dgGroup x"
  obtains db' where "dsUpdate now y (smDb s) = Some db'" "follows uid m (index y (with_db db' s))"
    "dgGroup y \<Longrightarrow> follows uid m (with_db db' s)"
proof -
  note acc = follows_account [OF assms(1)]
  have live: "live_row (dgUserID y) (dgID y) x" using accountD(2) [OF acc assms(2)] assms(3-5) by (simp add: live_row_def)
  obtain db' where db': "dsUpdate now y (smDb s) = Some db'" "db_ok db'"
    and rows: "set (dsRows db') = insert (digest_columns now y x) (set (dsRows (smDb s)) - {x})"
    by (rule dsUpdate_row [OF accountD(1) [OF acc] assms(2) live])
  have acc': "account uid db'"
    using assms(6) accountD(2) [OF acc assms(2)] by (intro account_replace [OF acc assms(2,3) db'(2) rows]) auto
  have group: "smDropped s = [] \<Longrightarrow> tracks (set (dsRows db')) (pending s m)" if "dgGroup y"
    using tracks_replace_group [OF follows_tracks [OF assms(1)] assms(2), of "digest_columns now y x"] that assms(7) by (simp add: rows)
  have item: "smDropped s = [] \<Longrightarrow> tracks (set (dsRows db')) ((pending s m)(dgUID y := item_view y))" if "\<not> dgGroup y" "dgUID y = dgUID x"
    using tracks_replace_item [OF follows_tracks [OF assms(1)] accountD(3) [OF acc] assms(2,3), of "digest_columns now y x"] that assms(3)
    by (simp add: rows)
  show ?thesis
  proof (rule that [OF db'(1)])
    show "follows uid m (with_db db' s)" if "dgGroup y" using that acc' group by (simp add: follows_db)
    show "follows uid m (index y (with_db db' s))"
    proof (cases "dgGroup y")
      case True
      then show ?thesis using acc' group by (simp add: index_def follows_db)
    next
      case False
      then show ?thesis using acc' item assms(6) by (simp add: index_def) (rule follows_task, simp_all add: item_view_def)
    qed
  qed
qed


lemma follows_delete:
  assumes "follows uid m s" "dsGetByID uid i (smDb s) = Some x"
  obtains db' where "dsSoftDelete now uid i (smDb s) = Some db'" "follows uid m (deindex (dgUID x) (with_db db' s))"
    "dgGroup x \<Longrightarrow> follows uid m (with_db db' s)"
proof -
  note acc = follows_account [OF assms(1)]
  have x: "x \<in> set (dsRows (smDb s))" "live_row uid i x" "\<not> dgDeleted x" using dsGetByID_Some [OF assms(2)] by (auto simp: live_row_def)
  obtain db' where db': "dsSoftDelete now uid i (smDb s) = Some db'" "db_ok db'"
    and rows: "set (dsRows db') = insert (deleted_at now x) (set (dsRows (smDb s)) - {x})"
    by (rule dsSoftDelete_row [OF accountD(1) [OF acc] x(1,2)])
  have acc': "account uid db'"
    using accountD(2) [OF acc x(1)] by (intro account_replace [OF acc x(1,3) db'(2) rows]) auto
  have gone: "smDropped s = [] \<Longrightarrow> tracks (set (dsRows db')) ((pending s m)(dgUID x := None))"
    using tracks_delete [OF follows_tracks [OF assms(1)] accountD(3) [OF acc] x(1,3), of "deleted_at now x"] by (simp add: rows)
  have group: "smDropped s = [] \<Longrightarrow> tracks (set (dsRows db')) (pending s m)" if "dgGroup x"
    using tracks_replace_group [OF follows_tracks [OF assms(1)] x(1) that, of "deleted_at now x"] by (simp add: rows)
  show ?thesis
  proof (rule that [OF db'(1)])
    show "follows uid m (deindex (dgUID x) (with_db db' s))"
      unfolding deindex_def by (rule follows_task [OF acc']) (simp add: gone)
    show "follows uid m (with_db db' s)" if "dgGroup x" using acc' group [OF that] by (simp add: follows_db)
  qed
qed

section \<open>Handlers\<close>

lemma follows_AddSummary:
  assumes "follows uid m s"
  shows "follows uid m (snd (AddSummary e uid rq s))"
proof -
  let ?s = "promoteMark e (asHandInner rq) (asHandMD5 rq) s" and ?u = "effective_uid e rq"
  have s: "follows uid m ?s" using assms by (simp only: follows_promote)
  show ?thesis
  proof (cases "if ?u = [] then None else dsGetByUID uid ?u (smDb ?s)")
    case (Some x)
    then have "?u \<noteq> []" "dsGetByUID uid ?u (smDb ?s) = Some x" by (simp_all split: if_splits)
    then have x: "x \<in> set (dsRows (smDb ?s))" "dgUID x = ?u" "\<not> dgDeleted x" "dgUserID x = uid" using dsGetByUID_Some by blast+
    let ?y = "applyAddToDigest rq ?u x"
    have y: "dgID ?y = dgID x" "dgUserID ?y = uid" "dgUID ?y = dgUID x" "\<not> dgGroup ?y" using x by (simp_all add: applyAddToDigest_def)
    obtain db' where "dsUpdate (seNow e) ?y (smDb ?s) = Some db'" "follows uid m (index ?y (with_db db' ?s))"
      by (rule follows_update [OF s x(1,3) y(1,2)]) (use y in auto)
    then show ?thesis using Some by (simp add: AddSummary_def Let_def)
  next
    case None
    let ?d = "applyAddToDigest rq ?u (empty_digest\<lparr>dgUserID := uid\<rparr>)"
    obtain d' db' where c: "dsCreate (seNow e) ?d (smDb ?s) = (d', db')" by (cases "dsCreate (seNow e) ?d (smDb ?s)")
    have d: "dgUserID ?d = uid" "\<not> dgDeleted ?d" "dgUID ?d = ?u" by (simp_all add: applyAddToDigest_def empty_digest_def)
    have "\<forall>x \<in> set (dsRows (smDb ?s)). \<not> in_use (dgUID ?d) x"
      using None dsGetByUID_None [OF follows_account [OF s], of ?u] by (auto simp: d(3) in_use_def split: if_splits)
    then have "follows uid m (index d' (with_db db' ?s))" by (rule follows_create [OF s c d(1,2)])
    then show ?thesis using None c by (simp add: AddSummary_def Let_def)
  qed
qed

lemma follows_UpdateSummary:
  assumes "follows uid m s"
  shows "follows uid m (snd (UpdateSummary e uid rq s))"
proof -
  let ?s = "promoteMark e (usHandInner rq) (usHandMD5 rq) s"
  have s: "follows uid m ?s" using assms by (simp only: follows_promote)
  show ?thesis
  proof (cases "dsGetByID uid (upID rq) (smDb ?s)")
    case None
    then show ?thesis using s by (simp add: UpdateSummary_def Let_def)
  next
    case (Some x)
    then have x: "x \<in> set (dsRows (smDb ?s))" "\<not> dgDeleted x" "dgUserID x = uid" by (auto dest!: dsGetByID_Some simp: live_row_def)
    let ?y = "apply_update rq x"
    have y: "dgID ?y = dgID x" "dgUserID ?y = uid" "dgUID ?y = dgUID x" "dgGroup ?y = dgGroup x" using x by (simp_all add: apply_update_def)
    obtain db' where "dsUpdate (seNow e) ?y (smDb ?s) = Some db'" "follows uid m (index ?y (with_db db' ?s))"
      by (rule follows_update [OF s x(1,2) y(1,2)]) (use y in auto)
    then show ?thesis using Some by (simp add: UpdateSummary_def Let_def)
  qed
qed

lemma deindex_nil [simp]: "deindex [] s = s"
  by (simp add: deindex_def add_task_def)

lemma with_db_same [simp]: "with_db (smDb s) s = s"
  by (simp add: with_db_def)

lemma follows_DeleteSummary:
  assumes "follows uid m s"
  shows "follows uid m (DeleteSummary e uid i s)"
proof (cases "dsGetByID uid i (smDb s)")
  case None
  then show ?thesis using assms dsSoftDelete_none [OF None] by (simp add: DeleteSummary_def or_same_def)
next
  case (Some x)
  obtain db' where "dsSoftDelete (seNow e) uid i (smDb s) = Some db'" "follows uid m (deindex (dgUID x) (with_db db' s))"
    by (rule follows_delete [OF assms Some])
  then show ?thesis using Some by (simp add: DeleteSummary_def or_same_def)
qed

lemma follows_DeleteDigest:
  assumes "follows uid m s" "DeleteDigest e i s = Some (r, s')"
  shows "follows uid m s'"
proof -
  obtain d where d: "dsGetItem i (smDb s) = Some d" using assms(2) by (auto simp: DeleteDigest_def split: option.splits)
  then have "d \<in> set (dsRows (smDb s))" "dgID d = i" "\<not> dgDeleted d" unfolding dsGetItem_def by (auto dest!: find_SomeD)
  moreover from this have user: "dgUserID d = uid" using accountD(2) [OF follows_account [OF assms(1)]] by blast
  ultimately have "dsGetByID uid i (smDb s) = Some d"
    by (intro dsGetByID_row accountD(1) [OF follows_account [OF assms(1)]]) (simp_all add: live_row_def)
  then obtain db' where "dsSoftDelete (seNow e) uid i (smDb s) = Some db'" "follows uid m (deindex (dgUID d) (with_db db' s))"
    by (rule follows_delete [OF assms(1)])
  then show ?thesis using assms(2) d user by (simp add: DeleteDigest_def)
qed

lemma follows_AddSummaryGroup:
  assumes "follows uid m s" "names_group (Add_Group rq) (smDb s)"
  shows "follows uid m (snd (AddSummaryGroup e uid rq s))"
proof (cases "if agUID rq = [] then None else dsGetByUID uid (agUID rq) (smDb s)")
  case (Some x)
  then have u: "agUID rq \<noteq> []" "dsGetByUID uid (agUID rq) (smDb s) = Some x" by (simp_all split: if_splits)
  then have x: "x \<in> set (dsRows (smDb s))" "dgUID x = agUID rq" "\<not> dgDeleted x" "dgUserID x = uid" using dsGetByUID_Some by blast+
  then have "dgGroup x" using assms(2) u(1) by (auto simp: names_group_def list_all_iff in_use_def)
  let ?y = "x\<lparr>dgName := agName rq, dgDescription := agDescription rq, dgMD5 := agMD5 rq, dgModified := agModified rq\<rparr>"
  obtain db' where "dsUpdate (seNow e) ?y (smDb s) = Some db'" "dgGroup ?y \<Longrightarrow> follows uid m (with_db db' s)"
    by (rule follows_update [OF assms(1) x(1,3), of ?y]) (use x \<open>dgGroup x\<close> in auto)
  then show ?thesis using Some \<open>dgGroup x\<close> by (simp add: AddSummaryGroup_def Let_def)
next
  case None
  let ?d = "empty_digest\<lparr>dgUserID := uid, dgGroup := True, dgUID := agUID rq, dgName := agName rq,
    dgDescription := agDescription rq, dgMD5 := agMD5 rq, dgCreation := agCreation rq, dgModified := agModified rq\<rparr>"
  obtain d' db' where c: "dsCreate (seNow e) ?d (smDb s) = (d', db')" by (cases "dsCreate (seNow e) ?d (smDb s)")
  have free: "\<forall>x \<in> set (dsRows (smDb s)). \<not> in_use (dgUID ?d) x"
    using None dsGetByUID_None [OF follows_account [OF assms(1)], of "agUID rq"] by (auto simp: in_use_def split: if_splits)
  have "follows uid m (index d' (with_db db' s))"
    by (rule follows_create [OF assms(1) c _ _ free]) (simp_all add: empty_digest_def)
  moreover have "dgGroup d'" using c by (auto simp: dsCreate_def Let_def)
  ultimately show ?thesis using None c by (simp add: AddSummaryGroup_def index_def)
qed

lemma follows_UpdateSummaryGroup:
  assumes "follows uid m s" "names_group (Update_Group rq) (smDb s)"
  shows "follows uid m (snd (UpdateSummaryGroup e uid rq s))"
proof -
  let ?s = "promoteMark e (ugHandInner rq) [] s"
  have s: "follows uid m ?s" using assms(1) by (simp only: follows_promote)
  show ?thesis
  proof (cases "dsGetByID uid (ugID rq) (smDb ?s)")
    case None
    then show ?thesis using s by (simp add: UpdateSummaryGroup_def Let_def)
  next
    case (Some x)
    then have x: "x \<in> set (dsRows (smDb ?s))" "\<not> dgDeleted x" "dgUserID x = uid" "dgID x = ugID rq"
      by (auto dest!: dsGetByID_Some simp: live_row_def)
    then have g: "dgGroup x" "ugUID rq = dgUID x \<or> (\<forall>y \<in> set (dsRows (smDb ?s)). \<not> in_use (ugUID rq) y)"
      using assms(2) by (auto simp: names_group_def list_all_iff)
    let ?y = "x\<lparr>dgUID := (if ugUID rq \<noteq> [] then ugUID rq else dgUID x), dgName := ugName rq, dgDescription := ugDescription rq,
      dgMetadata := ugMetadata rq, dgComment := ugComment rq, dgHandName := ugHandName rq, dgHandInner := ugHandInner rq,
      dgMD5 := ugMD5 rq, dgModified := ugModified rq\<rparr>"
    obtain db' where "dsUpdate (seNow e) ?y (smDb ?s) = Some db'" "dgGroup ?y \<Longrightarrow> follows uid m (with_db db' ?s)"
      by (rule follows_update [OF s x(1,2), of ?y]) (use x g in auto)
    then show ?thesis using Some g(1) by (simp add: UpdateSummaryGroup_def Let_def)
  qed
qed

lemma deindex_fields [simp]: "smDb (deindex u s) = smDb s"
  by (simp add: deindex_def)

lemma deindex_pending:
  "smDropped (deindex v s) = [] \<Longrightarrow> u \<noteq> [] \<Longrightarrow> pending (deindex v s) m u = (if u = v then None else pending s m u)"
  by (auto simp: deindex_def add_task_def pending_def split: if_splits)

lemma deindex_kept: "smDropped (deindex u s) = [] \<Longrightarrow> smDropped s = []"
  unfolding deindex_def by (rule add_task_kept)

lemma deindex_all_fields [simp]: "smDb (fold (\<lambda>d. deindex (dgUID d)) ds s) = smDb s"
  by (induction ds arbitrary: s) simp_all

lemma deindex_all_kept: "smDropped (fold (\<lambda>d. deindex (dgUID d)) ds s) = [] \<Longrightarrow> smDropped s = []"
proof (induction ds arbitrary: s)
  case (Cons d ds)
  show ?case using Cons.IH [of "deindex (dgUID d) s"] Cons.prems deindex_kept [of "dgUID d" s] by simp
qed simp

lemma deindex_all_pending:
  assumes "smDropped (fold (\<lambda>d. deindex (dgUID d)) ds s) = []" "u \<noteq> []"
  shows "pending (fold (\<lambda>d. deindex (dgUID d)) ds s) m u = (if u \<in> dgUID ` set ds then None else pending s m u)"
  using assms
proof (induction ds arbitrary: s)
  case (Cons d ds)
  have "smDropped (deindex (dgUID d) s) = []" using Cons.prems(1) deindex_all_kept [of ds "deindex (dgUID d) s"] by simp
  then show ?case using Cons.IH [of "deindex (dgUID d) s"] Cons.prems deindex_pending [of "dgUID d" s u m] by auto
qed simp

definition member_of :: "int \<Rightarrow> string \<Rightarrow> digest \<Rightarrow> bool" where
  "member_of uid p x \<longleftrightarrow> dgUserID x = uid \<and> dgParent x = p \<and> \<not> dgDeleted x"

lemma tracks_cascade:
  assumes "tracks R m" "unique_uids R" "\<And>u. u \<noteq> [] \<Longrightarrow> m' u = (if u \<in> dgUID ` {x \<in> R. P x \<and> \<not> dgGroup x} then None else m u)"
    "\<And>x. P x \<Longrightarrow> \<not> dgDeleted x"
  shows "tracks ((\<lambda>x. if P x then deleted_at now x else x) ` R) m'"
  unfolding tracks_def
proof (intro allI impI conjI)
  fix u :: string assume u: "u \<noteq> []"
  let ?f = "\<lambda>x. if P x then deleted_at now x else x"
  show "\<forall>y \<in> ?f ` R. live_item u y \<longrightarrow> m' u = item_view y"
  proof (intro ballI impI)
    fix y assume y: "y \<in> ?f ` R" "live_item u y"
    then have x: "y \<in> R" "\<not> P y" by (auto simp: live_item_def split: if_splits)
    have "u \<notin> dgUID ` {x \<in> R. P x \<and> \<not> dgGroup x}"
    proof
      assume "u \<in> dgUID ` {x \<in> R. P x \<and> \<not> dgGroup x}"
      then obtain x where "x \<in> R" "P x" "dgUID x = u" by auto
      then have "x = y" using assms(2,4) y(2) x(1) u by (auto simp: unique_uids_def in_use_def live_item_def)
      then show False using \<open>P x\<close> x(2) by simp
    qed
    then show "m' u = item_view y" using assms(1,3) u x(1) y(2) by (simp add: tracks_def)
  qed
  assume none: "\<forall>y \<in> ?f ` R. \<not> live_item u y"
  show "m' u = None"
  proof (cases "u \<in> dgUID ` {x \<in> R. P x \<and> \<not> dgGroup x}")
    case False
    then have "\<forall>x \<in> R. \<not> live_item u x" using none by (force simp: live_item_def)
    then show ?thesis using assms(1,3) u False by (simp add: tracks_def)
  qed (simp add: assms(3) u)
qed

lemma set_page_of_0 [simp]: "page_of p 0 xs = xs"
  by (simp add: page_of_def)

lemma set_newest_first [simp]: "set (newest_first xs) = set xs"
  by (simp add: newest_first_def)

lemma group_members: "set (fst (dsList uid False p 0 0 db)) = {x \<in> set (dsRows db). (p = [] \<or> dgParent x = p) \<and> dgUserID x = uid \<and> \<not> dgDeleted x \<and> \<not> dgGroup x}"
  by (auto simp: dsList_def Let_def)

lemma follows_cascade:
  assumes "follows uid m s" "p \<noteq> []"
  defines "t \<equiv> fold (\<lambda>d. deindex (dgUID d)) (fst (dsList uid False p 0 0 (smDb s))) s"
  shows "follows uid m (with_db (snd (dsSoftDeleteByParent now uid p (smDb s))) t)"
    and "x \<in> set (dsRows (snd (dsSoftDeleteByParent now uid p (smDb s)))) \<Longrightarrow> \<not> dgDeleted x \<Longrightarrow> x \<in> set (dsRows (smDb s))"
proof -
  let ?db = "snd (dsSoftDeleteByParent now uid p (smDb s))" and ?f = "\<lambda>x. if member_of uid p x then deleted_at now x else x"
  note acc = follows_account [OF assms(1)]
  have rows: "set (dsRows ?db) = ?f ` set (dsRows (smDb s))"
    by (simp add: dsSoftDeleteByParent_def update_where_def member_of_def)
  then show sub: "\<And>x. x \<in> set (dsRows ?db) \<Longrightarrow> \<not> dgDeleted x \<Longrightarrow> x \<in> set (dsRows (smDb s))"
    by (auto split: if_splits)
  have "unique_uids (set (dsRows ?db))" by (rule unique_subset [OF accountD(3) [OF acc] sub])
  moreover have "\<forall>x \<in> set (dsRows ?db). dgUserID x = uid" using accountD(2) [OF acc] by (auto simp: rows)
  ultimately have acc': "account uid ?db" using dsSoftDeleteByParent_ok [OF accountD(1) [OF acc]] by (simp add: account_def list_all_iff)
  show "follows uid m (with_db ?db t)"
  proof (rule follows_db [OF acc'])
    assume nodrop: "smDropped t = []"
    have "\<And>u. u \<noteq> [] \<Longrightarrow> pending t m u = (if u \<in> dgUID ` {x \<in> set (dsRows (smDb s)). member_of uid p x \<and> \<not> dgGroup x} then None else pending s m u)"
      using nodrop assms(2) deindex_all_pending [of "fst (dsList uid False p 0 0 (smDb s))" s _ m]
      unfolding t_def group_members member_of_def by (simp add: conj_commute conj_left_commute)
    moreover have "smDropped s = []" using nodrop unfolding t_def by (rule deindex_all_kept)
    ultimately show "tracks (set (dsRows ?db)) (pending t m)"
      unfolding rows by (intro tracks_cascade [OF follows_tracks [OF assms(1)] accountD(3) [OF acc]]) (auto simp: member_of_def)
  qed
qed

lemma follows_group_row:
  assumes "follows uid m s" "\<And>x. x \<in> set (dsRows (smDb s)) \<Longrightarrow> dgID x = i \<Longrightarrow> \<not> dgDeleted x \<Longrightarrow> dgGroup x"
  shows "follows uid m (with_db (or_same (dsSoftDelete now uid i (smDb s)) (smDb s)) s)"
proof (cases "dsGetByID uid i (smDb s)")
  case None
  then show ?thesis using assms(1) dsSoftDelete_none [OF None] by (simp add: or_same_def)
next
  case (Some x)
  then have "dgGroup x" using assms(2) by (auto dest!: dsGetByID_Some simp: live_row_def)
  then obtain db' where "dsSoftDelete now uid i (smDb s) = Some db'" "follows uid m (with_db db' s)"
    using follows_delete [OF assms(1) Some, where now = now] by metis
  then show ?thesis by (simp add: or_same_def)
qed

lemma follows_DeleteSummaryGroup:
  assumes "follows uid m s" "names_group (Delete_Group i) (smDb s)"
  shows "follows uid m (DeleteSummaryGroup e uid i s)"
proof -
  have group: "\<And>x. x \<in> set (dsRows (smDb s)) \<Longrightarrow> dgID x = i \<Longrightarrow> \<not> dgDeleted x \<Longrightarrow> dgGroup x"
    using assms(2) by (auto simp: names_group_def list_all_iff)
  show ?thesis
  proof (cases "\<exists>g. dsGetByID uid i (smDb s) = Some g \<and> dgUID g \<noteq> []")
    case True
    then obtain g where g: "dsGetByID uid i (smDb s) = Some g" "dgUID g \<noteq> []" by blast
    note c = follows_cascade [OF assms(1) g(2), where now = "seNow e"]
    let ?t = "fold (\<lambda>d. deindex (dgUID d)) (fst (dsList uid False (dgUID g) 0 0 (smDb s))) s"
    have "follows uid m (with_db (or_same (dsSoftDelete (seNow e) uid i (snd (dsSoftDeleteByParent (seNow e) uid (dgUID g) (smDb s))))
        (snd (dsSoftDeleteByParent (seNow e) uid (dgUID g) (smDb s)))) (with_db (snd (dsSoftDeleteByParent (seNow e) uid (dgUID g) (smDb s))) ?t))"
      using follows_group_row [OF c(1), where i = i and now = "seNow e"] group c(2) by simp
    then show ?thesis using g by (simp add: DeleteSummaryGroup_def Let_def)
  next
    case False
    then show ?thesis using follows_group_row [OF assms(1) group, where now = "seNow e"]
      by (cases "dsGetByID uid i (smDb s)") (auto simp: DeleteSummaryGroup_def Let_def)
  qed
qed

text \<open>Tags and slots leave the rows alone.\<close>

lemma follows_same_rows:
  assumes "follows uid m s" "dsRows db = dsRows (smDb s)" "db_ok db"
  shows "follows uid m (with_db db s)"
  using assms by (auto simp: follows_def account_def)

lemma tag_rows: "dsCreateTag now u name db = Inr (i, db') \<Longrightarrow> dsRows db' = dsRows db"
  "dsUpdateTag u j name db = Inr db' \<Longrightarrow> dsRows db' = dsRows db"
  "dsDeleteTag u j db = Inr db' \<Longrightarrow> dsRows db' = dsRows db"
  by (auto simp: dsCreateTag_def dsUpdateTag_def dsDeleteTag_def split: if_splits)

lemma follows_tags:
  assumes "follows uid m s"
  shows "follows uid m (snd (AddSummaryTag e uid name s))" "follows uid m (snd (UpdateSummaryTag uid i name s))"
    "follows uid m (snd (DeleteSummaryTag uid i s))"
  using assms accountD(1) [OF follows_account [OF assms]]
  by (auto simp: AddSummaryTag_def UpdateSummaryTag_def DeleteSummaryTag_def tag_result_def split: option.splits sum.splits digest_error.splits
      intro!: follows_same_rows elim: dsCreateTag_ok dsUpdateTag_ok dsDeleteTag_ok dest: tag_rows)

lemma follows_request:
  assumes "follows uid m s" "names_group ev (smDb s)"
  shows "follows uid m (digest_request uid e ev s)"
proof (cases ev)
  case (Web_Delete i)
  then show ?thesis using assms(1) follows_DeleteDigest [OF assms(1)] by (auto split: option.splits)
next
  case (Apply_Mark name)
  have "follows uid m (snd (UploadApplySummary e name s))"
    using assms(1) by (simp add: UploadApplySummary_def Let_def follows_def pending_def)
  then show ?thesis using Apply_Mark by simp
qed (use assms in \<open>simp_all add: follows_AddSummary follows_UpdateSummary follows_DeleteSummary follows_AddSummaryGroup
  follows_UpdateSummaryGroup follows_DeleteSummaryGroup follows_tags\<close>)

lemma follows_work:
  assumes "follows uid (indexed (fst (snd S))) (fst S)"
  shows "follows uid (indexed (fst (snd (index_work d S)))) (fst (index_work d S))"
proof (cases "smTasks (fst S)")
  case (Cons t q)
  then show ?thesis using assms by (simp add: index_work_def follows_def pending_def processTask_view)
qed (use assms in \<open>simp add: index_work_def\<close>)

lemma no_digests: "no_digests_indexed ix \<Longrightarrow> indexed ix u = None"
proof -
  assume ix: "no_digests_indexed ix"
  have "map_of ix (digestPath u, 0) = None"
    using ix by (fastforce simp: no_digests_indexed_def list_all_iff digestPath_def map_of_eq_None_iff prefix_def)
  then show ?thesis by (simp add: indexed_def)
qed

lemma session_follows: "digest_session uid S \<Longrightarrow> follows uid (indexed (fst (snd S))) (fst S)"
proof (induction rule: digest_session.induct)
  case (start ix sp)
  then show ?case
    by (simp add: follows_def account_def empty_digests_def db_ok_def unique_uids_def tracks_def pending_def no_digests)
next
  case (next_event S ev e)
  show ?case
  proof (cases "\<exists>d. ev = Index_Work d")
    case True
    then show ?thesis using follows_work [OF next_event.IH] by (auto simp: digest_step_def)
  next
    case False
    then have "digest_step uid e ev S = (digest_request uid e ev (fst S), snd S)" by (cases ev) (simp_all add: digest_step_def)
    then show ?thesis using follows_request [OF next_event.IH next_event.hyps(2)] by simp
  qed
qed

text \<open>The worker, left alone, catches up.\<close>

lemma drain_view: "indexed (fst (fold (processTask d) q ix)) = fold task_view q (indexed (fst ix))"
  by (induction q arbitrary: ix) (simp_all add: processTask_view)

lemma index_work_drains:
  "(index_work d ^^ length (smTasks (fst S))) S = ((fst S)\<lparr>smTasks := []\<rparr>, fold (processTask d) (smTasks (fst S)) (snd S))"
proof (induction "smTasks (fst S)" arbitrary: S)
  case (Cons t q)
  let ?S = "index_work d S"
  have S: "?S = ((fst S)\<lparr>smTasks := q\<rparr>, processTask d t (snd S))" by (simp add: index_work_def Cons.hyps(2) [symmetric])
  have "(index_work d ^^ length q) ?S = ((fst S)\<lparr>smTasks := []\<rparr>, fold (processTask d) q (processTask d t (snd S)))"
    using Cons.hyps(1) [of ?S] by (simp add: S)
  then show ?case unfolding Cons.hyps(2) [symmetric] by (simp add: funpow_swap1)
next
  case (Nil S)
  have "(fst S)\<lparr>smTasks := []\<rparr> = fst S" by (cases "fst S") (use Nil in simp)
  then show ?case using Nil [symmetric] by (simp add: prod_eq_iff)
qed

text \<open>An item deleted as if it were a group: without members of its own, nothing is queued for the index.\<close>

lemma group_delete_quiet:
  assumes "\<forall>y \<in> set (dsRows (smDb s)). \<not> dgGroup y \<and> \<not> dgDeleted y \<longrightarrow> dgParent y \<noteq> u" "dsGetByID uid i (smDb s) = Some x" "dgUID x = u" "u \<noteq> []"
  shows "smTasks (DeleteSummaryGroup e uid i s) = smTasks s" "smDropped (DeleteSummaryGroup e uid i s) = smDropped s"
proof -
  have "set (fst (dsList uid False u 0 0 (smDb s))) = {}" unfolding group_members using assms(1,4) by blast
  then have "fst (dsList uid False u 0 0 (smDb s)) = []" by simp
  then show "smTasks (DeleteSummaryGroup e uid i s) = smTasks s" "smDropped (DeleteSummaryGroup e uid i s) = smDropped s"
    using assms(2-4) by (simp_all add: DeleteSummaryGroup_def Let_def with_db_def)
qed

lemma soft_delete_rows:
  "dsRows (or_same (dsSoftDelete now uid i db) db) = map (\<lambda>x. if live_row uid i x then deleted_at now x else x) (dsRows db)"
  by (simp add: or_same_def dsSoftDelete_def update_where_def filter_empty_conv map_idI [symmetric])

lemma soft_delete_gone:
  assumes "\<forall>x \<in> set (dsRows db). dgUserID x = uid" "y \<in> set (dsRows (or_same (dsSoftDelete now uid i db) db))" "dgID y = i"
  shows "dgDeleted y"
proof -
  obtain x where x: "x \<in> set (dsRows db)" "y = (if live_row uid i x then deleted_at now x else x)"
    using assms(2) unfolding soft_delete_rows by auto
  then show ?thesis using assms(1,3) by (cases "live_row uid i x") (auto simp: live_row_def)
qed

lemma group_delete_gone:
  assumes "account uid (smDb s)" "y \<in> set (dsRows (smDb (DeleteSummaryGroup e uid i s)))" "dgID y = i"
  shows "dgDeleted y"
proof -
  define s1 where "s1 = (case dsGetByID uid i (smDb s) of
      None \<Rightarrow> s
    | Some g \<Rightarrow>
        if dgUID g = [] then s
        else let members = fst (dsList uid False (dgUID g) 0 0 (smDb s)); t = fold (\<lambda>d. deindex (dgUID d)) members s
             in with_db (snd (dsSoftDeleteByParent (seNow e) uid (dgUID g) (smDb t))) t)"
  have "\<forall>x \<in> set (dsRows (smDb s1)). dgUserID x = uid"
    using accountD(2) [OF assms(1)] by (auto simp: s1_def Let_def dsSoftDeleteByParent_def update_where_def split: option.splits)
  then show ?thesis
    using soft_delete_gone [of "smDb s1" uid y "seNow e" i] assms(2,3) by (simp add: DeleteSummaryGroup_def flip: s1_def)
qed

end
