(* ===== verification/Digest_Sync.thy ===== *)
theory Digest_Sync
  imports Digest_Follow Spc_Upload
begin

text \<open>
  What the digests guarantee: the search index follows the items, a request that names an item as a group leaves the
  index behind, and what a device pushes comes back.
\<close>

section \<open>The index follows the items\<close>

text \<open>
  C23. Run any requests of an account from a store without digests (pushes, updates, deletions, groups, tags, deletions
  from the web and turns of the index worker, in any order), under two conditions: the requests on groups name
  groups (a new group takes no identity of an item, an update or deletion of a group is asked for the id of a group, and an
  update takes no identity in use), and no task was dropped from the full queue of the index. Then once the worker
  has worked off its queue the index holds, under the path of every identity, exactly the text of the live item
  with that identity, and nothing where there is none: a deleted digest, or a member of a deleted group, is no longer
  found. The handlers do not check the first condition: a group deletion that is given the id of an item breaks the
  conclusion (\<open>group_delete_leaves_index\<close>).
\<close>

theorem digest_index_follows:
  assumes "no_digests_yet S0" "S = run_digests uid evs S0" "group_requests_named uid evs S0"
    and "smDropped (fst S) = []" "u \<noteq> []" and "(index_work d ^^ length (smTasks (fst S))) S = (s, ix)"
  shows "smDb s = smDb (fst S) \<and> smTasks s = [] \<and>
    (\<forall>x \<in> set (dsRows (smDb s)). live_item u x \<longrightarrow> indexed (fst ix) u = item_view x) \<and>
    ((\<forall>x \<in> set (dsRows (smDb s)). \<not> live_item u x) \<longrightarrow> indexed (fst ix) u = None)"
proof -
  have s: "s = (fst S)\<lparr>smTasks := []\<rparr>" "ix = fold (processTask d) (smTasks (fst S)) (snd S)"
    using assms(6) by (simp_all add: index_work_drains)
  have "digest_session uid S" using run_digests_session [OF no_digests_yet_session [OF assms(1)] assms(3)] assms(2) by simp
  then have "tracks (set (dsRows (smDb (fst S)))) (pending (fst S) (indexed (fst (snd S))))"
    by (rule follows_tracks [OF session_follows assms(4)])
  moreover have "pending (fst S) (indexed (fst (snd S))) = indexed (fst ix)" by (simp add: s pending_def drain_view)
  ultimately show ?thesis using assms(5) by (simp add: s tracks_def)
qed

section \<open>An item deleted as a group\<close>

text \<open>
  A deletion of a group is not limited to groups, and only the members leave the index: asked to delete the id of an
  item, it deletes the item and leaves its text in the search index and in the reach of the chat, even after the
  worker has caught up.
\<close>

theorem group_delete_leaves_index:
  assumes "digest_session uid S" "smDropped (fst S) = []" "dsGetByID uid i (smDb (fst S)) = Some x" "\<not> dgGroup x" "dgUID x \<noteq> []"
    and "\<forall>y \<in> set (dsRows (smDb (fst S))). \<not> dgGroup y \<and> \<not> dgDeleted y \<longrightarrow> dgParent y \<noteq> dgUID x"
    and "digest_step uid e (Delete_Group i) S = S'" "(index_work d ^^ length (smTasks (fst S'))) S' = (s, ix)"
  shows "(\<forall>y \<in> set (dsRows (smDb s)). dgID y = i \<longrightarrow> dgDeleted y) \<and> indexed (fst ix) (dgUID x) = item_view x"
proof -
  have f: "follows uid (indexed (fst (snd S))) (fst S)" by (rule session_follows [OF assms(1)])
  have S': "S' = (DeleteSummaryGroup e uid i (fst S), snd S)" using assms(7) by (simp add: digest_step_def)
  note quiet = group_delete_quiet [OF assms(6,3) refl assms(5), of e]
  have s: "s = (fst S')\<lparr>smTasks := []\<rparr>" "ix = fold (processTask d) (smTasks (fst S)) (snd S)"
    using assms(8) [unfolded index_work_drains] quiet by (simp_all add: S')
  have "\<forall>y \<in> set (dsRows (smDb s)). dgID y = i \<longrightarrow> dgDeleted y"
    using group_delete_gone [OF follows_account [OF f], of _ e i] by (auto simp: s S')
  moreover have "indexed (fst ix) (dgUID x) = pending (fst S) (indexed (fst (snd S))) (dgUID x)" by (simp add: s pending_def drain_view)
  moreover have "x \<in> set (dsRows (smDb (fst S)))" "live_item (dgUID x) x"
    using dsGetByID_Some [OF assms(3)] assms(4) by (auto simp: live_row_def live_item_def)
  ultimately show ?thesis using follows_tracks [OF f assms(2)] assms(5) by (auto simp: tracks_def)
qed

section \<open>What a device pushes\<close>

lemma singleton_list: "distinct xs \<Longrightarrow> set xs = {x} \<Longrightarrow> xs = [x]"
  by (cases xs) (auto simp: insert_eq_iff subset_singleton_iff split: if_splits)

lemma dsListByIDs_one:
  assumes "db_ok db" "x \<in> set (dsRows db)" "live_row u i x"
  shows "dsListByIDs u [i] db = [x]"
proof -
  have eq: "dsListByIDs u [i] db = filter (live_row u i) (dsRows db)"
    by (auto simp: dsListByIDs_def live_row_def intro: filter_cong)
  have "set (filter (live_row u i) (dsRows db)) = {x}" using live_row_only [OF assms] assms(2) by auto
  moreover have "distinct (filter (live_row u i) (dsRows db))" using db_ok_ids [OF assms(1)] by (simp add: distinct_map)
  ultimately show ?thesis unfolding eq by (intro singleton_list)
qed

lemma find_last: "find P xs = None \<Longrightarrow> P x \<Longrightarrow> find P (xs @ [x]) = Some x"
  by (induction xs) (auto split: if_splits)

lemma index_smDb [simp]: "smDb (index d s) = smDb s"
  by (simp add: index_def)

definition pushed :: "int \<Rightarrow> int \<Rightarrow> int \<Rightarrow> string \<Rightarrow> add_summary \<Rightarrow> digest" where
  "pushed now uid i u rq = (applyAddToDigest rq u (empty_digest\<lparr>dgUserID := uid\<rparr>))\<lparr>dgID := i, dgCreatedAt := now, dgUpdatedAt := now\<rparr>"

lemma first_push:
  assumes "follows uid m s" "effective_uid e rq \<noteq> []" "dsGetByUID uid (effective_uid e rq) (smDb s) = None"
  defines "d \<equiv> pushed (seNow e) uid (dsNext (smDb s)) (effective_uid e rq) rq"
  obtains s1 where "AddSummary e uid rq s = (Inr (dsNext (smDb s)), s1)" "dsRows (smDb s1) = dsRows (smDb s) @ [d]"
    "dsGetByUID uid (effective_uid e rq) (smDb s1) = Some d" "follows uid m s1"
proof -
  let ?s = "promoteMark e (asHandInner rq) (asHandMD5 rq) s"
  obtain d' db where c: "dsCreate (seNow e) (applyAddToDigest rq (effective_uid e rq) (empty_digest\<lparr>dgUserID := uid\<rparr>)) (smDb ?s) = (d', db)"
    by (cases "dsCreate (seNow e) (applyAddToDigest rq (effective_uid e rq) (empty_digest\<lparr>dgUserID := uid\<rparr>)) (smDb ?s)")
  then have d': "d' = d" by (auto simp: dsCreate_def Let_def d_def pushed_def applyAddToDigest_def empty_digest_def)
  note rows = dsCreate_rows [OF c]
  have add: "AddSummary e uid rq s = (Inr (dsNext (smDb s)), index d (with_db db ?s))"
    using c assms(2,3) rows by (simp add: AddSummary_def Let_def d')
  have d: "dgUID d = effective_uid e rq" "dgUserID d = uid" "\<not> dgDeleted d" by (simp_all add: d_def pushed_def applyAddToDigest_def empty_digest_def)
  show ?thesis
  proof (rule that [OF add])
    show r: "dsRows (smDb (index d (with_db db ?s))) = dsRows (smDb s) @ [d]" using rows by (simp add: d')
    show "dsGetByUID uid (effective_uid e rq) (smDb (index d (with_db db ?s))) = Some d"
      unfolding dsGetByUID_def r using assms(3) d by (intro find_last) (simp_all add: dsGetByUID_def)
    show "follows uid m (index d (with_db db ?s))" using follows_AddSummary [OF assms(1), of e rq] by (simp add: add)
  qed
qed

lemma second_push:
  assumes "follows uid m s" "effective_uid e rq \<noteq> []" "dsGetByUID uid (effective_uid e rq) (smDb s) = Some x"
  defines "d \<equiv> digest_columns (seNow e) (applyAddToDigest rq (effective_uid e rq) x) x"
  obtains s1 where "AddSummary e uid rq s = (Inr (dgID x), s1)" "length (dsRows (smDb s1)) = length (dsRows (smDb s))"
    "d \<in> set (dsRows (smDb s1))" "follows uid m s1"
proof -
  let ?s = "promoteMark e (asHandInner rq) (asHandMD5 rq) s" and ?y = "applyAddToDigest rq (effective_uid e rq) x"
  have x: "x \<in> set (dsRows (smDb s))" "dgUserID x = uid" "\<not> dgDeleted x" using dsGetByUID_Some [OF assms(3)] by simp_all
  then have "live_row (dgUserID ?y) (dgID ?y) x" by (simp add: live_row_def applyAddToDigest_def)
  then obtain db' where u: "dsUpdate (seNow e) ?y (smDb s) = Some db'" "set (dsRows db') = insert d (set (dsRows (smDb s)) - {x})"
    unfolding d_def using dsUpdate_row [OF accountD(1) [OF follows_account [OF assms(1)]] x(1)] by metis
  have add: "AddSummary e uid rq s = (Inr (dgID x), index ?y (with_db db' ?s))"
    using u(1) assms(2,3) by (simp add: AddSummary_def Let_def) (simp add: applyAddToDigest_def)
  show ?thesis
  proof (rule that [OF add])
    show "length (dsRows (smDb (index ?y (with_db db' ?s)))) = length (dsRows (smDb s))"
      using u(1) by (auto simp: dsUpdate_def update_where_def split: if_splits)
    show "d \<in> set (dsRows (smDb (index ?y (with_db db' ?s))))" by (simp add: u(2))
    show "follows uid m (index ?y (with_db db' ?s))" using follows_AddSummary [OF assms(1), of e rq] by (simp add: add)
  qed
qed

text \<open>
  C24. In a session whose group requests name groups (as in the property above), a digest pushed under a new identity is stored and served back by its id with every field of the request. Pushed
  again under that identity, in whatever environment, it keeps its id, no second row appears, and what is served is
  the second request, except that the file id and the creation time stay those of the first push.
\<close>

theorem digest_push_roundtrip:
  assumes "digest_session uid (s, ix)" "effective_uid e rq = u" "u \<noteq> []" "dsGetByUID uid u (smDb s) = None" "effective_uid e2 rq2 = u"
  shows "\<exists>s1 s2. AddSummary e uid rq s = (Inr (dsNext (smDb s)), s1) \<and>
     QuerySummaryByID uid [dsNext (smDb s)] s1 = [pushed (seNow e) uid (dsNext (smDb s)) u rq] \<and>
     AddSummary e2 uid rq2 s1 = (Inr (dsNext (smDb s)), s2) \<and>
     QuerySummaryByID uid [dsNext (smDb s)] s2 =
       [(pushed (seNow e) uid (dsNext (smDb s)) u rq2)\<lparr>dgFileID := asFileID rq, dgCreation := asCreation rq, dgUpdatedAt := seNow e2\<rparr>] \<and>
     length (dsRows (smDb s2)) = Suc (length (dsRows (smDb s)))"
proof -
  have f: "follows uid (indexed (fst ix)) s" using session_follows [OF assms(1)] by simp
  define d where "d = pushed (seNow e) uid (dsNext (smDb s)) u rq"
  obtain s1 where s1: "AddSummary e uid rq s = (Inr (dsNext (smDb s)), s1)" "dsRows (smDb s1) = dsRows (smDb s) @ [d]"
    "dsGetByUID uid u (smDb s1) = Some d" "follows uid (indexed (fst ix)) s1"
    by (rule first_push [OF f, of e rq]) (use assms(2-4) in \<open>simp_all add: d_def\<close>)
  have d: "dgID d = dsNext (smDb s)" "live_row uid (dsNext (smDb s)) d" by (simp_all add: d_def pushed_def live_row_def applyAddToDigest_def empty_digest_def)
  define d2 where "d2 = digest_columns (seNow e2) (applyAddToDigest rq2 u d) d"
  obtain s2 where s2: "AddSummary e2 uid rq2 s1 = (Inr (dgID d), s2)" "length (dsRows (smDb s2)) = length (dsRows (smDb s1))"
    "d2 \<in> set (dsRows (smDb s2))" "follows uid (indexed (fst ix)) s2"
    by (rule second_push [OF s1(4), of e2 rq2 d]) (use assms(3,5) s1(3) in \<open>simp_all add: d2_def\<close>)
  have d2: "d2 = (pushed (seNow e) uid (dsNext (smDb s)) u rq2)\<lparr>dgFileID := asFileID rq, dgCreation := asCreation rq, dgUpdatedAt := seNow e2\<rparr>"
    by (simp add: d2_def d_def pushed_def digest_columns_def applyAddToDigest_def empty_digest_def)
  have "live_row uid (dsNext (smDb s)) d2" using d(2) by (simp add: d2_def live_row_def)
  then have "dsListByIDs uid [dsNext (smDb s)] (smDb s2) = [d2]"
    by (rule dsListByIDs_one [OF accountD(1) [OF follows_account [OF s2(4)]] s2(3)])
  moreover have "dsListByIDs uid [dsNext (smDb s)] (smDb s1) = [d]"
    by (rule dsListByIDs_one [OF accountD(1) [OF follows_account [OF s1(4)]] _ d(2)]) (simp add: s1(2))
  ultimately show ?thesis using s1(1,2) s2(1,2) d(1) by (intro exI [of _ s1] exI [of _ s2]) (simp add: QuerySummaryByID_def d_def d2)
qed

section \<open>Witnesses\<close>

definition summary_demo :: "int \<Rightarrow> summary_env" where
  "summary_demo t = \<lparr>seTransfer = transfer_demo t, seDecode = (\<lambda>_. Some [(''unique_identifier'', Meta_String ''u1''), (''source_size'', Meta_Number ''18992668'')])\<rparr>"

definition item_demo :: "int \<Rightarrow> string \<Rightarrow> add_summary" where
  "item_demo fileID content = \<lparr>asUID = [], asFileID = fileID, asParent = [], asContent = content, asDataSource = [], asSourcePath = ''/N/A/x.note'',
     asSourceType = 2, asTags = ''art'', asMD5 = ''aa'', asMetadata = ''{..}'', asComment = [], asHandName = [], asHandInner = [],
     asHandMD5 = [], asCreation = 10, asModified = 20, asAuthor = []\<rparr>"

definition digests_demo :: digest_system where
  "digests_demo = (\<lparr>smSpc = spc_demo, smDb = empty_digests, smTasks = [], smDropped = []\<rparr>, ([], \<lparr>note_embeddings = [], cache = []\<rparr>))"

definition item_demo_added :: digest_system where
  "item_demo_added = digest_step 7 (summary_demo 1) (Add_Item (item_demo 5 ''hello'')) digests_demo"

definition work_demo :: digest_deps where
  "work_demo = \<lparr>ddEmbedder = None, ddModel = [], ddNow = 3\<rparr>"

lemma digests_demo_session: "digest_session 7 digests_demo"
  unfolding digests_demo_def by (rule digest_session.start) (simp add: no_digests_indexed_def)

lemma item_demo_session: "digest_session 7 item_demo_added"
  unfolding item_demo_added_def by (rule digest_session.next_event [OF digests_demo_session]) (simp add: names_group_def)

lemma item_demo_values:
  "smDropped (fst item_demo_added) = []" "length (smTasks (fst item_demo_added)) = 1"
  "map (\<lambda>x. (dgID x, dgUID x, dgContent x, dgGroup x, dgDeleted x, dgParent x, dgUserID x)) (dsRows (smDb (fst item_demo_added))) =
     [(1, ''u1'', ''hello'', False, False, [], 7)]"
  "map item_view (dsRows (smDb (fst item_demo_added))) = [Some ([], ''hello'', ''art'', ''digest'')]"
  by code_simp+

theorem digest_index_follows_witness:
  "indexed (fst (snd (index_work work_demo item_demo_added))) ''u1'' = Some ([], ''hello'', ''art'', ''digest'')"
proof -
  obtain s ix where w: "(index_work work_demo ^^ length (smTasks (fst item_demo_added))) item_demo_added = (s, ix)"
    by (cases "(index_work work_demo ^^ length (smTasks (fst item_demo_added))) item_demo_added")
  obtain x where x: "dsRows (smDb (fst item_demo_added)) = [x]" "dgUID x = ''u1''" "\<not> dgGroup x" "\<not> dgDeleted x" "item_view x = Some ([], ''hello'', ''art'', ''digest'')"
    using item_demo_values(3,4) by (auto simp: map_eq_Cons_conv)
  have u: "''u1'' \<noteq> []" by simp
  have "no_digests_yet digests_demo" by (simp add: no_digests_yet_def digests_demo_def no_digests_indexed_def)
  moreover have "item_demo_added = run_digests 7 [(summary_demo 1, Add_Item (item_demo 5 ''hello''))] digests_demo"
    by (simp add: item_demo_added_def)
  moreover have "group_requests_named 7 [(summary_demo 1, Add_Item (item_demo 5 ''hello''))] digests_demo" by (simp add: names_group_def)
  ultimately have f: "smDb s = smDb (fst item_demo_added) \<and> smTasks s = [] \<and>
      (\<forall>x \<in> set (dsRows (smDb s)). live_item ''u1'' x \<longrightarrow> indexed (fst ix) ''u1'' = item_view x) \<and>
      ((\<forall>x \<in> set (dsRows (smDb s)). \<not> live_item ''u1'' x) \<longrightarrow> indexed (fst ix) ''u1'' = None)"
    by (rule digest_index_follows [OF _ _ _ item_demo_values(1) u w])
  then have "indexed (fst ix) ''u1'' = item_view x" using x by (simp add: live_item_def)
  then show ?thesis using w x(5) by (simp add: item_demo_values(2))
qed

theorem group_delete_leaves_index_witness:
  "indexed (fst (snd (index_work work_demo (digest_step 7 (summary_demo 2) (Delete_Group 1) item_demo_added)))) ''u1'' =
     Some ([], ''hello'', ''art'', ''digest'')"
proof -
  let ?S = "digest_step 7 (summary_demo 2) (Delete_Group 1) item_demo_added"
  obtain s ix where w: "(index_work work_demo ^^ length (smTasks (fst ?S))) ?S = (s, ix)"
    by (cases "(index_work work_demo ^^ length (smTasks (fst ?S))) ?S")
  obtain x where x: "dsRows (smDb (fst item_demo_added)) = [x]" "dgUID x = ''u1''" "\<not> dgGroup x" "\<not> dgDeleted x" "dgID x = 1" "dgParent x = []"
    "dgUserID x = 7" "item_view x = Some ([], ''hello'', ''art'', ''digest'')"
    using item_demo_values(3,4) by (auto simp: map_eq_Cons_conv)
  have g: "dsGetByID 7 1 (smDb (fst item_demo_added)) = Some x" using x by (simp add: dsGetByID_def live_row_def)
  have u: "dgUID x \<noteq> []" "\<forall>y \<in> set (dsRows (smDb (fst item_demo_added))). \<not> dgGroup y \<and> \<not> dgDeleted y \<longrightarrow> dgParent y \<noteq> dgUID x"
    using x by simp_all
  have "length (smTasks (fst ?S)) = 1" by code_simp
  then show ?thesis
    using group_delete_leaves_index [OF item_demo_session item_demo_values(1) g x(3) u refl w] w x(2,8) by simp
qed

theorem digest_push_roundtrip_witness:
  "QuerySummaryByID 7 [1] (snd (AddSummary (summary_demo 2) 7 (item_demo 9 ''bye'') (snd (AddSummary (summary_demo 1) 7 (item_demo 5 ''hello'') (fst digests_demo))))) =
     [(pushed 1 7 1 ''u1'' (item_demo 9 ''bye''))\<lparr>dgFileID := 5, dgUpdatedAt := 2\<rparr>]"
proof -
  have v: "dsNext (smDb (fst digests_demo)) = 1" "seNow (summary_demo 1) = 1" "seNow (summary_demo 2) = 2" "asFileID (item_demo 5 ''hello'') = 5"
    "(pushed 1 7 1 ''u1'' (item_demo 9 ''bye''))\<lparr>dgFileID := 5, dgCreation := asCreation (item_demo 5 ''hello''), dgUpdatedAt := 2\<rparr> =
       (pushed 1 7 1 ''u1'' (item_demo 9 ''bye''))\<lparr>dgFileID := 5, dgUpdatedAt := 2\<rparr>"
    by (simp_all add: digests_demo_def empty_digests_def summary_demo_def transfer_demo_def item_demo_def pushed_def applyAddToDigest_def)
  have h: "digest_session 7 (fst digests_demo, snd digests_demo)" "effective_uid (summary_demo 1) (item_demo 5 ''hello'') = ''u1''" "''u1'' \<noteq> []"
    "dsGetByUID 7 ''u1'' (smDb (fst digests_demo)) = None" "effective_uid (summary_demo 2) (item_demo 9 ''bye'') = ''u1''"
    by (simp only: prod.collapse digests_demo_session, simp_all add: effective_uid_def item_demo_def metadataUID_def parseMetadataMap_def summary_demo_def digests_demo_def
        empty_digests_def dsGetByUID_def)
  show ?thesis using digest_push_roundtrip [OF h] unfolding v by auto
qed

end
