(* ===== verification/Spc_Push.thy ===== *)
theory Spc_Push
  imports Spc_Summary
begin

text \<open>
  What the private cloud pushes to the device: the Engine.IO and Socket.IO frames of \<open>internal/spcserver/socketio\<close>, the
  registry of live connections, the notifiers of \<open>internal/spcserver/notify\<close>, and the durable queue of deletion notices
  (\<open>internal/spcserver/digesttomb\<close>) that a heartbeat of the device drains. Reading the JSON of an incoming event is a
  parameter; the strings that are written are ASCII.
\<close>

section \<open>Frames\<close>

definition json_escape :: "char \<Rightarrow> string" where
  "json_escape c =
     (let n = of_char c :: nat in
      if c = CHR 0x22 \<or> c = CHR 0x5C then [CHR 0x5C, c]
      else if n = 8 then [CHR 0x5C, CHR ''b'']
      else if n = 12 then [CHR 0x5C, CHR ''f'']
      else if n = 10 then [CHR 0x5C, CHR ''n'']
      else if n = 13 then [CHR 0x5C, CHR ''r'']
      else if n = 9 then [CHR 0x5C, CHR ''t'']
      else if n < 32 \<or> c = CHR ''<'' \<or> c = CHR ''>'' \<or> c = CHR ''&'' then CHR 0x5C # ''u00'' @ hexEncode [c]
      else [c])"

definition json_quote :: "string \<Rightarrow> string" where
  "json_quote s = CHR 0x22 # concat (map json_escape s) @ [CHR 0x22]"

text \<open>An object of the fields given, each value already encoded.\<close>

definition json_object :: "(string \<times> string) list \<Rightarrow> string" where
  "json_object kvs = ''{'' @ join_with '','' (map (\<lambda>(k, v). json_quote k @ '':'' @ v) kvs) @ ''}''"

definition EncodeOpen :: "string \<Rightarrow> string" where
  "EncodeOpen sid = ''0'' @ json_object [(''sid'', json_quote sid), (''upgrades'', ''[]''), (''pingInterval'', ''5000''), (''pingTimeout'', ''25000'')]"

definition EncodeEvent :: "string \<Rightarrow> string option \<Rightarrow> string" where
  "EncodeEvent event payload =
     ''42['' @ join_with '','' (json_quote event # (case payload of None \<Rightarrow> [] | Some p \<Rightarrow> [json_quote p])) @ '']''"

datatype kind = KindUnknown | KindPing | KindPong | KindOpen | KindConnect | KindEvent | KindMessage

text \<open>The decoder of a JSON array into its raw elements, and of a raw element into a string (the empty one when it is none).\<close>

record event_decoder =
  edArray :: "string \<Rightarrow> string list option"
  edString :: "string \<Rightarrow> string"

definition parseEvent :: "event_decoder \<Rightarrow> string \<Rightarrow> string \<times> string option" where
  "parseEvent d arr =
     (case edArray d arr of
        None \<Rightarrow> ([], None)
      | Some [] \<Rightarrow> ([], None)
      | Some (p # ps) \<Rightarrow> (edString d p, case ps of [] \<Rightarrow> None | q # _ \<Rightarrow> Some q))"

definition ClassifyFrame :: "event_decoder \<Rightarrow> string \<Rightarrow> kind \<times> string \<times> string option" where
  "ClassifyFrame d frame =
     (if frame = [] then (KindUnknown, [], None)
      else if frame = ''2'' then (KindPing, [], None)
      else if frame = ''3'' then (KindPong, [], None)
      else if hd frame = CHR ''0'' then (KindOpen, [], None)
      else if HasPrefix frame ''42'' then (KindEvent, parseEvent d (drop 2 frame))
      else if HasPrefix frame ''40'' then (KindConnect, [], None)
      else if hd frame = CHR ''4'' then (KindMessage, [], None)
      else (KindUnknown, [], None))"

section \<open>Connections\<close>

text \<open>Connections are numbered; a user with none has no entry. \<open>Emit\<close> gives the frame each live connection gets.\<close>

type_synonym conn_registry = "(string \<times> nat list) list"

definition conns_of :: "string \<Rightarrow> conn_registry \<Rightarrow> nat list" where
  "conns_of user r = (case map_of r user of None \<Rightarrow> [] | Some cs \<Rightarrow> cs)"

definition AddConn :: "string \<Rightarrow> nat \<Rightarrow> conn_registry \<Rightarrow> conn_registry" where
  "AddConn user c r = upsert user (List.insert c (conns_of user r)) r"

definition RemoveConn :: "string \<Rightarrow> nat \<Rightarrow> conn_registry \<Rightarrow> conn_registry" where
  "RemoveConn user c r =
     (case map_of r user of
        None \<Rightarrow> r
      | Some cs \<Rightarrow> (let cs' = removeAll c cs in if cs' = [] then filter (\<lambda>(u, _). u \<noteq> user) r else upsert user cs' r))"

definition Emit :: "string \<Rightarrow> string \<Rightarrow> string \<Rightarrow> conn_registry \<Rightarrow> (nat \<times> string) list" where
  "Emit user event payload r = map (\<lambda>c. (c, EncodeEvent event (Some payload))) (conns_of user r)"

definition startsync :: "int \<Rightarrow> string \<Rightarrow> string" where
  "startsync now msgType =
     json_object [(''code'', json_quote ''200''), (''timestamp'', FormatInt now), (''msgType'', json_quote msgType),
       (''data'', ''['' @ json_object [(''messageType'', json_quote ''STARTSYNC''), (''equipmentNo'', json_quote ''ultrabridge''),
          (''timestamp'', FormatInt now)] @ '']'')]"

text \<open>A user that cannot be resolved is none; nobody is told then, and nobody who is offline.\<close>

definition Notify :: "int \<Rightarrow> string option \<Rightarrow> conn_registry \<Rightarrow> (nat \<times> string) list" where
  "Notify now user r = (case user of None \<Rightarrow> [] | Some u \<Rightarrow> if u = [] then [] else Emit u ''to-do'' (startsync now ''TASK-SYN'') r)"

definition NotifyFile :: "int \<Rightarrow> string option \<Rightarrow> conn_registry \<Rightarrow> (nat \<times> string) list" where
  "NotifyFile now user r = (case user of None \<Rightarrow> [] | Some u \<Rightarrow> if u = [] then [] else Emit u ''ServerMessage'' (startsync now ''FILE-SYN'') r)"

section \<open>Deletion notices\<close>

record tombstone =
  tbUser :: int
  tbDigest :: int
  tbType :: string
  tbCreated :: int
  tbSent :: int

definition tombEnqueue :: "int \<Rightarrow> int \<Rightarrow> int \<Rightarrow> string \<Rightarrow> tombstone list \<Rightarrow> tombstone list" where
  "tombEnqueue now user digest dataType rows =
     (if list_ex (\<lambda>r. tbUser r = user \<and> tbDigest r = digest) rows then rows
      else rows @ [\<lparr>tbUser = user, tbDigest = digest, tbType = dataType, tbCreated = now, tbSent = 0\<rparr>])"

text \<open>\<open>Pending\<close> is two statements: it reads the notices of a user, then, if there are any, marks the unsent ones as sent.\<close>

definition select_pending :: "int \<Rightarrow> tombstone list \<Rightarrow> (int \<times> string) list" where
  "select_pending user rows =
     map (\<lambda>r. (tbDigest r, tbType r)) (sort_key (\<lambda>r. (tbCreated r, tbDigest r)) (filter (\<lambda>r. tbUser r = user) rows))"

definition mark_sent :: "int \<Rightarrow> int \<Rightarrow> tombstone list \<Rightarrow> tombstone list" where
  "mark_sent now user = map (\<lambda>r. if tbUser r = user \<and> tbSent r = 0 then r\<lparr>tbSent := now\<rparr> else r)"

definition tombPending :: "int \<Rightarrow> int \<Rightarrow> tombstone list \<Rightarrow> (int \<times> string) list \<times> tombstone list" where
  "tombPending now user rows = (let out = select_pending user rows in (out, if out = [] then rows else mark_sent now user rows))"

definition tombAck :: "int \<Rightarrow> tombstone list \<Rightarrow> tombstone list" where
  "tombAck user = filter (\<lambda>r. \<not> (tbUser r = user \<and> tbSent r > 0))"

definition tombSweep :: "int \<Rightarrow> tombstone list \<Rightarrow> tombstone list" where
  "tombSweep before = filter (\<lambda>r. \<not> tbCreated r < before)"

definition delete_entry :: "int \<Rightarrow> int \<times> string \<Rightarrow> string" where
  "delete_entry now x =
     json_object [(''messageType'', json_quote ''DELETE_DIGEST''), (''dataType'', json_quote (snd x)), (''equipmentNo'', json_quote ''ultrabridge''),
       (''timestamp'', FormatInt now), (''id'', FormatInt (fst x))]"

definition digest_payload :: "int \<Rightarrow> (int \<times> string) list \<Rightarrow> string" where
  "digest_payload now out =
     json_object [(''code'', json_quote ''200''), (''timestamp'', FormatInt now), (''msgType'', json_quote ''DIGEST-SYN''),
       (''data'', ''['' @ join_with '','' (map (delete_entry now) out) @ '']'')]"

text \<open>A user id that is no number has no notices.\<close>

definition DrainDigest :: "int \<Rightarrow> string \<Rightarrow> tombstone list \<Rightarrow> string option \<times> tombstone list" where
  "DrainDigest now user rows =
     (case ParseInt user of
        None \<Rightarrow> (None, rows)
      | Some uid \<Rightarrow> (let (out, rows') = tombPending now uid rows in (if out = [] then None else Some (digest_payload now out), rows')))"

definition AckDigest :: "string \<Rightarrow> tombstone list \<Rightarrow> tombstone list" where
  "AckDigest user rows = (case ParseInt user of None \<Rightarrow> rows | Some uid \<Rightarrow> tombAck uid rows)"

text \<open>The web's deletion with its notice for the device.\<close>

definition DeleteDigestNotified :: "summary_env \<Rightarrow> int \<Rightarrow> summary \<Rightarrow> tombstone list \<Rightarrow> (summary \<times> tombstone list) option" where
  "DeleteDigestNotified e i s rows =
     map_option (\<lambda>((user, digest, dataType), s'). (s', tombEnqueue (seNow e) user digest dataType rows)) (DeleteDigest e i s)"

section \<open>A frame from the device\<close>

text \<open>What one frame makes the server write, without interference. Writes may fail, \<open>ok\<close> says whether the digest frame goes through.\<close>

definition on_frame :: "event_decoder \<Rightarrow> int \<Rightarrow> bool \<Rightarrow> string \<Rightarrow> string \<Rightarrow> tombstone list \<Rightarrow> string list \<times> tombstone list" where
  "on_frame d now ok user msg rows =
     (case ClassifyFrame d msg of
        (KindPing, _) \<Rightarrow> ([''3''], rows)
      | (KindConnect, _) \<Rightarrow> ([''40''], rows)
      | (KindEvent, event, _) \<Rightarrow>
          if event = ''ratta_ping'' then
            let (p, rows1) = DrainDigest now user rows; received = EncodeEvent ''ratta_ping'' (Some ''Received'')
            in (case p of
                  None \<Rightarrow> ([received], rows1)
                | Some payload \<Rightarrow>
                    if ok then ([received, EncodeEvent ''digest'' (Some payload)], AckDigest user rows1) else ([received], rows1))
          else ([], rows)
      | _ \<Rightarrow> ([], rows))"

lemma conns_AddConn: "set (conns_of u (AddConn v c r)) = (if u = v then insert c (set (conns_of u r)) else set (conns_of u r))"
  by (cases "map_of r v") (auto simp: conns_of_def AddConn_def)

lemma conn_filter_key: "map_of (filter (\<lambda>(k, _). k \<noteq> a) r) b = (if b = a then None else map_of r b)"
  by (induction r) auto

lemma conns_RemoveConn: "set (conns_of u (RemoveConn v c r)) = (if u = v then set (conns_of u r) - {c} else set (conns_of u r))"
  by (auto simp: conns_of_def RemoveConn_def Let_def conn_filter_key removeAll_filter_not_eq filter_empty_conv split: option.splits)

end
