(* ===== verification/Spc_Push_Laws.thy ===== *)
theory Spc_Push_Laws
  imports Spc_Push
begin

text \<open>
  The delivery of deletion notices to a device, statement by statement: the handler of a heartbeat reads the notices,
  marks them, writes the frame and clears what is marked, and the web may ask for a deletion in between.
\<close>

section \<open>Steps\<close>

datatype phase = Idle | Selected "(int \<times> string) list" | Marked "(int \<times> string) list" | Written "(int \<times> string) list"

text \<open>One device user and its one connection: the table, where the handler stands, the notices written to the wire, and, as a
  record of what happened, the digests whose deletion was asked for and those swept.\<close>

record push =
  psRows :: "tombstone list"
  psPhase :: phase
  psWire :: "(int \<times> string) list"
  psAsked :: "int list"
  psSwept :: "int list"

datatype push_event =
    Ask int int int string
  | Ping_Select
  | Ping_Mark int
  | Ping_Write bool
  | Ping_Ack
  | Sweep_Old int

definition rows_of :: "int \<Rightarrow> tombstone list \<Rightarrow> int list" where
  "rows_of uid rows = map tbDigest (filter (\<lambda>r. tbUser r = uid) rows)"

primrec push_step :: "int \<Rightarrow> push_event \<Rightarrow> push \<Rightarrow> push" where
  "push_step uid (Ask now user d ty) P =
     P\<lparr>psRows := tombEnqueue now user d ty (psRows P), psAsked := (if user = uid then d # psAsked P else psAsked P)\<rparr>"
| "push_step uid Ping_Select P =
     (if psPhase P = Idle
      then let out = select_pending uid (psRows P) in if out = [] then P else P\<lparr>psPhase := Selected out\<rparr>
      else P)"
| "push_step uid (Ping_Mark now) P =
     (case psPhase P of Selected out \<Rightarrow> P\<lparr>psRows := mark_sent now uid (psRows P), psPhase := Marked out\<rparr> | _ \<Rightarrow> P)"
| "push_step uid (Ping_Write ok) P =
     (case psPhase P of
        Marked out \<Rightarrow> if ok then P\<lparr>psWire := psWire P @ out, psPhase := Written out\<rparr> else P\<lparr>psPhase := Idle\<rparr>
      | _ \<Rightarrow> P)"
| "push_step uid Ping_Ack P = (case psPhase P of Written out \<Rightarrow> P\<lparr>psRows := tombAck uid (psRows P), psPhase := Idle\<rparr> | _ \<Rightarrow> P)"
| "push_step uid (Sweep_Old before) P =
     P\<lparr>psRows := tombSweep before (psRows P), psSwept := rows_of uid (filter (\<lambda>r. tbCreated r < before) (psRows P)) @ psSwept P\<rparr>"

definition heartbeat :: "int \<Rightarrow> int \<Rightarrow> bool \<Rightarrow> push \<Rightarrow> push" where
  "heartbeat uid now ok P = push_step uid Ping_Ack (push_step uid (Ping_Write ok) (push_step uid (Ping_Mark now) (push_step uid Ping_Select P)))"

text \<open>Nobody asks for a deletion for this user between the reading of the notices and their marking.\<close>

definition calm :: "int \<Rightarrow> push_event \<Rightarrow> push \<Rightarrow> bool" where
  "calm uid ev P = (case ev of Ask now user d ty \<Rightarrow> user \<noteq> uid \<or> (case psPhase P of Selected out \<Rightarrow> False | _ \<Rightarrow> True) | _ \<Rightarrow> True)"

inductive push_session :: "int \<Rightarrow> push \<Rightarrow> bool" for uid :: int where
  push_start: "push_session uid \<lparr>psRows = [], psPhase = Idle, psWire = [], psAsked = [], psSwept = []\<rparr>"
| push_next: "push_session uid P \<Longrightarrow> calm uid ev P \<Longrightarrow> push_session uid (push_step uid ev P)"

text \<open>Without interference, the four steps are the handler.\<close>

lemma select_pending_nil: "select_pending uid rows = [] \<longleftrightarrow> rows_of uid rows = []"
  by (simp add: select_pending_def rows_of_def flip: set_empty)

lemma select_pending_ids: "fst ` set (select_pending uid rows) = set (rows_of uid rows)"
  by (force simp: select_pending_def rows_of_def)

lemma heartbeat_on_frame:
  assumes "ParseInt user = Some uid" "ClassifyFrame dec msg = (KindEvent, ''ratta_ping'', p)" "psPhase P = Idle"
  shows "on_frame dec now ok user msg (psRows P) =
     (EncodeEvent ''ratta_ping'' (Some ''Received'') #
        (if select_pending uid (psRows P) = [] \<or> \<not> ok then []
         else [EncodeEvent ''digest'' (Some (digest_payload now (select_pending uid (psRows P))))]),
      psRows (heartbeat uid now ok P))"
  using assms by (simp add: on_frame_def DrainDigest_def AckDigest_def tombPending_def heartbeat_def Let_def)

section \<open>Nothing is lost in a calm session\<close>

definition covered :: "int \<Rightarrow> push \<Rightarrow> bool" where
  "covered uid P \<longleftrightarrow> set (psAsked P) \<subseteq> set (rows_of uid (psRows P)) \<union> fst ` set (psWire P) \<union> set (psSwept P)"

definition sent_rows :: "int \<Rightarrow> tombstone list \<Rightarrow> int set" where
  "sent_rows uid rows = {tbDigest r | r. r \<in> set rows \<and> tbUser r = uid \<and> tbSent r > 0}"

definition in_phase :: "int \<Rightarrow> push \<Rightarrow> bool" where
  "in_phase uid P =
     (case psPhase P of
        Idle \<Rightarrow> True
      | Selected out \<Rightarrow> set (rows_of uid (psRows P)) \<subseteq> fst ` set out
      | Marked out \<Rightarrow> sent_rows uid (psRows P) \<subseteq> fst ` set out
      | Written out \<Rightarrow> sent_rows uid (psRows P) \<subseteq> fst ` set out \<and> set out \<subseteq> set (psWire P))"

lemma rows_of_append: "rows_of uid (rows @ qs) = rows_of uid rows @ rows_of uid qs"
  by (simp add: rows_of_def)

lemma rows_of_one: "rows_of uid [r] = (if tbUser r = uid then [tbDigest r] else [])"
  by (simp add: rows_of_def)

lemma rows_of_Enqueue: "set (rows_of uid (tombEnqueue now user d ty rows)) = set (rows_of uid rows) \<union> (if user = uid then {d} else {})"
proof (cases "list_ex (\<lambda>r. tbUser r = user \<and> tbDigest r = d) rows")
  case True
  then show ?thesis by (auto simp: tombEnqueue_def list_ex_iff rows_of_def)
qed (simp add: tombEnqueue_def rows_of_append rows_of_one)

lemma rows_of_mark [simp]: "rows_of uid (mark_sent now u rows) = rows_of uid rows"
  by (induction rows) (auto simp: rows_of_def mark_sent_def)

lemma rows_of_tombAck_sub: "set (rows_of uid (tombAck uid rows)) \<subseteq> set (rows_of uid rows)"
  by (auto simp: rows_of_def tombAck_def)

lemma rows_of_Ack: "set (rows_of uid rows) \<subseteq> set (rows_of uid (tombAck uid rows)) \<union> sent_rows uid rows"
  by (auto simp: rows_of_def tombAck_def sent_rows_def)

lemma sent_rows_Enqueue: "sent_rows uid (tombEnqueue now user d ty rows) = sent_rows uid rows"
  by (auto simp: sent_rows_def tombEnqueue_def)

lemma sent_rows_sub: "sent_rows uid rows \<subseteq> set (rows_of uid rows)"
  by (auto simp: sent_rows_def rows_of_def)

lemma sweep_rows: "set (rows_of uid (tombSweep b rows)) \<subseteq> set (rows_of uid rows)" "sent_rows uid (tombSweep b rows) \<subseteq> sent_rows uid rows"
  "set (rows_of uid rows) \<subseteq> set (rows_of uid (tombSweep b rows)) \<union> set (rows_of uid (filter (\<lambda>r. tbCreated r < b) rows))"
  by (auto simp: rows_of_def tombSweep_def sent_rows_def)

lemma push_step_inv:
  assumes "covered uid P" "in_phase uid P" "calm uid ev P"
  shows "covered uid (push_step uid ev P) \<and> in_phase uid (push_step uid ev P)"
proof (cases ev)
  case (Ask now user d ty)
  then show ?thesis using assms
    by (auto simp: covered_def in_phase_def calm_def rows_of_Enqueue sent_rows_Enqueue split: phase.splits)
next
  case Ping_Select
  then show ?thesis using assms by (auto simp: covered_def in_phase_def Let_def select_pending_ids)
next
  case (Ping_Mark now)
  then show ?thesis using assms sent_rows_sub [of uid "mark_sent now uid (psRows P)"]
    by (auto simp: covered_def in_phase_def split: phase.splits)
next
  case (Ping_Write ok)
  then show ?thesis using assms by (auto simp: covered_def in_phase_def split: phase.splits)
next
  case Ping_Ack
  show ?thesis
  proof (cases "psPhase P")
    case (Written out)
    then have "sent_rows uid (psRows P) \<subseteq> fst ` set (psWire P)" using assms(2) by (auto simp: in_phase_def)
    then show ?thesis using assms(1) rows_of_Ack [of uid "psRows P"] Written Ping_Ack by (simp add: covered_def in_phase_def) blast
  qed (use assms Ping_Ack in simp_all)
next
  case (Sweep_Old b)
  then show ?thesis using assms sweep_rows [where uid = uid and b = b and rows = "psRows P"]
    by (cases "psPhase P") (simp_all add: covered_def in_phase_def, blast+)
qed

lemma push_session_inv: "push_session uid P \<Longrightarrow> covered uid P \<and> in_phase uid P"
proof (induction rule: push_session.induct)
  case (push_next P ev)
  then show ?case using push_step_inv by blast
qed (simp add: covered_def in_phase_def)

text \<open>
  C25. Deletion notices are delivered: in every session in which no deletion is asked for between the two statements of
  a drain (the device pings, the web deletes, writes fail, notices expire), once a heartbeat's frame goes through,
  every deletion that was ever asked for and not swept has been written to the device.
\<close>

theorem tomb_delivery:
  assumes "push_session uid P" "psPhase P = Idle" "d \<in> set (psAsked P)" "d \<notin> set (psSwept P)"
  shows "d \<in> fst ` set (psWire (heartbeat uid now True P))"
proof -
  have "d \<in> set (rows_of uid (psRows P)) \<union> fst ` set (psWire P)"
    using push_session_inv [OF assms(1)] assms(3,4) by (auto simp: covered_def)
  then show ?thesis
    using assms(2) select_pending_ids [of uid "psRows P"] select_pending_nil [of uid "psRows P"]
    by (auto simp: heartbeat_def Let_def image_Un)
qed

section \<open>The race\<close>

text \<open>
  A deletion asked for between the two statements of a drain is lost: the drain marks its notice as sent without having
  read it, and the acknowledgement that follows the frame removes it, so the device is never told, then or later.
\<close>

theorem tomb_race:
  assumes "psPhase P = Idle" "rows_of uid (psRows P) \<noteq> []" "d \<notin> set (rows_of uid (psRows P))" "d \<notin> fst ` set (psWire P)" "0 < n"
    and "P' = fold (push_step uid) [Ping_Select, Ask now uid d ty, Ping_Mark n, Ping_Write True, Ping_Ack] P"
  shows "d \<in> set (psAsked P') \<and> d \<notin> set (rows_of uid (psRows P')) \<and> d \<notin> fst ` set (psWire P') \<and> psSwept P' = psSwept P"
proof -
  have out: "select_pending uid (psRows P) \<noteq> []" "d \<notin> fst ` set (select_pending uid (psRows P))"
    using assms(2,3) by (simp_all add: select_pending_nil select_pending_ids)
  have new: "tombEnqueue now uid d ty (psRows P) = psRows P @ [\<lparr>tbUser = uid, tbDigest = d, tbType = ty, tbCreated = now, tbSent = 0\<rparr>]"
    using assms(3) by (auto simp: tombEnqueue_def list_ex_iff rows_of_def)
  have "rows_of uid (tombAck uid (mark_sent n uid (tombEnqueue now uid d ty (psRows P)))) = rows_of uid (tombAck uid (mark_sent n uid (psRows P)))"
    using assms(5) by (simp add: new rows_of_def tombAck_def mark_sent_def)
  then have "d \<notin> set (rows_of uid (tombAck uid (mark_sent n uid (tombEnqueue now uid d ty (psRows P)))))"
    using assms(3) rows_of_tombAck_sub [of uid "mark_sent n uid (psRows P)"] by auto
  then show ?thesis using assms(1,4,6) out by (simp add: Let_def image_Un)
qed

section \<open>Witnesses\<close>

definition push_demo :: "push_event list \<Rightarrow> push" where
  "push_demo evs = fold (push_step 7) evs \<lparr>psRows = [], psPhase = Idle, psWire = [], psAsked = [], psSwept = []\<rparr>"

lemma push_demo_session:
  "push_session 7 (push_demo [Ask 1 7 3 ''2'', Ping_Select, Ping_Mark 5, Ping_Write False])"
  unfolding push_demo_def fold.simps comp_apply id_apply
  by (intro push_session.intros) (simp_all add: calm_def tombEnqueue_def select_pending_def mark_sent_def)

theorem tomb_delivery_witness:
  "3 \<in> fst ` set (psWire (heartbeat 7 9 True (push_demo [Ask 1 7 3 ''2'', Ping_Select, Ping_Mark 5, Ping_Write False])))"
proof (rule tomb_delivery [OF push_demo_session])
  let ?P = "push_demo [Ask 1 7 3 ''2'', Ping_Select, Ping_Mark 5, Ping_Write False]"
  show "psPhase ?P = Idle" "3 \<in> set (psAsked ?P)" "3 \<notin> set (psSwept ?P)"
    by (simp_all add: push_demo_def tombEnqueue_def select_pending_def mark_sent_def)
qed

theorem tomb_race_witness:
  "4 \<in> set (psAsked (push_demo [Ask 1 7 3 ''2'', Ping_Select, Ask 2 7 4 ''2'', Ping_Mark 5, Ping_Write True, Ping_Ack])) \<and>
   4 \<notin> set (rows_of 7 (psRows (push_demo [Ask 1 7 3 ''2'', Ping_Select, Ask 2 7 4 ''2'', Ping_Mark 5, Ping_Write True, Ping_Ack])))"
proof -
  let ?P = "push_demo [Ask 1 7 3 ''2'']"
  have P: "psPhase ?P = Idle" "rows_of 7 (psRows ?P) \<noteq> []" "4 \<notin> set (rows_of 7 (psRows ?P))" "4 \<notin> fst ` set (psWire ?P)"
    by (simp_all add: push_demo_def tombEnqueue_def rows_of_def)
  have eq: "push_demo [Ask 1 7 3 ''2'', Ping_Select, Ask 2 7 4 ''2'', Ping_Mark 5, Ping_Write True, Ping_Ack] =
      fold (push_step 7) [Ping_Select, Ask 2 7 4 ''2'', Ping_Mark 5, Ping_Write True, Ping_Ack] ?P"
    by (simp only: push_demo_def fold.simps comp_apply id_apply)
  show ?thesis unfolding eq using tomb_race [OF P zero_less_numeral refl] by blast
qed

end
