(* ===== verification/Spc_Login.thy ===== *)
theory Spc_Login
  imports Spc_Push
begin

text \<open>
  How a device logs in to the private cloud (\<open>internal/spcserver/login\<close>, \<open>auth\<close> and \<open>handlers/login.go\<close>): a one-time
  code per account, a password hashed with it, a signed token, and the middleware that admits a request and puts it
  into the lane of the one user. The digests, the keyed digest of the token, the reading of its claims and the random
  numbers are parameters; failures of the settings table are not modelled.
\<close>

section \<open>State\<close>

record login_env =
  leSecret :: string
  leHMAC :: "string \<Rightarrow> string \<Rightarrow> string"
  leUserClaim :: "string \<Rightarrow> string option"
  leMD5 :: "string \<Rightarrow> string"
  leSHA256 :: "string \<Rightarrow> string"
  leAccount :: string
  lePassword :: string
  leNow :: int
  leExpiry :: int
  leCode :: int
  leUserSeed :: int

text \<open>The codes issued, with the instant of issue, and the stored user id (empty when there is none).\<close>

record login_state =
  lgCodes :: "(string \<times> (string \<times> int)) list"
  lgUser :: string

section \<open>One-time codes\<close>

definition codeTTL :: int where
  "codeTTL = 5 * 60 * 1000"

definition pad6 :: "int \<Rightarrow> string" where
  "pad6 n = map (\<lambda>k. digit_char (nat (n div 10 ^ (5 - k) mod 10))) [0..<6]"

definition code_expired :: "login_env \<Rightarrow> string \<times> int \<Rightarrow> bool" where
  "code_expired e c \<longleftrightarrow> leNow e - snd c > codeTTL"

definition IssueCode :: "login_env \<Rightarrow> string \<Rightarrow> login_state \<Rightarrow> string \<times> login_state" where
  "IssueCode e account s =
     (let code = pad6 (leCode e)
      in (code, s\<lparr>lgCodes := upsert account (code, leNow e) (filter (\<lambda>(_, c). \<not> code_expired e c) (lgCodes s))\<rparr>))"

definition ConsumeCode :: "login_env \<Rightarrow> string \<Rightarrow> login_state \<Rightarrow> string option \<times> login_state" where
  "ConsumeCode e account s =
     (case map_of (lgCodes s) account of
        None \<Rightarrow> (None, s)
      | Some c \<Rightarrow> (if code_expired e c then None else Some (fst c), s\<lparr>lgCodes := filter (\<lambda>(a, _). a \<noteq> account) (lgCodes s)\<rparr>))"

section \<open>Passwords\<close>

definition Md5Hex :: "login_env \<Rightarrow> string \<Rightarrow> string" where
  "Md5Hex e x = hexEncode (leMD5 e x)"

definition Sha256Hex :: "login_env \<Rightarrow> string \<Rightarrow> string" where
  "Sha256Hex e x = hexEncode (leSHA256 e x)"

definition ServicePassword :: "login_env \<Rightarrow> string \<Rightarrow> string" where
  "ServicePassword e raw = Md5Hex e raw"

definition CheckWebPassword :: "login_env \<Rightarrow> string \<Rightarrow> string \<Rightarrow> string \<Rightarrow> bool" where
  "CheckWebPassword e raw code web \<longleftrightarrow> TrimSpace web = Sha256Hex e (ServicePassword e raw @ code)"

section \<open>Tokens\<close>

definition jwtHeader :: string where
  "jwtHeader = json_object [(''typ'', json_quote ''JWT''), (''alg'', json_quote ''HS256'')]"

definition sign_token :: "login_env \<Rightarrow> string \<Rightarrow> string" where
  "sign_token e input = EncryptPath (leHMAC e (leSecret e) input)"

text \<open>The claims in the order of their keys, as \<open>encoding/json\<close> writes a map.\<close>

definition token_claims :: "login_env \<Rightarrow> string \<Rightarrow> string" where
  "token_claims e userID =
     json_object [(''createTime'', FormatInt (leNow e div 1000)), (''exp'', FormatInt (leExpiry e)),
       (''key'', json_quote (userID @ ''_'' @ FormatInt (leNow e div 1000) @ ''_'' @ FormatInt (leNow e))), (''userId'', json_quote userID)]"

definition Mint :: "login_env \<Rightarrow> string \<Rightarrow> string" where
  "Mint e userID =
     (let input = EncryptPath jwtHeader @ ''.'' @ EncryptPath (token_claims e userID) in input @ ''.'' @ sign_token e input)"

text \<open>The expiry is not looked at.\<close>

definition Verify :: "login_env \<Rightarrow> string \<Rightarrow> string option" where
  "Verify e token =
     (case split_on CHR ''.'' token of
        [h, p, g] \<Rightarrow>
          if sign_token e (h @ ''.'' @ p) \<noteq> g then None
          else (case DecryptPath p of
                  None \<Rightarrow> None
                | Some claims \<Rightarrow> (case leUserClaim e claims of None \<Rightarrow> None | Some u \<Rightarrow> if u = [] then None else Some u))
      | _ \<Rightarrow> None)"

section \<open>The user\<close>

definition CanonicalUserID :: "string \<Rightarrow> login_state \<Rightarrow> string \<times> login_state" where
  "CanonicalUserID verified s = (if lgUser s \<noteq> [] then (lgUser s, s) else (verified, s\<lparr>lgUser := verified\<rparr>))"

datatype 'a answer = Refused string | Granted 'a

definition Middleware :: "login_env \<Rightarrow> string \<Rightarrow> login_state \<Rightarrow> string answer \<times> login_state" where
  "Middleware e token s =
     (case Verify e token of
        None \<Rightarrow> (Refused ''E0712'', s)
      | Some u \<Rightarrow> (let (uid, s') = CanonicalUserID u s in (Granted uid, s')))"

text \<open>The account a handler works for: the user id as a number, with the error of the conversion ignored.\<close>

definition userIDInt :: "string \<Rightarrow> int" where
  "userIDInt = parse_lenient"

definition generateUserID :: "login_env \<Rightarrow> string" where
  "generateUserID e = FormatInt (10 ^ 18 + leUserSeed e)"

definition ResolveUserID :: "login_env \<Rightarrow> login_state \<Rightarrow> string \<times> login_state" where
  "ResolveUserID e s = (if lgUser s \<noteq> [] then (lgUser s, s) else (generateUserID e, s\<lparr>lgUser := generateUserID e\<rparr>))"

fun digits_value :: "string \<Rightarrow> int \<Rightarrow> int option" where
  "digits_value [] n = Some n"
| "digits_value (c # cs) n = (case digit_val c of None \<Rightarrow> None | Some d \<Rightarrow> digits_value cs (wrap64 (n * 10 + int d)))"

definition parseUserID :: "string \<Rightarrow> int" where
  "parseUserID s = (case digits_value s 0 of None \<Rightarrow> 0 | Some n \<Rightarrow> n)"

section \<open>Handlers\<close>

definition RandomCode :: "login_env \<Rightarrow> string \<Rightarrow> login_state \<Rightarrow> string \<times> login_state" where
  "RandomCode = IssueCode"

definition CheckExistsServer :: "login_env \<Rightarrow> login_state \<Rightarrow> int \<times> login_state" where
  "CheckExistsServer e s = (let (uid, s') = ResolveUserID e s in (parseUserID uid, s'))"

definition Login :: "login_env \<Rightarrow> string \<Rightarrow> string \<Rightarrow> login_state \<Rightarrow> string answer \<times> login_state" where
  "Login e account password s =
     (if leAccount e \<noteq> [] \<and> account \<noteq> leAccount e then (Refused ''E0711'', s)
      else case ConsumeCode e account s of
             (None, s1) \<Rightarrow> (Refused ''E0562'', s1)
           | (Some code, s1) \<Rightarrow>
               if \<not> CheckWebPassword e (lePassword e) code password then (Refused ''E0711'', s1)
               else let (uid, s2) = ResolveUserID e s1 in (Granted (Mint e uid), s2))"

text \<open>The handshake of the socket: the frames it opens with, the user it serves and its place in the registry.\<close>

definition accept_socket ::
  "login_env \<Rightarrow> string \<Rightarrow> string \<Rightarrow> nat \<Rightarrow> login_state \<times> conn_registry \<Rightarrow> (string list \<times> string) answer \<times> (login_state \<times> conn_registry)" where
  "accept_socket e sid token c st =
     (case Middleware e token (fst st) of
        (Refused err, s) \<Rightarrow> (Refused ''unauthorized'', (s, snd st))
      | (Granted uid, s) \<Rightarrow> (Granted ([EncodeOpen sid, ''40''], uid), (s, AddConn uid c (snd st))))"

section \<open>Tokens verify\<close>

lemma split_dot_plain: "d \<notin> set s \<Longrightarrow> split_on d s = [s]"
  by (induction s) auto

lemma split_on_dot: "d \<notin> set a \<Longrightarrow> split_on d (a @ d # b) = a # split_on d b"
  by (induction a) auto

lemma url_plain_dot: "list_all url_plain s \<Longrightarrow> CHR ''.'' \<notin> set s"
  by (auto simp: list_all_iff url_plain_def)

lemma Mint_parts:
  "split_on CHR ''.'' (Mint e u) =
     [EncryptPath jwtHeader, EncryptPath (token_claims e u),
      sign_token e (EncryptPath jwtHeader @ ''.'' @ EncryptPath (token_claims e u))]"
  using url_plain_dot [OF EncryptPath_plain]
  by (simp add: Mint_def Let_def split_on_dot split_dot_plain sign_token_def)

lemma Verify_Mint:
  assumes "leHMAC e = leHMAC e'" "leSecret e = leSecret e'" "leUserClaim e (token_claims e' u) = Some u" "u \<noteq> []"
  shows "Verify e (Mint e' u) = Some u"
proof -
  have "sign_token e = sign_token e'" using assms(1,2) by (simp add: sign_token_def fun_eq_iff)
  then show ?thesis using assms(3,4) by (simp add: Verify_def Mint_parts)
qed

section \<open>Sessions\<close>

datatype login_event = Get_Code string | Try_Login string string | Check_Server | Request string

definition login_step :: "login_env \<times> login_event \<Rightarrow> login_state \<Rightarrow> login_state" where
  "login_step ev s =
     (case snd ev of
        Get_Code a \<Rightarrow> snd (RandomCode (fst ev) a s)
      | Try_Login a p \<Rightarrow> snd (Login (fst ev) a p s)
      | Check_Server \<Rightarrow> snd (CheckExistsServer (fst ev) s)
      | Request t \<Rightarrow> snd (Middleware (fst ev) t s))"

text \<open>Once there is a user, every admitted request and every login is in that user's lane, for good.\<close>

lemma ConsumeCode_user [simp]: "lgUser (snd (ConsumeCode e a s)) = lgUser s"
  by (simp add: ConsumeCode_def split: option.split)

lemma IssueCode_user [simp]: "lgUser (snd (IssueCode e a s)) = lgUser s"
  by (simp add: IssueCode_def Let_def)

lemma ResolveUserID_keeps: "lgUser s \<noteq> [] \<Longrightarrow> ResolveUserID e s = (lgUser s, s)"
  by (simp add: ResolveUserID_def)

lemma Login_keeps: "lgUser s \<noteq> [] \<Longrightarrow> lgUser (snd (Login e a p s)) = lgUser s"
  using ConsumeCode_user [of e a s] ResolveUserID_keeps [of "snd (ConsumeCode e a s)" e]
  by (cases "ConsumeCode e a s") (simp add: Login_def Let_def case_prod_beta split: option.split)

lemma login_step_user: "lgUser s \<noteq> [] \<Longrightarrow> lgUser (login_step ev s) = lgUser s"
  by (cases "snd ev")
    (simp_all add: login_step_def RandomCode_def Login_keeps CheckExistsServer_def ResolveUserID_keeps Middleware_def CanonicalUserID_def
      split: option.split)

lemma login_run_user: "lgUser s \<noteq> [] \<Longrightarrow> lgUser (fold login_step evs s) = lgUser s"
  by (induction evs arbitrary: s) (simp_all add: login_step_user)

text \<open>A code survives what others do while it is fresh.\<close>

definition spares :: "string \<Rightarrow> int \<Rightarrow> login_env \<times> login_event \<Rightarrow> bool" where
  "spares account t ev \<longleftrightarrow> leNow (fst ev) \<le> t \<and> (case snd ev of Get_Code a \<Rightarrow> a \<noteq> account | Try_Login a p \<Rightarrow> a \<noteq> account | _ \<Rightarrow> True)"

lemma map_of_keep: "map_of xs a = Some c \<Longrightarrow> P a c \<Longrightarrow> map_of (filter (\<lambda>(k, v). P k v) xs) a = Some c"
  by (induction xs) auto

lemma ResolveUserID_codes [simp]: "lgCodes (snd (ResolveUserID e s)) = lgCodes s"
  by (simp add: ResolveUserID_def)

lemma Login_codes: "lgCodes (snd (Login e a p s)) = lgCodes s \<or> lgCodes (snd (Login e a p s)) = lgCodes (snd (ConsumeCode e a s))"
  by (cases "ConsumeCode e a s") (simp add: Login_def Let_def case_prod_beta split: option.split)

lemma ConsumeCode_other: "a \<noteq> account \<Longrightarrow> map_of (lgCodes (snd (ConsumeCode e a s))) account = map_of (lgCodes s) account"
  by (simp add: ConsumeCode_def conn_filter_key split: option.split)

lemma login_step_code:
  assumes "map_of (lgCodes s) account = Some (code, t0)" "spares account t ev" "t - t0 \<le> codeTTL"
  shows "map_of (lgCodes (login_step ev s)) account = Some (code, t0)"
proof (cases "snd ev")
  case (Get_Code a)
  have "map_of (filter (\<lambda>(k, v). (\<lambda>_ c. \<not> code_expired (fst ev) c) k v) (lgCodes s)) account = Some (code, t0)"
    by (rule map_of_keep [OF assms(1)]) (use assms(2,3) in \<open>simp add: code_expired_def spares_def\<close>)
  then show ?thesis using Get_Code assms(2) by (auto simp: login_step_def RandomCode_def IssueCode_def Let_def spares_def)
next
  case (Try_Login a p)
  then have "a \<noteq> account" using assms(2) by (simp add: spares_def)
  then show ?thesis using Try_Login assms(1) Login_codes [of "fst ev" a p s] ConsumeCode_other [of a account "fst ev" s]
    by (auto simp: login_step_def)
next
  case Check_Server
  then show ?thesis using assms(1) by (simp add: login_step_def CheckExistsServer_def ResolveUserID_def Let_def)
next
  case (Request x)
  then show ?thesis using assms(1) by (simp add: login_step_def Middleware_def CanonicalUserID_def Let_def split: option.splits)
qed

lemma login_run_code:
  "map_of (lgCodes s) account = Some (code, t0) \<Longrightarrow> list_all (spares account t) evs \<Longrightarrow> t - t0 \<le> codeTTL \<Longrightarrow>
     map_of (lgCodes (fold login_step evs s)) account = Some (code, t0)"
  by (induction evs arbitrary: s) (auto intro: login_step_code)

section \<open>The handshake\<close>

lemma show_nat_nonempty: "show_nat n \<noteq> []"
  by (subst show_nat.simps) simp

lemma ResolveUserID_user:
  assumes "ResolveUserID e s = (u, s')"
  shows "u \<noteq> []" "lgUser s' = u" "lgCodes s' = lgCodes s" "lgUser s \<noteq> [] \<Longrightarrow> u = lgUser s"
  using assms show_nat_nonempty by (auto simp: ResolveUserID_def generateUserID_def FormatInt_def split: if_splits)

lemma Middleware_user: "Verify e token = Some v \<Longrightarrow> lgUser s = u \<Longrightarrow> u \<noteq> [] \<Longrightarrow> fst (Middleware e token s) = Granted u"
  by (simp add: Middleware_def CanonicalUserID_def)

lemma Login_spent: "map_of (lgCodes s) account = None \<Longrightarrow> \<exists>err. fst (Login e account p s) = Refused err"
  by (simp add: Login_def ConsumeCode_def)

text \<open>
  C26. A device that asks for a code and answers within five minutes with its password hashed with that code, while others get
  codes, log in and send requests, is granted a token. Every later request with the token is admitted, in the lane of the
  stored user, which is the one there was before the login if there was one. The code is spent: no password opens a
  second login with it.
\<close>

theorem login_handshake:
  assumes "leAccount e2 = [] \<or> leAccount e2 = account" "RandomCode e1 account s = (code, s1)"
    and "list_all (spares account (leNow e2)) evs" "leNow e2 - leNow e1 \<le> codeTTL"
    and "TrimSpace password = Sha256Hex e2 (ServicePassword e2 (lePassword e2) @ code)"
    and "fst (ResolveUserID e2 (fold login_step evs s1)) = u"
    and "leHMAC e3 = leHMAC e2" "leSecret e3 = leSecret e2" "leUserClaim e3 (token_claims e2 u) = Some u"
  shows "\<exists>token s2. Login e2 account password (fold login_step evs s1) = (Granted token, s2) \<and>
     (\<forall>later. fst (Middleware e3 token (fold login_step later s2)) = Granted u) \<and>
     (lgUser s \<noteq> [] \<longrightarrow> u = lgUser s) \<and> (\<forall>e4 p. \<exists>err. fst (Login e4 account p s2) = Refused err)"
proof -
  let ?s = "fold login_step evs s1"
  have "map_of (lgCodes s1) account = Some (code, leNow e1)" using assms(2) by (auto simp: RandomCode_def IssueCode_def Let_def)
  then have code: "map_of (lgCodes ?s) account = Some (code, leNow e1)" by (rule login_run_code [OF _ assms(3,4)])
  let ?t = "?s\<lparr>lgCodes := filter (\<lambda>(a, _). a \<noteq> account) (lgCodes ?s)\<rparr>"
  have consume: "ConsumeCode e2 account ?s = (Some code, ?t)" using code assms(4) by (simp add: ConsumeCode_def code_expired_def)
  obtain v s2 where r: "ResolveUserID e2 ?t = (v, s2)" by (cases "ResolveUserID e2 ?t")
  moreover have "fst (ResolveUserID e2 ?t) = fst (ResolveUserID e2 ?s)" by (simp add: ResolveUserID_def)
  ultimately have v: "v = u" using assms(6) by simp
  note u = ResolveUserID_user [OF r, unfolded v]
  have login: "Login e2 account password ?s = (Granted (Mint e2 u), s2)"
    using assms(1,5) consume r v by (auto simp: Login_def CheckWebPassword_def)
  have verify: "Verify e3 (Mint e2 u) = Some u" by (rule Verify_Mint [OF assms(7-9) u(1)])
  have "\<forall>later. fst (Middleware e3 (Mint e2 u) (fold login_step later s2)) = Granted u"
    using Middleware_user [OF verify _ u(1)] login_run_user [of s2] u(1,2) by simp
  moreover have "lgUser s \<noteq> [] \<longrightarrow> u = lgUser s"
  proof
    assume "lgUser s \<noteq> []"
    moreover have "lgUser s1 = lgUser s" using assms(2) by (auto simp: RandomCode_def IssueCode_def Let_def)
    ultimately have "lgUser ?t = lgUser s" using login_run_user [of s1 evs] by simp
    then show "u = lgUser s" using u(4) \<open>lgUser s \<noteq> []\<close> by simp
  qed
  moreover have "map_of (lgCodes s2) account = None" using u(3) by (simp add: conn_filter_key)
  ultimately show ?thesis using login Login_spent by (intro exI [of _ "Mint e2 u"] exI [of _ s2] conjI) simp_all
qed

definition login_demo :: "int \<Rightarrow> login_env" where
  "login_demo t = \<lparr>leSecret = ''k'', leHMAC = (\<lambda>k x. k @ take 3 (rev x)), leUserClaim = (\<lambda>c. Some ''77''), leMD5 = take 4,
     leSHA256 = take 12, leAccount = ''a@b'', lePassword = ''secret'', leNow = t, leExpiry = 9, leCode = 7042, leUserSeed = 42\<rparr>"

definition login_demo_state :: login_state where
  "login_demo_state = \<lparr>lgCodes = [], lgUser = ''77''\<rparr>"

theorem login_handshake_witness:
  "\<exists>token s2. Login (login_demo 2000) ''a@b'' ''373336353633373230303730''
       (login_step (login_demo 1500, Get_Code ''c@d'') (snd (RandomCode (login_demo 1000) ''a@b'' login_demo_state))) = (Granted token, s2) \<and>
     fst (Middleware (login_demo 3000) token s2) = Granted ''77''"
proof -
  let ?evs = "[(login_demo 1500, Get_Code ''c@d'')]"
  define s1 where "s1 = snd (RandomCode (login_demo 1000) ''a@b'' login_demo_state)"
  have code: "RandomCode (login_demo 1000) ''a@b'' login_demo_state = (''007042'', s1)"
    unfolding s1_def by (rule prod_eqI; code_simp)
  have h: "leAccount (login_demo 2000) = [] \<or> leAccount (login_demo 2000) = ''a@b''" "list_all (spares ''a@b'' (leNow (login_demo 2000))) ?evs"
    "leNow (login_demo 2000) - leNow (login_demo 1000) \<le> codeTTL" "leHMAC (login_demo 3000) = leHMAC (login_demo 2000)"
    "leSecret (login_demo 3000) = leSecret (login_demo 2000)"
    "leUserClaim (login_demo 3000) (token_claims (login_demo 2000) ''77'') = Some ''77''"
    by (simp_all add: login_demo_def spares_def codeTTL_def)
  have pw: "TrimSpace ''373336353633373230303730'' = Sha256Hex (login_demo 2000) (ServicePassword (login_demo 2000) (lePassword (login_demo 2000)) @ ''007042'')"
    by code_simp
  have user: "fst (ResolveUserID (login_demo 2000) (fold login_step ?evs s1)) = ''77''"
    unfolding s1_def by code_simp
  obtain token s2 where t: "Login (login_demo 2000) ''a@b'' ''373336353633373230303730'' (fold login_step ?evs s1) = (Granted token, s2)"
    "\<forall>later. fst (Middleware (login_demo 3000) token (fold login_step later s2)) = Granted ''77''"
    using login_handshake [OF h(1) code h(2,3) pw user h(4-6)] by blast
  have "fst (Middleware (login_demo 3000) token s2) = Granted ''77''" using spec [OF t(2), of "[]"] by simp
  then show ?thesis using t(1) unfolding s1_def by auto
qed

end
