(* ===== verification/Spc_Schedule.thy ===== *)
theory Spc_Schedule
  imports Task_Db Spc_Push
begin

text \<open>
  The tasks of the device (\<open>internal/spcserver/handlers/schedule.go\<close>, \<open>mapping/task.go\<close>, \<open>groups\<close> and \<open>dedup\<close>): the
  schedule handlers translate the device's tasks to and from the task store that CalDAV and the task service use. The
  JSON decoder of a request body is a parameter, as are the digests.
\<close>

section \<open>The device's task\<close>

record spc_task =
  stID :: string
  stList :: string
  stTitle :: string
  stDetail :: string
  stStatus :: string
  stImportance :: string
  stDue :: int
  stCompleted :: int
  stModified :: int
  stRecurrence :: string
  stReminder :: string
  stLinks :: string
  stDeleted :: string
  stSort :: int
  stSortCompleted :: int
  stSortTime :: int
  stPlanerSort :: int
  stPlanerSortTime :: int
  stAllSort :: int
  stAllSortCompleted :: int
  stAllSortTime :: int

definition StatusToSPC :: "string \<Rightarrow> string" where
  "StatusToSPC stored = (if stored = ''completed'' \<or> stored = ''cancelled'' then ''completed'' else ''needsAction'')"

definition null_int :: "int option \<Rightarrow> int" where
  "null_int n = (case n of None \<Rightarrow> 0 | Some i \<Rightarrow> i)"

definition nullInt64 :: "int \<Rightarrow> int option" where
  "nullInt64 n = (if n \<noteq> 0 then Some n else None)"

definition spcLastModified :: "Task \<Rightarrow> int" where
  "spcLastModified t =
     (if StatusToSPC (NullStr (Status t)) = ''completed'' \<and> null_int (CompletedAt t) > 0 then null_int (CompletedAt t)
      else if UpdatedAt t > 0 then UpdatedAt t
      else null_int (LastModified t))"

definition TaskToSPC :: "Task \<Rightarrow> spc_task" where
  "TaskToSPC t =
     (let status = StatusToSPC (NullStr (Status t)); done = (status = ''completed''); sortVal = (if done then 0 else 1);
          sortCompleted = (if done then 1 else 0); lastMod = spcLastModified t
      in \<lparr>stID = TaskID t, stList = NullStr (TaskListID t), stTitle = NullStr (Title t), stDetail = NullStr (Detail t), stStatus = status,
          stImportance = NullStr (Importance t), stDue = DueTime t, stCompleted = null_int (CompletedTime t), stModified = lastMod,
          stRecurrence = NullStr (Recurrence t), stReminder = IsReminderOn t, stLinks = NullStr (Links t),
          stDeleted = (if IsDeleted t = [] then ''N'' else IsDeleted t), stSort = sortVal, stSortCompleted = sortCompleted,
          stSortTime = lastMod, stPlanerSort = sortVal, stPlanerSortTime = lastMod, stAllSort = sortVal,
          stAllSortCompleted = sortCompleted, stAllSortTime = lastMod\<rparr>)"

text \<open>A new task; fields the wire does not have are empty.\<close>

definition SPCToTask :: "(string \<Rightarrow> string) \<Rightarrow> int \<Rightarrow> spc_task \<Rightarrow> Task" where
  "SPCToTask md5 now s =
     (let completedTime = (if stID s = [] \<and> stCompleted s = 0 then now else stCompleted s);
          i = (if stID s = [] then GenerateTaskID md5 (stTitle s) completedTime else stID s)
      in \<lparr>TaskID = i, TaskListID = SqlStr (stList s), UserID = 0, Title = SqlStr (stTitle s), Detail = SqlStr (stDetail s),
          LastModified = nullInt64 (stModified s), Recurrence = SqlStr (stRecurrence s), IsReminderOn = stReminder s,
          Status = SqlStr (stStatus s), Importance = SqlStr (stImportance s), DueTime = stDue s, CompletedTime = nullInt64 completedTime,
          Links = SqlStr (stLinks s), IsDeleted = (if stDeleted s = [] then ''N'' else stDeleted s), ICalBlob = None, CreatedAt = 0,
          UpdatedAt = 0, CompletedAt = None, ForestNoteNotebookID = None, ForestNotePageID = None, ForestNoteNotebookName = None,
          ForestNoteSource = None\<rparr>)"

text \<open>A known task: an empty field of the wire is one that was not sent.\<close>

definition sent_str :: "string \<Rightarrow> string option \<Rightarrow> string option" where
  "sent_str s old = (if s \<noteq> [] then SqlStr s else old)"

definition mergeStatus :: "string \<Rightarrow> string \<Rightarrow> string" where
  "mergeStatus device stored =
     (if device = [] \<or> StatusToSPC stored = device then stored else if device = ''completed'' then ''completed'' else ''needsAction'')"

definition mergeCompletedAt :: "int \<Rightarrow> string \<Rightarrow> Task \<Rightarrow> spc_task \<Rightarrow> int option" where
  "mergeCompletedAt now mergedStatus existing s =
     (if mergedStatus \<noteq> ''completed'' then None
      else if CompletedAt existing \<noteq> None \<and> NullStr (Status existing) = ''completed'' then CompletedAt existing
      else if stModified s \<noteq> 0 then Some (stModified s)
      else Some now)"

definition MergeSPCIntoTask :: "int \<Rightarrow> Task \<Rightarrow> spc_task \<Rightarrow> Task" where
  "MergeSPCIntoTask now t s =
     (let status = SqlStr (mergeStatus (stStatus s) (NullStr (Status t)))
      in t\<lparr>Title := sent_str (stTitle s) (Title t), Detail := sent_str (stDetail s) (Detail t),
           Importance := sent_str (stImportance s) (Importance t), Recurrence := sent_str (stRecurrence s) (Recurrence t),
           Links := sent_str (stLinks s) (Links t), TaskListID := sent_str (stList s) (TaskListID t),
           IsReminderOn := (if stReminder s \<noteq> [] then stReminder s else IsReminderOn t),
           IsDeleted := (if stDeleted s \<noteq> [] then stDeleted s else IsDeleted t),
           DueTime := (if stDue s \<noteq> 0 then stDue s else DueTime t),
           LastModified := (if stModified s \<noteq> 0 then Some (stModified s) else LastModified t),
           Status := status, CompletedAt := mergeCompletedAt now (NullStr status) t s\<rparr>)"

section \<open>Duplicate requests\<close>

definition dedupTTL :: int where
  "dedupTTL = 1000"

definition Seen :: "(string \<Rightarrow> string) \<Rightarrow> int \<Rightarrow> string \<Rightarrow> string \<Rightarrow> string \<Rightarrow> (string \<times> int) list \<Rightarrow> bool \<times> (string \<times> int) list" where
  "Seen sha256 now userID endpoint body seen =
     (let key = userID @ ''|'' @ endpoint @ ''|'' @ hexEncode (sha256 body);
          fresh = filter (\<lambda>(_, ts). \<not> now - ts > dedupTTL) seen
      in case map_of fresh key of
           Some ts \<Rightarrow> (True, fresh)
         | None \<Rightarrow> (False, upsert key now fresh))"

section \<open>Handlers\<close>

record sched_env =
  scNow :: int
  scMD5 :: "string \<Rightarrow> string"
  scSHA256 :: "string \<Rightarrow> string"
  scUser :: string
  scDecode :: "string \<Rightarrow> spc_task option"

record sched =
  sdDb :: task_db
  sdSeen :: "(string \<times> int) list"

definition DefaultID :: string where
  "DefaultID = ''1''"

record task_group =
  gpList :: string
  gpUser :: int
  gpTitle :: string
  gpModified :: int
  gpDeleted :: string

definition GroupAll :: "string \<Rightarrow> int \<Rightarrow> string \<Rightarrow> task_group list" where
  "GroupAll title created user = [\<lparr>gpList = DefaultID, gpUser = parse_lenient user, gpTitle = title, gpModified = created, gpDeleted = ''N''\<rparr>]"

definition toSPC :: "Task \<Rightarrow> spc_task" where
  "toSPC t = (let s = TaskToSPC t in if stList s = [] then s\<lparr>stList := DefaultID\<rparr> else s)"

record task_page =
  tpNext :: string
  tpSync :: int
  tpTasks :: "spc_task list"

definition taskPageSize :: int where
  "taskPageSize = 20"

definition positive_or :: "int \<Rightarrow> string \<Rightarrow> int" where
  "positive_or d s = (case ParseInt s of Some n \<Rightarrow> if n > 0 then n else d | None \<Rightarrow> d)"

definition by_modified :: "task_db \<Rightarrow> Task list" where
  "by_modified db = sort_key (\<lambda>t. (null_int (LastModified t), TaskID t)) (ListTasks db)"

text \<open>The end of the page is a 64-bit sum; an end before its start makes the slice panic (\<open>None\<close>).\<close>

definition TaskAll :: "string \<Rightarrow> string \<Rightarrow> sched \<Rightarrow> task_page option" where
  "TaskAll maxResults nextPageTokens s =
     (let all = by_modified (sdDb s); n = int (length all); size = positive_or taskPageSize maxResults;
          offset = min n (positive_or 0 nextPageTokens); stop = min n (wrap64 (offset + size))
      in if stop < offset then None
         else Some \<lparr>tpNext = (if stop < n then FormatInt stop else []), tpSync = MaxUpdatedAt (sdDb s),
                   tpTasks = map toSPC (take (nat (stop - offset)) (drop (nat offset) all))\<rparr>)"

definition resolve_task :: "sched_env \<Rightarrow> spc_task \<Rightarrow> task_db \<Rightarrow> Task \<times> bool" where
  "resolve_task e x db =
     (case (if stID x = [] then Inl ErrNotFound else GetTask (stID x) db) of
        Inr t \<Rightarrow> (MergeSPCIntoTask (scNow e) t x, False)
      | Inl _ \<Rightarrow> (SPCToTask (scMD5 e) (scNow e) x, True))"

definition default_list :: "Task \<Rightarrow> Task" where
  "default_list t = (if NullStr (TaskListID t) = [] then t\<lparr>TaskListID := Some DefaultID\<rparr> else t)"

text \<open>Creates a new task or updates a known one; \<open>None\<close> is an error of the store.\<close>

definition write_task :: "sched_env \<Rightarrow> Task \<Rightarrow> bool \<Rightarrow> task_db \<Rightarrow> task_db option" where
  "write_task e t isNew db =
     (if isNew then (case CreateTask (scMD5 e) (scNow e) t db of Inr (_, db') \<Rightarrow> Some db' | Inl _ \<Rightarrow> None)
      else (case UpdateTask (scNow e) t db of Inr (_, db') \<Rightarrow> Some db' | Inl _ \<Rightarrow> None))"

definition upsert_task :: "sched_env \<Rightarrow> spc_task \<Rightarrow> task_db \<Rightarrow> task_db option" where
  "upsert_task e x db = (let (t, isNew) = resolve_task e x db in write_task e (default_list t) isNew db)"

definition TaskCreate :: "sched_env \<Rightarrow> string \<Rightarrow> sched \<Rightarrow> bool \<times> sched" where
  "TaskCreate e body s =
     (let (dup, seen) = Seen (scSHA256 e) (scNow e) (scUser e) ''/schedule/task'' body (sdSeen s); s1 = s\<lparr>sdSeen := seen\<rparr>
      in if dup then (True, s1)
         else case scDecode e body of
                None \<Rightarrow> (False, s1)
              | Some x \<Rightarrow> (case upsert_task e x (sdDb s1) of None \<Rightarrow> (False, s1) | Some db \<Rightarrow> (True, s1\<lparr>sdDb := db\<rparr>)))"

definition TaskUpdate :: "sched_env \<Rightarrow> string \<Rightarrow> sched \<Rightarrow> bool \<times> sched" where
  "TaskUpdate e body s =
     (case scDecode e body of
        None \<Rightarrow> (False, s)
      | Some x \<Rightarrow>
          let (t, isNew) = resolve_task e x (sdDb s)
          in if isNew then (False, s)
             else (case UpdateTask (scNow e) t (sdDb s) of Inl _ \<Rightarrow> (False, s) | Inr (_, db) \<Rightarrow> (True, s\<lparr>sdDb := db\<rparr>)))"

text \<open>Each task of the list is written on its own, errors are ignored.\<close>

definition TaskListUpdate :: "sched_env \<Rightarrow> spc_task list option \<Rightarrow> sched \<Rightarrow> bool \<times> sched" where
  "TaskListUpdate e xs s =
     (case xs of
        None \<Rightarrow> (False, s)
      | Some ys \<Rightarrow> (True, s\<lparr>sdDb := fold (\<lambda>x db. case upsert_task e x db of None \<Rightarrow> db | Some db' \<Rightarrow> db') ys (sdDb s)\<rparr>))"

definition TaskDelete :: "sched_env \<Rightarrow> string \<Rightarrow> sched \<Rightarrow> bool \<times> sched" where
  "TaskDelete e taskID s =
     (case DeleteTask (scNow e) taskID (sdDb s) of Inl _ \<Rightarrow> (False, s) | Inr db \<Rightarrow> (True, s\<lparr>sdDb := db\<rparr>))"

definition TaskGet :: "string \<Rightarrow> sched \<Rightarrow> spc_task option" where
  "TaskGet taskID s = (case GetTask taskID (sdDb s) of Inl _ \<Rightarrow> None | Inr t \<Rightarrow> Some (toSPC t))"

end
