(* ===== verification/Spc_Schedule_Laws.thy ===== *)
theory Spc_Schedule_Laws
  imports Spc_Schedule
begin

text \<open>
  What the device and the task store may expect of each other: pushing back what was pulled changes nothing, and the
  pages of a pull are the live tasks. Two theorems record where the handlers fall short.
\<close>

section \<open>Echoes\<close>

lemma sent_str_same [simp]: "sent_str (NullStr x) x = x"
  by (cases x) (simp_all add: sent_str_def NullStr_def SqlStr_def)

text \<open>What an echo leaves of a live task: new stamps, and an instant of completion exactly when the task is
  completed. A stored instant of a completed task stays; a missing one becomes the stamp the device was
  shown. A task without a status is refused by the store.\<close>

definition echoed :: "int \<Rightarrow> Task \<Rightarrow> Task" where
  "echoed now t =
     (if NullStr (Status t) = [] then t
      else t\<lparr>LastModified := Some now, UpdatedAt := now,
             CompletedAt := (if Status t \<noteq> Some ''completed'' then None
               else if CompletedAt t \<noteq> None then CompletedAt t
               else if spcLastModified t \<noteq> 0 then Some (spcLastModified t)
               else Some now)\<rparr>)"

lemma toSPC_fields: "stID (toSPC t) = TaskID t" "stTitle (toSPC t) = NullStr (Title t)" "stDetail (toSPC t) = NullStr (Detail t)"
  "stImportance (toSPC t) = NullStr (Importance t)" "stRecurrence (toSPC t) = NullStr (Recurrence t)" "stLinks (toSPC t) = NullStr (Links t)"
  "stReminder (toSPC t) = IsReminderOn t" "stDue (toSPC t) = DueTime t" "stStatus (toSPC t) = StatusToSPC (NullStr (Status t))"
  by (simp_all add: toSPC_def TaskToSPC_def Let_def)

lemma toSPC_modified: "stModified (toSPC t) = spcLastModified t"
  by (simp add: toSPC_def TaskToSPC_def Let_def)

lemma merge_echo_status: "Status t \<noteq> None \<Longrightarrow>
    SqlStr (mergeStatus (StatusToSPC (NullStr (Status t))) (NullStr (Status t))) = (if NullStr (Status t) = [] then None else Status t)"
  by (cases "Status t") (simp_all add: mergeStatus_def SqlStr_def NullStr_def)

lemma merge_echo_completed: "NullStr (Status t) \<noteq> [] \<Longrightarrow> mergeCompletedAt now (NullStr (Status t)) t (toSPC t) = CompletedAt (echoed now t)"
  by (cases "Status t") (simp_all add: echoed_def mergeCompletedAt_def toSPC_modified NullStr_def)

lemma write_columns_default: "write_columns (default_list t) r = write_columns t r"
  by (simp add: default_list_def write_columns_def)

lemma write_columns_echo:
  assumes "Status t \<noteq> None" "NullStr (Status t) \<noteq> []"
  shows "write_columns ((default_list (MergeSPCIntoTask now t (toSPC t)))\<lparr>LastModified := Some now, UpdatedAt := now\<rparr>) t = echoed now t"
proof -
  have d: "(default_list x)\<lparr>LastModified := Some now, UpdatedAt := now\<rparr> = default_list (x\<lparr>LastModified := Some now, UpdatedAt := now\<rparr>)" for x :: Task
    by (simp add: default_list_def)
  have c: "echoed now t = t\<lparr>LastModified := Some now, UpdatedAt := now, CompletedAt := CompletedAt (echoed now t)\<rparr>"
    using assms(2) by (simp add: echoed_def)
  have st: "SqlStr (mergeStatus (StatusToSPC (NullStr (Status t))) (NullStr (Status t))) = Status t"
    using merge_echo_status [OF assms(1)] assms(2) by simp
  show ?thesis
    unfolding d write_columns_default
    by (subst c) (simp add: write_columns_def MergeSPCIntoTask_def Let_def toSPC_fields st merge_echo_completed [OF assms(2)])
qed

lemma upsert_echo:
  assumes "map_of (tasks db) (TaskID t) = Some t" "live_task t" "TaskID t \<noteq> []" "Status t \<noteq> None" "CompletedTime t \<noteq> None"
  shows "upsert_task e (toSPC t) db =
    (if NullStr (Status t) = [] then None else Some (db\<lparr>tasks := upsert (TaskID t) (echoed (scNow e) t) (tasks db)\<rparr>))"
proof -
  let ?m = "default_list (MergeSPCIntoTask (scNow e) t (toSPC t))"
  have get: "GetTask (TaskID t) db = Inr t" using assms(1,2) by (simp add: GetTask_def)
  have r: "resolve_task e (toSPC t) db = (MergeSPCIntoTask (scNow e) t (toSPC t), False)"
    using assms(3) get by (simp add: resolve_task_def toSPC_fields)
  have m: "TaskID ?m = TaskID t" "Status ?m = (if NullStr (Status t) = [] then None else Status t)" "CompletedTime ?m = CompletedTime t"
    by (simp_all add: default_list_def MergeSPCIntoTask_def Let_def toSPC_fields merge_echo_status [OF assms(4)])
  show ?thesis
  proof (cases "NullStr (Status t) = []")
    case True
    then show ?thesis using assms(1) m by (simp add: upsert_task_def r write_task_def UpdateTask_def Let_def)
  next
    case False
    then show ?thesis
      using assms(1,4,5) m write_columns_echo [OF assms(4) False, of "scNow e"]
      by (simp add: upsert_task_def r write_task_def UpdateTask_def Let_def)
  qed
qed

lemma upsert_same: "map_of ts k = Some v \<Longrightarrow> map_of (upsert k v ts) = map_of ts"
  by (auto simp: update_conv')

lemma fold_echo:
  assumes "distinct (map TaskID ts)"
    and "\<forall>t \<in> set ts. map_of (tasks db) (TaskID t) = Some t \<and> live_task t \<and> TaskID t \<noteq> [] \<and> Status t \<noteq> None \<and> CompletedTime t \<noteq> None"
  shows "map_of (tasks (fold (\<lambda>x db. case upsert_task e x db of None \<Rightarrow> db | Some db' \<Rightarrow> db') (map toSPC ts) db)) k =
     (if k \<in> TaskID ` set ts then map_option (echoed (scNow e)) (map_of (tasks db) k) else map_of (tasks db) k)"
  using assms
proof (induction ts arbitrary: db)
  case (Cons t ts)
  let ?db = "case upsert_task e (toSPC t) db of None \<Rightarrow> db | Some db' \<Rightarrow> db'"
  have up: "upsert_task e (toSPC t) db =
      (if NullStr (Status t) = [] then None else Some (db\<lparr>tasks := upsert (TaskID t) (echoed (scNow e) t) (tasks db)\<rparr>))"
    using Cons.prems(2) by (intro upsert_echo) simp_all
  have t: "map_of (tasks db) (TaskID t) = Some t" using Cons.prems(2) by simp
  have at: "map_of (tasks ?db) j = (if j = TaskID t then Some (echoed (scNow e) t) else map_of (tasks db) j)" for j
    using t by (auto simp: up echoed_def)
  have rest: "\<forall>x \<in> set ts. map_of (tasks ?db) (TaskID x) = Some x \<and> live_task x \<and> TaskID x \<noteq> [] \<and> Status x \<noteq> None \<and> CompletedTime x \<noteq> None"
    using Cons.prems by (auto simp: at image_iff)
  have "distinct (map TaskID ts)" using Cons.prems(1) by simp
  from Cons.IH [OF this rest] show ?case using Cons.prems(1) t by (auto simp: at)
qed simp

text \<open>
  C27. The exact effect of a device that pushes back all the tasks it was shown, in any store of tasks with ids. Every live
  task keeps its status, its texts, its dates and the columns the wire does not carry; a completed or cancelled task
  is not reopened. What changes is this: its two stamps are new, and its instant of completion is made to fit its
  status. A completed task keeps the instant it has; one without (a task the device created as completed is stored so)
  gets the time stamp the device was shown for it, or the time of the push when that is 0; a task that is not
  completed, a cancelled one for example, loses any it had. A task with an empty status is left alone, as
  are deleted tasks, and no task appears.
\<close>

theorem device_echo:
  assumes "db_inv (sdDb s)" "\<forall>t \<in> set (ListTasks (sdDb s)). TaskID t \<noteq> []"
    and "TaskListUpdate e (Some (map toSPC (ListTasks (sdDb s)))) s = (ok, s')"
  shows "ok \<and> map_of (tasks (sdDb s')) k =
     map_option (\<lambda>t.
       if \<not> live_task t \<or> NullStr (Status t) = [] then t
       else t\<lparr>LastModified := Some (scNow e), UpdatedAt := scNow e,
              CompletedAt := (if Status t \<noteq> Some ''completed'' then None
                else if CompletedAt t \<noteq> None then CompletedAt t
                else if spcLastModified t \<noteq> 0 then Some (spcLastModified t)
                else Some (scNow e))\<rparr>) (map_of (tasks (sdDb s)) k)"
proof -
  let ?db = "sdDb s"
  have row: "TaskID t = k \<and> CompletedTime t \<noteq> None \<and> Status t \<noteq> None" if "(k, t) \<in> set (tasks ?db)" for k t
    using assms(1) that by (auto simp: db_inv_def row_ok_def)
  have u: "unique_keys (tasks ?db)" using assms(1) by (simp add: db_inv_def)
  have ids: "map (TaskID \<circ> snd) (tasks ?db) = map fst (tasks ?db)" using row by auto
  have "distinct (map TaskID (ListTasks ?db))"
    using u by (simp add: ListTasks_def distinct_map_filter ids)
  moreover have mem: "t \<in> set (ListTasks ?db) \<longleftrightarrow> map_of (tasks ?db) (TaskID t) = Some t \<and> live_task t" for t
  proof
    assume "t \<in> set (ListTasks ?db)"
    then obtain k where k: "(k, t) \<in> set (tasks ?db)" "live_task t" by (auto simp: ListTasks_def)
    then show "map_of (tasks ?db) (TaskID t) = Some t \<and> live_task t" using row [OF k(1)] map_of_is_SomeI [OF u k(1)] by simp
  next
    assume "map_of (tasks ?db) (TaskID t) = Some t \<and> live_task t"
    then show "t \<in> set (ListTasks ?db)" by (force simp: ListTasks_def dest: map_of_SomeD)
  qed
  moreover have "CompletedTime t \<noteq> None \<and> Status t \<noteq> None" if "t \<in> set (ListTasks ?db)" for t
    using row that by (auto simp: ListTasks_def)
  ultimately have "map_of (tasks (sdDb s')) k =
     (if k \<in> TaskID ` set (ListTasks ?db) then map_option (echoed (scNow e)) (map_of (tasks ?db) k) else map_of (tasks ?db) k)"
    using fold_echo [of "ListTasks ?db" ?db e k] assms(2,3) by (auto simp: TaskListUpdate_def)
  moreover have "k \<in> TaskID ` set (ListTasks ?db) \<longleftrightarrow> (\<exists>t. map_of (tasks ?db) k = Some t \<and> live_task t)"
  proof
    assume "\<exists>t. map_of (tasks ?db) k = Some t \<and> live_task t"
    then obtain t where t: "map_of (tasks ?db) k = Some t" "live_task t" by blast
    then have "TaskID t = k" using row [OF map_of_SomeD] by blast
    then show "k \<in> TaskID ` set (ListTasks ?db)" using t mem [of t] by blast
  qed (use mem in blast)
  ultimately show ?thesis
    using assms(3) by (cases "map_of (tasks ?db) k") (auto simp: TaskListUpdate_def echoed_def)
qed

section \<open>Pages\<close>

text \<open>A pull follows the page tokens until there is none.\<close>

fun pull_tasks :: "nat \<Rightarrow> string \<Rightarrow> string \<Rightarrow> sched \<Rightarrow> spc_task list option" where
  "pull_tasks 0 m tok s = None"
| "pull_tasks (Suc n) m tok s =
     (case TaskAll m tok s of
        None \<Rightarrow> None
      | Some p \<Rightarrow> if tpNext p = [] then Some (tpTasks p) else map_option ((@) (tpTasks p)) (pull_tasks n m (tpNext p) s))"

lemma positive_or_pos: "0 < d \<Longrightarrow> 0 < positive_or d m"
  by (simp add: positive_or_def split: option.split)

lemma TaskAll_at:
  fixes s :: sched
  defines "all \<equiv> by_modified (sdDb s)"
  assumes "positive_or 0 tok = int i" "i \<le> length all" "int (length all) + sz < 2 ^ 63" "sz = positive_or taskPageSize m"
  shows "TaskAll m tok s = Some \<lparr>tpNext = (if int i + sz < int (length all) then FormatInt (int i + sz) else []),
     tpSync = MaxUpdatedAt (sdDb s), tpTasks = map toSPC (take (nat sz) (drop i all))\<rparr>"
proof -
  have sz: "0 < sz" unfolding assms(5) by (rule positive_or_pos) (simp add: taskPageSize_def)
  have off: "min (int (length all)) (positive_or 0 tok) = int i" using assms(2,3) by simp
  have w: "wrap64 (int i + sz) = int i + sz" using sz assms(3,4) by (intro wrap64_id) (simp add: int64_def)
  show ?thesis
  proof (cases "int i + sz < int (length all)")
    case True
    then show ?thesis using sz off w by (simp add: TaskAll_def Let_def flip: all_def assms(5))
  next
    case False
    then have "min (int (length all)) (int i + sz) = int (length all)" "nat (int (length all) - int i) = length all - i"
      "take (length all - i) (drop i all) = drop i all" "take (nat sz) (drop i all) = drop i all"
      using sz by simp_all
    then show ?thesis using False assms(3) off w by (simp add: TaskAll_def Let_def flip: all_def assms(5))
  qed
qed

lemma pull_from:
  fixes s :: sched
  defines "all \<equiv> by_modified (sdDb s)"
  assumes "positive_or 0 tok = int i" "i \<le> length all" "length all - i < n" "int (length all) + positive_or taskPageSize m < 2 ^ 63"
  shows "pull_tasks n m tok s = Some (map toSPC (drop i all))"
  using assms(2-4)
proof (induction n arbitrary: i tok)
  case (Suc n)
  let ?size = "positive_or taskPageSize m"
  have size: "0 < ?size" by (rule positive_or_pos) (simp add: taskPageSize_def)
  note page = TaskAll_at [OF Suc.prems(1) Suc.prems(2) [unfolded all_def] assms(5) [unfolded all_def] refl, folded all_def]
  show ?case
  proof (cases "int i + ?size < int (length all)")
    case False
    then have "take (nat ?size) (drop i all) = drop i all" by simp
    then show ?thesis using False page by simp
  next
    case True
    let ?j = "i + nat ?size"
    have j: "int i + ?size = int ?j" "?j \<le> length all" "length all - ?j < n" using True size Suc.prems(3) by simp_all
    have "ParseInt (FormatInt (int ?j)) = Some (int ?j)"
      using assms(5) j(2) size by (intro ParseInt_FormatInt) (simp add: in_range_def int64_def)
    then have tok: "positive_or 0 (FormatInt (int ?j)) = int ?j" by (subst positive_or_def) simp
    have rest: "pull_tasks n m (FormatInt (int ?j)) s = Some (map toSPC (drop ?j all))" by (rule Suc.IH [OF tok j(2,3)])
    have join: "map toSPC (take (nat ?size) (drop i all)) @ map toSPC (drop ?j all) = map toSPC (drop i all)"
      unfolding map_append [symmetric] by (metis add.commute append_take_drop_id drop_drop)
    have tpn: "tpNext (\<lparr>tpNext = (if int i + ?size < int (length all) then FormatInt (int i + ?size) else []),
        tpSync = MaxUpdatedAt (sdDb s), tpTasks = map toSPC (take (nat ?size) (drop i all))\<rparr>) = FormatInt (int ?j)"
      using True j(1) by (simp only: task_page.simps if_True)
    show ?thesis
      unfolding pull_tasks.simps page option.case tpn rest
      using FormatInt_nonempty [of "int ?j"] join by (simp only: task_page.simps if_False option.map)
  qed
qed simp

text \<open>
  C28. A device that pulls a store at rest, following the page tokens, gets every live task exactly once, oldest
  modification first, in no more requests than there are tasks, plus one. The page size is any that the request may
  ask for, as long as it and the number of tasks together stay below 2 ^ 63 (beyond that a request can panic,
  \<open>huge_page_panics\<close>), and no task is written between the requests (or a page can skip one,
  \<open>paging_race_skips\<close>).
\<close>

theorem pull_complete:
  assumes "int (length (ListTasks (sdDb s))) + positive_or taskPageSize m < 2 ^ 63"
  shows "\<exists>ts. pull_tasks (Suc (length (ListTasks (sdDb s)))) m [] s = Some (map toSPC ts) \<and> mset ts = mset (ListTasks (sdDb s)) \<and>
     sorted (map (\<lambda>t. null_int (LastModified t)) ts)"
proof -
  have "positive_or 0 [] = int 0" by (simp add: positive_or_def split: option.split) (simp add: ParseInt_def)
  then have "pull_tasks (Suc (length (ListTasks (sdDb s)))) m [] s = Some (map toSPC (by_modified (sdDb s)))"
    using pull_from [of "[]" 0 s "Suc (length (ListTasks (sdDb s)))" m] assms by (simp add: by_modified_def)
  moreover have "mset (by_modified (sdDb s)) = mset (ListTasks (sdDb s))" by (simp add: by_modified_def)
  moreover have "sorted (map (\<lambda>t. null_int (LastModified t)) (by_modified (sdDb s)))"
  proof -
    have "sorted (map (\<lambda>t. (null_int (LastModified t), TaskID t)) (by_modified (sdDb s)))" by (simp add: by_modified_def)
    then show ?thesis by (auto simp: sorted_map less_eq_prod_def elim!: sorted_wrt_mono_rel [rotated])
  qed
  ultimately show ?thesis by blast
qed

section \<open>Where the handlers fall short\<close>

definition sched_demo_env :: "int \<Rightarrow> sched_env" where
  "sched_demo_env t = \<lparr>scNow = t, scMD5 = id, scSHA256 = id, scUser = ''7'', scDecode = (\<lambda>_. None)\<rparr>"

definition sched_demo :: sched where
  "sched_demo = \<lparr>sdDb = ex_create 10 ''b'' ex_db, sdSeen = []\<rparr>"

text \<open>
  The update of a known task takes the device's deletion flag into the merged task, but the statement that stores it does
  not write that column: a task the device deletes through the list update stays alive, and the next pull
  gives it back.
\<close>

theorem pushed_delete_ignored:
  assumes "GetTask k (sdDb s) = Inr t" "stID x = k" "k \<noteq> []" "stDeleted x = ''Y''" "TaskID t = k" "CompletedTime t \<noteq> None" "NullStr (Status t) \<noteq> []"
    and "TaskListUpdate e (Some [x]) s = (ok, s')"
  shows "ok \<and> (\<exists>t'. GetTask k (sdDb s') = Inr t' \<and> LastModified t' = Some (scNow e))"
proof -
  have t: "map_of (tasks (sdDb s)) k = Some t" "live_task t" using assms(1) by (auto simp: GetTask_def split: option.splits if_splits)
  let ?m = "default_list (MergeSPCIntoTask (scNow e) t x)"
  have m: "TaskID ?m = k" "CompletedTime ?m = CompletedTime t" "Status ?m = SqlStr (mergeStatus (stStatus x) (NullStr (Status t)))"
    using assms(5) by (simp_all add: default_list_def MergeSPCIntoTask_def Let_def)
  have "Status ?m \<noteq> None" using assms(7) by (simp add: m(3) SqlStr_def mergeStatus_def)
  moreover define r where "r = write_columns (?m\<lparr>LastModified := Some (scNow e), UpdatedAt := scNow e\<rparr>) t"
  ultimately have "upsert_task e x (sdDb s) = Some ((sdDb s)\<lparr>tasks := upsert k r (tasks (sdDb s))\<rparr>)"
    using t(1) assms(1-3,6) m(1,2) by (simp add: upsert_task_def resolve_task_def write_task_def UpdateTask_def Let_def)
  moreover have "live_task r" "LastModified r = Some (scNow e)" using t(2) by (simp_all add: r_def write_columns_def live_task_def)
  ultimately show ?thesis using assms(8) by (auto simp: TaskListUpdate_def GetTask_def)
qed

text \<open>
  A page token is an offset into a list ordered by modification: a task of an earlier page that is modified between two
  requests moves to the end, and the task behind it is skipped.
\<close>

theorem paging_race_skips:
  "map_option (\<lambda>p. (map stID (tpTasks p), tpNext p)) (TaskAll ''1'' [] sched_demo) = Some ([''a''], ''1'') \<and>
   map_option (\<lambda>p. (map stID (tpTasks p), tpNext p))
     (TaskAll ''1'' ''1'' (snd (TaskListUpdate (sched_demo_env 20) (Some [toSPC (ok_or (ex_new []) (GetTask ''a'' (sdDb sched_demo)))]) sched_demo))) =
       Some ([''a''], [])"
  by code_simp

text \<open>A page size near the largest integer makes the end of the page wrap, and the request panics.\<close>

theorem huge_page_panics:
  assumes "positive_or taskPageSize m = 2 ^ 63 - 1" "positive_or 0 tok = 1" "ListTasks (sdDb s) \<noteq> []"
  shows "TaskAll m tok s = None"
proof -
  have "length (by_modified (sdDb s)) \<noteq> 0" using assms(3) by (simp add: by_modified_def)
  then have off: "min (int (length (by_modified (sdDb s)))) 1 = 1" by linarith
  have "wrap64 (1 + (2 ^ 63 - 1)) = - (2 ^ 63)" by (simp add: wrap64_def)
  then show ?thesis by (simp add: TaskAll_def Let_def assms(1,2) off)
qed

section \<open>Witnesses\<close>

text \<open>A task the device created as completed, with columns the wire does not carry.\<close>

definition echo_task :: Task where
  "echo_task = (create_defaults id 5 (ex_new ''a''))\<lparr>Status := Some ''completed'', ICalBlob := Some ''BEGIN'', CreatedAt := 5, UpdatedAt := 5\<rparr>"

definition echo_demo :: sched where
  "echo_demo = \<lparr>sdDb = \<lparr>tasks = [(''a'', echo_task)], sync_state = []\<rparr>, sdSeen = []\<rparr>"

theorem device_echo_witness:
  "map_of (tasks (sdDb (snd (TaskListUpdate (sched_demo_env 9) (Some (map toSPC (ListTasks (sdDb echo_demo)))) echo_demo)))) ''a'' =
     Some (echo_task\<lparr>LastModified := Some 9, UpdatedAt := 9, CompletedAt := Some 5\<rparr>)"
proof -
  have t: "TaskID echo_task = ''a''" "IsDeleted echo_task = ''N''" "Status echo_task = Some ''completed''" "CompletedTime echo_task = Some 5"
    "CompletedAt echo_task = None" "UpdatedAt echo_task = 5"
    by (simp_all add: echo_task_def create_defaults_def ex_new_def)
  have "db_inv (sdDb echo_demo)" "\<forall>t \<in> set (ListTasks (sdDb echo_demo)). TaskID t \<noteq> []"
    by (simp_all add: echo_demo_def db_inv_def row_ok_def ListTasks_def live_task_def t)
  note e = device_echo [OF this, where e = "sched_demo_env 9" and k = "''a''"]
  obtain ok s' where r: "TaskListUpdate (sched_demo_env 9) (Some (map toSPC (ListTasks (sdDb echo_demo)))) echo_demo = (ok, s')"
    by (cases "TaskListUpdate (sched_demo_env 9) (Some (map toSPC (ListTasks (sdDb echo_demo)))) echo_demo")
  show ?thesis using e [OF r] t r
    by (simp add: echo_demo_def live_task_def sched_demo_env_def spcLastModified_def NullStr_def null_int_def)
qed

theorem pull_complete_witness: "\<exists>ts. pull_tasks 3 ''1'' [] sched_demo = Some (map toSPC ts) \<and> length ts = 2"
proof -
  have n: "length (ListTasks (sdDb sched_demo)) = 2" by code_simp
  have "positive_or taskPageSize ''1'' = 1" by code_simp
  then have "int (length (ListTasks (sdDb sched_demo))) + positive_or taskPageSize ''1'' < 2 ^ 63" by (simp add: n)
  from pull_complete [OF this] obtain ts where "pull_tasks (Suc 2) ''1'' [] sched_demo = Some (map toSPC ts)" "mset ts = mset (ListTasks (sdDb sched_demo))"
    unfolding n by blast
  then show ?thesis using n mset_eq_length by (metis eval_nat_numeral(3))
qed

end
