(* ===== verification/Spec2Isabelle.thy ===== *)
theory Spec2Isabelle
  imports Sync_System Caldav_Backend Task_Service Job_Queue Sync_Bridge Rm_Listing Rm_Server Spc_Recycle Spc_Upload Digest_Sync Spc_Push_Laws Spc_Login Spc_Schedule_Laws
begin

text \<open>
  \<^bold>\<open>UltraBridge: a verification of its core.\<close>

  UltraBridge is a self-hosted server for note-taking devices. A tablet running ForestNote syncs
  its folders, notebooks, pages, strokes and text boxes as operations; the server keeps a
  changelog, materializes a last-writer-wins mirror, relays the operations to the other devices,
  and edits the same data as a site of its own. Changed pages are rendered, recognized, indexed
  for search and embedded for retrieval. Tasks live in a store of their own that CalDAV clients
  and the task service read and write. Supernote files are processed by a job queue. reMarkable
  tablets talk to an emulation of their cloud: they pair, upload content-addressed blobs, commit a
  hash tree, and the server lists that tree, indexes and recognizes its pages and edits it itself.
  Supernote tablets and the web UI use a private cloud: a directory tree on disk whose files are
  listed, moved, copied, deleted to a recycle directory, restored and uploaded through it, and a table of
  digests, the excerpts a user saves on the tablet, which are searchable and can be deleted from the web.

  \<^bold>\<open>How the parts interact.\<close> \<open>synchttp\<close> hands a request to \<open>syncsvc\<close>, which calls
  \<open>syncstore\<close> (ingest, relay, cursors) and tells \<open>syncbridge\<close> which pages changed. The bridge
  reads the pages from the mirror, writes to \<open>search\<close> and \<open>rag\<close>, and authors the recognized text
  back through \<open>syncstore\<close>. \<open>source/forestnote\<close> runs compaction over the changelog. \<open>caldav\<close> and
  \<open>service\<close> share \<open>taskdb\<close>. \<open>processor\<close> owns its queue table. \<open>source/remarkable\<close> owns the
  tokens, blobs and queue of its protocol and writes to the same search index and embeddings.
  \<open>spcserver\<close> resolves the paths a device names below its storage root, gives every file and
  directory a stable id (\<open>fileids\<close>), and stages uploads outside the tree until they are verified
  (\<open>staging\<close>). Its summary handlers write \<open>digeststore\<close> and queue tasks for \<open>digestindex\<close>, which writes to the same
  search index; a deletion from the web leaves a notice in \<open>digesttomb\<close> that the next heartbeat of the
  device's socket drains. Its schedule handlers translate the tasks of \<open>taskdb\<close>.

  \<^bold>\<open>The theories\<close>, bottom up, with the code each models (paths below \<^verbatim>\<open>src/\<close>; the library
  \<^verbatim>\<open>third_party/rhizome-server-go\<close> is part of the repository and is modelled too).

  \<^item> \<open>Prelude\<close>: fallible computations as sums, SQL tables as association lists in rowid order
    (locale \<open>keyed_table\<close>, interpreted on the table operations), signed 64-bit wrap-around, and the
    locale \<open>last_writer_wins\<close> on ``keep the greatest element per key''. It is interpreted on the op
    order in \<open>Sync_Op\<close> and on log positions in \<open>Compaction\<close>. \<open>Decimal\<close>: \<open>strconv\<close> and \<open>strings\<close> as
    the code uses them, on byte strings.
  \<^item> \<open>Hlc\<close>: \<^verbatim>\<open>hlc/hlc.go\<close>, with wrap-around written out (locale \<open>monotone_clock\<close>). \<open>Registry\<close>:
    \<^verbatim>\<open>registry/\<close>. \<open>Base64\<close>, \<open>Ulid\<close>, \<open>Sync_Op\<close>: \<^verbatim>\<open>internal/syncstore/op.go\<close> and
    \<^verbatim>\<open>reconcile.go\<close>.
  \<^item> \<open>Sync_Mirror\<close>, \<open>Sync_Store\<close>: \<^verbatim>\<open>internal/syncstore/store.go\<close> and \<^verbatim>\<open>schema.go\<close>. The record
    \<open>sync_store\<close> holds every table of the schema; a transaction is a function into a sum, and
    \<open>commit\<close> keeps the old state on an error. \<open>Sync_Inv\<close> has the invariant and its preservation,
    \<open>Sync_Converge\<close> the refinement of the pure merge, \<open>Sync_Accept\<close> acknowledgements, \<open>Sync_Author\<close>
    server authoring, \<open>Sync_Relay\<close> the pull and its iteration.
  \<^item> \<open>Compaction\<close>, \<open>Devices\<close>: \<^verbatim>\<open>compaction/\<close>, \<^verbatim>\<open>internal/syncstore/compact.go\<close>,
    \<^verbatim>\<open>devices.go\<close> and the compaction pass of \<^verbatim>\<open>internal/source/forestnote/source.go\<close>.
  \<^item> \<open>Inventory\<close>, \<open>Sync_Edit\<close>, \<open>Notebook_Delete\<close>: \<^verbatim>\<open>internal/syncstore/inventory.go\<close>,
    \<^verbatim>\<open>reads.go\<close>, \<^verbatim>\<open>pagetext.go\<close>.
  \<^item> \<open>Sync_Service\<close>: \<^verbatim>\<open>internal/syncsvc/service.go\<close>, \<^verbatim>\<open>internal/synchttp/handler.go\<close>, over the
    locale \<open>relay_store\<close>, the contract a service needs of its store, interpreted on the store.
    \<open>Bounded\<close>: \<^verbatim>\<open>bounded/\<close> and \<^verbatim>\<open>internal/syncstore/bounded.go\<close>.
  \<^item> \<open>Sync_System\<close>: the server as a step relation whose steps are the operations above, in any
    interleaving, with restarts.
  \<^item> \<open>Search_Index\<close>, \<open>Rag_Store\<close>, \<open>Sync_Bridge\<close>: \<^verbatim>\<open>internal/search/index.go\<close>,
    \<^verbatim>\<open>internal/fnpath\<close>, \<^verbatim>\<open>internal/rag\<close> (locale \<open>embed_store\<close>, the contract of the embedding
    of a page, interpreted on the table with its cache) and \<^verbatim>\<open>internal/syncbridge/bridge.go\<close>.
  \<^item> \<open>Job_Queue\<close>: \<^verbatim>\<open>internal/processor\<close>, the queue and its watchdog.
  \<^item> \<open>Task_Db\<close>: \<^verbatim>\<open>internal/taskdb\<close> and \<^verbatim>\<open>internal/taskstore\<close>. \<open>Caldav_Sync\<close>:
    \<^verbatim>\<open>internal/caldav/synccollection.go\<close>. \<open>Vtodo\<close>, \<open>Caldav_Backend\<close>: \<^verbatim>\<open>vtodo.go\<close>,
    \<^verbatim>\<open>backend.go\<close>. \<open>Task_Service\<close>: \<^verbatim>\<open>internal/service/task.go\<close>.
  \<^item> \<open>Rm_Auth\<close>, \<open>Rm_Index\<close>, \<open>Rm_Blobs\<close>, \<open>Rm_Tree\<close>: \<^verbatim>\<open>internal/source/remarkable\<close>: pairing and
    tokens; index files, composite hashes and checksums; the blob store, whose contract is the locale
    \<open>generation_store\<close>, interpreted on its model; the tree, its listing and the server's mutations.
    \<open>Rm_Commit\<close> and \<open>Rm_Listing\<close> prove what a mutation commits and how it shows. \<open>Rm_Render\<close>
    resolves a document, \<open>Rm_Ocr\<close> is the recognition queue, \<open>Rm_Indexer\<close> the metadata index, and
    \<open>Rm_Server\<close> the protocol handlers over the whole state.
  \<^item> \<open>Spc_Paths\<close>: the path functions of \<open>path\<close> and \<open>filepath\<close> and \<^verbatim>\<open>internal/spcserver/mapping/\<close>.
    \<open>Spc_Fs\<close>: the file system as a map from absolute paths to nodes, with the calls of \<open>os\<close> that the
    server makes. \<open>Spc_Ids\<close>, \<open>Spc_Staging\<close>: \<^verbatim>\<open>internal/spcserver/fileids\<close> and \<^verbatim>\<open>staging\<close>.
  \<^item> \<open>Spc_Files\<close>: the file service, \<^verbatim>\<open>files.go\<close>, \<^verbatim>\<open>mutation.go\<close>, \<^verbatim>\<open>webfile.go\<close>,
    \<^verbatim>\<open>webops.go\<close> of \<^verbatim>\<open>internal/spcserver/handlers/\<close>. \<open>Spc_Files_Laws\<close> has its invariant. \<open>Spc_Requests\<close> makes a
    request a datatype and a history of requests an inductive relation. \<open>Spc_Effects\<close> and
    \<open>Spc_Recycle\<close> characterize moving, listing, deleting and restoring.
  \<^item> \<open>Spc_Oss\<close>: \<^verbatim>\<open>internal/spcserver/oss\<close>, the signer of presigned URLs, with the query strings of
    \<open>net/url\<close>. \<open>Spc_Transfer\<close>: \<^verbatim>\<open>upload.go\<close>, \<^verbatim>\<open>download.go\<close> and the transfers of \<^verbatim>\<open>webops.go\<close>;
    \<open>Spc_Transfer_Laws\<close> has the sessions in which requests, transfers and sweeps interleave and their
    invariant, and \<open>Spc_Upload\<close> what they achieve.
  \<^item> \<open>Digest_Store\<close>, \<open>Digest_Index\<close>, \<open>Spc_Summary\<close>: \<^verbatim>\<open>internal/digeststore\<close>, \<^verbatim>\<open>internal/digestindex\<close>,
    \<^verbatim>\<open>internal/spcserver/handlers/summary.go\<close> and \<^verbatim>\<open>internal/service/digest.go\<close>. \<open>Digest_Session\<close> runs any
    requests and turns of the index worker, \<open>Digest_Follow\<close> has one lemma per handler, and
    \<open>Digest_Sync\<close> what holds of the index and of a pushed digest.
  \<^item> \<open>Spc_Push\<close>: \<^verbatim>\<open>internal/spcserver/socketio\<close>, \<^verbatim>\<open>notify\<close> and \<^verbatim>\<open>digesttomb\<close>. \<open>Spc_Push_Laws\<close> splits the handler of a
    heartbeat into its statements and interleaves them with deletions.
  \<^item> \<open>Spc_Login\<close>: \<^verbatim>\<open>internal/spcserver/login\<close>, \<^verbatim>\<open>auth\<close> and \<^verbatim>\<open>handlers/login.go\<close>. \<open>Spc_Schedule\<close>:
    \<^verbatim>\<open>handlers/schedule.go\<close>, \<^verbatim>\<open>mapping/task.go\<close>, \<^verbatim>\<open>dedup\<close> and \<^verbatim>\<open>groups\<close>, over \<open>Task_Db\<close>; \<open>Spc_Schedule_Laws\<close> has echoes and
    page tokens.

  \<^bold>\<open>What is shown.\<close> Convergence: in every reachable state the mirror is the last-writer-wins
  state of all operations handed over, so servers handed the same operations agree, whatever the
  order, duplication and batching. Delivery: acknowledgements name the greatest contiguous settled
  operation, re-delivery changes nothing, and iterated pulls deliver every operation once.
  Reclamation: compaction keeps every winner and deletes only what no active device still needs.
  Server edits always win and change only what they name. The HTTP layer never fails against a
  well-formed store. Search follows the mirror, and so do the embeddings where a page's text is not empty and the
  model answers; the embedding cache never drifts from its table. CalDAV reports bring a client with an accepted token up to date; PUT, purge,
  completion and the VTODO round trip are characterized on every branch. The job queue is first
  come, first served and drains. A server edit of a reMarkable tree is applied to exactly the root that it
  replaces, whatever devices write at four moments of each attempt; with no device in the way it changes exactly
  the document it names; index files round-trip; signed URLs grant only
  what they were signed for; the recognition queue hands a page out at most five times from one enqueue that writes its
  job to the next. No session of requests and transfers
  of the private cloud changes anything outside its storage root; a move carries the whole subtree and nothing else, with
  its ids; a listing is exact; the pages of a web listing partition it; restoring from the recycle
  directory inverts a deletion; an upload that is not verified leaves its target alone, and one that is finished is what the download
  URL of its id serves, within the window of the URL. The search index follows the digests through any requests as long as the requests on groups name groups, a pushed
  digest comes back as it was sent, and notices of deletions reach the device. A login grants a token for the one
  user's lane; a device that pushes back its tasks changes only their stamps and those instants of completion that do not fit
  their status, and its pulls of a store at rest are complete. Theorems also record where the code falls short: an op forged
  under the server's own site id blocks authoring, re-delivery after a purge, a limited report that
  never progresses, a report that races with a write, a PUT under a foreign path, a purge window
  that wraps, a bearer that needs no token, a page that changes while it waits for recognition,
  a presigned URL whose window its holder can stretch, an embedding that outlives its text, an item deleted as a group that stays in the index,
  a notice that is cleared without having been sent, a pushed deletion of a task that is not stored, a page
  token that skips a task.

  \<^bold>\<open>Bounds and fuel.\<close> \<open>FolderPath\<close> follows at most 65 parents, as the loop in the code does. The
  iterated pull takes fuel, and one more than the number of relayed rows is shown to be enough; so
  does the drained job queue, with one more than the number of eligible jobs. The bridge queue has
  the 256 slots of the code, as has the digest queue, and chunks have at most 1500 bytes. Timestamps and sequence numbers are
  integers with the 64-bit wrap written out where the code can reach it: the clock, the
  purge window, ULID times. A tree commit is tried 5 times and the cycle check walks 100 parents, as
  in the code. A name that is taken is numbered from 1 to 999, an upload has at most 1024 chunks
  and the recycle listing shows its first 500 entries, as in the code; the walk that prunes empty
  directories and the walk to a root of a breadcrumb end with the segments of the path.

  \<^bold>\<open>Parameters.\<close> Digests (md5, sha1, sha256), the JSON and iCalendar codecs, XML decoding, the time read
  from the wall clock, random bytes, names of temporary files, JWTs, rendering, recognition and embedding are arguments; a
  property that relies on one states what it needs, and its witness instantiates it. Strings are
  byte strings, and white space is ASCII white space. SQL is modelled at the level of statements
  on tables with the constraints of the schema; a statement that violates a constraint is an error
  value, and failures of the database itself are not modelled. Transactions are serial, as the
  store opens one connection.

  \<^bold>\<open>Not modelled\<close>, and why: the full-text match and the ranked retriever (SQLite's FTS5 and
  floating-point scores); rendering, note file formats and OCR (graphics, third-party services);
  the Boox pipeline, WebDAV and file watching (file and network I/O); note conversion of the private
  cloud; the push of reMarkable notifications; the web UI, chat, settings, its authentication and the
  command line (glue). 

  \<^bold>\<open>Assumptions and granularity.\<close> The theorems on the reMarkable store assume that SHA-1, which names the files
  of blobs, does not collide on the finitely many ids the store holds at the end of the run (\<open>mutateTree\<close>) or holds
  and is about to write (\<open>edit_listing\<close>). A handler is one step over the database unless its theory splits it
  (\<open>Spc_Push_Laws\<close>, the queries of a CalDAV report, the moments of a tree edit): a compaction round and a hard delete with
  its floor are one step each, although the code runs several statements, the last of them best effort. The
  branch of the sync endpoint for requests with the header of bounded rows is modelled apart, in
  \<open>Bounded\<close>. The acknowledged number is an unbounded integer: it counts contiguous operations from one, so the 64-bit
  addition cannot wrap before that many are stored.
\<close>

end
